(* ===== verification/Nx_Prelude.thy ===== *)
theory Nx_Prelude
  imports Main "HOL-Library.Word" "HOL-Library.Monad_Syntax"
begin

text \<open>
  Shared vocabulary of the development: machine integer types, memory access with
  bounds (undefined behaviour is the value \<open>None\<close>), the view of an array as a ring,
  and the fact collections the component theories contribute to.

  Conventions used everywhere:
  \<^item> \<open>uint8_t\<close>, \<open>uint16_t\<close>, \<open>uint32_t\<close>, \<open>uint64_t\<close> are words of their width; \<open>size_t\<close> is
    \<open>nat\<close> (objects are smaller than \<open>SIZE_MAX\<close>); where the code computes a size that can wrap, the
    wrap at \<open>2 ^ 64\<close> is written out.
  \<^item> A pointer that may be NULL is an \<open>option\<close>, or a \<open>nat\<close> address with 0 for NULL.
  \<^item> An operation that touches memory returns an \<open>option\<close>: \<open>None\<close> is an access outside the
    object (undefined behaviour in C), so \<open>f x = Some y\<close> says the code runs safely and yields \<open>y\<close>.
\<close>

unbundle bit_operations_syntax

type_synonym u8 = "8 word"
type_synonym u16 = "16 word"
type_synonym u32 = "32 word"
type_synonym u64 = "64 word"
type_synonym bytes = "u8 list"

text \<open>The largest \<open>size_t\<close> of the 64-bit target.\<close>

abbreviation SIZE_MAX :: nat where
  "SIZE_MAX \<equiv> 2 ^ 64 - 1"

text \<open>
  \<open>(int32_t)(a - b)\<close>: the signed distance of two readings of a free-running counter, and
  the wrap-safe test that \<open>now\<close> has reached a deadline. \<open>size_t\<close> subtraction, which wraps.
\<close>

definition tick_diff :: "u32 \<Rightarrow> u32 \<Rightarrow> int" where
  "tick_diff a b = sint (a - b)"

definition tick_reached :: "u32 \<Rightarrow> u32 \<Rightarrow> bool" where
  "tick_reached now deadline \<longleftrightarrow> tick_diff now deadline \<ge> 0"

definition size_sub :: "nat \<Rightarrow> nat \<Rightarrow> nat" where
  "size_sub a b = (if b \<le> a then a - b else a + 2 ^ 64 - b)"

lemma size_sub_le [simp]: "b \<le> a \<Longrightarrow> size_sub a b = a - b"
  by (simp add: size_sub_def)

text \<open>Facts every component's invariant proofs share, and the defining equations of the
  operations, collected per purpose.\<close>

named_theorems inv_intros \<open>preservation of component invariants\<close>
named_theorems ring_simps \<open>index arithmetic of ring buffers\<close>
named_theorems mem_simps \<open>bounded memory access\<close>

text \<open>A word read at a larger width.\<close>

lemma unat_ucast_wider:
  fixes x :: "'a::len word"
  assumes "LENGTH('a) \<le> LENGTH('b::len)"
  shows "unat (ucast x :: 'b word) = unat x"
proof -
  have "unat x < 2 ^ LENGTH('a)" by (rule unsigned_less)
  also have "(2 :: nat) ^ LENGTH('a) \<le> 2 ^ LENGTH('b)" using assms by simp
  finally show ?thesis unfolding unsigned_ucast_eq by (rule take_bit_nat_eq_self)
qed

section \<open>Bounded memory access\<close>

text \<open>\<open>memcpy\<close> out of an object, and into it: \<open>None\<close> when the range leaves the object.\<close>

definition mem_read :: "nat \<Rightarrow> nat \<Rightarrow> 'a list \<Rightarrow> 'a list option" where
  "mem_read off n xs = (if off + n \<le> length xs then Some (take n (drop off xs)) else None)"

definition mem_write :: "nat \<Rightarrow> 'a list \<Rightarrow> 'a list \<Rightarrow> 'a list option" where
  "mem_write off ys xs =
     (if off + length ys \<le> length xs then Some (take off xs @ ys @ drop (off + length ys) xs)
      else None)"

definition mem_get :: "nat \<Rightarrow> 'a list \<Rightarrow> 'a option" where
  "mem_get i xs = (if i < length xs then Some (xs ! i) else None)"

lemma mem_read_Some [mem_simps]:
  "off + n \<le> length xs \<Longrightarrow> mem_read off n xs = Some (take n (drop off xs))"
  by (simp add: mem_read_def)

lemma mem_write_Some [mem_simps]:
  "off + length ys \<le> length xs \<Longrightarrow>
   mem_write off ys xs = Some (take off xs @ ys @ drop (off + length ys) xs)"
  by (simp add: mem_write_def)

lemma mem_get_Some [mem_simps]: "i < length xs \<Longrightarrow> mem_get i xs = Some (xs ! i)"
  by (simp add: mem_get_def)

lemma mem_read_eq_SomeD:
  "mem_read off n xs = Some ys \<Longrightarrow> off + n \<le> length xs \<and> ys = take n (drop off xs)"
  by (auto simp: mem_read_def split: if_splits)

lemma mem_write_eq_SomeD:
  "mem_write off ys xs = Some zs \<Longrightarrow>
   off + length ys \<le> length xs \<and> zs = take off xs @ ys @ drop (off + length ys) xs"
  by (auto simp: mem_write_def split: if_splits)

lemma mem_write_length:
  "mem_write off ys xs = Some zs \<Longrightarrow> length zs = length xs"
  by (auto simp: mem_write_def split: if_splits)

lemma mem_write_ok: "off + length ys \<le> length xs \<Longrightarrow> \<exists>zs. mem_write off ys xs = Some zs"
  by (simp add: mem_write_def)

lemma mem_write_nth:
  assumes "mem_write off ys xs = Some zs" and "i < length xs"
  shows "zs ! i = (if off \<le> i \<and> i < off + length ys then ys ! (i - off) else xs ! i)"
  using assms by (auto simp: mem_write_def nth_append min_def split: if_splits)

lemma mem_get_write0:
  assumes "mem_write 0 ys xs = Some zs" and "i < length ys"
  shows "mem_get i zs = Some (ys ! i)"
  using assms mem_write_nth[OF assms(1), of i] mem_write_length[OF assms(1)]
  by (auto simp: mem_get_def mem_write_def split: if_splits)

lemma mem_write_nil [simp]: "off \<le> length xs \<Longrightarrow> mem_write off [] xs = Some xs"
  by (simp add: mem_write_def)

lemma mem_read_write_same:
  assumes "mem_write off ys xs = Some zs"
  shows "mem_read off (length ys) zs = Some ys"
  using assms by (auto simp: mem_write_def mem_read_def split: if_splits)

lemma mem_read_write_other:
  assumes "mem_write off ys xs = Some zs" and "o' + n \<le> off \<or> off + length ys \<le> o'"
  shows "mem_read o' n zs = mem_read o' n xs"
proof (cases "o' + n \<le> length xs")
  case True
  have len: "length zs = length xs" using assms(1) by (rule mem_write_length)
  have "take n (drop o' zs) = take n (drop o' xs)"
  proof (rule nth_equalityI)
    show "length (take n (drop o' zs)) = length (take n (drop o' xs))" by (simp add: len)
  next
    fix i assume "i < length (take n (drop o' zs))"
    then have "i < n" "o' + i < length xs" using len by auto
    then show "take n (drop o' zs) ! i = take n (drop o' xs) ! i"
      using assms(2) mem_write_nth[OF assms(1), of "o' + i"] len by auto
  qed
  with True len show ?thesis by (simp add: mem_read_def)
next
  case False
  with mem_write_length[OF assms(1)] show ?thesis by (simp add: mem_read_def)
qed

text \<open>Slots of equal size in one area: each lies inside, and different ones do not overlap.\<close>

lemma slot_bound: "i < cap \<Longrightarrow> cap * es \<le> n \<Longrightarrow> i * es + es \<le> (n::nat)"
proof -
  assume "i < cap" "cap * es \<le> n"
  have "i * es + es = Suc i * es" by simp
  also have "\<dots> \<le> cap * es" using \<open>i < cap\<close> by (intro mult_le_mono1) simp
  finally show ?thesis using \<open>cap * es \<le> n\<close> by simp
qed

lemma slot_apart: "i \<noteq> j \<Longrightarrow> i * es + es \<le> j * es \<or> j * es + es \<le> i * (es::nat)"
proof -
  assume "i \<noteq> j"
  then consider "Suc i \<le> j" | "Suc j \<le> i" by linarith
  then show ?thesis
    by cases (auto dest: mult_le_mono1[where k = es])
qed

section \<open>Handles that may be NULL\<close>

text \<open>
  Most entry points start with \<open>if (h == NULL) return r;\<close>. The handle is an \<open>option\<close>, and the body runs on
  the object behind it: it returns its result with the updated object, or \<open>None\<close> when it leaves
  the bounds of an object.
\<close>

definition on_handle :: "'h option \<Rightarrow> 'r \<Rightarrow> ('h \<Rightarrow> ('r \<times> 'h) option) \<Rightarrow> ('r \<times> 'h option) option" where
  "on_handle hp r body =
     (case hp of None \<Rightarrow> Some (r, None) | Some h \<Rightarrow> map_option (\<lambda>(x, h'). (x, Some h')) (body h))"

lemma on_handle_None [simp]: "on_handle None r body = Some (r, None)"
  by (simp add: on_handle_def)

lemma on_handle_Some [simp]:
  "on_handle (Some h) r body = map_option (\<lambda>(x, h'). (x, Some h')) (body h)"
  by (simp add: on_handle_def)

section \<open>Rings\<close>

text \<open>The \<open>n\<close> items of a ring of \<open>cap\<close> slots starting at \<open>head\<close>; \<open>f i\<close> is slot \<open>i\<close>.\<close>

definition ring_items :: "(nat \<Rightarrow> 'a) \<Rightarrow> nat \<Rightarrow> nat \<Rightarrow> nat \<Rightarrow> 'a list" where
  "ring_items f cap head n = map (\<lambda>i. f ((head + i) mod cap)) [0..<n]"

text \<open>The code's way to reduce an index below twice the capacity: one conditional subtraction.\<close>

definition ring_wrap :: "nat \<Rightarrow> nat \<Rightarrow> nat" where
  "ring_wrap cap i = (if cap \<le> i then i - cap else i)"

lemma ring_wrap_mod [ring_simps]: "i < 2 * cap \<Longrightarrow> ring_wrap cap i = i mod cap"
  by (auto simp: ring_wrap_def le_mod_geq)

lemma ring_wrap_less: "i < 2 * cap \<Longrightarrow> ring_wrap cap i < cap"
  by (auto simp: ring_wrap_def)

lemma length_ring_items [simp]: "length (ring_items f cap head n) = n"
  by (simp add: ring_items_def)

lemma ring_items_nth [simp]: "i < n \<Longrightarrow> ring_items f cap head n ! i = f ((head + i) mod cap)"
  by (simp add: ring_items_def)

lemma ring_items_0 [simp]: "ring_items f cap head 0 = []"
  by (simp add: ring_items_def)

lemma ring_items_eq_Nil [simp]: "ring_items f cap head n = [] \<longleftrightarrow> n = 0"
  by (simp add: ring_items_def)

lemma ring_items_drop:
  assumes "k \<le> n"
  shows "ring_items f cap ((head + k) mod cap) (n - k) = drop k (ring_items f cap head n)"
  by (rule nth_equalityI) (use assms in \<open>auto simp: add.assoc mod_add_left_eq\<close>)

lemma ring_items_take:
  "k \<le> n \<Longrightarrow> take k (ring_items f cap head n) = ring_items f cap head k"
  by (rule nth_equalityI) auto

lemma ring_items_append:
  "ring_items f cap head (n + k) =
   ring_items f cap head n @ ring_items f cap (head + n) k"
  by (rule nth_equalityI) (auto simp: nth_append add.assoc)

lemma ring_items_cong:
  assumes "\<And>i. i < n \<Longrightarrow> f ((head + i) mod cap) = g ((head + i) mod cap)"
  shows "ring_items f cap head n = ring_items g cap head n"
  by (rule nth_equalityI) (use assms in auto)

text \<open>Distinct positions of a ring that is not over-full are distinct slots.\<close>

lemma mod_shift_eq_iff:
  assumes "(i::nat) < cap" "j < cap"
  shows "(h + i) mod cap = (h + j) mod cap \<longleftrightarrow> i = j"
proof
  assume "(h + i) mod cap = (h + j) mod cap"
  then have "(int h + int i) mod int cap = (int h + int j) mod int cap"
    by (metis of_nat_add of_nat_mod)
  then have "int i mod int cap = int j mod int cap"
    by (simp add: mod_eq_dvd_iff)
  with assms show "i = j" by simp
qed simp

section \<open>Words\<close>

lemma xor_eq_0_iff [simp]: "(x :: 'w::len word) XOR y = 0 \<longleftrightarrow> x = y"
proof
  assume eq: "x XOR y = 0"
  have "x = (x XOR y) XOR y" by (simp add: xor.assoc)
  with eq show "x = y" by simp
qed simp

lemma xor_cancel_right [simp]: "(x :: 'w::len word) XOR z = y XOR z \<longleftrightarrow> x = y"
  by (metis xor.assoc xor_self_eq xor.right_neutral)

lemma xor_cancel_left [simp]: "z XOR (x :: 'w::len word) = z XOR y \<longleftrightarrow> x = y"
  by (metis xor.commute xor_cancel_right)

lemma bit_times2: "bit (v * 2 :: 'w::len word) n \<longleftrightarrow> 0 < n \<and> n < LENGTH('w) \<and> bit v (n - 1)"
  by (cases n) (auto simp: mult.commute[of v] bit_double_iff dest: bit_imp_le_length)

lemma mask_8_eq: "(0xFF :: 'w::len word) = mask 8"
  by (simp add: mask_eq_exp_minus_1)

lemma unat_u8_less [simp]: "unat (b :: u8) < 256"
  using unsigned_less[of b, where ?'a = nat] by simp

lemma less_8_cases:
  assumes "(n::nat) < 8" shows "n \<in> {0,1,2,3,4,5,6,7}"
  using assms by auto

lemma less_16_cases:
  assumes "(n::nat) < 16" shows "n \<in> {0,1,2,3,4,5,6,7,8,9,10,11,12,13,14,15}"
proof -
  have "n \<in> set [0..<16]" using assms by simp
  also have "[0..<16] = [0,1,2,3,4,5,6,7,8,9,10,11,12,13,14,15::nat]" by (simp add: upt_rec)
  finally show ?thesis by simp
qed

lemma less_32_cases:
  assumes "(n::nat) < 32"
  shows "n \<in> {0,1,2,3,4,5,6,7,8,9,10,11,12,13,14,15,16,17,18,19,20,21,22,23,24,25,26,27,28,29,30,31}"
proof -
  have "n \<in> set [0..<32]" using assms by simp
  also have "[0..<32] = [0,1,2,3,4,5,6,7,8,9,10,11,12,13,14,15,16,17,18,19,20,21,22,23,24,25,26,27,
      28,29,30,31::nat]" by (simp add: upt_rec)
  finally show ?thesis by simp
qed

lemma funpow_8: "(f ^^ 8) x = f (f (f (f (f (f (f (f x)))))))"
  by (simp add: numeral_eq_Suc)

section \<open>Byte lanes of a word\<close>

text \<open>Taking a word apart into bytes and joining the bytes again, bit by bit.\<close>

lemma bit_byte_slice:
  "bit (push_bit k (ucast (ucast (drop_bit k v) :: u8)) :: 'w::len word) n \<longleftrightarrow>
   k \<le> n \<and> n < k + 8 \<and> bit (v :: 'w word) n"
proof -
  have "bit (push_bit k (ucast (ucast (drop_bit k v) :: u8)) :: 'w::len word) n \<longleftrightarrow>
     n < LENGTH('w) \<and> k \<le> n \<and> n - k < LENGTH('w) \<and> n - k < 8 \<and> bit v (k + (n - k))"
    by (auto simp: bit_simps)
  also have "\<dots> \<longleftrightarrow> k \<le> n \<and> n < k + 8 \<and> bit v n"
    by (cases "k \<le> n") (auto dest: bit_imp_le_length)
  finally show ?thesis .
qed

lemma bit_byte_slice0:
  "bit (ucast (ucast v :: u8) :: 'w::len word) n \<longleftrightarrow> n < 8 \<and> bit (v :: 'w word) n"
  by (auto simp: bit_simps dest: bit_imp_le_length)

lemma join16: "push_bit 8 (ucast (ucast (drop_bit 8 v) :: u8)) OR ucast (ucast v :: u8) = (v :: u16)"
  by (rule bit_word_eqI) (simp add: bit_or_iff bit_byte_slice bit_byte_slice0, arith)

lemma join16_inject:
  "ucast (a :: u8) OR push_bit 8 (ucast (b :: u8)) = (ucast c OR push_bit 8 (ucast d) :: u16) \<longleftrightarrow> a = c \<and> b = d"
proof
  assume eq: "ucast a OR push_bit 8 (ucast b) = (ucast c OR push_bit 8 (ucast d) :: u16)"
  have lo: "(ucast (ucast x OR push_bit 8 (ucast y) :: u16) :: u8) = x" for x y :: u8
    by (rule bit_word_eqI) (auto simp: bit_simps)
  have hi: "(ucast (drop_bit 8 (ucast x OR push_bit 8 (ucast y) :: u16)) :: u8) = y" for x y :: u8
    by (rule bit_word_eqI) (auto simp: bit_simps dest: bit_imp_le_length)
  from eq show "a = c \<and> b = d" by (metis lo hi)
qed simp

lemma join32:
  "push_bit 24 (ucast (ucast (drop_bit 24 v) :: u8)) OR push_bit 16 (ucast (ucast (drop_bit 16 v) :: u8)) OR
   push_bit 8 (ucast (ucast (drop_bit 8 v) :: u8)) OR ucast (ucast v :: u8) = (v :: u32)"
  by (rule bit_word_eqI) (simp add: bit_or_iff bit_byte_slice bit_byte_slice0, arith)

lemma join64:
  "push_bit 56 (ucast (ucast (drop_bit 56 v) :: u8)) OR push_bit 48 (ucast (ucast (drop_bit 48 v) :: u8)) OR
   push_bit 40 (ucast (ucast (drop_bit 40 v) :: u8)) OR push_bit 32 (ucast (ucast (drop_bit 32 v) :: u8)) OR
   push_bit 24 (ucast (ucast (drop_bit 24 v) :: u8)) OR push_bit 16 (ucast (ucast (drop_bit 16 v) :: u8)) OR
   push_bit 8 (ucast (ucast (drop_bit 8 v) :: u8)) OR ucast (ucast v :: u8) = (v :: u64)"
  by (rule bit_word_eqI) (simp add: bit_or_iff bit_byte_slice bit_byte_slice0, arith)

section \<open>Runs and simulation\<close>

text \<open>A sequence of operations on one object; the run is undefined when one of them is.\<close>

primrec run_ops :: "('op \<Rightarrow> 's \<Rightarrow> ('out \<times> 's) option) \<Rightarrow> 'op list \<Rightarrow> 's \<Rightarrow> ('out list \<times> 's) option" where
  "run_ops step [] s = Some ([], s)"
| "run_ops step (x # xs) s = do {
     (r, s1) \<leftarrow> step x s;
     (rs, s2) \<leftarrow> run_ops step xs s1;
     Some (r # rs, s2) }"

text \<open>The same for a specification, which is total.\<close>

primrec run_spec :: "('op \<Rightarrow> 'a \<Rightarrow> 'out \<times> 'a) \<Rightarrow> 'op list \<Rightarrow> 'a \<Rightarrow> 'out list \<times> 'a" where
  "run_spec astep [] a = ([], a)"
| "run_spec astep (x # xs) a =
     (let (r, a1) = astep x a; (rs, a2) = run_spec astep xs a1 in (r # rs, a2))"

text \<open>
  The contract between an implementation and its specification: on well-formed states an admitted operation
  is defined, keeps well-formedness, and yields the specified result and successor.
\<close>

locale simulation =
  fixes wf :: "'s \<Rightarrow> bool" and ok :: "'op \<Rightarrow> bool" and abs :: "'s \<Rightarrow> 'a"
    and step :: "'op \<Rightarrow> 's \<Rightarrow> ('out \<times> 's) option" and astep :: "'op \<Rightarrow> 'a \<Rightarrow> 'out \<times> 'a"
  assumes step_sim: "wf s \<Longrightarrow> ok x \<Longrightarrow>
    \<exists>s'. step x s = Some (fst (astep x (abs s)), s') \<and> wf s' \<and> abs s' = snd (astep x (abs s))"
begin

lemma run_sim:
  "wf s \<Longrightarrow> list_all ok xs \<Longrightarrow>
   \<exists>s'. run_ops step xs s = Some (fst (run_spec astep xs (abs s)), s') \<and> wf s' \<and>
        abs s' = snd (run_spec astep xs (abs s))"
proof (induction xs arbitrary: s)
  case (Cons x xs)
  then obtain s1 where "step x s = Some (fst (astep x (abs s)), s1)" "wf s1" "abs s1 = snd (astep x (abs s))"
    using step_sim by fastforce
  with Cons show ?case by (fastforce simp: split_beta Let_def)
qed simp

end

end
