(* ===== verification/Nx_Bytes.thy ===== *)
theory Nx_Bytes
  imports Nx_Prelude
begin

text \<open>
  \<open>src/core/nx_bytes.h\<close>: endian conversion, byte swapping and the bit macros. A pointer argument is
  the list of bytes it points at; reading or writing past its end is \<open>None\<close>, since the functions
  validate nothing. The lemmas are the read/write round trips of every width and byte order and what each
  macro does to every bit of its operand.
\<close>

section \<open>Host byte order\<close>

text \<open>The object representation of a 16-bit value is the target's choice, a parameter \<open>le\<close>.\<close>

definition object_bytes16 :: "bool \<Rightarrow> u16 \<Rightarrow> bytes" where
  "object_bytes16 le v =
     (if le then [ucast v, ucast (drop_bit 8 v)] else [ucast (drop_bit 8 v), ucast v])"

definition nx_bytes_is_little_endian :: "bool \<Rightarrow> bool" where
  "nx_bytes_is_little_endian le \<longleftrightarrow> hd (object_bytes16 le 0x0001) = 0x01"

definition nx_bytes_is_big_endian :: "bool \<Rightarrow> bool" where
  "nx_bytes_is_big_endian le \<longleftrightarrow> \<not> nx_bytes_is_little_endian le"

lemma nx_bytes_is_little_endian_iff: "nx_bytes_is_little_endian le \<longleftrightarrow> le"
  by (simp add: nx_bytes_is_little_endian_def object_bytes16_def)

section \<open>Big-endian access\<close>

definition nx_bytes_get_be16 :: "bytes \<Rightarrow> u16 option" where
  "nx_bytes_get_be16 p = do {
     b0 \<leftarrow> mem_get 0 p; b1 \<leftarrow> mem_get 1 p;
     Some (push_bit 8 (ucast b0) OR ucast b1) }"

definition nx_bytes_set_be16 :: "bytes \<Rightarrow> u16 \<Rightarrow> bytes option" where
  "nx_bytes_set_be16 p v = mem_write 0 [ucast (drop_bit 8 v), ucast v] p"

definition nx_bytes_get_be32 :: "bytes \<Rightarrow> u32 option" where
  "nx_bytes_get_be32 p = do {
     b0 \<leftarrow> mem_get 0 p; b1 \<leftarrow> mem_get 1 p; b2 \<leftarrow> mem_get 2 p; b3 \<leftarrow> mem_get 3 p;
     Some (push_bit 24 (ucast b0) OR push_bit 16 (ucast b1) OR push_bit 8 (ucast b2) OR ucast b3) }"

definition nx_bytes_set_be32 :: "bytes \<Rightarrow> u32 \<Rightarrow> bytes option" where
  "nx_bytes_set_be32 p v =
     mem_write 0 [ucast (drop_bit 24 v), ucast (drop_bit 16 v), ucast (drop_bit 8 v), ucast v] p"

definition nx_bytes_get_be64 :: "bytes \<Rightarrow> u64 option" where
  "nx_bytes_get_be64 p = do {
     b0 \<leftarrow> mem_get 0 p; b1 \<leftarrow> mem_get 1 p; b2 \<leftarrow> mem_get 2 p; b3 \<leftarrow> mem_get 3 p;
     b4 \<leftarrow> mem_get 4 p; b5 \<leftarrow> mem_get 5 p; b6 \<leftarrow> mem_get 6 p; b7 \<leftarrow> mem_get 7 p;
     Some (push_bit 56 (ucast b0) OR push_bit 48 (ucast b1) OR push_bit 40 (ucast b2) OR
           push_bit 32 (ucast b3) OR push_bit 24 (ucast b4) OR push_bit 16 (ucast b5) OR
           push_bit 8 (ucast b6) OR ucast b7) }"

definition nx_bytes_set_be64 :: "bytes \<Rightarrow> u64 \<Rightarrow> bytes option" where
  "nx_bytes_set_be64 p v =
     mem_write 0 [ucast (drop_bit 56 v), ucast (drop_bit 48 v), ucast (drop_bit 40 v),
                  ucast (drop_bit 32 v), ucast (drop_bit 24 v), ucast (drop_bit 16 v),
                  ucast (drop_bit 8 v), ucast v] p"

section \<open>Little-endian access\<close>

definition nx_bytes_get_le16 :: "bytes \<Rightarrow> u16 option" where
  "nx_bytes_get_le16 p = do {
     b1 \<leftarrow> mem_get 1 p; b0 \<leftarrow> mem_get 0 p;
     Some (push_bit 8 (ucast b1) OR ucast b0) }"

definition nx_bytes_set_le16 :: "bytes \<Rightarrow> u16 \<Rightarrow> bytes option" where
  "nx_bytes_set_le16 p v = mem_write 0 [ucast v, ucast (drop_bit 8 v)] p"

definition nx_bytes_get_le32 :: "bytes \<Rightarrow> u32 option" where
  "nx_bytes_get_le32 p = do {
     b3 \<leftarrow> mem_get 3 p; b2 \<leftarrow> mem_get 2 p; b1 \<leftarrow> mem_get 1 p; b0 \<leftarrow> mem_get 0 p;
     Some (push_bit 24 (ucast b3) OR push_bit 16 (ucast b2) OR push_bit 8 (ucast b1) OR ucast b0) }"

definition nx_bytes_set_le32 :: "bytes \<Rightarrow> u32 \<Rightarrow> bytes option" where
  "nx_bytes_set_le32 p v =
     mem_write 0 [ucast v, ucast (drop_bit 8 v), ucast (drop_bit 16 v), ucast (drop_bit 24 v)] p"

definition nx_bytes_get_le64 :: "bytes \<Rightarrow> u64 option" where
  "nx_bytes_get_le64 p = do {
     b7 \<leftarrow> mem_get 7 p; b6 \<leftarrow> mem_get 6 p; b5 \<leftarrow> mem_get 5 p; b4 \<leftarrow> mem_get 4 p;
     b3 \<leftarrow> mem_get 3 p; b2 \<leftarrow> mem_get 2 p; b1 \<leftarrow> mem_get 1 p; b0 \<leftarrow> mem_get 0 p;
     Some (push_bit 56 (ucast b7) OR push_bit 48 (ucast b6) OR push_bit 40 (ucast b5) OR
           push_bit 32 (ucast b4) OR push_bit 24 (ucast b3) OR push_bit 16 (ucast b2) OR
           push_bit 8 (ucast b1) OR ucast b0) }"

definition nx_bytes_set_le64 :: "bytes \<Rightarrow> u64 \<Rightarrow> bytes option" where
  "nx_bytes_set_le64 p v =
     mem_write 0 [ucast v, ucast (drop_bit 8 v), ucast (drop_bit 16 v), ucast (drop_bit 24 v),
                  ucast (drop_bit 32 v), ucast (drop_bit 40 v), ucast (drop_bit 48 v),
                  ucast (drop_bit 56 v)] p"

section \<open>Byte swap\<close>

definition nx_bytes_swap16 :: "u16 \<Rightarrow> u16" where
  "nx_bytes_swap16 v = (drop_bit 8 v AND 0x00FF) OR (push_bit 8 v AND 0xFF00)"

definition nx_bytes_swap32 :: "u32 \<Rightarrow> u32" where
  "nx_bytes_swap32 v =
     (drop_bit 24 v AND 0x000000FF) OR (drop_bit 8 v AND 0x0000FF00) OR
     (push_bit 8 v AND 0x00FF0000) OR (push_bit 24 v AND 0xFF000000)"

definition nx_bytes_swap64 :: "u64 \<Rightarrow> u64" where
  "nx_bytes_swap64 v =
     (drop_bit 56 v AND 0x00000000000000FF) OR (drop_bit 40 v AND 0x000000000000FF00) OR
     (drop_bit 24 v AND 0x0000000000FF0000) OR (drop_bit 8 v AND 0x00000000FF000000) OR
     (push_bit 8 v AND 0x000000FF00000000) OR (push_bit 24 v AND 0x0000FF0000000000) OR
     (push_bit 40 v AND 0x00FF000000000000) OR (push_bit 56 v AND 0xFF00000000000000)"

section \<open>Bit macros\<close>

text \<open>
  The mask \<open>1u << bit\<close> is an \<open>unsigned int\<close>, 32 bits wide (shifting by 32 or more is undefined,
  \<open>None\<close>), whatever the width of \<open>var\<close>; the usual arithmetic conversions then bring it to the
  common type, which zero-extends it for a wider operand.
\<close>

definition bit_mask_u :: "nat \<Rightarrow> u32 option" where
  "bit_mask_u b = (if b < 32 then Some (push_bit b 1) else None)"

definition nx_bit_set :: "'w::len word \<Rightarrow> nat \<Rightarrow> 'w word option" where
  "nx_bit_set var b = map_option (\<lambda>m. var OR ucast m) (bit_mask_u b)"

definition nx_bit_clear :: "'w::len word \<Rightarrow> nat \<Rightarrow> 'w word option" where
  "nx_bit_clear var b = map_option (\<lambda>m. var AND ucast (NOT m)) (bit_mask_u b)"

definition nx_bit_toggle :: "'w::len word \<Rightarrow> nat \<Rightarrow> 'w word option" where
  "nx_bit_toggle var b = map_option (\<lambda>m. var XOR ucast m) (bit_mask_u b)"

definition nx_bit_test :: "'w::len word \<Rightarrow> nat \<Rightarrow> bool option" where
  "nx_bit_test v b = map_option (\<lambda>m. v AND ucast m \<noteq> 0) (bit_mask_u b)"

section \<open>Round trips\<close>

lemma get_set_be16: "nx_bytes_set_be16 p v = Some p' \<Longrightarrow> nx_bytes_get_be16 p' = Some v"
  by (simp add: nx_bytes_set_be16_def nx_bytes_get_be16_def mem_get_write0 join16)

lemma get_set_le16: "nx_bytes_set_le16 p v = Some p' \<Longrightarrow> nx_bytes_get_le16 p' = Some v"
  by (simp add: nx_bytes_set_le16_def nx_bytes_get_le16_def mem_get_write0 join16)

lemma get_set_be32: "nx_bytes_set_be32 p v = Some p' \<Longrightarrow> nx_bytes_get_be32 p' = Some v"
  by (simp add: nx_bytes_set_be32_def nx_bytes_get_be32_def mem_get_write0 join32)

lemma get_set_le32: "nx_bytes_set_le32 p v = Some p' \<Longrightarrow> nx_bytes_get_le32 p' = Some v"
  by (simp add: nx_bytes_set_le32_def nx_bytes_get_le32_def mem_get_write0 join32)

lemma get_set_be64: "nx_bytes_set_be64 p v = Some p' \<Longrightarrow> nx_bytes_get_be64 p' = Some v"
  by (simp add: nx_bytes_set_be64_def nx_bytes_get_be64_def mem_get_write0 join64)

lemma get_set_le64: "nx_bytes_set_le64 p v = Some p' \<Longrightarrow> nx_bytes_get_le64 p' = Some v"
  by (simp add: nx_bytes_set_le64_def nx_bytes_get_le64_def mem_get_write0 join64)

text \<open>The writers need exactly as many bytes as their width, and leave what follows alone.\<close>

lemma set_le64_append:
  "length xs = 8 \<Longrightarrow> nx_bytes_set_le64 (xs @ ys) v = map_option (\<lambda>b. b @ ys) (nx_bytes_set_le64 xs v)"
  by (simp add: nx_bytes_set_le64_def mem_write_def)

text \<open>Taking one byte lane out of a joined word, and the lanes of the swap functions.\<close>

lemma lane_same:
  "k + 8 \<le> LENGTH('w) \<Longrightarrow>
   (ucast (drop_bit k (push_bit k (ucast (b :: u8)) :: 'w::len word)) :: u8) = b"
  by (rule bit_word_eqI) (auto simp: bit_simps)

lemma lane_above:
  "k + 8 \<le> j \<Longrightarrow> (ucast (drop_bit k (push_bit j (x :: 'w::len word))) :: u8) = 0"
  by (rule bit_word_eqI) (auto simp: bit_simps)

lemma lane_below:
  "j + 8 \<le> k \<Longrightarrow> (ucast (drop_bit k (push_bit j (ucast (b :: u8)) :: 'w::len word)) :: u8) = 0"
  by (rule bit_word_eqI) (auto simp: bit_simps dest: bit_imp_le_length)

lemma lane_below0:
  "8 \<le> k \<Longrightarrow> (ucast (drop_bit k (ucast (b :: u8) :: 'w::len word)) :: u8) = 0"
  by (rule bit_word_eqI) (auto simp: bit_simps dest: bit_imp_le_length)

lemma lane_above0: "8 \<le> j \<Longrightarrow> (ucast (push_bit j (x :: 'w::len word)) :: u8) = 0"
  by (rule bit_word_eqI) (auto simp: bit_simps)

lemma lane_same0:
  "8 \<le> LENGTH('w) \<Longrightarrow> (ucast (ucast (b :: u8) :: 'w::len word) :: u8) = b"
  by (rule bit_word_eqI) (auto simp: bit_simps)

lemma ucast_or8: "(ucast ((x :: 'w::len word) OR y) :: u8) = ucast x OR ucast y"
  by (rule bit_word_eqI) (auto simp: bit_simps)

lemma drop_lane:
  "drop_bit k (v :: 'w::len word) AND push_bit j (mask 8) =
   push_bit j (ucast (ucast (drop_bit (k + j) v) :: u8))"
  by (rule bit_word_eqI) (auto simp: bit_simps add.assoc dest: bit_imp_le_length)

lemma push_lane:
  "k \<le> j \<Longrightarrow> push_bit k (v :: 'w::len word) AND push_bit j (mask 8) =
   push_bit j (ucast (ucast (drop_bit (j - k) v) :: u8))"
  by (rule bit_word_eqI) (auto simp: bit_simps dest: bit_imp_le_length)

lemmas lane_simps = lane_same lane_above lane_below lane_below0 lane_above0 lane_same0
  ucast_or8 drop_bit_or

lemma swap16_lanes:
  "nx_bytes_swap16 v = ucast (ucast (drop_bit 8 v) :: u8) OR push_bit 8 (ucast (ucast v :: u8))"
  using drop_lane[of 8 v 0] push_lane[of 8 8 v]
  by (simp add: nx_bytes_swap16_def mask_eq_exp_minus_1)

lemma swap32_lanes:
  "nx_bytes_swap32 v =
     ucast (ucast (drop_bit 24 v) :: u8) OR push_bit 8 (ucast (ucast (drop_bit 16 v) :: u8)) OR
     push_bit 16 (ucast (ucast (drop_bit 8 v) :: u8)) OR push_bit 24 (ucast (ucast v :: u8))"
  using drop_lane[of 24 v 0] drop_lane[of 8 v 8] push_lane[of 8 16 v] push_lane[of 24 24 v]
  by (simp add: nx_bytes_swap32_def mask_eq_exp_minus_1)

lemma swap64_lanes:
  "nx_bytes_swap64 v =
     ucast (ucast (drop_bit 56 v) :: u8) OR push_bit 8 (ucast (ucast (drop_bit 48 v) :: u8)) OR
     push_bit 16 (ucast (ucast (drop_bit 40 v) :: u8)) OR
     push_bit 24 (ucast (ucast (drop_bit 32 v) :: u8)) OR
     push_bit 32 (ucast (ucast (drop_bit 24 v) :: u8)) OR
     push_bit 40 (ucast (ucast (drop_bit 16 v) :: u8)) OR
     push_bit 48 (ucast (ucast (drop_bit 8 v) :: u8)) OR push_bit 56 (ucast (ucast v :: u8))"
  using drop_lane[of 56 v 0] drop_lane[of 40 v 8] drop_lane[of 24 v 16] drop_lane[of 8 v 24]
    push_lane[of 8 32 v] push_lane[of 24 40 v] push_lane[of 40 48 v] push_lane[of 56 56 v]
  by (simp add: nx_bytes_swap64_def mask_eq_exp_minus_1)

lemma get_le16_swap: "nx_bytes_get_le16 p = map_option nx_bytes_swap16 (nx_bytes_get_be16 p)"
  by (cases "1 < length p")
    (auto simp: nx_bytes_get_be16_def nx_bytes_get_le16_def mem_get_def swap16_lanes lane_simps
      or.commute or.left_commute bind_eq_None_conv split: option.splits)

lemma get_le32_swap: "nx_bytes_get_le32 p = map_option nx_bytes_swap32 (nx_bytes_get_be32 p)"
  by (cases "3 < length p")
    (auto simp: nx_bytes_get_be32_def nx_bytes_get_le32_def mem_get_def swap32_lanes lane_simps
      or.commute or.left_commute bind_eq_None_conv split: option.splits)

lemma get_le64_swap: "nx_bytes_get_le64 p = map_option nx_bytes_swap64 (nx_bytes_get_be64 p)"
proof (cases "7 < length p")
  case True
  then show ?thesis
    by (simp add: nx_bytes_get_be64_def nx_bytes_get_le64_def mem_get_def swap64_lanes lane_simps
        or.commute or.left_commute)
next
  case False
  then show ?thesis
    by (auto simp: nx_bytes_get_be64_def nx_bytes_get_le64_def mem_get_def bind_eq_None_conv)
qed

lemma set_then_get:
  assumes "\<And>p'. set_f p v = Some p' \<Longrightarrow> get_f p' = Some v" and "set_f p v \<noteq> None \<longleftrightarrow> n \<le> length p"
  shows "(set_f p v \<bind> get_f) = (if n \<le> length p then Some v else None)"
  using assms by (cases "set_f p v") auto

lemmas nx_bytes_set_defs = nx_bytes_set_be16_def nx_bytes_set_be32_def nx_bytes_set_be64_def
  nx_bytes_set_le16_def nx_bytes_set_le32_def nx_bytes_set_le64_def

text \<open>
  Every writer stores its value so that the matching reader gets it back, for 16, 32 and 64 bits
  and both byte orders (and needs exactly that many bytes), and reading in the other byte order gives
  the value the swap function of that width computes.
\<close>
theorem nx_bytes_endian_roundtrip:
  "(nx_bytes_set_be16 p v16 \<bind> nx_bytes_get_be16) = (if 2 \<le> length p then Some v16 else None) \<and>
   (nx_bytes_set_le16 p v16 \<bind> nx_bytes_get_le16) = (if 2 \<le> length p then Some v16 else None) \<and>
   (nx_bytes_set_be32 p v32 \<bind> nx_bytes_get_be32) = (if 4 \<le> length p then Some v32 else None) \<and>
   (nx_bytes_set_le32 p v32 \<bind> nx_bytes_get_le32) = (if 4 \<le> length p then Some v32 else None) \<and>
   (nx_bytes_set_be64 p v64 \<bind> nx_bytes_get_be64) = (if 8 \<le> length p then Some v64 else None) \<and>
   (nx_bytes_set_le64 p v64 \<bind> nx_bytes_get_le64) = (if 8 \<le> length p then Some v64 else None) \<and>
   nx_bytes_get_le16 p = map_option nx_bytes_swap16 (nx_bytes_get_be16 p) \<and>
   nx_bytes_get_le32 p = map_option nx_bytes_swap32 (nx_bytes_get_be32 p) \<and>
   nx_bytes_get_le64 p = map_option nx_bytes_swap64 (nx_bytes_get_be64 p)"
  by (intro conjI set_then_get get_set_be16 get_set_be32 get_set_be64 get_set_le16 get_set_le32
      get_set_le64 get_le16_swap get_le32_swap get_le64_swap)
    (auto simp: nx_bytes_set_defs mem_write_def)

section \<open>The bit macros\<close>

lemma bit_mask_u_bit: "bit_mask_u b = Some m \<Longrightarrow> bit m i \<longleftrightarrow> i = b"
  by (auto simp: bit_mask_u_def bit_simps split: if_splits)

text \<open>
  What the four bit macros do to every bit of an operand of any width. Set, toggle and test act on
  the named bit alone; clear does so only up to bit 31, because its mask is an \<open>unsigned int\<close>: on a
  64-bit operand it also clears the upper half.
\<close>
theorem nx_bit_macros_bits:
  fixes v :: "'w::len word"
  shows
  "map_option (\<lambda>r. bit r i) (nx_bit_set v b) =
     (if b < 32 then Some (bit v i \<or> i = b \<and> b < LENGTH('w)) else None) \<and>
   map_option (\<lambda>r. bit r i) (nx_bit_clear v b) =
     (if b < 32 then Some (bit v i \<and> i \<noteq> b \<and> i < 32) else None) \<and>
   map_option (\<lambda>r. bit r i) (nx_bit_toggle v b) =
     (if b < 32 then Some (bit v i \<noteq> (i = b \<and> b < LENGTH('w))) else None) \<and>
   nx_bit_test v b = (if b < 32 then Some (bit v b) else None)"
proof (cases "b < 32")
  case False
  then show ?thesis
    by (simp add: nx_bit_set_def nx_bit_clear_def nx_bit_toggle_def nx_bit_test_def bit_mask_u_def)
next
  case True
  have ne: "v AND ucast (push_bit b 1 :: u32) \<noteq> 0 \<longleftrightarrow> bit v b"
  proof -
    have "v AND ucast (push_bit b 1 :: u32) = 0 \<longleftrightarrow> (\<forall>i. \<not> (bit v i \<and> bit (ucast (push_bit b 1 :: u32) :: 'w word) i))"
      by (auto simp: bit_eq_iff bit_and_iff dest: bit_imp_le_length)
    also have "\<dots> \<longleftrightarrow> \<not> bit v b"
      using True by (auto simp: bit_simps dest: bit_imp_le_length)
    finally show ?thesis by blast
  qed
  have "bit (v OR ucast (push_bit b 1 :: u32)) i \<longleftrightarrow> bit v i \<or> i = b \<and> b < LENGTH('w)"
    using True by (auto simp: bit_simps)
  moreover have "bit (v AND ucast (NOT (push_bit b 1 :: u32))) i \<longleftrightarrow> bit v i \<and> i \<noteq> b \<and> i < 32"
    using True by (auto simp: bit_simps dest: bit_imp_le_length)
  moreover have "bit (v XOR ucast (push_bit b 1 :: u32)) i \<longleftrightarrow> bit v i \<noteq> (i = b \<and> b < LENGTH('w))"
    using True by (auto simp: bit_simps)
  ultimately show ?thesis
    using True ne
    by (simp add: nx_bit_set_def nx_bit_clear_def nx_bit_toggle_def nx_bit_test_def bit_mask_u_def)
qed

end
