(* ===== verification/Nx_Can_Bus.thy ===== *)
theory Nx_Can_Bus
  imports Nx_Prelude
begin

text \<open>
  \<open>src/middleware/nx_can_bus.h\<close>: the CAN / CAN FD frame and the conversion between a data length code and
  a payload length. The lemmas say that the two conversions form the rounding of lengths to
  the sizes a code expresses.
\<close>

section \<open>Frames\<close>

abbreviation (input) NX_CAN_MAX_DLC :: u8 where "NX_CAN_MAX_DLC \<equiv> 15"
abbreviation (input) NX_CAN_MAX_CH :: u8 where "NX_CAN_MAX_CH \<equiv> 15"
abbreviation (input) NX_CAN_MAX_CLASSIC_LEN :: nat where "NX_CAN_MAX_CLASSIC_LEN \<equiv> 8"
abbreviation (input) NX_CAN_MAX_FD_LEN :: nat where "NX_CAN_MAX_FD_LEN \<equiv> 64"

datatype nx_can_dir = NX_CAN_DIR_TX | NX_CAN_DIR_RX | NX_CAN_DIR_TXR

datatype nx_can_err =
    NX_CAN_ERR_NONE | NX_CAN_ERR_BIT | NX_CAN_ERR_STUFF | NX_CAN_ERR_FORM | NX_CAN_ERR_ACK
  | NX_CAN_ERR_CRC | NX_CAN_ERR_ARB_LOST | NX_CAN_ERR_BUS_OFF | NX_CAN_ERR_TIMEOUT
  | NX_CAN_ERR_OVERRUN

text \<open>The flag word's bit fields, each at its width; the reserved bits stay zero.\<close>

record nx_can_flags =
  cf_ch :: "4 word"
  cf_dir :: "2 word"
  cf_dlc :: "4 word"
  cf_is_ext :: bool
  cf_is_remote :: bool
  cf_is_fd :: bool
  cf_brs :: bool
  cf_esi :: bool
  cf_is_err :: bool
  cf_err_code :: "4 word"

text \<open>\<open>flags.raw = 0\<close>.\<close>

definition nx_can_flags_zero :: nx_can_flags where
  "nx_can_flags_zero =
     \<lparr> cf_ch = 0, cf_dir = 0, cf_dlc = 0, cf_is_ext = False, cf_is_remote = False,
       cf_is_fd = False, cf_brs = False, cf_esi = False, cf_is_err = False, cf_err_code = 0 \<rparr>"

record nx_can_msg =
  cm_id :: u32
  cm_flags :: nx_can_flags
  cm_timestamp :: u64
  cm_data :: bytes

section \<open>Length codes\<close>

definition dlc_table :: "nat list" where
  "dlc_table = [0, 1, 2, 3, 4, 5, 6, 7, 8, 12, 16, 20, 24, 32, 48, 64]"

definition nx_can_dlc_to_len :: "u8 \<Rightarrow> u32" where
  "nx_can_dlc_to_len dlc =
     (if dlc \<le> NX_CAN_MAX_DLC then of_nat (dlc_table ! unat dlc) else 0)"

definition nx_can_len_to_dlc :: "u32 \<Rightarrow> u8" where
  "nx_can_len_to_dlc len =
     (if len \<le> 8 then ucast len
      else if len \<le> 12 then 9
      else if len \<le> 16 then 10
      else if len \<le> 20 then 11
      else if len \<le> 24 then 12
      else if len \<le> 32 then 13
      else if len \<le> 48 then 14
      else 15)"

text \<open>The same two conversions on natural numbers, for callers that compute with sizes.\<close>

fun dlc_of_len :: "nat \<Rightarrow> nat" where
  "dlc_of_len n =
     (if n \<le> 8 then n else if n \<le> 12 then 9 else if n \<le> 16 then 10 else if n \<le> 20 then 11
      else if n \<le> 24 then 12 else if n \<le> 32 then 13 else if n \<le> 48 then 14 else 15)"

definition len_of_dlc :: "nat \<Rightarrow> nat" where
  "len_of_dlc d = (if d \<le> 15 then dlc_table ! d else 0)"

declare dlc_of_len.simps [simp del]

lemma dlc_le_15_cases:
  assumes "d \<le> (15 :: nat)"
  shows "d \<in> {0,1,2,3,4,5,6,7,8,9,10,11,12,13,14,15}"
  using less_16_cases[of d] assms by linarith

lemma unat_dlc_to_len: "unat (nx_can_dlc_to_len d) = len_of_dlc (unat d)"
proof (cases "d \<le> 15")
  case True
  then have "unat d \<le> 15" by (simp add: word_le_nat_alt)
  then have "dlc_table ! unat d < 2 ^ 32"
    by (elim insertE emptyE dlc_le_15_cases[THEN insertE]) (simp_all add: dlc_table_def)
  with True show ?thesis
    by (simp add: nx_can_dlc_to_len_def len_of_dlc_def unat_of_nat word_le_nat_alt)
next
  case False
  then show ?thesis by (simp add: nx_can_dlc_to_len_def len_of_dlc_def word_le_nat_alt)
qed

lemma unat_len_to_dlc: "unat (nx_can_len_to_dlc n) = dlc_of_len (unat n)"
proof (cases "n \<le> 8")
  case True
  then have "unat n \<le> 8" by (simp add: word_le_nat_alt)
  then have "unat (ucast n :: u8) = unat n"
    by (simp add: unsigned_ucast_eq take_bit_nat_eq_self)
  with True show ?thesis by (simp add: nx_can_len_to_dlc_def dlc_of_len.simps word_le_nat_alt)
next
  case False
  then show ?thesis by (simp add: nx_can_len_to_dlc_def dlc_of_len.simps word_le_nat_alt)
qed

lemma dlc_of_len_le: "dlc_of_len n \<le> 15"
  by (simp add: dlc_of_len.simps)

lemma dlc_galois:
  assumes "d \<le> 15" and "n \<le> 64"
  shows "dlc_of_len n \<le> d \<longleftrightarrow> n \<le> len_of_dlc d"
  using dlc_le_15_cases[OF assms(1)] assms(2)
  by (elim insertE emptyE) (simp_all add: len_of_dlc_def dlc_table_def dlc_of_len.simps)

lemma dlc_of_len_of_dlc: "d \<le> 15 \<Longrightarrow> dlc_of_len (len_of_dlc d) = d"
  by (drule dlc_le_15_cases, elim insertE emptyE)
    (simp_all add: len_of_dlc_def dlc_table_def dlc_of_len.simps)

lemma len_of_dlc_ge: "n \<le> 64 \<Longrightarrow> n \<le> len_of_dlc (dlc_of_len n)"
  using dlc_galois[OF dlc_of_len_le, of n n] by simp

lemma len_of_dlc_le: "len_of_dlc d \<le> 64"
  by (cases "d \<le> 15")
    (auto dest!: dlc_le_15_cases simp: len_of_dlc_def dlc_table_def)

lemma len_of_dlc_small: "n \<le> 8 \<Longrightarrow> len_of_dlc (dlc_of_len n) = n"
  using dlc_of_len_of_dlc[of n] dlc_le_15_cases[of n]
  by (auto simp: len_of_dlc_def dlc_table_def dlc_of_len.simps)

text \<open>
  The two length conversions are the rounding of a payload length (up to 64 bytes) to the sizes a data
  length code expresses: a code is large enough for a length exactly when it is at least the code
  computed for it, so the code computed is the least that carries the payload, and every code of the
  4-bit field survives the conversion to a length and back.
\<close>
theorem nx_can_dlc_rounding:
  "(\<forall>d len. d \<le> NX_CAN_MAX_DLC \<longrightarrow> len \<le> 64 \<longrightarrow>
      (nx_can_len_to_dlc len \<le> d \<longleftrightarrow> len \<le> nx_can_dlc_to_len d)) \<and>
   (\<forall>d. d \<le> NX_CAN_MAX_DLC \<longrightarrow> nx_can_len_to_dlc (nx_can_dlc_to_len d) = d) \<and>
   (\<forall>len. nx_can_len_to_dlc len \<le> NX_CAN_MAX_DLC) \<and> (\<forall>d. nx_can_dlc_to_len d \<le> 64)"
proof (intro conjI allI impI)
  fix d :: u8 and len :: u32
  assume "d \<le> NX_CAN_MAX_DLC" "len \<le> 64"
  then show "nx_can_len_to_dlc len \<le> d \<longleftrightarrow> len \<le> nx_can_dlc_to_len d"
    using dlc_galois[of "unat d" "unat len"]
    by (simp add: word_le_nat_alt unat_len_to_dlc unat_dlc_to_len)
next
  fix d :: u8 assume "d \<le> NX_CAN_MAX_DLC"
  then show "nx_can_len_to_dlc (nx_can_dlc_to_len d) = d"
    using dlc_of_len_of_dlc[of "unat d"]
    by (simp add: word_unat_eq_iff word_le_nat_alt unat_len_to_dlc unat_dlc_to_len)
next
  show "nx_can_len_to_dlc len \<le> NX_CAN_MAX_DLC" for len
    by (simp add: word_le_nat_alt unat_len_to_dlc dlc_of_len_le)
next
  show "nx_can_dlc_to_len d \<le> 64" for d
    by (simp add: word_le_nat_alt unat_dlc_to_len len_of_dlc_le)
qed

theorem nx_can_dlc_rounding_witness:
  "nx_can_len_to_dlc 10 = 9 \<and> nx_can_dlc_to_len 9 = 12 \<and> nx_can_len_to_dlc (nx_can_dlc_to_len 14) = 14"
  using nx_can_dlc_rounding by (simp add: nx_can_len_to_dlc_def nx_can_dlc_to_len_def dlc_table_def)

end
