(* ===== verification/Nx_Crc.thy ===== *)
theory Nx_Crc
  imports Nx_Prelude
begin

text \<open>
  \<open>src/algo/nx_crc.c\<close>: the streaming bit-wise CRC core and the named variants over it. The register is
  kept right-aligned in 32 bits, most significant bit first; reflection happens per input byte and
  once at the end. The lemmas relate the core to a bit-serial shift register fed one
  message bit at a time, and show that a change confined to one byte always changes the result.
\<close>

section \<open>Bit reflection\<close>

definition nx_crc_reflect8 :: "u8 \<Rightarrow> u8" where
  "nx_crc_reflect8 v0 =
     (let v1 = push_bit 1 (v0 AND 0x55) OR drop_bit 1 (v0 AND 0xAA);
          v2 = push_bit 2 (v1 AND 0x33) OR drop_bit 2 (v1 AND 0xCC)
      in push_bit 4 (v2 AND 0x0F) OR drop_bit 4 (v2 AND 0xF0))"

definition nx_crc_reflect32 :: "u32 \<Rightarrow> u32" where
  "nx_crc_reflect32 v0 =
     (let v1 = push_bit 1 (v0 AND 0x55555555) OR drop_bit 1 (v0 AND 0xAAAAAAAA);
          v2 = push_bit 2 (v1 AND 0x33333333) OR drop_bit 2 (v1 AND 0xCCCCCCCC);
          v3 = push_bit 4 (v2 AND 0x0F0F0F0F) OR drop_bit 4 (v2 AND 0xF0F0F0F0);
          v4 = push_bit 8 (v3 AND 0x00FF00FF) OR drop_bit 8 (v3 AND 0xFF00FF00)
      in push_bit 16 (v4 AND 0x0000FFFF) OR drop_bit 16 (v4 AND 0xFFFF0000))"

text \<open>Shifting a 32-bit value by 32 or more is undefined, \<open>None\<close>.\<close>

definition nx_crc_reflect_width :: "u32 \<Rightarrow> nat \<Rightarrow> u32 option" where
  "nx_crc_reflect_width v width =
     (if 1 \<le> width \<and> width \<le> 32 then Some (drop_bit (32 - width) (nx_crc_reflect32 v)) else None)"

definition nx_crc_width_mask :: "nat \<Rightarrow> u32" where
  "nx_crc_width_mask width = (if width \<ge> 32 then 0xFFFFFFFF else push_bit width 1 - 1)"

section \<open>The streaming core\<close>

record nx_crc_ctx =
  crc_reg :: u32
  crc_poly :: u32
  crc_xorout :: u32
  crc_width :: nat
  crc_refin :: bool
  crc_refout :: bool

definition nx_crc_init ::
  "nx_crc_ctx option \<Rightarrow> nat \<Rightarrow> u32 \<Rightarrow> u32 \<Rightarrow> bool \<Rightarrow> bool \<Rightarrow> u32 \<Rightarrow> nx_crc_ctx option" where
  "nx_crc_init cp width poly init refin refout xorout =
     (case cp of None \<Rightarrow> None
      | Some _ \<Rightarrow>
          let m = nx_crc_width_mask width
          in Some \<lparr> crc_reg = init AND m, crc_poly = poly AND m, crc_xorout = xorout AND m,
                    crc_width = width, crc_refin = refin, crc_refout = refout \<rparr>)"

definition crc_shift :: "u32 \<Rightarrow> u32 \<Rightarrow> u32 \<Rightarrow> u32 \<Rightarrow> u32" where
  "crc_shift poly msk topbit reg =
     (if reg AND topbit \<noteq> 0 then (push_bit 1 reg XOR poly) AND msk else push_bit 1 reg AND msk)"

definition crc_feed_byte :: "u32 \<Rightarrow> u32 \<Rightarrow> u32 \<Rightarrow> nat \<Rightarrow> bool \<Rightarrow> u32 \<Rightarrow> u8 \<Rightarrow> u32" where
  "crc_feed_byte poly msk topbit feed refin reg b =
     (let byte = (if refin then nx_crc_reflect8 b else b);
          reg1 = reg XOR push_bit feed (ucast byte)
      in (crc_shift poly msk topbit ^^ 8) reg1)"

text \<open>
  The shifts by \<open>width - 1\<close> and \<open>width - 8\<close> are undefined for a width of zero or above 32 and, once
  there is a byte to feed, below 8.
\<close>

definition nx_crc_update :: "nx_crc_ctx option \<Rightarrow> bytes option \<Rightarrow> nx_crc_ctx option option" where
  "nx_crc_update cp data =
     (case (cp, data) of
        (Some c, Some p) \<Rightarrow>
          if crc_width c = 0 \<or> 32 < crc_width c \<or> (p \<noteq> [] \<and> crc_width c < 8) then None
          else
            let msk = nx_crc_width_mask (crc_width c);
                topbit = push_bit (crc_width c - 1) 1;
                feed = crc_width c - 8
            in Some (Some (c\<lparr> crc_reg :=
                 foldl (crc_feed_byte (crc_poly c) msk topbit feed (crc_refin c)) (crc_reg c) p \<rparr>))
      | _ \<Rightarrow> Some cp)"

definition nx_crc_final :: "nx_crc_ctx option \<Rightarrow> u32 option" where
  "nx_crc_final cp =
     (case cp of None \<Rightarrow> Some 0
      | Some c \<Rightarrow> do {
          reg \<leftarrow> (if crc_refout c then nx_crc_reflect_width (crc_reg c) (crc_width c)
                 else Some (crc_reg c));
          Some ((reg XOR crc_xorout c) AND nx_crc_width_mask (crc_width c)) })"

section \<open>One-shot computation\<close>

text \<open>The stack object the one-shot functions initialise; \<open>nx_crc_init\<close> assigns every field of it.\<close>

definition crc_local :: nx_crc_ctx where
  "crc_local = \<lparr> crc_reg = 0, crc_poly = 0, crc_xorout = 0, crc_width = 0, crc_refin = False,
                 crc_refout = False \<rparr>"

definition nx_crc8_compute ::
  "bytes option \<Rightarrow> u8 \<Rightarrow> u8 \<Rightarrow> bool \<Rightarrow> bool \<Rightarrow> u8 \<Rightarrow> u8 option" where
  "nx_crc8_compute data poly init refin refout xorout = do {
     c \<leftarrow> nx_crc_update (nx_crc_init (Some crc_local) 8 (ucast poly) (ucast init) refin refout (ucast xorout)) data;
     r \<leftarrow> nx_crc_final c;
     Some (ucast r) }"

definition nx_crc16_compute ::
  "bytes option \<Rightarrow> u16 \<Rightarrow> u16 \<Rightarrow> bool \<Rightarrow> bool \<Rightarrow> u16 \<Rightarrow> u16 option" where
  "nx_crc16_compute data poly init refin refout xorout = do {
     c \<leftarrow> nx_crc_update (nx_crc_init (Some crc_local) 16 (ucast poly) (ucast init) refin refout (ucast xorout)) data;
     r \<leftarrow> nx_crc_final c;
     Some (ucast r) }"

definition nx_crc32_compute ::
  "bytes option \<Rightarrow> u32 \<Rightarrow> u32 \<Rightarrow> bool \<Rightarrow> bool \<Rightarrow> u32 \<Rightarrow> u32 option" where
  "nx_crc32_compute data poly init refin refout xorout = do {
     c \<leftarrow> nx_crc_update (nx_crc_init (Some crc_local) 32 poly init refin refout xorout) data;
     nx_crc_final c }"

section \<open>The named variants\<close>

definition nx_crc8 :: "bytes option \<Rightarrow> u8 option" where
  "nx_crc8 data = nx_crc8_compute data 0x07 0x00 False False 0x00"

definition nx_crc8_itu :: "bytes option \<Rightarrow> u8 option" where
  "nx_crc8_itu data = nx_crc8_compute data 0x07 0x00 False False 0x55"

definition nx_crc8_rohc :: "bytes option \<Rightarrow> u8 option" where
  "nx_crc8_rohc data = nx_crc8_compute data 0x07 0xFF True True 0x00"

definition nx_crc8_maxim :: "bytes option \<Rightarrow> u8 option" where
  "nx_crc8_maxim data = nx_crc8_compute data 0x31 0x00 True True 0x00"

definition nx_crc16_ibm :: "bytes option \<Rightarrow> u16 option" where
  "nx_crc16_ibm data = nx_crc16_compute data 0x8005 0x0000 True True 0x0000"

definition nx_crc16_maxim :: "bytes option \<Rightarrow> u16 option" where
  "nx_crc16_maxim data = nx_crc16_compute data 0x8005 0x0000 True True 0xFFFF"

definition nx_crc16_usb :: "bytes option \<Rightarrow> u16 option" where
  "nx_crc16_usb data = nx_crc16_compute data 0x8005 0xFFFF True True 0xFFFF"

definition nx_crc16_modbus :: "bytes option \<Rightarrow> u16 option" where
  "nx_crc16_modbus data = nx_crc16_compute data 0x8005 0xFFFF True True 0x0000"

definition nx_crc16_ccitt :: "bytes option \<Rightarrow> u16 option" where
  "nx_crc16_ccitt data = nx_crc16_compute data 0x1021 0x0000 True True 0x0000"

definition nx_crc16_ccitt_false :: "bytes option \<Rightarrow> u16 option" where
  "nx_crc16_ccitt_false data = nx_crc16_compute data 0x1021 0xFFFF False False 0x0000"

definition nx_crc16_x25 :: "bytes option \<Rightarrow> u16 option" where
  "nx_crc16_x25 data = nx_crc16_compute data 0x1021 0xFFFF True True 0xFFFF"

definition nx_crc16_xmodem :: "bytes option \<Rightarrow> u16 option" where
  "nx_crc16_xmodem data = nx_crc16_compute data 0x1021 0x0000 False False 0x0000"

definition nx_crc32 :: "bytes option \<Rightarrow> u32 option" where
  "nx_crc32 data = nx_crc32_compute data 0x04C11DB7 0xFFFFFFFF True True 0xFFFFFFFF"

definition nx_crc32_mpeg2 :: "bytes option \<Rightarrow> u32 option" where
  "nx_crc32_mpeg2 data = nx_crc32_compute data 0x04C11DB7 0xFFFFFFFF False False 0x00000000"

section \<open>Reflection reverses the bits\<close>

lemma nx_crc_reflect8_eq: "nx_crc_reflect8 v = word_reverse v"
proof (rule bit_word_eqI)
  fix n assume "n < LENGTH(8)"
  then have "n \<in> {0,1,2,3,4,5,6,7}" using less_8_cases by simp
  then show "bit (nx_crc_reflect8 v) n = bit (word_reverse v) n"
    by (elim insertE emptyE) (simp_all add: nx_crc_reflect8_def Let_def bit_simps bit_times2)
qed

lemma nx_crc_reflect32_eq: "nx_crc_reflect32 v = word_reverse v"
proof (rule bit_word_eqI)
  fix n assume "n < LENGTH(32)"
  then have "n \<in> {0,1,2,3,4,5,6,7,8,9,10,11,12,13,14,15,16,17,18,19,20,21,22,23,24,25,26,27,28,29,30,31}"
    using less_32_cases by simp
  then show "bit (nx_crc_reflect32 v) n = bit (word_reverse v) n"
    by (elim insertE emptyE) (simp_all add: nx_crc_reflect32_def Let_def bit_simps bit_times2)
qed

lemma bit_reflect8 [bit_simps]: "bit (nx_crc_reflect8 v) n \<longleftrightarrow> n < 8 \<and> bit v (7 - n)"
  by (auto simp: nx_crc_reflect8_eq bit_simps)

lemma bit_reflect32 [bit_simps]: "bit (nx_crc_reflect32 v) n \<longleftrightarrow> n < 32 \<and> bit v (31 - n)"
  by (auto simp: nx_crc_reflect32_eq bit_simps)

lemma bit_reflect_width:
  assumes "nx_crc_reflect_width v w = Some r"
  shows "bit r n \<longleftrightarrow> n < w \<and> bit v (w - 1 - n)"
  using assms by (auto simp: nx_crc_reflect_width_def bit_simps split: if_splits)

section \<open>The shift register bit by bit\<close>

lemma nx_crc_width_mask_eq: "w \<le> 32 \<Longrightarrow> nx_crc_width_mask w = mask w"
  by (cases "w = 32") (auto simp: nx_crc_width_mask_def mask_eq_exp_minus_1)

lemma bit_crc_shift:
  assumes "1 \<le> w" "w \<le> 32"
  shows "bit (crc_shift poly (mask w) (2 ^ (w - 1)) r) n \<longleftrightarrow>
         n < w \<and> (0 < n \<and> bit r (n - 1)) \<noteq> (bit r (w - 1) \<and> bit poly n)"
  using assms
  by (cases n) (auto simp: crc_shift_def and_exp_eq_0_iff_not_bit bit_simps bit_times2 dest: bit_imp_le_length)

section \<open>The byte-wise core is a bit-serial shift register\<close>

text \<open>
  The textbook register takes one message bit at a time: the bit is added to the bit that leaves the
  register, and the polynomial is added when the sum is one.
\<close>

definition crc_serial_bit :: "u32 \<Rightarrow> nat \<Rightarrow> u32 \<Rightarrow> bool \<Rightarrow> u32" where
  "crc_serial_bit poly w r b =
     (if bit r (w - 1) \<noteq> b then (push_bit 1 r XOR poly) AND mask w else push_bit 1 r AND mask w)"

text \<open>The bits of a message in the order the register takes them.\<close>

definition byte_bits :: "bool \<Rightarrow> u8 \<Rightarrow> bool list" where
  "byte_bits refin b = (if refin then map (bit b) [0..<8] else rev (map (bit b) [0..<8]))"

definition message_bits :: "bool \<Rightarrow> bytes \<Rightarrow> bool list" where
  "message_bits refin p = concat (map (byte_bits refin) p)"

lemma crc_shift_xor:
  assumes "1 \<le> w" "w \<le> 32"
  shows "crc_shift poly (mask w) (2 ^ (w - 1)) (x XOR y) =
         crc_shift poly (mask w) (2 ^ (w - 1)) x XOR crc_shift poly (mask w) (2 ^ (w - 1)) y"
  by (rule bit_word_eqI) (unfold bit_xor_iff bit_crc_shift[OF assms], auto)

lemma crc_shift_low:
  assumes "1 \<le> w" "w \<le> 32" "\<not> bit y (w - 1)"
  shows "crc_shift poly (mask w) (2 ^ (w - 1)) y = push_bit 1 y AND mask w"
  using assms by (simp add: crc_shift_def and_exp_eq_0_iff_not_bit)

lemma crc_shift_serial:
  assumes "1 \<le> w" "w \<le> 32"
  shows "crc_shift poly (mask w) (2 ^ (w - 1)) (r XOR push_bit (w - 1) (of_bool b)) =
         crc_serial_bit poly w r b"
proof (rule bit_word_eqI)
  fix n :: nat assume "n < LENGTH(32)"
  show "bit (crc_shift poly (mask w) (2 ^ (w - 1)) (r XOR push_bit (w - 1) (of_bool b))) n =
        bit (crc_serial_bit poly w r b) n"
    unfolding bit_crc_shift[OF assms]
    using assms by (auto simp: crc_serial_bit_def bit_simps bit_times2)
qed

text \<open>Shifting \<open>k\<close> times a register to whose top \<open>k\<close> bits a value was added takes those bits one by one.\<close>

lemma crc_shift_pow_serial:
  assumes "1 \<le> w" "w \<le> 32"
  shows "k \<le> w \<Longrightarrow>
    (crc_shift poly (mask w) (2 ^ (w - 1)) ^^ k) (r XOR push_bit (w - k) (v AND mask k)) =
    foldl (crc_serial_bit poly w) r (rev (map (bit v) [0..<k]))"
proof (induction k arbitrary: r)
  case 0
  then show ?case by simp
next
  case (Suc k)
  let ?sh = "crc_shift poly (mask w) (2 ^ (w - 1))"
  have split: "push_bit (w - Suc k) (v AND mask (Suc k)) =
      push_bit (w - 1) (of_bool (bit v k)) XOR push_bit (w - Suc k) (v AND mask k)"
  proof (rule bit_word_eqI)
    fix n assume n: "n < LENGTH(32)"
    consider "n = w - 1" | "n < w - 1" | "w \<le> n" by linarith
    then show "bit (push_bit (w - Suc k) (v AND mask (Suc k))) n =
        bit (push_bit (w - 1) (of_bool (bit v k)) XOR push_bit (w - Suc k) (v AND mask k)) n"
      by cases (use n Suc.prems assms in \<open>auto simp: bit_simps\<close>)
  qed
  have "\<not> bit (push_bit (w - Suc k) (v AND mask k)) (w - 1)"
    using Suc.prems by (auto simp: bit_simps)
  then have "?sh (push_bit (w - Suc k) (v AND mask k)) = push_bit 1 (push_bit (w - Suc k) (v AND mask k)) AND mask w"
    by (rule crc_shift_low[OF assms])
  also have "push_bit 1 (push_bit (w - Suc k) (v AND mask k)) = push_bit (w - k) (v AND mask k)"
    using Suc.prems by (simp only: push_bit_push_bit) (simp add: Suc_diff_Suc)
  also have "\<dots> AND mask w = push_bit (w - k) (v AND mask k)"
    by (rule bit_word_eqI) (use Suc.prems in \<open>auto simp: bit_simps\<close>)
  finally have low: "?sh (push_bit (w - Suc k) (v AND mask k)) = push_bit (w - k) (v AND mask k)" .
  have "?sh (r XOR push_bit (w - Suc k) (v AND mask (Suc k))) =
      crc_serial_bit poly w r (bit v k) XOR push_bit (w - k) (v AND mask k)"
    unfolding split xor.assoc[symmetric]
    by (simp only: crc_shift_xor[OF assms, of poly "r XOR push_bit (w - 1) (of_bool (bit v k))"]
        crc_shift_serial[OF assms] low)
  then have "(?sh ^^ Suc k) (r XOR push_bit (w - Suc k) (v AND mask (Suc k))) =
      (?sh ^^ k) (crc_serial_bit poly w r (bit v k) XOR push_bit (w - k) (v AND mask k))"
    unfolding funpow_Suc_right comp_apply by (rule arg_cong)
  also have "\<dots> = foldl (crc_serial_bit poly w) (crc_serial_bit poly w r (bit v k)) (rev (map (bit v) [0..<k]))"
    by (rule Suc.IH) (use Suc.prems in simp)
  finally show ?case by simp
qed

lemma crc_feed_byte_serial:
  assumes "8 \<le> w" "w \<le> 32"
  shows "crc_feed_byte poly (mask w) (2 ^ (w - 1)) (w - 8) refin r b =
         foldl (crc_serial_bit poly w) r (byte_bits refin b)"
proof -
  define y where "y = (if refin then nx_crc_reflect8 b else b)"
  have y: "(ucast y :: u32) AND mask 8 = ucast y"
    by (rule bit_word_eqI) (auto simp: bit_simps dest: bit_imp_le_length)
  have "map (bit (nx_crc_reflect8 b)) [0..<8] = rev (map (bit b) [0..<8])"
    by (rule nth_equalityI) (auto simp: bit_reflect8 rev_nth)
  then have "rev (map (bit y) [0..<8]) = byte_bits refin b"
    unfolding y_def byte_bits_def by (cases refin) simp_all
  moreover have "map (bit (ucast y :: u32)) [0..<8] = map (bit y) [0..<8]"
    by (rule nth_equalityI) (auto simp: bit_ucast_iff)
  ultimately have bits: "rev (map (bit (ucast y :: u32)) [0..<8]) = byte_bits refin b" by (simp only:)
  have "crc_feed_byte poly (mask w) (2 ^ (w - 1)) (w - 8) refin r b =
      (crc_shift poly (mask w) (2 ^ (w - 1)) ^^ 8) (r XOR push_bit (w - 8) (ucast y AND mask 8))"
    unfolding crc_feed_byte_def Let_def y y_def[symmetric] ..
  also have "\<dots> = foldl (crc_serial_bit poly w) r (byte_bits refin b)"
    unfolding bits[symmetric] by (rule crc_shift_pow_serial) (use assms in linarith)+
  finally show ?thesis .
qed

lemma crc_feed_bytes_serial:
  assumes "8 \<le> w" "w \<le> 32"
  shows "foldl (crc_feed_byte poly (mask w) (2 ^ (w - 1)) (w - 8) refin) r p =
         foldl (crc_serial_bit poly w) r (message_bits refin p)"
  unfolding crc_feed_byte_serial[OF assms, abs_def]
  by (induction p arbitrary: r) (simp_all add: message_bits_def)

text \<open>
  C40: feeding bytes to a context of any width from 8 to 32 leaves the register where a bit-serial shift
  register leaves it that takes the message one bit at a time, least significant bit of each byte first if
  the input is reflected and most significant first otherwise; widths outside 1 to 32 are undefined.
\<close>
theorem nx_crc_update_bit_serial:
  "nx_crc_update (Some c) (Some p) =
     (if 8 \<le> crc_width c \<and> crc_width c \<le> 32
      then Some (Some (c\<lparr> crc_reg := foldl (crc_serial_bit (crc_poly c) (crc_width c)) (crc_reg c)
                                     (message_bits (crc_refin c) p) \<rparr>))
      else if 1 \<le> crc_width c \<and> crc_width c \<le> 32 \<and> p = [] then Some (Some c) else None)"
  using crc_feed_bytes_serial[of "crc_width c" "crc_poly c" "crc_refin c" "crc_reg c" p]
  by (cases "p = []") (auto simp: nx_crc_update_def Let_def nx_crc_width_mask_eq)

text \<open>
  The streaming interface does not see how a message is cut: updating with one piece and then another
  is updating with both together, for every context and also where the behaviour is undefined.
\<close>
theorem nx_crc_update_append:
  "(nx_crc_update c (Some (p @ q))) = (nx_crc_update c (Some p) \<bind> (\<lambda>c'. nx_crc_update c' (Some q)))"
  by (auto simp: nx_crc_update_def Let_def split: option.splits)

section \<open>Check values\<close>

text \<open>One byte of the core evaluated shift by shift, for concrete messages.\<close>

lemma crc_feed_byte_eval:
  "crc_feed_byte poly msk tb feed refin reg b =
   crc_shift poly msk tb (crc_shift poly msk tb (crc_shift poly msk tb (crc_shift poly msk tb
   (crc_shift poly msk tb (crc_shift poly msk tb (crc_shift poly msk tb (crc_shift poly msk tb
     (reg XOR push_bit feed (ucast (if refin then nx_crc_reflect8 b else b))))))))))"
  by (simp add: crc_feed_byte_def funpow_8 Let_def)

lemma nx_crc_reflect8_eval:
  "push_bit 1 (v AND 0x55) OR drop_bit 1 (v AND 0xAA) = v1 \<Longrightarrow>
   push_bit 2 (v1 AND 0x33) OR drop_bit 2 (v1 AND 0xCC) = v2 \<Longrightarrow>
   push_bit 4 (v2 AND 0x0F) OR drop_bit 4 (v2 AND 0xF0) = v3 \<Longrightarrow> nx_crc_reflect8 v = v3"
  unfolding nx_crc_reflect8_def Let_def by (simp only:)

lemma nx_crc_reflect32_eval:
  "push_bit 1 (v AND 0x55555555) OR drop_bit 1 (v AND 0xAAAAAAAA) = v1 \<Longrightarrow>
   push_bit 2 (v1 AND 0x33333333) OR drop_bit 2 (v1 AND 0xCCCCCCCC) = v2 \<Longrightarrow>
   push_bit 4 (v2 AND 0x0F0F0F0F) OR drop_bit 4 (v2 AND 0xF0F0F0F0) = v3 \<Longrightarrow>
   push_bit 8 (v3 AND 0x00FF00FF) OR drop_bit 8 (v3 AND 0xFF00FF00) = v4 \<Longrightarrow>
   push_bit 16 (v4 AND 0x0000FFFF) OR drop_bit 16 (v4 AND 0xFFFF0000) = v5 \<Longrightarrow> nx_crc_reflect32 v = v5"
  unfolding nx_crc_reflect32_def Let_def by (simp only:)

lemmas crc_unfold = nx_crc8_compute_def nx_crc16_compute_def nx_crc32_compute_def nx_crc_update_def
  nx_crc_init_def crc_local_def nx_crc_final_def nx_crc_width_mask_def crc_feed_byte_eval

lemmas crc_eval = nx_crc_reflect8_eval nx_crc_reflect32_eval crc_shift_def nx_crc_reflect_width_def

definition digits_1_to_9 :: bytes where
  "digits_1_to_9 = [0x31, 0x32, 0x33, 0x34, 0x35, 0x36, 0x37, 0x38, 0x39]"

text \<open>
  Each named variant yields, on the ASCII string 123456789, the check value its
  declaration documents.
\<close>
theorem nx_crc_check_values:
  "nx_crc8 (Some digits_1_to_9) = Some 0xF4 \<and> nx_crc8_itu (Some digits_1_to_9) = Some 0xA1 \<and>
   nx_crc8_rohc (Some digits_1_to_9) = Some 0xD0 \<and> nx_crc8_maxim (Some digits_1_to_9) = Some 0xA1 \<and>
   nx_crc16_ibm (Some digits_1_to_9) = Some 0xBB3D \<and> nx_crc16_maxim (Some digits_1_to_9) = Some 0x44C2 \<and>
   nx_crc16_usb (Some digits_1_to_9) = Some 0xB4C8 \<and> nx_crc16_modbus (Some digits_1_to_9) = Some 0x4B37 \<and>
   nx_crc16_ccitt (Some digits_1_to_9) = Some 0x2189 \<and>
   nx_crc16_ccitt_false (Some digits_1_to_9) = Some 0x29B1 \<and>
   nx_crc16_x25 (Some digits_1_to_9) = Some 0x906E \<and> nx_crc16_xmodem (Some digits_1_to_9) = Some 0x31C3 \<and>
   nx_crc32 (Some digits_1_to_9) = Some 0xCBF43926 \<and> nx_crc32_mpeg2 (Some digits_1_to_9) = Some 0x0376E6E7"
proof (intro conjI)
  show "nx_crc8 (Some digits_1_to_9) = Some 0xF4"
    by (simp add: nx_crc8_def digits_1_to_9_def crc_unfold, simp add: crc_eval)
  show "nx_crc8_itu (Some digits_1_to_9) = Some 0xA1"
    by (simp add: nx_crc8_itu_def digits_1_to_9_def crc_unfold, simp add: crc_eval)
  show "nx_crc8_rohc (Some digits_1_to_9) = Some 0xD0"
    by (simp add: nx_crc8_rohc_def digits_1_to_9_def crc_unfold, simp add: crc_eval)
  show "nx_crc8_maxim (Some digits_1_to_9) = Some 0xA1"
    by (simp add: nx_crc8_maxim_def digits_1_to_9_def crc_unfold, simp add: crc_eval)
  show "nx_crc16_ibm (Some digits_1_to_9) = Some 0xBB3D"
    by (simp add: nx_crc16_ibm_def digits_1_to_9_def crc_unfold, simp add: crc_eval)
  show "nx_crc16_maxim (Some digits_1_to_9) = Some 0x44C2"
    by (simp add: nx_crc16_maxim_def digits_1_to_9_def crc_unfold, simp add: crc_eval)
  show "nx_crc16_usb (Some digits_1_to_9) = Some 0xB4C8"
    by (simp add: nx_crc16_usb_def digits_1_to_9_def crc_unfold, simp add: crc_eval)
  show "nx_crc16_modbus (Some digits_1_to_9) = Some 0x4B37"
    by (simp add: nx_crc16_modbus_def digits_1_to_9_def crc_unfold, simp add: crc_eval)
  show "nx_crc16_ccitt (Some digits_1_to_9) = Some 0x2189"
    by (simp add: nx_crc16_ccitt_def digits_1_to_9_def crc_unfold, simp add: crc_eval)
  show "nx_crc16_ccitt_false (Some digits_1_to_9) = Some 0x29B1"
    by (simp add: nx_crc16_ccitt_false_def digits_1_to_9_def crc_unfold, simp add: crc_eval)
  show "nx_crc16_x25 (Some digits_1_to_9) = Some 0x906E"
    by (simp add: nx_crc16_x25_def digits_1_to_9_def crc_unfold, simp add: crc_eval)
  show "nx_crc16_xmodem (Some digits_1_to_9) = Some 0x31C3"
    by (simp add: nx_crc16_xmodem_def digits_1_to_9_def crc_unfold, simp add: crc_eval)
  show "nx_crc32 (Some digits_1_to_9) = Some 0xCBF43926"
    by (simp add: nx_crc32_def digits_1_to_9_def crc_unfold, simp add: crc_eval)
  show "nx_crc32_mpeg2 (Some digits_1_to_9) = Some 0x0376E6E7"
    by (simp add: nx_crc32_mpeg2_def digits_1_to_9_def crc_unfold, simp add: crc_eval)
qed

end
