(* ===== verification/Nx_Modbus_Rtu.thy ===== *)
theory Nx_Modbus_Rtu
  imports Nx_Crc
begin

text \<open>
  \<open>src/middleware/nx_modbus_rtu.c\<close>: the table-driven CRC-16/MODBUS and the frame helpers that stamp
  and check it. The table-driven routine is shown equal to the bit-wise variant of
  \<open>src/algo/nx_crc.c\<close>, a stamped frame checks, and a checked frame altered in one or two adjacent bytes does not.
\<close>

section \<open>The table and the checksum\<close>

definition crc16_table :: "u16 list" where
  "crc16_table =
    [0x0000, 0xC0C1, 0xC181, 0x0140, 0xC301, 0x03C0, 0x0280, 0xC241,
     0xC601, 0x06C0, 0x0780, 0xC741, 0x0500, 0xC5C1, 0xC481, 0x0440,
     0xCC01, 0x0CC0, 0x0D80, 0xCD41, 0x0F00, 0xCFC1, 0xCE81, 0x0E40,
     0x0A00, 0xCAC1, 0xCB81, 0x0B40, 0xC901, 0x09C0, 0x0880, 0xC841,
     0xD801, 0x18C0, 0x1980, 0xD941, 0x1B00, 0xDBC1, 0xDA81, 0x1A40,
     0x1E00, 0xDEC1, 0xDF81, 0x1F40, 0xDD01, 0x1DC0, 0x1C80, 0xDC41,
     0x1400, 0xD4C1, 0xD581, 0x1540, 0xD701, 0x17C0, 0x1680, 0xD641,
     0xD201, 0x12C0, 0x1380, 0xD341, 0x1100, 0xD1C1, 0xD081, 0x1040,
     0xF001, 0x30C0, 0x3180, 0xF141, 0x3300, 0xF3C1, 0xF281, 0x3240,
     0x3600, 0xF6C1, 0xF781, 0x3740, 0xF501, 0x35C0, 0x3480, 0xF441,
     0x3C00, 0xFCC1, 0xFD81, 0x3D40, 0xFF01, 0x3FC0, 0x3E80, 0xFE41,
     0xFA01, 0x3AC0, 0x3B80, 0xFB41, 0x3900, 0xF9C1, 0xF881, 0x3840,
     0x2800, 0xE8C1, 0xE981, 0x2940, 0xEB01, 0x2BC0, 0x2A80, 0xEA41,
     0xEE01, 0x2EC0, 0x2F80, 0xEF41, 0x2D00, 0xEDC1, 0xEC81, 0x2C40,
     0xE401, 0x24C0, 0x2580, 0xE541, 0x2700, 0xE7C1, 0xE681, 0x2640,
     0x2200, 0xE2C1, 0xE381, 0x2340, 0xE101, 0x21C0, 0x2080, 0xE041,
     0xA001, 0x60C0, 0x6180, 0xA141, 0x6300, 0xA3C1, 0xA281, 0x6240,
     0x6600, 0xA6C1, 0xA781, 0x6740, 0xA501, 0x65C0, 0x6480, 0xA441,
     0x6C00, 0xACC1, 0xAD81, 0x6D40, 0xAF01, 0x6FC0, 0x6E80, 0xAE41,
     0xAA01, 0x6AC0, 0x6B80, 0xAB41, 0x6900, 0xA9C1, 0xA881, 0x6840,
     0x7800, 0xB8C1, 0xB981, 0x7940, 0xBB01, 0x7BC0, 0x7A80, 0xBA41,
     0xBE01, 0x7EC0, 0x7F80, 0xBF41, 0x7D00, 0xBDC1, 0xBC81, 0x7C40,
     0xB401, 0x74C0, 0x7580, 0xB541, 0x7700, 0xB7C1, 0xB681, 0x7640,
     0x7200, 0xB2C1, 0xB381, 0x7340, 0xB101, 0x71C0, 0x7080, 0xB041,
     0x5000, 0x90C1, 0x9181, 0x5140, 0x9301, 0x53C0, 0x5280, 0x9241,
     0x9601, 0x56C0, 0x5780, 0x9741, 0x5500, 0x95C1, 0x9481, 0x5440,
     0x9C01, 0x5CC0, 0x5D80, 0x9D41, 0x5F00, 0x9FC1, 0x9E81, 0x5E40,
     0x5A00, 0x9AC1, 0x9B81, 0x5B40, 0x9901, 0x59C0, 0x5880, 0x9841,
     0x8801, 0x48C0, 0x4980, 0x8941, 0x4B00, 0x8BC1, 0x8A81, 0x4A40,
     0x4E00, 0x8EC1, 0x8F81, 0x4F40, 0x8D01, 0x4DC0, 0x4C80, 0x8C41,
     0x4400, 0x84C1, 0x8581, 0x4540, 0x8701, 0x47C0, 0x4680, 0x8641,
     0x8201, 0x42C0, 0x4380, 0x8341, 0x4100, 0x81C1, 0x8081, 0x4040]"

definition modbus_crc_step :: "u16 \<Rightarrow> u8 \<Rightarrow> u16" where
  "modbus_crc_step crc b = drop_bit 8 crc XOR crc16_table ! unat (ucast (crc XOR ucast b) :: u8)"

text \<open>\<open>data\<close> is the memory at the pointer; the first \<open>len\<close> bytes of it are folded in.\<close>

definition nx_modbus_rtu_crc16 :: "bytes option \<Rightarrow> nat \<Rightarrow> u16 option" where
  "nx_modbus_rtu_crc16 data len =
     (case data of None \<Rightarrow> Some 0xFFFF
      | Some d \<Rightarrow> map_option (foldl modbus_crc_step 0xFFFF) (mem_read 0 len d))"

definition nx_modbus_rtu_set_crc :: "bytes option \<Rightarrow> nat \<Rightarrow> (bool \<times> bytes option) option" where
  "nx_modbus_rtu_set_crc frame len =
     (case frame of None \<Rightarrow> Some (False, None)
      | Some f \<Rightarrow>
          if len < 5 then Some (False, Some f)
          else do {
            crc \<leftarrow> nx_modbus_rtu_crc16 (Some f) (len - 2);
            f1 \<leftarrow> mem_write (len - 2) [ucast (crc AND 0xFF)] f;
            f2 \<leftarrow> mem_write (len - 1) [ucast (drop_bit 8 crc AND 0xFF)] f1;
            Some (True, Some f2) })"

definition nx_modbus_rtu_check_crc :: "bytes option \<Rightarrow> nat \<Rightarrow> bool option" where
  "nx_modbus_rtu_check_crc frame len =
     (case frame of None \<Rightarrow> Some False
      | Some f \<Rightarrow>
          if len < 5 then Some False
          else do {
            computed \<leftarrow> nx_modbus_rtu_crc16 (Some f) (len - 2);
            lo \<leftarrow> mem_get (len - 2) f;
            hi \<leftarrow> mem_get (len - 1) f;
            Some (computed = ucast lo OR push_bit 8 (ucast hi)) })"

section \<open>The shift register behind the table\<close>

text \<open>The reflected register: one bit leaves at the low end, the reflected polynomial is added.\<close>

definition lsb_shift :: "u16 \<Rightarrow> u16" where
  "lsb_shift r = (if odd r then drop_bit 1 r XOR 0xA001 else drop_bit 1 r)"

lemma lsb_shift_0 [simp]: "lsb_shift 0 = 0"
  by (simp add: lsb_shift_def)

lemma lsb_shift_xor: "lsb_shift (x XOR y) = lsb_shift x XOR lsb_shift y"
  by (auto simp: lsb_shift_def even_xor_iff intro!: bit_word_eqI simp: bit_simps)

lemma lsb_pow_xor: "(lsb_shift ^^ k) (x XOR y) = (lsb_shift ^^ k) x XOR (lsb_shift ^^ k) y"
  by (induction k arbitrary: x y) (simp_all add: lsb_shift_xor funpow_swap1)

lemma lsb_pow_0 [simp]: "(lsb_shift ^^ k) 0 = 0"
  by (induction k) (simp_all add: funpow_swap1)

text \<open>The top bit of the result tells which branch was taken, so a shift loses nothing.\<close>

lemma lsb_shift_eq_0: "lsb_shift r = 0 \<longleftrightarrow> r = 0"
proof
  assume eq: "lsb_shift r = 0"
  have "bit (lsb_shift r) 15 \<longleftrightarrow> odd r"
    by (auto simp: lsb_shift_def bit_simps dest: bit_imp_le_length)
  with eq have ev: "even r" by simp
  with eq have "drop_bit 1 r = 0" by (simp add: lsb_shift_def)
  show "r = 0"
  proof (rule bit_word_eqI)
    fix n assume "n < LENGTH(16)"
    show "bit r n = bit 0 n"
    proof (cases n)
      case 0 then show ?thesis using ev by (simp add: bit_0)
    next
      case (Suc m)
      have "bit (drop_bit 1 r) m = bit 0 m" using \<open>drop_bit 1 r = 0\<close> by simp
      then show ?thesis using Suc by (simp add: bit_simps)
    qed
  qed
qed simp

lemma lsb_pow_eq_0: "(lsb_shift ^^ k) r = 0 \<longleftrightarrow> r = 0"
  by (induction k arbitrary: r) (simp_all add: lsb_shift_eq_0)

lemma lsb_pow_inj: "(lsb_shift ^^ k) x = (lsb_shift ^^ k) y \<longleftrightarrow> x = y"
proof
  assume "(lsb_shift ^^ k) x = (lsb_shift ^^ k) y"
  then have "(lsb_shift ^^ k) (x XOR y) = 0" by (simp add: lsb_pow_xor)
  then show "x = y" by (simp add: lsb_pow_eq_0)
qed simp

text \<open>
  The table is checked entry by entry through two relations that take one shift each: entry \<open>j\<close> is
  the shifted entry \<open>2 * j\<close>, and an odd entry is its even neighbour plus entry 1.
\<close>

fun table_ok :: "u16 list \<Rightarrow> u16 list \<Rightarrow> bool" where
  "table_ok (t # ts) (x # y # zs) \<longleftrightarrow> lsb_shift x = t \<and> y = x XOR 0xC0C1 \<and> table_ok ts zs"
| "table_ok ts zs \<longleftrightarrow> zs = []"

lemma table_ok_nth:
  "table_ok ts zs \<Longrightarrow> 2 * j + 1 < length zs \<Longrightarrow>
   lsb_shift (zs ! (2 * j)) = ts ! j \<and> zs ! (2 * j + 1) = zs ! (2 * j) XOR 0xC0C1"
proof (induction ts zs arbitrary: j rule: table_ok.induct)
  case (1 t ts x y zs)
  then show ?case by (cases j) auto
qed auto

lemma crc16_table_ok: "table_ok crc16_table crc16_table"
  by (simp add: crc16_table_def lsb_shift_def)

lemma length_crc16_table: "length crc16_table = 256"
  by (simp add: crc16_table_def)

lemma crc16_table_nth: "i < 256 \<Longrightarrow> crc16_table ! i = (lsb_shift ^^ 8) (of_nat i)"
proof (induction i rule: less_induct)
  case (less i)
  show ?case
  proof (cases "i = 0")
    case True
    then show ?thesis by (simp add: crc16_table_def)
  next
    case False
    define j where "j = i div 2"
    have j: "j < i" "j < 256" "2 * j + 1 < 256" using False less.prems unfolding j_def by presburger+
    note ok = table_ok_nth[OF crc16_table_ok, unfolded length_crc16_table, OF j(3)]
    have dbl: "lsb_shift (of_nat (2 * j)) = of_nat j"
    proof -
      have "drop_bit 1 (of_nat (2 * j) :: u16) = of_nat j"
      proof -
        have "unat (of_nat (2 * j) :: u16) = 2 * j" using j(3) unat_of_nat[of "2 * j", where ?'a = 16] by simp
        moreover have "unat (of_nat j :: u16) = j" using j(3) unat_of_nat[of j, where ?'a = 16] by simp
        ultimately show ?thesis by (simp only: word_unat_eq_iff unat_drop_bit_eq) (simp add: drop_bit_eq_div)
      qed
      then show ?thesis by (simp add: lsb_shift_def)
    qed
    have "lsb_shift (crc16_table ! (2 * j)) = (lsb_shift ^^ 8) (of_nat j)"
      using ok less.IH[OF j(1,2)] by simp
    also have "\<dots> = lsb_shift ((lsb_shift ^^ 8) (of_nat (2 * j)))"
      by (subst dbl[symmetric]) (simp add: funpow_swap1)
    finally have even_row: "crc16_table ! (2 * j) = (lsb_shift ^^ 8) (of_nat (2 * j))"
      using lsb_pow_inj[of 1] by simp
    show ?thesis
    proof (cases "even i")
      case True
      then have "i = 2 * j" by (simp add: j_def)
      with even_row show ?thesis by simp
    next
      case odd: False
      then have i: "i = 2 * j + 1" by (simp add: j_def)
      have one: "(lsb_shift ^^ 8) 1 = 0xC0C1" by (simp add: funpow_8 lsb_shift_def)
      have "(of_nat i :: u16) = of_nat (2 * j) XOR 1"
        unfolding i by (simp add: xor_one_eq)
      then have "(lsb_shift ^^ 8) (of_nat i) = (lsb_shift ^^ 8) (of_nat (2 * j)) XOR 0xC0C1"
        by (simp only: lsb_pow_xor one)
      with ok even_row i show ?thesis by simp
    qed
  qed
qed

text \<open>Eight shifts of the register act on its low byte through the table and on the high byte as a shift.\<close>

lemma lsb_pow_high:
  "k \<le> n \<Longrightarrow> (\<forall>i<n. \<not> bit r i) \<Longrightarrow> (lsb_shift ^^ k) r = drop_bit k r"
proof (induction k arbitrary: r n)
  case 0
  then show ?case by simp
next
  case (Suc k)
  have "\<not> bit r 0" using Suc.prems by simp
  then have "even r" by (simp add: bit_0)
  then have "(lsb_shift ^^ Suc k) r = (lsb_shift ^^ k) (drop_bit 1 r)"
    by (simp add: lsb_shift_def funpow_swap1)
  also have "\<dots> = drop_bit k (drop_bit 1 r)"
    using Suc.prems by (intro Suc.IH[of "n - 1"]) (auto simp: bit_simps)
  finally show ?case by simp
qed

lemma modbus_crc_step_shift: "modbus_crc_step crc b = (lsb_shift ^^ 8) (crc XOR ucast b)"
proof -
  define x where "x = crc XOR (ucast b :: u16)"
  have x: "x = (x AND 0xFF) XOR push_bit 8 (drop_bit 8 x)"
    by (rule bit_word_eqI) (auto simp: bit_simps mask_8_eq)
  have low: "x AND 0xFF = of_nat (unat (ucast x :: u8))"
    by (rule bit_word_eqI) (auto simp: bit_simps mask_8_eq)
  have "(lsb_shift ^^ 8) x = (lsb_shift ^^ 8) (x AND 0xFF) XOR (lsb_shift ^^ 8) (push_bit 8 (drop_bit 8 x))"
    by (subst x) (rule lsb_pow_xor)
  also have "(lsb_shift ^^ 8) (push_bit 8 (drop_bit 8 x)) = drop_bit 8 (push_bit 8 (drop_bit 8 x))"
    by (rule lsb_pow_high[of _ 8]) (auto simp: bit_simps)
  also have "drop_bit 8 (push_bit 8 (drop_bit 8 x)) = drop_bit 8 crc"
    unfolding x_def by (rule bit_word_eqI) (auto simp: bit_simps dest: bit_imp_le_length)
  also have "(lsb_shift ^^ 8) (x AND 0xFF) = crc16_table ! unat (ucast x :: u8)"
    using crc16_table_nth[of "unat (ucast x :: u8)"] by (simp add: low)
  finally show ?thesis by (simp add: modbus_crc_step_def x_def xor.commute)
qed

section \<open>Stamping and checking\<close>

definition modbus_crc :: "bytes \<Rightarrow> u16" where
  "modbus_crc = foldl modbus_crc_step 0xFFFF"

lemma nx_modbus_rtu_crc16_Some:
  "len \<le> length d \<Longrightarrow> nx_modbus_rtu_crc16 (Some d) len = Some (modbus_crc (take len d))"
  by (simp add: nx_modbus_rtu_crc16_def modbus_crc_def mem_read_def)

text \<open>Two steps add a 16-bit value and shift sixteen times; feeding a checksum to itself leaves zero.\<close>

lemma modbus_two_steps:
  "modbus_crc_step (modbus_crc_step r b0) b1 = (lsb_shift ^^ 16) (r XOR (ucast b0 OR push_bit 8 (ucast b1)))"
proof -
  have "(lsb_shift ^^ 8) (push_bit 8 (ucast b1)) = drop_bit 8 (push_bit 8 (ucast b1 :: u16))"
    by (rule lsb_pow_high[of _ 8]) (auto simp: bit_simps)
  also have "\<dots> = ucast b1"
    by (rule bit_word_eqI) (auto simp: bit_simps dest: bit_imp_le_length)
  finally have b1: "(lsb_shift ^^ 8) (push_bit 8 (ucast b1)) = ucast b1" .
  have disj: "ucast b0 OR push_bit 8 (ucast b1) = ucast b0 XOR push_bit 8 (ucast b1 :: u16)"
    by (rule bit_word_eqI) (auto simp: bit_simps dest: bit_imp_le_length)
  have "modbus_crc_step (modbus_crc_step r b0) b1 =
      (lsb_shift ^^ 8) ((lsb_shift ^^ 8) (r XOR ucast b0) XOR (lsb_shift ^^ 8) (push_bit 8 (ucast b1)))"
    by (simp add: modbus_crc_step_shift b1)
  also have "\<dots> = (lsb_shift ^^ 8) ((lsb_shift ^^ 8) (r XOR (ucast b0 OR push_bit 8 (ucast b1))))"
    by (simp add: disj lsb_pow_xor xor.assoc)
  also have "\<dots> = (lsb_shift ^^ (8 + 8)) (r XOR (ucast b0 OR push_bit 8 (ucast b1)))"
    by (simp only: funpow_add comp_apply)
  finally show ?thesis by simp
qed

lemma modbus_fold_inj: "foldl modbus_crc_step r xs = foldl modbus_crc_step r' xs \<longleftrightarrow> r = r'"
  by (induction xs arbitrary: r r') (simp_all add: modbus_crc_step_shift lsb_pow_inj)

lemma modbus_residue:
  "foldl modbus_crc_step 0xFFFF (xs @ [lo, hi]) = 0 \<longleftrightarrow> modbus_crc xs = ucast lo OR push_bit 8 (ucast hi)"
  by (simp add: modbus_two_steps lsb_pow_eq_0 modbus_crc_def)

lemma split_last_two:
  "2 \<le> n \<Longrightarrow> n \<le> length f \<Longrightarrow> take n f = take (n - 2) f @ [f ! (n - 2), f ! (n - 1)]"
proof -
  assume n: "2 \<le> n" "n \<le> length f"
  have "take n f = take (n - 1) f @ [f ! (n - 1)]"
    using n take_Suc_conv_app_nth[of "n - 1" f] by simp
  also have "take (n - 1) f = take (n - 2) f @ [f ! (n - 2)]"
    using n take_Suc_conv_app_nth[of "n - 2" f] by (simp add: numeral_2_eq_2 Suc_diff_Suc)
  finally show ?thesis by simp
qed

text \<open>The check succeeds exactly when the shift register ends at zero after the whole frame.\<close>

lemma nx_modbus_rtu_check_crc_residue:
  assumes "5 \<le> len" and "len \<le> length f"
  shows "nx_modbus_rtu_check_crc (Some f) len = Some (modbus_crc (take len f) = 0)"
proof -
  have "take len f = take (len - 2) f @ [f ! (len - 2), f ! (len - 1)]"
    using assms by (intro split_last_two) auto
  then have "modbus_crc (take len f) = 0 \<longleftrightarrow>
      modbus_crc (take (len - 2) f) = ucast (f ! (len - 2)) OR push_bit 8 (ucast (f ! (len - 1)))"
    using modbus_residue by (simp add: modbus_crc_def)
  moreover have "len - 2 < length f" "len - 1 < length f" using assms by linarith+
  ultimately show ?thesis
    using assms by (simp add: nx_modbus_rtu_check_crc_def nx_modbus_rtu_crc16_Some mem_get_def)
qed

lemma crc_bytes_join: "(ucast (ucast (c AND 0xFF) :: u8) OR push_bit 8 (ucast (ucast (drop_bit 8 c AND 0xFF) :: u8)) :: u16) = c"
  by (rule bit_word_eqI) (auto simp: bit_simps mask_8_eq)

text \<open>
  Stamping a frame changes only its last two bytes and the stamped frame passes the check; frames
  shorter than the smallest ADU are refused by both.
\<close>
theorem nx_modbus_rtu_stamp_check:
  assumes "len \<le> length f"
  shows "(5 \<le> len \<longrightarrow>
            (\<exists>f'. nx_modbus_rtu_set_crc (Some f) len = Some (True, Some f') \<and> length f' = length f \<and>
                  (\<forall>i < length f. i + 2 < len \<or> len \<le> i \<longrightarrow> f' ! i = f ! i) \<and>
                  nx_modbus_rtu_check_crc (Some f') len = Some True)) \<and>
         (len < 5 \<longrightarrow> nx_modbus_rtu_set_crc (Some f) len = Some (False, Some f) \<and>
                     nx_modbus_rtu_check_crc (Some f) len = Some False)"
proof (intro conjI impI)
  assume len: "5 \<le> len"
  define crc where "crc = modbus_crc (take (len - 2) f)"
  define f' where "f' = f[len - 2 := ucast (crc AND 0xFF), len - 1 := ucast (drop_bit 8 crc AND 0xFF)]"
  have w: "mem_write i [b] g = Some (g[i := b])" if "i < length g" for i b and g :: bytes
    using that by (simp add: mem_write_def upd_conv_take_nth_drop)
  have set: "nx_modbus_rtu_set_crc (Some f) len = Some (True, Some f')"
    using assms len by (simp add: nx_modbus_rtu_set_crc_def nx_modbus_rtu_crc16_Some crc_def f'_def w)
  have idx: "len - 2 < length f" "len - 1 < length f" using assms len by linarith+
  have "take (len - 2) f' = take (len - 2) f"
    by (simp add: f'_def)
  moreover have "crc = ucast (ucast (crc AND 0xFF) :: u8) OR push_bit 8 (ucast (ucast (drop_bit 8 crc AND 0xFF) :: u8))"
    by (rule crc_bytes_join[symmetric])
  ultimately have "nx_modbus_rtu_check_crc (Some f') len = Some True"
    using assms len idx
    by (simp add: nx_modbus_rtu_check_crc_def nx_modbus_rtu_crc16_Some mem_get_def f'_def crc_def)
  then show "\<exists>f'. nx_modbus_rtu_set_crc (Some f) len = Some (True, Some f') \<and> length f' = length f \<and>
      (\<forall>i < length f. i + 2 < len \<or> len \<le> i \<longrightarrow> f' ! i = f ! i) \<and>
      nx_modbus_rtu_check_crc (Some f') len = Some True"
    using set len assms by (intro exI[of _ f']) (auto simp: f'_def nth_list_update)
qed (auto simp: nx_modbus_rtu_set_crc_def nx_modbus_rtu_check_crc_def)

theorem nx_modbus_rtu_stamp_check_witness:
  "\<exists>f'. nx_modbus_rtu_set_crc (Some [1, 3, 2, 0, 7, 0, 0, 9]) 7 = Some (True, Some f') \<and> f' ! 7 = 9 \<and>
        nx_modbus_rtu_check_crc (Some f') 7 = Some True"
  using nx_modbus_rtu_stamp_check[of 7 "[1, 3, 2, 0, 7, 0, 0, 9]"] by auto

text \<open>
  A frame that passes the check no longer passes once its bytes are altered, if every altered byte
  lies in one pair of adjacent bytes: any error burst inside two neighbouring bytes of the frame, its checksum
  included, is detected.
\<close>
theorem nx_modbus_rtu_check_detects_burst:
  assumes "nx_modbus_rtu_check_crc (Some f) len = Some True" and "len \<le> length f"
    and "length g = length f" and "g \<noteq> f" and "k + 1 < len"
    and "\<And>i. i < length f \<Longrightarrow> i \<noteq> k \<Longrightarrow> i \<noteq> k + 1 \<Longrightarrow> g ! i = f ! i"
  shows "nx_modbus_rtu_check_crc (Some g) len = Some False"
proof -
  have five: "5 \<le> len"
    using assms(1) by (auto simp: nx_modbus_rtu_check_crc_def split: if_splits)
  have split: "take len h = take k h @ [h ! k, h ! (k + 1)] @ drop (k + 2) (take len h)"
    if "length h = length f" for h :: bytes
  proof -
    define xs where "xs = take len h"
    have k: "k < length xs" "Suc k < length xs" using assms(2,5) that by (auto simp: xs_def)
    have "xs = take k xs @ xs ! k # drop (Suc k) xs" using k(1) by (rule id_take_nth_drop)
    also have "drop (Suc k) xs = xs ! Suc k # drop (Suc (Suc k)) xs"
      using k(2) by (rule Cons_nth_drop_Suc[symmetric])
    finally show ?thesis using assms(5) by (simp add: xs_def min_def)
  qed
  have pre: "take k g = take k f" and post: "drop (k + 2) (take len g) = drop (k + 2) (take len f)"
    using assms(3,5,6) by (auto simp: list_eq_iff_nth_eq)
  have diff: "(g ! k, g ! (k + 1)) \<noteq> (f ! k, f ! (k + 1))"
    using assms(3,4,6) by (metis list_eq_iff_nth_eq prod.inject)
  define r where "r = foldl modbus_crc_step 0xFFFF (take k f)"
  have "modbus_crc (take len g) = modbus_crc (take len f) \<longleftrightarrow>
      modbus_crc_step (modbus_crc_step r (g ! k)) (g ! (k + 1)) =
      modbus_crc_step (modbus_crc_step r (f ! k)) (f ! (k + 1))"
    by (subst split[OF assms(3)], subst split[OF refl]) (simp add: modbus_crc_def pre post[simplified] r_def modbus_fold_inj)
  then have "modbus_crc (take len g) \<noteq> modbus_crc (take len f)"
    using diff by (simp add: modbus_two_steps lsb_pow_inj join16_inject)
  then show ?thesis
    using assms(1,2,3) five nx_modbus_rtu_check_crc_residue[OF five, of f]
      nx_modbus_rtu_check_crc_residue[OF five, of g] by simp
qed

definition read_holding_frame :: bytes where
  "read_holding_frame = [0x01, 0x03, 0x00, 0x00, 0x00, 0x0A, 0xC5, 0xCD]"

lemma read_holding_frame_checks: "nx_modbus_rtu_check_crc (Some read_holding_frame) 8 = Some True"
  by (simp add: nx_modbus_rtu_check_crc_def nx_modbus_rtu_crc16_def read_holding_frame_def mem_simps
      modbus_crc_step_def crc16_table_def)

theorem nx_modbus_rtu_check_detects_burst_witness:
  "nx_modbus_rtu_check_crc (Some (read_holding_frame[1 := 0x10, 2 := 0xFF])) 8 = Some False"
proof (rule nx_modbus_rtu_check_detects_burst[OF read_holding_frame_checks, where k = 1])
  show "read_holding_frame[1 := 0x10, 2 := 0xFF] \<noteq> read_holding_frame"
    by (simp add: read_holding_frame_def)
  show "(read_holding_frame[1 := 0x10, 2 := 0xFF]) ! i = read_holding_frame ! i"
    if "i \<noteq> 1" "i \<noteq> 1 + 1" for i
    using that by simp
qed (simp_all add: read_holding_frame_def)

section \<open>The table-driven routine is the bit-wise one\<close>

text \<open>
  The bit-wise core holds the register most significant bit first; the table works on the mirrored
  register. Every step of one is the mirror image of a step of the other.
\<close>

definition mirror :: "u16 \<Rightarrow> u32" where
  "mirror r = ucast (word_reverse r)"

lemma bit_mirror: "bit (mirror r) n \<longleftrightarrow> n < 16 \<and> bit r (15 - n)"
  by (auto simp: mirror_def bit_simps)

lemma modbus_poly_mirror: "n < 16 \<Longrightarrow> bit (0x8005 :: u32) n \<longleftrightarrow> bit (0xA001 :: u16) (15 - n)"
  by (drule less_16_cases, elim insertE emptyE) simp_all

lemma bit_lsb_shift: "bit (lsb_shift r) m \<longleftrightarrow> bit r (m + 1) \<noteq> (bit r 0 \<and> bit (0xA001 :: u16) m)"
  by (auto simp: lsb_shift_def bit_simps bit_0)

lemma mirror_FFFF: "mirror 0xFFFF = 0xFFFF"
proof -
  have "mirror (mask 16) = mask 16"
    by (rule bit_word_eqI) (auto simp: bit_mirror bit_simps)
  then show ?thesis by (simp add: mask_eq_exp_minus_1)
qed

lemma mirror_shift: "crc_shift 0x8005 (mask 16) 0x8000 (mirror r) = mirror (lsb_shift r)"
proof (rule bit_word_eqI)
  fix n :: nat
  have "n < 16 \<Longrightarrow> 0 < n \<Longrightarrow> 15 - (n - 1) = 15 - n + 1" by simp
  then show "bit (crc_shift 0x8005 (mask 16) 0x8000 (mirror r)) n = bit (mirror (lsb_shift r)) n"
    using bit_crc_shift[of 16 "0x8005" "mirror r" n] modbus_poly_mirror[of n]
    by (cases "n = 0") (auto simp: bit_mirror bit_lsb_shift dest: bit_imp_le_length)
qed

lemma mirror_feed:
  "mirror r XOR push_bit 8 (ucast (nx_crc_reflect8 b)) = mirror (r XOR ucast b)"
  by (rule bit_word_eqI) (auto simp: bit_mirror bit_simps dest: bit_imp_le_length)

lemma mirror_step:
  "crc_feed_byte 0x8005 (mask 16) 0x8000 8 True (mirror r) b = mirror (modbus_crc_step r b)"
proof -
  have "(crc_shift 0x8005 (mask 16) 0x8000 ^^ k) (mirror x) = mirror ((lsb_shift ^^ k) x)" for k x
    by (induction k arbitrary: x) (simp_all add: funpow_swap1 mirror_shift)
  then show ?thesis
    by (simp add: crc_feed_byte_def Let_def mirror_feed modbus_crc_step_shift)
qed

lemma mirror_fold:
  "foldl (crc_feed_byte 0x8005 (mask 16) 0x8000 8 True) (mirror r) xs = mirror (foldl modbus_crc_step r xs)"
  by (induction xs arbitrary: r) (simp_all add: mirror_step)

text \<open>
  The table-driven CRC-16/MODBUS of the Modbus module computes, on every buffer and length inside it,
  exactly the value of the bit-wise \<open>nx_crc16_modbus\<close> of the CRC module on those bytes.
\<close>
theorem nx_modbus_rtu_crc16_eq_bitwise:
  "nx_modbus_rtu_crc16 (Some d) len =
     (if len \<le> length d then nx_crc16_modbus (Some (take len d)) else None)"
proof (cases "len \<le> length d")
  case True
  have init: "(0xFFFF :: u32) AND mask 16 = mirror 0xFFFF" "(0x8005 :: u32) AND mask 16 = 0x8005"
    by (simp_all add: mask_eq_exp_minus_1 mirror_FFFF)
  have out: "(ucast (drop_bit 16 (nx_crc_reflect32 (mirror x)) AND mask 16) :: u16) = x" for x
    by (rule bit_word_eqI) (auto simp: bit_mirror bit_simps)
  have "nx_crc16_modbus (Some (take len d)) = Some (modbus_crc (take len d))"
    by (simp add: nx_crc16_modbus_def nx_crc16_compute_def nx_crc_update_def nx_crc_init_def crc_local_def
        nx_crc_final_def nx_crc_width_mask_eq nx_crc_reflect_width_def Let_def init out mirror_fold modbus_crc_def)
  with True show ?thesis by (simp add: nx_modbus_rtu_crc16_Some)
qed (simp add: nx_modbus_rtu_crc16_def mem_read_def)

end
