(* ===== verification/Nx_Queue.thy ===== *)
theory Nx_Queue
  imports Nx_Prelude
begin

text \<open>
  \<open>src/core/nx_queue.c\<close> and \<open>nx_queue.h\<close>: a FIFO of fixed-size elements over a caller-provided byte buffer. The
  object holds the bytes of the buffer; its abstraction is the list of queued elements. Every run of
  operations is shown to be the run of a bounded list with the chosen policy, and the queue provides
  the interface \<open>fifo\<close> its clients rely on.
\<close>

section \<open>Types\<close>

datatype nx_queue_ret = NX_QUEUE_OK | NX_QUEUE_ERR_PARAM | NX_QUEUE_ERR_EMPTY | NX_QUEUE_ERR_FULL

datatype nx_queue_on_full = NX_QUEUE_ON_FULL_REJECT | NX_QUEUE_ON_FULL_OVERWRITE

record nx_queue =
  q_buffer :: "bytes option"
  q_element_size :: nat
  q_capacity :: nat
  q_head :: nat
  q_count :: nat
  q_on_full :: nx_queue_on_full

section \<open>Operations\<close>

definition nx_queue_slot :: "nx_queue \<Rightarrow> nat \<Rightarrow> nat" where
  "nx_queue_slot q index = index * q_element_size q"

definition nx_queue_init ::
  "nx_queue option \<Rightarrow> bytes option \<Rightarrow> nat \<Rightarrow> nat \<Rightarrow> nx_queue_on_full \<Rightarrow> nx_queue_ret \<times> nx_queue option" where
  "nx_queue_init qp buffer element_size capacity on_full =
     (if qp = None \<or> buffer = None \<or> element_size = 0 \<or> capacity = 0 then (NX_QUEUE_ERR_PARAM, qp)
      else (NX_QUEUE_OK,
            Some \<lparr> q_buffer = buffer, q_element_size = element_size, q_capacity = capacity, q_head = 0,
                   q_count = 0, q_on_full = on_full \<rparr>))"

text \<open>Dropping the front element: shared by \<open>push\<close> on a full overwriting queue and by \<open>pop\<close>.\<close>

definition queue_drop_front :: "nx_queue \<Rightarrow> nx_queue" where
  "queue_drop_front q =
     q\<lparr> q_head := (if q_head q + 1 \<ge> q_capacity q then q_head q + 1 - q_capacity q else q_head q + 1),
        q_count := q_count q - 1 \<rparr>"

definition nx_queue_push ::
  "nx_queue option \<Rightarrow> bytes option \<Rightarrow> (nx_queue_ret \<times> nx_queue option) option" where
  "nx_queue_push qp element =
     on_handle qp NX_QUEUE_ERR_PARAM (\<lambda>q.
       case (q_buffer q, element) of
         (Some _, Some e) \<Rightarrow>
           if q_count q = q_capacity q \<and> q_on_full q = NX_QUEUE_ON_FULL_REJECT then Some (NX_QUEUE_ERR_FULL, q)
           else
             (let q1 = (if q_count q = q_capacity q then queue_drop_front q else q);
                  t = q_head q1 + q_count q1;
                  tail = (if t \<ge> q_capacity q1 then t - q_capacity q1 else t)
              in do {
                buf \<leftarrow> q_buffer q1;
                x \<leftarrow> mem_read 0 (q_element_size q1) e;
                buf' \<leftarrow> mem_write (nx_queue_slot q1 tail) x buf;
                Some (NX_QUEUE_OK, q1\<lparr> q_buffer := Some buf', q_count := q_count q1 + 1 \<rparr>) })
       | _ \<Rightarrow> Some (NX_QUEUE_ERR_PARAM, q))"

text \<open>Copying the front element to \<open>out\<close>; the caller's \<open>out\<close> buffer is returned with its new contents.\<close>

definition queue_copy_front :: "nx_queue \<Rightarrow> bytes \<Rightarrow> bytes option" where
  "queue_copy_front q out = do {
     buf \<leftarrow> q_buffer q;
     x \<leftarrow> mem_read (nx_queue_slot q (q_head q)) (q_element_size q) buf;
     mem_write 0 x out }"

definition nx_queue_pop ::
  "nx_queue option \<Rightarrow> bytes option \<Rightarrow> ((nx_queue_ret \<times> bytes option) \<times> nx_queue option) option" where
  "nx_queue_pop qp out =
     on_handle qp (NX_QUEUE_ERR_PARAM, out) (\<lambda>q.
       if q_buffer q = None then Some ((NX_QUEUE_ERR_PARAM, out), q)
       else if q_count q = 0 then Some ((NX_QUEUE_ERR_EMPTY, out), q)
       else do {
         out' \<leftarrow> (case out of None \<Rightarrow> Some None | Some w \<Rightarrow> map_option Some (queue_copy_front q w));
         Some ((NX_QUEUE_OK, out'), queue_drop_front q) })"

definition nx_queue_peek ::
  "nx_queue option \<Rightarrow> bytes option \<Rightarrow> (nx_queue_ret \<times> bytes option) option" where
  "nx_queue_peek qp out =
     (case (qp, out) of
        (Some q, Some w) \<Rightarrow>
          if q_buffer q = None then Some (NX_QUEUE_ERR_PARAM, out)
          else if q_count q = 0 then Some (NX_QUEUE_ERR_EMPTY, out)
          else map_option (\<lambda>w'. (NX_QUEUE_OK, Some w')) (queue_copy_front q w)
      | _ \<Rightarrow> Some (NX_QUEUE_ERR_PARAM, out))"

definition nx_queue_clear :: "nx_queue option \<Rightarrow> nx_queue option" where
  "nx_queue_clear qp = map_option (\<lambda>q. q\<lparr> q_head := 0, q_count := 0 \<rparr>) qp"

definition nx_queue_size :: "nx_queue option \<Rightarrow> nat" where
  "nx_queue_size qp = (case qp of Some q \<Rightarrow> q_count q | None \<Rightarrow> 0)"

definition nx_queue_capacity :: "nx_queue option \<Rightarrow> nat" where
  "nx_queue_capacity qp = (case qp of Some q \<Rightarrow> q_capacity q | None \<Rightarrow> 0)"

definition nx_queue_is_empty :: "nx_queue option \<Rightarrow> bool" where
  "nx_queue_is_empty qp = (case qp of None \<Rightarrow> True | Some q \<Rightarrow> q_count q = 0)"

definition nx_queue_is_full :: "nx_queue option \<Rightarrow> bool" where
  "nx_queue_is_full qp =
     (case qp of None \<Rightarrow> True | Some q \<Rightarrow> q_buffer q = None \<or> q_count q = q_capacity q)"

section \<open>Well-formed queues and the elements they hold\<close>

definition queue_wf :: "nx_queue \<Rightarrow> bool" where
  "queue_wf q \<longleftrightarrow>
     (\<exists>buf. q_buffer q = Some buf \<and> q_capacity q * q_element_size q \<le> length buf) \<and>
     0 < q_element_size q \<and> q_head q < q_capacity q \<and> q_count q \<le> q_capacity q"

definition slot_bytes :: "nat \<Rightarrow> bytes \<Rightarrow> nat \<Rightarrow> bytes" where
  "slot_bytes es buf i = take es (drop (i * es) buf)"

definition queue_items :: "nx_queue \<Rightarrow> bytes list" where
  "queue_items q =
     ring_items (slot_bytes (q_element_size q) (the (q_buffer q))) (q_capacity q) (q_head q) (q_count q)"

lemma length_queue_items [simp]: "length (queue_items q) = q_count q"
  by (simp add: queue_items_def)

lemma queue_items_cases:
  obtains (empty) "queue_items q = []" "q_count q = 0"
    | (front) y ys where "queue_items q = y # ys" "0 < q_count q"
  by (metis length_queue_items list.exhaust list.size(3) length_greater_0_conv list.distinct(1))

lemma slot_bytes_write:
  assumes "mem_write (k * es) x buf = Some buf'" and "length x = es"
    and "i < cap" "cap * es \<le> length buf"
  shows "slot_bytes es buf' i = (if i = k then x else slot_bytes es buf i)"
proof (cases "i = k")
  case True
  from mem_read_write_same[OF assms(1)] assms(2) True show ?thesis
    by (auto simp: mem_read_def slot_bytes_def split: if_splits)
next
  case False
  have "mem_read (i * es) es buf' = mem_read (i * es) es buf"
    by (rule mem_read_write_other[OF assms(1)]) (use slot_apart[OF False] assms(2) in auto)
  moreover have "i * es + es \<le> length buf" using slot_bound assms(3,4) by blast
  ultimately show ?thesis
    using False mem_write_length[OF assms(1)] by (simp add: mem_read_def slot_bytes_def)
qed

lemma queue_drop_front_items:
  assumes "queue_wf q" and "0 < q_count q"
  shows "queue_wf (queue_drop_front q)" and "queue_items (queue_drop_front q) = tl (queue_items q)"
    and "q_count (queue_drop_front q) < q_capacity q"
    and "q_buffer (queue_drop_front q) = q_buffer q"
    and "q_element_size (queue_drop_front q) = q_element_size q"
    and "q_capacity (queue_drop_front q) = q_capacity q"
    and "q_on_full (queue_drop_front q) = q_on_full q"
proof -
  have head: "q_head (queue_drop_front q) = (q_head q + 1) mod q_capacity q"
    using assms by (auto simp: queue_drop_front_def queue_wf_def mod_if)
  show same: "q_buffer (queue_drop_front q) = q_buffer q"
    "q_element_size (queue_drop_front q) = q_element_size q"
    "q_capacity (queue_drop_front q) = q_capacity q" "q_on_full (queue_drop_front q) = q_on_full q"
    by (simp_all add: queue_drop_front_def)
  have count: "q_count (queue_drop_front q) = q_count q - 1" by (simp add: queue_drop_front_def)
  show "queue_wf (queue_drop_front q)"
    using assms unfolding queue_wf_def same head count by auto
  show "q_count (queue_drop_front q) < q_capacity q"
    using assms by (auto simp: count queue_wf_def)
  show "queue_items (queue_drop_front q) = tl (queue_items q)"
    using assms ring_items_drop[of 1 "q_count q"] unfolding queue_items_def same head count
    by (simp add: drop_Suc)
qed

lemma queue_copy_front_eq:
  assumes "queue_wf q" and "0 < q_count q" and "length out = q_element_size q"
  shows "queue_copy_front q out = Some (hd (queue_items q))"
proof -
  obtain buf where buf: "q_buffer q = Some buf" "q_capacity q * q_element_size q \<le> length buf"
    using assms(1) by (auto simp: queue_wf_def)
  have "q_head q * q_element_size q + q_element_size q \<le> length buf"
    using slot_bound[OF _ buf(2)] assms(1) by (auto simp: queue_wf_def)
  moreover have "hd (queue_items q) = slot_bytes (q_element_size q) buf (q_head q)"
    using assms by (subst hd_conv_nth) (auto simp: queue_items_def buf queue_wf_def)
  ultimately show ?thesis
    using assms(3) by (auto simp: queue_copy_front_def buf nx_queue_slot_def mem_simps slot_bytes_def mem_write_def)
qed

section \<open>The specification: a bounded list with a policy\<close>

datatype queue_op = QPush bytes | QPop | QDiscard | QPeek | QClear | QSize

datatype queue_out = QRet nx_queue_ret | QElem nx_queue_ret "bytes option" | QNum nat | QDone

text \<open>One call as a client makes it; \<open>pop\<close> and \<open>peek\<close> get an \<open>out\<close> buffer of one element.\<close>

fun queue_step :: "queue_op \<Rightarrow> nx_queue \<Rightarrow> (queue_out \<times> nx_queue) option" where
  "queue_step (QPush e) q = do { (r, qp) \<leftarrow> nx_queue_push (Some q) (Some e); q' \<leftarrow> qp; Some (QRet r, q') }"
| "queue_step QPop q = do {
     ((r, w), qp) \<leftarrow> nx_queue_pop (Some q) (Some (replicate (q_element_size q) 0)); q' \<leftarrow> qp;
     Some (QElem r (if r = NX_QUEUE_OK then w else None), q') }"
| "queue_step QDiscard q = do { ((r, w), qp) \<leftarrow> nx_queue_pop (Some q) None; q' \<leftarrow> qp; Some (QRet r, q') }"
| "queue_step QPeek q = do {
     (r, w) \<leftarrow> nx_queue_peek (Some q) (Some (replicate (q_element_size q) 0));
     Some (QElem r (if r = NX_QUEUE_OK then w else None), q) }"
| "queue_step QClear q = do { q' \<leftarrow> nx_queue_clear (Some q); Some (QDone, q') }"
| "queue_step QSize q = Some (QNum (nx_queue_size (Some q)), q)"

fun queue_spec :: "nat \<Rightarrow> nx_queue_on_full \<Rightarrow> queue_op \<Rightarrow> bytes list \<Rightarrow> queue_out \<times> bytes list" where
  "queue_spec cap pol (QPush e) xs =
     (if length xs < cap then (QRet NX_QUEUE_OK, xs @ [e])
      else if pol = NX_QUEUE_ON_FULL_OVERWRITE then (QRet NX_QUEUE_OK, tl xs @ [e])
      else (QRet NX_QUEUE_ERR_FULL, xs))"
| "queue_spec cap pol QPop xs =
     (case xs of [] \<Rightarrow> (QElem NX_QUEUE_ERR_EMPTY None, []) | x # ys \<Rightarrow> (QElem NX_QUEUE_OK (Some x), ys))"
| "queue_spec cap pol QDiscard xs =
     (case xs of [] \<Rightarrow> (QRet NX_QUEUE_ERR_EMPTY, []) | x # ys \<Rightarrow> (QRet NX_QUEUE_OK, ys))"
| "queue_spec cap pol QPeek xs =
     (case xs of [] \<Rightarrow> (QElem NX_QUEUE_ERR_EMPTY None, []) | x # ys \<Rightarrow> (QElem NX_QUEUE_OK (Some x), x # ys))"
| "queue_spec cap pol QClear xs = (QDone, [])"
| "queue_spec cap pol QSize xs = (QNum (length xs), xs)"

text \<open>A queue whose fixed attributes are the given ones.\<close>

definition queue_like :: "nat \<Rightarrow> nat \<Rightarrow> nx_queue_on_full \<Rightarrow> nx_queue \<Rightarrow> bool" where
  "queue_like es cap pol q \<longleftrightarrow>
     queue_wf q \<and> q_element_size q = es \<and> q_capacity q = cap \<and> q_on_full q = pol"

definition queue_op_ok :: "nat \<Rightarrow> queue_op \<Rightarrow> bool" where
  "queue_op_ok es x \<longleftrightarrow> (case x of QPush e \<Rightarrow> length e = es | _ \<Rightarrow> True)"

lemma queue_store:
  assumes "queue_like es cap pol q" "q_count q < cap" "length e = es"
  defines "tail \<equiv> (if q_head q + q_count q \<ge> q_capacity q then q_head q + q_count q - q_capacity q
                   else q_head q + q_count q)"
  shows "\<exists>buf'. mem_write (nx_queue_slot q tail) e (the (q_buffer q)) = Some buf' \<and>
           queue_like es cap pol (q\<lparr> q_buffer := Some buf', q_count := q_count q + 1 \<rparr>) \<and>
           queue_items (q\<lparr> q_buffer := Some buf', q_count := q_count q + 1 \<rparr>) = queue_items q @ [e]"
proof -
  obtain buf where buf: "q_buffer q = Some buf" "cap * es \<le> length buf"
    and wf: "0 < es" "q_head q < cap" "q_element_size q = es" "q_capacity q = cap" "q_on_full q = pol"
    using assms(1) by (auto simp: queue_like_def queue_wf_def)
  have tail: "tail = (q_head q + q_count q) mod cap"
    using wf(2) assms(2) by (simp add: tail_def wf(4) le_mod_geq)
  have "tail < cap" using wf(2) by (simp add: tail)
  then have "tail * es + length e \<le> length buf" using slot_bound[OF _ buf(2)] assms(3) by simp
  then obtain buf' where w: "mem_write (tail * es) e buf = Some buf'"
    by (auto simp: mem_write_def)
  note len = mem_write_length[OF w]
  have slots: "slot_bytes es buf' i = (if i = tail then e else slot_bytes es buf i)" if "i < cap" for i
    by (rule slot_bytes_write[OF w assms(3) that buf(2)])
  have "ring_items (slot_bytes es buf') cap (q_head q) (q_count q + 1) =
      ring_items (slot_bytes es buf) cap (q_head q) (q_count q) @ [e]"
  proof (rule nth_equalityI)
    fix i assume "i < length (ring_items (slot_bytes es buf') cap (q_head q) (q_count q + 1))"
    then have i: "i < q_count q + 1" by simp
    then have "(q_head q + i) mod cap < cap" using wf(2) by simp
    moreover have "(q_head q + i) mod cap = tail \<longleftrightarrow> i = q_count q"
      unfolding tail using i assms(2) by (intro mod_shift_eq_iff) auto
    ultimately show "ring_items (slot_bytes es buf') cap (q_head q) (q_count q + 1) ! i =
        (ring_items (slot_bytes es buf) cap (q_head q) (q_count q) @ [e]) ! i"
      using i slots[of "(q_head q + i) mod cap"] slots[of tail] \<open>tail < cap\<close>
      by (auto simp: nth_append tail less_Suc_eq simp del: One_nat_def)
  qed simp
  then show ?thesis
    using w wf buf assms(2) len
    by (intro exI[of _ buf'])
      (auto simp: nx_queue_slot_def queue_like_def queue_wf_def queue_items_def)
qed

lemma nx_queue_push_spec:
  assumes "queue_like es cap pol q" "length e = es"
  shows "\<exists>q'. queue_step (QPush e) q = Some (fst (queue_spec cap pol (QPush e) (queue_items q)), q') \<and>
           queue_like es cap pol q' \<and> queue_items q' = snd (queue_spec cap pol (QPush e) (queue_items q))"
proof (cases "q_count q < cap")
  case True
  from queue_store[OF assms(1) True assms(2)] assms True show ?thesis
    by (auto simp: nx_queue_push_def mem_read_def queue_like_def queue_wf_def Let_def)
next
  case False
  then have full: "q_count q = cap" "0 < cap" using assms(1) by (auto simp: queue_like_def queue_wf_def)
  show ?thesis
  proof (cases pol)
    case NX_QUEUE_ON_FULL_REJECT
    with full assms show ?thesis by (auto simp: nx_queue_push_def queue_like_def queue_wf_def)
  next
    case NX_QUEUE_ON_FULL_OVERWRITE
    have wf: "queue_wf q" "q_element_size q = es" "q_capacity q = cap" "q_on_full q = pol" "0 < q_count q"
      using assms(1) full by (auto simp: queue_like_def)
    note d = queue_drop_front_items[OF wf(1,5)]
    have like: "queue_like es cap pol (queue_drop_front q)"
      using d wf by (simp add: queue_like_def)
    have "q_count (queue_drop_front q) < cap" using d(3) wf(3) by simp
    from queue_store[OF like this assms(2)] obtain buf' where
      "mem_write (nx_queue_slot (queue_drop_front q)
         (if q_head (queue_drop_front q) + q_count (queue_drop_front q) \<ge> q_capacity (queue_drop_front q)
          then q_head (queue_drop_front q) + q_count (queue_drop_front q) - q_capacity (queue_drop_front q)
          else q_head (queue_drop_front q) + q_count (queue_drop_front q))) e (the (q_buffer q)) = Some buf'"
      and q': "queue_like es cap pol ((queue_drop_front q)\<lparr> q_buffer := Some buf', q_count := q_count (queue_drop_front q) + 1 \<rparr>)"
      "queue_items ((queue_drop_front q)\<lparr> q_buffer := Some buf', q_count := q_count (queue_drop_front q) + 1 \<rparr>)
        = tl (queue_items q) @ [e]"
      unfolding d by blast
    with NX_QUEUE_ON_FULL_OVERWRITE full assms wf show ?thesis
      by (auto simp: nx_queue_push_def mem_read_def queue_wf_def Let_def d simp del: One_nat_def)
  qed
qed

lemma queue_step_sim:
  assumes "queue_like es cap pol q" "queue_op_ok es x"
  shows "\<exists>q'. queue_step x q = Some (fst (queue_spec cap pol x (queue_items q)), q') \<and>
           queue_like es cap pol q' \<and> queue_items q' = snd (queue_spec cap pol x (queue_items q))"
proof (cases x)
  case (QPush e)
  with assms nx_queue_push_spec show ?thesis by (simp add: queue_op_ok_def)
next
  case QClear
  with assms show ?thesis
    by (auto simp: nx_queue_clear_def queue_like_def queue_wf_def queue_items_def)
next
  case QSize
  with assms show ?thesis by (simp add: nx_queue_size_def)
next
  case other: QPop
  note d = queue_drop_front_items[of q] queue_copy_front_eq[of q "replicate (q_element_size q) 0"]
  show ?thesis
    using assms other d
    by (cases q rule: queue_items_cases) (auto simp: nx_queue_pop_def queue_like_def queue_wf_def)
next
  case other: QDiscard
  note d = queue_drop_front_items[of q]
  show ?thesis
    using assms other d
    by (cases q rule: queue_items_cases) (auto simp: nx_queue_pop_def queue_like_def queue_wf_def)
next
  case other: QPeek
  show ?thesis
    using assms other queue_copy_front_eq[of q "replicate (q_element_size q) 0"]
    by (cases q rule: queue_items_cases) (auto simp: nx_queue_peek_def queue_like_def queue_wf_def)
qed

interpretation queue_sim: simulation "queue_like es cap pol" "queue_op_ok es" queue_items queue_step
  "queue_spec cap pol" for es cap pol
  by unfold_locales (rule queue_step_sim)


lemma nx_queue_init_like:
  assumes "cap * es \<le> length buf" "0 < es" "0 < cap"
  shows "\<exists>q. nx_queue_init (Some q0) (Some buf) es cap pol = (NX_QUEUE_OK, Some q) \<and>
             queue_like es cap pol q \<and> queue_items q = []"
  using assms by (simp add: nx_queue_init_def queue_like_def queue_wf_def queue_items_def)

text \<open>
  C32: a queue is a bounded list with its policy: initialised over a buffer of sufficient size, whatever it held
  before, and run through any sequence of pushes, pops, discards, peeks, clears and size queries, it never
  accesses memory outside the buffer, and every return code and every element it hands out is
  that of a list of at most \<open>cap\<close> elements that rejects a push, or drops its oldest element, when full;
  the elements left are those of that list.
\<close>
theorem nx_queue_runs_as_bounded_list:
  assumes "cap * es \<le> length buf" and "0 < es" and "0 < cap" and "list_all (queue_op_ok es) xs"
  shows "\<exists>q q'. nx_queue_init (Some q0) (Some buf) es cap pol = (NX_QUEUE_OK, Some q) \<and>
           run_ops queue_step xs q = Some (fst (run_spec (queue_spec cap pol) xs []), q') \<and>
           queue_wf q' \<and> queue_items q' = snd (run_spec (queue_spec cap pol) xs [])"
proof -
  obtain q where "nx_queue_init (Some q0) (Some buf) es cap pol = (NX_QUEUE_OK, Some q)"
    and q: "queue_like es cap pol q" "queue_items q = []"
    using nx_queue_init_like[OF assms(1,2,3)] by blast
  with queue_sim.run_sim[OF q(1) assms(4)] show ?thesis
    by (auto simp: queue_like_def)
qed

theorem nx_queue_runs_as_bounded_list_witness:
  "\<exists>q q'. nx_queue_init (Some (undefined :: nx_queue)) (Some [9, 9, 9, 9, 9]) 2 2 NX_QUEUE_ON_FULL_OVERWRITE
            = (NX_QUEUE_OK, Some q) \<and>
     run_ops queue_step [QPush [1, 2], QPush [3, 4], QPush [5, 6], QPop, QSize, QPeek] q
       = Some ([QRet NX_QUEUE_OK, QRet NX_QUEUE_OK, QRet NX_QUEUE_OK, QElem NX_QUEUE_OK (Some [3, 4]), QNum 1,
                QElem NX_QUEUE_OK (Some [5, 6])], q')"
  using nx_queue_runs_as_bounded_list[of 2 2 "[9, 9, 9, 9, 9]"
      "[QPush [1, 2], QPush [3, 4], QPush [5, 6], QPop, QSize, QPeek]" undefined NX_QUEUE_ON_FULL_OVERWRITE]
  by (auto simp: queue_op_ok_def)

section \<open>The interface of a queue that rejects when full\<close>

text \<open>
  What a client that must not lose elements relies on: a push either appends or reports that the queue is full, a
  pop hands out the oldest element. Inside the contract, elements are neither lost nor duplicated.
\<close>

locale reject_fifo =
  fixes inv :: "'q \<Rightarrow> bool" and items :: "'q \<Rightarrow> 'x list" and room :: nat and elem :: "'x \<Rightarrow> bool"
    and push :: "'q \<Rightarrow> 'x \<Rightarrow> (nx_queue_ret \<times> 'q option) option"
    and pop :: "'q \<Rightarrow> 'x \<Rightarrow> ((nx_queue_ret \<times> 'x option) \<times> 'q option) option"
  assumes push_law: "inv q \<Longrightarrow> elem x \<Longrightarrow>
      \<exists>q'. push q x = Some (if length (items q) < room then NX_QUEUE_OK else NX_QUEUE_ERR_FULL, Some q') \<and> inv q' \<and>
           items q' = (if length (items q) < room then items q @ [x] else items q)"
    and pop_law: "inv q \<Longrightarrow> elem w \<Longrightarrow>
      \<exists>q' out. pop q w = Some ((if items q = [] then NX_QUEUE_ERR_EMPTY else NX_QUEUE_OK, out), Some q') \<and> inv q' \<and>
           items q' = tl (items q) \<and> (items q \<noteq> [] \<longrightarrow> out = Some (hd (items q)))"
begin

lemma push_cases:
  assumes "inv q" "elem x"
  obtains (stored) q' where "push q x = Some (NX_QUEUE_OK, Some q')" "inv q'" "items q' = items q @ [x]"
      "length (items q) < room"
    | (full) q' where "push q x = Some (NX_QUEUE_ERR_FULL, Some q')" "inv q'" "items q' = items q"
      "room \<le> length (items q)"
  using push_law[OF assms] by (metis not_less)

lemma push_count:
  assumes "inv q" "elem x" "push q x = Some (r, Some q')"
  shows "count_list (map f (items q')) y = count_list (map f (items q)) y + (if r = NX_QUEUE_OK \<and> f x = y then 1 else 0)"
  using push_law[OF assms(1,2)] assms(3) by (auto split: if_splits)

lemma pop_count:
  assumes "inv q" "elem w" "pop q w = Some ((r, out), Some q')"
  shows "count_list (map f (items q)) y =
    count_list (map f (items q')) y + (if r = NX_QUEUE_OK \<and> map_option f out = Some y then 1 else 0)"
  using pop_law[OF assms(1,2)] assms(3) by (cases "items q") auto

end

interpretation reject_queue: reject_fifo "queue_like es cap NX_QUEUE_ON_FULL_REJECT" queue_items cap "\<lambda>e. length e = es"
  "\<lambda>q e. nx_queue_push (Some q) (Some e)" "\<lambda>q w. nx_queue_pop (Some q) (Some w)" for es cap
proof
  fix q x assume wf: "queue_like es cap NX_QUEUE_ON_FULL_REJECT q" and len: "length (x :: bytes) = es"
  show "\<exists>q'. nx_queue_push (Some q) (Some x)
        = Some (if length (queue_items q) < cap then NX_QUEUE_OK else NX_QUEUE_ERR_FULL, Some q') \<and>
      queue_like es cap NX_QUEUE_ON_FULL_REJECT q' \<and>
      queue_items q' = (if length (queue_items q) < cap then queue_items q @ [x] else queue_items q)"
    using nx_queue_push_spec[OF wf len] by (auto simp: bind_eq_Some_conv)
  obtain buf where "q_buffer q = Some buf" using wf by (auto simp: queue_like_def queue_wf_def)
  then show "\<exists>q' out. nx_queue_pop (Some q) (Some x)
        = Some ((if queue_items q = [] then NX_QUEUE_ERR_EMPTY else NX_QUEUE_OK, out), Some q') \<and>
      queue_like es cap NX_QUEUE_ON_FULL_REJECT q' \<and> queue_items q' = tl (queue_items q) \<and>
      (queue_items q \<noteq> [] \<longrightarrow> out = Some (hd (queue_items q)))"
    using wf len queue_drop_front_items[of q] queue_copy_front_eq[of q x]
    by (cases q rule: queue_items_cases) (auto simp: nx_queue_pop_def queue_like_def)
qed

end
