(* ===== verification/Nx_Ringbuf.thy ===== *)
theory Nx_Ringbuf
  imports Nx_Prelude
begin

text \<open>
  \<open>src/core/nx_ringbuf.c\<close> and \<open>nx_ringbuf.h\<close>: a byte stream over a caller-provided buffer, with bulk
  transfers in at most two \<open>memcpy\<close> pieces and linear windows for DMA. Its abstraction is the list of stored
  bytes; every run of operations is shown to be the run of a bounded byte list.
\<close>

section \<open>Operations\<close>

record nx_ringbuf =
  rb_buffer :: "bytes option"
  rb_capacity :: nat
  rb_read_pos :: nat
  rb_count :: nat

definition nx_ringbuf_init :: "nx_ringbuf option \<Rightarrow> bytes option \<Rightarrow> nat \<Rightarrow> bool \<times> nx_ringbuf option" where
  "nx_ringbuf_init rp buffer capacity =
     (if rp = None \<or> buffer = None \<or> capacity = 0 then (False, rp)
      else (True, Some \<lparr> rb_buffer = buffer, rb_capacity = capacity, rb_read_pos = 0, rb_count = 0 \<rparr>))"

definition nx_ringbuf_write ::
  "nx_ringbuf option \<Rightarrow> bytes option \<Rightarrow> nat \<Rightarrow> (nat \<times> nx_ringbuf option) option" where
  "nx_ringbuf_write rp src len0 =
     on_handle rp 0 (\<lambda>rb.
       if rb_buffer rb = None \<or> (src = None \<and> len0 > 0) then Some (0, rb)
       else
         let free_space = rb_capacity rb - rb_count rb;
             len = (if len0 > free_space then free_space else len0)
         in if len = 0 then Some (0, rb)
            else
              let w = rb_read_pos rb + rb_count rb;
                  wpos = (if w \<ge> rb_capacity rb then w - rb_capacity rb else w);
                  run = rb_capacity rb - wpos;
                  first = (if run > len then len else run)
              in do {
                input \<leftarrow> src;
                buf \<leftarrow> rb_buffer rb;
                x \<leftarrow> mem_read 0 first input;
                buf1 \<leftarrow> mem_write wpos x buf;
                buf2 \<leftarrow> (if len > first
                        then do { y \<leftarrow> mem_read first (len - first) input; mem_write 0 y buf1 }
                        else Some buf1);
                Some (len, rb\<lparr> rb_buffer := Some buf2, rb_count := rb_count rb + len \<rparr>) })"

text \<open>Copies into \<open>dst\<close>, which is returned with its new contents.\<close>

definition nx_ringbuf_copy_out :: "nx_ringbuf \<Rightarrow> bytes \<Rightarrow> nat \<Rightarrow> (nat \<times> bytes) option" where
  "nx_ringbuf_copy_out rb dst len0 =
     (let len = (if len0 > rb_count rb then rb_count rb else len0)
      in if len = 0 then Some (0, dst)
         else
           let run = rb_capacity rb - rb_read_pos rb;
               first = (if run > len then len else run)
           in do {
             buf \<leftarrow> rb_buffer rb;
             x \<leftarrow> mem_read (rb_read_pos rb) first buf;
             dst1 \<leftarrow> mem_write 0 x dst;
             dst2 \<leftarrow> (if len > first
                     then do { y \<leftarrow> mem_read 0 (len - first) buf; mem_write first y dst1 }
                     else Some dst1);
             Some (len, dst2) })"

definition nx_ringbuf_peek ::
  "nx_ringbuf option \<Rightarrow> bytes option \<Rightarrow> nat \<Rightarrow> (nat \<times> bytes option) option" where
  "nx_ringbuf_peek rp dst len =
     (case rp of None \<Rightarrow> Some (0, dst)
      | Some rb \<Rightarrow>
          if rb_buffer rb = None \<or> (dst = None \<and> len > 0) then Some (0, dst)
          else
            case dst of
              None \<Rightarrow> map_option (\<lambda>(n, _). (n, None)) (nx_ringbuf_copy_out rb [] len)
            | Some d \<Rightarrow> map_option (\<lambda>(n, d'). (n, Some d')) (nx_ringbuf_copy_out rb d len))"

definition nx_ringbuf_discard :: "nx_ringbuf option \<Rightarrow> nat \<Rightarrow> nat \<times> nx_ringbuf option" where
  "nx_ringbuf_discard rp len0 =
     (case rp of None \<Rightarrow> (0, None)
      | Some rb \<Rightarrow>
          if rb_buffer rb = None then (0, Some rb)
          else
            let len = (if len0 > rb_count rb then rb_count rb else len0);
                p = rb_read_pos rb + len
            in (len, Some (rb\<lparr> rb_read_pos := (if p \<ge> rb_capacity rb then p - rb_capacity rb else p),
                               rb_count := rb_count rb - len \<rparr>)))"

definition nx_ringbuf_read ::
  "nx_ringbuf option \<Rightarrow> bytes option \<Rightarrow> nat \<Rightarrow> ((nat \<times> bytes option) \<times> nx_ringbuf option) option" where
  "nx_ringbuf_read rp dst len =
     on_handle rp (0, dst) (\<lambda>rb.
       if rb_buffer rb = None then Some ((0, dst), rb)
       else do {
         (n, dst') \<leftarrow> (case dst of None \<Rightarrow> Some (len, None)
                       | Some d \<Rightarrow> map_option (\<lambda>(n, d'). (n, Some d')) (nx_ringbuf_copy_out rb d len));
         let (k, rp') = nx_ringbuf_discard (Some rb) n;
         rb' \<leftarrow> rp';
         Some ((k, dst'), rb') })"

definition nx_ringbuf_clear :: "nx_ringbuf option \<Rightarrow> nx_ringbuf option" where
  "nx_ringbuf_clear rp = map_option (\<lambda>rb. rb\<lparr> rb_read_pos := 0, rb_count := 0 \<rparr>) rp"

text \<open>
  The linear windows: the returned pointer as an offset into the buffer (\<open>None\<close> for NULL), and what
  is stored to \<open>*out_len\<close> when \<open>out_len\<close> is given.
\<close>

definition nx_ringbuf_peek_linear :: "nx_ringbuf option \<Rightarrow> bool \<Rightarrow> nat option \<times> nat option" where
  "nx_ringbuf_peek_linear rp has_out =
     (case rp of None \<Rightarrow> (None, if has_out then Some 0 else None)
      | Some rb \<Rightarrow>
          if rb_buffer rb = None \<or> \<not> has_out \<or> rb_count rb = 0 then (None, if has_out then Some 0 else None)
          else
            let to_end = rb_capacity rb - rb_read_pos rb
            in (Some (rb_read_pos rb), Some (if rb_count rb < to_end then rb_count rb else to_end)))"

definition nx_ringbuf_poke_linear :: "nx_ringbuf option \<Rightarrow> bool \<Rightarrow> nat option \<times> nat option" where
  "nx_ringbuf_poke_linear rp has_out =
     (case rp of None \<Rightarrow> (None, if has_out then Some 0 else None)
      | Some rb \<Rightarrow>
          if rb_buffer rb = None \<or> \<not> has_out \<or> rb_count rb = rb_capacity rb
          then (None, if has_out then Some 0 else None)
          else
            let w = rb_read_pos rb + rb_count rb;
                wpos = (if w \<ge> rb_capacity rb then w - rb_capacity rb else w);
                free_space = rb_capacity rb - rb_count rb;
                to_end = rb_capacity rb - wpos
            in (Some wpos, Some (if free_space < to_end then free_space else to_end)))"

definition nx_ringbuf_commit :: "nx_ringbuf option \<Rightarrow> nat \<Rightarrow> nat \<times> nx_ringbuf option" where
  "nx_ringbuf_commit rp len0 =
     (case rp of None \<Rightarrow> (0, None)
      | Some rb \<Rightarrow>
          if rb_buffer rb = None then (0, Some rb)
          else
            let free_space = rb_capacity rb - rb_count rb;
                len = (if len0 > free_space then free_space else len0)
            in (len, Some (rb\<lparr> rb_count := rb_count rb + len \<rparr>)))"

definition nx_ringbuf_size :: "nx_ringbuf option \<Rightarrow> nat" where
  "nx_ringbuf_size rp = (case rp of Some rb \<Rightarrow> rb_count rb | None \<Rightarrow> 0)"

definition nx_ringbuf_free :: "nx_ringbuf option \<Rightarrow> nat" where
  "nx_ringbuf_free rp = (case rp of Some rb \<Rightarrow> rb_capacity rb - rb_count rb | None \<Rightarrow> 0)"

section \<open>Well-formed ring buffers and the bytes they hold\<close>

definition ringbuf_wf :: "nat \<Rightarrow> nx_ringbuf \<Rightarrow> bool" where
  "ringbuf_wf cap rb \<longleftrightarrow>
     (\<exists>buf. rb_buffer rb = Some buf \<and> cap \<le> length buf) \<and> rb_capacity rb = cap \<and>
     rb_read_pos rb < cap \<and> rb_count rb \<le> cap"

definition ringbuf_items :: "nx_ringbuf \<Rightarrow> bytes" where
  "ringbuf_items rb =
     ring_items (\<lambda>i. the (rb_buffer rb) ! i) (rb_capacity rb) (rb_read_pos rb) (rb_count rb)"

lemma length_ringbuf_items [simp]: "length (ringbuf_items rb) = rb_count rb"
  by (simp add: ringbuf_items_def)

lemma mem_write_two:
  "length x + length y \<le> length dst \<Longrightarrow>
   mem_write 0 x dst = Some (x @ drop (length x) dst) \<and>
   mem_write (length x) y (x @ drop (length x) dst) = Some (x @ y @ drop (length x + length y) dst)"
  by (simp add: mem_write_def add.commute)

text \<open>A ring read in two straight pieces, and a ring of which some slots were rewritten.\<close>

lemma ring_two_pieces:
  assumes "cap \<le> length buf" "h < cap" "n \<le> cap"
  shows "ring_items (\<lambda>i. buf ! i) cap h n =
         take (min (cap - h) n) (drop h buf) @ take (n - min (cap - h) n) buf"
proof (rule nth_equalityI)
  fix i assume "i < length (ring_items (\<lambda>i. buf ! i) cap h n)"
  then have i: "i < n" by simp
  show "ring_items (\<lambda>i. buf ! i) cap h n ! i =
      (take (min (cap - h) n) (drop h buf) @ take (n - min (cap - h) n) buf) ! i"
  proof (cases "i < cap - h")
    case True
    with i assms show ?thesis by (simp add: nth_append)
  next
    case False
    then have "(h + i) mod cap = i - (cap - h)" using i assms by (simp add: le_mod_geq)
    with i assms False show ?thesis by (simp add: nth_append)
  qed
qed (use assms in auto)

lemma ring_after_write:
  assumes "cap \<le> length buf" "h < cap" "c + length xs \<le> cap" "length buf' = length buf"
    and new: "\<And>j. j < length xs \<Longrightarrow> buf' ! ((h + c + j) mod cap) = xs ! j"
    and old: "\<And>j. j < c \<Longrightarrow> buf' ! ((h + j) mod cap) = buf ! ((h + j) mod cap)"
  shows "ring_items (\<lambda>i. buf' ! i) cap h (c + length xs) = ring_items (\<lambda>i. buf ! i) cap h c @ xs"
proof (rule nth_equalityI)
  fix i assume "i < length (ring_items (\<lambda>i. buf' ! i) cap h (c + length xs))"
  then show "ring_items (\<lambda>i. buf' ! i) cap h (c + length xs) ! i =
      (ring_items (\<lambda>i. buf ! i) cap h c @ xs) ! i"
    using new[of "i - c"] old[of i] by (auto simp: nth_append)
qed (use assms in auto)

text \<open>A slot \<open>s\<close> that already holds data is in neither piece of a write at \<open>w\<close>.\<close>

lemma old_slot_arith:
  assumes "h + j < cap \<and> s = h + j \<or> cap \<le> h + j \<and> s = h + j - cap"
    and "h + c < cap \<and> w = h + c \<or> cap \<le> h + c \<and> w = h + c - cap"
    and "m = cap - w \<and> cap - w \<le> k \<or> m = k \<and> k \<le> cap - (w::nat)"
    and "j < c" "h < cap" "c \<le> cap" "c + k \<le> cap"
  shows "\<not> s < k - m \<and> \<not> (w \<le> s \<and> s < w + m)"
  using assms by (elim disjE conjE) auto

lemma nx_ringbuf_discard_spec:
  assumes "ringbuf_wf cap rb"
  shows "\<exists>rb'. nx_ringbuf_discard (Some rb) n = (min n (rb_count rb), Some rb') \<and> ringbuf_wf cap rb' \<and>
           ringbuf_items rb' = drop n (ringbuf_items rb) \<and> rb_buffer rb' = rb_buffer rb"
proof -
  define k where "k = min n (rb_count rb)"
  define p where "p = (rb_read_pos rb + k) mod cap"
  have k: "(if n > rb_count rb then rb_count rb else n) = k" by (simp add: k_def)
  have "k \<le> rb_count rb" by (simp add: k_def)
  moreover have "(if rb_read_pos rb + k \<ge> cap then rb_read_pos rb + k - cap else rb_read_pos rb + k) = p"
    using assms calculation by (auto simp: p_def ringbuf_wf_def le_mod_geq)
  moreover have "ring_items (\<lambda>i. the (rb_buffer rb) ! i) cap p (rb_count rb - k) =
      drop k (ring_items (\<lambda>i. the (rb_buffer rb) ! i) cap (rb_read_pos rb) (rb_count rb))"
    unfolding p_def by (rule ring_items_drop) fact
  moreover have "drop k xs = drop n xs" if "length xs = rb_count rb" for xs :: bytes
    using that by (simp add: k_def min_def)
  moreover have "p < cap" using assms by (auto simp: p_def ringbuf_wf_def)
  ultimately show ?thesis
    using assms
    by (intro exI[of _ "rb\<lparr>rb_read_pos := p, rb_count := rb_count rb - k\<rparr>"])
      (auto simp: nx_ringbuf_discard_def k[symmetric] Let_def ringbuf_wf_def ringbuf_items_def k_def[symmetric])
qed

lemma nx_ringbuf_copy_out_spec:
  assumes "ringbuf_wf cap rb" "n \<le> length dst"
  shows "nx_ringbuf_copy_out rb dst n =
         Some (min n (rb_count rb), take n (ringbuf_items rb) @ drop (min n (rb_count rb)) dst)"
proof -
  define k where "k = min n (rb_count rb)"
  define m where "m = min (cap - rb_read_pos rb) k"
  obtain buf where buf: "rb_buffer rb = Some buf" "cap \<le> length buf"
    and wf: "rb_capacity rb = cap" "rb_read_pos rb < cap" "rb_count rb \<le> cap"
    using assms(1) by (auto simp: ringbuf_wf_def)
  have k: "(if n > rb_count rb then rb_count rb else n) = k" "k \<le> length dst" "k \<le> cap"
    "k \<le> rb_count rb" using assms(2) wf by (auto simp: k_def)
  have items: "take n (ringbuf_items rb) = take m (drop (rb_read_pos rb) buf) @ take (k - m) buf"
  proof -
    have "take n (ringbuf_items rb) = take k (ringbuf_items rb)"
      by (simp add: k_def min_def)
    also have "\<dots> = ring_items (\<lambda>i. buf ! i) cap (rb_read_pos rb) k"
      using ring_items_take[OF k(4)] by (simp add: ringbuf_items_def buf wf)
    also have "\<dots> = take m (drop (rb_read_pos rb) buf) @ take (k - m) buf"
      unfolding m_def by (rule ring_two_pieces) (use buf wf k in auto)
    finally show ?thesis .
  qed
  have m: "(if cap - rb_read_pos rb > k then k else cap - rb_read_pos rb) = m" "m \<le> k"
    "rb_read_pos rb + m \<le> length buf" "k - m \<le> length buf"
    using wf buf k by (auto simp: m_def)
  have len: "length (take m (drop (rb_read_pos rb) buf)) = m" "length (take (k - m) buf) = k - m"
    using m by auto
  show ?thesis
    unfolding nx_ringbuf_copy_out_def Let_def k(1) wf m(1) items k_def[symmetric]
    using m k buf len mem_write_two[of "take m (drop (rb_read_pos rb) buf)" "take (k - m) buf" dst]
    by (auto simp: mem_read_def)
qed

lemma nx_ringbuf_write_spec:
  assumes wf: "ringbuf_wf cap rb" and n: "n \<le> length src"
  shows "\<exists>rb'. nx_ringbuf_write (Some rb) (Some src) n = Some (min n (cap - rb_count rb), Some rb') \<and>
           ringbuf_wf cap rb' \<and>
           ringbuf_items rb' = ringbuf_items rb @ take (min n (cap - rb_count rb)) src"
proof -
  define k where "k = min n (cap - rb_count rb)"
  define h where "h = rb_read_pos rb"
  define c where "c = rb_count rb"
  define wpos where "wpos = (h + c) mod cap"
  define m where "m = min (cap - wpos) k"
  obtain buf where buf: "rb_buffer rb = Some buf" "cap \<le> length buf"
    and rb: "rb_capacity rb = cap" "h < cap" "c \<le> cap"
    using wf by (auto simp: ringbuf_wf_def h_def c_def)
  have k: "(if n > cap - c then cap - c else n) = k" "k \<le> length src" "c + k \<le> cap"
    using n rb by (auto simp: k_def c_def)
  show ?thesis
  proof (cases "k = 0")
    case True
    then have "min n (cap - rb_count rb) = 0" by (simp add: k_def)
    moreover have "nx_ringbuf_write (Some rb) (Some src) n = Some (0, Some rb)"
      unfolding nx_ringbuf_write_def on_handle_Some Let_def rb(1) c_def[symmetric] k(1)
      using True buf by simp
    ultimately show ?thesis using wf by simp
  next
    case False
    have wpos: "(if h + c \<ge> cap then h + c - cap else h + c) = wpos" "wpos < cap"
      using rb by (auto simp: wpos_def le_mod_geq)
    have m: "(if cap - wpos > k then k else cap - wpos) = m" "m \<le> k" "wpos + m \<le> cap"
      using wpos by (auto simp: m_def)
    obtain buf1 where w1: "mem_write wpos (take m src) buf = Some buf1"
      using m k wpos buf by (auto simp: mem_write_def)
    note len1 = mem_write_length[OF w1]
    have "k \<le> length buf1" using k(3) buf len1 by simp
    then have "0 + length (take (k - m) (drop m src)) \<le> length buf1" by simp
    from mem_write_ok[OF this] obtain buf2 where w2: "mem_write 0 (take (k - m) (drop m src)) buf1 = Some buf2" ..
    note len2 = mem_write_length[OF w2]
    have run: "nx_ringbuf_write (Some rb) (Some src) n =
        Some (k, Some (rb\<lparr> rb_buffer := Some buf2, rb_count := c + k \<rparr>))"
      using False w1 w2 m(2) k buf
      unfolding nx_ringbuf_write_def on_handle_Some Let_def rb c_def[symmetric] h_def[symmetric] k wpos m
      by (auto simp: mem_read_def mem_write_def)
    have b2: "buf2 ! i = (if i < k - m then src ! (m + i) else if wpos \<le> i \<and> i < wpos + m then src ! (i - wpos) else buf ! i)"
      if "i < cap" for i
    proof -
      have len: "length (take m src) = m" "length (take (k - m) (drop m src)) = k - m" "i < length buf" "i < length buf1"
        using m(2) k(2) that buf(2) len1 by auto
      show ?thesis
        unfolding mem_write_nth[OF w2 len(4)] mem_write_nth[OF w1 len(3)] len using m(2) k(2) by auto
    qed
    have low: "h + c < cap \<and> wpos = h + c \<or> cap \<le> h + c \<and> wpos = h + c - cap"
      using wpos(1) by (cases "h + c \<ge> cap") simp_all
    have mm: "m = cap - wpos \<and> cap - wpos \<le> k \<or> m = k \<and> k \<le> cap - wpos"
      unfolding m_def by linarith
    have wrap: "k - m \<le> wpos" using rb(2,3) low mm k(3) by linarith
    have "ring_items (\<lambda>i. buf2 ! i) cap h (c + length (take k src)) =
        ring_items (\<lambda>i. buf ! i) cap h c @ take k src"
    proof (rule ring_after_write)
      fix j assume "j < length (take k src)"
      then have j: "j < k" by simp
      have "(h + c + j) mod cap = (wpos + j) mod cap" by (simp add: wpos_def mod_add_left_eq)
      also have "\<dots> = (if wpos + j < cap then wpos + j else wpos + j - cap)"
        using wpos(2) j k(3) by (simp add: le_mod_geq)
      finally have "(h + c + j) mod cap = (if wpos + j < cap then wpos + j else wpos + j - cap)" .
      then show "buf2 ! ((h + c + j) mod cap) = take k src ! j"
        using b2[of "(h + c + j) mod cap"] j wrap wpos(2) mm by (cases "wpos + j < cap") auto
    next
      fix j assume j: "j < c"
      have slot: "(h + j) mod cap = (if h + j < cap then h + j else h + j - cap)"
        using rb j by (simp add: le_mod_geq)
      then have "h + j < cap \<and> (h + j) mod cap = h + j \<or> cap \<le> h + j \<and> (h + j) mod cap = h + j - cap"
        by auto
      then have "\<not> (h + j) mod cap < k - m \<and> \<not> (wpos \<le> (h + j) mod cap \<and> (h + j) mod cap < wpos + m)"
        using low mm j rb(2,3) k(3) by (rule old_slot_arith)
      then show "buf2 ! ((h + j) mod cap) = buf ! ((h + j) mod cap)"
        using b2[of "(h + j) mod cap"] rb by auto
    qed (use buf rb k len1 len2 in auto)
    then have "ringbuf_items (rb\<lparr> rb_buffer := Some buf2, rb_count := c + k \<rparr>) = ringbuf_items rb @ take k src"
      using k(2) buf by (simp add: ringbuf_items_def rb h_def c_def min_absorb2)
    moreover have "ringbuf_wf cap (rb\<lparr> rb_buffer := Some buf2, rb_count := c + k \<rparr>)"
      using wf k buf len1 len2 by (auto simp: ringbuf_wf_def c_def)
    ultimately show ?thesis
      using run by (auto simp: k_def c_def)
  qed
qed

section \<open>The linear windows\<close>

lemma ringbuf_wpos:
  assumes "ringbuf_wf cap rb"
  shows "(if rb_read_pos rb + rb_count rb \<ge> rb_capacity rb then rb_read_pos rb + rb_count rb - rb_capacity rb
          else rb_read_pos rb + rb_count rb) = (rb_read_pos rb + rb_count rb) mod cap"
  using assms by (auto simp: ringbuf_wf_def le_mod_geq)

lemma ringbuf_peek_window:
  assumes wf: "ringbuf_wf cap rb" and ne: "0 < rb_count rb"
  shows "\<exists>p n. nx_ringbuf_peek_linear (Some rb) True = (Some p, Some n) \<and> 0 < n \<and>
           mem_read p n (the (rb_buffer rb)) = Some (take n (ringbuf_items rb)) \<and> n \<le> rb_count rb"
proof -
  obtain buf where buf: "rb_buffer rb = Some buf" "cap \<le> length buf"
    and rb: "rb_capacity rb = cap" "rb_read_pos rb < cap" "rb_count rb \<le> cap"
    using wf by (auto simp: ringbuf_wf_def)
  let ?n = "min (cap - rb_read_pos rb) (rb_count rb)"
  have "take ?n (ringbuf_items rb) = ring_items (\<lambda>i. buf ! i) cap (rb_read_pos rb) ?n"
    by (simp add: ringbuf_items_def rb buf ring_items_take)
  also have "\<dots> = take ?n (drop (rb_read_pos rb) buf)"
    using ring_two_pieces[OF buf(2) rb(2), of ?n] rb by simp
  finally have "take ?n (ringbuf_items rb) = take ?n (drop (rb_read_pos rb) buf)" .
  moreover have "nx_ringbuf_peek_linear (Some rb) True = (Some (rb_read_pos rb), Some ?n)"
    using ne buf rb by (simp add: nx_ringbuf_peek_linear_def Let_def min_def)
  ultimately show ?thesis
    using ne buf rb by (intro exI[of _ "rb_read_pos rb"] exI[of _ ?n]) (auto simp: mem_read_def)
qed

text \<open>What a producer stores into the window and commits is appended to the stream.\<close>

lemma ringbuf_poke_commit:
  assumes wf: "ringbuf_wf cap rb" and room: "rb_count rb < cap"
    and xs: "length xs \<le> cap - rb_count rb" "length xs \<le> cap - (rb_read_pos rb + rb_count rb) mod cap"
    and w: "mem_write ((rb_read_pos rb + rb_count rb) mod cap) xs (the (rb_buffer rb)) = Some buf'"
  shows "\<exists>rb'. nx_ringbuf_commit (Some (rb\<lparr> rb_buffer := Some buf' \<rparr>)) (length xs) = (length xs, Some rb') \<and>
           ringbuf_wf cap rb' \<and> ringbuf_items rb' = ringbuf_items rb @ xs"
proof -
  define h where "h = rb_read_pos rb"
  define c where "c = rb_count rb"
  define wpos where "wpos = (h + c) mod cap"
  obtain buf where buf: "rb_buffer rb = Some buf" "cap \<le> length buf"
    and rb: "rb_capacity rb = cap" "h < cap" "c \<le> cap"
    using wf by (auto simp: ringbuf_wf_def h_def c_def)
  have w: "mem_write wpos xs buf = Some buf'" using w buf by (simp add: wpos_def h_def c_def)
  have "wpos < cap" using rb by (simp add: wpos_def)
  then have xs: "c + length xs \<le> cap" "wpos + length xs \<le> cap"
    using assms(3,4) room unfolding c_def[symmetric] h_def[symmetric] wpos_def[symmetric] by linarith+
  note len = mem_write_length[OF w]
  have b: "buf' ! i = (if wpos \<le> i \<and> i < wpos + length xs then xs ! (i - wpos) else buf ! i)" if "i < cap" for i
    using mem_write_nth[OF w, of i] that buf by simp
  have "ring_items (\<lambda>i. buf' ! i) cap h (c + length xs) = ring_items (\<lambda>i. buf ! i) cap h c @ xs"
  proof (rule ring_after_write)
    fix j assume j: "j < length xs"
    have "(h + c + j) mod cap = (wpos + j) mod cap" by (simp add: wpos_def mod_add_left_eq)
    also have "\<dots> = wpos + j" using j xs by simp
    finally show "buf' ! ((h + c + j) mod cap) = xs ! j" using b[of "wpos + j"] j xs by simp
  next
    fix j assume j: "j < c"
    have "(h + j) mod cap = (if h + j < cap then h + j else h + j - cap)"
      "wpos = (if h + c < cap then h + c else h + c - cap)"
      using rb j by (simp_all add: wpos_def le_mod_geq)
    then have "\<not> (wpos \<le> (h + j) mod cap \<and> (h + j) mod cap < wpos + length xs)"
      using j rb xs by (auto split: if_splits)
    then show "buf' ! ((h + j) mod cap) = buf ! ((h + j) mod cap)"
      using b[of "(h + j) mod cap"] rb by auto
  qed (use buf rb xs len in auto)
  then have "ringbuf_items (rb\<lparr> rb_buffer := Some buf', rb_count := c + length xs \<rparr>) = ringbuf_items rb @ xs"
    using buf by (simp add: ringbuf_items_def rb h_def c_def)
  moreover have "ringbuf_wf cap (rb\<lparr> rb_buffer := Some buf', rb_count := c + length xs \<rparr>)"
    using wf xs buf len by (auto simp: ringbuf_wf_def c_def)
  ultimately show ?thesis
    using xs rb by (auto simp: nx_ringbuf_commit_def Let_def c_def)
qed

text \<open>
  The linear windows of a buffer in use. The readable window is a non-empty run of memory that holds the oldest
  bytes of the stream; the writable window is a non-empty run inside the buffer, and once a producer has
  stored bytes at its start and commits their number, exactly these bytes are appended to the stream.
\<close>
theorem nx_ringbuf_linear_windows:
  assumes "ringbuf_wf cap rb"
  shows "(0 < rb_count rb \<longrightarrow>
            (\<exists>p n. nx_ringbuf_peek_linear (Some rb) True = (Some p, Some n) \<and> 0 < n \<and>
                   mem_read p n (the (rb_buffer rb)) = Some (take n (ringbuf_items rb)) \<and> n \<le> rb_count rb)) \<and>
         (rb_count rb < cap \<longrightarrow>
            (\<exists>p n. nx_ringbuf_poke_linear (Some rb) True = (Some p, Some n) \<and> 0 < n \<and>
                   (\<forall>xs. length xs \<le> n \<longrightarrow>
                      (\<exists>buf' rb'. mem_write p xs (the (rb_buffer rb)) = Some buf' \<and>
                         nx_ringbuf_commit (Some (rb\<lparr> rb_buffer := Some buf' \<rparr>)) (length xs) = (length xs, Some rb') \<and>
                         ringbuf_wf cap rb' \<and> ringbuf_items rb' = ringbuf_items rb @ xs))))"
proof (intro conjI impI)
  obtain buf where buf: "rb_buffer rb = Some buf" "cap \<le> length buf"
    and rb: "rb_capacity rb = cap" "rb_read_pos rb < cap" "rb_count rb \<le> cap"
    using assms by (auto simp: ringbuf_wf_def)
  {
    assume ne: "0 < rb_count rb"
    show "\<exists>p n. nx_ringbuf_peek_linear (Some rb) True = (Some p, Some n) \<and> 0 < n \<and>
        mem_read p n (the (rb_buffer rb)) = Some (take n (ringbuf_items rb)) \<and> n \<le> rb_count rb"
      by (rule ringbuf_peek_window[OF assms ne])
  next
    assume room: "rb_count rb < cap"
    let ?p = "(rb_read_pos rb + rb_count rb) mod cap"
    let ?n = "min (cap - rb_count rb) (cap - ?p)"
    have p: "?p < cap" using rb by simp
    have poke: "nx_ringbuf_poke_linear (Some rb) True = (Some ?p, Some ?n)"
      unfolding nx_ringbuf_poke_linear_def option.case Let_def ringbuf_wpos[OF assms]
      using room buf rb by (simp add: min_def)
    have "\<exists>buf' rb'. mem_write ?p xs (the (rb_buffer rb)) = Some buf' \<and>
        nx_ringbuf_commit (Some (rb\<lparr> rb_buffer := Some buf' \<rparr>)) (length xs) = (length xs, Some rb') \<and>
        ringbuf_wf cap rb' \<and> ringbuf_items rb' = ringbuf_items rb @ xs" if xs: "length xs \<le> ?n" for xs
    proof -
      have "length xs \<le> cap - ?p" using xs by simp
      then have "?p + length xs \<le> length buf" using p buf(2) by linarith
      then obtain buf' where "mem_write ?p xs (the (rb_buffer rb)) = Some buf'"
        by (auto simp: mem_write_def buf)
      with ringbuf_poke_commit[OF assms room _ _ this] xs show ?thesis by simp
    qed
    then show "\<exists>p n. nx_ringbuf_poke_linear (Some rb) True = (Some p, Some n) \<and> 0 < n \<and>
        (\<forall>xs. length xs \<le> n \<longrightarrow>
          (\<exists>buf' rb'. mem_write p xs (the (rb_buffer rb)) = Some buf' \<and>
             nx_ringbuf_commit (Some (rb\<lparr> rb_buffer := Some buf' \<rparr>)) (length xs) = (length xs, Some rb') \<and>
             ringbuf_wf cap rb' \<and> ringbuf_items rb' = ringbuf_items rb @ xs))"
      using poke room p by (intro exI[of _ ?p] exI[of _ ?n]) auto
  }
qed

section \<open>The specification: a bounded byte list\<close>

datatype ringbuf_op = RbWrite bytes | RbRead nat | RbPeek nat | RbDiscard nat | RbClear | RbSize | RbFree

datatype ringbuf_out = RbNum nat | RbData bytes | RbDone

text \<open>One call as a client makes it; reads go to a destination of the length asked for.\<close>

fun ringbuf_step :: "ringbuf_op \<Rightarrow> nx_ringbuf \<Rightarrow> (ringbuf_out \<times> nx_ringbuf) option" where
  "ringbuf_step (RbWrite xs) rb = do {
     (n, rp) \<leftarrow> nx_ringbuf_write (Some rb) (Some xs) (length xs); rb' \<leftarrow> rp; Some (RbNum n, rb') }"
| "ringbuf_step (RbRead n) rb = do {
     ((k, d), rp) \<leftarrow> nx_ringbuf_read (Some rb) (Some (replicate n 0)) n;
     d' \<leftarrow> d; rb' \<leftarrow> rp; Some (RbData (take k d'), rb') }"
| "ringbuf_step (RbPeek n) rb = do {
     (k, d) \<leftarrow> nx_ringbuf_peek (Some rb) (Some (replicate n 0)) n; d' \<leftarrow> d; Some (RbData (take k d'), rb) }"
| "ringbuf_step (RbDiscard n) rb =
     (let (k, rp) = nx_ringbuf_discard (Some rb) n in do { rb' \<leftarrow> rp; Some (RbNum k, rb') })"
| "ringbuf_step RbClear rb = do { rb' \<leftarrow> nx_ringbuf_clear (Some rb); Some (RbDone, rb') }"
| "ringbuf_step RbSize rb = Some (RbNum (nx_ringbuf_size (Some rb)), rb)"
| "ringbuf_step RbFree rb = Some (RbNum (nx_ringbuf_free (Some rb)), rb)"

fun ringbuf_spec :: "nat \<Rightarrow> ringbuf_op \<Rightarrow> bytes \<Rightarrow> ringbuf_out \<times> bytes" where
  "ringbuf_spec cap (RbWrite xs) s = (let n = min (length xs) (cap - length s) in (RbNum n, s @ take n xs))"
| "ringbuf_spec cap (RbRead n) s = (RbData (take n s), drop n s)"
| "ringbuf_spec cap (RbPeek n) s = (RbData (take n s), s)"
| "ringbuf_spec cap (RbDiscard n) s = (RbNum (min n (length s)), drop n s)"
| "ringbuf_spec cap RbClear s = (RbDone, [])"
| "ringbuf_spec cap RbSize s = (RbNum (length s), s)"
| "ringbuf_spec cap RbFree s = (RbNum (cap - length s), s)"

lemma ringbuf_step_sim:
  assumes "ringbuf_wf cap rb"
  shows "\<exists>rb'. ringbuf_step x rb = Some (fst (ringbuf_spec cap x (ringbuf_items rb)), rb') \<and>
           ringbuf_wf cap rb' \<and> ringbuf_items rb' = snd (ringbuf_spec cap x (ringbuf_items rb))"
proof (cases x)
  case (RbWrite xs)
  with nx_ringbuf_write_spec[OF assms, of "length xs" xs] show ?thesis by (auto simp: Let_def)
next
  case (RbRead n)
  obtain buf where "rb_buffer rb = Some buf" using assms by (auto simp: ringbuf_wf_def)
  with RbRead nx_ringbuf_copy_out_spec[OF assms, of n "replicate n 0"]
    nx_ringbuf_discard_spec[OF assms, of "min n (rb_count rb)"]
  show ?thesis by (auto simp: nx_ringbuf_read_def min_def)
next
  case (RbPeek n)
  obtain buf where "rb_buffer rb = Some buf" using assms by (auto simp: ringbuf_wf_def)
  with RbPeek nx_ringbuf_copy_out_spec[OF assms, of n "replicate n 0"] assms
  show ?thesis by (auto simp: nx_ringbuf_peek_def min_def)
next
  case (RbDiscard n)
  with nx_ringbuf_discard_spec[OF assms, of n] show ?thesis by auto
next
  case RbClear
  with assms show ?thesis by (auto simp: nx_ringbuf_clear_def ringbuf_wf_def ringbuf_items_def)
next
  case RbSize
  with assms show ?thesis by (auto simp: nx_ringbuf_size_def)
next
  case RbFree
  with assms show ?thesis by (auto simp: nx_ringbuf_free_def ringbuf_wf_def)
qed

interpretation ringbuf_sim: simulation "ringbuf_wf cap" "\<lambda>_. True" ringbuf_items ringbuf_step "ringbuf_spec cap"
  for cap
  by unfold_locales (rule ringbuf_step_sim)

text \<open>
  C33: a ring buffer is a bounded byte stream: initialised over a buffer of sufficient size and run through any
  sequence of writes, reads, peeks, discards, clears and queries, it stays inside the buffer, and
  every count and all data returned are those of a byte list that takes as much of each write as fits and
  hands out its oldest bytes; the bytes left are those of that list.
\<close>
theorem nx_ringbuf_runs_as_byte_stream:
  assumes "cap \<le> length buf" and "0 < cap"
  shows "\<exists>rb rb'. nx_ringbuf_init (Some rb0) (Some buf) cap = (True, Some rb) \<and>
           run_ops ringbuf_step xs rb = Some (fst (run_spec (ringbuf_spec cap) xs []), rb') \<and>
           ringbuf_wf cap rb' \<and> ringbuf_items rb' = snd (run_spec (ringbuf_spec cap) xs [])"
proof -
  let ?rb = "\<lparr> rb_buffer = Some buf, rb_capacity = cap, rb_read_pos = 0, rb_count = 0 \<rparr>"
  have "ringbuf_wf cap ?rb" "ringbuf_items ?rb = []"
    using assms by (auto simp: ringbuf_wf_def ringbuf_items_def)
  moreover have "nx_ringbuf_init (Some rb0) (Some buf) cap = (True, Some ?rb)"
    using assms by (simp add: nx_ringbuf_init_def)
  ultimately show ?thesis
    using ringbuf_sim.run_sim[of cap ?rb xs] by (auto simp: list.pred_True)
qed

theorem nx_ringbuf_runs_as_byte_stream_witness:
  "\<exists>rb rb'. nx_ringbuf_init (Some (undefined :: nx_ringbuf)) (Some [0, 0, 0, 0]) 3 = (True, Some rb) \<and>
     run_ops ringbuf_step [RbWrite [1, 2], RbRead 1, RbWrite [3, 4, 5], RbFree, RbPeek 9] rb
       = Some ([RbNum 2, RbData [1], RbNum 2, RbNum 0, RbData [2, 3, 4]], rb')"
  using nx_ringbuf_runs_as_byte_stream[of 3 "[0, 0, 0, 0]" undefined
      "[RbWrite [1, 2], RbRead 1, RbWrite [3, 4, 5], RbFree, RbPeek 9]"]
  by (auto simp: Let_def)

theorem nx_ringbuf_linear_windows_witness:
  "\<exists>p n. nx_ringbuf_poke_linear
      (Some \<lparr> rb_buffer = Some [7, 8, 9], rb_capacity = 3, rb_read_pos = 2, rb_count = 2 \<rparr>) True
      = (Some p, Some n) \<and> 0 < n \<and>
    (\<exists>buf' rb'. mem_write p [5] [7, 8, 9] = Some buf' \<and>
       nx_ringbuf_commit (Some \<lparr> rb_buffer = Some buf', rb_capacity = 3, rb_read_pos = 2, rb_count = 2 \<rparr>) 1
         = (1, Some rb') \<and> ringbuf_items rb' = [9, 7, 5])"
proof -
  let ?rb = "\<lparr> rb_buffer = Some [7, 8, 9], rb_capacity = 3, rb_read_pos = 2, rb_count = 2 \<rparr>"
  have "ringbuf_wf 3 ?rb" by (simp add: ringbuf_wf_def)
  moreover have "ringbuf_items ?rb = [9, 7]" by (simp add: ringbuf_items_def ring_items_def upt_rec)
  moreover have "Suc 0 \<le> n \<longleftrightarrow> 0 < n" for n by linarith
  ultimately show ?thesis
    using nx_ringbuf_linear_windows[of 3 ?rb] by (fastforce dest: spec[of _ "[5]"])
qed

end
