(* ===== verification/Nx_Lock.thy ===== *)
theory Nx_Lock
  imports Nx_Prelude
begin

text \<open>
  \<open>src/core/nx_lock.h\<close>: the caller-supplied critical section. The two primitives are the caller's
  functions; they act on an environment \<open>'e\<close> the library does not see, which is threaded
  through every operation that takes a lock.
\<close>

record 'e nx_lock =
  lk_enter :: "(nat \<Rightarrow> 'e \<Rightarrow> u64 \<times> 'e) option"
  lk_exit :: "(nat \<Rightarrow> u64 \<Rightarrow> 'e \<Rightarrow> 'e) option"
  lk_ctx :: nat

definition nx_lock_enter :: "'e nx_lock option \<Rightarrow> 'e \<Rightarrow> u64 \<times> 'e" where
  "nx_lock_enter lock e =
     (case lock of None \<Rightarrow> (0, e)
      | Some l \<Rightarrow> (case lk_enter l of None \<Rightarrow> (0, e) | Some f \<Rightarrow> f (lk_ctx l) e))"

definition nx_lock_exit :: "'e nx_lock option \<Rightarrow> u64 \<Rightarrow> 'e \<Rightarrow> 'e" where
  "nx_lock_exit lock saved e =
     (case lock of None \<Rightarrow> e
      | Some l \<Rightarrow> (case lk_exit l of None \<Rightarrow> e | Some f \<Rightarrow> f (lk_ctx l) saved e))"

text \<open>What the environment sees of one critical section: one entry, and one exit given the saved value.\<close>

definition lock_bracket :: "'e nx_lock option \<Rightarrow> 'e \<Rightarrow> 'e" where
  "lock_bracket lock e = (let (saved, e1) = nx_lock_enter lock e in nx_lock_exit lock saved e1)"

lemma lock_bracket_None [simp]: "lock_bracket None e = e"
  by (simp add: lock_bracket_def nx_lock_enter_def nx_lock_exit_def)

text \<open>
  A lock that records its use, the usual instance: the environment is the number of sections open and
  the list of events, the saved value the depth before.
\<close>

datatype lock_event = Entered nat | Exited nat u64

definition tracing_lock :: "nat \<Rightarrow> lock_event list nx_lock" where
  "tracing_lock ctx =
     \<lparr> lk_enter = Some (\<lambda>c es. (of_nat (length es), es @ [Entered c])),
       lk_exit = Some (\<lambda>c s es. es @ [Exited c s]), lk_ctx = ctx \<rparr>"

lemma lock_bracket_tracing:
  "lock_bracket (Some (tracing_lock c)) es = es @ [Entered c, Exited c (of_nat (length es))]"
  by (simp add: lock_bracket_def nx_lock_enter_def nx_lock_exit_def tracing_lock_def)

end
