(* ===== verification/Nx_Mem_Pool.thy ===== *)
theory Nx_Mem_Pool
  imports Nx_Lock
begin

text \<open>
  \<open>src/core/nx_tiered_mem_pool.c\<close> and its header: a pool of fixed-size blocks in tiers, carved from one
  caller buffer. Addresses are natural numbers, 0 is NULL; the bitmap of a tier is kept with
  its bytes. \<open>size_t\<close> arithmetic that can wrap is written modulo \<open>2 ^ 64\<close>. The lemmas give the pool's
  well-formedness, what \<open>init\<close> lays out, and the contract of \<open>alloc\<close> and \<open>free\<close> over the set of live blocks.
\<close>

section \<open>Types\<close>

datatype nx_tiered_ret =
  NX_TIERED_OK | NX_TIERED_ERR_PARAM | NX_TIERED_ERR_CONFIG | NX_TIERED_ERR_INVALID | NX_TIERED_ERR_DOUBLE_FREE

record nx_tiered_level =
  tl_base :: nat
  tl_end :: nat
  tl_block_size :: nat
  tl_block_count :: nat
  tl_free_count :: nat
  tl_min_free_count :: nat
  tl_next_free_hint :: nat
  tl_used_at :: nat
  tl_used :: bytes

text \<open>The tier table and \<open>tier_count\<close> are one list.\<close>

record 'e nx_tiered_mem_pool =
  tp_tiers_at :: nat
  tp_tiers :: "nx_tiered_level list"
  tp_forbid_fallback :: bool
  tp_lock :: "'e nx_lock option"

record nx_tiered_level_cfg =
  lc_block_size :: nat
  lc_block_count :: nat

record 'e nx_tiered_mem_pool_cfg =
  pc_memory :: nat
  pc_memory_size :: nat
  pc_tiers :: "nx_tiered_level_cfg list option"
  pc_tier_count :: nat
  pc_forbid_fallback :: bool
  pc_lock :: "'e nx_lock option"

record nx_tiered_level_stat =
  ls_block_size :: nat
  ls_block_count :: nat
  ls_free_count :: nat
  ls_peak_used :: nat

section \<open>The in-use bitmap\<close>

text \<open>\<open>_Alignof(max_align_t)\<close> and \<open>sizeof(nx_tiered_level_t)\<close> of the 64-bit target.\<close>

definition NX_TIERED_ALIGN :: nat where "NX_TIERED_ALIGN = 16"

definition LEVEL_SIZEOF :: nat where "LEVEL_SIZEOF = 64"

text \<open>Clearing the low bits of a multiple-of-a-power-of-two alignment is subtracting the remainder.\<close>

definition NX_TIERED_ALIGN_UP :: "nat \<Rightarrow> nat \<Rightarrow> nat" where
  "NX_TIERED_ALIGN_UP n a = (let s = (n + (a - 1)) mod 2 ^ 64 in s - s mod a)"

definition nx_tiered_bit_used :: "nx_tiered_level \<Rightarrow> nat \<Rightarrow> bool option" where
  "nx_tiered_bit_used t idx =
     do { b \<leftarrow> mem_get (idx div 8) (tl_used t); Some (b AND push_bit (idx mod 8) 1 \<noteq> 0) }"

definition nx_tiered_bit_set :: "nx_tiered_level \<Rightarrow> nat \<Rightarrow> nx_tiered_level option" where
  "nx_tiered_bit_set t idx = do {
     b \<leftarrow> mem_get (idx div 8) (tl_used t);
     Some (t\<lparr> tl_used := (tl_used t)[idx div 8 := b OR push_bit (idx mod 8) 1] \<rparr>) }"

definition nx_tiered_bit_clear :: "nx_tiered_level \<Rightarrow> nat \<Rightarrow> nx_tiered_level option" where
  "nx_tiered_bit_clear t idx = do {
     b \<leftarrow> mem_get (idx div 8) (tl_used t);
     Some (t\<lparr> tl_used := (tl_used t)[idx div 8 := b AND NOT (push_bit (idx mod 8) 1)] \<rparr>) }"

definition nx_tiered_bitmap_bytes :: "nat \<Rightarrow> nat" where
  "nx_tiered_bitmap_bytes block_count = ((block_count + 7) mod 2 ^ 64) div 8"

section \<open>Initialisation\<close>

definition nx_tiered_tier_reset :: "nx_tiered_level \<Rightarrow> nx_tiered_level" where
  "nx_tiered_tier_reset t =
     t\<lparr> tl_used := replicate (nx_tiered_bitmap_bytes (tl_block_count t)) 0,
        tl_free_count := tl_block_count t, tl_min_free_count := tl_block_count t, tl_next_free_hint := 0 \<rparr>"

definition nx_tiered_tier_setup :: "nx_tiered_level_cfg \<Rightarrow> nat \<Rightarrow> nat \<Rightarrow> nx_tiered_level option" where
  "nx_tiered_tier_setup cfg base used =
     (if lc_block_count cfg = 0 \<or> lc_block_size cfg = 0 then None
      else
        let block_size = NX_TIERED_ALIGN_UP (lc_block_size cfg) NX_TIERED_ALIGN
        in Some (nx_tiered_tier_reset
             \<lparr> tl_base = base, tl_end = base + block_size * lc_block_count cfg, tl_block_size = block_size,
               tl_block_count = lc_block_count cfg, tl_free_count = 0, tl_min_free_count = 0,
               tl_next_free_hint = 0, tl_used_at = used, tl_used = [] \<rparr>))"

text \<open>The bytes of a tier; \<open>None\<close> for \<open>NX_TIERED_ERR_CONFIG\<close>.\<close>

definition nx_tiered_tier_bytes :: "nx_tiered_level_cfg \<Rightarrow> nat option" where
  "nx_tiered_tier_bytes cfg =
     (if lc_block_count cfg = 0 \<or> lc_block_size cfg = 0 then None
      else
        let block_size = NX_TIERED_ALIGN_UP (lc_block_size cfg) NX_TIERED_ALIGN
        in if block_size > SIZE_MAX div lc_block_count cfg then None
           else Some (block_size * lc_block_count cfg))"

text \<open>First pass: the sums of the block and of the bitmap bytes, \<open>None\<close> for an invalid or overflowing list.\<close>

fun tiered_pass1 :: "nx_tiered_level_cfg list \<Rightarrow> nat \<Rightarrow> nat \<Rightarrow> (nat \<times> nat) option" where
  "tiered_pass1 [] block_total bitmap_total = Some (block_total, bitmap_total)"
| "tiered_pass1 (c # cs) block_total bitmap_total = do {
     seg_bytes \<leftarrow> nx_tiered_tier_bytes c;
     if seg_bytes > SIZE_MAX - block_total then None
     else tiered_pass1 cs (block_total + seg_bytes)
            ((bitmap_total + nx_tiered_bitmap_bytes (lc_block_count c)) mod 2 ^ 64) }"

text \<open>Insertion from the end: larger tiers move up one slot, the new tier takes the gap.\<close>

fun tier_shift_in :: "nx_tiered_level \<Rightarrow> nx_tiered_level list \<Rightarrow> nx_tiered_level list" where
  "tier_shift_in t [] = [t]"
| "tier_shift_in t (x # xs) =
     (if tl_block_size x > tl_block_size t then x # tier_shift_in t xs else t # x # xs)"

definition tier_insert :: "nx_tiered_level \<Rightarrow> nx_tiered_level list \<Rightarrow> nx_tiered_level list" where
  "tier_insert t ts = rev (tier_shift_in t (rev ts))"

fun tiered_pass2 ::
  "nx_tiered_level_cfg list \<Rightarrow> nat \<Rightarrow> nat \<Rightarrow> nx_tiered_level list \<Rightarrow> nx_tiered_level list option" where
  "tiered_pass2 [] block_cur bitmap_cur ts = Some ts"
| "tiered_pass2 (c # cs) block_cur bitmap_cur ts = do {
     seg_bytes \<leftarrow> nx_tiered_tier_bytes c;
     t \<leftarrow> nx_tiered_tier_setup c block_cur bitmap_cur;
     tiered_pass2 cs (block_cur + seg_bytes) (bitmap_cur + nx_tiered_bitmap_bytes (lc_block_count c))
       (tier_insert t ts) }"

text \<open>
  The result is the return code, the pool, and what is stored to \<open>*out_required_bytes\<close>; the outer
  \<open>None\<close> is reading the tier list past its end.
\<close>

definition nx_tiered_mem_pool_init ::
  "'e nx_tiered_mem_pool option \<Rightarrow> 'e nx_tiered_mem_pool_cfg option \<Rightarrow>
   (nx_tiered_ret \<times> 'e nx_tiered_mem_pool option \<times> nat) option" where
  "nx_tiered_mem_pool_init pp cp =
     (case (pp, cp) of
        (Some _, Some cfg) \<Rightarrow>
          (case pc_tiers cfg of
             None \<Rightarrow> Some (NX_TIERED_ERR_PARAM, pp, 0)
           | Some tier_list \<Rightarrow>
               if pc_memory cfg = 0 \<or> pc_memory_size cfg = 0 \<or> pc_tier_count cfg = 0
               then Some (NX_TIERED_ERR_PARAM, pp, 0)
               else do {
                 cs \<leftarrow> mem_read 0 (pc_tier_count cfg) tier_list;
                 case tiered_pass1 cs 0 0 of
                   None \<Rightarrow> Some (NX_TIERED_ERR_CONFIG, pp, 0)
                 | Some (block_total, bitmap_total) \<Rightarrow>
                     if pc_tier_count cfg > SIZE_MAX div LEVEL_SIZEOF then Some (NX_TIERED_ERR_CONFIG, pp, 0)
                     else
                       let table_bytes = pc_tier_count cfg * LEVEL_SIZEOF
                       in if bitmap_total > SIZE_MAX - table_bytes then Some (NX_TIERED_ERR_CONFIG, pp, 0)
                          else
                            let meta_bytes = table_bytes + bitmap_total;
                                meta_padded = NX_TIERED_ALIGN_UP meta_bytes NX_TIERED_ALIGN
                            in if meta_padded < meta_bytes \<or> block_total > SIZE_MAX - meta_padded
                               then Some (NX_TIERED_ERR_CONFIG, pp, 0)
                               else
                                 let required = meta_padded + block_total;
                                     aligned = NX_TIERED_ALIGN_UP (pc_memory cfg) NX_TIERED_ALIGN;
                                     padding = (aligned + 2 ^ 64 - pc_memory cfg) mod 2 ^ 64
                                 in if pc_memory_size cfg < padding \<or> pc_memory_size cfg - padding < required
                                    then Some (NX_TIERED_ERR_CONFIG, pp, required)
                                    else do {
                                      ts \<leftarrow> tiered_pass2 cs (aligned + meta_padded) (aligned + table_bytes) [];
                                      Some (NX_TIERED_OK,
                                            Some \<lparr> tp_tiers_at = aligned, tp_tiers = ts,
                                                   tp_forbid_fallback = pc_forbid_fallback cfg,
                                                   tp_lock = pc_lock cfg \<rparr>,
                                            required) } })
      | _ \<Rightarrow> Some (NX_TIERED_ERR_PARAM, pp, 0))"

section \<open>Allocation and release\<close>

text \<open>The scan loop: \<open>k\<close> is the number of blocks not yet scanned.\<close>

fun tiered_scan :: "nx_tiered_level \<Rightarrow> nat \<Rightarrow> nat \<Rightarrow> nat option" where
  "tiered_scan t 0 idx = Some idx"
| "tiered_scan t (Suc k) idx =
     (let i = (if idx \<ge> tl_block_count t then 0 else idx)
      in do {
        used \<leftarrow> nx_tiered_bit_used t i;
        if \<not> used then Some i else tiered_scan t k (i + 1) })"

definition tiered_claim :: "nx_tiered_level \<Rightarrow> (nat \<times> nx_tiered_level) option" where
  "tiered_claim t = do {
     idx \<leftarrow> tiered_scan t (tl_block_count t) (tl_next_free_hint t);
     t1 \<leftarrow> nx_tiered_bit_set t idx;
     let n = tl_free_count t1 - 1;
     Some (tl_base t + idx * tl_block_size t,
           t1\<lparr> tl_next_free_hint := idx + 1, tl_free_count := n,
               tl_min_free_count := (if n < tl_min_free_count t1 then n else tl_min_free_count t1) \<rparr>) }"

fun tiered_alloc_loop ::
  "bool \<Rightarrow> nat \<Rightarrow> nat \<Rightarrow> nx_tiered_level list \<Rightarrow> (nat \<times> nx_tiered_level list) option" where
  "tiered_alloc_loop forbid req ideal [] = Some (0, [])"
| "tiered_alloc_loop forbid req ideal (t # ts) =
     (if tl_block_size t < req then map_option (\<lambda>(r, ts'). (r, t # ts')) (tiered_alloc_loop forbid req ideal ts)
      else
        let ideal' = (if ideal = 0 then tl_block_size t else ideal)
        in if forbid \<and> tl_block_size t > ideal' then Some (0, t # ts)
           else if tl_free_count t = 0
           then map_option (\<lambda>(r, ts'). (r, t # ts')) (tiered_alloc_loop forbid req ideal' ts)
           else map_option (\<lambda>(r, t'). (r, t' # ts)) (tiered_claim t))"

definition nx_tiered_mem_pool_alloc ::
  "'e nx_tiered_mem_pool option \<Rightarrow> nat \<Rightarrow> 'e \<Rightarrow> (nat \<times> 'e nx_tiered_mem_pool option \<times> 'e) option" where
  "nx_tiered_mem_pool_alloc pp req e =
     (case pp of
        None \<Rightarrow> Some (0, None, e)
      | Some pool \<Rightarrow>
          if req = 0 then Some (0, Some pool, e)
          else
            let (saved, e1) = nx_lock_enter (tp_lock pool) e
            in do {
              (result, ts) \<leftarrow> tiered_alloc_loop (tp_forbid_fallback pool) req 0 (tp_tiers pool);
              Some (result, Some (pool\<lparr> tp_tiers := ts \<rparr>), nx_lock_exit (tp_lock pool) saved e1) })"

definition tiered_release :: "nx_tiered_level \<Rightarrow> nat \<Rightarrow> (nx_tiered_ret \<times> nx_tiered_level) option" where
  "tiered_release t p =
     (let offset = p - tl_base t
      in if offset mod tl_block_size t \<noteq> 0 then Some (NX_TIERED_ERR_INVALID, t)
         else
           let idx = offset div tl_block_size t
           in do {
             used \<leftarrow> nx_tiered_bit_used t idx;
             if \<not> used then Some (NX_TIERED_ERR_DOUBLE_FREE, t)
             else do {
               t1 \<leftarrow> nx_tiered_bit_clear t idx;
               Some (NX_TIERED_OK, t1\<lparr> tl_free_count := tl_free_count t1 + 1 \<rparr>) } })"

fun tiered_free_loop ::
  "nat \<Rightarrow> nx_tiered_level list \<Rightarrow> (nx_tiered_ret \<times> nx_tiered_level list) option" where
  "tiered_free_loop p [] = Some (NX_TIERED_ERR_INVALID, [])"
| "tiered_free_loop p (t # ts) =
     (if p < tl_base t \<or> p \<ge> tl_end t then map_option (\<lambda>(r, ts'). (r, t # ts')) (tiered_free_loop p ts)
      else map_option (\<lambda>(r, t'). (r, t' # ts)) (tiered_release t p))"

definition nx_tiered_mem_pool_free ::
  "'e nx_tiered_mem_pool option \<Rightarrow> nat \<Rightarrow> 'e \<Rightarrow> (nx_tiered_ret \<times> 'e nx_tiered_mem_pool option \<times> 'e) option" where
  "nx_tiered_mem_pool_free pp ptr e =
     (case pp of
        None \<Rightarrow> Some (NX_TIERED_ERR_PARAM, None, e)
      | Some pool \<Rightarrow>
          if ptr = 0 then Some (NX_TIERED_OK, Some pool, e)
          else
            let (saved, e1) = nx_lock_enter (tp_lock pool) e
            in do {
              (result, ts) \<leftarrow> tiered_free_loop ptr (tp_tiers pool);
              Some (result, Some (pool\<lparr> tp_tiers := ts \<rparr>), nx_lock_exit (tp_lock pool) saved e1) })"

definition nx_tiered_mem_pool_tier_count :: "'e nx_tiered_mem_pool option \<Rightarrow> nat" where
  "nx_tiered_mem_pool_tier_count pp = (case pp of None \<Rightarrow> 0 | Some pool \<Rightarrow> length (tp_tiers pool))"

definition nx_tiered_mem_pool_get_tier_stat ::
  "'e nx_tiered_mem_pool option \<Rightarrow> nat \<Rightarrow> nx_tiered_level_stat option \<Rightarrow> nx_tiered_ret \<times> nx_tiered_level_stat option" where
  "nx_tiered_mem_pool_get_tier_stat pp tier_index out =
     (case (pp, out) of
        (Some pool, Some _) \<Rightarrow>
          if tier_index \<ge> length (tp_tiers pool) then (NX_TIERED_ERR_CONFIG, out)
          else
            let t = tp_tiers pool ! tier_index
            in (NX_TIERED_OK,
                Some \<lparr> ls_block_size = tl_block_size t, ls_block_count = tl_block_count t,
                       ls_free_count = tl_free_count t,
                       ls_peak_used = tl_block_count t - tl_min_free_count t \<rparr>)
      | _ \<Rightarrow> (NX_TIERED_ERR_PARAM, out))"

section \<open>The bitmap as a set of blocks\<close>

definition level_bit :: "nx_tiered_level \<Rightarrow> nat \<Rightarrow> bool" where
  "level_bit t i = bit (tl_used t ! (i div 8)) (i mod 8)"

definition level_live :: "nx_tiered_level \<Rightarrow> nat set" where
  "level_live t = {i. i < tl_block_count t \<and> level_bit t i}"

definition level_addr :: "nx_tiered_level \<Rightarrow> nat \<Rightarrow> nat" where
  "level_addr t i = tl_base t + i * tl_block_size t"

text \<open>
  A well-formed tier: aligned storage of \<open>block_count\<close> blocks, a bitmap that covers them, and a
  free count that agrees with it.
\<close>

definition level_wf :: "nx_tiered_level \<Rightarrow> bool" where
  "level_wf t \<longleftrightarrow>
     0 < tl_block_count t \<and> 0 < tl_block_size t \<and> NX_TIERED_ALIGN dvd tl_block_size t \<and>
     NX_TIERED_ALIGN dvd tl_base t \<and> 0 < tl_base t \<and>
     tl_end t = tl_base t + tl_block_size t * tl_block_count t \<and> tl_end t \<le> 2 ^ 64 \<and>
     tl_block_count t \<le> 8 * length (tl_used t) \<and>
     tl_free_count t + card (level_live t) = tl_block_count t \<and>
     tl_min_free_count t \<le> tl_free_count t \<and> tl_next_free_hint t \<le> tl_block_count t"

lemma finite_level_live [simp]: "finite (level_live t)"
  by (simp add: level_live_def)

lemma nx_tiered_bit_used_eq:
  "i < 8 * length (tl_used t) \<Longrightarrow> nx_tiered_bit_used t i = Some (level_bit t i)"
  by (simp add: nx_tiered_bit_used_def mem_get_def level_bit_def and_exp_eq_0_iff_not_bit less_mult_imp_div_less mult.commute)

lemma level_bit_update:
  assumes "i < 8 * length (tl_used t)"
    and "\<And>n. n < 8 \<Longrightarrow> bit b n = (if n = i mod 8 then v else bit (tl_used t ! (i div 8)) n)"
  shows "level_bit (t\<lparr> tl_used := (tl_used t)[i div 8 := b] \<rparr>) j = (if j = i then v else level_bit t j)"
proof -
  have "i div 8 < length (tl_used t)" using assms(1) by (simp add: less_mult_imp_div_less mult.commute)
  moreover have "i = j" if "i div 8 = j div 8" "i mod 8 = j mod 8"
    using that by (metis div_mult_mod_eq)
  ultimately show ?thesis
    using assms(2)[of "j mod 8"] by (auto simp: level_bit_def nth_list_update)
qed

lemma nx_tiered_bit_set_eq:
  assumes "i < 8 * length (tl_used t)"
  shows "\<exists>u. nx_tiered_bit_set t i = Some (t\<lparr> tl_used := u \<rparr>) \<and> length u = length (tl_used t) \<and>
             (\<forall>j. level_bit (t\<lparr> tl_used := u \<rparr>) j = (j = i \<or> level_bit t j))"
proof -
  let ?b = "tl_used t ! (i div 8) OR push_bit (i mod 8) 1"
  have "level_bit (t\<lparr> tl_used := (tl_used t)[i div 8 := ?b] \<rparr>) j = (if j = i then True else level_bit t j)" for j
    by (rule level_bit_update[OF assms]) (auto simp: bit_simps)
  moreover have "i div 8 < length (tl_used t)" using assms by (simp add: less_mult_imp_div_less mult.commute)
  ultimately show ?thesis
    by (intro exI[of _ "(tl_used t)[i div 8 := ?b]"]) (auto simp: nx_tiered_bit_set_def mem_get_def)
qed

lemma nx_tiered_bit_clear_eq:
  assumes "i < 8 * length (tl_used t)"
  shows "\<exists>u. nx_tiered_bit_clear t i = Some (t\<lparr> tl_used := u \<rparr>) \<and> length u = length (tl_used t) \<and>
             (\<forall>j. level_bit (t\<lparr> tl_used := u \<rparr>) j = (j \<noteq> i \<and> level_bit t j))"
proof -
  let ?b = "tl_used t ! (i div 8) AND NOT (push_bit (i mod 8) 1)"
  have "level_bit (t\<lparr> tl_used := (tl_used t)[i div 8 := ?b] \<rparr>) j = (if j = i then False else level_bit t j)" for j
    by (rule level_bit_update[OF assms]) (auto simp: bit_simps)
  moreover have "i div 8 < length (tl_used t)" using assms by (simp add: less_mult_imp_div_less mult.commute)
  ultimately show ?thesis
    by (intro exI[of _ "(tl_used t)[i div 8 := ?b]"]) (auto simp: nx_tiered_bit_clear_def mem_get_def)
qed

section \<open>Scan, claim and release in one tier\<close>

text \<open>With a free block within \<open>k\<close> steps the scan stops at a free block.\<close>

lemma tiered_scan_finds:
  assumes cov: "tl_block_count t \<le> 8 * length (tl_used t)" and pos: "0 < tl_block_count t"
  shows "j < k \<Longrightarrow> idx \<le> tl_block_count t \<Longrightarrow> \<not> level_bit t ((idx + j) mod tl_block_count t) \<Longrightarrow>
    \<exists>r. tiered_scan t k idx = Some r \<and> r < tl_block_count t \<and> \<not> level_bit t r"
proof (induction k arbitrary: idx j)
  case (Suc k)
  define i where "i = (if idx \<ge> tl_block_count t then 0 else idx)"
  have i: "i < tl_block_count t" "i = idx mod tl_block_count t"
    using Suc.prems(2) pos by (auto simp: i_def)
  have used: "nx_tiered_bit_used t i = Some (level_bit t i)"
    using i cov by (intro nx_tiered_bit_used_eq) simp
  show ?case
  proof (cases "level_bit t i")
    case False
    with used i show ?thesis by (simp add: i_def[symmetric] Let_def)
  next
    case True
    have "j \<noteq> 0" using Suc.prems(3) True i(2) by (cases j) auto
    then obtain m where m: "j = Suc m" by (cases j) auto
    have "(i + 1 + m) mod tl_block_count t = (idx + j) mod tl_block_count t"
      unfolding m i(2) using mod_add_left_eq[of idx "tl_block_count t" "1 + m"] by (simp add: add.assoc)
    with Suc.prems m i(1) have "\<exists>r. tiered_scan t k (i + 1) = Some r \<and> r < tl_block_count t \<and> \<not> level_bit t r"
      by (intro Suc.IH[of m]) auto
    with True used show ?thesis by (simp add: i_def[symmetric] Let_def)
  qed
qed simp

lemma level_has_free:
  assumes "level_wf t" "0 < tl_free_count t"
  shows "\<exists>i < tl_block_count t. \<not> level_bit t i"
proof (rule ccontr)
  assume "\<not> (\<exists>i < tl_block_count t. \<not> level_bit t i)"
  then have "level_live t = {0..<tl_block_count t}" by (auto simp: level_live_def)
  with assms show False by (simp add: level_wf_def)
qed

lemma tiered_claim_ok:
  assumes wf: "level_wf t" and free: "0 < tl_free_count t"
  shows "\<exists>i t'. tiered_claim t = Some (level_addr t i, t') \<and> i < tl_block_count t \<and> i \<notin> level_live t \<and>
           level_wf t' \<and> level_live t' = insert i (level_live t) \<and>
           tl_base t' = tl_base t \<and> tl_end t' = tl_end t \<and> tl_block_size t' = tl_block_size t \<and>
           tl_block_count t' = tl_block_count t \<and> tl_used_at t' = tl_used_at t \<and>
           tl_free_count t' = tl_free_count t - 1 \<and>
           tl_min_free_count t' = min (tl_min_free_count t) (tl_free_count t - 1)"
proof -
  have cov: "tl_block_count t \<le> 8 * length (tl_used t)" "0 < tl_block_count t"
    "tl_next_free_hint t \<le> tl_block_count t" using wf by (auto simp: level_wf_def)
  obtain f where f: "f < tl_block_count t" "\<not> level_bit t f" using level_has_free[OF wf free] by blast
  define j where "j = (f + tl_block_count t - tl_next_free_hint t mod tl_block_count t) mod tl_block_count t"
  have j: "j < tl_block_count t" using cov by (simp add: j_def)
  have "(tl_next_free_hint t + j) mod tl_block_count t =
      (tl_next_free_hint t mod tl_block_count t +
        (f + tl_block_count t - tl_next_free_hint t mod tl_block_count t)) mod tl_block_count t"
    unfolding j_def by (simp add: mod_simps)
  also have "tl_next_free_hint t mod tl_block_count t + (f + tl_block_count t - tl_next_free_hint t mod tl_block_count t)
      = f + tl_block_count t"
    using mod_less_divisor[OF cov(2), of "tl_next_free_hint t"] by linarith
  also have "(f + tl_block_count t) mod tl_block_count t = f" using f by simp
  finally have "\<not> level_bit t ((tl_next_free_hint t + j) mod tl_block_count t)" using f by simp
  from tiered_scan_finds[OF cov(1,2) j cov(3) this] obtain i where
    i: "tiered_scan t (tl_block_count t) (tl_next_free_hint t) = Some i" "i < tl_block_count t" "\<not> level_bit t i"
    by blast
  obtain u where u: "nx_tiered_bit_set t i = Some (t\<lparr> tl_used := u \<rparr>)" "length u = length (tl_used t)"
    "\<And>j. level_bit (t\<lparr> tl_used := u \<rparr>) j = (j = i \<or> level_bit t j)"
    using nx_tiered_bit_set_eq[of i t] i(2) cov(1) by auto
  define t' where "t' = t\<lparr> tl_used := u, tl_next_free_hint := i + 1, tl_free_count := tl_free_count t - 1,
      tl_min_free_count := min (tl_min_free_count t) (tl_free_count t - 1) \<rparr>"
  have bits: "level_bit t' j = (j = i \<or> level_bit t j)" for j
    using u(3)[of j] by (simp add: t'_def level_bit_def)
  have live: "level_live t' = insert i (level_live t)"
    using i(2) by (auto simp: level_live_def bits) (simp_all add: t'_def)
  have new: "i \<notin> level_live t" using i(3) by (simp add: level_live_def)
  have "level_wf t'"
    using wf free new u(2) i(2) unfolding level_wf_def live card_insert_disjoint[OF finite_level_live new]
    by (auto simp: t'_def)
  moreover have "tiered_claim t = Some (level_addr t i, t')"
    using i(1) u(1) by (auto simp: tiered_claim_def Let_def level_addr_def t'_def min_def)
  ultimately show ?thesis
    using i(2) new live by (intro exI[of _ i] exI[of _ t']) (simp add: t'_def)
qed

lemma tiered_release_ok:
  assumes wf: "level_wf t" and range: "tl_base t \<le> p" "p < tl_end t"
  defines "i \<equiv> (p - tl_base t) div tl_block_size t"
  shows "p \<noteq> level_addr t i \<and> tiered_release t p = Some (NX_TIERED_ERR_INVALID, t) \<or>
         p = level_addr t i \<and> i < tl_block_count t \<and> i \<notin> level_live t \<and>
           tiered_release t p = Some (NX_TIERED_ERR_DOUBLE_FREE, t) \<or>
         p = level_addr t i \<and> i < tl_block_count t \<and> i \<in> level_live t \<and>
           (\<exists>t'. tiered_release t p = Some (NX_TIERED_OK, t') \<and> level_wf t' \<and> level_live t' = level_live t - {i} \<and>
              tl_base t' = tl_base t \<and> tl_end t' = tl_end t \<and> tl_block_size t' = tl_block_size t \<and>
              tl_block_count t' = tl_block_count t \<and> tl_used_at t' = tl_used_at t \<and>
              tl_free_count t' = tl_free_count t + 1 \<and> tl_min_free_count t' = tl_min_free_count t)"
proof (cases "(p - tl_base t) mod tl_block_size t = 0")
  case False
  then have "p \<noteq> level_addr t i" using range by (auto simp: level_addr_def)
  with False show ?thesis by (simp add: tiered_release_def)
next
  case True
  then have p: "p = level_addr t i"
    using range div_mult_mod_eq[of "p - tl_base t" "tl_block_size t"] by (simp add: level_addr_def i_def)
  have "p - tl_base t < tl_block_count t * tl_block_size t"
    using wf range by (auto simp: level_wf_def mult.commute)
  then have i: "i < tl_block_count t" by (simp add: i_def less_mult_imp_div_less)
  have cov: "i < 8 * length (tl_used t)" using wf i by (auto simp: level_wf_def)
  show ?thesis
  proof (cases "level_bit t i")
    case False
    have "tiered_release t p = Some (NX_TIERED_ERR_DOUBLE_FREE, t)"
      unfolding tiered_release_def Let_def i_def[symmetric]
      using True False nx_tiered_bit_used_eq[OF cov] by simp
    with False p i show ?thesis by (simp add: level_live_def)
  next
    case bit: True
    then have live: "i \<in> level_live t" using i by (simp add: level_live_def)
    obtain u where u: "nx_tiered_bit_clear t i = Some (t\<lparr> tl_used := u \<rparr>)" "length u = length (tl_used t)"
      "\<And>j. level_bit (t\<lparr> tl_used := u \<rparr>) j = (j \<noteq> i \<and> level_bit t j)"
      using nx_tiered_bit_clear_eq[OF cov] by auto
    define t' where "t' = t\<lparr> tl_used := u, tl_free_count := tl_free_count t + 1 \<rparr>"
    have bits: "level_bit t' j = (j \<noteq> i \<and> level_bit t j)" for j
      using u(3)[of j] by (simp add: t'_def level_bit_def)
    have live': "level_live t' = level_live t - {i}"
      by (auto simp: level_live_def bits) (simp_all add: t'_def)
    have "card (level_live t) = Suc (card (level_live t'))"
      unfolding live' using card_Suc_Diff1[OF finite_level_live live] by simp
    then have "level_wf t'" using wf u(2) by (auto simp: level_wf_def t'_def)
    moreover have "tiered_release t p = Some (NX_TIERED_OK, t')"
      unfolding tiered_release_def Let_def i_def[symmetric]
      using True bit u(1) nx_tiered_bit_used_eq[OF cov] by (simp add: t'_def)
    moreover have "tl_base t' = tl_base t" "tl_end t' = tl_end t" "tl_block_size t' = tl_block_size t"
      "tl_block_count t' = tl_block_count t" "tl_used_at t' = tl_used_at t"
      "tl_free_count t' = tl_free_count t + 1" "tl_min_free_count t' = tl_min_free_count t"
      by (simp_all add: t'_def)
    ultimately show ?thesis using p i live live' by blast
  qed
qed

section \<open>The pool as a set of live blocks\<close>

definition tiers_live :: "nx_tiered_level list \<Rightarrow> nat set" where
  "tiers_live ts = (\<Union>t \<in> set ts. level_addr t ` level_live t)"

definition tiers_blocks :: "nx_tiered_level list \<Rightarrow> nat set" where
  "tiers_blocks ts = (\<Union>t \<in> set ts. level_addr t ` {..<tl_block_count t})"

definition pool_blocks :: "'e nx_tiered_mem_pool \<Rightarrow> nat set" where
  "pool_blocks pool = tiers_blocks (tp_tiers pool)"

definition tiers_wf :: "nx_tiered_level list \<Rightarrow> bool" where
  "tiers_wf ts \<longleftrightarrow> (\<forall>t \<in> set ts. level_wf t) \<and> sorted_wrt (\<lambda>s t. tl_block_size s \<le> tl_block_size t) ts \<and>
     sorted_wrt (\<lambda>s t. tl_end s \<le> tl_base t \<or> tl_end t \<le> tl_base s) ts"

definition pool_wf :: "'e nx_tiered_mem_pool \<Rightarrow> bool" where
  "pool_wf pool \<longleftrightarrow> tiers_wf (tp_tiers pool)"

definition pool_live :: "'e nx_tiered_mem_pool \<Rightarrow> nat set" where
  "pool_live pool = tiers_live (tp_tiers pool)"

text \<open>The size of the block an address lies in; 0 outside the pool.\<close>

fun tiers_size :: "nx_tiered_level list \<Rightarrow> nat \<Rightarrow> nat" where
  "tiers_size [] a = 0"
| "tiers_size (t # ts) a = (if tl_base t \<le> a \<and> a < tl_end t then tl_block_size t else tiers_size ts a)"

definition pool_size :: "'e nx_tiered_mem_pool \<Rightarrow> nat \<Rightarrow> nat" where
  "pool_size pool a = tiers_size (tp_tiers pool) a"

lemma level_addr_range:
  assumes "level_wf t" "i < tl_block_count t"
  shows "tl_base t \<le> level_addr t i" "level_addr t i + tl_block_size t \<le> tl_end t" "level_addr t i < tl_end t"
    "0 < level_addr t i" "NX_TIERED_ALIGN dvd level_addr t i"
proof -
  have "i * tl_block_size t + tl_block_size t \<le> tl_block_size t * tl_block_count t"
    using slot_bound[OF assms(2), of "tl_block_size t"] by (simp add: mult.commute)
  then show end_: "level_addr t i + tl_block_size t \<le> tl_end t"
    using assms(1) by (simp add: level_addr_def level_wf_def)
  have "0 < tl_block_size t" using assms(1) by (simp add: level_wf_def)
  then show "level_addr t i < tl_end t" using end_ by linarith
  show "tl_base t \<le> level_addr t i" "0 < level_addr t i" "NX_TIERED_ALIGN dvd level_addr t i"
    using assms(1) by (auto simp: level_addr_def level_wf_def)
qed

lemma level_addr_inj: "level_wf t \<Longrightarrow> level_addr t i = level_addr t j \<longleftrightarrow> i = j"
  by (auto simp: level_addr_def level_wf_def)

lemma level_live_range:
  "level_wf t \<Longrightarrow> a \<in> level_addr t ` level_live t \<Longrightarrow> tl_base t \<le> a \<and> a < tl_end t"
  using level_addr_range by (auto simp: level_live_def)

lemma tiers_wf_Cons:
  "tiers_wf (t # ts) \<longleftrightarrow> level_wf t \<and> tiers_wf ts \<and> (\<forall>s \<in> set ts. tl_block_size t \<le> tl_block_size s) \<and>
     (\<forall>s \<in> set ts. tl_end t \<le> tl_base s \<or> tl_end s \<le> tl_base t)"
  by (auto simp: tiers_wf_def)

lemma tiers_wf_replace:
  assumes "tiers_wf (pre @ t # post)" "level_wf t'"
    and "tl_base t' = tl_base t" "tl_end t' = tl_end t" "tl_block_size t' = tl_block_size t"
    and "tl_block_count t' = tl_block_count t"
  shows "tiers_wf (pre @ t' # post)" "tiers_size (pre @ t' # post) = tiers_size (pre @ t # post)"
    "tiers_blocks (pre @ t' # post) = tiers_blocks (pre @ t # post)"
proof -
  show "tiers_blocks (pre @ t' # post) = tiers_blocks (pre @ t # post)"
    using assms(3,5,6) by (simp add: tiers_blocks_def level_addr_def)
  show "tiers_wf (pre @ t' # post)"
    using assms by (auto simp: tiers_wf_def sorted_wrt_append)
  show "tiers_size (pre @ t' # post) = tiers_size (pre @ t # post)"
    using assms(3-5) by (induction pre) (auto simp: fun_eq_iff)
qed

lemma tiers_size_at:
  assumes "tiers_wf (pre @ t # post)" "tl_base t \<le> a" "a < tl_end t"
  shows "tiers_size (pre @ t # post) a = tl_block_size t"
  using assms
proof (induction pre)
  case (Cons s pre)
  then have "\<not> (tl_base s \<le> a \<and> a < tl_end s)" by (auto simp: tiers_wf_Cons)
  with Cons show ?case by (auto simp: tiers_wf_Cons)
qed simp

lemma tiers_live_split: "tiers_live (pre @ t # post) =
    tiers_live pre \<union> level_addr t ` level_live t \<union> tiers_live post"
  by (auto simp: tiers_live_def)

text \<open>An address inside a tier is not a block of another tier.\<close>

lemma tiers_live_elsewhere:
  assumes "tiers_wf (pre @ t # post)" "tl_base t \<le> a" "a < tl_end t"
  shows "a \<notin> tiers_live pre" "a \<notin> tiers_live post"
proof -
  have "\<And>s. s \<in> set pre \<or> s \<in> set post \<Longrightarrow> level_wf s \<and> (tl_end t \<le> tl_base s \<or> tl_end s \<le> tl_base t)"
    using assms(1) by (auto simp: tiers_wf_def sorted_wrt_append)
  with assms(2,3) show "a \<notin> tiers_live pre" "a \<notin> tiers_live post"
    unfolding tiers_live_def by (fastforce dest: level_live_range)+
qed

section \<open>Allocation\<close>

text \<open>The tiers a request may be served from.\<close>

definition tier_admits :: "bool \<Rightarrow> nx_tiered_level list \<Rightarrow> nat \<Rightarrow> nx_tiered_level \<Rightarrow> bool" where
  "tier_admits forbid ts req t \<longleftrightarrow>
     req \<le> tl_block_size t \<and> (forbid \<longrightarrow> (\<forall>s \<in> set ts. req \<le> tl_block_size s \<longrightarrow> tl_block_size t \<le> tl_block_size s))"

lemma tiered_alloc_loop_spec:
  fixes forbid :: bool and req :: nat
  assumes "tiers_wf ts"
  defines "adm \<equiv> \<lambda>ideal ts t. req \<le> tl_block_size t \<and>
      (forbid \<longrightarrow> (if ideal = 0 then \<forall>s \<in> set ts. req \<le> tl_block_size s \<longrightarrow> tl_block_size t \<le> tl_block_size s
                  else tl_block_size t \<le> ideal))"
  shows "tiered_alloc_loop forbid req ideal ts = Some (0, ts) \<and> (\<forall>t \<in> set ts. adm ideal ts t \<longrightarrow> tl_free_count t = 0) \<or>
    (\<exists>pre t post r t'. ts = pre @ t # post \<and> tiered_alloc_loop forbid req ideal ts = Some (r, pre @ t' # post) \<and>
       adm ideal ts t \<and> 0 < tl_free_count t \<and> tiered_claim t = Some (r, t') \<and>
       (\<forall>s \<in> set pre. adm ideal ts s \<longrightarrow> tl_free_count s = 0))"
  using assms(1)
proof (induction ts arbitrary: ideal)
  case (Cons t ts)
  have wf: "level_wf t" "tiers_wf ts" "\<forall>s \<in> set ts. tl_block_size t \<le> tl_block_size s"
    using Cons.prems by (auto simp: tiers_wf_Cons)
  have pos: "0 < tl_block_size t" using wf(1) by (simp add: level_wf_def)
  define ideal' where "ideal' = (if ideal = 0 then tl_block_size t else ideal)"
  have lift: ?case
    if id: "adm i2 ts = adm ideal (t # ts)" "tiered_alloc_loop forbid req ideal (t # ts) =
        map_option (\<lambda>(r, ts'). (r, t # ts')) (tiered_alloc_loop forbid req i2 ts)"
      and t: "adm ideal (t # ts) t \<longrightarrow> tl_free_count t = 0" for i2
    using Cons.IH[OF wf(2), of i2]
  proof (elim disjE exE conjE)
    fix pre u post r u'
    assume "ts = pre @ u # post" "tiered_alloc_loop forbid req i2 ts = Some (r, pre @ u' # post)"
      "adm i2 ts u" "0 < tl_free_count u" "tiered_claim u = Some (r, u')"
      "\<forall>s \<in> set pre. adm i2 ts s \<longrightarrow> tl_free_count s = 0"
    with id t show ?thesis
      by (intro disjI2 exI[of _ "t # pre"] exI[of _ u] exI[of _ post] exI[of _ r] exI[of _ u']) auto
  qed (use id t in auto)
  consider (small) "tl_block_size t < req"
    | (stop) "req \<le> tl_block_size t" "forbid" "tl_block_size t > ideal'"
    | (full) "req \<le> tl_block_size t" "\<not> (forbid \<and> tl_block_size t > ideal')" "tl_free_count t = 0"
    | (take) "req \<le> tl_block_size t" "\<not> (forbid \<and> tl_block_size t > ideal')" "0 < tl_free_count t"
    by linarith
  then show ?case
  proof cases
    case small
    then have "adm ideal ts = adm ideal (t # ts)" by (auto simp: adm_def fun_eq_iff)
    with small show ?thesis by (intro lift) (auto simp: adm_def)
  next
    case stop
    then have "ideal \<noteq> 0" "ideal' = ideal" by (auto simp: ideal'_def split: if_splits)
    with stop wf(3) show ?thesis
      by (intro disjI1) (auto simp: adm_def Let_def dest: bspec)
  next
    case full
    have "ideal' \<noteq> 0" using pos by (simp add: ideal'_def)
    then have "adm ideal' ts = adm ideal (t # ts)"
      using full(1) wf(3) by (auto simp: adm_def ideal'_def fun_eq_iff)
    moreover have "tiered_alloc_loop forbid req ideal (t # ts) =
        map_option (\<lambda>(r, ts'). (r, t # ts')) (tiered_alloc_loop forbid req ideal' ts)"
      using full unfolding ideal'_def by (auto simp: Let_def)
    ultimately show ?thesis using full(3) by (intro lift) auto
  next
    case take
    obtain r t' where claim: "tiered_claim t = Some (r, t')" using tiered_claim_ok[OF wf(1) take(3)] by blast
    have "adm ideal (t # ts) t" using take(1,2) wf(3) by (auto simp: adm_def ideal'_def split: if_splits)
    moreover have "tiered_alloc_loop forbid req ideal (t # ts) = Some (r, t' # ts)"
      using take claim unfolding ideal'_def by (auto simp: Let_def)
    ultimately show ?thesis
      using claim take(3) by (intro disjI2 exI[of _ "[]"] exI[of _ t] exI[of _ ts] exI[of _ r] exI[of _ t']) auto
  qed
qed simp

text \<open>Claiming a block of one tier, seen from the whole pool.\<close>

lemma tiered_claim_in_pool:
  assumes wf: "tiers_wf (pre @ t # post)" and free: "0 < tl_free_count t" and claim: "tiered_claim t = Some (r, t')"
  shows "tiers_wf (pre @ t' # post)" "tiers_size (pre @ t' # post) = tiers_size (pre @ t # post)"
    "tiers_blocks (pre @ t' # post) = tiers_blocks (pre @ t # post)"
    "r \<noteq> 0" "NX_TIERED_ALIGN dvd r" "r \<notin> tiers_live (pre @ t # post)"
    "tiers_live (pre @ t' # post) = insert r (tiers_live (pre @ t # post))"
    "tiers_size (pre @ t # post) r = tl_block_size t"
proof -
  have wft: "level_wf t" using wf by (simp add: tiers_wf_def)
  obtain i where i: "r = level_addr t i" "i < tl_block_count t" "i \<notin> level_live t" and t': "level_wf t'"
    "level_live t' = insert i (level_live t)" "tl_base t' = tl_base t" "tl_end t' = tl_end t"
    "tl_block_size t' = tl_block_size t" "tl_block_count t' = tl_block_count t"
    using tiered_claim_ok[OF wft free] claim by auto
  note range = level_addr_range[OF wft i(2)]
  have addr: "level_addr t' = level_addr t" using t' by (simp add: level_addr_def fun_eq_iff)
  show "tiers_wf (pre @ t' # post)" "tiers_size (pre @ t' # post) = tiers_size (pre @ t # post)"
    "tiers_blocks (pre @ t' # post) = tiers_blocks (pre @ t # post)"
    by (rule tiers_wf_replace[OF wf t'(1,3,4,5,6)])+
  show "r \<noteq> 0" "NX_TIERED_ALIGN dvd r" using range i(1) by auto
  show "r \<notin> tiers_live (pre @ t # post)"
    using tiers_live_elsewhere[OF wf range(1,3)] i level_addr_inj[OF wft] by (auto simp: tiers_live_split)
  show "tiers_live (pre @ t' # post) = insert r (tiers_live (pre @ t # post))"
    by (auto simp: tiers_live_split addr t' i(1))
  show "tiers_size (pre @ t # post) r = tl_block_size t"
    unfolding i(1) using range by (intro tiers_size_at[OF wf]) auto
qed

lemma tiered_pool_alloc:
  assumes "pool_wf pool" and "0 < req"
  shows "\<exists>r pool'. nx_tiered_mem_pool_alloc (Some pool) req e
             = Some (r, Some pool', lock_bracket (tp_lock pool) e) \<and> pool_wf pool' \<and>
           (if \<exists>t \<in> set (tp_tiers pool). tier_admits (tp_forbid_fallback pool) (tp_tiers pool) req t \<and> 0 < tl_free_count t
            then r \<noteq> 0 \<and> NX_TIERED_ALIGN dvd r \<and> r \<notin> pool_live pool \<and> pool_live pool' = insert r (pool_live pool) \<and>
                 req \<le> pool_size pool r \<and> pool_size pool' = pool_size pool \<and> pool_blocks pool' = pool_blocks pool \<and>
                 (\<forall>t \<in> set (tp_tiers pool). tier_admits (tp_forbid_fallback pool) (tp_tiers pool) req t \<and>
                    0 < tl_free_count t \<longrightarrow> pool_size pool r \<le> tl_block_size t)
            else r = 0 \<and> pool' = pool)"
proof -
  let ?ts = "tp_tiers pool" and ?f = "tp_forbid_fallback pool"
  have wf: "tiers_wf ?ts" using assms(1) by (simp add: pool_wf_def)
  have run: "nx_tiered_mem_pool_alloc (Some pool) req e =
      Some (r, Some (pool\<lparr> tp_tiers := ts' \<rparr>), lock_bracket (tp_lock pool) e)"
    if "tiered_alloc_loop ?f req 0 ?ts = Some (r, ts')" for r ts'
    using that assms(2) by (simp add: nx_tiered_mem_pool_alloc_def lock_bracket_def split_beta)
  consider (none) "tiered_alloc_loop ?f req 0 ?ts = Some (0, ?ts)" "\<forall>t \<in> set ?ts. tier_admits ?f ?ts req t \<longrightarrow> tl_free_count t = 0"
    | (some) pre t post r t' where "?ts = pre @ t # post" "tiered_alloc_loop ?f req 0 ?ts = Some (r, pre @ t' # post)"
      "tier_admits ?f ?ts req t" "0 < tl_free_count t" "tiered_claim t = Some (r, t')"
      "\<forall>s \<in> set pre. tier_admits ?f ?ts req s \<longrightarrow> tl_free_count s = 0"
    using tiered_alloc_loop_spec[OF wf, where req = req and forbid = ?f and ideal = 0] unfolding tier_admits_def by auto
  then show ?thesis
  proof cases
    case none
    with run[OF none(1)] assms(1) show ?thesis by (intro exI[of _ 0] exI[of _ pool]) auto
  next
    case some
    note claim = tiered_claim_in_pool[OF wf[unfolded some(1)] some(4,5)]
    have "tl_block_size t \<le> tl_block_size s"
      if "s \<in> set ?ts" "tier_admits ?f ?ts req s" "0 < tl_free_count s" for s
      using that some(1,6) wf by (auto simp: tiers_wf_def sorted_wrt_append)
    moreover have "\<exists>t \<in> set ?ts. tier_admits ?f ?ts req t \<and> 0 < tl_free_count t"
      using some(1,3,4) by (intro bexI[of _ t]) simp_all
    moreover have "req \<le> tl_block_size t" using some(3) by (simp add: tier_admits_def)
    ultimately show ?thesis
      using run[OF some(2)] claim
      by (intro exI[of _ r] exI[of _ "pool\<lparr> tp_tiers := pre @ t' # post \<rparr>"])
        (simp add: pool_wf_def pool_live_def pool_size_def pool_blocks_def some(1) fun_eq_iff)
  qed
qed

text \<open>
  C30: allocating \<open>req > 0\<close> bytes from a well-formed pool. If some tier the request may be served from has a
  free block (with fallback forbidden only the tiers of the smallest sufficient block size qualify), the
  result is an aligned block that was not live, taken from such a tier of the smallest block size, and
  exactly this block becomes live; otherwise the result is NULL and the pool unchanged. In
  both cases the lock is entered once and left once with the saved state.
\<close>
theorem nx_tiered_mem_pool_alloc_spec:
  assumes "pool_wf pool" and "0 < req"
  shows "\<exists>r pool'. nx_tiered_mem_pool_alloc (Some pool) req e
             = Some (r, Some pool', lock_bracket (tp_lock pool) e) \<and> pool_wf pool' \<and>
           (if \<exists>t \<in> set (tp_tiers pool). tier_admits (tp_forbid_fallback pool) (tp_tiers pool) req t \<and> 0 < tl_free_count t
            then r \<noteq> 0 \<and> NX_TIERED_ALIGN dvd r \<and> r \<notin> pool_live pool \<and> pool_live pool' = insert r (pool_live pool) \<and>
                 req \<le> pool_size pool r \<and> pool_size pool' = pool_size pool \<and> pool_blocks pool' = pool_blocks pool \<and>
                 (\<forall>t \<in> set (tp_tiers pool). tier_admits (tp_forbid_fallback pool) (tp_tiers pool) req t \<and>
                    0 < tl_free_count t \<longrightarrow> pool_size pool r \<le> tl_block_size t)
            else r = 0 \<and> pool' = pool)"
  using assms by (rule tiered_pool_alloc)

section \<open>Release\<close>

lemma tiers_live_blocks: "tiers_live ts \<subseteq> tiers_blocks ts"
  by (auto simp: tiers_live_def tiers_blocks_def level_live_def)

lemma tiers_blocks_range:
  assumes "tiers_wf ts" "p \<in> tiers_blocks ts"
  shows "\<exists>s \<in> set ts. tl_base s \<le> p \<and> p < tl_end s \<and> p \<in> level_addr s ` {..<tl_block_count s}"
proof -
  obtain s j where "s \<in> set ts" "j < tl_block_count s" "p = level_addr s j"
    using assms(2) by (auto simp: tiers_blocks_def)
  moreover from this have "level_wf s" using assms(1) by (simp add: tiers_wf_def)
  ultimately show ?thesis using level_addr_range(1,3) by blast
qed

text \<open>The tier an address falls into decides whether the address is a block, and whether it is live.\<close>

lemma tier_owner:
  assumes wf: "tiers_wf (pre @ t # post)" and p: "tl_base t \<le> p" "p < tl_end t"
  defines "i \<equiv> (p - tl_base t) div tl_block_size t"
  shows "p \<in> tiers_live (pre @ t # post) \<longleftrightarrow> p = level_addr t i \<and> i \<in> level_live t"
    and "p \<in> tiers_blocks (pre @ t # post) \<longleftrightarrow> p = level_addr t i \<and> i < tl_block_count t"
proof -
  have wft: "level_wf t" using wf by (simp add: tiers_wf_def)
  have idx: "i = j" if "p = level_addr t j" for j
    using that wft by (simp add: i_def level_addr_def level_wf_def)
  have apart: "\<not> (tl_base s \<le> p \<and> p < tl_end s)" if "s \<in> set pre \<or> s \<in> set post" for s
    using wf p that by (fastforce simp: tiers_wf_def sorted_wrt_append)
  show "p \<in> tiers_live (pre @ t # post) \<longleftrightarrow> p = level_addr t i \<and> i \<in> level_live t"
    using tiers_live_elsewhere[OF wf p] idx by (auto simp: tiers_live_split)
  show "p \<in> tiers_blocks (pre @ t # post) \<longleftrightarrow> p = level_addr t i \<and> i < tl_block_count t"
  proof
    assume "p \<in> tiers_blocks (pre @ t # post)"
    with tiers_blocks_range[OF wf] apart have "p \<in> level_addr t ` {..<tl_block_count t}" by fastforce
    with idx show "p = level_addr t i \<and> i < tl_block_count t" by auto
  qed (auto simp: tiers_blocks_def)
qed

lemma tiered_free_loop_skip:
  "(\<forall>s \<in> set pre. p < tl_base s \<or> p \<ge> tl_end s) \<Longrightarrow>
   tiered_free_loop p (pre @ ts) = map_option (\<lambda>(r, ts'). (r, pre @ ts')) (tiered_free_loop p ts)"
  by (cases "tiered_free_loop p ts"; induction pre) auto

lemma tiered_free_loop_owner:
  assumes wf: "tiers_wf (pre @ t # post)" and p: "tl_base t \<le> p" "p < tl_end t"
  shows "tiered_free_loop p (pre @ t # post) = map_option (\<lambda>(r, t'). (r, pre @ t' # post)) (tiered_release t p)"
proof -
  have "\<forall>s \<in> set pre. p < tl_base s \<or> p \<ge> tl_end s"
    using wf p by (fastforce simp: tiers_wf_def sorted_wrt_append)
  from tiered_free_loop_skip[OF this, of "t # post"] p show ?thesis
    by (cases "tiered_release t p") auto
qed

lemma tiered_free_loop_spec:
  assumes wf: "tiers_wf ts"
  shows "\<exists>r ts'. tiered_free_loop p ts = Some (r, ts') \<and> tiers_wf ts' \<and> tiers_size ts' = tiers_size ts \<and>
    tiers_blocks ts' = tiers_blocks ts \<and>
    (if p \<in> tiers_live ts then r = NX_TIERED_OK \<and> tiers_live ts' = tiers_live ts - {p}
     else ts' = ts \<and> r = (if p \<in> tiers_blocks ts then NX_TIERED_ERR_DOUBLE_FREE else NX_TIERED_ERR_INVALID))"
proof (cases "\<exists>t \<in> set ts. tl_base t \<le> p \<and> p < tl_end t")
  case False
  then have "p \<notin> tiers_blocks ts" using tiers_blocks_range[OF wf] by blast
  moreover have "tiered_free_loop p ts = Some (NX_TIERED_ERR_INVALID, ts)"
    using tiered_free_loop_skip[of ts p "[]"] False by fastforce
  ultimately show ?thesis using wf tiers_live_blocks by auto
next
  case True
  then obtain t pre post where ts: "ts = pre @ t # post" and p: "tl_base t \<le> p" "p < tl_end t"
    by (metis split_list)
  have wfs: "tiers_wf (pre @ t # post)" and wft: "level_wf t" using wf ts by (auto simp: tiers_wf_def)
  define i where "i = (p - tl_base t) div tl_block_size t"
  note owner = tier_owner[OF wfs p, folded i_def]
  note loop = tiered_free_loop_owner[OF wfs p]
  consider (bad) "p \<noteq> level_addr t i" "tiered_release t p = Some (NX_TIERED_ERR_INVALID, t)"
    | (double) "p = level_addr t i" "i < tl_block_count t" "i \<notin> level_live t"
        "tiered_release t p = Some (NX_TIERED_ERR_DOUBLE_FREE, t)"
    | (ok) t' where "p = level_addr t i" "i \<in> level_live t" "tiered_release t p = Some (NX_TIERED_OK, t')"
        "level_wf t'" "level_live t' = level_live t - {i}" "tl_base t' = tl_base t" "tl_end t' = tl_end t"
        "tl_block_size t' = tl_block_size t" "tl_block_count t' = tl_block_count t"
    using tiered_release_ok[OF wft p] unfolding i_def[symmetric] by blast
  then show ?thesis
  proof cases
    case ok
    have addr: "level_addr t' = level_addr t" using ok by (simp add: level_addr_def fun_eq_iff)
    have "tiers_live (pre @ t' # post) = tiers_live ts - {p}"
      using tiers_live_elsewhere[OF wfs p] ok(1) level_addr_inj[OF wft]
      by (auto simp: ts tiers_live_split addr ok(5))
    then show ?thesis
      using ok(1-3) owner loop tiers_wf_replace[OF wfs ok(4,6,7,8,9)] by (simp add: ts)
  qed (use loop ts owner wf in simp_all)
qed

lemma tiered_pool_free:
  assumes "pool_wf pool" and "p \<noteq> 0"
  shows "\<exists>r pool'. nx_tiered_mem_pool_free (Some pool) p e
             = Some (r, Some pool', lock_bracket (tp_lock pool) e) \<and> pool_wf pool' \<and>
           pool_size pool' = pool_size pool \<and> pool_blocks pool' = pool_blocks pool \<and>
           (if p \<in> pool_live pool then r = NX_TIERED_OK \<and> pool_live pool' = pool_live pool - {p}
            else pool' = pool \<and>
                 r = (if p \<in> pool_blocks pool then NX_TIERED_ERR_DOUBLE_FREE else NX_TIERED_ERR_INVALID))"
proof -
  obtain r ts' where free: "tiered_free_loop p (tp_tiers pool) = Some (r, ts')"
    and spec: "tiers_wf ts'" "tiers_size ts' = tiers_size (tp_tiers pool)" "tiers_blocks ts' = tiers_blocks (tp_tiers pool)"
    "if p \<in> tiers_live (tp_tiers pool) then r = NX_TIERED_OK \<and> tiers_live ts' = tiers_live (tp_tiers pool) - {p}
     else ts' = tp_tiers pool \<and>
          r = (if p \<in> tiers_blocks (tp_tiers pool) then NX_TIERED_ERR_DOUBLE_FREE else NX_TIERED_ERR_INVALID)"
    using tiered_free_loop_spec[of "tp_tiers pool" p] assms(1) unfolding pool_wf_def by blast
  have "nx_tiered_mem_pool_free (Some pool) p e =
      Some (r, Some (pool\<lparr> tp_tiers := ts' \<rparr>), lock_bracket (tp_lock pool) e)"
    using free assms(2) by (simp add: nx_tiered_mem_pool_free_def lock_bracket_def split_beta)
  then show ?thesis
    using spec by (intro exI[of _ r] exI[of _ "pool\<lparr> tp_tiers := ts' \<rparr>"])
      (auto simp: pool_wf_def pool_live_def pool_blocks_def pool_size_def fun_eq_iff split: if_splits)
qed

text \<open>
  C31: freeing a non-NULL pointer on a well-formed pool. A live block is released and only it; the start of a
  block that is not live is reported as a double free and every other pointer as invalid, both
  leaving the pool unchanged. The lock is entered once and left once with the saved state.
\<close>
theorem nx_tiered_mem_pool_free_spec:
  assumes "pool_wf pool" and "p \<noteq> 0"
  shows "\<exists>r pool'. nx_tiered_mem_pool_free (Some pool) p e
             = Some (r, Some pool', lock_bracket (tp_lock pool) e) \<and> pool_wf pool' \<and>
           pool_size pool' = pool_size pool \<and> pool_blocks pool' = pool_blocks pool \<and>
           (if p \<in> pool_live pool then r = NX_TIERED_OK \<and> pool_live pool' = pool_live pool - {p}
            else pool' = pool \<and>
                 r = (if p \<in> pool_blocks pool then NX_TIERED_ERR_DOUBLE_FREE else NX_TIERED_ERR_INVALID))"
  using assms by (rule tiered_pool_free)

section \<open>What initialisation lays out\<close>

definition round_up :: "nat \<Rightarrow> nat" where
  "round_up n = (n + 15) div 16 * 16"

lemma round_up_ge: "n \<le> round_up n" and round_up_less: "round_up n < n + 16"
  and round_up_dvd: "NX_TIERED_ALIGN dvd round_up n" and round_up_pos: "0 < n \<Longrightarrow> 0 < round_up n"
  unfolding round_up_def NX_TIERED_ALIGN_def by presburger+

lemma align_up_round: "n + 15 < 2 ^ 64 \<Longrightarrow> NX_TIERED_ALIGN_UP n NX_TIERED_ALIGN = round_up n"
  by (simp add: NX_TIERED_ALIGN_UP_def NX_TIERED_ALIGN_def round_up_def minus_mod_eq_div_mult)

lemma align_padding: "(round_up m + 2 ^ 64 - m) mod 2 ^ 64 = round_up m - m"
proof -
  have split: "round_up m + 2 ^ 64 - m = (round_up m - m) + 2 ^ 64" using round_up_ge[of m] by linarith
  have "round_up m - m < 16" using round_up_less[of m] by linarith
  also have "(16::nat) < 2 ^ 64" by simp
  finally show ?thesis unfolding split mod_add_self2 by (rule mod_less)
qed

text \<open>The sizes of a valid tier list as plain sums.\<close>

definition cfg_valid :: "nx_tiered_level_cfg \<Rightarrow> bool" where
  "cfg_valid c \<longleftrightarrow> 0 < lc_block_size c \<and> 0 < lc_block_count c"

definition cfg_blocks :: "nx_tiered_level_cfg \<Rightarrow> nat" where
  "cfg_blocks c = round_up (lc_block_size c) * lc_block_count c"

definition cfg_bitmap :: "nx_tiered_level_cfg \<Rightarrow> nat" where
  "cfg_bitmap c = (lc_block_count c + 7) div 8"

definition cfgs_meta :: "nx_tiered_level_cfg list \<Rightarrow> nat" where
  "cfgs_meta cs = round_up (length cs * LEVEL_SIZEOF + sum_list (map cfg_bitmap cs))"

definition cfgs_required :: "nx_tiered_level_cfg list \<Rightarrow> nat" where
  "cfgs_required cs = cfgs_meta cs + sum_list (map cfg_blocks cs)"

lemma cfg_bounds:
  assumes "cfg_valid c" "cfg_blocks c \<le> n"
  shows "round_up (lc_block_size c) \<le> n" "lc_block_size c \<le> n" "16 * lc_block_count c \<le> n" "cfg_bitmap c \<le> n"
proof -
  have pos: "0 < lc_block_count c" "16 \<le> round_up (lc_block_size c)"
    using assms(1) unfolding cfg_valid_def round_up_def by presburger+
  have "round_up (lc_block_size c) * 1 \<le> cfg_blocks c" unfolding cfg_blocks_def by (rule mult_le_mono2) (use pos in simp)
  then show "round_up (lc_block_size c) \<le> n" using assms(2) by simp
  then show "lc_block_size c \<le> n" using round_up_ge order_trans by blast
  have "16 * lc_block_count c \<le> cfg_blocks c" unfolding cfg_blocks_def by (rule mult_le_mono1) (use pos in simp)
  then show *: "16 * lc_block_count c \<le> n" using assms(2) by simp
  show "cfg_bitmap c \<le> n" using * pos unfolding cfg_bitmap_def by simp
qed

lemma cfg_no_wrap:
  assumes "cfg_valid c" "cfg_blocks c + 16 \<le> 2 ^ 64"
  shows "nx_tiered_tier_bytes c = Some (cfg_blocks c)" "nx_tiered_bitmap_bytes (lc_block_count c) = cfg_bitmap c"
    "NX_TIERED_ALIGN_UP (lc_block_size c) NX_TIERED_ALIGN = round_up (lc_block_size c)"
proof -
  note b = cfg_bounds[OF assms(1) order_refl]
  show al: "NX_TIERED_ALIGN_UP (lc_block_size c) NX_TIERED_ALIGN = round_up (lc_block_size c)"
    by (rule align_up_round) (use b(2) assms(2) in linarith)
  show "nx_tiered_bitmap_bytes (lc_block_count c) = cfg_bitmap c"
    using b(3) assms(2) by (simp add: nx_tiered_bitmap_bytes_def cfg_bitmap_def)
  have "round_up (lc_block_size c) \<le> SIZE_MAX div lc_block_count c"
    using assms by (simp add: less_eq_div_iff_mult_less_eq cfg_valid_def cfg_blocks_def)
  then show "nx_tiered_tier_bytes c = Some (cfg_blocks c)"
    using assms(1) by (simp add: nx_tiered_tier_bytes_def al cfg_valid_def cfg_blocks_def Let_def)
qed

lemma tiered_pass1_valid:
  "list_all cfg_valid cs \<Longrightarrow> bt + sum_list (map cfg_blocks cs) + 16 \<le> 2 ^ 64 \<Longrightarrow>
   bm + sum_list (map cfg_bitmap cs) < 2 ^ 64 \<Longrightarrow>
   tiered_pass1 cs bt bm = Some (bt + sum_list (map cfg_blocks cs), bm + sum_list (map cfg_bitmap cs))"
proof (induction cs arbitrary: bt bm)
  case (Cons c cs)
  have c: "cfg_valid c" "cfg_blocks c + 16 \<le> 2 ^ 64" using Cons.prems by auto
  have "bt + cfg_blocks c + sum_list (map cfg_blocks cs) + 16 \<le> 2 ^ 64"
    "bm + cfg_bitmap c + sum_list (map cfg_bitmap cs) < 2 ^ 64" using Cons.prems(2,3) by (simp_all add: add.assoc)
  with Cons.prems(1) have "tiered_pass1 cs (bt + cfg_blocks c) (bm + cfg_bitmap c) =
      Some (bt + cfg_blocks c + sum_list (map cfg_blocks cs), bm + cfg_bitmap c + sum_list (map cfg_bitmap cs))"
    by (intro Cons.IH) auto
  moreover have "\<not> cfg_blocks c > SIZE_MAX - bt" "(bm + cfg_bitmap c) mod 2 ^ 64 = bm + cfg_bitmap c"
    using Cons.prems(2,3) by auto
  ultimately show ?case
    by (simp add: cfg_no_wrap[OF c] add.assoc)
qed simp

text \<open>Sorted insertion keeps the order and any symmetric relation between the tiers.\<close>

lemma set_tier_shift_in [simp]: "set (tier_shift_in t xs) = insert t (set xs)"
  by (induction xs) auto

lemma sorted_tier_shift_in:
  "sorted_wrt (\<lambda>s t. tl_block_size t \<le> tl_block_size s) xs \<Longrightarrow>
   sorted_wrt (\<lambda>s t. tl_block_size t \<le> tl_block_size s) (tier_shift_in t xs)"
  by (induction xs) auto

lemma apart_tier_shift_in:
  "sorted_wrt R xs \<Longrightarrow> (\<And>x. x \<in> set xs \<Longrightarrow> R x t \<and> R t x) \<Longrightarrow> sorted_wrt R (tier_shift_in t xs)"
  by (induction xs) auto

lemma tiers_wf_insert:
  assumes "tiers_wf ts" "level_wf t" "\<And>s. s \<in> set ts \<Longrightarrow> tl_end s \<le> tl_base t \<or> tl_end t \<le> tl_base s"
  shows "tiers_wf (tier_insert t ts)" "set (tier_insert t ts) = insert t (set ts)"
    "length (tier_insert t ts) = Suc (length ts)"
proof -
  show set: "set (tier_insert t ts) = insert t (set ts)" by (simp add: tier_insert_def)
  have "length (tier_shift_in t xs) = Suc (length xs)" for xs by (induction xs) auto
  then show "length (tier_insert t ts) = Suc (length ts)" by (simp add: tier_insert_def)
  have "sorted_wrt (\<lambda>s t. tl_block_size s \<le> tl_block_size t) (tier_insert t ts)"
    using assms(1) unfolding tier_insert_def sorted_wrt_rev
    by (intro sorted_tier_shift_in) (simp add: sorted_wrt_rev tiers_wf_def)
  moreover have "sorted_wrt (\<lambda>s t. tl_end s \<le> tl_base t \<or> tl_end t \<le> tl_base s) (tier_insert t ts)"
    using assms(1,3) unfolding tier_insert_def sorted_wrt_rev
    by (intro apart_tier_shift_in) (auto simp: sorted_wrt_rev tiers_wf_def disj_commute)
  ultimately show "tiers_wf (tier_insert t ts)"
    using assms(1,2) set unfolding tiers_wf_def by auto
qed

text \<open>A tier fresh from \<open>nx_tiered_tier_setup\<close>.\<close>

lemma tier_setup_valid:
  assumes "cfg_valid c" "cfg_blocks c + 16 \<le> 2 ^ 64" "NX_TIERED_ALIGN dvd base" "0 < base"
    and "base + cfg_blocks c \<le> 2 ^ 64"
  shows "\<exists>t. nx_tiered_tier_setup c base used = Some t \<and> level_wf t \<and> level_live t = {} \<and>
    tl_base t = base \<and> tl_end t = base + cfg_blocks c \<and> tl_used_at t = used \<and>
    length (tl_used t) = cfg_bitmap c \<and> tl_block_count t = lc_block_count c \<and>
    tl_block_size t = round_up (lc_block_size c) \<and> tl_free_count t = lc_block_count c \<and>
    tl_min_free_count t = lc_block_count c"
proof -
  let ?t = "\<lparr> tl_base = base, tl_end = base + cfg_blocks c, tl_block_size = round_up (lc_block_size c),
     tl_block_count = lc_block_count c, tl_free_count = lc_block_count c, tl_min_free_count = lc_block_count c,
     tl_next_free_hint = 0, tl_used_at = used, tl_used = replicate (cfg_bitmap c) 0 \<rparr>"
  have v: "0 < lc_block_size c" "0 < lc_block_count c" using assms(1) by (auto simp: cfg_valid_def)
  have "\<not> level_bit ?t i" if "i < lc_block_count c" for i
  proof -
    have "i div 8 < cfg_bitmap c" using that by (simp add: cfg_bitmap_def)
    then show ?thesis by (simp add: level_bit_def)
  qed
  then have live: "level_live ?t = {}" by (auto simp: level_live_def)
  then have "level_wf ?t"
    using v assms(3,4,5) round_up_pos[OF v(1)] round_up_dvd[of "lc_block_size c"]
    by (simp add: level_wf_def cfg_blocks_def cfg_bitmap_def)
  moreover have "nx_tiered_tier_setup c base used = Some ?t"
    using v cfg_no_wrap[OF assms(1,2)]
    by (simp add: nx_tiered_tier_setup_def nx_tiered_tier_reset_def Let_def cfg_blocks_def)
  ultimately show ?thesis using live by (intro exI[of _ ?t]) simp
qed

text \<open>Where the tiers lie: blocks in one range, bitmaps in another, no two bitmaps overlapping, nothing in use.\<close>

definition bitmap_end :: "nx_tiered_level \<Rightarrow> nat" where
  "bitmap_end t = tl_used_at t + length (tl_used t)"

definition tiers_fresh :: "nat \<Rightarrow> nat \<Rightarrow> nat \<Rightarrow> nat \<Rightarrow> nx_tiered_level list \<Rightarrow> bool" where
  "tiers_fresh bm0 bm1 lo hi ts \<longleftrightarrow> tiers_wf ts \<and>
     (\<forall>t \<in> set ts. lo \<le> tl_base t \<and> tl_end t \<le> hi \<and> bm0 \<le> tl_used_at t \<and> bitmap_end t \<le> bm1 \<and>
                  level_live t = {} \<and> tl_min_free_count t = tl_block_count t) \<and>
     sorted_wrt (\<lambda>s t. bitmap_end s \<le> tl_used_at t \<or> bitmap_end t \<le> tl_used_at s) ts"

lemma tiers_fresh_insert:
  assumes "tiers_fresh bm0 bm lo blk ts" "cfg_valid c" "cfg_blocks c + 16 \<le> 2 ^ 64"
    and "NX_TIERED_ALIGN dvd blk" "0 < blk" "lo \<le> blk" "bm0 \<le> bm" "blk + cfg_blocks c \<le> 2 ^ 64"
  shows "\<exists>t. nx_tiered_tier_setup c blk bm = Some t \<and>
           tiers_fresh bm0 (bm + cfg_bitmap c) lo (blk + cfg_blocks c) (tier_insert t ts) \<and>
           length (tier_insert t ts) = Suc (length ts)"
proof -
  obtain t where t: "nx_tiered_tier_setup c blk bm = Some t" "level_wf t" "level_live t = {}" "tl_base t = blk"
    "tl_end t = blk + cfg_blocks c" "tl_used_at t = bm" "bitmap_end t = bm + cfg_bitmap c"
    "tl_min_free_count t = tl_block_count t"
    using tier_setup_valid[OF assms(2-5,8), of bm] by (auto simp: bitmap_end_def)
  have old: "tiers_wf ts" "\<And>s. s \<in> set ts \<Longrightarrow> lo \<le> tl_base s \<and> tl_end s \<le> blk \<and> bm0 \<le> tl_used_at s \<and>
      bitmap_end s \<le> bm \<and> level_live s = {} \<and> tl_min_free_count s = tl_block_count s"
    using assms(1) by (auto simp: tiers_fresh_def)
  note ins = tiers_wf_insert[OF old(1) t(2)]
  have "sorted_wrt (\<lambda>s t. bitmap_end s \<le> tl_used_at t \<or> bitmap_end t \<le> tl_used_at s) (tier_insert t ts)"
    using assms(1) old(2) t(6) unfolding tier_insert_def sorted_wrt_rev
    by (intro apart_tier_shift_in) (auto simp: sorted_wrt_rev tiers_fresh_def disj_commute)
  moreover have "tiers_wf (tier_insert t ts)" "set (tier_insert t ts) = insert t (set ts)"
    "length (tier_insert t ts) = Suc (length ts)"
    using ins old(2) t(4) by auto
  ultimately show ?thesis
    using t old(2) assms(6,7) by (intro exI[of _ t]) (fastforce simp: tiers_fresh_def)
qed

lemma cfg_blocks_dvd: "NX_TIERED_ALIGN dvd cfg_blocks c"
  unfolding cfg_blocks_def using round_up_dvd by (rule dvd_mult2)

lemma tiered_pass2_valid:
  "list_all cfg_valid cs \<Longrightarrow> sum_list (map cfg_blocks cs) + 16 \<le> 2 ^ 64 \<Longrightarrow> tiers_fresh bm0 bm lo blk ts \<Longrightarrow>
   NX_TIERED_ALIGN dvd blk \<Longrightarrow> 0 < blk \<Longrightarrow> lo \<le> blk \<Longrightarrow> bm0 \<le> bm \<Longrightarrow>
   blk + sum_list (map cfg_blocks cs) \<le> 2 ^ 64 \<Longrightarrow>
   \<exists>ts'. tiered_pass2 cs blk bm ts = Some ts' \<and> length ts' = length ts + length cs \<and>
     tiers_fresh bm0 (bm + sum_list (map cfg_bitmap cs)) lo (blk + sum_list (map cfg_blocks cs)) ts'"
proof (induction cs arbitrary: bm blk ts)
  case (Cons c cs)
  have c: "cfg_valid c" "cfg_blocks c + 16 \<le> 2 ^ 64" using Cons.prems(1,2) by auto
  have "blk + cfg_blocks c \<le> 2 ^ 64" using Cons.prems(8) by simp
  from tiers_fresh_insert[OF Cons.prems(3) c Cons.prems(4-7) this] obtain t where
    t: "nx_tiered_tier_setup c blk bm = Some t"
    "tiers_fresh bm0 (bm + cfg_bitmap c) lo (blk + cfg_blocks c) (tier_insert t ts)"
    "length (tier_insert t ts) = Suc (length ts)" by blast
  have "\<exists>ts'. tiered_pass2 cs (blk + cfg_blocks c) (bm + cfg_bitmap c) (tier_insert t ts) = Some ts' \<and>
      length ts' = length (tier_insert t ts) + length cs \<and>
      tiers_fresh bm0 (bm + cfg_bitmap c + sum_list (map cfg_bitmap cs)) lo
        (blk + cfg_blocks c + sum_list (map cfg_blocks cs)) ts'"
    using Cons.prems(1,2,4-8) by (intro Cons.IH t(2)) (auto intro: dvd_add cfg_blocks_dvd)
  then show ?case
    using t by (simp add: cfg_no_wrap[OF c] add.assoc)
qed simp

lemma cfgs_meta_bounds:
  "length cs * LEVEL_SIZEOF + sum_list (map cfg_bitmap cs) \<le> cfgs_meta cs" "NX_TIERED_ALIGN dvd cfgs_meta cs"
  "cfgs_meta cs < length cs * LEVEL_SIZEOF + sum_list (map cfg_bitmap cs) + 16"
  unfolding cfgs_meta_def by (rule round_up_ge round_up_dvd round_up_less)+

text \<open>For a valid list the size checks pass, and only the room in the buffer decides.\<close>

lemma tiered_init_run:
  assumes "pc_memory cfg \<noteq> 0" "pc_memory cfg + 15 < 2 ^ 64" "pc_memory_size cfg \<noteq> 0"
    and "pc_tiers cfg = Some cs" "pc_tier_count cfg = length cs" "cs \<noteq> []" "list_all cfg_valid cs"
    and "cfgs_required cs + 16 \<le> 2 ^ 64"
  shows "nx_tiered_mem_pool_init (Some p0) (Some cfg) =
      (if pc_memory_size cfg < round_up (pc_memory cfg) - pc_memory cfg \<or>
          pc_memory_size cfg - (round_up (pc_memory cfg) - pc_memory cfg) < cfgs_required cs
       then Some (NX_TIERED_ERR_CONFIG, Some p0, cfgs_required cs)
       else do {
         ts \<leftarrow> tiered_pass2 cs (round_up (pc_memory cfg) + cfgs_meta cs)
                (round_up (pc_memory cfg) + length cs * LEVEL_SIZEOF) [];
         Some (NX_TIERED_OK, Some \<lparr> tp_tiers_at = round_up (pc_memory cfg), tp_tiers = ts,
           tp_forbid_fallback = pc_forbid_fallback cfg, tp_lock = pc_lock cfg \<rparr>, cfgs_required cs) })"
proof -
  let ?m = "pc_memory cfg" and ?S = "sum_list (map cfg_blocks cs)" and ?B = "sum_list (map cfg_bitmap cs)"
  let ?T = "length cs * LEVEL_SIZEOF"
  note meta = cfgs_meta_bounds[of cs]
  have bound: "cfgs_meta cs + ?S + 16 \<le> 2 ^ 64" using assms(8) by (simp add: cfgs_required_def)
  have al: "NX_TIERED_ALIGN_UP ?m NX_TIERED_ALIGN = round_up ?m"
    "NX_TIERED_ALIGN_UP (?T + ?B) NX_TIERED_ALIGN = cfgs_meta cs"
    unfolding cfgs_meta_def by (rule align_up_round; use assms(2) meta bound in linarith)+
  have "?S + 16 \<le> 2 ^ 64" using bound by linarith
  moreover have "?B < 2 ^ 64" using meta bound by linarith
  ultimately have p1: "tiered_pass1 cs 0 0 = Some (?S, ?B)"
    using tiered_pass1_valid[OF assms(7), of 0 0] by simp
  have "\<not> length cs > SIZE_MAX div LEVEL_SIZEOF" "\<not> ?B > SIZE_MAX - ?T"
    "\<not> (cfgs_meta cs < ?T + ?B \<or> ?S > SIZE_MAX - cfgs_meta cs)"
    using meta(1) bound by (auto simp: LEVEL_SIZEOF_def)
  then show ?thesis
    using assms(1,3-6) p1
    by (simp only: nx_tiered_mem_pool_init_def prod.case option.case Let_def al(1) align_padding)
      (simp add: mem_read_def al(2) cfgs_required_def)
qed

text \<open>
  Initialising a pool over \<open>memory_size\<close> bytes at a non-NULL address with a valid tier list whose sizes do not
  overflow. The required size reported is exactly metadata plus blocks; the call succeeds if and only if the
  buffer, after aligning its start, has that many bytes. Then the tier table, the bitmaps and the
  blocks lie one after the other inside the buffer, no two bitmaps and no two tiers overlap, the tiers are sorted and
  well formed, and no block is live.
\<close>
theorem nx_tiered_mem_pool_init_layout:
  assumes "pc_memory cfg \<noteq> 0" "pc_memory cfg + 15 < 2 ^ 64" "pc_memory cfg + pc_memory_size cfg \<le> 2 ^ 64"
    and "pc_memory_size cfg \<noteq> 0" "pc_tiers cfg = Some cs" "pc_tier_count cfg = length cs" "cs \<noteq> []"
    and "list_all cfg_valid cs" "cfgs_required cs + 16 \<le> 2 ^ 64"
  shows "if round_up (pc_memory cfg) + cfgs_required cs \<le> pc_memory cfg + pc_memory_size cfg
         then \<exists>pool. nx_tiered_mem_pool_init (Some p0) (Some cfg) = Some (NX_TIERED_OK, Some pool, cfgs_required cs) \<and>
                pool_wf pool \<and> pool_live pool = {} \<and> length (tp_tiers pool) = length cs \<and>
                tp_tiers_at pool = round_up (pc_memory cfg) \<and>
                tp_forbid_fallback pool = pc_forbid_fallback cfg \<and> tp_lock pool = pc_lock cfg \<and>
                tiers_fresh (tp_tiers_at pool + length cs * LEVEL_SIZEOF) (tp_tiers_at pool + cfgs_meta cs)
                  (tp_tiers_at pool + cfgs_meta cs) (tp_tiers_at pool + cfgs_required cs) (tp_tiers pool)
         else nx_tiered_mem_pool_init (Some p0) (Some cfg) = Some (NX_TIERED_ERR_CONFIG, Some p0, cfgs_required cs)"
proof -
  let ?m = "pc_memory cfg" and ?S = "sum_list (map cfg_blocks cs)" and ?B = "sum_list (map cfg_bitmap cs)"
  let ?T = "length cs * LEVEL_SIZEOF"
  have run: "nx_tiered_mem_pool_init (Some p0) (Some cfg) =
      (if ?m + pc_memory_size cfg < round_up ?m + cfgs_required cs
       then Some (NX_TIERED_ERR_CONFIG, Some p0, cfgs_required cs)
       else do {
         ts \<leftarrow> tiered_pass2 cs (round_up ?m + cfgs_meta cs) (round_up ?m + ?T) [];
         Some (NX_TIERED_OK, Some \<lparr> tp_tiers_at = round_up ?m, tp_tiers = ts,
           tp_forbid_fallback = pc_forbid_fallback cfg, tp_lock = pc_lock cfg \<rparr>, cfgs_required cs) })"
    using tiered_init_run[OF assms(1,2,4-9)] round_up_ge[of ?m] by (simp add: less_diff_conv2 add.commute split: if_splits) linarith
  show ?thesis
  proof (cases "round_up ?m + cfgs_required cs \<le> ?m + pc_memory_size cfg")
    case False
    with run show ?thesis by simp
  next
    case True
    have "\<exists>ts. tiered_pass2 cs (round_up ?m + cfgs_meta cs) (round_up ?m + ?T) [] = Some ts \<and> length ts = length cs \<and>
        tiers_fresh (round_up ?m + ?T) (round_up ?m + ?T + ?B) (round_up ?m + cfgs_meta cs)
          (round_up ?m + cfgs_meta cs + ?S) ts"
      using tiered_pass2_valid[OF assms(8), of "round_up ?m + ?T" "round_up ?m + ?T"
          "round_up ?m + cfgs_meta cs" "round_up ?m + cfgs_meta cs" "[]"] assms(1,3,9) True round_up_pos[of ?m]
        round_up_dvd[of ?m] cfgs_meta_bounds(2)[of cs]
      by (simp add: tiers_fresh_def tiers_wf_def cfgs_required_def)
    then obtain ts where p2: "tiered_pass2 cs (round_up ?m + cfgs_meta cs) (round_up ?m + ?T) [] = Some ts"
      "length ts = length cs" and fresh: "tiers_fresh (round_up ?m + ?T) (round_up ?m + ?T + ?B)
         (round_up ?m + cfgs_meta cs) (round_up ?m + cfgs_meta cs + ?S) ts" by blast
    have "tiers_fresh (round_up ?m + ?T) (round_up ?m + cfgs_meta cs) (round_up ?m + cfgs_meta cs)
        (round_up ?m + cfgs_required cs) ts"
      using fresh cfgs_meta_bounds(1)[of cs] unfolding tiers_fresh_def cfgs_required_def by (fastforce simp: add.assoc)
    moreover have "tiers_wf ts" "tiers_live ts = {}" using fresh by (auto simp: tiers_fresh_def tiers_live_def)
    ultimately show ?thesis
      using run True p2 by (simp add: pool_wf_def pool_live_def)
  qed
qed

section \<open>The interface clients rely on\<close>

text \<open>
  The allocator as its clients see it: \<open>alloc\<close> and \<open>free\<close> over a state, the set of live blocks and their sizes. The
  laws: live blocks never overlap, allocation hands out a block that was not live and is large enough or
  NULL, only live blocks (and NULL) can be freed.
\<close>

locale block_pool =
  fixes inv :: "'p \<Rightarrow> bool" and live :: "'p \<Rightarrow> nat set" and blocks :: "'p \<Rightarrow> nat set" and bsize :: "'p \<Rightarrow> nat \<Rightarrow> nat"
    and alloc :: "'p \<Rightarrow> nat \<Rightarrow> 'e \<Rightarrow> (nat \<times> 'p option \<times> 'e) option"
    and free :: "'p \<Rightarrow> nat \<Rightarrow> 'e \<Rightarrow> (nx_tiered_ret \<times> 'p option \<times> 'e) option"
  assumes separate: "inv p \<Longrightarrow> a \<in> live p \<Longrightarrow> b \<in> live p \<Longrightarrow> a \<noteq> b \<Longrightarrow> a + bsize p a \<le> b \<or> b + bsize p b \<le> a"
    and live_blocks: "inv p \<Longrightarrow> live p \<subseteq> blocks p"
    and block_range: "inv p \<Longrightarrow> a \<in> blocks p \<Longrightarrow> 0 < a \<and> a < 2 ^ 64"
    and alloc_law: "inv p \<Longrightarrow> \<exists>r p' e'. alloc p n e = Some (r, Some p', e') \<and> inv p' \<and> bsize p' = bsize p \<and>
      blocks p' = blocks p \<and>
      (if r = 0 then live p' = live p else r \<notin> live p \<and> live p' = insert r (live p) \<and> n \<le> bsize p r)"
    and free_law: "inv p \<Longrightarrow> \<exists>r p' e'. free p a e = Some (r, Some p', e') \<and> inv p' \<and> bsize p' = bsize p \<and>
      blocks p' = blocks p \<and>
      (if a \<in> live p then r = NX_TIERED_OK \<and> live p' = live p - {a}
       else live p' = live p \<and> (r = NX_TIERED_OK \<longleftrightarrow> a = 0))"

text \<open>A client's calls, and the ledger it keeps from what they returned: \<open>None\<close> as soon as a call misbehaves.\<close>

datatype pool_op = PAlloc nat | PFree nat

datatype pool_out = PAddr nat | PRet nx_tiered_ret

fun pool_client_step ::
  "('p \<Rightarrow> nat \<Rightarrow> 'e \<Rightarrow> (nat \<times> 'p option \<times> 'e) option) \<Rightarrow>
   ('p \<Rightarrow> nat \<Rightarrow> 'e \<Rightarrow> (nx_tiered_ret \<times> 'p option \<times> 'e) option) \<Rightarrow>
   pool_op \<Rightarrow> 'p \<times> 'e \<Rightarrow> (pool_out \<times> 'p \<times> 'e) option" where
  "pool_client_step alloc free (PAlloc n) (p, e) =
     do { (r, pp, e') \<leftarrow> alloc p n e; p' \<leftarrow> pp; Some (PAddr r, p', e') }"
| "pool_client_step alloc free (PFree a) (p, e) =
     do { (r, pp, e') \<leftarrow> free p a e; p' \<leftarrow> pp; Some (PRet r, p', e') }"

fun pool_ledger :: "pool_op list \<Rightarrow> pool_out list \<Rightarrow> nat set \<Rightarrow> nat set option" where
  "pool_ledger [] [] L = Some L"
| "pool_ledger (PAlloc n # xs) (PAddr r # os) L =
     (if r = 0 then pool_ledger xs os L else if r \<in> L then None else pool_ledger xs os (insert r L))"
| "pool_ledger (PFree a # xs) (PRet r # os) L =
     (if a \<in> L then if r = NX_TIERED_OK then pool_ledger xs os (L - {a}) else None
      else if r = NX_TIERED_OK \<longleftrightarrow> a = 0 then pool_ledger xs os L else None)"
| "pool_ledger _ _ L = None"

context block_pool
begin

lemma client_run:
  "inv p \<Longrightarrow> \<exists>outs p' e'. run_ops (pool_client_step alloc free) xs (p, e) = Some (outs, p', e') \<and> inv p' \<and>
     bsize p' = bsize p \<and> pool_ledger xs outs (live p) = Some (live p')"
proof (induction xs arbitrary: p e)
  case (Cons x xs)
  show ?case
  proof (cases x)
    case (PAlloc n)
    obtain r p1 e1 where a: "alloc p n e = Some (r, Some p1, e1)" "inv p1" "bsize p1 = bsize p"
      "if r = 0 then live p1 = live p else r \<notin> live p \<and> live p1 = insert r (live p) \<and> n \<le> bsize p r"
      using alloc_law[OF Cons.prems] by blast
    from Cons.IH[OF a(2), of e1] obtain outs p' e' where
      "run_ops (pool_client_step alloc free) xs (p1, e1) = Some (outs, p', e')" "inv p'" "bsize p' = bsize p1"
      "pool_ledger xs outs (live p1) = Some (live p')" by blast
    with a PAlloc show ?thesis by (intro exI[of _ "PAddr r # outs"]) (auto split: if_splits)
  next
    case (PFree a)
    obtain r p1 e1 where f: "free p a e = Some (r, Some p1, e1)" "inv p1" "bsize p1 = bsize p"
      "if a \<in> live p then r = NX_TIERED_OK \<and> live p1 = live p - {a}
       else live p1 = live p \<and> (r = NX_TIERED_OK \<longleftrightarrow> a = 0)"
      using free_law[OF Cons.prems] by blast
    from Cons.IH[OF f(2), of e1] obtain outs p' e' where
      "run_ops (pool_client_step alloc free) xs (p1, e1) = Some (outs, p', e')" "inv p'" "bsize p' = bsize p1"
      "pool_ledger xs outs (live p1) = Some (live p')" by blast
    with f PFree show ?thesis by (intro exI[of _ "PRet r # outs"]) (auto split: if_splits)
  qed
qed simp

text \<open>Bytes of a live block are outside every other live block.\<close>

lemma byte_owner:
  assumes "inv p" "a \<in> live p" "b \<in> live p" "a \<le> x" "x < a + bsize p a" "b \<le> x" "x < b + bsize p b"
  shows "a = b"
  using separate[OF assms(1-3)] assms(4-7) by linarith

end

lemma level_blocks_apart:
  assumes "level_wf t" "i < tl_block_count t" "j < tl_block_count t" "i \<noteq> j"
  shows "level_addr t i + tl_block_size t \<le> level_addr t j \<or> level_addr t j + tl_block_size t \<le> level_addr t i"
  using slot_apart[OF assms(4), of "tl_block_size t"] by (auto simp: level_addr_def)

lemma tiers_live_size:
  assumes "tiers_wf ts" "a \<in> tiers_live ts"
  obtains t i where "t \<in> set ts" "i < tl_block_count t" "a = level_addr t i" "tiers_size ts a = tl_block_size t"
proof -
  obtain t i where t: "t \<in> set ts" "i < tl_block_count t" "a = level_addr t i"
    using assms(2) by (auto simp: tiers_live_def level_live_def)
  have wft: "level_wf t" using assms(1) t(1) by (simp add: tiers_wf_def)
  obtain pre post where ts: "ts = pre @ t # post" using t(1) by (metis split_list)
  have "tiers_size ts a = tl_block_size t"
    unfolding ts by (rule tiers_size_at) (use assms(1) ts t(3) level_addr_range[OF wft t(2)] in auto)
  with t that show ?thesis by blast
qed

lemma tiers_live_separate:
  assumes wf: "tiers_wf ts" and "a \<in> tiers_live ts" "b \<in> tiers_live ts" "a \<noteq> b"
  shows "a + tiers_size ts a \<le> b \<or> b + tiers_size ts b \<le> a"
proof -
  obtain t i where t: "t \<in> set ts" "i < tl_block_count t" "a = level_addr t i" "tiers_size ts a = tl_block_size t"
    by (rule tiers_live_size[OF wf assms(2)])
  obtain s j where s: "s \<in> set ts" "j < tl_block_count s" "b = level_addr s j" "tiers_size ts b = tl_block_size s"
    by (rule tiers_live_size[OF wf assms(3)])
  have wfl: "level_wf t" "level_wf s" using wf t(1) s(1) by (auto simp: tiers_wf_def)
  note rt = level_addr_range[OF wfl(1) t(2)] and rs = level_addr_range[OF wfl(2) s(2)]
  show ?thesis
  proof (cases "s = t")
    case True
    with t s assms(4) level_blocks_apart[OF wfl(1) t(2), of j] show ?thesis by auto
  next
    case False
    then have "tl_end t \<le> tl_base s \<or> tl_end s \<le> tl_base t"
      using wf t(1) s(1) unfolding tiers_wf_def by (metis (mono_tags, lifting) in_set_conv_nth linorder_neqE_nat sorted_wrt_nth_less)
    with rt rs t(3,4) s(3,4) show ?thesis by linarith
  qed
qed

text \<open>The tiered pool provides the interface.\<close>

interpretation tiered: block_pool pool_wf pool_live pool_blocks pool_size
  "\<lambda>p. nx_tiered_mem_pool_alloc (Some p)" "\<lambda>p. nx_tiered_mem_pool_free (Some p)"
proof
  fix p :: "'e nx_tiered_mem_pool" and a b n :: nat and e :: 'e
  assume wf: "pool_wf p"
  show "a \<in> pool_live p \<Longrightarrow> b \<in> pool_live p \<Longrightarrow> a \<noteq> b \<Longrightarrow> a + pool_size p a \<le> b \<or> b + pool_size p b \<le> a"
    using wf tiers_live_separate unfolding pool_wf_def pool_live_def pool_size_def by blast
  show live: "pool_live p \<subseteq> pool_blocks p" by (simp add: pool_live_def pool_blocks_def tiers_live_blocks)
  show range: "a \<in> pool_blocks p \<Longrightarrow> 0 < a \<and> a < 2 ^ 64" for a
  proof -
    assume "a \<in> pool_blocks p"
    then obtain t i where t: "t \<in> set (tp_tiers p)" "i < tl_block_count t" "a = level_addr t i"
      by (auto simp: pool_blocks_def tiers_blocks_def)
    with wf have "level_wf t" by (simp add: pool_wf_def tiers_wf_def)
    with level_addr_range(3,4)[OF this t(2)] t(3) show ?thesis by (auto simp: level_wf_def)
  qed
  then have null: "0 \<notin> pool_live p" using live by auto
  show "\<exists>r p' e'. nx_tiered_mem_pool_alloc (Some p) n e = Some (r, Some p', e') \<and> pool_wf p' \<and>
      pool_size p' = pool_size p \<and> pool_blocks p' = pool_blocks p \<and>
      (if r = 0 then pool_live p' = pool_live p
       else r \<notin> pool_live p \<and> pool_live p' = insert r (pool_live p) \<and> n \<le> pool_size p r)"
  proof (cases "n = 0")
    case True
    with wf show ?thesis by (auto simp: nx_tiered_mem_pool_alloc_def)
  next
    case False
    with tiered_pool_alloc[OF wf, of n e] show ?thesis by (fastforce split: if_splits)
  qed
  show "\<exists>r p' e'. nx_tiered_mem_pool_free (Some p) a e = Some (r, Some p', e') \<and> pool_wf p' \<and>
      pool_size p' = pool_size p \<and> pool_blocks p' = pool_blocks p \<and>
      (if a \<in> pool_live p then r = NX_TIERED_OK \<and> pool_live p' = pool_live p - {a}
       else pool_live p' = pool_live p \<and> (r = NX_TIERED_OK \<longleftrightarrow> a = 0))"
  proof (cases "a = 0")
    case True
    with wf null show ?thesis by (auto simp: nx_tiered_mem_pool_free_def)
  next
    case False
    with tiered_pool_free[OF wf, of a e] show ?thesis by (fastforce split: if_splits)
  qed
qed

text \<open>
  C29: isolation. Whatever sequence of allocations and releases, valid or not, a client performs on a
  well-formed pool, every call is defined, no allocation returns a block that is already live, exactly the live
  blocks can be released, the live blocks at the end are those the client's own ledger of results
  lists, and no two of them share a byte.
\<close>
theorem nx_tiered_mem_pool_isolation:
  assumes "pool_wf pool"
  shows "\<exists>outs pool' e'.
           run_ops (pool_client_step (\<lambda>p. nx_tiered_mem_pool_alloc (Some p)) (\<lambda>p. nx_tiered_mem_pool_free (Some p)))
             xs (pool, e) = Some (outs, pool', e') \<and>
           pool_wf pool' \<and> pool_size pool' = pool_size pool \<and>
           pool_ledger xs outs (pool_live pool) = Some (pool_live pool') \<and>
           (\<forall>a \<in> pool_live pool'. \<forall>b \<in> pool_live pool'. a \<noteq> b \<longrightarrow>
              a + pool_size pool a \<le> b \<or> b + pool_size pool b \<le> a)"
  using tiered.client_run[OF assms, of xs e] tiered.separate by fastforce

section \<open>Statistics\<close>

text \<open>One operation moves a tier's low-water mark to the free count it leaves, if that is lower.\<close>

definition tier_marks :: "nx_tiered_level \<Rightarrow> nx_tiered_level \<Rightarrow> bool" where
  "tier_marks t t' \<longleftrightarrow> level_wf t' \<and> tl_block_size t' = tl_block_size t \<and> tl_block_count t' = tl_block_count t \<and>
     tl_min_free_count t' = min (tl_min_free_count t) (tl_free_count t')"

lemma tier_marks_refl [simp]: "level_wf t \<Longrightarrow> tier_marks t t"
  by (simp add: tier_marks_def level_wf_def)

lemma tier_marks_refl_list: "\<forall>t \<in> set ts. level_wf t \<Longrightarrow> list_all2 tier_marks ts ts"
  by (simp add: list_all2_same)

lemma tiered_alloc_loop_marks:
  "\<forall>t \<in> set ts. level_wf t \<Longrightarrow> tiered_alloc_loop forbid req ideal ts = Some (r, ts') \<Longrightarrow> list_all2 tier_marks ts ts'"
proof (induction ts arbitrary: ideal ts')
  case (Cons t ts)
  have wft: "level_wf t" using Cons.prems(1) by simp
  have claim: "tier_marks t t'" if "tiered_claim t = Some (r, t')" "0 < tl_free_count t" for t'
    using tiered_claim_ok[OF wft that(2)] that(1) by (auto simp: tier_marks_def)
  show ?case
    using Cons.prems Cons.IH claim wft
    by (auto simp: Let_def tier_marks_refl_list split: if_splits)
qed simp

lemma tiered_free_loop_marks:
  "\<forall>t \<in> set ts. level_wf t \<Longrightarrow> tiered_free_loop p ts = Some (r, ts') \<Longrightarrow> list_all2 tier_marks ts ts'"
proof (induction ts arbitrary: ts')
  case (Cons t ts)
  have wft: "level_wf t" using Cons.prems(1) by simp
  have release: "tier_marks t t'" if "tiered_release t p = Some (r, t')" "tl_base t \<le> p" "p < tl_end t" for t'
  proof -
    have "t' = t \<or> level_wf t' \<and> tl_block_size t' = tl_block_size t \<and> tl_block_count t' = tl_block_count t \<and>
        tl_free_count t' = tl_free_count t + 1 \<and> tl_min_free_count t' = tl_min_free_count t"
      using tiered_release_ok[OF wft that(2,3)] that(1) by (metis option.inject prod.inject)
    then show ?thesis using wft by (auto simp: tier_marks_def level_wf_def)
  qed
  show ?case
    using Cons.prems Cons.IH release wft
    by (auto simp: tier_marks_refl_list not_less not_le split: if_splits)
qed simp

lemma pool_step_marks:
  assumes "pool_wf pool"
    and "pool_client_step (\<lambda>p. nx_tiered_mem_pool_alloc (Some p)) (\<lambda>p. nx_tiered_mem_pool_free (Some p)) x (pool, e)
           = Some (out, pool', e')"
  shows "list_all2 tier_marks (tp_tiers pool) (tp_tiers pool')"
proof -
  have wf: "\<forall>t \<in> set (tp_tiers pool). level_wf t" using assms(1) by (simp add: pool_wf_def tiers_wf_def)
  show ?thesis
  proof (cases x)
    case (PAlloc n)
    show ?thesis
    proof (cases "tiered_alloc_loop (tp_forbid_fallback pool) n 0 (tp_tiers pool)")
      case None
      with PAlloc assms(2) tier_marks_refl_list[OF wf] show ?thesis
        by (simp add: nx_tiered_mem_pool_alloc_def split_beta split: if_splits)
    next
      case (Some rt)
      with PAlloc assms(2) tier_marks_refl_list[OF wf] tiered_alloc_loop_marks[OF wf, of _ _ _ "fst rt" "snd rt"]
      show ?thesis by (simp add: nx_tiered_mem_pool_alloc_def split_beta split: if_splits) auto
    qed
  next
    case (PFree a)
    show ?thesis
    proof (cases "tiered_free_loop a (tp_tiers pool)")
      case None
      with PFree assms(2) tier_marks_refl_list[OF wf] show ?thesis
        by (simp add: nx_tiered_mem_pool_free_def split_beta split: if_splits)
    next
      case (Some rt)
      with PFree assms(2) tier_marks_refl_list[OF wf] tiered_free_loop_marks[OF wf, of _ "fst rt" "snd rt"]
      show ?thesis by (simp add: nx_tiered_mem_pool_free_def split_beta split: if_splits) auto
    qed
  qed
qed

text \<open>
  The statistics of every tier of a well-formed pool are exact: free plus live blocks make up the block count, and
  across every operation the reported peak becomes the larger of the old peak and the blocks
  now in use, so from a fresh pool on it is the high-water mark.
\<close>
theorem nx_tiered_mem_pool_stat_peak:
  assumes "pool_wf pool" and "i < nx_tiered_mem_pool_tier_count (Some pool)"
    and "pool_client_step (\<lambda>p. nx_tiered_mem_pool_alloc (Some p)) (\<lambda>p. nx_tiered_mem_pool_free (Some p)) x (pool, e)
           = Some (out, pool', e')"
  shows "\<exists>st st'. nx_tiered_mem_pool_get_tier_stat (Some pool) i (Some st0) = (NX_TIERED_OK, Some st) \<and>
           nx_tiered_mem_pool_get_tier_stat (Some pool') i (Some st0) = (NX_TIERED_OK, Some st') \<and>
           ls_free_count st + card (level_live (tp_tiers pool ! i)) = ls_block_count st \<and>
           ls_block_size st' = ls_block_size st \<and> ls_block_count st' = ls_block_count st \<and>
           ls_peak_used st' = max (ls_peak_used st) (ls_block_count st' - ls_free_count st')"
proof -
  let ?t = "tp_tiers pool ! i" and ?t' = "tp_tiers pool' ! i"
  have i: "i < length (tp_tiers pool)" using assms(2) by (simp add: nx_tiered_mem_pool_tier_count_def)
  note marks = pool_step_marks[OF assms(1,3)]
  have m: "tier_marks ?t ?t'" using marks i by (rule list_all2_nthD)
  have wf: "level_wf ?t" using assms(1) i by (simp add: pool_wf_def tiers_wf_def)
  have "length (tp_tiers pool') = length (tp_tiers pool)" using list_all2_lengthD[OF marks] by simp
  then show ?thesis
    using i m wf by (auto simp: nx_tiered_mem_pool_get_tier_stat_def Let_def tier_marks_def level_wf_def)
qed

section \<open>Witnesses\<close>

text \<open>A pool of two 32-byte blocks and one 64-byte block at address 1024, the first block in use.\<close>

definition small_tier :: nx_tiered_level where
  "small_tier = \<lparr> tl_base = 1024, tl_end = 1088, tl_block_size = 32, tl_block_count = 2, tl_free_count = 1,
     tl_min_free_count = 1, tl_next_free_hint = 1, tl_used_at = 640, tl_used = [1] \<rparr>"

definition large_tier :: nx_tiered_level where
  "large_tier = \<lparr> tl_base = 1088, tl_end = 1152, tl_block_size = 64, tl_block_count = 1, tl_free_count = 1,
     tl_min_free_count = 1, tl_next_free_hint = 0, tl_used_at = 641, tl_used = [0] \<rparr>"

definition small_pool :: "unit nx_tiered_mem_pool" where
  "small_pool = \<lparr> tp_tiers_at = 512, tp_tiers = [small_tier, large_tier], tp_forbid_fallback = False, tp_lock = None \<rparr>"

lemma small_tier_live: "level_live small_tier = {0}" "level_live large_tier = {}"
  by (auto simp: small_tier_def large_tier_def level_live_def level_bit_def less_2_cases_iff bit_1_iff)

lemma small_tier_wf: "level_wf small_tier" "level_wf large_tier"
  unfolding level_wf_def small_tier_live by (simp_all add: small_tier_def large_tier_def NX_TIERED_ALIGN_def)

lemma small_pool_ok: "pool_wf small_pool" "pool_live small_pool = {1024}" "pool_size small_pool 1024 = 32"
proof -
  show "pool_wf small_pool"
    using small_tier_wf by (simp add: pool_wf_def small_pool_def tiers_wf_def) (simp add: small_tier_def large_tier_def)
  show "pool_live small_pool = {1024}"
    using small_tier_live by (simp add: pool_live_def small_pool_def tiers_live_def) (simp add: level_addr_def small_tier_def)
  show "pool_size small_pool 1024 = 32" by (simp add: pool_size_def small_pool_def small_tier_def)
qed

theorem nx_tiered_mem_pool_alloc_spec_witness:
  "\<exists>r pool'. nx_tiered_mem_pool_alloc (Some small_pool) 20 () = Some (r, Some pool', ()) \<and> r \<noteq> 0 \<and> r \<noteq> 1024 \<and>
     pool_live pool' = {r, 1024}"
  using nx_tiered_mem_pool_alloc_spec[OF small_pool_ok(1), of 20 "()"] small_pool_ok(2)
  by (auto simp: small_pool_def small_tier_def large_tier_def tier_admits_def split: if_splits)

theorem nx_tiered_mem_pool_free_spec_witness:
  "\<exists>pool'. nx_tiered_mem_pool_free (Some small_pool) 1024 () = Some (NX_TIERED_OK, Some pool', ()) \<and>
     pool_live pool' = {}"
  using nx_tiered_mem_pool_free_spec[OF small_pool_ok(1), of 1024 "()"] small_pool_ok(2) by auto

theorem nx_tiered_mem_pool_isolation_witness:
  "\<exists>outs pool' e'.
     run_ops (pool_client_step (\<lambda>p. nx_tiered_mem_pool_alloc (Some p)) (\<lambda>p. nx_tiered_mem_pool_free (Some p)))
       [PAlloc 40, PFree 1024, PFree 1024, PAlloc 8, PAlloc 8, PAlloc 8] (small_pool, ()) = Some (outs, pool', e') \<and>
     pool_ledger [PAlloc 40, PFree 1024, PFree 1024, PAlloc 8, PAlloc 8, PAlloc 8] outs {1024} = Some (pool_live pool')"
  using nx_tiered_mem_pool_isolation[OF small_pool_ok(1)] unfolding small_pool_ok(2) by meson

theorem nx_tiered_mem_pool_stat_peak_witness:
  "\<exists>out pool' e' st'. pool_client_step (\<lambda>p. nx_tiered_mem_pool_alloc (Some p)) (\<lambda>p. nx_tiered_mem_pool_free (Some p))
       (PAlloc 20) (small_pool, ()) = Some (out, pool', e') \<and>
     nx_tiered_mem_pool_get_tier_stat (Some pool') 0 (Some undefined) = (NX_TIERED_OK, Some st') \<and> ls_peak_used st' = 2"
proof -
  let ?step = "pool_client_step (\<lambda>p. nx_tiered_mem_pool_alloc (Some p)) (\<lambda>p. nx_tiered_mem_pool_free (Some p))
    (PAlloc 20) (small_pool, ())"
  have "\<exists>out pool' e'. ?step = Some (out, pool', e') \<and> tl_free_count (tp_tiers pool' ! 0) = 0 \<and> tp_tiers pool' \<noteq> []"
    by (simp add: nx_tiered_mem_pool_alloc_def small_pool_def small_tier_def nx_lock_enter_def nx_lock_exit_def tiered_claim_def
        numeral_2_eq_2 nx_tiered_bit_used_def nx_tiered_bit_set_def mem_get_def Let_def)
  then obtain out pool' e' where step: "?step = Some (out, pool', e')" "tl_free_count (tp_tiers pool' ! 0) = 0"
    "tp_tiers pool' \<noteq> []" by blast
  have "0 < nx_tiered_mem_pool_tier_count (Some small_pool)"
    by (simp add: nx_tiered_mem_pool_tier_count_def small_pool_def)
  from nx_tiered_mem_pool_stat_peak[OF small_pool_ok(1) this step(1), of undefined] step(2,3)
  have "\<exists>st'. nx_tiered_mem_pool_get_tier_stat (Some pool') 0 (Some undefined) = (NX_TIERED_OK, Some st') \<and>
      ls_peak_used st' = 2"
    by (auto simp: nx_tiered_mem_pool_get_tier_stat_def small_pool_def small_tier_def Let_def)
  with step(1) show ?thesis by blast
qed

theorem nx_tiered_mem_pool_init_layout_witness:
  "\<exists>pool. nx_tiered_mem_pool_init (Some small_pool)
      (Some \<lparr> pc_memory = 4099, pc_memory_size = 600,
              pc_tiers = Some [\<lparr> lc_block_size = 100, lc_block_count = 2 \<rparr>, \<lparr> lc_block_size = 20, lc_block_count = 3 \<rparr>],
              pc_tier_count = 2, pc_forbid_fallback = True, pc_lock = None \<rparr>)
      = Some (NX_TIERED_OK, Some pool, 464) \<and> pool_wf pool \<and> pool_live pool = {}"
  using nx_tiered_mem_pool_init_layout[of
      "\<lparr> pc_memory = 4099, pc_memory_size = 600,
         pc_tiers = Some [\<lparr> lc_block_size = 100, lc_block_count = 2 \<rparr>, \<lparr> lc_block_size = 20, lc_block_count = 3 \<rparr>],
         pc_tier_count = 2, pc_forbid_fallback = True, pc_lock = None \<rparr>"
      "[\<lparr> lc_block_size = 100, lc_block_count = 2 \<rparr>, \<lparr> lc_block_size = 20, lc_block_count = 3 \<rparr>]" small_pool]
  by (auto simp: cfgs_required_def cfgs_meta_def cfg_blocks_def cfg_bitmap_def round_up_def LEVEL_SIZEOF_def
      cfg_valid_def)

end
