(* ===== verification/Nx_Ref_Msg.thy ===== *)
theory Nx_Ref_Msg
  imports Nx_Bytes Nx_Queue Nx_Mem_Pool
begin

text \<open>
  \<open>src/core/nx_ref_msg.c\<close> and \<open>nx_ref_msg.h\<close>: reference-counted messages allocated from tiered pools and
  passed between queues as pointers. The world holds the pools, the message objects and the queues by
  address; queue elements are the eight bytes of a pointer. A ghost count of the references
  each client holds makes the protocol explicit; the invariant is that the reference count is the number of held
  plus queued references and that a block is live exactly as long as there is one.
\<close>

section \<open>Types\<close>

datatype nx_ref_msg_ret =
  NX_REF_MSG_OK | NX_REF_MSG_ERR_PARAM | NX_REF_MSG_ERR_NOMEM | NX_REF_MSG_ERR_FULL | NX_REF_MSG_ERR_STATE |
  NX_REF_MSG_PARTIAL

text \<open>The payload is of any type \<open>'d\<close>; \<open>None\<close> while it is uninitialised.\<close>

record 'd nx_ref_msg =
  rm_pool :: nat
  rm_len :: nat
  rm_refcount :: nat
  rm_data :: "'d option"

record ('e, 'd) ref_world =
  rw_pools :: "nat \<Rightarrow> 'e nx_tiered_mem_pool option"
  rw_msgs :: "nat \<Rightarrow> 'd nx_ref_msg option"
  rw_queues :: "nat \<Rightarrow> nx_queue option"
  rw_env :: 'e

text \<open>\<open>sizeof(nx_ref_msg_t)\<close>: three words, padded for the aligned data member.\<close>

definition REF_MSG_SIZEOF :: nat where "REF_MSG_SIZEOF = 32"

text \<open>The object representation of a pointer: its eight bytes, least significant first.\<close>

definition ptr_bytes :: "nat \<Rightarrow> bytes" where
  "ptr_bytes a = the (nx_bytes_set_le64 (replicate 8 0) (of_nat a))"

definition ptr_of_bytes :: "bytes \<Rightarrow> nat option" where
  "ptr_of_bytes xs = map_option unat (nx_bytes_get_le64 xs)"

section \<open>Operations\<close>

definition nx_ref_msg_queue_init :: "nx_queue option \<Rightarrow> bytes option \<Rightarrow> nat \<Rightarrow> nx_queue_ret \<times> nx_queue option" where
  "nx_ref_msg_queue_init qp buffer capacity = nx_queue_init qp buffer 8 capacity NX_QUEUE_ON_FULL_REJECT"

definition nx_ref_msg_alloc :: "('e, 'd) ref_world \<Rightarrow> nat \<Rightarrow> nat \<Rightarrow> (nat \<times> ('e, 'd) ref_world) option" where
  "nx_ref_msg_alloc w pool len =
     (if pool = 0 \<or> len = 0 then Some (0, w)
      else do {
        p \<leftarrow> rw_pools w pool;
        (msg, pp, e) \<leftarrow> nx_tiered_mem_pool_alloc (Some p) ((REF_MSG_SIZEOF + len) mod 2 ^ 64) (rw_env w);
        let w1 = w\<lparr> rw_pools := (rw_pools w)(pool := pp), rw_env := e \<rparr>;
        if msg = 0 then Some (0, w1)
        else Some (msg, w1\<lparr> rw_msgs := (rw_msgs w1)(msg \<mapsto>
               \<lparr> rm_pool = pool, rm_len = len, rm_refcount = 1, rm_data = None \<rparr>) \<rparr>) })"

definition nx_ref_msg_publish ::
  "('e, 'd) ref_world \<Rightarrow> nat \<Rightarrow> nat \<Rightarrow> (nx_ref_msg_ret \<times> ('e, 'd) ref_world) option" where
  "nx_ref_msg_publish w msg q =
     (if msg = 0 \<or> q = 0 then Some (NX_REF_MSG_ERR_PARAM, w)
      else do {
        m \<leftarrow> rw_msgs w msg;
        let m1 = m\<lparr> rm_refcount := (rm_refcount m + 1) mod 2 ^ 64 \<rparr>;
        qo \<leftarrow> rw_queues w q;
        (r, qp) \<leftarrow> nx_queue_push (Some qo) (Some (ptr_bytes msg));
        let w1 = w\<lparr> rw_queues := (rw_queues w)(q := qp) \<rparr>;
        if r \<noteq> NX_QUEUE_OK
        then Some (if r = NX_QUEUE_ERR_FULL then NX_REF_MSG_ERR_FULL else NX_REF_MSG_ERR_PARAM,
               w1\<lparr> rw_msgs := (rw_msgs w)(msg \<mapsto> m1\<lparr> rm_refcount := (rm_refcount m1 + 2 ^ 64 - 1) mod 2 ^ 64 \<rparr>) \<rparr>)
        else Some (NX_REF_MSG_OK, w1\<lparr> rw_msgs := (rw_msgs w)(msg \<mapsto> m1) \<rparr>) })"

definition nx_ref_msg_release ::
  "('e, 'd) ref_world \<Rightarrow> nat \<Rightarrow> (nx_ref_msg_ret \<times> ('e, 'd) ref_world) option" where
  "nx_ref_msg_release w msg =
     (if msg = 0 then Some (NX_REF_MSG_ERR_PARAM, w)
      else do {
        m \<leftarrow> rw_msgs w msg;
        if rm_refcount m = 0 then Some (NX_REF_MSG_ERR_STATE, w)
        else
          let m1 = m\<lparr> rm_refcount := rm_refcount m - 1 \<rparr>;
              w1 = w\<lparr> rw_msgs := (rw_msgs w)(msg \<mapsto> m1) \<rparr>
          in if rm_refcount m1 = 0
             then do {
               p \<leftarrow> rw_pools w1 (rm_pool m1);
               (_, pp, e) \<leftarrow> nx_tiered_mem_pool_free (Some p) msg (rw_env w1);
               Some (NX_REF_MSG_OK, w1\<lparr> rw_pools := (rw_pools w1)(rm_pool m1 := pp), rw_env := e \<rparr>) }
             else Some (NX_REF_MSG_OK, w1) })"

text \<open>
  The loop over the NULL-terminated array: running past the end of the array is \<open>None\<close>. The state is the index, the
  two counters and the first failing index.
\<close>

fun publish_loop ::
  "('e, 'd) ref_world \<Rightarrow> nat \<Rightarrow> nat list \<Rightarrow> nat \<Rightarrow> nat \<Rightarrow> nat \<Rightarrow> nat option \<Rightarrow>
   ((nat \<times> nat \<times> nat option) \<times> ('e, 'd) ref_world) option" where
  "publish_loop w msg [] i tot delivered fail = None"
| "publish_loop w msg (q # qs) i tot delivered fail =
     (if q = 0 then Some ((tot, delivered, fail), w)
      else do {
        (r, w1) \<leftarrow> nx_ref_msg_publish w msg q;
        if r = NX_REF_MSG_OK then publish_loop w1 msg qs (i + 1) (tot + 1) (delivered + 1) fail
        else publish_loop w1 msg qs (i + 1) (tot + 1) delivered (if fail = None then Some i else fail) })"

text \<open>The result holds the return code and what is stored to \<open>*out_delivered\<close> and \<open>*out_first_failed\<close>.\<close>

definition nx_ref_msg_publish_multi ::
  "('e, 'd) ref_world \<Rightarrow> nat \<Rightarrow> nat list option \<Rightarrow>
   ((nx_ref_msg_ret \<times> (nat \<times> nat) option) \<times> ('e, 'd) ref_world) option" where
  "nx_ref_msg_publish_multi w msg queues =
     (case queues of
        None \<Rightarrow> Some ((NX_REF_MSG_ERR_PARAM, None), w)
      | Some qs \<Rightarrow>
          if msg = 0 then Some ((NX_REF_MSG_ERR_PARAM, None), w)
          else do {
            ((tot, delivered, fail), w1) \<leftarrow> publish_loop w msg qs 0 0 0 None;
            let out = (delivered, case fail of None \<Rightarrow> tot | Some i \<Rightarrow> i);
            Some ((if delivered = tot then NX_REF_MSG_OK
                   else if delivered = 0 then NX_REF_MSG_ERR_FULL else NX_REF_MSG_PARTIAL, Some out), w1) })"

definition nx_ref_msg_data :: "nat \<Rightarrow> nat" where
  "nx_ref_msg_data msg = (if msg \<noteq> 0 then msg + REF_MSG_SIZEOF else 0)"

definition nx_ref_msg_len :: "('e, 'd) ref_world \<Rightarrow> nat \<Rightarrow> nat option" where
  "nx_ref_msg_len w msg = (if msg \<noteq> 0 then map_option rm_len (rw_msgs w msg) else Some 0)"

definition nx_ref_msg_shrink ::
  "('e, 'd) ref_world \<Rightarrow> nat \<Rightarrow> nat \<Rightarrow> (nx_ref_msg_ret \<times> ('e, 'd) ref_world) option" where
  "nx_ref_msg_shrink w msg new_len =
     (if msg = 0 then Some (NX_REF_MSG_ERR_PARAM, w)
      else do {
        m \<leftarrow> rw_msgs w msg;
        if new_len > rm_len m then Some (NX_REF_MSG_ERR_PARAM, w)
        else Some (NX_REF_MSG_OK, w\<lparr> rw_msgs := (rw_msgs w)(msg \<mapsto> m\<lparr> rm_len := new_len \<rparr>) \<rparr>) })"

text \<open>
  What a consumer does, \<open>nx_queue_pop(q, &msg)\<close> into a pointer variable: the pointer it obtains, if any.
\<close>

definition ref_msg_consume :: "('e, 'd) ref_world \<Rightarrow> nat \<Rightarrow> (nat option \<times> ('e, 'd) ref_world) option" where
  "ref_msg_consume w q = do {
     qo \<leftarrow> rw_queues w q;
     ((r, out), qp) \<leftarrow> nx_queue_pop (Some qo) (Some (replicate 8 0));
     let w1 = w\<lparr> rw_queues := (rw_queues w)(q := qp) \<rparr>;
     if r = NX_QUEUE_OK then do { xs \<leftarrow> out; a \<leftarrow> ptr_of_bytes xs; Some (Some a, w1) }
     else Some (None, w1) }"

text \<open>
  Access through the data pointer. Writing needs a live block large enough for what is written, whose size in bytes is
  \<open>dsize d\<close>; reading needs one whose payload was written.
\<close>

definition msg_put :: "('d \<Rightarrow> nat) \<Rightarrow> ('e, 'd) ref_world \<Rightarrow> nat \<Rightarrow> 'd \<Rightarrow> ('e, 'd) ref_world option" where
  "msg_put dsize w a d = do {
     m \<leftarrow> rw_msgs w a;
     if rm_refcount m = 0 \<or> rm_len m < dsize d then None
     else Some (w\<lparr> rw_msgs := (rw_msgs w)(a \<mapsto> m\<lparr> rm_data := Some d \<rparr>) \<rparr>) }"

definition msg_load :: "('e, 'd) ref_world \<Rightarrow> nat \<Rightarrow> 'd option" where
  "msg_load w a = do { m \<leftarrow> rw_msgs w a; if rm_refcount m = 0 then None else rm_data m }"

section \<open>Pointers as bytes\<close>

lemma ptr_bytes_get: "nx_bytes_get_le64 (ptr_bytes a) = Some (of_nat a)"
  unfolding ptr_bytes_def by (rule get_set_le64[of "replicate 8 0"]) (simp add: nx_bytes_set_le64_def mem_write_def)

lemma length_ptr_bytes [simp]: "length (ptr_bytes a) = 8"
  by (simp add: ptr_bytes_def nx_bytes_set_le64_def mem_write_def)

lemma ptr_of_ptr_bytes: "a < 2 ^ 64 \<Longrightarrow> ptr_of_bytes (ptr_bytes a) = Some a"
  by (simp add: ptr_of_bytes_def ptr_bytes_get take_bit_nat_eq_self unsigned_of_nat)

lemma ptr_bytes_inj: "a < 2 ^ 64 \<Longrightarrow> b < 2 ^ 64 \<Longrightarrow> ptr_bytes a = ptr_bytes b \<longleftrightarrow> a = b"
  using ptr_of_ptr_bytes by (metis option.inject)

section \<open>Counting references\<close>

definition queued_in :: "nx_queue \<Rightarrow> nat \<Rightarrow> nat" where
  "queued_in q a = count_list (map ptr_of_bytes (queue_items q)) (Some a)"

definition queued :: "('e, 'd) ref_world \<Rightarrow> nat \<Rightarrow> nat" where
  "queued w a = (\<Sum>q \<in> dom (rw_queues w). queued_in (the (rw_queues w q)) a)"

text \<open>
  The invariant: \<open>H a\<close> references to the message at \<open>a\<close> are held by clients.
\<close>

definition ref_queues_ok :: "('e, 'd) ref_world \<Rightarrow> bool" where
  "ref_queues_ok w \<longleftrightarrow> finite (dom (rw_queues w)) \<and>
     (\<forall>q qo. rw_queues w q = Some qo \<longrightarrow> (\<exists>cap. queue_like 8 cap NX_QUEUE_ON_FULL_REJECT qo) \<and>
        (\<forall>x \<in> set (queue_items qo). \<exists>a < 2 ^ 64. x = ptr_bytes a))"

definition ref_pools_ok :: "('e, 'd) ref_world \<Rightarrow> bool" where
  "ref_pools_ok w \<longleftrightarrow>
     (\<forall>i p. rw_pools w i = Some p \<longrightarrow> pool_wf p) \<and>
     (\<forall>i j p p'. rw_pools w i = Some p \<longrightarrow> rw_pools w j = Some p' \<longrightarrow> i \<noteq> j \<longrightarrow> pool_blocks p \<inter> pool_blocks p' = {})"

definition ref_counts_ok :: "('e, 'd) ref_world \<Rightarrow> (nat \<Rightarrow> nat) \<Rightarrow> bool" where
  "ref_counts_ok w H \<longleftrightarrow>
     (\<forall>a. case rw_msgs w a of
        None \<Rightarrow> H a + queued w a = 0
      | Some m \<Rightarrow> rm_refcount m = H a + queued w a \<and> rm_refcount m < 2 ^ 64)"

definition ref_live_ok :: "('e, 'd) ref_world \<Rightarrow> bool" where
  "ref_live_ok w \<longleftrightarrow>
     (\<forall>i p a. rw_pools w i = Some p \<longrightarrow> a \<in> pool_live p \<longrightarrow>
        (\<exists>m. rw_msgs w a = Some m \<and> rm_pool m = i \<and> 0 < rm_refcount m)) \<and>
     (\<forall>a m. rw_msgs w a = Some m \<longrightarrow> 0 < rm_refcount m \<longrightarrow>
        (\<exists>p. rw_pools w (rm_pool m) = Some p \<and> a \<in> pool_live p \<and> REF_MSG_SIZEOF + rm_len m \<le> pool_size p a))"

definition ref_inv :: "('e, 'd) ref_world \<Rightarrow> (nat \<Rightarrow> nat) \<Rightarrow> bool" where
  "ref_inv w H \<longleftrightarrow> ref_queues_ok w \<and> ref_pools_ok w \<and> ref_counts_ok w H \<and> ref_live_ok w"

lemma queued_update:
  assumes "finite (dom (rw_queues w))" "rw_queues w q = Some qo"
  shows "queued (w\<lparr> rw_queues := (rw_queues w)(q := Some qo') \<rparr>) a + queued_in qo a = queued w a + queued_in qo' a"
proof -
  let ?D = "dom (rw_queues w)"
  have q: "q \<in> ?D" using assms(2) by auto
  have "dom ((rw_queues w)(q := Some qo')) = ?D" using q by auto
  moreover have "(\<Sum>i \<in> ?D - {q}. queued_in (the (((rw_queues w)(q := Some qo')) i)) a) =
      (\<Sum>i \<in> ?D - {q}. queued_in (the (rw_queues w i)) a)"
    by (rule sum.cong) auto
  ultimately show ?thesis
    using sum.remove[OF assms(1) q, of "\<lambda>i. queued_in (the (rw_queues w i)) a"]
      sum.remove[OF assms(1) q, of "\<lambda>i. queued_in (the (((rw_queues w)(q := Some qo')) i)) a"] assms(2)
    by (simp add: queued_def)
qed

lemma queued_other_fields [simp]:
  "queued (w\<lparr> rw_pools := x \<rparr>) = queued w" "queued (w\<lparr> rw_msgs := y \<rparr>) = queued w"
  "queued (w\<lparr> rw_env := z \<rparr>) = queued w"
  by (simp_all add: queued_def fun_eq_iff)

text \<open>A referenced message is a live block below \<open>2 ^ 64\<close>.\<close>

lemma ref_inv_live:
  assumes "ref_inv w H" "0 < H a + queued w a"
  obtains m p where "rw_msgs w a = Some m" "rm_refcount m = H a + queued w a" "rm_refcount m < 2 ^ 64"
    "rw_pools w (rm_pool m) = Some p" "pool_wf p" "a \<in> pool_live p" "0 < a" "a < 2 ^ 64"
proof -
  obtain m where m: "rw_msgs w a = Some m" "rm_refcount m = H a + queued w a" "rm_refcount m < 2 ^ 64"
    using assms unfolding ref_inv_def ref_counts_ok_def
    by (metis (mono_tags, lifting) not_less_zero option.case_eq_if option.collapse)
  then obtain p where p: "rw_pools w (rm_pool m) = Some p" "a \<in> pool_live p"
    using assms by (fastforce simp: ref_inv_def ref_live_ok_def)
  then have "pool_wf p" using assms(1) by (auto simp: ref_inv_def ref_pools_ok_def)
  with p m that tiered.block_range tiered.live_blocks show ?thesis by blast
qed

section \<open>Every operation keeps the invariant\<close>

lemma ref_counts_same:
  assumes "ref_counts_ok w H" "rw_msgs w' = rw_msgs w" "queued w' = queued w"
  shows "ref_counts_ok w' H"
  using assms(1) unfolding ref_counts_ok_def assms(2,3) .

lemma ref_counts_update:
  assumes "ref_counts_ok w H" and "rw_msgs w' = (rw_msgs w)(a \<mapsto> m)"
    and m: "rm_refcount m = H' a + queued w' a" "rm_refcount m < 2 ^ 64"
    and others: "\<And>b. b \<noteq> a \<Longrightarrow> H' b + queued w' b = H b + queued w b"
  shows "ref_counts_ok w' H'"
proof -
  have "case rw_msgs w' b of None \<Rightarrow> H' b + queued w' b = 0
      | Some m \<Rightarrow> rm_refcount m = H' b + queued w' b \<and> rm_refcount m < 2 ^ 64" for b
  proof (cases "b = a")
    case False
    have "case rw_msgs w b of None \<Rightarrow> H b + queued w b = 0
        | Some m \<Rightarrow> rm_refcount m = H b + queued w b \<and> rm_refcount m < 2 ^ 64"
      using assms(1) by (simp add: ref_counts_ok_def)
    then show ?thesis unfolding others[OF False] using False by (simp add: assms(2))
  qed (use m in \<open>simp add: assms(2)\<close>)
  then show ?thesis unfolding ref_counts_ok_def ..
qed

text \<open>Changing the count of one referenced message along with its references.\<close>

lemma ref_inv_recount:
  assumes inv: "ref_inv w H" and m: "rw_msgs w a = Some m" "0 < rm_refcount m"
    and same: "rw_pools w' = rw_pools w" "rw_msgs w' = (rw_msgs w)(a \<mapsto> m\<lparr> rm_refcount := n \<rparr>)" "ref_queues_ok w'"
    and n: "n = H' a + queued w' a" "0 < n" "n < 2 ^ 64"
    and others: "\<And>b. b \<noteq> a \<Longrightarrow> H' b + queued w' b = H b + queued w b"
  shows "ref_inv w' H'"
proof -
  have "ref_counts_ok w' H'"
    by (rule ref_counts_update[OF _ same(2)]) (use inv n others in \<open>auto simp: ref_inv_def\<close>)
  moreover have "ref_live_ok w'"
    using inv m n(2) unfolding ref_inv_def ref_live_ok_def same(1,2) by (fastforce split: if_splits)
  ultimately show ?thesis
    using inv same(1,3) by (simp add: ref_inv_def ref_pools_ok_def)
qed

lemma ref_queues_ok_update:
  assumes "ref_queues_ok w" "rw_queues w q = Some qo" "queue_like 8 cap NX_QUEUE_ON_FULL_REJECT q'"
    and "\<And>x. x \<in> set (queue_items q') \<Longrightarrow> x \<in> set (queue_items qo) \<or> (\<exists>a < 2 ^ 64. x = ptr_bytes a)"
    and "rw_queues w' = (rw_queues w)(q := Some q')"
  shows "ref_queues_ok w'"
proof -
  have "\<exists>a < 2 ^ 64. x = ptr_bytes a" if "x \<in> set (queue_items q')" for x
    using assms(1,2) assms(4)[OF that] unfolding ref_queues_ok_def by blast
  then show ?thesis
    using assms(1,3) unfolding ref_queues_ok_def assms(5) by auto
qed

lemma ref_queue_like:
  assumes "ref_inv w H" "rw_queues w q = Some qo"
  obtains cap where "queue_like 8 cap NX_QUEUE_ON_FULL_REJECT qo"
proof -
  have "\<exists>cap. queue_like 8 cap NX_QUEUE_ON_FULL_REJECT qo"
    using assms unfolding ref_inv_def ref_queues_ok_def by blast
  with that show ?thesis by blast
qed

lemma publish_spec:
  assumes inv: "ref_inv w H" and held: "0 < H a" and q: "q \<noteq> 0" "rw_queues w q = Some qo"
    and bound: "H a + queued w a + 1 < 2 ^ 64"
  shows "\<exists>r w'. nx_ref_msg_publish w a q = Some (r, w') \<and> ref_inv w' H \<and> rw_pools w' = rw_pools w \<and>
           dom (rw_queues w') = dom (rw_queues w) \<and> rw_env w' = rw_env w \<and>
           (if q_count qo < q_capacity qo then r = NX_REF_MSG_OK \<and> queued w' = (queued w)(a := queued w a + 1)
            else r = NX_REF_MSG_ERR_FULL \<and> queued w' = queued w \<and> rw_msgs w' = rw_msgs w)"
proof -
  have ref: "0 < H a + queued w a" using held by simp
  obtain m p where m: "rw_msgs w a = Some m" "rm_refcount m = H a + queued w a" "rm_refcount m < 2 ^ 64"
    and p: "rw_pools w (rm_pool m) = Some p" "a \<in> pool_live p" "0 < a" "a < 2 ^ 64"
    by (rule ref_inv_live[OF inv ref])
  have qok: "ref_queues_ok w" and fin: "finite (dom (rw_queues w))" using inv by (auto simp: ref_inv_def ref_queues_ok_def)
  obtain cap where like: "queue_like 8 cap NX_QUEUE_ON_FULL_REJECT qo" by (rule ref_queue_like[OF inv q(2)])
  have cap: "q_capacity qo = cap" using like by (simp add: queue_like_def)
  have elem: "length (ptr_bytes a) = 8" by simp
  have cnt: "queued (w\<lparr> rw_queues := (rw_queues w)(q := Some q') \<rparr>) b =
      queued w b + (if r = NX_QUEUE_OK \<and> b = a then 1 else 0)"
    if "nx_queue_push (Some qo) (Some (ptr_bytes a)) = Some (r, Some q')" for q' r b
    using queued_update[OF fin q(2), of q' b] ptr_of_ptr_bytes[OF p(4)]
      reject_queue.push_count[OF like elem that, of ptr_of_bytes "Some b"]
    by (auto simp: queued_in_def)
  have doms: "dom ((rw_queues w)(q := Some q')) = dom (rw_queues w)" for q' using q(2) by auto
  consider (stored) q' where "nx_queue_push (Some qo) (Some (ptr_bytes a)) = Some (NX_QUEUE_OK, Some q')"
      "queue_like 8 cap NX_QUEUE_ON_FULL_REJECT q'" "queue_items q' = queue_items qo @ [ptr_bytes a]"
      "length (queue_items qo) < cap"
    | (full) q' where "nx_queue_push (Some qo) (Some (ptr_bytes a)) = Some (NX_QUEUE_ERR_FULL, Some q')"
      "queue_like 8 cap NX_QUEUE_ON_FULL_REJECT q'" "queue_items q' = queue_items qo" "cap \<le> length (queue_items qo)"
    by (rule reject_queue.push_cases[OF like elem])
  then show ?thesis
  proof cases
    case (stored q')
    define w' where "w' = w\<lparr> rw_queues := (rw_queues w)(q := Some q'),
        rw_msgs := (rw_msgs w)(a \<mapsto> m\<lparr> rm_refcount := rm_refcount m + 1 \<rparr>) \<rparr>"
    have run: "nx_ref_msg_publish w a q = Some (NX_REF_MSG_OK, w')"
      using p(3) q m stored(1) bound by (simp add: nx_ref_msg_publish_def Let_def w'_def)
    have queued': "queued w' b = queued w b + (if b = a then 1 else 0)" for b
      using cnt[OF stored(1), of b] by (simp add: w'_def queued_def)
    have "ref_queues_ok w'"
      by (rule ref_queues_ok_update[OF qok q(2) stored(2)]) (use stored(3) p(4) in \<open>auto simp: w'_def\<close>)
    then have "ref_inv w' H"
      by (rule ref_inv_recount[OF inv m(1), where n = "rm_refcount m + 1", rotated 3])
        (use m(2) bound ref queued' in \<open>auto simp: w'_def\<close>)
    then show ?thesis
      using run stored(4) cap doms queued' by (intro exI[of _ NX_REF_MSG_OK] exI[of _ w']) (auto simp: w'_def fun_eq_iff)
  next
    case (full q')
    define w' where "w' = w\<lparr> rw_queues := (rw_queues w)(q := Some q'),
        rw_msgs := (rw_msgs w)(a \<mapsto> m\<lparr> rm_refcount := rm_refcount m \<rparr>) \<rparr>"
    have same: "rw_msgs w' = rw_msgs w" using m(1) by (auto simp: w'_def)
    have run: "nx_ref_msg_publish w a q = Some (NX_REF_MSG_ERR_FULL, w')"
      using p(3) q m full(1) bound by (simp add: nx_ref_msg_publish_def Let_def w'_def)
    have queued': "queued w' b = queued w b" for b
      using cnt[OF full(1), of b] by (simp add: w'_def queued_def)
    have "ref_queues_ok w'"
      by (rule ref_queues_ok_update[OF qok q(2) full(2)]) (use full(3) in \<open>auto simp: w'_def\<close>)
    then have "ref_inv w' H"
      by (rule ref_inv_recount[OF inv m(1), where n = "rm_refcount m", rotated 3])
        (use m(2,3) ref queued' in \<open>auto simp: w'_def\<close>)
    then show ?thesis
      using run full(4) cap doms queued' same
      by (intro exI[of _ NX_REF_MSG_ERR_FULL] exI[of _ w']) (auto simp: w'_def fun_eq_iff)
  qed
qed

lemma consume_spec:
  assumes inv: "ref_inv w H" and q: "rw_queues w q = Some qo"
  shows "if q_count qo = 0 then \<exists>w'. ref_msg_consume w q = Some (None, w') \<and> ref_inv w' H \<and> queued w' = queued w
         else \<exists>a w'. ref_msg_consume w q = Some (Some a, w') \<and> ref_inv w' (H(a := H a + 1)) \<and>
                queued w = (queued w')(a := queued w' a + 1)"
proof -
  have qok: "ref_queues_ok w" and fin: "finite (dom (rw_queues w))" using inv by (auto simp: ref_inv_def ref_queues_ok_def)
  obtain cap where like: "queue_like 8 cap NX_QUEUE_ON_FULL_REJECT qo" by (rule ref_queue_like[OF inv q])
  have elem: "length (replicate 8 (0 :: u8)) = 8" by simp
  obtain q' out where pop: "nx_queue_pop (Some qo) (Some (replicate 8 0))
      = Some ((if queue_items qo = [] then NX_QUEUE_ERR_EMPTY else NX_QUEUE_OK, out), Some q')"
    and q': "queue_like 8 cap NX_QUEUE_ON_FULL_REJECT q'" "queue_items q' = tl (queue_items qo)"
    and out: "queue_items qo \<noteq> [] \<longrightarrow> out = Some (hd (queue_items qo))"
    using reject_queue.pop_law[OF like elem] by blast
  define w' where "w' = w\<lparr> rw_queues := (rw_queues w)(q := Some q') \<rparr>"
  have qok': "ref_queues_ok w'"
    by (rule ref_queues_ok_update[OF qok q q'(1)]) (use q'(2) in \<open>cases "queue_items qo"; auto\<close>, simp add: w'_def)
  have upd: "queued w' b + queued_in qo b = queued w b + queued_in q' b" for b
    unfolding w'_def by (rule queued_update[OF fin q])
  show ?thesis
  proof (cases qo rule: queue_items_cases)
    case empty
    have "queued_in q' = queued_in qo" using empty q'(2) by (simp add: queued_in_def fun_eq_iff)
    then have queued': "queued w' = queued w" using upd by (simp add: fun_eq_iff)
    moreover have "ref_inv w' H"
    proof -
      have rc: "ref_counts_ok w H" using inv by (simp add: ref_inv_def)
      have "rw_msgs w' = rw_msgs w" by (simp add: w'_def)
      from ref_counts_same[OF rc this queued'] show ?thesis using inv qok' by (simp add: ref_inv_def ref_pools_ok_def ref_live_ok_def w'_def)
    qed
    moreover have "ref_msg_consume w q = Some (None, w')"
      using pop q empty by (simp add: ref_msg_consume_def Let_def w'_def)
    ultimately show ?thesis using empty(2) by auto
  next
    case (front y ys)
    obtain a where a: "y = ptr_bytes a" "a < 2 ^ 64"
      using qok q front(1) unfolding ref_queues_ok_def by (metis list.set_intros(1))
    have "queued_in qo b = queued_in q' b + (if b = a then 1 else 0)" for b
      using front(1) q'(2) a ptr_of_ptr_bytes[OF a(2)] by (simp add: queued_in_def)
    then have queued': "queued w b = queued w' b + (if b = a then 1 else 0)" for b using upd[of b] by simp
    have ref: "0 < H a + queued w a" using queued'[of a] by simp
    obtain m where m: "rw_msgs w a = Some m" "rm_refcount m = H a + queued w a" "rm_refcount m < 2 ^ 64"
      by (rule ref_inv_live[OF inv ref])
    have same: "rw_msgs w' = (rw_msgs w)(a \<mapsto> m\<lparr> rm_refcount := rm_refcount m \<rparr>)" "rw_pools w' = rw_pools w"
      using m(1) by (auto simp: w'_def)
    have "ref_inv w' (H(a := H a + 1))"
      by (rule ref_inv_recount[OF inv m(1) _ same(2,1) qok'])
        (use m(2,3) ref queued' in auto)
    moreover have "ref_msg_consume w q = Some (Some a, w')"
      using pop q front a ptr_of_ptr_bytes[OF a(2)] out by (simp add: ref_msg_consume_def Let_def w'_def)
    moreover have "queued w = (queued w')(a := queued w' a + 1)" using queued' by (simp add: fun_eq_iff)
    ultimately show ?thesis using front(2) by auto
  qed
qed

lemma release_spec:
  assumes inv: "ref_inv w H" and held: "0 < H a"
  shows "\<exists>w'. nx_ref_msg_release w a = Some (NX_REF_MSG_OK, w') \<and> ref_inv w' (H(a := H a - 1)) \<and>
           rw_queues w' = rw_queues w \<and> dom (rw_pools w') = dom (rw_pools w) \<and>
           (\<forall>i p p'. rw_pools w i = Some p \<longrightarrow> rw_pools w' i = Some p' \<longrightarrow>
              pool_live p' = pool_live p - (if H a + queued w a = 1 then {a} else {}))"
proof -
  have ref: "0 < H a + queued w a" using held by simp
  obtain m p where m: "rw_msgs w a = Some m" "rm_refcount m = H a + queued w a" "rm_refcount m < 2 ^ 64"
    and p: "rw_pools w (rm_pool m) = Some p" "pool_wf p" "a \<in> pool_live p" "0 < a" "a < 2 ^ 64"
    by (rule ref_inv_live[OF inv ref])
  have qok: "ref_queues_ok w" using inv by (simp add: ref_inv_def)
  show ?thesis
  proof (cases "H a + queued w a = 1")
    case False
    define w' where "w' = w\<lparr> rw_msgs := (rw_msgs w)(a \<mapsto> m\<lparr> rm_refcount := rm_refcount m - 1 \<rparr>) \<rparr>"
    have many: "\<not> H a + queued w a \<le> Suc 0" using ref False by linarith
    have "nx_ref_msg_release w a = Some (NX_REF_MSG_OK, w')"
      using p(4) m(1,2) many ref by (simp add: nx_ref_msg_release_def Let_def w'_def)
    moreover have "ref_queues_ok w'" using qok by (simp add: ref_queues_ok_def w'_def)
    then have "ref_inv w' (H(a := H a - 1))"
      by (rule ref_inv_recount[OF inv m(1), where n = "rm_refcount m - 1", rotated 3])
        (use m(2,3) ref False held in \<open>auto simp: w'_def\<close>)
    ultimately show ?thesis using False by (auto simp: w'_def)
  next
    case True
    then have one: "H a = 1" "queued w a = 0" using held by auto
    obtain r p' e' where free: "nx_tiered_mem_pool_free (Some p) a (rw_env w) = Some (r, Some p', e')"
      and p': "pool_wf p'" "pool_size p' = pool_size p" "pool_blocks p' = pool_blocks p"
        "pool_live p' = pool_live p - {a}"
      using tiered.free_law[OF p(2), of a "rw_env w"] p(3) by auto
    define w' where "w' = w\<lparr> rw_msgs := (rw_msgs w)(a \<mapsto> m\<lparr> rm_refcount := 0 \<rparr>),
        rw_pools := (rw_pools w)(rm_pool m := Some p'), rw_env := e' \<rparr>"
    have run: "nx_ref_msg_release w a = Some (NX_REF_MSG_OK, w')"
      using p(1,4) m(1,2) True free by (simp add: nx_ref_msg_release_def Let_def w'_def)
    have alone: "a \<notin> pool_live p2" if "rw_pools w i = Some p2" "i \<noteq> rm_pool m" for i p2
      using inv that m(1) by (fastforce simp: ref_inv_def ref_live_ok_def)
    have "ref_pools_ok w'"
      using inv p' p(1) unfolding ref_inv_def ref_pools_ok_def w'_def by (auto split: if_splits)
    moreover have "ref_counts_ok w' (H(a := H a - 1))"
      using inv one by (intro ref_counts_update[of w H w' a]) (auto simp: ref_inv_def w'_def queued_def)
    moreover have "ref_live_ok w'"
      using inv p' p(1) alone unfolding ref_inv_def ref_live_ok_def w'_def by (fastforce split: if_splits)
    moreover have "ref_queues_ok w'" using qok by (simp add: ref_queues_ok_def w'_def)
    ultimately have "ref_inv w' (H(a := H a - 1))" by (simp add: ref_inv_def)
    moreover have "pool_live p2' = pool_live p2 - {a}" if "rw_pools w i = Some p2" "rw_pools w' i = Some p2'" for i p2 p2'
      using that alone p' p(1) by (cases "i = rm_pool m") (auto simp: w'_def)
    moreover have "dom (rw_pools w') = dom (rw_pools w)" "rw_queues w' = rw_queues w" using p(1) by (auto simp: w'_def)
    ultimately show ?thesis using run True by auto
  qed
qed

lemma alloc_spec:
  assumes inv: "ref_inv w H" and pool: "pool \<noteq> 0" "rw_pools w pool = Some p" and len: "0 < len" "REF_MSG_SIZEOF + len < 2 ^ 64"
  shows "\<exists>a w'. nx_ref_msg_alloc w pool len = Some (a, w') \<and> rw_queues w' = rw_queues w \<and>
           dom (rw_pools w') = dom (rw_pools w) \<and>
           (if a = 0 then ref_inv w' H else H a = 0 \<and> queued w a = 0 \<and> ref_inv w' (H(a := 1)))"
proof -
  have wf: "pool_wf p" using inv pool(2) by (auto simp: ref_inv_def ref_pools_ok_def)
  obtain a p' e' where alloc: "nx_tiered_mem_pool_alloc (Some p) (REF_MSG_SIZEOF + len) (rw_env w) = Some (a, Some p', e')"
    and p': "pool_wf p'" "pool_size p' = pool_size p" "pool_blocks p' = pool_blocks p"
      "if a = 0 then pool_live p' = pool_live p
       else a \<notin> pool_live p \<and> pool_live p' = insert a (pool_live p) \<and> REF_MSG_SIZEOF + len \<le> pool_size p a"
    using tiered.alloc_law[OF wf, of "REF_MSG_SIZEOF + len" "rw_env w"] by blast
  define w1 where "w1 = w\<lparr> rw_pools := (rw_pools w)(pool := Some p'), rw_env := e' \<rparr>"
  have qok: "ref_queues_ok w1" using inv by (simp add: ref_inv_def ref_queues_ok_def w1_def)
  have pok: "ref_pools_ok w1"
    using inv p'(1,3) pool(2) unfolding ref_inv_def ref_pools_ok_def w1_def by (auto split: if_splits)
  have doms: "dom (rw_pools w1) = dom (rw_pools w)" using pool(2) by (auto simp: w1_def)
  show ?thesis
  proof (cases "a = 0")
    case True
    have "ref_live_ok w1"
      using inv p' pool(2) True unfolding ref_inv_def ref_live_ok_def w1_def by (fastforce split: if_splits)
    moreover have "ref_counts_ok w1 H"
    proof -
      have rc: "ref_counts_ok w H" using inv by (simp add: ref_inv_def)
      have "rw_msgs w1 = rw_msgs w" "queued w1 = queued w" by (simp_all add: w1_def queued_def fun_eq_iff)
      then show ?thesis by (rule ref_counts_same[OF rc])
    qed
    ultimately show ?thesis
      using qok pok doms pool len alloc True
      by (intro exI[of _ 0] exI[of _ w1]) (simp add: nx_ref_msg_alloc_def Let_def ref_inv_def w1_def)
  next
    case False
    then have new: "a \<notin> pool_live p" "pool_live p' = insert a (pool_live p)" "REF_MSG_SIZEOF + len \<le> pool_size p a"
      using p'(4) by auto
    have unref: "H a + queued w a = 0"
    proof (rule ccontr)
      assume "H a + queued w a \<noteq> 0"
      then have ref: "0 < H a + queued w a" by simp
      obtain m p2 where m: "rw_msgs w a = Some m" "rw_pools w (rm_pool m) = Some p2" "pool_wf p2" "a \<in> pool_live p2"
        by (rule ref_inv_live[OF inv ref])
      have "a \<in> pool_blocks p2" "a \<in> pool_blocks p"
        using tiered.live_blocks[OF m(3)] m(4) tiered.live_blocks[OF p'(1)] new(2) p'(3) by auto
      then have "rm_pool m = pool"
        using inv m(2) pool(2) by (fastforce simp: ref_inv_def ref_pools_ok_def)
      with m pool(2) new(1) show False by simp
    qed
    define w' where "w' = w1\<lparr> rw_msgs := (rw_msgs w)(a \<mapsto>
        \<lparr> rm_pool = pool, rm_len = len, rm_refcount = 1, rm_data = None \<rparr>) \<rparr>"
    have run: "nx_ref_msg_alloc w pool len = Some (a, w')"
      using False pool len alloc by (simp add: nx_ref_msg_alloc_def Let_def w'_def w1_def)
    have elsewhere: "a \<notin> pool_live p2" if "rw_pools w i = Some p2" "i \<noteq> pool" for i p2
    proof -
      have "pool_wf p2" using inv that(1) by (auto simp: ref_inv_def ref_pools_ok_def)
      moreover have "a \<in> pool_blocks p" using tiered.live_blocks[OF p'(1)] new(2) p'(3) by auto
      ultimately show ?thesis
        using inv that pool(2) tiered.live_blocks unfolding ref_inv_def ref_pools_ok_def by blast
    qed
    have "ref_live_ok w'"
      using inv p'(2) pool(2) new elsewhere unfolding ref_inv_def ref_live_ok_def w'_def w1_def
      by (fastforce split: if_splits)
    moreover have "ref_counts_ok w' (H(a := 1))"
      using inv unref by (intro ref_counts_update[of w H w' a]) (auto simp: ref_inv_def w'_def w1_def queued_def)
    moreover have "ref_queues_ok w'" "ref_pools_ok w'" using qok pok by (simp_all add: w'_def ref_queues_ok_def ref_pools_ok_def)
    ultimately show ?thesis
      using run doms unref False by (intro exI[of _ a] exI[of _ w']) (simp add: ref_inv_def w'_def w1_def)
  qed
qed

lemma shrink_spec:
  assumes inv: "ref_inv w H" and held: "0 < H a"
  shows "\<exists>r w'. nx_ref_msg_shrink w a n = Some (r, w') \<and> ref_inv w' H"
proof -
  have ref: "0 < H a + queued w a" using held by simp
  obtain m p where m: "rw_msgs w a = Some m" "rm_refcount m = H a + queued w a" "rm_refcount m < 2 ^ 64"
    and p: "rw_pools w (rm_pool m) = Some p" "0 < a"
    by (rule ref_inv_live[OF inv ref])
  show ?thesis
  proof (cases "n > rm_len m")
    case True
    with m p inv show ?thesis by (simp add: nx_ref_msg_shrink_def)
  next
    case False
    define w' where "w' = w\<lparr> rw_msgs := (rw_msgs w)(a \<mapsto> m\<lparr> rm_len := n \<rparr>) \<rparr>"
    have "ref_counts_ok w' H"
      by (rule ref_counts_update[of w H w' a "m\<lparr> rm_len := n \<rparr>"])
        (use inv m in \<open>auto simp: ref_inv_def w'_def queued_def\<close>)
    moreover have "ref_live_ok w'"
      using inv m(1) False unfolding ref_inv_def ref_live_ok_def w'_def by (fastforce split: if_splits)
    moreover have "ref_queues_ok w'" "ref_pools_ok w'"
      using inv by (simp_all add: ref_inv_def w'_def ref_queues_ok_def ref_pools_ok_def)
    ultimately show ?thesis
      using m p False by (simp add: nx_ref_msg_shrink_def ref_inv_def w'_def)
  qed
qed

text \<open>Publishing to the queues \<open>qs\<close>, all of them known, up to the terminating NULL.\<close>

lemma publish_loop_spec:
  "ref_inv w H \<Longrightarrow> 0 < H a \<Longrightarrow> \<forall>q \<in> set qs. q \<noteq> 0 \<and> q \<in> dom (rw_queues w) \<Longrightarrow>
   H a + queued w a + length qs < 2 ^ 64 \<Longrightarrow>
   \<exists>d ff w'. publish_loop w a (qs @ 0 # rest) i n del f = Some ((n + length qs, del + d, ff), w') \<and> ref_inv w' H \<and>
     rw_pools w' = rw_pools w \<and> d \<le> length qs \<and> queued w' = (queued w)(a := queued w a + d) \<and>
     (if f \<noteq> None \<or> d = length qs then ff = f else \<exists>j < length qs. ff = Some (i + j))"
proof (induction qs arbitrary: w i n del f)
  case (Cons q qs)
  obtain qo where q: "q \<noteq> 0" "rw_queues w q = Some qo" using Cons.prems(3) by auto
  have bound: "H a + queued w a + 1 < 2 ^ 64" using Cons.prems(4) by simp
  from publish_spec[OF Cons.prems(1,2) q bound] obtain r w1 where
    pub: "nx_ref_msg_publish w a q = Some (r, w1)" and w1: "ref_inv w1 H" "rw_pools w1 = rw_pools w"
      "dom (rw_queues w1) = dom (rw_queues w)"
    and res: "if q_count qo < q_capacity qo then r = NX_REF_MSG_OK \<and> queued w1 = (queued w)(a := queued w a + 1)
              else r = NX_REF_MSG_ERR_FULL \<and> queued w1 = queued w \<and> rw_msgs w1 = rw_msgs w" by blast
  define ok where "ok = (r = NX_REF_MSG_OK)"
  define f1 where "f1 = (if ok \<or> f \<noteq> None then f else Some i)"
  have q1: "queued w1 = (queued w)(a := queued w a + (if ok then 1 else 0))"
    using res by (auto simp: ok_def split: if_splits)
  have step: "publish_loop w a ((q # qs) @ 0 # rest) i n del f =
      publish_loop w1 a (qs @ 0 # rest) (i + 1) (n + 1) (if ok then del + 1 else del) f1"
    using q pub by (auto simp: ok_def f1_def)
  have "\<forall>q \<in> set qs. q \<noteq> 0 \<and> q \<in> dom (rw_queues w1)" "H a + queued w1 a + length qs < 2 ^ 64"
    using Cons.prems(3,4) w1(3) q1 by auto
  from Cons.IH[OF w1(1) Cons.prems(2) this, of "i + 1" "n + 1" "if ok then del + 1 else del" f1]
  obtain d ff w' where rec: "publish_loop w1 a (qs @ 0 # rest) (i + 1) (n + 1) (if ok then del + 1 else del) f1 =
      Some ((n + 1 + length qs, (if ok then del + 1 else del) + d, ff), w')"
    and w': "ref_inv w' H" "rw_pools w' = rw_pools w1" "d \<le> length qs" "queued w' = (queued w1)(a := queued w1 a + d)"
    and ff: "if f1 \<noteq> None \<or> d = length qs then ff = f1 else \<exists>j < length qs. ff = Some (i + 1 + j)" by blast
  define d' where "d' = (if ok then d + 1 else d)"
  have "if f \<noteq> None \<or> d' = length (q # qs) then ff = f else \<exists>j < length (q # qs). ff = Some (i + j)"
    using ff w'(3) unfolding f1_def d'_def by (fastforce split: if_splits)
  then show ?case
    using step rec w' w1(2) q1
    by (intro exI[of _ d'] exI[of _ ff] exI[of _ w']) (auto simp: d'_def fun_eq_iff)
qed auto

section \<open>Clients\<close>

text \<open>
  The calls clients make, each with the references it needs and the effect it has on the references held. A client
  may call \<open>publish\<close>, \<open>release\<close> and \<open>shrink\<close> on a message it holds a reference to; \<open>consume\<close> and
  \<open>alloc\<close> give it one.
\<close>

inductive ref_step ::
  "('e, 'd) ref_world \<times> (nat \<Rightarrow> nat) \<Rightarrow> ('e, 'd) ref_world \<times> (nat \<Rightarrow> nat) \<Rightarrow> bool" where
  alloc: "pool \<noteq> 0 \<Longrightarrow> pool \<in> dom (rw_pools w) \<Longrightarrow> 0 < len \<Longrightarrow> REF_MSG_SIZEOF + len < 2 ^ 64 \<Longrightarrow>
     nx_ref_msg_alloc w pool len = Some (a, w') \<Longrightarrow> ref_step (w, H) (w', if a = 0 then H else H(a := H a + 1))"
| publish: "0 < H a \<Longrightarrow> q \<noteq> 0 \<Longrightarrow> q \<in> dom (rw_queues w) \<Longrightarrow> H a + queued w a + 1 < 2 ^ 64 \<Longrightarrow>
     nx_ref_msg_publish w a q = Some (r, w') \<Longrightarrow> ref_step (w, H) (w', H)"
| publish_multi: "0 < H a \<Longrightarrow> \<forall>q \<in> set qs. q \<noteq> 0 \<and> q \<in> dom (rw_queues w) \<Longrightarrow>
     H a + queued w a + length qs < 2 ^ 64 \<Longrightarrow>
     nx_ref_msg_publish_multi w a (Some (qs @ 0 # rest)) = Some (r, w') \<Longrightarrow> ref_step (w, H) (w', H)"
| consume: "q \<in> dom (rw_queues w) \<Longrightarrow> ref_msg_consume w q = Some (x, w') \<Longrightarrow>
     ref_step (w, H) (w', case x of None \<Rightarrow> H | Some a \<Rightarrow> H(a := H a + 1))"
| release: "0 < H a \<Longrightarrow> nx_ref_msg_release w a = Some (r, w') \<Longrightarrow> ref_step (w, H) (w', H(a := H a - 1))"
| shrink: "0 < H a \<Longrightarrow> nx_ref_msg_shrink w a n = Some (r, w') \<Longrightarrow> ref_step (w, H) (w', H)"

inductive_cases ref_step_elim: "ref_step (w, H) (w', H')"

definition ref_start :: "('e, 'd) ref_world \<Rightarrow> bool" where
  "ref_start w \<longleftrightarrow> ref_queues_ok w \<and> ref_pools_ok w \<and> (\<forall>i p. rw_pools w i = Some p \<longrightarrow> pool_live p = {}) \<and>
     (\<forall>q qo. rw_queues w q = Some qo \<longrightarrow> queue_items qo = []) \<and> rw_msgs w = (\<lambda>_. None)"

lemma ref_start_inv:
  assumes "ref_start w"
  shows "ref_inv w (\<lambda>_. 0)"
proof -
  have "queued w a = 0" for a
    unfolding queued_def using assms by (intro sum.neutral) (auto simp: ref_start_def queued_in_def)
  then show ?thesis
    using assms by (auto simp: ref_start_def ref_inv_def ref_counts_ok_def ref_live_ok_def)
qed

lemma ref_step_inv:
  assumes "ref_step (w, H) (w', H')" "ref_inv w H"
  shows "ref_inv w' H'"
  using assms(1)
proof (cases rule: ref_step.cases)
  case (alloc pool len a)
  then obtain p where "rw_pools w pool = Some p" by auto
  from alloc_spec[OF assms(2) alloc(2) this alloc(4,5)] alloc show ?thesis by (auto split: if_splits)
next
  case (publish a q r)
  then obtain qo where "rw_queues w q = Some qo" by auto
  from publish_spec[OF assms(2) publish(2,3) this publish(5)] publish show ?thesis by auto
next
  case (publish_multi a qs rest r)
  with publish_loop_spec[OF assms(2) publish_multi(2-4), of rest 0 0 0 None] assms(2) show ?thesis
    by (auto simp: nx_ref_msg_publish_multi_def Let_def split: if_splits)
next
  case (consume q x)
  then obtain qo where "rw_queues w q = Some qo" by auto
  from consume_spec[OF assms(2) this] consume show ?thesis by (auto split: if_splits)
next
  case (release a r)
  with release_spec[OF assms(2) release(2)] show ?thesis by auto
next
  case (shrink a n r)
  with shrink_spec[OF assms(2) shrink(2), of n] show ?thesis by auto
qed

lemma ref_reach_inv:
  assumes "rtranclp ref_step (w0, \<lambda>_. 0) (w, H)" "ref_start w0"
  shows "ref_inv w H"
  using assms(1)
proof (induction rule: rtranclp_induct2)
  case refl
  show ?case by (rule ref_start_inv[OF assms(2)])
next
  case (step w1 H1 w2 H2)
  then show ?case by (blast intro: ref_step_inv)
qed

text \<open>
  C35: reference counting is sound. However clients interleave allocation, publishing, consuming, releasing
  and shrinking, each only on messages it holds a reference to, in every state reached the count of a message is
  the number of references held by clients plus the number of its pointers in all queues; a block
  of a pool is in use exactly while that number is positive, so no message is freed while a pointer to
  it is held or queued, and none is leaked once the last reference is gone.
\<close>
theorem nx_ref_msg_references_sound:
  assumes "ref_start w0" and "rtranclp ref_step (w0, \<lambda>_. 0) (w, H)"
  shows "(\<forall>a m. rw_msgs w a = Some m \<longrightarrow> rm_refcount m = H a + queued w a) \<and>
         (\<forall>a. 0 < H a + queued w a \<longrightarrow>
            (\<exists>m p. rw_msgs w a = Some m \<and> rw_pools w (rm_pool m) = Some p \<and> a \<in> pool_live p \<and>
                   REF_MSG_SIZEOF + rm_len m \<le> pool_size p a)) \<and>
         (\<forall>i p a. rw_pools w i = Some p \<longrightarrow> a \<in> pool_live p \<longrightarrow> 0 < H a + queued w a)"
proof -
  have inv: "ref_inv w H" by (rule ref_reach_inv[OF assms(2,1)])
  have count: "rm_refcount m = H a + queued w a" if "rw_msgs w a = Some m" for a m
  proof -
    have "case rw_msgs w a of None \<Rightarrow> H a + queued w a = 0
        | Some m \<Rightarrow> rm_refcount m = H a + queued w a \<and> rm_refcount m < 2 ^ 64"
      using inv by (simp add: ref_inv_def ref_counts_ok_def)
    with that show ?thesis by simp
  qed
  have live: "ref_live_ok w" using inv by (simp add: ref_inv_def)
  show ?thesis
  proof (intro conjI allI impI)
    fix a assume ref: "0 < H a + queued w a"
    obtain m where m: "rw_msgs w a = Some m" by (rule ref_inv_live[OF inv ref])
    with ref count[OF m] live show "\<exists>m p. rw_msgs w a = Some m \<and> rw_pools w (rm_pool m) = Some p \<and> a \<in> pool_live p \<and>
        REF_MSG_SIZEOF + rm_len m \<le> pool_size p a"
      unfolding ref_live_ok_def by fastforce
  next
    fix i p a assume "rw_pools w i = Some p" "a \<in> pool_live p"
    with live obtain m where "rw_msgs w a = Some m" "0 < rm_refcount m" unfolding ref_live_ok_def by blast
    with count show "0 < H a + queued w a" by metis
  qed (rule count)
qed

text \<open>
  In every reachable state the calls a reference holder may make are defined and succeed: publishing to a queue
  adds a reference if the queue has room and otherwise reports that it is full and changes no count;
  consuming hands over the reference of the oldest pointer; releasing returns success and frees the block if and only
  if it was the last reference.
\<close>
theorem nx_ref_msg_calls_defined:
  assumes "ref_start w0" and "rtranclp ref_step (w0, \<lambda>_. 0) (w, H)" and "rw_queues w q = Some qo" and "q \<noteq> 0"
    and "0 < H a" and "H a + queued w a + 1 < 2 ^ 64"
  shows "(\<exists>w'. nx_ref_msg_publish w a q
            = Some (if q_count qo < q_capacity qo then NX_REF_MSG_OK else NX_REF_MSG_ERR_FULL, w') \<and>
          queued w' = (queued w)(a := queued w a + (if q_count qo < q_capacity qo then 1 else 0))) \<and>
         (\<exists>x w'. ref_msg_consume w q = Some (x, w') \<and> (x = None \<longleftrightarrow> q_count qo = 0) \<and>
            (\<forall>b. x = Some b \<longrightarrow> queued w = (queued w')(b := queued w' b + 1))) \<and>
         (\<exists>w'. nx_ref_msg_release w a = Some (NX_REF_MSG_OK, w') \<and>
            (\<forall>i p p'. rw_pools w i = Some p \<longrightarrow> rw_pools w' i = Some p' \<longrightarrow>
               pool_live p' = pool_live p - (if H a + queued w a = 1 then {a} else {})))"
proof (intro conjI)
  have inv: "ref_inv w H" by (rule ref_reach_inv[OF assms(2,1)])
  show "\<exists>w'. nx_ref_msg_publish w a q
            = Some (if q_count qo < q_capacity qo then NX_REF_MSG_OK else NX_REF_MSG_ERR_FULL, w') \<and>
          queued w' = (queued w)(a := queued w a + (if q_count qo < q_capacity qo then 1 else 0))"
    using publish_spec[OF inv assms(5,4,3,6)] by (auto split: if_splits)
  show "\<exists>x w'. ref_msg_consume w q = Some (x, w') \<and> (x = None \<longleftrightarrow> q_count qo = 0) \<and>
      (\<forall>b. x = Some b \<longrightarrow> queued w = (queued w')(b := queued w' b + 1))"
    using consume_spec[OF inv assms(3)] by (auto split: if_splits)
  show "\<exists>w'. nx_ref_msg_release w a = Some (NX_REF_MSG_OK, w') \<and>
      (\<forall>i p p'. rw_pools w i = Some p \<longrightarrow> rw_pools w' i = Some p' \<longrightarrow>
         pool_live p' = pool_live p - (if H a + queued w a = 1 then {a} else {}))"
    using release_spec[OF inv assms(5)] by blast
qed

text \<open>
  Publishing to a NULL-terminated array of queues in a reachable state delivers to \<open>d\<close> of them, adds exactly \<open>d\<close>
  references, and reports it: OK when every queue took the message (also for the empty list), ERR_FULL when none of a
  non-empty list did, PARTIAL otherwise, with the number delivered and, unless all took it, the
  index of a queue in the list that did not.
\<close>
theorem nx_ref_msg_publish_multi_reports:
  assumes "ref_start w0" and "rtranclp ref_step (w0, \<lambda>_. 0) (w, H)" and "0 < H a"
    and "\<forall>q \<in> set qs. q \<noteq> 0 \<and> q \<in> dom (rw_queues w)" and "H a + queued w a + length qs < 2 ^ 64"
  shows "\<exists>d k w'. nx_ref_msg_publish_multi w a (Some (qs @ 0 # rest))
             = Some ((if d = length qs then NX_REF_MSG_OK else if d = 0 then NX_REF_MSG_ERR_FULL else NX_REF_MSG_PARTIAL,
                      Some (d, k)), w') \<and>
           d \<le> length qs \<and> queued w' = (queued w)(a := queued w a + d) \<and>
           (if d = length qs then k = length qs else k < length qs)"
proof -
  have inv: "ref_inv w H" by (rule ref_reach_inv[OF assms(2,1)])
  obtain m where "0 < a"
    using ref_inv_live[OF inv, of a] assms(3) by (metis add_gr_0)
  then show ?thesis
    using publish_loop_spec[OF inv assms(3-5), of rest 0 0 0 None]
    by (auto simp: nx_ref_msg_publish_multi_def Let_def split: if_splits)
qed

section \<open>Witnesses\<close>

text \<open>A pool with one 64-byte block at address 8, and a queue for one pointer at address 16.\<close>

definition demo_world :: "(unit, unit) ref_world" where
  "demo_world = \<lparr> rw_pools = [8 \<mapsto> \<lparr> tp_tiers_at = 512, tp_tiers = [large_tier], tp_forbid_fallback = False, tp_lock = None \<rparr>],
     rw_msgs = (\<lambda>_. None),
     rw_queues = [16 \<mapsto> \<lparr> q_buffer = Some (replicate 8 0), q_element_size = 8, q_capacity = 1, q_head = 0, q_count = 0,
                          q_on_full = NX_QUEUE_ON_FULL_REJECT \<rparr>],
     rw_env = () \<rparr>"

lemma demo_start: "ref_start demo_world"
proof -
  have "pool_live \<lparr> tp_tiers_at = 512, tp_tiers = [large_tier], tp_forbid_fallback = False, tp_lock = None \<rparr> = {}"
    by (simp add: pool_live_def tiers_live_def small_tier_live)
  then show ?thesis
    using small_tier_wf(2)
    by (auto simp: ref_start_def demo_world_def ref_queues_ok_def ref_pools_ok_def queue_like_def queue_wf_def
        queue_items_def pool_wf_def tiers_wf_def split: if_splits)
qed

lemma demo_alloc:
  obtains w where "ref_step (demo_world, \<lambda>_. 0) (w, (\<lambda>_. 0)(1088 := 1))" "rw_queues w = rw_queues demo_world"
    "queued w = (\<lambda>_. 0)"
proof -
  have "\<exists>w. nx_ref_msg_alloc demo_world 8 4 = Some (1088, w) \<and> rw_queues w = rw_queues demo_world"
    by (simp add: nx_ref_msg_alloc_def demo_world_def large_tier_def nx_tiered_mem_pool_alloc_def nx_lock_enter_def
        nx_lock_exit_def tiered_claim_def nx_tiered_bit_used_def nx_tiered_bit_set_def mem_get_def Let_def REF_MSG_SIZEOF_def)
  then obtain w where w: "nx_ref_msg_alloc demo_world 8 4 = Some (1088, w)" "rw_queues w = rw_queues demo_world" by blast
  have "ref_step (demo_world, \<lambda>_. 0) (w, if 1088 = (0::nat) then \<lambda>_. 0 else (\<lambda>_. 0)(1088 := (\<lambda>_. 0) 1088 + 1))"
    by (rule ref_step.alloc[OF _ _ _ _ w(1)]) (simp_all add: demo_world_def REF_MSG_SIZEOF_def)
  moreover have "queued w = (\<lambda>_. 0)"
    by (simp add: queued_def w(2) fun_eq_iff demo_world_def queued_in_def queue_items_def)
  ultimately show ?thesis using w(2) that by simp
qed

theorem nx_ref_msg_references_sound_witness:
  "\<exists>w p. ref_step (demo_world, \<lambda>_. 0) (w, (\<lambda>_. 0)(1088 := 1)) \<and>
     rw_pools w (rm_pool (the (rw_msgs w 1088))) = Some p \<and> 1088 \<in> pool_live p"
proof -
  obtain w where w: "ref_step (demo_world, \<lambda>_. 0) (w, (\<lambda>_. 0)(1088 := 1))" by (rule demo_alloc)
  then have "rtranclp ref_step (demo_world, \<lambda>_. 0) (w, (\<lambda>_. 0)(1088 := 1))" by blast
  from nx_ref_msg_references_sound[OF demo_start this] w show ?thesis
    by (intro exI[of _ w]) (auto dest: spec[of _ 1088])
qed

theorem nx_ref_msg_calls_defined_witness:
  "\<exists>w w1 w2. ref_step (demo_world, \<lambda>_. 0) (w, (\<lambda>_. 0)(1088 := 1)) \<and>
     nx_ref_msg_publish w 1088 16 = Some (NX_REF_MSG_OK, w1) \<and> nx_ref_msg_release w 1088 = Some (NX_REF_MSG_OK, w2)"
proof -
  obtain w where w: "ref_step (demo_world, \<lambda>_. 0) (w, (\<lambda>_. 0)(1088 := 1))" "rw_queues w = rw_queues demo_world"
    "queued w = (\<lambda>_. 0)" by (rule demo_alloc)
  then have "rtranclp ref_step (demo_world, \<lambda>_. 0) (w, (\<lambda>_. 0)(1088 := 1))" by blast
  moreover have "rw_queues w 16 = Some \<lparr> q_buffer = Some (replicate 8 0), q_element_size = 8, q_capacity = 1, q_head = 0,
      q_count = 0, q_on_full = NX_QUEUE_ON_FULL_REJECT \<rparr>"
    by (simp add: w(2) demo_world_def)
  ultimately show ?thesis
    using nx_ref_msg_calls_defined[OF demo_start, of w "(\<lambda>_. 0)(1088 := 1)" 16 _ 1088] w by fastforce
qed

theorem nx_ref_msg_publish_multi_reports_witness:
  "\<exists>w d k w'. ref_step (demo_world, \<lambda>_. 0) (w, (\<lambda>_. 0)(1088 := 1)) \<and>
     nx_ref_msg_publish_multi w 1088 (Some [16, 16, 0])
       = Some ((if d = 2 then NX_REF_MSG_OK else if d = 0 then NX_REF_MSG_ERR_FULL else NX_REF_MSG_PARTIAL,
               Some (d, k)), w') \<and> queued w' 1088 = d"
proof -
  obtain w where w: "ref_step (demo_world, \<lambda>_. 0) (w, (\<lambda>_. 0)(1088 := 1))" "rw_queues w = rw_queues demo_world"
    "queued w = (\<lambda>_. 0)" by (rule demo_alloc)
  then have reach: "rtranclp ref_step (demo_world, \<lambda>_. 0) (w, (\<lambda>_. 0)(1088 := 1))" by blast
  have qs: "\<forall>q \<in> set [16, 16]. q \<noteq> 0 \<and> q \<in> dom (rw_queues w)" by (auto simp: w(2) demo_world_def)
  have held: "0 < ((\<lambda>_. 0)(1088 := 1 :: nat)) (1088::nat)"
    "((\<lambda>_. 0)(1088 := 1)) 1088 + queued w 1088 + length [16, 16::nat] < 2 ^ 64" by (simp_all add: w(3))
  from nx_ref_msg_publish_multi_reports[OF demo_start reach held(1) qs held(2), of "[]"] obtain d k w' where
    "nx_ref_msg_publish_multi w 1088 (Some ([16, 16] @ 0 # [])) = Some ((if d = length [16, 16::nat] then NX_REF_MSG_OK
       else if d = 0 then NX_REF_MSG_ERR_FULL else NX_REF_MSG_PARTIAL, Some (d, k)), w')"
    "queued w' = (queued w)(1088 := queued w 1088 + d)" by blast
  then show ?thesis
    using w by (intro exI[of _ w] exI[of _ d] exI[of _ k] exI[of _ w']) (simp add: numeral_2_eq_2)
qed

text \<open>
  The sum of header and data length is not checked: a length within the header size of \<open>SIZE_MAX\<close> wraps, and a
  message of that length is handed out in a small block.
\<close>

lemma nx_ref_msg_alloc_length_wraps:
  "\<exists>w p. nx_ref_msg_alloc demo_world 8 (2 ^ 64 - 16) = Some (1088, w) \<and>
     nx_ref_msg_len w 1088 = Some (2 ^ 64 - 16) \<and> rw_pools w 8 = Some p \<and> pool_size p 1088 = 64"
  by (simp add: nx_ref_msg_alloc_def demo_world_def large_tier_def nx_tiered_mem_pool_alloc_def nx_lock_enter_def
      nx_lock_exit_def tiered_claim_def nx_tiered_bit_used_def nx_tiered_bit_set_def mem_get_def Let_def
      REF_MSG_SIZEOF_def nx_ref_msg_len_def pool_size_def)

end
