(* ===== verification/Nx_Event_Flags.thy ===== *)
theory Nx_Event_Flags
  imports Nx_Lock
begin

text \<open>
  \<open>src/core/nx_event_flags.h\<close>: thirty-two polled flags in one word. The operations dereference the
  lock directly: a lock without an enter or exit function is undefined here, \<open>None\<close>. The flags are shown to behave as a set
  of raised numbers under every sequence of operations.
\<close>

record 'e nx_event_flags =
  ef_bits :: u32
  ef_lock :: "'e nx_lock option"

definition nx_event_flags_init :: "'e nx_lock option \<Rightarrow> 'e nx_event_flags" where
  "nx_event_flags_init lock = \<lparr> ef_bits = 0, ef_lock = lock \<rparr>"

text \<open>The critical section of the header: \<open>enter\<close>, the update, \<open>exit\<close>; or the bare update without a lock.\<close>

definition ef_section :: "'e nx_event_flags \<Rightarrow> 'e \<Rightarrow> (u32 \<Rightarrow> 'r \<times> u32) \<Rightarrow> ('r \<times> 'e nx_event_flags \<times> 'e) option" where
  "ef_section ef e upd =
     (case ef_lock ef of
        None \<Rightarrow> (let (r, b) = upd (ef_bits ef) in Some (r, ef\<lparr> ef_bits := b \<rparr>, e))
      | Some l \<Rightarrow> do {
          enter \<leftarrow> lk_enter l;
          let (state, e1) = enter (lk_ctx l) e;
          let (r, b) = upd (ef_bits ef);
          exit \<leftarrow> lk_exit l;
          Some (r, ef\<lparr> ef_bits := b \<rparr>, exit (lk_ctx l) state e1) })"

definition nx_event_flags_set ::
  "'e nx_event_flags \<Rightarrow> u32 \<Rightarrow> 'e \<Rightarrow> (unit \<times> 'e nx_event_flags \<times> 'e) option" where
  "nx_event_flags_set ef m e = ef_section ef e (\<lambda>b. ((), b OR m))"

definition nx_event_flags_clear ::
  "'e nx_event_flags \<Rightarrow> u32 \<Rightarrow> 'e \<Rightarrow> (unit \<times> 'e nx_event_flags \<times> 'e) option" where
  "nx_event_flags_clear ef m e = ef_section ef e (\<lambda>b. ((), b AND NOT m))"

definition nx_event_flags_test :: "'e nx_event_flags \<Rightarrow> u32 \<Rightarrow> bool" where
  "nx_event_flags_test ef m \<longleftrightarrow> ef_bits ef AND m \<noteq> 0"

definition nx_event_flags_test_all :: "'e nx_event_flags \<Rightarrow> u32 \<Rightarrow> bool" where
  "nx_event_flags_test_all ef m \<longleftrightarrow> ef_bits ef AND m = m"

definition nx_event_flags_take ::
  "'e nx_event_flags \<Rightarrow> u32 \<Rightarrow> 'e \<Rightarrow> (bool \<times> 'e nx_event_flags \<times> 'e) option" where
  "nx_event_flags_take ef m e =
     ef_section ef e (\<lambda>b. let raised = (b AND m \<noteq> 0) in (raised, if raised then b AND NOT m else b))"

definition nx_event_flags_get :: "'e nx_event_flags \<Rightarrow> u32" where
  "nx_event_flags_get ef = ef_bits ef"

section \<open>The flags as a set\<close>

definition flags_of :: "u32 \<Rightarrow> nat set" where
  "flags_of w = {i. bit w i}"

lemma flags_of_simps [simp]:
  "flags_of 0 = {}" "flags_of (a OR b) = flags_of a \<union> flags_of b" "flags_of (a AND b) = flags_of a \<inter> flags_of b"
  "i \<in> flags_of (NOT b) \<longleftrightarrow> i < 32 \<and> i \<notin> flags_of b"
  by (auto simp: flags_of_def bit_simps dest: bit_imp_le_length)

lemma flags_of_less: "i \<in> flags_of a \<Longrightarrow> i < 32"
  by (auto simp: flags_of_def dest: bit_imp_le_length)

lemma flags_of_inject: "flags_of a = flags_of b \<longleftrightarrow> a = b"
proof
  assume "flags_of a = flags_of b"
  then have "bit a n = bit b n" for n by (auto simp: flags_of_def)
  then show "a = b" by (intro bit_word_eqI) simp
qed simp

lemma flags_of_eq_empty: "flags_of a = {} \<longleftrightarrow> a = 0"
  using flags_of_inject[of a 0] by simp

lemma flags_of_and_eq: "a AND b = b \<longleftrightarrow> flags_of b \<subseteq> flags_of a"
  using flags_of_inject[of "a AND b" b] by auto

lemma flags_of_and_0: "a AND b = 0 \<longleftrightarrow> flags_of a \<inter> flags_of b = {}"
  using flags_of_eq_empty[of "a AND b"] by simp

definition ef_lock_ok :: "'e nx_event_flags \<Rightarrow> bool" where
  "ef_lock_ok ef \<longleftrightarrow> (case ef_lock ef of None \<Rightarrow> True | Some l \<Rightarrow> lk_enter l \<noteq> None \<and> lk_exit l \<noteq> None)"

lemma ef_section_ok:
  "ef_lock_ok ef \<Longrightarrow>
   ef_section ef e upd = Some (fst (upd (ef_bits ef)), ef\<lparr> ef_bits := snd (upd (ef_bits ef)) \<rparr>, lock_bracket (ef_lock ef) e)"
  by (auto simp: ef_section_def ef_lock_ok_def lock_bracket_def nx_lock_enter_def nx_lock_exit_def split_beta
      split: option.splits)

datatype ef_op = EfSet u32 | EfClear u32 | EfTest u32 | EfTestAll u32 | EfTake u32

text \<open>One call; the result of \<open>set\<close> and \<open>clear\<close> is \<open>True\<close> for done.\<close>

fun ef_step :: "ef_op \<Rightarrow> 'e nx_event_flags \<times> 'e \<Rightarrow> (bool \<times> 'e nx_event_flags \<times> 'e) option" where
  "ef_step (EfSet m) (ef, e) = map_option (\<lambda>(_, s). (True, s)) (nx_event_flags_set ef m e)"
| "ef_step (EfClear m) (ef, e) = map_option (\<lambda>(_, s). (True, s)) (nx_event_flags_clear ef m e)"
| "ef_step (EfTest m) (ef, e) = Some (nx_event_flags_test ef m, ef, e)"
| "ef_step (EfTestAll m) (ef, e) = Some (nx_event_flags_test_all ef m, ef, e)"
| "ef_step (EfTake m) (ef, e) = nx_event_flags_take ef m e"

fun ef_spec :: "ef_op \<Rightarrow> nat set \<Rightarrow> bool \<times> nat set" where
  "ef_spec (EfSet m) S = (True, S \<union> flags_of m)"
| "ef_spec (EfClear m) S = (True, S - flags_of m)"
| "ef_spec (EfTest m) S = (S \<inter> flags_of m \<noteq> {}, S)"
| "ef_spec (EfTestAll m) S = (flags_of m \<subseteq> S, S)"
| "ef_spec (EfTake m) S = (S \<inter> flags_of m \<noteq> {}, S - flags_of m)"

interpretation ef_sim: simulation "\<lambda>(ef, e). ef_lock_ok ef" "\<lambda>_. True" "\<lambda>(ef, e). flags_of (ef_bits ef)" ef_step ef_spec
proof
  fix s :: "'e nx_event_flags \<times> 'e" and x
  obtain ef e where s: "s = (ef, e)" by (cases s)
  assume "case s of (ef, e) \<Rightarrow> ef_lock_ok ef"
  then have ok: "ef_lock_ok ef" by (simp add: s)
  then have ok': "ef_lock_ok (ef\<lparr> ef_bits := b \<rparr>)" for b by (simp add: ef_lock_ok_def)
  show "\<exists>s'. ef_step x s = Some (fst (ef_spec x (case s of (ef, e) \<Rightarrow> flags_of (ef_bits ef))), s') \<and>
      (case s' of (ef, e) \<Rightarrow> ef_lock_ok ef) \<and>
      (case s' of (ef, e) \<Rightarrow> flags_of (ef_bits ef)) = snd (ef_spec x (case s of (ef, e) \<Rightarrow> flags_of (ef_bits ef)))"
    using ok ok'
    by (cases x) (auto simp: s ef_section_ok nx_event_flags_set_def nx_event_flags_clear_def nx_event_flags_take_def
        nx_event_flags_test_def nx_event_flags_test_all_def flags_of_and_0 flags_of_and_eq Let_def
        dest: flags_of_less)
qed

text \<open>
  Event flags are a set of raised numbers. From initialisation, under every sequence of set, clear, test, test-all and
  take, in whatever order contexts issue them, each test answers for the set of flags raised so far
  and not yet cleared or taken, a take consumes exactly the named flags, and the flag word at the end is
  that set; every lock that has both functions is accepted.
\<close>
theorem nx_event_flags_run_as_set:
  assumes "case lock of None \<Rightarrow> True | Some l \<Rightarrow> lk_enter l \<noteq> None \<and> lk_exit l \<noteq> None"
  shows "\<exists>ef e'. run_ops ef_step xs (nx_event_flags_init lock, e) = Some (fst (run_spec ef_spec xs {}), ef, e') \<and>
           flags_of (nx_event_flags_get ef) = snd (run_spec ef_spec xs {})"
  using ef_sim.run_sim[of "(nx_event_flags_init lock, e)" xs] assms
  by (auto simp: nx_event_flags_init_def ef_lock_ok_def nx_event_flags_get_def list.pred_True)

theorem nx_event_flags_run_as_set_witness:
  "\<exists>ef e'. run_ops ef_step [EfSet 5, EfTake 4, EfTestAll 5, EfTest 1] (nx_event_flags_init (Some (tracing_lock 7)), [])
       = Some ([True, True, False, True], ef, e')"
proof -
  have one: "flags_of (push_bit n 1) = (if n < 32 then {n} else {})" for n
    by (auto simp: flags_of_def bit_simps)
  have "(5 :: u32) = push_bit 2 1 OR push_bit 0 1" "(4 :: u32) = push_bit 2 1" "(1 :: u32) = push_bit 0 1" by simp_all
  then have "flags_of 5 = {0, 2}" "flags_of 4 = {2}" "flags_of 1 = {0}"
    by (metis flags_of_simps(2) insert_commute insert_is_Un one numeral_less_iff zero_less_numeral semiring_norm(76)
        semiring_norm(78))+
  then show ?thesis
    using nx_event_flags_run_as_set[of "Some (tracing_lock 7)" "[EfSet 5, EfTake 4, EfTestAll 5, EfTest 1]" "[]"]
    by (auto simp: tracing_lock_def)
qed

text \<open>
  The lock header lets a lock omit either function; the flags do not: a lock without an enter function makes
  every locked operation undefined.
\<close>

lemma nx_event_flags_needs_enter:
  "nx_event_flags_set (nx_event_flags_init (Some \<lparr> lk_enter = None, lk_exit = None, lk_ctx = c \<rparr>)) m e = None"
  by (simp add: nx_event_flags_set_def ef_section_def nx_event_flags_init_def)

end
