(* ===== verification/Nx_Log.thy ===== *)
theory Nx_Log
  imports Nx_Ringbuf Nx_Lock
begin

text \<open>
  \<open>src/core/nx_log.c\<close> and \<open>nx_log.h\<close>: line-oriented logging into a ring buffer. The formatted message of the
  variadic call is an argument (what \<open>vsnprintf\<close> produces for the format and its arguments, or its
  failure); the tick source, the sink and the lock act on an environment. The
  lemmas show that eviction removes whole oldest lines and no more than needed.
\<close>

section \<open>Types\<close>

text \<open>Enumeration values; a level variable can hold others.\<close>

definition NX_LOG_LEVEL_OFF :: nat where "NX_LOG_LEVEL_OFF = 0"
definition NX_LOG_LEVEL_TRACE :: nat where "NX_LOG_LEVEL_TRACE = 5"

datatype nx_log_on_full = NX_LOG_ON_FULL_OVERWRITE_OLD | NX_LOG_ON_FULL_DROP_NEW

definition NX_LOG_LINE_MAX :: nat where "NX_LOG_LINE_MAX = 128"

definition NX_LOG_TAGS :: bytes where
  "NX_LOG_TAGS = [0x2D, 0x45, 0x57, 0x49, 0x44, 0x54]"

record 'e nx_log_cfg =
  lg_buffer :: "bytes option"
  lg_buffer_size :: nat
  lg_write :: "(bytes \<Rightarrow> 'e \<Rightarrow> 'e) option"
  lg_get_tick :: "('e \<Rightarrow> u32 \<times> 'e) option"
  lg_level :: nat
  lg_on_full :: nx_log_on_full
  lg_lock :: "'e nx_lock option"

record 'e nx_log =
  lg_cfg :: "'e nx_log_cfg"
  lg_rb :: nx_ringbuf
  lg_dropped :: nat

section \<open>Formatting\<close>

text \<open>The conversions \<open>%lu\<close> and \<open>%d\<close>.\<close>

fun dec_digits :: "nat \<Rightarrow> bytes" where
  "dec_digits n = (if n < 10 then [of_nat (48 + n)] else dec_digits (n div 10) @ [of_nat (48 + n mod 10)])"

definition dec_int :: "int \<Rightarrow> bytes" where
  "dec_int i = (if i < 0 then 0x2D # dec_digits (nat (- i)) else dec_digits (nat i))"

text \<open>\<open>"[%c] [%lu] %s:%d: "\<close> and \<open>"[%c] %s:%d: "\<close>.\<close>

definition log_prefix :: "u8 \<Rightarrow> u32 option \<Rightarrow> bytes \<Rightarrow> int \<Rightarrow> bytes" where
  "log_prefix tag tick file line =
     [0x5B, tag, 0x5D, 0x20] @
     (case tick of None \<Rightarrow> [] | Some t \<Rightarrow> [0x5B] @ dec_digits (unat t) @ [0x5D, 0x20]) @
     file @ [0x3A] @ dec_int line @ [0x3A, 0x20]"

text \<open>
  \<open>snprintf\<close> into \<open>size\<close> bytes at \<open>off\<close>: at most \<open>size - 1\<close> characters and a terminator are stored; the
  value returned is the length of the whole text.
\<close>

definition snprintf_at :: "nat \<Rightarrow> nat \<Rightarrow> bytes \<Rightarrow> bytes \<Rightarrow> (nat \<times> bytes) option" where
  "snprintf_at off sz txt buf =
     (if sz = 0 then Some (length txt, buf)
      else map_option (\<lambda>b. (length txt, b)) (mem_write off (take (sz - 1) txt @ [0]) buf))"

text \<open>The line as it is in \<open>line_buf\<close> and its length; the inner \<open>None\<close> is a failed conversion.\<close>

definition log_format :: "bytes \<Rightarrow> bytes option \<Rightarrow> (nat \<times> bytes) option option" where
  "log_format prefix msg = do {
     (n, buf) \<leftarrow> snprintf_at 0 NX_LOG_LINE_MAX prefix (replicate NX_LOG_LINE_MAX 0);
     if n \<ge> NX_LOG_LINE_MAX then Some (Some (NX_LOG_LINE_MAX - 1, buf))
     else
       case msg of None \<Rightarrow> Some None
       | Some txt \<Rightarrow> do {
           (k, buf1) \<leftarrow> snprintf_at n (NX_LOG_LINE_MAX - n) txt buf;
           let len = n + k;
           Some (Some (if len \<ge> NX_LOG_LINE_MAX then NX_LOG_LINE_MAX - 1 else len, buf1)) } }"

text \<open>The trailing newline, over the last byte if the line was truncated.\<close>

definition log_newline :: "nat \<Rightarrow> bytes \<Rightarrow> (nat \<times> bytes) option" where
  "log_newline len buf =
     (if len + 1 < NX_LOG_LINE_MAX then map_option (\<lambda>b. (len + 1, b)) (mem_write len [0x0A, 0] buf)
      else map_option (\<lambda>b. (NX_LOG_LINE_MAX, b)) (mem_write (NX_LOG_LINE_MAX - 1) [0x0A] buf))"

section \<open>Operations\<close>

fun find_newline :: "bytes \<Rightarrow> nat option" where
  "find_newline [] = None"
| "find_newline (c # cs) = (if c = 0x0A then Some 0 else map_option Suc (find_newline cs))"

text \<open>
  The segment loop. Every round discards a non-empty segment, so as many rounds as there are bytes, and one more, are
  enough; \<open>None\<close> is running out of them or leaving the buffer.
\<close>

fun log_evict_loop :: "nat \<Rightarrow> nx_ringbuf \<Rightarrow> nx_ringbuf option" where
  "log_evict_loop 0 rb = None"
| "log_evict_loop (Suc fuel) rb =
     (case nx_ringbuf_peek_linear (Some rb) True of
        (Some p, Some n) \<Rightarrow>
          if n = 0 then nx_ringbuf_clear (Some rb)
          else do {
            buf \<leftarrow> rb_buffer rb;
            seg \<leftarrow> mem_read p n buf;
            case find_newline seg of
              Some i \<Rightarrow> snd (nx_ringbuf_discard (Some rb) (i + 1))
            | None \<Rightarrow> do { rb' \<leftarrow> snd (nx_ringbuf_discard (Some rb) n); log_evict_loop fuel rb' } }
      | _ \<Rightarrow> nx_ringbuf_clear (Some rb))"

definition log_evict_oldest_line :: "nx_ringbuf \<Rightarrow> nx_ringbuf option" where
  "log_evict_oldest_line rb = log_evict_loop (rb_count rb + 1) rb"

definition nx_log_init :: "'e nx_log option \<Rightarrow> 'e nx_log_cfg option \<Rightarrow> bool \<times> 'e nx_log option" where
  "nx_log_init lp cp =
     (case (lp, cp) of
        (Some l, Some cfg) \<Rightarrow>
          if lg_buffer cfg = None \<or> lg_buffer_size cfg = 0 then (False, lp)
          else
            (case nx_ringbuf_init (Some (lg_rb l)) (lg_buffer cfg) (lg_buffer_size cfg) of
               (True, Some rb) \<Rightarrow> (True, Some \<lparr> lg_cfg = cfg, lg_rb = rb, lg_dropped = 0 \<rparr>)
             | _ \<Rightarrow> (False, lp))
      | _ \<Rightarrow> (False, lp))"

definition nx_log_set_level :: "'e nx_log option \<Rightarrow> nat \<Rightarrow> 'e nx_log option" where
  "nx_log_set_level lp level = map_option (\<lambda>l. l\<lparr> lg_cfg := (lg_cfg l)\<lparr> lg_level := level \<rparr> \<rparr>) lp"

text \<open>The loop making room, again at most one round per stored byte.\<close>

fun log_make_room :: "nat \<Rightarrow> nat \<Rightarrow> nx_ringbuf \<Rightarrow> nat \<Rightarrow> (nx_ringbuf \<times> nat) option" where
  "log_make_room 0 len rb dropped = None"
| "log_make_room (Suc fuel) len rb dropped =
     (if nx_ringbuf_free (Some rb) < len \<and> nx_ringbuf_size (Some rb) > 0
      then do { rb' \<leftarrow> log_evict_oldest_line rb; log_make_room fuel len rb' ((dropped + 1) mod 2 ^ 64) }
      else Some (rb, dropped))"

text \<open>The critical section of \<open>nx_log_write\<close> for the finished line.\<close>

definition log_enqueue :: "'e nx_log \<Rightarrow> bytes \<Rightarrow> nat \<Rightarrow> (bool \<times> 'e nx_log) option" where
  "log_enqueue l line_buf len = do {
     (rb, dropped) \<leftarrow>
       (if lg_on_full (lg_cfg l) = NX_LOG_ON_FULL_OVERWRITE_OLD
        then log_make_room (rb_count (lg_rb l) + 1) len (lg_rb l) (lg_dropped l)
        else Some (lg_rb l, lg_dropped l));
     if nx_ringbuf_free (Some rb) \<ge> len
     then do {
       (_, rp) \<leftarrow> nx_ringbuf_write (Some rb) (Some line_buf) len;
       rb' \<leftarrow> rp;
       Some (True, l\<lparr> lg_rb := rb', lg_dropped := dropped \<rparr>) }
     else Some (False, l\<lparr> lg_rb := rb, lg_dropped := (dropped + 1) mod 2 ^ 64 \<rparr>) }"

definition log_tag :: "nat \<Rightarrow> u8" where
  "log_tag level = (if level \<le> NX_LOG_LEVEL_TRACE then NX_LOG_TAGS ! level else 0x3F)"

definition log_tick :: "'e nx_log_cfg \<Rightarrow> 'e \<Rightarrow> u32 option \<times> 'e" where
  "log_tick cfg e = (case lg_get_tick cfg of None \<Rightarrow> (None, e) | Some f \<Rightarrow> (let (t, e') = f e in (Some t, e')))"

text \<open>
  \<open>fmt\<close> is \<open>None\<close> for a NULL format, otherwise what the conversion produces. \<open>file\<close> is the
  characters of the file name.
\<close>

definition nx_log_write ::
  "'e nx_log option \<Rightarrow> nat \<Rightarrow> bytes \<Rightarrow> int \<Rightarrow> bytes option option \<Rightarrow> 'e \<Rightarrow> (bool \<times> 'e nx_log option \<times> 'e) option" where
  "nx_log_write lp level file line fmt e =
     (case (lp, fmt) of
        (Some l, Some msg) \<Rightarrow>
          if level = NX_LOG_LEVEL_OFF \<or> level > lg_level (lg_cfg l) then Some (False, lp, e)
          else
            let (tick, e1) = log_tick (lg_cfg l) e
            in do {
              r \<leftarrow> log_format (log_prefix (log_tag level) tick file line) msg;
              case r of None \<Rightarrow> Some (False, lp, e1)
              | Some (len, buf) \<Rightarrow> do {
                  (len1, buf1) \<leftarrow> log_newline len buf;
                  let (saved, e2) = nx_lock_enter (lg_lock (lg_cfg l)) e1;
                  (ok, l') \<leftarrow> log_enqueue l buf1 len1;
                  Some (ok, Some l', nx_lock_exit (lg_lock (lg_cfg l)) saved e2) } }
      | _ \<Rightarrow> Some (False, lp, e))"

text \<open>Draining to the sink in chunks, each copied out under the lock; the loop ends when the buffer is empty.\<close>

fun log_process_loop ::
  "nat \<Rightarrow> (bytes \<Rightarrow> 'e \<Rightarrow> 'e) \<Rightarrow> 'e nx_log \<Rightarrow> nat \<Rightarrow> 'e \<Rightarrow> (nat \<times> 'e nx_log \<times> 'e) option" where
  "log_process_loop 0 sink l tot e = None"
| "log_process_loop (Suc fuel) sink l tot e =
     (let (saved, e1) = nx_lock_enter (lg_lock (lg_cfg l)) e
      in do {
        ((n, dst), rp) \<leftarrow> nx_ringbuf_read (Some (lg_rb l)) (Some (replicate NX_LOG_LINE_MAX 0)) NX_LOG_LINE_MAX;
        rb \<leftarrow> rp;
        chunk \<leftarrow> dst;
        let e2 = nx_lock_exit (lg_lock (lg_cfg l)) saved e1;
        let l' = l\<lparr> lg_rb := rb \<rparr>;
        if n = 0 then Some (tot, l', e2)
        else do {
          x \<leftarrow> mem_read 0 n chunk;
          log_process_loop fuel sink l' (tot + n) (sink x e2) } })"

definition nx_log_process :: "'e nx_log option \<Rightarrow> 'e \<Rightarrow> (nat \<times> 'e nx_log option \<times> 'e) option" where
  "nx_log_process lp e =
     (case lp of None \<Rightarrow> Some (0, None, e)
      | Some l \<Rightarrow>
          (case lg_write (lg_cfg l) of None \<Rightarrow> Some (0, lp, e)
           | Some sink \<Rightarrow>
               map_option (\<lambda>(n, l', e'). (n, Some l', e')) (log_process_loop (rb_count (lg_rb l) + 1) sink l 0 e)))"

definition nx_log_read ::
  "'e nx_log option \<Rightarrow> bytes option \<Rightarrow> nat \<Rightarrow> 'e \<Rightarrow> ((nat \<times> bytes option) \<times> 'e nx_log option \<times> 'e) option" where
  "nx_log_read lp dst mx e =
     (case lp of None \<Rightarrow> Some ((0, dst), None, e)
      | Some l \<Rightarrow>
          let (saved, e1) = nx_lock_enter (lg_lock (lg_cfg l)) e
          in do {
            (r, rp) \<leftarrow> nx_ringbuf_read (Some (lg_rb l)) dst mx;
            rb \<leftarrow> rp;
            Some (r, Some (l\<lparr> lg_rb := rb \<rparr>), nx_lock_exit (lg_lock (lg_cfg l)) saved e1) })"

definition nx_log_dropped :: "'e nx_log option \<Rightarrow> nat" where
  "nx_log_dropped lp = (case lp of Some l \<Rightarrow> lg_dropped l | None \<Rightarrow> 0)"

section \<open>Eviction removes one whole line\<close>

text \<open>What is left of a stream after its first line.\<close>

fun after_line :: "bytes \<Rightarrow> bytes" where
  "after_line [] = []"
| "after_line (c # cs) = (if c = 0x0A then cs else after_line cs)"

lemma find_newline_after:
  "after_line (seg @ rest) = (case find_newline seg of Some i \<Rightarrow> drop (i + 1) (seg @ rest) | None \<Rightarrow> after_line rest)"
  by (induction seg) (auto split: option.splits)

lemma find_newline_less: "find_newline seg = Some i \<Longrightarrow> i < length seg"
  by (induction seg arbitrary: i) (auto split: if_splits)

lemma ringbuf_peek_segment:
  assumes "ringbuf_wf cap rb" "0 < rb_count rb"
  obtains p n where "nx_ringbuf_peek_linear (Some rb) True = (Some p, Some n)" "0 < n" "n \<le> rb_count rb"
    "mem_read p n (the (rb_buffer rb)) = Some (take n (ringbuf_items rb))"
  using ringbuf_peek_window[OF assms] by blast

lemma log_evict_loop_spec:
  "ringbuf_wf cap rb \<Longrightarrow> rb_count rb < fuel \<Longrightarrow>
   \<exists>rb'. log_evict_loop fuel rb = Some rb' \<and> ringbuf_wf cap rb' \<and> ringbuf_items rb' = after_line (ringbuf_items rb)"
proof (induction fuel arbitrary: rb)
  case (Suc fuel)
  show ?case
  proof (cases "rb_count rb = 0")
    case True
    then have "ringbuf_items rb = []" by (simp add: ringbuf_items_def)
    then show ?thesis
      using True Suc.prems(1)
      by (auto simp: nx_ringbuf_peek_linear_def nx_ringbuf_clear_def ringbuf_wf_def ringbuf_items_def)
  next
    case False
    then obtain p n where seg: "nx_ringbuf_peek_linear (Some rb) True = (Some p, Some n)" "0 < n" "n \<le> rb_count rb"
      "mem_read p n (the (rb_buffer rb)) = Some (take n (ringbuf_items rb))"
      using ringbuf_peek_segment[OF Suc.prems(1)] by blast
    obtain buf where buf: "rb_buffer rb = Some buf" using Suc.prems(1) by (auto simp: ringbuf_wf_def)
    let ?s = "take n (ringbuf_items rb)" and ?r = "drop n (ringbuf_items rb)"
    have split: "after_line (ringbuf_items rb) =
        (case find_newline ?s of Some i \<Rightarrow> drop (i + 1) (ringbuf_items rb) | None \<Rightarrow> after_line ?r)"
      using find_newline_after[of ?s ?r] unfolding append_take_drop_id .
    show ?thesis
    proof (cases "find_newline ?s")
      case (Some i)
      with seg buf split nx_ringbuf_discard_spec[OF Suc.prems(1), of "i + 1"] show ?thesis by auto
    next
      case None
      obtain rb1 where rb1: "nx_ringbuf_discard (Some rb) n = (min n (rb_count rb), Some rb1)" "ringbuf_wf cap rb1"
        "ringbuf_items rb1 = ?r" using nx_ringbuf_discard_spec[OF Suc.prems(1), of n] by blast
      have "rb_count rb1 = rb_count rb - n" using rb1(3) by (metis length_drop length_ringbuf_items)
      then have "rb_count rb1 < fuel" using seg(2,3) Suc.prems(2) by linarith
      from Suc.IH[OF rb1(2) this] show ?thesis
        using None seg buf split rb1 by auto
    qed
  qed
qed simp

lemma log_evict_spec:
  "ringbuf_wf cap rb \<Longrightarrow>
   \<exists>rb'. log_evict_oldest_line rb = Some rb' \<and> ringbuf_wf cap rb' \<and> ringbuf_items rb' = after_line (ringbuf_items rb)"
  unfolding log_evict_oldest_line_def by (rule log_evict_loop_spec) simp_all

section \<open>The stream as lines\<close>

fun lines_of :: "bytes \<Rightarrow> bytes list" where
  "lines_of [] = []"
| "lines_of (c # cs) =
     (if c = 0x0A then [c] # lines_of cs else case lines_of cs of [] \<Rightarrow> [[c]] | l # ls \<Rightarrow> (c # l) # ls)"

lemma concat_lines_of [simp]: "concat (lines_of s) = s"
  by (induction s) (auto split: list.splits)

lemma lines_of_eq_Nil [simp]: "lines_of s = [] \<longleftrightarrow> s = []"
  by (cases s) (auto split: list.splits)

lemma lines_of_after_line: "lines_of (after_line s) = tl (lines_of s)"
proof (induction s)
  case (Cons c s)
  then show ?case by (cases "lines_of s") (auto dest: arg_cong[of _ _ after_line])
qed simp

lemma after_line_concat: "after_line s = concat (tl (lines_of s))"
  by (metis concat_lines_of lines_of_after_line)

lemma after_line_shorter: "s \<noteq> [] \<Longrightarrow> length (after_line s) < length s"
  by (induction s) (auto, metis after_line.simps(1) length_greater_0_conv less_SucI list.size(3) zero_less_Suc)

text \<open>How many of the oldest lines have to go for \<open>len\<close> bytes to fit, and what stays.\<close>

fun evict_until :: "nat \<Rightarrow> nat \<Rightarrow> bytes list \<Rightarrow> nat" where
  "evict_until cap len [] = 0"
| "evict_until cap len (l # ls) = (if cap < length (concat (l # ls)) + len then Suc (evict_until cap len ls) else 0)"

lemma evict_until_le: "evict_until cap len ls \<le> length ls"
  by (induction ls) auto

lemma evict_until_fits:
  "len \<le> cap \<Longrightarrow> length (concat (drop (evict_until cap len ls) ls)) + len \<le> cap"
  by (induction ls) auto

lemma evict_until_all: "cap < len \<Longrightarrow> evict_until cap len ls = length ls"
  by (induction ls) auto

lemma evict_until_least:
  "j < evict_until cap len ls \<Longrightarrow> cap < length (concat (drop j ls)) + len"
proof (induction ls arbitrary: j)
  case (Cons l ls)
  then show ?case by (cases j) (auto split: if_splits)
qed simp

lemma log_make_room_spec:
  "ringbuf_wf cap rb \<Longrightarrow> rb_count rb < fuel \<Longrightarrow> 0 < len \<Longrightarrow> d < 2 ^ 64 \<Longrightarrow>
   \<exists>rb'. log_make_room fuel len rb d
           = Some (rb', (d + evict_until cap len (lines_of (ringbuf_items rb))) mod 2 ^ 64) \<and> ringbuf_wf cap rb' \<and>
     ringbuf_items rb' = concat (drop (evict_until cap len (lines_of (ringbuf_items rb))) (lines_of (ringbuf_items rb)))"
proof (induction fuel arbitrary: rb d)
  case (Suc fuel)
  let ?s = "ringbuf_items rb"
  have cnt: "rb_count rb = length ?s" by simp
  have cap: "rb_capacity rb = cap" "length ?s \<le> cap" using Suc.prems(1) by (auto simp: ringbuf_wf_def)
  show ?case
  proof (cases "?s = [] \<or> length ?s + len \<le> cap")
    case True
    have "evict_until cap len (lines_of ?s) = 0"
    proof (cases "lines_of ?s")
      case (Cons l ls)
      have "concat (l # ls) = ?s" "?s \<noteq> []" using concat_lines_of[of ?s] Cons by auto
      with True show ?thesis unfolding Cons evict_until.simps by simp
    qed simp
    moreover have "\<not> (nx_ringbuf_free (Some rb) < len \<and> nx_ringbuf_size (Some rb) > 0)"
    proof (cases "?s = []")
      case True
      then have "rb_count rb = 0" using cnt by (metis list.size(3))
      then show ?thesis by (simp add: nx_ringbuf_size_def)
    next
      case False
      with True have "rb_count rb + len \<le> cap" using cnt by linarith
      then show ?thesis using cap(1) by (auto simp: nx_ringbuf_free_def)
    qed
    ultimately have "log_make_room (Suc fuel) len rb d = Some (rb, d)" "evict_until cap len (lines_of ?s) = 0"
      by (simp_all only: log_make_room.simps if_False)
    then show ?thesis using Suc.prems(1,4) by simp
  next
    case False
    obtain l ls where ls: "lines_of ?s = l # ls" using False by (cases "lines_of ?s") auto
    obtain rb1 where rb1: "log_evict_oldest_line rb = Some rb1" "ringbuf_wf cap rb1" "ringbuf_items rb1 = after_line ?s"
      using log_evict_spec[OF Suc.prems(1)] by blast
    have ls1: "lines_of (ringbuf_items rb1) = ls" using lines_of_after_line[of ?s] rb1(3) ls by simp
    have "rb_count rb1 < rb_count rb"
      using after_line_shorter[of ?s] False rb1(3) by (metis length_ringbuf_items)
    then have "rb_count rb1 < fuel" using Suc.prems(2) by linarith
    from Suc.IH[OF rb1(2) this Suc.prems(3), of "(d + 1) mod 2 ^ 64"] obtain rb' where
      rb': "log_make_room fuel len rb1 ((d + 1) mod 2 ^ 64) =
          Some (rb', ((d + 1) mod 2 ^ 64 + evict_until cap len ls) mod 2 ^ 64)" "ringbuf_wf cap rb'"
        "ringbuf_items rb' = concat (drop (evict_until cap len ls) ls)"
      unfolding ls1 by auto
    have "concat (l # ls) = ?s" using ls concat_lines_of[of ?s] by simp
    then have k: "evict_until cap len (lines_of ?s) = Suc (evict_until cap len ls)"
      using False unfolding ls evict_until.simps by simp
    have "((d + 1) mod 2 ^ 64 + evict_until cap len ls) mod 2 ^ 64 = (d + Suc (evict_until cap len ls)) mod 2 ^ 64"
      by (simp add: mod_simps)
    moreover have "nx_ringbuf_free (Some rb) < len \<and> nx_ringbuf_size (Some rb) > 0"
    proof -
      have "rb_count rb \<noteq> 0" "cap < rb_count rb + len"
        using False by (metis length_0_conv length_ringbuf_items, simp)
      then show ?thesis using cap(1) Suc.prems(3) by (auto simp: nx_ringbuf_free_def nx_ringbuf_size_def)
    qed
    ultimately have "log_make_room (Suc fuel) len rb d =
        Some (rb', (d + Suc (evict_until cap len ls)) mod 2 ^ 64)"
      using rb1(1) rb'(1) by (simp only: log_make_room.simps if_True bind.bind_lunit simp_thms)
    then show ?thesis unfolding k using rb'(2,3) ls by (simp only: drop_Suc_Cons) blast
  qed
qed simp

section \<open>One line\<close>

definition log_line :: "bytes \<Rightarrow> bytes \<Rightarrow> bytes" where
  "log_line prefix txt = take (NX_LOG_LINE_MAX - 1) (prefix @ txt) @ [0x0A]"

lemma snprintf_at_spec:
  assumes "off + sz \<le> length buf" "0 < sz"
  shows "\<exists>b. snprintf_at off sz txt buf = Some (length txt, b) \<and> length b = length buf \<and>
           take (off + min (length txt) (sz - 1)) b = take off buf @ take (sz - 1) txt"
  using assms by (auto simp: snprintf_at_def mem_write_def min_def)

lemma log_newline_spec:
  assumes "len < NX_LOG_LINE_MAX" "length buf = NX_LOG_LINE_MAX"
  shows "\<exists>b. log_newline len buf = Some (len + 1, b) \<and> length b = NX_LOG_LINE_MAX \<and>
           take (len + 1) b = take len buf @ [0x0A]"
proof (cases "len + 1 < NX_LOG_LINE_MAX")
  case True
  then show ?thesis using assms by (simp add: log_newline_def mem_write_def)
next
  case False
  then have "len = NX_LOG_LINE_MAX - 1" using assms(1) by linarith
  then show ?thesis using assms by (simp add: log_newline_def mem_write_def)
qed

lemma log_format_spec:
  "\<exists>len buf. log_format prefix (Some txt) = Some (Some (len, buf)) \<and> len < NX_LOG_LINE_MAX \<and>
     length buf = NX_LOG_LINE_MAX \<and> take len buf = take (NX_LOG_LINE_MAX - 1) (prefix @ txt)"
proof -
  have pos: "0 < NX_LOG_LINE_MAX" by (simp add: NX_LOG_LINE_MAX_def)
  obtain b where b: "snprintf_at 0 NX_LOG_LINE_MAX prefix (replicate NX_LOG_LINE_MAX 0) = Some (length prefix, b)"
    "length b = NX_LOG_LINE_MAX"
    "take (min (length prefix) (NX_LOG_LINE_MAX - 1)) b = take (NX_LOG_LINE_MAX - 1) prefix"
    using snprintf_at_spec[of 0 NX_LOG_LINE_MAX "replicate NX_LOG_LINE_MAX 0" prefix] pos by auto
  show ?thesis
  proof (cases "NX_LOG_LINE_MAX \<le> length prefix")
    case True
    then show ?thesis using b pos by (simp add: log_format_def)
  next
    case False
    let ?n = "length prefix"
    obtain b1 where b1: "snprintf_at ?n (NX_LOG_LINE_MAX - ?n) txt b = Some (length txt, b1)" "length b1 = NX_LOG_LINE_MAX"
      "take (?n + min (length txt) (NX_LOG_LINE_MAX - ?n - 1)) b1 = take ?n b @ take (NX_LOG_LINE_MAX - ?n - 1) txt"
      using snprintf_at_spec[of ?n "NX_LOG_LINE_MAX - ?n" b "txt"] b(2) False by auto
    have "take ?n b = prefix" using b(3) False by (simp add: min_absorb1)
    moreover have "(if ?n + length txt \<ge> NX_LOG_LINE_MAX then NX_LOG_LINE_MAX - 1 else ?n + length txt)
        = ?n + min (length txt) (NX_LOG_LINE_MAX - ?n - 1)"
      using False by (auto simp: min_def)
    ultimately show ?thesis using b b1 False by (simp add: log_format_def Let_def)
  qed
qed

lemma log_line_built:
  "\<exists>len buf buf'. log_format prefix (Some txt) = Some (Some (len, buf)) \<and>
     log_newline len buf = Some (length (log_line prefix txt), buf') \<and>
     length buf' = NX_LOG_LINE_MAX \<and> take (length (log_line prefix txt)) buf' = log_line prefix txt"
proof -
  obtain len buf where f: "log_format prefix (Some txt) = Some (Some (len, buf))" "len < NX_LOG_LINE_MAX"
    "length buf = NX_LOG_LINE_MAX" "take len buf = take (NX_LOG_LINE_MAX - 1) (prefix @ txt)"
    using log_format_spec by blast
  obtain b where b: "log_newline len buf = Some (len + 1, b)" "length b = NX_LOG_LINE_MAX"
    "take (len + 1) b = take len buf @ [0x0A]"
    using log_newline_spec[OF f(2,3)] by blast
  have line: "take len buf @ [0x0A] = log_line prefix txt" by (simp add: log_line_def f(4))
  then have "length (log_line prefix txt) = len + 1"
    using f(2,3) by (metis One_nat_def length_append length_take less_imp_le_nat list.size(3,4) min.absorb2 add_0)
  with f(1) b line show ?thesis by auto
qed

lemma length_log_line: "0 < length (log_line prefix txt)" "length (log_line prefix txt) \<le> NX_LOG_LINE_MAX"
  by (simp_all add: log_line_def NX_LOG_LINE_MAX_def)

section \<open>Writing\<close>

lemma ringbuf_append:
  assumes wf: "ringbuf_wf cap rb" and fits: "rb_count rb + len \<le> cap" and "len \<le> length buf"
  shows "\<exists>rb'. nx_ringbuf_write (Some rb) (Some buf) len = Some (len, Some rb') \<and> ringbuf_wf cap rb' \<and>
      ringbuf_items rb' = ringbuf_items rb @ take len buf"
proof -
  have "min len (cap - rb_count rb) = len" using fits by linarith
  then show ?thesis using nx_ringbuf_write_spec[OF wf assms(3)] by simp
qed

lemma ringbuf_free_wf: "ringbuf_wf cap rb \<Longrightarrow> nx_ringbuf_free (Some rb) = cap - rb_count rb \<and> rb_count rb \<le> cap"
  by (simp add: nx_ringbuf_free_def ringbuf_wf_def)

text \<open>The second half of the critical section: store the line if it fits now, otherwise count it as dropped.\<close>

lemma log_enqueue_stored:
  assumes room: "(if lg_on_full (lg_cfg l) = NX_LOG_ON_FULL_OVERWRITE_OLD
        then log_make_room (rb_count (lg_rb l) + 1) len (lg_rb l) (lg_dropped l)
        else Some (lg_rb l, lg_dropped l)) = Some (rb, d)"
    and wf: "ringbuf_wf cap rb" and len: "0 < len" "len \<le> length buf" and d: "d < 2 ^ 64"
  shows "\<exists>rb'. log_enqueue l buf len =
      Some (rb_count rb + len \<le> cap, l\<lparr> lg_rb := rb', lg_dropped := (d + (if rb_count rb + len \<le> cap then 0 else 1)) mod 2 ^ 64 \<rparr>) \<and>
      ringbuf_wf cap rb' \<and> ringbuf_items rb' = ringbuf_items rb @ (if rb_count rb + len \<le> cap then take len buf else [])"
proof (cases "rb_count rb + len \<le> cap")
  case True
  have free: "nx_ringbuf_free (Some rb) \<ge> len" using ringbuf_free_wf[OF wf] True by linarith
  obtain rb' where rb': "nx_ringbuf_write (Some rb) (Some buf) len = Some (len, Some rb')" "ringbuf_wf cap rb'"
    "ringbuf_items rb' = ringbuf_items rb @ take len buf"
    using ringbuf_append[OF wf True len(2)] by blast
  show ?thesis
    using True rb' free d by (intro exI[of _ rb']) (simp add: log_enqueue_def room)
next
  case False
  have "\<not> nx_ringbuf_free (Some rb) \<ge> len" using ringbuf_free_wf[OF wf] False len(1) by linarith
  then show ?thesis using False wf by (intro exI[of _ rb]) (simp add: log_enqueue_def room)
qed

definition log_evicted :: "nx_log_on_full \<Rightarrow> nat \<Rightarrow> nat \<Rightarrow> bytes \<Rightarrow> nat" where
  "log_evicted policy cap len s =
     (if policy = NX_LOG_ON_FULL_OVERWRITE_OLD then evict_until cap len (lines_of s) else 0)"

lemma log_enqueue_spec:
  assumes wf: "ringbuf_wf cap (lg_rb l)" and len: "0 < len" "len \<le> length buf" and d: "lg_dropped l < 2 ^ 64"
    and k: "k = log_evicted (lg_on_full (lg_cfg l)) cap len (ringbuf_items (lg_rb l))"
    and kept: "kept = concat (drop k (lines_of (ringbuf_items (lg_rb l))))"
  shows "\<exists>rb'. log_enqueue l buf len =
      Some (length kept + len \<le> cap,
        l\<lparr> lg_rb := rb', lg_dropped := (lg_dropped l + k + (if length kept + len \<le> cap then 0 else 1)) mod 2 ^ 64 \<rparr>) \<and>
      ringbuf_wf cap rb' \<and> ringbuf_items rb' = kept @ (if length kept + len \<le> cap then take len buf else [])"
proof -
  have "\<exists>rb. (if lg_on_full (lg_cfg l) = NX_LOG_ON_FULL_OVERWRITE_OLD
        then log_make_room (rb_count (lg_rb l) + 1) len (lg_rb l) (lg_dropped l)
        else Some (lg_rb l, lg_dropped l)) = Some (rb, (lg_dropped l + k) mod 2 ^ 64) \<and> ringbuf_wf cap rb \<and> ringbuf_items rb = kept"
  proof (cases "lg_on_full (lg_cfg l) = NX_LOG_ON_FULL_OVERWRITE_OLD")
    case True
    then have "k = evict_until cap len (lines_of (ringbuf_items (lg_rb l)))" by (simp add: k log_evicted_def)
    with log_make_room_spec[OF wf _ len(1) d, of "rb_count (lg_rb l) + 1"] True show ?thesis
      unfolding kept by simp
  next
    case False
    then have "k = 0" by (simp add: k log_evicted_def)
    with False wf d show ?thesis unfolding kept by simp
  qed
  then obtain rb where rb: "(if lg_on_full (lg_cfg l) = NX_LOG_ON_FULL_OVERWRITE_OLD
        then log_make_room (rb_count (lg_rb l) + 1) len (lg_rb l) (lg_dropped l)
        else Some (lg_rb l, lg_dropped l)) = Some (rb, (lg_dropped l + k) mod 2 ^ 64)" "ringbuf_wf cap rb" "ringbuf_items rb = kept"
    by blast
  have "rb_count rb = length kept" using length_ringbuf_items[of rb] unfolding rb(3) by simp
  with log_enqueue_stored[OF rb(1,2) len] show ?thesis by (simp add: rb(3) mod_simps)
qed

lemma nx_log_write_enqueues:
  assumes lvl: "level \<noteq> NX_LOG_LEVEL_OFF" "level \<le> lg_level (lg_cfg l)" and tick: "log_tick (lg_cfg l) e = (tick, e1)"
    and line: "line = log_line (log_prefix (log_tag level) tick file ln) txt"
  obtains buf where "length buf = NX_LOG_LINE_MAX" "take (length line) buf = line"
    "nx_log_write (Some l) level file ln (Some (Some txt)) e =
       map_option (\<lambda>(ok, l'). (ok, Some l', lock_bracket (lg_lock (lg_cfg l)) e1)) (log_enqueue l buf (length line))"
proof -
  obtain len buf buf' where b: "log_format (log_prefix (log_tag level) tick file ln) (Some txt) = Some (Some (len, buf))"
    "log_newline len buf = Some (length line, buf')" "length buf' = NX_LOG_LINE_MAX" "take (length line) buf' = line"
    using log_line_built unfolding line by blast
  have "nx_log_write (Some l) level file ln (Some (Some txt)) e =
       map_option (\<lambda>(ok, l'). (ok, Some l', lock_bracket (lg_lock (lg_cfg l)) e1)) (log_enqueue l buf' (length line))"
    using lvl b(1,2) tick
    by (cases "nx_lock_enter (lg_lock (lg_cfg l)) e1"; cases "log_enqueue l buf' (length line)")
      (auto simp: nx_log_write_def lock_bracket_def)
  with b(3,4) that show ?thesis by blast
qed

text \<open>
  C36: A log call at an enabled level stores exactly one line, the prefix and the text cut to 127 bytes and a
  newline, after the lines that stay, and returns whether it did. With the overwrite policy the lines removed are the least number of
  oldest whole lines that makes room (all of them when the line is longer than the buffer), with the other policy none;
  the drop counter grows by the lines lost, the new one included, and the buffer is touched in one lock bracket.
\<close>

theorem nx_log_write_keeps_newest_lines:
  assumes wf: "ringbuf_wf cap (lg_rb l)" and d: "lg_dropped l < 2 ^ 64"
    and lvl: "level \<noteq> NX_LOG_LEVEL_OFF" "level \<le> lg_level (lg_cfg l)"
    and tick: "log_tick (lg_cfg l) e = (tick, e1)"
    and line: "line = take (NX_LOG_LINE_MAX - 1) (log_prefix (log_tag level) tick file ln @ txt) @ [0x0A]"
    and ls: "ls = lines_of (ringbuf_items (lg_rb l))"
  shows "\<exists>k l' kept. k \<le> length ls \<and> kept = concat (drop k ls) \<and>
     nx_log_write (Some l) level file ln (Some (Some txt)) e =
       Some (length kept + length line \<le> cap, Some l', lock_bracket (lg_lock (lg_cfg l)) e1) \<and>
     ringbuf_items (lg_rb l') = kept @ (if length kept + length line \<le> cap then line else []) \<and>
     (if lg_on_full (lg_cfg l) = NX_LOG_ON_FULL_OVERWRITE_OLD
      then (\<forall>j < k. cap < length (concat (drop j ls)) + length line) \<and>
           (if length line \<le> cap then length kept + length line \<le> cap else k = length ls)
      else k = 0) \<and>
     lg_dropped l' = (lg_dropped l + k + (if length kept + length line \<le> cap then 0 else 1)) mod 2 ^ 64 \<and>
     lg_cfg l' = lg_cfg l \<and> ringbuf_wf cap (lg_rb l')"
proof -
  have line': "line = log_line (log_prefix (log_tag level) tick file ln) txt" by (simp add: line log_line_def)
  obtain buf where buf: "length buf = NX_LOG_LINE_MAX" "take (length line) buf = line"
    "nx_log_write (Some l) level file ln (Some (Some txt)) e =
       map_option (\<lambda>(ok, l'). (ok, Some l', lock_bracket (lg_lock (lg_cfg l)) e1)) (log_enqueue l buf (length line))"
    by (rule nx_log_write_enqueues[OF lvl tick line'])
  have len: "0 < length line" "length line \<le> length buf"
    unfolding line' buf(1) using length_log_line by blast+
  define k where "k = log_evicted (lg_on_full (lg_cfg l)) cap (length line) (ringbuf_items (lg_rb l))"
  define kept where "kept = concat (drop k ls)"
  obtain rb' where rb': "log_enqueue l buf (length line) =
      Some (length kept + length line \<le> cap,
        l\<lparr> lg_rb := rb', lg_dropped := (lg_dropped l + k + (if length kept + length line \<le> cap then 0 else 1)) mod 2 ^ 64 \<rparr>)"
    "ringbuf_wf cap rb'" "ringbuf_items rb' = kept @ (if length kept + length line \<le> cap then take (length line) buf else [])"
    using log_enqueue_spec[OF wf len d k_def] kept_def unfolding ls by blast
  have "k \<le> length ls" by (simp add: k_def log_evicted_def evict_until_le ls)
  moreover have "if lg_on_full (lg_cfg l) = NX_LOG_ON_FULL_OVERWRITE_OLD
      then (\<forall>j < k. cap < length (concat (drop j ls)) + length line) \<and>
           (if length line \<le> cap then length kept + length line \<le> cap else k = length ls)
      else k = 0"
    using evict_until_least[of _ cap "length line" ls] evict_until_fits[of "length line" cap ls]
      evict_until_all[of cap "length line" ls]
    by (auto simp: k_def log_evicted_def kept_def ls not_le)
  moreover define l' where "l' = l\<lparr> lg_rb := rb',
        lg_dropped := (lg_dropped l + k + (if length kept + length line \<le> cap then 0 else 1)) mod 2 ^ 64 \<rparr>"
  moreover have "lg_dropped l' = (lg_dropped l + k + (if length kept + length line \<le> cap then 0 else 1)) mod 2 ^ 64"
    "lg_cfg l' = lg_cfg l" "ringbuf_wf cap (lg_rb l')"
    by (simp_all add: l'_def rb'(2))
  moreover have "ringbuf_items (lg_rb l') = kept @ (if length kept + length line \<le> cap then line else [])"
    by (simp add: l'_def rb'(3) buf(2))
  moreover have "nx_log_write (Some l) level file ln (Some (Some txt)) e =
       Some (length kept + length line \<le> cap, Some l', lock_bracket (lg_lock (lg_cfg l)) e1)"
    by (simp add: buf(3) rb'(1) l'_def)
  ultimately show ?thesis using kept_def by blast
qed

section \<open>Draining\<close>

lemma nx_ringbuf_read_spec:
  assumes wf: "ringbuf_wf cap rb" and dst: "mx \<le> length dst"
  defines "n \<equiv> min mx (rb_count rb)"
  shows "\<exists>rb' d'. nx_ringbuf_read (Some rb) (Some dst) mx = Some ((n, Some d'), Some rb') \<and> ringbuf_wf cap rb' \<and>
     d' = take n (ringbuf_items rb) @ drop n dst \<and> ringbuf_items rb' = drop n (ringbuf_items rb)"
proof -
  obtain buf where "rb_buffer rb = Some buf" using wf by (auto simp: ringbuf_wf_def)
  moreover have "take mx (ringbuf_items rb) = take n (ringbuf_items rb)" by (simp add: n_def min_def)
  moreover have "min n (rb_count rb) = n" by (simp add: n_def)
  ultimately show ?thesis
    using nx_ringbuf_copy_out_spec[OF wf dst] nx_ringbuf_discard_spec[OF wf, of n]
    by (auto simp: nx_ringbuf_read_def on_handle_def n_def[symmetric])
qed

text \<open>What the environment sees of draining: each chunk handed to the sink after its own lock bracket.\<close>

definition log_sink_step :: "'e nx_lock option \<Rightarrow> (bytes \<Rightarrow> 'e \<Rightarrow> 'e) \<Rightarrow> 'e \<Rightarrow> bytes \<Rightarrow> 'e" where
  "log_sink_step lock sink e c = sink c (lock_bracket lock e)"

lemma log_process_loop_spec:
  "ringbuf_wf cap (lg_rb l) \<Longrightarrow> rb_count (lg_rb l) < fuel \<Longrightarrow>
   \<exists>cs rb'. concat cs = ringbuf_items (lg_rb l) \<and> (\<forall>c\<in>set cs. c \<noteq> [] \<and> length c \<le> NX_LOG_LINE_MAX) \<and>
     log_process_loop fuel sink l tot e =
       Some (tot + rb_count (lg_rb l), l\<lparr> lg_rb := rb' \<rparr>,
         lock_bracket (lg_lock (lg_cfg l)) (foldl (log_sink_step (lg_lock (lg_cfg l)) sink) e cs)) \<and>
     ringbuf_wf cap rb' \<and> ringbuf_items rb' = []"
proof (induction fuel arbitrary: l tot e)
  case (Suc fuel)
  let ?rb = "lg_rb l" and ?lock = "lg_lock (lg_cfg l)"
  let ?n = "min NX_LOG_LINE_MAX (rb_count ?rb)"
  obtain rb1 d1 where rd: "nx_ringbuf_read (Some ?rb) (Some (replicate NX_LOG_LINE_MAX 0)) NX_LOG_LINE_MAX = Some ((?n, Some d1), Some rb1)"
    "ringbuf_wf cap rb1" "d1 = take ?n (ringbuf_items ?rb) @ drop ?n (replicate NX_LOG_LINE_MAX 0)"
    "ringbuf_items rb1 = drop ?n (ringbuf_items ?rb)"
    using nx_ringbuf_read_spec[OF Suc.prems(1), of NX_LOG_LINE_MAX "replicate NX_LOG_LINE_MAX 0"] by auto
  obtain saved e1 where en: "nx_lock_enter ?lock e = (saved, e1)" by fastforce
  have br: "lock_bracket ?lock e = nx_lock_exit ?lock saved e1" by (simp add: lock_bracket_def en)
  show ?case
  proof (cases "?n = 0")
    case True
    then have z: "rb_count ?rb = 0" by (simp add: NX_LOG_LINE_MAX_def min_def split: if_splits)
    then have "ringbuf_items ?rb = []" by (metis length_0_conv length_ringbuf_items)
    then show ?thesis
      using rd en z br by (intro exI[of _ "[]"] exI[of _ rb1]) (simp add: Let_def)
  next
    case False
    have c1: "rb_count rb1 = rb_count ?rb - ?n" using rd(4) by (metis length_drop length_ringbuf_items)
    then have "rb_count rb1 < fuel" using False Suc.prems(2) by linarith
    let ?c = "take ?n (ringbuf_items ?rb)"
    from Suc.IH[of "l\<lparr> lg_rb := rb1 \<rparr>" "tot + ?n" "log_sink_step ?lock sink e ?c"] rd(2) \<open>rb_count rb1 < fuel\<close>
    obtain cs rb' where ih: "concat cs = ringbuf_items rb1" "\<forall>c\<in>set cs. c \<noteq> [] \<and> length c \<le> NX_LOG_LINE_MAX"
      "log_process_loop fuel sink (l\<lparr> lg_rb := rb1 \<rparr>) (tot + ?n) (log_sink_step ?lock sink e ?c) =
         Some (tot + ?n + rb_count rb1, l\<lparr> lg_rb := rb' \<rparr>,
           lock_bracket ?lock (foldl (log_sink_step ?lock sink) (log_sink_step ?lock sink e ?c) cs))"
      "ringbuf_wf cap rb'" "ringbuf_items rb' = []"
      by auto
    have len: "length ?c = ?n" by simp
    then have "?c \<noteq> []" using False by (metis list.size(3))
    moreover have "mem_read 0 ?n d1 = Some ?c" using len by (simp add: rd(3) mem_read_def)
    moreover have "length ?c \<le> NX_LOG_LINE_MAX" using len by linarith
    ultimately have c: "mem_read 0 ?n d1 = Some ?c" "?c \<noteq> []" "length ?c \<le> NX_LOG_LINE_MAX" by blast+
    have "concat (?c # cs) = ringbuf_items ?rb" by (simp add: ih(1) rd(4))
    moreover have "log_process_loop (Suc fuel) sink l tot e =
       Some (tot + rb_count ?rb, l\<lparr> lg_rb := rb' \<rparr>, lock_bracket ?lock (foldl (log_sink_step ?lock sink) e (?c # cs)))"
      using False rd(1) en br c(1) ih(3) c1 by (simp add: Let_def log_sink_step_def)
    ultimately show ?thesis
      using ih(2,4,5) c(2,3) by (intro exI[of _ "?c # cs"] exI[of _ rb']) auto
  qed
qed simp

text \<open>
  C37: Processing returns, hands the sink the stored stream, whole, in order and in non-empty chunks of at most 128 bytes,
  reports its length and leaves the buffer empty; the lock is held once for each chunk read, and is free whenever the sink runs.
\<close>

theorem nx_log_process_drains_stream:
  assumes wf: "ringbuf_wf cap (lg_rb l)" and sink: "lg_write (lg_cfg l) = Some sink" and lock: "lock = lg_lock (lg_cfg l)"
  shows "\<exists>cs l'. nx_log_process (Some l) e =
      Some (length (concat cs), Some l', lock_bracket lock (foldl (\<lambda>e c. sink c (lock_bracket lock e)) e cs)) \<and>
    concat cs = ringbuf_items (lg_rb l) \<and> (\<forall>c\<in>set cs. c \<noteq> [] \<and> length c \<le> NX_LOG_LINE_MAX) \<and>
    ringbuf_items (lg_rb l') = [] \<and> ringbuf_wf cap (lg_rb l') \<and> lg_cfg l' = lg_cfg l \<and> lg_dropped l' = lg_dropped l"
proof -
  obtain cs rb' where cs: "concat cs = ringbuf_items (lg_rb l)" "\<forall>c\<in>set cs. c \<noteq> [] \<and> length c \<le> NX_LOG_LINE_MAX"
    "log_process_loop (rb_count (lg_rb l) + 1) sink l 0 e =
       Some (rb_count (lg_rb l), l\<lparr> lg_rb := rb' \<rparr>, lock_bracket lock (foldl (log_sink_step lock sink) e cs))"
    "ringbuf_wf cap rb'" "ringbuf_items rb' = []"
    using log_process_loop_spec[OF wf, of "rb_count (lg_rb l) + 1" sink 0 e] unfolding lock by auto
  have "log_sink_step lock sink = (\<lambda>e c. sink c (lock_bracket lock e))" by (simp add: log_sink_step_def fun_eq_iff)
  with cs sink show ?thesis
    by (intro exI[of _ cs] exI[of _ "l\<lparr> lg_rb := rb' \<rparr>"]) (simp add: nx_log_process_def)
qed

section \<open>Witnesses\<close>

definition demo_log :: "bytes list nx_log" where
  "demo_log = \<lparr>
     lg_cfg = \<lparr> lg_buffer = Some (replicate 24 0), lg_buffer_size = 24, lg_write = Some (\<lambda>c out. out @ [c]),
                lg_get_tick = None, lg_level = 3, lg_on_full = NX_LOG_ON_FULL_OVERWRITE_OLD, lg_lock = None \<rparr>,
     lg_rb = \<lparr> rb_buffer = Some ([0x61, 0x62, 0x0A, 0x63, 0x64, 0x65, 0x66, 0x0A] @ replicate 16 0), rb_capacity = 24,
               rb_read_pos = 0, rb_count = 8 \<rparr>,
     lg_dropped = 0 \<rparr>"

lemma demo_log_wf: "ringbuf_wf 24 (lg_rb demo_log)"
  by (simp add: demo_log_def ringbuf_wf_def)

text \<open>A 20-byte line evicts the line \<open>ab\<close> and then \<open>cdef\<close> of a 24-byte buffer.\<close>

theorem nx_log_write_keeps_newest_lines_witness:
  "\<exists>l'. nx_log_write (Some demo_log) 1 [0x6D] 7 (Some (Some (replicate 10 0x78))) [] = Some (True, Some l', []) \<and>
     ringbuf_items (lg_rb l') = [0x5B, 0x45, 0x5D, 0x20, 0x6D, 0x3A, 0x37, 0x3A, 0x20] @ replicate 10 0x78 @ [0x0A] \<and> lg_dropped l' = 2"
proof -
  have items: "lines_of (ringbuf_items (lg_rb demo_log)) = [[0x61, 0x62, 0x0A], [0x63, 0x64, 0x65, 0x66, 0x0A]]"
    by code_simp
  have line: "take (NX_LOG_LINE_MAX - 1) (log_prefix (log_tag 1) None [0x6D] 7 @ replicate 10 0x78) @ [0x0A] =
    [0x5B, 0x45, 0x5D, 0x20, 0x6D, 0x3A, 0x37, 0x3A, 0x20] @ replicate 10 0x78 @ [0x0A]" (is "?line = _")
    by code_simp
  have sel: "lg_level (lg_cfg demo_log) = 3" "lg_on_full (lg_cfg demo_log) = NX_LOG_ON_FULL_OVERWRITE_OLD"
    "lg_lock (lg_cfg demo_log) = None" "lg_dropped demo_log = 0"
    by (simp_all add: demo_log_def)
  have "log_tick (lg_cfg demo_log) [] = (None, [])" by (simp add: log_tick_def demo_log_def)
  from nx_log_write_keeps_newest_lines[OF demo_log_wf _ _ _ this refl refl, of 1 "[0x6D]" 7 "replicate 10 0x78"]
  obtain k l' where r: "k \<le> Suc (Suc 0)" "length (concat (drop k [[0x61, 0x62, 0x0A], [0x63, 0x64, 0x65, 0x66, 0x0A :: u8]])) \<le> 4"
    "nx_log_write (Some demo_log) 1 [0x6D] 7 (Some (Some (replicate 10 0x78))) [] = Some (True, Some l', [])"
    "ringbuf_items (lg_rb l') = concat (drop k [[0x61, 0x62, 0x0A], [0x63, 0x64, 0x65, 0x66, 0x0A]]) @
       [0x5B, 0x45, 0x5D, 0x20, 0x6D, 0x3A, 0x37, 0x3A, 0x20] @ replicate 10 0x78 @ [0x0A]" "lg_dropped l' = k"
    unfolding items line sel by (auto simp: NX_LOG_LEVEL_OFF_def)
  have "k = 2"
  proof -
    have "k \<noteq> 0" using r(2) by (cases k) auto
    moreover have "k \<noteq> 1" using r(2) by (cases "k = 1") auto
    ultimately have "k \<noteq> 0" "k \<noteq> 1" by blast+
    with r(1) show ?thesis by linarith
  qed
  with r show ?thesis by auto
qed

theorem nx_log_process_drains_stream_witness:
  "\<exists>cs l'. nx_log_process (Some demo_log) [] = Some (8, Some l', cs) \<and>
     concat cs = [0x61, 0x62, 0x0A, 0x63, 0x64, 0x65, 0x66, 0x0A] \<and> ringbuf_items (lg_rb l') = []"
proof -
  have items: "ringbuf_items (lg_rb demo_log) = [0x61, 0x62, 0x0A, 0x63, 0x64, 0x65, 0x66, 0x0A]" by code_simp
  have fold: "foldl (\<lambda>e c. e @ [c]) [] cs = (cs :: bytes list)" for cs
  proof -
    have "foldl (\<lambda>e c. e @ [c]) out cs = out @ cs" for out :: "bytes list" by (induction cs arbitrary: out) auto
    then show ?thesis by simp
  qed
  have sink: "lg_write (lg_cfg demo_log) = Some (\<lambda>c out. out @ [c])" "lg_lock (lg_cfg demo_log) = None"
    by (simp_all add: demo_log_def)
  from nx_log_process_drains_stream[OF demo_log_wf sink(1) refl, of "[]"] show ?thesis
    unfolding sink(2) lock_bracket_None fold items by auto
qed

end
