(* ===== verification/Nx_Tp_Sdu.thy ===== *)
theory Nx_Tp_Sdu
  imports Nx_Ref_Msg Nx_Can_Bus
begin

text \<open>
  \<open>src/middleware/nx_tp_sdu.h\<close>: the message a transport exchanges with the layer above it, and the
  access to message payloads: a pooled block holds either a CAN frame or a
  service data unit, written and read through the data pointer while the block is live.
\<close>

section \<open>Service data units\<close>

text \<open>The enumerators, as the bytes the fields hold.\<close>

abbreviation (input) NX_TP_TA_PHYSICAL :: u8 where "NX_TP_TA_PHYSICAL \<equiv> 0"
abbreviation (input) NX_TP_TA_FUNCTIONAL :: u8 where "NX_TP_TA_FUNCTIONAL \<equiv> 1"

abbreviation (input) NX_TP_SDU_INDICATION :: u8 where "NX_TP_SDU_INDICATION \<equiv> 0"
abbreviation (input) NX_TP_SDU_CONFIRM :: u8 where "NX_TP_SDU_CONFIRM \<equiv> 1"

abbreviation (input) NX_TP_N_OK :: u8 where "NX_TP_N_OK \<equiv> 0"
abbreviation (input) NX_TP_N_TIMEOUT_A :: u8 where "NX_TP_N_TIMEOUT_A \<equiv> 1"
abbreviation (input) NX_TP_N_TIMEOUT_BS :: u8 where "NX_TP_N_TIMEOUT_BS \<equiv> 2"
abbreviation (input) NX_TP_N_TIMEOUT_CR :: u8 where "NX_TP_N_TIMEOUT_CR \<equiv> 3"
abbreviation (input) NX_TP_N_WRONG_SN :: u8 where "NX_TP_N_WRONG_SN \<equiv> 4"
abbreviation (input) NX_TP_N_INVALID_FS :: u8 where "NX_TP_N_INVALID_FS \<equiv> 5"
abbreviation (input) NX_TP_N_UNEXP_PDU :: u8 where "NX_TP_N_UNEXP_PDU \<equiv> 6"
abbreviation (input) NX_TP_N_WFT_OVRN :: u8 where "NX_TP_N_WFT_OVRN \<equiv> 7"
abbreviation (input) NX_TP_N_BUFFER_OVFLW :: u8 where "NX_TP_N_BUFFER_OVFLW \<equiv> 8"
abbreviation (input) NX_TP_N_ERROR :: u8 where "NX_TP_N_ERROR \<equiv> 9"

record nx_tp_sdu =
  sd_len :: u32
  sd_link :: u8
  sd_kind :: u8
  sd_ta_type :: u8
  sd_result :: u8
  sd_data :: bytes

text \<open>What a message block holds after its header, and the bytes it takes there.\<close>

datatype tp_data = Frame nx_can_msg | Sdu nx_tp_sdu

definition CAN_MSG_SIZEOF :: nat where "CAN_MSG_SIZEOF = 16"
definition TP_SDU_SIZEOF :: nat where "TP_SDU_SIZEOF = 8"

fun tp_size :: "tp_data \<Rightarrow> nat" where
  "tp_size (Frame cm) = CAN_MSG_SIZEOF + length (cm_data cm)"
| "tp_size (Sdu s) = TP_SDU_SIZEOF + length (sd_data s)"

section \<open>Payload access\<close>

abbreviation msg_store :: "('e, tp_data) ref_world \<Rightarrow> nat \<Rightarrow> tp_data \<Rightarrow> ('e, tp_data) ref_world option" where
  "msg_store \<equiv> msg_put tp_size"

definition msg_frame :: "('e, tp_data) ref_world \<Rightarrow> nat \<Rightarrow> nx_can_msg option" where
  "msg_frame w a = do { d \<leftarrow> msg_load w a; case d of Frame cm \<Rightarrow> Some cm | Sdu s \<Rightarrow> None }"

definition msg_sdu :: "('e, tp_data) ref_world \<Rightarrow> nat \<Rightarrow> nx_tp_sdu option" where
  "msg_sdu w a = do { d \<leftarrow> msg_load w a; case d of Frame cm \<Rightarrow> None | Sdu s \<Rightarrow> Some s }"

end
