(* ===== verification/Nx_Can_Isotp.thy ===== *)
theory Nx_Can_Isotp
  imports Nx_Tp_Sdu
begin

text \<open>
  \<open>src/middleware/nx_can_isotp.c\<close> and \<open>nx_can_isotp.h\<close>: the ISO 15765-2 transport between a queue of service data units and a queue of
  CAN frames. An operation takes the instance and the world (pools, messages, queues, and the
  environment the clock lives in) and returns both; \<open>None\<close> is an access outside an object, to a released message or
  to a payload of the wrong kind, or not returning. Operations that only read the instance take its configuration.
\<close>

section \<open>Constants and types\<close>

abbreviation (input) NX_CAN_ISOTP_PCI_SF :: u8 where "NX_CAN_ISOTP_PCI_SF \<equiv> 0x00"
abbreviation (input) NX_CAN_ISOTP_PCI_FF :: u8 where "NX_CAN_ISOTP_PCI_FF \<equiv> 0x10"
abbreviation (input) NX_CAN_ISOTP_PCI_CF :: u8 where "NX_CAN_ISOTP_PCI_CF \<equiv> 0x20"
abbreviation (input) NX_CAN_ISOTP_PCI_FC :: u8 where "NX_CAN_ISOTP_PCI_FC \<equiv> 0x30"
abbreviation (input) NX_CAN_ISOTP_FFDL_12 :: nat where "NX_CAN_ISOTP_FFDL_12 \<equiv> 4095"
abbreviation (input) NX_CAN_ISOTP_SF_DL_4 :: nat where "NX_CAN_ISOTP_SF_DL_4 \<equiv> 7"
abbreviation (input) NX_CAN_ISOTP_FS_CTS :: u8 where "NX_CAN_ISOTP_FS_CTS \<equiv> 0"
abbreviation (input) NX_CAN_ISOTP_FS_WAIT :: u8 where "NX_CAN_ISOTP_FS_WAIT \<equiv> 1"
abbreviation (input) NX_CAN_ISOTP_FS_OVFLW :: u8 where "NX_CAN_ISOTP_FS_OVFLW \<equiv> 2"
abbreviation (input) NX_CAN_ISOTP_DEFAULT_TIMEOUT_US :: u32 where "NX_CAN_ISOTP_DEFAULT_TIMEOUT_US \<equiv> 1000000"
abbreviation (input) NX_CAN_ISOTP_DEFAULT_WFT_MAX :: u8 where "NX_CAN_ISOTP_DEFAULT_WFT_MAX \<equiv> 4"
abbreviation (input) NX_CAN_ISOTP_FRAME_8 :: u8 where "NX_CAN_ISOTP_FRAME_8 \<equiv> 8"

datatype isotp_rx_state = NX_ISOTP_RX_IDLE | NX_ISOTP_RX_ASSEM | NX_ISOTP_RX_FC_WAIT

datatype isotp_tx_state = NX_ISOTP_TX_IDLE | NX_ISOTP_TX_WAIT_FC | NX_ISOTP_TX_SEND | NX_ISOTP_TX_WAIT_LINK

datatype nx_can_isotp_ret =
  NX_CAN_ISOTP_OK | NX_CAN_ISOTP_ERR_PARAM | NX_CAN_ISOTP_ERR_NOMEM | NX_CAN_ISOTP_ERR_FULL | NX_CAN_ISOTP_ERR_STATE |
  NX_CAN_ISOTP_ERR_LENGTH

text \<open>\<open>NX_CAN_ISOTP_MSG_OVERHEAD\<close> and, for a 64-bit \<open>size_t\<close>, \<open>NX_CAN_ISOTP_MAX_MSG_LEN\<close>.\<close>

definition NX_CAN_ISOTP_MSG_OVERHEAD :: nat where
  "NX_CAN_ISOTP_MSG_OVERHEAD = REF_MSG_SIZEOF + TP_SDU_SIZEOF"

definition NX_CAN_ISOTP_MAX_MSG_LEN :: nat where
  "NX_CAN_ISOTP_MAX_MSG_LEN = 0xFFFFFFFF - NX_CAN_ISOTP_MSG_OVERHEAD"

record nx_can_isotp_rx =
  ir_state :: isotp_rx_state
  ir_sn :: u8
  ir_block_left :: u8
  ir_total :: u32
  ir_filled :: u32
  ir_acc :: nat
  ir_deadline :: u32

record nx_can_isotp_tx =
  it_state :: isotp_tx_state
  it_sn :: u8
  it_bs :: u8
  it_wft :: u8
  it_ta_type :: u8
  it_sent :: u32
  it_total :: u32
  it_stmin_us :: u32
  it_last_us :: u32
  it_deadline :: u32
  it_tx_id :: u32
  it_sdu :: nat

text \<open>Pool and queues are addresses, 0 for NULL; the clock reads the environment.\<close>

record 'e nx_can_isotp_cfg =
  ic_max_frame_len :: u8
  ic_ext_id :: bool
  ic_fd_frames :: bool
  ic_brs :: bool
  ic_pad_frames :: bool
  ic_pad_byte :: u8
  ic_ch :: u8
  ic_phys_rx_id :: u32
  ic_phys_tx_id :: u32
  ic_func_rx_id :: u32
  ic_func_tx_id :: u32
  ic_pool :: nat
  ic_sdu_rx_queue :: nat
  ic_sdu_tx_queue :: nat
  ic_can_rx_queue :: nat
  ic_can_tx_queue :: nat
  ic_link :: u8
  ic_confirm_tx :: bool
  ic_get_us :: "('e \<Rightarrow> u32 \<times> 'e) option"
  ic_n_as_us :: u32
  ic_n_ar_us :: u32
  ic_n_bs_us :: u32
  ic_n_cr_us :: u32
  ic_n_wft_max :: u8
  ic_rx_max_len :: u32
  ic_rx_block_size :: u8
  ic_rx_stmin :: u8
  ic_tx_frames_per_process :: u8

record 'e nx_can_isotp =
  iso_cfg :: "'e nx_can_isotp_cfg"
  iso_rx :: nx_can_isotp_rx
  iso_tx :: nx_can_isotp_tx

type_synonym 'e tp_world = "('e, tp_data) ref_world"

definition istp_now :: "'e nx_can_isotp_cfg \<Rightarrow> 'e tp_world \<Rightarrow> (u32 \<times> 'e tp_world) option" where
  "istp_now cfg w =
     map_option (\<lambda>f. let (t, e) = f (rw_env w) in (t, w\<lparr> rw_env := e \<rparr>)) (ic_get_us cfg)"

definition istp_stmin_to_us :: "u8 \<Rightarrow> u32" where
  "istp_stmin_to_us st =
     (if st \<ge> 0x01 \<and> st \<le> 0x7F then ucast st * 1000
      else if st \<ge> 0xF1 \<and> st \<le> 0xF9 then ucast (st - 0xF0) * 100
      else 0)"

section \<open>Frame emission\<close>

text \<open>
  The payload of a frame: header, the part of the source that fits, filler. \<open>src\<close> is the memory at the source pointer,
  \<open>None\<close> for NULL. The result is the length code and the bytes.
\<close>

definition istp_frame_data ::
  "'e nx_can_isotp_cfg \<Rightarrow> bytes option \<Rightarrow> nat \<Rightarrow> bytes \<Rightarrow> (u8 \<times> nat \<times> (bytes option)) " where
  "istp_frame_data cfg src plen pci =
     (let cap = size_sub (unat (ic_max_frame_len cfg)) (length pci);
          chunk = (if plen < cap then plen else cap);
          used = length pci + chunk;
          want = (if ic_pad_frames cfg \<and> used < NX_CAN_MAX_CLASSIC_LEN then NX_CAN_MAX_CLASSIC_LEN else used);
          dlc = nx_can_len_to_dlc (of_nat want);
          wire = unat (nx_can_dlc_to_len dlc)
      in (dlc, wire, do {
            d1 \<leftarrow> mem_write 0 pci (replicate wire 0);
            d2 \<leftarrow> (if chunk > 0 then do { s \<leftarrow> src; x \<leftarrow> mem_read 0 chunk s; mem_write (length pci) x d1 } else Some d1);
            if wire > used then mem_write used (replicate (wire - used) (ic_pad_byte cfg)) d2 else Some d2 }))"

definition istp_emit_frame ::
  "'e nx_can_isotp_cfg \<Rightarrow> 'e tp_world \<Rightarrow> u32 \<Rightarrow> bytes option \<Rightarrow> nat \<Rightarrow> bytes \<Rightarrow> (bool \<times> 'e tp_world) option" where
  "istp_emit_frame cfg w id0 src plen pci =
     (let (dlc, wire, dat) = istp_frame_data cfg src plen pci
      in do {
        (f, w1) \<leftarrow> nx_ref_msg_alloc w (ic_pool cfg) (CAN_MSG_SIZEOF + wire);
        if f = 0 then Some (False, w1)
        else do {
          d \<leftarrow> dat;
          let cm = \<lparr> cm_id = id0,
                     cm_flags = nx_can_flags_zero\<lparr> cf_ch := ucast (ic_ch cfg), cf_is_ext := ic_ext_id cfg,
                       cf_is_fd := ic_fd_frames cfg, cf_brs := ic_brs cfg, cf_dlc := ucast dlc \<rparr>,
                     cm_timestamp = 0, cm_data = d \<rparr>;
          w2 \<leftarrow> msg_store w1 f (Frame cm);
          (_, w3) \<leftarrow> nx_ref_msg_shrink w2 f (CAN_MSG_SIZEOF + wire);
          (r, w4) \<leftarrow> nx_ref_msg_publish w3 f (ic_can_tx_queue cfg);
          if r \<noteq> NX_REF_MSG_OK
          then do { (_, w5) \<leftarrow> nx_ref_msg_release w4 f; Some (False, w5) }
          else do { (_, w5) \<leftarrow> nx_ref_msg_release w4 f; Some (True, w5) } } })"

definition istp_emit_sf ::
  "'e nx_can_isotp_cfg \<Rightarrow> 'e tp_world \<Rightarrow> u32 \<Rightarrow> bytes \<Rightarrow> nat \<Rightarrow> (bool \<times> 'e tp_world) option" where
  "istp_emit_sf cfg w id0 src plen =
     (if plen \<le> NX_CAN_ISOTP_SF_DL_4
      then istp_emit_frame cfg w id0 (Some src) plen [NX_CAN_ISOTP_PCI_SF OR of_nat plen]
      else istp_emit_frame cfg w id0 (Some src) plen [NX_CAN_ISOTP_PCI_SF, of_nat plen])"

definition istp_sf_capacity :: "'e nx_can_isotp_cfg \<Rightarrow> nat" where
  "istp_sf_capacity cfg =
     (if ic_max_frame_len cfg \<le> NX_CAN_ISOTP_FRAME_8 then NX_CAN_ISOTP_SF_DL_4 else unat (ic_max_frame_len cfg) - 2)"

definition istp_emit_cf ::
  "'e nx_can_isotp_cfg \<Rightarrow> 'e tp_world \<Rightarrow> u32 \<Rightarrow> bytes \<Rightarrow> nat \<Rightarrow> u8 \<Rightarrow> (bool \<times> 'e tp_world) option" where
  "istp_emit_cf cfg w id0 src plen sn =
     istp_emit_frame cfg w id0 (Some src) plen [NX_CAN_ISOTP_PCI_CF OR (sn AND 0x0F)]"

text \<open>The header of a first frame: 12-bit length, or the escape and 32 bits.\<close>

definition istp_ff_pci :: "u32 \<Rightarrow> bytes" where
  "istp_ff_pci len =
     (if unat len > NX_CAN_ISOTP_FFDL_12
      then [NX_CAN_ISOTP_PCI_FF, 0x00, ucast (drop_bit 24 len), ucast (drop_bit 16 len), ucast (drop_bit 8 len), ucast len]
      else [NX_CAN_ISOTP_PCI_FF OR ucast (drop_bit 8 len), ucast len])"

definition istp_emit_ff ::
  "'e nx_can_isotp_cfg \<Rightarrow> 'e tp_world \<Rightarrow> u32 \<Rightarrow> bytes \<Rightarrow> u32 \<Rightarrow> (nat \<times> 'e tp_world) option" where
  "istp_emit_ff cfg w id0 src len = do {
     (ok, w1) \<leftarrow> istp_emit_frame cfg w id0 (Some src) (unat len) (istp_ff_pci len);
     if \<not> ok then Some (0, w1)
     else
       let cap = size_sub (unat (ic_max_frame_len cfg)) (length (istp_ff_pci len))
       in Some (if unat len < cap then unat len else cap, w1) }"

definition istp_emit_fc ::
  "'e nx_can_isotp_cfg \<Rightarrow> 'e tp_world \<Rightarrow> u8 \<Rightarrow> u8 \<Rightarrow> u8 \<Rightarrow> (bool \<times> 'e tp_world) option" where
  "istp_emit_fc cfg w fs bs stmin =
     istp_emit_frame cfg w (ic_phys_tx_id cfg) None 0 [NX_CAN_ISOTP_PCI_FC OR (fs AND 0x0F), bs, stmin]"

definition istp_emit_cts :: "'e nx_can_isotp \<Rightarrow> 'e tp_world \<Rightarrow> ('e nx_can_isotp \<times> 'e tp_world) option" where
  "istp_emit_cts tp w = do {
     (ok, w1) \<leftarrow> istp_emit_fc (iso_cfg tp) w NX_CAN_ISOTP_FS_CTS (ic_rx_block_size (iso_cfg tp)) (ic_rx_stmin (iso_cfg tp));
     if \<not> ok then
       if ir_state (iso_rx tp) \<noteq> NX_ISOTP_RX_FC_WAIT
       then do {
         (t, w2) \<leftarrow> istp_now (iso_cfg tp) w1;
         Some (tp\<lparr> iso_rx := (iso_rx tp)\<lparr> ir_state := NX_ISOTP_RX_FC_WAIT, ir_deadline := t + ic_n_ar_us (iso_cfg tp) \<rparr> \<rparr>, w2) }
       else Some (tp, w1)
     else do {
       (t, w2) \<leftarrow> istp_now (iso_cfg tp) w1;
       Some (tp\<lparr> iso_rx := (iso_rx tp)\<lparr> ir_block_left := ic_rx_block_size (iso_cfg tp), ir_state := NX_ISOTP_RX_ASSEM,
               ir_deadline := t + ic_n_cr_us (iso_cfg tp) \<rparr> \<rparr>, w2) } }"

text \<open>The header of a unit this instance publishes, over the payload already in the block.\<close>

definition istp_sdu_head :: "'e nx_can_isotp_cfg \<Rightarrow> u32 \<Rightarrow> u8 \<Rightarrow> u8 \<Rightarrow> u8 \<Rightarrow> bytes \<Rightarrow> nx_tp_sdu" where
  "istp_sdu_head cfg len kind ta_type result dat =
     \<lparr> sd_len = len, sd_link = ic_link cfg, sd_kind = kind, sd_ta_type = ta_type, sd_result = result, sd_data = dat \<rparr>"

text \<open>
  An empty report: what \<open>istp_tx_confirm\<close> and \<open>istp_rx_abort\<close> do once they have decided to report.
\<close>

definition istp_report :: "'e nx_can_isotp_cfg \<Rightarrow> 'e tp_world \<Rightarrow> u8 \<Rightarrow> u8 \<Rightarrow> 'e tp_world option" where
  "istp_report cfg w kind result = do {
     (m, w1) \<leftarrow> nx_ref_msg_alloc w (ic_pool cfg) TP_SDU_SIZEOF;
     if m = 0 then Some w1
     else do {
       w2 \<leftarrow> msg_store w1 m (Sdu (istp_sdu_head cfg 0 kind NX_TP_TA_PHYSICAL result []));
       (_, w3) \<leftarrow> nx_ref_msg_publish w2 m (ic_sdu_tx_queue cfg);
       (_, w4) \<leftarrow> nx_ref_msg_release w3 m;
       Some w4 } }"

definition istp_tx_confirm :: "'e nx_can_isotp_cfg \<Rightarrow> 'e tp_world \<Rightarrow> u8 \<Rightarrow> 'e tp_world option" where
  "istp_tx_confirm cfg w result =
     (if \<not> ic_confirm_tx cfg then Some w else istp_report cfg w NX_TP_SDU_CONFIRM result)"

section \<open>Reception\<close>

definition istp_rx_reset :: "'e nx_can_isotp \<Rightarrow> 'e tp_world \<Rightarrow> ('e nx_can_isotp \<times> 'e tp_world) option" where
  "istp_rx_reset tp w = do {
     w1 \<leftarrow> (if ir_acc (iso_rx tp) \<noteq> 0 then map_option snd (nx_ref_msg_release w (ir_acc (iso_rx tp))) else Some w);
     Some (tp\<lparr> iso_rx := (iso_rx tp)\<lparr> ir_acc := 0, ir_state := NX_ISOTP_RX_IDLE, ir_sn := 0, ir_total := 0,
             ir_filled := 0, ir_block_left := 0 \<rparr> \<rparr>, w1) }"

definition istp_rx_abort :: "'e nx_can_isotp \<Rightarrow> 'e tp_world \<Rightarrow> u8 \<Rightarrow> ('e nx_can_isotp \<times> 'e tp_world) option" where
  "istp_rx_abort tp w result =
     (let was_active = (ir_state (iso_rx tp) \<noteq> NX_ISOTP_RX_IDLE)
      in do {
        (tp1, w1) \<leftarrow> istp_rx_reset tp w;
        if was_active \<and> ic_confirm_tx (iso_cfg tp1)
        then do { w2 \<leftarrow> istp_report (iso_cfg tp1) w1 NX_TP_SDU_INDICATION result; Some (tp1, w2) }
        else Some (tp1, w1) })"

definition istp_rx_finish :: "'e nx_can_isotp \<Rightarrow> 'e tp_world \<Rightarrow> ('e nx_can_isotp \<times> 'e tp_world) option" where
  "istp_rx_finish tp w =
     (let m = ir_acc (iso_rx tp)
      in do {
        (tp1, w1) \<leftarrow> istp_rx_reset (tp\<lparr> iso_rx := (iso_rx tp)\<lparr> ir_acc := 0 \<rparr> \<rparr>) w;
        (_, w2) \<leftarrow> nx_ref_msg_publish w1 m (ic_sdu_tx_queue (iso_cfg tp1));
        (_, w3) \<leftarrow> nx_ref_msg_release w2 m;
        Some (tp1, w3) })"

definition istp_rx_single ::
  "'e nx_can_isotp_cfg \<Rightarrow> 'e tp_world \<Rightarrow> u8 \<Rightarrow> bytes \<Rightarrow> nat \<Rightarrow> nat \<Rightarrow> 'e tp_world option" where
  "istp_rx_single cfg w ta_type d plen hdr = do {
     (m, w1) \<leftarrow> nx_ref_msg_alloc w (ic_pool cfg) (TP_SDU_SIZEOF + plen);
     if m = 0 then Some w1
     else do {
       x \<leftarrow> mem_read hdr plen d;
       w2 \<leftarrow> msg_store w1 m (Sdu (istp_sdu_head cfg (of_nat plen) NX_TP_SDU_INDICATION ta_type NX_TP_N_OK x));
       (_, w3) \<leftarrow> nx_ref_msg_publish w2 m (ic_sdu_tx_queue cfg);
       (_, w4) \<leftarrow> nx_ref_msg_release w3 m;
       Some w4 } }"

text \<open>The outer \<open>None\<close> is a read past the frame, the inner one \<open>false\<close>; otherwise the length and the header size.\<close>

definition istp_sf_len :: "bytes \<Rightarrow> nat \<Rightarrow> (nat \<times> nat) option option" where
  "istp_sf_len d dlen = do {
     d0 \<leftarrow> mem_get 0 d;
     let plen = unat (d0 AND 0x0F);
     if plen = 0 then
       if dlen \<le> NX_CAN_MAX_CLASSIC_LEN \<or> dlen < 2 then Some None
       else do {
         d1 \<leftarrow> mem_get 1 d;
         if unat d1 \<le> NX_CAN_ISOTP_SF_DL_4 then Some None
         else if unat d1 = 0 \<or> unat d1 > dlen - 2 then Some None
         else Some (Some (unat d1, 2)) }
     else if dlen > NX_CAN_MAX_CLASSIC_LEN then Some None
     else if plen = 0 \<or> plen > dlen - 1 then Some None
     else Some (Some (plen, 1)) }"

definition frame_dlen :: "nx_can_msg \<Rightarrow> nat" where
  "frame_dlen frame = unat (nx_can_dlc_to_len (ucast (cf_dlc (cm_flags frame))))"

text \<open>A single frame on the physical identifier.\<close>

definition istp_rx_sf :: "'e nx_can_isotp \<Rightarrow> 'e tp_world \<Rightarrow> nx_can_msg \<Rightarrow> ('e nx_can_isotp \<times> 'e tp_world) option" where
  "istp_rx_sf tp w frame = do {
     (tp1, w1) \<leftarrow> istp_rx_abort tp w NX_TP_N_UNEXP_PDU;
     r \<leftarrow> istp_sf_len (cm_data frame) (frame_dlen frame);
     case r of
       Some (plen, hdr) \<Rightarrow> do {
         w2 \<leftarrow> istp_rx_single (iso_cfg tp1) w1 NX_TP_TA_PHYSICAL (cm_data frame) plen hdr;
         Some (tp1, w2) }
     | None \<Rightarrow> Some (tp1, w1) }"

text \<open>The announced length and the header size of a first frame; the inner \<open>None\<close> is a malformed frame.\<close>

definition istp_ff_len :: "bytes \<Rightarrow> nat \<Rightarrow> (u32 \<times> nat) option option" where
  "istp_ff_len d dlen =
     (if dlen < 2 then Some None
      else do {
        d0 \<leftarrow> mem_get 0 d;
        d1 \<leftarrow> mem_get 1 d;
        let len = push_bit 8 (ucast (d0 AND 0x0F)) OR ucast d1;
        if len = 0 then
          if dlen < 6 then Some None
          else do {
            d2 \<leftarrow> mem_get 2 d; d3 \<leftarrow> mem_get 3 d; d4 \<leftarrow> mem_get 4 d; d5 \<leftarrow> mem_get 5 d;
            let len2 = push_bit 24 (ucast d2) OR push_bit 16 (ucast d3) OR push_bit 8 (ucast d4) OR ucast d5;
            Some (if len2 = 0 then None else Some (len2, 6)) }
        else Some (Some (len, 2)) })"

text \<open>Refusing a first frame: overflow flow control, and the end of the reception.\<close>

definition istp_rx_refuse :: "'e nx_can_isotp \<Rightarrow> 'e tp_world \<Rightarrow> ('e nx_can_isotp \<times> 'e tp_world) option" where
  "istp_rx_refuse tp w = do {
     (_, w1) \<leftarrow> istp_emit_fc (iso_cfg tp) w NX_CAN_ISOTP_FS_OVFLW 0 0;
     istp_rx_abort tp w1 NX_TP_N_BUFFER_OVFLW }"

text \<open>What a first frame brings of the message: the number of bytes, and the payload with them copied in.\<close>

definition istp_ff_fill :: "bytes \<Rightarrow> nat \<Rightarrow> nat \<Rightarrow> nat \<Rightarrow> (nat \<times> bytes) option" where
  "istp_ff_fill d dlen hdr len =
     (let have0 = (if dlen > hdr then dlen - hdr else 0); n = (if have0 > len then len else have0)
      in do {
        buf \<leftarrow> (if n > 0 then do { x \<leftarrow> mem_read hdr n d; mem_write 0 x (replicate len 0) } else Some (replicate len 0));
        Some (n, buf) })"

definition istp_rx_ff :: "'e nx_can_isotp \<Rightarrow> 'e tp_world \<Rightarrow> nx_can_msg \<Rightarrow> ('e nx_can_isotp \<times> 'e tp_world) option" where
  "istp_rx_ff tp0 w0 frame =
     (let d = cm_data frame; dlen = frame_dlen frame
      in do {
        (tp, w) \<leftarrow> istp_rx_abort tp0 w0 NX_TP_N_UNEXP_PDU;
        r \<leftarrow> istp_ff_len d dlen;
        case r of None \<Rightarrow> Some (tp, w)
        | Some (len, hdr) \<Rightarrow>
            if unat len > NX_CAN_ISOTP_MAX_MSG_LEN \<or> ic_rx_max_len (iso_cfg tp) \<noteq> 0 \<and> len > ic_rx_max_len (iso_cfg tp)
            then istp_rx_refuse tp w
            else do {
              (m, w1) \<leftarrow> nx_ref_msg_alloc w (ic_pool (iso_cfg tp)) (TP_SDU_SIZEOF + unat len);
              if m = 0 then istp_rx_refuse tp w1
              else do {
                (t, w2) \<leftarrow> istp_now (iso_cfg tp) w1;
                (n, buf) \<leftarrow> istp_ff_fill d dlen hdr (unat len);
                w3 \<leftarrow> msg_store w2 m (Sdu (istp_sdu_head (iso_cfg tp) len NX_TP_SDU_INDICATION NX_TP_TA_PHYSICAL NX_TP_N_OK buf));
                let tp1 = tp\<lparr> iso_rx := (iso_rx tp)\<lparr> ir_acc := m, ir_state := NX_ISOTP_RX_ASSEM, ir_sn := 1, ir_total := len,
                      ir_deadline := t + ic_n_cr_us (iso_cfg tp), ir_filled := of_nat n \<rparr> \<rparr>;
                if ir_filled (iso_rx tp1) \<ge> ir_total (iso_rx tp1) then istp_rx_finish tp1 w3
                else istp_emit_cts tp1 w3 } } })"

definition istp_rx_cf :: "'e nx_can_isotp \<Rightarrow> 'e tp_world \<Rightarrow> nx_can_msg \<Rightarrow> ('e nx_can_isotp \<times> 'e tp_world) option" where
  "istp_rx_cf tp w frame =
     (let rx = iso_rx tp; d = cm_data frame; dlen = frame_dlen frame
      in if ir_state rx \<noteq> NX_ISOTP_RX_ASSEM then Some (tp, w)
         else do {
           d0 \<leftarrow> mem_get 0 d;
           if (d0 AND 0x0F) \<noteq> ir_sn rx then istp_rx_abort tp w NX_TP_N_WRONG_SN
           else do {
             let room = size_sub (unat (ir_total rx)) (unat (ir_filled rx));
             let have0 = size_sub dlen 1;
             let n = (if have0 > room then room else have0);
             out \<leftarrow> msg_sdu w (ir_acc rx);
             w1 \<leftarrow> (if n > 0 then do {
                      x \<leftarrow> mem_read 1 n d;
                      buf \<leftarrow> mem_write (unat (ir_filled rx)) x (sd_data out);
                      msg_store w (ir_acc rx) (Sdu (out\<lparr> sd_data := buf \<rparr>)) }
                    else Some w);
             (t, w2) \<leftarrow> istp_now (iso_cfg tp) w1;
             let rx1 = rx\<lparr> ir_filled := ir_filled rx + of_nat n, ir_sn := (ir_sn rx + 1) AND 0x0F,
                           ir_deadline := t + ic_n_cr_us (iso_cfg tp) \<rparr>;
             if ir_filled rx1 \<ge> ir_total rx1 then istp_rx_finish (tp\<lparr> iso_rx := rx1 \<rparr>) w2
             else if ir_block_left rx1 > 0 then
               let rx2 = rx1\<lparr> ir_block_left := ir_block_left rx1 - 1 \<rparr>
               in if ir_block_left rx2 = 0 then istp_emit_cts (tp\<lparr> iso_rx := rx2 \<rparr>) w2
                  else Some (tp\<lparr> iso_rx := rx2 \<rparr>, w2)
             else Some (tp\<lparr> iso_rx := rx1 \<rparr>, w2) } })"

definition istp_rx_phys_frame ::
  "'e nx_can_isotp \<Rightarrow> 'e tp_world \<Rightarrow> nx_can_msg \<Rightarrow> ('e nx_can_isotp \<times> 'e tp_world) option" where
  "istp_rx_phys_frame tp w frame = do {
     d0 \<leftarrow> mem_get 0 (cm_data frame);
     let pci_kind = d0 AND 0xF0;
     if pci_kind = NX_CAN_ISOTP_PCI_SF then istp_rx_sf tp w frame
     else if pci_kind = NX_CAN_ISOTP_PCI_FF then istp_rx_ff tp w frame
     else if pci_kind = NX_CAN_ISOTP_PCI_CF then istp_rx_cf tp w frame
     else Some (tp, w) }"

section \<open>Transmission\<close>

definition istp_tx_abort :: "'e nx_can_isotp \<Rightarrow> 'e tp_world \<Rightarrow> u8 \<Rightarrow> ('e nx_can_isotp \<times> 'e tp_world) option" where
  "istp_tx_abort tp w result =
     (let tx = iso_tx tp; was_active = (it_sdu tx \<noteq> 0)
      in do {
        w1 \<leftarrow> (if it_sdu tx \<noteq> 0 then map_option snd (nx_ref_msg_release w (it_sdu tx)) else Some w);
        let tp1 = tp\<lparr> iso_tx := tx\<lparr> it_sdu := 0, it_state := NX_ISOTP_TX_IDLE, it_wft := 0 \<rparr> \<rparr>;
        if was_active then do { w2 \<leftarrow> istp_tx_confirm (iso_cfg tp1) w1 result; Some (tp1, w2) }
        else Some (tp1, w1) })"

definition istp_tx_apply_fc ::
  "'e nx_can_isotp \<Rightarrow> 'e tp_world \<Rightarrow> nx_can_msg \<Rightarrow> ('e nx_can_isotp \<times> 'e tp_world) option" where
  "istp_tx_apply_fc tp w frame =
     (let tx = iso_tx tp; d = cm_data frame
      in if it_state tx \<noteq> NX_ISOTP_TX_WAIT_FC \<or> frame_dlen frame < 3 then Some (tp, w)
         else do {
           d0 \<leftarrow> mem_get 0 d;
           let fs = d0 AND 0x0F;
           if fs = NX_CAN_ISOTP_FS_OVFLW then istp_tx_abort tp w NX_TP_N_BUFFER_OVFLW
           else if fs = NX_CAN_ISOTP_FS_WAIT then
             let tx1 = tx\<lparr> it_wft := it_wft tx + 1 \<rparr>
             in if it_wft tx1 > ic_n_wft_max (iso_cfg tp)
                then istp_tx_abort (tp\<lparr> iso_tx := tx1 \<rparr>) w NX_TP_N_WFT_OVRN
                else do {
                  (t, w1) \<leftarrow> istp_now (iso_cfg tp) w;
                  Some (tp\<lparr> iso_tx := tx1\<lparr> it_deadline := t + ic_n_bs_us (iso_cfg tp) \<rparr> \<rparr>, w1) }
           else if fs \<noteq> NX_CAN_ISOTP_FS_CTS then istp_tx_abort tp w NX_TP_N_INVALID_FS
           else do {
             d1 \<leftarrow> mem_get 1 d;
             d2 \<leftarrow> mem_get 2 d;
             Some (tp\<lparr> iso_tx := tx\<lparr> it_wft := 0, it_bs := d1, it_stmin_us := istp_stmin_to_us d2,
                     it_state := NX_ISOTP_TX_SEND \<rparr> \<rparr>, w) } })"

definition istp_tx_hold :: "'e nx_can_isotp \<Rightarrow> 'e tp_world \<Rightarrow> ('e nx_can_isotp \<times> 'e tp_world) option" where
  "istp_tx_hold tp w =
     (if it_state (iso_tx tp) \<noteq> NX_ISOTP_TX_WAIT_LINK
      then do {
        (t, w1) \<leftarrow> istp_now (iso_cfg tp) w;
        Some (tp\<lparr> iso_tx := (iso_tx tp)\<lparr> it_state := NX_ISOTP_TX_WAIT_LINK, it_deadline := t + ic_n_as_us (iso_cfg tp) \<rparr> \<rparr>, w1) }
      else Some (tp, w))"

definition istp_tx_ff_done :: "'e nx_can_isotp \<Rightarrow> 'e tp_world \<Rightarrow> nat \<Rightarrow> ('e nx_can_isotp \<times> 'e tp_world) option" where
  "istp_tx_ff_done tp w loaded = do {
     (t, w1) \<leftarrow> istp_now (iso_cfg tp) w;
     Some (tp\<lparr> iso_tx := (iso_tx tp)\<lparr> it_sent := of_nat loaded, it_last_us := t, it_deadline := t + ic_n_bs_us (iso_cfg tp),
             it_state := NX_ISOTP_TX_WAIT_FC \<rparr> \<rparr>, w1) }"

text \<open>
  Offering the first frame of a message, single or first of several: what \<open>istp_request_tx\<close> does for a fresh
  message and again for one held. The result says whether the frame went out.
\<close>

definition istp_tx_first ::
  "'e nx_can_isotp \<Rightarrow> 'e tp_world \<Rightarrow> nx_tp_sdu \<Rightarrow> (bool \<times> 'e nx_can_isotp \<times> 'e tp_world) option" where
  "istp_tx_first tp w s =
     (let tx = iso_tx tp
      in if unat (it_total tx) \<le> istp_sf_capacity (iso_cfg tp)
         then do {
           (ok, w1) \<leftarrow> istp_emit_sf (iso_cfg tp) w (it_tx_id tx) (sd_data s) (unat (it_total tx));
           if \<not> ok then Some (False, tp, w1)
           else do { (tp1, w2) \<leftarrow> istp_tx_abort tp w1 NX_TP_N_OK; Some (True, tp1, w2) } }
         else do {
           (loaded, w1) \<leftarrow> istp_emit_ff (iso_cfg tp) w (it_tx_id tx) (sd_data s) (it_total tx);
           if loaded = 0 then Some (False, tp, w1)
           else do { (tp1, w2) \<leftarrow> istp_tx_ff_done tp w1 loaded; Some (True, tp1, w2) } })"

text \<open>The idle branch: take the next message off the queue and start it.\<close>

definition istp_tx_start ::
  "'e nx_can_isotp \<Rightarrow> 'e tp_world \<Rightarrow> (nat \<times> 'e nx_can_isotp \<times> 'e tp_world) option" where
  "istp_tx_start tp w = do {
     (x, w1) \<leftarrow> ref_msg_consume w (ic_sdu_rx_queue (iso_cfg tp));
     case x of None \<Rightarrow> Some (0, tp, w1)
     | Some m \<Rightarrow> do {
         s \<leftarrow> msg_sdu w1 m;
         let tp1 = tp\<lparr> iso_tx := (iso_tx tp)\<lparr> it_sdu := m, it_total := sd_len s, it_sent := 0, it_sn := 1, it_wft := 0,
               it_ta_type := sd_ta_type s,
               it_tx_id := (if sd_ta_type s = NX_TP_TA_FUNCTIONAL then ic_func_tx_id (iso_cfg tp) else ic_phys_tx_id (iso_cfg tp)) \<rparr> \<rparr>;
         (ok, tp2, w2) \<leftarrow> istp_tx_first tp1 w1 s;
         if \<not> ok then do { (tp3, w3) \<leftarrow> istp_tx_hold tp2 w2; Some (0, tp3, w3) }
         else Some (1, tp2, w2) } }"

text \<open>The next consecutive frame's share of the message, and the frame itself.\<close>

definition istp_tx_chunk :: "'e nx_can_isotp \<Rightarrow> nat" where
  "istp_tx_chunk tp =
     (let tx = iso_tx tp; chunk = unat (it_total tx - it_sent tx); room = size_sub (unat (ic_max_frame_len (iso_cfg tp))) 1
      in if chunk > room then room else chunk)"

definition istp_tx_next :: "'e nx_can_isotp \<Rightarrow> 'e tp_world \<Rightarrow> nx_tp_sdu \<Rightarrow> (bool \<times> 'e tp_world) option" where
  "istp_tx_next tp w s =
     (let tx = iso_tx tp
      in if unat (it_sent tx) > length (sd_data s) then None
         else istp_emit_cf (iso_cfg tp) w (it_tx_id tx) (drop (unat (it_sent tx)) (sd_data s)) (istp_tx_chunk tp) (it_sn tx))"

text \<open>
  The held branch. The flag says that the call ends here; otherwise it goes on in the sending state with the
  one frame emitted.
\<close>

definition istp_tx_resume ::
  "'e nx_can_isotp \<Rightarrow> 'e tp_world \<Rightarrow> (bool \<times> nat \<times> 'e nx_can_isotp \<times> 'e tp_world) option" where
  "istp_tx_resume tp w = do {
     s \<leftarrow> msg_sdu w (it_sdu (iso_tx tp));
     if it_sent (iso_tx tp) = 0 then do {
       (ok, tp1, w1) \<leftarrow> istp_tx_first tp w s;
       Some (True, if ok then 1 else 0, tp1, w1) }
     else do {
       (ok, w1) \<leftarrow> istp_tx_next tp w s;
       if \<not> ok then Some (True, 0, tp, w1)
       else do {
         (t, w2) \<leftarrow> istp_now (iso_cfg tp) w1;
         let tx1 = (iso_tx tp)\<lparr> it_sent := it_sent (iso_tx tp) + of_nat (istp_tx_chunk tp),
               it_sn := (it_sn (iso_tx tp) + 1) AND 0x0F, it_last_us := t, it_state := NX_ISOTP_TX_SEND \<rparr>;
         if it_sent tx1 \<ge> it_total tx1
         then do { (tp2, w3) \<leftarrow> istp_tx_abort (tp\<lparr> iso_tx := tx1 \<rparr>) w2 NX_TP_N_OK; Some (True, 1, tp2, w3) }
         else if it_bs tx1 > 0 then
           let tx2 = tx1\<lparr> it_bs := it_bs tx1 - 1 \<rparr>
           in if it_bs tx2 = 0
              then Some (True, 1, tp\<lparr> iso_tx := tx2\<lparr> it_state := NX_ISOTP_TX_WAIT_FC,
                     it_deadline := it_last_us tx2 + ic_n_bs_us (iso_cfg tp) \<rparr> \<rparr>, w2)
              else Some (False, 1, tp\<lparr> iso_tx := tx2 \<rparr>, w2)
         else Some (False, 1, tp\<lparr> iso_tx := tx1 \<rparr>, w2) } } }"

text \<open>
  The sending loop: the first argument is the rest of the frame budget, the flag of the result says that the link refused a frame and
  the function returned from inside the loop.
\<close>

fun istp_tx_loop ::
  "nat \<Rightarrow> 'e nx_can_isotp \<Rightarrow> 'e tp_world \<Rightarrow> nx_tp_sdu \<Rightarrow> u32 \<Rightarrow> nat \<Rightarrow> (bool \<times> nat \<times> 'e nx_can_isotp \<times> 'e tp_world) option" where
  "istp_tx_loop 0 tp w s now emitted = Some (False, emitted, tp, w)"
| "istp_tx_loop (Suc budget) tp w s now emitted =
     (if \<not> it_sent (iso_tx tp) < it_total (iso_tx tp) then Some (False, emitted, tp, w)
      else if sint (it_stmin_us (iso_tx tp)) > 0 \<and> tick_diff now (it_last_us (iso_tx tp)) < sint (it_stmin_us (iso_tx tp))
      then Some (False, emitted, tp, w)
      else do {
        (ok, w1) \<leftarrow> istp_tx_next tp w s;
        if \<not> ok then do { (tp1, w2) \<leftarrow> istp_tx_hold tp w1; Some (True, emitted, tp1, w2) }
        else do {
          let tx1 = (iso_tx tp)\<lparr> it_sent := it_sent (iso_tx tp) + of_nat (istp_tx_chunk tp),
                it_sn := (it_sn (iso_tx tp) + 1) AND 0x0F, it_last_us := now \<rparr>;
          (now1, w2) \<leftarrow> istp_now (iso_cfg tp) w1;
          if it_bs tx1 > 0 then
            let tx2 = tx1\<lparr> it_bs := it_bs tx1 - 1 \<rparr>
            in if it_bs tx2 = 0 \<and> it_sent tx2 < it_total tx2
               then Some (False, emitted + 1, tp\<lparr> iso_tx := tx2\<lparr> it_state := NX_ISOTP_TX_WAIT_FC,
                      it_deadline := now1 + ic_n_bs_us (iso_cfg tp) \<rparr> \<rparr>, w2)
               else istp_tx_loop budget (tp\<lparr> iso_tx := tx2 \<rparr>) w2 s now1 (emitted + 1)
          else istp_tx_loop budget (tp\<lparr> iso_tx := tx1 \<rparr>) w2 s now1 (emitted + 1) } })"

definition istp_tx_send ::
  "'e nx_can_isotp \<Rightarrow> 'e tp_world \<Rightarrow> nat \<Rightarrow> nat \<Rightarrow> (nat \<times> 'e nx_can_isotp \<times> 'e tp_world) option" where
  "istp_tx_send tp w max_frames emitted =
     (if it_state (iso_tx tp) \<noteq> NX_ISOTP_TX_SEND then Some (emitted, tp, w)
      else do {
        s \<leftarrow> msg_sdu w (it_sdu (iso_tx tp));
        (now, w1) \<leftarrow> istp_now (iso_cfg tp) w;
        (returned, n, tp1, w2) \<leftarrow> istp_tx_loop (max_frames - emitted) tp w1 s now emitted;
        if returned then Some (n, tp1, w2)
        else if it_sent (iso_tx tp1) \<ge> it_total (iso_tx tp1)
        then do { (tp2, w3) \<leftarrow> istp_tx_abort tp1 w2 NX_TP_N_OK; Some (n, tp2, w3) }
        else Some (n, tp1, w2) })"

definition istp_request_tx ::
  "'e nx_can_isotp \<Rightarrow> 'e tp_world \<Rightarrow> nat \<Rightarrow> (nat \<times> 'e nx_can_isotp \<times> 'e tp_world) option" where
  "istp_request_tx tp w max_frames =
     (if it_state (iso_tx tp) = NX_ISOTP_TX_IDLE then istp_tx_start tp w
      else if it_state (iso_tx tp) = NX_ISOTP_TX_WAIT_LINK
      then do {
        (stop, n, tp1, w1) \<leftarrow> istp_tx_resume tp w;
        if stop then Some (n, tp1, w1) else istp_tx_send tp1 w1 max_frames n }
      else istp_tx_send tp w max_frames 0)"

section \<open>Intake\<close>

definition istp_intake ::
  "'e nx_can_isotp \<Rightarrow> 'e tp_world \<Rightarrow> nx_can_msg \<Rightarrow> ('e nx_can_isotp \<times> 'e tp_world) option" where
  "istp_intake tp w frame =
     (let cfg = iso_cfg tp; dlen = frame_dlen frame
      in if dlen = 0 then Some (tp, w)
         else if ucast (cf_ch (cm_flags frame)) \<noteq> ic_ch cfg then Some (tp, w)
         else if cf_is_ext (cm_flags frame) \<noteq> ic_ext_id cfg then Some (tp, w)
         else if cm_id frame = ic_phys_rx_id cfg then do {
           d0 \<leftarrow> mem_get 0 (cm_data frame);
           if d0 AND 0xF0 = NX_CAN_ISOTP_PCI_FC then istp_tx_apply_fc tp w frame else istp_rx_phys_frame tp w frame }
         else if ic_func_rx_id cfg \<noteq> 0 \<and> cm_id frame = ic_func_rx_id cfg then do {
           d0 \<leftarrow> mem_get 0 (cm_data frame);
           if d0 AND 0xF0 \<noteq> NX_CAN_ISOTP_PCI_SF then Some (tp, w)
           else do {
             r \<leftarrow> istp_sf_len (cm_data frame) dlen;
             case r of
               Some (plen, hdr) \<Rightarrow> do {
                 w1 \<leftarrow> istp_rx_single cfg w NX_TP_TA_FUNCTIONAL (cm_data frame) plen hdr;
                 Some (tp, w1) }
             | None \<Rightarrow> Some (tp, w) } }
         else Some (tp, w))"

text \<open>The draining loop; \<open>None\<close> also when it does not end.\<close>

partial_function (option) istp_drain_can_rx ::
  "'e nx_can_isotp \<Rightarrow> 'e tp_world \<Rightarrow> ('e nx_can_isotp \<times> 'e tp_world) option" where
  "istp_drain_can_rx tp w = do {
     (x, w1) \<leftarrow> ref_msg_consume w (ic_can_rx_queue (iso_cfg tp));
     case x of None \<Rightarrow> Some (tp, w1)
     | Some m \<Rightarrow> do {
         (tp1, w2) \<leftarrow> (if nx_ref_msg_data m \<noteq> 0
                        then do { frame \<leftarrow> msg_frame w1 m; istp_intake tp w1 frame }
                        else Some (tp, w1));
         (_, w3) \<leftarrow> nx_ref_msg_release w2 m;
         istp_drain_can_rx tp1 w3 } }"

declare istp_drain_can_rx.simps [code]

section \<open>Interface\<close>

definition istp_frame_len_valid :: "u8 \<Rightarrow> bool" where
  "istp_frame_len_valid len \<longleftrightarrow>
     \<not> len < NX_CAN_ISOTP_FRAME_8 \<and> nx_can_dlc_to_len (nx_can_len_to_dlc (ucast len)) = ucast len"

text \<open>The conditions \<open>nx_can_isotp_init\<close> checks, in its order, and the run-time state it starts from.\<close>

definition isotp_cfg_valid :: "'e nx_can_isotp_cfg \<Rightarrow> bool" where
  "isotp_cfg_valid cfg \<longleftrightarrow>
     istp_frame_len_valid (ic_max_frame_len cfg) \<and>
     \<not> (ic_max_frame_len cfg > NX_CAN_ISOTP_FRAME_8 \<and> \<not> ic_fd_frames cfg) \<and>
     \<not> (ic_brs cfg \<and> \<not> ic_fd_frames cfg) \<and>
     \<not> ic_ch cfg > NX_CAN_MAX_CH \<and>
     \<not> (ic_phys_rx_id cfg = 0 \<or> ic_phys_tx_id cfg = 0 \<or> ic_phys_rx_id cfg = ic_phys_tx_id cfg) \<and>
     \<not> (ic_func_rx_id cfg \<noteq> 0 \<and> (ic_func_rx_id cfg = ic_phys_rx_id cfg \<or> ic_func_rx_id cfg = ic_phys_tx_id cfg)) \<and>
     \<not> (ic_func_tx_id cfg \<noteq> 0 \<and> (ic_func_tx_id cfg = ic_phys_rx_id cfg \<or> ic_func_tx_id cfg = ic_phys_tx_id cfg \<or>
           ic_func_tx_id cfg = ic_func_rx_id cfg)) \<and>
     \<not> (ic_pool cfg = 0 \<or> ic_sdu_rx_queue cfg = 0 \<or> ic_sdu_tx_queue cfg = 0 \<or> ic_can_rx_queue cfg = 0 \<or>
        ic_can_tx_queue cfg = 0) \<and>
     ic_get_us cfg \<noteq> None"

definition isotp_cfg_defaults :: "'e nx_can_isotp_cfg \<Rightarrow> 'e nx_can_isotp_cfg" where
  "isotp_cfg_defaults cfg =
     (let dflt = (\<lambda>x. if x = 0 then NX_CAN_ISOTP_DEFAULT_TIMEOUT_US else x)
      in cfg\<lparr> ic_n_as_us := dflt (ic_n_as_us cfg), ic_n_ar_us := dflt (ic_n_ar_us cfg), ic_n_bs_us := dflt (ic_n_bs_us cfg),
              ic_n_cr_us := dflt (ic_n_cr_us cfg),
              ic_n_wft_max := (if ic_n_wft_max cfg = 0 then NX_CAN_ISOTP_DEFAULT_WFT_MAX else ic_n_wft_max cfg) \<rparr>)"

definition isotp_rx_zero :: nx_can_isotp_rx where
  "isotp_rx_zero = \<lparr> ir_state = NX_ISOTP_RX_IDLE, ir_sn = 0, ir_block_left = 0, ir_total = 0, ir_filled = 0, ir_acc = 0,
     ir_deadline = 0 \<rparr>"

definition isotp_tx_zero :: nx_can_isotp_tx where
  "isotp_tx_zero = \<lparr> it_state = NX_ISOTP_TX_IDLE, it_sn = 0, it_bs = 0, it_wft = 0, it_ta_type = 0, it_sent = 0, it_total = 0,
     it_stmin_us = 0, it_last_us = 0, it_deadline = 0, it_tx_id = 0, it_sdu = 0 \<rparr>"

definition nx_can_isotp_init ::
  "'e nx_can_isotp option \<Rightarrow> 'e nx_can_isotp_cfg option \<Rightarrow> bool \<times> 'e nx_can_isotp option" where
  "nx_can_isotp_init ip cp =
     (case (ip, cp) of
        (Some tp, Some cfg) \<Rightarrow>
          if \<not> isotp_cfg_valid cfg then (False, ip)
          else (True, Some \<lparr> iso_cfg = isotp_cfg_defaults cfg, iso_rx = isotp_rx_zero, iso_tx = isotp_tx_zero \<rparr>)
      | _ \<Rightarrow> (False, ip))"

text \<open>
  One guard of \<open>nx_can_isotp_process\<close>: end the conversation if it is in the state and its deadline has passed.
\<close>

definition istp_rx_guard ::
  "isotp_rx_state \<Rightarrow> u8 \<Rightarrow> u32 \<Rightarrow> 'e nx_can_isotp \<Rightarrow> 'e tp_world \<Rightarrow> ('e nx_can_isotp \<times> 'e tp_world) option" where
  "istp_rx_guard st result now tp w =
     (if ir_state (iso_rx tp) = st \<and> tick_reached now (ir_deadline (iso_rx tp)) then istp_rx_abort tp w result else Some (tp, w))"

definition istp_tx_guard ::
  "isotp_tx_state \<Rightarrow> u8 \<Rightarrow> u32 \<Rightarrow> 'e nx_can_isotp \<Rightarrow> 'e tp_world \<Rightarrow> ('e nx_can_isotp \<times> 'e tp_world) option" where
  "istp_tx_guard st result now tp w =
     (if it_state (iso_tx tp) = st \<and> tick_reached now (it_deadline (iso_tx tp)) then istp_tx_abort tp w result else Some (tp, w))"

definition nx_can_isotp_process ::
  "'e nx_can_isotp option \<Rightarrow> 'e tp_world \<Rightarrow> ('e nx_can_isotp option \<times> 'e tp_world) option" where
  "nx_can_isotp_process ip w0 =
     (case ip of None \<Rightarrow> Some (None, w0)
      | Some tp0 \<Rightarrow> do {
          (tp1, w1) \<leftarrow> istp_drain_can_rx tp0 w0;
          (now, w2) \<leftarrow> istp_now (iso_cfg tp1) w1;
          (tp3, w3) \<leftarrow> istp_rx_guard NX_ISOTP_RX_ASSEM NX_TP_N_TIMEOUT_CR now tp1 w2;
          (tp4, w4) \<leftarrow> istp_rx_guard NX_ISOTP_RX_FC_WAIT NX_TP_N_TIMEOUT_A now tp3 w3;
          (tp5, w5) \<leftarrow> (if ir_state (iso_rx tp4) = NX_ISOTP_RX_FC_WAIT then istp_emit_cts tp4 w4 else Some (tp4, w4));
          (tp6, w6) \<leftarrow> istp_tx_guard NX_ISOTP_TX_WAIT_FC NX_TP_N_TIMEOUT_BS now tp5 w5;
          (tp7, w7) \<leftarrow> istp_tx_guard NX_ISOTP_TX_WAIT_LINK NX_TP_N_TIMEOUT_A now tp6 w6;
          let budget = unat (ic_tx_frames_per_process (iso_cfg tp7));
          (_, tp8, w8) \<leftarrow> istp_request_tx tp7 w7 (if budget = 0 then 255 else budget);
          Some (Some tp8, w8) })"

text \<open>\<open>data\<close> is the caller's memory at the pointer, \<open>None\<close> for NULL; the addressing is the value of the enumeration argument.\<close>

definition nx_can_isotp_send ::
  "'e nx_can_isotp option \<Rightarrow> 'e tp_world \<Rightarrow> bytes option \<Rightarrow> nat \<Rightarrow> u32 \<Rightarrow> (nx_can_isotp_ret \<times> 'e tp_world) option" where
  "nx_can_isotp_send ip w dat len ta_type =
     (case (ip, dat) of
        (Some tp, Some src) \<Rightarrow>
          if len = 0 then Some (NX_CAN_ISOTP_ERR_PARAM, w)
          else if ta_type = ucast NX_TP_TA_FUNCTIONAL \<and> (ic_func_tx_id (iso_cfg tp) = 0 \<or> len > istp_sf_capacity (iso_cfg tp))
          then Some (NX_CAN_ISOTP_ERR_PARAM, w)
          else if ta_type \<noteq> ucast NX_TP_TA_FUNCTIONAL \<and> ta_type \<noteq> ucast NX_TP_TA_PHYSICAL then Some (NX_CAN_ISOTP_ERR_PARAM, w)
          else if len > NX_CAN_ISOTP_MAX_MSG_LEN then Some (NX_CAN_ISOTP_ERR_LENGTH, w)
          else do {
            (m, w1) \<leftarrow> nx_ref_msg_alloc w (ic_pool (iso_cfg tp)) (TP_SDU_SIZEOF + len);
            if m = 0 then Some (NX_CAN_ISOTP_ERR_NOMEM, w1)
            else do {
              x \<leftarrow> mem_read 0 len src;
              w2 \<leftarrow> msg_store w1 m (Sdu (istp_sdu_head (iso_cfg tp) (of_nat len) NX_TP_SDU_INDICATION (ucast ta_type) NX_TP_N_OK x));
              (r, w3) \<leftarrow> nx_ref_msg_publish w2 m (ic_sdu_rx_queue (iso_cfg tp));
              if r \<noteq> NX_REF_MSG_OK then do { (_, w4) \<leftarrow> nx_ref_msg_release w3 m; Some (NX_CAN_ISOTP_ERR_FULL, w4) }
              else do { (_, w4) \<leftarrow> nx_ref_msg_release w3 m; Some (NX_CAN_ISOTP_OK, w4) } } }
      | _ \<Rightarrow> Some (NX_CAN_ISOTP_ERR_PARAM, w))"

end
