(* ===== verification/Nx_Msg_Bus.thy ===== *)
theory Nx_Msg_Bus
  imports Nx_Ref_Msg
begin

text \<open>
  Message passing as its clients use it: a queue of message pointers seen as the list of the payloads they point to
  (\<open>chan\<close>). The interface \<open>message_bus\<close> states what allocation, writing, publishing, consuming and releasing do to these
  lists while references are counted, and derives from it the sequence every sender runs; it is interpreted on
  the operations of \<open>Nx_Ref_Msg\<close>.
\<close>

section \<open>Queues as lists of payloads\<close>

definition payload :: "('e, 'd) ref_world \<Rightarrow> nat \<Rightarrow> 'd option" where
  "payload w a = Option.bind (rw_msgs w a) rm_data"

definition item_payload :: "('e, 'd) ref_world \<Rightarrow> bytes \<Rightarrow> 'd option" where
  "item_payload w x = Option.bind (ptr_of_bytes x) (payload w)"

definition chan :: "('e, 'd) ref_world \<Rightarrow> nat \<Rightarrow> 'd option list" where
  "chan w q = (case rw_queues w q of None \<Rightarrow> [] | Some qo \<Rightarrow> map (item_payload w) (queue_items qo))"

definition chan_cap :: "('e, 'd) ref_world \<Rightarrow> nat \<Rightarrow> nat option" where
  "chan_cap w q = map_option q_capacity (rw_queues w q)"

text \<open>The bytes a message block has for its payload.\<close>

definition msg_room :: "('e, 'd) ref_world \<Rightarrow> nat \<Rightarrow> nat" where
  "msg_room w a = (case rw_msgs w a of None \<Rightarrow> 0 | Some m \<Rightarrow> rm_len m)"

definition bus_shape :: "('e, 'd) ref_world \<Rightarrow> nat set \<times> (nat \<Rightarrow> nat option)" where
  "bus_shape w = (dom (rw_pools w), chan_cap w)"

lemma queued_item_pos:
  assumes "ref_queues_ok w" "rw_queues w q = Some qo" "x \<in> set (queue_items qo)" "ptr_of_bytes x = Some a"
  shows "0 < queued w a"
proof -
  have "0 < queued_in qo a"
    using assms(3,4) by (auto simp: queued_in_def count_list_0_iff simp flip: neq0_conv intro!: image_eqI[of _ _ x])
  moreover have "queued_in (the (rw_queues w q)) a \<le> queued w a"
    unfolding queued_def using assms(1,2) by (intro member_le_sum) (auto simp: ref_queues_ok_def)
  ultimately show ?thesis using assms(2) by simp
qed

lemma chan_cong:
  assumes "ref_queues_ok w" "rw_queues w' = rw_queues w" "\<And>a. 0 < queued w a \<Longrightarrow> payload w' a = payload w a"
  shows "chan w' = chan w"
proof
  fix q
  show "chan w' q = chan w q"
  proof (cases "rw_queues w q")
    case (Some qo)
    have "item_payload w' x = item_payload w x" if "x \<in> set (queue_items qo)" for x
    proof (cases "ptr_of_bytes x")
      case (Some a)
      then have "0 < queued w a" using queued_item_pos[OF assms(1) \<open>rw_queues w q = Some qo\<close> that] by blast
      then show ?thesis using assms(3) Some by (simp add: item_payload_def)
    qed (simp add: item_payload_def)
    then show ?thesis using Some by (simp add: chan_def assms(2))
  qed (simp add: chan_def assms(2))
qed

section \<open>What each operation does\<close>

lemma msg_load_payload:
  assumes "ref_inv w H" "0 < H a"
  shows "msg_load w a = payload w a"
proof -
  have "0 < H a + queued w a" using assms(2) by simp
  then obtain m where "rw_msgs w a = Some m" "rm_refcount m = H a + queued w a"
    by (rule ref_inv_live[OF assms(1)])
  with assms(2) show ?thesis by (simp add: msg_load_def payload_def)
qed

lemma bus_alloc:
  assumes inv: "ref_inv w H" and pool: "pool \<noteq> 0" "pool \<in> dom (rw_pools w)" and len: "0 < len" "REF_MSG_SIZEOF + len < 2 ^ 64"
  shows "\<exists>a w'. nx_ref_msg_alloc w pool len = Some (a, w') \<and> chan w' = chan w \<and> bus_shape w' = bus_shape w \<and>
    (\<forall>b. 0 < H b \<longrightarrow> payload w' b = payload w b \<and> queued w' b = queued w b \<and> msg_room w' b = msg_room w b) \<and>
    (if a = 0 then ref_inv w' H else H a = 0 \<and> ref_inv w' (H(a := 1)) \<and> queued w' a = 0 \<and> msg_room w' a = len)"
proof -
  obtain p where p: "rw_pools w pool = Some p" using pool(2) by blast
  obtain a w' where r: "nx_ref_msg_alloc w pool len = Some (a, w')" "rw_queues w' = rw_queues w"
    "dom (rw_pools w') = dom (rw_pools w)"
    "if a = 0 then ref_inv w' H else H a = 0 \<and> queued w a = 0 \<and> ref_inv w' (H(a := 1))"
    using alloc_spec[OF inv pool(1) p len] by blast
  have q: "queued w' = queued w" by (intro ext) (simp add: queued_def r(2))
  have m: "rw_msgs w' = (if a = 0 then rw_msgs w else (rw_msgs w)(a \<mapsto>
       \<lparr> rm_pool = pool, rm_len = len, rm_refcount = 1, rm_data = None \<rparr>))"
    using r(1) pool len(1) by (auto simp: nx_ref_msg_alloc_def Let_def bind_eq_Some_conv split: if_splits)
  have pl: "payload w' b = payload w b" if "b \<noteq> a \<or> a = 0" for b using that by (auto simp: payload_def m)
  have qok: "ref_queues_ok w" using inv by (simp add: ref_inv_def)
  have "chan w' = chan w"
  proof (rule chan_cong[OF qok r(2)])
    fix b assume "0 < queued w b"
    then show "payload w' b = payload w b" using r(4) by (intro pl) (auto split: if_splits)
  qed
  moreover have "bus_shape w' = bus_shape w" by (simp add: bus_shape_def chan_cap_def r(2,3) fun_eq_iff)
  moreover have "payload w' b = payload w b \<and> msg_room w' b = msg_room w b" if "0 < H b" for b
    using that r(4) m by (intro conjI pl) (auto simp: msg_room_def split: if_splits)
  ultimately show ?thesis using r(1,4) q m by (intro exI[of _ a] exI[of _ w']) (auto simp: msg_room_def split: if_splits)
qed

lemma bus_store:
  assumes inv: "ref_inv w H" and a: "0 < H a" "queued w a = 0" and fits: "dsize d \<le> msg_room w a"
  shows "\<exists>w'. msg_put dsize w a d = Some w' \<and> ref_inv w' H \<and> chan w' = chan w \<and> bus_shape w' = bus_shape w \<and>
    queued w' = queued w \<and> payload w' = (payload w)(a := Some d) \<and> msg_room w' = msg_room w \<and> rw_env w' = rw_env w"
proof -
  have "0 < H a + queued w a" using a(1) by simp
  then obtain m where m: "rw_msgs w a = Some m" "rm_refcount m = H a + queued w a"
    by (rule ref_inv_live[OF inv])
  define w' where "w' = w\<lparr> rw_msgs := (rw_msgs w)(a \<mapsto> m\<lparr> rm_data := Some d \<rparr>) \<rparr>"
  have run: "msg_put dsize w a d = Some w'"
    using m a(1) fits by (simp add: msg_put_def w'_def msg_room_def)
  have q: "queued w' = queued w" by (simp add: w'_def)
  have pl: "payload w' = (payload w)(a := Some d)" by (auto simp: w'_def payload_def fun_eq_iff)
  have qok: "ref_queues_ok w" and rc: "ref_counts_ok w H" using inv by (simp_all add: ref_inv_def)
  have "ref_counts_ok w' H"
    by (rule ref_counts_update[OF rc, of w' a "m\<lparr> rm_data := Some d \<rparr>"])
      (use inv m q in \<open>auto simp: w'_def ref_inv_def ref_counts_ok_def dest: spec[of _ a]\<close>)
  moreover have "ref_live_ok w'"
    using inv m(1) unfolding ref_inv_def ref_live_ok_def w'_def by (fastforce split: if_splits)
  ultimately have "ref_inv w' H" using inv by (simp add: ref_inv_def w'_def ref_queues_ok_def ref_pools_ok_def)
  moreover have "chan w' = chan w"
    by (rule chan_cong[OF qok]) (use a(2) pl in \<open>auto simp: w'_def\<close>)
  moreover have "msg_room w' = msg_room w" using m(1) by (auto simp: msg_room_def w'_def fun_eq_iff)
  moreover have "bus_shape w' = bus_shape w" by (simp add: bus_shape_def chan_cap_def w'_def fun_eq_iff)
  ultimately show ?thesis using run q pl by (simp add: w'_def)
qed

lemma bus_publish:
  assumes inv: "ref_inv w H" and held: "0 < H a" and q: "q \<noteq> 0" "chan_cap w q = Some cap"
    and bound: "H a + queued w a + 1 < 2 ^ 64"
  shows "\<exists>w'. nx_ref_msg_publish w a q =
      Some (if length (chan w q) < cap then NX_REF_MSG_OK else NX_REF_MSG_ERR_FULL, w') \<and> ref_inv w' H \<and>
    chan w' = (if length (chan w q) < cap then (chan w)(q := chan w q @ [payload w a]) else chan w) \<and>
    bus_shape w' = bus_shape w \<and> payload w' = payload w \<and> msg_room w' = msg_room w \<and> rw_env w' = rw_env w \<and>
    queued w' = (if length (chan w q) < cap then (queued w)(a := queued w a + 1) else queued w)"
proof -
  obtain qo where qo: "rw_queues w q = Some qo" "q_capacity qo = cap" using q(2) by (auto simp: chan_cap_def)
  have qok: "ref_queues_ok w" using inv by (simp add: ref_inv_def)
  obtain c where like: "queue_like 8 c NX_QUEUE_ON_FULL_REJECT qo" by (rule ref_queue_like[OF inv qo(1)])
  have c: "c = cap" using like qo(2) by (simp add: queue_like_def)
  have len: "length (chan w q) = q_count qo" "length (queue_items qo) = q_count qo"
    using qo(1) by (simp_all add: chan_def queue_items_def)
  obtain r w' where pub: "nx_ref_msg_publish w a q = Some (r, w')" "ref_inv w' H" "rw_pools w' = rw_pools w"
    "dom (rw_queues w') = dom (rw_queues w)" "rw_env w' = rw_env w"
    "if q_count qo < q_capacity qo then r = NX_REF_MSG_OK \<and> queued w' = (queued w)(a := queued w a + 1)
     else r = NX_REF_MSG_ERR_FULL \<and> queued w' = queued w \<and> rw_msgs w' = rw_msgs w"
    using publish_spec[OF inv held q(1) qo(1) bound] by blast
  have "0 < H a + queued w a" using held by simp
  then obtain m where m: "rw_msgs w a = Some m" "0 < a" "a < 2 ^ 64" by (rule ref_inv_live[OF inv])
  obtain q' where push: "nx_queue_push (Some qo) (Some (ptr_bytes a)) =
        Some (if q_count qo < cap then NX_QUEUE_OK else NX_QUEUE_ERR_FULL, Some q')"
      "queue_like 8 cap NX_QUEUE_ON_FULL_REJECT q'"
      "queue_items q' = (if q_count qo < cap then queue_items qo @ [ptr_bytes a] else queue_items qo)"
    using reject_queue.push_law[OF like, of "ptr_bytes a"] unfolding c len(2) by auto
  have qs: "rw_queues w' = (rw_queues w)(q := Some q')"
    using pub(1) m q(1) qo(1) push(1) by (auto simp: nx_ref_msg_publish_def Let_def split: if_splits)
  have ms: "\<exists>n. rw_msgs w' = (rw_msgs w)(a \<mapsto> m\<lparr> rm_refcount := n \<rparr>)"
    using pub(1) m q(1) qo(1) push(1) by (auto simp: nx_ref_msg_publish_def Let_def split: if_splits)
  have pl: "payload w' = payload w" using ms m(1) by (auto simp: payload_def fun_eq_iff)
  have room: "msg_room w' = msg_room w" using ms m(1) by (auto simp: msg_room_def fun_eq_iff)
  have cap': "q_capacity q' = cap" using push(2) by (simp add: queue_like_def)
  have "bus_shape w' = bus_shape w"
    using qo cap' by (auto simp: bus_shape_def chan_cap_def qs pub(3))
  moreover have "chan w' = (if length (chan w q) < cap then (chan w)(q := chan w q @ [payload w a]) else chan w)"
  proof
    fix p
    have ip: "item_payload w' = item_payload w" by (simp add: item_payload_def fun_eq_iff pl)
    have "item_payload w (ptr_bytes a) = payload w a" using ptr_of_ptr_bytes[OF m(3)] by (simp add: item_payload_def)
    then show "chan w' p = (if length (chan w q) < cap then (chan w)(q := chan w q @ [payload w a]) else chan w) p"
      using qo(1) push(3) len(1) unfolding chan_def qs ip by (cases "p = q") simp_all
  qed
  ultimately show ?thesis
    using pub(1,2,5,6) pl room len(1) qo(2) by (intro exI[of _ w']) auto
qed

lemma bus_release:
  assumes inv: "ref_inv w H" and held: "0 < H a"
  shows "\<exists>w'. nx_ref_msg_release w a = Some (NX_REF_MSG_OK, w') \<and> ref_inv w' (H(a := H a - 1)) \<and> chan w' = chan w \<and>
    bus_shape w' = bus_shape w \<and> payload w' = payload w \<and> msg_room w' = msg_room w \<and> queued w' = queued w"
proof -
  obtain w' where rel: "nx_ref_msg_release w a = Some (NX_REF_MSG_OK, w')" "ref_inv w' (H(a := H a - 1))"
    "rw_queues w' = rw_queues w" "dom (rw_pools w') = dom (rw_pools w)"
    using release_spec[OF inv held] by blast
  have "0 < H a + queued w a" using held by simp
  then obtain m where m: "rw_msgs w a = Some m" "0 < a" "rm_refcount m = H a + queued w a" by (rule ref_inv_live[OF inv])
  have ms: "\<exists>n. rw_msgs w' = (rw_msgs w)(a \<mapsto> m\<lparr> rm_refcount := n \<rparr>)"
    using rel(1) m held by (auto simp: nx_ref_msg_release_def Let_def bind_eq_Some_conv split: if_splits)
  have pl: "payload w' = payload w" using ms m(1) by (auto simp: payload_def fun_eq_iff)
  have "msg_room w' = msg_room w" using ms m(1) by (auto simp: msg_room_def fun_eq_iff)
  moreover have "chan w' = chan w"
    by (rule chan_cong) (use inv rel(3) pl in \<open>auto simp: ref_inv_def\<close>)
  moreover have "queued w' = queued w" by (intro ext) (simp add: queued_def rel(3))
  moreover have "bus_shape w' = bus_shape w" using rel(3,4) by (simp add: bus_shape_def chan_cap_def fun_eq_iff)
  ultimately show ?thesis using rel(1,2) pl by blast
qed

lemma bus_consume:
  assumes inv: "ref_inv w H" and q: "chan_cap w q = Some cap"
  shows "(chan w q = [] \<longrightarrow> (\<exists>w'. ref_msg_consume w q = Some (None, w') \<and> ref_inv w' H \<and> chan w' = chan w \<and>
      bus_shape w' = bus_shape w \<and> payload w' = payload w \<and> msg_room w' = msg_room w \<and> rw_env w' = rw_env w \<and> queued w' = queued w)) \<and>
    (chan w q \<noteq> [] \<longrightarrow> (\<exists>a w'. ref_msg_consume w q = Some (Some a, w') \<and> ref_inv w' (H(a := H a + 1)) \<and>
      chan w' = (chan w)(q := tl (chan w q)) \<and> payload w a = hd (chan w q) \<and> bus_shape w' = bus_shape w \<and>
      payload w' = payload w \<and> msg_room w' = msg_room w \<and> rw_env w' = rw_env w \<and> queued w = (queued w')(a := queued w' a + 1)))"
proof -
  obtain qo where qo: "rw_queues w q = Some qo" using q by (auto simp: chan_cap_def)
  have qok: "ref_queues_ok w" using inv by (simp add: ref_inv_def)
  obtain c where like: "queue_like 8 c NX_QUEUE_ON_FULL_REJECT qo" by (rule ref_queue_like[OF inv qo])
  have elem: "length (replicate 8 (0 :: u8)) = 8" by simp
  obtain q' out where pop: "nx_queue_pop (Some qo) (Some (replicate 8 0))
      = Some ((if queue_items qo = [] then NX_QUEUE_ERR_EMPTY else NX_QUEUE_OK, out), Some q')"
    and q': "queue_like 8 c NX_QUEUE_ON_FULL_REJECT q'" "queue_items q' = tl (queue_items qo)"
    and out: "queue_items qo \<noteq> [] \<longrightarrow> out = Some (hd (queue_items qo))"
    using reject_queue.pop_law[OF like elem] by blast
  define w' where "w' = w\<lparr> rw_queues := (rw_queues w)(q := Some q') \<rparr>"
  have pl: "payload w' = payload w" "msg_room w' = msg_room w" "rw_env w' = rw_env w"
    by (simp_all add: w'_def payload_def msg_room_def fun_eq_iff)
  have "q_capacity q' = q_capacity qo" using like q'(1) by (simp add: queue_like_def)
  then have sh: "bus_shape w' = bus_shape w" using qo by (simp add: bus_shape_def chan_cap_def w'_def fun_eq_iff)
  have ch: "chan w' = (chan w)(q := tl (chan w q))"
  proof
    fix p
    have ip: "item_payload w' = item_payload w" by (simp add: item_payload_def fun_eq_iff pl)
    have qs: "rw_queues w' = (rw_queues w)(q := Some q')" by (simp add: w'_def)
    show "chan w' p = ((chan w)(q := tl (chan w q))) p"
      using qo q'(2) unfolding chan_def qs ip by (cases "p = q") (simp_all add: map_tl)
  qed
  have cnt: "chan w q = [] \<longleftrightarrow> q_count qo = 0" "queue_items qo = [] \<longleftrightarrow> q_count qo = 0"
    using qo by (simp_all add: chan_def queue_items_def)
  show ?thesis
  proof (intro conjI impI)
    assume e: "chan w q = []"
    then have run: "ref_msg_consume w q = Some (None, w')" using pop qo cnt by (simp add: ref_msg_consume_def w'_def)
    with e consume_spec[OF inv qo] cnt have "ref_inv w' H" "queued w' = queued w" by auto
    moreover have "chan w' = chan w" using ch e by auto
    ultimately show "\<exists>w'. ref_msg_consume w q = Some (None, w') \<and> ref_inv w' H \<and> chan w' = chan w \<and>
      bus_shape w' = bus_shape w \<and> payload w' = payload w \<and> msg_room w' = msg_room w \<and> rw_env w' = rw_env w \<and> queued w' = queued w"
      using run sh pl by blast
  next
    assume ne: "chan w q \<noteq> []"
    then obtain a w2 where c2: "ref_msg_consume w q = Some (Some a, w2)" "ref_inv w2 (H(a := H a + 1))"
      "queued w = (queued w2)(a := queued w2 a + 1)"
      using consume_spec[OF inv qo] cnt by auto
    have ptr: "w2 = w' \<and> ptr_of_bytes (hd (queue_items qo)) = Some a"
      using c2(1) pop qo ne cnt out by (auto simp: ref_msg_consume_def w'_def bind_eq_Some_conv)
    then have "payload w a = hd (chan w q)"
      using qo ne cnt by (simp add: chan_def hd_map item_payload_def)
    with c2 ptr ch sh pl show "\<exists>a w'. ref_msg_consume w q = Some (Some a, w') \<and> ref_inv w' (H(a := H a + 1)) \<and>
      chan w' = (chan w)(q := tl (chan w q)) \<and> payload w a = hd (chan w q) \<and> bus_shape w' = bus_shape w \<and>
      payload w' = payload w \<and> msg_room w' = msg_room w \<and> rw_env w' = rw_env w \<and> queued w = (queued w')(a := queued w' a + 1)"
      by blast
  qed
qed

text \<open>Shrinking a message to the length it was allocated with changes nothing.\<close>

lemma bus_shrink_same:
  assumes "ref_inv w H" "0 < H a" "msg_room w a = n"
  shows "\<exists>r. nx_ref_msg_shrink w a n = Some (r, w)"
proof -
  have "0 < H a + queued w a" using assms(2) by simp
  then obtain m where m: "rw_msgs w a = Some m" "0 < a" by (rule ref_inv_live[OF assms(1)])
  have "w\<lparr> rw_msgs := (rw_msgs w)(a \<mapsto> m\<lparr> rm_len := n \<rparr>) \<rparr> = w"
    using m(1) assms(3) by (simp add: msg_room_def fun_upd_idem)
  then show ?thesis using m assms(3) by (simp add: nx_ref_msg_shrink_def msg_room_def)
qed


section \<open>The interface\<close>

text \<open>
  \<open>inv w H\<close>: the world is consistent when \<open>H\<close> counts the references held. \<open>queued\<close> counts the references in queues,
  \<open>frame w w'\<close> is everything clients may rely on not to change.
\<close>

locale message_bus =
  fixes inv :: "'w \<Rightarrow> (nat \<Rightarrow> nat) \<Rightarrow> bool"
    and chans :: "'w \<Rightarrow> nat \<Rightarrow> 'd option list" and cap :: "'w \<Rightarrow> nat \<Rightarrow> nat option"
    and data :: "'w \<Rightarrow> nat \<Rightarrow> 'd option" and refs :: "'w \<Rightarrow> nat \<Rightarrow> nat" and room :: "'w \<Rightarrow> nat \<Rightarrow> nat"
    and shape :: "'w \<Rightarrow> 's" and pool_ok :: "'w \<Rightarrow> nat \<Rightarrow> nat \<Rightarrow> bool" and dsize :: "'d \<Rightarrow> nat"
    and alloc :: "'w \<Rightarrow> nat \<Rightarrow> nat \<Rightarrow> (nat \<times> 'w) option" and store :: "'w \<Rightarrow> nat \<Rightarrow> 'd \<Rightarrow> 'w option"
    and publish :: "'w \<Rightarrow> nat \<Rightarrow> nat \<Rightarrow> (nx_ref_msg_ret \<times> 'w) option"
    and release :: "'w \<Rightarrow> nat \<Rightarrow> (nx_ref_msg_ret \<times> 'w) option"
  assumes alloc_law: "inv w H \<Longrightarrow> pool_ok w pool len \<Longrightarrow>
      \<exists>a w'. alloc w pool len = Some (a, w') \<and> chans w' = chans w \<and> shape w' = shape w \<and>
        (\<forall>b. 0 < H b \<longrightarrow> data w' b = data w b \<and> refs w' b = refs w b \<and> room w' b = room w b) \<and>
        (if a = 0 then inv w' H else H a = 0 \<and> inv w' (H(a := 1)) \<and> refs w' a = 0 \<and> room w' a = len)"
    and store_law: "inv w H \<Longrightarrow> 0 < H a \<Longrightarrow> refs w a = 0 \<Longrightarrow> dsize d \<le> room w a \<Longrightarrow>
      \<exists>w'. store w a d = Some w' \<and> inv w' H \<and> chans w' = chans w \<and> shape w' = shape w \<and> refs w' = refs w \<and>
        data w' = (data w)(a := Some d) \<and> room w' = room w"
    and publish_law: "inv w H \<Longrightarrow> 0 < H a \<Longrightarrow> q \<noteq> 0 \<Longrightarrow> cap w q = Some n \<Longrightarrow> H a + refs w a + 1 < 2 ^ 64 \<Longrightarrow>
      \<exists>w'. publish w a q = Some (if length (chans w q) < n then NX_REF_MSG_OK else NX_REF_MSG_ERR_FULL, w') \<and> inv w' H \<and>
        chans w' = (if length (chans w q) < n then (chans w)(q := chans w q @ [data w a]) else chans w) \<and>
        shape w' = shape w \<and> data w' = data w \<and> room w' = room w \<and>
        refs w' = (if length (chans w q) < n then (refs w)(a := refs w a + 1) else refs w)"
    and release_law: "inv w H \<Longrightarrow> 0 < H a \<Longrightarrow>
      \<exists>w'. release w a = Some (NX_REF_MSG_OK, w') \<and> inv w' (H(a := H a - 1)) \<and> chans w' = chans w \<and>
        shape w' = shape w \<and> data w' = data w \<and> refs w' = refs w \<and> room w' = room w"
    and cap_shape: "shape w' = shape w \<Longrightarrow> cap w' = cap w"
begin

text \<open>Building a message and sending it: nothing is left behind whether or not there was memory and room.\<close>

lemma send_message:
  assumes inv: "inv w H" and pool: "pool_ok w pool len" and q: "q \<noteq> 0" "cap w q = Some n" and d: "dsize d \<le> len"
  obtains (nomem) w1 where "alloc w pool len = Some (0, w1)" "inv w1 H" "chans w1 = chans w" "shape w1 = shape w"
      "\<forall>b. 0 < H b \<longrightarrow> data w1 b = data w b \<and> refs w1 b = refs w b \<and> room w1 b = room w b"
    | (built) a w1 w2 w3 w4 where "alloc w pool len = Some (a, w1)" "a \<noteq> 0" "store w1 a d = Some w2"
      "inv w2 (H(a := 1))" "room w2 a = len"
      "publish w2 a q = Some (if length (chans w q) < n then NX_REF_MSG_OK else NX_REF_MSG_ERR_FULL, w3)"
      "release w3 a = Some (NX_REF_MSG_OK, w4)" "inv w4 H"
      "chans w4 = (if length (chans w q) < n then (chans w)(q := chans w q @ [Some d]) else chans w)" "shape w4 = shape w"
      "\<forall>b. 0 < H b \<longrightarrow> data w4 b = data w b \<and> refs w4 b = refs w b \<and> room w4 b = room w b"
proof -
  obtain a w1 where a: "alloc w pool len = Some (a, w1)" "chans w1 = chans w" "shape w1 = shape w"
    "\<forall>b. 0 < H b \<longrightarrow> data w1 b = data w b \<and> refs w1 b = refs w b \<and> room w1 b = room w b"
    "if a = 0 then inv w1 H else H a = 0 \<and> inv w1 (H(a := 1)) \<and> refs w1 a = 0 \<and> room w1 a = len"
    using alloc_law[OF inv pool] by blast
  show ?thesis
  proof (cases "a = 0")
    case True
    with a nomem show ?thesis by simp
  next
    case False
    then have b: "H a = 0" "inv w1 (H(a := 1))" "refs w1 a = 0" "room w1 a = len" using a(5) by auto
    obtain w2 where w2: "store w1 a d = Some w2" "inv w2 (H(a := 1))" "chans w2 = chans w1" "shape w2 = shape w1"
      "refs w2 = refs w1" "data w2 = (data w1)(a := Some d)" "room w2 = room w1"
      using store_law[OF b(2), of a d] b(3,4) d by auto
    have "cap w2 q = Some n" using cap_shape[of w2 w] w2(4) a(3) q(2) by simp
    then obtain w3 where w3: "publish w2 a q = Some (if length (chans w q) < n then NX_REF_MSG_OK else NX_REF_MSG_ERR_FULL, w3)"
      "inv w3 (H(a := 1))" "chans w3 = (if length (chans w q) < n then (chans w)(q := chans w q @ [Some d]) else chans w)"
      "shape w3 = shape w2" "data w3 = data w2" "room w3 = room w2"
      "refs w3 = (if length (chans w q) < n then (refs w2)(a := refs w2 a + 1) else refs w2)"
      using publish_law[OF w2(2) _ q(1), of a n] b(3) w2(3,5,6) a(2) by auto
    obtain w4 where w4: "release w3 a = Some (NX_REF_MSG_OK, w4)" "inv w4 ((H(a := 1))(a := (H(a := 1)) a - 1))"
      "chans w4 = chans w3" "shape w4 = shape w3" "data w4 = data w3" "refs w4 = refs w3" "room w4 = room w3"
      using release_law[OF w3(2), of a] by auto
    have "(H(a := 1))(a := (H(a := 1)) a - 1) = H" using b(1) by auto
    moreover have "\<forall>b. 0 < H b \<longrightarrow> data w4 b = data w b \<and> refs w4 b = refs w b \<and> room w4 b = room w b"
      using a(4) b(1) w4(5-7) w3(5-7) w2(5-7) by auto
    ultimately show ?thesis
      using built[OF a(1) False w2(1,2)] w2(7) b(4) w3 w4 w2(4) a(3) by simp
  qed
qed

end

text \<open>A pool from which a message of this length can be asked for.\<close>

definition pool_serves :: "('e, 'd) ref_world \<Rightarrow> nat \<Rightarrow> nat \<Rightarrow> bool" where
  "pool_serves w pool len \<longleftrightarrow> pool \<noteq> 0 \<and> pool \<in> dom (rw_pools w) \<and> 0 < len \<and> REF_MSG_SIZEOF + len < 2 ^ 64"

interpretation msgs: message_bus ref_inv chan chan_cap payload queued msg_room bus_shape pool_serves dsize
  nx_ref_msg_alloc "msg_put dsize" nx_ref_msg_publish nx_ref_msg_release
  for dsize :: "'d \<Rightarrow> nat"
proof
  fix w :: "('e, 'd) ref_world" and H pool len a d q n
  show "ref_inv w H \<Longrightarrow> pool_serves w pool len \<Longrightarrow>
      \<exists>a w'. nx_ref_msg_alloc w pool len = Some (a, w') \<and> chan w' = chan w \<and> bus_shape w' = bus_shape w \<and>
        (\<forall>b. 0 < H b \<longrightarrow> payload w' b = payload w b \<and> queued w' b = queued w b \<and> msg_room w' b = msg_room w b) \<and>
        (if a = 0 then ref_inv w' H else H a = 0 \<and> ref_inv w' (H(a := 1)) \<and> queued w' a = 0 \<and> msg_room w' a = len)"
    unfolding pool_serves_def by (rule bus_alloc) auto
  show "ref_inv w H \<Longrightarrow> 0 < H a \<Longrightarrow> queued w a = 0 \<Longrightarrow> dsize d \<le> msg_room w a \<Longrightarrow>
      \<exists>w'. msg_put dsize w a d = Some w' \<and> ref_inv w' H \<and> chan w' = chan w \<and> bus_shape w' = bus_shape w \<and> queued w' = queued w \<and>
        payload w' = (payload w)(a := Some d) \<and> msg_room w' = msg_room w"
    using bus_store[where w = w and H = H and a = a and dsize = dsize and d = d] by blast
  show "ref_inv w H \<Longrightarrow> 0 < H a \<Longrightarrow> q \<noteq> 0 \<Longrightarrow> chan_cap w q = Some n \<Longrightarrow> H a + queued w a + 1 < 2 ^ 64 \<Longrightarrow>
      \<exists>w'. nx_ref_msg_publish w a q = Some (if length (chan w q) < n then NX_REF_MSG_OK else NX_REF_MSG_ERR_FULL, w') \<and>
        ref_inv w' H \<and> chan w' = (if length (chan w q) < n then (chan w)(q := chan w q @ [payload w a]) else chan w) \<and>
        bus_shape w' = bus_shape w \<and> payload w' = payload w \<and> msg_room w' = msg_room w \<and>
        queued w' = (if length (chan w q) < n then (queued w)(a := queued w a + 1) else queued w)"
    using bus_publish by blast
  show "ref_inv w H \<Longrightarrow> 0 < H a \<Longrightarrow>
      \<exists>w'. nx_ref_msg_release w a = Some (NX_REF_MSG_OK, w') \<and> ref_inv w' (H(a := H a - 1)) \<and> chan w' = chan w \<and>
        bus_shape w' = bus_shape w \<and> payload w' = payload w \<and> queued w' = queued w \<and> msg_room w' = msg_room w"
    using bus_release by blast
qed (simp add: bus_shape_def)

section \<open>What the rest of the program keeps\<close>

text \<open>The environment is not part of what clients see.\<close>

lemma env_unseen [simp]:
  "payload (w\<lparr> rw_env := e \<rparr>) = payload w" "chan (w\<lparr> rw_env := e \<rparr>) = chan w" "bus_shape (w\<lparr> rw_env := e \<rparr>) = bus_shape w"
  "ref_inv (w\<lparr> rw_env := e \<rparr>) K = ref_inv w K" "msg_room (w\<lparr> rw_env := e \<rparr>) = msg_room w"
proof -
  show p: "payload (w\<lparr> rw_env := e \<rparr>) = payload w" by (simp add: payload_def fun_eq_iff)
  have "item_payload (w\<lparr> rw_env := e \<rparr>) = item_payload w" by (simp add: item_payload_def fun_eq_iff p)
  then show "chan (w\<lparr> rw_env := e \<rparr>) = chan w" by (intro ext) (simp add: chan_def cong: option.case_cong)
  show "bus_shape (w\<lparr> rw_env := e \<rparr>) = bus_shape w" by (simp add: bus_shape_def chan_cap_def fun_eq_iff)
  show "ref_inv (w\<lparr> rw_env := e \<rparr>) K = ref_inv w K"
    by (simp add: ref_inv_def ref_queues_ok_def ref_pools_ok_def ref_counts_ok_def ref_live_ok_def cong: option.case_cong)
  show "msg_room (w\<lparr> rw_env := e \<rparr>) = msg_room w" by (simp add: msg_room_def fun_eq_iff)
qed

lemma chan_cap_env [simp]: "chan_cap (w\<lparr> rw_env := e \<rparr>) = chan_cap w"
  by (simp add: chan_cap_def fun_eq_iff)

text \<open>
  What every operation keeps for the rest of the program: the pools and queues there are, and the messages others hold (\<open>H\<close>).
\<close>

definition bus_keeps :: "(nat \<Rightarrow> nat) \<Rightarrow> ('e, 'd) ref_world \<Rightarrow> ('e, 'd) ref_world \<Rightarrow> bool" where
  "bus_keeps H w w' \<longleftrightarrow> bus_shape w' = bus_shape w \<and> (\<forall>b. 0 < H b \<longrightarrow> payload w' b = payload w b \<and> queued w' b = queued w b \<and> msg_room w' b = msg_room w b)"

lemma bus_keeps_refl [simp]: "bus_keeps H w w"
  by (simp add: bus_keeps_def)

lemma bus_keeps_trans: "bus_keeps H w w1 \<Longrightarrow> bus_keeps H w1 w2 \<Longrightarrow> bus_keeps H w w2"
  by (simp add: bus_keeps_def)

lemma bus_keeps_mono: "bus_keeps H w w1 \<Longrightarrow> (\<And>b. 0 < G b \<Longrightarrow> 0 < H b) \<Longrightarrow> bus_keeps G w w1"
  by (simp add: bus_keeps_def)

text \<open>The rest of the program keeps its pools and queues, and the messages it holds keep their size and contents.\<close>

definition held_kept :: "(nat \<Rightarrow> nat) \<Rightarrow> ('e, 'd) ref_world \<Rightarrow> ('e, 'd) ref_world \<Rightarrow> bool" where
  "held_kept H w w' \<longleftrightarrow> bus_shape w' = bus_shape w \<and> (\<forall>b. 0 < H b \<longrightarrow> payload w' b = payload w b \<and> msg_room w' b = msg_room w b)"

lemma held_kept_refl [simp]: "held_kept H w w"
  by (simp add: held_kept_def)

lemma held_kept_trans: "held_kept H w w1 \<Longrightarrow> held_kept H w1 w2 \<Longrightarrow> held_kept H w w2"
  by (simp add: held_kept_def)

lemma bus_keeps_held: "bus_keeps K w w' \<Longrightarrow> (\<And>b. 0 < H b \<Longrightarrow> 0 < K b) \<Longrightarrow> held_kept H w w'"
  by (simp add: bus_keeps_def held_kept_def)

text \<open>Two writes through the data pointer, and a read after a write.\<close>

lemma msg_put_put: "msg_put dsize w a d = Some w1 \<Longrightarrow> dsize d' = dsize d \<Longrightarrow> msg_put dsize w1 a d' = msg_put dsize w a d'"
  by (auto simp: msg_put_def bind_eq_Some_conv split: if_splits)

lemma msg_load_put: "msg_put dsize w a d = Some w1 \<Longrightarrow> msg_load w1 a = Some d"
  by (cases "rw_msgs w a") (auto simp: msg_put_def msg_load_def split: if_splits)

lemma msg_put_size: "msg_put dsize w a d' = Some w1 \<Longrightarrow> dsize d = dsize d' \<Longrightarrow> \<exists>w2. msg_put dsize w a d = Some w2"
  by (auto simp: msg_put_def bind_eq_Some_conv split: if_splits)

text \<open>What no operation on references touches: the payloads and the lengths of the blocks.\<close>

lemma msg_put_effect:
  assumes "msg_put dsize w a d = Some w1"
  shows "payload w1 = (payload w)(a := Some d)" "msg_room w1 = msg_room w"
  using assms by (auto simp: msg_put_def payload_def msg_room_def bind_eq_Some_conv fun_eq_iff split: if_splits)

lemma publish_keeps_data:
  assumes "nx_ref_msg_publish w a q = Some (r, w1)"
  shows "payload w1 = payload w" "msg_room w1 = msg_room w"
  using assms
  by (auto simp: nx_ref_msg_publish_def payload_def msg_room_def Let_def bind_eq_Some_conv fun_eq_iff split: if_splits)

lemma release_keeps_data:
  assumes "nx_ref_msg_release w a = Some (r, w1)"
  shows "payload w1 = payload w" "msg_room w1 = msg_room w"
  using assms
  by (auto simp: nx_ref_msg_release_def payload_def msg_room_def Let_def bind_eq_Some_conv fun_eq_iff split: if_splits)

lemma alloc_effect_data:
  assumes "nx_ref_msg_alloc w pool len = Some (a, w1)"
  shows "payload w1 = (if a = 0 then payload w else (payload w)(a := None))"
    "msg_room w1 = (if a = 0 then msg_room w else (msg_room w)(a := len))"
  using assms
  by (auto simp: nx_ref_msg_alloc_def payload_def msg_room_def Let_def bind_eq_Some_conv fun_eq_iff split: if_splits)

end
