(* ===== verification/Nx_Isotp_Frames.thy ===== *)
theory Nx_Isotp_Frames
  imports Nx_Can_Isotp Nx_Msg_Bus
begin

text \<open>
  The frames \<open>src/middleware/nx_can_isotp.c\<close> emits: their bytes, and that emitting one either appends it to the transmit queue or
  changes no queue, leaving no message behind.
\<close>

section \<open>Configuration\<close>

text \<open>What \<open>nx_can_isotp_init\<close> guarantees, and that the queues are four different ones.\<close>

definition isotp_cfg_ok :: "'e nx_can_isotp_cfg \<Rightarrow> bool" where
  "isotp_cfg_ok cfg \<longleftrightarrow>
     istp_frame_len_valid (ic_max_frame_len cfg) \<and> ic_get_us cfg \<noteq> None \<and> ic_ch cfg \<le> 15 \<and> ic_pool cfg \<noteq> 0 \<and>
     ic_sdu_rx_queue cfg \<noteq> 0 \<and> ic_sdu_tx_queue cfg \<noteq> 0 \<and> ic_can_rx_queue cfg \<noteq> 0 \<and> ic_can_tx_queue cfg \<noteq> 0 \<and>
     distinct [ic_sdu_rx_queue cfg, ic_sdu_tx_queue cfg, ic_can_rx_queue cfg, ic_can_tx_queue cfg]"

lemma istp_frame_len_range:
  assumes "istp_frame_len_valid n"
  shows "8 \<le> unat n" "unat n \<le> 64"
proof -
  show "8 \<le> unat n" using assms by (simp add: istp_frame_len_valid_def not_less word_le_nat_alt)
  have "unat (ucast n :: u32) = unat n" by (simp add: unat_ucast_wider)
  moreover have "unat (nx_can_dlc_to_len (nx_can_len_to_dlc (ucast n))) \<le> 64" by (simp add: unat_dlc_to_len len_of_dlc_le)
  ultimately show "unat n \<le> 64" using assms by (metis istp_frame_len_valid_def)
qed

lemma isotp_cfg_frame_len:
  assumes "isotp_cfg_ok cfg"
  shows "8 \<le> unat (ic_max_frame_len cfg)" "unat (ic_max_frame_len cfg) \<le> 64"
  using assms istp_frame_len_range by (auto simp: isotp_cfg_ok_def)

section \<open>The bytes of a frame\<close>

definition isotp_wire :: "'e nx_can_isotp_cfg \<Rightarrow> nat \<Rightarrow> nat" where
  "isotp_wire cfg used = len_of_dlc (dlc_of_len (if ic_pad_frames cfg \<and> used < 8 then 8 else used))"

definition isotp_frame_bytes :: "'e nx_can_isotp_cfg \<Rightarrow> bytes \<Rightarrow> bytes" where
  "isotp_frame_bytes cfg xs = xs @ replicate (isotp_wire cfg (length xs) - length xs) (ic_pad_byte cfg)"

definition isotp_frame :: "'e nx_can_isotp_cfg \<Rightarrow> u32 \<Rightarrow> bytes \<Rightarrow> nx_can_msg" where
  "isotp_frame cfg id0 xs =
     \<lparr> cm_id = id0,
       cm_flags = nx_can_flags_zero\<lparr> cf_ch := ucast (ic_ch cfg), cf_is_ext := ic_ext_id cfg,
         cf_is_fd := ic_fd_frames cfg, cf_brs := ic_brs cfg,
         cf_dlc := of_nat (dlc_of_len (isotp_wire cfg (length xs))) \<rparr>,
       cm_timestamp = 0, cm_data = isotp_frame_bytes cfg xs \<rparr>"

lemma isotp_wire_bounds:
  assumes "used \<le> 64"
  shows "used \<le> isotp_wire cfg used" "isotp_wire cfg used \<le> 64"
    "dlc_of_len (isotp_wire cfg used) = dlc_of_len (if ic_pad_frames cfg \<and> used < 8 then 8 else used)"
proof -
  let ?want = "if ic_pad_frames cfg \<and> used < 8 then 8 else used"
  show "isotp_wire cfg used \<le> 64" unfolding isotp_wire_def by (rule len_of_dlc_le)
  have "?want \<le> 64" "used \<le> ?want" using assms by auto
  then show "used \<le> isotp_wire cfg used"
    unfolding isotp_wire_def using len_of_dlc_ge[of ?want] by linarith
  show "dlc_of_len (isotp_wire cfg used) = dlc_of_len ?want"
    unfolding isotp_wire_def by (rule dlc_of_len_of_dlc[OF dlc_of_len_le])
qed

lemma length_isotp_frame_bytes [simp]:
  "length xs \<le> 64 \<Longrightarrow> length (isotp_frame_bytes cfg xs) = isotp_wire cfg (length xs)"
  using isotp_wire_bounds(1)[of "length xs" cfg] by (simp add: isotp_frame_bytes_def)

lemma frame_dlen_isotp_frame:
  assumes "length xs \<le> 64"
  shows "frame_dlen (isotp_frame cfg id0 xs) = length (cm_data (isotp_frame cfg id0 xs))"
proof -
  have d: "dlc_of_len (isotp_wire cfg (length xs)) \<le> 15" by (rule dlc_of_len_le)
  then have "unat (ucast (of_nat (dlc_of_len (isotp_wire cfg (length xs))) :: 4 word) :: u8) = dlc_of_len (isotp_wire cfg (length xs))"
    by (simp add: unsigned_ucast_eq unsigned_of_nat take_bit_nat_eq_self)
  moreover have "len_of_dlc (dlc_of_len (isotp_wire cfg (length xs))) = isotp_wire cfg (length xs)"
    using isotp_wire_bounds(3)[OF assms, of cfg] by (simp add: isotp_wire_def)
  ultimately show ?thesis
    using assms by (simp add: frame_dlen_def isotp_frame_def unat_dlc_to_len)
qed

lemma istp_frame_data_spec:
  assumes cfg: "isotp_cfg_ok cfg" and pci: "0 < length pci" "length pci \<le> 6"
    and c: "c = min plen (unat (ic_max_frame_len cfg) - length pci)" and src: "0 < c \<Longrightarrow> \<exists>s. src = Some s \<and> c \<le> length s \<and> take c s = x"
    and x: "length x = c"
  shows "istp_frame_data cfg src plen pci =
    (of_nat (dlc_of_len (isotp_wire cfg (length (pci @ x)))), isotp_wire cfg (length (pci @ x)), Some (isotp_frame_bytes cfg (pci @ x)))"
proof -
  define mfl where "mfl = unat (ic_max_frame_len cfg)"
  have mfl: "8 \<le> mfl" "mfl \<le> 64" using isotp_cfg_frame_len[OF cfg] by (simp_all add: mfl_def)
  define used where "used = length pci + c"
  define want where "want = (if ic_pad_frames cfg \<and> used < 8 then 8 else used)"
  have cap: "size_sub mfl (length pci) = mfl - length pci" using mfl pci by simp
  have chunk: "(if plen < mfl - length pci then plen else mfl - length pci) = c" by (simp add: c mfl_def min_def)
  have used: "used \<le> 64" "used = length (pci @ x)" using mfl pci c by (simp_all add: used_def x mfl_def)
  have want: "want \<le> 64" using used by (simp add: want_def)
  have dlc: "nx_can_len_to_dlc (of_nat want) = of_nat (dlc_of_len want)"
  proof -
    have "unat (of_nat want :: u32) = want" using want by (simp add: unsigned_of_nat take_bit_nat_eq_self)
    then have "unat (nx_can_len_to_dlc (of_nat want)) = dlc_of_len want" by (simp add: unat_len_to_dlc)
    moreover have "unat (of_nat (dlc_of_len want) :: u8) = dlc_of_len want"
      using dlc_of_len_le[of want] by (simp add: unsigned_of_nat take_bit_nat_eq_self)
    ultimately show ?thesis by (simp add: word_unat_eq_iff)
  qed
  have wire: "unat (nx_can_dlc_to_len (of_nat (dlc_of_len want))) = isotp_wire cfg used"
  proof -
    have "unat (of_nat (dlc_of_len want) :: u8) = dlc_of_len want"
      using dlc_of_len_le[of want] by (simp add: unsigned_of_nat take_bit_nat_eq_self)
    then show ?thesis by (simp add: unat_dlc_to_len isotp_wire_def want_def)
  qed
  have w: "used \<le> isotp_wire cfg used" by (rule isotp_wire_bounds(1)[OF used(1)])
  have d1: "mem_write 0 pci (replicate (isotp_wire cfg used) 0) = Some (pci @ replicate (isotp_wire cfg used - length pci) 0)"
    using w by (simp add: mem_write_def used_def)
  have d2: "(if c > 0 then do { s \<leftarrow> src; y \<leftarrow> mem_read 0 c s; mem_write (length pci) y (pci @ replicate (isotp_wire cfg used - length pci) 0) }
      else Some (pci @ replicate (isotp_wire cfg used - length pci) 0)) = Some (pci @ x @ replicate (isotp_wire cfg used - used) 0)"
  proof (cases "c = 0")
    case True
    then show ?thesis using x by (simp add: used_def)
  next
    case False
    then obtain s where s: "src = Some s" "c \<le> length s" "take c s = x" using src by auto
    have "mem_write (length pci) x (pci @ replicate (isotp_wire cfg used - length pci) 0) =
        Some (pci @ x @ replicate (isotp_wire cfg used - used) 0)"
      using w x by (simp add: mem_write_def used_def)
    then show ?thesis using False s by (simp add: mem_read_def)
  qed
  have d3: "(if isotp_wire cfg used > used then mem_write used (replicate (isotp_wire cfg used - used) (ic_pad_byte cfg))
        (pci @ x @ replicate (isotp_wire cfg used - used) 0) else Some (pci @ x @ replicate (isotp_wire cfg used - used) 0)) =
      Some (isotp_frame_bytes cfg (pci @ x))"
    using w used(2) by (auto simp: mem_write_def isotp_frame_bytes_def)
  have "istp_frame_data cfg src plen pci = (of_nat (dlc_of_len want), isotp_wire cfg used, Some (isotp_frame_bytes cfg (pci @ x)))"
    unfolding istp_frame_data_def mfl_def[symmetric] Let_def cap chunk used_def[symmetric] want_def[symmetric] dlc wire d1
    using d2 d3 by (simp add: bind_eq_Some_conv)
  then show ?thesis using isotp_wire_bounds(3)[OF used(1), of cfg] used(2) by (simp add: want_def)
qed

section \<open>Emission\<close>

definition isotp_bus_ok :: "'e nx_can_isotp_cfg \<Rightarrow> 'e tp_world \<Rightarrow> bool" where
  "isotp_bus_ok cfg w \<longleftrightarrow> isotp_cfg_ok cfg \<and> ic_pool cfg \<in> dom (rw_pools w) \<and>
     (\<forall>q \<in> {ic_sdu_rx_queue cfg, ic_sdu_tx_queue cfg, ic_can_rx_queue cfg, ic_can_tx_queue cfg}. chan_cap w q \<noteq> None)"

lemma isotp_bus_keeps: "isotp_bus_ok cfg w \<Longrightarrow> bus_shape w' = bus_shape w \<Longrightarrow> isotp_bus_ok cfg w'"
  by (simp add: isotp_bus_ok_def bus_shape_def)

lemma isotp_pool_serves:
  "isotp_bus_ok cfg w \<Longrightarrow> 0 < len \<Longrightarrow> len \<le> 2 ^ 33 \<Longrightarrow> pool_serves w (ic_pool cfg) len"
  by (simp add: isotp_bus_ok_def isotp_cfg_ok_def pool_serves_def REF_MSG_SIZEOF_def)

text \<open>A message sent to a queue: appended, or nothing changed.\<close>

definition sent_to :: "nat \<Rightarrow> tp_data \<Rightarrow> bool \<Rightarrow> 'e tp_world \<Rightarrow> 'e tp_world \<Rightarrow> bool" where
  "sent_to q d ok w w' \<longleftrightarrow> chan w' = (if ok then (chan w)(q := chan w q @ [Some d]) else chan w)"

lemma istp_emit_frame_spec:
  assumes bus: "isotp_bus_ok cfg w" and inv: "ref_inv w H" and pci: "0 < length pci" "length pci \<le> 6"
    and c: "c = min plen (unat (ic_max_frame_len cfg) - length pci)" and src: "0 < c \<Longrightarrow> \<exists>s. src = Some s \<and> c \<le> length s \<and> take c s = x"
    and x: "length x = c"
  shows "\<exists>ok w'. istp_emit_frame cfg w id0 src plen pci = Some (ok, w') \<and> ref_inv w' H \<and> bus_keeps H w w' \<and>
    sent_to (ic_can_tx_queue cfg) (Frame (isotp_frame cfg id0 (pci @ x))) ok w w'"
proof -
  have cfg: "isotp_cfg_ok cfg" using bus by (simp add: isotp_bus_ok_def)
  have used: "length (pci @ x) \<le> 64" using isotp_cfg_frame_len[OF cfg] pci c x by simp
  let ?wire = "isotp_wire cfg (length (pci @ x))" and ?d = "Frame (isotp_frame cfg id0 (pci @ x))"
  have fd: "istp_frame_data cfg src plen pci = (of_nat (dlc_of_len ?wire), ?wire, Some (isotp_frame_bytes cfg (pci @ x)))"
    by (rule istp_frame_data_spec[OF cfg pci c src x])
  have wire: "?wire \<le> 64" by (rule isotp_wire_bounds(2)[OF used])
  have flags: "(ucast (of_nat (dlc_of_len ?wire) :: u8) :: 4 word) = of_nat (dlc_of_len ?wire)"
    using dlc_of_len_le[of ?wire] by (simp add: word_unat_eq_iff unsigned_ucast_eq unsigned_of_nat take_bit_nat_eq_self)
  have size: "tp_size ?d = CAN_MSG_SIZEOF + ?wire" using used by (simp add: isotp_frame_def)
  have serves: "pool_serves w (ic_pool cfg) (CAN_MSG_SIZEOF + ?wire)"
    using isotp_pool_serves[OF bus, of "CAN_MSG_SIZEOF + ?wire"] wire by (simp add: CAN_MSG_SIZEOF_def)
  obtain n where q: "ic_can_tx_queue cfg \<noteq> 0" "chan_cap w (ic_can_tx_queue cfg) = Some n"
    using bus cfg by (auto simp: isotp_bus_ok_def isotp_cfg_ok_def)
  have msg: "\<lparr> cm_id = id0, cm_flags = nx_can_flags_zero\<lparr> cf_ch := ucast (ic_ch cfg), cf_is_ext := ic_ext_id cfg,
        cf_is_fd := ic_fd_frames cfg, cf_brs := ic_brs cfg, cf_dlc := ucast (of_nat (dlc_of_len ?wire) :: u8) \<rparr>,
        cm_timestamp = 0, cm_data = isotp_frame_bytes cfg (pci @ x) \<rparr> = isotp_frame cfg id0 (pci @ x)"
    using flags by (simp add: isotp_frame_def)
  from inv serves q size[THEN eq_refl] show ?thesis
  proof (cases rule: msgs.send_message)
    case (nomem w1)
    then show ?thesis
      by (intro exI[of _ False] exI[of _ w1]) (simp add: istp_emit_frame_def fd bus_keeps_def sent_to_def)
  next
    case (built a w1 w2 w3 w4)
    obtain r where shr: "nx_ref_msg_shrink w2 a (CAN_MSG_SIZEOF + ?wire) = Some (r, w2)"
      using bus_shrink_same[OF built(4) _ built(5)] by auto
    let ?ok = "length (chan w (ic_can_tx_queue cfg)) < n"
    have "istp_emit_frame cfg w id0 src plen pci = Some (?ok, w4)"
      using built(1-3,6,7) shr by (simp add: istp_emit_frame_def fd msg[simplified])
    then show ?thesis
      using built by (intro exI[of _ ?ok] exI[of _ w4]) (simp add: bus_keeps_def sent_to_def)
  qed
qed

end
