(* ===== verification/Nx_Isotp_Rx.thy ===== *)
theory Nx_Isotp_Rx
  imports Nx_Isotp_Frames
begin

text \<open>
  Reception in \<open>src/middleware/nx_can_isotp.c\<close>: every operation of the receiving side is defined, keeps the invariant of the
  reassembly and leaves the references of everyone else (\<open>K\<close>, the transmitting side included) alone.
\<close>

section \<open>What operations add to the queues\<close>

definition bus_adds :: "'e nx_can_isotp_cfg \<Rightarrow> tp_data option list \<Rightarrow> tp_data option list \<Rightarrow> 'e tp_world \<Rightarrow> 'e tp_world \<Rightarrow> bool" where
  "bus_adds cfg us fs w w' \<longleftrightarrow>
     chan w' = (chan w)(ic_sdu_tx_queue cfg := chan w (ic_sdu_tx_queue cfg) @ us,
                        ic_can_tx_queue cfg := chan w (ic_can_tx_queue cfg) @ fs)"

lemma bus_adds_refl [simp]: "bus_adds cfg [] [] w w"
  by (simp add: bus_adds_def)

lemma bus_adds_same: "chan w' = chan w \<Longrightarrow> bus_adds cfg [] [] w w'"
  by (simp add: bus_adds_def)

lemma bus_adds_trans:
  "isotp_cfg_ok cfg \<Longrightarrow> bus_adds cfg us fs w w1 \<Longrightarrow> bus_adds cfg us' fs' w1 w2 \<Longrightarrow> bus_adds cfg (us @ us') (fs @ fs') w w2"
  by (auto simp: bus_adds_def isotp_cfg_ok_def)

lemma sent_to_can:
  "sent_to (ic_can_tx_queue cfg) d ok w w' \<Longrightarrow> bus_adds cfg [] (if ok then [Some d] else []) w w'"
  by (auto simp: sent_to_def bus_adds_def)

lemma sent_to_sdu:
  "isotp_cfg_ok cfg \<Longrightarrow> sent_to (ic_sdu_tx_queue cfg) d ok w w' \<Longrightarrow> bus_adds cfg (if ok then [Some d] else []) [] w w'"
  by (auto simp: sent_to_def bus_adds_def isotp_cfg_ok_def)

lemma istp_now_spec:
  assumes "isotp_cfg_ok cfg"
  shows "\<exists>t e. istp_now cfg w = Some (t, w\<lparr> rw_env := e \<rparr>)"
proof -
  obtain f where "ic_get_us cfg = Some f" using assms by (auto simp: isotp_cfg_ok_def)
  then show ?thesis by (cases "f (rw_env w)") (auto simp: istp_now_def)
qed

section \<open>Reports and single frames\<close>

lemma send_sdu:
  assumes bus: "isotp_bus_ok cfg w" and inv: "ref_inv w K" and len: "length (sd_data s) \<le> 2 ^ 32" and q: "q \<noteq> 0" "chan_cap w q = Some n"
  obtains (nomem) w1 where "nx_ref_msg_alloc w (ic_pool cfg) (TP_SDU_SIZEOF + length (sd_data s)) = Some (0, w1)" "ref_inv w1 K"
      "chan w1 = chan w" "bus_keeps K w w1"
    | (sent) a w1 w2 w3 w4 where "nx_ref_msg_alloc w (ic_pool cfg) (TP_SDU_SIZEOF + length (sd_data s)) = Some (a, w1)" "a \<noteq> 0"
      "msg_store w1 a (Sdu s) = Some w2"
      "nx_ref_msg_publish w2 a q = Some (if length (chan w q) < n then NX_REF_MSG_OK else NX_REF_MSG_ERR_FULL, w3)"
      "nx_ref_msg_release w3 a = Some (NX_REF_MSG_OK, w4)" "ref_inv w4 K" "sent_to q (Sdu s) (length (chan w q) < n) w w4" "bus_keeps K w w4"
proof -
  have serves: "pool_serves w (ic_pool cfg) (TP_SDU_SIZEOF + length (sd_data s))"
    using isotp_pool_serves[OF bus, of "TP_SDU_SIZEOF + length (sd_data s)"] len by (simp add: TP_SDU_SIZEOF_def)
  have "tp_size (Sdu s) \<le> TP_SDU_SIZEOF + length (sd_data s)" by simp
  from inv serves q this show ?thesis
    by (cases rule: msgs.send_message) (use that in \<open>auto simp: bus_keeps_def sent_to_def\<close>)
qed

lemma istp_report_spec:
  assumes bus: "isotp_bus_ok cfg w" and inv: "ref_inv w K"
  shows "\<exists>ok w'. istp_report cfg w kind result = Some w' \<and> ref_inv w' K \<and> bus_keeps K w w' \<and>
    bus_adds cfg (if ok then [Some (Sdu (istp_sdu_head cfg 0 kind NX_TP_TA_PHYSICAL result []))] else []) [] w w'"
proof -
  let ?s = "istp_sdu_head cfg 0 kind NX_TP_TA_PHYSICAL result []"
  have cfg: "isotp_cfg_ok cfg" using bus by (simp add: isotp_bus_ok_def)
  obtain n where q: "ic_sdu_tx_queue cfg \<noteq> 0" "chan_cap w (ic_sdu_tx_queue cfg) = Some n"
    using bus cfg by (auto simp: isotp_bus_ok_def isotp_cfg_ok_def)
  have len: "length (sd_data ?s) \<le> 2 ^ 32" "TP_SDU_SIZEOF + length (sd_data ?s) = TP_SDU_SIZEOF" by (simp_all add: istp_sdu_head_def)
  from bus inv len(1) q show ?thesis
  proof (cases rule: send_sdu)
    case (nomem w1)
    then show ?thesis by (intro exI[of _ False] exI[of _ w1]) (simp add: istp_report_def len(2) bus_adds_same)
  next
    case (sent a w1 w2 w3 w4)
    then show ?thesis
      using sent_to_sdu[OF cfg sent(7)]
      by (intro exI[of _ "length (chan w (ic_sdu_tx_queue cfg)) < n"] exI[of _ w4]) (simp add: istp_report_def len(2))
  qed
qed

lemma istp_rx_single_spec:
  assumes bus: "isotp_bus_ok cfg w" and inv: "ref_inv w K" and d: "hdr + plen \<le> length d" "plen < 2 ^ 32"
  shows "\<exists>ok w'. istp_rx_single cfg w ta d plen hdr = Some w' \<and> ref_inv w' K \<and> bus_keeps K w w' \<and>
    bus_adds cfg (if ok then [Some (Sdu (istp_sdu_head cfg (of_nat plen) NX_TP_SDU_INDICATION ta NX_TP_N_OK (take plen (drop hdr d))))] else [])
      [] w w'"
proof -
  let ?s = "istp_sdu_head cfg (of_nat plen) NX_TP_SDU_INDICATION ta NX_TP_N_OK (take plen (drop hdr d))"
  have cfg: "isotp_cfg_ok cfg" using bus by (simp add: isotp_bus_ok_def)
  obtain n where q: "ic_sdu_tx_queue cfg \<noteq> 0" "chan_cap w (ic_sdu_tx_queue cfg) = Some n"
    using bus cfg by (auto simp: isotp_bus_ok_def isotp_cfg_ok_def)
  have len: "length (sd_data ?s) \<le> 2 ^ 32" "TP_SDU_SIZEOF + length (sd_data ?s) = TP_SDU_SIZEOF + plen"
    using d by (simp_all add: istp_sdu_head_def)
  have rd: "mem_read hdr plen d = Some (take plen (drop hdr d))" using d by (simp add: mem_read_def)
  from bus inv len(1) q show ?thesis
  proof (cases rule: send_sdu)
    case (nomem w1)
    then show ?thesis by (intro exI[of _ False] exI[of _ w1]) (simp add: istp_rx_single_def len(2) bus_adds_same)
  next
    case (sent a w1 w2 w3 w4)
    then show ?thesis
      using sent_to_sdu[OF cfg sent(7)] rd
      by (intro exI[of _ "length (chan w (ic_sdu_tx_queue cfg)) < n"] exI[of _ w4]) (simp add: istp_rx_single_def len(2))
  qed
qed

lemma istp_emit_fc_spec:
  assumes bus: "isotp_bus_ok cfg w" and inv: "ref_inv w K"
  shows "\<exists>ok w'. istp_emit_fc cfg w fs bs st = Some (ok, w') \<and> ref_inv w' K \<and> bus_keeps K w w' \<and>
    bus_adds cfg [] (if ok then [Some (Frame (isotp_frame cfg (ic_phys_tx_id cfg) [0x30 OR (fs AND 0x0F), bs, st]))] else []) w w'"
proof -
  have "\<exists>ok w'. istp_emit_frame cfg w (ic_phys_tx_id cfg) None 0 [0x30 OR (fs AND 0x0F), bs, st] = Some (ok, w') \<and> ref_inv w' K \<and>
      bus_keeps K w w' \<and> sent_to (ic_can_tx_queue cfg) (Frame (isotp_frame cfg (ic_phys_tx_id cfg) ([0x30 OR (fs AND 0x0F), bs, st] @ []))) ok w w'"
    by (rule istp_emit_frame_spec[OF bus inv, where c = 0]) simp_all
  then show ?thesis unfolding istp_emit_fc_def using sent_to_can by fastforce
qed

section \<open>The reassembly invariant\<close>

definition hrx :: "nx_can_isotp_rx \<Rightarrow> nat \<Rightarrow> nat" where
  "hrx rx a = (if a \<noteq> 0 \<and> a = ir_acc rx then 1 else 0)"

text \<open>
  Idle without a message, or collecting one that is known to no one else, with room for the announced length
  and less than that received.
\<close>

definition rx_ok :: "nx_can_isotp_rx \<Rightarrow> 'e tp_world \<Rightarrow> (nat \<Rightarrow> nat) \<Rightarrow> bool" where
  "rx_ok rx w K \<longleftrightarrow>
     (if ir_state rx = NX_ISOTP_RX_IDLE then ir_acc rx = 0
      else ir_acc rx \<noteq> 0 \<and> K (ir_acc rx) = 0 \<and> queued w (ir_acc rx) = 0 \<and> ir_filled rx < ir_total rx \<and>
        tp_size (the (payload w (ir_acc rx))) \<le> msg_room w (ir_acc rx) \<and>
        (\<exists>s. payload w (ir_acc rx) = Some (Sdu s) \<and> length (sd_data s) = unat (ir_total rx) \<and> sd_len s = ir_total rx \<and>
          sd_kind s = NX_TP_SDU_INDICATION))"

definition rx_inv :: "'e nx_can_isotp \<Rightarrow> 'e tp_world \<Rightarrow> (nat \<Rightarrow> nat) \<Rightarrow> bool" where
  "rx_inv tp w K \<longleftrightarrow> isotp_bus_ok (iso_cfg tp) w \<and> ref_inv w (\<lambda>a. K a + hrx (iso_rx tp) a) \<and> rx_ok (iso_rx tp) w K"

text \<open>What the receiving side hands up are indications, what it puts on the link is flow control.\<close>

definition is_indication :: "tp_data option \<Rightarrow> bool" where
  "is_indication x \<longleftrightarrow> (\<exists>s. x = Some (Sdu s) \<and> sd_kind s = NX_TP_SDU_INDICATION)"

definition is_flow_control :: "'e nx_can_isotp_cfg \<Rightarrow> tp_data option \<Rightarrow> bool" where
  "is_flow_control cfg x \<longleftrightarrow> (\<exists>fs bs st. x = Some (Frame (isotp_frame cfg (ic_phys_tx_id cfg) [0x30 OR (fs AND 0x0F), bs, st])))"

definition rx_out :: "'e nx_can_isotp_cfg \<Rightarrow> tp_data option list \<Rightarrow> tp_data option list \<Rightarrow> bool" where
  "rx_out cfg us fs \<longleftrightarrow> (\<forall>x\<in>set us. is_indication x) \<and> (\<forall>x\<in>set fs. is_flow_control cfg x)"

lemma rx_out_simps [simp]:
  "rx_out cfg [] []"
  "rx_out cfg (us @ us') (fs @ fs') \<longleftrightarrow> rx_out cfg us fs \<and> rx_out cfg us' fs'"
  "rx_out cfg (if b then us else []) [] \<longleftrightarrow> (b \<longrightarrow> rx_out cfg us [])"
  "rx_out cfg [] (if b then fs else []) \<longleftrightarrow> (b \<longrightarrow> rx_out cfg [] fs)"
  "rx_out cfg [x] [] \<longleftrightarrow> is_indication x"
  by (auto simp: rx_out_def)

lemma rx_out_flow [simp]:
  "rx_out cfg [] [Some (Frame (isotp_frame cfg (ic_phys_tx_id cfg) [0x30 OR (fs AND 0x0F), bs, st]))]"
  "rx_out cfg [] [Some (Frame (isotp_frame cfg (ic_phys_tx_id cfg) [0x30, bs, st]))]"
proof -
  show fl: "rx_out cfg [] [Some (Frame (isotp_frame cfg (ic_phys_tx_id cfg) [0x30 OR (fs AND 0x0F), bs, st]))]" for fs
    by (auto simp: rx_out_def is_flow_control_def)
  show "rx_out cfg [] [Some (Frame (isotp_frame cfg (ic_phys_tx_id cfg) [0x30, bs, st]))]" using fl[of 0] by simp
qed

lemma is_indication_head [simp]: "is_indication (Some (Sdu (istp_sdu_head cfg len NX_TP_SDU_INDICATION ta r d)))"
  by (simp add: is_indication_def istp_sdu_head_def)

text \<open>An operation of the receiving side runs, and what it changed.\<close>

definition rx_step ::
  "(nat \<Rightarrow> nat) \<Rightarrow> 'e nx_can_isotp \<Rightarrow> 'e tp_world \<Rightarrow> tp_data option list \<Rightarrow> tp_data option list \<Rightarrow>
   'e nx_can_isotp \<Rightarrow> 'e tp_world \<Rightarrow> bool" where
  "rx_step K tp w us fs tp' w' \<longleftrightarrow>
     rx_inv tp' w' K \<and> iso_cfg tp' = iso_cfg tp \<and> iso_tx tp' = iso_tx tp \<and> bus_keeps K w w' \<and> bus_adds (iso_cfg tp) us fs w w' \<and>
     rx_out (iso_cfg tp) us fs"

lemma rx_step_refl: "rx_inv tp w K \<Longrightarrow> rx_step K tp w [] [] tp w"
  by (simp add: rx_step_def)

lemma rx_step_trans:
  assumes "rx_step K tp w us fs tp1 w1" "rx_step K tp1 w1 us' fs' tp2 w2"
  shows "rx_step K tp w (us @ us') (fs @ fs') tp2 w2"
proof -
  have "isotp_cfg_ok (iso_cfg tp)" using assms(1) by (metis rx_step_def rx_inv_def isotp_bus_ok_def)
  then show ?thesis
    using assms bus_adds_trans[of "iso_cfg tp" us fs w w1 us' fs' w2] bus_keeps_trans[of K w w1 w2] by (simp add: rx_step_def)
qed

lemma hrx_none [simp]: "ir_acc rx = 0 \<Longrightarrow> hrx rx = (\<lambda>_. 0)"
  by (auto simp: hrx_def fun_eq_iff)

lemma rx_inv_idle:
  assumes "rx_inv tp w K" "ir_state (iso_rx tp) = NX_ISOTP_RX_IDLE"
  shows "ref_inv w K"
proof -
  have "hrx (iso_rx tp) = (\<lambda>_. 0)" using assms by (simp add: rx_inv_def rx_ok_def)
  with assms(1) show ?thesis by (simp add: rx_inv_def)
qed

definition rx_idle :: "nx_can_isotp_rx \<Rightarrow> bool" where
  "rx_idle rx \<longleftrightarrow> ir_state rx = NX_ISOTP_RX_IDLE \<and> ir_acc rx = 0 \<and> ir_sn rx = 0 \<and> ir_total rx = 0 \<and> ir_filled rx = 0 \<and> ir_block_left rx = 0"

lemma istp_rx_reset_spec:
  assumes "rx_inv tp w K"
  shows "\<exists>tp' w'. istp_rx_reset tp w = Some (tp', w') \<and> rx_step K tp w [] [] tp' w' \<and> rx_idle (iso_rx tp')"
proof -
  let ?a = "ir_acc (iso_rx tp)"
  define tp' where "tp' = tp\<lparr> iso_rx := (iso_rx tp)\<lparr> ir_acc := 0, ir_state := NX_ISOTP_RX_IDLE, ir_sn := 0, ir_total := 0,
             ir_filled := 0, ir_block_left := 0 \<rparr> \<rparr>"
  have inv: "ref_inv w (\<lambda>a. K a + hrx (iso_rx tp) a)" and bus: "isotp_bus_ok (iso_cfg tp) w" using assms by (simp_all add: rx_inv_def)
  have tp': "iso_cfg tp' = iso_cfg tp" "iso_tx tp' = iso_tx tp" "rx_idle (iso_rx tp')" by (simp_all add: tp'_def rx_idle_def)
  show ?thesis
  proof (cases "?a = 0")
    case True
    then have h: "hrx (iso_rx tp) = (\<lambda>_. 0)" "hrx (iso_rx tp') = (\<lambda>_. 0)" by (simp_all add: tp'_def)
    have "rx_inv tp' w K" using inv bus by (simp add: rx_inv_def h tp'(1)) (simp add: tp'_def rx_ok_def)
    moreover have "istp_rx_reset tp w = Some (tp', w)" using True by (simp add: istp_rx_reset_def tp'_def)
    ultimately show ?thesis using tp' by (auto simp: rx_step_def)
  next
    case False
    obtain w' where w': "nx_ref_msg_release w ?a = Some (NX_REF_MSG_OK, w')" "bus_shape w' = bus_shape w" "chan w' = chan w"
      "ref_inv w' ((\<lambda>a. K a + hrx (iso_rx tp) a)(?a := K ?a + hrx (iso_rx tp) ?a - 1))" "payload w' = payload w" "queued w' = queued w" "msg_room w' = msg_room w"
      using bus_release[OF inv, of ?a] False by (auto simp: hrx_def)
    have "(\<lambda>a. K a + hrx (iso_rx tp) a)(?a := K ?a + hrx (iso_rx tp) ?a - 1) = (\<lambda>a. K a + hrx (iso_rx tp') a)"
      using False by (auto simp: hrx_def tp'_def)
    then have "rx_inv tp' w' K"
      using w'(2,4) bus isotp_bus_keeps[of "iso_cfg tp" w w'] by (simp add: rx_inv_def tp'(1)) (simp add: tp'_def rx_ok_def)
    moreover have "istp_rx_reset tp w = Some (tp', w')" using False w'(1) by (simp add: istp_rx_reset_def tp'_def)
    ultimately show ?thesis using tp' w' by (auto simp: rx_step_def bus_keeps_def bus_adds_def)
  qed
qed

lemma rx_step_same_rx:
  assumes "rx_inv tp w K" "ir_state (iso_rx tp) = NX_ISOTP_RX_IDLE" "ref_inv w' K" "bus_keeps K w w'" "bus_adds (iso_cfg tp) us fs w w'"
    "rx_out (iso_cfg tp) us fs"
  shows "rx_step K tp w us fs tp w'"
proof -
  have "isotp_bus_ok (iso_cfg tp) w'"
    using assms(1,4) isotp_bus_keeps by (auto simp: rx_inv_def bus_keeps_def)
  then show ?thesis using assms by (simp add: rx_step_def rx_inv_def rx_ok_def)
qed

lemma istp_rx_abort_spec:
  assumes "rx_inv tp w K"
  shows "\<exists>tp' w' ok. istp_rx_abort tp w result = Some (tp', w') \<and> rx_idle (iso_rx tp') \<and>
    rx_step K tp w (if ok then [Some (Sdu (istp_sdu_head (iso_cfg tp) 0 NX_TP_SDU_INDICATION NX_TP_TA_PHYSICAL result []))] else []) [] tp' w' \<and>
    (ok \<longrightarrow> ir_state (iso_rx tp) \<noteq> NX_ISOTP_RX_IDLE \<and> ic_confirm_tx (iso_cfg tp))"
proof -
  obtain tp' w' where r: "istp_rx_reset tp w = Some (tp', w')" "rx_step K tp w [] [] tp' w'" "rx_idle (iso_rx tp')"
    using istp_rx_reset_spec[OF assms] by blast
  have inv: "rx_inv tp' w' K" and cfg: "iso_cfg tp' = iso_cfg tp" using r(2) by (simp_all add: rx_step_def)
  have idle: "ir_state (iso_rx tp') = NX_ISOTP_RX_IDLE" using r(3) by (simp add: rx_idle_def)
  show ?thesis
  proof (cases "ir_state (iso_rx tp) \<noteq> NX_ISOTP_RX_IDLE \<and> ic_confirm_tx (iso_cfg tp)")
    case True
    obtain ok w2 where w2: "istp_report (iso_cfg tp') w' NX_TP_SDU_INDICATION result = Some w2" "ref_inv w2 K" "bus_keeps K w' w2"
      "bus_adds (iso_cfg tp') (if ok then [Some (Sdu (istp_sdu_head (iso_cfg tp') 0 NX_TP_SDU_INDICATION NX_TP_TA_PHYSICAL result []))] else []) [] w' w2"
      using istp_report_spec[OF _ rx_inv_idle[OF inv idle]] inv unfolding rx_inv_def by blast
    have "rx_step K tp' w' (if ok then [Some (Sdu (istp_sdu_head (iso_cfg tp') 0 NX_TP_SDU_INDICATION NX_TP_TA_PHYSICAL result []))] else []) [] tp' w2"
      by (rule rx_step_same_rx[OF inv idle w2(2-4)]) simp
    from rx_step_trans[OF r(2) this] True r(1,3) w2(1) show ?thesis
      by (intro exI[of _ tp'] exI[of _ w2] exI[of _ ok]) (auto simp: istp_rx_abort_def cfg)
  next
    case False
    with r show ?thesis
      by (intro exI[of _ tp'] exI[of _ w'] exI[of _ False]) (auto simp: istp_rx_abort_def cfg)
  qed
qed


section \<open>Finishing and continuing a reassembly\<close>

lemma istp_rx_finish_spec:
  assumes bus: "isotp_bus_ok (iso_cfg tp) w" and inv: "ref_inv w (\<lambda>a. K a + hrx (iso_rx tp) a)"
    and acc: "ir_acc (iso_rx tp) = m" "m \<noteq> 0" "K m = 0" "queued w m = 0" "payload w m = Some d" "is_indication (Some d)"
  shows "\<exists>tp' w' ok. istp_rx_finish tp w = Some (tp', w') \<and> rx_idle (iso_rx tp') \<and>
    rx_step K tp w (if ok then [Some d] else []) [] tp' w' \<and>
    ok = (length (chan w (ic_sdu_tx_queue (iso_cfg tp))) < the (chan_cap w (ic_sdu_tx_queue (iso_cfg tp))))"
proof -
  let ?q = "ic_sdu_tx_queue (iso_cfg tp)" and ?G = "\<lambda>a. K a + hrx (iso_rx tp) a"
  define tp' where "tp' = tp\<lparr> iso_rx := (iso_rx tp)\<lparr> ir_acc := 0, ir_state := NX_ISOTP_RX_IDLE, ir_sn := 0, ir_total := 0,
             ir_filled := 0, ir_block_left := 0 \<rparr> \<rparr>"
  have cfg: "isotp_cfg_ok (iso_cfg tp)" using bus by (simp add: isotp_bus_ok_def)
  obtain n where q: "?q \<noteq> 0" "chan_cap w ?q = Some n" using bus cfg by (auto simp: isotp_bus_ok_def isotp_cfg_ok_def)
  have G: "?G m = 1" using acc by (simp add: hrx_def)
  let ?ok = "length (chan w ?q) < n"
  obtain w1 where w1: "nx_ref_msg_publish w m ?q = Some (if ?ok then NX_REF_MSG_OK else NX_REF_MSG_ERR_FULL, w1)" "ref_inv w1 ?G"
    "chan w1 = (if ?ok then (chan w)(?q := chan w ?q @ [payload w m]) else chan w)" "bus_shape w1 = bus_shape w" "payload w1 = payload w" "msg_room w1 = msg_room w"
    "queued w1 = (if ?ok then (queued w)(m := queued w m + 1) else queued w)"
    using bus_publish[OF inv _ q, of m] G acc(4) by auto
  obtain w2 where w2: "nx_ref_msg_release w1 m = Some (NX_REF_MSG_OK, w2)" "ref_inv w2 (?G(m := ?G m - 1))" "chan w2 = chan w1"
    "bus_shape w2 = bus_shape w1" "payload w2 = payload w1" "queued w2 = queued w1" "msg_room w2 = msg_room w1"
    using bus_release[OF w1(2), of m] G by auto
  have "?G(m := ?G m - 1) = K" using G acc by (auto simp: hrx_def)
  then have inv2: "ref_inv w2 K" using w2(2) by simp
  have run: "istp_rx_finish tp w = Some (tp', w2)"
    using w1(1) w2(1) acc(1) by (simp add: istp_rx_finish_def istp_rx_reset_def tp'_def)
  have "bus_keeps K w w2" using w1 w2 acc(3) by (auto simp: bus_keeps_def)
  moreover have "bus_adds (iso_cfg tp) (if ?ok then [Some d] else []) [] w w2"
    using w1(3) w2(3) acc(5) cfg by (auto simp: bus_adds_def isotp_cfg_ok_def)
  moreover have "rx_inv tp' w2 K"
    using inv2 bus isotp_bus_keeps[of "iso_cfg tp" w w2] w1(4) w2(4) by (simp add: rx_inv_def rx_ok_def tp'_def)
  ultimately show ?thesis
    using run q(2) acc(6) by (intro exI[of _ tp'] exI[of _ w2] exI[of _ ?ok]) (simp add: rx_step_def rx_idle_def tp'_def)
qed

lemma rx_ok_keeps:
  assumes "rx_ok rx w K" "bus_keeps (\<lambda>a. K a + hrx rx a) w w'"
  shows "rx_ok rx w' K"
proof (cases "ir_state rx = NX_ISOTP_RX_IDLE")
  case False
  then have "ir_acc rx \<noteq> 0" using assms(1) by (simp add: rx_ok_def)
  then have "payload w' (ir_acc rx) = payload w (ir_acc rx)" "queued w' (ir_acc rx) = queued w (ir_acc rx)"
    "msg_room w' (ir_acc rx) = msg_room w (ir_acc rx)"
    using assms(2) by (simp_all add: bus_keeps_def hrx_def)
  then show ?thesis using assms(1) False by (simp add: rx_ok_def)
qed (use assms(1) in \<open>simp add: rx_ok_def\<close>)


text \<open>Offering flow control: the reassembly goes on or waits for the link, otherwise unchanged.\<close>

lemma istp_emit_cts_spec:
  assumes inv: "rx_inv tp w K" and st: "ir_state (iso_rx tp) \<noteq> NX_ISOTP_RX_IDLE"
  shows "\<exists>tp' w' ok b dl. istp_emit_cts tp w = Some (tp', w') \<and>
    tp' = tp\<lparr> iso_rx := (iso_rx tp)\<lparr> ir_block_left := b, ir_state := (if ok then NX_ISOTP_RX_ASSEM else NX_ISOTP_RX_FC_WAIT),
                ir_deadline := dl \<rparr> \<rparr> \<and>
    rx_step K tp w [] (if ok then [Some (Frame (isotp_frame (iso_cfg tp) (ic_phys_tx_id (iso_cfg tp))
        [0x30, ic_rx_block_size (iso_cfg tp), ic_rx_stmin (iso_cfg tp)]))] else []) tp' w' \<and> payload w' (ir_acc (iso_rx tp)) = payload w (ir_acc (iso_rx tp))"
proof -
  let ?cfg = "iso_cfg tp" and ?rx = "iso_rx tp"
  have bus: "isotp_bus_ok ?cfg w" and ref: "ref_inv w (\<lambda>a. K a + hrx ?rx a)" and rx: "rx_ok ?rx w K" using inv by (simp_all add: rx_inv_def)
  have cfg: "isotp_cfg_ok ?cfg" using bus by (simp add: isotp_bus_ok_def)
  have acc: "ir_acc ?rx \<noteq> 0" using rx st by (simp add: rx_ok_def)
  have pci: "(0x30 :: u8) OR (0 AND 0x0F) = 0x30" by simp
  obtain ok w1 where w1: "istp_emit_fc ?cfg w 0 (ic_rx_block_size ?cfg) (ic_rx_stmin ?cfg) = Some (ok, w1)"
    "ref_inv w1 (\<lambda>a. K a + hrx ?rx a)" "bus_keeps (\<lambda>a. K a + hrx ?rx a) w w1"
    "bus_adds ?cfg [] (if ok then [Some (Frame (isotp_frame ?cfg (ic_phys_tx_id ?cfg) [0x30, ic_rx_block_size ?cfg, ic_rx_stmin ?cfg]))] else []) w w1"
    using istp_emit_fc_spec[OF bus ref, where fs = 0 and bs = "ic_rx_block_size ?cfg" and st = "ic_rx_stmin ?cfg"] unfolding pci by blast
  have pl: "payload w1 (ir_acc ?rx) = payload w (ir_acc ?rx)" using w1(3) acc by (simp add: bus_keeps_def hrx_def)
  have rx1: "rx_ok ?rx w1 K" by (rule rx_ok_keeps[OF rx w1(3)])
  have bus1: "isotp_bus_ok ?cfg w1" using isotp_bus_keeps[OF bus] w1(3) by (simp add: bus_keeps_def)
  have keeps: "bus_keeps K w w1" by (rule bus_keeps_mono[OF w1(3)]) simp
  obtain t e where now: "istp_now ?cfg w1 = Some (t, w1\<lparr> rw_env := e \<rparr>)" using istp_now_spec[OF cfg] by blast
  have inv': "rx_inv (tp\<lparr> iso_rx := ?rx\<lparr> ir_block_left := b, ir_state := s, ir_deadline := dl \<rparr> \<rparr>) w' K"
    if "s \<noteq> NX_ISOTP_RX_IDLE" "w' = w1 \<or> w' = w1\<lparr> rw_env := e \<rparr>" for b s dl w'
    using that w1(2) rx1 bus1 st isotp_bus_keeps[OF bus1, of w'] by (auto simp: rx_inv_def rx_ok_def hrx_def)
  have step: "rx_step K tp w [] (if ok then [Some (Frame (isotp_frame ?cfg (ic_phys_tx_id ?cfg) [0x30, ic_rx_block_size ?cfg, ic_rx_stmin ?cfg]))] else [])
      (tp\<lparr> iso_rx := ?rx\<lparr> ir_block_left := b, ir_state := s, ir_deadline := dl \<rparr> \<rparr>) w'"
    if "s \<noteq> NX_ISOTP_RX_IDLE" "w' = w1 \<or> w' = w1\<lparr> rw_env := e \<rparr>" for b s dl w'
    using inv'[OF that] keeps w1(4) that(2) unfolding rx_step_def by (auto simp: bus_keeps_def bus_adds_def)
  have concl: ?thesis
    if run: "istp_emit_cts tp w = Some (tp\<lparr> iso_rx := ?rx\<lparr> ir_block_left := b,
        ir_state := (if ok then NX_ISOTP_RX_ASSEM else NX_ISOTP_RX_FC_WAIT), ir_deadline := dl \<rparr> \<rparr>, w')"
      and w': "w' = w1 \<or> w' = w1\<lparr> rw_env := e \<rparr>" for b dl w'
  proof (intro exI conjI)
    show "istp_emit_cts tp w = Some (tp\<lparr> iso_rx := ?rx\<lparr> ir_block_left := b,
        ir_state := (if ok then NX_ISOTP_RX_ASSEM else NX_ISOTP_RX_FC_WAIT), ir_deadline := dl \<rparr> \<rparr>, w')" by (rule run)
    show "rx_step K tp w [] (if ok then [Some (Frame (isotp_frame ?cfg (ic_phys_tx_id ?cfg) [0x30, ic_rx_block_size ?cfg, ic_rx_stmin ?cfg]))] else [])
        (tp\<lparr> iso_rx := ?rx\<lparr> ir_block_left := b, ir_state := (if ok then NX_ISOTP_RX_ASSEM else NX_ISOTP_RX_FC_WAIT), ir_deadline := dl \<rparr> \<rparr>) w'"
      by (rule step) (use w' in auto)
    show "payload w' (ir_acc ?rx) = payload w (ir_acc ?rx)" using w' pl by auto
  qed (rule refl)
  show ?thesis
  proof (cases ok)
    case True
    have "istp_emit_cts tp w = Some (tp\<lparr> iso_rx := ?rx\<lparr> ir_block_left := ic_rx_block_size ?cfg,
        ir_state := (if ok then NX_ISOTP_RX_ASSEM else NX_ISOTP_RX_FC_WAIT), ir_deadline := t + ic_n_cr_us ?cfg \<rparr> \<rparr>, w1\<lparr> rw_env := e \<rparr>)"
      using w1(1) now True by (simp add: istp_emit_cts_def)
    then show ?thesis by (rule concl) simp
  next
    case False
    show ?thesis
    proof (cases "ir_state ?rx = NX_ISOTP_RX_FC_WAIT")
      case True
      have "?rx\<lparr> ir_block_left := ir_block_left ?rx, ir_state := NX_ISOTP_RX_FC_WAIT, ir_deadline := ir_deadline ?rx \<rparr> = ?rx"
        using True by (cases ?rx) simp
      then have "istp_emit_cts tp w = Some (tp\<lparr> iso_rx := ?rx\<lparr> ir_block_left := ir_block_left ?rx,
          ir_state := (if ok then NX_ISOTP_RX_ASSEM else NX_ISOTP_RX_FC_WAIT), ir_deadline := ir_deadline ?rx \<rparr> \<rparr>, w1)"
        using w1(1) True False by (simp add: istp_emit_cts_def)
      then show ?thesis by (rule concl) simp
    next
      case notwait: False
      have "istp_emit_cts tp w = Some (tp\<lparr> iso_rx := ?rx\<lparr> ir_block_left := ir_block_left ?rx,
          ir_state := (if ok then NX_ISOTP_RX_ASSEM else NX_ISOTP_RX_FC_WAIT), ir_deadline := t + ic_n_ar_us ?cfg \<rparr> \<rparr>,
          w1\<lparr> rw_env := e \<rparr>)"
        using w1(1) now False notwait by (simp add: istp_emit_cts_def)
      then show ?thesis by (rule concl) simp
    qed
  qed
qed


section \<open>The protocol control information of received frames\<close>

definition good_frame :: "nx_can_msg \<Rightarrow> bool" where
  "good_frame f \<longleftrightarrow> frame_dlen f \<le> length (cm_data f)"

lemma istp_sf_len_spec:
  assumes "0 < dlen" "dlen \<le> length d"
  obtains r where "istp_sf_len d dlen = Some r" "\<And>plen hdr. r = Some (plen, hdr) \<Longrightarrow> 0 < plen \<and> 0 < hdr \<and> hdr + plen \<le> dlen"
proof -
  have "\<exists>r. istp_sf_len d dlen = Some r \<and> (\<forall>plen hdr. r = Some (plen, hdr) \<longrightarrow> 0 < plen \<and> 0 < hdr \<and> hdr + plen \<le> dlen)"
    using assms by (auto simp: istp_sf_len_def mem_get_def Let_def)
  with that show ?thesis by blast
qed

lemma istp_ff_len_spec:
  assumes "dlen \<le> length d"
  obtains r where "istp_ff_len d dlen = Some r" "\<And>len hdr. r = Some (len, hdr) \<Longrightarrow> len \<noteq> 0 \<and> 0 < hdr \<and> hdr \<le> dlen"
proof -
  have "\<exists>r. istp_ff_len d dlen = Some r \<and> (\<forall>len hdr. r = Some (len, hdr) \<longrightarrow> len \<noteq> 0 \<and> 0 < hdr \<and> hdr \<le> dlen)"
    using assms by (auto simp: istp_ff_len_def mem_get_def Let_def)
  with that show ?thesis by blast
qed

lemma frame_dlen_le: "frame_dlen f \<le> 64"
  by (simp add: frame_dlen_def unat_dlc_to_len len_of_dlc_le)

section \<open>Deliveries\<close>

definition is_report :: "tp_data option \<Rightarrow> bool" where
  "is_report x \<longleftrightarrow> (\<exists>s. x = Some (Sdu s) \<and> sd_data s = [] \<and> sd_result s \<noteq> NX_TP_N_OK)"

definition isotp_indication :: "'e nx_can_isotp_cfg \<Rightarrow> u8 \<Rightarrow> bytes \<Rightarrow> nx_tp_sdu" where
  "isotp_indication cfg ta ys = istp_sdu_head cfg (of_nat (length ys)) NX_TP_SDU_INDICATION ta NX_TP_N_OK ys"

text \<open>The reports that end a reception, if there was one.\<close>

definition rx_reports :: "'e nx_can_isotp \<Rightarrow> tp_data option list \<Rightarrow> bool" where
  "rx_reports tp us \<longleftrightarrow> (\<forall>x\<in>set us. is_report x) \<and> (ir_state (iso_rx tp) = NX_ISOTP_RX_IDLE \<longrightarrow> us = [])"

text \<open>Reports, and then the message unless the queue was full or there was no memory for it.\<close>

definition delivers :: "'e nx_can_isotp \<Rightarrow> u8 \<Rightarrow> bytes \<Rightarrow> tp_data option list \<Rightarrow> bool" where
  "delivers tp ta ys us \<longleftrightarrow>
     (\<exists>rs ok. us = rs @ (if ok then [Some (Sdu (isotp_indication (iso_cfg tp) ta ys))] else []) \<and> rx_reports tp rs)"

text \<open>A reassembly that has collected \<open>ys\<close> of \<open>len\<close> bytes and expects sequence number \<open>sn\<close>.\<close>

definition rx_holds :: "'e nx_can_isotp \<Rightarrow> 'e tp_world \<Rightarrow> u32 \<Rightarrow> bytes \<Rightarrow> u8 \<Rightarrow> bool" where
  "rx_holds tp w len ys sn \<longleftrightarrow>
     ir_state (iso_rx tp) \<noteq> NX_ISOTP_RX_IDLE \<and> ir_total (iso_rx tp) = len \<and> ir_sn (iso_rx tp) = sn \<and>
     unat (ir_filled (iso_rx tp)) = length ys \<and> length ys < unat len \<and>
     (\<exists>buf. payload w (ir_acc (iso_rx tp)) =
          Some (Sdu (istp_sdu_head (iso_cfg tp) len NX_TP_SDU_INDICATION NX_TP_TA_PHYSICAL NX_TP_N_OK buf)) \<and>
        length buf = unat len \<and> take (length ys) buf = ys)"

section \<open>The frames of a physical conversation\<close>

lemma istp_rx_abort_reports:
  assumes "rx_inv tp w K" "result \<noteq> NX_TP_N_OK"
  obtains tp' w' us where "istp_rx_abort tp w result = Some (tp', w')" "rx_idle (iso_rx tp')" "rx_step K tp w us [] tp' w'"
    "rx_reports tp us"
proof -
  obtain tp' w' ok where "istp_rx_abort tp w result = Some (tp', w')" "rx_idle (iso_rx tp')"
    "rx_step K tp w (if ok then [Some (Sdu (istp_sdu_head (iso_cfg tp) 0 NX_TP_SDU_INDICATION NX_TP_TA_PHYSICAL result []))] else []) [] tp' w'"
    "ok \<longrightarrow> ir_state (iso_rx tp) \<noteq> NX_ISOTP_RX_IDLE \<and> ic_confirm_tx (iso_cfg tp)"
    using istp_rx_abort_spec[OF assms(1)] by blast
  then show ?thesis using that assms(2) by (simp add: rx_reports_def is_report_def istp_sdu_head_def)
qed

lemma rx_reports_after: "rx_reports tp us \<Longrightarrow> rx_idle (iso_rx tp1) \<Longrightarrow> rx_reports tp1 us' \<Longrightarrow> rx_reports tp (us @ us')"
  by (simp add: rx_reports_def rx_idle_def)

lemma istp_rx_sf_spec:
  assumes inv: "rx_inv tp w K" and f: "good_frame f" "0 < frame_dlen f"
  shows "\<exists>tp' w' us. istp_rx_sf tp w f = Some (tp', w') \<and> rx_step K tp w us [] tp' w' \<and> rx_idle (iso_rx tp') \<and>
    (case istp_sf_len (cm_data f) (frame_dlen f) of
       Some (Some (plen, hdr)) \<Rightarrow> delivers tp NX_TP_TA_PHYSICAL (take plen (drop hdr (cm_data f))) us
     | _ \<Rightarrow> rx_reports tp us)"
proof -
  obtain tp1 w1 us where a: "istp_rx_abort tp w NX_TP_N_UNEXP_PDU = Some (tp1, w1)" "rx_idle (iso_rx tp1)" "rx_step K tp w us [] tp1 w1"
    "rx_reports tp us"
    by (rule istp_rx_abort_reports[OF inv, where result = NX_TP_N_UNEXP_PDU]) simp_all
  have inv1: "rx_inv tp1 w1 K" and cfg: "iso_cfg tp1 = iso_cfg tp" using a(3) by (simp_all add: rx_step_def)
  have idle: "ir_state (iso_rx tp1) = NX_ISOTP_RX_IDLE" using a(2) by (simp add: rx_idle_def)
  obtain r where r: "istp_sf_len (cm_data f) (frame_dlen f) = Some r"
    "\<And>plen hdr. r = Some (plen, hdr) \<Longrightarrow> 0 < plen \<and> 0 < hdr \<and> hdr + plen \<le> frame_dlen f"
    by (rule istp_sf_len_spec[of "frame_dlen f" "cm_data f"]) (use f in \<open>simp_all add: good_frame_def\<close>)
  show ?thesis
  proof (cases r)
    case None
    then show ?thesis using a r by (auto simp: istp_rx_sf_def)
  next
    case (Some ph)
    then obtain plen hdr where ph: "r = Some (plen, hdr)" by (cases ph) simp
    let ?ys = "take plen (drop hdr (cm_data f))"
    have len: "hdr + plen \<le> length (cm_data f)" "plen < 2 ^ 32"
      using r(2)[OF ph] f(1) frame_dlen_le[of f] by (auto simp: good_frame_def)
    then have ys: "length ?ys = plen" by simp
    obtain ok w2 where w2: "istp_rx_single (iso_cfg tp1) w1 NX_TP_TA_PHYSICAL (cm_data f) plen hdr = Some w2" "ref_inv w2 K" "bus_keeps K w1 w2"
      "bus_adds (iso_cfg tp1) (if ok then [Some (Sdu (istp_sdu_head (iso_cfg tp1) (of_nat plen) NX_TP_SDU_INDICATION NX_TP_TA_PHYSICAL NX_TP_N_OK ?ys))]
         else []) [] w1 w2"
      using istp_rx_single_spec[OF _ rx_inv_idle[OF inv1 idle] len] inv1 unfolding rx_inv_def by blast
    have ind: "istp_sdu_head (iso_cfg tp1) (of_nat plen) NX_TP_SDU_INDICATION NX_TP_TA_PHYSICAL NX_TP_N_OK ?ys =
        isotp_indication (iso_cfg tp) NX_TP_TA_PHYSICAL ?ys"
      unfolding isotp_indication_def ys cfg ..
    have "rx_step K tp1 w1 (if ok then [Some (Sdu (istp_sdu_head (iso_cfg tp1) (of_nat plen) NX_TP_SDU_INDICATION NX_TP_TA_PHYSICAL NX_TP_N_OK ?ys))]
         else []) [] tp1 w2"
      by (rule rx_step_same_rx[OF inv1 idle w2(2-4)]) simp
    from rx_step_trans[OF a(3) this]
    have "rx_step K tp w (us @ (if ok then [Some (Sdu (isotp_indication (iso_cfg tp) NX_TP_TA_PHYSICAL ?ys))] else [])) [] tp1 w2"
      unfolding ind by simp
    moreover have "istp_rx_sf tp w f = Some (tp1, w2)" using a(1) r(1) ph w2(1) by (simp add: istp_rx_sf_def)
    moreover have "delivers tp NX_TP_TA_PHYSICAL ?ys
        (us @ (if ok then [Some (Sdu (isotp_indication (iso_cfg tp) NX_TP_TA_PHYSICAL ?ys))] else []))"
      unfolding delivers_def using a(4) by blast
    ultimately show ?thesis using a(2) unfolding r(1) ph by (intro exI conjI) (assumption | simp)+
  qed
qed

lemma istp_rx_refuse_spec:
  assumes inv: "rx_inv tp w K" and idle: "rx_idle (iso_rx tp)"
  shows "\<exists>tp' w' us fs. istp_rx_refuse tp w = Some (tp', w') \<and> rx_step K tp w us fs tp' w' \<and> rx_idle (iso_rx tp') \<and> (rx_reports tp us)"
proof -
  have st: "ir_state (iso_rx tp) = NX_ISOTP_RX_IDLE" using idle by (simp add: rx_idle_def)
  obtain ok w1 where w1: "istp_emit_fc (iso_cfg tp) w NX_CAN_ISOTP_FS_OVFLW 0 0 = Some (ok, w1)" "ref_inv w1 K" "bus_keeps K w w1"
    "bus_adds (iso_cfg tp) [] (if ok then [Some (Frame (isotp_frame (iso_cfg tp) (ic_phys_tx_id (iso_cfg tp)) [0x30 OR (2 AND 0x0F), 0, 0]))] else []) w w1"
    using istp_emit_fc_spec[OF _ rx_inv_idle[OF inv st]] inv unfolding rx_inv_def by blast
  have step: "rx_step K tp w [] (if ok then [Some (Frame (isotp_frame (iso_cfg tp) (ic_phys_tx_id (iso_cfg tp)) [0x30 OR (2 AND 0x0F), 0, 0]))] else []) tp w1"
    by (rule rx_step_same_rx[OF inv st w1(2-4)]) (simp only: rx_out_simps rx_out_flow simp_thms)
  then have inv1: "rx_inv tp w1 K" by (simp add: rx_step_def)
  obtain tp' w' us where a: "istp_rx_abort tp w1 NX_TP_N_BUFFER_OVFLW = Some (tp', w')" "rx_idle (iso_rx tp')" "rx_step K tp w1 us [] tp' w'"
    "rx_reports tp us"
    by (rule istp_rx_abort_reports[OF inv1, where result = NX_TP_N_BUFFER_OVFLW]) simp_all
  have "istp_rx_refuse tp w = Some (tp', w')" using w1(1) a(1) by (simp add: istp_rx_refuse_def)
  with rx_step_trans[OF step a(3)] a(2,4) show ?thesis unfolding append_Nil by blast
qed


lemma rx_step_after:
  assumes "bus_keeps K w w1" "bus_adds (iso_cfg tp) [] [] w w1" "iso_cfg tp1 = iso_cfg tp" "iso_tx tp1 = iso_tx tp"
    "rx_step K tp1 w1 us fs tp2 w2" "isotp_cfg_ok (iso_cfg tp)"
  shows "rx_step K tp w us fs tp2 w2"
  using assms bus_adds_trans[OF assms(6,2), of us fs w2] bus_keeps_trans[OF assms(1), of w2] by (simp add: rx_step_def)

text \<open>Storing into the message of the reassembly, and reading the clock before or after.\<close>

lemma rx_store:
  assumes inv: "ref_inv w G" and m: "0 < G m" "queued w m = 0" "tp_size d \<le> msg_room w m" and G: "\<And>b. 0 < K b \<Longrightarrow> 0 < G b \<and> b \<noteq> m"
  obtains w' where "msg_store w m d = Some w'" "ref_inv w' G" "payload w' m = Some d" "queued w' m = 0" "msg_room w' m = msg_room w m"
    "bus_keeps K w w'" "bus_shape w' = bus_shape w" "chan w' = chan w"
proof -
  obtain w' where "msg_store w m d = Some w'" "ref_inv w' G" "chan w' = chan w" "bus_shape w' = bus_shape w"
    "queued w' = queued w" "payload w' = (payload w)(m := Some d)" "msg_room w' = msg_room w"
    using bus_store[where dsize = tp_size and d = d, OF inv m] by blast
  then show ?thesis using m G by (intro that[of w']) (auto simp: bus_keeps_def)
qed

lemma rx_begin:
  assumes inv: "rx_inv tp w K" "rx_idle (iso_rx tp)" and len: "len \<noteq> 0" "unat len \<le> NX_CAN_ISOTP_MAX_MSG_LEN"
    and buf: "length buf = unat len" "take n buf = ys" "n \<le> unat len"
  defines "s \<equiv> istp_sdu_head (iso_cfg tp) len NX_TP_SDU_INDICATION NX_TP_TA_PHYSICAL NX_TP_N_OK buf"
  shows "(\<exists>w1. nx_ref_msg_alloc w (ic_pool (iso_cfg tp)) (TP_SDU_SIZEOF + unat len) = Some (0, w1) \<and> rx_step K tp w [] [] tp w1) \<or>
    (\<exists>m w1 t e w3. nx_ref_msg_alloc w (ic_pool (iso_cfg tp)) (TP_SDU_SIZEOF + unat len) = Some (m, w1) \<and> m \<noteq> 0 \<and>
       istp_now (iso_cfg tp) w1 = Some (t, w1\<lparr> rw_env := e \<rparr>) \<and> msg_store (w1\<lparr> rw_env := e \<rparr>) m (Sdu s) = Some w3 \<and>
       K m = 0 \<and> queued w3 m = 0 \<and> payload w3 m = Some (Sdu s) \<and> ref_inv w3 (K(m := 1)) \<and>
       msg_room w3 m = TP_SDU_SIZEOF + unat len \<and> bus_keeps K w w3 \<and> chan w3 = chan w)"
proof -
  let ?cfg = "iso_cfg tp" and ?n = "TP_SDU_SIZEOF + unat len"
  have bus: "isotp_bus_ok ?cfg w" using inv(1) by (simp add: rx_inv_def)
  have cfg: "isotp_cfg_ok ?cfg" using bus by (simp add: isotp_bus_ok_def)
  have st: "ir_state (iso_rx tp) = NX_ISOTP_RX_IDLE" using inv(2) by (simp add: rx_idle_def)
  have ref: "ref_inv w K" by (rule rx_inv_idle[OF inv(1) st])
  have serves: "pool_serves w (ic_pool ?cfg) ?n"
    using isotp_pool_serves[OF bus, of ?n] len(2) by (simp add: TP_SDU_SIZEOF_def NX_CAN_ISOTP_MAX_MSG_LEN_def)
  obtain m w1 where a: "nx_ref_msg_alloc w (ic_pool ?cfg) ?n = Some (m, w1)" "chan w1 = chan w" "bus_shape w1 = bus_shape w"
    "\<forall>b. 0 < K b \<longrightarrow> payload w1 b = payload w b \<and> queued w1 b = queued w b \<and> msg_room w1 b = msg_room w b"
    "if m = 0 then ref_inv w1 K else K m = 0 \<and> ref_inv w1 (K(m := 1)) \<and> queued w1 m = 0 \<and> msg_room w1 m = ?n"
    using msgs.alloc_law[OF ref serves] by blast
  have keeps: "bus_keeps K w w1" using a(3,4) by (simp add: bus_keeps_def)
  show ?thesis
  proof (cases "m = 0")
    case True
    then have "rx_step K tp w [] [] tp w1"
      using a(2,5) by (intro rx_step_same_rx[OF inv(1) st _ keeps]) (auto simp: bus_adds_same)
    then show ?thesis using a(1) True by blast
  next
    case False
    then have b: "K m = 0" "ref_inv w1 (K(m := 1))" "queued w1 m = 0" "msg_room w1 m = ?n" using a(5) by auto
    obtain t e where now: "istp_now ?cfg w1 = Some (t, w1\<lparr> rw_env := e \<rparr>)" using istp_now_spec[OF cfg] by blast
    have size: "tp_size (Sdu s) = ?n" using buf(1) by (simp add: s_def istp_sdu_head_def)
    obtain w3 where w3: "msg_store (w1\<lparr> rw_env := e \<rparr>) m (Sdu s) = Some w3" "ref_inv w3 (K(m := 1))" "payload w3 m = Some (Sdu s)"
      "queued w3 m = 0" "msg_room w3 m = msg_room (w1\<lparr> rw_env := e \<rparr>) m" "bus_keeps K (w1\<lparr> rw_env := e \<rparr>) w3" "chan w3 = chan (w1\<lparr> rw_env := e \<rparr>)"
      by (rule rx_store[of "w1\<lparr> rw_env := e \<rparr>" "K(m := 1)" m "Sdu s" K]) (use b size in auto)
    have "bus_keeps K w w3" using keeps w3(6) by (simp add: bus_keeps_def)
    then show ?thesis using a(1,2) False now b(1,4) w3 by auto
  qed
qed

lemma istp_rx_ff_spec:
  assumes inv: "rx_inv tp w K" and f: "good_frame f"
  shows "\<exists>tp' w' us fs. istp_rx_ff tp w f = Some (tp', w') \<and> rx_step K tp w us fs tp' w' \<and>
    (rx_idle (iso_rx tp') \<and> (rx_reports tp us) \<or>
     (\<exists>len hdr n. istp_ff_len (cm_data f) (frame_dlen f) = Some (Some (len, hdr)) \<and> n = min (frame_dlen f - hdr) (unat len) \<and>
        (if n = unat len then rx_idle (iso_rx tp') \<and> delivers tp NX_TP_TA_PHYSICAL (take n (drop hdr (cm_data f))) us
         else rx_holds tp' w' len (take n (drop hdr (cm_data f))) 1 \<and> (rx_reports tp us))))"
proof -
  let ?d = "cm_data f" and ?dlen = "frame_dlen f"
  obtain tp1 w1 us where a: "istp_rx_abort tp w NX_TP_N_UNEXP_PDU = Some (tp1, w1)" "rx_idle (iso_rx tp1)" "rx_step K tp w us [] tp1 w1"
    "rx_reports tp us"
    by (rule istp_rx_abort_reports[OF inv, where result = NX_TP_N_UNEXP_PDU]) simp_all
  have inv1: "rx_inv tp1 w1 K" and cfg1: "iso_cfg tp1 = iso_cfg tp" using a(3) by (simp_all add: rx_step_def)
  have cfg: "isotp_cfg_ok (iso_cfg tp1)" using inv1 by (simp add: rx_inv_def isotp_bus_ok_def)
  obtain r where r: "istp_ff_len ?d ?dlen = Some r" "\<And>len hdr. r = Some (len, hdr) \<Longrightarrow> len \<noteq> 0 \<and> 0 < hdr \<and> hdr \<le> ?dlen"
    by (rule istp_ff_len_spec[of ?dlen ?d]) (use f in \<open>simp_all add: good_frame_def\<close>)
  have refuse: ?thesis if run: "istp_rx_ff tp w f = istp_rx_refuse tp1 w2" and step: "rx_step K tp1 w1 [] [] tp1 w2" for w2
  proof -
    have "rx_inv tp1 w2 K" using step by (simp add: rx_step_def)
    then obtain tp' w' us' fs' where x: "istp_rx_refuse tp1 w2 = Some (tp', w')" "rx_step K tp1 w2 us' fs' tp' w'" "rx_idle (iso_rx tp')"
      "rx_reports tp1 us'"
      using istp_rx_refuse_spec a(2) by blast
    from rx_step_trans[OF a(3) rx_step_trans[OF step x(2)]] x(1,3) rx_reports_after[OF a(4,2) x(4)] run show ?thesis
      by (intro exI[of _ tp'] exI[of _ w'] exI[of _ "us @ us'"] exI[of _ fs']) simp
  qed
  show ?thesis
  proof (cases r)
    case None
    have "istp_rx_ff tp w f = Some (tp1, w1)" using a(1) r(1) None by (simp add: istp_rx_ff_def Let_def)
    with a show ?thesis by blast
  next
    case (Some lh)
    then obtain len hdr where lh: "r = Some (len, hdr)" by (cases lh) simp
    have lr: "len \<noteq> 0" "0 < hdr" "hdr \<le> ?dlen" using r(2)[OF lh] by auto
    define n where "n = min (?dlen - hdr) (unat len)"
    define ys where "ys = take n (drop hdr ?d)"
    define buf where "buf = ys @ replicate (unat len - n) 0"
    have fits: "hdr + n \<le> length ?d" "n \<le> unat len" using f lr by (auto simp: n_def good_frame_def)
    have ys: "length ys = n" using fits by (simp add: ys_def)
    have buf: "length buf = unat len" "take n buf = ys" using ys fits by (simp_all add: buf_def)
    have fill: "istp_ff_fill ?d ?dlen hdr (unat len) = Some (n, buf)"
    proof -
      have "(if (if ?dlen > hdr then ?dlen - hdr else 0) > unat len then unat len else (if ?dlen > hdr then ?dlen - hdr else 0)) = n"
        by (auto simp: n_def)
      then show ?thesis
        unfolding istp_ff_fill_def Let_def using fits ys by (auto simp: mem_read_def mem_write_def buf_def ys_def)
    qed
    show ?thesis
    proof (cases "unat len > NX_CAN_ISOTP_MAX_MSG_LEN \<or> ic_rx_max_len (iso_cfg tp1) \<noteq> 0 \<and> len > ic_rx_max_len (iso_cfg tp1)")
      case True
      have "istp_rx_ff tp w f = istp_rx_refuse tp1 w1" using a(1) r(1) lh True by (simp add: istp_rx_ff_def Let_def)
      then show ?thesis by (rule refuse) (rule rx_step_refl[OF inv1])
    next
      case small: False
      let ?s = "istp_sdu_head (iso_cfg tp1) len NX_TP_SDU_INDICATION NX_TP_TA_PHYSICAL NX_TP_N_OK buf"
      from rx_begin[OF inv1 a(2) lr(1) _ buf fits(2)] small
      consider (nomem) w2 where "nx_ref_msg_alloc w1 (ic_pool (iso_cfg tp1)) (TP_SDU_SIZEOF + unat len) = Some (0, w2)" "rx_step K tp1 w1 [] [] tp1 w2"
        | (started) m w2 t e w3 where "nx_ref_msg_alloc w1 (ic_pool (iso_cfg tp1)) (TP_SDU_SIZEOF + unat len) = Some (m, w2)" "m \<noteq> 0"
          "istp_now (iso_cfg tp1) w2 = Some (t, w2\<lparr> rw_env := e \<rparr>)" "msg_store (w2\<lparr> rw_env := e \<rparr>) m (Sdu ?s) = Some w3" "K m = 0"
          "queued w3 m = 0" "payload w3 m = Some (Sdu ?s)" "ref_inv w3 (K(m := 1))" "msg_room w3 m = TP_SDU_SIZEOF + unat len"
          "bus_keeps K w1 w3" "chan w3 = chan w1"
        by (auto simp: not_less)
      then show ?thesis
      proof cases
        case (nomem w2)
        have "istp_rx_ff tp w f = istp_rx_refuse tp1 w2" using a(1) r(1) lh small nomem(1) by (auto simp: istp_rx_ff_def Let_def)
        then show ?thesis by (rule refuse) (rule nomem(2))
      next
        case (started m w2 t e w3)
        define tp2 where "tp2 = tp1\<lparr> iso_rx := (iso_rx tp1)\<lparr> ir_acc := m, ir_state := NX_ISOTP_RX_ASSEM, ir_sn := 1, ir_total := len,
            ir_deadline := t + ic_n_cr_us (iso_cfg tp1), ir_filled := of_nat n \<rparr> \<rparr>"
        have tp2: "iso_cfg tp2 = iso_cfg tp1" "iso_tx tp2 = iso_tx tp1" "ir_acc (iso_rx tp2) = m" "ir_state (iso_rx tp2) \<noteq> NX_ISOTP_RX_IDLE"
          by (simp_all add: tp2_def)
        have un: "unat (of_nat n :: u32) = n"
        proof -
          have "n < 2 ^ 32" using fits(2) unsigned_less[of len, where ?'a = nat] by simp
          then show ?thesis by (simp add: unsigned_of_nat take_bit_nat_eq_self)
        qed
        have full: "ir_filled (iso_rx tp2) \<ge> ir_total (iso_rx tp2) \<longleftrightarrow> n = unat len"
          using fits(2) by (auto simp: tp2_def word_le_nat_alt un)
        have run: "istp_rx_ff tp w f = (if n = unat len then istp_rx_finish tp2 w3 else istp_emit_cts tp2 w3)"
          using a(1) r(1) lh small started(1-4) fill full by (auto simp: istp_rx_ff_def Let_def tp2_def)
        have G: "(\<lambda>a. K a + hrx (iso_rx tp2) a) = K(m := 1)" using started(2,5) tp2(3) by (auto simp: hrx_def)
        have bus3: "isotp_bus_ok (iso_cfg tp2) w3"
          using isotp_bus_keeps[of "iso_cfg tp1" w1 w3] inv1 started(10) tp2(1) by (simp add: rx_inv_def bus_keeps_def)
        have ref3: "ref_inv w3 (\<lambda>a. K a + hrx (iso_rx tp2) a)" unfolding G by (rule started(8))
        have adds: "bus_adds (iso_cfg tp1) [] [] w1 w3" by (rule bus_adds_same[OF started(11)])
        show ?thesis
        proof (cases "n = unat len")
          case True
          obtain tp' w' ok where fin: "istp_rx_finish tp2 w3 = Some (tp', w')" "rx_idle (iso_rx tp')"
            "rx_step K tp2 w3 (if ok then [Some (Sdu ?s)] else []) [] tp' w'"
            using istp_rx_finish_spec[OF bus3 ref3 tp2(3) started(2,5,6,7) is_indication_head] by blast
          have "?s = isotp_indication (iso_cfg tp) NX_TP_TA_PHYSICAL ys"
            using True ys by (simp add: isotp_indication_def cfg1 buf_def)
          then have "delivers tp NX_TP_TA_PHYSICAL ys (us @ (if ok then [Some (Sdu ?s)] else []))"
            unfolding delivers_def using a(4) by metis
          moreover have "rx_step K tp w (us @ (if ok then [Some (Sdu ?s)] else [])) [] tp' w'"
            using rx_step_trans[OF a(3) rx_step_after[OF started(10) adds tp2(1,2) fin(3) cfg]] by simp
          ultimately show ?thesis using True run fin(1,2) r(1) lh n_def ys_def by auto
        next
          case False
          have inv2: "rx_inv tp2 w3 K"
            using bus3 ref3 started(2,5,6,7,9) False fits(2) buf(1) un
            by (simp add: rx_inv_def rx_ok_def tp2_def istp_sdu_head_def word_less_nat_alt)
          obtain tp' w' ok b dl where cts: "istp_emit_cts tp2 w3 = Some (tp', w')"
            "tp' = tp2\<lparr> iso_rx := (iso_rx tp2)\<lparr> ir_block_left := b, ir_state := (if ok then NX_ISOTP_RX_ASSEM else NX_ISOTP_RX_FC_WAIT),
                ir_deadline := dl \<rparr> \<rparr>"
            "rx_step K tp2 w3 [] (if ok then [Some (Frame (isotp_frame (iso_cfg tp2) (ic_phys_tx_id (iso_cfg tp2))
              [0x30, ic_rx_block_size (iso_cfg tp2), ic_rx_stmin (iso_cfg tp2)]))] else []) tp' w'"
            "payload w' (ir_acc (iso_rx tp2)) = payload w3 (ir_acc (iso_rx tp2))"
            using istp_emit_cts_spec[OF inv2 tp2(4)] by blast
          have "rx_holds tp' w' len ys 1"
            using cts(2,4) started(7) ys buf fits(2) False un by (auto simp: rx_holds_def tp2_def)
          moreover have "\<exists>fs. rx_step K tp w us fs tp' w'"
            using rx_step_trans[OF a(3) rx_step_after[OF started(10) adds tp2(1,2) cts(3) cfg]] by fastforce
          ultimately show ?thesis using False run cts(1) a(4) r(1) lh n_def ys_def by auto
        qed
      qed
    qed
  qed
qed


text \<open>The end of a reassembly: the message is handed up whenever the queue has room.\<close>

definition rx_delivered :: "'e nx_can_isotp \<Rightarrow> 'e tp_world \<Rightarrow> bytes \<Rightarrow> tp_data option list \<Rightarrow> bool" where
  "rx_delivered tp w ys us \<longleftrightarrow>
     us = (if length (chan w (ic_sdu_tx_queue (iso_cfg tp))) < the (chan_cap w (ic_sdu_tx_queue (iso_cfg tp)))
           then [Some (Sdu (isotp_indication (iso_cfg tp) NX_TP_TA_PHYSICAL ys))] else [])"

lemma istp_rx_cf_spec:
  assumes inv: "rx_inv tp w K" and f: "good_frame f" "0 < frame_dlen f"
  defines "sn_of \<equiv> cm_data f ! 0 AND 0x0F"
  shows "\<exists>tp' w' us fs. istp_rx_cf tp w f = Some (tp', w') \<and> rx_step K tp w us fs tp' w' \<and>
    (ir_state (iso_rx tp) \<noteq> NX_ISOTP_RX_ASSEM \<longrightarrow> tp' = tp \<and> w' = w \<and> us = []) \<and>
    (\<forall>len ys sn. ir_state (iso_rx tp) = NX_ISOTP_RX_ASSEM \<longrightarrow> rx_holds tp w len ys sn \<longrightarrow>
       (let n = min (frame_dlen f - 1) (unat len - length ys); xs = take n (drop 1 (cm_data f)) in
        if sn_of \<noteq> sn then rx_idle (iso_rx tp') \<and> rx_reports tp us
        else if length ys + n = unat len then rx_idle (iso_rx tp') \<and> rx_delivered tp w (ys @ xs) us
        else rx_holds tp' w' len (ys @ xs) ((sn + 1) AND 0x0F) \<and> us = []))"
proof -
  let ?rx = "iso_rx tp" and ?d = "cm_data f" and ?cfg = "iso_cfg tp"
  have ne: "?d \<noteq> []" using f by (auto simp: good_frame_def)
  then have d0: "mem_get 0 ?d = Some (?d ! 0)" by (simp add: mem_get_def)
  show ?thesis
  proof (cases "ir_state ?rx = NX_ISOTP_RX_ASSEM")
    case False
    then show ?thesis
      using rx_step_refl[OF inv] by (intro exI[of _ tp] exI[of _ w] exI[of _ "[]"] exI[of _ "[]"]) (simp add: istp_rx_cf_def Let_def)
  next
    case assem: True
    show ?thesis
    proof (cases "sn_of = ir_sn ?rx")
      case False
      obtain tp1 w1 us where a: "istp_rx_abort tp w NX_TP_N_WRONG_SN = Some (tp1, w1)" "rx_idle (iso_rx tp1)" "rx_step K tp w us [] tp1 w1"
        "rx_reports tp us"
        by (rule istp_rx_abort_reports[OF inv, where result = NX_TP_N_WRONG_SN]) simp_all
      have "istp_rx_cf tp w f = Some (tp1, w1)" using assem d0 False a(1) by (simp add: istp_rx_cf_def Let_def sn_of_def)
      then show ?thesis
        using a assem False
        by (intro exI[of _ tp1] exI[of _ w1] exI[of _ us] exI[of _ "[]"]) (auto simp: rx_holds_def)
    next
      case sn: True
      let ?m = "ir_acc ?rx"
      have bus: "isotp_bus_ok ?cfg w" and ref: "ref_inv w (\<lambda>a. K a + hrx ?rx a)" and rx: "rx_ok ?rx w K" using inv by (simp_all add: rx_inv_def)
      have cfg: "isotp_cfg_ok ?cfg" using bus by (simp add: isotp_bus_ok_def)
      obtain s where s: "?m \<noteq> 0" "K ?m = 0" "queued w ?m = 0" "ir_filled ?rx < ir_total ?rx" "payload w ?m = Some (Sdu s)"
        "length (sd_data s) = unat (ir_total ?rx)" "sd_len s = ir_total ?rx" "tp_size (Sdu s) \<le> msg_room w ?m"
        "sd_kind s = NX_TP_SDU_INDICATION"
        using rx assem by (auto simp: rx_ok_def)
      define lft where "lft = unat (ir_total ?rx) - unat (ir_filled ?rx)"
      define n where "n = min (frame_dlen f - 1) lft"
      define xs where "xs = take n (drop 1 ?d)"
      define buf where "buf = take (unat (ir_filled ?rx)) (sd_data s) @ xs @ drop (unat (ir_filled ?rx) + n) (sd_data s)"
      have fl: "unat (ir_filled ?rx) < unat (ir_total ?rx)" using s(4) by (simp add: word_less_nat_alt)
      have fits: "1 + n \<le> length ?d" "unat (ir_filled ?rx) + n \<le> unat (ir_total ?rx)"
        using f fl by (auto simp: n_def lft_def good_frame_def)
      have xs: "length xs = n" using fits by (simp add: xs_def)
      have buf: "length buf = unat (ir_total ?rx)" using xs fits s(6) fl by (simp add: buf_def)
      have nn: "(if size_sub (frame_dlen f) 1 > size_sub (unat (ir_total ?rx)) (unat (ir_filled ?rx))
          then size_sub (unat (ir_total ?rx)) (unat (ir_filled ?rx)) else size_sub (frame_dlen f) 1) = n"
        using f fl by (auto simp: n_def lft_def)
      have load: "msg_sdu w ?m = Some s"
        using msg_load_payload[OF ref, of ?m] s(1,5) by (simp add: msg_sdu_def hrx_def)
      let ?s = "s\<lparr> sd_data := buf \<rparr>"
      have ne0: "istp_rx_cf tp w f = do {
            w1 \<leftarrow> (if n > 0 then do { x \<leftarrow> mem_read 1 n ?d; b \<leftarrow> mem_write (unat (ir_filled ?rx)) x (sd_data s);
                     msg_store w ?m (Sdu (s\<lparr> sd_data := b \<rparr>)) } else Some w);
            (t, w2) \<leftarrow> istp_now ?cfg w1;
            let rx1 = ?rx\<lparr> ir_filled := ir_filled ?rx + of_nat n, ir_sn := (ir_sn ?rx + 1) AND 0x0F, ir_deadline := t + ic_n_cr_us ?cfg \<rparr>;
            if ir_filled rx1 \<ge> ir_total rx1 then istp_rx_finish (tp\<lparr> iso_rx := rx1 \<rparr>) w2
            else if ir_block_left rx1 > 0 then
              let rx2 = rx1\<lparr> ir_block_left := ir_block_left rx1 - 1 \<rparr>
              in if ir_block_left rx2 = 0 then istp_emit_cts (tp\<lparr> iso_rx := rx2 \<rparr>) w2 else Some (tp\<lparr> iso_rx := rx2 \<rparr>, w2)
            else Some (tp\<lparr> iso_rx := rx1 \<rparr>, w2) }"
        unfolding istp_rx_cf_def Let_def nn using assem d0 sn load by (simp add: sn_of_def)
      have size: "tp_size (Sdu ?s) \<le> msg_room w ?m" using s(6,8) buf by simp
      obtain w1 where w1: "(if n > 0 then do { x \<leftarrow> mem_read 1 n ?d; b \<leftarrow> mem_write (unat (ir_filled ?rx)) x (sd_data s);
                     msg_store w ?m (Sdu (s\<lparr> sd_data := b \<rparr>)) } else Some w) = Some w1"
        "ref_inv w1 (\<lambda>a. K a + hrx ?rx a)" "payload w1 ?m = Some (Sdu ?s)" "queued w1 ?m = 0" "msg_room w1 ?m = msg_room w ?m"
        "bus_keeps K w w1" "bus_shape w1 = bus_shape w" "chan w1 = chan w"
      proof (cases "n = 0")
        case True
        then have "?s = s" using xs by (simp add: buf_def)
        then show ?thesis using that[of w] True ref s by simp
      next
        case False
        obtain w1 where w1: "msg_store w ?m (Sdu ?s) = Some w1" "ref_inv w1 (\<lambda>a. K a + hrx ?rx a)" "payload w1 ?m = Some (Sdu ?s)"
          "queued w1 ?m = 0" "msg_room w1 ?m = msg_room w ?m" "bus_keeps K w w1" "bus_shape w1 = bus_shape w" "chan w1 = chan w"
          by (rule rx_store[OF ref, of ?m "Sdu ?s" K]) (use s size in \<open>auto simp: hrx_def\<close>)
        moreover have "mem_read 1 n ?d = Some xs" using fits by (simp add: mem_read_def xs_def)
        moreover have "mem_write (unat (ir_filled ?rx)) xs (sd_data s) = Some buf"
          using fits s(6) xs by (simp add: mem_write_def buf_def)
        ultimately show ?thesis using that[of w1] False by simp
      qed
      obtain t e where now: "istp_now ?cfg w1 = Some (t, w1\<lparr> rw_env := e \<rparr>)" using istp_now_spec[OF cfg] by blast
      define w2 where "w2 = w1\<lparr> rw_env := e \<rparr>"
      have w2: "ref_inv w2 (\<lambda>a. K a + hrx ?rx a)" "payload w2 ?m = Some (Sdu ?s)" "queued w2 ?m = 0" "msg_room w2 ?m = msg_room w ?m"
        "bus_keeps K w w2" "bus_shape w2 = bus_shape w" "chan w2 = chan w"
        using w1 by (simp_all add: w2_def bus_keeps_def)
      define rx1 where "rx1 = ?rx\<lparr> ir_filled := ir_filled ?rx + of_nat n, ir_sn := (ir_sn ?rx + 1) AND 0x0F, ir_deadline := t + ic_n_cr_us ?cfg \<rparr>"
      have filled: "unat (ir_filled rx1) = unat (ir_filled ?rx) + n"
      proof -
        have "unat (ir_total ?rx) < 2 ^ LENGTH(32)" by (rule unsigned_less)
        then have "unat (ir_filled ?rx) + n < 2 ^ 32" using fits(2) by simp
        then show ?thesis by (simp add: rx1_def unat_word_ariths unsigned_of_nat take_bit_nat_eq_self)
      qed
      have full: "ir_filled rx1 \<ge> ir_total rx1 \<longleftrightarrow> unat (ir_filled ?rx) + n = unat (ir_total ?rx)"
        using fits(2) filled by (auto simp: word_le_nat_alt) (simp_all add: rx1_def)
      have run: "istp_rx_cf tp w f =
            (if unat (ir_filled ?rx) + n = unat (ir_total ?rx) then istp_rx_finish (tp\<lparr> iso_rx := rx1 \<rparr>) w2
            else if ir_block_left rx1 > 0 then
              let rx2 = rx1\<lparr> ir_block_left := ir_block_left rx1 - 1 \<rparr>
              in if ir_block_left rx2 = 0 then istp_emit_cts (tp\<lparr> iso_rx := rx2 \<rparr>) w2 else Some (tp\<lparr> iso_rx := rx2 \<rparr>, w2)
            else Some (tp\<lparr> iso_rx := rx1 \<rparr>, w2))"
        unfolding ne0 w1(1) full[symmetric] using now by (simp add: w2_def rx1_def Let_def)
      have bus2: "isotp_bus_ok ?cfg w2" by (rule isotp_bus_keeps[OF bus w2(6)])
      have adds: "bus_adds ?cfg [] [] w w2" by (rule bus_adds_same[OF w2(7)])
      have held: "hrx r = hrx ?rx" if "ir_acc r = ?m" for r using that by (simp add: hrx_def fun_eq_iff)
      have total: "ir_acc rx1 = ?m" "ir_total rx1 = ir_total ?rx" "ir_state rx1 = NX_ISOTP_RX_ASSEM" "ir_sn rx1 = (ir_sn ?rx + 1) AND 0x0F"
        using assem by (simp_all add: rx1_def)
      have collected: "length buf = unat len \<and> take (length ys + n) buf = ys @ xs \<and> len = ir_total ?rx \<and> sn' = ir_sn ?rx \<and>
          length ys = unat (ir_filled ?rx) \<and> n = min (frame_dlen f - 1) (unat len - length ys) \<and>
          ?s = istp_sdu_head ?cfg len NX_TP_SDU_INDICATION NX_TP_TA_PHYSICAL NX_TP_N_OK buf"
        if "rx_holds tp w len ys sn'" for len ys sn'
      proof -
        from that obtain b where b: "payload w ?m = Some (Sdu (istp_sdu_head ?cfg len NX_TP_SDU_INDICATION NX_TP_TA_PHYSICAL NX_TP_N_OK b))"
          "take (length ys) b = ys" and h: "ir_total ?rx = len" "ir_sn ?rx = sn'" "unat (ir_filled ?rx) = length ys"
          unfolding rx_holds_def by blast
        have s_eq: "s = istp_sdu_head ?cfg len NX_TP_SDU_INDICATION NX_TP_TA_PHYSICAL NX_TP_N_OK b" using b(1) s(5) by simp
        have "take (length ys + n) buf = ys @ xs"
          using h(3) b(2) xs unfolding buf_def s_eq by (simp add: istp_sdu_head_def)
        moreover have "?s = istp_sdu_head ?cfg len NX_TP_SDU_INDICATION NX_TP_TA_PHYSICAL NX_TP_N_OK buf"
          unfolding s_eq by (simp add: istp_sdu_head_def)
        ultimately show ?thesis using h buf n_def lft_def by metis
      qed
      show ?thesis
      proof (cases "unat (ir_filled ?rx) + n = unat (ir_total ?rx)")
        case True
        have refs: "ref_inv w2 (\<lambda>a. K a + hrx (iso_rx (tp\<lparr> iso_rx := rx1 \<rparr>)) a)" using w2(1) held[OF total(1)] by simp
        obtain tp' w' ok where fin: "istp_rx_finish (tp\<lparr> iso_rx := rx1 \<rparr>) w2 = Some (tp', w')" "rx_idle (iso_rx tp')"
          "rx_step K (tp\<lparr> iso_rx := rx1 \<rparr>) w2 (if ok then [Some (Sdu ?s)] else []) [] tp' w'"
          "ok = (length (chan w (ic_sdu_tx_queue ?cfg)) < the (chan_cap w (ic_sdu_tx_queue ?cfg)))"
        proof -
          have "is_indication (Some (Sdu ?s))" using s(9) by (simp add: is_indication_def)
          moreover have "chan_cap w2 = chan_cap w" using w2(6) by (simp add: bus_shape_def)
          ultimately show ?thesis
            using istp_rx_finish_spec[OF _ refs _ s(1,2) w2(3,2)] bus2 total(1) w2(7) that by auto
        qed
        have step: "rx_step K tp w (if ok then [Some (Sdu ?s)] else []) [] tp' w'"
          by (rule rx_step_after[OF w2(5) adds _ _ fin(3) cfg]) simp_all
        have "rx_delivered tp w (ys @ xs) (if ok then [Some (Sdu ?s)] else [])" if h: "rx_holds tp w len ys sn'" for len ys sn'
        proof -
          have "buf = ys @ xs" "len = of_nat (length (ys @ xs))"
            using collected[OF h] True xs by (auto simp: word_unat_eq_iff)
          then have "?s = isotp_indication ?cfg NX_TP_TA_PHYSICAL (ys @ xs)"
            using collected[OF h] by (simp add: isotp_indication_def)
          then show ?thesis unfolding rx_delivered_def fin(4)[symmetric] by simp
        qed
        note del = this
        let ?us = "if ok then [Some (Sdu ?s)] else []"
        show ?thesis
        proof (rule exI[of _ tp'], rule exI[of _ w'], rule exI[of _ ?us], rule exI[of _ "[]"], intro conjI allI impI)
          fix len ys sn' assume h: "rx_holds tp w len ys sn'"
          have c: "min (frame_dlen f - 1) (unat len - length ys) = n" "ir_sn ?rx = sn'" "length ys + n = unat len"
            using collected[OF h] True by auto
          show "let n = min (frame_dlen f - 1) (unat len - length ys); xs = take n (drop 1 ?d) in
                if sn_of \<noteq> sn' then rx_idle (iso_rx tp') \<and> rx_reports tp ?us
                else if length ys + n = unat len then rx_idle (iso_rx tp') \<and> rx_delivered tp w (ys @ xs) ?us
                else rx_holds tp' w' len (ys @ xs) ((sn' + 1) AND 0x0F) \<and> ?us = []"
            unfolding Let_def c(1) xs_def[symmetric] using sn c(2,3) fin(2) del[OF h] by simp
        qed (use run True fin(1) step assem in simp_all)
      next
        case False
        have less: "ir_filled rx1 < ir_total ?rx" using False fits(2) filled by (simp add: word_less_nat_alt)
        have inv1: "rx_inv (tp\<lparr> iso_rx := rx1\<lparr> ir_block_left := b \<rparr> \<rparr>) w2 K" for b
          using bus2 w2 s(1,2,6,7,9) total less size buf held[of "rx1\<lparr> ir_block_left := b \<rparr>"]
          by (simp add: rx_inv_def rx_ok_def)
        have step1: "rx_step K tp w [] [] (tp\<lparr> iso_rx := rx1\<lparr> ir_block_left := b \<rparr> \<rparr>) w2" for b
          using inv1 w2(5) adds by (simp add: rx_step_def)
        have holds: "rx_holds (tp\<lparr> iso_rx := rx1\<lparr> ir_block_left := b, ir_state := st, ir_deadline := dl \<rparr> \<rparr>) w' len (ys @ xs) ((sn' + 1) AND 0x0F)"
          if h: "rx_holds tp w len ys sn'" and "payload w' ?m = payload w2 ?m" "st \<noteq> NX_ISOTP_RX_IDLE" for len ys sn' b st dl w'
          using collected[OF h] that(2,3) w2(2) total filled xs False fits(2) by (auto simp: rx_holds_def)
        have plain: ?thesis if run1: "istp_rx_cf tp w f = Some (tp\<lparr> iso_rx := rx1\<lparr> ir_block_left := b \<rparr> \<rparr>, w2)" for b
        proof -
          have "rx1\<lparr> ir_block_left := b, ir_state := NX_ISOTP_RX_ASSEM, ir_deadline := ir_deadline rx1 \<rparr> = rx1\<lparr> ir_block_left := b \<rparr>"
            using total(3) by (cases rx1) simp
          then have h: "rx_holds (tp\<lparr> iso_rx := rx1\<lparr> ir_block_left := b \<rparr> \<rparr>) w2 len (ys @ xs) ((sn' + 1) AND 0x0F)"
            if "rx_holds tp w len ys sn'" for len ys sn'
            using holds[OF that refl, where st = NX_ISOTP_RX_ASSEM and b = b and dl = "ir_deadline rx1"] by simp
          show ?thesis
          proof (rule exI[of _ "tp\<lparr> iso_rx := rx1\<lparr> ir_block_left := b \<rparr> \<rparr>"], rule exI[of _ w2], rule exI[of _ "[]"], rule exI[of _ "[]"],
              intro conjI allI impI)
            fix len ys sn' assume h': "rx_holds tp w len ys sn'"
            have c: "min (frame_dlen f - 1) (unat len - length ys) = n" "ir_sn ?rx = sn'" "length ys + n \<noteq> unat len"
              using collected[OF h'] False by auto
            show "let n = min (frame_dlen f - 1) (unat len - length ys); xs = take n (drop 1 ?d) in
                if sn_of \<noteq> sn' then rx_idle (iso_rx (tp\<lparr> iso_rx := rx1\<lparr> ir_block_left := b \<rparr> \<rparr>)) \<and> rx_reports tp []
                else if length ys + n = unat len then rx_idle (iso_rx (tp\<lparr> iso_rx := rx1\<lparr> ir_block_left := b \<rparr> \<rparr>)) \<and>
                  rx_delivered tp w (ys @ xs) []
                else rx_holds (tp\<lparr> iso_rx := rx1\<lparr> ir_block_left := b \<rparr> \<rparr>) w2 len (ys @ xs) ((sn' + 1) AND 0x0F) \<and> [] = []"
              unfolding Let_def c(1) xs_def[symmetric] using sn c(2,3) h[OF h'] by simp
          qed (use run1 step1 assem in simp_all)
        qed
        show ?thesis
        proof (cases "ir_block_left rx1 > 0 \<and> ir_block_left rx1 - 1 = 0")
          case True
          define tp2 where "tp2 = tp\<lparr> iso_rx := rx1\<lparr> ir_block_left := ir_block_left rx1 - 1 \<rparr> \<rparr>"
          have run2: "istp_rx_cf tp w f = istp_emit_cts tp2 w2" using run False True by (simp add: tp2_def)
          have st2: "ir_state (iso_rx tp2) \<noteq> NX_ISOTP_RX_IDLE" "ir_acc (iso_rx tp2) = ?m" "iso_cfg tp2 = ?cfg" using total by (simp_all add: tp2_def)
          have inv2: "rx_inv tp2 w2 K" unfolding tp2_def by (rule inv1)
          obtain tp' w' ok b dl where cts: "istp_emit_cts tp2 w2 = Some (tp', w')"
            "tp' = tp2\<lparr> iso_rx := (iso_rx tp2)\<lparr> ir_block_left := b, ir_state := (if ok then NX_ISOTP_RX_ASSEM else NX_ISOTP_RX_FC_WAIT),
                ir_deadline := dl \<rparr> \<rparr>"
            "rx_step K tp2 w2 [] (if ok then [Some (Frame (isotp_frame (iso_cfg tp2) (ic_phys_tx_id (iso_cfg tp2))
              [0x30, ic_rx_block_size (iso_cfg tp2), ic_rx_stmin (iso_cfg tp2)]))] else []) tp' w'"
            "payload w' (ir_acc (iso_rx tp2)) = payload w2 (ir_acc (iso_rx tp2))"
            using istp_emit_cts_spec[OF inv2 st2(1)] by blast
          have tp': "tp' = tp\<lparr> iso_rx := rx1\<lparr> ir_block_left := b, ir_state := (if ok then NX_ISOTP_RX_ASSEM else NX_ISOTP_RX_FC_WAIT),
                ir_deadline := dl \<rparr> \<rparr>"
            unfolding cts(2) by (simp add: tp2_def)
          have h: "rx_holds tp' w' len (ys @ xs) ((sn' + 1) AND 0x0F)" if "rx_holds tp w len ys sn'" for len ys sn'
            unfolding tp' using holds[OF that] cts(4) st2(2) by simp
          obtain fs where step: "rx_step K tp w [] fs tp' w'"
            using rx_step_trans[OF step1[of "ir_block_left rx1 - 1"] cts(3)[unfolded tp2_def]] by (metis append_Nil)
          show ?thesis
          proof (rule exI[of _ tp'], rule exI[of _ w'], rule exI[of _ "[]"], rule exI[of _ fs], intro conjI allI impI)
            fix len ys sn' assume h': "rx_holds tp w len ys sn'"
            have c: "min (frame_dlen f - 1) (unat len - length ys) = n" "ir_sn ?rx = sn'" "length ys + n \<noteq> unat len"
              using collected[OF h'] False by auto
            show "let n = min (frame_dlen f - 1) (unat len - length ys); xs = take n (drop 1 ?d) in
                if sn_of \<noteq> sn' then rx_idle (iso_rx tp') \<and> rx_reports tp []
                else if length ys + n = unat len then rx_idle (iso_rx tp') \<and> rx_delivered tp w (ys @ xs) []
                else rx_holds tp' w' len (ys @ xs) ((sn' + 1) AND 0x0F) \<and> [] = []"
              unfolding Let_def c(1) xs_def[symmetric] using sn c(2,3) h[OF h'] by simp
          qed (use run2 cts(1) step assem in simp_all)
        next
          case more: False
          show ?thesis
          proof (cases "ir_block_left rx1 > 0")
            case True
            then show ?thesis using run False more by (intro plain[of "ir_block_left rx1 - 1"]) (auto simp: Let_def)
          next
            case False
            have "rx1\<lparr> ir_block_left := ir_block_left rx1 \<rparr> = rx1" by (cases rx1) simp
            with False show ?thesis using run \<open>unat (ir_filled ?rx) + n \<noteq> unat (ir_total ?rx)\<close>
              by (intro plain[of "ir_block_left rx1"]) (simp add: Let_def)
          qed
        qed
      qed
    qed
  qed
qed


lemma istp_rx_phys_frame_step:
  assumes inv: "rx_inv tp w K" and f: "good_frame f" "0 < frame_dlen f"
  shows "\<exists>tp' w' us fs. istp_rx_phys_frame tp w f = Some (tp', w') \<and> rx_step K tp w us fs tp' w'"
proof -
  have d0: "mem_get 0 (cm_data f) = Some (cm_data f ! 0)" using f by (auto simp: good_frame_def mem_get_def)
  consider "istp_rx_phys_frame tp w f = istp_rx_sf tp w f" | "istp_rx_phys_frame tp w f = istp_rx_ff tp w f"
    | "istp_rx_phys_frame tp w f = istp_rx_cf tp w f" | "istp_rx_phys_frame tp w f = Some (tp, w)"
    unfolding istp_rx_phys_frame_def d0 Let_def by (simp split: if_splits) metis
  then show ?thesis
  proof cases
    case 1 then show ?thesis using istp_rx_sf_spec[OF inv f] by metis
  next
    case 2 then show ?thesis using istp_rx_ff_spec[OF inv f(1)] by metis
  next
    case 3 then show ?thesis using istp_rx_cf_spec[OF inv f] by metis
  next
    case 4 then show ?thesis using rx_step_refl[OF inv] by metis
  qed
qed

end
