(* ===== verification/Nx_Isotp_Tx.thy ===== *)
theory Nx_Isotp_Tx
  imports Nx_Isotp_Rx
begin

text \<open>
  Transmission in \<open>src/middleware/nx_can_isotp.c\<close>: the frames a message is cut into, and that the sending side, whatever
  the link and the peer do, puts exactly these on the link in order.
\<close>

section \<open>The frames of a message\<close>

definition isotp_single :: "'e nx_can_isotp_cfg \<Rightarrow> nat \<Rightarrow> bool" where
  "isotp_single cfg n \<longleftrightarrow> n \<le> istp_sf_capacity cfg"

definition isotp_ff_room :: "'e nx_can_isotp_cfg \<Rightarrow> nat \<Rightarrow> nat" where
  "isotp_ff_room cfg n = unat (ic_max_frame_len cfg) - length (istp_ff_pci (of_nat n))"

definition isotp_cf_room :: "'e nx_can_isotp_cfg \<Rightarrow> nat" where
  "isotp_cf_room cfg = unat (ic_max_frame_len cfg) - 1"

text \<open>The bytes of the message before frame \<open>k\<close>.\<close>

definition isotp_offset :: "'e nx_can_isotp_cfg \<Rightarrow> nat \<Rightarrow> nat \<Rightarrow> nat" where
  "isotp_offset cfg n k = (if k = 0 then 0 else isotp_ff_room cfg n + (k - 1) * isotp_cf_room cfg)"

text \<open>Header and payload of frame \<open>k\<close> of the message \<open>p\<close>.\<close>

definition isotp_unit :: "'e nx_can_isotp_cfg \<Rightarrow> bytes \<Rightarrow> nat \<Rightarrow> bytes" where
  "isotp_unit cfg p k =
     (if k = 0 then
        if isotp_single cfg (length p)
        then (if length p \<le> 7 then [of_nat (length p)] else [0, of_nat (length p)]) @ p
        else istp_ff_pci (of_nat (length p)) @ take (isotp_ff_room cfg (length p)) p
      else (0x20 OR of_nat (k mod 16)) # take (isotp_cf_room cfg) (drop (isotp_offset cfg (length p) k) p))"

definition isotp_frames :: "'e nx_can_isotp_cfg \<Rightarrow> u32 \<Rightarrow> bytes \<Rightarrow> nat \<Rightarrow> nat \<Rightarrow> tp_data option list" where
  "isotp_frames cfg id0 p k n = map (\<lambda>j. Some (Frame (isotp_frame cfg id0 (isotp_unit cfg p j)))) [k..<k + n]"

lemma isotp_frames_0 [simp]: "isotp_frames cfg id0 p k 0 = []"
  by (simp add: isotp_frames_def)

lemma isotp_frames_Suc: "isotp_frames cfg id0 p k (Suc n) =
    Some (Frame (isotp_frame cfg id0 (isotp_unit cfg p k))) # isotp_frames cfg id0 p (Suc k) n"
  by (simp add: isotp_frames_def upt_conv_Cons del: upt_Suc)

lemma length_istp_ff_pci: "length (istp_ff_pci n) = (if unat n > 4095 then 6 else 2)"
  by (simp add: istp_ff_pci_def)

lemma isotp_ff_room_bounds:
  assumes "isotp_cfg_ok cfg"
  shows "2 \<le> isotp_ff_room cfg n" "7 \<le> isotp_cf_room cfg"
  using isotp_cfg_frame_len[OF assms] by (auto simp: isotp_ff_room_def isotp_cf_room_def length_istp_ff_pci)

lemma isotp_not_single_ff:
  assumes cfg: "isotp_cfg_ok cfg" and n: "\<not> isotp_single cfg n" "n < 2 ^ 32"
  shows "isotp_ff_room cfg n < n"
proof -
  have un: "unat (of_nat n :: u32) = n" using n(2) by (simp add: unsigned_of_nat take_bit_nat_eq_self)
  have "8 \<le> unat (ic_max_frame_len cfg)" "unat (ic_max_frame_len cfg) \<le> 64" using isotp_cfg_frame_len[OF cfg] .
  moreover have "(if unat (ic_max_frame_len cfg) \<le> 8 then 7 else unat (ic_max_frame_len cfg) - 2) < n"
    using n(1) by (auto simp: isotp_single_def istp_sf_capacity_def word_le_nat_alt split: if_splits)
  ultimately show ?thesis by (auto simp: isotp_ff_room_def length_istp_ff_pci un split: if_splits)
qed

lemma isotp_offset_Suc: "isotp_offset cfg n (Suc (Suc k)) = isotp_offset cfg n (Suc k) + isotp_cf_room cfg"
  by (simp add: isotp_offset_def)

section \<open>The invariant of the sending side\<close>

definition htx :: "nx_can_isotp_tx \<Rightarrow> nat \<Rightarrow> nat" where
  "htx tx a = (if a \<noteq> 0 \<and> a = it_sdu tx then 1 else 0)"

lemma htx_none [simp]: "it_sdu tx = 0 \<Longrightarrow> htx tx = (\<lambda>_. 0)"
  by (auto simp: htx_def fun_eq_iff)

text \<open>A message \<open>p\<close> is loaded, the frames before \<open>k\<close> are out.\<close>

definition tx_at :: "'e nx_can_isotp_cfg \<Rightarrow> nx_can_isotp_tx \<Rightarrow> 'e tp_world \<Rightarrow> bytes \<Rightarrow> nat \<Rightarrow> bool" where
  "tx_at cfg tx w p k \<longleftrightarrow>
     it_sdu tx \<noteq> 0 \<and> unat (it_total tx) = length p \<and>
     (\<exists>s. payload w (it_sdu tx) = Some (Sdu s) \<and> length p \<le> length (sd_data s) \<and> take (length p) (sd_data s) = p) \<and>
     (if k = 0 then it_sent tx = 0 \<and> it_sn tx = 1
      else \<not> isotp_single cfg (length p) \<and> isotp_offset cfg (length p) k < length p \<and>
        unat (it_sent tx) = isotp_offset cfg (length p) k \<and> it_sn tx = of_nat (k mod 16))"

definition tx_ok :: "'e nx_can_isotp_cfg \<Rightarrow> nx_can_isotp_tx \<Rightarrow> 'e tp_world \<Rightarrow> bool" where
  "tx_ok cfg tx w \<longleftrightarrow>
     (if it_state tx = NX_ISOTP_TX_IDLE then it_sdu tx = 0
      else \<exists>p k. tx_at cfg tx w p k \<and> (k = 0 \<longrightarrow> it_state tx = NX_ISOTP_TX_WAIT_LINK))"

definition tx_inv :: "'e nx_can_isotp \<Rightarrow> 'e tp_world \<Rightarrow> (nat \<Rightarrow> nat) \<Rightarrow> bool" where
  "tx_inv tp w K \<longleftrightarrow> isotp_bus_ok (iso_cfg tp) w \<and> ref_inv w (\<lambda>a. K a + htx (iso_tx tp) a) \<and> tx_ok (iso_cfg tp) (iso_tx tp) w"

text \<open>The instance with a message loaded, in whatever state.\<close>

definition tx_busy :: "'e nx_can_isotp \<Rightarrow> 'e tp_world \<Rightarrow> (nat \<Rightarrow> nat) \<Rightarrow> bytes \<Rightarrow> nat \<Rightarrow> bool" where
  "tx_busy tp w K p k \<longleftrightarrow> isotp_bus_ok (iso_cfg tp) w \<and> ref_inv w (\<lambda>a. K a + htx (iso_tx tp) a) \<and> tx_at (iso_cfg tp) (iso_tx tp) w p k"

definition tx_moves ::
  "(nat \<Rightarrow> nat) \<Rightarrow> 'e nx_can_isotp \<Rightarrow> 'e tp_world \<Rightarrow> tp_data option list \<Rightarrow> tp_data option list \<Rightarrow>
   'e nx_can_isotp \<Rightarrow> 'e tp_world \<Rightarrow> bool" where
  "tx_moves K tp w us fs tp' w' \<longleftrightarrow>
     iso_cfg tp' = iso_cfg tp \<and> iso_rx tp' = iso_rx tp \<and> bus_keeps K w w' \<and> bus_adds (iso_cfg tp) us fs w w' \<and>
     it_tx_id (iso_tx tp') = it_tx_id (iso_tx tp) \<and> (it_sdu (iso_tx tp') = 0 \<or> it_sdu (iso_tx tp') = it_sdu (iso_tx tp))"

lemma tx_moves_trans:
  assumes "isotp_cfg_ok (iso_cfg tp)" "tx_moves K tp w us fs tp1 w1" "tx_moves K tp1 w1 us' fs' tp2 w2"
  shows "tx_moves K tp w (us @ us') (fs @ fs') tp2 w2"
  using assms bus_adds_trans[of "iso_cfg tp" us fs w w1 us' fs' w2] bus_keeps_trans[of K w w1 w2] by (auto simp: tx_moves_def)

lemma tx_moves_refl [simp]: "tx_moves K tp w [] [] tp w"
  by (simp add: tx_moves_def)

lemma tx_busy_cfg: "tx_busy tp w K p k \<Longrightarrow> isotp_cfg_ok (iso_cfg tp)"
  by (simp add: tx_busy_def isotp_bus_ok_def)

lemma tx_busy_held: "tx_busy tp w K p k \<Longrightarrow> 0 < K (it_sdu (iso_tx tp)) + htx (iso_tx tp) (it_sdu (iso_tx tp))"
  by (simp add: tx_busy_def tx_at_def htx_def)

lemma tx_busy_load:
  assumes "tx_busy tp w K p k"
  obtains s where "msg_sdu w (it_sdu (iso_tx tp)) = Some s" "payload w (it_sdu (iso_tx tp)) = Some (Sdu s)"
    "length p \<le> length (sd_data s)" "take (length p) (sd_data s) = p"
proof -
  have ref: "ref_inv w (\<lambda>a. K a + htx (iso_tx tp) a)" using assms by (simp add: tx_busy_def)
  obtain s where "payload w (it_sdu (iso_tx tp)) = Some (Sdu s)" "length p \<le> length (sd_data s)" "take (length p) (sd_data s) = p"
    using assms by (auto simp: tx_busy_def tx_at_def)
  then show ?thesis
    using that msg_load_payload[OF ref tx_busy_held[OF assms]] by (simp add: msg_sdu_def)
qed

text \<open>Keeping the message while something else happens in the world.\<close>

lemma tx_busy_keeps:
  assumes "tx_busy tp w K p k" "ref_inv w' (\<lambda>a. K a + htx (iso_tx tp) a)" "bus_keeps (\<lambda>a. K a + htx (iso_tx tp) a) w w'"
  shows "tx_busy tp w' K p k"
proof -
  have "payload w' (it_sdu (iso_tx tp)) = payload w (it_sdu (iso_tx tp))"
  proof -
    have "\<forall>b. 0 < K b + htx (iso_tx tp) b \<longrightarrow> payload w' b = payload w b" using assms(3) by (auto simp: bus_keeps_def)
    from this[rule_format, OF tx_busy_held[OF assms(1)]] show ?thesis .
  qed
  moreover have "isotp_bus_ok (iso_cfg tp) w'"
    using assms(1,3) isotp_bus_keeps by (auto simp: tx_busy_def bus_keeps_def)
  ultimately show ?thesis using assms(1,2) by (simp add: tx_busy_def tx_at_def)
qed

section \<open>Ending a transmission\<close>

definition isotp_confirm :: "'e nx_can_isotp_cfg \<Rightarrow> u8 \<Rightarrow> tp_data" where
  "isotp_confirm cfg r = Sdu (istp_sdu_head cfg 0 NX_TP_SDU_CONFIRM NX_TP_TA_PHYSICAL r [])"

text \<open>Nothing, or the confirmation where it is asked for.\<close>

definition confirms :: "'e nx_can_isotp_cfg \<Rightarrow> u8 \<Rightarrow> tp_data option list \<Rightarrow> bool" where
  "confirms cfg r us \<longleftrightarrow> us = [] \<or> ic_confirm_tx cfg \<and> us = [Some (isotp_confirm cfg r)]"

definition tx_idle :: "'e nx_can_isotp \<Rightarrow> 'e tp_world \<Rightarrow> (nat \<Rightarrow> nat) \<Rightarrow> bool" where
  "tx_idle tp w K \<longleftrightarrow> isotp_bus_ok (iso_cfg tp) w \<and> ref_inv w K \<and> it_state (iso_tx tp) = NX_ISOTP_TX_IDLE \<and> it_sdu (iso_tx tp) = 0"

lemma tx_idle_inv: "tx_idle tp w K \<Longrightarrow> tx_inv tp w K"
  by (simp add: tx_idle_def tx_inv_def tx_ok_def)

text \<open>The message may be finished here, so only its reference and address matter.\<close>

lemma istp_tx_abort_spec:
  assumes bus: "isotp_bus_ok (iso_cfg tp) w" and ref: "ref_inv w (\<lambda>a. K a + htx (iso_tx tp) a)"
  shows "\<exists>tp' w' us. istp_tx_abort tp w result = Some (tp', w') \<and> tx_idle tp' w' K \<and> tx_moves K tp w us [] tp' w' \<and>
    confirms (iso_cfg tp) result us \<and> (it_sdu (iso_tx tp) = 0 \<longrightarrow> us = [])"
proof -
  let ?tx = "iso_tx tp" and ?cfg = "iso_cfg tp"
  define tp' where "tp' = tp\<lparr> iso_tx := ?tx\<lparr> it_sdu := 0, it_state := NX_ISOTP_TX_IDLE, it_wft := 0 \<rparr> \<rparr>"
  have tp': "iso_cfg tp' = ?cfg" "iso_rx tp' = iso_rx tp" "it_sdu (iso_tx tp') = 0" "it_state (iso_tx tp') = NX_ISOTP_TX_IDLE"
    "it_tx_id (iso_tx tp') = it_tx_id ?tx" by (simp_all add: tp'_def)
  show ?thesis
  proof (cases "it_sdu ?tx = 0")
    case True
    then have "istp_tx_abort tp w result = Some (tp', w)" by (simp add: istp_tx_abort_def tp'_def)
    moreover have "ref_inv w K" using ref True by simp
    ultimately show ?thesis
      using tp' bus by (intro exI[of _ tp'] exI[of _ w] exI[of _ "[]"]) (simp add: tx_idle_def tx_moves_def confirms_def)
  next
    case False
    let ?a = "it_sdu ?tx"
    have held: "0 < K ?a + htx ?tx ?a" using False by (simp add: htx_def)
    obtain w1 where w1: "nx_ref_msg_release w ?a = Some (NX_REF_MSG_OK, w1)"
      "ref_inv w1 ((\<lambda>a. K a + htx ?tx a)(?a := K ?a + htx ?tx ?a - 1))" "chan w1 = chan w" "bus_shape w1 = bus_shape w"
      "payload w1 = payload w" "msg_room w1 = msg_room w" "queued w1 = queued w"
      using bus_release[OF ref held] by blast
    have "(\<lambda>a. K a + htx ?tx a)(?a := K ?a + htx ?tx ?a - 1) = K" using False by (auto simp: htx_def)
    then have ref1: "ref_inv w1 K" using w1(2) by simp
    have bus1: "isotp_bus_ok ?cfg w1" by (rule isotp_bus_keeps[OF bus w1(4)])
    have mv1: "tx_moves K tp w [] [] tp' w1" using w1 tp' by (simp add: tx_moves_def bus_keeps_def bus_adds_same)
    have run: "istp_tx_abort tp w result = do { w2 \<leftarrow> istp_tx_confirm ?cfg w1 result; Some (tp', w2) }"
      using False w1(1) by (simp add: istp_tx_abort_def tp'_def)
    show ?thesis
    proof (cases "ic_confirm_tx ?cfg")
      case no: False
      then show ?thesis
        using run mv1 tp' bus1 ref1 by (intro exI[of _ tp'] exI[of _ w1] exI[of _ "[]"]) (simp add: istp_tx_confirm_def tx_idle_def confirms_def)
    next
      case yes: True
      obtain ok w2 where w2: "istp_report ?cfg w1 NX_TP_SDU_CONFIRM result = Some w2" "ref_inv w2 K" "bus_keeps K w1 w2"
        "bus_adds ?cfg (if ok then [Some (Sdu (istp_sdu_head ?cfg 0 NX_TP_SDU_CONFIRM NX_TP_TA_PHYSICAL result []))] else []) [] w1 w2"
        using istp_report_spec[OF bus1 ref1] by blast
      let ?us = "if ok then [Some (isotp_confirm ?cfg result)] else []"
      have "tx_moves K tp' w1 ?us [] tp' w2" using w2 tp' by (cases ok) (simp_all add: tx_moves_def isotp_confirm_def)
      then have "tx_moves K tp w ?us [] tp' w2"
        using tx_moves_trans[OF _ mv1] bus by (auto simp: isotp_bus_ok_def)
      moreover have "tx_idle tp' w2 K"
        using isotp_bus_keeps[OF bus1] w2(2,3) tp' by (simp add: tx_idle_def bus_keeps_def)
      moreover have "istp_tx_abort tp w result = Some (tp', w2)" using run yes w2(1) by (simp add: istp_tx_confirm_def)
      ultimately show ?thesis using yes False by (intro exI[of _ tp'] exI[of _ w2] exI[of _ ?us]) (simp add: confirms_def)
    qed
  qed
qed


section \<open>Emitting the frames of the message\<close>

lemma isotp_cfg_cap: "isotp_cfg_ok cfg \<Longrightarrow> istp_sf_capacity cfg \<le> 62"
  using isotp_cfg_frame_len[of cfg] by (auto simp: istp_sf_capacity_def word_le_nat_alt)

lemma istp_emit_sf_spec:
  assumes bus: "isotp_bus_ok cfg w" and inv: "ref_inv w K" and p: "isotp_single cfg (length p)" "length p \<le> length src" "take (length p) src = p"
  shows "\<exists>ok w'. istp_emit_sf cfg w id0 src (length p) = Some (ok, w') \<and> ref_inv w' K \<and> bus_keeps K w w' \<and>
    bus_adds cfg [] (if ok then isotp_frames cfg id0 p 0 1 else []) w w'"
proof -
  have cfg: "isotp_cfg_ok cfg" using bus by (simp add: isotp_bus_ok_def)
  define pci :: bytes where "pci = (if length p \<le> 7 then [of_nat (length p)] else [0, of_nat (length p)])"
  have run: "istp_emit_sf cfg w id0 src (length p) = istp_emit_frame cfg w id0 (Some src) (length p) pci"
    by (simp add: istp_emit_sf_def pci_def)
  have room: "length p + length pci \<le> unat (ic_max_frame_len cfg)"
    using p(1) isotp_cfg_frame_len[OF cfg] by (auto simp: isotp_single_def istp_sf_capacity_def word_le_nat_alt pci_def split: if_splits)
  then have "\<exists>ok w'. istp_emit_frame cfg w id0 (Some src) (length p) pci = Some (ok, w') \<and> ref_inv w' K \<and> bus_keeps K w w' \<and>
      sent_to (ic_can_tx_queue cfg) (Frame (isotp_frame cfg id0 (pci @ p))) ok w w'"
    using p by (intro istp_emit_frame_spec[OF bus inv, where c = "length p"]) (auto simp: pci_def min_def)
  moreover have "isotp_frames cfg id0 p 0 1 = [Some (Frame (isotp_frame cfg id0 (pci @ p)))]"
    using p(1) by (simp add: isotp_frames_def isotp_unit_def pci_def)
  ultimately show ?thesis unfolding run using sent_to_can by metis
qed

lemma istp_emit_ff_spec:
  assumes bus: "isotp_bus_ok cfg w" and inv: "ref_inv w K" and p: "\<not> isotp_single cfg (length p)" "length p \<le> length src"
    "take (length p) src = p" "unat len = length p"
  shows "\<exists>n w'. istp_emit_ff cfg w id0 src len = Some (n, w') \<and> ref_inv w' K \<and> bus_keeps K w w' \<and>
    (n = 0 \<or> n = isotp_offset cfg (length p) 1) \<and> bus_adds cfg [] (if n \<noteq> 0 then isotp_frames cfg id0 p 0 1 else []) w w'"
proof -
  have cfg: "isotp_cfg_ok cfg" using bus by (simp add: isotp_bus_ok_def)
  have n32: "length p < 2 ^ 32" using unsigned_less[of len, where ?'a = nat] p(4) by simp
  have len: "of_nat (length p) = len" by (simp flip: p(4))
  let ?pci = "istp_ff_pci len" and ?r = "isotp_ff_room cfg (length p)"
  have r: "?r < length p" by (rule isotp_not_single_ff[OF cfg p(1) n32])
  have r2: "2 \<le> ?r" using isotp_ff_room_bounds(1)[OF cfg] .
  have rdef: "?r = unat (ic_max_frame_len cfg) - length ?pci" by (simp add: isotp_ff_room_def len)
  have pl: "0 < length ?pci" "length ?pci \<le> 6" by (simp_all add: length_istp_ff_pci)
  have tk: "take ?r src = take ?r p"
    using p(3) r by (metis take_take min.absorb1 less_imp_le)
  have "\<exists>ok w'. istp_emit_frame cfg w id0 (Some src) (unat len) ?pci = Some (ok, w') \<and> ref_inv w' K \<and> bus_keeps K w w' \<and>
      sent_to (ic_can_tx_queue cfg) (Frame (isotp_frame cfg id0 (?pci @ take ?r p))) ok w w'"
  proof (rule istp_emit_frame_spec[OF bus inv pl, where c = ?r])
    show "?r = min (unat len) (unat (ic_max_frame_len cfg) - length ?pci)" using r p(4) rdef by linarith
    show "\<exists>s. Some src = Some s \<and> ?r \<le> length s \<and> take ?r s = take ?r p" using tk r p(2) by auto
  qed (use r in simp)
  then obtain ok w' where w': "istp_emit_frame cfg w id0 (Some src) (unat len) ?pci = Some (ok, w')" "ref_inv w' K" "bus_keeps K w w'"
      "sent_to (ic_can_tx_queue cfg) (Frame (isotp_frame cfg id0 (?pci @ take ?r p))) ok w w'"
    by blast
  have fr: "isotp_frames cfg id0 p 0 1 = [Some (Frame (isotp_frame cfg id0 (?pci @ take ?r p)))]"
    using p(1) by (simp add: isotp_frames_def isotp_unit_def len)
  have off: "isotp_offset cfg (length p) 1 = ?r" by (simp add: isotp_offset_def)
  have cap: "size_sub (unat (ic_max_frame_len cfg)) (length ?pci) = ?r"
    using isotp_cfg_frame_len[OF cfg] pl rdef by simp
  have "istp_emit_ff cfg w id0 src len = Some (if ok then ?r else 0, w')"
    using w'(1) r p(4) by (simp add: istp_emit_ff_def Let_def cap)
  then show ?thesis
    using w'(2,3) sent_to_can[OF w'(4)] r2 unfolding fr off
    by (intro exI[of _ "if ok then ?r else 0"] exI[of _ w']) auto
qed

lemma istp_tx_next_spec:
  assumes busy: "tx_busy tp w K p k" "0 < k" and s: "length p \<le> length (sd_data s)" "take (length p) (sd_data s) = p"
  defines "G \<equiv> \<lambda>a. K a + htx (iso_tx tp) a"
  shows "\<exists>ok w'. istp_tx_next tp w s = Some (ok, w') \<and> ref_inv w' G \<and> bus_keeps G w w' \<and>
    bus_adds (iso_cfg tp) [] (if ok then isotp_frames (iso_cfg tp) (it_tx_id (iso_tx tp)) p k 1 else []) w w'"
    and "istp_tx_chunk tp = min (isotp_cf_room (iso_cfg tp)) (length p - isotp_offset (iso_cfg tp) (length p) k)"
proof -
  let ?cfg = "iso_cfg tp" and ?tx = "iso_tx tp" and ?off = "isotp_offset (iso_cfg tp) (length p) k"
  have bus: "isotp_bus_ok ?cfg w" and inv: "ref_inv w G" using busy(1) by (simp_all add: tx_busy_def G_def)
  have cfg: "isotp_cfg_ok ?cfg" using bus by (simp add: isotp_bus_ok_def)
  have at: "unat (it_total ?tx) = length p" "unat (it_sent ?tx) = ?off" "?off < length p" "it_sn ?tx = of_nat (k mod 16)"
    using busy by (simp_all add: tx_busy_def tx_at_def)
  have left: "unat (it_total ?tx - it_sent ?tx) = length p - ?off"
    using at by (subst unat_sub) (simp_all add: word_le_nat_alt)
  have room: "size_sub (unat (ic_max_frame_len ?cfg)) 1 = isotp_cf_room ?cfg"
    using isotp_cfg_frame_len[OF cfg] by (simp add: isotp_cf_room_def)
  show chunk: "istp_tx_chunk tp = min (isotp_cf_room ?cfg) (length p - ?off)"
    unfolding istp_tx_chunk_def Let_def left room by (simp add: min_def)
  let ?n = "istp_tx_chunk tp" and ?src = "drop (unat (it_sent ?tx)) (sd_data s)"
  have x: "take ?n ?src = take (isotp_cf_room ?cfg) (drop ?off p)"
  proof -
    have "drop ?off p = take (length p - ?off) ?src"
      using s(2) at(2) by (metis drop_take)
    then show ?thesis unfolding chunk by (simp add: min.commute)
  qed
  have len: "length (take (isotp_cf_room ?cfg) (drop ?off p)) = ?n" "?n \<le> length ?src" "0 < ?n"
  proof -
    show "length (take (isotp_cf_room ?cfg) (drop ?off p)) = ?n" by (simp add: chunk min.commute)
    show "?n \<le> length ?src" using at(2,3) s(1) unfolding chunk length_drop by linarith
    show "0 < ?n" using at(3) isotp_ff_room_bounds(2)[OF cfg] by (simp add: chunk)
  qed
  let ?pci = "[0x20 OR (it_sn ?tx AND 0x0F)]"
  have pci: "(0x20 :: u8) OR (it_sn ?tx AND 0x0F) = 0x20 OR of_nat (k mod 16)"
  proof -
    have "(of_nat (k mod 16) :: u8) AND 0x0F = of_nat (k mod 16)"
    proof (rule word_unat_eq_iff[THEN iffD2])
      have "unat ((of_nat (k mod 16) :: u8) AND mask 4) = take_bit 4 (take_bit 8 (k mod 16))"
        by (simp only: flip: take_bit_eq_mask) (simp add: unsigned_take_bit_eq unsigned_of_nat)
      also have "\<dots> = take_bit 8 (k mod 16)" by (simp add: take_bit_nat_eq_self)
      finally show "unat ((of_nat (k mod 16) :: u8) AND 0x0F) = unat (of_nat (k mod 16) :: u8)"
        by (simp add: unsigned_of_nat mask_eq_exp_minus_1)
    qed
    then show ?thesis unfolding at(4) by simp
  qed
  have "\<exists>ok w'. istp_emit_frame ?cfg w (it_tx_id ?tx) (Some ?src) ?n ?pci = Some (ok, w') \<and> ref_inv w' G \<and> bus_keeps G w w' \<and>
      sent_to (ic_can_tx_queue ?cfg) (Frame (isotp_frame ?cfg (it_tx_id ?tx) (?pci @ take (isotp_cf_room ?cfg) (drop ?off p)))) ok w w'"
  proof (rule istp_emit_frame_spec[OF bus inv, where c = ?n])
    show "?n = min ?n (unat (ic_max_frame_len ?cfg) - length ?pci)" by (simp add: chunk isotp_cf_room_def)
    show "\<exists>sa. Some ?src = Some sa \<and> ?n \<le> length sa \<and> take ?n sa = take (isotp_cf_room ?cfg) (drop ?off p)"
      using x len(2) by blast
  qed (use len in simp_all)
  moreover have "isotp_frames ?cfg (it_tx_id ?tx) p k 1 =
      [Some (Frame (isotp_frame ?cfg (it_tx_id ?tx) (?pci @ take (isotp_cf_room ?cfg) (drop ?off p))))]"
    using busy(2) pci by (simp add: isotp_frames_def isotp_unit_def)
  moreover have "istp_tx_next tp w s = istp_emit_frame ?cfg w (it_tx_id ?tx) (Some ?src) ?n ?pci"
    using at(2,3) s(1) by (simp add: istp_tx_next_def Let_def istp_emit_cf_def)
  ultimately show "\<exists>ok w'. istp_tx_next tp w s = Some (ok, w') \<and> ref_inv w' G \<and> bus_keeps G w w' \<and>
    bus_adds ?cfg [] (if ok then isotp_frames ?cfg (it_tx_id ?tx) p k 1 else []) w w'"
    using sent_to_can by metis
qed


section \<open>Steps between frames\<close>

lemma tx_busy_update:
  assumes "tx_busy tp w K p k" "it_sdu tx = it_sdu (iso_tx tp)" "it_total tx = it_total (iso_tx tp)" "it_sent tx = it_sent (iso_tx tp)"
    "it_sn tx = it_sn (iso_tx tp)"
  shows "tx_busy (tp\<lparr> iso_tx := tx \<rparr>) (w\<lparr> rw_env := e \<rparr>) K p k" "tx_busy (tp\<lparr> iso_tx := tx \<rparr>) w K p k"
proof -
  have h: "htx tx = htx (iso_tx tp)" using assms(2) by (simp add: htx_def fun_eq_iff)
  have b: "isotp_bus_ok (iso_cfg tp) (w\<lparr> rw_env := e \<rparr>)" if "isotp_bus_ok (iso_cfg tp) w"
    by (rule isotp_bus_keeps[OF that]) simp
  show "tx_busy (tp\<lparr> iso_tx := tx \<rparr>) (w\<lparr> rw_env := e \<rparr>) K p k" "tx_busy (tp\<lparr> iso_tx := tx \<rparr>) w K p k"
    using assms b by (simp_all add: tx_busy_def h tx_at_def)
qed

lemma tx_moves_update:
  "it_tx_id tx = it_tx_id (iso_tx tp) \<Longrightarrow> it_sdu tx = it_sdu (iso_tx tp) \<Longrightarrow> tx_moves K tp w [] [] (tp\<lparr> iso_tx := tx \<rparr>) (w\<lparr> rw_env := e \<rparr>)"
  "it_tx_id tx = it_tx_id (iso_tx tp) \<Longrightarrow> it_sdu tx = it_sdu (iso_tx tp) \<Longrightarrow> tx_moves K tp w [] [] (tp\<lparr> iso_tx := tx \<rparr>) w"
  by (simp_all add: tx_moves_def bus_keeps_def bus_adds_same)

lemma istp_tx_hold_spec:
  assumes "tx_busy tp w K p k"
  shows "\<exists>tp' w'. istp_tx_hold tp w = Some (tp', w') \<and> tx_busy tp' w' K p k \<and> it_state (iso_tx tp') = NX_ISOTP_TX_WAIT_LINK \<and>
    tx_moves K tp w [] [] tp' w'"
proof (cases "it_state (iso_tx tp) = NX_ISOTP_TX_WAIT_LINK")
  case True
  then show ?thesis using assms by (simp add: istp_tx_hold_def)
next
  case False
  obtain t e where now: "istp_now (iso_cfg tp) w = Some (t, w\<lparr> rw_env := e \<rparr>)" using istp_now_spec[OF tx_busy_cfg[OF assms]] by blast
  let ?tx = "(iso_tx tp)\<lparr> it_state := NX_ISOTP_TX_WAIT_LINK, it_deadline := t + ic_n_as_us (iso_cfg tp) \<rparr>"
  have "istp_tx_hold tp w = Some (tp\<lparr> iso_tx := ?tx \<rparr>, w\<lparr> rw_env := e \<rparr>)" using False now by (simp add: istp_tx_hold_def)
  moreover have "tx_busy (tp\<lparr> iso_tx := ?tx \<rparr>) (w\<lparr> rw_env := e \<rparr>) K p k" by (rule tx_busy_update[OF assms]) simp_all
  moreover have "tx_moves K tp w [] [] (tp\<lparr> iso_tx := ?tx \<rparr>) (w\<lparr> rw_env := e \<rparr>)" by (rule tx_moves_update) simp_all
  ultimately show ?thesis by (intro exI[of _ "tp\<lparr> iso_tx := ?tx \<rparr>"] exI[of _ "w\<lparr> rw_env := e \<rparr>"]) simp
qed

lemma tx_keeps_others: "bus_keeps (\<lambda>a. K a + htx tx a) w w' \<Longrightarrow> bus_keeps K w w'"
  by (erule bus_keeps_mono) simp

lemma istp_tx_first_spec:
  assumes busy: "tx_busy tp w K p 0" and s: "length p \<le> length (sd_data s)" "take (length p) (sd_data s) = p"
  shows "\<exists>ok tp' w' us. istp_tx_first tp w s = Some (ok, tp', w') \<and>
    tx_moves K tp w us (if ok then isotp_frames (iso_cfg tp) (it_tx_id (iso_tx tp)) p 0 1 else []) tp' w' \<and>
    (if \<not> ok then tp' = tp \<and> us = [] \<and> tx_busy tp' w' K p 0
     else if isotp_single (iso_cfg tp) (length p) then tx_idle tp' w' K \<and> confirms (iso_cfg tp) NX_TP_N_OK us
     else us = [] \<and> it_state (iso_tx tp') = NX_ISOTP_TX_WAIT_FC \<and> tx_busy tp' w' K p 1)"
proof -
  let ?cfg = "iso_cfg tp" and ?tx = "iso_tx tp" and ?G = "\<lambda>a. K a + htx (iso_tx tp) a"
  have bus: "isotp_bus_ok ?cfg w" and inv: "ref_inv w ?G" and at: "unat (it_total ?tx) = length p" "it_sent ?tx = 0" "it_sn ?tx = 1"
    using busy by (simp_all add: tx_busy_def tx_at_def)
  have cfg: "isotp_cfg_ok ?cfg" by (rule tx_busy_cfg[OF busy])
  show ?thesis
  proof (cases "isotp_single ?cfg (length p)")
    case single: True
    obtain ok w1 where w1: "istp_emit_sf ?cfg w (it_tx_id ?tx) (sd_data s) (length p) = Some (ok, w1)" "ref_inv w1 ?G" "bus_keeps ?G w w1"
      "bus_adds ?cfg [] (if ok then isotp_frames ?cfg (it_tx_id ?tx) p 0 1 else []) w w1"
      using istp_emit_sf_spec[OF bus inv single s] by blast
    have busy1: "tx_busy tp w1 K p 0" by (rule tx_busy_keeps[OF busy w1(2,3)])
    have mv: "tx_moves K tp w [] (if ok then isotp_frames ?cfg (it_tx_id ?tx) p 0 1 else []) tp w1"
      using w1(4) tx_keeps_others[OF w1(3)] by (simp add: tx_moves_def)
    show ?thesis
    proof (cases ok)
      case False
      then show ?thesis
        using w1(1) mv busy1 single at(1)
        by (intro exI[of _ False] exI[of _ tp] exI[of _ w1] exI[of _ "[]"]) (simp add: istp_tx_first_def Let_def isotp_single_def)
    next
      case True
      obtain tp' w' us where ab: "istp_tx_abort tp w1 NX_TP_N_OK = Some (tp', w')" "tx_idle tp' w' K" "tx_moves K tp w1 us [] tp' w'"
        "confirms ?cfg NX_TP_N_OK us"
        using istp_tx_abort_spec[of tp w1 K NX_TP_N_OK] busy1 unfolding tx_busy_def by blast
      from tx_moves_trans[OF cfg mv ab(3)] True have "tx_moves K tp w us (isotp_frames ?cfg (it_tx_id ?tx) p 0 1) tp' w'" by simp
      then show ?thesis
        using w1(1) True ab(1,2,4) single at(1)
        by (intro exI[of _ True] exI[of _ tp'] exI[of _ w'] exI[of _ us]) (simp add: istp_tx_first_def Let_def isotp_single_def)
    qed
  next
    case multi: False
    obtain n w1 where w1: "istp_emit_ff ?cfg w (it_tx_id ?tx) (sd_data s) (it_total ?tx) = Some (n, w1)" "ref_inv w1 ?G" "bus_keeps ?G w w1"
      "n = 0 \<or> n = isotp_offset ?cfg (length p) 1" "bus_adds ?cfg [] (if n \<noteq> 0 then isotp_frames ?cfg (it_tx_id ?tx) p 0 1 else []) w w1"
      using istp_emit_ff_spec[OF bus inv multi s at(1)] by blast
    have busy1: "tx_busy tp w1 K p 0" by (rule tx_busy_keeps[OF busy w1(2,3)])
    have mv: "tx_moves K tp w [] (if n \<noteq> 0 then isotp_frames ?cfg (it_tx_id ?tx) p 0 1 else []) tp w1"
      using w1(5) tx_keeps_others[OF w1(3)] by (simp add: tx_moves_def)
    show ?thesis
    proof (cases "n = 0")
      case True
      then show ?thesis
        using w1(1) mv busy1 multi at(1)
        by (intro exI[of _ False] exI[of _ tp] exI[of _ w1] exI[of _ "[]"]) (simp add: istp_tx_first_def Let_def isotp_single_def)
    next
      case False
      then have n: "n = isotp_offset ?cfg (length p) 1" using w1(4) by simp
      have n32: "length p < 2 ^ 32" using unsigned_less[of "it_total ?tx", where ?'a = nat] at(1) by simp
      have less: "n < length p" using isotp_not_single_ff[OF cfg multi n32] by (simp add: n isotp_offset_def)
      have un: "unat (of_nat n :: u32) = n" using less n32 by (simp add: unsigned_of_nat take_bit_nat_eq_self)
      obtain t e where now: "istp_now ?cfg w1 = Some (t, w1\<lparr> rw_env := e \<rparr>)" using istp_now_spec[OF cfg] by blast
      let ?tx' = "?tx\<lparr> it_sent := of_nat n, it_last_us := t, it_deadline := t + ic_n_bs_us ?cfg, it_state := NX_ISOTP_TX_WAIT_FC \<rparr>"
      have h: "htx ?tx' = htx ?tx" by (simp add: htx_def fun_eq_iff)
      have run: "istp_tx_first tp w s = Some (True, tp\<lparr> iso_tx := ?tx' \<rparr>, w1\<lparr> rw_env := e \<rparr>)"
        using w1(1) multi at(1) False now by (simp add: istp_tx_first_def Let_def isotp_single_def istp_tx_ff_done_def)
      have "isotp_bus_ok ?cfg (w1\<lparr> rw_env := e \<rparr>)" by (rule isotp_bus_keeps[of ?cfg w1]) (use busy1 in \<open>simp_all add: tx_busy_def\<close>)
      then have "tx_busy (tp\<lparr> iso_tx := ?tx' \<rparr>) (w1\<lparr> rw_env := e \<rparr>) K p 1"
      proof -
        have "tx_at ?cfg ?tx w1 p 0" "ref_inv w1 ?G" using busy1 by (simp_all add: tx_busy_def)
        moreover have "(of_nat (1 mod 16) :: u8) = it_sn ?tx" "unat (of_nat n :: u32) = isotp_offset ?cfg (length p) 1"
          "isotp_offset ?cfg (length p) 1 < length p" using at(3) un n less by simp_all
        ultimately show ?thesis using multi \<open>isotp_bus_ok ?cfg (w1\<lparr> rw_env := e \<rparr>)\<close> by (simp add: tx_busy_def h tx_at_def)
      qed
      moreover have "tx_moves K tp w [] (isotp_frames ?cfg (it_tx_id ?tx) p 0 1) (tp\<lparr> iso_tx := ?tx' \<rparr>) (w1\<lparr> rw_env := e \<rparr>)"
      proof -
        have "tx_moves K tp w1 [] [] (tp\<lparr> iso_tx := ?tx' \<rparr>) (w1\<lparr> rw_env := e \<rparr>)" by (rule tx_moves_update) simp_all
        from tx_moves_trans[OF cfg mv this] False show ?thesis by simp
      qed
      ultimately show ?thesis
        using run multi
        by (intro exI[of _ True] exI[of _ "tp\<lparr> iso_tx := ?tx' \<rparr>"] exI[of _ "w1\<lparr> rw_env := e \<rparr>"] exI[of _ "[]"]) simp
    qed
  qed
qed


section \<open>Consecutive frames\<close>

text \<open>All of a message of \<open>n\<close> bytes is in the frames before \<open>k\<close>.\<close>

definition isotp_done :: "'e nx_can_isotp_cfg \<Rightarrow> nat \<Rightarrow> nat \<Rightarrow> bool" where
  "isotp_done cfg n k \<longleftrightarrow> 0 < k \<and> (isotp_single cfg n \<or> n \<le> isotp_offset cfg n k)"

definition tx_out :: "'e nx_can_isotp \<Rightarrow> 'e tp_world \<Rightarrow> (nat \<Rightarrow> nat) \<Rightarrow> bytes \<Rightarrow> nat \<Rightarrow> bool" where
  "tx_out tp w K p k \<longleftrightarrow> isotp_bus_ok (iso_cfg tp) w \<and> ref_inv w (\<lambda>a. K a + htx (iso_tx tp) a) \<and> it_sdu (iso_tx tp) \<noteq> 0 \<and>
     it_sent (iso_tx tp) = it_total (iso_tx tp) \<and> isotp_done (iso_cfg tp) (length p) k"

definition tx_live :: "'e nx_can_isotp \<Rightarrow> 'e tp_world \<Rightarrow> (nat \<Rightarrow> nat) \<Rightarrow> bytes \<Rightarrow> nat \<Rightarrow> bool" where
  "tx_live tp w K p k \<longleftrightarrow> 0 < k \<and> (tx_busy tp w K p k \<or> tx_out tp w K p k)"

lemma tx_busy_less:
  assumes "tx_busy tp w K p k" "0 < k"
  shows "it_sent (iso_tx tp) < it_total (iso_tx tp)" "0 < it_sent (iso_tx tp)"
proof -
  have "2 \<le> isotp_offset (iso_cfg tp) (length p) k"
    using isotp_ff_room_bounds(1)[OF tx_busy_cfg[OF assms(1)], of "length p"] assms(2) by (auto simp: isotp_offset_def)
  then show "it_sent (iso_tx tp) < it_total (iso_tx tp)" "0 < it_sent (iso_tx tp)"
    using assms by (simp_all add: tx_busy_def tx_at_def word_less_nat_alt)
qed

lemma sn_next: "(of_nat (k mod 16) + 1 :: u8) AND 0x0F = of_nat (Suc k mod 16)"
proof -
  have "(of_nat (k mod 16) + 1 :: u8) AND 0x0F = of_nat (Suc (k mod 16)) AND mask 4"
    by (simp add: mask_eq_exp_minus_1 add.commute)
  also have "\<dots> = of_nat (take_bit 4 (Suc (k mod 16)))" by (simp only: flip: take_bit_eq_mask) (simp only: of_nat_take_bit)
  also have "take_bit 4 (Suc (k mod 16)) = Suc k mod 16" by (simp add: take_bit_eq_mod mod_Suc_eq)
  finally show ?thesis .
qed

lemma isotp_offset_next: "0 < k \<Longrightarrow> isotp_offset cfg n (Suc k) = isotp_offset cfg n k + isotp_cf_room cfg"
  by (cases k) (simp_all add: isotp_offset_def)

lemma tx_advance:
  assumes busy: "tx_busy tp w K p k" "0 < k"
    and tx: "it_sdu tx1 = it_sdu (iso_tx tp)" "it_total tx1 = it_total (iso_tx tp)"
      "it_sent tx1 = it_sent (iso_tx tp) + of_nat (min (isotp_cf_room (iso_cfg tp)) (length p - isotp_offset (iso_cfg tp) (length p) k))"
      "it_sn tx1 = (it_sn (iso_tx tp) + 1) AND 0x0F"
  shows "tx_live (tp\<lparr> iso_tx := tx1 \<rparr>) w K p (Suc k)"
proof -
  let ?cfg = "iso_cfg tp" and ?tx = "iso_tx tp" and ?off = "isotp_offset (iso_cfg tp) (length p)"
  have h: "htx tx1 = htx ?tx" using tx(1) by (simp add: htx_def fun_eq_iff)
  have at: "unat (it_total ?tx) = length p" "unat (it_sent ?tx) = ?off k" "?off k < length p" "it_sn ?tx = of_nat (k mod 16)"
    "\<not> isotp_single ?cfg (length p)" "it_sdu ?tx \<noteq> 0"
    using busy by (simp_all add: tx_busy_def tx_at_def)
  let ?c = "min (isotp_cf_room ?cfg) (length p - ?off k)"
  have n32: "length p < 2 ^ 32" using unsigned_less[of "it_total ?tx", where ?'a = nat] at(1) by simp
  have "it_sent ?tx = of_nat (?off k)" by (simp flip: at(2))
  then have "it_sent tx1 = of_nat (?off k + ?c)" by (simp add: tx(3))
  moreover have "?off k + ?c < 2 ^ 32" using at(3) n32 by simp
  then have "unat (of_nat (?off k + ?c) :: u32) = ?off k + ?c" by (simp only: unsigned_of_nat) (simp add: take_bit_nat_eq_self)
  ultimately have un: "unat (it_sent tx1) = ?off k + ?c" by simp
  show ?thesis
  proof (cases "length p \<le> ?off (Suc k)")
    case True
    then have "?off k + ?c = length p" using isotp_offset_next[OF busy(2), of ?cfg "length p"] at(3) by simp
    then have "it_sent tx1 = it_total tx1" using un at(1) tx(2) by (simp add: word_unat_eq_iff)
    then show ?thesis
      using busy True tx(1) at(6) by (simp add: tx_live_def tx_out_def tx_busy_def h isotp_done_def)
  next
    case False
    then have "?off k + ?c = ?off (Suc k)" using isotp_offset_next[OF busy(2), of ?cfg "length p"] at(3) by simp
    have sn: "it_sn tx1 = of_nat (Suc k mod 16)" unfolding tx(4) at(4) by (rule sn_next)
    have "unat (it_sent tx1) = ?off (Suc k)" using un \<open>?off k + ?c = _\<close> by simp
    moreover have "?off (Suc k) < length p" using False by simp
    ultimately show ?thesis
      using busy tx(1,2) at(5) sn by (simp add: tx_live_def tx_busy_def tx_at_def h)
  qed
qed

lemma tx_live_env: "tx_live tp w K p k \<Longrightarrow> tx_live tp (w\<lparr> rw_env := e \<rparr>) K p k"
proof -
  have "isotp_bus_ok (iso_cfg tp) w \<Longrightarrow> isotp_bus_ok (iso_cfg tp) (w\<lparr> rw_env := e \<rparr>)" by (erule isotp_bus_keeps) simp
  then show "tx_live tp w K p k \<Longrightarrow> tx_live tp (w\<lparr> rw_env := e \<rparr>) K p k"
    by (auto simp: tx_live_def tx_busy_def tx_out_def tx_at_def)
qed

text \<open>The counters a frame that went out changes.\<close>

definition tx_counted :: "'e nx_can_isotp \<Rightarrow> nx_can_isotp_tx \<Rightarrow> bool" where
  "tx_counted tp tx1 \<longleftrightarrow> it_sdu tx1 = it_sdu (iso_tx tp) \<and> it_total tx1 = it_total (iso_tx tp) \<and> it_tx_id tx1 = it_tx_id (iso_tx tp) \<and>
     it_sent tx1 = it_sent (iso_tx tp) + of_nat (istp_tx_chunk tp) \<and> it_sn tx1 = (it_sn (iso_tx tp) + 1) AND 0x0F"

lemma istp_tx_next_step:
  assumes busy: "tx_busy tp w K p k" "0 < k" and s: "length p \<le> length (sd_data s)" "take (length p) (sd_data s) = p"
  obtains (refused) w' where "istp_tx_next tp w s = Some (False, w')" "tx_busy tp w' K p k" "tx_moves K tp w [] [] tp w'"
    | (taken) w' where "istp_tx_next tp w s = Some (True, w')"
      "\<And>tx1 e. tx_counted tp tx1 \<Longrightarrow> tx_live (tp\<lparr> iso_tx := tx1 \<rparr>) (w'\<lparr> rw_env := e \<rparr>) K p (Suc k) \<and>
        tx_moves K tp w [] (isotp_frames (iso_cfg tp) (it_tx_id (iso_tx tp)) p k 1) (tp\<lparr> iso_tx := tx1 \<rparr>) (w'\<lparr> rw_env := e \<rparr>)"
proof -
  let ?cfg = "iso_cfg tp" and ?G = "\<lambda>a. K a + htx (iso_tx tp) a"
  obtain ok w' where w': "istp_tx_next tp w s = Some (ok, w')" "ref_inv w' ?G" "bus_keeps ?G w w'"
    "bus_adds ?cfg [] (if ok then isotp_frames ?cfg (it_tx_id (iso_tx tp)) p k 1 else []) w w'"
    using istp_tx_next_spec(1)[OF busy s] by blast
  have busy1: "tx_busy tp w' K p k" by (rule tx_busy_keeps[OF busy(1) w'(2,3)])
  have K: "bus_keeps K w w'" by (rule tx_keeps_others[OF w'(3)])
  show ?thesis
  proof (cases ok)
    case False
    then show ?thesis using refused[of w'] w'(1,4) busy1 K by (simp add: tx_moves_def)
  next
    case True
    show ?thesis
    proof (rule taken[of w'])
      show "istp_tx_next tp w s = Some (True, w')" using w'(1) True by simp
    next
      fix tx1 e
      assume c: "tx_counted tp tx1"
      have mv: "tx_moves K tp w [] (isotp_frames ?cfg (it_tx_id (iso_tx tp)) p k 1) (tp\<lparr> iso_tx := tx1 \<rparr>) (w'\<lparr> rw_env := e \<rparr>)"
        using True w'(4) K c by (simp add: tx_moves_def tx_counted_def bus_keeps_def bus_adds_def queued_def)
      have "tx_live (tp\<lparr> iso_tx := tx1 \<rparr>) w' K p (Suc k)"
        by (rule tx_advance[OF busy1 busy(2)]) (use c istp_tx_next_spec(2)[OF busy s] in \<open>simp_all add: tx_counted_def\<close>)
      then show "tx_live (tp\<lparr> iso_tx := tx1 \<rparr>) (w'\<lparr> rw_env := e \<rparr>) K p (Suc k) \<and>
        tx_moves K tp w [] (isotp_frames ?cfg (it_tx_id (iso_tx tp)) p k 1) (tp\<lparr> iso_tx := tx1 \<rparr>) (w'\<lparr> rw_env := e \<rparr>)"
        using mv by (simp add: tx_live_env)
    qed
  qed
qed

lemma tx_live_cfg: "tx_live tp w K p k \<Longrightarrow> isotp_cfg_ok (iso_cfg tp)"
  by (auto simp: tx_live_def tx_out_def isotp_bus_ok_def dest: tx_busy_cfg)

lemma tx_live_update:
  assumes "tx_live tp w K p k" "it_sdu tx = it_sdu (iso_tx tp)" "it_total tx = it_total (iso_tx tp)" "it_sent tx = it_sent (iso_tx tp)"
    "it_sn tx = it_sn (iso_tx tp)"
  shows "tx_live (tp\<lparr> iso_tx := tx \<rparr>) w K p k"
proof -
  have h: "htx tx = htx (iso_tx tp)" using assms(2) by (simp add: htx_def fun_eq_iff)
  then show ?thesis using assms by (auto simp: tx_live_def tx_out_def tx_busy_update(2))
qed

lemma tx_live_cases:
  assumes "tx_live tp w K p k"
  obtains (busy) "tx_busy tp w K p k" "0 < k" "it_sent (iso_tx tp) < it_total (iso_tx tp)" | (out) "tx_out tp w K p k" "\<not> it_sent (iso_tx tp) < it_total (iso_tx tp)"
proof (cases "tx_busy tp w K p k")
  case True
  moreover have "0 < k" using assms by (simp add: tx_live_def)
  ultimately show ?thesis using busy tx_busy_less(1) by blast
next
  case False
  with assms show ?thesis using out by (simp add: tx_live_def tx_out_def)
qed

lemma isotp_frames_add: "isotp_frames cfg id0 p k m @ isotp_frames cfg id0 p (k + m) n = isotp_frames cfg id0 p k (m + n)"
proof -
  have "[k..<k + (m + n)] = [k..<k + m] @ [k + m..<k + m + n]"
    using upt_add_eq_append[of k "k + m" n] by (simp add: add.assoc)
  then show ?thesis by (simp add: isotp_frames_def)
qed

text \<open>What a run of the sending loop did: frames \<open>k\<close> to \<open>k + n\<close> are out.\<close>

definition tx_ran :: "'e nx_can_isotp \<Rightarrow> 'e tp_world \<Rightarrow> (nat \<Rightarrow> nat) \<Rightarrow> bytes \<Rightarrow> nat \<Rightarrow> bool \<Rightarrow> nat \<Rightarrow> 'e nx_can_isotp \<Rightarrow> 'e tp_world \<Rightarrow> bool" where
  "tx_ran tp w K p k ret n tp' w' \<longleftrightarrow>
     tx_moves K tp w [] (isotp_frames (iso_cfg tp) (it_tx_id (iso_tx tp)) p k n) tp' w' \<and>
     (if ret then tx_busy tp' w' K p (k + n) \<and> it_state (iso_tx tp') = NX_ISOTP_TX_WAIT_LINK
      else tx_live tp' w' K p (k + n) \<and> it_state (iso_tx tp') \<in> {NX_ISOTP_TX_SEND, NX_ISOTP_TX_WAIT_FC})"

lemma istp_tx_loop_spec:
  assumes "tx_live tp w K p k" "it_state (iso_tx tp) = NX_ISOTP_TX_SEND" "length p \<le> length (sd_data s)" "take (length p) (sd_data s) = p"
  shows "\<exists>ret n tp' w'. istp_tx_loop budget tp w s now emitted = Some (ret, emitted + n, tp', w') \<and> n \<le> budget \<and> tx_ran tp w K p k ret n tp' w'"
  using assms(1,2)
proof (induction budget arbitrary: tp w k now emitted)
  case 0
  then show ?case by (intro exI[of _ False] exI[of _ 0] exI[of _ tp] exI[of _ w]) (simp add: tx_ran_def)
next
  case (Suc budget)
  let ?tx = "iso_tx tp" and ?cfg = "iso_cfg tp"
  have cfg: "isotp_cfg_ok ?cfg" by (rule tx_live_cfg[OF Suc.prems(1)])
  have stop: ?case if "istp_tx_loop (Suc budget) tp w s now emitted = Some (False, emitted, tp, w)"
    using that Suc.prems by (intro exI[of _ False] exI[of _ 0] exI[of _ tp] exI[of _ w]) (simp add: tx_ran_def)
  show ?case
  proof (cases "\<not> it_sent ?tx < it_total ?tx \<or> (sint (it_stmin_us ?tx) > 0 \<and> tick_diff now (it_last_us ?tx) < sint (it_stmin_us ?tx))")
    case True
    then show ?thesis by (intro stop) auto
  next
    case go: False
    from Suc.prems(1) have busy: "tx_busy tp w K p k" "0 < k" using go by (cases rule: tx_live_cases; simp)+
    have run: "istp_tx_loop (Suc budget) tp w s now emitted = do {
        (ok, w1) \<leftarrow> istp_tx_next tp w s;
        if \<not> ok then do { (tp1, w2) \<leftarrow> istp_tx_hold tp w1; Some (True, emitted, tp1, w2) }
        else do {
          let tx1 = ?tx\<lparr> it_sent := it_sent ?tx + of_nat (istp_tx_chunk tp), it_sn := (it_sn ?tx + 1) AND 0x0F, it_last_us := now \<rparr>;
          (now1, w2) \<leftarrow> istp_now ?cfg w1;
          if it_bs tx1 > 0 then
            let tx2 = tx1\<lparr> it_bs := it_bs tx1 - 1 \<rparr>
            in if it_bs tx2 = 0 \<and> it_sent tx2 < it_total tx2
               then Some (False, emitted + 1, tp\<lparr> iso_tx := tx2\<lparr> it_state := NX_ISOTP_TX_WAIT_FC, it_deadline := now1 + ic_n_bs_us ?cfg \<rparr> \<rparr>, w2)
               else istp_tx_loop budget (tp\<lparr> iso_tx := tx2 \<rparr>) w2 s now1 (emitted + 1)
          else istp_tx_loop budget (tp\<lparr> iso_tx := tx1 \<rparr>) w2 s now1 (emitted + 1) } }"
      using go by auto
    from busy assms(3,4) show ?thesis
    proof (cases rule: istp_tx_next_step)
      case (refused w')
      obtain tp1 w2 where h: "istp_tx_hold tp w' = Some (tp1, w2)" "tx_busy tp1 w2 K p k" "it_state (iso_tx tp1) = NX_ISOTP_TX_WAIT_LINK"
        "tx_moves K tp w' [] [] tp1 w2"
        using istp_tx_hold_spec[OF refused(2)] by blast
      have "tx_moves K tp w [] [] tp1 w2" using tx_moves_trans[OF cfg refused(3) h(4)] by simp
      then show ?thesis
        using h(1-3) refused(1) unfolding run by (intro exI[of _ True] exI[of _ 0] exI[of _ tp1] exI[of _ w2]) (simp add: tx_ran_def)
    next
      case (taken w')
      obtain now1 e where now: "istp_now ?cfg w' = Some (now1, w'\<lparr> rw_env := e \<rparr>)" using istp_now_spec[OF cfg] by blast
      let ?w2 = "w'\<lparr> rw_env := e \<rparr>"
      define tx1 where "tx1 = ?tx\<lparr> it_sent := it_sent ?tx + of_nat (istp_tx_chunk tp), it_sn := (it_sn ?tx + 1) AND 0x0F, it_last_us := now \<rparr>"
      have step: "tx_live (tp\<lparr> iso_tx := tx1\<lparr> it_bs := b, it_state := st, it_deadline := dl \<rparr> \<rparr>) ?w2 K p (Suc k) \<and>
          tx_moves K tp w [] (isotp_frames ?cfg (it_tx_id ?tx) p k 1) (tp\<lparr> iso_tx := tx1\<lparr> it_bs := b, it_state := st, it_deadline := dl \<rparr> \<rparr>) ?w2" for b st dl
        by (rule taken(2)) (simp add: tx_counted_def tx1_def)
      have st1: "it_state tx1 = NX_ISOTP_TX_SEND" using Suc.prems(2) by (simp add: tx1_def)
      have again: ?thesis if "istp_tx_loop (Suc budget) tp w s now emitted = istp_tx_loop budget (tp\<lparr> iso_tx := tx1\<lparr> it_bs := b \<rparr> \<rparr>) ?w2 s now1 (emitted + 1)" for b
      proof -
        let ?tp1 = "tp\<lparr> iso_tx := tx1\<lparr> it_bs := b \<rparr> \<rparr>"
        have eq: "tx1\<lparr> it_bs := b, it_state := it_state tx1, it_deadline := it_deadline tx1 \<rparr> = tx1\<lparr> it_bs := b \<rparr>" by simp
        have live: "tx_live ?tp1 ?w2 K p (Suc k)" and mv: "tx_moves K tp w [] (isotp_frames ?cfg (it_tx_id ?tx) p k 1) ?tp1 ?w2"
          using step[where b = b and st = "it_state tx1" and dl = "it_deadline tx1"] unfolding eq by blast+
        have st: "it_state (iso_tx ?tp1) = NX_ISOTP_TX_SEND" using st1 by simp
        obtain ret n tp' w'' where r: "istp_tx_loop budget ?tp1 ?w2 s now1 (emitted + 1) = Some (ret, emitted + 1 + n, tp', w'')" "n \<le> budget"
          "tx_ran ?tp1 ?w2 K p (Suc k) ret n tp' w''"
          using Suc.IH[OF live st] by blast
        have id1: "it_tx_id (iso_tx ?tp1) = it_tx_id ?tx" "iso_cfg ?tp1 = ?cfg" by (simp_all add: tx1_def)
        have "tx_moves K ?tp1 ?w2 [] (isotp_frames ?cfg (it_tx_id ?tx) p (k + 1) n) tp' w''" using r(3) id1 by (simp add: tx_ran_def)
        from tx_moves_trans[OF cfg mv this] have "tx_moves K tp w [] (isotp_frames ?cfg (it_tx_id ?tx) p k (1 + n)) tp' w''"
          by (simp only: isotp_frames_add append_Nil)
        then have "tx_ran tp w K p k ret (Suc n) tp' w''" using r(3) by (cases ret) (simp_all add: tx_ran_def)
        then show ?thesis using that r(1,2) by (intro exI[of _ ret] exI[of _ "Suc n"] exI[of _ tp'] exI[of _ w'']) simp
      qed
      have run1: "istp_tx_loop (Suc budget) tp w s now emitted =
          (if it_bs tx1 > 0 then
             if it_bs tx1 - 1 = 0 \<and> it_sent tx1 < it_total tx1
             then Some (False, emitted + 1, tp\<lparr> iso_tx := tx1\<lparr> it_bs := it_bs tx1 - 1, it_state := NX_ISOTP_TX_WAIT_FC, it_deadline := now1 + ic_n_bs_us ?cfg \<rparr> \<rparr>, ?w2)
             else istp_tx_loop budget (tp\<lparr> iso_tx := tx1\<lparr> it_bs := it_bs tx1 - 1 \<rparr> \<rparr>) ?w2 s now1 (emitted + 1)
           else istp_tx_loop budget (tp\<lparr> iso_tx := tx1\<lparr> it_bs := it_bs tx1 \<rparr> \<rparr>) ?w2 s now1 (emitted + 1))"
        unfolding run using taken(1) now by (simp add: Let_def tx1_def)
      consider "it_bs tx1 > 0 \<and> it_bs tx1 - 1 = 0 \<and> it_sent tx1 < it_total tx1" | "it_bs tx1 > 0 \<and> \<not> (it_bs tx1 - 1 = 0 \<and> it_sent tx1 < it_total tx1)"
        | "\<not> it_bs tx1 > 0" by blast
      then show ?thesis
      proof cases
        case 1
        then show ?thesis
          using step[where b = "it_bs tx1 - 1" and st = NX_ISOTP_TX_WAIT_FC and dl = "now1 + ic_n_bs_us ?cfg"] unfolding run1
          by (intro exI[of _ False] exI[of _ 1] exI[of _ "tp\<lparr> iso_tx := tx1\<lparr> it_bs := it_bs tx1 - 1, it_state := NX_ISOTP_TX_WAIT_FC, it_deadline := now1 + ic_n_bs_us ?cfg \<rparr> \<rparr>"]
                exI[of _ ?w2]) (simp add: tx_ran_def)
      next
        case 2
        then show ?thesis unfolding run1 using again[of "it_bs tx1 - 1"] run1 by presburger
      next
        case 3
        then show ?thesis unfolding run1 using again[of "it_bs tx1"] run1 by presburger
      qed
    qed
  qed
qed

section \<open>The sending operations\<close>

text \<open>
  Frames \<open>k\<close> to \<open>k + n\<close> of \<open>p\<close> went out, and either the message is still loaded or all of it is out and
  it was confirmed.
\<close>

definition tx_sent :: "'e nx_can_isotp \<Rightarrow> 'e tp_world \<Rightarrow> (nat \<Rightarrow> nat) \<Rightarrow> bytes \<Rightarrow> nat \<Rightarrow> nat \<Rightarrow> tp_data option list \<Rightarrow>
    'e nx_can_isotp \<Rightarrow> 'e tp_world \<Rightarrow> bool" where
  "tx_sent tp w K p k n us tp' w' \<longleftrightarrow>
     tx_moves K tp w us (isotp_frames (iso_cfg tp) (it_tx_id (iso_tx tp)) p k n) tp' w' \<and>
     (tx_busy tp' w' K p (k + n) \<and> us = [] \<and> it_state (iso_tx tp') \<noteq> NX_ISOTP_TX_IDLE \<and>
        (k + n = 0 \<longrightarrow> it_state (iso_tx tp') = NX_ISOTP_TX_WAIT_LINK) \<or>
      tx_idle tp' w' K \<and> isotp_done (iso_cfg tp) (length p) (k + n) \<and> confirms (iso_cfg tp) NX_TP_N_OK us)"

lemma tx_sent_after:
  assumes "isotp_cfg_ok (iso_cfg tp)" "tx_moves K tp w [] (isotp_frames (iso_cfg tp) (it_tx_id (iso_tx tp)) p k m) tp1 w1"
    "tx_sent tp1 w1 K p (k + m) n us tp' w'"
  shows "tx_sent tp w K p k (m + n) us tp' w'"
proof -
  have same: "iso_cfg tp1 = iso_cfg tp" "it_tx_id (iso_tx tp1) = it_tx_id (iso_tx tp)" using assms(2) by (simp_all add: tx_moves_def)
  have "tx_moves K tp1 w1 us (isotp_frames (iso_cfg tp) (it_tx_id (iso_tx tp)) p (k + m) n) tp' w'" using assms(3) same by (simp add: tx_sent_def)
  from tx_moves_trans[OF assms(1,2) this]
  have "tx_moves K tp w us (isotp_frames (iso_cfg tp) (it_tx_id (iso_tx tp)) p k (m + n)) tp' w'" by (simp add: isotp_frames_add)
  then show ?thesis using assms(3) same by (simp add: tx_sent_def add.assoc)
qed

lemma tx_out_abort:
  assumes "tx_out tp w K p k"
  shows "\<exists>tp' w' us. istp_tx_abort tp w NX_TP_N_OK = Some (tp', w') \<and> tx_sent tp w K p k 0 us tp' w'"
proof -
  have o: "isotp_bus_ok (iso_cfg tp) w" "ref_inv w (\<lambda>a. K a + htx (iso_tx tp) a)" "isotp_done (iso_cfg tp) (length p) k"
    using assms by (simp_all add: tx_out_def)
  from istp_tx_abort_spec[OF o(1,2), of NX_TP_N_OK] o(3) show ?thesis by (fastforce simp: tx_sent_def)
qed

lemma istp_tx_send_spec:
  assumes live: "tx_busy tp w K p k" "0 < k" "it_state (iso_tx tp) = NX_ISOTP_TX_SEND"
  shows "\<exists>n tp' w' us. istp_tx_send tp w max_frames emitted = Some (emitted + n, tp', w') \<and> tx_sent tp w K p k n us tp' w' \<and>
    n \<le> max_frames - emitted"
proof -
  let ?cfg = "iso_cfg tp"
  have cfg: "isotp_cfg_ok ?cfg" by (rule tx_busy_cfg[OF live(1)])
  obtain s where s: "msg_sdu w (it_sdu (iso_tx tp)) = Some s" "length p \<le> length (sd_data s)" "take (length p) (sd_data s) = p"
    by (rule tx_busy_load[OF live(1)])
  obtain now e where now: "istp_now ?cfg w = Some (now, w\<lparr> rw_env := e \<rparr>)" using istp_now_spec[OF cfg] by blast
  have "tx_live tp w K p k" using live by (simp add: tx_live_def)
  from istp_tx_loop_spec[OF tx_live_env[OF this] live(3) s(2,3)]
  obtain ret n tp1 w2 where r: "istp_tx_loop (max_frames - emitted) tp (w\<lparr> rw_env := e \<rparr>) s now emitted = Some (ret, emitted + n, tp1, w2)"
    "tx_ran tp (w\<lparr> rw_env := e \<rparr>) K p k ret n tp1 w2" "n \<le> max_frames - emitted" by blast
  have run: "istp_tx_send tp w max_frames emitted =
      (if ret then Some (emitted + n, tp1, w2)
       else if it_sent (iso_tx tp1) \<ge> it_total (iso_tx tp1)
       then do { (tp2, w3) \<leftarrow> istp_tx_abort tp1 w2 NX_TP_N_OK; Some (emitted + n, tp2, w3) }
       else Some (emitted + n, tp1, w2))"
    using live(3) s(1) now r(1) by (simp add: istp_tx_send_def)
  have env: "tx_moves K tp w [] [] tp (w\<lparr> rw_env := e \<rparr>)"
    by (simp add: tx_moves_def bus_keeps_def bus_adds_same queued_def)
  have mv: "tx_moves K tp w [] (isotp_frames ?cfg (it_tx_id (iso_tx tp)) p k n) tp1 w2"
    using tx_moves_trans[OF cfg env, of "[]" _ tp1 w2] r(2) by (simp add: tx_ran_def)
  have after: ?thesis if "istp_tx_send tp w max_frames emitted = Some (emitted + n, tp', w')" "tx_sent tp1 w2 K p (k + n) 0 us tp' w'" for tp' w' us
    using tx_sent_after[OF cfg mv that(2)] that(1) r(3) by (intro exI[of _ n] exI[of _ tp'] exI[of _ w'] exI[of _ us]) simp
  show ?thesis
  proof (cases ret)
    case True
    then show ?thesis using r(2) run by (intro after[of tp1 w2 "[]"]) (simp_all add: tx_ran_def tx_sent_def)
  next
    case False
    then have "tx_live tp1 w2 K p (k + n)" "it_state (iso_tx tp1) \<noteq> NX_ISOTP_TX_IDLE" using r(2) by (auto simp: tx_ran_def)
    then show ?thesis
    proof (cases rule: tx_live_cases)
      case busy
      then have "\<not> it_total (iso_tx tp1) \<le> it_sent (iso_tx tp1)" by simp
      then show ?thesis
        using busy run False live(2) \<open>it_state (iso_tx tp1) \<noteq> _\<close> by (intro after[of tp1 w2 "[]"]) (simp_all add: tx_sent_def)
    next
      case out
      obtain tp' w' us where "istp_tx_abort tp1 w2 NX_TP_N_OK = Some (tp', w')" "tx_sent tp1 w2 K p (k + n) 0 us tp' w'"
        using tx_out_abort[OF out(1)] by blast
      then show ?thesis using run False out by (intro after[of tp' w' us]) (simp_all add: not_less)
    qed
  qed
qed

lemma tx_first_sent:
  assumes "tx_busy tp w K p 0" "it_state (iso_tx tp) = NX_ISOTP_TX_WAIT_LINK" "length p \<le> length (sd_data s)" "take (length p) (sd_data s) = p"
  shows "\<exists>ok tp' w' us. istp_tx_first tp w s = Some (ok, tp', w') \<and> tx_sent tp w K p 0 (if ok then 1 else 0) us tp' w'"
proof -
  obtain ok tp' w' us where r: "istp_tx_first tp w s = Some (ok, tp', w')"
    "tx_moves K tp w us (if ok then isotp_frames (iso_cfg tp) (it_tx_id (iso_tx tp)) p 0 1 else []) tp' w'"
    "if \<not> ok then tp' = tp \<and> us = [] \<and> tx_busy tp' w' K p 0
     else if isotp_single (iso_cfg tp) (length p) then tx_idle tp' w' K \<and> confirms (iso_cfg tp) NX_TP_N_OK us
     else us = [] \<and> it_state (iso_tx tp') = NX_ISOTP_TX_WAIT_FC \<and> tx_busy tp' w' K p 1"
    using istp_tx_first_spec[OF assms(1,3,4)] by blast
  have "tx_sent tp w K p 0 (if ok then 1 else 0) us tp' w'"
    using r(2,3) assms(2)
    by (cases ok; cases "isotp_single (iso_cfg tp) (length p)") (simp_all add: tx_sent_def isotp_done_def)
  with r(1) show ?thesis by blast
qed

lemma istp_tx_resume_spec:
  assumes busy: "tx_busy tp w K p k" "it_state (iso_tx tp) = NX_ISOTP_TX_WAIT_LINK"
  shows "\<exists>stop n tp' w' us. istp_tx_resume tp w = Some (stop, n, tp', w') \<and> tx_sent tp w K p k n us tp' w' \<and> n \<le> 1 \<and>
    (\<not> stop \<longrightarrow> us = [] \<and> tx_busy tp' w' K p (k + n) \<and> 0 < k + n \<and> it_state (iso_tx tp') = NX_ISOTP_TX_SEND)"
proof -
  let ?cfg = "iso_cfg tp" and ?tx = "iso_tx tp"
  have cfg: "isotp_cfg_ok ?cfg" by (rule tx_busy_cfg[OF busy(1)])
  obtain s where s: "msg_sdu w (it_sdu ?tx) = Some s" "length p \<le> length (sd_data s)" "take (length p) (sd_data s) = p"
    by (rule tx_busy_load[OF busy(1)])
  show ?thesis
  proof (cases "k = 0")
    case True
    then have "it_sent ?tx = 0" using busy(1) by (simp add: tx_busy_def tx_at_def)
    moreover obtain ok tp' w' us where "istp_tx_first tp w s = Some (ok, tp', w')" "tx_sent tp w K p 0 (if ok then 1 else 0) us tp' w'"
      using tx_first_sent[OF _ busy(2) s(2,3)] busy(1) True by blast
    ultimately show ?thesis
      using True s(1) by (intro exI[of _ True] exI[of _ "if ok then 1 else 0"] exI[of _ tp'] exI[of _ w'] exI[of _ us]) (simp add: istp_tx_resume_def)
  next
    case False
    then have k: "0 < k" by simp
    have sent: "it_sent ?tx \<noteq> 0" using tx_busy_less(2)[OF busy(1) k] by auto
    from busy(1) k s(2,3) show ?thesis
    proof (cases rule: istp_tx_next_step)
      case (refused w')
      then show ?thesis
        using busy(2) s(1) sent k
        by (intro exI[of _ True] exI[of _ 0] exI[of _ tp] exI[of _ w'] exI[of _ "[]"]) (simp add: istp_tx_resume_def tx_sent_def)
    next
      case (taken w')
      obtain t e where now: "istp_now ?cfg w' = Some (t, w'\<lparr> rw_env := e \<rparr>)" using istp_now_spec[OF cfg] by blast
      let ?w2 = "w'\<lparr> rw_env := e \<rparr>"
      define tx1 where "tx1 = ?tx\<lparr> it_sent := it_sent ?tx + of_nat (istp_tx_chunk tp), it_sn := (it_sn ?tx + 1) AND 0x0F, it_last_us := t,
        it_state := NX_ISOTP_TX_SEND \<rparr>"
      have step: "tx_live (tp\<lparr> iso_tx := tx1\<lparr> it_bs := b, it_state := st, it_deadline := dl \<rparr> \<rparr>) ?w2 K p (k + 1) \<and>
          tx_moves K tp w [] (isotp_frames ?cfg (it_tx_id ?tx) p k 1) (tp\<lparr> iso_tx := tx1\<lparr> it_bs := b, it_state := st, it_deadline := dl \<rparr> \<rparr>) ?w2" for b st dl
        using taken(2)[of "tx1\<lparr> it_bs := b, it_state := st, it_deadline := dl \<rparr>" e] by (simp add: tx_counted_def tx1_def)
      define out where "out = tp\<lparr> iso_tx := tx1 \<rparr>"
      have live: "tx_live out ?w2 K p (k + 1)" and mv: "tx_moves K tp w [] (isotp_frames ?cfg (it_tx_id ?tx) p k 1) out ?w2"
        using step[where b = "it_bs tx1" and st = "it_state tx1" and dl = "it_deadline tx1"] by (simp_all add: out_def)
      have run: "istp_tx_resume tp w =
          (if it_sent tx1 \<ge> it_total tx1
           then do { (tp2, w3) \<leftarrow> istp_tx_abort out ?w2 NX_TP_N_OK; Some (True, 1, tp2, w3) }
           else if it_bs tx1 > 0 \<and> it_bs tx1 - 1 = 0
           then Some (True, 1, tp\<lparr> iso_tx := tx1\<lparr> it_bs := it_bs tx1 - 1, it_state := NX_ISOTP_TX_WAIT_FC, it_deadline := it_last_us tx1 + ic_n_bs_us ?cfg \<rparr> \<rparr>, ?w2)
           else Some (False, 1, tp\<lparr> iso_tx := tx1\<lparr> it_bs := (if it_bs tx1 > 0 then it_bs tx1 - 1 else it_bs tx1),
                    it_state := it_state tx1, it_deadline := it_deadline tx1 \<rparr> \<rparr>, ?w2))"
        using s(1) sent taken(1) now by (simp add: istp_tx_resume_def Let_def tx1_def out_def)
      from live show ?thesis
      proof (cases rule: tx_live_cases)
        case out: out
        obtain tp' w3 us where a: "istp_tx_abort out ?w2 NX_TP_N_OK = Some (tp', w3)" "tx_sent out ?w2 K p (k + 1) 0 us tp' w3"
          using tx_out_abort[OF out(1)] by blast
        have "it_sent tx1 \<ge> it_total tx1" using out(2) by (simp add: out_def not_less)
        then show ?thesis
          using a(1) tx_sent_after[OF cfg mv a(2)] unfolding run
          by (intro exI[of _ True] exI[of _ 1] exI[of _ tp'] exI[of _ w3] exI[of _ us]) simp
      next
        case b: busy
        then have less: "\<not> it_sent tx1 \<ge> it_total tx1" by (simp add: out_def)
        have going: "tx_sent tp w K p k 1 [] (tp\<lparr> iso_tx := tx1\<lparr> it_bs := b, it_state := st, it_deadline := dl \<rparr> \<rparr>) ?w2 \<and>
            tx_busy (tp\<lparr> iso_tx := tx1\<lparr> it_bs := b, it_state := st, it_deadline := dl \<rparr> \<rparr>) ?w2 K p (k + 1)" if "st \<noteq> NX_ISOTP_TX_IDLE" for b st dl
        proof -
          have "\<not> tx_out (tp\<lparr> iso_tx := tx1\<lparr> it_bs := b, it_state := st, it_deadline := dl \<rparr> \<rparr>) ?w2 K p (k + 1)"
            using less by (auto simp: tx_out_def)
          then show ?thesis using step[where b = b and st = st and dl = dl] that k by (simp add: tx_sent_def tx_live_def)
        qed
        have finish: ?thesis if "istp_tx_resume tp w = Some (stop, 1, tp\<lparr> iso_tx := tx1\<lparr> it_bs := b, it_state := st, it_deadline := dl \<rparr> \<rparr>, ?w2)"
            "st \<noteq> NX_ISOTP_TX_IDLE" "\<not> stop \<Longrightarrow> st = NX_ISOTP_TX_SEND" for stop b st dl
          using that going[OF that(2), where b = b and dl = dl]
          by (intro exI[of _ stop] exI[of _ 1] exI[of _ "tp\<lparr> iso_tx := tx1\<lparr> it_bs := b, it_state := st, it_deadline := dl \<rparr> \<rparr>"]
                exI[of _ ?w2] exI[of _ "[]"]) auto
        show ?thesis
        proof (cases "it_bs tx1 > 0 \<and> it_bs tx1 - 1 = 0")
          case True
          then show ?thesis using less by (intro finish[OF run[unfolded if_not_P[OF less] if_P[OF True]]]) simp_all
        next
          case no: False
          show ?thesis by (rule finish[OF run[unfolded if_not_P[OF less] if_not_P[OF no]]]) (simp_all add: tx1_def)
        qed
      qed
    qed
  qed
qed

lemma istp_request_tx_busy:
  assumes busy: "tx_busy tp w K p k" "it_state (iso_tx tp) \<noteq> NX_ISOTP_TX_IDLE" "k = 0 \<Longrightarrow> it_state (iso_tx tp) = NX_ISOTP_TX_WAIT_LINK"
  shows "\<exists>n m tp' w' us. istp_request_tx tp w max_frames = Some (m, tp', w') \<and> tx_sent tp w K p k n us tp' w' \<and> n \<le> max 1 max_frames"
proof (cases "it_state (iso_tx tp) = NX_ISOTP_TX_WAIT_LINK")
  case True
  have cfg: "isotp_cfg_ok (iso_cfg tp)" by (rule tx_busy_cfg[OF busy(1)])
  obtain stop n tp1 w1 us where r: "istp_tx_resume tp w = Some (stop, n, tp1, w1)" "tx_sent tp w K p k n us tp1 w1" "n \<le> 1"
    "\<not> stop \<Longrightarrow> us = [] \<and> tx_busy tp1 w1 K p (k + n) \<and> 0 < k + n \<and> it_state (iso_tx tp1) = NX_ISOTP_TX_SEND"
    using istp_tx_resume_spec[OF busy(1) True] by blast
  show ?thesis
  proof (cases stop)
    case True
    with r(1-3) \<open>it_state (iso_tx tp) = _\<close> show ?thesis
      by (intro exI[of _ n] exI[of _ n] exI[of _ tp1] exI[of _ w1] exI[of _ us]) (simp add: istp_request_tx_def)
  next
    case False
    with r(4) have b: "us = []" "tx_busy tp1 w1 K p (k + n)" "0 < k + n" "it_state (iso_tx tp1) = NX_ISOTP_TX_SEND" by auto
    obtain m tp' w' us' where snd: "istp_tx_send tp1 w1 max_frames n = Some (n + m, tp', w')" "tx_sent tp1 w1 K p (k + n) m us' tp' w'" "m \<le> max_frames - n"
      using istp_tx_send_spec[OF b(2-4)] by blast
    have mv: "tx_moves K tp w [] (isotp_frames (iso_cfg tp) (it_tx_id (iso_tx tp)) p k n) tp1 w1" using r(2) b(1) by (simp add: tx_sent_def)
    show ?thesis
      using r(1,3) False snd(1,3) \<open>it_state (iso_tx tp) = _\<close> tx_sent_after[OF cfg mv snd(2)]
      by (intro exI[of _ "n + m"] exI[of _ "n + m"] exI[of _ tp'] exI[of _ w'] exI[of _ us']) (simp add: istp_request_tx_def)
  qed
next
  case no: False
  then have k: "0 < k" using busy(3) by blast
  have run: "istp_request_tx tp w max_frames = istp_tx_send tp w max_frames 0" using no busy(2) by (simp add: istp_request_tx_def)
  show ?thesis
  proof (cases "it_state (iso_tx tp) = NX_ISOTP_TX_SEND")
    case True
    then obtain n tp' w' us where "istp_tx_send tp w max_frames 0 = Some (0 + n, tp', w')" "tx_sent tp w K p k n us tp' w'" "n \<le> max_frames - 0"
      using istp_tx_send_spec[OF busy(1) k True] by blast
    then show ?thesis unfolding run by (intro exI[of _ n] exI[of _ n] exI[of _ tp'] exI[of _ w'] exI[of _ us]) simp
  next
    case False
    then show ?thesis
      unfolding run using busy k no by (intro exI[of _ 0] exI[of _ 0] exI[of _ tp] exI[of _ w] exI[of _ "[]"]) (simp add: istp_tx_send_def tx_sent_def)
  qed
qed

text \<open>A message the client may queue: its length field does not exceed the bytes there are.\<close>

definition good_sdu :: "nx_tp_sdu \<Rightarrow> bool" where
  "good_sdu s \<longleftrightarrow> unat (sd_len s) \<le> length (sd_data s)"

definition sdu_bytes :: "nx_tp_sdu \<Rightarrow> bytes" where
  "sdu_bytes s = take (unat (sd_len s)) (sd_data s)"

definition sdu_id :: "'e nx_can_isotp_cfg \<Rightarrow> nx_tp_sdu \<Rightarrow> u32" where
  "sdu_id cfg s = (if sd_ta_type s = NX_TP_TA_FUNCTIONAL then ic_func_tx_id cfg else ic_phys_tx_id cfg)"

lemma length_sdu_bytes: "good_sdu s \<Longrightarrow> length (sdu_bytes s) = unat (sd_len s)"
  by (simp add: good_sdu_def sdu_bytes_def)

text \<open>
  The idle instance: nothing when the queue is empty, otherwise the head of the queue is taken over and its first
  frame offered. What changes for a message that is also held elsewhere is that it is in the queue once less.
\<close>

definition tx_loads :: "'e nx_can_isotp \<Rightarrow> 'e tp_world \<Rightarrow> nx_tp_sdu \<Rightarrow> (nat \<Rightarrow> nat) \<Rightarrow> 'e nx_can_isotp \<Rightarrow> 'e tp_world \<Rightarrow> bool" where
  "tx_loads tp w s K tp1 w1 \<longleftrightarrow>
     tx_busy tp1 w1 K (sdu_bytes s) 0 \<and> iso_cfg tp1 = iso_cfg tp \<and> iso_rx tp1 = iso_rx tp \<and> bus_shape w1 = bus_shape w \<and>
     it_tx_id (iso_tx tp1) = sdu_id (iso_cfg tp) s \<and> payload w1 = payload w \<and> msg_room w1 = msg_room w \<and>
     0 < queued w (it_sdu (iso_tx tp1)) \<and> (\<forall>b. queued w b = 0 \<longrightarrow> queued w1 b = 0) \<and>
     chan w1 = (chan w)(ic_sdu_rx_queue (iso_cfg tp) := tl (chan w (ic_sdu_rx_queue (iso_cfg tp))))"

lemma istp_tx_start_empty:
  assumes idle: "tx_idle tp w K" and q: "chan w (ic_sdu_rx_queue (iso_cfg tp)) = []"
  shows "\<exists>w'. istp_tx_start tp w = Some (0, tp, w') \<and> tx_idle tp w' K \<and> tx_moves K tp w [] [] tp w'"
proof -
  have bus: "isotp_bus_ok (iso_cfg tp) w" and ref: "ref_inv w K" using idle by (simp_all add: tx_idle_def)
  obtain cap where cap: "chan_cap w (ic_sdu_rx_queue (iso_cfg tp)) = Some cap" using bus by (auto simp: isotp_bus_ok_def)
  obtain w' where w': "ref_msg_consume w (ic_sdu_rx_queue (iso_cfg tp)) = Some (None, w')" "ref_inv w' K" "chan w' = chan w"
      "bus_shape w' = bus_shape w" "payload w' = payload w" "msg_room w' = msg_room w" "queued w' = queued w"
    using bus_consume[OF ref cap] q by blast
  then show ?thesis
    using idle isotp_bus_keeps[OF bus w'(4)] by (intro exI[of _ w']) (simp add: istp_tx_start_def tx_idle_def tx_moves_def bus_keeps_def bus_adds_same)
qed

lemma istp_tx_start_loads:
  assumes idle: "tx_idle tp w K" and q: "chan w (ic_sdu_rx_queue (iso_cfg tp)) = Some (Sdu s) # rest" and s: "good_sdu s"
  shows "\<exists>tp1 w1 ok n tp' w' us. istp_tx_start tp w = Some (n, tp', w') \<and> tx_loads tp w s K tp1 w1 \<and>
    tx_sent tp1 w1 K (sdu_bytes s) 0 (if ok then 1 else 0) us tp' w'"
proof -
  let ?cfg = "iso_cfg tp" and ?q = "ic_sdu_rx_queue (iso_cfg tp)" and ?p = "sdu_bytes s"
  have bus: "isotp_bus_ok ?cfg w" and ref: "ref_inv w K" using idle by (simp_all add: tx_idle_def)
  have cfg: "isotp_cfg_ok ?cfg" using bus by (simp add: isotp_bus_ok_def)
  obtain cap where cap: "chan_cap w ?q = Some cap" using bus by (auto simp: isotp_bus_ok_def)
  obtain a w1 where w1: "ref_msg_consume w ?q = Some (Some a, w1)" "ref_inv w1 (K(a := K a + 1))" "chan w1 = (chan w)(?q := tl (chan w ?q))"
      "payload w a = hd (chan w ?q)" "bus_shape w1 = bus_shape w" "payload w1 = payload w" "msg_room w1 = msg_room w"
      "queued w = (queued w1)(a := queued w1 a + 1)"
    using bus_consume[OF ref cap, THEN conjunct2, rule_format] q by auto
  define tp1 where "tp1 = tp\<lparr> iso_tx := (iso_tx tp)\<lparr> it_sdu := a, it_total := sd_len s, it_sent := 0, it_sn := 1, it_wft := 0,
               it_ta_type := sd_ta_type s, it_tx_id := sdu_id ?cfg s \<rparr> \<rparr>"
  have a: "0 < a" using ref_inv_live[OF w1(2), of a] by auto
  have h: "(\<lambda>b. K b + htx (iso_tx tp1) b) = K(a := K a + 1)" using a by (auto simp: htx_def tp1_def)
  have pl: "payload w1 a = Some (Sdu s)" using w1(4,6) q by simp
  have busy: "tx_busy tp1 w1 K ?p 0"
    using w1(2) pl a s isotp_bus_keeps[OF bus w1(5)] unfolding tx_busy_def tx_at_def h
    by (simp add: tp1_def length_sdu_bytes good_sdu_def) (simp add: sdu_bytes_def)
  have loads: "tx_loads tp w s K tp1 w1"
    using busy w1(3,5-8) by (auto simp: tx_loads_def tp1_def)
  have ld: "msg_sdu w1 a = Some s"
    using msg_load_payload[OF w1(2), of a] pl by (simp add: msg_sdu_def)
  have st: "it_state (iso_tx tp1) = NX_ISOTP_TX_IDLE" using idle by (simp add: tx_idle_def tp1_def)
  have bytes: "length ?p \<le> length (sd_data s)" "take (length ?p) (sd_data s) = ?p"
    using s by (simp_all add: sdu_bytes_def good_sdu_def min_def)
  obtain ok tp2 w2 us where f: "istp_tx_first tp1 w1 s = Some (ok, tp2, w2)"
    "tx_moves K tp1 w1 us (if ok then isotp_frames (iso_cfg tp1) (it_tx_id (iso_tx tp1)) ?p 0 1 else []) tp2 w2"
    "if \<not> ok then tp2 = tp1 \<and> us = [] \<and> tx_busy tp2 w2 K ?p 0
     else if isotp_single (iso_cfg tp1) (length ?p) then tx_idle tp2 w2 K \<and> confirms (iso_cfg tp1) NX_TP_N_OK us
     else us = [] \<and> it_state (iso_tx tp2) = NX_ISOTP_TX_WAIT_FC \<and> tx_busy tp2 w2 K ?p 1"
    using istp_tx_first_spec[OF busy bytes] by blast
  have run: "istp_tx_start tp w = (if \<not> ok then do { (tp3, w3) \<leftarrow> istp_tx_hold tp2 w2; Some (0, tp3, w3) } else Some (1, tp2, w2))"
    using w1(1) ld f(1) by (simp add: istp_tx_start_def tp1_def sdu_id_def)
  show ?thesis
  proof (cases ok)
    case False
    with f(3) have b: "tx_busy tp2 w2 K ?p 0" "us = []" by auto
    obtain tp3 w3 where hd: "istp_tx_hold tp2 w2 = Some (tp3, w3)" "tx_busy tp3 w3 K ?p 0" "it_state (iso_tx tp3) = NX_ISOTP_TX_WAIT_LINK"
      "tx_moves K tp2 w2 [] [] tp3 w3" using istp_tx_hold_spec[OF b(1)] by blast
    have "tx_moves K tp1 w1 [] [] tp3 w3"
      using tx_moves_trans[OF tx_busy_cfg[OF busy], of K w1 us _ tp2 w2] f(2) hd(4) False b(2) by fastforce
    then have "tx_sent tp1 w1 K ?p 0 0 [] tp3 w3" using hd(2,3) by (simp add: tx_sent_def)
    with run False hd(1) loads show ?thesis
      by (intro exI[of _ tp1] exI[of _ w1] exI[of _ False] exI[of _ 0] exI[of _ tp3] exI[of _ w3] exI[of _ "[]"]) simp
  next
    case True
    have "tx_sent tp1 w1 K ?p 0 1 us tp2 w2"
      using f(2,3) True by (cases "isotp_single (iso_cfg tp1) (length ?p)") (simp_all add: tx_sent_def isotp_done_def)
    with run True loads show ?thesis
      by (intro exI[of _ tp1] exI[of _ w1] exI[of _ True] exI[of _ 1] exI[of _ tp2] exI[of _ w2] exI[of _ us]) simp
  qed
qed

section \<open>Flow control\<close>

text \<open>
  A flow control frame moves no data: the message stays loaded where it was, or the transmission is ended with an
  error, which is reported where reports are wanted.
\<close>

lemma istp_tx_apply_fc_spec:
  assumes inv: "tx_inv tp w K" and f: "good_frame f"
  shows "\<exists>tp' w' us. istp_tx_apply_fc tp w f = Some (tp', w') \<and> tx_inv tp' w' K \<and> tx_moves K tp w us [] tp' w' \<and>
    ((\<forall>p k. tx_busy tp w K p k \<longrightarrow> tx_busy tp' w' K p k) \<and> us = [] \<and> (it_state (iso_tx tp') = NX_ISOTP_TX_IDLE \<longleftrightarrow> it_state (iso_tx tp) = NX_ISOTP_TX_IDLE) \<or>
     tx_idle tp' w' K \<and> (\<exists>r. r \<noteq> NX_TP_N_OK \<and> confirms (iso_cfg tp) r us))"
proof (cases "it_state (iso_tx tp) \<noteq> NX_ISOTP_TX_WAIT_FC \<or> frame_dlen f < 3")
  case True
  then have "istp_tx_apply_fc tp w f = Some (tp, w)" by (auto simp: istp_tx_apply_fc_def)
  then show ?thesis using inv by (intro exI[of _ tp] exI[of _ w] exI[of _ "[]"]) simp
next
  case False
  let ?tx = "iso_tx tp" and ?cfg = "iso_cfg tp"
  have bus: "isotp_bus_ok ?cfg w" and ref: "ref_inv w (\<lambda>a. K a + htx ?tx a)" using inv by (simp_all add: tx_inv_def)
  have cfg: "isotp_cfg_ok ?cfg" using bus by (simp add: isotp_bus_ok_def)
  have st: "it_state ?tx = NX_ISOTP_TX_WAIT_FC" using False by simp
  obtain p k where b0: "tx_busy tp w K p k" "k \<noteq> 0" using inv st by (auto simp: tx_inv_def tx_ok_def tx_busy_def)
  have d: "mem_get 0 (cm_data f) = Some (cm_data f ! 0)" "mem_get 1 (cm_data f) = Some (cm_data f ! 1)" "mem_get 2 (cm_data f) = Some (cm_data f ! 2)"
    using f False by (auto simp: good_frame_def mem_get_def)
  have ended: ?thesis if "istp_tx_apply_fc tp w f = istp_tx_abort (tp\<lparr> iso_tx := tx1 \<rparr>) w r" "r \<noteq> NX_TP_N_OK" "it_sdu tx1 = it_sdu ?tx" "it_tx_id tx1 = it_tx_id ?tx" for tx1 r
  proof -
    have "htx tx1 = htx ?tx" using that(3) by (simp add: htx_def fun_eq_iff)
    then obtain tp' w' us where a: "istp_tx_abort (tp\<lparr> iso_tx := tx1 \<rparr>) w r = Some (tp', w')" "tx_idle tp' w' K"
      "tx_moves K (tp\<lparr> iso_tx := tx1 \<rparr>) w us [] tp' w'" "confirms ?cfg r us"
      using istp_tx_abort_spec[of "tp\<lparr> iso_tx := tx1 \<rparr>" w K r] bus ref by auto
    have "tx_moves K tp w us [] tp' w'" using a(3) that(3,4) by (simp add: tx_moves_def)
    with a(1,2,4) that(1,2) tx_idle_inv[OF a(2)] show ?thesis by (intro exI[of _ tp'] exI[of _ w'] exI[of _ us]) auto
  qed
  have stays: ?thesis if "istp_tx_apply_fc tp w f = Some (tp\<lparr> iso_tx := tx1 \<rparr>, w\<lparr> rw_env := e \<rparr>)" "it_sdu tx1 = it_sdu ?tx"
      "it_total tx1 = it_total ?tx" "it_sent tx1 = it_sent ?tx" "it_sn tx1 = it_sn ?tx" "it_tx_id tx1 = it_tx_id ?tx" "it_state tx1 \<noteq> NX_ISOTP_TX_IDLE" for tx1 e
  proof -
    have b: "\<forall>p k. tx_busy tp w K p k \<longrightarrow> tx_busy (tp\<lparr> iso_tx := tx1 \<rparr>) (w\<lparr> rw_env := e \<rparr>) K p k"
      using tx_busy_update(1)[OF _ that(2-5)] by blast
    have "tx_inv (tp\<lparr> iso_tx := tx1 \<rparr>) (w\<lparr> rw_env := e \<rparr>) K"
      using b[rule_format, OF b0(1)] b0(2) that(7) by (auto simp: tx_busy_def tx_inv_def tx_ok_def)
    with b that(1,7) st tx_moves_update(1)[OF that(6,2), of K w e] show ?thesis
      by (intro exI[of _ "tp\<lparr> iso_tx := tx1 \<rparr>"] exI[of _ "w\<lparr> rw_env := e \<rparr>"] exI[of _ "[]"]) simp
  qed
  have same: "tp\<lparr> iso_tx := ?tx \<rparr> = tp" "w\<lparr> rw_env := rw_env w \<rparr> = w" by simp_all
  obtain t e where now: "istp_now ?cfg w = Some (t, w\<lparr> rw_env := e \<rparr>)" using istp_now_spec[OF cfg] by blast
  let ?fs = "cm_data f ! 0 AND 0x0F" and ?tx1 = "?tx\<lparr> it_wft := it_wft ?tx + 1 \<rparr>"
  consider "?fs = NX_CAN_ISOTP_FS_OVFLW" | "?fs = NX_CAN_ISOTP_FS_WAIT" "it_wft ?tx1 > ic_n_wft_max ?cfg" |
    "?fs = NX_CAN_ISOTP_FS_WAIT" "\<not> it_wft ?tx1 > ic_n_wft_max ?cfg" | "?fs = NX_CAN_ISOTP_FS_CTS" |
    "?fs \<noteq> NX_CAN_ISOTP_FS_OVFLW" "?fs \<noteq> NX_CAN_ISOTP_FS_WAIT" "?fs \<noteq> NX_CAN_ISOTP_FS_CTS" by blast
  then show ?thesis
  proof cases
    case 1
    then show ?thesis using False d by (intro ended[of ?tx NX_TP_N_BUFFER_OVFLW]) (simp_all add: istp_tx_apply_fc_def Let_def)
  next
    case 2
    then show ?thesis using False d by (intro ended[of ?tx1 NX_TP_N_WFT_OVRN]) (simp_all add: istp_tx_apply_fc_def Let_def)
  next
    case 3
    then show ?thesis
      using False d now by (intro stays[of "?tx1\<lparr> it_deadline := t + ic_n_bs_us ?cfg \<rparr>" e]) (simp_all add: istp_tx_apply_fc_def Let_def)
  next
    case 4
    then show ?thesis
      using False d by (intro stays[of "?tx\<lparr> it_wft := 0, it_bs := cm_data f ! 1, it_stmin_us := istp_stmin_to_us (cm_data f ! 2),
        it_state := NX_ISOTP_TX_SEND \<rparr>" "rw_env w"]) (simp_all add: istp_tx_apply_fc_def Let_def)
  next
    case 5
    then show ?thesis using False d by (intro ended[of ?tx NX_TP_N_INVALID_FS]) (simp_all add: istp_tx_apply_fc_def Let_def)
  qed
qed

end
