(* ===== verification/Nx_Isotp.thy ===== *)
theory Nx_Isotp
  imports Nx_Isotp_Tx
begin

text \<open>
  One call of \<open>nx_can_isotp_process\<close> in \<open>src/middleware/nx_can_isotp.c\<close>, whole: the invariant of an instance among
  the rest of the program, and what a call takes from its queues and puts on them.
\<close>

section \<open>The invariant of an instance\<close>

definition isotp_inv :: "'e nx_can_isotp \<Rightarrow> 'e tp_world \<Rightarrow> (nat \<Rightarrow> nat) \<Rightarrow> bool" where
  "isotp_inv tp w H \<longleftrightarrow>
     isotp_bus_ok (iso_cfg tp) w \<and> ref_inv w (\<lambda>a. H a + hrx (iso_rx tp) a + htx (iso_tx tp) a) \<and>
     rx_ok (iso_rx tp) w (\<lambda>a. H a + htx (iso_tx tp) a) \<and> tx_ok (iso_cfg tp) (iso_tx tp) w"

lemma isotp_inv_rx: "isotp_inv tp w H \<longleftrightarrow> rx_inv tp w (\<lambda>a. H a + htx (iso_tx tp) a) \<and> tx_ok (iso_cfg tp) (iso_tx tp) w"
proof -
  have "(\<lambda>a. H a + htx (iso_tx tp) a + hrx (iso_rx tp) a) = (\<lambda>a. H a + hrx (iso_rx tp) a + htx (iso_tx tp) a)" by (simp add: fun_eq_iff)
  then show ?thesis by (auto simp: isotp_inv_def rx_inv_def)
qed

lemma isotp_inv_tx:
  "isotp_inv tp w H \<longleftrightarrow> tx_inv tp w (\<lambda>a. H a + hrx (iso_rx tp) a) \<and> rx_ok (iso_rx tp) w (\<lambda>a. H a + htx (iso_tx tp) a)"
  by (auto simp: isotp_inv_def tx_inv_def)

text \<open>Each side only looks at its own message.\<close>

lemma tx_at_cong: "payload w' (it_sdu tx) = payload w (it_sdu tx) \<Longrightarrow> tx_at cfg tx w' p k = tx_at cfg tx w p k"
  by (simp add: tx_at_def)

lemma tx_ok_cong:
  assumes "it_sdu tx \<noteq> 0 \<Longrightarrow> payload w' (it_sdu tx) = payload w (it_sdu tx)"
  shows "tx_ok cfg tx w' = tx_ok cfg tx w"
proof (cases "it_sdu tx = 0")
  case True
  then show ?thesis by (simp add: tx_ok_def tx_at_def)
next
  case False
  then show ?thesis using tx_at_cong[OF assms] by (simp add: tx_ok_def)
qed

lemma rx_ok_cong:
  assumes "payload w' (ir_acc rx) = payload w (ir_acc rx)" "queued w' (ir_acc rx) = queued w (ir_acc rx)"
    "msg_room w' (ir_acc rx) = msg_room w (ir_acc rx)" "K' (ir_acc rx) = K (ir_acc rx)"
  shows "rx_ok rx w' K' = rx_ok rx w K"
  using assms by (simp add: rx_ok_def)

text \<open>What is waiting in the queues the instance reads.\<close>

definition isotp_inputs_ok :: "'e nx_can_isotp_cfg \<Rightarrow> 'e tp_world \<Rightarrow> bool" where
  "isotp_inputs_ok cfg w \<longleftrightarrow>
     (\<forall>x\<in>set (chan w (ic_can_rx_queue cfg)). \<exists>f. x = Some (Frame f) \<and> good_frame f) \<and>
     (\<forall>x\<in>set (chan w (ic_sdu_rx_queue cfg)). \<exists>s. x = Some (Sdu s) \<and> good_sdu s)"

text \<open>\<open>c\<close> frames and \<open>s\<close> messages were taken, \<open>us\<close> was handed up and \<open>fs\<close> put on the link.\<close>

definition bus_flow :: "'e nx_can_isotp_cfg \<Rightarrow> nat \<Rightarrow> nat \<Rightarrow> tp_data option list \<Rightarrow> tp_data option list \<Rightarrow> 'e tp_world \<Rightarrow> 'e tp_world \<Rightarrow> bool" where
  "bus_flow cfg c s us fs w w' \<longleftrightarrow>
     chan w' = (chan w)(ic_sdu_tx_queue cfg := chan w (ic_sdu_tx_queue cfg) @ us,
                        ic_can_tx_queue cfg := chan w (ic_can_tx_queue cfg) @ fs,
                        ic_can_rx_queue cfg := drop c (chan w (ic_can_rx_queue cfg)),
                        ic_sdu_rx_queue cfg := drop s (chan w (ic_sdu_rx_queue cfg)))"

lemma isotp_queues_distinct:
  assumes "isotp_cfg_ok cfg"
  shows "ic_sdu_rx_queue cfg \<noteq> ic_sdu_tx_queue cfg \<and> ic_sdu_tx_queue cfg \<noteq> ic_sdu_rx_queue cfg \<and>
    ic_sdu_rx_queue cfg \<noteq> ic_can_rx_queue cfg \<and> ic_can_rx_queue cfg \<noteq> ic_sdu_rx_queue cfg \<and>
    ic_sdu_rx_queue cfg \<noteq> ic_can_tx_queue cfg \<and> ic_can_tx_queue cfg \<noteq> ic_sdu_rx_queue cfg \<and>
    ic_sdu_tx_queue cfg \<noteq> ic_can_rx_queue cfg \<and> ic_can_rx_queue cfg \<noteq> ic_sdu_tx_queue cfg \<and>
    ic_sdu_tx_queue cfg \<noteq> ic_can_tx_queue cfg \<and> ic_can_tx_queue cfg \<noteq> ic_sdu_tx_queue cfg \<and>
    ic_can_rx_queue cfg \<noteq> ic_can_tx_queue cfg \<and> ic_can_tx_queue cfg \<noteq> ic_can_rx_queue cfg"
  using assms by (auto simp: isotp_cfg_ok_def)

lemma bus_flow_adds: "isotp_cfg_ok cfg \<Longrightarrow> bus_flow cfg 0 0 us fs w w' \<longleftrightarrow> bus_adds cfg us fs w w'"
  unfolding bus_flow_def bus_adds_def by (drule isotp_queues_distinct) (simp add: fun_upd_idem)

lemma bus_flow_trans:
  "isotp_cfg_ok cfg \<Longrightarrow> bus_flow cfg c s us fs w w1 \<Longrightarrow> bus_flow cfg c' s' us' fs' w1 w2 \<Longrightarrow>
   bus_flow cfg (c + c') (s + s') (us @ us') (fs @ fs') w w2"
  unfolding bus_flow_def by (drule isotp_queues_distinct) (simp add: add.commute)

lemma bus_flow_inputs: "isotp_cfg_ok cfg \<Longrightarrow> bus_flow cfg c s us fs w w' \<Longrightarrow> isotp_inputs_ok cfg w \<Longrightarrow> isotp_inputs_ok cfg w'"
  by (auto simp: bus_flow_def isotp_inputs_ok_def isotp_cfg_ok_def dest: in_set_dropD)

section \<open>Steps that send no data\<close>

text \<open>A confirmation that a message went out completely.\<close>

definition is_ok_confirm :: "tp_data option \<Rightarrow> bool" where
  "is_ok_confirm x \<longleftrightarrow> (\<exists>s. x = Some (Sdu s) \<and> sd_kind s = NX_TP_SDU_CONFIRM \<and> sd_result s = NX_TP_N_OK)"

lemma indication_no_confirm: "is_indication x \<Longrightarrow> \<not> is_ok_confirm x"
  by (auto simp: is_indication_def is_ok_confirm_def)

lemma confirms_not_ok: "confirms cfg r us \<Longrightarrow> r \<noteq> NX_TP_N_OK \<Longrightarrow> \<forall>x\<in>set us. \<not> is_ok_confirm x"
  by (auto simp: confirms_def is_ok_confirm_def isotp_confirm_def istp_sdu_head_def)

text \<open>The transmission is where it was.\<close>

definition tx_kept :: "'e nx_can_isotp \<Rightarrow> 'e tp_world \<Rightarrow> 'e nx_can_isotp \<Rightarrow> 'e tp_world \<Rightarrow> bool" where
  "tx_kept tp w tp' w' \<longleftrightarrow> (it_state (iso_tx tp') = NX_ISOTP_TX_IDLE \<longleftrightarrow> it_state (iso_tx tp) = NX_ISOTP_TX_IDLE) \<and>
     it_tx_id (iso_tx tp') = it_tx_id (iso_tx tp) \<and>
     (\<forall>p k. tx_at (iso_cfg tp) (iso_tx tp) w p k \<longrightarrow> tx_at (iso_cfg tp') (iso_tx tp') w' p k)"

definition isotp_quiet ::
  "(nat \<Rightarrow> nat) \<Rightarrow> 'e nx_can_isotp \<Rightarrow> 'e tp_world \<Rightarrow> nat \<Rightarrow> tp_data option list \<Rightarrow> tp_data option list \<Rightarrow>
   'e nx_can_isotp \<Rightarrow> 'e tp_world \<Rightarrow> bool" where
  "isotp_quiet H tp w c us fs tp' w' \<longleftrightarrow>
     isotp_inv tp' w' H \<and> iso_cfg tp' = iso_cfg tp \<and> held_kept H w w' \<and> bus_flow (iso_cfg tp) c 0 us fs w w' \<and>
     (\<forall>x\<in>set us. \<not> is_ok_confirm x) \<and> (\<forall>x\<in>set fs. is_flow_control (iso_cfg tp) x) \<and>
     (tx_kept tp w tp' w' \<or> it_state (iso_tx tp') = NX_ISOTP_TX_IDLE)"

lemma isotp_inv_cfg: "isotp_inv tp w H \<Longrightarrow> isotp_cfg_ok (iso_cfg tp)"
  by (simp add: isotp_inv_def isotp_bus_ok_def)

lemma isotp_quiet_refl: "isotp_inv tp w H \<Longrightarrow> isotp_quiet H tp w 0 [] [] tp w"
  by (simp add: isotp_quiet_def tx_kept_def bus_flow_adds isotp_inv_cfg)

lemma isotp_quiet_trans:
  assumes "isotp_quiet H tp w c us fs tp1 w1" "isotp_quiet H tp1 w1 c' us' fs' tp2 w2"
  shows "isotp_quiet H tp w (c + c') (us @ us') (fs @ fs') tp2 w2"
proof -
  have cfg: "isotp_cfg_ok (iso_cfg tp)" using assms(1) isotp_inv_cfg by (metis isotp_quiet_def)
  have "bus_flow (iso_cfg tp) (c + c') 0 (us @ us') (fs @ fs') w w2"
    using bus_flow_trans[OF cfg, of c 0 us fs w w1 c' 0 us' fs' w2] assms by (simp add: isotp_quiet_def)
  moreover have "tx_kept tp w tp2 w2 \<or> it_state (iso_tx tp2) = NX_ISOTP_TX_IDLE"
    using assms unfolding isotp_quiet_def tx_kept_def by metis
  ultimately show ?thesis
    using assms held_kept_trans[of H w w1 w2] by (auto simp: isotp_quiet_def)
qed

text \<open>A step of the receiving side, and one of the sending side, among the other's state.\<close>

lemma isotp_quiet_rx:
  assumes inv: "isotp_inv tp w H" and step: "rx_step (\<lambda>a. H a + htx (iso_tx tp) a) tp w us fs tp' w'"
  shows "isotp_quiet H tp w 0 us fs tp' w'"
proof -
  have same: "iso_tx tp' = iso_tx tp" "iso_cfg tp' = iso_cfg tp" and keeps: "bus_keeps (\<lambda>a. H a + htx (iso_tx tp) a) w w'"
    using step by (simp_all add: rx_step_def)
  have pl: "payload w' (it_sdu (iso_tx tp)) = payload w (it_sdu (iso_tx tp))" if "it_sdu (iso_tx tp) \<noteq> 0"
    using keeps that by (simp add: bus_keeps_def htx_def)
  have at: "tx_at (iso_cfg tp) (iso_tx tp) w p k \<Longrightarrow> tx_at (iso_cfg tp) (iso_tx tp) w' p k" for p k
    using pl by (auto simp: tx_at_def)
  have "tx_ok (iso_cfg tp) (iso_tx tp) w'" using inv tx_ok_cong[OF pl] by (simp add: isotp_inv_def)
  then have "isotp_inv tp' w' H" using step same by (simp add: isotp_inv_rx rx_step_def)
  moreover have "tx_kept tp w tp' w'" using at same by (simp add: tx_kept_def)
  moreover have "held_kept H w w'" by (rule bus_keeps_held[OF keeps]) simp
  ultimately show ?thesis
    using step isotp_inv_cfg[OF inv] by (auto simp: isotp_quiet_def rx_step_def bus_flow_adds rx_out_def indication_no_confirm)
qed

lemma rx_ok_after_tx:
  assumes rx: "rx_ok rx w (\<lambda>a. H a + h a)" and keeps: "bus_keeps (\<lambda>a. H a + hrx rx a) w w'"
    and h: "ir_acc rx \<noteq> 0 \<Longrightarrow> h (ir_acc rx) = 0 \<Longrightarrow> h' (ir_acc rx) = (0 :: nat)"
  shows "rx_ok rx w' (\<lambda>a. H a + h' a)"
proof (cases "ir_state rx = NX_ISOTP_RX_IDLE")
  case True
  then show ?thesis using rx by (simp add: rx_ok_def)
next
  case False
  let ?m = "ir_acc rx"
  have m: "?m \<noteq> 0" "H ?m + h ?m = 0" using rx False by (simp_all add: rx_ok_def)
  then have "payload w' ?m = payload w ?m" "queued w' ?m = queued w ?m" "msg_room w' ?m = msg_room w ?m"
    using keeps by (simp_all add: bus_keeps_def hrx_def)
  then show ?thesis using rx False m h by (simp add: rx_ok_def)
qed

lemma isotp_inv_after_tx:
  assumes inv: "isotp_inv tp w H" and tx: "tx_inv tp' w' (\<lambda>a. H a + hrx (iso_rx tp) a)"
    and mv: "tx_moves (\<lambda>a. H a + hrx (iso_rx tp) a) tp w us fs tp' w'"
  shows "isotp_inv tp' w' H"
proof -
  have rx: "rx_ok (iso_rx tp) w (\<lambda>a. H a + htx (iso_tx tp) a)" using inv by (simp add: isotp_inv_def)
  have "rx_ok (iso_rx tp) w' (\<lambda>a. H a + htx (iso_tx tp') a)"
    by (rule rx_ok_after_tx[OF rx]) (use mv in \<open>auto simp: tx_moves_def htx_def\<close>)
  then show ?thesis using tx mv by (simp add: isotp_inv_tx tx_moves_def)
qed

lemma isotp_quiet_tx:
  assumes inv: "isotp_inv tp w H" and tx: "tx_inv tp' w' (\<lambda>a. H a + hrx (iso_rx tp) a)"
    and mv: "tx_moves (\<lambda>a. H a + hrx (iso_rx tp) a) tp w us [] tp' w'"
    and us: "\<forall>x\<in>set us. \<not> is_ok_confirm x" and at: "tx_kept tp w tp' w' \<or> it_state (iso_tx tp') = NX_ISOTP_TX_IDLE"
  shows "isotp_quiet H tp w 0 us [] tp' w'"
proof -
  have "isotp_inv tp' w' H" by (rule isotp_inv_after_tx[OF inv tx mv])
  moreover have "held_kept H w w'" using mv by (auto simp: tx_moves_def intro: bus_keeps_held)
  ultimately show ?thesis
    using mv us at isotp_inv_cfg[OF inv] by (simp add: isotp_quiet_def tx_moves_def bus_flow_adds)
qed

section \<open>Taking a message from a queue, and giving it back\<close>

lemma isotp_consume:
  assumes inv: "isotp_inv tp w H" and q: "chan_cap w q \<noteq> None" "chan w q = x # r"
  obtains a w1 where "ref_msg_consume w q = Some (Some a, w1)" "a \<noteq> 0" "isotp_inv tp w1 (H(a := H a + 1))" "payload w1 a = x"
    "chan w1 = (chan w)(q := r)" "bus_shape w1 = bus_shape w" "payload w1 = payload w" "msg_room w1 = msg_room w"
    "\<And>b. queued w b = 0 \<Longrightarrow> queued w1 b = 0"
proof -
  let ?G = "\<lambda>a. H a + hrx (iso_rx tp) a + htx (iso_tx tp) a"
  have ref: "ref_inv w ?G" and bus: "isotp_bus_ok (iso_cfg tp) w" using inv by (simp_all add: isotp_inv_def)
  obtain cap where cap: "chan_cap w q = Some cap" using q(1) by blast
  obtain a w1 where w1: "ref_msg_consume w q = Some (Some a, w1)" "ref_inv w1 (?G(a := ?G a + 1))" "chan w1 = (chan w)(q := tl (chan w q))"
      "payload w a = hd (chan w q)" "bus_shape w1 = bus_shape w" "payload w1 = payload w" "msg_room w1 = msg_room w"
      "queued w = (queued w1)(a := queued w1 a + 1)"
    using bus_consume[OF ref cap, THEN conjunct2, rule_format] q(2) by auto
  have a: "a \<noteq> 0" using ref_inv_live[OF w1(2), of a] by auto
  have qa: "queued w a \<noteq> 0" "\<And>b. queued w b = 0 \<Longrightarrow> queued w1 b = 0" using w1(8) by (auto simp: fun_eq_iff split: if_splits)
  have G: "?G(a := ?G a + 1) = (\<lambda>b. (H(a := H a + 1)) b + hrx (iso_rx tp) b + htx (iso_tx tp) b)" by (auto simp: fun_eq_iff)
  have rx: "rx_ok (iso_rx tp) w1 (\<lambda>b. (H(a := H a + 1)) b + htx (iso_tx tp) b)"
  proof (cases "ir_state (iso_rx tp) = NX_ISOTP_RX_IDLE")
    case False
    then have "queued w (ir_acc (iso_rx tp)) = 0" using inv by (simp add: isotp_inv_def rx_ok_def)
    then have "queued w1 (ir_acc (iso_rx tp)) = 0" "ir_acc (iso_rx tp) \<noteq> a" using qa by auto
    then show ?thesis using inv False w1(6,7) by (simp add: isotp_inv_def rx_ok_def)
  qed (use inv in \<open>simp add: isotp_inv_def rx_ok_def\<close>)
  have "isotp_inv tp w1 (H(a := H a + 1))"
    using inv rx w1(2) isotp_bus_keeps[OF bus w1(5)] tx_ok_cong[of "iso_tx tp" w1 w "iso_cfg tp"] w1(6) unfolding isotp_inv_def G by simp
  moreover have "payload w1 a = x" "chan w1 = (chan w)(q := r)" using w1(3,4,6) q(2) by simp_all
  ultimately show ?thesis using that[OF w1(1) a _ _ _ w1(5-7) qa(2)] by blast
qed

lemma isotp_release:
  assumes inv: "isotp_inv tp w (H(a := H a + 1))"
  shows "\<exists>w'. nx_ref_msg_release w a = Some (NX_REF_MSG_OK, w') \<and> isotp_inv tp w' H \<and> chan w' = chan w \<and> bus_shape w' = bus_shape w \<and>
    payload w' = payload w \<and> msg_room w' = msg_room w"
proof -
  let ?G = "\<lambda>b. (H(a := H a + 1)) b + hrx (iso_rx tp) b + htx (iso_tx tp) b"
  have ref: "ref_inv w ?G" and bus: "isotp_bus_ok (iso_cfg tp) w" using inv by (simp_all add: isotp_inv_def)
  obtain w' where w': "nx_ref_msg_release w a = Some (NX_REF_MSG_OK, w')" "ref_inv w' (?G(a := ?G a - 1))" "chan w' = chan w"
    "bus_shape w' = bus_shape w" "payload w' = payload w" "msg_room w' = msg_room w" "queued w' = queued w"
    using bus_release[OF ref, of a] by auto
  have rx: "rx_ok (iso_rx tp) w' (\<lambda>b. H b + htx (iso_tx tp) b)"
    using inv w'(5-7) by (auto simp: isotp_inv_def rx_ok_def split: if_splits)
  have "?G(a := ?G a - 1) = (\<lambda>b. H b + hrx (iso_rx tp) b + htx (iso_tx tp) b)" by (auto simp: fun_eq_iff)
  then have "isotp_inv tp w' H"
    using w'(2) isotp_bus_keeps[OF bus w'(4)] tx_ok_cong[of "iso_tx tp" w' w "iso_cfg tp"] w'(5) inv rx by (simp add: isotp_inv_def)
  then show ?thesis using w' by blast
qed

section \<open>Intake\<close>

lemma isotp_quiet_same:
  assumes inv: "isotp_inv tp w H" and ref: "ref_inv w' (\<lambda>a. H a + hrx (iso_rx tp) a + htx (iso_tx tp) a)"
    and keeps: "bus_keeps (\<lambda>a. H a + hrx (iso_rx tp) a + htx (iso_tx tp) a) w w'" and adds: "bus_adds (iso_cfg tp) us [] w w'"
    and us: "\<forall>x\<in>set us. is_indication x"
  shows "isotp_quiet H tp w 0 us [] tp w'"
proof -
  have pl: "payload w' (it_sdu (iso_tx tp)) = payload w (it_sdu (iso_tx tp))" if "it_sdu (iso_tx tp) \<noteq> 0"
    using keeps that by (simp add: bus_keeps_def htx_def)
  have at: "tx_at (iso_cfg tp) (iso_tx tp) w p k \<Longrightarrow> tx_at (iso_cfg tp) (iso_tx tp) w' p k" for p k
    using pl by (auto simp: tx_at_def)
  have "rx_ok (iso_rx tp) w' (\<lambda>a. H a + htx (iso_tx tp) a)"
    by (rule rx_ok_keeps[of _ w]) (use inv keeps in \<open>auto simp: isotp_inv_def elim: bus_keeps_mono\<close>)
  moreover have "tx_ok (iso_cfg tp) (iso_tx tp) w'" using inv tx_ok_cong[OF pl] by (simp add: isotp_inv_def)
  moreover have "isotp_bus_ok (iso_cfg tp) w'" using inv keeps isotp_bus_keeps by (auto simp: isotp_inv_def bus_keeps_def)
  ultimately have "isotp_inv tp w' H" using ref by (simp add: isotp_inv_def)
  moreover have "held_kept H w w'" by (rule bus_keeps_held[OF keeps]) simp
  ultimately show ?thesis
    using adds us at isotp_inv_cfg[OF inv] by (auto simp: isotp_quiet_def bus_flow_adds indication_no_confirm tx_kept_def)
qed

lemma istp_intake_heard:
  assumes "frame_dlen f \<noteq> 0" "ucast (cf_ch (cm_flags f)) = ic_ch (iso_cfg tp)" "cf_is_ext (cm_flags f) = ic_ext_id (iso_cfg tp)"
    and "mem_get 0 (cm_data f) = Some d0"
  obtains (fc) "istp_intake tp w f = istp_tx_apply_fc tp w f"
    | (phys) "cm_id f = ic_phys_rx_id (iso_cfg tp)" "d0 AND 0xF0 \<noteq> NX_CAN_ISOTP_PCI_FC" "istp_intake tp w f = istp_rx_phys_frame tp w f"
    | (func) "istp_intake tp w f = do { r \<leftarrow> istp_sf_len (cm_data f) (frame_dlen f);
             case r of
               Some (plen, hdr) \<Rightarrow> do { w1 \<leftarrow> istp_rx_single (iso_cfg tp) w NX_TP_TA_FUNCTIONAL (cm_data f) plen hdr; Some (tp, w1) }
             | None \<Rightarrow> Some (tp, w) }"
    | (other) "istp_intake tp w f = Some (tp, w)"
proof (cases "cm_id f = ic_phys_rx_id (iso_cfg tp)")
  case True
  then show ?thesis using assms that(1,2) by (cases "d0 AND 0xF0 = NX_CAN_ISOTP_PCI_FC") (simp_all add: istp_intake_def)
next
  case False
  then show ?thesis
    using assms that(3,4)
    by (cases "ic_func_rx_id (iso_cfg tp) \<noteq> 0 \<and> cm_id f = ic_func_rx_id (iso_cfg tp) \<and> d0 AND 0xF0 = NX_CAN_ISOTP_PCI_SF")
      (auto simp: istp_intake_def Let_def)
qed

lemma istp_intake_spec:
  assumes inv: "isotp_inv tp w H" and f: "good_frame f"
  shows "\<exists>tp' w' us fs. istp_intake tp w f = Some (tp', w') \<and> isotp_quiet H tp w 0 us fs tp' w'"
proof -
  let ?cfg = "iso_cfg tp" and ?d = "cm_data f"
  have same: ?thesis if "istp_intake tp w f = Some (tp, w)" using that isotp_quiet_refl[OF inv] by blast
  show ?thesis
  proof (cases "frame_dlen f = 0 \<or> ucast (cf_ch (cm_flags f)) \<noteq> ic_ch ?cfg \<or> cf_is_ext (cm_flags f) \<noteq> ic_ext_id ?cfg")
    case True
    then show ?thesis by (intro same) (auto simp: istp_intake_def Let_def)
  next
    case heard: False
    then have d0: "mem_get 0 ?d = Some (?d ! 0)" using f by (auto simp: good_frame_def mem_get_def)
    have pos: "0 < frame_dlen f" using heard by simp
    have heard': "frame_dlen f \<noteq> 0" "ucast (cf_ch (cm_flags f)) = ic_ch ?cfg" "cf_is_ext (cm_flags f) = ic_ext_id ?cfg" using heard by auto
    from heard' d0 show ?thesis
    proof (cases rule: istp_intake_heard[of f tp "?d ! 0" w])
      case fc
      have tx: "tx_inv tp w (\<lambda>a. H a + hrx (iso_rx tp) a)" using inv by (simp add: isotp_inv_tx)
      obtain tp' w' us where r: "istp_tx_apply_fc tp w f = Some (tp', w')" "tx_inv tp' w' (\<lambda>a. H a + hrx (iso_rx tp) a)"
        "tx_moves (\<lambda>a. H a + hrx (iso_rx tp) a) tp w us [] tp' w'"
        "(\<forall>p k. tx_busy tp w (\<lambda>a. H a + hrx (iso_rx tp) a) p k \<longrightarrow> tx_busy tp' w' (\<lambda>a. H a + hrx (iso_rx tp) a) p k) \<and> us = [] \<and>
           (it_state (iso_tx tp') = NX_ISOTP_TX_IDLE \<longleftrightarrow> it_state (iso_tx tp) = NX_ISOTP_TX_IDLE) \<or>
         tx_idle tp' w' (\<lambda>a. H a + hrx (iso_rx tp) a) \<and> (\<exists>r. r \<noteq> NX_TP_N_OK \<and> confirms ?cfg r us)"
        using istp_tx_apply_fc_spec[OF tx f] by blast
      from r(4) have "isotp_quiet H tp w 0 us [] tp' w'"
      proof
        assume k: "(\<forall>p k. tx_busy tp w (\<lambda>a. H a + hrx (iso_rx tp) a) p k \<longrightarrow> tx_busy tp' w' (\<lambda>a. H a + hrx (iso_rx tp) a) p k) \<and> us = [] \<and>
           (it_state (iso_tx tp') = NX_ISOTP_TX_IDLE \<longleftrightarrow> it_state (iso_tx tp) = NX_ISOTP_TX_IDLE)"
        have "tx_kept tp w tp' w'" using k tx r(3) by (auto simp: tx_kept_def tx_busy_def tx_inv_def tx_moves_def)
        then show ?thesis using k by (intro isotp_quiet_tx[OF inv r(2,3)]) auto
      next
        assume "tx_idle tp' w' (\<lambda>a. H a + hrx (iso_rx tp) a) \<and> (\<exists>r. r \<noteq> NX_TP_N_OK \<and> confirms ?cfg r us)"
        then show ?thesis by (intro isotp_quiet_tx[OF inv r(2,3)]) (auto simp: tx_idle_def dest: confirms_not_ok)
      qed
      then show ?thesis using fc r(1) by metis
    next
      case phys
      have "rx_inv tp w (\<lambda>a. H a + htx (iso_tx tp) a)" using inv by (simp add: isotp_inv_rx)
      from istp_rx_phys_frame_step[OF this f pos] isotp_quiet_rx[OF inv] show ?thesis unfolding phys by blast
    next
      case func
      obtain r where r: "istp_sf_len ?d (frame_dlen f) = Some r" "\<And>plen hdr. r = Some (plen, hdr) \<Longrightarrow> 0 < plen \<and> 0 < hdr \<and> hdr + plen \<le> frame_dlen f"
        by (rule istp_sf_len_spec[of "frame_dlen f" ?d]) (use f pos in \<open>simp_all add: good_frame_def\<close>)
      show ?thesis
      proof (cases r)
        case None
        then show ?thesis using func r(1) by (intro same) simp
      next
        case (Some ph)
        then obtain plen hdr where ph: "r = Some (plen, hdr)" by (cases ph) simp
        have len: "hdr + plen \<le> length ?d" "plen < 2 ^ 32" using r(2)[OF ph] f frame_dlen_le[of f] by (auto simp: good_frame_def)
        have bus: "isotp_bus_ok ?cfg w" and ref: "ref_inv w (\<lambda>a. H a + hrx (iso_rx tp) a + htx (iso_tx tp) a)" using inv by (simp_all add: isotp_inv_def)
        obtain ok w' where w': "istp_rx_single ?cfg w NX_TP_TA_FUNCTIONAL ?d plen hdr = Some w'" "ref_inv w' (\<lambda>a. H a + hrx (iso_rx tp) a + htx (iso_tx tp) a)"
          "bus_keeps (\<lambda>a. H a + hrx (iso_rx tp) a + htx (iso_tx tp) a) w w'"
          "bus_adds ?cfg (if ok then [Some (Sdu (istp_sdu_head ?cfg (of_nat plen) NX_TP_SDU_INDICATION NX_TP_TA_FUNCTIONAL NX_TP_N_OK (take plen (drop hdr ?d))))] else []) [] w w'"
          using istp_rx_single_spec[OF bus ref len] by blast
        have "isotp_quiet H tp w 0 (if ok then [Some (Sdu (istp_sdu_head ?cfg (of_nat plen) NX_TP_SDU_INDICATION NX_TP_TA_FUNCTIONAL NX_TP_N_OK (take plen (drop hdr ?d))))] else []) [] tp w'"
          by (rule isotp_quiet_same[OF inv w'(2-4)]) simp
        then show ?thesis using func r(1) ph w'(1) by (auto simp del: split_paired_Ex)
      qed
    next
      case other
      then show ?thesis by (rule same)
    qed
  qed
qed

section \<open>Draining the link\<close>

text \<open>
  A message that was taken is held by the instance while it is looked at; giving it back closes the step.
\<close>

lemma istp_drain_once:
  assumes inv: "isotp_inv tp w H" and q: "chan w (ic_can_rx_queue (iso_cfg tp)) = Some (Frame f) # r" and f: "good_frame f"
  obtains a w1 tp1 w2 w3 us fs where "ref_msg_consume w (ic_can_rx_queue (iso_cfg tp)) = Some (Some a, w1)" "a \<noteq> 0"
    "msg_frame w1 a = Some f" "istp_intake tp w1 f = Some (tp1, w2)" "nx_ref_msg_release w2 a = Some (NX_REF_MSG_OK, w3)"
    "isotp_quiet H tp w 1 us fs tp1 w3"
proof -
  let ?cfg = "iso_cfg tp"
  have cfg: "isotp_cfg_ok ?cfg" by (rule isotp_inv_cfg[OF inv])
  have cap: "chan_cap w (ic_can_rx_queue ?cfg) \<noteq> None" using inv by (simp add: isotp_inv_def isotp_bus_ok_def)
  obtain a w1 where w1: "ref_msg_consume w (ic_can_rx_queue ?cfg) = Some (Some a, w1)" "a \<noteq> 0" "isotp_inv tp w1 (H(a := H a + 1))"
    "payload w1 a = Some (Frame f)" "chan w1 = (chan w)(ic_can_rx_queue ?cfg := r)" "bus_shape w1 = bus_shape w" "payload w1 = payload w"
    "msg_room w1 = msg_room w"
    by (rule isotp_consume[OF inv cap q])
  have ref: "ref_inv w1 (\<lambda>b. (H(a := H a + 1)) b + hrx (iso_rx tp) b + htx (iso_tx tp) b)" using w1(3) by (simp add: isotp_inv_def)
  have frame: "msg_frame w1 a = Some f" using msg_load_payload[OF ref, of a] w1(4) by (simp add: msg_frame_def)
  obtain tp1 w2 us fs where r: "istp_intake tp w1 f = Some (tp1, w2)" "isotp_quiet (H(a := H a + 1)) tp w1 0 us fs tp1 w2"
    using istp_intake_spec[OF w1(3) f] by blast
  have "isotp_inv tp1 w2 (H(a := H a + 1))" using r(2) by (simp add: isotp_quiet_def)
  then obtain w3 where w3: "nx_ref_msg_release w2 a = Some (NX_REF_MSG_OK, w3)" "isotp_inv tp1 w3 H" "chan w3 = chan w2" "bus_shape w3 = bus_shape w2"
    "payload w3 = payload w2" "msg_room w3 = msg_room w2"
    using isotp_release by blast
  have "bus_flow ?cfg 1 0 [] [] w w1"
    using w1(5) q isotp_queues_distinct[OF cfg] by (simp add: bus_flow_def fun_upd_idem fun_upd_twist)
  moreover have "bus_flow ?cfg 0 0 us fs w1 w3" using r(2) w3(3) by (simp add: isotp_quiet_def bus_flow_def)
  ultimately have "bus_flow ?cfg 1 0 us fs w w3" using bus_flow_trans[OF cfg] by fastforce
  moreover have "held_kept H w w3" using r(2) w1(6-8) w3(4-6) by (auto simp: isotp_quiet_def held_kept_def)
  moreover have "tx_kept tp w tp1 w3 \<or> it_state (iso_tx tp1) = NX_ISOTP_TX_IDLE"
  proof -
    have "tx_kept tp w1 tp1 w2 \<or> it_state (iso_tx tp1) = NX_ISOTP_TX_IDLE" using r(2) by (simp add: isotp_quiet_def)
    then show ?thesis
      using tx_at_cong[of w1 "iso_tx tp" w "iso_cfg tp"] tx_at_cong[of w3 "iso_tx tp1" w2 "iso_cfg tp1"] w1(7) w3(5)
      by (auto simp: tx_kept_def)
  qed
  ultimately have "isotp_quiet H tp w 1 us fs tp1 w3" using r(2) w3(2) by (simp add: isotp_quiet_def)
  then show ?thesis using that w1(1,2) frame r(1) w3(1) by blast
qed

lemma istp_drain_empty:
  assumes inv: "isotp_inv tp w H" and q: "chan w (ic_can_rx_queue (iso_cfg tp)) = []"
  shows "\<exists>w'. istp_drain_can_rx tp w = Some (tp, w') \<and> isotp_quiet H tp w 0 [] [] tp w' \<and> rw_env w' = rw_env w"
proof -
  let ?cfg = "iso_cfg tp" and ?G = "\<lambda>a. H a + hrx (iso_rx tp) a + htx (iso_tx tp) a"
  have ref: "ref_inv w ?G" and bus: "isotp_bus_ok ?cfg w" using inv by (simp_all add: isotp_inv_def)
  obtain cap where cap: "chan_cap w (ic_can_rx_queue ?cfg) = Some cap" using bus by (auto simp: isotp_bus_ok_def)
  obtain w' where w': "ref_msg_consume w (ic_can_rx_queue ?cfg) = Some (None, w')" "ref_inv w' ?G" "chan w' = chan w" "bus_shape w' = bus_shape w"
    "payload w' = payload w" "msg_room w' = msg_room w" "rw_env w' = rw_env w" "queued w' = queued w"
    using bus_consume[OF ref cap, THEN conjunct1, rule_format] q by auto
  have "istp_drain_can_rx tp w = Some (tp, w')" by (subst istp_drain_can_rx.simps) (simp add: w'(1))
  moreover have "isotp_quiet H tp w 0 [] [] tp w'"
    by (rule isotp_quiet_same[OF inv w'(2)]) (use w' in \<open>simp_all add: bus_keeps_def bus_adds_same\<close>)
  ultimately show ?thesis using w'(7) by blast
qed

lemma istp_drain_spec:
  assumes "isotp_inv tp w H" "isotp_inputs_ok (iso_cfg tp) w"
  shows "\<exists>tp' w' us fs. istp_drain_can_rx tp w = Some (tp', w') \<and>
    isotp_quiet H tp w (length (chan w (ic_can_rx_queue (iso_cfg tp)))) us fs tp' w'"
  using assms
proof (induction "length (chan w (ic_can_rx_queue (iso_cfg tp)))" arbitrary: tp w)
  case 0
  then show ?case using istp_drain_empty[OF 0(2)] by (simp del: split_paired_Ex) blast
next
  case (Suc n)
  let ?q = "ic_can_rx_queue (iso_cfg tp)"
  obtain x r where xr: "chan w ?q = x # r" using Suc(2) by (cases "chan w ?q") auto
  then obtain f where f: "x = Some (Frame f)" "good_frame f" using Suc.prems(2) by (auto simp: isotp_inputs_ok_def)
  obtain a w1 tp1 w2 w3 us fs where d: "ref_msg_consume w ?q = Some (Some a, w1)" "a \<noteq> 0"
    "msg_frame w1 a = Some f" "istp_intake tp w1 f = Some (tp1, w2)" "nx_ref_msg_release w2 a = Some (NX_REF_MSG_OK, w3)"
    "isotp_quiet H tp w 1 us fs tp1 w3"
    by (rule istp_drain_once[OF Suc.prems(1) _ f(2)]) (use xr f(1) in auto)
  have cfg: "isotp_cfg_ok (iso_cfg tp)" by (rule isotp_inv_cfg[OF Suc.prems(1)])
  have step: "isotp_inv tp1 w3 H" "iso_cfg tp1 = iso_cfg tp" "bus_flow (iso_cfg tp) 1 0 us fs w w3" using d(6) by (simp_all add: isotp_quiet_def)
  have "chan w3 ?q = r" using step(3) xr isotp_queues_distinct[OF cfg] by (simp add: bus_flow_def)
  then have n: "n = length (chan w3 (ic_can_rx_queue (iso_cfg tp1)))" using Suc(2) xr step(2) by simp
  have "isotp_inputs_ok (iso_cfg tp1) w3" using bus_flow_inputs[OF cfg step(3) Suc.prems(2)] step(2) by simp
  from Suc.hyps(1)[OF n step(1) this] obtain tp' w' us' fs' where r: "istp_drain_can_rx tp1 w3 = Some (tp', w')"
    "isotp_quiet H tp1 w3 n us' fs' tp' w'" using n by metis
  have "istp_drain_can_rx tp w = Some (tp', w')"
    by (subst istp_drain_can_rx.simps) (use d r(1) in \<open>simp add: nx_ref_msg_data_def REF_MSG_SIZEOF_def\<close>)
  moreover have "isotp_quiet H tp w (1 + n) (us @ us') (fs @ fs') tp' w'" by (rule isotp_quiet_trans[OF d(6) r(2)])
  ultimately show ?case using Suc(2) by (metis plus_1_eq_Suc)
qed

section \<open>The guards\<close>

lemma isotp_quiet_now:
  assumes inv: "isotp_inv tp w H"
  shows "\<exists>t e. istp_now (iso_cfg tp) w = Some (t, w\<lparr> rw_env := e \<rparr>) \<and> isotp_quiet H tp w 0 [] [] tp (w\<lparr> rw_env := e \<rparr>)"
proof -
  obtain t e where now: "istp_now (iso_cfg tp) w = Some (t, w\<lparr> rw_env := e \<rparr>)" using istp_now_spec[OF isotp_inv_cfg[OF inv]] by blast
  have "isotp_quiet H tp w 0 [] [] tp (w\<lparr> rw_env := e \<rparr>)"
    by (rule isotp_quiet_same[OF inv]) (use inv in \<open>simp_all add: isotp_inv_def bus_keeps_def bus_adds_same queued_def\<close>)
  with now show ?thesis by blast
qed

lemma istp_rx_guard_spec:
  assumes inv: "isotp_inv tp w H"
  shows "\<exists>tp' w' us. istp_rx_guard st r now tp w = Some (tp', w') \<and> isotp_quiet H tp w 0 us [] tp' w' \<and>
    (if ir_state (iso_rx tp) = st \<and> tick_reached now (ir_deadline (iso_rx tp)) then rx_idle (iso_rx tp') else tp' = tp)"
proof (cases "ir_state (iso_rx tp) = st \<and> tick_reached now (ir_deadline (iso_rx tp))")
  case True
  have "rx_inv tp w (\<lambda>a. H a + htx (iso_tx tp) a)" using inv by (simp add: isotp_inv_rx)
  then obtain tp' w' us where a: "istp_rx_abort tp w r = Some (tp', w')" "rx_idle (iso_rx tp')"
    "rx_step (\<lambda>a. H a + htx (iso_tx tp) a) tp w us [] tp' w'"
    using istp_rx_abort_spec by blast
  then show ?thesis
    using isotp_quiet_rx[OF inv a(3)] True by (intro exI[of _ tp'] exI[of _ w'] exI[of _ us]) (simp add: istp_rx_guard_def)
next
  case False
  then show ?thesis
    using isotp_quiet_refl[OF inv] by (intro exI[of _ tp] exI[of _ w] exI[of _ "[]"]) (auto simp: istp_rx_guard_def)
qed

lemma istp_tx_guard_spec:
  assumes inv: "isotp_inv tp w H" and r: "r \<noteq> NX_TP_N_OK"
  shows "\<exists>tp' w' us. istp_tx_guard st r now tp w = Some (tp', w') \<and> isotp_quiet H tp w 0 us [] tp' w' \<and> iso_rx tp' = iso_rx tp \<and>
    (it_state (iso_tx tp) = st \<and> tick_reached now (it_deadline (iso_tx tp)) \<longrightarrow> it_state (iso_tx tp') = NX_ISOTP_TX_IDLE \<and> it_sdu (iso_tx tp') = 0) \<and>
    (\<not> (it_state (iso_tx tp) = st \<and> tick_reached now (it_deadline (iso_tx tp))) \<longrightarrow> tp' = tp)"
proof (cases "it_state (iso_tx tp) = st \<and> tick_reached now (it_deadline (iso_tx tp))")
  case True
  have bus: "isotp_bus_ok (iso_cfg tp) w" "ref_inv w (\<lambda>a. (H a + hrx (iso_rx tp) a) + htx (iso_tx tp) a)" using inv by (simp_all add: isotp_inv_def)
  obtain tp' w' us where a: "istp_tx_abort tp w r = Some (tp', w')" "tx_idle tp' w' (\<lambda>a. H a + hrx (iso_rx tp) a)"
    "tx_moves (\<lambda>a. H a + hrx (iso_rx tp) a) tp w us [] tp' w'" "confirms (iso_cfg tp) r us"
    using istp_tx_abort_spec[OF bus] by blast
  have "isotp_quiet H tp w 0 us [] tp' w'"
    by (rule isotp_quiet_tx[OF inv tx_idle_inv[OF a(2)] a(3) confirms_not_ok[OF a(4) r]]) (use a(2) in \<open>simp add: tx_idle_def\<close>)
  then show ?thesis
    using a(1-3) True by (intro exI[of _ tp'] exI[of _ w'] exI[of _ us]) (simp add: istp_tx_guard_def tx_idle_def tx_moves_def)
next
  case False
  then show ?thesis
    using isotp_quiet_refl[OF inv] by (intro exI[of _ tp] exI[of _ w] exI[of _ "[]"]) (auto simp: istp_tx_guard_def)
qed

lemma istp_cts_again_spec:
  assumes inv: "isotp_inv tp w H"
  shows "\<exists>tp' w' fs. (if ir_state (iso_rx tp) = NX_ISOTP_RX_FC_WAIT then istp_emit_cts tp w else Some (tp, w)) = Some (tp', w') \<and>
    isotp_quiet H tp w 0 [] fs tp' w' \<and> (ir_state (iso_rx tp) = NX_ISOTP_RX_IDLE \<longrightarrow> tp' = tp)"
proof (cases "ir_state (iso_rx tp) = NX_ISOTP_RX_FC_WAIT")
  case True
  have "rx_inv tp w (\<lambda>a. H a + htx (iso_tx tp) a)" using inv by (simp add: isotp_inv_rx)
  then obtain tp' w' fs where a: "istp_emit_cts tp w = Some (tp', w')" "rx_step (\<lambda>a. H a + htx (iso_tx tp) a) tp w [] fs tp' w'"
  proof -
    assume rx: "rx_inv tp w (\<lambda>a. H a + htx (iso_tx tp) a)"
    have ne: "ir_state (iso_rx tp) \<noteq> NX_ISOTP_RX_IDLE" using True by simp
    from istp_emit_cts_spec[OF rx ne] that show ?thesis by blast
  qed
  then show ?thesis using isotp_quiet_rx[OF inv a(2)] True by (intro exI[of _ tp'] exI[of _ w'] exI[of _ fs]) simp
next
  case False
  then show ?thesis using isotp_quiet_refl[OF inv] by auto
qed

section \<open>Sending\<close>

text \<open>
  The message the sending step works on, and the frame it goes on with: the one that is loaded, or for an idle instance the next one of its queue.
\<close>

definition tx_works_on :: "'e nx_can_isotp \<Rightarrow> 'e tp_world \<Rightarrow> u32 \<Rightarrow> bytes \<Rightarrow> nat \<Rightarrow> nat \<Rightarrow> bool" where
  "tx_works_on tp w id0 p k taken \<longleftrightarrow>
     (if it_state (iso_tx tp) = NX_ISOTP_TX_IDLE
      then k = 0 \<and> taken = 1 \<and> (\<exists>s r. chan w (ic_sdu_rx_queue (iso_cfg tp)) = Some (Sdu s) # r \<and> p = sdu_bytes s \<and> id0 = sdu_id (iso_cfg tp) s)
      else tx_at (iso_cfg tp) (iso_tx tp) w p k \<and> taken = 0 \<and> id0 = it_tx_id (iso_tx tp))"

text \<open>Where it is after \<open>k\<close> frames: still loaded, or finished.\<close>

definition tx_arrived :: "'e nx_can_isotp \<Rightarrow> 'e tp_world \<Rightarrow> u32 \<Rightarrow> bytes \<Rightarrow> nat \<Rightarrow> tp_data option list \<Rightarrow> bool" where
  "tx_arrived tp w id0 p k us \<longleftrightarrow>
     it_state (iso_tx tp) \<noteq> NX_ISOTP_TX_IDLE \<and> tx_at (iso_cfg tp) (iso_tx tp) w p k \<and> it_tx_id (iso_tx tp) = id0 \<and> us = [] \<or>
     it_state (iso_tx tp) = NX_ISOTP_TX_IDLE \<and> isotp_done (iso_cfg tp) (length p) k \<and> confirms (iso_cfg tp) NX_TP_N_OK us"

lemma tx_sent_arrived:
  assumes "tx_sent tp w K p k n us tp' w'"
  shows "tx_arrived tp' w' (it_tx_id (iso_tx tp)) p (k + n) us"
proof -
  have "iso_cfg tp' = iso_cfg tp" "it_tx_id (iso_tx tp') = it_tx_id (iso_tx tp)" using assms by (simp_all add: tx_sent_def tx_moves_def)
  then show ?thesis using assms by (auto simp: tx_sent_def tx_arrived_def tx_busy_def tx_idle_def)
qed

lemma tx_sent_inv:
  assumes "tx_sent tp w K p k n us tp' w'"
  shows "tx_inv tp' w' K"
  using assms tx_idle_inv by (auto simp: tx_sent_def tx_busy_def tx_inv_def tx_ok_def)

lemma isotp_rx_ok_loaded:
  assumes "isotp_inv tp w H" "tx_loads tp w s K tp1 w1"
  shows "rx_ok (iso_rx tp) w1 (\<lambda>a. H a + htx (iso_tx tp) a)"
  using assms by (auto simp: isotp_inv_def rx_ok_def tx_loads_def split: if_splits)

lemma isotp_loaded_other:
  assumes "isotp_inv tp w H" "tx_loads tp w s K tp1 w1"
  shows "ir_acc (iso_rx tp) = 0 \<or> it_sdu (iso_tx tp1) \<noteq> ir_acc (iso_rx tp)"
  using assms by (auto simp: isotp_inv_def rx_ok_def tx_loads_def split: if_splits)

text \<open>What the sending step of a call did: nothing for want of a message, or frames of the message it works on.\<close>

definition tx_nothing :: "'e nx_can_isotp \<Rightarrow> 'e tp_world \<Rightarrow> 'e nx_can_isotp \<Rightarrow> 'e tp_world \<Rightarrow> bool" where
  "tx_nothing tp w tp' w' \<longleftrightarrow> it_state (iso_tx tp) = NX_ISOTP_TX_IDLE \<and> chan w (ic_sdu_rx_queue (iso_cfg tp)) = [] \<and> tp' = tp \<and>
     bus_flow (iso_cfg tp) 0 0 [] [] w w'"

definition tx_something :: "'e nx_can_isotp \<Rightarrow> 'e tp_world \<Rightarrow> u32 \<Rightarrow> bytes \<Rightarrow> nat \<Rightarrow> nat \<Rightarrow> nat \<Rightarrow> tp_data option list \<Rightarrow>
    'e nx_can_isotp \<Rightarrow> 'e tp_world \<Rightarrow> bool" where
  "tx_something tp w id0 p k n taken us tp' w' \<longleftrightarrow> tx_works_on tp w id0 p k taken \<and>
     bus_flow (iso_cfg tp) 0 taken us (isotp_frames (iso_cfg tp) id0 p k n) w w' \<and> tx_arrived tp' w' id0 p (k + n) us"

lemma istp_request_tx_spec:
  assumes inv: "isotp_inv tp w H" and ins: "isotp_inputs_ok (iso_cfg tp) w"
  shows "\<exists>m tp' w'. istp_request_tx tp w max_frames = Some (m, tp', w') \<and> isotp_inv tp' w' H \<and> iso_cfg tp' = iso_cfg tp \<and> held_kept H w w' \<and>
    iso_rx tp' = iso_rx tp \<and> (tx_nothing tp w tp' w' \<or> (\<exists>id0 p k n taken us. tx_something tp w id0 p k n taken us tp' w' \<and> n \<le> max 1 max_frames))"
proof -
  let ?K = "\<lambda>a. H a + hrx (iso_rx tp) a" and ?cfg = "iso_cfg tp" and ?q = "ic_sdu_rx_queue (iso_cfg tp)"
  have cfg: "isotp_cfg_ok ?cfg" by (rule isotp_inv_cfg[OF inv])
  have tx: "tx_inv tp w ?K" using inv by (simp add: isotp_inv_tx)
  have moved: "isotp_inv tp' w' H \<and> iso_cfg tp' = ?cfg \<and> held_kept H w w' \<and> iso_rx tp' = iso_rx tp"
    if "tx_inv tp' w' ?K" "tx_moves ?K tp w us fs tp' w'" for tp' w' us fs
    using isotp_inv_after_tx[OF inv that] that(2) bus_keeps_held[of ?K w w' H] by (simp add: tx_moves_def)
  show ?thesis
  proof (cases "it_state (iso_tx tp) = NX_ISOTP_TX_IDLE")
    case False
    then obtain p k where b: "tx_busy tp w ?K p k" "k = 0 \<Longrightarrow> it_state (iso_tx tp) = NX_ISOTP_TX_WAIT_LINK"
      using tx by (auto simp: tx_inv_def tx_ok_def tx_busy_def)
    obtain n m tp' w' us where r: "istp_request_tx tp w max_frames = Some (m, tp', w')" "tx_sent tp w ?K p k n us tp' w'" "n \<le> max 1 max_frames"
      using istp_request_tx_busy[OF b(1) False b(2)] by blast
    have mv: "tx_moves ?K tp w us (isotp_frames ?cfg (it_tx_id (iso_tx tp)) p k n) tp' w'" using r(2) by (simp add: tx_sent_def)
    have "tx_works_on tp w (it_tx_id (iso_tx tp)) p k 0" using False b(1) by (simp add: tx_works_on_def tx_busy_def)
    moreover have "bus_flow ?cfg 0 0 us (isotp_frames ?cfg (it_tx_id (iso_tx tp)) p k n) w w'" using mv cfg by (simp add: tx_moves_def bus_flow_adds)
    ultimately have "tx_something tp w (it_tx_id (iso_tx tp)) p k n 0 us tp' w'" using tx_sent_arrived[OF r(2)] by (simp add: tx_something_def)
    then show ?thesis using r(1,3) moved[OF tx_sent_inv[OF r(2)] mv] by blast
  next
    case True
    have run: "istp_request_tx tp w max_frames = istp_tx_start tp w" using True by (simp add: istp_request_tx_def)
    have idle: "tx_idle tp w ?K"
    proof -
      have "it_sdu (iso_tx tp) = 0" using tx True by (simp add: tx_inv_def tx_ok_def)
      then have "htx (iso_tx tp) = (\<lambda>_. 0)" by simp
      then show ?thesis using tx True \<open>it_sdu (iso_tx tp) = 0\<close> unfolding tx_inv_def tx_idle_def by simp
    qed
    show ?thesis
    proof (cases "chan w ?q")
      case Nil
      obtain w' where r: "istp_tx_start tp w = Some (0, tp, w')" "tx_idle tp w' ?K" "tx_moves ?K tp w [] [] tp w'"
        using istp_tx_start_empty[OF idle Nil] by blast
      have "bus_flow ?cfg 0 0 [] [] w w'" using r(3) cfg by (simp add: tx_moves_def bus_flow_adds)
      then have "tx_nothing tp w tp w'" using True Nil by (simp add: tx_nothing_def)
      then show ?thesis using r(1) moved[OF tx_idle_inv[OF r(2)] r(3)] unfolding run by blast
    next
      case (Cons x rest)
      then obtain s where s: "x = Some (Sdu s)" "good_sdu s" using ins by (auto simp: isotp_inputs_ok_def)
      obtain tp1 w1 ok n tp' w' us where r: "istp_tx_start tp w = Some (n, tp', w')" "tx_loads tp w s ?K tp1 w1"
        "tx_sent tp1 w1 ?K (sdu_bytes s) 0 (if ok then 1 else 0) us tp' w'"
        using istp_tx_start_loads[OF idle _ s(2)] Cons s(1) by blast
      let ?fs = "isotp_frames ?cfg (sdu_id ?cfg s) (sdu_bytes s) 0 (if ok then 1 else 0)"
      have ld: "iso_cfg tp1 = ?cfg" "iso_rx tp1 = iso_rx tp" "it_tx_id (iso_tx tp1) = sdu_id ?cfg s" "payload w1 = payload w" "msg_room w1 = msg_room w"
        "bus_shape w1 = bus_shape w" "chan w1 = (chan w)(?q := tl (chan w ?q))" using r(2) by (simp_all add: tx_loads_def)
      have mv: "tx_moves ?K tp1 w1 us ?fs tp' w'" using r(3) ld by (simp add: tx_sent_def)
      have few: "(if ok then 1 else 0 :: nat) \<le> max 1 max_frames" by simp
      have "rx_ok (iso_rx tp) w1 (\<lambda>a. H a + htx (iso_tx tp) a)"
        by (rule isotp_rx_ok_loaded[OF inv r(2)])
      then have "rx_ok (iso_rx tp) w' (\<lambda>a. H a + htx (iso_tx tp') a)"
        by (rule rx_ok_after_tx) (use mv isotp_loaded_other[OF inv r(2)] in \<open>auto simp: tx_moves_def htx_def\<close>)
      then have i': "isotp_inv tp' w' H" using tx_sent_inv[OF r(3)] mv ld(2) by (simp add: isotp_inv_tx tx_moves_def)
      have "held_kept H w w1" using ld by (simp add: held_kept_def)
      moreover have "held_kept H w1 w'" using mv by (auto simp: tx_moves_def intro: bus_keeps_held)
      ultimately have k: "held_kept H w w'" by (rule held_kept_trans)
      have "bus_flow ?cfg 0 1 [] [] w w1" using ld(7) Cons isotp_queues_distinct[OF cfg] by (simp add: bus_flow_def fun_upd_idem)
      moreover have "bus_flow ?cfg 0 0 us ?fs w1 w'" using mv ld(1) cfg by (simp add: tx_moves_def bus_flow_adds)
      ultimately have "bus_flow ?cfg 0 1 us ?fs w w'" using bus_flow_trans[OF cfg] by fastforce
      moreover have "tx_works_on tp w (sdu_id ?cfg s) (sdu_bytes s) 0 1" using True Cons s(1) by (auto simp: tx_works_on_def)
      moreover have "tx_arrived tp' w' (sdu_id ?cfg s) (sdu_bytes s) (0 + (if ok then 1 else 0)) us" using tx_sent_arrived[OF r(3)] ld(3) by simp
      ultimately have "tx_something tp w (sdu_id ?cfg s) (sdu_bytes s) 0 (if ok then 1 else 0) 1 us tp' w'" by (simp add: tx_something_def)
      moreover have "iso_cfg tp' = ?cfg" "iso_rx tp' = iso_rx tp" using mv ld(1,2) by (simp_all add: tx_moves_def)
      ultimately show ?thesis unfolding run using r(1) i' k few by blast
    qed
  qed
qed

section \<open>A whole call\<close>

text \<open>
  Up to the sending step a call takes all frames that wait and sends no data; then comes the sending step.
\<close>

text \<open>The data frames a call may send.\<close>

definition isotp_burst :: "'e nx_can_isotp_cfg \<Rightarrow> nat" where
  "isotp_burst cfg = (if ic_tx_frames_per_process cfg = 0 then 255 else unat (ic_tx_frames_per_process cfg))"

text \<open>
  No frame is waiting, and a reassembly is under way whose deadline has passed on the clock.
\<close>

definition rx_expired :: "'e nx_can_isotp \<Rightarrow> 'e tp_world \<Rightarrow> bool" where
  "rx_expired tp w \<longleftrightarrow> chan w (ic_can_rx_queue (iso_cfg tp)) = [] \<and> ir_state (iso_rx tp) \<noteq> NX_ISOTP_RX_IDLE \<and>
     (\<exists>g. ic_get_us (iso_cfg tp) = Some g \<and> tick_reached (fst (g (rw_env w))) (ir_deadline (iso_rx tp)))"

lemma istp_now_value: "ic_get_us cfg = Some g \<Longrightarrow> istp_now cfg w = Some (t, w') \<Longrightarrow> t = fst (g (rw_env w))"
  by (auto simp: istp_now_def split: prod.splits)

lemma nx_can_isotp_process_split:
  assumes inv: "isotp_inv tp w H" and ins: "isotp_inputs_ok (iso_cfg tp) w"
  obtains tp1 w1 us fs max_frames where
    "isotp_quiet H tp w (length (chan w (ic_can_rx_queue (iso_cfg tp)))) us fs tp1 w1"
    "nx_can_isotp_process (Some tp) w = map_option (\<lambda>(_, tp', w'). (Some tp', w')) (istp_request_tx tp1 w1 max_frames)"
    "rx_expired tp w \<Longrightarrow> rx_idle (iso_rx tp1)" "max 1 max_frames = isotp_burst (iso_cfg tp)"
proof -
  obtain tp1 w1 us1 fs1 where d: "istp_drain_can_rx tp w = Some (tp1, w1)"
    "isotp_quiet H tp w (length (chan w (ic_can_rx_queue (iso_cfg tp)))) us1 fs1 tp1 w1"
    using istp_drain_spec[OF assms] by blast
  have inv1: "isotp_inv tp1 w1 H" using d(2) by (simp add: isotp_quiet_def)
  obtain now e where n: "istp_now (iso_cfg tp1) w1 = Some (now, w1\<lparr> rw_env := e \<rparr>)" "isotp_quiet H tp1 w1 0 [] [] tp1 (w1\<lparr> rw_env := e \<rparr>)"
    using isotp_quiet_now[OF inv1] by blast
  let ?w2 = "w1\<lparr> rw_env := e \<rparr>"
  have inv2: "isotp_inv tp1 ?w2 H" using n(2) by (simp add: isotp_quiet_def)
  obtain tp3 w3 us3 where g3: "istp_rx_guard NX_ISOTP_RX_ASSEM NX_TP_N_TIMEOUT_CR now tp1 ?w2 = Some (tp3, w3)" "isotp_quiet H tp1 ?w2 0 us3 [] tp3 w3"
    "if ir_state (iso_rx tp1) = NX_ISOTP_RX_ASSEM \<and> tick_reached now (ir_deadline (iso_rx tp1)) then rx_idle (iso_rx tp3) else tp3 = tp1"
    using istp_rx_guard_spec[OF inv2] by blast
  have inv3: "isotp_inv tp3 w3 H" using g3(2) by (simp add: isotp_quiet_def)
  obtain tp4 w4 us4 where g4: "istp_rx_guard NX_ISOTP_RX_FC_WAIT NX_TP_N_TIMEOUT_A now tp3 w3 = Some (tp4, w4)" "isotp_quiet H tp3 w3 0 us4 [] tp4 w4"
    "if ir_state (iso_rx tp3) = NX_ISOTP_RX_FC_WAIT \<and> tick_reached now (ir_deadline (iso_rx tp3)) then rx_idle (iso_rx tp4) else tp4 = tp3"
    using istp_rx_guard_spec[OF inv3] by blast
  have inv4: "isotp_inv tp4 w4 H" using g4(2) by (simp add: isotp_quiet_def)
  obtain tp5 w5 fs5 where g5: "(if ir_state (iso_rx tp4) = NX_ISOTP_RX_FC_WAIT then istp_emit_cts tp4 w4 else Some (tp4, w4)) = Some (tp5, w5)"
    "isotp_quiet H tp4 w4 0 [] fs5 tp5 w5" "ir_state (iso_rx tp4) = NX_ISOTP_RX_IDLE \<Longrightarrow> tp5 = tp4"
    using istp_cts_again_spec[OF inv4] by blast
  have ne: "NX_TP_N_TIMEOUT_BS \<noteq> NX_TP_N_OK" "NX_TP_N_TIMEOUT_A \<noteq> NX_TP_N_OK" by simp_all
  have inv5: "isotp_inv tp5 w5 H" using g5(2) by (simp add: isotp_quiet_def)
  obtain tp6 w6 us6 where g6: "istp_tx_guard NX_ISOTP_TX_WAIT_FC NX_TP_N_TIMEOUT_BS now tp5 w5 = Some (tp6, w6)" "isotp_quiet H tp5 w5 0 us6 [] tp6 w6" "iso_rx tp6 = iso_rx tp5"
    using istp_tx_guard_spec[OF inv5 ne(1)] by blast
  have inv6: "isotp_inv tp6 w6 H" using g6(2) by (simp add: isotp_quiet_def)
  obtain tp7 w7 us7 where g7: "istp_tx_guard NX_ISOTP_TX_WAIT_LINK NX_TP_N_TIMEOUT_A now tp6 w6 = Some (tp7, w7)" "isotp_quiet H tp6 w6 0 us7 [] tp7 w7" "iso_rx tp7 = iso_rx tp6"
    using istp_tx_guard_spec[OF inv6 ne(2)] by blast
  define mx where "mx = (let budget = unat (ic_tx_frames_per_process (iso_cfg tp7)) in if budget = 0 then 255 else budget)"
  have "nx_can_isotp_process (Some tp) w = map_option (\<lambda>(_, tp', w'). (Some tp', w')) (istp_request_tx tp7 w7 mx)"
    using d(1) n(1) g3(1) g4(1) g5(1) g6(1) g7(1) by (cases "istp_request_tx tp7 w7 mx") (auto simp: nx_can_isotp_process_def mx_def Let_def)
  moreover have "max 1 mx = isotp_burst (iso_cfg tp)"
  proof -
    have c: "iso_cfg tp7 = iso_cfg tp" using d(2) n(2) g3(2) g4(2) g5(2) g6(2) g7(2) by (simp add: isotp_quiet_def)
    show ?thesis
    proof (cases "ic_tx_frames_per_process (iso_cfg tp) = 0")
      case True
      then show ?thesis by (simp add: mx_def isotp_burst_def c)
    next
      case False
      then have "0 < unat (ic_tx_frames_per_process (iso_cfg tp))" by (simp add: unat_gt_0)
      then show ?thesis using False by (simp add: mx_def isotp_burst_def c)
    qed
  qed
  moreover have "rx_idle (iso_rx tp7)" if "rx_expired tp w"
  proof -
    have q: "chan w (ic_can_rx_queue (iso_cfg tp)) = []" and st: "ir_state (iso_rx tp) \<noteq> NX_ISOTP_RX_IDLE"
      and g: "\<exists>g. ic_get_us (iso_cfg tp) = Some g \<and> tick_reached (fst (g (rw_env w))) (ir_deadline (iso_rx tp))"
      using that by (simp_all add: rx_expired_def)
    have same: "tp1 = tp" "rw_env w1 = rw_env w" using istp_drain_empty[OF inv q] d(1) by auto
    then have t: "tick_reached now (ir_deadline (iso_rx tp))" using g istp_now_value n(1) by metis
    consider "ir_state (iso_rx tp) = NX_ISOTP_RX_ASSEM" | "ir_state (iso_rx tp) = NX_ISOTP_RX_FC_WAIT" using st by (cases "ir_state (iso_rx tp)") auto
    then have i4: "rx_idle (iso_rx tp4)"
    proof cases
      case 1
      then have "rx_idle (iso_rx tp3)" using g3(3) t same by simp
      then show ?thesis using g4(3) by (auto simp: rx_idle_def)
    next
      case 2
      then show ?thesis using g3(3) g4(3) t same by simp
    qed
    then have "tp5 = tp4" by (intro g5(3)) (simp add: rx_idle_def)
    then show ?thesis using i4 g6(3) g7(3) by simp
  qed
  ultimately show ?thesis
    using that isotp_quiet_trans[OF d(2) isotp_quiet_trans[OF n(2) isotp_quiet_trans[OF g3(2) isotp_quiet_trans[OF g4(2)
      isotp_quiet_trans[OF g5(2) isotp_quiet_trans[OF g6(2) g7(2)]]]]]] by simp
qed

text \<open>What one call of \<open>nx_can_isotp_process\<close> puts on the link and hands up, and where the transmission is after it.\<close>

definition isotp_call :: "'e nx_can_isotp \<Rightarrow> 'e tp_world \<Rightarrow> tp_data option list \<Rightarrow> tp_data option list \<Rightarrow> tp_data option list \<Rightarrow>
    'e nx_can_isotp \<Rightarrow> 'e tp_world \<Rightarrow> bool" where
  "isotp_call tp w us fc data tp' w' \<longleftrightarrow>
     (\<exists>taken. bus_flow (iso_cfg tp) (length (chan w (ic_can_rx_queue (iso_cfg tp)))) taken us (fc @ data) w w') \<and>
     (\<forall>x\<in>set fc. is_flow_control (iso_cfg tp) x) \<and>
     (\<exists>id0 p k n. data = isotp_frames (iso_cfg tp) id0 p k n \<and> n \<le> isotp_burst (iso_cfg tp) \<and>
        (it_state (iso_tx tp) \<noteq> NX_ISOTP_TX_IDLE \<and> tx_at (iso_cfg tp) (iso_tx tp) w p k \<and> id0 = it_tx_id (iso_tx tp) \<or>
         k = 0 \<and> (\<exists>s r. chan w (ic_sdu_rx_queue (iso_cfg tp)) = Some (Sdu s) # r \<and> p = sdu_bytes s \<and> id0 = sdu_id (iso_cfg tp) s) \<or>
         n = 0 \<and> it_state (iso_tx tp') = NX_ISOTP_TX_IDLE) \<and>
        (it_state (iso_tx tp') \<noteq> NX_ISOTP_TX_IDLE \<longrightarrow> tx_at (iso_cfg tp) (iso_tx tp') w' p (k + n) \<and> it_tx_id (iso_tx tp') = id0) \<and>
        (it_state (iso_tx tp') = NX_ISOTP_TX_IDLE \<and> 0 < n \<longrightarrow> isotp_done (iso_cfg tp) (length p) (k + n)) \<and>
        ((\<exists>x\<in>set us. is_ok_confirm x) \<longrightarrow> 0 < n \<and> it_state (iso_tx tp') = NX_ISOTP_TX_IDLE))"

lemma tx_at_unique:
  assumes cfg: "isotp_cfg_ok cfg" and at: "tx_at cfg tx w p k" "tx_at cfg tx w p' k'"
  shows "p = p'" "k = k'"
proof -
  have len: "length p = length p'" using at by (simp add: tx_at_def)
  obtain s where s: "payload w (it_sdu tx) = Some (Sdu s)" "take (length p) (sd_data s) = p" using at(1) by (auto simp: tx_at_def)
  obtain s' where s': "payload w (it_sdu tx) = Some (Sdu s')" "take (length p') (sd_data s') = p'" using at(2) by (auto simp: tx_at_def)
  show p: "p = p'" using s s' len by simp
  have pos: "0 < isotp_offset cfg (length p) j" if "0 < j" for j
    using isotp_ff_room_bounds(1)[OF cfg, of "length p"] that by (simp add: isotp_offset_def)
  have zero: "(if j = 0 then it_sent tx = 0 else unat (it_sent tx) = isotp_offset cfg (length p) j)" if "tx_at cfg tx w p j" for j
    using that by (simp add: tx_at_def)
  have "j = 0 \<longleftrightarrow> unat (it_sent tx) = 0" if "tx_at cfg tx w p j" for j
    using zero[OF that] pos[of j] by (cases "j = 0") simp_all
  then have "k = 0 \<longleftrightarrow> k' = 0" using at p by metis
  moreover have "k = k'" if "0 < k" "0 < k'"
  proof -
    have "isotp_offset cfg (length p) k = isotp_offset cfg (length p) k'" using at that len by (simp add: tx_at_def)
    then have "(k - 1) * isotp_cf_room cfg = (k' - 1) * isotp_cf_room cfg" using that by (simp add: isotp_offset_def)
    then have "k - 1 = k' - 1" using isotp_ff_room_bounds(2)[OF cfg] by simp
    then show ?thesis using that by simp
  qed
  ultimately show "k = k'" by (metis neq0_conv)
qed

lemma tx_at_not_done: "tx_at cfg tx w p k \<Longrightarrow> \<not> isotp_done cfg (length p) k"
  by (auto simp: tx_at_def isotp_done_def split: if_splits)

lemma nx_can_isotp_process_spec:
  assumes inv: "isotp_inv tp w H" and ins: "isotp_inputs_ok (iso_cfg tp) w"
  shows "\<exists>tp' w' us fc data. nx_can_isotp_process (Some tp) w = Some (Some tp', w') \<and> isotp_inv tp' w' H \<and> isotp_inputs_ok (iso_cfg tp) w' \<and>
    iso_cfg tp' = iso_cfg tp \<and> held_kept H w w' \<and> isotp_call tp w us fc data tp' w' \<and> (rx_expired tp w \<longrightarrow> rx_idle (iso_rx tp'))"
proof -
  let ?cfg = "iso_cfg tp" and ?c = "length (chan w (ic_can_rx_queue (iso_cfg tp)))" and ?q = "ic_sdu_rx_queue (iso_cfg tp)"
  have cfg: "isotp_cfg_ok ?cfg" by (rule isotp_inv_cfg[OF inv])
  obtain tp1 w1 us1 fc mx where q: "isotp_quiet H tp w ?c us1 fc tp1 w1"
    and run: "nx_can_isotp_process (Some tp) w = map_option (\<lambda>(_, tp', w'). (Some tp', w')) (istp_request_tx tp1 w1 mx)"
    and ex: "rx_expired tp w \<Longrightarrow> rx_idle (iso_rx tp1)" and mx: "max 1 mx = isotp_burst ?cfg"
    by (rule nx_can_isotp_process_split[OF assms]) blast
  have q': "isotp_inv tp1 w1 H" "iso_cfg tp1 = ?cfg" "held_kept H w w1" "bus_flow ?cfg ?c 0 us1 fc w w1" "\<forall>x\<in>set us1. \<not> is_ok_confirm x"
    "\<forall>x\<in>set fc. is_flow_control ?cfg x" "tx_kept tp w tp1 w1 \<or> it_state (iso_tx tp1) = NX_ISOTP_TX_IDLE"
    using q by (auto simp: isotp_quiet_def)
  have ins1: "isotp_inputs_ok (iso_cfg tp1) w1" using bus_flow_inputs[OF cfg q'(4) ins] q'(2) by simp
  have sdus: "chan w1 ?q = chan w ?q" using q'(4) by (simp add: bus_flow_def)
  obtain m tp' w' where r: "istp_request_tx tp1 w1 mx = Some (m, tp', w')" "isotp_inv tp' w' H" "iso_cfg tp' = ?cfg" "held_kept H w1 w'"
    "tx_nothing tp1 w1 tp' w' \<or> (\<exists>id0 p k n taken us. tx_something tp1 w1 id0 p k n taken us tp' w' \<and> n \<le> max 1 mx)" "iso_rx tp' = iso_rx tp1"
    using istp_request_tx_spec[OF q'(1) ins1] q'(2) by metis
  have flow: "bus_flow ?cfg ?c taken (us1 @ us) (fc @ fs) w w'" if "bus_flow ?cfg 0 taken us fs w1 w'" for taken us fs
    using bus_flow_trans[OF cfg q'(4) that] by simp
  have concl: ?thesis if call: "isotp_call tp w us fc data tp' w'" for us data
  proof -
    have "isotp_inputs_ok ?cfg w'" using call bus_flow_inputs[OF cfg _ ins] by (auto simp: isotp_call_def)
    then show ?thesis using run r(1-4,6) ex held_kept_trans[OF q'(3) r(4)] call by (intro exI[of _ tp'] exI[of _ w'] exI[of _ us] exI[of _ fc] exI[of _ data]) simp
  qed
  from r(5) show ?thesis
  proof
    assume "tx_nothing tp1 w1 tp' w'"
    then have n: "it_state (iso_tx tp') = NX_ISOTP_TX_IDLE" "bus_flow ?cfg 0 0 [] [] w1 w'" using q'(2) by (simp_all add: tx_nothing_def)
    show ?thesis
      by (rule concl[of us1 "[]"], unfold isotp_call_def, intro conjI exI[of _ 0] exI[of _ "[] :: bytes"])
        (use n q'(5,6) flow[OF n(2)] in auto)
  next
    assume "\<exists>id0 p k n taken us. tx_something tp1 w1 id0 p k n taken us tp' w' \<and> n \<le> max 1 mx"
    then obtain id0 p k n taken us where "tx_something tp1 w1 id0 p k n taken us tp' w'" and few: "n \<le> isotp_burst ?cfg" using mx by auto
    then have s: "tx_works_on tp1 w1 id0 p k taken" "bus_flow ?cfg 0 taken us (isotp_frames ?cfg id0 p k n) w1 w'" "tx_arrived tp' w' id0 p (k + n) us"
      using q'(2) by (simp_all add: tx_something_def)
    have at: "\<not> isotp_done ?cfg (length p) k"
    proof (cases "it_state (iso_tx tp1) = NX_ISOTP_TX_IDLE")
      case True
      then show ?thesis using s(1) by (simp add: tx_works_on_def isotp_done_def)
    next
      case False
      then have "tx_at ?cfg (iso_tx tp1) w1 p k" using s(1) q'(2) by (simp add: tx_works_on_def)
      then show ?thesis by (rule tx_at_not_done)
    qed
    have start: "it_state (iso_tx tp) \<noteq> NX_ISOTP_TX_IDLE \<and> tx_at ?cfg (iso_tx tp) w p k \<and> id0 = it_tx_id (iso_tx tp) \<or>
         k = 0 \<and> (\<exists>s r. chan w ?q = Some (Sdu s) # r \<and> p = sdu_bytes s \<and> id0 = sdu_id ?cfg s)"
    proof (cases "it_state (iso_tx tp1) = NX_ISOTP_TX_IDLE")
      case True
      then show ?thesis using s(1) q'(2) sdus by (auto simp: tx_works_on_def)
    next
      case False
      then have kept: "it_state (iso_tx tp) \<noteq> NX_ISOTP_TX_IDLE" "it_tx_id (iso_tx tp1) = it_tx_id (iso_tx tp)"
        "\<And>p k. tx_at ?cfg (iso_tx tp) w p k \<Longrightarrow> tx_at ?cfg (iso_tx tp1) w1 p k" using q'(2,7) by (auto simp: tx_kept_def)
      obtain p' k' where o: "tx_at ?cfg (iso_tx tp) w p' k'" using inv kept(1) by (auto simp: isotp_inv_def tx_ok_def)
      have "tx_at ?cfg (iso_tx tp1) w1 p k" "id0 = it_tx_id (iso_tx tp)" using s(1) False q'(2) kept(2) by (simp_all add: tx_works_on_def)
      with tx_at_unique[OF cfg _ kept(3)[OF o]] o kept(1) show ?thesis by auto
    qed
    have ok: "it_state (iso_tx tp') = NX_ISOTP_TX_IDLE \<Longrightarrow> 0 < n" using s(3) at r(3) by (cases n) (simp_all add: tx_arrived_def)
    have idle: "it_state (iso_tx tp') = NX_ISOTP_TX_IDLE" if "x \<in> set us1 \<union> set us" "is_ok_confirm x" for x
      using that q'(5) s(3) by (auto simp: tx_arrived_def)
    have a1: "it_state (iso_tx tp') \<noteq> NX_ISOTP_TX_IDLE \<longrightarrow> tx_at ?cfg (iso_tx tp') w' p (k + n) \<and> it_tx_id (iso_tx tp') = id0"
      and a2: "it_state (iso_tx tp') = NX_ISOTP_TX_IDLE \<and> 0 < n \<longrightarrow> isotp_done ?cfg (length p) (k + n)"
      using s(3) r(3) by (auto simp: tx_arrived_def)
    have a3: "(\<exists>x\<in>set (us1 @ us). is_ok_confirm x) \<longrightarrow> 0 < n \<and> it_state (iso_tx tp') = NX_ISOTP_TX_IDLE" using idle ok by auto
    have "isotp_call tp w (us1 @ us) fc (isotp_frames ?cfg id0 p k n) tp' w'"
      unfolding isotp_call_def
      by (intro conjI exI[of _ taken] exI[of _ id0] exI[of _ p] exI[of _ k] exI[of _ n]; (rule flow[OF s(2)] q'(6) a1 a2 a3 few refl)?) (use start in blast)
    then show ?thesis by (rule concl)
  qed
qed

end
