(* ===== verification/Nx_Isotp_Roundtrip.thy ===== *)
theory Nx_Isotp_Roundtrip
  imports Nx_Isotp
begin

text \<open>
  A message cut into frames by one instance of \<open>src/middleware/nx_can_isotp.c\<close> and put together again by another.
\<close>

section \<open>Reading back what a frame says\<close>

lemma low_nibble: "n < 16 \<Longrightarrow> (of_nat n :: u8) AND 0x0F = of_nat n"
proof -
  assume "n < 16"
  have "(of_nat n :: u8) AND mask 4 = of_nat (take_bit 4 n)" by (simp only: flip: take_bit_eq_mask) (simp only: of_nat_take_bit)
  then show ?thesis using \<open>n < 16\<close> by (simp add: mask_eq_exp_minus_1 take_bit_nat_eq_self)
qed

lemma high_nibble: "n < 16 \<Longrightarrow> (of_nat n :: u8) AND 0xF0 = 0"
proof -
  assume "n < 16"
  then have "(of_nat n :: u8) AND 0xF0 = (of_nat n AND 0x0F) AND 0xF0" by (simp add: low_nibble)
  also have "\<dots> = of_nat n AND (0x0F AND 0xF0)" by (simp only: and.assoc)
  finally show ?thesis by simp
qed

lemma pci_nibbles:
  assumes "n < 16" "h AND 0x0F = (0 :: u8)" "h AND 0xF0 = h"
  shows "(h OR of_nat n) AND 0x0F = of_nat n" "(h OR of_nat n) AND 0xF0 = h"
  using assms by (simp_all add: bit.conj_disj_distrib2 low_nibble high_nibble)

lemma len_12_bits:
  assumes "unat len \<le> 4095"
  shows "push_bit 8 (ucast ((0x10 OR ucast (drop_bit 8 len) :: u8) AND 0x0F)) OR ucast (ucast len :: u8) = (len :: u32)"
    "(0x10 OR ucast (drop_bit 8 len) :: u8) AND 0xF0 = 0x10"
proof -
  have hi: "(ucast (drop_bit 8 len) :: u8) = of_nat (unat len div 256)" "unat len div 256 < 16"
    using assms by (simp_all add: word_unat_eq_iff unsigned_ucast_eq unsigned_drop_bit_eq drop_bit_eq_div unsigned_of_nat unat_div)
  then have a: "(0x10 OR ucast (drop_bit 8 len) :: u8) AND 0x0F = of_nat (unat len div 256)"
    and b: "(0x10 OR ucast (drop_bit 8 len) :: u8) AND 0xF0 = 0x10"
    using pci_nibbles[of "unat len div 256" "0x10"] by simp_all
  show "(0x10 OR ucast (drop_bit 8 len) :: u8) AND 0xF0 = 0x10" by (rule b)
  have "(ucast (of_nat (unat len div 256) :: u8) :: u32) = drop_bit 8 len"
    using hi(2) by (simp add: word_unat_eq_iff unsigned_ucast_eq unsigned_drop_bit_eq drop_bit_eq_div unsigned_of_nat take_bit_nat_eq_self unat_div)
  moreover have "(ucast (ucast len :: u8) :: u32) = take_bit 8 len"
    by (simp add: word_unat_eq_iff unsigned_ucast_eq unsigned_take_bit_eq)
  moreover have "push_bit 8 (drop_bit 8 len) OR take_bit 8 len = len"
    by (rule bit_eqI) (auto simp: bit_simps)
  ultimately show "push_bit 8 (ucast ((0x10 OR ucast (drop_bit 8 len) :: u8) AND 0x0F)) OR ucast (ucast len :: u8) = len" by (simp add: a)
qed

lemma len_32_bits:
  "push_bit 24 (ucast (ucast (drop_bit 24 len) :: u8)) OR push_bit 16 (ucast (ucast (drop_bit 16 len) :: u8)) OR
   push_bit 8 (ucast (ucast (drop_bit 8 len) :: u8)) OR ucast (ucast len :: u8) = (len :: u32)"
  (is "?lhs = _")
proof (rule bit_word_eqI)
  fix n assume "n < LENGTH(32)"
  then have n: "n < 32" by simp
  consider "n < 8" | "8 \<le> n" "n < 16" | "16 \<le> n" "n < 24" | "24 \<le> n" by linarith
  then show "bit ?lhs n = bit len n"
  proof cases
    case 4
    then have "n - 24 < 8" "\<not> n - 16 < 8" "\<not> n - 8 < 8" using n by linarith+
    then show ?thesis using 4 n by (simp add: bit_simps)
  next
    case 3
    then have "n - 16 < 8" "\<not> n - 8 < 8" by linarith+
    then show ?thesis using 3 n by (simp add: bit_simps)
  next
    case 2
    then have "n - 8 < 8" by linarith
    then show ?thesis using 2 n by (simp add: bit_simps)
  qed (use n in \<open>simp_all add: bit_simps\<close>)
qed

section \<open>The frames as the receiver sees them\<close>

lemma take_min_left: "take m xs = take (min m (length xs)) xs"
  by (simp add: min_def)

lemma isotp_wire_small: "used \<le> 8 \<Longrightarrow> isotp_wire cfg used = (if ic_pad_frames cfg then 8 else used)"
  by (auto simp: isotp_wire_def len_of_dlc_small)

lemma isotp_wire_full:
  assumes "isotp_cfg_ok cfg"
  shows "isotp_wire cfg (unat (ic_max_frame_len cfg)) = unat (ic_max_frame_len cfg)"
proof -
  have v: "nx_can_dlc_to_len (nx_can_len_to_dlc (ucast (ic_max_frame_len cfg))) = ucast (ic_max_frame_len cfg)"
    using assms by (simp add: isotp_cfg_ok_def istp_frame_len_valid_def)
  have "unat (ucast (ic_max_frame_len cfg) :: u32) = unat (ic_max_frame_len cfg)" by (simp add: unat_ucast_wider)
  then have "len_of_dlc (dlc_of_len (unat (ic_max_frame_len cfg))) = unat (ic_max_frame_len cfg)"
    using arg_cong[OF v, of unat] by (simp add: unat_dlc_to_len unat_len_to_dlc)
  then show ?thesis using isotp_cfg_frame_len(1)[OF assms] by (simp add: isotp_wire_def)
qed

lemma isotp_frame_seen:
  assumes "0 < length xs" "length xs \<le> 64"
  shows "frame_dlen (isotp_frame cfg id0 xs) = isotp_wire cfg (length xs)"
    "\<exists>pad. cm_data (isotp_frame cfg id0 xs) = xs @ pad \<and> length xs + length pad = isotp_wire cfg (length xs)"
    "good_frame (isotp_frame cfg id0 xs)" "0 < frame_dlen (isotp_frame cfg id0 xs)"
proof -
  have len: "length (cm_data (isotp_frame cfg id0 xs)) = isotp_wire cfg (length xs)"
    using assms by (simp add: isotp_frame_def)
  show dl: "frame_dlen (isotp_frame cfg id0 xs) = isotp_wire cfg (length xs)" using len by (simp only: frame_dlen_isotp_frame[OF assms(2)])
  have le: "length xs \<le> isotp_wire cfg (length xs)" by (rule isotp_wire_bounds(1)[OF assms(2)])
  then show "\<exists>pad. cm_data (isotp_frame cfg id0 xs) = xs @ pad \<and> length xs + length pad = isotp_wire cfg (length xs)"
    by (intro exI[of _ "replicate (isotp_wire cfg (length xs) - length xs) (ic_pad_byte cfg)"]) (simp add: isotp_frame_def isotp_frame_bytes_def)
  show "good_frame (isotp_frame cfg id0 xs)" using len dl by (simp add: good_frame_def)
  show "0 < frame_dlen (isotp_frame cfg id0 xs)" using le assms(1) unfolding dl by linarith
qed

lemma isotp_unit_first: "\<not> isotp_single cfg (length p) \<Longrightarrow> isotp_unit cfg p 0 = istp_ff_pci (of_nat (length p)) @ take (isotp_ff_room cfg (length p)) p"
  by (simp add: isotp_unit_def)

text \<open>A single frame gives its length and the message back.\<close>

lemma isotp_single_read:
  fixes id0 :: u32
  assumes cfg: "isotp_cfg_ok cfg" and p: "isotp_single cfg (length p)" "p \<noteq> []"
  defines "f \<equiv> isotp_frame cfg id0 (isotp_unit cfg p 0)"
  shows "\<exists>hdr. istp_sf_len (cm_data f) (frame_dlen f) = Some (Some (length p, hdr)) \<and> take (length p) (drop hdr (cm_data f)) = p"
    "cm_data f ! 0 AND 0xF0 = 0" "good_frame f" "0 < frame_dlen f"
proof -
  define pci :: bytes where "pci = (if length p \<le> 7 then [of_nat (length p)] else [0, of_nat (length p)])"
  have u: "isotp_unit cfg p 0 = pci @ p" using p(1) by (simp add: isotp_unit_def pci_def)
  have cap: "length p \<le> istp_sf_capacity cfg" using p(1) by (simp add: isotp_single_def)
  have m: "8 \<le> unat (ic_max_frame_len cfg)" "unat (ic_max_frame_len cfg) \<le> 64" using isotp_cfg_frame_len[OF cfg] .
  have len: "0 < length (pci @ p)" "length (pci @ p) \<le> 64" "length p \<le> 62"
    using cap m isotp_cfg_cap[OF cfg] by (auto simp: pci_def)
  obtain pad where d: "cm_data f = (pci @ p) @ pad" "length (pci @ p) + length pad = isotp_wire cfg (length (pci @ p))"
    and dl: "frame_dlen f = isotp_wire cfg (length (pci @ p))" and g: "good_frame f" "0 < frame_dlen f"
    using isotp_frame_seen[OF len(1,2), of cfg id0] unfolding f_def u by blast
  show "good_frame f" "0 < frame_dlen f" by (rule g)+
  have un: "unat (of_nat (length p) :: u8) = length p" using len(3) by (simp add: unsigned_of_nat take_bit_nat_eq_self)
  show "cm_data f ! 0 AND 0xF0 = 0" unfolding d by (auto simp: pci_def high_nibble)
  show "\<exists>hdr. istp_sf_len (cm_data f) (frame_dlen f) = Some (Some (length p, hdr)) \<and> take (length p) (drop hdr (cm_data f)) = p"
  proof (cases "length p \<le> 7")
    case True
    have w: "frame_dlen f \<le> 8" "length p < frame_dlen f" using True dl isotp_wire_small[of "length (pci @ p)" cfg] by (auto simp: pci_def)
    have nib: "unat ((of_nat (length p) :: u8) AND 0x0F) = length p" using low_nibble[of "length p"] un True by simp
    have "istp_sf_len (cm_data f) (frame_dlen f) = Some (Some (length p, 1))"
      using w nib p(2) True by (simp add: istp_sf_len_def d pci_def mem_get_def Let_def)
    then show ?thesis using True by (intro exI[of _ 1]) (simp add: d pci_def)
  next
    case False
    have w: "8 < frame_dlen f" "\<not> frame_dlen f - 2 < length p"
      using False dl isotp_wire_bounds(1)[OF len(2), of cfg] by (auto simp: pci_def)
    have "istp_sf_len (cm_data f) (frame_dlen f) = Some (Some (length p, 2))"
      using w un False p(2) by (simp add: istp_sf_len_def d pci_def mem_get_def Let_def)
    then show ?thesis using False by (intro exI[of _ 2]) (simp add: d pci_def)
  qed
qed

lemma isotp_first_read:
  fixes id0 :: u32
  assumes cfg: "isotp_cfg_ok cfg" and p: "\<not> isotp_single cfg (length p)" "length p < 2 ^ 32"
  defines "f \<equiv> isotp_frame cfg id0 (isotp_unit cfg p 0)" and "r \<equiv> isotp_ff_room cfg (length p)"
  shows "\<exists>hdr. istp_ff_len (cm_data f) (frame_dlen f) = Some (Some (of_nat (length p), hdr)) \<and> frame_dlen f - hdr = r \<and>
      take r (drop hdr (cm_data f)) = take r p"
    "cm_data f ! 0 AND 0xF0 = 0x10" "good_frame f" "0 < frame_dlen f"
proof -
  define len :: u32 where "len = of_nat (length p)"
  have un: "unat len = length p" using p(2) by (simp add: len_def unsigned_of_nat take_bit_nat_eq_self)
  let ?pci = "istp_ff_pci len" and ?m = "unat (ic_max_frame_len cfg)"
  have m: "8 \<le> ?m" "?m \<le> 64" using isotp_cfg_frame_len[OF cfg] .
  have r: "r < length p" unfolding r_def by (rule isotp_not_single_ff[OF cfg p])
  have pl: "length ?pci = (if length p > 4095 then 6 else 2)" by (simp add: length_istp_ff_pci un)
  have rm: "r = ?m - length ?pci" by (simp add: r_def isotp_ff_room_def len_def)
  have u: "isotp_unit cfg p 0 = ?pci @ take r p" using p(1) by (simp add: isotp_unit_def len_def r_def)
  have ul: "length (?pci @ take r p) = ?m" using r rm pl m by auto
  have l0: "0 < length (?pci @ take r p)" "length (?pci @ take r p) \<le> 64" using ul m by simp_all
  obtain pad where d: "cm_data f = (?pci @ take r p) @ pad" "length (?pci @ take r p) + length pad = isotp_wire cfg (length (?pci @ take r p))"
    and dl: "frame_dlen f = isotp_wire cfg (length (?pci @ take r p))" and g: "good_frame f" "0 < frame_dlen f"
    using isotp_frame_seen[OF l0, of cfg id0] unfolding f_def u by blast
  show "good_frame f" "0 < frame_dlen f" by (rule g)+
  have dm: "frame_dlen f = ?m" using dl ul isotp_wire_full[OF cfg] by simp
  have pad: "pad = []" using d(2) ul isotp_wire_full[OF cfg] by simp
  have pos: "len \<noteq> 0" using un r by (metis not_less_zero unsigned_0)
  show "cm_data f ! 0 AND 0xF0 = 0x10"
    using len_12_bits(2)[of len] pl un by (auto simp: d istp_ff_pci_def)
  have "istp_ff_len (cm_data f) (frame_dlen f) = Some (Some (len, length ?pci))"
  proof (cases "length p > 4095")
    case True
    then have "?pci = [0x10, 0, ucast (drop_bit 24 len), ucast (drop_bit 16 len), ucast (drop_bit 8 len), ucast len]"
      by (simp add: istp_ff_pci_def un)
    then show ?thesis using dm m pos len_32_bits[of len] by (simp add: istp_ff_len_def d mem_get_def Let_def)
  next
    case False
    then have pci: "?pci = [0x10 OR ucast (drop_bit 8 len), ucast len]" by (simp add: istp_ff_pci_def un)
    have "unat len \<le> 4095" using False un by simp
    from len_12_bits(1)[OF this] show ?thesis using dm m pos pci by (simp add: istp_ff_len_def d mem_get_def Let_def)
  qed
  then show "\<exists>hdr. istp_ff_len (cm_data f) (frame_dlen f) = Some (Some (of_nat (length p), hdr)) \<and> frame_dlen f - hdr = r \<and>
      take r (drop hdr (cm_data f)) = take r p"
    using dm rm r d pad by (intro exI[of _ "length ?pci"]) (simp add: len_def)
qed

lemma isotp_next_read:
  fixes id0 :: u32
  assumes cfg: "isotp_cfg_ok cfg" and k: "0 < k" "isotp_offset cfg (length p) k < length p"
  defines "f \<equiv> isotp_frame cfg id0 (isotp_unit cfg p k)" and "off \<equiv> isotp_offset cfg (length p) k"
  defines "n \<equiv> min (isotp_cf_room cfg) (length p - off)"
  shows "min (frame_dlen f - 1) (length p - off) = n" "take n (drop 1 (cm_data f)) = take n (drop off p)"
    "cm_data f ! 0 AND 0xF0 = 0x20" "cm_data f ! 0 AND 0x0F = of_nat (k mod 16)" "good_frame f" "0 < frame_dlen f"
proof -
  let ?m = "unat (ic_max_frame_len cfg)"
  have m: "8 \<le> ?m" "?m \<le> 64" using isotp_cfg_frame_len[OF cfg] .
  have u: "isotp_unit cfg p k = (0x20 OR of_nat (k mod 16)) # take n (drop off p)"
    using k(1) by (simp add: isotp_unit_def n_def off_def take_min_left[of "isotp_cf_room cfg"])
  have nl: "length (take n (drop off p)) = n" "n \<le> ?m - 1" "0 < n" using k(2) m by (simp_all add: n_def off_def isotp_cf_room_def)
  have ul: "length (isotp_unit cfg p k) = Suc n" unfolding u using nl(1) by simp
  have l0: "0 < length (isotp_unit cfg p k)" "length (isotp_unit cfg p k) \<le> 64" using ul nl(2) m by simp_all
  obtain pad where d: "cm_data f = isotp_unit cfg p k @ pad"
    and dl: "frame_dlen f = isotp_wire cfg (Suc n)" and g: "good_frame f" "0 < frame_dlen f"
    using isotp_frame_seen[OF l0, of cfg id0] unfolding f_def ul by blast
  show "good_frame f" "0 < frame_dlen f" by (rule g)+
  show "min (frame_dlen f - 1) (length p - off) = n"
  proof (cases "isotp_cf_room cfg \<le> length p - off")
    case True
    then have "n = isotp_cf_room cfg" by (simp add: n_def)
    then have "Suc n = ?m" using m by (simp add: isotp_cf_room_def)
    then have "frame_dlen f = ?m" using dl isotp_wire_full[OF cfg] by simp
    then show ?thesis by (simp add: n_def isotp_cf_room_def)
  next
    case False
    then have "n = length p - off" by (simp add: n_def)
    moreover have "Suc n \<le> frame_dlen f" using isotp_wire_bounds(1)[of "Suc n" cfg] l0(2) ul dl by simp
    ultimately show ?thesis by simp
  qed
  have "take n (take n (drop off p) @ pad) = take n (drop off p)" using nl(1) by simp
  then show "take n (drop 1 (cm_data f)) = take n (drop off p)" unfolding d u by simp
  have "k mod 16 < 16" by simp
  from pci_nibbles[OF this, of "0x20"] show "cm_data f ! 0 AND 0xF0 = 0x20" "cm_data f ! 0 AND 0x0F = of_nat (k mod 16)"
    unfolding d u by simp_all
qed

section \<open>From the frames back to the message\<close>

text \<open>
  The receiver takes the frames one after the other. \<open>None\<close> when before one of the later frames it is not
  collecting: the reception was refused, or its flow control could not be sent.
\<close>

fun isotp_receive :: "'e nx_can_isotp \<Rightarrow> 'e tp_world \<Rightarrow> nx_can_msg list \<Rightarrow> ('e nx_can_isotp \<times> 'e tp_world) option" where
  "isotp_receive tp w [] = Some (tp, w)"
| "isotp_receive tp w (f # fs) = do {
     (tp1, w1) \<leftarrow> istp_rx_phys_frame tp w f;
     if fs = [] \<or> ir_state (iso_rx tp1) = NX_ISOTP_RX_ASSEM then isotp_receive tp1 w1 fs else None }"

definition isotp_cut :: "'e nx_can_isotp_cfg \<Rightarrow> u32 \<Rightarrow> bytes \<Rightarrow> nat \<Rightarrow> nat \<Rightarrow> nx_can_msg list" where
  "isotp_cut cfg id0 p k n = map (\<lambda>j. isotp_frame cfg id0 (isotp_unit cfg p j)) [k..<k + n]"

lemma isotp_cut_frames: "isotp_frames cfg id0 p k n = map (Some \<circ> Frame) (isotp_cut cfg id0 p k n)"
  by (simp add: isotp_frames_def isotp_cut_def)

lemma isotp_cut_Suc: "isotp_cut cfg id0 p k (Suc n) = isotp_frame cfg id0 (isotp_unit cfg p k) # isotp_cut cfg id0 p (Suc k) n"
  by (simp add: isotp_cut_def upt_conv_Cons del: upt_Suc)

lemma isotp_cut_none: "isotp_cut cfg id0 p k n = [] \<longleftrightarrow> n = 0" "isotp_cut cfg id0 p k 0 = []"
  by (auto simp: isotp_cut_def)

lemma rx_delivered_later:
  assumes "rx_step K tp w [] fs tp1 w1" "rx_delivered tp1 w1 p us"
  shows "rx_delivered tp w p us"
proof -
  have s: "isotp_bus_ok (iso_cfg tp) w1" "iso_cfg tp1 = iso_cfg tp" "chan_cap w1 = chan_cap w" "bus_adds (iso_cfg tp) [] fs w w1"
    using assms(1) by (auto simp: rx_step_def rx_inv_def bus_keeps_def bus_shape_def)
  then have "chan w1 (ic_sdu_tx_queue (iso_cfg tp)) = chan w (ic_sdu_tx_queue (iso_cfg tp))"
    by (auto simp: bus_adds_def isotp_bus_ok_def isotp_cfg_ok_def)
  then show ?thesis using assms(2) s(2,3) by (simp add: rx_delivered_def)
qed

text \<open>The rest of the message, from frame \<open>k\<close> on.\<close>

lemma isotp_receive_rest:
  assumes cs: "isotp_cfg_ok cs" and p: "length p < 2 ^ 32"
    and inv: "rx_inv tp w K" "ir_state (iso_rx tp) = NX_ISOTP_RX_ASSEM"
    and holds: "rx_holds tp w (of_nat (length p)) (take (isotp_offset cs (length p) k) p) (of_nat (k mod 16))"
    and k: "0 < k" "isotp_offset cs (length p) k < length p"
    and n: "length p \<le> isotp_offset cs (length p) (k + n)" "\<And>j. j < n \<Longrightarrow> isotp_offset cs (length p) (k + j) < length p"
    and run: "isotp_receive tp w (isotp_cut cs id0 p k n) = Some (tp', w')"
  shows "\<exists>us fs. rx_step K tp w us fs tp' w' \<and> rx_idle (iso_rx tp') \<and> rx_delivered tp w p us"
  using inv holds k n run
proof (induction n arbitrary: tp w k)
  case 0
  then show ?case by simp
next
  case (Suc n)
  let ?off = "isotp_offset cs (length p)" and ?f = "isotp_frame cs id0 (isotp_unit cs p k)"
  let ?m = "min (isotp_cf_room cs) (length p - ?off k)"
  have un: "unat (of_nat (length p) :: u32) = length p" using p by (simp add: unsigned_of_nat take_bit_nat_eq_self)
  have rd: "min (frame_dlen ?f - 1) (length p - ?off k) = ?m" "take ?m (drop 1 (cm_data ?f)) = take ?m (drop (?off k) p)"
    "cm_data ?f ! 0 AND 0xF0 = 0x20" "cm_data ?f ! 0 AND 0x0F = of_nat (k mod 16)" "good_frame ?f" "0 < frame_dlen ?f"
    using isotp_next_read[OF cs Suc.prems(4,5), of id0] by blast+
  have d0: "mem_get 0 (cm_data ?f) = Some (cm_data ?f ! 0)" using rd(5,6) by (auto simp: good_frame_def mem_get_def)
  have ys: "length (take (?off k) p) = ?off k" using Suc.prems(5) by simp
  obtain tp1 w1 us fs where cf0: "istp_rx_cf tp w ?f = Some (tp1, w1)" "rx_step K tp w us fs tp1 w1"
    "\<forall>len ys sn. ir_state (iso_rx tp) = NX_ISOTP_RX_ASSEM \<longrightarrow> rx_holds tp w len ys sn \<longrightarrow>
       (let n = min (frame_dlen ?f - 1) (unat len - length ys); xs = take n (drop 1 (cm_data ?f)) in
        if cm_data ?f ! 0 AND 0x0F \<noteq> sn then rx_idle (iso_rx tp1) \<and> rx_reports tp us
        else if length ys + n = unat len then rx_idle (iso_rx tp1) \<and> rx_delivered tp w (ys @ xs) us
        else rx_holds tp1 w1 len (ys @ xs) ((sn + 1) AND 0x0F) \<and> us = [])"
    using istp_rx_cf_spec[OF Suc.prems(1) rd(5,6)] by blast
  have cf: "istp_rx_cf tp w ?f = Some (tp1, w1)" "rx_step K tp w us fs tp1 w1"
    "if length p = ?off k + ?m then rx_idle (iso_rx tp1) \<and> rx_delivered tp w (take (?off k) p @ take ?m (drop (?off k) p)) us
     else rx_holds tp1 w1 (of_nat (length p)) (take (?off k) p @ take ?m (drop (?off k) p)) ((of_nat (k mod 16) + 1) AND 0x0F) \<and> us = []"
    using cf0(1,2) cf0(3)[rule_format, OF Suc.prems(2,3)] unfolding Let_def un ys rd(1,2,4) by (auto split: if_splits)
  have ph: "istp_rx_phys_frame tp w ?f = Some (tp1, w1)" using cf(1) rd(3) d0 by (simp add: istp_rx_phys_frame_def Let_def)
  have nxt: "?off (Suc k) = ?off k + isotp_cf_room cs" by (rule isotp_offset_next[OF Suc.prems(4)])
  show ?case
  proof (cases "length p \<le> ?off (Suc k)")
    case True
    then have m: "length p = ?off k + ?m" using nxt Suc.prems(5) by simp
    have "n = 0"
    proof (rule ccontr)
      assume "n \<noteq> 0"
      then have "?off (k + 1) < length p" using Suc.prems(7)[of 1] by simp
      then show False using True by simp
    qed
    then have "tp' = tp1" "w' = w1" using Suc.prems(8) ph by (simp_all add: isotp_cut_Suc isotp_cut_none)
    moreover have "take (?off k) p @ take ?m (drop (?off k) p) = p" using m by simp
    ultimately show ?thesis using cf(2,3) m by auto
  next
    case False
    then have m: "?m = isotp_cf_room cs" "length p \<noteq> ?off k + ?m" using nxt by auto
    have h: "rx_holds tp1 w1 (of_nat (length p)) (take (?off (Suc k)) p) (of_nat (Suc k mod 16))" "us = []"
      using cf(3) m by (auto simp: nxt take_add sn_next)
    have n0: "n \<noteq> 0" using Suc.prems(6) False by (cases n) auto
    have st: "ir_state (iso_rx tp1) = NX_ISOTP_RX_ASSEM" and rest: "isotp_receive tp1 w1 (isotp_cut cs id0 p (Suc k) n) = Some (tp', w')"
      using Suc.prems(8) ph n0 by (simp_all add: isotp_cut_Suc isotp_cut_none split: if_splits)
    have inv1: "rx_inv tp1 w1 K" using cf(2) by (simp add: rx_step_def)
    have "\<And>j. j < n \<Longrightarrow> ?off (Suc k + j) < length p" using Suc.prems(7)[of "Suc _"] by simp
    from Suc.IH[OF inv1 st h(1) _ _ _ this rest] obtain us' fs' where r: "rx_step K tp1 w1 us' fs' tp' w'" "rx_idle (iso_rx tp')" "rx_delivered tp1 w1 p us'"
      using False Suc.prems(6) by auto
    have "rx_step K tp w us' (fs @ fs') tp' w'" using rx_step_trans[OF cf(2) r(1)] h(2) by simp
    then show ?thesis using r(2) rx_delivered_later[OF cf(2)[unfolded h(2)] r(3)] by blast
  qed
qed

text \<open>
  The whole message, in the \<open>n\<close> frames it takes, received by an idle instance.
\<close>

lemma isotp_receive_all:
  assumes cs: "isotp_cfg_ok cs" and p: "p \<noteq> []" "length p < 2 ^ 32"
    and inv: "rx_inv tp w K" "ir_state (iso_rx tp) = NX_ISOTP_RX_IDLE"
    and n: "isotp_done cs (length p) n" "\<And>k. k < n \<Longrightarrow> \<not> isotp_done cs (length p) k"
    and run: "isotp_receive tp w (isotp_cut cs id0 p 0 n) = Some (tp', w')"
  shows "\<exists>us fs. rx_step K tp w us fs tp' w' \<and> rx_idle (iso_rx tp') \<and>
    (us = [] \<or> us = [Some (Sdu (isotp_indication (iso_cfg tp) NX_TP_TA_PHYSICAL p))]) \<and>
    (1 < n \<longrightarrow> rx_delivered tp w p us)"
proof -
  obtain n' where nn: "n = Suc n'" using n(1) by (cases n) (simp_all add: isotp_done_def)
  let ?f = "isotp_frame cs id0 (isotp_unit cs p 0)"
  have st: "ir_state (iso_rx tp) = NX_ISOTP_RX_IDLE" by (rule inv(2))
  have none: "us = []" if "rx_reports tp us" for us using that st by (simp add: rx_reports_def)
  show ?thesis
  proof (cases "isotp_single cs (length p)")
    case True
    have n1: "n = 1"
    proof (rule ccontr)
      assume "n \<noteq> 1"
      then have "1 < n" using nn by simp
      from n(2)[OF this] True show False by (simp add: isotp_done_def)
    qed
    obtain hdr where rd: "istp_sf_len (cm_data ?f) (frame_dlen ?f) = Some (Some (length p, hdr))" "take (length p) (drop hdr (cm_data ?f)) = p"
      and g: "cm_data ?f ! 0 AND 0xF0 = 0" "good_frame ?f" "0 < frame_dlen ?f"
      using isotp_single_read[OF cs True p(1), of id0] by blast
    have d0: "mem_get 0 (cm_data ?f) = Some (cm_data ?f ! 0)" using g(2,3) by (auto simp: good_frame_def mem_get_def)
    obtain tp1 w1 us where sf: "istp_rx_sf tp w ?f = Some (tp1, w1)" "rx_step K tp w us [] tp1 w1" "rx_idle (iso_rx tp1)"
      "case istp_sf_len (cm_data ?f) (frame_dlen ?f) of
         Some (Some (plen, hdr)) \<Rightarrow> delivers tp NX_TP_TA_PHYSICAL (take plen (drop hdr (cm_data ?f))) us
       | _ \<Rightarrow> rx_reports tp us"
      using istp_rx_sf_spec[OF inv(1) g(2,3)] by blast
    have "delivers tp NX_TP_TA_PHYSICAL p us" using sf(4) rd by simp
    then have us: "us = [] \<or> us = [Some (Sdu (isotp_indication (iso_cfg tp) NX_TP_TA_PHYSICAL p))]"
      using none by (auto simp: delivers_def split: if_splits)
    have "istp_rx_phys_frame tp w ?f = Some (tp1, w1)" using sf(1) d0 g(1) by (simp add: istp_rx_phys_frame_def Let_def)
    then have "tp' = tp1" "w' = w1" using run n1 by (simp_all add: isotp_cut_def)
    then show ?thesis using sf(2,3) us n1 by blast
  next
    case False
    let ?r = "isotp_ff_room cs (length p)"
    obtain hdr where rd: "istp_ff_len (cm_data ?f) (frame_dlen ?f) = Some (Some (of_nat (length p), hdr))" "frame_dlen ?f - hdr = ?r"
        "take ?r (drop hdr (cm_data ?f)) = take ?r p"
      and g: "cm_data ?f ! 0 AND 0xF0 = 0x10" "good_frame ?f" "0 < frame_dlen ?f"
      using isotp_first_read[OF cs False p(2), of id0] by blast
    have d0: "mem_get 0 (cm_data ?f) = Some (cm_data ?f ! 0)" using g(2,3) by (auto simp: good_frame_def mem_get_def)
    have r: "?r < length p" by (rule isotp_not_single_ff[OF cs False p(2)])
    have off1: "isotp_offset cs (length p) 1 = ?r" by (simp add: isotp_offset_def)
    have n0: "n' \<noteq> 0" using n(1) r False by (cases n') (simp_all add: nn isotp_done_def isotp_offset_def)
    have un: "unat (of_nat (length p) :: u32) = length p" using p(2) by (simp add: unsigned_of_nat take_bit_nat_eq_self)
    obtain tp1 w1 us fs where ff: "istp_rx_ff tp w ?f = Some (tp1, w1)" "rx_step K tp w us fs tp1 w1"
      "rx_idle (iso_rx tp1) \<or> rx_holds tp1 w1 (of_nat (length p)) (take ?r p) 1 \<and> rx_reports tp us"
      using istp_rx_ff_spec[OF inv(1) g(2)] rd r un by (auto simp: min_def split: if_splits)
    have "istp_rx_phys_frame tp w ?f = Some (tp1, w1)" using ff(1) d0 g(1) by (simp add: istp_rx_phys_frame_def Let_def)
    then have st1: "ir_state (iso_rx tp1) = NX_ISOTP_RX_ASSEM" and rest: "isotp_receive tp1 w1 (isotp_cut cs id0 p 1 n') = Some (tp', w')"
      using run n0 by (simp_all add: nn isotp_cut_Suc isotp_cut_none split: if_splits)
    then have h: "rx_holds tp1 w1 (of_nat (length p)) (take (isotp_offset cs (length p) 1) p) (of_nat (1 mod 16))" "us = []"
      using ff(3) none off1 by (auto simp: rx_idle_def)
    have inv1: "rx_inv tp1 w1 K" using ff(2) by (simp add: rx_step_def)
    have le: "length p \<le> isotp_offset cs (length p) (1 + n')" using n(1) False by (simp add: nn isotp_done_def)
    have lt: "isotp_offset cs (length p) (1 + j) < length p" if "j < n'" for j
      using n(2)[of "1 + j"] that False by (simp add: nn isotp_done_def)
    obtain us' fs' where x: "rx_step K tp1 w1 us' fs' tp' w'" "rx_idle (iso_rx tp')" "rx_delivered tp1 w1 p us'"
      using isotp_receive_rest[OF cs p(2) inv1 st1 h(1) _ _ le lt rest] r off1 by auto
    have "rx_step K tp w us' (fs @ fs') tp' w'" using rx_step_trans[OF ff(2) x(1)] h(2) by simp
    moreover have d: "rx_delivered tp w p us'" by (rule rx_delivered_later[OF ff(2)[unfolded h(2)] x(3)])
    moreover have "us' = [] \<or> us' = [Some (Sdu (isotp_indication (iso_cfg tp) NX_TP_TA_PHYSICAL p))]"
      using d by (simp add: rx_delivered_def)
    ultimately show ?thesis using x(2) by blast
  qed
qed

end
