(* ===== verification/Nx_Demo_Bus.thy ===== *)
theory Nx_Demo_Bus
  imports Nx_Msg_Bus
begin

text \<open>
  A small concrete world of messages, on which the theorems about the components that exchange messages are evaluated.
\<close>

text \<open>
  A pool with two 64-byte blocks, four queues of two pointers, and a clock that advances by one with each reading.
\<close>

definition demo_queue :: nx_queue where
  "demo_queue = \<lparr> q_buffer = Some (replicate 16 0), q_element_size = 8, q_capacity = 2, q_head = 0, q_count = 0,
     q_on_full = NX_QUEUE_ON_FULL_REJECT \<rparr>"

definition demo_tier :: "nat \<Rightarrow> nx_tiered_level" where
  "demo_tier i = \<lparr> tl_base = 1024 + 64 * i, tl_end = 1088 + 64 * i, tl_block_size = 64, tl_block_count = 1, tl_free_count = 1,
     tl_min_free_count = 1, tl_next_free_hint = 0, tl_used_at = 640 + i, tl_used = [0] \<rparr>"

definition demo_bus :: "(u32, 'd) ref_world" where
  "demo_bus = \<lparr> rw_pools = [8 \<mapsto> \<lparr> tp_tiers_at = 512, tp_tiers = [demo_tier 0, demo_tier 1], tp_forbid_fallback = False, tp_lock = None \<rparr>],
     rw_msgs = (\<lambda>_. None),
     rw_queues = [16 \<mapsto> demo_queue, 24 \<mapsto> demo_queue, 32 \<mapsto> demo_queue, 40 \<mapsto> demo_queue],
     rw_env = 0 \<rparr>"

lemma demo_bus_start: "ref_start demo_bus"
proof -
  have live: "level_live (demo_tier i) = {}" for i by (auto simp: level_live_def level_bit_def demo_tier_def)
  have wf: "level_wf (demo_tier 0)" "level_wf (demo_tier 1)"
    unfolding level_wf_def live by (simp_all add: demo_tier_def NX_TIERED_ALIGN_def)
  have "pool_live \<lparr> tp_tiers_at = 512, tp_tiers = [demo_tier 0, demo_tier 1], tp_forbid_fallback = False, tp_lock = None \<rparr> = {}"
    by (simp add: pool_live_def tiers_live_def live)
  moreover have "pool_wf \<lparr> tp_tiers_at = 512, tp_tiers = [demo_tier 0, demo_tier 1], tp_forbid_fallback = False, tp_lock = None \<rparr>"
    using wf by (simp add: pool_wf_def tiers_wf_def) (simp add: demo_tier_def)
  ultimately show ?thesis
    by (auto simp: ref_start_def demo_bus_def demo_queue_def ref_queues_ok_def ref_pools_ok_def queue_like_def queue_wf_def
        queue_items_def split: if_splits)
qed

lemma demo_chans: "chan demo_bus q = []"
  by (auto simp: chan_def demo_bus_def demo_queue_def queue_items_def split: if_splits)

lemmas demo_bus_run = demo_bus_def demo_tier_def demo_queue_def mem_get_def mem_read_def mem_write_def REF_MSG_SIZEOF_def
  nx_ref_msg_alloc_def nx_tiered_mem_pool_alloc_def nx_lock_enter_def nx_lock_exit_def tiered_claim_def nx_tiered_bit_used_def
  nx_tiered_bit_set_def nx_ref_msg_publish_def nx_queue_push_def nx_queue_slot_def nx_ref_msg_release_def msg_put_def

end
