(* ===== verification/Nx_Isotp_Contract.thy ===== *)
theory Nx_Isotp_Contract
  imports Nx_Isotp_Roundtrip Nx_Demo_Bus
begin

text \<open>
  What \<open>src/middleware/nx_can_isotp.h\<close> promises its caller: an instance is set up, messages are queued, and calls of
  \<open>nx_can_isotp_process\<close> carry them over the link.
\<close>

section \<open>Setting up and queueing\<close>

text \<open>What \<open>nx_can_isotp_init\<close> does not check: that pool and queues exist, and that the queues are four.\<close>

definition isotp_wired :: "'e nx_can_isotp_cfg \<Rightarrow> 'e tp_world \<Rightarrow> bool" where
  "isotp_wired cfg w \<longleftrightarrow> ic_pool cfg \<in> dom (rw_pools w) \<and>
     distinct [ic_sdu_rx_queue cfg, ic_sdu_tx_queue cfg, ic_can_rx_queue cfg, ic_can_tx_queue cfg] \<and>
     {ic_sdu_rx_queue cfg, ic_sdu_tx_queue cfg, ic_can_rx_queue cfg, ic_can_tx_queue cfg} \<subseteq> dom (rw_queues w)"

lemma isotp_wired_bus:
  assumes "isotp_cfg_valid cfg" "isotp_wired cfg w"
  shows "isotp_bus_ok (isotp_cfg_defaults cfg) w"
proof -
  have "ic_ch cfg \<le> 15" using assms(1) by (simp add: isotp_cfg_valid_def not_less)
  then show ?thesis
    using assms by (auto simp: isotp_bus_ok_def isotp_cfg_ok_def isotp_cfg_defaults_def isotp_wired_def isotp_cfg_valid_def Let_def chan_cap_def)
qed

lemma isotp_fresh_inv:
  assumes "isotp_bus_ok cfg w" "ref_inv w H"
  shows "isotp_inv \<lparr> iso_cfg = cfg, iso_rx = isotp_rx_zero, iso_tx = isotp_tx_zero \<rparr> w H"
proof -
  have "htx isotp_tx_zero = (\<lambda>_. 0)" "hrx isotp_rx_zero = (\<lambda>_. 0)" by (simp_all add: isotp_tx_zero_def isotp_rx_zero_def)
  then show ?thesis using assms by (simp add: isotp_inv_def rx_ok_def tx_ok_def isotp_tx_zero_def isotp_rx_zero_def)
qed

lemma isotp_inv_same:
  assumes inv: "isotp_inv tp w H" and ref: "ref_inv w' (\<lambda>a. H a + hrx (iso_rx tp) a + htx (iso_tx tp) a)"
    and keeps: "bus_keeps (\<lambda>a. H a + hrx (iso_rx tp) a + htx (iso_tx tp) a) w w'"
  shows "isotp_inv tp w' H"
proof -
  have "rx_ok (iso_rx tp) w' (\<lambda>a. H a + htx (iso_tx tp) a)"
    by (rule rx_ok_keeps[of _ w]) (use inv keeps in \<open>auto simp: isotp_inv_def elim: bus_keeps_mono\<close>)
  moreover have "payload w' (it_sdu (iso_tx tp)) = payload w (it_sdu (iso_tx tp))" if "it_sdu (iso_tx tp) \<noteq> 0"
    using keeps that by (simp add: bus_keeps_def htx_def)
  from tx_ok_cong[OF this] have "tx_ok (iso_cfg tp) (iso_tx tp) w'" using inv by (simp add: isotp_inv_def)
  moreover have "isotp_bus_ok (iso_cfg tp) w'" using inv keeps isotp_bus_keeps by (auto simp: isotp_inv_def bus_keeps_def)
  ultimately show ?thesis using ref by (simp add: isotp_inv_def)
qed

text \<open>The arguments \<open>nx_can_isotp_send\<close> takes.\<close>

definition isotp_send_args :: "'e nx_can_isotp_cfg \<Rightarrow> nat \<Rightarrow> u32 \<Rightarrow> bool" where
  "isotp_send_args cfg len ta \<longleftrightarrow> len \<noteq> 0 \<and>
     (ta = ucast NX_TP_TA_PHYSICAL \<or> ta = ucast NX_TP_TA_FUNCTIONAL \<and> ic_func_tx_id cfg \<noteq> 0 \<and> len \<le> istp_sf_capacity cfg)"

lemma nx_can_isotp_send_spec:
  assumes inv: "isotp_inv tp w H" and src: "len \<le> length src"
  shows "\<exists>r w'. nx_can_isotp_send (Some tp) w (Some src) len ta = Some (r, w') \<and> isotp_inv tp w' H \<and> held_kept H w w' \<and>
    (if r = NX_CAN_ISOTP_OK
     then \<exists>s. chan w' = (chan w)(ic_sdu_rx_queue (iso_cfg tp) := chan w (ic_sdu_rx_queue (iso_cfg tp)) @ [Some (Sdu s)]) \<and>
            good_sdu s \<and> sdu_bytes s = take len src \<and> sd_ta_type s = ucast ta
     else chan w' = chan w) \<and>
    (r = NX_CAN_ISOTP_ERR_PARAM \<longleftrightarrow> \<not> isotp_send_args (iso_cfg tp) len ta) \<and>
    (r = NX_CAN_ISOTP_ERR_LENGTH \<longleftrightarrow> isotp_send_args (iso_cfg tp) len ta \<and> NX_CAN_ISOTP_MAX_MSG_LEN < len) \<and>
    (r = NX_CAN_ISOTP_ERR_FULL \<longrightarrow> the (chan_cap w (ic_sdu_rx_queue (iso_cfg tp))) \<le> length (chan w (ic_sdu_rx_queue (iso_cfg tp)))) \<and>
    r \<noteq> NX_CAN_ISOTP_ERR_STATE"
proof -
  let ?cfg = "iso_cfg tp" and ?G = "\<lambda>a. H a + hrx (iso_rx tp) a + htx (iso_tx tp) a" and ?q = "ic_sdu_rx_queue (iso_cfg tp)"
  have bus: "isotp_bus_ok ?cfg w" and ref: "ref_inv w ?G" using inv by (simp_all add: isotp_inv_def)
  have cfg: "isotp_cfg_ok ?cfg" by (rule isotp_inv_cfg[OF inv])
  show ?thesis
  proof (cases "isotp_send_args ?cfg len ta")
    case False
    then have "nx_can_isotp_send (Some tp) w (Some src) len ta = Some (NX_CAN_ISOTP_ERR_PARAM, w)"
      by (auto simp: nx_can_isotp_send_def isotp_send_args_def)
    then show ?thesis using False inv by simp
  next
    case args: True
    show ?thesis
    proof (cases "NX_CAN_ISOTP_MAX_MSG_LEN < len")
      case True
      then have "nx_can_isotp_send (Some tp) w (Some src) len ta = Some (NX_CAN_ISOTP_ERR_LENGTH, w)"
        using args by (auto simp: nx_can_isotp_send_def isotp_send_args_def)
      then show ?thesis using args True inv by simp
    next
      case fits: False
      define s where "s = istp_sdu_head ?cfg (of_nat len) NX_TP_SDU_INDICATION (ucast ta) NX_TP_N_OK (take len src)"
      have n32: "len < 2 ^ 32" using fits by (simp add: NX_CAN_ISOTP_MAX_MSG_LEN_def)
      have un: "unat (of_nat len :: u32) = len" using n32 by (simp add: unsigned_of_nat take_bit_nat_eq_self)
      have s: "length (sd_data s) = len" "good_sdu s" "sdu_bytes s = take len src" "sd_ta_type s = ucast ta"
        using src by (simp_all add: s_def istp_sdu_head_def good_sdu_def sdu_bytes_def un)
      have run: "nx_can_isotp_send (Some tp) w (Some src) len ta = do {
            (m, w1) \<leftarrow> nx_ref_msg_alloc w (ic_pool ?cfg) (TP_SDU_SIZEOF + length (sd_data s));
            if m = 0 then Some (NX_CAN_ISOTP_ERR_NOMEM, w1)
            else do {
              w2 \<leftarrow> msg_store w1 m (Sdu s);
              (r, w3) \<leftarrow> nx_ref_msg_publish w2 m ?q;
              if r \<noteq> NX_REF_MSG_OK then do { (_, w4) \<leftarrow> nx_ref_msg_release w3 m; Some (NX_CAN_ISOTP_ERR_FULL, w4) }
              else do { (_, w4) \<leftarrow> nx_ref_msg_release w3 m; Some (NX_CAN_ISOTP_OK, w4) } } }"
      proof -
        have g: "\<not> len = 0" "\<not> (ta = ucast NX_TP_TA_FUNCTIONAL \<and> (ic_func_tx_id ?cfg = 0 \<or> len > istp_sf_capacity ?cfg))"
          "\<not> (ta \<noteq> ucast NX_TP_TA_FUNCTIONAL \<and> ta \<noteq> ucast NX_TP_TA_PHYSICAL)"
          using args by (auto simp: isotp_send_args_def)
        have rd: "mem_read 0 len src = Some (take len src)" using src by (simp add: mem_read_def)
        show ?thesis
          unfolding nx_can_isotp_send_def prod.case option.case if_not_P[OF g(1)] if_not_P[OF g(2)] if_not_P[OF g(3)] if_not_P[OF fits] rd s(1)
          unfolding s_def bind.bind_lunit ..
      qed
      obtain n where q: "?q \<noteq> 0" "chan_cap w ?q = Some n" using bus cfg by (auto simp: isotp_bus_ok_def isotp_cfg_ok_def)
      have len: "length (sd_data s) \<le> 2 ^ 32" using s(1) n32 by simp
      from bus ref len q show ?thesis
      proof (cases rule: send_sdu)
        case (nomem w1)
        then show ?thesis
          unfolding run using args fits isotp_inv_same[OF inv nomem(2,4)] bus_keeps_held[OF nomem(4), of H]
          by (intro exI[of _ NX_CAN_ISOTP_ERR_NOMEM] exI[of _ w1]) simp
      next
        case (sent a w1 w2 w3 w4)
        let ?ok = "length (chan w ?q) < n"
        have "nx_can_isotp_send (Some tp) w (Some src) len ta = Some (if ?ok then NX_CAN_ISOTP_OK else NX_CAN_ISOTP_ERR_FULL, w4)"
          unfolding run using sent(1-5) by simp
        then show ?thesis
          using args fits isotp_inv_same[OF inv sent(6,8)] bus_keeps_held[OF sent(8), of H] sent(7) s q(2)
          by (intro exI[of _ "if ?ok then NX_CAN_ISOTP_OK else NX_CAN_ISOTP_ERR_FULL"] exI[of _ w4]) (auto simp: sent_to_def)
      qed
    qed
  qed
qed

section \<open>Properties\<close>

text \<open>
  For a configuration whose pool and four different queues exist, \<open>nx_can_isotp_init\<close> accepts exactly the valid ones,
  leaves the instance alone when it refuses, and otherwise sets up an instance that keeps the invariant of the program it is
  added to (whatever messages others hold), with both sides idle and no timeout or wait limit of zero.
\<close>
theorem nx_can_isotp_init_sets_up:
  assumes "isotp_wired cfg w" and "ref_inv w H"
  shows "if isotp_cfg_valid cfg
         then \<exists>tp. nx_can_isotp_init (Some tp0) (Some cfg) = (True, Some tp) \<and> isotp_inv tp w H \<and>
           ir_state (iso_rx tp) = NX_ISOTP_RX_IDLE \<and> it_state (iso_tx tp) = NX_ISOTP_TX_IDLE \<and>
           0 \<notin> {ic_n_as_us (iso_cfg tp), ic_n_ar_us (iso_cfg tp), ic_n_bs_us (iso_cfg tp), ic_n_cr_us (iso_cfg tp)} \<and>
           ic_n_wft_max (iso_cfg tp) \<noteq> 0
         else nx_can_isotp_init (Some tp0) (Some cfg) = (False, Some tp0)"
proof (cases "isotp_cfg_valid cfg")
  case True
  have "isotp_inv \<lparr> iso_cfg = isotp_cfg_defaults cfg, iso_rx = isotp_rx_zero, iso_tx = isotp_tx_zero \<rparr> w H"
    by (rule isotp_fresh_inv[OF isotp_wired_bus[OF True assms(1)] assms(2)])
  then show ?thesis
    using True by (simp add: nx_can_isotp_init_def isotp_rx_zero_def isotp_tx_zero_def) (simp add: isotp_cfg_defaults_def Let_def)
next
  case False
  then show ?thesis by (simp add: nx_can_isotp_init_def)
qed

text \<open>
  \<open>nx_can_isotp_send\<close> on a running instance never fails in an undefined way and keeps the invariant. On OK the bytes
  are the last message of the instance's input queue, on any other result no queue changed; bad arguments and
  oversized messages are told apart, and FULL means that the queue had no room.
\<close>
theorem nx_can_isotp_send_queues:
  assumes "isotp_inv tp w H" and "len \<le> length src"
  shows "\<exists>r w'. nx_can_isotp_send (Some tp) w (Some src) len ta = Some (r, w') \<and> isotp_inv tp w' H \<and> held_kept H w w' \<and>
    (if r = NX_CAN_ISOTP_OK
     then \<exists>s. chan w' = (chan w)(ic_sdu_rx_queue (iso_cfg tp) := chan w (ic_sdu_rx_queue (iso_cfg tp)) @ [Some (Sdu s)]) \<and>
            good_sdu s \<and> sdu_bytes s = take len src \<and> sd_ta_type s = ucast ta
     else chan w' = chan w) \<and>
    (r = NX_CAN_ISOTP_ERR_PARAM \<longleftrightarrow> \<not> isotp_send_args (iso_cfg tp) len ta) \<and>
    (r = NX_CAN_ISOTP_ERR_LENGTH \<longleftrightarrow> isotp_send_args (iso_cfg tp) len ta \<and> NX_CAN_ISOTP_MAX_MSG_LEN < len) \<and>
    (r = NX_CAN_ISOTP_ERR_FULL \<longrightarrow> the (chan_cap w (ic_sdu_rx_queue (iso_cfg tp))) \<le> length (chan w (ic_sdu_rx_queue (iso_cfg tp)))) \<and>
    r \<noteq> NX_CAN_ISOTP_ERR_STATE"
  by (rule nx_can_isotp_send_spec[OF assms])

text \<open>
  C3: a call of \<open>nx_can_isotp_process\<close> is defined whatever frames and messages wait (no access outside a frame, a message
  or a queue, no released message touched, no endless drain) and keeps the invariant: the references the instance
  holds are exactly those of the message it assembles and the message it sends, so nothing is leaked or freed
  twice; what others hold is untouched, all waiting frames are taken and at most one message.
\<close>
theorem nx_can_isotp_process_sound:
  assumes "isotp_inv tp w H" and "isotp_inputs_ok (iso_cfg tp) w"
  shows "\<exists>tp' w'. nx_can_isotp_process (Some tp) w = Some (Some tp', w') \<and> isotp_inv tp' w' H \<and> isotp_inputs_ok (iso_cfg tp') w' \<and>
    iso_cfg tp' = iso_cfg tp \<and> held_kept H w w' \<and> chan w' (ic_can_rx_queue (iso_cfg tp)) = [] \<and>
    (\<exists>taken. chan w' (ic_sdu_rx_queue (iso_cfg tp)) = drop taken (chan w (ic_sdu_rx_queue (iso_cfg tp))))"
proof -
  have cfg: "isotp_cfg_ok (iso_cfg tp)" by (rule isotp_inv_cfg[OF assms(1)])
  obtain tp' w' us fc dat where r: "nx_can_isotp_process (Some tp) w = Some (Some tp', w')" "isotp_inv tp' w' H" "isotp_inputs_ok (iso_cfg tp) w'"
    "iso_cfg tp' = iso_cfg tp" "held_kept H w w'" "isotp_call tp w us fc dat tp' w'"
    using nx_can_isotp_process_spec[OF assms] by blast
  obtain taken where "bus_flow (iso_cfg tp) (length (chan w (ic_can_rx_queue (iso_cfg tp)))) taken us (fc @ dat) w w'"
    using r(6) by (auto simp: isotp_call_def)
  then have "chan w' (ic_can_rx_queue (iso_cfg tp)) = []"
    "chan w' (ic_sdu_rx_queue (iso_cfg tp)) = drop taken (chan w (ic_sdu_rx_queue (iso_cfg tp)))"
    using isotp_queues_distinct[OF cfg] by (simp_all add: bus_flow_def)
  then show ?thesis using r(1-5) by (intro exI[of _ tp'] exI[of _ w']) auto
qed

text \<open>
  C1: a call of \<open>nx_can_isotp_process\<close> puts on the link, after flow control frames, a run of consecutive frames of one
  message: the message that was loaded, from the frame it was at, or the
  next one of the queue from its first frame. The run is no longer than the burst: \<open>tx_frames_per_process\<close> where that is set, and 255
  frames where it is 0. (The comments on the field and in the function promise that 0 is no limit; the code puts 255 in its
  place, so a longer message takes several calls even where the peer asks for no pause.) Afterwards the instance is at the frame that follows, or idle, and then, if
  any frame went out, all of the message is out; the success confirmation is only given for a message that is out
  completely.
\<close>
theorem nx_can_isotp_process_sends_in_order:
  assumes "isotp_inv tp w H" and "isotp_inputs_ok (iso_cfg tp) w"
  shows "\<exists>tp' w' us fc id0 p k n. nx_can_isotp_process (Some tp) w = Some (Some tp', w') \<and>
    chan w' (ic_can_tx_queue (iso_cfg tp)) = chan w (ic_can_tx_queue (iso_cfg tp)) @ fc @ isotp_frames (iso_cfg tp) id0 p k n \<and>
    chan w' (ic_sdu_tx_queue (iso_cfg tp)) = chan w (ic_sdu_tx_queue (iso_cfg tp)) @ us \<and>
    (\<forall>x\<in>set fc. is_flow_control (iso_cfg tp) x) \<and> n \<le> isotp_burst (iso_cfg tp) \<and>
    (it_state (iso_tx tp) \<noteq> NX_ISOTP_TX_IDLE \<and> tx_at (iso_cfg tp) (iso_tx tp) w p k \<and> id0 = it_tx_id (iso_tx tp) \<or>
     k = 0 \<and> (\<exists>s r. chan w (ic_sdu_rx_queue (iso_cfg tp)) = Some (Sdu s) # r \<and> p = sdu_bytes s \<and> id0 = sdu_id (iso_cfg tp) s) \<or>
     n = 0 \<and> it_state (iso_tx tp') = NX_ISOTP_TX_IDLE) \<and>
    (it_state (iso_tx tp') \<noteq> NX_ISOTP_TX_IDLE \<longrightarrow> tx_at (iso_cfg tp) (iso_tx tp') w' p (k + n) \<and> it_tx_id (iso_tx tp') = id0) \<and>
    (it_state (iso_tx tp') = NX_ISOTP_TX_IDLE \<and> 0 < n \<longrightarrow> isotp_done (iso_cfg tp) (length p) (k + n)) \<and>
    ((\<exists>x\<in>set us. is_ok_confirm x) \<longrightarrow> 0 < n \<and> it_state (iso_tx tp') = NX_ISOTP_TX_IDLE)"
proof -
  have cfg: "isotp_cfg_ok (iso_cfg tp)" by (rule isotp_inv_cfg[OF assms(1)])
  obtain tp' w' us fc dat where r: "nx_can_isotp_process (Some tp) w = Some (Some tp', w')" "isotp_call tp w us fc dat tp' w'"
    using nx_can_isotp_process_spec[OF assms] by blast
  have ch: "chan w' (ic_can_tx_queue (iso_cfg tp)) = chan w (ic_can_tx_queue (iso_cfg tp)) @ fc @ dat"
    "chan w' (ic_sdu_tx_queue (iso_cfg tp)) = chan w (ic_sdu_tx_queue (iso_cfg tp)) @ us"
  proof -
    obtain taken where "bus_flow (iso_cfg tp) (length (chan w (ic_can_rx_queue (iso_cfg tp)))) taken us (fc @ dat) w w'"
      using r(2) by (auto simp: isotp_call_def)
    then show "chan w' (ic_can_tx_queue (iso_cfg tp)) = chan w (ic_can_tx_queue (iso_cfg tp)) @ fc @ dat"
      "chan w' (ic_sdu_tx_queue (iso_cfg tp)) = chan w (ic_sdu_tx_queue (iso_cfg tp)) @ us"
      using isotp_queues_distinct[OF cfg] by (simp_all add: bus_flow_def)
  qed
  obtain id0 p k n where c: "dat = isotp_frames (iso_cfg tp) id0 p k n" "n \<le> isotp_burst (iso_cfg tp)"
    "it_state (iso_tx tp) \<noteq> NX_ISOTP_TX_IDLE \<and> tx_at (iso_cfg tp) (iso_tx tp) w p k \<and> id0 = it_tx_id (iso_tx tp) \<or>
     k = 0 \<and> (\<exists>s r. chan w (ic_sdu_rx_queue (iso_cfg tp)) = Some (Sdu s) # r \<and> p = sdu_bytes s \<and> id0 = sdu_id (iso_cfg tp) s) \<or>
     n = 0 \<and> it_state (iso_tx tp') = NX_ISOTP_TX_IDLE"
    "it_state (iso_tx tp') \<noteq> NX_ISOTP_TX_IDLE \<longrightarrow> tx_at (iso_cfg tp) (iso_tx tp') w' p (k + n) \<and> it_tx_id (iso_tx tp') = id0"
    "it_state (iso_tx tp') = NX_ISOTP_TX_IDLE \<and> 0 < n \<longrightarrow> isotp_done (iso_cfg tp) (length p) (k + n)"
    "(\<exists>x\<in>set us. is_ok_confirm x) \<longrightarrow> 0 < n \<and> it_state (iso_tx tp') = NX_ISOTP_TX_IDLE"
    and fc: "\<forall>x\<in>set fc. is_flow_control (iso_cfg tp) x"
    using r(2) unfolding isotp_call_def by (elim conjE exE) blast
  show ?thesis
    by (intro exI[of _ tp'] exI[of _ w'] exI[of _ us] exI[of _ fc] exI[of _ id0] exI[of _ p] exI[of _ k] exI[of _ n] conjI;
        (rule r(1) ch(1)[unfolded c(1)] ch(2) fc c(2-6)))
qed

text \<open>
  C4: a reassembly whose deadline has passed while no frame waits in the receive queue is given up in the next call of
  \<open>nx_can_isotp_process\<close>: the receiver is idle again and holds no message. (Frames that wait are taken first, and a
  consecutive frame among them that continues the message moves the deadline even when it had passed; the condition on the queue is needed.)
\<close>
theorem nx_can_isotp_process_ends_expired:
  assumes "isotp_inv tp w H" and "isotp_inputs_ok (iso_cfg tp) w"
    and "chan w (ic_can_rx_queue (iso_cfg tp)) = []" and "ir_state (iso_rx tp) \<noteq> NX_ISOTP_RX_IDLE"
    and "ic_get_us (iso_cfg tp) = Some g" and "tick_reached (fst (g (rw_env w))) (ir_deadline (iso_rx tp))"
  shows "\<exists>tp' w'. nx_can_isotp_process (Some tp) w = Some (Some tp', w') \<and> ir_state (iso_rx tp') = NX_ISOTP_RX_IDLE \<and>
    ir_acc (iso_rx tp') = 0 \<and> ref_inv w' (\<lambda>a. H a + htx (iso_tx tp') a)"
proof -
  have "rx_expired tp w" using assms(3-6) by (auto simp: rx_expired_def)
  then obtain tp' w' where "nx_can_isotp_process (Some tp) w = Some (Some tp', w')" "isotp_inv tp' w' H" "rx_idle (iso_rx tp')"
    using nx_can_isotp_process_spec[OF assms(1,2)] by blast
  then show ?thesis by (intro exI[of _ tp'] exI[of _ w']) (simp add: rx_idle_def isotp_inv_def)
qed

text \<open>
  C2: a message of any length that fits the length field, cut by one configuration into the number of frames it takes, is given
  up unchanged by an idle receiver that takes the frames in order and, where there are several, can answer them
  with flow control: with several frames it is handed up whenever the output queue has room, a
  single frame either gives the message or nothing.
\<close>
theorem isotp_roundtrip:
  assumes "isotp_cfg_ok cs" and "p \<noteq> []" and "length p < 2 ^ 32"
    and "isotp_inv tp w H" and "ir_state (iso_rx tp) = NX_ISOTP_RX_IDLE"
    and "isotp_done cs (length p) n" and "\<forall>k<n. \<not> isotp_done cs (length p) k"
    and "isotp_receive tp w (map (\<lambda>k. isotp_frame cs id0 (isotp_unit cs p k)) [0..<n]) = Some (tp', w')"
  shows "isotp_inv tp' w' H \<and> ir_state (iso_rx tp') = NX_ISOTP_RX_IDLE \<and>
    (\<exists>us. chan w' (ic_sdu_tx_queue (iso_cfg tp)) = chan w (ic_sdu_tx_queue (iso_cfg tp)) @ us \<and>
       (us = [] \<or> us = [Some (Sdu (isotp_indication (iso_cfg tp) NX_TP_TA_PHYSICAL p))]) \<and>
       (1 < n \<and> length (chan w (ic_sdu_tx_queue (iso_cfg tp))) < the (chan_cap w (ic_sdu_tx_queue (iso_cfg tp))) \<longrightarrow> us \<noteq> []))"
proof -
  define K where "K = (\<lambda>a. H a + htx (iso_tx tp) a)"
  have cfg: "isotp_cfg_ok (iso_cfg tp)" by (rule isotp_inv_cfg[OF assms(4)])
  have inv: "rx_inv tp w K" using assms(4) by (simp add: isotp_inv_rx K_def)
  have run: "isotp_receive tp w (isotp_cut cs id0 p 0 n) = Some (tp', w')" using assms(8) by (simp add: isotp_cut_def)
  obtain us fs where r: "rx_step K tp w us fs tp' w'" "rx_idle (iso_rx tp')"
    "us = [] \<or> us = [Some (Sdu (isotp_indication (iso_cfg tp) NX_TP_TA_PHYSICAL p))]" "1 < n \<longrightarrow> rx_delivered tp w p us"
    using isotp_receive_all[OF assms(1-3) inv assms(5) assms(6) _ run] assms(7) by blast
  have "isotp_quiet H tp w 0 us fs tp' w'" using isotp_quiet_rx[OF assms(4)] r(1) by (simp add: K_def)
  then have "isotp_inv tp' w' H" "bus_adds (iso_cfg tp) us fs w w'" using bus_flow_adds[OF cfg] by (simp_all add: isotp_quiet_def)
  moreover from this(2) have "chan w' (ic_sdu_tx_queue (iso_cfg tp)) = chan w (ic_sdu_tx_queue (iso_cfg tp)) @ us"
    using isotp_queues_distinct[OF cfg] by (simp add: bus_adds_def)
  ultimately show ?thesis using r(2-4) by (auto simp: rx_idle_def rx_delivered_def)
qed

section \<open>Witnesses\<close>

text \<open>
  On the bus of \<open>Nx_Demo_Bus\<close>, a configuration for classic frames with a consecutive frame timeout of one microsecond.
\<close>

definition isotp_demo_cfg :: "u32 nx_can_isotp_cfg" where
  "isotp_demo_cfg = \<lparr> ic_max_frame_len = 8, ic_ext_id = False, ic_fd_frames = False, ic_brs = False, ic_pad_frames = True, ic_pad_byte = 0xCC,
     ic_ch = 0, ic_phys_rx_id = 0x700, ic_phys_tx_id = 0x708, ic_func_rx_id = 0, ic_func_tx_id = 0, ic_pool = 8,
     ic_sdu_rx_queue = 16, ic_sdu_tx_queue = 24, ic_can_rx_queue = 32, ic_can_tx_queue = 40, ic_link = 0, ic_confirm_tx = True,
     ic_get_us = Some (\<lambda>t. (t, t + 1)), ic_n_as_us = 0, ic_n_ar_us = 0, ic_n_bs_us = 0, ic_n_cr_us = 1, ic_n_wft_max = 0,
     ic_rx_max_len = 0, ic_rx_block_size = 0, ic_rx_stmin = 0, ic_tx_frames_per_process = 0 \<rparr>"

definition isotp_demo :: "u32 nx_can_isotp" where
  "isotp_demo = \<lparr> iso_cfg = isotp_cfg_defaults isotp_demo_cfg, iso_rx = isotp_rx_zero, iso_tx = isotp_tx_zero \<rparr>"

lemma isotp_demo_setup: "isotp_wired isotp_demo_cfg demo_bus" "isotp_cfg_valid isotp_demo_cfg"
  by (auto simp: isotp_wired_def isotp_demo_cfg_def demo_bus_def isotp_cfg_valid_def istp_frame_len_valid_def nx_can_len_to_dlc_def
      nx_can_dlc_to_len_def dlc_table_def)

lemma isotp_demo_inv: "isotp_inv isotp_demo demo_bus (\<lambda>_. 0)"
  unfolding isotp_demo_def
  by (rule isotp_fresh_inv[OF isotp_wired_bus[OF isotp_demo_setup(2,1)] ref_start_inv[OF demo_bus_start]])

lemma isotp_demo_inputs: "isotp_inputs_ok (iso_cfg isotp_demo) demo_bus"
  by (simp add: isotp_inputs_ok_def demo_chans)

lemmas isotp_demo_run = isotp_demo_def isotp_rx_zero_def isotp_tx_zero_def isotp_cfg_defaults_def isotp_demo_cfg_def demo_bus_def
  demo_tier_def demo_queue_def mem_get_def mem_read_def mem_write_def Let_def
  nx_can_len_to_dlc_def nx_can_dlc_to_len_def dlc_table_def nx_can_flags_zero_def REF_MSG_SIZEOF_def TP_SDU_SIZEOF_def CAN_MSG_SIZEOF_def
  nx_ref_msg_alloc_def nx_tiered_mem_pool_alloc_def nx_lock_enter_def nx_lock_exit_def tiered_claim_def nx_tiered_bit_used_def
  nx_tiered_bit_set_def nx_ref_msg_shrink_def nx_ref_msg_publish_def nx_queue_push_def nx_queue_slot_def nx_ref_msg_release_def
  NX_CAN_ISOTP_MAX_MSG_LEN_def NX_CAN_ISOTP_MSG_OVERHEAD_def istp_now_def msg_put_def istp_sdu_head_def

text \<open>A message of eight bytes takes two classic frames; the first one starts a reassembly.\<close>

definition isotp_demo_msg :: bytes where
  "isotp_demo_msg = [1, 2, 3, 4, 5, 6, 7, 8]"

lemma length_isotp_demo_msg [simp]: "length isotp_demo_msg = 8"
  by (simp add: isotp_demo_msg_def)

lemma isotp_demo_cut: "isotp_frame isotp_demo_cfg 0x700 (isotp_unit isotp_demo_cfg isotp_demo_msg 0) =
  \<lparr> cm_id = 0x700, cm_flags = nx_can_flags_zero\<lparr> cf_dlc := 8 \<rparr>, cm_timestamp = 0, cm_data = [16, 8, 1, 2, 3, 4, 5, 6] \<rparr>"
  by (simp add: isotp_demo_msg_def isotp_frame_def isotp_unit_def isotp_single_def istp_sf_capacity_def isotp_demo_cfg_def istp_ff_pci_def isotp_ff_room_def
     isotp_wire_def isotp_frame_bytes_def dlc_of_len.simps len_of_dlc_def dlc_table_def nx_can_flags_zero_def)

lemma isotp_demo_first:
  "\<exists>tp1 w1. istp_rx_phys_frame isotp_demo demo_bus (isotp_frame isotp_demo_cfg 0x700 (isotp_unit isotp_demo_cfg isotp_demo_msg 0)) =
     Some (tp1, w1) \<and> ir_state (iso_rx tp1) = NX_ISOTP_RX_ASSEM \<and> ir_deadline (iso_rx tp1) = 2 \<and> rw_env w1 = 2"
  unfolding isotp_demo_cut
  by (simp add: isotp_demo_run istp_rx_phys_frame_def istp_rx_ff_def istp_rx_abort_def istp_rx_reset_def istp_ff_len_def frame_dlen_def
      istp_ff_fill_def istp_emit_cts_def istp_emit_fc_def istp_emit_frame_def istp_frame_data_def)

lemma isotp_demo_send:
  "\<exists>w1. nx_can_isotp_send (Some isotp_demo) demo_bus (Some isotp_demo_msg) 8 0 = Some (NX_CAN_ISOTP_OK, w1)"
  by (simp add: isotp_demo_msg_def isotp_demo_run nx_can_isotp_send_def)

theorem nx_can_isotp_init_sets_up_witness:
  "\<exists>tp. nx_can_isotp_init (Some isotp_demo) (Some isotp_demo_cfg) = (True, Some tp) \<and> isotp_inv tp demo_bus (\<lambda>_. 0)"
  using nx_can_isotp_init_sets_up[OF isotp_demo_setup(1) ref_start_inv[OF demo_bus_start], of isotp_demo] isotp_demo_setup(2) by auto

theorem nx_can_isotp_send_queues_witness:
  "\<exists>w1 s. nx_can_isotp_send (Some isotp_demo) demo_bus (Some isotp_demo_msg) 8 0 = Some (NX_CAN_ISOTP_OK, w1) \<and>
     chan w1 16 = [Some (Sdu s)] \<and> sdu_bytes s = isotp_demo_msg"
proof -
  obtain w1 where w1: "nx_can_isotp_send (Some isotp_demo) demo_bus (Some isotp_demo_msg) 8 0 = Some (NX_CAN_ISOTP_OK, w1)"
    using isotp_demo_send by blast
  have q: "ic_sdu_rx_queue (iso_cfg isotp_demo) = 16" by (simp add: isotp_demo_def isotp_cfg_defaults_def isotp_demo_cfg_def)
  have "8 \<le> length isotp_demo_msg" by simp
  from nx_can_isotp_send_queues[OF isotp_demo_inv this, of 0] w1 obtain s where
    "chan w1 = (chan demo_bus)(16 := chan demo_bus 16 @ [Some (Sdu s)])" "sdu_bytes s = take 8 isotp_demo_msg"
    unfolding q by auto
  then show ?thesis using w1 by (intro exI[of _ w1] exI[of _ s]) (simp add: demo_chans)
qed

text \<open>The world after that message was queued.\<close>

lemma demo_queued:
  obtains w1 s where "nx_can_isotp_send (Some isotp_demo) demo_bus (Some isotp_demo_msg) 8 0 = Some (NX_CAN_ISOTP_OK, w1)"
    "isotp_inv isotp_demo w1 (\<lambda>_. 0)" "isotp_inputs_ok (iso_cfg isotp_demo) w1"
proof -
  obtain w1 where w1: "nx_can_isotp_send (Some isotp_demo) demo_bus (Some isotp_demo_msg) 8 0 = Some (NX_CAN_ISOTP_OK, w1)"
    using isotp_demo_send by blast
  have "8 \<le> length isotp_demo_msg" by simp
  from nx_can_isotp_send_spec[OF isotp_demo_inv this, of 0] w1 obtain s where s: "isotp_inv isotp_demo w1 (\<lambda>_. 0)" "good_sdu s"
    "chan w1 = (chan demo_bus)(ic_sdu_rx_queue (iso_cfg isotp_demo) := chan demo_bus (ic_sdu_rx_queue (iso_cfg isotp_demo)) @ [Some (Sdu s)])"
    by auto
  then have "isotp_inputs_ok (iso_cfg isotp_demo) w1"
    using isotp_queues_distinct[OF isotp_inv_cfg[OF isotp_demo_inv]] by (auto simp: isotp_inputs_ok_def demo_chans)
  with that w1 s(1) show ?thesis by blast
qed

theorem nx_can_isotp_process_sound_witness:
  "\<exists>w1 tp' w'. nx_can_isotp_send (Some isotp_demo) demo_bus (Some isotp_demo_msg) 8 0 = Some (NX_CAN_ISOTP_OK, w1) \<and>
     nx_can_isotp_process (Some isotp_demo) w1 = Some (Some tp', w') \<and> isotp_inv tp' w' (\<lambda>_. 0)"
proof -
  obtain w1 where w1: "nx_can_isotp_send (Some isotp_demo) demo_bus (Some isotp_demo_msg) 8 0 = Some (NX_CAN_ISOTP_OK, w1)"
    "isotp_inv isotp_demo w1 (\<lambda>_. 0)" "isotp_inputs_ok (iso_cfg isotp_demo) w1" by (rule demo_queued)
  from nx_can_isotp_process_sound[OF w1(2,3)] w1(1) show ?thesis by blast
qed

theorem nx_can_isotp_process_sends_in_order_witness:
  "\<exists>w1 tp' w' fc id0 p k n. nx_can_isotp_send (Some isotp_demo) demo_bus (Some isotp_demo_msg) 8 0 = Some (NX_CAN_ISOTP_OK, w1) \<and>
     nx_can_isotp_process (Some isotp_demo) w1 = Some (Some tp', w') \<and> n \<le> isotp_burst (iso_cfg isotp_demo) \<and>
     chan w' (ic_can_tx_queue (iso_cfg isotp_demo)) = chan w1 (ic_can_tx_queue (iso_cfg isotp_demo)) @ fc @ isotp_frames (iso_cfg isotp_demo) id0 p k n"
proof -
  obtain w1 where w1: "nx_can_isotp_send (Some isotp_demo) demo_bus (Some isotp_demo_msg) 8 0 = Some (NX_CAN_ISOTP_OK, w1)"
    "isotp_inv isotp_demo w1 (\<lambda>_. 0)" "isotp_inputs_ok (iso_cfg isotp_demo) w1" by (rule demo_queued)
  from nx_can_isotp_process_sends_in_order[OF w1(2,3)] w1(1) show ?thesis by blast
qed

text \<open>The reassembly under way after the first of the two frames.\<close>

lemma isotp_demo_frame: "isotp_cfg_ok isotp_demo_cfg" "\<not> isotp_single isotp_demo_cfg 8"
  by (simp_all add: isotp_cfg_ok_def isotp_demo_cfg_def istp_frame_len_valid_def nx_can_len_to_dlc_def nx_can_dlc_to_len_def dlc_table_def
      isotp_single_def istp_sf_capacity_def)

lemma isotp_demo_assembling:
  obtains tp1 w1 where
    "istp_rx_phys_frame isotp_demo demo_bus (isotp_frame isotp_demo_cfg 0x700 (isotp_unit isotp_demo_cfg isotp_demo_msg 0)) = Some (tp1, w1)"
    "ir_state (iso_rx tp1) = NX_ISOTP_RX_ASSEM" "ir_deadline (iso_rx tp1) = 2" "rw_env w1 = 2" "isotp_inv tp1 w1 (\<lambda>_. 0)"
    "isotp_inputs_ok (iso_cfg tp1) w1" "iso_cfg tp1 = iso_cfg isotp_demo" "chan w1 (ic_can_rx_queue (iso_cfg tp1)) = []"
proof -
  let ?f = "isotp_frame isotp_demo_cfg 0x700 (isotp_unit isotp_demo_cfg isotp_demo_msg 0)"
  obtain tp1 w1 where r: "istp_rx_phys_frame isotp_demo demo_bus ?f = Some (tp1, w1)" "ir_state (iso_rx tp1) = NX_ISOTP_RX_ASSEM"
    "ir_deadline (iso_rx tp1) = 2" "rw_env w1 = 2" using isotp_demo_first by blast
  have g: "good_frame ?f" "0 < frame_dlen ?f"
    using isotp_first_read(3,4)[OF isotp_demo_frame(1), where p = isotp_demo_msg and ?id0.0 = "0x700"] isotp_demo_frame(2) by simp_all
  have inv: "rx_inv isotp_demo demo_bus (\<lambda>a. 0 + htx (iso_tx isotp_demo) a)" using isotp_demo_inv by (simp only: isotp_inv_rx)
  obtain us fs where st: "rx_step (\<lambda>a. 0 + htx (iso_tx isotp_demo) a) isotp_demo demo_bus us fs tp1 w1"
    using istp_rx_phys_frame_step[OF inv g] r(1) by auto
  have q: "isotp_quiet (\<lambda>_. 0) isotp_demo demo_bus 0 us fs tp1 w1" by (rule isotp_quiet_rx[OF isotp_demo_inv st])
  then have i: "isotp_inv tp1 w1 (\<lambda>_. 0)" "iso_cfg tp1 = iso_cfg isotp_demo" "bus_flow (iso_cfg isotp_demo) 0 0 us fs demo_bus w1"
    by (simp_all add: isotp_quiet_def)
  have cfg: "isotp_cfg_ok (iso_cfg isotp_demo)" by (rule isotp_inv_cfg[OF isotp_demo_inv])
  have "isotp_inputs_ok (iso_cfg tp1) w1" using bus_flow_inputs[OF cfg i(3) isotp_demo_inputs] i(2) by simp
  moreover have "chan w1 (ic_can_rx_queue (iso_cfg tp1)) = []"
    using i(2,3) isotp_queues_distinct[OF cfg] by (simp add: bus_flow_def demo_chans)
  ultimately show ?thesis using that r i(1,2) by blast
qed

theorem nx_can_isotp_process_ends_expired_witness:
  "\<exists>(tp1 :: u32 nx_can_isotp) w1 tp' w'. ir_state (iso_rx tp1) = NX_ISOTP_RX_ASSEM \<and> nx_can_isotp_process (Some tp1) w1 = Some (Some tp', w') \<and>
     ir_state (iso_rx tp') = NX_ISOTP_RX_IDLE"
proof -
  obtain tp1 w1 where d: "ir_state (iso_rx tp1) = NX_ISOTP_RX_ASSEM" "ir_deadline (iso_rx tp1) = 2" "rw_env w1 = 2" "isotp_inv tp1 w1 (\<lambda>_. 0)"
    "isotp_inputs_ok (iso_cfg tp1) w1" "iso_cfg tp1 = iso_cfg isotp_demo" "chan w1 (ic_can_rx_queue (iso_cfg tp1)) = []"
    by (rule isotp_demo_assembling)
  have g: "ic_get_us (iso_cfg tp1) = Some (\<lambda>t. (t, t + 1))"
    by (simp add: d(6) isotp_demo_def isotp_cfg_defaults_def isotp_demo_cfg_def Let_def)
  have "tick_reached (fst ((\<lambda>t. (t, t + 1)) (rw_env w1))) (ir_deadline (iso_rx tp1))" by (simp add: d(2,3) tick_reached_def tick_diff_def)
  moreover have "ir_state (iso_rx tp1) \<noteq> NX_ISOTP_RX_IDLE" using d(1) by simp
  ultimately obtain tp' w' where "nx_can_isotp_process (Some tp1) w1 = Some (Some tp', w')" "ir_state (iso_rx tp') = NX_ISOTP_RX_IDLE"
    using nx_can_isotp_process_ends_expired[OF d(4,5,7) _ g] by blast
  with d(1) show ?thesis by blast
qed

theorem isotp_roundtrip_witness:
  "\<exists>tp' w'. isotp_receive isotp_demo demo_bus (map (\<lambda>k. isotp_frame isotp_demo_cfg 0x700 (isotp_unit isotp_demo_cfg isotp_demo_msg k)) [0..<2]) =
       Some (tp', w') \<and>
     chan w' (ic_sdu_tx_queue (iso_cfg isotp_demo)) = [Some (Sdu (isotp_indication (iso_cfg isotp_demo) NX_TP_TA_PHYSICAL isotp_demo_msg))]"
proof -
  let ?f = "\<lambda>k. isotp_frame isotp_demo_cfg 0x700 (isotp_unit isotp_demo_cfg isotp_demo_msg k)"
  obtain tp1 w1 where d: "istp_rx_phys_frame isotp_demo demo_bus (?f 0) = Some (tp1, w1)" "ir_state (iso_rx tp1) = NX_ISOTP_RX_ASSEM"
    "isotp_inv tp1 w1 (\<lambda>_. 0)" by (rule isotp_demo_assembling)
  have off: "isotp_offset isotp_demo_cfg 8 1 = 6" "isotp_offset isotp_demo_cfg 8 2 = 13"
    by (simp_all add: isotp_offset_def isotp_ff_room_def isotp_cf_room_def istp_ff_pci_def isotp_demo_cfg_def)
  have n: "isotp_done isotp_demo_cfg 8 2" "\<forall>k<2. \<not> isotp_done isotp_demo_cfg 8 k"
    using off isotp_demo_frame(2) by (auto simp: isotp_done_def less_2_cases_iff)
  have g: "good_frame (?f 1)" "0 < frame_dlen (?f 1)"
    using isotp_next_read(5,6)[OF isotp_demo_frame(1), where k = 1 and p = isotp_demo_msg and ?id0.0 = "0x700"] off(1) by simp_all
  have inv: "rx_inv tp1 w1 (\<lambda>a. 0 + htx (iso_tx tp1) a)" using d(3) by (simp only: isotp_inv_rx)
  obtain tp' w' where "istp_rx_phys_frame tp1 w1 (?f 1) = Some (tp', w')" using istp_rx_phys_frame_step[OF inv g] by blast
  then have run: "isotp_receive isotp_demo demo_bus (map ?f [0..<2]) = Some (tp', w')"
    using d(1,2) by (simp add: numeral_2_eq_2)
  have idle: "ir_state (iso_rx isotp_demo) = NX_ISOTP_RX_IDLE" by (simp add: isotp_demo_def isotp_rx_zero_def)
  have room: "chan_cap (demo_bus :: (u32, tp_data) ref_world) (ic_sdu_tx_queue (iso_cfg isotp_demo)) = Some 2"
    by (simp add: chan_cap_def demo_bus_def isotp_demo_def isotp_cfg_defaults_def isotp_demo_cfg_def demo_queue_def Let_def)
  have "isotp_demo_msg \<noteq> []" "length isotp_demo_msg < 2 ^ 32" by (simp_all add: isotp_demo_msg_def)
  from isotp_roundtrip[OF isotp_demo_frame(1) this isotp_demo_inv idle _ _ run] n run room show ?thesis by (auto simp: demo_chans)
qed

end
