(* ===== verification/Nx_Modbus_Cut.thy ===== *)
theory Nx_Modbus_Cut
  imports Nx_Prelude
begin

text \<open>
  Cutting a byte stream into frames by length, for both ends of a Modbus line: a verdict on the bytes at the front decides
  whether to wait, to drop a byte or to take a frame. The interface \<open>framing\<close> states what a verdict owes and derives what is cut,
  \<open>slicing\<close> adds a loop over a receive buffer that follows the verdicts; slave and master interpret both.
\<close>

section \<open>The cut of a stream\<close>

text \<open>The verdict on the bytes at the front: wait for more, drop one byte, or take a frame of this length.\<close>

datatype frame_verdict = Wait | Skip | Take nat

function frames_of :: "(bytes \<Rightarrow> frame_verdict) \<Rightarrow> bytes \<Rightarrow> bytes list \<times> bytes" where
  "frames_of head p =
     (if p = [] then ([], [])
      else case head p of
        Wait \<Rightarrow> ([], p)
      | Skip \<Rightarrow> frames_of head (tl p)
      | Take n \<Rightarrow> if n = 0 then ([], p) else (let (fs, r) = frames_of head (drop n p) in (take n p # fs, r)))"
  by pat_completeness auto
termination
  by (relation "measure (\<lambda>(head, p). length p)") auto

declare frames_of.simps [simp del]

locale framing =
  fixes head :: "bytes \<Rightarrow> frame_verdict" and good :: "bytes \<Rightarrow> bool"
  assumes head_empty: "head [] = Wait"
    and head_take: "head p = Take n \<Longrightarrow> 0 < n \<and> n \<le> length p"
    and head_append: "head p \<noteq> Wait \<Longrightarrow> head (p @ q) = head p"
    and head_good: "head p = Take n \<Longrightarrow> good (take n p)"
begin

lemma frames_wait: "head p = Wait \<Longrightarrow> frames_of head p = ([], p)"
  using frames_of.simps[of head p] by (cases "p = []") simp_all

lemma frames_skip: "head p = Skip \<Longrightarrow> p \<noteq> [] \<and> frames_of head p = frames_of head (tl p)"
  using head_empty frames_of.simps[of head p] by (cases "p = []") simp_all

lemma frames_take:
  assumes "head p = Take n"
  shows "frames_of head p = (let (fs, r) = frames_of head (drop n p) in (take n p # fs, r))"
  using head_take[OF assms] assms frames_of.simps[of head p] by (cases "p = []") auto

lemma head_induct [case_names Wait Skip Take]:
  assumes "\<And>p. head p = Wait \<Longrightarrow> P p" "\<And>p. head p = Skip \<Longrightarrow> P (tl p) \<Longrightarrow> P p" "\<And>p n. head p = Take n \<Longrightarrow> P (drop n p) \<Longrightarrow> P p"
  shows "P p"
proof (induction p rule: length_induct)
  case (1 p)
  show ?case
  proof (cases "head p")
    case Wait
    then show ?thesis by (rule assms(1))
  next
    case Skip
    have "P (tl p)" using 1 frames_skip[OF Skip] by simp
    with Skip show ?thesis by (rule assms(2))
  next
    case (Take n)
    have "length (drop n p) < length p" using head_take[OF Take] by auto
    then have "P (drop n p)" using 1 by blast
    with Take show ?thesis by (rule assms(3))
  qed
qed

lemma frames_stream:
  "frames_of head (p @ q) = (let (fs, r) = frames_of head p; (gs, t) = frames_of head (r @ q) in (fs @ gs, t))"
proof (induction p rule: head_induct)
  case (Wait p)
  then show ?case by (simp add: frames_wait)
next
  case (Skip p)
  have "head (p @ q) = Skip" using head_append[of p q] Skip(1) by simp
  from frames_skip[OF this] frames_skip[OF Skip(1)] Skip(2) show ?case by simp
next
  case (Take p n)
  have "head (p @ q) = Take n" using head_append[of p q] Take(1) by simp
  from frames_take[OF this] frames_take[OF Take(1)] Take(2) head_take[OF Take(1)] show ?case
    by (simp add: Let_def split: prod.splits)
qed

lemma frames_rest: "frames_of head p = (fs, r) \<Longrightarrow> head r = Wait \<and> (\<exists>x. p = x @ r) \<and> list_all good fs"
proof (induction p arbitrary: fs rule: head_induct)
  case (Wait p)
  then show ?case by (simp add: frames_wait)
next
  case (Skip p)
  note s = frames_skip[OF Skip(1)]
  have ih: "head r = Wait \<and> (\<exists>x. tl p = x @ r) \<and> list_all good fs" using Skip(2)[of fs] Skip(3) s by simp
  then obtain x where "tl p = x @ r" by blast
  then have "p = (hd p # x) @ r" using s by (metis append_Cons list.collapse)
  with ih show ?case by blast
next
  case (Take p n)
  obtain gs where gs: "frames_of head (drop n p) = (gs, r)" "fs = take n p # gs"
    using frames_take[OF Take(1)] Take(3) by (simp split: prod.splits)
  obtain x where "drop n p = x @ r" and ih: "head r = Wait" "list_all good gs" using Take(2)[OF gs(1)] by blast
  then have "p = (take n p @ x) @ r" by (metis append_assoc append_take_drop_id)
  with ih gs(2) head_good[OF Take(1)] show ?case by (intro conjI) (simp, blast, simp)
qed

lemma frames_drop:
  assumes "frames_of head p = (fs, r)"
  shows "length r \<le> length p" "drop (length p - length r) p = r"
proof -
  obtain x where "p = x @ r" using frames_rest[OF assms] by blast
  then show "length r \<le> length p" "drop (length p - length r) p = r" by simp_all
qed

text \<open>A stream that is a frame is cut into that frame.\<close>

lemma frames_whole: "head f = Take (length f) \<Longrightarrow> frames_of head f = ([f], [])"
  using frames_take[of f "length f"] frames_wait[OF head_empty] by simp

lemma frames_whole_first: "head f = Take (length f) \<Longrightarrow> frames_of head (f @ q) = (let (gs, t) = frames_of head q in (f # gs, t))"
  using frames_stream[of f q] frames_whole[of f] by simp

end

section \<open>The loop over a buffer\<close>

text \<open>
  \<open>slice buf rx_len front w\<close> is the loop, its result the final \<open>front\<close>; \<open>serve\<close> is what it does with a frame.
\<close>

fun serve_all :: "('w \<Rightarrow> bytes \<Rightarrow> 'w option) \<Rightarrow> 'w \<Rightarrow> bytes list \<Rightarrow> 'w option" where
  "serve_all serve w [] = Some w"
| "serve_all serve w (f # fs) = do { w1 \<leftarrow> serve w f; serve_all serve w1 fs }"

lemma serve_all_append: "serve_all serve w (fs @ gs) = do { w1 \<leftarrow> serve_all serve w fs; serve_all serve w1 gs }"
  by (induction fs arbitrary: w) (simp_all add: Option.bind_assoc)

locale slicing = framing head good
  for head :: "bytes \<Rightarrow> frame_verdict" and good :: "bytes \<Rightarrow> bool" +
  fixes slice :: "bytes \<Rightarrow> nat \<Rightarrow> nat \<Rightarrow> 'w \<Rightarrow> (nat \<times> 'w) option" and serve :: "'w \<Rightarrow> bytes \<Rightarrow> 'w option"
  assumes slice_step: "rx_len \<le> length buf \<Longrightarrow> front \<le> rx_len \<Longrightarrow>
     slice buf rx_len front w =
       (case head (drop front (take rx_len buf)) of
          Wait \<Rightarrow> Some (front, w)
        | Skip \<Rightarrow> slice buf rx_len (front + 1) w
        | Take n \<Rightarrow> do { w1 \<leftarrow> serve w (take n (drop front (take rx_len buf))); slice buf rx_len (front + n) w1 })"
begin

lemma slice_cut:
  assumes "rx_len \<le> length buf" "front \<le> rx_len"
  shows "slice buf rx_len front w =
     (let (fs, r) = frames_of head (drop front (take rx_len buf)) in map_option (\<lambda>w'. (rx_len - length r, w')) (serve_all serve w fs))"
  using assms(2)
proof (induction "rx_len - front" arbitrary: front w rule: less_induct)
  case less
  define q where "q = drop front (take rx_len buf)"
  have len: "length q = rx_len - front" using assms(1) less(2) by (simp add: q_def)
  note step = slice_step[OF assms(1) less(2), of w, folded q_def]
  show ?case
  proof (cases "head q")
    case Wait
    then show ?thesis using step len less(2) by (simp add: frames_wait flip: q_def)
  next
    case Skip
    note s = frames_skip[OF Skip]
    then have "rx_len - (front + 1) < rx_len - front" "front + 1 \<le> rx_len" using len by (cases q; simp)+
    moreover have "drop (front + 1) (take rx_len buf) = tl q" by (simp add: q_def drop_Suc tl_drop)
    ultimately show ?thesis using less(1)[of "front + 1" w] step Skip s by (simp flip: q_def)
  next
    case (Take n)
    note h = head_take[OF Take]
    have "slice buf rx_len (front + n) w1 =
       (let (fs, r) = frames_of head (drop n q) in map_option (\<lambda>w'. (rx_len - length r, w')) (serve_all serve w1 fs))" for w1
    proof -
      have lt: "rx_len - (front + n) < rx_len - front" "front + n \<le> rx_len" using h len by linarith+
      show ?thesis using less(1)[OF lt, of w1] by (simp add: q_def add.commute)
    qed
    then have ih: "slice buf rx_len (front + n) =
       (\<lambda>w1. let (fs, r) = frames_of head (drop n q) in map_option (\<lambda>w'. (rx_len - length r, w')) (serve_all serve w1 fs))" by (rule ext)
    obtain gs r where cut: "frames_of head (drop n q) = (gs, r)" by fastforce
    have "slice buf rx_len front w =
        do { w1 \<leftarrow> serve w (take n q); map_option (\<lambda>w'. (rx_len - length r, w')) (serve_all serve w1 gs) }"
      using step Take by (simp add: ih cut)
    moreover have "frames_of head q = (take n q # gs, r)" using frames_take[OF Take] cut by simp
    ultimately show ?thesis by (simp add: map_option_bind comp_def flip: q_def)
  qed
qed

text \<open>A whole frame at the front is served first.\<close>

lemma slice_frame_first:
  assumes "head f = Take (length f)"
  shows "slice (f @ q) (length (f @ q)) 0 w =
     do { w1 \<leftarrow> serve w f; (front, w2) \<leftarrow> slice q (length q) 0 w1; Some (length f + front, w2) }"
proof -
  obtain gs t where c: "frames_of head q = (gs, t)" by fastforce
  have whole: "slice buf (length buf) 0 v =
      (let (fs, r) = frames_of head buf in map_option (\<lambda>w'. (length buf - length r, w')) (serve_all serve v fs))" for buf v
    using slice_cut[of "length buf" buf 0 v] by simp
  have "length (f @ q) - length t = length f + (length q - length t)" using frames_drop(1)[OF c] by simp
  then show ?thesis unfolding whole frames_whole_first[OF assms] c
    by (auto simp: Option.bind_map_option comp_def map_option_case split: option.split bind_split)
qed

text \<open>The loop does not see where one read ended and the next began.\<close>

lemma slice_chunks:
  "slice (p @ q) (length (p @ q)) 0 w =
     do {
       (front, w1) \<leftarrow> slice p (length p) 0 w;
       (front', w2) \<leftarrow> slice (drop front p @ q) (length (drop front p @ q)) 0 w1;
       Some (front + front', w2) }"
proof -
  have whole: "slice buf (length buf) 0 v =
      (let (fs, r) = frames_of head buf in map_option (\<lambda>w'. (length buf - length r, w')) (serve_all serve v fs))" for buf v
    using slice_cut[of "length buf" buf 0 v] by simp
  obtain fs r where c1: "frames_of head p = (fs, r)" by fastforce
  obtain gs t where c2: "frames_of head (r @ q) = (gs, t)" by fastforce
  have c12: "frames_of head (p @ q) = (fs @ gs, t)" using frames_stream[of p q] c1 c2 by simp
  note r = frames_drop[OF c1] and t = frames_drop[OF c2]
  have sum: "length p - length r + (length (r @ q) - length t) = length (p @ q) - length t" using r(1) t(1) by simp
  show ?thesis
  proof (cases "serve_all serve w fs")
    case None
    then show ?thesis by (simp add: whole[simplified] whole[of "p @ q", simplified] c1 c12 serve_all_append)
  next
    case (Some w1)
    have a: "slice p (length p) 0 w = Some (length p - length r, w1)" by (simp add: whole c1 Some)
    have b: "slice (r @ q) (length (r @ q)) 0 w1 =
        map_option (\<lambda>w'. (length (r @ q) - length t, w')) (serve_all serve w1 gs)" by (simp only: whole c2 Let_def prod.case)
    have c: "slice (p @ q) (length (p @ q)) 0 w =
        map_option (\<lambda>w'. (length (p @ q) - length t, w')) (serve_all serve w1 gs)"
      by (simp only: whole c12 Let_def prod.case serve_all_append Some bind.bind_lunit)
    show ?thesis unfolding a bind.bind_lunit prod.case r(2) b c
      by (cases "serve_all serve w1 gs") (simp_all del: length_append add: sum)
  qed
qed

end

section \<open>The rest of the buffer\<close>

text \<open>
  The end of a receive pass, the same lines in both modules: the bytes that were not consumed move to the start of the
  buffer; a buffer that is still full loses its first byte.
\<close>

definition rtu_compact :: "bytes \<Rightarrow> nat \<Rightarrow> nat \<Rightarrow> nat \<Rightarrow> (bytes \<times> nat) option" where
  "rtu_compact buf rx_len front rx_size = do {
     buf1 \<leftarrow> (if front > 0 \<and> front < rx_len
              then do { x \<leftarrow> mem_read front (rx_len - front) buf; mem_write 0 x buf } else Some buf);
     let len1 = (if front > 0 then size_sub rx_len front else rx_len);
     if len1 = rx_size
     then do { x \<leftarrow> mem_read 1 (size_sub len1 1) buf1; b \<leftarrow> mem_write 0 x buf1; Some (b, size_sub len1 1) }
     else Some (buf1, len1) }"

lemma rtu_compact_spec:
  assumes "front \<le> rx_len" "rx_len \<le> sz" "sz \<le> length buf" "0 < sz"
  defines "r \<equiv> drop front (take rx_len buf)"
  shows "\<exists>buf' len'. rtu_compact buf rx_len front sz = Some (buf', len') \<and> len' < sz \<and> length buf' = length buf \<and>
    take len' buf' = (if length r = sz then tl r else r)"
proof -
  define b1 where "b1 = (if front > 0 \<and> front < rx_len then r @ drop (length r) buf else buf)"
  have len: "length r = rx_len - front" "rx_len - front \<le> length buf" using assms(1-3) by (simp_all add: r_def)
  have tail: "take (rx_len - front) (drop front buf) = r" by (simp add: r_def drop_take)
  have wr: "(if front > 0 \<and> front < rx_len then do { x \<leftarrow> mem_read front (rx_len - front) buf; mem_write 0 x buf } else Some buf) = Some b1"
    using assms(1-3) len tail by (simp add: mem_read_def mem_write_def b1_def)
  have lb1: "length b1 = length buf" using len by (simp add: b1_def)
  have tk1: "take (length r) b1 = r" using tail len by (auto simp: b1_def)
  have len1: "(if front > 0 then size_sub rx_len front else rx_len) = length r" using assms(1) len by (simp add: size_sub_def)
  show ?thesis
  proof (cases "length r = sz")
    case True
    define b2 where "b2 = tl r @ drop (sz - 1) b1"
    have "take (sz - 1) (drop 1 b1) = tl r" using tk1 True by (metis drop_Suc drop_take One_nat_def drop_0)
    then have "rtu_compact buf rx_len front sz = Some (b2, sz - 1)"
      unfolding rtu_compact_def wr len1 bind.bind_lunit Let_def
      using True assms(3,4) lb1 by (simp add: mem_read_def mem_write_def b2_def size_sub_def)
    moreover have "length b2 = length buf" using lb1 True assms(3,4) by (simp add: b2_def)
    ultimately show ?thesis using True assms(4) by (intro exI[of _ b2] exI[of _ "sz - 1"]) (simp add: b2_def)
  next
    case False
    then have "rtu_compact buf rx_len front sz = Some (b1, length r)"
      unfolding rtu_compact_def wr len1 bind.bind_lunit Let_def by simp
    moreover have "length r < sz" using False len(1) assms(2) by simp
    ultimately show ?thesis using False lb1 tk1 by (intro exI[of _ b1] exI[of _ "length r"]) simp
  qed
qed

end
