(* ===== verification/Nx_Modbus_Slave.thy ===== *)
theory Nx_Modbus_Slave
  imports Nx_Modbus_Rtu Nx_Ref_Msg Nx_Modbus_Cut
begin

text \<open>
  \<open>src/middleware/nx_modbus_rtu_slave.c\<close>: the Modbus RTU slave. Bytes are pulled into a framing buffer and cut into frames
  by length; a frame that checks is dispatched to the queues of the subscribers that own its address range, or answered with an
  exception; responses are taken off a shared queue and transmitted after a silence on the bus. The serial
  interface, the direction pin and the clock are functions of the configuration that act on the environment; a message
  block holds the bytes of a frame.
\<close>

section \<open>Types\<close>

abbreviation (input) NX_MODBUS_RTU_ADDR_BROADCAST :: u8 where "NX_MODBUS_RTU_ADDR_BROADCAST \<equiv> 0"
abbreviation (input) NX_MODBUS_RTU_ADDR_MIN :: u8 where "NX_MODBUS_RTU_ADDR_MIN \<equiv> 1"
abbreviation (input) NX_MODBUS_RTU_ADDR_MAX :: u8 where "NX_MODBUS_RTU_ADDR_MAX \<equiv> 247"
abbreviation (input) NX_MODBUS_RTU_MAX_ADU :: nat where "NX_MODBUS_RTU_MAX_ADU \<equiv> 256"
abbreviation (input) NX_MODBUS_RTU_EXCEPTION_FLAG :: u8 where "NX_MODBUS_RTU_EXCEPTION_FLAG \<equiv> 0x80"

abbreviation (input) NX_MODBUS_FC_READ_COILS :: u8 where "NX_MODBUS_FC_READ_COILS \<equiv> 0x01"
abbreviation (input) NX_MODBUS_FC_READ_DISCRETE_INPUTS :: u8 where "NX_MODBUS_FC_READ_DISCRETE_INPUTS \<equiv> 0x02"
abbreviation (input) NX_MODBUS_FC_READ_HOLDING_REGS :: u8 where "NX_MODBUS_FC_READ_HOLDING_REGS \<equiv> 0x03"
abbreviation (input) NX_MODBUS_FC_READ_INPUT_REGS :: u8 where "NX_MODBUS_FC_READ_INPUT_REGS \<equiv> 0x04"
abbreviation (input) NX_MODBUS_FC_WRITE_SINGLE_COIL :: u8 where "NX_MODBUS_FC_WRITE_SINGLE_COIL \<equiv> 0x05"
abbreviation (input) NX_MODBUS_FC_WRITE_SINGLE_REG :: u8 where "NX_MODBUS_FC_WRITE_SINGLE_REG \<equiv> 0x06"
abbreviation (input) NX_MODBUS_FC_WRITE_MULTIPLE_COILS :: u8 where "NX_MODBUS_FC_WRITE_MULTIPLE_COILS \<equiv> 0x0F"
abbreviation (input) NX_MODBUS_FC_WRITE_MULTIPLE_REGS :: u8 where "NX_MODBUS_FC_WRITE_MULTIPLE_REGS \<equiv> 0x10"
abbreviation (input) NX_MODBUS_FC_READ_WRITE_REGS :: u8 where "NX_MODBUS_FC_READ_WRITE_REGS \<equiv> 0x17"

abbreviation (input) NX_MODBUS_EXC_ILLEGAL_FUNCTION :: u8 where "NX_MODBUS_EXC_ILLEGAL_FUNCTION \<equiv> 0x01"
abbreviation (input) NX_MODBUS_EXC_ILLEGAL_DATA_ADDR :: u8 where "NX_MODBUS_EXC_ILLEGAL_DATA_ADDR \<equiv> 0x02"
abbreviation (input) NX_MODBUS_EXC_ILLEGAL_DATA_VALUE :: u8 where "NX_MODBUS_EXC_ILLEGAL_DATA_VALUE \<equiv> 0x03"
abbreviation (input) NX_MODBUS_EXC_SLAVE_DEVICE_FAILURE :: u8 where "NX_MODBUS_EXC_SLAVE_DEVICE_FAILURE \<equiv> 0x04"
abbreviation (input) NX_MODBUS_EXC_SLAVE_DEVICE_BUSY :: u8 where "NX_MODBUS_EXC_SLAVE_DEVICE_BUSY \<equiv> 0x06"

abbreviation (input) MODBUS_RTU_ADU_MIN :: nat where "MODBUS_RTU_ADU_MIN \<equiv> 8"

text \<open>The states of the transmit machine, a \<open>uint8_t\<close> in the instance.\<close>

abbreviation (input) TX_IDLE :: u8 where "TX_IDLE \<equiv> 0"
abbreviation (input) TX_SENDING :: u8 where "TX_SENDING \<equiv> 1"

datatype nx_modbus_rtu_slave_ret =
  NX_MODBUS_RTU_SLAVE_OK | NX_MODBUS_RTU_SLAVE_ERR_PARAM | NX_MODBUS_RTU_SLAVE_ERR_BROADCAST |
  NX_MODBUS_RTU_SLAVE_ERR_NOMEM | NX_MODBUS_RTU_SLAVE_ERR_FULL

record nx_modbus_rtu_slave_sub =
  sub_func :: u8
  sub_addr_min :: u16
  sub_addr_max :: u16
  sub_queue :: nat

text \<open>
  Pools and queues are addresses, with 0 for NULL. The buffer is held where the pointer to it is. The read callback yields
  the bytes it copied and the write callback is given the bytes at its source.
\<close>

record 'e nx_modbus_rtu_slave_cfg =
  sc_slave_addr :: u8
  sc_baud_rate :: u32
  sc_accept_broadcast :: bool
  sc_pool :: nat
  sc_rx_buf :: "bytes option"
  sc_rx_size :: nat
  sc_subs :: "nx_modbus_rtu_slave_sub list option"
  sc_subs_count :: nat
  sc_response_queue :: nat
  sc_read :: "(nat \<Rightarrow> nat \<Rightarrow> 'e \<Rightarrow> bytes \<times> 'e) option"
  sc_write :: "(nat \<Rightarrow> bytes \<Rightarrow> 'e \<Rightarrow> bool \<times> 'e) option"
  sc_is_busy :: "(nat \<Rightarrow> 'e \<Rightarrow> bool \<times> 'e) option"
  sc_dir_tx :: "(nat \<Rightarrow> bool \<Rightarrow> 'e \<Rightarrow> 'e) option"
  sc_get_us :: "('e \<Rightarrow> u32 \<times> 'e) option"
  sc_io_ctx :: nat
  sc_dir_ctx :: nat

record 'e nx_modbus_rtu_slave =
  ms_cfg :: "'e nx_modbus_rtu_slave_cfg"
  ms_rx_len :: nat
  ms_gap_us :: u32
  ms_tx_state :: u8
  ms_last_bus_activity_us :: u32
  ms_tx_cur :: nat

type_synonym 'e rtu_world = "('e, bytes) ref_world"

section \<open>Frame geometry\<close>

text \<open>\<open>p\<close> is the memory from the start of the frame on, \<open>avail\<close> what has been received of it.\<close>

definition frame_len :: "u8 \<Rightarrow> bytes \<Rightarrow> nat \<Rightarrow> nat option" where
  "frame_len cmd p avail =
     (if cmd \<in> {NX_MODBUS_FC_READ_COILS, NX_MODBUS_FC_READ_DISCRETE_INPUTS, NX_MODBUS_FC_READ_HOLDING_REGS,
                NX_MODBUS_FC_READ_INPUT_REGS, NX_MODBUS_FC_WRITE_SINGLE_COIL, NX_MODBUS_FC_WRITE_SINGLE_REG}
      then Some MODBUS_RTU_ADU_MIN
      else if cmd \<in> {NX_MODBUS_FC_WRITE_MULTIPLE_COILS, NX_MODBUS_FC_WRITE_MULTIPLE_REGS}
      then (if avail < 7 then Some SIZE_MAX else do { bc \<leftarrow> mem_get 6 p; Some (unat bc + 9) })
      else if cmd = NX_MODBUS_FC_READ_WRITE_REGS
      then (if avail < 11 then Some SIZE_MAX else do { bc \<leftarrow> mem_get 10 p; Some (unat bc + 13) })
      else Some 0)"

text \<open>A 16-bit field in wire order.\<close>

definition wire_u16 :: "bytes \<Rightarrow> nat \<Rightarrow> u16 option" where
  "wire_u16 f i = do { h \<leftarrow> mem_get i f; l \<leftarrow> mem_get (i + 1) f; Some (push_bit 8 (ucast h) OR ucast l) }"

definition request_span :: "u8 \<Rightarrow> bytes \<Rightarrow> (u16 \<times> u32) option" where
  "request_span cmd f =
     (let base = (if cmd = NX_MODBUS_FC_READ_WRITE_REGS then 6 else 2)
      in do {
        a \<leftarrow> wire_u16 f base;
        if cmd = NX_MODBUS_FC_WRITE_SINGLE_COIL \<or> cmd = NX_MODBUS_FC_WRITE_SINGLE_REG then Some (a, ucast a)
        else do {
          q \<leftarrow> wire_u16 f (base + 2);
          Some (a, if q = 0 then ucast a else ucast a + ucast q - 1) } })"

definition request_value_exc :: "u8 \<Rightarrow> bytes \<Rightarrow> u8 option" where
  "request_value_exc cmd f = do {
     q \<leftarrow> wire_u16 f 4;
     let qty = unat q;
     if cmd = NX_MODBUS_FC_READ_COILS \<or> cmd = NX_MODBUS_FC_READ_DISCRETE_INPUTS
     then Some (if qty < 1 \<or> qty > 2000 then NX_MODBUS_EXC_ILLEGAL_DATA_VALUE else 0)
     else if cmd = NX_MODBUS_FC_READ_HOLDING_REGS \<or> cmd = NX_MODBUS_FC_READ_INPUT_REGS
     then Some (if qty < 1 \<or> qty > 125 then NX_MODBUS_EXC_ILLEGAL_DATA_VALUE else 0)
     else if cmd = NX_MODBUS_FC_WRITE_MULTIPLE_COILS
     then (if qty < 1 \<or> qty > 1968 then Some NX_MODBUS_EXC_ILLEGAL_DATA_VALUE
           else do { bc \<leftarrow> mem_get 6 f;
                     Some (if bc \<noteq> of_nat ((qty + 7) div 8) then NX_MODBUS_EXC_ILLEGAL_DATA_VALUE else 0) })
     else if cmd = NX_MODBUS_FC_WRITE_MULTIPLE_REGS
     then (if qty < 1 \<or> qty > 123 then Some NX_MODBUS_EXC_ILLEGAL_DATA_VALUE
           else do { bc \<leftarrow> mem_get 6 f;
                     Some (if bc \<noteq> of_nat (qty * 2) then NX_MODBUS_EXC_ILLEGAL_DATA_VALUE else 0) })
     else if cmd = NX_MODBUS_FC_WRITE_SINGLE_COIL
     then Some (if qty \<noteq> 0 \<and> qty \<noteq> 0xFF00 then NX_MODBUS_EXC_ILLEGAL_DATA_VALUE else 0)
     else if cmd = NX_MODBUS_FC_READ_WRITE_REGS
     then do {
       wq \<leftarrow> wire_u16 f 8;
       let wr_qty = unat wq;
       if qty < 1 \<or> qty > 125 then Some NX_MODBUS_EXC_ILLEGAL_DATA_VALUE
       else if wr_qty < 1 \<or> wr_qty > 121 then Some NX_MODBUS_EXC_ILLEGAL_DATA_VALUE
       else do { bc \<leftarrow> mem_get 10 f;
                 Some (if bc \<noteq> of_nat (wr_qty * 2) then NX_MODBUS_EXC_ILLEGAL_DATA_VALUE else 0) } }
     else Some 0 }"

section \<open>Replies\<close>

definition reply_allowed :: "nat \<Rightarrow> nat \<Rightarrow> u8 \<Rightarrow> nx_modbus_rtu_slave_ret" where
  "reply_allowed pool response_queue slave_addr =
     (if pool = 0 \<or> response_queue = 0 then NX_MODBUS_RTU_SLAVE_ERR_PARAM
      else if slave_addr = NX_MODBUS_RTU_ADDR_BROADCAST then NX_MODBUS_RTU_SLAVE_ERR_BROADCAST
      else NX_MODBUS_RTU_SLAVE_OK)"

definition reply_send :: "'e rtu_world \<Rightarrow> nat \<Rightarrow> nat \<Rightarrow> nat \<Rightarrow> (nx_modbus_rtu_slave_ret \<times> 'e rtu_world) option" where
  "reply_send w msg response_queue len = do {
     d \<leftarrow> msg_load w msg;
     (_, f) \<leftarrow> nx_modbus_rtu_set_crc (Some d) len;
     d' \<leftarrow> f;
     w1 \<leftarrow> msg_put length w msg d';
     (r, w2) \<leftarrow> nx_ref_msg_publish w1 msg response_queue;
     (_, w3) \<leftarrow> nx_ref_msg_release w2 msg;
     Some (if r = NX_REF_MSG_OK then NX_MODBUS_RTU_SLAVE_OK else NX_MODBUS_RTU_SLAVE_ERR_FULL, w3) }"

text \<open>
  The common part of the builders: allocate \<open>len\<close> bytes, write the fields \<open>hdr\<close> at the start, stamp and send. The rest of the block,
  the two CRC bytes, is not read before the stamp.
\<close>

definition reply_build ::
  "'e rtu_world \<Rightarrow> nat \<Rightarrow> nat \<Rightarrow> nat \<Rightarrow> bytes option \<Rightarrow> (nx_modbus_rtu_slave_ret \<times> 'e rtu_world) option" where
  "reply_build w pool response_queue len hdr = do {
     (msg, w1) \<leftarrow> nx_ref_msg_alloc w pool len;
     if msg = 0 then Some (NX_MODBUS_RTU_SLAVE_ERR_NOMEM, w1)
     else do {
       x \<leftarrow> hdr;
       d \<leftarrow> mem_write 0 x (replicate len 0);
       w2 \<leftarrow> msg_put length w1 msg d;
       reply_send w2 msg response_queue len } }"

definition nx_modbus_rtu_slave_reply_read ::
  "'e rtu_world \<Rightarrow> nat \<Rightarrow> nat \<Rightarrow> u8 \<Rightarrow> u8 \<Rightarrow> bytes option \<Rightarrow> nat \<Rightarrow> (nx_modbus_rtu_slave_ret \<times> 'e rtu_world) option" where
  "nx_modbus_rtu_slave_reply_read w pool response_queue slave_addr cmd data len =
     (let ret = reply_allowed pool response_queue slave_addr
      in if ret \<noteq> NX_MODBUS_RTU_SLAVE_OK then Some (ret, w)
         else if data = None \<or> len = 0 \<or> len > NX_MODBUS_RTU_MAX_ADU - 5 then Some (NX_MODBUS_RTU_SLAVE_ERR_PARAM, w)
         else reply_build w pool response_queue (3 + len + 2)
           (do { src \<leftarrow> data; x \<leftarrow> mem_read 0 len src; Some ([slave_addr, cmd, of_nat len] @ x) }))"

definition nx_modbus_rtu_slave_reply_write ::
  "'e rtu_world \<Rightarrow> nat \<Rightarrow> nat \<Rightarrow> u8 \<Rightarrow> u8 \<Rightarrow> u16 \<Rightarrow> u16 \<Rightarrow> (nx_modbus_rtu_slave_ret \<times> 'e rtu_world) option" where
  "nx_modbus_rtu_slave_reply_write w pool response_queue slave_addr cmd addr data =
     (let ret = reply_allowed pool response_queue slave_addr
      in if ret \<noteq> NX_MODBUS_RTU_SLAVE_OK then Some (ret, w)
         else reply_build w pool response_queue 8
           (Some [slave_addr, cmd, ucast (drop_bit 8 addr), ucast (addr AND 0xFF), ucast (drop_bit 8 data), ucast (data AND 0xFF)]))"

definition nx_modbus_rtu_slave_reply_exception ::
  "'e rtu_world \<Rightarrow> nat \<Rightarrow> nat \<Rightarrow> u8 \<Rightarrow> u8 \<Rightarrow> u8 \<Rightarrow> (nx_modbus_rtu_slave_ret \<times> 'e rtu_world) option" where
  "nx_modbus_rtu_slave_reply_exception w pool response_queue slave_addr cmd exception_code =
     (let ret = reply_allowed pool response_queue slave_addr
      in if ret \<noteq> NX_MODBUS_RTU_SLAVE_OK then Some (ret, w)
         else reply_build w pool response_queue 5 (Some [slave_addr, cmd OR NX_MODBUS_RTU_EXCEPTION_FLAG, exception_code]))"

section \<open>Dispatch\<close>

definition send_exception :: "'e nx_modbus_rtu_slave_cfg \<Rightarrow> 'e rtu_world \<Rightarrow> bytes \<Rightarrow> u8 \<Rightarrow> 'e rtu_world option" where
  "send_exception cfg w frame exc = do {
     a \<leftarrow> mem_get 0 frame;
     c \<leftarrow> mem_get 1 frame;
     (_, w1) \<leftarrow> nx_modbus_rtu_slave_reply_exception w (sc_pool cfg) (sc_response_queue cfg) a c exc;
     Some w1 }"

definition sub_owns :: "u8 \<Rightarrow> u16 \<Rightarrow> u32 \<Rightarrow> nx_modbus_rtu_slave_sub \<Rightarrow> bool" where
  "sub_owns cmd lo hi sub \<longleftrightarrow> \<not> (sub_func sub \<noteq> cmd \<or> lo < sub_addr_min sub \<or> hi > ucast (sub_addr_max sub))"

text \<open>
  The loop over the subscriptions. The state is the message (0 while there is none) and the two counters; \<open>Inl w\<close> is
  the return from inside the loop when there is no memory for the message.
\<close>

fun dispatch_loop ::
  "'e nx_modbus_rtu_slave_cfg \<Rightarrow> bytes \<Rightarrow> nat \<Rightarrow> u8 \<Rightarrow> u16 \<Rightarrow> u32 \<Rightarrow> nx_modbus_rtu_slave_sub list \<Rightarrow> nat \<Rightarrow> nat \<Rightarrow> nat \<Rightarrow> 'e rtu_world \<Rightarrow>
   ('e rtu_world + nat \<times> nat \<times> nat \<times> 'e rtu_world) option" where
  "dispatch_loop cfg frame flen cmd lo hi [] msg matched delivered w = Some (Inr (msg, matched, delivered, w))"
| "dispatch_loop cfg frame flen cmd lo hi (sub # subs) msg matched delivered w =
     (if \<not> sub_owns cmd lo hi sub then dispatch_loop cfg frame flen cmd lo hi subs msg matched delivered w
      else do {
        (msg1, w1) \<leftarrow>
          (if msg \<noteq> 0 then Some (msg, w)
           else do {
             (a, w1) \<leftarrow> nx_ref_msg_alloc w (sc_pool cfg) flen;
             if a = 0 then Some (0, w1)
             else do {
               x \<leftarrow> mem_read 0 flen frame;
               w2 \<leftarrow> msg_put length w1 a x;
               Some (a, w2) } });
        if msg1 = 0 then do {
          w2 \<leftarrow> send_exception cfg w1 frame NX_MODBUS_EXC_SLAVE_DEVICE_FAILURE;
          Some (Inl w2) }
        else do {
          (r, w2) \<leftarrow> nx_ref_msg_publish w1 msg1 (sub_queue sub);
          dispatch_loop cfg frame flen cmd lo hi subs msg1 (matched + 1)
            (if r = NX_REF_MSG_OK then delivered + 1 else delivered) w2 } })"

text \<open>The subscription table as the loops run over it.\<close>

definition slave_subs :: "'e nx_modbus_rtu_slave_cfg \<Rightarrow> nx_modbus_rtu_slave_sub list option" where
  "slave_subs cfg = (if sc_subs_count cfg = 0 then Some [] else do { subs \<leftarrow> sc_subs cfg; mem_read 0 (sc_subs_count cfg) subs })"

definition dispatch :: "'e nx_modbus_rtu_slave_cfg \<Rightarrow> 'e rtu_world \<Rightarrow> bytes \<Rightarrow> nat \<Rightarrow> 'e rtu_world option" where
  "dispatch cfg w frame flen = do {
     cmd \<leftarrow> mem_get 1 frame;
     subs \<leftarrow> slave_subs cfg;
     if \<not> list_ex (\<lambda>sub. sub_func sub = cmd) subs then send_exception cfg w frame NX_MODBUS_EXC_ILLEGAL_FUNCTION
     else do {
       exc \<leftarrow> request_value_exc cmd frame;
       if exc \<noteq> 0 then send_exception cfg w frame exc
       else do {
         (lo, hi) \<leftarrow> request_span cmd frame;
         r \<leftarrow> dispatch_loop cfg frame flen cmd lo hi subs 0 0 0 w;
         case r of
           Inl w1 \<Rightarrow> Some w1
         | Inr (msg, matched, delivered, w1) \<Rightarrow> do {
             w2 \<leftarrow> (if msg \<noteq> 0 then map_option snd (nx_ref_msg_release w1 msg) else Some w1);
             if matched = 0 then send_exception cfg w2 frame NX_MODBUS_EXC_ILLEGAL_DATA_ADDR
             else if delivered = 0 then send_exception cfg w2 frame NX_MODBUS_EXC_SLAVE_DEVICE_BUSY
             else Some w2 } } } }"

section \<open>Receive\<close>

text \<open>
  The slicing loop over the received bytes: \<open>front\<close> is the start of what is not consumed. The result is the final \<open>front\<close>.
\<close>

function slave_slice :: "'e nx_modbus_rtu_slave_cfg \<Rightarrow> bytes \<Rightarrow> nat \<Rightarrow> nat \<Rightarrow> 'e rtu_world \<Rightarrow> (nat \<times> 'e rtu_world) option" where
  "slave_slice cfg buf rx_len front w =
     (if rx_len - front < MODBUS_RTU_ADU_MIN then Some (front, w)
      else
        let p = drop front buf; have_len = rx_len - front
        in do {
          addr \<leftarrow> mem_get 0 p;
          if addr \<noteq> sc_slave_addr cfg \<and> \<not> (addr = NX_MODBUS_RTU_ADDR_BROADCAST \<and> sc_accept_broadcast cfg)
          then slave_slice cfg buf rx_len (front + 1) w
          else do {
            cmd \<leftarrow> mem_get 1 p;
            flen \<leftarrow> frame_len cmd p have_len;
            if flen = 0 then slave_slice cfg buf rx_len (front + 1) w
            else if flen = SIZE_MAX then Some (front, w)
            else if flen > sc_rx_size cfg then slave_slice cfg buf rx_len (front + 1) w
            else if have_len < flen then Some (front, w)
            else do {
              ok \<leftarrow> nx_modbus_rtu_check_crc (Some p) flen;
              if \<not> ok then slave_slice cfg buf rx_len (front + 1) w
              else do {
                w1 \<leftarrow> dispatch cfg w p flen;
                slave_slice cfg buf rx_len (front + flen) w1 } } } })"
  by pat_completeness auto
termination
  by (relation "measure (\<lambda>(cfg, buf, rx_len, front, w). rx_len - front)") auto

declare slave_slice.simps [simp del]

text \<open>Time stamping of bus activity, and the call of the direction pin, where they are configured.\<close>

definition slave_stamp :: "'e nx_modbus_rtu_slave \<Rightarrow> 'e \<Rightarrow> 'e nx_modbus_rtu_slave \<times> 'e" where
  "slave_stamp s e =
     (case sc_get_us (ms_cfg s) of
        Some get_us \<Rightarrow> if ms_gap_us s \<noteq> 0 then (let (t, e1) = get_us e in (s\<lparr> ms_last_bus_activity_us := t \<rparr>, e1)) else (s, e)
      | None \<Rightarrow> (s, e))"

definition slave_dir :: "'e nx_modbus_rtu_slave_cfg \<Rightarrow> bool \<Rightarrow> 'e \<Rightarrow> 'e" where
  "slave_dir cfg enable e = (case sc_dir_tx cfg of None \<Rightarrow> e | Some dir_tx \<Rightarrow> dir_tx (sc_dir_ctx cfg) enable e)"

text \<open>Step 1: pull the bytes that are available into the tail of the buffer.\<close>

definition slave_pull :: "'e nx_modbus_rtu_slave \<Rightarrow> 'e rtu_world \<Rightarrow> ('e nx_modbus_rtu_slave \<times> 'e rtu_world) option" where
  "slave_pull s w =
     (if ms_rx_len s < sc_rx_size (ms_cfg s) then do {
        read \<leftarrow> sc_read (ms_cfg s);
        buf \<leftarrow> sc_rx_buf (ms_cfg s);
        let (x, e) = read (sc_io_ctx (ms_cfg s)) (sc_rx_size (ms_cfg s) - ms_rx_len s) (rw_env w);
        buf1 \<leftarrow> mem_write (ms_rx_len s) x buf;
        let s1 = s\<lparr> ms_cfg := (ms_cfg s)\<lparr> sc_rx_buf := Some buf1 \<rparr> \<rparr>;
        let (s2, e1) = (if length x > 0 then slave_stamp s1 e else (s1, e));
        Some (s2\<lparr> ms_rx_len := ms_rx_len s2 + length x \<rparr>, w\<lparr> rw_env := e1 \<rparr>) }
      else Some (s, w))"

definition slave_rx :: "'e nx_modbus_rtu_slave \<Rightarrow> 'e rtu_world \<Rightarrow> ('e nx_modbus_rtu_slave \<times> 'e rtu_world) option" where
  "slave_rx s w = do {
     (s1, w1) \<leftarrow> slave_pull s w;
     buf \<leftarrow> sc_rx_buf (ms_cfg s1);
     (front, w2) \<leftarrow> slave_slice (ms_cfg s1) buf (ms_rx_len s1) 0 w1;
     (buf1, len1) \<leftarrow> rtu_compact buf (ms_rx_len s1) front (sc_rx_size (ms_cfg s1));
     Some (s1\<lparr> ms_cfg := (ms_cfg s1)\<lparr> sc_rx_buf := Some buf1 \<rparr>, ms_rx_len := len1 \<rparr>, w2) }"

section \<open>Transmit\<close>

text \<open>
  The end of a transmission: the direction pin is released, the message too. The bytes the driver is given are those of the message's
  length at its data pointer.
\<close>

definition slave_tx_finish :: "'e nx_modbus_rtu_slave \<Rightarrow> 'e rtu_world \<Rightarrow> ('e nx_modbus_rtu_slave \<times> 'e rtu_world) option" where
  "slave_tx_finish s w = do {
     let w1 = w\<lparr> rw_env := slave_dir (ms_cfg s) False (rw_env w) \<rparr>;
     (_, w2) \<leftarrow> nx_ref_msg_release w1 (ms_tx_cur s);
     let s1 = s\<lparr> ms_tx_cur := 0, ms_tx_state := TX_IDLE \<rparr>;
     let (s2, e) = slave_stamp s1 (rw_env w2);
     Some (s2, w2\<lparr> rw_env := e \<rparr>) }"

text \<open>Whether the interface reports that it is busy; whether the bus has been silent for the gap.\<close>

definition slave_busy :: "'e nx_modbus_rtu_slave_cfg \<Rightarrow> 'e \<Rightarrow> bool \<times> 'e" where
  "slave_busy cfg e = (case sc_is_busy cfg of None \<Rightarrow> (False, e) | Some is_busy \<Rightarrow> is_busy (sc_io_ctx cfg) e)"

definition slave_silent :: "'e nx_modbus_rtu_slave \<Rightarrow> 'e \<Rightarrow> bool \<times> 'e" where
  "slave_silent s e =
     (case sc_get_us (ms_cfg s) of
        Some get_us \<Rightarrow>
          if ms_gap_us s \<noteq> 0
          then (let (t, e1) = get_us e in (\<not> t - ms_last_bus_activity_us s < ms_gap_us s, e1)) else (True, e)
      | None \<Rightarrow> (True, e))"

definition slave_tx_idle :: "'e nx_modbus_rtu_slave \<Rightarrow> 'e rtu_world \<Rightarrow> ('e nx_modbus_rtu_slave \<times> 'e rtu_world) option" where
  "slave_tx_idle s w =
     (let cfg = ms_cfg s
      in do {
        qo \<leftarrow> rw_queues w (sc_response_queue cfg);
        if nx_queue_is_empty (Some qo) then Some (s, w)
        else
          let (busy, e1) = slave_busy cfg (rw_env w)
          in if busy then Some (s, w\<lparr> rw_env := e1 \<rparr>)
             else
               let (silent, e2) = slave_silent s e1
               in if \<not> silent then Some (s, w\<lparr> rw_env := e2 \<rparr>)
                  else do {
                    (got, w1) \<leftarrow> ref_msg_consume (w\<lparr> rw_env := e2 \<rparr>) (sc_response_queue cfg);
                    if got = None \<or> got = Some 0 then Some (s, w1)
                    else do {
                      msg \<leftarrow> got;
                      let s1 = s\<lparr> ms_tx_cur := msg \<rparr>;
                      let e3 = slave_dir cfg True (rw_env w1);
                      len \<leftarrow> nx_ref_msg_len w1 msg;
                      d \<leftarrow> msg_load w1 msg;
                      x \<leftarrow> mem_read 0 len d;
                      write \<leftarrow> sc_write cfg;
                      let (accepted, e4) = write (sc_io_ctx cfg) x e3;
                      let w2 = w1\<lparr> rw_env := e4 \<rparr>;
                      if \<not> accepted then do {
                        let w3 = w2\<lparr> rw_env := slave_dir cfg False e4 \<rparr>;
                        (_, w4) \<leftarrow> nx_ref_msg_release w3 msg;
                        Some (s1\<lparr> ms_tx_cur := 0, ms_tx_state := TX_IDLE \<rparr>, w4) }
                      else if sc_is_busy cfg = None then slave_tx_finish s1 w2
                      else Some (s1\<lparr> ms_tx_state := TX_SENDING \<rparr>, w2) } } })"

definition slave_tx_sending :: "'e nx_modbus_rtu_slave \<Rightarrow> 'e rtu_world \<Rightarrow> ('e nx_modbus_rtu_slave \<times> 'e rtu_world) option" where
  "slave_tx_sending s w = do {
     is_busy \<leftarrow> sc_is_busy (ms_cfg s);
     let (busy, e1) = is_busy (sc_io_ctx (ms_cfg s)) (rw_env w);
     let w1 = w\<lparr> rw_env := e1 \<rparr>;
     if \<not> busy then slave_tx_finish s w1 else Some (s, w1) }"

definition slave_tx :: "'e nx_modbus_rtu_slave \<Rightarrow> 'e rtu_world \<Rightarrow> ('e nx_modbus_rtu_slave \<times> 'e rtu_world) option" where
  "slave_tx s w =
     (if ms_tx_state s = TX_IDLE then slave_tx_idle s w
      else if ms_tx_state s = TX_SENDING then slave_tx_sending s w
      else Some (s\<lparr> ms_tx_state := TX_IDLE \<rparr>, w))"

section \<open>Public API\<close>

definition slave_gap :: "u32 \<Rightarrow> u32" where
  "slave_gap baud_rate = (if baud_rate \<noteq> 0 then of_nat (38500000 div unat baud_rate) + 1 else 0)"

definition slave_cfg_valid :: "'e nx_modbus_rtu_slave_cfg \<Rightarrow> bool" where
  "slave_cfg_valid cfg \<longleftrightarrow> sc_pool cfg \<noteq> 0 \<and> sc_rx_buf cfg \<noteq> None \<and> sc_response_queue cfg \<noteq> 0 \<and>
     sc_read cfg \<noteq> None \<and> sc_write cfg \<noteq> None \<and> \<not> (sc_subs cfg = None \<and> sc_subs_count cfg \<noteq> 0)"

definition nx_modbus_rtu_slave_init ::
  "'e nx_modbus_rtu_slave option \<Rightarrow> 'e nx_modbus_rtu_slave_cfg option \<Rightarrow> 'e \<Rightarrow> (bool \<times> 'e nx_modbus_rtu_slave option \<times> 'e) option" where
  "nx_modbus_rtu_slave_init sp cfgp e =
     (case (sp, cfgp) of
        (Some s, Some cfg) \<Rightarrow>
          if \<not> slave_cfg_valid cfg then Some (False, sp, e)
          else do {
            subs \<leftarrow> slave_subs cfg;
            if list_ex (\<lambda>sub. sub_queue sub = 0) subs then Some (False, sp, e)
            else if sc_rx_size cfg < 8 + 1 then Some (False, sp, e)
            else if sc_slave_addr cfg < NX_MODBUS_RTU_ADDR_MIN \<or> sc_slave_addr cfg > NX_MODBUS_RTU_ADDR_MAX
            then Some (False, sp, e)
            else
              let s1 = \<lparr> ms_cfg = cfg, ms_rx_len = 0, ms_gap_us = slave_gap (sc_baud_rate cfg), ms_tx_state = TX_IDLE,
                         ms_last_bus_activity_us = 0, ms_tx_cur = 0 \<rparr>;
                  e1 = slave_dir cfg False e;
                  (s2, e2) = slave_stamp s1 e1
              in Some (True, Some s2, e2) }
      | _ \<Rightarrow> Some (False, sp, e))"

definition nx_modbus_rtu_slave_deinit ::
  "'e nx_modbus_rtu_slave option \<Rightarrow> 'e rtu_world \<Rightarrow> ('e nx_modbus_rtu_slave option \<times> 'e rtu_world) option" where
  "nx_modbus_rtu_slave_deinit sp w =
     (case sp of
        None \<Rightarrow> Some (None, w)
      | Some s \<Rightarrow> do {
          (s1, w1) \<leftarrow> (if ms_tx_cur s \<noteq> 0
                     then do { (_, w1) \<leftarrow> nx_ref_msg_release w (ms_tx_cur s); Some (s\<lparr> ms_tx_cur := 0 \<rparr>, w1) }
                     else Some (s, w));
          let w2 = w1\<lparr> rw_env := slave_dir (ms_cfg s1) False (rw_env w1) \<rparr>;
          Some (Some (s1\<lparr> ms_rx_len := 0, ms_tx_state := TX_IDLE \<rparr>), w2) })"

definition nx_modbus_rtu_slave_process ::
  "'e nx_modbus_rtu_slave option \<Rightarrow> 'e rtu_world \<Rightarrow> ('e nx_modbus_rtu_slave option \<times> 'e rtu_world) option" where
  "nx_modbus_rtu_slave_process sp w =
     (case sp of
        None \<Rightarrow> Some (None, w)
      | Some s \<Rightarrow> do {
          (s1, w1) \<leftarrow> slave_rx s w;
          (s2, w2) \<leftarrow> slave_tx s1 w1;
          Some (Some s2, w2) })"

end
