(* ===== verification/Nx_Modbus_Master.thy ===== *)
theory Nx_Modbus_Master
  imports Nx_Modbus_Slave
begin

text \<open>
  \<open>src/middleware/nx_modbus_rtu_master.c\<close>: the Modbus RTU master. Request builders put frames on a queue; the transmitter takes
  them off one by one after a silence on the bus; the bytes that come back are cut into frames by length and each frame that checks
  is published to every subscriber that claims the address and function it carries. Types, memory and callbacks are as in
  \<open>Nx_Modbus_Slave\<close>.
\<close>

section \<open>Types\<close>

abbreviation (input) MODBUS_RTU_RSP_MIN :: nat where "MODBUS_RTU_RSP_MIN \<equiv> 5"
abbreviation (input) MODBUS_RTU_RSP_WRITE_LEN :: nat where "MODBUS_RTU_RSP_WRITE_LEN \<equiv> 8"

datatype nx_modbus_rtu_master_ret =
  NX_MODBUS_RTU_MASTER_OK | NX_MODBUS_RTU_MASTER_ERR_PARAM | NX_MODBUS_RTU_MASTER_ERR_NOMEM | NX_MODBUS_RTU_MASTER_ERR_FULL

record nx_modbus_rtu_master_sub =
  su_slave_addr :: u8
  su_func :: u8
  su_queue :: nat

record 'e nx_modbus_rtu_master_cfg =
  mc_baud_rate :: u32
  mc_pool :: nat
  mc_rx_buf :: "bytes option"
  mc_rx_size :: nat
  mc_subs :: "nx_modbus_rtu_master_sub list option"
  mc_subs_count :: nat
  mc_request_queue :: nat
  mc_read :: "(nat \<Rightarrow> nat \<Rightarrow> 'e \<Rightarrow> bytes \<times> 'e) option"
  mc_write :: "(nat \<Rightarrow> bytes \<Rightarrow> 'e \<Rightarrow> bool \<times> 'e) option"
  mc_is_busy :: "(nat \<Rightarrow> 'e \<Rightarrow> bool \<times> 'e) option"
  mc_dir_tx :: "(nat \<Rightarrow> bool \<Rightarrow> 'e \<Rightarrow> 'e) option"
  mc_get_us :: "('e \<Rightarrow> u32 \<times> 'e) option"
  mc_io_ctx :: nat
  mc_dir_ctx :: nat

record 'e nx_modbus_rtu_master =
  mm_cfg :: "'e nx_modbus_rtu_master_cfg"
  mm_rx_len :: nat
  mm_gap_us :: u32
  mm_tx_state :: u8
  mm_last_bus_activity_us :: u32
  mm_tx_cur :: nat

section \<open>Frame geometry\<close>

definition response_len :: "u8 \<Rightarrow> bytes \<Rightarrow> nat \<Rightarrow> nat option" where
  "response_len cmd p avail =
     (if cmd AND NX_MODBUS_RTU_EXCEPTION_FLAG \<noteq> 0 then Some 5
      else if cmd \<in> {NX_MODBUS_FC_READ_COILS, NX_MODBUS_FC_READ_DISCRETE_INPUTS, NX_MODBUS_FC_READ_HOLDING_REGS,
                     NX_MODBUS_FC_READ_INPUT_REGS, NX_MODBUS_FC_READ_WRITE_REGS}
      then (if avail < 3 then Some SIZE_MAX else do { bc \<leftarrow> mem_get 2 p; Some (unat bc + 5) })
      else if cmd \<in> {NX_MODBUS_FC_WRITE_SINGLE_COIL, NX_MODBUS_FC_WRITE_SINGLE_REG, NX_MODBUS_FC_WRITE_MULTIPLE_COILS,
                     NX_MODBUS_FC_WRITE_MULTIPLE_REGS}
      then Some MODBUS_RTU_RSP_WRITE_LEN
      else Some 0)"

section \<open>Dispatch\<close>

definition sub_claims :: "nx_modbus_rtu_master_sub \<Rightarrow> u8 \<Rightarrow> u8 \<Rightarrow> bool" where
  "sub_claims sub addr cmd =
     (if su_slave_addr sub \<noteq> addr then False
      else if su_func sub = 0 then True
      else cmd AND NOT NX_MODBUS_RTU_EXCEPTION_FLAG = su_func sub)"

text \<open>The subscription table as the loops run over it.\<close>

definition master_subs :: "'e nx_modbus_rtu_master_cfg \<Rightarrow> nx_modbus_rtu_master_sub list option" where
  "master_subs cfg = (if mc_subs_count cfg = 0 then Some [] else do { subs \<leftarrow> mc_subs cfg; mem_read 0 (mc_subs_count cfg) subs })"

text \<open>
  The loop over the subscriptions. \<open>msg\<close> is the message, 0 while there is none; \<open>Inl w\<close> is the return from inside the loop
  when there is no memory for it.
\<close>

fun master_dispatch_loop ::
  "'e nx_modbus_rtu_master_cfg \<Rightarrow> bytes \<Rightarrow> nat \<Rightarrow> u8 \<Rightarrow> u8 \<Rightarrow> nx_modbus_rtu_master_sub list \<Rightarrow> nat \<Rightarrow> 'e rtu_world \<Rightarrow>
   ('e rtu_world + nat \<times> 'e rtu_world) option" where
  "master_dispatch_loop cfg frame flen addr cmd [] msg w = Some (Inr (msg, w))"
| "master_dispatch_loop cfg frame flen addr cmd (sub # subs) msg w =
     (if \<not> sub_claims sub addr cmd then master_dispatch_loop cfg frame flen addr cmd subs msg w
      else do {
        (msg1, w1) \<leftarrow>
          (if msg \<noteq> 0 then Some (msg, w)
           else do {
             (a, w1) \<leftarrow> nx_ref_msg_alloc w (mc_pool cfg) flen;
             if a = 0 then Some (0, w1)
             else do {
               x \<leftarrow> mem_read 0 flen frame;
               w2 \<leftarrow> msg_put length w1 a x;
               Some (a, w2) } });
        if msg1 = 0 then Some (Inl w1)
        else do {
          (_, w2) \<leftarrow> nx_ref_msg_publish w1 msg1 (su_queue sub);
          master_dispatch_loop cfg frame flen addr cmd subs msg1 w2 } })"

definition master_dispatch :: "'e nx_modbus_rtu_master_cfg \<Rightarrow> 'e rtu_world \<Rightarrow> bytes \<Rightarrow> nat \<Rightarrow> 'e rtu_world option" where
  "master_dispatch cfg w frame flen = do {
     addr \<leftarrow> mem_get 0 frame;
     cmd \<leftarrow> mem_get 1 frame;
     subs \<leftarrow> master_subs cfg;
     r \<leftarrow> master_dispatch_loop cfg frame flen addr cmd subs 0 w;
     case r of
       Inl w1 \<Rightarrow> Some w1
     | Inr (msg, w1) \<Rightarrow> if msg \<noteq> 0 then map_option snd (nx_ref_msg_release w1 msg) else Some w1 }"

section \<open>Receive\<close>

text \<open>The slicing loop over the received bytes; the result is the final \<open>front\<close>.\<close>

function master_slice :: "'e nx_modbus_rtu_master_cfg \<Rightarrow> bytes \<Rightarrow> nat \<Rightarrow> nat \<Rightarrow> 'e rtu_world \<Rightarrow> (nat \<times> 'e rtu_world) option" where
  "master_slice cfg buf rx_len front w =
     (if rx_len - front < MODBUS_RTU_RSP_MIN then Some (front, w)
      else
        let p = drop front buf; have_len = rx_len - front
        in do {
          cmd \<leftarrow> mem_get 1 p;
          flen \<leftarrow> response_len cmd p have_len;
          if flen = 0 then master_slice cfg buf rx_len (front + 1) w
          else if flen = SIZE_MAX then Some (front, w)
          else if flen > mc_rx_size cfg then master_slice cfg buf rx_len (front + 1) w
          else if have_len < flen then Some (front, w)
          else do {
            ok \<leftarrow> nx_modbus_rtu_check_crc (Some p) flen;
            if \<not> ok then master_slice cfg buf rx_len (front + 1) w
            else do {
              w1 \<leftarrow> master_dispatch cfg w p flen;
              master_slice cfg buf rx_len (front + flen) w1 } } })"
  by pat_completeness auto
termination
  by (relation "measure (\<lambda>(cfg, buf, rx_len, front, w). rx_len - front)") auto

declare master_slice.simps [simp del]

definition master_stamp :: "'e nx_modbus_rtu_master \<Rightarrow> 'e \<Rightarrow> 'e nx_modbus_rtu_master \<times> 'e" where
  "master_stamp m e =
     (case mc_get_us (mm_cfg m) of
        Some get_us \<Rightarrow> if mm_gap_us m \<noteq> 0 then (let (t, e1) = get_us e in (m\<lparr> mm_last_bus_activity_us := t \<rparr>, e1)) else (m, e)
      | None \<Rightarrow> (m, e))"

definition master_dir :: "'e nx_modbus_rtu_master_cfg \<Rightarrow> bool \<Rightarrow> 'e \<Rightarrow> 'e" where
  "master_dir cfg enable e = (case mc_dir_tx cfg of None \<Rightarrow> e | Some dir_tx \<Rightarrow> dir_tx (mc_dir_ctx cfg) enable e)"

text \<open>Step 1: pull the bytes that are available into the tail of the buffer.\<close>

definition master_pull :: "'e nx_modbus_rtu_master \<Rightarrow> 'e rtu_world \<Rightarrow> ('e nx_modbus_rtu_master \<times> 'e rtu_world) option" where
  "master_pull m w =
     (if mm_rx_len m < mc_rx_size (mm_cfg m) then do {
        read \<leftarrow> mc_read (mm_cfg m);
        buf \<leftarrow> mc_rx_buf (mm_cfg m);
        let (x, e) = read (mc_io_ctx (mm_cfg m)) (mc_rx_size (mm_cfg m) - mm_rx_len m) (rw_env w);
        buf1 \<leftarrow> mem_write (mm_rx_len m) x buf;
        let m1 = m\<lparr> mm_cfg := (mm_cfg m)\<lparr> mc_rx_buf := Some buf1 \<rparr> \<rparr>;
        let (m2, e1) = (if length x > 0 then master_stamp m1 e else (m1, e));
        Some (m2\<lparr> mm_rx_len := mm_rx_len m2 + length x \<rparr>, w\<lparr> rw_env := e1 \<rparr>) }
      else Some (m, w))"

definition master_rx :: "'e nx_modbus_rtu_master \<Rightarrow> 'e rtu_world \<Rightarrow> ('e nx_modbus_rtu_master \<times> 'e rtu_world) option" where
  "master_rx m w = do {
     (m1, w1) \<leftarrow> master_pull m w;
     buf \<leftarrow> mc_rx_buf (mm_cfg m1);
     (front, w2) \<leftarrow> master_slice (mm_cfg m1) buf (mm_rx_len m1) 0 w1;
     (buf1, len1) \<leftarrow> rtu_compact buf (mm_rx_len m1) front (mc_rx_size (mm_cfg m1));
     Some (m1\<lparr> mm_cfg := (mm_cfg m1)\<lparr> mc_rx_buf := Some buf1 \<rparr>, mm_rx_len := len1 \<rparr>, w2) }"

section \<open>Transmit\<close>

definition master_tx_finish :: "'e nx_modbus_rtu_master \<Rightarrow> 'e rtu_world \<Rightarrow> ('e nx_modbus_rtu_master \<times> 'e rtu_world) option" where
  "master_tx_finish m w = do {
     let w1 = w\<lparr> rw_env := master_dir (mm_cfg m) False (rw_env w) \<rparr>;
     (_, w2) \<leftarrow> nx_ref_msg_release w1 (mm_tx_cur m);
     let m1 = m\<lparr> mm_tx_cur := 0, mm_tx_state := TX_IDLE \<rparr>;
     let (m2, e) = master_stamp m1 (rw_env w2);
     Some (m2, w2\<lparr> rw_env := e \<rparr>) }"

definition master_busy :: "'e nx_modbus_rtu_master_cfg \<Rightarrow> 'e \<Rightarrow> bool \<times> 'e" where
  "master_busy cfg e = (case mc_is_busy cfg of None \<Rightarrow> (False, e) | Some is_busy \<Rightarrow> is_busy (mc_io_ctx cfg) e)"

definition master_silent :: "'e nx_modbus_rtu_master \<Rightarrow> 'e \<Rightarrow> bool \<times> 'e" where
  "master_silent m e =
     (case mc_get_us (mm_cfg m) of
        Some get_us \<Rightarrow>
          if mm_gap_us m \<noteq> 0
          then (let (t, e1) = get_us e in (\<not> t - mm_last_bus_activity_us m < mm_gap_us m, e1)) else (True, e)
      | None \<Rightarrow> (True, e))"

definition master_tx_idle :: "'e nx_modbus_rtu_master \<Rightarrow> 'e rtu_world \<Rightarrow> ('e nx_modbus_rtu_master \<times> 'e rtu_world) option" where
  "master_tx_idle m w =
     (let cfg = mm_cfg m
      in do {
        qo \<leftarrow> rw_queues w (mc_request_queue cfg);
        if nx_queue_is_empty (Some qo) then Some (m, w)
        else
          let (busy, e1) = master_busy cfg (rw_env w)
          in if busy then Some (m, w\<lparr> rw_env := e1 \<rparr>)
             else
               let (silent, e2) = master_silent m e1
               in if \<not> silent then Some (m, w\<lparr> rw_env := e2 \<rparr>)
                  else do {
                    (got, w1) \<leftarrow> ref_msg_consume (w\<lparr> rw_env := e2 \<rparr>) (mc_request_queue cfg);
                    if got = None \<or> got = Some 0 then Some (m, w1)
                    else do {
                      msg \<leftarrow> got;
                      let m1 = m\<lparr> mm_tx_cur := msg \<rparr>;
                      let e3 = master_dir cfg True (rw_env w1);
                      len \<leftarrow> nx_ref_msg_len w1 msg;
                      d \<leftarrow> msg_load w1 msg;
                      x \<leftarrow> mem_read 0 len d;
                      write \<leftarrow> mc_write cfg;
                      let (accepted, e4) = write (mc_io_ctx cfg) x e3;
                      let w2 = w1\<lparr> rw_env := e4 \<rparr>;
                      if \<not> accepted then do {
                        let w3 = w2\<lparr> rw_env := master_dir cfg False e4 \<rparr>;
                        (_, w4) \<leftarrow> nx_ref_msg_release w3 msg;
                        Some (m1\<lparr> mm_tx_cur := 0, mm_tx_state := TX_IDLE \<rparr>, w4) }
                      else if mc_is_busy cfg = None then master_tx_finish m1 w2
                      else Some (m1\<lparr> mm_tx_state := TX_SENDING \<rparr>, w2) } } })"

definition master_tx_sending :: "'e nx_modbus_rtu_master \<Rightarrow> 'e rtu_world \<Rightarrow> ('e nx_modbus_rtu_master \<times> 'e rtu_world) option" where
  "master_tx_sending m w = do {
     is_busy \<leftarrow> mc_is_busy (mm_cfg m);
     let (busy, e1) = is_busy (mc_io_ctx (mm_cfg m)) (rw_env w);
     let w1 = w\<lparr> rw_env := e1 \<rparr>;
     if \<not> busy then master_tx_finish m w1 else Some (m, w1) }"

definition master_tx :: "'e nx_modbus_rtu_master \<Rightarrow> 'e rtu_world \<Rightarrow> ('e nx_modbus_rtu_master \<times> 'e rtu_world) option" where
  "master_tx m w =
     (if mm_tx_state m = TX_IDLE then master_tx_idle m w
      else if mm_tx_state m = TX_SENDING then master_tx_sending m w
      else Some (m\<lparr> mm_tx_state := TX_IDLE \<rparr>, w))"

section \<open>Lifecycle\<close>

definition master_gap :: "u32 \<Rightarrow> u32" where
  "master_gap baud_rate = (if baud_rate \<noteq> 0 then of_nat (38500000 div unat baud_rate) + 1 else 0)"

definition master_cfg_valid :: "'e nx_modbus_rtu_master_cfg \<Rightarrow> bool" where
  "master_cfg_valid cfg \<longleftrightarrow> mc_pool cfg \<noteq> 0 \<and> mc_rx_buf cfg \<noteq> None \<and> mc_request_queue cfg \<noteq> 0 \<and>
     mc_read cfg \<noteq> None \<and> mc_write cfg \<noteq> None \<and> \<not> (mc_subs cfg = None \<and> mc_subs_count cfg \<noteq> 0)"

definition nx_modbus_rtu_master_init ::
  "'e nx_modbus_rtu_master option \<Rightarrow> 'e nx_modbus_rtu_master_cfg option \<Rightarrow> 'e \<Rightarrow> (bool \<times> 'e nx_modbus_rtu_master option \<times> 'e) option" where
  "nx_modbus_rtu_master_init mp cfgp e =
     (case (mp, cfgp) of
        (Some m, Some cfg) \<Rightarrow>
          if \<not> master_cfg_valid cfg then Some (False, mp, e)
          else do {
            subs \<leftarrow> master_subs cfg;
            if list_ex (\<lambda>sub. su_queue sub = 0 \<or> su_slave_addr sub < NX_MODBUS_RTU_ADDR_MIN \<or> su_slave_addr sub > NX_MODBUS_RTU_ADDR_MAX) subs
            then Some (False, mp, e)
            else if mc_rx_size cfg < 5 + 1 then Some (False, mp, e)
            else
              let m1 = \<lparr> mm_cfg = cfg, mm_rx_len = 0, mm_gap_us = master_gap (mc_baud_rate cfg), mm_tx_state = TX_IDLE,
                         mm_last_bus_activity_us = 0, mm_tx_cur = 0 \<rparr>;
                  e1 = master_dir cfg False e;
                  (m2, e2) = master_stamp m1 e1
              in Some (True, Some m2, e2) }
      | _ \<Rightarrow> Some (False, mp, e))"

definition nx_modbus_rtu_master_deinit ::
  "'e nx_modbus_rtu_master option \<Rightarrow> 'e rtu_world \<Rightarrow> ('e nx_modbus_rtu_master option \<times> 'e rtu_world) option" where
  "nx_modbus_rtu_master_deinit mp w =
     (case mp of
        None \<Rightarrow> Some (None, w)
      | Some m \<Rightarrow> do {
          (m1, w1) \<leftarrow> (if mm_tx_cur m \<noteq> 0
                     then do { (_, w1) \<leftarrow> nx_ref_msg_release w (mm_tx_cur m); Some (m\<lparr> mm_tx_cur := 0 \<rparr>, w1) }
                     else Some (m, w));
          let w2 = w1\<lparr> rw_env := master_dir (mm_cfg m1) False (rw_env w1) \<rparr>;
          Some (Some (m1\<lparr> mm_rx_len := 0, mm_tx_state := TX_IDLE \<rparr>), w2) })"

definition nx_modbus_rtu_master_process ::
  "'e nx_modbus_rtu_master option \<Rightarrow> 'e rtu_world \<Rightarrow> ('e nx_modbus_rtu_master option \<times> 'e rtu_world) option" where
  "nx_modbus_rtu_master_process mp w =
     (case mp of
        None \<Rightarrow> Some (None, w)
      | Some m \<Rightarrow> do {
          (m1, w1) \<leftarrow> master_rx m w;
          (m2, w2) \<leftarrow> master_tx m1 w1;
          Some (Some m2, w2) })"

section \<open>Request builders\<close>

definition request_send :: "'e rtu_world \<Rightarrow> nat \<Rightarrow> nat \<Rightarrow> nat \<Rightarrow> (nx_modbus_rtu_master_ret \<times> 'e rtu_world) option" where
  "request_send w msg request_queue len = do {
     d \<leftarrow> msg_load w msg;
     (_, f) \<leftarrow> nx_modbus_rtu_set_crc (Some d) len;
     d' \<leftarrow> f;
     w1 \<leftarrow> msg_put length w msg d';
     (r, w2) \<leftarrow> nx_ref_msg_publish w1 msg request_queue;
     (_, w3) \<leftarrow> nx_ref_msg_release w2 msg;
     Some (if r = NX_REF_MSG_OK then NX_MODBUS_RTU_MASTER_OK else NX_MODBUS_RTU_MASTER_ERR_FULL, w3) }"

text \<open>
  The common end of the builders: allocate \<open>len\<close> bytes, write the fields \<open>hdr\<close> at the start, stamp and send. The two CRC bytes
  behind the fields are not read before the stamp.
\<close>

definition request_build ::
  "'e rtu_world \<Rightarrow> nat \<Rightarrow> nat \<Rightarrow> nat \<Rightarrow> bytes option \<Rightarrow> (nx_modbus_rtu_master_ret \<times> 'e rtu_world) option" where
  "request_build w pool request_queue len hdr = do {
     (msg, w1) \<leftarrow> nx_ref_msg_alloc w pool len;
     if msg = 0 then Some (NX_MODBUS_RTU_MASTER_ERR_NOMEM, w1)
     else do {
       x \<leftarrow> hdr;
       d \<leftarrow> mem_write 0 x (replicate len 0);
       w2 \<leftarrow> msg_put length w1 msg d;
       request_send w2 msg request_queue len } }"

text \<open>A 16-bit field goes on the wire high byte first.\<close>

definition wire_bytes :: "u16 \<Rightarrow> bytes" where
  "wire_bytes v = [ucast (drop_bit 8 v), ucast (v AND 0xFF)]"

definition request_fixed ::
  "'e rtu_world \<Rightarrow> nat \<Rightarrow> nat \<Rightarrow> u8 \<Rightarrow> u8 \<Rightarrow> u16 \<Rightarrow> u16 \<Rightarrow> (nx_modbus_rtu_master_ret \<times> 'e rtu_world) option" where
  "request_fixed w pool request_queue slave_addr cmd field_a field_b =
     (if pool = 0 \<or> request_queue = 0 \<or> slave_addr > NX_MODBUS_RTU_ADDR_MAX then Some (NX_MODBUS_RTU_MASTER_ERR_PARAM, w)
      else request_build w pool request_queue 8 (Some ([slave_addr, cmd] @ wire_bytes field_a @ wire_bytes field_b)))"

definition request_var ::
  "'e rtu_world \<Rightarrow> nat \<Rightarrow> nat \<Rightarrow> u8 \<Rightarrow> u8 \<Rightarrow> u16 \<Rightarrow> u16 \<Rightarrow> bytes option \<Rightarrow> nat \<Rightarrow> nat \<Rightarrow> (nx_modbus_rtu_master_ret \<times> 'e rtu_world) option" where
  "request_var w pool request_queue slave_addr cmd start_addr qty payload payload_len expect_bytes =
     (if pool = 0 \<or> request_queue = 0 \<or> slave_addr > NX_MODBUS_RTU_ADDR_MAX then Some (NX_MODBUS_RTU_MASTER_ERR_PARAM, w)
      else if payload = None \<or> payload_len \<noteq> expect_bytes then Some (NX_MODBUS_RTU_MASTER_ERR_PARAM, w)
      else request_build w pool request_queue (7 + payload_len + 2)
        (do { src \<leftarrow> payload; x \<leftarrow> mem_read 0 payload_len src;
              Some ([slave_addr, cmd] @ wire_bytes start_addr @ wire_bytes qty @ [of_nat payload_len] @ x) }))"

definition read_allowed :: "u8 \<Rightarrow> u16 \<Rightarrow> u16 \<Rightarrow> nx_modbus_rtu_master_ret" where
  "read_allowed slave_addr qty qty_max =
     (if slave_addr < NX_MODBUS_RTU_ADDR_MIN \<or> slave_addr > NX_MODBUS_RTU_ADDR_MAX then NX_MODBUS_RTU_MASTER_ERR_PARAM
      else if qty < 1 \<or> qty > qty_max then NX_MODBUS_RTU_MASTER_ERR_PARAM
      else NX_MODBUS_RTU_MASTER_OK)"

definition nx_modbus_rtu_master_read_coils ::
  "'e rtu_world \<Rightarrow> nat \<Rightarrow> nat \<Rightarrow> u8 \<Rightarrow> u16 \<Rightarrow> u16 \<Rightarrow> (nx_modbus_rtu_master_ret \<times> 'e rtu_world) option" where
  "nx_modbus_rtu_master_read_coils w pool request_queue slave_addr start_addr qty =
     (let ret = read_allowed slave_addr qty 2000
      in if ret \<noteq> NX_MODBUS_RTU_MASTER_OK then Some (ret, w)
         else request_fixed w pool request_queue slave_addr NX_MODBUS_FC_READ_COILS start_addr qty)"

definition nx_modbus_rtu_master_read_discrete_inputs ::
  "'e rtu_world \<Rightarrow> nat \<Rightarrow> nat \<Rightarrow> u8 \<Rightarrow> u16 \<Rightarrow> u16 \<Rightarrow> (nx_modbus_rtu_master_ret \<times> 'e rtu_world) option" where
  "nx_modbus_rtu_master_read_discrete_inputs w pool request_queue slave_addr start_addr qty =
     (let ret = read_allowed slave_addr qty 2000
      in if ret \<noteq> NX_MODBUS_RTU_MASTER_OK then Some (ret, w)
         else request_fixed w pool request_queue slave_addr NX_MODBUS_FC_READ_DISCRETE_INPUTS start_addr qty)"

definition nx_modbus_rtu_master_read_holding_regs ::
  "'e rtu_world \<Rightarrow> nat \<Rightarrow> nat \<Rightarrow> u8 \<Rightarrow> u16 \<Rightarrow> u16 \<Rightarrow> (nx_modbus_rtu_master_ret \<times> 'e rtu_world) option" where
  "nx_modbus_rtu_master_read_holding_regs w pool request_queue slave_addr start_addr qty =
     (let ret = read_allowed slave_addr qty 125
      in if ret \<noteq> NX_MODBUS_RTU_MASTER_OK then Some (ret, w)
         else request_fixed w pool request_queue slave_addr NX_MODBUS_FC_READ_HOLDING_REGS start_addr qty)"

definition nx_modbus_rtu_master_read_input_regs ::
  "'e rtu_world \<Rightarrow> nat \<Rightarrow> nat \<Rightarrow> u8 \<Rightarrow> u16 \<Rightarrow> u16 \<Rightarrow> (nx_modbus_rtu_master_ret \<times> 'e rtu_world) option" where
  "nx_modbus_rtu_master_read_input_regs w pool request_queue slave_addr start_addr qty =
     (let ret = read_allowed slave_addr qty 125
      in if ret \<noteq> NX_MODBUS_RTU_MASTER_OK then Some (ret, w)
         else request_fixed w pool request_queue slave_addr NX_MODBUS_FC_READ_INPUT_REGS start_addr qty)"

definition nx_modbus_rtu_master_write_single_coil ::
  "'e rtu_world \<Rightarrow> nat \<Rightarrow> nat \<Rightarrow> u8 \<Rightarrow> u16 \<Rightarrow> bool \<Rightarrow> (nx_modbus_rtu_master_ret \<times> 'e rtu_world) option" where
  "nx_modbus_rtu_master_write_single_coil w pool request_queue slave_addr coil_addr on =
     request_fixed w pool request_queue slave_addr NX_MODBUS_FC_WRITE_SINGLE_COIL coil_addr (if on then 0xFF00 else 0x0000)"

definition nx_modbus_rtu_master_write_single_reg ::
  "'e rtu_world \<Rightarrow> nat \<Rightarrow> nat \<Rightarrow> u8 \<Rightarrow> u16 \<Rightarrow> u16 \<Rightarrow> (nx_modbus_rtu_master_ret \<times> 'e rtu_world) option" where
  "nx_modbus_rtu_master_write_single_reg w pool request_queue slave_addr reg_addr value =
     request_fixed w pool request_queue slave_addr NX_MODBUS_FC_WRITE_SINGLE_REG reg_addr value"

definition nx_modbus_rtu_master_write_multiple_coils ::
  "'e rtu_world \<Rightarrow> nat \<Rightarrow> nat \<Rightarrow> u8 \<Rightarrow> u16 \<Rightarrow> u16 \<Rightarrow> bytes option \<Rightarrow> nat \<Rightarrow> (nx_modbus_rtu_master_ret \<times> 'e rtu_world) option" where
  "nx_modbus_rtu_master_write_multiple_coils w pool request_queue slave_addr start_addr qty bits bits_len =
     (if qty < 1 \<or> qty > 1968 then Some (NX_MODBUS_RTU_MASTER_ERR_PARAM, w)
      else request_var w pool request_queue slave_addr NX_MODBUS_FC_WRITE_MULTIPLE_COILS start_addr qty bits bits_len
        ((unat qty + 7) div 8))"

definition nx_modbus_rtu_master_write_multiple_regs ::
  "'e rtu_world \<Rightarrow> nat \<Rightarrow> nat \<Rightarrow> u8 \<Rightarrow> u16 \<Rightarrow> u16 \<Rightarrow> bytes option \<Rightarrow> nat \<Rightarrow> (nx_modbus_rtu_master_ret \<times> 'e rtu_world) option" where
  "nx_modbus_rtu_master_write_multiple_regs w pool request_queue slave_addr start_addr qty regs regs_len =
     (if qty < 1 \<or> qty > 123 then Some (NX_MODBUS_RTU_MASTER_ERR_PARAM, w)
      else request_var w pool request_queue slave_addr NX_MODBUS_FC_WRITE_MULTIPLE_REGS start_addr qty regs regs_len
        (unat qty * 2))"

definition nx_modbus_rtu_master_read_write_regs ::
  "'e rtu_world \<Rightarrow> nat \<Rightarrow> nat \<Rightarrow> u8 \<Rightarrow> u16 \<Rightarrow> u16 \<Rightarrow> u16 \<Rightarrow> u16 \<Rightarrow> bytes option \<Rightarrow> nat \<Rightarrow> (nx_modbus_rtu_master_ret \<times> 'e rtu_world) option" where
  "nx_modbus_rtu_master_read_write_regs w pool request_queue slave_addr rd_addr rd_qty wr_addr wr_qty regs regs_len =
     (let ret = read_allowed slave_addr rd_qty 125
      in if ret \<noteq> NX_MODBUS_RTU_MASTER_OK then Some (ret, w)
         else if pool = 0 \<or> request_queue = 0 \<or> regs = None then Some (NX_MODBUS_RTU_MASTER_ERR_PARAM, w)
         else if wr_qty < 1 \<or> wr_qty > 121 \<or> regs_len \<noteq> unat wr_qty * 2 then Some (NX_MODBUS_RTU_MASTER_ERR_PARAM, w)
         else request_build w pool request_queue (11 + regs_len + 2)
           (do { src \<leftarrow> regs; x \<leftarrow> mem_read 0 regs_len src;
                 Some ([slave_addr, NX_MODBUS_FC_READ_WRITE_REGS] @ wire_bytes rd_addr @ wire_bytes rd_qty @
                       wire_bytes wr_addr @ wire_bytes wr_qty @ [of_nat regs_len] @ x) }))"

section \<open>Response inspection\<close>

text \<open>
  The result is the return value and what is behind \<open>exc\<close> afterwards; \<open>None\<close> for \<open>exc\<close> is the null pointer. The second function
  returns a pointer into the frame, which is an offset here, and what is behind \<open>len\<close>.
\<close>

definition nx_modbus_rtu_master_rsp_is_exception :: "bytes option \<Rightarrow> nat \<Rightarrow> u8 option \<Rightarrow> (bool \<times> u8 option) option" where
  "nx_modbus_rtu_master_rsp_is_exception frame flen exc =
     (case frame of
        None \<Rightarrow> Some (False, exc)
      | Some f \<Rightarrow>
          if flen < 5 then Some (False, exc)
          else do {
            cmd \<leftarrow> mem_get 1 f;
            if cmd AND NX_MODBUS_RTU_EXCEPTION_FLAG = 0 then Some (False, exc)
            else if exc \<noteq> None then do { c \<leftarrow> mem_get 2 f; Some (True, Some c) }
            else Some (True, None) })"

definition nx_modbus_rtu_master_rsp_data :: "bytes option \<Rightarrow> nat \<Rightarrow> nat option \<Rightarrow> (nat option \<times> nat option) option" where
  "nx_modbus_rtu_master_rsp_data frame flen len =
     (let len0 = map_option (\<lambda>_. 0) len
      in case frame of
        None \<Rightarrow> Some (None, len0)
      | Some f \<Rightarrow>
          if flen < MODBUS_RTU_RSP_MIN then Some (None, len0)
          else do {
            cmd \<leftarrow> mem_get 1 f;
            if cmd \<noteq> NX_MODBUS_FC_READ_COILS \<and> cmd \<noteq> NX_MODBUS_FC_READ_DISCRETE_INPUTS \<and> cmd \<noteq> NX_MODBUS_FC_READ_HOLDING_REGS \<and>
               cmd \<noteq> NX_MODBUS_FC_READ_INPUT_REGS \<and> cmd \<noteq> NX_MODBUS_FC_READ_WRITE_REGS
            then Some (None, len0)
            else do {
              b \<leftarrow> mem_get 2 f;
              let bc = unat b;
              if bc = 0 \<or> bc + 5 \<noteq> flen then Some (None, len0)
              else Some (Some 3, map_option (\<lambda>_. bc) len) } })"

end
