(* ===== verification/Nx_Modbus_Framing.thy ===== *)
theory Nx_Modbus_Framing
  imports Nx_Modbus_Slave
begin

text \<open>
  What the slicing loop of the Modbus slave cuts out of a byte stream: its verdict on the bytes at the front is one of
  \<open>Nx_Modbus_Cut\<close>, the loop of the code follows it, and so the frames do not depend on how the stream was split over calls.
\<close>

section \<open>The verdict of the slave\<close>

definition rtu_head :: "u8 \<Rightarrow> bool \<Rightarrow> nat \<Rightarrow> bytes \<Rightarrow> frame_verdict" where
  "rtu_head addr bc sz p =
     (if length p < 8 then Wait
      else if p ! 0 \<noteq> addr \<and> \<not> (p ! 0 = 0 \<and> bc) then Skip
      else case frame_len (p ! 1) p (length p) of
          None \<Rightarrow> Wait
        | Some n \<Rightarrow>
            if n = 0 then Skip else if n = SIZE_MAX then Wait else if n > sz then Skip
            else if length p < n then Wait
            else if nx_modbus_rtu_check_crc (Some p) n = Some True then Take n else Skip)"

lemma unat_u8: "unat (x :: u8) \<le> 255"
  using unat_u8_less[of x] by linarith

lemma frame_len_bounds:
  assumes "frame_len cmd p avail = Some n" "n \<noteq> 0" "n \<noteq> SIZE_MAX"
  shows "8 \<le> n" "n \<le> 268"
  using assms unat_u8[of "p ! 6"] unat_u8[of "p ! 10"]
  by (auto simp: frame_len_def mem_get_def bind_eq_Some_conv split: if_splits)

lemma frame_len_defined:
  assumes "8 \<le> length p" "avail \<le> length p"
  shows "\<exists>n. frame_len cmd p avail = Some n"
  using assms by (auto simp: frame_len_def mem_get_def)

lemma rtu_head_Take:
  assumes "rtu_head addr bc sz p = Take n"
  shows "8 \<le> n" "n \<le> length p" "n \<le> sz" "n \<le> 268" "frame_len (p ! 1) p (length p) = Some n"
  using assms frame_len_bounds[of "p ! 1" p "length p" n]
  by (auto simp: rtu_head_def split: if_splits option.splits)

text \<open>A verdict other than to wait stands when more bytes follow.\<close>

lemma frame_len_append:
  assumes "8 \<le> length p" "frame_len cmd p (length p) = Some n" "n \<noteq> SIZE_MAX"
  shows "frame_len cmd (p @ q) (length p + length q) = Some n"
  using assms by (auto simp: frame_len_def mem_get_def nth_append split: if_splits)

lemma mem_read_append: "off + n \<le> length p \<Longrightarrow> mem_read off n (p @ q) = mem_read off n p"
  by (simp add: mem_read_def)

lemma mem_get_append: "i < length p \<Longrightarrow> mem_get i (p @ q) = mem_get i p"
  by (simp add: mem_get_def nth_append)

lemma check_crc_append:
  assumes "n \<le> length p"
  shows "nx_modbus_rtu_check_crc (Some (p @ q)) n = nx_modbus_rtu_check_crc (Some p) n"
  using assms by (simp add: nx_modbus_rtu_check_crc_def nx_modbus_rtu_crc16_def mem_read_append mem_get_append)

lemma rtu_head_append:
  assumes "rtu_head addr bc sz p \<noteq> Wait"
  shows "rtu_head addr bc sz (p @ q) = rtu_head addr bc sz p"
proof -
  have len: "8 \<le> length p" using assms by (simp add: rtu_head_def split: if_splits)
  obtain n where n: "frame_len (p ! 1) p (length p) = Some n" using frame_len_defined[OF len] by blast
  show ?thesis
  proof (cases "p ! 0 \<noteq> addr \<and> \<not> (p ! 0 = 0 \<and> bc)")
    case True
    then show ?thesis using len by (auto simp: rtu_head_def nth_append)
  next
    case False
    have "n \<noteq> SIZE_MAX" using assms len n False by (auto simp: rtu_head_def split: if_splits)
    then have "frame_len (p ! 1) (p @ q) (length p + length q) = Some n" by (rule frame_len_append[OF len n])
    then show ?thesis using assms len n False check_crc_append[of n p q]
      by (auto simp: rtu_head_def nth_append split: if_splits)
  qed
qed

text \<open>What every frame that is cut out is: complete, for this slave, with the right checksum.\<close>

definition rtu_good :: "u8 \<Rightarrow> bool \<Rightarrow> nat \<Rightarrow> bytes \<Rightarrow> bool" where
  "rtu_good addr bc sz f \<longleftrightarrow> length f \<le> sz \<and> 8 \<le> length f \<and> length f \<le> 268 \<and> (f ! 0 = addr \<or> f ! 0 = 0 \<and> bc) \<and>
     frame_len (f ! 1) f (length f) = Some (length f) \<and> nx_modbus_rtu_check_crc (Some f) (length f) = Some True"

lemma frame_len_take:
  assumes "frame_len cmd p avail = Some n" "8 \<le> n" "n \<noteq> SIZE_MAX" "n \<le> length p"
  shows "frame_len cmd (take n p) n = Some n"
  using assms by (auto simp: frame_len_def mem_get_def split: if_splits)

lemma check_crc_take: "n \<le> length p \<Longrightarrow> nx_modbus_rtu_check_crc (Some (take n p)) n = nx_modbus_rtu_check_crc (Some p) n"
  using check_crc_append[of n "take n p" "drop n p"] by simp

lemma rtu_head_good:
  assumes "rtu_head addr bc sz p = Take n"
  shows "rtu_good addr bc sz (take n p)"
proof -
  note h = rtu_head_Take[OF assms]
  have "frame_len (p ! 1) (take n p) n = Some n"
    by (rule frame_len_take[OF h(5,1) _ h(2)]) (use h(4) in simp)
  moreover have "p ! 0 = addr \<or> p ! 0 = 0 \<and> bc" "nx_modbus_rtu_check_crc (Some p) n = Some True"
    using assms h(5) by (auto simp: rtu_head_def split: if_splits)
  ultimately show ?thesis using h check_crc_take[OF h(2)] by (simp add: rtu_good_def)
qed

interpretation slave_frames: framing "rtu_head addr bc sz" "rtu_good addr bc sz" for addr bc sz
proof
  show "rtu_head addr bc sz [] = Wait" by (simp add: rtu_head_def)
  show "0 < n \<and> n \<le> length p" if "rtu_head addr bc sz p = Take n" for p n
    using rtu_head_Take[OF that] by simp
qed (fact rtu_head_append rtu_head_good)+

abbreviation rtu_cut :: "u8 \<Rightarrow> bool \<Rightarrow> nat \<Rightarrow> bytes \<Rightarrow> bytes list \<times> bytes" where
  "rtu_cut addr bc sz \<equiv> frames_of (rtu_head addr bc sz)"

text \<open>What is kept is always shorter than the buffer, unless the buffer is shorter than the longest fixed header.\<close>

lemma rtu_rest_short:
  assumes "rtu_head addr bc sz r = Wait" "8 < sz"
  shows "length r < max sz 11"
proof (cases "length r < 8")
  case False
  then obtain n where n: "frame_len (r ! 1) r (length r) = Some n" using frame_len_defined[of r "length r"] by auto
  show ?thesis
  proof (cases "n = SIZE_MAX")
    case True
    then have "length r < 11" using n unat_u8[of "r ! 6"] unat_u8[of "r ! 10"]
      by (auto simp: frame_len_def mem_get_def split: if_splits)
    then show ?thesis by simp
  next
    case nm: False
    then have "n \<le> sz \<and> length r < n" using assms(1) n False by (auto simp: rtu_head_def split: if_splits)
    then show ?thesis by (simp add: less_max_iff_disj)
  qed
qed (use assms in simp)

section \<open>The loop of the slave\<close>

abbreviation dispatch_all :: "'e nx_modbus_rtu_slave_cfg \<Rightarrow> 'e rtu_world \<Rightarrow> bytes list \<Rightarrow> 'e rtu_world option" where
  "dispatch_all cfg \<equiv> serve_all (\<lambda>w f. dispatch cfg w f (length f))"

text \<open>A dispatch reads the bytes of its frame only.\<close>

lemma mem_get_take: "i < n \<Longrightarrow> mem_get i (take n p) = mem_get i p"
  by (auto simp: mem_get_def)

lemma mem_read_take: "off + k \<le> n \<Longrightarrow> n \<le> length p \<Longrightarrow> mem_read off k (take n p) = mem_read off k p"
  by (simp add: mem_read_def drop_take)

lemma wire_u16_take: "i + 1 < n \<Longrightarrow> wire_u16 (take n p) i = wire_u16 p i"
  by (simp add: wire_u16_def mem_get_take)

lemma send_exception_take: "2 \<le> n \<Longrightarrow> send_exception cfg w (take n p) exc = send_exception cfg w p exc"
  by (simp add: send_exception_def mem_get_take)

lemma request_fields_take:
  assumes "frame_len cmd p avail = Some n" "8 \<le> n" "n \<noteq> SIZE_MAX"
  shows "request_value_exc cmd (take n p) = request_value_exc cmd p" "request_span cmd (take n p) = request_span cmd p"
proof -
  have rw: "12 < n" if "cmd = 0x17" using assms that by (auto simp: frame_len_def bind_eq_Some_conv split: if_splits)
  have b: "mem_get 6 (take n p) = mem_get 6 p" using assms(2) by (simp add: mem_get_take)
  have w: "wire_u16 (take n p) 4 = wire_u16 p 4" "wire_u16 (take n p) 2 = wire_u16 p 2"
    "wire_u16 (take n p) 6 = wire_u16 p 6" using assms(2) by (simp_all add: wire_u16_take)
  have r: "cmd = 0x17 \<Longrightarrow> wire_u16 (take n p) 8 = wire_u16 p 8 \<and> mem_get 10 (take n p) = mem_get 10 p"
    using rw by (simp add: wire_u16_take mem_get_take)
  show "request_value_exc cmd (take n p) = request_value_exc cmd p"
    by (cases "cmd = 0x17") (use r in \<open>simp_all add: request_value_exc_def b w(1) cong: if_cong\<close>)
  show "request_span cmd (take n p) = request_span cmd p"
    by (cases "cmd = 0x17") (use r in \<open>simp_all add: request_span_def w Let_def cong: if_cong\<close>)
qed

lemma dispatch_loop_take:
  assumes "2 \<le> n" "n \<le> length p"
  shows "dispatch_loop cfg (take n p) n cmd lo hi subs = dispatch_loop cfg p n cmd lo hi subs"
proof (induction subs)
  case (Cons sub subs)
  have "mem_read 0 n (take n p) = mem_read 0 n p" by (rule mem_read_take[OF _ assms(2)]) simp
  then show ?case
    by (intro ext) (simp only: dispatch_loop.simps Cons.IH send_exception_take[OF assms(1)])
qed (simp add: fun_eq_iff)

lemma dispatch_take:
  assumes "frame_len (p ! 1) p avail = Some n" "8 \<le> n" "n \<noteq> SIZE_MAX" "n \<le> length p"
  shows "dispatch cfg w (take n p) n = dispatch cfg w p n"
proof -
  have two: "2 \<le> n" using assms(2) by simp
  have c: "mem_get 1 p = Some (p ! 1)" "mem_get 1 (take n p) = Some (p ! 1)" using assms(2,4) by (simp_all add: mem_get_def)
  show ?thesis
    unfolding dispatch_def c bind.bind_lunit request_fields_take[OF assms(1-3)] send_exception_take[OF two]
      dispatch_loop_take[OF two assms(4)] by simp
qed

lemma frame_len_prefix:
  assumes "avail \<le> length p"
  shows "frame_len cmd (take avail p) avail = frame_len cmd p avail"
  by (simp add: frame_len_def mem_get_take)

lemma slave_slice_step:
  assumes "rx_len \<le> length buf" "front \<le> rx_len"
  defines "q \<equiv> drop front (take rx_len buf)"
  shows "slave_slice cfg buf rx_len front w =
     (case rtu_head (sc_slave_addr cfg) (sc_accept_broadcast cfg) (sc_rx_size cfg) q of
        Wait \<Rightarrow> Some (front, w)
      | Skip \<Rightarrow> slave_slice cfg buf rx_len (front + 1) w
      | Take n \<Rightarrow> do { w1 \<leftarrow> dispatch cfg w (take n q) n; slave_slice cfg buf rx_len (front + n) w1 })"
proof (cases "rx_len - front < 8")
  case True
  then show ?thesis using assms by (simp add: slave_slice.simps[of cfg buf rx_len front w] rtu_head_def q_def)
next
  case False
  define p where "p = drop front buf"
  have q: "q = take (rx_len - front) p" "length q = rx_len - front" "rx_len - front \<le> length p"
    using assms by (simp_all add: q_def p_def drop_take)
  have m: "mem_get 0 p = Some (q ! 0)" "mem_get 1 p = Some (q ! 1)" "q ! 1 = p ! 1"
    using False q(3) by (auto simp: mem_get_def q(1))
  obtain n where n: "frame_len (q ! 1) q (length q) = Some n" using frame_len_defined[of q "length q"] False q(2) by auto
  have np: "frame_len (p ! 1) p (rx_len - front) = Some n" using n q(1,2) m(3) frame_len_prefix[OF q(3)] by simp
  have crc: "nx_modbus_rtu_check_crc (Some p) n = nx_modbus_rtu_check_crc (Some q) n" if "n \<le> length q"
    using check_crc_append[OF that, of "drop (rx_len - front) p"] q(1) by simp
  have def: "\<exists>ok. nx_modbus_rtu_check_crc (Some q) n = Some ok" if "n \<le> length q" "8 \<le> n"
    using that by (simp add: nx_modbus_rtu_check_crc_def nx_modbus_rtu_crc16_def mem_read_def mem_get_def) linarith
  have dsp: "dispatch cfg w p n = dispatch cfg w (take n q) n" if "n \<le> length q" "8 \<le> n" "n \<noteq> SIZE_MAX"
    using dispatch_take[OF np that(2,3), of cfg w] that(1) q by (simp add: min_absorb1)
  note unf = slave_slice.simps[of cfg buf rx_len front w, folded p_def] m(1,2)
  show ?thesis
  proof (cases "q ! 0 \<noteq> sc_slave_addr cfg \<and> \<not> (q ! 0 = 0 \<and> sc_accept_broadcast cfg)")
    case True
    then show ?thesis using False q(2) by (simp add: unf rtu_head_def Let_def)
  next
    case addr: False
    have fl: "frame_len (q ! 1) p (rx_len - front) = Some n" using np m(3) by simp
    show ?thesis
    proof (cases "n = 0 \<or> n = SIZE_MAX \<or> n > sc_rx_size cfg \<or> rx_len - front < n")
      case True
      then show ?thesis using False addr fl n q(2) by (auto simp: unf rtu_head_def Let_def simp del: One_nat_def)
    next
      case ok: False
      then have "8 \<le> n" using frame_len_bounds[OF n] by simp
      then show ?thesis using False addr fl n q(2) ok crc def dsp
        by (auto simp: unf rtu_head_def Let_def simp del: One_nat_def)
    qed
  qed
qed

interpretation slave_loop: slicing "rtu_head (sc_slave_addr cfg) (sc_accept_broadcast cfg) (sc_rx_size cfg)"
  "rtu_good (sc_slave_addr cfg) (sc_accept_broadcast cfg) (sc_rx_size cfg)" "slave_slice cfg" "\<lambda>w f. dispatch cfg w f (length f)" for cfg
proof
  fix rx_len front :: nat and buf :: bytes and w
  assume "rx_len \<le> length buf" "front \<le> rx_len"
  note step = slave_slice_step[OF this, of cfg w]
  define q where "q = drop front (take rx_len buf)"
  have "length (take n q) = n" if "rtu_head (sc_slave_addr cfg) (sc_accept_broadcast cfg) (sc_rx_size cfg) q = Take n" for n
    using rtu_head_Take(2)[OF that] by simp
  then show "slave_slice cfg buf rx_len front w =
       (case rtu_head (sc_slave_addr cfg) (sc_accept_broadcast cfg) (sc_rx_size cfg) (drop front (take rx_len buf)) of
          Wait \<Rightarrow> Some (front, w)
        | Skip \<Rightarrow> slave_slice cfg buf rx_len (front + 1) w
        | Take n \<Rightarrow> do { w1 \<leftarrow> dispatch cfg w (take n (drop front (take rx_len buf))) (length (take n (drop front (take rx_len buf))));
            slave_slice cfg buf rx_len (front + n) w1 })"
    unfolding step q_def[symmetric] by (auto split: frame_verdict.split)
qed

text \<open>
  The loop that cuts the receive buffer of the Modbus slave does not see where one read ended and the next began: running it on
  the bytes received so far, moving the bytes it left to the start of the buffer, appending what arrives next and running it again dispatches
  the same frames in the same order, and leaves the same bytes, as running it once on all of them.
\<close>
theorem slave_slice_chunks:
  "slave_slice cfg (p @ q) (length (p @ q)) 0 w =
     do {
       (front, w1) \<leftarrow> slave_slice cfg p (length p) 0 w;
       (front', w2) \<leftarrow> slave_slice cfg (drop front p @ q) (length (drop front p @ q)) 0 w1;
       Some (front + front', w2) }"
  by (rule slave_loop.slice_chunks)

end
