(* ===== verification/Nx_Fan_Out.thy ===== *)
theory Nx_Fan_Out
  imports Nx_Msg_Bus
begin

text \<open>
  One message for several queues, as the dispatchers of both Modbus modules build and publish it: proved once over the interface
  \<open>message_bus\<close>.
\<close>

text \<open>The queues after a message was offered to each of \<open>qs\<close> in turn, and the number of them that took it.\<close>

fun fan_out :: "(nat \<Rightarrow> nat) \<Rightarrow> 'd \<Rightarrow> nat list \<Rightarrow> (nat \<Rightarrow> 'd option list) \<Rightarrow> nat \<times> (nat \<Rightarrow> 'd option list)" where
  "fan_out cap d [] ch = (0, ch)"
| "fan_out cap d (q # qs) ch =
     (if length (ch q) < cap q
      then (let (n, ch') = fan_out cap d qs (ch(q := ch q @ [Some d])) in (n + 1, ch'))
      else fan_out cap d qs ch)"

lemma fan_out_none: "fst (fan_out cap d qs ch) = 0 \<Longrightarrow> snd (fan_out cap d qs ch) = ch"
  by (induction qs arbitrary: ch) (auto split: if_splits prod.splits)

lemma fan_out_written: "None \<notin> set (ch q) \<Longrightarrow> None \<notin> set (snd (fan_out cap d qs ch) q)"
proof (induction qs arbitrary: ch)
  case (Cons p qs)
  define ch' where "ch' = ch(p := ch p @ [Some d])"
  have "None \<notin> set (ch' q)" using Cons.prems by (auto simp: ch'_def)
  from Cons.IH[of ch', OF this] Cons.IH[of ch, OF Cons.prems] show ?case
    by (simp add: Let_def case_prod_beta flip: ch'_def)
qed simp

lemma fan_out_other: "q \<notin> set qs \<Longrightarrow> snd (fan_out cap d qs ch) q = ch q"
  by (induction qs arbitrary: ch) (auto simp: Let_def case_prod_beta)

definition sub_cap :: "('e, 'd) ref_world \<Rightarrow> nat \<Rightarrow> nat" where
  "sub_cap w q = the (chan_cap w q)"

lemma sub_cap_shape: "bus_shape w1 = bus_shape w \<Longrightarrow> sub_cap w1 = sub_cap w"
  by (simp add: sub_cap_def bus_shape_def fun_eq_iff)

text \<open>Offering a message to queues in turn, with the number of those that took it.\<close>

fun offer_all :: "('w \<Rightarrow> nat \<Rightarrow> nat \<Rightarrow> (nx_ref_msg_ret \<times> 'w) option) \<Rightarrow> 'w \<Rightarrow> nat \<Rightarrow> nat list \<Rightarrow> (nat \<times> 'w) option" where
  "offer_all publish w a [] = Some (0, w)"
| "offer_all publish w a (q # qs) = do {
     (r, w1) \<leftarrow> publish w a q;
     (n, w2) \<leftarrow> offer_all publish w1 a qs;
     Some (if r = NX_REF_MSG_OK then n + 1 else n, w2) }"

context message_bus
begin

lemma offer_all_spec:
  assumes "inv w H" "H a = 1" "data w a = Some d" "refs w a + length qs + 1 < 2 ^ 64"
    and "\<forall>q \<in> set qs. q \<noteq> 0 \<and> cap w q \<noteq> None"
  shows "\<exists>w'. offer_all publish w a qs = Some (fst (fan_out (\<lambda>q. the (cap w q)) d qs (chans w)), w') \<and> inv w' H \<and>
    chans w' = snd (fan_out (\<lambda>q. the (cap w q)) d qs (chans w)) \<and> shape w' = shape w \<and> data w' = data w \<and> room w' = room w \<and>
    (\<forall>b. b \<noteq> a \<longrightarrow> refs w' b = refs w b)"
  using assms
proof (induction qs arbitrary: w)
  case (Cons q qs)
  obtain n where q: "q \<noteq> 0" "cap w q = Some n" using Cons.prems(5) by auto
  let ?ok = "length (chans w q) < n"
  have held: "0 < H a" "H a + refs w a + 1 < 2 ^ 64" using Cons.prems(2,4) by auto
  obtain w1 where w1: "publish w a q = Some (if ?ok then NX_REF_MSG_OK else NX_REF_MSG_ERR_FULL, w1)" "inv w1 H"
    "chans w1 = (if ?ok then (chans w)(q := chans w q @ [data w a]) else chans w)" "shape w1 = shape w"
    "data w1 = data w" "room w1 = room w" "refs w1 = (if ?ok then (refs w)(a := refs w a + 1) else refs w)"
    using publish_law[OF Cons.prems(1) held(1) q held(2)] by blast
  have cap: "cap w1 = cap w" by (rule cap_shape[OF w1(4)])
  have bnd: "refs w1 a + length qs + 1 < 2 ^ 64" using w1(7) Cons.prems(4) by auto
  have dat: "data w1 a = Some d" using w1(5) Cons.prems(3) by simp
  have qs: "\<forall>q \<in> set qs. q \<noteq> 0 \<and> cap w1 q \<noteq> None" using Cons.prems(5) cap by simp
  obtain w' where w': "offer_all publish w1 a qs = Some (fst (fan_out (\<lambda>q. the (cap w q)) d qs (chans w1)), w')" "inv w' H"
    "chans w' = snd (fan_out (\<lambda>q. the (cap w q)) d qs (chans w1))" "shape w' = shape w1" "data w' = data w1" "room w' = room w1"
    "\<forall>b. b \<noteq> a \<longrightarrow> refs w' b = refs w1 b"
    using Cons.IH[OF w1(2) Cons.prems(2) dat bnd qs] unfolding cap by blast
  show ?case
    using w1 w' q Cons.prems(3) by (intro exI[of _ w']) (simp add: Let_def case_prod_beta)
qed simp

text \<open>A message is built once and offered to all; nothing is left behind, whether or not there was memory or room.\<close>

lemma fan_message:
  assumes inv: "inv w H" and pool: "pool_ok w pool len" and d: "dsize d \<le> len"
    and qs: "length qs < 2 ^ 60" "\<forall>q \<in> set qs. q \<noteq> 0 \<and> cap w q \<noteq> None"
  obtains (nomem) w1 where "alloc w pool len = Some (0, w1)" "inv w1 H" "chans w1 = chans w" "shape w1 = shape w"
      "\<forall>b. 0 < H b \<longrightarrow> data w1 b = data w b \<and> refs w1 b = refs w b \<and> room w1 b = room w b"
    | (sent) a w1 w2 w3 w4 where "alloc w pool len = Some (a, w1)" "a \<noteq> 0" "store w1 a d = Some w2" "room w2 a = len"
      "offer_all publish w2 a qs = Some (fst (fan_out (\<lambda>q. the (cap w q)) d qs (chans w)), w3)"
      "release w3 a = Some (NX_REF_MSG_OK, w4)" "inv w4 H" "chans w4 = snd (fan_out (\<lambda>q. the (cap w q)) d qs (chans w))"
      "shape w4 = shape w" "\<forall>b. 0 < H b \<longrightarrow> data w4 b = data w b \<and> refs w4 b = refs w b \<and> room w4 b = room w b"
proof -
  obtain a w1 where a: "alloc w pool len = Some (a, w1)" "chans w1 = chans w" "shape w1 = shape w"
    "\<forall>b. 0 < H b \<longrightarrow> data w1 b = data w b \<and> refs w1 b = refs w b \<and> room w1 b = room w b"
    "if a = 0 then inv w1 H else H a = 0 \<and> inv w1 (H(a := 1)) \<and> refs w1 a = 0 \<and> room w1 a = len"
    using alloc_law[OF inv pool] by blast
  show ?thesis
  proof (cases "a = 0")
    case True
    with a nomem show ?thesis by simp
  next
    case False
    then have b: "H a = 0" "inv w1 (H(a := 1))" "refs w1 a = 0" "room w1 a = len" using a(5) by auto
    obtain w2 where w2: "store w1 a d = Some w2" "inv w2 (H(a := 1))" "chans w2 = chans w1" "shape w2 = shape w1"
      "refs w2 = refs w1" "data w2 = (data w1)(a := Some d)" "room w2 = room w1"
      using store_law[OF b(2), of a d] b(3,4) d by auto
    have cap: "cap w2 = cap w" using cap_shape[of w2 w] w2(4) a(3) by simp
    obtain w3 where w3: "offer_all publish w2 a qs = Some (fst (fan_out (\<lambda>q. the (cap w q)) d qs (chans w)), w3)" "inv w3 (H(a := 1))"
      "chans w3 = snd (fan_out (\<lambda>q. the (cap w q)) d qs (chans w))" "shape w3 = shape w2" "data w3 = data w2" "room w3 = room w2"
      "\<forall>b. b \<noteq> a \<longrightarrow> refs w3 b = refs w2 b"
      using offer_all_spec[OF w2(2), of a d qs] b(3) qs w2(3,5,6) cap a(2) by auto
    obtain w4 where w4: "release w3 a = Some (NX_REF_MSG_OK, w4)" "inv w4 ((H(a := 1))(a := (H(a := 1)) a - 1))"
      "chans w4 = chans w3" "shape w4 = shape w3" "data w4 = data w3" "refs w4 = refs w3" "room w4 = room w3"
      using release_law[OF w3(2), of a] by auto
    have "(H(a := 1))(a := (H(a := 1)) a - 1) = H" using b(1) by auto
    moreover have "\<forall>b. 0 < H b \<longrightarrow> data w4 b = data w b \<and> refs w4 b = refs w b \<and> room w4 b = room w b"
    proof (intro allI impI)
      fix c assume "0 < H c"
      then have "c \<noteq> a" using b(1) by auto
      then show "data w4 c = data w c \<and> refs w4 c = refs w c \<and> room w4 c = room w c"
        using a(4) \<open>0 < H c\<close> w4(5-7) w3(5-7) w2(5-7) by simp
    qed
    ultimately show ?thesis
      using sent[OF a(1) False w2(1) _ w3(1) w4(1)] w2(7) b(4) w3(3,4) w4 w2(4) a(3) by simp
  qed
qed

end

end
