(* ===== verification/Nx_Vacancy.thy ===== *)
theory Nx_Vacancy
  imports Nx_Fan_Out
begin

text \<open>
  What decides whether a request for memory is met: the block sizes and the numbers of free blocks of the tiers. A block that is taken and
  given back leaves them as they were, so that memory there was before a message was built is there after it is gone.
\<close>

section \<open>Pools\<close>

definition pool_vacancy :: "'e nx_tiered_mem_pool \<Rightarrow> bool \<times> (nat \<times> nat) list" where
  "pool_vacancy p = (tp_forbid_fallback p, map (\<lambda>t. (tl_block_size t, tl_free_count t)) (tp_tiers p))"

text \<open>Some tier that may serve the request has a free block.\<close>

fun vacant :: "bool \<times> (nat \<times> nat) list \<Rightarrow> nat \<Rightarrow> bool" where
  "vacant (forbid, ts) req \<longleftrightarrow>
     (\<exists>(size, free) \<in> set ts. req \<le> size \<and> 0 < free \<and>
        (forbid \<longrightarrow> (\<forall>(size', free') \<in> set ts. req \<le> size' \<longrightarrow> size \<le> size')))"

lemma pool_alloc_vacant:
  assumes "pool_wf p" "0 < req"
  shows "\<exists>r p'. nx_tiered_mem_pool_alloc (Some p) req e = Some (r, Some p', lock_bracket (tp_lock p) e) \<and>
    (r \<noteq> 0 \<longleftrightarrow> vacant (pool_vacancy p) req) \<and> (r = 0 \<longrightarrow> p' = p)"
proof -
  have v: "(\<exists>t \<in> set (tp_tiers p). tier_admits (tp_forbid_fallback p) (tp_tiers p) req t \<and> 0 < tl_free_count t) \<longleftrightarrow> vacant (pool_vacancy p) req"
    by (auto simp: pool_vacancy_def tier_admits_def)
  show ?thesis using tiered_pool_alloc[OF assms, of e] unfolding v by (auto split: if_splits)
qed

lemma pool_alloc_free:
  assumes wf: "pool_wf p" and a: "nx_tiered_mem_pool_alloc (Some p) req e = Some (r, Some p1, e1)" "0 < req" "r \<noteq> 0"
    and f: "nx_tiered_mem_pool_free (Some p1) r e2 = Some (c, Some p2, e3)"
  shows "pool_vacancy p2 = pool_vacancy p"
proof -
  let ?ts = "tp_tiers p" and ?f = "tp_forbid_fallback p"
  have tw: "tiers_wf ?ts" using wf by (simp add: pool_wf_def)
  obtain ts1 where l: "tiered_alloc_loop ?f req 0 ?ts = Some (r, ts1)" "p1 = p\<lparr> tp_tiers := ts1 \<rparr>"
    using a(1,2) by (auto simp: nx_tiered_mem_pool_alloc_def bind_eq_Some_conv split: prod.splits)
  obtain pre t post t' where s: "?ts = pre @ t # post" "ts1 = pre @ t' # post" "0 < tl_free_count t" "tiered_claim t = Some (r, t')"
    using tiered_alloc_loop_spec[OF tw, where req = req and forbid = ?f and ideal = 0] l(1) a(3) by auto
  have wt: "level_wf t" using tw s(1) by (simp add: tiers_wf_def)
  obtain i where i: "r = level_addr t i" "i < tl_block_count t" "level_wf t'" "level_live t' = insert i (level_live t)" "tl_base t' = tl_base t"
    "tl_end t' = tl_end t" "tl_block_size t' = tl_block_size t" "tl_block_count t' = tl_block_count t" "tl_free_count t' = tl_free_count t - 1"
    using tiered_claim_ok[OF wt s(3)] s(4) by auto
  have tw1: "tiers_wf (pre @ t' # post)" using tiered_claim_in_pool(1)[OF tw[unfolded s(1)] s(3,4)] .
  note range = level_addr_range[OF wt i(2)]
  have r: "tl_base t' \<le> r" "r < tl_end t'" using range i(1,5,6) by auto
  have addr: "level_addr t' = level_addr t" using i by (simp add: level_addr_def fun_eq_iff)
  have "(r - tl_base t') div tl_block_size t' = i" using i(1,5,7) wt by (simp add: level_addr_def level_wf_def)
  then obtain t2 where t2: "tiered_release t' r = Some (NX_TIERED_OK, t2)" "tl_block_size t2 = tl_block_size t'" "tl_free_count t2 = tl_free_count t' + 1"
    using tiered_release_ok[OF i(3) r] i(1,2,4,8) addr by auto
  have "tiered_free_loop r (pre @ t' # post) = Some (NX_TIERED_OK, pre @ t2 # post)"
    using tiered_free_loop_owner[OF tw1 r] t2(1) by simp
  then have "p2 = p\<lparr> tp_tiers := pre @ t2 # post \<rparr>"
    using f a(3) l(2) s(2) by (auto simp: nx_tiered_mem_pool_free_def split: prod.splits)
  then show ?thesis using s(1,3) t2(2,3) i(7,9) by (simp add: pool_vacancy_def)
qed

section \<open>Messages\<close>

definition no_memory :: "('e, 'd) ref_world \<Rightarrow> nat \<Rightarrow> nat \<Rightarrow> bool" where
  "no_memory w pool len \<longleftrightarrow> (case nx_ref_msg_alloc w pool len of Some (a, _) \<Rightarrow> a = 0 | None \<Rightarrow> True)"

definition same_memory :: "('e, 'd) ref_world \<Rightarrow> ('e, 'd) ref_world \<Rightarrow> bool" where
  "same_memory w w' \<longleftrightarrow> (\<forall>i. map_option pool_vacancy (rw_pools w' i) = map_option pool_vacancy (rw_pools w i))"

lemma same_memory_refl [simp]: "same_memory w w" "same_memory w (w\<lparr> rw_env := e \<rparr>)"
  by (simp_all add: same_memory_def)

lemma no_memory_vacant:
  assumes "ref_inv w H" "pool_serves w pool len"
  obtains p where "rw_pools w pool = Some p" "no_memory w pool len \<longleftrightarrow> \<not> vacant (pool_vacancy p) (REF_MSG_SIZEOF + len)"
proof -
  obtain p where p: "rw_pools w pool = Some p" "0 < len" "REF_MSG_SIZEOF + len < 2 ^ 64" "pool \<noteq> 0" using assms(2) by (auto simp: pool_serves_def)
  have wf: "pool_wf p" using assms(1) p(1) by (auto simp: ref_inv_def ref_pools_ok_def)
  have "0 < REF_MSG_SIZEOF + len" using p(2) by simp
  from pool_alloc_vacant[OF wf this] obtain r p' where "nx_tiered_mem_pool_alloc (Some p) (REF_MSG_SIZEOF + len) (rw_env w) =
      Some (r, Some p', lock_bracket (tp_lock p) (rw_env w))" "r \<noteq> 0 \<longleftrightarrow> vacant (pool_vacancy p) (REF_MSG_SIZEOF + len)" by blast
  then have "no_memory w pool len \<longleftrightarrow> \<not> vacant (pool_vacancy p) (REF_MSG_SIZEOF + len)"
    using p by (auto simp: no_memory_def nx_ref_msg_alloc_def)
  then show ?thesis using that p(1) by blast
qed

lemma no_memory_same:
  assumes "ref_inv w H" "ref_inv w' H'" "pool_serves w pool len" "pool_serves w' pool len" "same_memory w w'"
  shows "no_memory w' pool len = no_memory w pool len"
proof -
  obtain p where p: "rw_pools w pool = Some p" "no_memory w pool len \<longleftrightarrow> \<not> vacant (pool_vacancy p) (REF_MSG_SIZEOF + len)"
    by (rule no_memory_vacant[OF assms(1,3)])
  obtain p' where p': "rw_pools w' pool = Some p'" "no_memory w' pool len \<longleftrightarrow> \<not> vacant (pool_vacancy p') (REF_MSG_SIZEOF + len)"
    by (rule no_memory_vacant[OF assms(2,4)])
  have "map_option pool_vacancy (rw_pools w' pool) = map_option pool_vacancy (rw_pools w pool)" using assms(5) by (simp add: same_memory_def)
  then have "pool_vacancy p' = pool_vacancy p" by (simp add: p(1) p'(1))
  then show ?thesis using p(2) p'(2) by simp
qed

text \<open>A request that is not met changes nothing.\<close>

lemma alloc_none_memory:
  assumes "ref_inv w H" "pool_serves w pool len" "nx_ref_msg_alloc w pool len = Some (0, w1)"
  shows "same_memory w w1"
proof -
  obtain p where p: "rw_pools w pool = Some p" "0 < len" "REF_MSG_SIZEOF + len < 2 ^ 64" "pool \<noteq> 0" using assms(2) by (auto simp: pool_serves_def)
  have wf: "pool_wf p" using assms(1) p(1) by (auto simp: ref_inv_def ref_pools_ok_def)
  have "0 < REF_MSG_SIZEOF + len" using p(2) by simp
  from pool_alloc_vacant[OF wf this, of "rw_env w"] obtain r p' e where r: "nx_tiered_mem_pool_alloc (Some p) (REF_MSG_SIZEOF + len) (rw_env w) =
      Some (r, Some p', e)" "r = 0 \<longrightarrow> p' = p" by blast
  then have "rw_pools w1 = (rw_pools w)(pool := Some p)" using assms(3) p by (auto simp: nx_ref_msg_alloc_def Let_def split: if_splits)
  then show ?thesis using p(1) by (auto simp: same_memory_def)
qed

text \<open>A message no queue took is gone without a trace when its builder lets go of it.\<close>

lemma refused_keeps:
  assumes "nx_ref_msg_publish w a q = Some (r, w1)" "r \<noteq> NX_REF_MSG_OK" "rw_msgs w a = Some m" "rm_refcount m = 1"
  shows "rw_pools w1 = rw_pools w \<and> rw_msgs w1 = rw_msgs w \<and> rw_env w1 = rw_env w"
proof -
  have "(rw_msgs w)(a \<mapsto> m\<lparr> rm_refcount := 1 \<rparr>) = rw_msgs w" using assms(3,4) by (cases m) (auto simp: fun_eq_iff)
  then show ?thesis using assms by (auto simp: nx_ref_msg_publish_def Let_def bind_eq_Some_conv split: if_splits)
qed

lemma offered_to_none:
  assumes "offer_all nx_ref_msg_publish w a qs = Some (0, w1)" "rw_msgs w a = Some m" "rm_refcount m = 1"
  shows "rw_pools w1 = rw_pools w \<and> rw_msgs w1 = rw_msgs w"
  using assms
proof (induction qs arbitrary: w)
  case (Cons q qs)
  obtain r v n where v: "nx_ref_msg_publish w a q = Some (r, v)" "offer_all nx_ref_msg_publish v a qs = Some (n, w1)" "r \<noteq> NX_REF_MSG_OK" "n = 0"
    using Cons.prems(1) by (auto simp: bind_eq_Some_conv split: if_splits)
  have "rw_pools v = rw_pools w" "rw_msgs v = rw_msgs w" using refused_keeps[OF v(1,3) Cons.prems(2,3)] by simp_all
  then show ?case using Cons.IH[of v] v(2,4) Cons.prems(2,3) by simp
qed simp

lemma built_and_dropped:
  assumes inv: "ref_inv w H" "pool_serves w pool len" and a: "nx_ref_msg_alloc w pool len = Some (a, w1)" "a \<noteq> 0"
    and p: "msg_put dsize w1 a d = Some w2" and o: "offer_all nx_ref_msg_publish w2 a qs = Some (0, w3)"
    and r: "nx_ref_msg_release w3 a = Some (c, w4)"
  shows "same_memory w w4"
proof -
  obtain p where p0: "rw_pools w pool = Some p" "0 < len" "REF_MSG_SIZEOF + len < 2 ^ 64" "pool \<noteq> 0" using inv(2) by (auto simp: pool_serves_def)
  have wf: "pool_wf p" using inv(1) p0(1) by (auto simp: ref_inv_def ref_pools_ok_def)
  have req: "(REF_MSG_SIZEOF + len) mod 2 ^ 64 = REF_MSG_SIZEOF + len" "0 < REF_MSG_SIZEOF + len" using p0 by simp_all
  obtain p1 e where al: "nx_tiered_mem_pool_alloc (Some p) (REF_MSG_SIZEOF + len) (rw_env w) = Some (a, Some p1, e)"
    and w1: "rw_pools w1 = (rw_pools w)(pool := Some p1)" "rw_msgs w1 = (rw_msgs w)(a \<mapsto> \<lparr> rm_pool = pool, rm_len = len, rm_refcount = 1, rm_data = None \<rparr>)"
  proof -
    obtain r p' where "nx_tiered_mem_pool_alloc (Some p) (REF_MSG_SIZEOF + len) (rw_env w) = Some (r, Some p', lock_bracket (tp_lock p) (rw_env w))"
      using pool_alloc_vacant[OF wf req(2), of "rw_env w"] by blast
    then show ?thesis using that a p0 by (auto simp: nx_ref_msg_alloc_def Let_def split: if_splits)
  qed
  obtain m where m: "rw_msgs w2 a = Some m" "rm_refcount m = 1" "rm_pool m = pool" and w2: "rw_pools w2 = rw_pools w1"
    using p w1(2) by (auto simp: msg_put_def split: if_splits)
  have w3: "rw_pools w3 = rw_pools w1" "rw_msgs w3 a = Some m" using offered_to_none[OF o m(1,2)] m(1) w2 by simp_all
  then have "rw_pools w3 pool = Some p1" using w1(1) by simp
  then obtain c2 p2 e2 where f: "nx_tiered_mem_pool_free (Some p1) a (rw_env w3) = Some (c2, p2, e2)" "rw_pools w4 = (rw_pools w3)(pool := p2)"
    using r a(2) w3(2) m(2,3) by (auto simp: nx_ref_msg_release_def Let_def bind_eq_Some_conv)
  then obtain p3 where p3: "p2 = Some p3" using f(1) by (auto simp: nx_tiered_mem_pool_free_def bind_eq_Some_conv split: if_splits prod.splits)
  have "pool_vacancy p3 = pool_vacancy p" using pool_alloc_free[OF wf al req(2) a(2)] f(1) p3 by blast
  then show ?thesis using f(2) w3(1) w1(1) p3 p0(1) by (auto simp: same_memory_def)
qed

end
