(* ===== verification/Nx_Modbus_Dispatch.thy ===== *)
theory Nx_Modbus_Dispatch
  imports Nx_Modbus_Framing Nx_Vacancy
begin

text \<open>
  The replies and the dispatch of the Modbus slave on the level of queues: which frame a reply builder queues, which subscribers a
  request reaches, which exception answers it, and what a request that reaches a subscriber is known to satisfy.
\<close>

section \<open>Stamped frames\<close>

definition rtu_frame :: "bytes \<Rightarrow> bytes" where
  "rtu_frame x = x @ [ucast (modbus_crc x AND 0xFF), ucast (drop_bit 8 (modbus_crc x) AND 0xFF)]"

lemma length_rtu_frame [simp]: "length (rtu_frame x) = length x + 2"
  by (simp add: rtu_frame_def)

lemma set_crc_rtu_frame:
  assumes "3 \<le> length x"
  shows "nx_modbus_rtu_set_crc (Some (x @ [y, z])) (length x + 2) = Some (True, Some (rtu_frame x))"
  using assms
  by (simp add: nx_modbus_rtu_set_crc_def nx_modbus_rtu_crc16_def mem_read_def mem_write_def rtu_frame_def modbus_crc_def)

lemma check_crc_rtu_frame:
  assumes "3 \<le> length x"
  shows "nx_modbus_rtu_check_crc (Some (rtu_frame x)) (length x + 2) = Some True"
  using assms crc_bytes_join[of "modbus_crc x"]
  by (simp add: nx_modbus_rtu_check_crc_def nx_modbus_rtu_crc16_def mem_read_def mem_get_def rtu_frame_def modbus_crc_def nth_append)

text \<open>Every block whose bytes were written has as many of them as the message says.\<close>

definition adu_ok :: "'e rtu_world \<Rightarrow> bool" where
  "adu_ok w \<longleftrightarrow> (\<forall>a d. payload w a = Some d \<longrightarrow> msg_room w a = length d)"

lemma adu_ok_same: "adu_ok w \<Longrightarrow> payload w1 = payload w \<Longrightarrow> msg_room w1 = msg_room w \<Longrightarrow> adu_ok w1"
  by (simp add: adu_ok_def)

lemma adu_ok_alloc: "adu_ok w \<Longrightarrow> nx_ref_msg_alloc w pool len = Some (a, w1) \<Longrightarrow> adu_ok w1"
  using alloc_effect_data[of w pool len a w1] by (auto simp: adu_ok_def split: if_splits)

lemma adu_ok_put: "adu_ok w \<Longrightarrow> msg_put length w a d = Some w1 \<Longrightarrow> msg_room w1 a = length d \<Longrightarrow> adu_ok w1"
  using msg_put_effect[of length w a d w1] by (auto simp: adu_ok_def)

lemma adu_ok_publish: "adu_ok w \<Longrightarrow> nx_ref_msg_publish w a q = Some (r, w1) \<Longrightarrow> adu_ok w1"
  by (rule adu_ok_same[OF _ publish_keeps_data])

lemma adu_ok_offer: "adu_ok w \<Longrightarrow> offer_all nx_ref_msg_publish w a qs = Some (n, w1) \<Longrightarrow> adu_ok w1"
  by (induction qs arbitrary: w n) (auto simp: bind_eq_Some_conv split: prod.splits dest: adu_ok_publish)

lemma adu_ok_release: "adu_ok w \<Longrightarrow> nx_ref_msg_release w a = Some (r, w1) \<Longrightarrow> adu_ok w1"
  by (rule adu_ok_same[OF _ release_keeps_data])

section \<open>Replies\<close>

text \<open>What a reply does: the frame is the last one of the queue, or the reason why it is not.\<close>

definition rtu_replied :: "nat \<Rightarrow> nat \<Rightarrow> bytes \<Rightarrow> nx_modbus_rtu_slave_ret \<Rightarrow> 'e rtu_world \<Rightarrow> 'e rtu_world \<Rightarrow> bool" where
  "rtu_replied pool q x r w w' \<longleftrightarrow>
     (case r of
        NX_MODBUS_RTU_SLAVE_OK \<Rightarrow> chan w' = (chan w)(q := chan w q @ [Some (rtu_frame x)]) \<and> length (chan w q) < the (chan_cap w q) \<and>
          \<not> no_memory w pool (length x + 2)
      | NX_MODBUS_RTU_SLAVE_ERR_NOMEM \<Rightarrow> chan w' = chan w \<and> no_memory w pool (length x + 2)
      | NX_MODBUS_RTU_SLAVE_ERR_FULL \<Rightarrow> chan w' = chan w \<and> the (chan_cap w q) \<le> length (chan w q) \<and> \<not> no_memory w pool (length x + 2)
      | _ \<Rightarrow> False)"

lemma reply_build_spec:
  assumes inv: "ref_inv w H" and adu: "adu_ok w" and pool: "pool_serves w pool (length x + 2)" and q: "q \<noteq> 0" "chan_cap w q = Some n"
    and x: "3 \<le> length x"
  shows "\<exists>r w'. reply_build w pool q (length x + 2) (Some x) = Some (r, w') \<and> ref_inv w' H \<and> bus_keeps H w w' \<and> adu_ok w' \<and>
    rtu_replied pool q x r w w'"
proof -
  let ?f = "rtu_frame x" and ?d = "x @ [0, 0]"
  have wr: "mem_write 0 x (replicate (length x + 2) 0) = Some ?d"
  proof -
    have "replicate 2 (0 :: u8) = [0, 0]" by (simp add: numeral_2_eq_2)
    then have "replicate (length x + 2) (0 :: u8) = replicate (length x) 0 @ [0, 0]" by (simp only: replicate_add)
    then show ?thesis by (simp only: mem_write_def) simp
  qed
  have "length ?f \<le> length x + 2" by simp
  from inv pool q this show ?thesis
  proof (cases rule: msgs.send_message)
    case (nomem w1)
    then show ?thesis using adu_ok_alloc[OF adu nomem(1)]
      by (intro exI[of _ NX_MODBUS_RTU_SLAVE_ERR_NOMEM] exI[of _ w1])
        (simp add: reply_build_def bus_keeps_def rtu_replied_def no_memory_def)
  next
    case (built a w1 w2 w3 w4)
    obtain v where v: "msg_put length w1 a ?d = Some v" using msg_put_size[OF built(3), of ?d] by auto
    have v2: "msg_put length v a ?f = Some w2" using msg_put_put[OF v, of ?f] built(3) by simp
    let ?ok = "length (chan w q) < n"
    let ?r = "if ?ok then NX_MODBUS_RTU_SLAVE_OK else NX_MODBUS_RTU_SLAVE_ERR_FULL"
    have "reply_send v a q (length x + 2) = Some (?r, w4)"
      unfolding reply_send_def
      by (simp only: msg_load_put[OF v] set_crc_rtu_frame[OF x] bind.bind_lunit prod.case v2 built(6,7)) simp
    then have run: "reply_build w pool q (length x + 2) (Some x) = Some (?r, w4)"
      using built(1,2) v by (simp add: reply_build_def wr[simplified])
    have "adu_ok w2" using adu_ok_put[OF adu_ok_alloc[OF adu built(1)] built(3)] built(5) by simp
    then have "adu_ok w4" using adu_ok_release[OF adu_ok_publish[OF _ built(6)] built(7)] by simp
    moreover have "\<not> no_memory w pool (length x + 2)" using built(1,2) by (simp add: no_memory_def)
    ultimately show ?thesis using run built(8-11) q(2)
      by (intro exI[of _ ?r] exI[of _ w4]) (simp add: bus_keeps_def rtu_replied_def)
  qed
qed

section \<open>What a request asks for\<close>

text \<open>
  The verdict on a frame: refused with an exception code, or owned by the subscribers with these queues.
\<close>

datatype rtu_verdict = Refuse u8 | Deliver "nat list"

definition rtu_judge :: "nx_modbus_rtu_slave_sub list \<Rightarrow> bytes \<Rightarrow> rtu_verdict" where
  "rtu_judge subs f =
     (let cmd = f ! 1; (lo, hi) = the (request_span cmd f); exc = the (request_value_exc cmd f);
          owners = filter (sub_owns cmd lo hi) subs
      in if \<forall>sub \<in> set subs. sub_func sub \<noteq> cmd then Refuse NX_MODBUS_EXC_ILLEGAL_FUNCTION
         else if exc \<noteq> 0 then Refuse exc
         else if owners = [] then Refuse NX_MODBUS_EXC_ILLEGAL_DATA_ADDR
         else Deliver (map sub_queue owners))"

lemma wire_u16_Some: "i + 1 < length f \<Longrightarrow> \<exists>v. wire_u16 f i = Some v"
  by (simp add: wire_u16_def mem_get_def)

lemma request_defined:
  assumes "frame_len cmd f (length f) = Some (length f)" "8 \<le> length f" "length f \<noteq> SIZE_MAX"
  shows "\<exists>exc. request_value_exc cmd f = Some exc" "\<exists>lo hi. request_span cmd f = Some (lo, hi)"
proof -
  have rw: "12 < length f" if "cmd = 0x17" using assms that by (auto simp: frame_len_def bind_eq_Some_conv split: if_splits)
  have w: "\<exists>v. wire_u16 f 4 = Some v" "\<exists>v. wire_u16 f 2 = Some v" "\<exists>v. wire_u16 f 6 = Some v" "\<exists>v. mem_get 6 f = Some v"
    using assms(2) by (auto intro: wire_u16_Some simp: mem_get_def)
  have r: "cmd = 0x17 \<Longrightarrow> (\<exists>v. wire_u16 f 8 = Some v) \<and> (\<exists>v. mem_get 10 f = Some v)"
    using rw by (auto intro: wire_u16_Some simp: mem_get_def)
  show "\<exists>exc. request_value_exc cmd f = Some exc"
    using w(1,4) r by (auto simp: request_value_exc_def Let_def cong: if_cong)
  show "\<exists>lo hi. request_span cmd f = Some (lo, hi)"
    using w r by (auto simp: request_span_def Let_def)
qed

section \<open>Fanning out\<close>

text \<open>Once there is a message, the subscription loop offers it to the owners that are left.\<close>

lemma dispatch_loop_offers:
  assumes "a \<noteq> 0"
  shows "dispatch_loop cfg frame flen cmd lo hi subs a m k w =
     map_option (\<lambda>(n, w'). Inr (a, m + length (filter (sub_owns cmd lo hi) subs), k + n, w'))
       (offer_all nx_ref_msg_publish w a (map sub_queue (filter (sub_owns cmd lo hi) subs)))"
proof (induction subs arbitrary: w m k)
  case (Cons sub subs)
  show ?case
  proof (cases "sub_owns cmd lo hi sub")
    case True
    show ?thesis
    proof (cases "nx_ref_msg_publish w a (sub_queue sub)")
      case (Some x)
      then show ?thesis using True assms Cons.IH
        by (cases x, cases "offer_all nx_ref_msg_publish (snd x) a (map sub_queue (filter (sub_owns cmd lo hi) subs))") auto
    qed (use True assms in simp)
  qed (use Cons.IH in simp)
qed simp

section \<open>Dispatch\<close>

text \<open>The surroundings of a slave: its pool, its response queue and the queues of its subscribers exist.\<close>

definition slave_bus_ok :: "'e nx_modbus_rtu_slave_cfg \<Rightarrow> 'e rtu_world \<Rightarrow> bool" where
  "slave_bus_ok cfg w \<longleftrightarrow> sc_pool cfg \<noteq> 0 \<and> sc_pool cfg \<in> dom (rw_pools w) \<and>
     sc_response_queue cfg \<noteq> 0 \<and> chan_cap w (sc_response_queue cfg) \<noteq> None \<and>
     (\<exists>subs. slave_subs cfg = Some subs \<and> length subs < 2 ^ 60 \<and>
        (\<forall>sub \<in> set subs. sub_queue sub \<noteq> 0 \<and> chan_cap w (sub_queue sub) \<noteq> None))"

lemma slave_bus_shape: "slave_bus_ok cfg w \<Longrightarrow> bus_shape w1 = bus_shape w \<Longrightarrow> slave_bus_ok cfg w1"
  by (simp add: slave_bus_ok_def bus_shape_def)

lemma slave_pool_serves:
  "slave_bus_ok cfg w \<Longrightarrow> 0 < len \<Longrightarrow> len \<le> 2 ^ 32 \<Longrightarrow> pool_serves w (sc_pool cfg) len"
  by (simp add: slave_bus_ok_def pool_serves_def REF_MSG_SIZEOF_def)

definition rtu_exception :: "bytes \<Rightarrow> u8 \<Rightarrow> bytes" where
  "rtu_exception f exc = [f ! 0, f ! 1 OR NX_MODBUS_RTU_EXCEPTION_FLAG, exc]"

text \<open>
  The answer to a request that is refused in the world \<open>w\<close>: the exception is the last message of the response queue, unless the request was a
  broadcast, the pool has no block for the five bytes or the queue is full, when there is none.
\<close>

definition rtu_answered :: "'e nx_modbus_rtu_slave_cfg \<Rightarrow> bytes \<Rightarrow> u8 \<Rightarrow> 'e rtu_world \<Rightarrow> 'e rtu_world \<Rightarrow> bool" where
  "rtu_answered cfg f exc w w' \<longleftrightarrow>
     (let q = sc_response_queue cfg
      in if f ! 0 = NX_MODBUS_RTU_ADDR_BROADCAST \<or> no_memory w (sc_pool cfg) 5 \<or> the (chan_cap w q) \<le> length (chan w q)
         then chan w' = chan w
         else chan w' = (chan w)(q := chan w q @ [Some (rtu_frame (rtu_exception f exc))]))"

lemma rtu_answered_from:
  "rtu_answered cfg f exc w0 w' \<Longrightarrow> chan w0 = chan w \<Longrightarrow> bus_shape w0 = bus_shape w \<Longrightarrow>
   no_memory w0 (sc_pool cfg) 5 = no_memory w (sc_pool cfg) 5 \<Longrightarrow> rtu_answered cfg f exc w w'"
  by (simp add: rtu_answered_def bus_shape_def Let_def)

lemma rtu_replied_answered:
  assumes "f ! 0 \<noteq> 0" "rtu_replied (sc_pool cfg) (sc_response_queue cfg) (rtu_exception f exc) r w w'"
  shows "rtu_answered cfg f exc w w'"
proof -
  have five: "length (rtu_exception f exc) + 2 = 5" by (simp add: rtu_exception_def)
  show ?thesis using assms unfolding rtu_replied_def five by (cases r) (auto simp: rtu_answered_def Let_def)
qed

text \<open>What every step leaves in order.\<close>

definition rtu_keeps :: "(nat \<Rightarrow> nat) \<Rightarrow> 'e rtu_world \<Rightarrow> 'e rtu_world \<Rightarrow> bool" where
  "rtu_keeps H w w' \<longleftrightarrow> ref_inv w' H \<and> bus_keeps H w w' \<and> adu_ok w'"

lemma rtu_keeps_trans: "rtu_keeps H w w1 \<Longrightarrow> rtu_keeps H w1 w2 \<Longrightarrow> rtu_keeps H w w2"
  by (auto simp: rtu_keeps_def intro: bus_keeps_trans)

lemma reply_exception_spec:
  assumes "slave_bus_ok cfg w" "ref_inv w H" "adu_ok w"
  shows "\<exists>r w'. nx_modbus_rtu_slave_reply_exception w (sc_pool cfg) (sc_response_queue cfg) a c exc = Some (r, w') \<and>
    rtu_keeps H w w' \<and> (if a = 0 then r = NX_MODBUS_RTU_SLAVE_ERR_BROADCAST \<and> w' = w
      else rtu_replied (sc_pool cfg) (sc_response_queue cfg) [a, c OR NX_MODBUS_RTU_EXCEPTION_FLAG, exc] r w w')"
proof (cases "a = 0")
  case True
  have "sc_pool cfg \<noteq> 0" "sc_response_queue cfg \<noteq> 0" using assms(1) by (auto simp: slave_bus_ok_def)
  then show ?thesis using True assms
    by (simp add: nx_modbus_rtu_slave_reply_exception_def reply_allowed_def rtu_keeps_def)
next
  case False
  let ?x = "[a, c OR NX_MODBUS_RTU_EXCEPTION_FLAG, exc]"
  obtain n where q: "sc_response_queue cfg \<noteq> 0" "chan_cap w (sc_response_queue cfg) = Some n" "sc_pool cfg \<noteq> 0"
    using assms(1) by (auto simp: slave_bus_ok_def)
  have serves: "pool_serves w (sc_pool cfg) (length ?x + 2)" by (rule slave_pool_serves[OF assms(1)]) simp_all
  have len: "3 \<le> length ?x" "length ?x + 2 = 5" by simp_all
  show ?thesis
    using reply_build_spec[OF assms(2,3) serves q(1,2) len(1)] False q(1,3) unfolding len(2)
    by (simp add: nx_modbus_rtu_slave_reply_exception_def reply_allowed_def rtu_keeps_def)
qed

lemma reply_read_spec:
  assumes "slave_bus_ok cfg w" "ref_inv w H" "adu_ok w" "len \<le> length data"
  shows "\<exists>r w'. nx_modbus_rtu_slave_reply_read w (sc_pool cfg) (sc_response_queue cfg) a c (Some data) len = Some (r, w') \<and>
    rtu_keeps H w w' \<and>
    (if a = 0 then r = NX_MODBUS_RTU_SLAVE_ERR_BROADCAST \<and> w' = w
     else if len = 0 \<or> 251 < len then r = NX_MODBUS_RTU_SLAVE_ERR_PARAM \<and> w' = w
     else rtu_replied (sc_pool cfg) (sc_response_queue cfg) ([a, c, of_nat len] @ take len data) r w w')"
proof -
  obtain n where q: "sc_response_queue cfg \<noteq> 0" "chan_cap w (sc_response_queue cfg) = Some n" "sc_pool cfg \<noteq> 0"
    using assms(1) by (auto simp: slave_bus_ok_def)
  show ?thesis
  proof (cases "a = 0 \<or> len = 0 \<or> 251 < len")
    case True
    then show ?thesis using q assms(2,3) by (auto simp: nx_modbus_rtu_slave_reply_read_def reply_allowed_def rtu_keeps_def)
  next
    case False
    let ?x = "[a, c, of_nat len] @ take len data"
    have len: "length ?x + 2 = 3 + len + 2" "3 \<le> length ?x" using assms(4) by simp_all
    have serves: "pool_serves w (sc_pool cfg) (length ?x + 2)"
      by (rule slave_pool_serves[OF assms(1)]) (use len(1) False in simp_all)
    have rd: "mem_read 0 len data = Some (take len data)" using assms(4) by (simp add: mem_read_def)
    show ?thesis using reply_build_spec[OF assms(2,3) serves q(1,2) len(2)] False q(1,3) unfolding len(1)
      by (simp add: nx_modbus_rtu_slave_reply_read_def reply_allowed_def rtu_keeps_def rd)
  qed
qed

lemma reply_write_spec:
  assumes "slave_bus_ok cfg w" "ref_inv w H" "adu_ok w"
  shows "\<exists>r w'. nx_modbus_rtu_slave_reply_write w (sc_pool cfg) (sc_response_queue cfg) a c addr v = Some (r, w') \<and>
    rtu_keeps H w w' \<and>
    (if a = 0 then r = NX_MODBUS_RTU_SLAVE_ERR_BROADCAST \<and> w' = w
     else rtu_replied (sc_pool cfg) (sc_response_queue cfg)
       [a, c, ucast (drop_bit 8 addr), ucast (addr AND 0xFF), ucast (drop_bit 8 v), ucast (v AND 0xFF)] r w w')"
proof (cases "a = 0")
  case True
  have "sc_pool cfg \<noteq> 0" "sc_response_queue cfg \<noteq> 0" using assms(1) by (auto simp: slave_bus_ok_def)
  then show ?thesis using True assms by (simp add: nx_modbus_rtu_slave_reply_write_def reply_allowed_def rtu_keeps_def)
next
  case False
  let ?x = "[a, c, ucast (drop_bit 8 addr), ucast (addr AND 0xFF), ucast (drop_bit 8 v), ucast (v AND 0xFF)]"
  obtain n where q: "sc_response_queue cfg \<noteq> 0" "chan_cap w (sc_response_queue cfg) = Some n" "sc_pool cfg \<noteq> 0"
    using assms(1) by (auto simp: slave_bus_ok_def)
  have serves: "pool_serves w (sc_pool cfg) (length ?x + 2)" by (rule slave_pool_serves[OF assms(1)]) simp_all
  have len: "3 \<le> length ?x" "length ?x + 2 = 8" by simp_all
  show ?thesis
    using reply_build_spec[OF assms(2,3) serves q(1,2) len(1)] False q(1,3) unfolding len(2)
    by (simp add: nx_modbus_rtu_slave_reply_write_def reply_allowed_def rtu_keeps_def)
qed

lemma send_exception_spec:
  assumes "slave_bus_ok cfg w" "ref_inv w H" "adu_ok w" "2 \<le> length f"
  shows "\<exists>w'. send_exception cfg w f exc = Some w' \<and> rtu_keeps H w w' \<and> rtu_answered cfg f exc w w'"
proof -
  obtain r w' where r: "nx_modbus_rtu_slave_reply_exception w (sc_pool cfg) (sc_response_queue cfg) (f ! 0) (f ! 1) exc = Some (r, w')"
    "rtu_keeps H w w'" "if f ! 0 = 0 then r = NX_MODBUS_RTU_SLAVE_ERR_BROADCAST \<and> w' = w
      else rtu_replied (sc_pool cfg) (sc_response_queue cfg) [f ! 0, f ! 1 OR NX_MODBUS_RTU_EXCEPTION_FLAG, exc] r w w'"
    using reply_exception_spec[OF assms(1-3), of "f ! 0" "f ! 1" exc] by blast
  have g: "mem_get 0 f = Some (f ! 0)" "mem_get 1 f = Some (f ! 1)" using assms(4) by (auto simp: mem_get_def)
  have "send_exception cfg w f exc = Some w'" unfolding send_exception_def g using r(1) by simp
  moreover have "rtu_answered cfg f exc w w'"
  proof (cases "f ! 0 = 0")
    case True
    then show ?thesis using r(3) by (simp add: rtu_answered_def Let_def)
  next
    case False
    then show ?thesis using r(3) by (intro rtu_replied_answered) (simp_all add: rtu_exception_def)
  qed
  ultimately show ?thesis using r(2) by blast
qed

text \<open>The subscription loop from the start: nobody owns the request, there is no memory, or all owners are offered it.\<close>

lemma dispatch_loop_starts:
  assumes bus: "slave_bus_ok cfg w" and inv: "ref_inv w H" and adu: "adu_ok w"
    and f: "8 \<le> length f" "length f \<le> 268" and subs: "length subs < 2 ^ 60"
      "\<forall>sub \<in> set subs. sub_queue sub \<noteq> 0 \<and> chan_cap w (sub_queue sub) \<noteq> None"
  obtains (none) "filter (sub_owns cmd lo hi) subs = []" "dispatch_loop cfg f (length f) cmd lo hi subs 0 0 0 w = Some (Inr (0, 0, 0, w))"
  | (nomem) w' where "filter (sub_owns cmd lo hi) subs \<noteq> []" "no_memory w (sc_pool cfg) (length f)"
      "dispatch_loop cfg f (length f) cmd lo hi subs 0 0 0 w = Some (Inl w')"
      "rtu_keeps H w w'" "rtu_answered cfg f NX_MODBUS_EXC_SLAVE_DEVICE_FAILURE w w'"
  | (sent) a w3 w' n ch where "filter (sub_owns cmd lo hi) subs \<noteq> []" "\<not> no_memory w (sc_pool cfg) (length f)"
      "(n, ch) = fan_out (sub_cap w) f (map sub_queue (filter (sub_owns cmd lo hi) subs)) (chan w)"
      "dispatch_loop cfg f (length f) cmd lo hi subs 0 0 0 w = Some (Inr (a, length (filter (sub_owns cmd lo hi) subs), n, w3))"
      "a \<noteq> 0" "nx_ref_msg_release w3 a = Some (NX_REF_MSG_OK, w')" "rtu_keeps H w w'" "chan w' = ch"
      "n = 0 \<longrightarrow> same_memory w w'"
proof (cases "filter (sub_owns cmd lo hi) subs = []")
  case True
  then have "dispatch_loop cfg f (length f) cmd lo hi subs 0 0 0 w = Some (Inr (0, 0, 0, w))"
    by (induction subs) (auto split: if_splits)
  with True show ?thesis by (rule none)
next
  case False
  then obtain pre sub post where split: "subs = pre @ sub # post" "\<forall>x \<in> set pre. \<not> sub_owns cmd lo hi x" "sub_owns cmd lo hi sub"
    by (metis (no_types, lifting) filter_False split_list_first_prop)
  let ?os = "filter (sub_owns cmd lo hi) subs"
  have os: "?os = sub # filter (sub_owns cmd lo hi) post" using split by simp
  have skip: "dispatch_loop cfg f (length f) cmd lo hi subs 0 0 0 w = dispatch_loop cfg f (length f) cmd lo hi (sub # post) 0 0 0 w"
    using split(2) unfolding split(1) by (induction pre) auto
  have serves: "pool_serves w (sc_pool cfg) (length f)" by (rule slave_pool_serves[OF bus]) (use f in auto)
  let ?qs = "map sub_queue ?os"
  have start: "dispatch_loop cfg f (length f) cmd lo hi subs 0 0 0 w = do {
      (a, w1) \<leftarrow> nx_ref_msg_alloc w (sc_pool cfg) (length f);
      if a = 0 then map_option Inl (send_exception cfg w1 f NX_MODBUS_EXC_SLAVE_DEVICE_FAILURE)
      else do { w2 \<leftarrow> msg_put length w1 a f; dispatch_loop cfg f (length f) cmd lo hi subs a 0 0 w2 } }"
  proof -
    have "dispatch_loop cfg f (length f) cmd lo hi subs a 0 0 v = dispatch_loop cfg f (length f) cmd lo hi (sub # post) a 0 0 v" for a v
      using split(2) unfolding split(1) by (induction pre) auto
    then show ?thesis unfolding skip using split(3)
      by (auto simp: mem_read_def map_option_case split: option.split intro!: arg_cong2[where f = Option.bind] ext)
  qed
  have qs: "length ?qs < 2 ^ 60" "\<forall>q \<in> set ?qs. q \<noteq> 0 \<and> chan_cap w q \<noteq> None"
    using subs le_less_trans[OF length_filter_le] by auto
  show ?thesis
  proof (rule msgs.fan_message[where dsize = length and d = f, OF inv serves order_refl qs])
    fix w1
    assume r: "nx_ref_msg_alloc w (sc_pool cfg) (length f) = Some (0, w1)" "ref_inv w1 H" "chan w1 = chan w" "bus_shape w1 = bus_shape w"
      "\<forall>b. 0 < H b \<longrightarrow> payload w1 b = payload w b \<and> queued w1 b = queued w b \<and> msg_room w1 b = msg_room w b"
    have "slave_bus_ok cfg w1" by (rule slave_bus_shape[OF bus r(4)])
    then obtain w' where w': "send_exception cfg w1 f NX_MODBUS_EXC_SLAVE_DEVICE_FAILURE = Some w'" "rtu_keeps H w1 w'"
      "rtu_answered cfg f NX_MODBUS_EXC_SLAVE_DEVICE_FAILURE w1 w'"
      using send_exception_spec[of cfg w1 H f] r(2) adu_ok_alloc[OF adu r(1)] f(1) by auto
    have five: "pool_serves w (sc_pool cfg) 5" "pool_serves w1 (sc_pool cfg) 5"
      by (rule slave_pool_serves[OF bus], simp_all, rule slave_pool_serves[OF \<open>slave_bus_ok cfg w1\<close>], simp_all)
    have mem: "no_memory w1 (sc_pool cfg) 5 = no_memory w (sc_pool cfg) 5"
      by (rule no_memory_same[OF inv r(2) five alloc_none_memory[OF inv serves r(1)]])
    have "bus_keeps H w w1" using r(4,5) by (simp add: bus_keeps_def)
    then have "rtu_keeps H w w'" using w'(2) by (auto simp: rtu_keeps_def intro: bus_keeps_trans)
    moreover have "rtu_answered cfg f NX_MODBUS_EXC_SLAVE_DEVICE_FAILURE w w'" by (rule rtu_answered_from[OF w'(3) r(3,4) mem])
    moreover have "dispatch_loop cfg f (length f) cmd lo hi subs 0 0 0 w = Some (Inl w')"
      unfolding start r(1) using w'(1) by simp
    ultimately show ?thesis using nomem[OF False] r(1) by (simp add: no_memory_def)
  next
    fix a w1 w2 w3 w4
    assume r: "nx_ref_msg_alloc w (sc_pool cfg) (length f) = Some (a, w1)" "a \<noteq> 0" "msg_put length w1 a f = Some w2" "msg_room w2 a = length f"
      "offer_all nx_ref_msg_publish w2 a ?qs = Some (fst (fan_out (\<lambda>q. the (chan_cap w q)) f ?qs (chan w)), w3)"
      "nx_ref_msg_release w3 a = Some (NX_REF_MSG_OK, w4)" "ref_inv w4 H" "chan w4 = snd (fan_out (\<lambda>q. the (chan_cap w q)) f ?qs (chan w))"
      "bus_shape w4 = bus_shape w" "\<forall>b. 0 < H b \<longrightarrow> payload w4 b = payload w b \<and> queued w4 b = queued w b \<and> msg_room w4 b = msg_room w b"
    have "dispatch_loop cfg f (length f) cmd lo hi subs 0 0 0 w =
        Some (Inr (a, length ?os, fst (fan_out (sub_cap w) f ?qs (chan w)), w3))"
      unfolding start r(1) using r(2,3,5) by (simp add: dispatch_loop_offers[OF r(2)] sub_cap_def[abs_def])
    moreover have "adu_ok w2" by (rule adu_ok_put[OF adu_ok_alloc[OF adu r(1)] r(3,4)])
    then have "adu_ok w4" using adu_ok_release[OF adu_ok_offer[OF _ r(5)] r(6)] by simp
    then have "rtu_keeps H w w4" using r(7,9,10) by (simp add: rtu_keeps_def bus_keeps_def)
    moreover have "fst (fan_out (sub_cap w) f ?qs (chan w)) = 0 \<longrightarrow> same_memory w w4"
    proof
      assume "fst (fan_out (sub_cap w) f ?qs (chan w)) = 0"
      then have "offer_all nx_ref_msg_publish w2 a ?qs = Some (0, w3)" using r(5) by (simp add: sub_cap_def[abs_def])
      then show "same_memory w w4" by (rule built_and_dropped[OF inv serves r(1-3) _ r(6)])
    qed
    ultimately show ?thesis using sent[OF False _ prod.collapse _ r(2,6)] r(1,2,8) by (simp add: no_memory_def sub_cap_def[abs_def])
  qed
qed

text \<open>What the dispatch of a frame does to the queues.\<close>

definition rtu_handled :: "'e nx_modbus_rtu_slave_cfg \<Rightarrow> bytes \<Rightarrow> 'e rtu_world \<Rightarrow> 'e rtu_world \<Rightarrow> bool" where
  "rtu_handled cfg f w w' \<longleftrightarrow>
     (case rtu_judge (the (slave_subs cfg)) f of
        Refuse exc \<Rightarrow> rtu_answered cfg f exc w w'
      | Deliver qs \<Rightarrow>
          if no_memory w (sc_pool cfg) (length f) then rtu_answered cfg f NX_MODBUS_EXC_SLAVE_DEVICE_FAILURE w w'
          else (case fan_out (sub_cap w) f qs (chan w) of
                  (0, _) \<Rightarrow> rtu_answered cfg f NX_MODBUS_EXC_SLAVE_DEVICE_BUSY w w'
                | (Suc _, ch) \<Rightarrow> chan w' = ch))"

lemma dispatch_spec:
  assumes bus: "slave_bus_ok cfg w" and inv: "ref_inv w H" and adu: "adu_ok w" and f: "rtu_good addr bc sz f"
  shows "\<exists>w'. dispatch cfg w f (length f) = Some w' \<and> rtu_keeps H w w' \<and> rtu_handled cfg f w w'"
proof -
  have len: "8 \<le> length f" "length f \<le> 268" "2 \<le> length f" "length f \<noteq> SIZE_MAX" using f by (auto simp: rtu_good_def)
  define cmd where "cmd = f ! 1"
  have fl: "frame_len cmd f (length f) = Some (length f)" using f by (simp add: rtu_good_def cmd_def)
  obtain exc where exc: "request_value_exc cmd f = Some exc" using request_defined(1)[OF fl len(1,4)] by blast
  obtain lo hi where span: "request_span cmd f = Some (lo, hi)" using request_defined(2)[OF fl len(1,4)] by blast
  obtain subs where subs: "slave_subs cfg = Some subs" "length subs < 2 ^ 60"
    "\<forall>sub \<in> set subs. sub_queue sub \<noteq> 0 \<and> chan_cap w (sub_queue sub) \<noteq> None"
    using bus by (auto simp: slave_bus_ok_def)
  have g: "mem_get 1 f = Some cmd" using len(1) by (auto simp: mem_get_def cmd_def)
  let ?owners = "filter (sub_owns cmd lo hi) subs"
  have answer: "\<exists>w'. send_exception cfg v f c = Some w' \<and> rtu_keeps H w w' \<and> rtu_answered cfg f c w w'"
    if "rtu_keeps H w v" "chan v = chan w" "same_memory w v" for v c
  proof -
    have v: "bus_shape v = bus_shape w" "ref_inv v H" "adu_ok v" using that(1) by (simp_all add: rtu_keeps_def bus_keeps_def)
    obtain w' where "send_exception cfg v f c = Some w'" "rtu_keeps H v w'" "rtu_answered cfg f c v w'"
      using send_exception_spec[OF slave_bus_shape[OF bus v(1)] v(2,3) len(3)] by blast
    moreover have "pool_serves w (sc_pool cfg) 5" "pool_serves v (sc_pool cfg) 5"
      by (rule slave_pool_serves[OF bus], simp_all, rule slave_pool_serves[OF slave_bus_shape[OF bus v(1)]], simp_all)
    note no_memory_same[OF inv v(2) this that(3)]
    ultimately show ?thesis using rtu_keeps_trans[OF that(1)] rtu_answered_from[OF _ that(2) v(1)] by blast
  qed
  have here: "rtu_keeps H w w" using inv adu by (simp add: rtu_keeps_def)
  have judge: "rtu_judge (the (slave_subs cfg)) f =
      (if \<forall>sub \<in> set subs. sub_func sub \<noteq> cmd then Refuse NX_MODBUS_EXC_ILLEGAL_FUNCTION else if exc \<noteq> 0 then Refuse exc
       else if ?owners = [] then Refuse NX_MODBUS_EXC_ILLEGAL_DATA_ADDR else Deliver (map sub_queue ?owners))"
    unfolding rtu_judge_def cmd_def[symmetric] subs(1) by (simp add: exc span Let_def)
  have run: "dispatch cfg w f (length f) =
      (if \<forall>sub \<in> set subs. sub_func sub \<noteq> cmd then send_exception cfg w f NX_MODBUS_EXC_ILLEGAL_FUNCTION
       else if exc \<noteq> 0 then send_exception cfg w f exc
       else do {
         r \<leftarrow> dispatch_loop cfg f (length f) cmd lo hi subs 0 0 0 w;
         case r of Inl w1 \<Rightarrow> Some w1
         | Inr (msg, matched, delivered, w1) \<Rightarrow> do {
             w2 \<leftarrow> (if msg \<noteq> 0 then map_option snd (nx_ref_msg_release w1 msg) else Some w1);
             if matched = 0 then send_exception cfg w2 f NX_MODBUS_EXC_ILLEGAL_DATA_ADDR
             else if delivered = 0 then send_exception cfg w2 f NX_MODBUS_EXC_SLAVE_DEVICE_BUSY
             else Some w2 } })"
    unfolding dispatch_def g subs(1) bind.bind_lunit exc span by (auto simp: list_ex_iff)
  show ?thesis
  proof (cases "(\<forall>sub \<in> set subs. sub_func sub \<noteq> cmd) \<or> exc \<noteq> 0")
    case True
    then show ?thesis using answer[OF here refl same_memory_refl(1)] by (auto simp: run judge rtu_handled_def)
  next
    case False
    from bus inv adu len(1,2) subs(2,3) show ?thesis
    proof (cases rule: dispatch_loop_starts[where cmd = cmd and lo = lo and hi = hi])
      case none
      then show ?thesis using answer[OF here refl same_memory_refl(1)] False by (auto simp: run judge rtu_handled_def)
    next
      case (nomem w')
      then show ?thesis using False by (auto simp: run judge rtu_handled_def)
    next
      case (sent a w3 w2 n ch)
      note k = sent(7)
      have fan: "fan_out (sub_cap w) f (map sub_queue ?owners) (chan w) = (n, ch)" using sent(3) by simp
      have rest: "dispatch cfg w f (length f) = (if n = 0 then send_exception cfg w2 f NX_MODBUS_EXC_SLAVE_DEVICE_BUSY else Some w2)"
        using False sent(1,4-6) by (auto simp: run)
      show ?thesis
      proof (cases n)
        case 0
        have "chan w2 = chan w" using fan_out_none[of "sub_cap w" f "map sub_queue ?owners" "chan w"] fan 0 sent(8) by simp
        from answer[OF k this, of NX_MODBUS_EXC_SLAVE_DEVICE_BUSY] sent(9) 0 show ?thesis
          using rest 0 False sent(1,2) fan by (auto simp: judge rtu_handled_def)
      next
        case (Suc m)
        then show ?thesis using rest k False sent(1,2,8) fan by (auto simp: judge rtu_handled_def)
      qed
    qed
  qed
qed

section \<open>What a subscriber may rely on\<close>

lemma unat_wire_u16: "unat (push_bit 8 (ucast h) OR ucast l :: u16) = 256 * unat (h :: u8) + unat (l :: u8)"
proof -
  define v :: u16 where "v = of_nat (256 * unat h + unat l)"
  have bound: "unat h \<le> 255" "unat l \<le> 255" by (simp_all only: unat_u8)
  have v: "unat v = 256 * unat h + unat l"
    unfolding v_def unsigned_of_nat of_nat_id by (rule take_bit_nat_eq_self) (use bound in simp)
  have "ucast (drop_bit 8 v) = h"
    using bound by (simp add: word_unat_eq_iff unsigned_ucast_eq drop_bit_eq_div unat_div v take_bit_nat_eq_self)
  moreover have "ucast v = l"
    using bound by (simp add: word_unat_eq_iff unsigned_ucast_eq v take_bit_eq_mod)
  ultimately show ?thesis using join16[of v] v by simp
qed

lemma unat_ucast_u16: "unat (ucast (a :: u16) :: u32) = unat a"
proof -
  have "unat a < 2 ^ 32" using unsigned_less[of a, where ?'a = nat] by simp
  then show ?thesis by (simp add: unsigned_ucast_eq take_bit_nat_eq_self)
qed

lemma ucast_u16_of_nat: "(ucast (a :: u16) :: u32) = of_nat (unat a)"
  by (simp flip: unat_ucast_u16)

text \<open>A 16-bit field of a frame as a number.\<close>

definition rtu_field :: "bytes \<Rightarrow> nat \<Rightarrow> nat" where
  "rtu_field f i = 256 * unat (f ! i) + unat (f ! (i + 1))"

lemma rtu_field_le: "rtu_field f i \<le> 65535"
  using unat_u8[of "f ! i"] unat_u8[of "f ! (i + 1)"] by (simp add: rtu_field_def)

lemma wire_u16_field: "wire_u16 f i = Some v \<Longrightarrow> unat v = rtu_field f i"
  by (auto simp: wire_u16_def mem_get_def rtu_field_def unat_wire_u16 bind_eq_Some_conv split: if_splits)

text \<open>Where the address and the count of the range stand that a request touches.\<close>

definition rtu_start :: "bytes \<Rightarrow> nat" where
  "rtu_start f = rtu_field f (if f ! 1 = NX_MODBUS_FC_READ_WRITE_REGS then 6 else 2)"

definition rtu_count :: "bytes \<Rightarrow> nat" where
  "rtu_count f = (if f ! 1 \<in> {NX_MODBUS_FC_WRITE_SINGLE_COIL, NX_MODBUS_FC_WRITE_SINGLE_REG} then 1
     else rtu_field f (if f ! 1 = NX_MODBUS_FC_READ_WRITE_REGS then 8 else 4))"

lemma rtu_start_le: "rtu_start f \<le> 65535"
  by (simp only: rtu_start_def rtu_field_le)

lemma rtu_count_le: "rtu_count f \<le> 65535"
  using rtu_field_le by (simp add: rtu_count_def)

lemma request_span_nat:
  assumes "request_span (f ! 1) f = Some (lo, hi)" "0 < rtu_count f"
  shows "unat lo = rtu_start f" "unat hi = rtu_start f + rtu_count f - 1"
proof -
  let ?base = "if f ! 1 = NX_MODBUS_FC_READ_WRITE_REGS then 6 else 2 :: nat"
  let ?single = "f ! 1 = NX_MODBUS_FC_WRITE_SINGLE_COIL \<or> f ! 1 = NX_MODBUS_FC_WRITE_SINGLE_REG"
  obtain a where a: "wire_u16 f ?base = Some a" using assms(1) by (auto simp: request_span_def Let_def bind_eq_Some_conv)
  have ua: "unat a = rtu_start f" using wire_u16_field[OF a] by (simp add: rtu_start_def)
  have ux: "unat (ucast a :: u32) = unat a" by (rule unat_ucast_u16)
  show "unat lo = rtu_start f" using assms(1) a ua by (auto simp: request_span_def Let_def bind_eq_Some_conv split: if_splits)
  show "unat hi = rtu_start f + rtu_count f - 1"
  proof (cases ?single)
    case True
    then have "hi = ucast a" using assms(1) a by (auto simp: request_span_def Let_def bind_eq_Some_conv)
    then show ?thesis using ux ua True by (auto simp: rtu_count_def)
  next
    case False
    obtain q where q: "wire_u16 f (?base + 2) = Some q" "hi = (if q = 0 then ucast a else ucast a + ucast q - 1)"
      using assms(1) a False by (auto simp: request_span_def Let_def bind_eq_Some_conv split: if_splits)
    have uq: "unat q = rtu_count f" using wire_u16_field[OF q(1)] False by (auto simp: rtu_count_def split: if_splits)
    have "q \<noteq> 0" using uq assms(2) by auto
    then have hi: "hi = ucast a + ucast q - 1" using q(2) by simp
    have "hi = of_nat (rtu_start f + rtu_count f - 1)"
    proof -
      have "(ucast a :: u32) = of_nat (rtu_start f)" "(ucast q :: u32) = of_nat (rtu_count f)"
        using ua uq ucast_u16_of_nat[of a] ucast_u16_of_nat[of q] by simp_all
      then show ?thesis using hi assms(2) by (simp add: of_nat_diff)
    qed
    moreover have "rtu_start f + rtu_count f - 1 < 2 ^ 32"
    proof -
      have "rtu_start f + rtu_count f \<le> 131070" using rtu_start_le[of f] rtu_count_le[of f] by linarith
      then show ?thesis by simp
    qed
    ultimately show ?thesis by (simp add: unsigned_of_nat take_bit_nat_eq_self)
  qed
qed

text \<open>The ranges the protocol fixes, and the byte count that has to fit the quantity.\<close>

definition rtu_wellformed :: "bytes \<Rightarrow> bool" where
  "rtu_wellformed f \<longleftrightarrow>
     (let cmd = f ! 1; qty = rtu_field f 4
      in (cmd \<in> {NX_MODBUS_FC_READ_COILS, NX_MODBUS_FC_READ_DISCRETE_INPUTS} \<longrightarrow> 1 \<le> qty \<and> qty \<le> 2000) \<and>
         (cmd \<in> {NX_MODBUS_FC_READ_HOLDING_REGS, NX_MODBUS_FC_READ_INPUT_REGS} \<longrightarrow> 1 \<le> qty \<and> qty \<le> 125) \<and>
         (cmd = NX_MODBUS_FC_WRITE_SINGLE_COIL \<longrightarrow> qty = 0 \<or> qty = 0xFF00) \<and>
         (cmd = NX_MODBUS_FC_WRITE_MULTIPLE_COILS \<longrightarrow> 1 \<le> qty \<and> qty \<le> 1968 \<and> length f = 9 + (qty + 7) div 8) \<and>
         (cmd = NX_MODBUS_FC_WRITE_MULTIPLE_REGS \<longrightarrow> 1 \<le> qty \<and> qty \<le> 123 \<and> length f = 9 + 2 * qty) \<and>
         (cmd = NX_MODBUS_FC_READ_WRITE_REGS \<longrightarrow> 1 \<le> qty \<and> qty \<le> 125 \<and>
            1 \<le> rtu_field f 8 \<and> rtu_field f 8 \<le> 121 \<and> length f = 13 + 2 * rtu_field f 8))"

lemma byte_count_fits:
  assumes "b = (of_nat n :: u8)" "n \<le> 255"
  shows "unat b = n"
  using assms by (simp add: unsigned_of_nat take_bit_nat_eq_self)

lemma request_value_wellformed:
  assumes exc: "request_value_exc (f ! 1) f = Some 0" and fl: "frame_len (f ! 1) f (length f) = Some (length f)" "8 \<le> length f"
  shows "rtu_wellformed f" "0 < rtu_count f"
proof -
  obtain q where q: "wire_u16 f 4 = Some q" using exc by (auto simp: request_value_exc_def bind_eq_Some_conv)
  have uq: "unat q = rtu_field f 4" by (rule wire_u16_field[OF q])
  have bc: "mem_get 6 f = Some (f ! 6)" using fl(2) by (simp add: mem_get_def)
  consider "f ! 1 \<in> {1, 2, 3, 4, 5}" | "f ! 1 = 0x0F" | "f ! 1 = 0x10" | "f ! 1 = 0x17" | "f ! 1 \<notin> {1, 2, 3, 4, 5, 0x0F, 0x10, 0x17}"
    by blast
  then have "rtu_wellformed f \<and> 0 < rtu_count f"
  proof cases
    case 1
    then show ?thesis using exc uq q by (auto simp: request_value_exc_def rtu_wellformed_def rtu_count_def Let_def word_unat_eq_iff split: if_splits)
  next
    case 2
    then have r: "1 \<le> unat q" "unat q \<le> 1968" "f ! 6 = of_nat ((unat q + 7) div 8)"
      using exc q bc by (auto simp: request_value_exc_def Let_def split: if_splits)
    have "unat (f ! 6) = (unat q + 7) div 8" by (rule byte_count_fits[OF r(3)]) (use r(2) in simp)
    moreover have "length f = unat (f ! 6) + 9" using fl 2 bc by (auto simp: frame_len_def)
    ultimately show ?thesis using 2 r(1,2) uq by (simp add: rtu_wellformed_def rtu_count_def Let_def)
  next
    case 3
    then have r: "1 \<le> unat q" "unat q \<le> 123" "f ! 6 = of_nat (unat q * 2)"
      using exc q bc by (auto simp: request_value_exc_def Let_def split: if_splits)
    have "unat (f ! 6) = unat q * 2" by (rule byte_count_fits[OF r(3)]) (use r(2) in simp)
    moreover have "length f = unat (f ! 6) + 9" using fl 3 bc by (auto simp: frame_len_def)
    ultimately show ?thesis using 3 r(1,2) uq by (simp add: rtu_wellformed_def rtu_count_def Let_def)
  next
    case 4
    obtain v b where v: "wire_u16 f 8 = Some v" "mem_get 10 f = Some b" "1 \<le> unat q" "unat q \<le> 125" "1 \<le> unat v" "unat v \<le> 121"
      "b = of_nat (unat v * 2)"
      using exc q 4 by (auto simp: request_value_exc_def Let_def bind_eq_Some_conv split: if_splits)
    have "unat b = unat v * 2" by (rule byte_count_fits[OF v(7)]) (use v(6) in simp)
    moreover have "length f = unat b + 13" using fl 4 v(2) by (auto simp: frame_len_def split: if_splits)
    moreover have "unat v = rtu_field f 8" by (rule wire_u16_field[OF v(1)])
    ultimately show ?thesis using 4 v(3-6) uq by (simp add: rtu_wellformed_def rtu_count_def Let_def)
  next
    case 5
    have "f ! 1 = 6" using fl 5 by (auto simp: frame_len_def split: if_splits)
    then show ?thesis by (simp add: rtu_wellformed_def rtu_count_def Let_def)
  qed
  then show "rtu_wellformed f" "0 < rtu_count f" by simp_all
qed

lemma rtu_delivered_spec:
  assumes "rtu_good addr bc sz f" "rtu_judge subs f = Deliver qs"
  shows "rtu_wellformed f" "qs \<noteq> []"
    "\<forall>q \<in> set qs. \<exists>sub \<in> set subs. sub_queue sub = q \<and> sub_func sub = f ! 1 \<and>
       unat (sub_addr_min sub) \<le> rtu_start f \<and> rtu_start f + rtu_count f \<le> unat (sub_addr_max sub) + 1"
proof -
  have len: "8 \<le> length f" "length f \<le> 268" "length f \<noteq> SIZE_MAX" using assms(1) by (auto simp: rtu_good_def)
  have fl: "frame_len (f ! 1) f (length f) = Some (length f)" using assms(1) by (simp add: rtu_good_def)
  obtain exc where exc: "request_value_exc (f ! 1) f = Some exc" using request_defined(1)[OF fl len(1,3)] by blast
  obtain lo hi where span: "request_span (f ! 1) f = Some (lo, hi)" using request_defined(2)[OF fl len(1,3)] by blast
  have j: "exc = 0" "qs = map sub_queue (filter (sub_owns (f ! 1) lo hi) subs)" "qs \<noteq> []"
    using assms(2) exc span by (auto simp: rtu_judge_def Let_def split: if_splits)
  have exc0: "request_value_exc (f ! 1) f = Some 0" using exc j(1) by simp
  note wf = request_value_wellformed[OF exc0 fl len(1)]
  note sp = request_span_nat[OF span wf(2)]
  show "rtu_wellformed f" "qs \<noteq> []" by (fact wf(1), fact j(3))
  show "\<forall>q \<in> set qs. \<exists>sub \<in> set subs. sub_queue sub = q \<and> sub_func sub = f ! 1 \<and>
       unat (sub_addr_min sub) \<le> rtu_start f \<and> rtu_start f + rtu_count f \<le> unat (sub_addr_max sub) + 1"
  proof
    fix q assume "q \<in> set qs"
    then obtain sub where sub: "sub \<in> set subs" "sub_owns (f ! 1) lo hi sub" "sub_queue sub = q" using j(2) by auto
    have "unat (sub_addr_min sub) \<le> unat lo" using sub(2) by (simp add: sub_owns_def not_less word_le_nat_alt)
    moreover have "unat hi \<le> unat (sub_addr_max sub)"
      using sub(2) by (simp add: sub_owns_def not_less word_le_nat_alt unat_ucast_u16)
    ultimately show "\<exists>sub \<in> set subs. sub_queue sub = q \<and> sub_func sub = f ! 1 \<and>
       unat (sub_addr_min sub) \<le> rtu_start f \<and> rtu_start f + rtu_count f \<le> unat (sub_addr_max sub) + 1"
      using sub sp wf(2) by (intro bexI[of _ sub]) (auto simp: sub_owns_def)
  qed
qed

end
