(* ===== verification/Nx_Modbus_Answers.thy ===== *)
theory Nx_Modbus_Answers
  imports Nx_Modbus_Master Nx_Modbus_Dispatch
begin

text \<open>
  What the Modbus master makes of the bytes it receives: which frames its loop cuts out of the stream, and where a frame goes.
\<close>

section \<open>The verdict of the master\<close>

definition master_head :: "nat \<Rightarrow> bytes \<Rightarrow> frame_verdict" where
  "master_head sz p =
     (if length p < 5 then Wait
      else case response_len (p ! 1) p (length p) of
          None \<Rightarrow> Wait
        | Some n \<Rightarrow>
            if n = 0 then Skip else if n = SIZE_MAX then Wait else if n > sz then Skip
            else if length p < n then Wait
            else if nx_modbus_rtu_check_crc (Some p) n = Some True then Take n else Skip)"

lemma response_len_bounds:
  assumes "response_len cmd p avail = Some n" "n \<noteq> 0" "n \<noteq> SIZE_MAX"
  shows "5 \<le> n" "n \<le> 260"
  using assms unat_u8[of "p ! 2"] by (auto simp: response_len_def mem_get_def bind_eq_Some_conv split: if_splits)

lemma response_len_defined:
  assumes "5 \<le> length p"
  shows "\<exists>n. response_len cmd p avail = Some n"
  using assms by (auto simp: response_len_def mem_get_def)

text \<open>From five bytes on the length of a response is known.\<close>

lemma response_len_known:
  assumes "5 \<le> avail" "response_len cmd p avail = Some n"
  shows "n \<noteq> SIZE_MAX"
  using assms unat_u8[of "p ! 2"] by (auto simp: response_len_def mem_get_def bind_eq_Some_conv split: if_splits)

lemma response_len_append:
  assumes "5 \<le> length p" "5 \<le> avail"
  shows "response_len cmd (p @ q) (avail + k) = response_len cmd p avail"
  using assms by (auto simp: response_len_def mem_get_def nth_append)

lemma master_head_Take:
  assumes "master_head sz p = Take n"
  shows "5 \<le> n" "n \<le> length p" "n \<le> sz" "n \<le> 260" "response_len (p ! 1) p (length p) = Some n"
    "nx_modbus_rtu_check_crc (Some p) n = Some True"
  using assms response_len_bounds[of "p ! 1" p "length p" n]
  by (auto simp: master_head_def split: if_splits option.splits)

lemma master_head_append:
  assumes "master_head sz p \<noteq> Wait"
  shows "master_head sz (p @ q) = master_head sz p"
proof -
  have len: "5 \<le> length p" using assms by (simp add: master_head_def split: if_splits)
  obtain n where n: "response_len (p ! 1) p (length p) = Some n" using response_len_defined[OF len] by blast
  then have "response_len (p ! 1) (p @ q) (length p + length q) = Some n" using response_len_append[OF len len] by simp
  then show ?thesis using assms len n check_crc_append[of n p q]
    by (auto simp: master_head_def nth_append split: if_splits)
qed

text \<open>What every frame that is cut out is: complete, and with the right checksum.\<close>

definition response_good :: "nat \<Rightarrow> bytes \<Rightarrow> bool" where
  "response_good sz f \<longleftrightarrow> length f \<le> sz \<and> 5 \<le> length f \<and> length f \<le> 260 \<and>
     response_len (f ! 1) f (length f) = Some (length f) \<and> nx_modbus_rtu_check_crc (Some f) (length f) = Some True"

lemma master_head_whole: "response_good sz f \<Longrightarrow> master_head sz f = Take (length f)"
  by (auto simp: response_good_def master_head_def)

lemma master_head_good:
  assumes "master_head sz p = Take n"
  shows "response_good sz (take n p)"
proof -
  note h = master_head_Take[OF assms]
  have "response_len (p ! 1) (take n p) n = Some n"
    using h(1,2,5) response_len_append[of "take n p" n "p ! 1" "drop n p" "length p - n"] by simp
  then show ?thesis using h check_crc_take[OF h(2)] by (simp add: response_good_def)
qed

interpretation master_frames: framing "master_head sz" "response_good sz" for sz
proof
  show "master_head sz [] = Wait" by (simp add: master_head_def)
  show "0 < n \<and> n \<le> length p" if "master_head sz p = Take n" for p n
    using master_head_Take[OF that] by simp
qed (fact master_head_append master_head_good)+

text \<open>
  The receive buffer is never full after a pass: whatever waits is shorter than the buffer.
\<close>

lemma master_rest_short:
  assumes "master_head sz r = Wait" "5 < sz"
  shows "length r < sz"
proof (cases "length r < 5")
  case False
  then obtain n where n: "response_len (r ! 1) r (length r) = Some n" using response_len_defined[of r] by auto
  have "n \<noteq> SIZE_MAX" using response_len_known[OF _ n] False by simp
  then show ?thesis using assms(1) n False by (auto simp: master_head_def split: if_splits)
qed (use assms in simp)

section \<open>The loop of the master\<close>

text \<open>A dispatch reads the bytes of its frame only.\<close>

lemma master_loop_take:
  assumes "n \<le> length p"
  shows "master_dispatch_loop cfg (take n p) n addr cmd subs = master_dispatch_loop cfg p n addr cmd subs"
proof (induction subs)
  case (Cons sub subs)
  have "mem_read 0 n (take n p) = mem_read 0 n p" by (rule mem_read_take[OF _ assms]) simp
  then show ?case by (intro ext) (simp only: master_dispatch_loop.simps Cons.IH)
qed (simp add: fun_eq_iff)

lemma master_dispatch_take:
  assumes "2 \<le> n" "n \<le> length p"
  shows "master_dispatch cfg w (take n p) n = master_dispatch cfg w p n"
  using assms by (simp add: master_dispatch_def mem_get_take master_loop_take)

lemma master_slice_step:
  assumes "rx_len \<le> length buf" "front \<le> rx_len"
  defines "q \<equiv> drop front (take rx_len buf)"
  shows "master_slice cfg buf rx_len front w =
     (case master_head (mc_rx_size cfg) q of
        Wait \<Rightarrow> Some (front, w)
      | Skip \<Rightarrow> master_slice cfg buf rx_len (front + 1) w
      | Take n \<Rightarrow> do { w1 \<leftarrow> master_dispatch cfg w (take n q) n; master_slice cfg buf rx_len (front + n) w1 })"
proof (cases "rx_len - front < 5")
  case True
  then show ?thesis using assms by (simp add: master_slice.simps[of cfg buf rx_len front w] master_head_def q_def)
next
  case False
  define p where "p = drop front buf"
  have q: "q = take (rx_len - front) p" "length q = rx_len - front" "rx_len - front \<le> length p"
    using assms by (simp_all add: q_def p_def drop_take)
  have m: "mem_get 1 p = Some (q ! 1)" "q ! 1 = p ! 1" using False q(3) by (auto simp: mem_get_def q(1))
  have p: "p = q @ drop (rx_len - front) p" using q(1) by simp
  obtain n where n: "response_len (q ! 1) q (length q) = Some n" using response_len_defined[of q "q ! 1" "length q"] False q(2) by auto
  have "response_len (q ! 1) (q @ drop (rx_len - front) p) (rx_len - front + 0) = response_len (q ! 1) q (rx_len - front)"
    by (rule response_len_append) (use False q(2) in simp_all)
  then have np: "response_len (q ! 1) p (rx_len - front) = Some n" using n q(2) p by simp
  have crc: "nx_modbus_rtu_check_crc (Some p) n = nx_modbus_rtu_check_crc (Some q) n" if "n \<le> length q"
    using check_crc_append[OF that, of "drop (rx_len - front) p"] p by simp
  have def: "\<exists>ok. nx_modbus_rtu_check_crc (Some q) n = Some ok" if "n \<le> length q" "5 \<le> n"
    using that by (simp add: nx_modbus_rtu_check_crc_def nx_modbus_rtu_crc16_def mem_read_def mem_get_def) linarith
  have dsp: "master_dispatch cfg w p n = master_dispatch cfg w (take n q) n" if "n \<le> length q" "5 \<le> n"
    using master_dispatch_take[of n p cfg w] that q by (simp add: min_absorb1)
  note unf = master_slice.simps[of cfg buf rx_len front w, folded p_def] m(1)
  show ?thesis
  proof (cases "n = 0 \<or> n = SIZE_MAX \<or> n > mc_rx_size cfg \<or> rx_len - front < n")
    case True
    then show ?thesis using False np n q(2) by (auto simp: unf master_head_def Let_def simp del: One_nat_def)
  next
    case ok: False
    then have "5 \<le> n" using response_len_bounds[OF n] by simp
    then show ?thesis using False np n q(2) ok crc def dsp
      by (auto simp: unf master_head_def Let_def simp del: One_nat_def)
  qed
qed

interpretation master_loop: slicing "master_head (mc_rx_size cfg)" "response_good (mc_rx_size cfg)"
  "master_slice cfg" "\<lambda>w f. master_dispatch cfg w f (length f)" for cfg
proof
  fix rx_len front :: nat and buf :: bytes and w
  assume "rx_len \<le> length buf" "front \<le> rx_len"
  note step = master_slice_step[OF this, of cfg w]
  define q where "q = drop front (take rx_len buf)"
  have "length (take n q) = n" if "master_head (mc_rx_size cfg) q = Take n" for n
    using master_head_Take(2)[OF that] by simp
  then show "master_slice cfg buf rx_len front w =
       (case master_head (mc_rx_size cfg) (drop front (take rx_len buf)) of
          Wait \<Rightarrow> Some (front, w)
        | Skip \<Rightarrow> master_slice cfg buf rx_len (front + 1) w
        | Take n \<Rightarrow> do { w1 \<leftarrow> master_dispatch cfg w (take n (drop front (take rx_len buf))) (length (take n (drop front (take rx_len buf))));
            master_slice cfg buf rx_len (front + n) w1 })"
    unfolding step q_def[symmetric] by (auto split: frame_verdict.split)
qed

section \<open>Dispatch\<close>

text \<open>The surroundings of a master: its pool, its request queue and the queues of its subscribers exist.\<close>

definition master_bus_ok :: "'e nx_modbus_rtu_master_cfg \<Rightarrow> 'e rtu_world \<Rightarrow> bool" where
  "master_bus_ok cfg w \<longleftrightarrow> mc_pool cfg \<noteq> 0 \<and> mc_pool cfg \<in> dom (rw_pools w) \<and>
     mc_request_queue cfg \<noteq> 0 \<and> chan_cap w (mc_request_queue cfg) \<noteq> None \<and>
     (\<exists>subs. master_subs cfg = Some subs \<and> length subs < 2 ^ 60 \<and>
        (\<forall>sub \<in> set subs. su_queue sub \<noteq> 0 \<and> chan_cap w (su_queue sub) \<noteq> None))"

lemma master_bus_shape: "master_bus_ok cfg w \<Longrightarrow> bus_shape w1 = bus_shape w \<Longrightarrow> master_bus_ok cfg w1"
  by (simp add: master_bus_ok_def bus_shape_def)

text \<open>The queues of the subscribers a response is for, in the order of the table.\<close>

definition claimants :: "nx_modbus_rtu_master_sub list \<Rightarrow> bytes \<Rightarrow> nat list" where
  "claimants subs f = map su_queue (filter (\<lambda>sub. su_slave_addr sub = f ! 0 \<and> (su_func sub = 0 \<or> su_func sub = f ! 1 AND 0x7F)) subs)"

lemma sub_claims_iff: "sub_claims sub a c \<longleftrightarrow> su_slave_addr sub = a \<and> (su_func sub = 0 \<or> su_func sub = c AND 0x7F)"
proof -
  have "NOT 0x80 = (0x7F :: u8)" by simp
  then show ?thesis unfolding sub_claims_def by (simp only:) auto
qed

definition response_handled :: "'e nx_modbus_rtu_master_cfg \<Rightarrow> bytes \<Rightarrow> 'e rtu_world \<Rightarrow> 'e rtu_world \<Rightarrow> bool" where
  "response_handled cfg f w w' \<longleftrightarrow>
     chan w' = (if claimants (the (master_subs cfg)) f \<noteq> [] \<and> no_memory w (mc_pool cfg) (length f) then chan w
                else snd (fan_out (sub_cap w) f (claimants (the (master_subs cfg)) f) (chan w)))"

text \<open>Once there is a message, the loop offers it to the claimants that are left.\<close>

lemma master_loop_offers:
  assumes "a \<noteq> 0"
  shows "master_dispatch_loop cfg frame flen addr cmd subs a w =
     map_option (\<lambda>(_, w'). Inr (a, w')) (offer_all nx_ref_msg_publish w a (map su_queue (filter (\<lambda>sub. sub_claims sub addr cmd) subs)))"
proof (induction subs arbitrary: w)
  case (Cons sub subs)
  show ?case
  proof (cases "sub_claims sub addr cmd")
    case True
    show ?thesis
    proof (cases "nx_ref_msg_publish w a (su_queue sub)")
      case (Some x)
      then show ?thesis using True assms Cons.IH
        by (cases x, cases "offer_all nx_ref_msg_publish (snd x) a (map su_queue (filter (\<lambda>sub. sub_claims sub addr cmd) subs))") auto
    qed (use True assms in simp)
  qed (use Cons.IH in simp)
qed simp

lemma master_loop_starts:
  assumes "filter (\<lambda>sub. sub_claims sub addr cmd) subs \<noteq> []"
  shows "master_dispatch_loop cfg f (length f) addr cmd subs 0 w = do {
      (a, w1) \<leftarrow> nx_ref_msg_alloc w (mc_pool cfg) (length f);
      if a = 0 then Some (Inl w1)
      else do { w2 \<leftarrow> msg_put length w1 a f; master_dispatch_loop cfg f (length f) addr cmd subs a w2 } }"
  using assms
proof (induction subs)
  case (Cons sub subs)
  show ?case
  proof (cases "sub_claims sub addr cmd")
    case True
    then show ?thesis
      by (auto simp: mem_read_def intro!: arg_cong2[where f = Option.bind] ext)
  next
    case False
    then have "filter (\<lambda>sub. sub_claims sub addr cmd) subs \<noteq> []" using Cons.prems by simp
    note ih = Cons.IH[OF this]
    have skip: "master_dispatch_loop cfg f (length f) addr cmd (sub # subs) = master_dispatch_loop cfg f (length f) addr cmd subs"
      using False by (intro ext) simp
    show ?thesis unfolding skip by (rule ih)
  qed
qed simp

lemma master_dispatch_spec:
  assumes bus: "master_bus_ok cfg w" and inv: "ref_inv w H" and adu: "adu_ok w" and f: "5 \<le> length f" "length f \<le> 260"
  shows "\<exists>w'. master_dispatch cfg w f (length f) = Some w' \<and> rtu_keeps H w w' \<and> response_handled cfg f w w'"
proof -
  obtain subs where subs: "master_subs cfg = Some subs" "length subs < 2 ^ 60"
    "\<forall>sub \<in> set subs. su_queue sub \<noteq> 0 \<and> chan_cap w (su_queue sub) \<noteq> None"
    using bus by (auto simp: master_bus_ok_def)
  have g: "mem_get 0 f = Some (f ! 0)" "mem_get 1 f = Some (f ! 1)" using f(1) by (auto simp: mem_get_def)
  let ?claim = "\<lambda>sub. sub_claims sub (f ! 0) (f ! 1)"
  define qs where "qs = claimants subs f"
  have qs_map: "qs = map su_queue (filter ?claim subs)" by (simp add: qs_def claimants_def sub_claims_iff)
  have run: "master_dispatch cfg w f (length f) = do {
      r \<leftarrow> master_dispatch_loop cfg f (length f) (f ! 0) (f ! 1) subs 0 w;
      case r of Inl w1 \<Rightarrow> Some w1 | Inr (msg, w1) \<Rightarrow> if msg \<noteq> 0 then map_option snd (nx_ref_msg_release w1 msg) else Some w1 }"
    unfolding master_dispatch_def g subs(1) bind.bind_lunit ..
  have here: "rtu_keeps H w w" using inv adu by (simp add: rtu_keeps_def)
  show ?thesis
  proof (cases "qs = []")
    case True
    then have "\<forall>sub \<in> set subs. \<not> ?claim sub" by (simp add: qs_map filter_empty_conv)
    then have "master_dispatch_loop cfg f (length f) (f ! 0) (f ! 1) subs 0 w = Some (Inr (0, w))" by (induction subs) auto
    then show ?thesis using here True subs(1) by (simp add: run response_handled_def qs_def)
  next
    case False
    then have some: "filter ?claim subs \<noteq> []" by (simp add: qs_map)
    have "pool_serves w (mc_pool cfg) (length f)"
      using bus f by (auto simp: master_bus_ok_def pool_serves_def REF_MSG_SIZEOF_def)
    moreover have "length qs < 2 ^ 60" "\<forall>q \<in> set qs. q \<noteq> 0 \<and> chan_cap w q \<noteq> None"
      using subs(2,3) le_less_trans[OF length_filter_le] by (auto simp: qs_map)
    ultimately show ?thesis
    proof (rule msgs.fan_message[where dsize = length and d = f, OF inv _ order_refl])
      fix w1
      assume r: "nx_ref_msg_alloc w (mc_pool cfg) (length f) = Some (0, w1)" "ref_inv w1 H" "chan w1 = chan w" "bus_shape w1 = bus_shape w"
        "\<forall>b. 0 < H b \<longrightarrow> payload w1 b = payload w b \<and> queued w1 b = queued w b \<and> msg_room w1 b = msg_room w b"
      then have "rtu_keeps H w w1" using adu_ok_alloc[OF adu r(1)] by (simp add: rtu_keeps_def bus_keeps_def)
      moreover have "master_dispatch cfg w f (length f) = Some w1" by (simp add: run master_loop_starts[OF some] r(1) del: One_nat_def)
      ultimately show ?thesis using r(1,3) False subs(1) by (simp add: response_handled_def no_memory_def qs_def)
    next
      fix a w1 w2 w3 w4
      assume r: "nx_ref_msg_alloc w (mc_pool cfg) (length f) = Some (a, w1)" "a \<noteq> 0" "msg_put length w1 a f = Some w2" "msg_room w2 a = length f"
        "offer_all nx_ref_msg_publish w2 a qs = Some (fst (fan_out (\<lambda>q. the (chan_cap w q)) f qs (chan w)), w3)"
        "nx_ref_msg_release w3 a = Some (NX_REF_MSG_OK, w4)" "ref_inv w4 H" "chan w4 = snd (fan_out (\<lambda>q. the (chan_cap w q)) f qs (chan w))"
        "bus_shape w4 = bus_shape w" "\<forall>b. 0 < H b \<longrightarrow> payload w4 b = payload w b \<and> queued w4 b = queued w b \<and> msg_room w4 b = msg_room w b"
      have "master_dispatch_loop cfg f (length f) (f ! 0) (f ! 1) subs 0 w = Some (Inr (a, w3))"
        using r(2,3,5) by (simp add: master_loop_starts[OF some] r(1) master_loop_offers[OF r(2)] del: One_nat_def flip: qs_map)
      then have "master_dispatch cfg w f (length f) = Some w4" using r(2,6) by (simp add: run del: One_nat_def)
      moreover have "adu_ok w2" by (rule adu_ok_put[OF adu_ok_alloc[OF adu r(1)] r(3,4)])
      then have "adu_ok w4" using adu_ok_release[OF adu_ok_offer[OF _ r(5)] r(6)] by simp
      then have "rtu_keeps H w w4" using r(7,9,10) by (simp add: rtu_keeps_def bus_keeps_def)
      ultimately show ?thesis using r(1,2,8) subs(1) by (simp add: response_handled_def no_memory_def qs_def sub_cap_def[abs_def])
    qed
  qed
qed

end
