(* ===== verification/Nx_Modbus_Requests.thy ===== *)
theory Nx_Modbus_Requests
  imports Nx_Modbus_Answers
begin

text \<open>
  The two ends of a Modbus line together: the frames the builders of the master queue are those the slave accepts, and the
  replies the slave queues are those the master understands.
\<close>

section \<open>What can be asked\<close>

datatype rtu_request =
  ReadCoils u16 u16 | ReadDiscreteInputs u16 u16 | ReadHoldingRegs u16 u16 | ReadInputRegs u16 u16 |
  WriteCoil u16 bool | WriteReg u16 u16 | WriteCoils u16 u16 bytes | WriteRegs u16 u16 bytes |
  ReadWriteRegs u16 u16 u16 u16 bytes

text \<open>The call of the builder for a request.\<close>

fun master_request :: "'e rtu_world \<Rightarrow> nat \<Rightarrow> nat \<Rightarrow> u8 \<Rightarrow> rtu_request \<Rightarrow> (nx_modbus_rtu_master_ret \<times> 'e rtu_world) option" where
  "master_request w pool q a (ReadCoils s n) = nx_modbus_rtu_master_read_coils w pool q a s n"
| "master_request w pool q a (ReadDiscreteInputs s n) = nx_modbus_rtu_master_read_discrete_inputs w pool q a s n"
| "master_request w pool q a (ReadHoldingRegs s n) = nx_modbus_rtu_master_read_holding_regs w pool q a s n"
| "master_request w pool q a (ReadInputRegs s n) = nx_modbus_rtu_master_read_input_regs w pool q a s n"
| "master_request w pool q a (WriteCoil s on) = nx_modbus_rtu_master_write_single_coil w pool q a s on"
| "master_request w pool q a (WriteReg s v) = nx_modbus_rtu_master_write_single_reg w pool q a s v"
| "master_request w pool q a (WriteCoils s n x) = nx_modbus_rtu_master_write_multiple_coils w pool q a s n (Some x) (length x)"
| "master_request w pool q a (WriteRegs s n x) = nx_modbus_rtu_master_write_multiple_regs w pool q a s n (Some x) (length x)"
| "master_request w pool q a (ReadWriteRegs rs rn s n x) = nx_modbus_rtu_master_read_write_regs w pool q a rs rn s n (Some x) (length x)"

text \<open>The limits of the protocol: a read is not broadcast, the quantities are bounded, the data has the size the quantity says.\<close>

fun request_valid :: "u8 \<Rightarrow> rtu_request \<Rightarrow> bool" where
  "request_valid a (ReadCoils s n) \<longleftrightarrow> unat a \<in> {1..247} \<and> unat n \<in> {1..2000}"
| "request_valid a (ReadDiscreteInputs s n) \<longleftrightarrow> unat a \<in> {1..247} \<and> unat n \<in> {1..2000}"
| "request_valid a (ReadHoldingRegs s n) \<longleftrightarrow> unat a \<in> {1..247} \<and> unat n \<in> {1..125}"
| "request_valid a (ReadInputRegs s n) \<longleftrightarrow> unat a \<in> {1..247} \<and> unat n \<in> {1..125}"
| "request_valid a (WriteCoil s on) \<longleftrightarrow> unat a \<le> 247"
| "request_valid a (WriteReg s v) \<longleftrightarrow> unat a \<le> 247"
| "request_valid a (WriteCoils s n x) \<longleftrightarrow> unat a \<le> 247 \<and> unat n \<in> {1..1968} \<and> length x = (unat n + 7) div 8"
| "request_valid a (WriteRegs s n x) \<longleftrightarrow> unat a \<le> 247 \<and> unat n \<in> {1..123} \<and> length x = 2 * unat n"
| "request_valid a (ReadWriteRegs rs rn s n x) \<longleftrightarrow> unat a \<in> {1..247} \<and> unat rn \<in> {1..125} \<and> unat n \<in> {1..121} \<and> length x = 2 * unat n"

text \<open>The bytes of a request before its checksum; the registers or coils it touches.\<close>

fun request_body :: "u8 \<Rightarrow> rtu_request \<Rightarrow> bytes" where
  "request_body a (ReadCoils s n) = [a, 0x01] @ wire_bytes s @ wire_bytes n"
| "request_body a (ReadDiscreteInputs s n) = [a, 0x02] @ wire_bytes s @ wire_bytes n"
| "request_body a (ReadHoldingRegs s n) = [a, 0x03] @ wire_bytes s @ wire_bytes n"
| "request_body a (ReadInputRegs s n) = [a, 0x04] @ wire_bytes s @ wire_bytes n"
| "request_body a (WriteCoil s on) = [a, 0x05] @ wire_bytes s @ wire_bytes (if on then 0xFF00 else 0)"
| "request_body a (WriteReg s v) = [a, 0x06] @ wire_bytes s @ wire_bytes v"
| "request_body a (WriteCoils s n x) = [a, 0x0F] @ wire_bytes s @ wire_bytes n @ [of_nat (length x)] @ x"
| "request_body a (WriteRegs s n x) = [a, 0x10] @ wire_bytes s @ wire_bytes n @ [of_nat (length x)] @ x"
| "request_body a (ReadWriteRegs rs rn s n x) =
     [a, 0x17] @ wire_bytes rs @ wire_bytes rn @ wire_bytes s @ wire_bytes n @ [of_nat (length x)] @ x"

fun request_touches :: "rtu_request \<Rightarrow> nat \<times> nat" where
  "request_touches (ReadCoils s n) = (unat s, unat n)"
| "request_touches (ReadDiscreteInputs s n) = (unat s, unat n)"
| "request_touches (ReadHoldingRegs s n) = (unat s, unat n)"
| "request_touches (ReadInputRegs s n) = (unat s, unat n)"
| "request_touches (WriteCoil s on) = (unat s, 1)"
| "request_touches (WriteReg s v) = (unat s, 1)"
| "request_touches (WriteCoils s n x) = (unat s, unat n)"
| "request_touches (WriteRegs s n x) = (unat s, unat n)"
| "request_touches (ReadWriteRegs rs rn s n x) = (unat s, unat n)"

section \<open>Building\<close>

text \<open>Stamping and queueing a request is stamping and queueing a reply, up to the name of the result.\<close>

fun master_ret_of :: "nx_modbus_rtu_slave_ret \<Rightarrow> nx_modbus_rtu_master_ret" where
  "master_ret_of NX_MODBUS_RTU_SLAVE_OK = NX_MODBUS_RTU_MASTER_OK"
| "master_ret_of NX_MODBUS_RTU_SLAVE_ERR_NOMEM = NX_MODBUS_RTU_MASTER_ERR_NOMEM"
| "master_ret_of NX_MODBUS_RTU_SLAVE_ERR_FULL = NX_MODBUS_RTU_MASTER_ERR_FULL"
| "master_ret_of _ = NX_MODBUS_RTU_MASTER_ERR_PARAM"

lemma request_send_reply: "request_send w msg q len = map_option (map_prod master_ret_of id) (reply_send w msg q len)"
  by (auto simp: request_send_def reply_send_def map_option_bind comp_def case_prod_beta intro!: arg_cong2[where f = Option.bind] ext)

lemma request_build_reply: "request_build w pool q len hdr = map_option (map_prod master_ret_of id) (reply_build w pool q len hdr)"
  by (auto simp: request_build_def reply_build_def request_send_reply map_option_bind comp_def case_prod_beta
      intro!: arg_cong2[where f = Option.bind] ext)

text \<open>What a builder does: the frame is the last one of the queue, or the reason why it is not.\<close>

definition rtu_requested :: "nat \<Rightarrow> nat \<Rightarrow> bytes \<Rightarrow> nx_modbus_rtu_master_ret \<Rightarrow> 'e rtu_world \<Rightarrow> 'e rtu_world \<Rightarrow> bool" where
  "rtu_requested pool q x r w w' \<longleftrightarrow>
     (case r of
        NX_MODBUS_RTU_MASTER_OK \<Rightarrow> chan w' = (chan w)(q := chan w q @ [Some (rtu_frame x)]) \<and> length (chan w q) < the (chan_cap w q) \<and>
          \<not> no_memory w pool (length x + 2)
      | NX_MODBUS_RTU_MASTER_ERR_NOMEM \<Rightarrow> chan w' = chan w \<and> no_memory w pool (length x + 2)
      | NX_MODBUS_RTU_MASTER_ERR_FULL \<Rightarrow> chan w' = chan w \<and> the (chan_cap w q) \<le> length (chan w q) \<and> \<not> no_memory w pool (length x + 2)
      | NX_MODBUS_RTU_MASTER_ERR_PARAM \<Rightarrow> False)"

lemma rtu_requested_replied: "rtu_replied pool q x r w w' \<Longrightarrow> rtu_requested pool q x (master_ret_of r) w w'"
  by (cases r) (simp_all add: rtu_replied_def rtu_requested_def)

text \<open>A pool and a queue a builder may be called with.\<close>

definition request_bus_ok :: "nat \<Rightarrow> nat \<Rightarrow> 'e rtu_world \<Rightarrow> bool" where
  "request_bus_ok pool q w \<longleftrightarrow> pool \<noteq> 0 \<and> pool \<in> dom (rw_pools w) \<and> q \<noteq> 0 \<and> chan_cap w q \<noteq> None"

lemma request_build_spec:
  assumes "request_bus_ok pool q w" "ref_inv w H" "adu_ok w" "3 \<le> length x" "length x \<le> 300" "len = length x + 2"
  shows "\<exists>r w'. request_build w pool q len (Some x) = Some (r, w') \<and> rtu_keeps H w w' \<and> rtu_requested pool q x r w w'"
proof -
  obtain n where q: "q \<noteq> 0" "chan_cap w q = Some n" using assms(1) by (auto simp: request_bus_ok_def)
  have "pool_serves w pool (length x + 2)"
    using assms(1,5) by (auto simp: request_bus_ok_def pool_serves_def REF_MSG_SIZEOF_def)
  from reply_build_spec[OF assms(2,3) this q assms(4)] obtain r w' where
    "reply_build w pool q (length x + 2) (Some x) = Some (r, w')" "rtu_keeps H w w'" "rtu_replied pool q x r w w'"
    by (auto simp: rtu_keeps_def)
  then show ?thesis using rtu_requested_replied unfolding request_build_reply assms(6) by fastforce
qed

lemma length_wire_bytes [simp]: "length (wire_bytes v) = 2"
  by (simp add: wire_bytes_def)

lemma read_allowed_ok:
  "read_allowed a n k = (if unat a \<in> {1..247} \<and> unat n \<in> {1..unat k} then NX_MODBUS_RTU_MASTER_OK else NX_MODBUS_RTU_MASTER_ERR_PARAM)"
  by (auto simp: read_allowed_def word_less_nat_alt word_le_nat_alt not_less not_le Suc_le_eq)

lemma word_small: "\<not> a > (247 :: u8) \<longleftrightarrow> unat a \<le> 247"
  by (simp add: word_less_nat_alt not_less)


lemma request_var_run:
  assumes "pool \<noteq> 0" "q \<noteq> 0"
  shows "request_var w pool q a c s n (Some x) (length x) k =
     (if unat a \<le> 247 \<and> length x = k
      then request_build w pool q (length ([a, c] @ wire_bytes s @ wire_bytes n @ [of_nat (length x)] @ x) + 2)
             (Some ([a, c] @ wire_bytes s @ wire_bytes n @ [of_nat (length x)] @ x))
      else Some (NX_MODBUS_RTU_MASTER_ERR_PARAM, w))"
proof -
  have hdr: "Option.bind (Some x) (\<lambda>src. Option.bind (mem_read 0 (length x) src) (\<lambda>y. Some (g y))) = Some (g x)" for g :: "bytes \<Rightarrow> bytes"
    by (simp add: mem_read_def)
  have len: "length ([a, c] @ wire_bytes s @ wire_bytes n @ [of_nat (length x)] @ x) + 2 = 7 + length x + 2" by simp
  show ?thesis using assms unfolding request_var_def word_small[symmetric] hdr len by auto
qed

text \<open>A builder refuses exactly what is outside the limits and else builds the frame of the request.\<close>

lemma master_request_run:
  assumes "request_bus_ok pool q w"
  shows "master_request w pool q a rq =
     (if request_valid a rq then request_build w pool q (length (request_body a rq) + 2) (Some (request_body a rq))
      else Some (NX_MODBUS_RTU_MASTER_ERR_PARAM, w))"
proof -
  have bus: "pool \<noteq> 0" "q \<noteq> 0" using assms by (simp_all add: request_bus_ok_def)
  have lim: "n < 1 \<or> n > k \<longleftrightarrow> unat n \<notin> {1..unat k}" for n k :: u16
    by (auto simp: word_less_nat_alt not_less Suc_le_eq)
  have one: "unat a \<in> {1..247} \<Longrightarrow> \<not> a > 247" by (simp add: word_small)
  note var = request_var_run[OF bus]
  show ?thesis
  proof (cases rq)
    case (WriteCoil s on)
    then show ?thesis using bus by (simp add: nx_modbus_rtu_master_write_single_coil_def request_fixed_def flip: word_small)
  next
    case (WriteReg s v)
    then show ?thesis using bus by (simp add: nx_modbus_rtu_master_write_single_reg_def request_fixed_def flip: word_small)
  next
    case (WriteCoils s n x)
    have "unat (1968 :: u16) = 1968" by simp
    then show ?thesis
      unfolding WriteCoils master_request.simps request_valid.simps request_body.simps nx_modbus_rtu_master_write_multiple_coils_def var lim
      by simp
  next
    case (WriteRegs s n x)
    have "unat (123 :: u16) = 123" by simp
    then show ?thesis
      unfolding WriteRegs master_request.simps request_valid.simps request_body.simps nx_modbus_rtu_master_write_multiple_regs_def var lim
      by (simp add: mult.commute)
  next
    case (ReadWriteRegs rs rn s n x)
    have hdr: "Option.bind (Some x) (\<lambda>src. Option.bind (mem_read 0 (length x) src) (\<lambda>y. Some (g y))) = Some (g x)" for g :: "bytes \<Rightarrow> bytes"
      by (simp add: mem_read_def)
    have len: "length (request_body a rq) + 2 = 11 + length x + 2" unfolding ReadWriteRegs by simp
    have k: "unat (121 :: u16) = 121" "unat (125 :: u16) = 125" "unat n * 2 = 2 * unat n" by simp_all
    show ?thesis
      unfolding len unfolding ReadWriteRegs master_request.simps request_valid.simps request_body.simps
        nx_modbus_rtu_master_read_write_regs_def read_allowed_ok
      unfolding disj_assoc[symmetric] unfolding lim unfolding k unfolding hdr Let_def
      by (cases "unat a \<in> {1..247}"; cases "unat rn \<in> {1..125}"; cases "unat n \<in> {1..121}"; cases "length x = 2 * unat n")
        (simp_all only: bus refl simp_thms if_True if_False nx_modbus_rtu_master_ret.distinct not_True_eq_False not_False_eq_True,
         simp_all only: option.distinct if_False)
  qed (use bus one in \<open>auto simp: read_allowed_ok request_fixed_def nx_modbus_rtu_master_read_coils_def nx_modbus_rtu_master_read_discrete_inputs_def
         nx_modbus_rtu_master_read_holding_regs_def nx_modbus_rtu_master_read_input_regs_def\<close>)
qed

lemma request_body_length:
  assumes "request_valid a rq"
  shows "6 \<le> length (request_body a rq)" "length (request_body a rq) \<le> 253"
  using assms by (cases rq; auto)+

lemma master_request_spec:
  assumes "request_bus_ok pool q w" "ref_inv w H" "adu_ok w"
  shows "\<exists>r w'. master_request w pool q a rq = Some (r, w') \<and> rtu_keeps H w w' \<and>
    (if request_valid a rq then rtu_requested pool q (request_body a rq) r w w' else r = NX_MODBUS_RTU_MASTER_ERR_PARAM \<and> w' = w)"
proof (cases "request_valid a rq")
  case True
  note len = request_body_length[OF True]
  have "3 \<le> length (request_body a rq)" "length (request_body a rq) \<le> 300" using len by simp_all
  from request_build_spec[OF assms this refl] True show ?thesis by (simp add: master_request_run[OF assms(1)])
next
  case False
  then show ?thesis using assms by (simp add: master_request_run[OF assms(1)] rtu_keeps_def)
qed

section \<open>What the slave makes of a request\<close>

lemma wire_join: "push_bit 8 (ucast (ucast (drop_bit 8 v) :: u8)) OR ucast (ucast (v AND 0xFF) :: u8) = (v :: u16)"
proof -
  have "ucast (v AND 0xFF) = (ucast v :: u8)" by (rule bit_word_eqI) (auto simp: bit_simps mask_8_eq)
  then show ?thesis using join16[of v] by simp
qed

lemma wire_u16_at:
  assumes "length pre = i" "f = pre @ wire_bytes v @ post"
  shows "wire_u16 f i = Some v"
  using assms wire_join[of v] by (simp add: wire_u16_def mem_get_def nth_append wire_bytes_def)

lemma byte_count_nat: "n \<le> 255 \<Longrightarrow> unat (of_nat n :: u8) = n"
  by (simp add: unsigned_of_nat take_bit_nat_eq_self)

text \<open>The length the slave reads off the frame is its length.\<close>

lemma request_frame_len:
  assumes "request_valid a rq"
  defines "f \<equiv> rtu_frame (request_body a rq)"
  shows "f ! 0 = a" "frame_len (f ! 1) f (length f) = Some (length f)"
proof -
  show "f ! 0 = a" by (cases rq) (simp_all add: f_def rtu_frame_def)
  have bc: "unat (of_nat (length x) :: u8) = length x" if "length x \<le> 246" for x :: bytes
    using that by (intro byte_count_nat) simp
  show "frame_len (f ! 1) f (length f) = Some (length f)"
  proof (cases rq)
    case (WriteCoils s n x)
    then have "length x \<le> 246" using assms(1) by auto
    from bc[OF this] show ?thesis unfolding f_def WriteCoils
      by (simp add: rtu_frame_def frame_len_def mem_get_def wire_bytes_def nth_append del: of_nat_add of_nat_Suc)
  next
    case (WriteRegs s n x)
    then have "length x \<le> 246" using assms(1) by auto
    from bc[OF this] show ?thesis unfolding f_def WriteRegs
      by (simp add: rtu_frame_def frame_len_def mem_get_def wire_bytes_def nth_append)
  next
    case (ReadWriteRegs rs rn s n x)
    then have "length x \<le> 246" using assms(1) by auto
    from bc[OF this] show ?thesis unfolding f_def ReadWriteRegs
      by (simp add: rtu_frame_def frame_len_def mem_get_def wire_bytes_def nth_append)
  qed (simp_all add: f_def rtu_frame_def frame_len_def wire_bytes_def)
qed

lemma request_frame_good:
  assumes "request_valid a rq" "addr = a \<or> a = 0 \<and> bc" "length (request_body a rq) + 2 \<le> sz"
  shows "rtu_good addr bc sz (rtu_frame (request_body a rq))"
  using assms request_frame_len[OF assms(1)] request_body_length[OF assms(1)]
    check_crc_rtu_frame[of "request_body a rq"] by (auto simp: rtu_good_def)

lemma rtu_head_whole: "rtu_good addr bc sz f \<Longrightarrow> rtu_head addr bc sz f = Take (length f)"
  by (auto simp: rtu_good_def rtu_head_def)

text \<open>The slave finds nothing to refuse in it, and reads the range it touches off it.\<close>

lemma request_accepted:
  assumes "request_valid a rq"
  defines "f \<equiv> rtu_frame (request_body a rq)"
  shows "request_value_exc (f ! 1) f = Some 0"
proof -
  have bc: "of_nat (length x) = (of_nat k :: u8)" if "length x = k" for x :: bytes and k using that by simp
  show ?thesis
  proof (cases rq)
    case (WriteCoils s n x)
    have "wire_u16 f 4 = Some n" by (rule wire_u16_at[of "[a, 0x0F] @ wire_bytes s"]) (simp_all add: f_def WriteCoils rtu_frame_def)
    moreover have "mem_get 6 f = Some (of_nat (length x))" "f ! 1 = 0x0F"
      by (simp_all add: f_def WriteCoils rtu_frame_def mem_get_def wire_bytes_def)
    ultimately show ?thesis using assms(1) by (simp add: WriteCoils request_value_exc_def)
  next
    case (WriteRegs s n x)
    have "wire_u16 f 4 = Some n" by (rule wire_u16_at[of "[a, 0x10] @ wire_bytes s"]) (simp_all add: f_def WriteRegs rtu_frame_def)
    moreover have "mem_get 6 f = Some (of_nat (length x))" "f ! 1 = 0x10"
      by (simp_all add: f_def WriteRegs rtu_frame_def mem_get_def wire_bytes_def)
    ultimately show ?thesis using assms(1) by (simp add: WriteRegs request_value_exc_def mult.commute)
  next
    case (ReadWriteRegs rs rn s n x)
    have "wire_u16 f 4 = Some rn" by (rule wire_u16_at[of "[a, 0x17] @ wire_bytes rs"]) (simp_all add: f_def ReadWriteRegs rtu_frame_def)
    moreover have "wire_u16 f 8 = Some n"
      by (rule wire_u16_at[of "[a, 0x17] @ wire_bytes rs @ wire_bytes rn @ wire_bytes s"]) (simp_all add: f_def ReadWriteRegs rtu_frame_def)
    moreover have "mem_get 10 f = Some (of_nat (length x))" "f ! 1 = 0x17"
      by (simp_all add: f_def ReadWriteRegs rtu_frame_def mem_get_def wire_bytes_def)
    ultimately show ?thesis using assms(1) by (simp add: ReadWriteRegs request_value_exc_def mult.commute)
  next
    case (ReadCoils s n)
    have "wire_u16 f 4 = Some n" by (rule wire_u16_at[of "[a, 1] @ wire_bytes s"]) (simp_all add: f_def ReadCoils rtu_frame_def)
    then show ?thesis using assms(1) by (simp add: f_def ReadCoils rtu_frame_def request_value_exc_def)
  next
    case (ReadDiscreteInputs s n)
    have "wire_u16 f 4 = Some n" by (rule wire_u16_at[of "[a, 2] @ wire_bytes s"]) (simp_all add: f_def ReadDiscreteInputs rtu_frame_def)
    then show ?thesis using assms(1) by (simp add: f_def ReadDiscreteInputs rtu_frame_def request_value_exc_def)
  next
    case (ReadHoldingRegs s n)
    have "wire_u16 f 4 = Some n" by (rule wire_u16_at[of "[a, 3] @ wire_bytes s"]) (simp_all add: f_def ReadHoldingRegs rtu_frame_def)
    then show ?thesis using assms(1) by (simp add: f_def ReadHoldingRegs rtu_frame_def request_value_exc_def)
  next
    case (ReadInputRegs s n)
    have "wire_u16 f 4 = Some n" by (rule wire_u16_at[of "[a, 4] @ wire_bytes s"]) (simp_all add: f_def ReadInputRegs rtu_frame_def)
    then show ?thesis using assms(1) by (simp add: f_def ReadInputRegs rtu_frame_def request_value_exc_def)
  next
    case (WriteCoil s on)
    have "wire_u16 f 4 = Some (if on then 0xFF00 else 0)"
      by (rule wire_u16_at[of "[a, 5] @ wire_bytes s"]) (simp_all add: f_def WriteCoil rtu_frame_def)
    then show ?thesis by (simp add: f_def WriteCoil rtu_frame_def request_value_exc_def)
  next
    case (WriteReg s v)
    have "wire_u16 f 4 = Some v" by (rule wire_u16_at[of "[a, 6] @ wire_bytes s"]) (simp_all add: f_def WriteReg rtu_frame_def)
    then show ?thesis by (simp add: f_def WriteReg rtu_frame_def request_value_exc_def)
  qed
qed

text \<open>The range the slave reads off the frame is the one that was asked for.\<close>

lemma rtu_field_at: "length pre = i \<Longrightarrow> rtu_field (pre @ wire_bytes v @ post) i = unat v"
  by (rule wire_u16_field[OF wire_u16_at, symmetric]) simp_all

lemma request_span_touches:
  assumes "request_valid a rq"
  defines "f \<equiv> rtu_frame (request_body a rq)"
  obtains lo hi where "request_span (f ! 1) f = Some (lo, hi)" "unat lo = fst (request_touches rq)"
    "unat hi = fst (request_touches rq) + snd (request_touches rq) - 1"
proof -
  note fl = request_frame_len(2)[OF assms(1), folded f_def] and len = request_body_length[OF assms(1)]
  have l: "8 \<le> length f" "length f \<noteq> SIZE_MAX" using len by (auto simp: f_def)
  obtain lo hi where span: "request_span (f ! 1) f = Some (lo, hi)" using request_defined(2)[OF fl l] by blast
  have count: "0 < rtu_count f" by (rule request_value_wellformed(2)[OF request_accepted[OF assms(1), folded f_def] fl l(1)])
  have at2: "rtu_field ([x, y] @ wire_bytes v @ post) 2 = unat v" for x y v post by (rule rtu_field_at) simp
  have at4: "rtu_field ([x, y] @ wire_bytes u @ wire_bytes v @ post) 4 = unat v" for x y u v post
    using rtu_field_at[of "[x, y] @ wire_bytes u" 4 v post] by simp
  have at6: "rtu_field ([x, y] @ wire_bytes t @ wire_bytes u @ wire_bytes v @ post) 6 = unat v" for x y t u v post
    using rtu_field_at[of "[x, y] @ wire_bytes t @ wire_bytes u" 6 v post] by simp
  have at8: "rtu_field ([x, y] @ wire_bytes t @ wire_bytes t' @ wire_bytes u @ wire_bytes v @ post) 8 = unat v" for x y t t' u v post
    using rtu_field_at[of "[x, y] @ wire_bytes t @ wire_bytes t' @ wire_bytes u" 8 v post] by simp
  note at = at2[simplified] at4[simplified] at6[simplified] at8[simplified]
  have "rtu_start f = fst (request_touches rq)" "rtu_count f = snd (request_touches rq)"
    by (cases rq; simp add: f_def rtu_frame_def rtu_start_def rtu_count_def at)+
  with request_span_nat[OF span count] that[OF span] show ?thesis by simp
qed

section \<open>What the master makes of a reply\<close>

datatype rtu_reply = ReadReply u8 bytes | WriteReply u8 u16 u16 | ExceptionReply u8 u8

fun slave_reply :: "'e rtu_world \<Rightarrow> nat \<Rightarrow> nat \<Rightarrow> u8 \<Rightarrow> rtu_reply \<Rightarrow> (nx_modbus_rtu_slave_ret \<times> 'e rtu_world) option" where
  "slave_reply w pool q a (ReadReply c x) = nx_modbus_rtu_slave_reply_read w pool q a c (Some x) (length x)"
| "slave_reply w pool q a (WriteReply c s v) = nx_modbus_rtu_slave_reply_write w pool q a c s v"
| "slave_reply w pool q a (ExceptionReply c e) = nx_modbus_rtu_slave_reply_exception w pool q a c e"

text \<open>The function codes a reply of the kind may carry.\<close>

fun reply_func_ok :: "rtu_reply \<Rightarrow> bool" where
  "reply_func_ok (ReadReply c x) \<longleftrightarrow> c \<in> {0x01, 0x02, 0x03, 0x04, 0x17}"
| "reply_func_ok (WriteReply c s v) \<longleftrightarrow> c \<in> {0x05, 0x06, 0x0F, 0x10}"
| "reply_func_ok (ExceptionReply c e) \<longleftrightarrow> True"

fun reply_body :: "u8 \<Rightarrow> rtu_reply \<Rightarrow> bytes" where
  "reply_body a (ReadReply c x) = [a, c, of_nat (length x)] @ x"
| "reply_body a (WriteReply c s v) = [a, c] @ wire_bytes s @ wire_bytes v"
| "reply_body a (ExceptionReply c e) = [a, c OR 0x80, e]"

fun reply_sized :: "rtu_reply \<Rightarrow> bool" where
  "reply_sized (ReadReply c x) \<longleftrightarrow> x \<noteq> [] \<and> length x \<le> 251"
| "reply_sized _ \<longleftrightarrow> True"

lemma slave_reply_spec:
  assumes "slave_bus_ok cfg w" "ref_inv w H" "adu_ok w"
  shows "\<exists>r w'. slave_reply w (sc_pool cfg) (sc_response_queue cfg) a rp = Some (r, w') \<and> rtu_keeps H w w' \<and>
    (r = NX_MODBUS_RTU_SLAVE_OK \<longrightarrow> a \<noteq> 0 \<and> reply_sized rp \<and> rtu_replied (sc_pool cfg) (sc_response_queue cfg) (reply_body a rp) r w w')"
proof (cases rp)
  case (ReadReply c x)
  from reply_read_spec[OF assms order_refl, of a c x] show ?thesis
    by (auto simp: ReadReply split: if_splits)
next
  case (WriteReply c s v)
  from reply_write_spec[OF assms, of a c s v] show ?thesis by (auto simp: WriteReply wire_bytes_def split: if_splits)
next
  case (ExceptionReply c e)
  from reply_exception_spec[OF assms, of a c e] show ?thesis by (auto simp: ExceptionReply split: if_splits)
qed

lemma exception_flag: "(c OR 0x80) AND 0x80 = (0x80 :: u8)" "(c OR 0x80) AND 0x7F = c AND (0x7F :: u8)"
proof -
  show "(c OR 0x80) AND 0x80 = (0x80 :: u8)" by (simp add: bit.conj_disj_distrib2 word_bw_same)
  show "(c OR 0x80) AND 0x7F = c AND (0x7F :: u8)" by (simp add: bit.conj_disj_distrib2)
qed

lemma reply_good:
  assumes "reply_sized rp" "reply_func_ok rp" "length (reply_body a rp) + 2 \<le> sz"
  shows "response_good sz (rtu_frame (reply_body a rp))"
proof -
  let ?f = "rtu_frame (reply_body a rp)"
  have crc: "nx_modbus_rtu_check_crc (Some ?f) (length ?f) = Some True"
    using check_crc_rtu_frame[of "reply_body a rp"] by (cases rp) auto
  have "response_len (?f ! 1) ?f (length ?f) = Some (length ?f)"
  proof (cases rp)
    case (ReadReply c x)
    then have "unat (of_nat (length x) :: u8) = length x" using assms(1) by (intro byte_count_nat) simp
    then show ?thesis using assms(2) by (auto simp: ReadReply rtu_frame_def response_len_def mem_get_def)
  next
    case (WriteReply c s v)
    then show ?thesis using assms(2) by (auto simp: rtu_frame_def response_len_def)
  next
    case (ExceptionReply c e)
    then show ?thesis by (simp add: rtu_frame_def response_len_def exception_flag)
  qed
  moreover have "5 \<le> length ?f" "length ?f \<le> 260" using assms(1) by (cases rp; auto)+
  ultimately show ?thesis using assms(3) crc by (simp add: response_good_def)
qed

text \<open>The two inspection functions tell the kinds apart and find the contents.\<close>

lemma reply_inspected:
  fixes a :: u8
  assumes "reply_sized rp" "reply_func_ok rp"
  defines "f \<equiv> rtu_frame (reply_body a rp)"
  shows "nx_modbus_rtu_master_rsp_is_exception (Some f) (length f) (Some e0) =
      Some (case rp of ExceptionReply c e \<Rightarrow> (True, Some e) | _ \<Rightarrow> (False, Some e0))"
    "nx_modbus_rtu_master_rsp_data (Some f) (length f) (Some n0) =
      Some (case rp of ReadReply c x \<Rightarrow> (Some 3, Some (length x)) | _ \<Rightarrow> (None, Some 0))"
    "case rp of ReadReply c x \<Rightarrow> take (length x) (drop 3 f) = x | _ \<Rightarrow> True"
proof -
  have ne: "c OR 0x80 \<noteq> k" if "k AND 0x80 = 0" for c k :: u8 using that exception_flag(1)[of c] by auto
  have bc: "unat (of_nat (length x) :: u8) = length x" if "rp = ReadReply c x" for c x
    using assms(1) that by (intro byte_count_nat) simp
  show "nx_modbus_rtu_master_rsp_is_exception (Some f) (length f) (Some e0) =
      Some (case rp of ExceptionReply c e \<Rightarrow> (True, Some e) | _ \<Rightarrow> (False, Some e0))"
    using assms(2) by (cases rp) (auto simp: nx_modbus_rtu_master_rsp_is_exception_def f_def rtu_frame_def mem_get_def exception_flag)
  show "nx_modbus_rtu_master_rsp_data (Some f) (length f) (Some n0) =
      Some (case rp of ReadReply c x \<Rightarrow> (Some 3, Some (length x)) | _ \<Rightarrow> (None, Some 0))"
    using assms(1,2) bc by (cases rp) (auto simp: nx_modbus_rtu_master_rsp_data_def f_def rtu_frame_def mem_get_def ne)
  show "case rp of ReadReply c x \<Rightarrow> take (length x) (drop 3 f) = x | _ \<Rightarrow> True"
    by (cases rp) (simp_all add: f_def rtu_frame_def)
qed

end
