(* ===== verification/Nx_Modbus_Contract.thy ===== *)
theory Nx_Modbus_Contract
  imports Nx_Modbus_Dispatch
begin

text \<open>
  What \<open>src/middleware/nx_modbus_rtu_slave.h\<close> promises: the invariant of a running slave, and what a call of
  \<open>nx_modbus_rtu_slave_process\<close> receives, dispatches and transmits.
\<close>

section \<open>The invariant of a running slave\<close>

text \<open>The bytes received and not yet consumed.\<close>

definition slave_pending :: "'e nx_modbus_rtu_slave \<Rightarrow> bytes" where
  "slave_pending s = take (ms_rx_len s) (the (sc_rx_buf (ms_cfg s)))"

text \<open>
  The callbacks are there and \<open>read\<close> copies no more bytes than it was allowed to, as its description in the header says.
\<close>

definition slave_cfg_ok :: "'e nx_modbus_rtu_slave_cfg \<Rightarrow> bool" where
  "slave_cfg_ok cfg \<longleftrightarrow> 0 < sc_rx_size cfg \<and> (\<exists>b. sc_rx_buf cfg = Some b \<and> sc_rx_size cfg \<le> length b) \<and>
     (\<exists>read. sc_read cfg = Some read \<and> (\<forall>c m e. length (fst (read c m e)) \<le> m)) \<and> sc_write cfg \<noteq> None"

definition hcur :: "'e nx_modbus_rtu_slave \<Rightarrow> nat \<Rightarrow> nat" where
  "hcur s a = (if ms_tx_cur s \<noteq> 0 \<and> a = ms_tx_cur s then 1 else 0)"

definition slave_tx_ok :: "'e nx_modbus_rtu_slave \<Rightarrow> bool" where
  "slave_tx_ok s \<longleftrightarrow>
     ms_tx_state s = TX_IDLE \<and> ms_tx_cur s = 0 \<or> ms_tx_state s = TX_SENDING \<and> ms_tx_cur s \<noteq> 0 \<and> sc_is_busy (ms_cfg s) \<noteq> None"

text \<open>The messages of the response queue were written before they were queued.\<close>

definition slave_inputs_ok :: "'e nx_modbus_rtu_slave_cfg \<Rightarrow> 'e rtu_world \<Rightarrow> bool" where
  "slave_inputs_ok cfg w \<longleftrightarrow> None \<notin> set (chan w (sc_response_queue cfg))"

definition slave_inv :: "'e nx_modbus_rtu_slave \<Rightarrow> 'e rtu_world \<Rightarrow> (nat \<Rightarrow> nat) \<Rightarrow> bool" where
  "slave_inv s w H \<longleftrightarrow> slave_cfg_ok (ms_cfg s) \<and> slave_bus_ok (ms_cfg s) w \<and> ms_rx_len s < sc_rx_size (ms_cfg s) \<and> slave_tx_ok s \<and>
     ref_inv w (\<lambda>a. H a + hcur s a) \<and> adu_ok w \<and> slave_inputs_ok (ms_cfg s) w"

lemma adu_ok_env [simp]: "adu_ok (w\<lparr> rw_env := e \<rparr>) = adu_ok w"
  by (simp add: adu_ok_def)

section \<open>The line, as the header describes it\<close>

text \<open>
  Bus activity is noted with the time of a clock reading, if there is a clock and a gap to keep; then what is kept is the last time noted.
\<close>

definition line_noted :: "'e nx_modbus_rtu_slave \<Rightarrow> 'e \<Rightarrow> u32 \<times> 'e" where
  "line_noted s e =
     (case sc_get_us (ms_cfg s) of
        None \<Rightarrow> (ms_last_bus_activity_us s, e)
      | Some clock \<Rightarrow> if ms_gap_us s = 0 then (ms_last_bus_activity_us s, e) else clock e)"

text \<open>
  The line is free to transmit on: the interface does not report that it is busy, and since the last activity noted at least the gap has passed. Without
  a report the interface is not busy, and without a clock or a gap there is nothing to wait for.
\<close>

definition line_free :: "'e nx_modbus_rtu_slave \<Rightarrow> 'e \<Rightarrow> bool \<times> 'e" where
  "line_free s e =
     (let (busy, e1) = (case sc_is_busy (ms_cfg s) of None \<Rightarrow> (False, e) | Some is_busy \<Rightarrow> is_busy (sc_io_ctx (ms_cfg s)) e)
      in if busy then (False, e1)
         else (case sc_get_us (ms_cfg s) of
                 None \<Rightarrow> (True, e1)
               | Some clock \<Rightarrow>
                   if ms_gap_us s = 0 then (True, e1)
                   else (case clock e1 of (t, e2) \<Rightarrow> (unat (ms_gap_us s) \<le> unat (t - ms_last_bus_activity_us s), e2))))"

text \<open>The direction pin is set for transmitting, and the driver gets the bytes.\<close>

definition line_dir :: "'e nx_modbus_rtu_slave_cfg \<Rightarrow> bool \<Rightarrow> 'e \<Rightarrow> 'e" where
  "line_dir cfg on e = (case sc_dir_tx cfg of None \<Rightarrow> e | Some dir \<Rightarrow> dir (sc_dir_ctx cfg) on e)"

definition line_write :: "'e nx_modbus_rtu_slave_cfg \<Rightarrow> bytes \<Rightarrow> 'e \<Rightarrow> bool \<times> 'e" where
  "line_write cfg x e = the (sc_write cfg) (sc_io_ctx cfg) x (line_dir cfg True e)"

text \<open>What the reception of \<open>x\<close> notes.\<close>

definition line_heard :: "'e nx_modbus_rtu_slave \<Rightarrow> bytes \<Rightarrow> 'e \<Rightarrow> u32 \<times> 'e" where
  "line_heard s x e = (if x = [] then (ms_last_bus_activity_us s, e) else line_noted s e)"

text \<open>The reading that a call begins with.\<close>

definition line_read :: "'e nx_modbus_rtu_slave \<Rightarrow> 'e \<Rightarrow> bytes \<times> 'e" where
  "line_read s e = the (sc_read (ms_cfg s)) (sc_io_ctx (ms_cfg s)) (sc_rx_size (ms_cfg s) - ms_rx_len s) e"

lemma line_noted_cong:
  assumes "\<exists>b. ms_cfg s' = (ms_cfg s)\<lparr> sc_rx_buf := b \<rparr>" "ms_gap_us s' = ms_gap_us s" "ms_last_bus_activity_us s' = ms_last_bus_activity_us s"
  shows "line_noted s' = line_noted s" "line_free s' = line_free s" "line_write (ms_cfg s') = line_write (ms_cfg s)"
    "line_dir (ms_cfg s') = line_dir (ms_cfg s)"
proof -
  obtain b where b: "ms_cfg s' = (ms_cfg s)\<lparr> sc_rx_buf := b \<rparr>" using assms(1) by blast
  have c: "sc_get_us (ms_cfg s') = sc_get_us (ms_cfg s)" "sc_is_busy (ms_cfg s') = sc_is_busy (ms_cfg s)" "sc_io_ctx (ms_cfg s') = sc_io_ctx (ms_cfg s)"
    "sc_dir_tx (ms_cfg s') = sc_dir_tx (ms_cfg s)" "sc_dir_ctx (ms_cfg s') = sc_dir_ctx (ms_cfg s)" "sc_write (ms_cfg s') = sc_write (ms_cfg s)"
    by (simp_all add: b)
  show d: "line_dir (ms_cfg s') = line_dir (ms_cfg s)" by (intro ext) (simp only: line_dir_def c)
  show "line_noted s' = line_noted s" "line_free s' = line_free s" "line_write (ms_cfg s') = line_write (ms_cfg s)"
    by (intro ext, simp only: line_noted_def line_free_def line_write_def c d assms(2,3))+
qed

lemma line_noted_stamp: "slave_stamp s e = (s\<lparr> ms_last_bus_activity_us := fst (line_noted s e) \<rparr>, snd (line_noted s e))"
  by (cases "sc_get_us (ms_cfg s)") (simp_all add: slave_stamp_def line_noted_def case_prod_beta Let_def)

lemma slave_dir_line: "slave_dir = line_dir"
  by (simp add: slave_dir_def line_dir_def fun_eq_iff)

lemma line_free_parts:
  assumes "slave_busy (ms_cfg s) e = (busy, e1)" "slave_silent s e1 = (silent, e2)"
  shows "line_free s e = (if busy then (False, e1) else (silent, e2))"
  using assms by (auto simp: slave_busy_def slave_silent_def line_free_def Let_def word_less_nat_alt not_less case_prod_beta' split: option.splits if_splits)

section \<open>Receiving\<close>

lemma slave_pull_spec:
  assumes cfg: "slave_cfg_ok (ms_cfg s)" and len: "ms_rx_len s < sc_rx_size (ms_cfg s)" and rd: "sc_read (ms_cfg s) = Some read"
    and x: "x = fst (read (sc_io_ctx (ms_cfg s)) (sc_rx_size (ms_cfg s) - ms_rx_len s) (rw_env w))"
  shows "\<exists>s1 e b. slave_pull s w = Some (s1, w\<lparr> rw_env := e \<rparr>) \<and> ms_cfg s1 = (ms_cfg s)\<lparr> sc_rx_buf := Some b \<rparr> \<and>
    sc_rx_size (ms_cfg s) \<le> length b \<and> ms_rx_len s1 = ms_rx_len s + length x \<and> ms_rx_len s1 \<le> sc_rx_size (ms_cfg s) \<and>
    take (ms_rx_len s1) b = slave_pending s @ x \<and> ms_tx_state s1 = ms_tx_state s \<and> ms_tx_cur s1 = ms_tx_cur s \<and> ms_gap_us s1 = ms_gap_us s \<and>
    line_heard s x (snd (line_read s (rw_env w))) = (ms_last_bus_activity_us s1, e)"
proof -
  obtain b where b: "sc_rx_buf (ms_cfg s) = Some b" "sc_rx_size (ms_cfg s) \<le> length b" using cfg by (auto simp: slave_cfg_ok_def)
  obtain e where e: "read (sc_io_ctx (ms_cfg s)) (sc_rx_size (ms_cfg s) - ms_rx_len s) (rw_env w) = (x, e)"
    using x by (metis prod.collapse)
  have "length x \<le> sc_rx_size (ms_cfg s) - ms_rx_len s" using cfg rd x by (auto simp: slave_cfg_ok_def)
  then have fit: "ms_rx_len s + length x \<le> sc_rx_size (ms_cfg s)" using len by simp
  define b1 where "b1 = take (ms_rx_len s) b @ x @ drop (ms_rx_len s + length x) b"
  have b1: "mem_write (ms_rx_len s) x b = Some b1" using fit b(2) by (simp add: mem_write_def b1_def)
  have lb: "length b1 = length b" by (rule mem_write_length[OF b1])
  have tk: "take (ms_rx_len s + length x) b1 = slave_pending s @ x"
    using fit b len by (simp add: b1_def slave_pending_def min_absorb1)
  define s1 where "s1 = s\<lparr> ms_cfg := (ms_cfg s)\<lparr> sc_rx_buf := Some b1 \<rparr> \<rparr>"
  obtain s2 e2 where st: "(if length x > 0 then slave_stamp s1 e else (s1, e)) = (s2, e2)" by fastforce
  have s2: "ms_cfg s2 = ms_cfg s1" "ms_rx_len s2 = ms_rx_len s" "ms_tx_state s2 = ms_tx_state s" "ms_tx_cur s2 = ms_tx_cur s"
    "ms_gap_us s2 = ms_gap_us s"
    using st by (auto simp: line_noted_stamp s1_def split: if_splits)
  have heard: "line_heard s x (snd (line_read s (rw_env w))) = (ms_last_bus_activity_us s2, e2)"
  proof -
    have "line_noted s1 = line_noted s" by (rule line_noted_cong(1)) (auto simp: s1_def)
    then show ?thesis using st e rd by (auto simp: line_heard_def line_read_def line_noted_stamp s1_def split: if_splits)
  qed
  have "slave_pull s w = Some (s2\<lparr> ms_rx_len := ms_rx_len s2 + length x \<rparr>, w\<lparr> rw_env := e2 \<rparr>)"
    unfolding slave_pull_def rd b(1) using len e b1 st by (auto simp: s1_def Let_def split: if_splits)
  then show ?thesis
    using s2 lb b(2) fit tk heard
    by (intro exI[of _ "s2\<lparr> ms_rx_len := ms_rx_len s2 + length x \<rparr>"] exI[of _ e2] exI[of _ b1]) (simp add: s1_def)
qed

text \<open>The frames served one after the other, each in the world the one before left.\<close>

fun rtu_served :: "'e nx_modbus_rtu_slave_cfg \<Rightarrow> bytes list \<Rightarrow> 'e rtu_world \<Rightarrow> 'e rtu_world \<Rightarrow> bool" where
  "rtu_served cfg [] w w' \<longleftrightarrow> w' = w"
| "rtu_served cfg (f # fs) w w' \<longleftrightarrow> (\<exists>w1. dispatch cfg w f (length f) = Some w1 \<and> rtu_handled cfg f w w1 \<and> rtu_served cfg fs w1 w')"

lemma dispatch_all_spec:
  assumes "slave_bus_ok cfg w" "ref_inv w H" "adu_ok w" "list_all (rtu_good addr bc sz) fs"
  shows "\<exists>w'. dispatch_all cfg w fs = Some w' \<and> rtu_keeps H w w' \<and> rtu_served cfg fs w w'"
  using assms
proof (induction fs arbitrary: w)
  case Nil
  then show ?case by (simp add: rtu_keeps_def)
next
  case (Cons f fs)
  have "rtu_good addr bc sz f" using Cons.prems(4) by simp
  from dispatch_spec[OF Cons.prems(1-3) this] obtain w1 where w1: "dispatch cfg w f (length f) = Some w1" "rtu_keeps H w w1" "rtu_handled cfg f w w1"
    by blast
  then have "slave_bus_ok cfg w1" "ref_inv w1 H" "adu_ok w1"
    using slave_bus_shape[OF Cons.prems(1)] by (auto simp: rtu_keeps_def bus_keeps_def)
  then obtain w' where "dispatch_all cfg w1 fs = Some w'" "rtu_keeps H w1 w'" "rtu_served cfg fs w1 w'"
    using Cons.IH[of w1] Cons.prems(4) by auto
  then show ?case using w1 rtu_keeps_trans[OF w1(2)] by auto
qed

lemma rtu_answered_written:
  assumes "rtu_answered cfg f exc w w'" "None \<notin> set (chan w q)"
  shows "None \<notin> set (chan w' q)"
  using assms by (auto simp: rtu_answered_def Let_def split: if_splits)

lemma rtu_handled_written:
  assumes "rtu_handled cfg f w w'" "None \<notin> set (chan w q)"
  shows "None \<notin> set (chan w' q)"
  using assms rtu_answered_written[OF _ assms(2)] fan_out_written[of "chan w" q "sub_cap w" f, OF assms(2)]
  by (auto simp: rtu_handled_def split: rtu_verdict.splits if_splits prod.splits nat.splits) (metis snd_conv)

lemma rtu_served_written: "rtu_served cfg fs w w' \<Longrightarrow> None \<notin> set (chan w q) \<Longrightarrow> None \<notin> set (chan w' q)"
  by (induction fs arbitrary: w) (auto dest: rtu_handled_written)

text \<open>Nothing of this depends on the receive buffer.\<close>

lemma cfg_buf [simp]:
  "slave_subs (cfg\<lparr> sc_rx_buf := b \<rparr>) = slave_subs cfg" "rtu_answered (cfg\<lparr> sc_rx_buf := b \<rparr>) = rtu_answered cfg"
  "slave_bus_ok (cfg\<lparr> sc_rx_buf := b \<rparr>) w = slave_bus_ok cfg w" "rtu_handled (cfg\<lparr> sc_rx_buf := b \<rparr>) f w w' = rtu_handled cfg f w w'"
  "slave_inputs_ok (cfg\<lparr> sc_rx_buf := b \<rparr>) w = slave_inputs_ok cfg w"
proof -
  show a: "slave_subs (cfg\<lparr> sc_rx_buf := b \<rparr>) = slave_subs cfg" "rtu_answered (cfg\<lparr> sc_rx_buf := b \<rparr>) = rtu_answered cfg"
    by (simp_all add: slave_subs_def rtu_answered_def fun_eq_iff)
  show "slave_bus_ok (cfg\<lparr> sc_rx_buf := b \<rparr>) w = slave_bus_ok cfg w" "slave_inputs_ok (cfg\<lparr> sc_rx_buf := b \<rparr>) w = slave_inputs_ok cfg w"
    by (simp_all add: slave_bus_ok_def a slave_inputs_ok_def)
  show "rtu_handled (cfg\<lparr> sc_rx_buf := b \<rparr>) f w w' = rtu_handled cfg f w w'"
  proof -
    have b: "sc_pool (cfg\<lparr> sc_rx_buf := b \<rparr>) = sc_pool cfg" by simp
    show ?thesis unfolding rtu_handled_def a b ..
  qed
qed

lemma dispatch_loop_buf [simp]:
  "dispatch_loop (cfg\<lparr> sc_rx_buf := b \<rparr>) f n cmd lo hi subs = dispatch_loop cfg f n cmd lo hi subs" "send_exception (cfg\<lparr> sc_rx_buf := b \<rparr>) = send_exception cfg"
proof -
  show s: "send_exception (cfg\<lparr> sc_rx_buf := b \<rparr>) = send_exception cfg" by (simp add: send_exception_def fun_eq_iff)
  have "dispatch_loop (cfg\<lparr> sc_rx_buf := b \<rparr>) f n cmd lo hi subs a m k w = dispatch_loop cfg f n cmd lo hi subs a m k w" for a m k w
    by (induction subs arbitrary: a m k w) (simp_all add: s case_prod_beta' cong: if_cong)
  then show "dispatch_loop (cfg\<lparr> sc_rx_buf := b \<rparr>) f n cmd lo hi subs = dispatch_loop cfg f n cmd lo hi subs" by (simp add: fun_eq_iff)
qed

lemma dispatch_buf [simp]: "dispatch (cfg\<lparr> sc_rx_buf := b \<rparr>) = dispatch cfg"
  by (intro ext) (unfold dispatch_def dispatch_loop_buf cfg_buf(1), rule refl)

lemma rtu_served_buf [simp]: "rtu_served (cfg\<lparr> sc_rx_buf := b \<rparr>) fs w w' = rtu_served cfg fs w w'"
  by (induction fs arbitrary: w) simp_all

abbreviation slave_cut :: "'e nx_modbus_rtu_slave \<Rightarrow> bytes \<Rightarrow> bytes list \<times> bytes" where
  "slave_cut s \<equiv> rtu_cut (sc_slave_addr (ms_cfg s)) (sc_accept_broadcast (ms_cfg s)) (sc_rx_size (ms_cfg s))"

text \<open>
  What is left after a call. A buffer of eleven bytes or more is never full; a shorter one may be, and then loses its first byte.
\<close>

definition slave_left :: "'e nx_modbus_rtu_slave \<Rightarrow> bytes \<Rightarrow> bytes" where
  "slave_left s r = (if length r = sc_rx_size (ms_cfg s) then tl r else r)"

lemma slave_rx_spec:
  assumes inv: "slave_inv s w H" and rd: "sc_read (ms_cfg s) = Some read"
    and x: "x = fst (read (sc_io_ctx (ms_cfg s)) (sc_rx_size (ms_cfg s) - ms_rx_len s) (rw_env w))"
    and cut: "slave_cut s (slave_pending s @ x) = (fs, r)"
  shows "\<exists>s' w' e. slave_rx s w = Some (s', w') \<and> slave_inv s' w' H \<and> bus_keeps (\<lambda>a. H a + hcur s a) w w' \<and>
    rtu_served (ms_cfg s) fs (w\<lparr> rw_env := e \<rparr>) w' \<and> slave_pending s' = slave_left s r \<and>
    (\<exists>b. ms_cfg s' = (ms_cfg s)\<lparr> sc_rx_buf := Some b \<rparr>) \<and> ms_tx_state s' = ms_tx_state s \<and> ms_tx_cur s' = ms_tx_cur s \<and> ms_gap_us s' = ms_gap_us s \<and>
    line_heard s x (snd (line_read s (rw_env w))) = (ms_last_bus_activity_us s', e)"
proof -
  let ?sz = "sc_rx_size (ms_cfg s)" and ?K = "\<lambda>a. H a + hcur s a"
  have cfg: "slave_cfg_ok (ms_cfg s)" "ms_rx_len s < ?sz" "slave_bus_ok (ms_cfg s) w" "ref_inv w ?K" "adu_ok w" "0 < ?sz"
    using inv by (auto simp: slave_inv_def slave_cfg_ok_def)
  obtain s1 e b where p: "slave_pull s w = Some (s1, w\<lparr> rw_env := e \<rparr>)" "ms_cfg s1 = (ms_cfg s)\<lparr> sc_rx_buf := Some b \<rparr>"
    "?sz \<le> length b" "ms_rx_len s1 = ms_rx_len s + length x" "ms_rx_len s1 \<le> ?sz" "take (ms_rx_len s1) b = slave_pending s @ x"
    "ms_tx_state s1 = ms_tx_state s" "ms_tx_cur s1 = ms_tx_cur s" "ms_gap_us s1 = ms_gap_us s"
    "line_heard s x (snd (line_read s (rw_env w))) = (ms_last_bus_activity_us s1, e)"
    using slave_pull_spec[OF cfg(1,2) rd x] by blast
  let ?w0 = "w\<lparr> rw_env := e \<rparr>" and ?n = "ms_rx_len s1"
  note rest = slave_frames.frames_rest[OF cut] and left = slave_frames.frames_drop[OF cut]
  have n: "length (slave_pending s @ x) = ?n" using p(3,5,6) by (metis length_take min_absorb2 order_trans)
  have good: "list_all (rtu_good (sc_slave_addr (ms_cfg s)) (sc_accept_broadcast (ms_cfg s)) ?sz) fs" using rest by blast
  obtain w' where w': "dispatch_all (ms_cfg s1) ?w0 fs = Some w'" "rtu_keeps ?K ?w0 w'" "rtu_served (ms_cfg s1) fs ?w0 w'"
    using dispatch_all_spec[of "ms_cfg s1" ?w0 ?K, OF _ _ _ good] cfg(3-5) slave_bus_shape[OF cfg(3), of ?w0] p(2) by auto
  have sl: "slave_slice (ms_cfg s1) b ?n 0 ?w0 = Some (?n - length r, w')"
    using slave_loop.slice_cut[of ?n b 0 "ms_cfg s1" ?w0] p(2,3,5,6) cut w'(1) by simp
  have front: "drop (?n - length r) (take ?n b) = r" "?n - length r \<le> ?n" "0 < ?sz" using left(2) cfg(6) unfolding p(6) n by simp_all
  obtain b3 m where c: "rtu_compact b ?n (?n - length r) ?sz = Some (b3, m)" "m < ?sz" "length b3 = length b" "take m b3 = slave_left s r"
    using rtu_compact_spec[OF front(2) p(5,3) front(3)] unfolding front(1) slave_left_def by blast
  have lb3: "?sz \<le> length b3" using c(3) p(3) by simp
  define s' where "s' = s1\<lparr> ms_cfg := (ms_cfg s1)\<lparr> sc_rx_buf := Some b3 \<rparr>, ms_rx_len := m \<rparr>"
  have buf: "sc_rx_buf (ms_cfg s1) = Some b" using p(2) by simp
  have run: "slave_rx s w = Some (s', w')"
    unfolding slave_rx_def p(1) bind.bind_lunit prod.case buf sl using c(1) p(2) by (simp add: s'_def)
  have keep: "ref_inv w' ?K" "adu_ok w'" "bus_keeps ?K w w'" using w'(2) by (simp_all add: rtu_keeps_def bus_keeps_def)
  have "slave_inputs_ok (ms_cfg s) w'"
    using inv rtu_served_written[OF w'(3)] by (auto simp: slave_inv_def slave_inputs_ok_def)
  moreover have "slave_bus_ok (ms_cfg s) w'" using slave_bus_shape[OF cfg(3)] keep(3) by (simp add: bus_keeps_def)
  moreover have "hcur s' = hcur s" by (simp add: hcur_def fun_eq_iff s'_def p(8))
  ultimately have "slave_inv s' w' H"
    using inv keep c(2) lb3 p(2,7,8) by (auto simp: slave_inv_def slave_cfg_ok_def slave_tx_ok_def s'_def)
  moreover have "rtu_served (ms_cfg s) fs ?w0 w'" "slave_pending s' = slave_left s r" "ms_cfg s' = (ms_cfg s)\<lparr> sc_rx_buf := Some b3 \<rparr>"
    "ms_tx_state s' = ms_tx_state s" "ms_tx_cur s' = ms_tx_cur s" "ms_gap_us s' = ms_gap_us s"
    "line_heard s x (snd (line_read s (rw_env w))) = (ms_last_bus_activity_us s', e)"
    using w'(3) c(4) p(2,7-10) by (simp_all add: s'_def slave_pending_def)
  ultimately show ?thesis using run keep(3) by blast
qed

section \<open>Transmitting\<close>

text \<open>
  The transmit machine, in the world the receiver left: nothing happens to it; or the transmission under way is over; or the first message of the queue is
  taken and given to the driver. A transmission is over when its message was let go of, the direction pin released and the activity noted.
\<close>

definition slave_stays :: "'e nx_modbus_rtu_slave \<Rightarrow> 'e nx_modbus_rtu_slave \<Rightarrow> bool" where
  "slave_stays s s' \<longleftrightarrow> ms_tx_state s' = ms_tx_state s \<and> ms_tx_cur s' = ms_tx_cur s \<and>
     ms_last_bus_activity_us s' = ms_last_bus_activity_us s"

definition slave_idles :: "'e nx_modbus_rtu_slave \<Rightarrow> u32 \<Rightarrow> bool" where
  "slave_idles s' t \<longleftrightarrow> ms_tx_state s' = TX_IDLE \<and> ms_tx_cur s' = 0 \<and> ms_last_bus_activity_us s' = t"

definition slave_done :: "'e nx_modbus_rtu_slave \<Rightarrow> nat \<Rightarrow> 'e rtu_world \<Rightarrow> 'e nx_modbus_rtu_slave \<Rightarrow> 'e rtu_world \<Rightarrow> bool" where
  "slave_done s m w s' w' \<longleftrightarrow> chan w' = chan w \<and>
     (\<exists>w1. nx_ref_msg_release (w\<lparr> rw_env := line_dir (ms_cfg s) False (rw_env w) \<rparr>) m = Some (NX_REF_MSG_OK, w1) \<and>
        slave_idles s' (fst (line_noted s (rw_env w1))) \<and> rw_env w' = snd (line_noted s (rw_env w1)))"

text \<open>
  Giving the message to the driver: a refused one is dropped, one that cannot be watched is over at once, and any other one is under way until the
  interface is not busy any more.
\<close>

definition slave_sent :: "'e nx_modbus_rtu_slave \<Rightarrow> 'e rtu_world \<Rightarrow> bytes \<Rightarrow> 'e nx_modbus_rtu_slave \<Rightarrow> 'e rtu_world \<Rightarrow> bool" where
  "slave_sent s w x s' w' \<longleftrightarrow> chan w' = (chan w)(sc_response_queue (ms_cfg s) := tl (chan w (sc_response_queue (ms_cfg s)))) \<and>
     (case line_write (ms_cfg s) x (rw_env w) of
        (accepted, e) \<Rightarrow>
          if \<not> accepted then slave_idles s' (ms_last_bus_activity_us s)
          else if sc_is_busy (ms_cfg s) = None then \<exists>m w1. payload w1 m = Some x \<and> rw_env w1 = e \<and> slave_done s m w1 s' w'
          else ms_tx_state s' = TX_SENDING \<and> payload w' (ms_tx_cur s') = Some x \<and> rw_env w' = e \<and>
            ms_last_bus_activity_us s' = ms_last_bus_activity_us s)"

text \<open>Which of them it is, is decided by the state, the queue, the interface and the silence of the bus.\<close>

definition slave_transmits :: "'e nx_modbus_rtu_slave \<Rightarrow> 'e rtu_world \<Rightarrow> 'e nx_modbus_rtu_slave \<Rightarrow> 'e rtu_world \<Rightarrow> bool" where
  "slave_transmits s w s' w' \<longleftrightarrow>
     (if ms_tx_state s = TX_SENDING then
        (case the (sc_is_busy (ms_cfg s)) (sc_io_ctx (ms_cfg s)) (rw_env w) of
           (busy, e) \<Rightarrow> if busy then slave_stays s s' \<and> w' = w\<lparr> rw_env := e \<rparr> else slave_done s (ms_tx_cur s) (w\<lparr> rw_env := e \<rparr>) s' w')
      else if chan w (sc_response_queue (ms_cfg s)) = [] then slave_stays s s' \<and> w' = w
      else (case line_free s (rw_env w) of
              (free, e) \<Rightarrow>
                if free then slave_sent s (w\<lparr> rw_env := e \<rparr>) (the (hd (chan w (sc_response_queue (ms_cfg s))))) s' w'
                else slave_stays s s' \<and> w' = w\<lparr> rw_env := e \<rparr>))"

lemma slave_transmits_cong:
  assumes "\<exists>b. ms_cfg s2 = (ms_cfg s)\<lparr> sc_rx_buf := b \<rparr>" "ms_gap_us s2 = ms_gap_us s" "ms_last_bus_activity_us s2 = ms_last_bus_activity_us s"
    "ms_tx_state s2 = ms_tx_state s" "ms_tx_cur s2 = ms_tx_cur s"
  shows "slave_transmits s2 = slave_transmits s"
proof -
  note l = line_noted_cong[OF assms(1-3)]
  obtain b where b: "ms_cfg s2 = (ms_cfg s)\<lparr> sc_rx_buf := b \<rparr>" using assms(1) by blast
  have c: "sc_response_queue (ms_cfg s2) = sc_response_queue (ms_cfg s)" "sc_is_busy (ms_cfg s2) = sc_is_busy (ms_cfg s)"
    "sc_io_ctx (ms_cfg s2) = sc_io_ctx (ms_cfg s)" by (simp_all add: b)
  have d: "slave_done s2 = slave_done s" "slave_stays s2 = slave_stays s" by (simp_all add: slave_done_def slave_stays_def fun_eq_iff l assms(3-5))
  have "slave_sent s2 = slave_sent s" by (simp only: slave_sent_def fun_eq_iff l c d assms(3)) simp
  then show ?thesis by (simp only: slave_transmits_def fun_eq_iff l c d assms(4,5)) simp
qed

lemma slave_stamp_fields:
  assumes "slave_stamp s e = (s1, e1)"
  shows "ms_cfg s1 = ms_cfg s" "ms_rx_len s1 = ms_rx_len s" "ms_gap_us s1 = ms_gap_us s" "ms_tx_state s1 = ms_tx_state s"
    "ms_tx_cur s1 = ms_tx_cur s"
  using assms by (auto simp: slave_stamp_def split: option.splits if_splits prod.splits)

lemma slave_tx_finish_spec:
  assumes "ref_inv w (\<lambda>a. H a + hcur s a)" "adu_ok w" "ms_tx_cur s \<noteq> 0"
  shows "\<exists>s' w'. slave_tx_finish s w = Some (s', w') \<and> ms_cfg s' = ms_cfg s \<and> ms_rx_len s' = ms_rx_len s \<and> ms_gap_us s' = ms_gap_us s \<and>
    ms_tx_state s' = TX_IDLE \<and> ms_tx_cur s' = 0 \<and> ref_inv w' H \<and> adu_ok w' \<and> chan w' = chan w \<and> bus_shape w' = bus_shape w \<and>
    payload w' = payload w \<and> msg_room w' = msg_room w \<and> queued w' = queued w \<and> slave_done s (ms_tx_cur s) w s' w'"
proof -
  let ?m = "ms_tx_cur s" and ?K = "\<lambda>a. H a + hcur s a"
  let ?w1 = "w\<lparr> rw_env := slave_dir (ms_cfg s) False (rw_env w) \<rparr>"
  have inv: "ref_inv ?w1 ?K" "0 < ?K ?m" using assms by (simp_all add: hcur_def)
  from bus_release[OF inv] obtain w2 where w2: "nx_ref_msg_release ?w1 ?m = Some (NX_REF_MSG_OK, w2)" "ref_inv w2 (?K(?m := ?K ?m - 1))"
    "chan w2 = chan ?w1" "bus_shape w2 = bus_shape ?w1" "payload w2 = payload ?w1" "msg_room w2 = msg_room ?w1" "queued w2 = queued ?w1"
    by blast
  have "?K(?m := ?K ?m - 1) = H" using assms(3) by (auto simp: hcur_def fun_eq_iff)
  then have k: "ref_inv w2 H" using w2(2) by simp
  obtain s2 e where st: "slave_stamp (s\<lparr> ms_tx_cur := 0, ms_tx_state := TX_IDLE \<rparr>) (rw_env w2) = (s2, e)" by fastforce
  have run: "slave_tx_finish s w = Some (s2, w2\<lparr> rw_env := e \<rparr>)" using w2(1) st by (simp add: slave_tx_finish_def)
  have "adu_ok w2" by (rule adu_ok_same[OF _ w2(5,6)]) (use assms(2) in simp)
  moreover have "slave_done s ?m w s2 (w2\<lparr> rw_env := e \<rparr>)"
  proof -
    let ?s = "s\<lparr> ms_tx_cur := 0, ms_tx_state := TX_IDLE \<rparr>"
    have "line_noted ?s = line_noted s" by (rule line_noted_cong(1)) (auto intro!: exI[of _ "sc_rx_buf (ms_cfg s)"])
    then have "ms_last_bus_activity_us s2 = fst (line_noted s (rw_env w2))" "e = snd (line_noted s (rw_env w2))"
      using st by (auto simp: line_noted_stamp)
    then show ?thesis using w2(1,3) slave_stamp_fields[OF st] by (simp add: slave_done_def slave_idles_def slave_dir_line)
  qed
  ultimately show ?thesis using run slave_stamp_fields[OF st] k w2(3-7) by (intro exI[of _ s2] exI[of _ "w2\<lparr> rw_env := e \<rparr>"]) simp
qed

lemma slave_inv_keeps:
  assumes "slave_inv s w H" "ms_cfg s' = ms_cfg s" "ms_rx_len s' = ms_rx_len s" "bus_shape w' = bus_shape w" "adu_ok w'"
    "slave_tx_ok s'" "ref_inv w' (\<lambda>a. H a + hcur s' a)" "slave_inputs_ok (ms_cfg s) w'"
  shows "slave_inv s' w' H"
  using assms slave_bus_shape[OF _ assms(4)] by (simp add: slave_inv_def)

text \<open>Taking the next message off the response queue.\<close>

lemma slave_take:
  assumes inv: "slave_inv s w H" and idle: "ms_tx_state s = TX_IDLE" and ch: "chan w (sc_response_queue (ms_cfg s)) = m # rest"
  obtains a x w1 where "m = Some x" "ref_msg_consume (w\<lparr> rw_env := e \<rparr>) (sc_response_queue (ms_cfg s)) = Some (Some a, w1)" "a \<noteq> 0"
    "ref_inv w1 (\<lambda>b. H b + (if b = a then 1 else 0))" "chan w1 = (chan w)(sc_response_queue (ms_cfg s) := rest)"
    "bus_shape w1 = bus_shape w" "payload w1 = payload w" "msg_room w1 = msg_room w" "rw_env w1 = e" "adu_ok w1"
    "nx_ref_msg_len w1 a = Some (length x)" "msg_load w1 a = Some x" "payload w1 a = Some x"
proof -
  let ?q = "sc_response_queue (ms_cfg s)" and ?w = "w\<lparr> rw_env := e \<rparr>"
  have "hcur s = (\<lambda>a. 0)" using inv idle by (auto simp: slave_inv_def slave_tx_ok_def hcur_def)
  then have ref: "ref_inv ?w H" and adu: "adu_ok w" using inv by (simp_all add: slave_inv_def)
  obtain cap where cap: "chan_cap ?w ?q = Some cap" using inv by (auto simp: slave_inv_def slave_bus_ok_def)
  have "chan ?w ?q \<noteq> []" using ch by simp
  then obtain a w1 where c: "ref_msg_consume ?w ?q = Some (Some a, w1)" "ref_inv w1 (H(a := H a + 1))"
    "chan w1 = (chan ?w)(?q := tl (chan ?w ?q))" "payload ?w a = hd (chan ?w ?q)" "bus_shape w1 = bus_shape ?w"
    "payload w1 = payload ?w" "msg_room w1 = msg_room ?w" "rw_env w1 = rw_env ?w"
    using bus_consume[OF ref cap] by blast
  have eq: "H(a := H a + 1) = (\<lambda>b. H b + (if b = a then 1 else 0))" by auto
  have "None \<notin> set (chan w ?q)" using inv by (simp add: slave_inv_def slave_inputs_ok_def)
  then obtain x where x: "m = Some x" "payload w1 a = Some x" using ch c(4,6) by (cases "payload w a") auto
  have "0 < (H(a := H a + 1)) a" "0 < (H(a := H a + 1)) a + queued w1 a" by simp_all
  note held = this
  obtain r where r: "rw_msgs w1 a = Some r" "0 < a" by (rule ref_inv_live[OF c(2) held(2)])
  have adu1: "adu_ok w1" by (rule adu_ok_same[OF adu]) (simp_all add: c(6,7))
  have "msg_room w1 a = length x" using adu1 x(2) by (simp add: adu_ok_def)
  then have "nx_ref_msg_len w1 a = Some (length x)" using r by (simp add: nx_ref_msg_len_def msg_room_def)
  moreover have "msg_load w1 a = Some x" using msg_load_payload[OF c(2) held(1)] x(2) by simp
  moreover have "ref_inv w1 (\<lambda>b. H b + (if b = a then 1 else 0))" using c(2) by (simp only: eq)
  ultimately show ?thesis using that[of x a w1] c(1,3,5-8) ch r(2) x adu1 by simp
qed

lemma slave_tx_idle_spec:
  assumes inv: "slave_inv s w H" and idle: "ms_tx_state s = TX_IDLE"
  shows "\<exists>s' w'. slave_tx_idle s w = Some (s', w') \<and> slave_inv s' w' H \<and> held_kept H w w' \<and> ms_cfg s' = ms_cfg s \<and>
    ms_rx_len s' = ms_rx_len s \<and> ms_gap_us s' = ms_gap_us s \<and> slave_transmits s w s' w'"
proof -
  let ?cfg = "ms_cfg s" and ?q = "sc_response_queue (ms_cfg s)"
  have cur: "ms_tx_cur s = 0" using inv idle by (auto simp: slave_inv_def slave_tx_ok_def)
  obtain qo where qo: "rw_queues w ?q = Some qo" using inv by (auto simp: slave_inv_def slave_bus_ok_def chan_cap_def)
  have empty: "nx_queue_is_empty (Some qo) \<longleftrightarrow> chan w ?q = []" using qo by (simp add: nx_queue_is_empty_def chan_def queue_items_def)
  have stay: "slave_inv s (w\<lparr> rw_env := e \<rparr>) H" for e
    by (rule slave_inv_keeps[OF inv]) (use inv in \<open>simp_all add: slave_inv_def slave_inputs_ok_def\<close>)
  have kept0: "held_kept H w (w\<lparr> rw_env := e \<rparr>)" for e
    by (simp add: held_kept_def)
  obtain busy e1 where busy: "slave_busy ?cfg (rw_env w) = (busy, e1)" by fastforce
  obtain silent e2 where silent: "slave_silent s e1 = (silent, e2)" by fastforce
  note free = line_free_parts[OF busy silent]
  have tx: "ms_tx_state s \<noteq> TX_SENDING" using idle by simp
  show ?thesis
  proof (cases "chan w ?q = [] \<or> busy \<or> \<not> silent")
    case True
    define e where "e = (if chan w ?q = [] then rw_env w else if busy then e1 else e2)"
    have "slave_tx_idle s w = Some (s, w\<lparr> rw_env := e \<rparr>)"
      using True qo empty busy silent by (auto simp: slave_tx_idle_def Let_def e_def)
    moreover have "slave_transmits s w s (w\<lparr> rw_env := e \<rparr>)"
      using True by (auto simp: slave_transmits_def tx slave_stays_def free e_def)
    ultimately show ?thesis using stay[of e] kept0[of e] by (intro exI[of _ s] exI[of _ "w\<lparr> rw_env := e \<rparr>"]) simp
  next
    case False
    then obtain m rest where ch: "chan w ?q = m # rest" by (cases "chan w ?q") auto
    have go: "line_free s (rw_env w) = (True, e2)" using False free by simp
    obtain a x w1 where t: "m = Some x" "ref_msg_consume (w\<lparr> rw_env := e2 \<rparr>) ?q = Some (Some a, w1)" "a \<noteq> 0"
      "ref_inv w1 (\<lambda>b. H b + (if b = a then 1 else 0))" "chan w1 = (chan w)(?q := rest)"
      "bus_shape w1 = bus_shape w" "payload w1 = payload w" "msg_room w1 = msg_room w" "rw_env w1 = e2" "adu_ok w1"
      "nx_ref_msg_len w1 a = Some (length x)" "msg_load w1 a = Some x" "payload w1 a = Some x"
      by (rule slave_take[OF inv idle ch])
    obtain wrf where wrf: "sc_write ?cfg = Some wrf" using inv by (auto simp: slave_inv_def slave_cfg_ok_def)
    obtain accepted e4 where wr: "wrf (sc_io_ctx ?cfg) x (slave_dir ?cfg True e2) = (accepted, e4)" by fastforce
    have writes: "line_write ?cfg x e2 = (accepted, e4)" using wrf wr by (simp add: line_write_def slave_dir_line)
    have sent: "slave_transmits s w s' w'" if "slave_sent s (w\<lparr> rw_env := e2 \<rparr>) x s' w'" for s' w'
      using that ch t(1) by (simp add: slave_transmits_def tx go)
    define s1 where "s1 = s\<lparr> ms_tx_cur := a \<rparr>"
    define w2 where "w2 = w1\<lparr> rw_env := e4 \<rparr>"
    have run: "slave_tx_idle s w =
        (if \<not> accepted then do {
            (_, w4) \<leftarrow> nx_ref_msg_release (w2\<lparr> rw_env := slave_dir ?cfg False e4 \<rparr>) a;
            Some (s1\<lparr> ms_tx_cur := 0, ms_tx_state := TX_IDLE \<rparr>, w4) }
         else if sc_is_busy ?cfg = None then slave_tx_finish s1 w2
         else Some (s1\<lparr> ms_tx_state := TX_SENDING \<rparr>, w2))"
      unfolding slave_tx_idle_def Let_def qo bind.bind_lunit busy silent prod.case
      using False empty by (simp add: t wrf wr mem_read_def s1_def w2_def)
    have hc: "hcur s1 = (\<lambda>b. if b = a then 1 else 0)" using t(3) by (auto simp: hcur_def s1_def)
    have ref2: "ref_inv w2 (\<lambda>b. H b + hcur s1 b)" using t(4) by (simp add: w2_def hc)
    have inputs: "slave_inputs_ok ?cfg w'" if "chan w' = chan w1" for w'
      using inv ch that t(5) by (simp add: slave_inv_def slave_inputs_ok_def)
    have kept: "held_kept H w w'" if "bus_shape w' = bus_shape w1" "payload w' = payload w1" "msg_room w' = msg_room w1" for w'
      using that t(6-8) by (simp add: held_kept_def)
    have finish: "\<exists>s' w'. Some (s', w') = r \<and> slave_inv s' w' H \<and> held_kept H w w' \<and> ms_cfg s' = ms_cfg s \<and>
        ms_rx_len s' = ms_rx_len s \<and> ms_gap_us s' = ms_gap_us s \<and> slave_transmits s w s' w'"
      if "r = Some (s', w')" "ms_cfg s' = ?cfg" "ms_rx_len s' = ms_rx_len s" "ms_gap_us s' = ms_gap_us s" "ms_tx_state s' = TX_IDLE" "ms_tx_cur s' = 0"
        "ref_inv w' H" "adu_ok w'" "chan w' = chan w1" "bus_shape w' = bus_shape w1" "payload w' = payload w1" "msg_room w' = msg_room w1"
        "slave_sent s (w\<lparr> rw_env := e2 \<rparr>) x s' w'" for r s' w'
    proof -
      have "slave_inv s' w' H"
        by (rule slave_inv_keeps[OF inv that(2,3)]) (use that t(6) inputs in \<open>simp_all add: slave_tx_ok_def hcur_def\<close>)
      then show ?thesis using that kept sent by blast
    qed
    consider "\<not> accepted" | "accepted" "sc_is_busy ?cfg = None" | "accepted" "sc_is_busy ?cfg \<noteq> None" by blast
    then show ?thesis
    proof cases
      case 1
      let ?w3 = "w2\<lparr> rw_env := slave_dir ?cfg False e4 \<rparr>"
      have ref3: "ref_inv ?w3 (\<lambda>b. H b + hcur s1 b)" "0 < H a + hcur s1 a" using ref2 by (simp_all add: hc)
      from bus_release[OF ref3(1), of a] ref3(2) obtain w4 where w4: "nx_ref_msg_release ?w3 a = Some (NX_REF_MSG_OK, w4)"
        "ref_inv w4 ((\<lambda>b. H b + hcur s1 b)(a := H a + hcur s1 a - 1))" "chan w4 = chan ?w3" "bus_shape w4 = bus_shape ?w3"
        "payload w4 = payload ?w3" "msg_room w4 = msg_room ?w3" by blast
      have "(\<lambda>b. H b + hcur s1 b)(a := H a + hcur s1 a - 1) = H" by (auto simp: hc)
      then have "ref_inv w4 H" using w4(2) by simp
      moreover have "adu_ok w4" by (rule adu_ok_same[OF t(10)]) (simp_all add: w4 w2_def)
      moreover have "slave_tx_idle s w = Some (s1\<lparr> ms_tx_cur := 0, ms_tx_state := TX_IDLE \<rparr>, w4)" using run 1 w4(1) by simp
      moreover have "slave_sent s (w\<lparr> rw_env := e2 \<rparr>) x (s1\<lparr> ms_tx_cur := 0, ms_tx_state := TX_IDLE \<rparr>) w4"
        using writes 1 w4(3) ch t(5) by (simp add: slave_sent_def slave_idles_def s1_def w2_def)
      ultimately show ?thesis
        using finish[of "slave_tx_idle s w" "s1\<lparr> ms_tx_cur := 0, ms_tx_state := TX_IDLE \<rparr>" w4] w4(3-6) by (simp add: s1_def w2_def)
    next
      case 2
      have "adu_ok w2" "ms_tx_cur s1 \<noteq> 0" using t(3,10) by (simp_all add: w2_def s1_def)
      from slave_tx_finish_spec[OF ref2 this] obtain s' w' where "slave_tx_finish s1 w2 = Some (s', w')" "ms_cfg s' = ms_cfg s1"
        "ms_rx_len s' = ms_rx_len s1" "ms_gap_us s' = ms_gap_us s1" "ms_tx_state s' = TX_IDLE" "ms_tx_cur s' = 0" "ref_inv w' H" "adu_ok w'"
        "chan w' = chan w2" "bus_shape w' = bus_shape w2" "payload w' = payload w2" "msg_room w' = msg_room w2"
        "slave_done s1 (ms_tx_cur s1) w2 s' w'" by blast
      moreover have "line_noted s1 = line_noted s" "line_dir (ms_cfg s1) = line_dir ?cfg"
        by (rule line_noted_cong; auto simp: s1_def intro!: exI[of _ "sc_rx_buf ?cfg"])+
      then have "slave_done s1 = slave_done s" by (simp add: slave_done_def fun_eq_iff)
      then have "slave_sent s (w\<lparr> rw_env := e2 \<rparr>) x s' w'"
        using writes 2 ch t(5,13) calculation(9,13) by (auto simp: slave_sent_def s1_def w2_def intro!: exI[of _ a] exI[of _ w2])
      ultimately show ?thesis using finish[of "slave_tx_idle s w" s' w'] 2 run by (simp add: s1_def w2_def)
    next
      case 3
      let ?s = "s1\<lparr> ms_tx_state := TX_SENDING \<rparr>"
      have r: "slave_tx_idle s w = Some (?s, w2)" using run 3 by simp
      have "hcur ?s = hcur s1" by (simp add: hcur_def fun_eq_iff)
      then have "slave_inv ?s w2 H"
        by (intro slave_inv_keeps[OF inv]) (use 3 t(3,6,10) ref2 inputs[of w2] in \<open>simp_all add: slave_tx_ok_def s1_def w2_def\<close>)
      moreover have "held_kept H w w2" by (rule kept) (simp_all add: w2_def)
      moreover have "slave_transmits s w ?s w2"
        by (rule sent) (use ch t(5,13) 3 writes in \<open>auto simp: slave_sent_def s1_def w2_def\<close>)
      ultimately show ?thesis using r by (intro exI[of _ ?s] exI[of _ w2]) (auto simp: s1_def)
    qed
  qed
qed

lemma slave_tx_spec:
  assumes inv: "slave_inv s w H"
  shows "\<exists>s' w'. slave_tx s w = Some (s', w') \<and> slave_inv s' w' H \<and> held_kept H w w' \<and> ms_cfg s' = ms_cfg s \<and>
    ms_rx_len s' = ms_rx_len s \<and> ms_gap_us s' = ms_gap_us s \<and> slave_transmits s w s' w'"
proof (cases "ms_tx_state s = TX_IDLE")
  case True
  then show ?thesis using slave_tx_idle_spec[OF inv] by (simp add: slave_tx_def)
next
  case False
  then obtain is_busy where b: "ms_tx_state s = TX_SENDING" "ms_tx_cur s \<noteq> 0" "sc_is_busy (ms_cfg s) = Some is_busy"
    using inv by (auto simp: slave_inv_def slave_tx_ok_def)
  obtain busy e where e: "is_busy (sc_io_ctx (ms_cfg s)) (rw_env w) = (busy, e)" by fastforce
  let ?w = "w\<lparr> rw_env := e \<rparr>"
  have inv1: "slave_inv s ?w H"
    by (rule slave_inv_keeps[OF inv]) (use inv in \<open>simp_all add: slave_inv_def slave_inputs_ok_def\<close>)
  have run: "slave_tx s w = (if \<not> busy then slave_tx_finish s ?w else Some (s, ?w))"
    using b e by (simp add: slave_tx_def slave_tx_sending_def)
  show ?thesis
  proof (cases busy)
    case True
    then show ?thesis using run inv1 b e
      by (intro exI[of _ s] exI[of _ ?w]) (simp add: slave_transmits_def slave_stays_def held_kept_def)
  next
    case False
    have "ref_inv ?w (\<lambda>a. H a + hcur s a)" "adu_ok ?w" using inv1 by (simp_all add: slave_inv_def)
    from slave_tx_finish_spec[OF this b(2)] obtain s' w' where f: "slave_tx_finish s ?w = Some (s', w')" "ms_cfg s' = ms_cfg s"
      "ms_rx_len s' = ms_rx_len s" "ms_gap_us s' = ms_gap_us s" "ms_tx_state s' = TX_IDLE" "ms_tx_cur s' = 0" "ref_inv w' H" "adu_ok w'"
      "chan w' = chan ?w" "bus_shape w' = bus_shape ?w" "payload w' = payload ?w" "msg_room w' = msg_room ?w"
      "slave_done s (ms_tx_cur s) ?w s' w'" by blast
    have "slave_inv s' w' H"
      by (rule slave_inv_keeps[OF inv f(2,3)]) (use inv f in \<open>simp_all add: slave_tx_ok_def hcur_def slave_inv_def slave_inputs_ok_def\<close>)
    moreover have "slave_transmits s w s' w'" using False b e f(13) by (simp add: slave_transmits_def)
    ultimately show ?thesis using run False f by (intro exI[of _ s'] exI[of _ w']) (simp add: held_kept_def)
  qed
qed

section \<open>One call\<close>

text \<open>
  What the bytes read by a call do: their reception is noted, the frames they complete are served, the rest is kept, and the transmitter goes on
  from the world the receiver left, with the time that was noted.
\<close>

definition slave_call ::
  "'e nx_modbus_rtu_slave \<Rightarrow> 'e rtu_world \<Rightarrow> bytes \<Rightarrow> 'e nx_modbus_rtu_slave \<Rightarrow> 'e rtu_world \<Rightarrow> bool" where
  "slave_call s w x s' w' \<longleftrightarrow>
     (case (slave_cut s (slave_pending s @ x), line_heard s x (snd (line_read s (rw_env w)))) of
        ((fs, r), (t, e)) \<Rightarrow>
          slave_pending s' = slave_left s r \<and>
          (\<exists>w1. rtu_served (ms_cfg s) fs (w\<lparr> rw_env := e \<rparr>) w1 \<and> slave_transmits (s\<lparr> ms_last_bus_activity_us := t \<rparr>) w1 s' w'))"

lemma nx_modbus_rtu_slave_process_spec:
  assumes inv: "slave_inv s w H" and rd: "sc_read (ms_cfg s) = Some read"
    and x: "x = fst (read (sc_io_ctx (ms_cfg s)) (sc_rx_size (ms_cfg s) - ms_rx_len s) (rw_env w))"
  shows "\<exists>s' w'. nx_modbus_rtu_slave_process (Some s) w = Some (Some s', w') \<and> slave_inv s' w' H \<and> held_kept H w w' \<and>
    (\<exists>b. ms_cfg s' = (ms_cfg s)\<lparr> sc_rx_buf := Some b \<rparr>) \<and> slave_call s w x s' w'"
proof -
  obtain fs r where cut: "slave_cut s (slave_pending s @ x) = (fs, r)" by fastforce
  obtain s1 w1 e b where r: "slave_rx s w = Some (s1, w1)" "slave_inv s1 w1 H" "bus_keeps (\<lambda>a. H a + hcur s a) w w1"
    "rtu_served (ms_cfg s) fs (w\<lparr> rw_env := e \<rparr>) w1" "slave_pending s1 = slave_left s r"
    "ms_cfg s1 = (ms_cfg s)\<lparr> sc_rx_buf := Some b \<rparr>" "ms_tx_state s1 = ms_tx_state s" "ms_tx_cur s1 = ms_tx_cur s" "ms_gap_us s1 = ms_gap_us s"
    "line_heard s x (snd (line_read s (rw_env w))) = (ms_last_bus_activity_us s1, e)"
    using slave_rx_spec[OF inv rd x cut] by blast
  have cong: "slave_transmits (s\<lparr> ms_last_bus_activity_us := ms_last_bus_activity_us s1 \<rparr>) = slave_transmits s1"
    by (rule slave_transmits_cong[symmetric]) (use r(6-9) in auto)
  obtain s' w' where t: "slave_tx s1 w1 = Some (s', w')" "slave_inv s' w' H" "held_kept H w1 w'" "ms_cfg s' = ms_cfg s1"
    "ms_rx_len s' = ms_rx_len s1" "slave_transmits s1 w1 s' w'"
    using slave_tx_spec[OF r(2)] by blast
  have "held_kept H w w1" by (rule bus_keeps_held[OF r(3)]) simp
  then have "held_kept H w w'" using t(3) by (rule held_kept_trans)
  moreover have "slave_pending s' = slave_left s r" using r(5) t(4,5) by (simp add: slave_pending_def)
  moreover have "nx_modbus_rtu_slave_process (Some s) w = Some (Some s', w')" by (simp add: nx_modbus_rtu_slave_process_def r(1) t(1))
  moreover have "ms_cfg s' = (ms_cfg s)\<lparr> sc_rx_buf := Some b \<rparr>" using r(6) t(4) by simp
  moreover have "slave_call s w x s' w'" unfolding slave_call_def cut r(10) prod.case cong using calculation(2) r(4) t(6) by blast
  ultimately show ?thesis using t(2) by blast
qed

end
