(* ===== verification/Nx_Modbus_Polling.thy ===== *)
theory Nx_Modbus_Polling
  imports Nx_Modbus_Requests Nx_Modbus_Contract
begin

text \<open>
  What \<open>src/middleware/nx_modbus_rtu_master.h\<close> promises: the invariant of a running master, and what a call of
  \<open>nx_modbus_rtu_master_process\<close> receives, dispatches and transmits. Reading the line and transmitting are what the slave does, with
  the request queue in the place of the response queue; they are inherited from it through a view of the master as a line driver.
\<close>

section \<open>The line of the master\<close>

definition line_of :: "'e nx_modbus_rtu_master \<Rightarrow> 'e nx_modbus_rtu_slave" where
  "line_of m =
     (let c = mm_cfg m
      in \<lparr> ms_cfg = \<lparr> sc_slave_addr = 1, sc_baud_rate = mc_baud_rate c, sc_accept_broadcast = False, sc_pool = mc_pool c,
             sc_rx_buf = mc_rx_buf c, sc_rx_size = mc_rx_size c, sc_subs = None, sc_subs_count = 0,
             sc_response_queue = mc_request_queue c, sc_read = mc_read c, sc_write = mc_write c, sc_is_busy = mc_is_busy c,
             sc_dir_tx = mc_dir_tx c, sc_get_us = mc_get_us c, sc_io_ctx = mc_io_ctx c, sc_dir_ctx = mc_dir_ctx c \<rparr>,
           ms_rx_len = mm_rx_len m, ms_gap_us = mm_gap_us m, ms_tx_state = mm_tx_state m,
           ms_last_bus_activity_us = mm_last_bus_activity_us m, ms_tx_cur = mm_tx_cur m \<rparr>)"

text \<open>The master with the state of its line replaced.\<close>

definition with_line :: "'e nx_modbus_rtu_master \<Rightarrow> 'e nx_modbus_rtu_slave \<Rightarrow> 'e nx_modbus_rtu_master" where
  "with_line m s = m\<lparr> mm_cfg := (mm_cfg m)\<lparr> mc_rx_buf := sc_rx_buf (ms_cfg s) \<rparr>, mm_rx_len := ms_rx_len s,
     mm_tx_state := ms_tx_state s, mm_last_bus_activity_us := ms_last_bus_activity_us s, mm_tx_cur := ms_tx_cur s \<rparr>"

lemma line_of_sel [simp]:
  "sc_rx_buf (ms_cfg (line_of m)) = mc_rx_buf (mm_cfg m)" "sc_rx_size (ms_cfg (line_of m)) = mc_rx_size (mm_cfg m)"
  "sc_pool (ms_cfg (line_of m)) = mc_pool (mm_cfg m)" "sc_response_queue (ms_cfg (line_of m)) = mc_request_queue (mm_cfg m)"
  "sc_read (ms_cfg (line_of m)) = mc_read (mm_cfg m)" "sc_write (ms_cfg (line_of m)) = mc_write (mm_cfg m)"
  "sc_is_busy (ms_cfg (line_of m)) = mc_is_busy (mm_cfg m)" "sc_dir_tx (ms_cfg (line_of m)) = mc_dir_tx (mm_cfg m)"
  "sc_get_us (ms_cfg (line_of m)) = mc_get_us (mm_cfg m)" "sc_io_ctx (ms_cfg (line_of m)) = mc_io_ctx (mm_cfg m)"
  "sc_dir_ctx (ms_cfg (line_of m)) = mc_dir_ctx (mm_cfg m)" "slave_subs (ms_cfg (line_of m)) = Some []"
  "ms_rx_len (line_of m) = mm_rx_len m" "ms_gap_us (line_of m) = mm_gap_us m" "ms_tx_state (line_of m) = mm_tx_state m"
  "ms_last_bus_activity_us (line_of m) = mm_last_bus_activity_us m" "ms_tx_cur (line_of m) = mm_tx_cur m"
  by (simp_all add: line_of_def Let_def slave_subs_def)

lemma line_of_upd [simp]:
  "line_of (m\<lparr> mm_tx_cur := a \<rparr>) = (line_of m)\<lparr> ms_tx_cur := a \<rparr>"
  "line_of (m\<lparr> mm_tx_state := t \<rparr>) = (line_of m)\<lparr> ms_tx_state := t \<rparr>"
  "line_of (m\<lparr> mm_last_bus_activity_us := l \<rparr>) = (line_of m)\<lparr> ms_last_bus_activity_us := l \<rparr>"
  "line_of (m\<lparr> mm_rx_len := n \<rparr>) = (line_of m)\<lparr> ms_rx_len := n \<rparr>"
  by (simp_all add: line_of_def Let_def)

lemma line_of_buf [simp]:
  "line_of (m\<lparr> mm_cfg := (mm_cfg m)\<lparr> mc_rx_buf := b \<rparr> \<rparr>) = (line_of m)\<lparr> ms_cfg := (ms_cfg (line_of m))\<lparr> sc_rx_buf := b \<rparr> \<rparr>"
  by (simp add: line_of_def Let_def)

lemma with_line_same [simp]: "with_line m (line_of m) = m"
  by (simp add: with_line_def)

lemma with_line_upd [simp]:
  "with_line m (s\<lparr> ms_tx_cur := a \<rparr>) = (with_line m s)\<lparr> mm_tx_cur := a \<rparr>"
  "with_line m (s\<lparr> ms_tx_state := t \<rparr>) = (with_line m s)\<lparr> mm_tx_state := t \<rparr>"
  "with_line m (s\<lparr> ms_last_bus_activity_us := l \<rparr>) = (with_line m s)\<lparr> mm_last_bus_activity_us := l \<rparr>"
  "with_line m (s\<lparr> ms_rx_len := n \<rparr>) = (with_line m s)\<lparr> mm_rx_len := n \<rparr>"
  "with_line m (s\<lparr> ms_cfg := (ms_cfg s)\<lparr> sc_rx_buf := b \<rparr> \<rparr>) = (with_line m s)\<lparr> mm_cfg := (mm_cfg m)\<lparr> mc_rx_buf := b \<rparr> \<rparr>"
  by (simp_all add: with_line_def)

text \<open>Going to the line and back: the two views agree where the rest of the configuration and the gap do.\<close>

lemma line_of_with:
  assumes "\<exists>b. ms_cfg s = (ms_cfg (line_of m))\<lparr> sc_rx_buf := b \<rparr>" "ms_gap_us s = mm_gap_us m"
  shows "line_of (with_line m s) = s"
  using assms by (cases s) (auto simp: line_of_def with_line_def Let_def)

section \<open>The parts agree\<close>

lemma master_dir_line: "master_dir (mm_cfg m) = slave_dir (ms_cfg (line_of m))"
  by (simp add: master_dir_def slave_dir_def fun_eq_iff cong: option.case_cong)

lemma master_busy_line: "master_busy (mm_cfg m) = slave_busy (ms_cfg (line_of m))"
  by (simp add: master_busy_def slave_busy_def fun_eq_iff cong: option.case_cong)

lemma master_silent_line: "master_silent m = slave_silent (line_of m)"
  by (simp add: master_silent_def slave_silent_def fun_eq_iff Let_def split: option.split)

lemma master_stamp_line: "master_stamp m e = map_prod (with_line m) id (slave_stamp (line_of m) e)"
  by (simp add: master_stamp_def slave_stamp_def Let_def case_prod_beta split: option.split)

lemma with_line_again [simp]:
  "with_line (m\<lparr> mm_cfg := (mm_cfg m)\<lparr> mc_rx_buf := b \<rparr> \<rparr>) = with_line m" "with_line (m\<lparr> mm_tx_cur := a \<rparr>) = with_line m"
  "with_line (m\<lparr> mm_tx_state := t \<rparr>) = with_line m"
  by (simp_all add: with_line_def fun_eq_iff)

lemma with_line_sel [simp]:
  "mm_rx_len (with_line m s) = ms_rx_len s" "mm_tx_state (with_line m s) = ms_tx_state s" "mm_tx_cur (with_line m s) = ms_tx_cur s"
  "mm_gap_us (with_line m s) = mm_gap_us m" "mm_cfg (with_line m s) = (mm_cfg m)\<lparr> mc_rx_buf := sc_rx_buf (ms_cfg s) \<rparr>"
  by (simp_all add: with_line_def)

lemma master_pull_line: "master_pull m w = map_option (map_prod (with_line m) id) (slave_pull (line_of m) w)"
proof (cases "mm_rx_len m < mc_rx_size (mm_cfg m)")
  case True
  show ?thesis
  proof (cases "mc_read (mm_cfg m)")
    case None
    then show ?thesis using True by (simp add: master_pull_def slave_pull_def)
  next
    case (Some read)
    obtain x e where x: "read (mc_io_ctx (mm_cfg m)) (mc_rx_size (mm_cfg m) - mm_rx_len m) (rw_env w) = (x, e)" by fastforce
    show ?thesis
    proof (cases "Option.bind (mc_rx_buf (mm_cfg m)) (mem_write (mm_rx_len m) x)")
      case None
      then show ?thesis using True Some x
        by (cases "mc_rx_buf (mm_cfg m)") (simp_all add: master_pull_def slave_pull_def)
    next
      case (Some b)
      then obtain buf where buf: "mc_rx_buf (mm_cfg m) = Some buf" "mem_write (mm_rx_len m) x buf = Some b"
        by (cases "mc_rx_buf (mm_cfg m)") auto
      let ?m1 = "m\<lparr> mm_cfg := (mm_cfg m)\<lparr> mc_rx_buf := Some b \<rparr> \<rparr>"
      have l: "line_of ?m1 = (line_of m)\<lparr> ms_cfg := (ms_cfg (line_of m))\<lparr> sc_rx_buf := Some b \<rparr> \<rparr>" by simp
      show ?thesis using True \<open>mc_read (mm_cfg m) = Some read\<close> x buf master_stamp_line[of ?m1 e] unfolding l
        by (cases "x = []") (auto simp: master_pull_def slave_pull_def Let_def case_prod_beta map_prod_def)
    qed
  qed
qed (simp add: master_pull_def slave_pull_def)

lemma master_tx_finish_line: "master_tx_finish m w = map_option (map_prod (with_line m) id) (slave_tx_finish (line_of m) w)"
proof (cases "nx_ref_msg_release (w\<lparr> rw_env := slave_dir (ms_cfg (line_of m)) False (rw_env w) \<rparr>) (mm_tx_cur m)")
  case (Some r)
  then show ?thesis
    using master_stamp_line[of "m\<lparr> mm_tx_cur := 0, mm_tx_state := TX_IDLE \<rparr>" "rw_env (snd r)"]
    by (cases r) (simp add: master_tx_finish_def slave_tx_finish_def master_dir_line case_prod_beta map_prod_def Let_def)
qed (simp add: master_tx_finish_def slave_tx_finish_def master_dir_line)

lemma master_tx_sending_line: "master_tx_sending m w = map_option (map_prod (with_line m) id) (slave_tx_sending (line_of m) w)"
  by (cases "mc_is_busy (mm_cfg m)")
    (simp_all add: master_tx_sending_def slave_tx_sending_def master_tx_finish_line case_prod_beta Let_def)

lemma master_tx_idle_line: "master_tx_idle m w = map_option (map_prod (with_line m) id) (slave_tx_idle (line_of m) w)"
proof -
  have fin: "master_tx_finish (m\<lparr> mm_tx_cur := a \<rparr>) v =
      map_option (map_prod (with_line m) id) (slave_tx_finish ((line_of m)\<lparr> ms_tx_cur := a \<rparr>) v)" for a v
    by (simp add: master_tx_finish_line)
  show ?thesis
    by (simp add: master_tx_idle_def slave_tx_idle_def Let_def master_busy_line master_silent_line master_dir_line fin
        map_option_bind comp_def case_prod_beta' if_distrib[of "map_option _"] cong: if_cong)
qed

lemma master_tx_line: "master_tx m w = map_option (map_prod (with_line m) id) (slave_tx (line_of m) w)"
  by (simp add: master_tx_def slave_tx_def master_tx_idle_line master_tx_sending_line)


section \<open>The invariant of a running master\<close>

definition master_inv :: "'e nx_modbus_rtu_master \<Rightarrow> 'e rtu_world \<Rightarrow> (nat \<Rightarrow> nat) \<Rightarrow> bool" where
  "master_inv m w H \<longleftrightarrow> 5 < mc_rx_size (mm_cfg m) \<and> master_bus_ok (mm_cfg m) w \<and> slave_inv (line_of m) w H"

text \<open>The bytes received and not yet consumed.\<close>

definition master_pending :: "'e nx_modbus_rtu_master \<Rightarrow> bytes" where
  "master_pending m = take (mm_rx_len m) (the (mc_rx_buf (mm_cfg m)))"

lemma master_pending_line: "slave_pending (line_of m) = master_pending m"
  by (simp add: slave_pending_def master_pending_def)

text \<open>The frames served one after the other, each in the world the one before left.\<close>

fun responses_served :: "'e nx_modbus_rtu_master_cfg \<Rightarrow> bytes list \<Rightarrow> 'e rtu_world \<Rightarrow> 'e rtu_world \<Rightarrow> bool" where
  "responses_served cfg [] w w' \<longleftrightarrow> w' = w"
| "responses_served cfg (f # fs) w w' \<longleftrightarrow>
     (\<exists>w1. master_dispatch cfg w f (length f) = Some w1 \<and> response_handled cfg f w w1 \<and> responses_served cfg fs w1 w')"

lemma responses_all_spec:
  assumes "master_bus_ok cfg w" "ref_inv w H" "adu_ok w" "list_all (response_good sz) fs"
  shows "\<exists>w'. serve_all (\<lambda>w f. master_dispatch cfg w f (length f)) w fs = Some w' \<and> rtu_keeps H w w' \<and> responses_served cfg fs w w'"
  using assms
proof (induction fs arbitrary: w)
  case Nil
  then show ?case by (simp add: rtu_keeps_def)
next
  case (Cons f fs)
  have "5 \<le> length f" "length f \<le> 260" using Cons.prems(4) by (simp_all add: response_good_def)
  from master_dispatch_spec[OF Cons.prems(1-3) this] obtain w1 where w1: "master_dispatch cfg w f (length f) = Some w1" "rtu_keeps H w w1"
    "response_handled cfg f w w1" by blast
  then have "master_bus_ok cfg w1" "ref_inv w1 H" "adu_ok w1"
    using master_bus_shape[OF Cons.prems(1)] by (auto simp: rtu_keeps_def bus_keeps_def)
  then obtain w' where "serve_all (\<lambda>w f. master_dispatch cfg w f (length f)) w1 fs = Some w'" "rtu_keeps H w1 w'" "responses_served cfg fs w1 w'"
    using Cons.IH[of w1] Cons.prems(4) by auto
  then show ?case using w1 rtu_keeps_trans[OF w1(2)] by auto
qed

lemma response_handled_written:
  assumes "response_handled cfg f w w'" "None \<notin> set (chan w q)"
  shows "None \<notin> set (chan w' q)"
  using assms fan_out_written[of "chan w" q "sub_cap w" f, OF assms(2)] by (auto simp: response_handled_def split: if_splits)

lemma responses_served_written: "responses_served cfg fs w w' \<Longrightarrow> None \<notin> set (chan w q) \<Longrightarrow> None \<notin> set (chan w' q)"
  by (induction fs arbitrary: w) (auto dest: response_handled_written)

text \<open>Nothing of this depends on the receive buffer.\<close>

lemma master_cfg_buf [simp]:
  "master_subs (cfg\<lparr> mc_rx_buf := b \<rparr>) = master_subs cfg" "master_bus_ok (cfg\<lparr> mc_rx_buf := b \<rparr>) w = master_bus_ok cfg w"
  "response_handled (cfg\<lparr> mc_rx_buf := b \<rparr>) f w w' = response_handled cfg f w w'"
proof -
  show a: "master_subs (cfg\<lparr> mc_rx_buf := b \<rparr>) = master_subs cfg" by (simp add: master_subs_def)
  show "master_bus_ok (cfg\<lparr> mc_rx_buf := b \<rparr>) w = master_bus_ok cfg w" by (simp add: master_bus_ok_def a)
  show "response_handled (cfg\<lparr> mc_rx_buf := b \<rparr>) f w w' = response_handled cfg f w w'" by (simp add: response_handled_def a)
qed

lemma master_dispatch_buf [simp]: "master_dispatch (cfg\<lparr> mc_rx_buf := b \<rparr>) = master_dispatch cfg"
proof -
  have "master_dispatch_loop (cfg\<lparr> mc_rx_buf := b \<rparr>) f n a c subs m w = master_dispatch_loop cfg f n a c subs m w" for f n a c subs m w
    by (induction subs arbitrary: m w) (simp_all add: case_prod_beta' cong: if_cong)
  then have loop: "master_dispatch_loop (cfg\<lparr> mc_rx_buf := b \<rparr>) = master_dispatch_loop cfg" by (simp add: fun_eq_iff)
  show ?thesis by (intro ext) (unfold master_dispatch_def loop master_cfg_buf(1), rule refl)
qed

lemma responses_served_buf [simp]: "responses_served (cfg\<lparr> mc_rx_buf := b \<rparr>) fs w w' = responses_served cfg fs w w'"
  by (induction fs arbitrary: w) simp_all

section \<open>Receiving\<close>

lemma master_rx_spec:
  assumes inv: "master_inv m w H" and rd: "mc_read (mm_cfg m) = Some read"
    and x: "x = fst (read (mc_io_ctx (mm_cfg m)) (mc_rx_size (mm_cfg m) - mm_rx_len m) (rw_env w))"
    and cut: "frames_of (master_head (mc_rx_size (mm_cfg m))) (master_pending m @ x) = (fs, r)"
  shows "\<exists>m' w' e. master_rx m w = Some (m', w') \<and> master_inv m' w' H \<and> held_kept H w w' \<and>
    responses_served (mm_cfg m) fs (w\<lparr> rw_env := e \<rparr>) w' \<and> master_pending m' = r \<and>
    (\<exists>b. mm_cfg m' = (mm_cfg m)\<lparr> mc_rx_buf := Some b \<rparr>) \<and> mm_gap_us m' = mm_gap_us m \<and> mm_tx_state m' = mm_tx_state m \<and>
    mm_tx_cur m' = mm_tx_cur m \<and> line_heard (line_of m) x (snd (line_read (line_of m) (rw_env w))) = (mm_last_bus_activity_us m', e)"
proof -
  let ?sz = "mc_rx_size (mm_cfg m)" and ?s = "line_of m" and ?K = "\<lambda>a. H a + hcur (line_of m) a"
  have sinv: "slave_inv ?s w H" "5 < ?sz" "master_bus_ok (mm_cfg m) w" using inv by (simp_all add: master_inv_def)
  have cfg: "slave_cfg_ok (ms_cfg ?s)" "ms_rx_len ?s < sc_rx_size (ms_cfg ?s)" "ref_inv w ?K" "adu_ok w" "slave_inputs_ok (ms_cfg ?s) w"
    using sinv(1) by (simp_all only: slave_inv_def)
  obtain s1 e b where p: "slave_pull ?s w = Some (s1, w\<lparr> rw_env := e \<rparr>)" "ms_cfg s1 = (ms_cfg ?s)\<lparr> sc_rx_buf := Some b \<rparr>"
    "?sz \<le> length b" "ms_rx_len s1 = mm_rx_len m + length x" "ms_rx_len s1 \<le> ?sz" "take (ms_rx_len s1) b = master_pending m @ x"
    "ms_tx_state s1 = ms_tx_state ?s" "ms_tx_cur s1 = ms_tx_cur ?s" "ms_gap_us s1 = ms_gap_us ?s"
    "line_heard ?s x (snd (line_read ?s (rw_env w))) = (ms_last_bus_activity_us s1, e)"
    using slave_pull_spec[OF cfg(1,2), of read x w] rd x unfolding master_pending_line by auto
  define m1 where "m1 = with_line m s1"
  have l1: "line_of m1 = s1" unfolding m1_def by (rule line_of_with) (use p(2,9) in auto)
  have c1: "mm_cfg m1 = (mm_cfg m)\<lparr> mc_rx_buf := Some b \<rparr>" "mm_rx_len m1 = ms_rx_len s1" using p(2) by (simp_all add: m1_def)
  let ?w0 = "w\<lparr> rw_env := e \<rparr>" and ?n = "ms_rx_len s1"
  note rest = master_frames.frames_rest[OF cut] and left = master_frames.frames_drop[OF cut]
  have n: "length (master_pending m @ x) = ?n" using p(3,5,6) by (metis length_take min_absorb2 order_trans)
  obtain w' where w': "serve_all (\<lambda>w f. master_dispatch (mm_cfg m1) w f (length f)) ?w0 fs = Some w'" "rtu_keeps ?K ?w0 w'"
    "responses_served (mm_cfg m1) fs ?w0 w'"
    using responses_all_spec[of "mm_cfg m1" ?w0 ?K ?sz fs] cfg(3,4) master_bus_shape[OF sinv(3), of ?w0] rest c1(1) by auto
  have sl: "master_slice (mm_cfg m1) b ?n 0 ?w0 = Some (?n - length r, w')"
    using master_loop.slice_cut[of ?n b 0 "mm_cfg m1" ?w0] p(3,5,6) cut w'(1) c1(1) by simp
  have short: "length r < ?sz" using master_rest_short[OF _ sinv(2)] rest by blast
  have front: "drop (?n - length r) (take ?n b) = r" "?n - length r \<le> ?n" "0 < ?sz" using left(2) sinv(2) unfolding p(6) n by simp_all
  obtain b3 k where c: "rtu_compact b ?n (?n - length r) ?sz = Some (b3, k)" "k < ?sz" "length b3 = length b" "take k b3 = r"
    using rtu_compact_spec[OF front(2) p(5,3) front(3)] short unfolding front(1) by auto
  define m' where "m' = m1\<lparr> mm_cfg := (mm_cfg m1)\<lparr> mc_rx_buf := Some b3 \<rparr>, mm_rx_len := k \<rparr>"
  have run: "master_rx m w = Some (m', w')"
  proof -
    have "master_pull m w = Some (m1, ?w0)" by (simp add: master_pull_line p(1) m1_def)
    then show ?thesis unfolding master_rx_def using sl c(1) c1 by (simp add: m'_def)
  qed
  have keep: "ref_inv w' ?K" "adu_ok w'" "bus_keeps ?K w w'" using w'(2) by (simp_all add: rtu_keeps_def bus_keeps_def)
  have "line_of m' = s1\<lparr> ms_cfg := (ms_cfg s1)\<lparr> sc_rx_buf := Some b3 \<rparr>, ms_rx_len := k \<rparr>" by (simp add: m'_def l1)
  then have line: "ms_cfg (line_of m') = (ms_cfg ?s)\<lparr> sc_rx_buf := Some b3 \<rparr>" "ms_rx_len (line_of m') = k" "hcur (line_of m') = hcur ?s"
    "ms_tx_state (line_of m') = ms_tx_state ?s" "ms_tx_cur (line_of m') = ms_tx_cur ?s"
    using p(2,7,8) by (simp_all add: hcur_def fun_eq_iff)
  have inputs: "slave_inputs_ok (ms_cfg ?s) w'" using cfg(5) responses_served_written[OF w'(3)] by (simp add: slave_inputs_ok_def)
  have shape: "bus_shape w' = bus_shape w" using keep(3) by (simp add: bus_keeps_def)
  have "?sz \<le> length b3" using c(3) p(3) by simp
  then have "slave_inv (line_of m') w' H"
    using sinv(1) keep(1,2) c(2) inputs slave_bus_shape[OF _ shape, of "ms_cfg ?s"]
    unfolding slave_inv_def line slave_tx_ok_def by (auto simp: slave_cfg_ok_def)
  moreover have "mm_cfg m' = (mm_cfg m)\<lparr> mc_rx_buf := Some b3 \<rparr>" by (simp add: m'_def c1(1))
  moreover have "master_bus_ok (mm_cfg m) w'" by (rule master_bus_shape[OF sinv(3) shape])
  ultimately have "master_inv m' w' H" using sinv(2) by (simp add: master_inv_def)
  moreover have "master_pending m' = r" using c(4) by (simp add: master_pending_def m'_def)
  moreover have "held_kept H w w'" by (rule bus_keeps_held[OF keep(3)]) simp
  moreover have "responses_served (mm_cfg m) fs ?w0 w'" using w'(3) c1(1) by simp
  moreover have "mm_gap_us m' = mm_gap_us m" "mm_tx_state m' = mm_tx_state m" "mm_tx_cur m' = mm_tx_cur m"
    "line_heard ?s x (snd (line_read ?s (rw_env w))) = (mm_last_bus_activity_us m', e)"
    using p(7,8,10) by (simp_all add: m'_def m1_def with_line_def)
  ultimately show ?thesis using run \<open>mm_cfg m' = (mm_cfg m)\<lparr> mc_rx_buf := Some b3 \<rparr>\<close> by blast
qed

section \<open>Transmitting\<close>

lemma master_tx_spec:
  assumes inv: "master_inv m w H"
  shows "\<exists>m' w'. master_tx m w = Some (m', w') \<and> master_inv m' w' H \<and> held_kept H w w' \<and> mm_cfg m' = mm_cfg m \<and>
    mm_rx_len m' = mm_rx_len m \<and> slave_transmits (line_of m) w (line_of m') w'"
proof -
  have "slave_inv (line_of m) w H" using inv by (simp add: master_inv_def)
  from slave_tx_spec[OF this] obtain s' w' where t: "slave_tx (line_of m) w = Some (s', w')" "slave_inv s' w' H" "held_kept H w w'"
    "ms_cfg s' = ms_cfg (line_of m)" "ms_rx_len s' = mm_rx_len m" "ms_gap_us s' = mm_gap_us m"
    "slave_transmits (line_of m) w s' w'" by auto
  define m' where "m' = with_line m s'"
  have l: "line_of m' = s'" unfolding m'_def
    by (rule line_of_with) (use t(4,6) in \<open>auto intro!: exI[of _ "sc_rx_buf (ms_cfg (line_of m))"]\<close>)
  have c: "mm_cfg m' = mm_cfg m" "mm_rx_len m' = mm_rx_len m" using t(4,5) by (simp_all add: m'_def)
  have "master_inv m' w' H"
    using inv t(2,3) l c master_bus_shape[of "mm_cfg m" w w'] by (simp add: master_inv_def held_kept_def)
  moreover have "master_tx m w = Some (m', w')" by (simp add: master_tx_line t(1) m'_def)
  ultimately show ?thesis using t(3,7) c l by metis
qed

section \<open>One call\<close>

text \<open>
  What the bytes read by a call do: their reception is noted, the responses they complete go to their subscribers, the rest is kept, and the
  transmitter goes on from the world the receiver left, as that of the slave does, for the request queue.
\<close>

definition master_call ::
  "'e nx_modbus_rtu_master \<Rightarrow> 'e rtu_world \<Rightarrow> bytes \<Rightarrow> 'e nx_modbus_rtu_master \<Rightarrow> 'e rtu_world \<Rightarrow> bool" where
  "master_call m w x m' w' \<longleftrightarrow>
     (case (frames_of (master_head (mc_rx_size (mm_cfg m))) (master_pending m @ x),
            line_heard (line_of m) x (snd (line_read (line_of m) (rw_env w)))) of
        ((fs, r), (t, e)) \<Rightarrow>
          master_pending m' = r \<and>
          (\<exists>w1. responses_served (mm_cfg m) fs (w\<lparr> rw_env := e \<rparr>) w1 \<and>
             slave_transmits ((line_of m)\<lparr> ms_last_bus_activity_us := t \<rparr>) w1 (line_of m') w'))"

lemma nx_modbus_rtu_master_process_spec:
  assumes inv: "master_inv m w H" and rd: "mc_read (mm_cfg m) = Some read"
    and x: "x = fst (read (mc_io_ctx (mm_cfg m)) (mc_rx_size (mm_cfg m) - mm_rx_len m) (rw_env w))"
  shows "\<exists>m' w'. nx_modbus_rtu_master_process (Some m) w = Some (Some m', w') \<and> master_inv m' w' H \<and> held_kept H w w' \<and>
    (\<exists>b. mm_cfg m' = (mm_cfg m)\<lparr> mc_rx_buf := Some b \<rparr>) \<and> master_call m w x m' w'"
proof -
  obtain fs r where cut: "frames_of (master_head (mc_rx_size (mm_cfg m))) (master_pending m @ x) = (fs, r)" by fastforce
  obtain m1 w1 e b where r: "master_rx m w = Some (m1, w1)" "master_inv m1 w1 H" "held_kept H w w1"
    "responses_served (mm_cfg m) fs (w\<lparr> rw_env := e \<rparr>) w1" "master_pending m1 = r" "mm_cfg m1 = (mm_cfg m)\<lparr> mc_rx_buf := Some b \<rparr>"
    "mm_gap_us m1 = mm_gap_us m" "mm_tx_state m1 = mm_tx_state m" "mm_tx_cur m1 = mm_tx_cur m"
    "line_heard (line_of m) x (snd (line_read (line_of m) (rw_env w))) = (mm_last_bus_activity_us m1, e)"
    using master_rx_spec[OF inv rd x cut] by blast
  have "ms_cfg (line_of m1) = (ms_cfg (line_of m))\<lparr> sc_rx_buf := Some b \<rparr>" using r(6) by (simp add: line_of_def Let_def)
  then have cong: "slave_transmits ((line_of m)\<lparr> ms_last_bus_activity_us := mm_last_bus_activity_us m1 \<rparr>) = slave_transmits (line_of m1)"
    by (intro slave_transmits_cong[symmetric]) (use r(7-9) in auto)
  obtain m' w' where t: "master_tx m1 w1 = Some (m', w')" "master_inv m' w' H" "held_kept H w1 w'" "mm_cfg m' = mm_cfg m1"
    "mm_rx_len m' = mm_rx_len m1" "slave_transmits (line_of m1) w1 (line_of m') w'"
    using master_tx_spec[OF r(2)] by blast
  have "held_kept H w w'" using r(3) t(3) by (rule held_kept_trans)
  moreover have "nx_modbus_rtu_master_process (Some m) w = Some (Some m', w')" by (simp add: nx_modbus_rtu_master_process_def r(1) t(1))
  moreover have "mm_cfg m' = (mm_cfg m)\<lparr> mc_rx_buf := Some b \<rparr>" using r(6) t(4) by simp
  moreover have "master_pending m' = r" using r(5) t(4,5) by (simp add: master_pending_def)
  then have "master_call m w x m' w'" unfolding master_call_def cut r(10) prod.case cong using r(4) t(6) by blast
  ultimately show ?thesis using t(2) by blast
qed

end
