(* ===== verification/Nx_Modbus_Served.thy ===== *)
theory Nx_Modbus_Served
  imports Nx_Modbus_Contract Nx_Demo_Bus
begin

text \<open>
  The properties of the Modbus slave as a whole, stated on the functions of \<open>src/middleware/nx_modbus_rtu_slave.c\<close>, and a
  concrete slave on which they are evaluated.
\<close>

section \<open>Initialisation\<close>

lemma mem_read_all: "mem_read 0 (length xs) xs = Some xs"
  by (simp add: mem_read_def)

lemma nx_modbus_rtu_slave_init_spec:
  assumes buf: "case sc_rx_buf cfg of None \<Rightarrow> True | Some b \<Rightarrow> sc_rx_size cfg \<le> length b"
    and read: "case sc_read cfg of None \<Rightarrow> True | Some read \<Rightarrow> (\<forall>c m e. length (fst (read c m e)) \<le> m)"
    and bus: "slave_bus_ok cfg w" and inv: "ref_inv w H" "adu_ok w" "slave_inputs_ok cfg w"
  shows "\<exists>ok sp e. nx_modbus_rtu_slave_init (Some s) (Some cfg) (rw_env w) = Some (ok, sp, e) \<and>
    (if ok then \<exists>s'. sp = Some s' \<and> slave_inv s' (w\<lparr> rw_env := e \<rparr>) H \<and> ms_cfg s' = cfg \<and> slave_pending s' = [] \<and>
        ms_gap_us s' = slave_gap (sc_baud_rate cfg) \<and> 1 \<le> unat (sc_slave_addr cfg) \<and> unat (sc_slave_addr cfg) \<le> 247
     else sp = Some s \<and> e = rw_env w \<and>
       (sc_rx_buf cfg = None \<or> sc_read cfg = None \<or> sc_write cfg = None \<or> sc_rx_size cfg < 9 \<or> sc_slave_addr cfg = 0 \<or> 247 < unat (sc_slave_addr cfg)))"
proof -
  obtain subs where subs: "slave_subs cfg = Some subs" "\<forall>sub \<in> set subs. sub_queue sub \<noteq> 0" "sc_pool cfg \<noteq> 0" "sc_response_queue cfg \<noteq> 0"
    using bus by (auto simp: slave_bus_ok_def)
  have some: "\<not> (sc_subs cfg = None \<and> sc_subs_count cfg \<noteq> 0)" using subs(1) by (auto simp: slave_subs_def bind_eq_Some_conv)
  have low: "sc_slave_addr cfg < 1 \<longleftrightarrow> sc_slave_addr cfg = 0" "sc_slave_addr cfg > 247 \<longleftrightarrow> 247 < unat (sc_slave_addr cfg)"
    by (simp_all add: word_less_nat_alt unat_eq_0)
  let ?bad = "sc_rx_buf cfg = None \<or> sc_read cfg = None \<or> sc_write cfg = None \<or> sc_rx_size cfg < 9 \<or> sc_slave_addr cfg = 0 \<or>
    247 < unat (sc_slave_addr cfg)"
  show ?thesis
  proof (cases ?bad)
    case True
    then have "nx_modbus_rtu_slave_init (Some s) (Some cfg) (rw_env w) = Some (False, Some s, rw_env w)"
      using subs low by (auto simp: nx_modbus_rtu_slave_init_def slave_cfg_valid_def list_ex_iff)
    then show ?thesis using True by (intro exI[of _ False] exI[of _ "Some s"] exI[of _ "rw_env w"]) simp
  next
    case False
    define s1 where "s1 = \<lparr> ms_cfg = cfg, ms_rx_len = 0, ms_gap_us = slave_gap (sc_baud_rate cfg), ms_tx_state = TX_IDLE,
      ms_last_bus_activity_us = 0, ms_tx_cur = 0 \<rparr>"
    obtain s2 e where st: "slave_stamp s1 (slave_dir cfg False (rw_env w)) = (s2, e)" by fastforce
    note f = slave_stamp_fields[OF st]
    have v: "slave_cfg_valid cfg" using False subs some by (auto simp: slave_cfg_valid_def)
    have n: "\<not> list_ex (\<lambda>sub. sub_queue sub = 0) subs" "\<not> sc_rx_size cfg < 8 + 1" "\<not> (sc_slave_addr cfg < 1 \<or> sc_slave_addr cfg > 247)"
      using subs(2) False low by (auto simp: list_ex_iff)
    have run: "nx_modbus_rtu_slave_init (Some s) (Some cfg) (rw_env w) = Some (True, Some s2, e)"
      using v n st subs(1) by (simp add: nx_modbus_rtu_slave_init_def s1_def Let_def)
    have cfg: "slave_cfg_ok cfg" using False buf read by (auto simp: slave_cfg_ok_def)
    have "hcur s2 = (\<lambda>_. 0)" using f(5) by (auto simp: hcur_def s1_def)
    moreover have "slave_tx_ok s2" using f(4,5) by (simp add: slave_tx_ok_def s1_def)
    moreover have "slave_bus_ok cfg (w\<lparr> rw_env := e \<rparr>)" by (rule slave_bus_shape[OF bus]) simp
    ultimately have "slave_inv s2 (w\<lparr> rw_env := e \<rparr>) H"
      using cfg inv f(1,2) False by (simp add: slave_inv_def slave_inputs_ok_def s1_def)
    moreover have "1 \<le> unat (sc_slave_addr cfg)" using False by (simp add: Suc_le_eq unat_gt_0)
    ultimately show ?thesis using run f False
      by (intro exI[of _ True] exI[of _ "Some s2"] exI[of _ e]) (simp add: s1_def slave_pending_def)
  qed
qed

lemma nx_modbus_rtu_slave_deinit_spec:
  assumes inv: "slave_inv s w H"
  shows "\<exists>s' w'. nx_modbus_rtu_slave_deinit (Some s) w = Some (Some s', w') \<and> ref_inv w' H \<and> held_kept H w w' \<and> chan w' = chan w \<and>
    ms_cfg s' = ms_cfg s \<and> ms_tx_cur s' = 0 \<and> ms_tx_state s' = TX_IDLE \<and> slave_pending s' = []"
proof (cases "ms_tx_cur s = 0")
  case True
  then have "(\<lambda>a. H a + hcur s a) = H" by (simp add: hcur_def)
  then have "ref_inv w H" using inv by (simp add: slave_inv_def)
  then show ?thesis using True by (simp add: nx_modbus_rtu_slave_deinit_def held_kept_def slave_pending_def)
next
  case False
  let ?m = "ms_tx_cur s" and ?K = "\<lambda>a. H a + hcur s a"
  have "ref_inv w ?K" "0 < ?K ?m" using inv False by (simp_all add: hcur_def slave_inv_def)
  from bus_release[OF this] obtain w2 where w2: "nx_ref_msg_release w ?m = Some (NX_REF_MSG_OK, w2)" "ref_inv w2 (?K(?m := ?K ?m - 1))"
    "chan w2 = chan w" "bus_shape w2 = bus_shape w" "payload w2 = payload w" "msg_room w2 = msg_room w" by blast
  have "?K(?m := ?K ?m - 1) = H" using False by (auto simp: hcur_def fun_eq_iff)
  then have "ref_inv w2 H" using w2(2) by simp
  then show ?thesis using w2 False by (simp add: nx_modbus_rtu_slave_deinit_def held_kept_def slave_pending_def)
qed

section \<open>What arrives in a subscriber's queue\<close>

lemma fan_out_adds: "\<exists>k. snd (fan_out cap d qs ch) q = ch q @ replicate k (Some d) \<and> (0 < k \<longrightarrow> q \<in> set qs) \<and> (k \<noteq> 0 \<longrightarrow> length (ch q) < cap q)"
proof (induction qs arbitrary: ch)
  case (Cons p qs)
  show ?case
  proof (cases "length (ch p) < cap p")
    case True
    define ch' where "ch' = ch(p := ch p @ [Some d])"
    obtain k where k: "snd (fan_out cap d qs ch') q = ch' q @ replicate k (Some d)" "0 < k \<longrightarrow> q \<in> set qs" "k \<noteq> 0 \<longrightarrow> length (ch' q) < cap q"
      using Cons.IH[of ch'] by auto
    show ?thesis
    proof (cases "q = p")
      case True
      then have "snd (fan_out cap d (p # qs) ch) q = ch q @ replicate (Suc k) (Some d)"
        using k(1) \<open>length (ch p) < cap p\<close> by (simp add: case_prod_beta Let_def replicate_append_same flip: ch'_def) (simp add: ch'_def)
      then show ?thesis using True \<open>length (ch p) < cap p\<close> by (intro exI[of _ "Suc k"]) simp
    next
      case False
      then show ?thesis using k \<open>length (ch p) < cap p\<close> by (intro exI[of _ k]) (simp add: case_prod_beta Let_def ch'_def)
    qed
  next
    case False
    then show ?thesis using Cons.IH[of ch] by auto
  qed
qed (intro exI[of _ 0], simp)

lemma rtu_answered_other:
  assumes "rtu_answered cfg f exc w w'" "q \<noteq> sc_response_queue cfg"
  shows "chan w' q = chan w q"
  using assms by (auto simp: rtu_answered_def Let_def split: if_splits)

lemma rtu_handled_adds:
  assumes "rtu_handled cfg f w w'" "q \<noteq> sc_response_queue cfg" "chan w' q \<noteq> chan w q"
  shows "\<exists>qs k. rtu_judge (the (slave_subs cfg)) f = Deliver qs \<and> q \<in> set qs \<and> chan w' q = chan w q @ replicate k (Some f) \<and> 0 < k"
proof (cases "rtu_judge (the (slave_subs cfg)) f")
  case (Refuse exc)
  then show ?thesis using assms rtu_answered_other[OF _ assms(2)] by (auto simp: rtu_handled_def)
next
  case (Deliver qs)
  obtain n ch where fan: "fan_out (sub_cap w) f qs (chan w) = (n, ch)" by fastforce
  have "chan w' = ch"
    using assms Deliver fan rtu_answered_other[OF _ assms(2)] by (auto simp: rtu_handled_def split: if_splits nat.splits)
  moreover obtain k where k: "ch q = chan w q @ replicate k (Some f)" "0 < k \<longrightarrow> q \<in> set qs"
    using fan_out_adds[of "sub_cap w" f qs "chan w" q] fan by auto
  ultimately show ?thesis using Deliver assms(3) by (intro exI[of _ qs] exI[of _ k]) (cases k; simp)
qed

section \<open>Properties\<close>

text \<open>
  C5: a call of \<open>nx_modbus_rtu_slave_process\<close> on a running slave completes and leaves a running slave. The bytes it reads are
  appended to those pending, and if there are any the time of their reception is noted; the frames the whole completes are dispatched in order, and
  exactly the bytes after them stay pending, less one if they fill the buffer. Then an idle transmitter gives the oldest response to the driver exactly if
  there is one, the interface is not busy and the gap has passed since the activity noted last, and a busy one is finished, with the time noted,
  exactly if the interface is not busy any more. The messages other parties hold keep their bytes, and no reference to a message is lost.
\<close>
theorem nx_modbus_rtu_slave_process_serves:
  assumes "slave_inv s w H" "sc_read (ms_cfg s) = Some read"
    "x = fst (read (sc_io_ctx (ms_cfg s)) (sc_rx_size (ms_cfg s) - ms_rx_len s) (rw_env w))"
  shows "\<exists>s' w'. nx_modbus_rtu_slave_process (Some s) w = Some (Some s', w') \<and> slave_inv s' w' H \<and> held_kept H w w' \<and>
    (\<exists>b. ms_cfg s' = (ms_cfg s)\<lparr> sc_rx_buf := Some b \<rparr>) \<and> slave_call s w x s' w'"
  by (rule nx_modbus_rtu_slave_process_spec[OF assms])

text \<open>
  C6: \<open>dispatch\<close> treats a frame as the protocol and the subscription table say: a function nobody subscribed to, a value out of range and a
  range nobody owns are refused with their exception codes, in this order; else the frame is offered to every owner in the order of the table,
  and only if there is no memory for it or no owner has room the answer is an exception. An exception is the last frame of the response queue afterwards
  unless the request was a broadcast, the pool had no block for its five bytes or the queue was full before the call, when no queue changes. The
  reference counts stay in order whatever happens.
\<close>
theorem slave_dispatch_routes:
  assumes "slave_bus_ok cfg w" "ref_inv w H" "adu_ok w" "rtu_good addr bc sz f"
  shows "\<exists>w'. dispatch cfg w f (length f) = Some w' \<and> rtu_keeps H w w' \<and> rtu_handled cfg f w w'"
  by (rule dispatch_spec[OF assms])

text \<open>
  C7: what \<open>dispatch\<close> puts into a queue other than the response queue is the frame as it was received, the queue is that of
  a subscription of the frame's function, the registers or coils the frame names lie within the range of that subscription, without wrap-around, and
  the quantities, the value of a coil and the byte counts are within the limits of the protocol, so that a subscriber may index with them unchecked.
\<close>
theorem slave_dispatch_delivers_in_range:
  assumes "slave_bus_ok cfg w" "ref_inv w H" "adu_ok w" "rtu_good addr bc sz f" "dispatch cfg w f (length f) = Some w'"
    "q \<noteq> sc_response_queue cfg" "chan w' q \<noteq> chan w q"
  shows "rtu_wellformed f \<and> (\<exists>k > 0. chan w' q = chan w q @ replicate k (Some f)) \<and>
    (\<exists>sub \<in> set (the (slave_subs cfg)). sub_queue sub = q \<and> sub_func sub = f ! 1 \<and>
       unat (sub_addr_min sub) \<le> rtu_start f \<and> rtu_start f + rtu_count f \<le> unat (sub_addr_max sub) + 1)"
proof -
  have "rtu_handled cfg f w w'" using dispatch_spec[OF assms(1-4)] assms(5) by auto
  from rtu_handled_adds[OF this assms(6,7)] obtain qs k where j: "rtu_judge (the (slave_subs cfg)) f = Deliver qs" "q \<in> set qs"
    "chan w' q = chan w q @ replicate k (Some f)" "0 < k" by blast
  from rtu_delivered_spec[OF assms(4) j(1)] j(2-4) show ?thesis by blast
qed

text \<open>
  The three reply builders never answer a broadcast, refuse data that does not fit a frame, and otherwise queue one frame, which holds the
  address, the function and the fields in wire order and passes the check of its CRC; if there is no memory or no room, they say so and queue nothing.
  The block of a frame that was not queued is returned to the pool.
\<close>
theorem slave_replies_queue_frames:
  assumes "slave_bus_ok cfg w" "ref_inv w H" "adu_ok w" "len \<le> length data"
  shows "(\<exists>r w'. nx_modbus_rtu_slave_reply_read w (sc_pool cfg) (sc_response_queue cfg) a c (Some data) len = Some (r, w') \<and>
      rtu_keeps H w w' \<and>
      (if a = 0 then r = NX_MODBUS_RTU_SLAVE_ERR_BROADCAST \<and> w' = w
       else if len = 0 \<or> 251 < len then r = NX_MODBUS_RTU_SLAVE_ERR_PARAM \<and> w' = w
       else rtu_replied (sc_pool cfg) (sc_response_queue cfg) ([a, c, of_nat len] @ take len data) r w w')) \<and>
    (\<exists>r w'. nx_modbus_rtu_slave_reply_write w (sc_pool cfg) (sc_response_queue cfg) a c addr v = Some (r, w') \<and>
      rtu_keeps H w w' \<and>
      (if a = 0 then r = NX_MODBUS_RTU_SLAVE_ERR_BROADCAST \<and> w' = w
       else rtu_replied (sc_pool cfg) (sc_response_queue cfg)
         [a, c, ucast (drop_bit 8 addr), ucast (addr AND 0xFF), ucast (drop_bit 8 v), ucast (v AND 0xFF)] r w w')) \<and>
    (\<exists>r w'. nx_modbus_rtu_slave_reply_exception w (sc_pool cfg) (sc_response_queue cfg) a c exc = Some (r, w') \<and>
      rtu_keeps H w w' \<and>
      (if a = 0 then r = NX_MODBUS_RTU_SLAVE_ERR_BROADCAST \<and> w' = w
       else rtu_replied (sc_pool cfg) (sc_response_queue cfg) [a, c OR 0x80, exc] r w w')) \<and>
    (\<forall>x. 3 \<le> length x \<longrightarrow> nx_modbus_rtu_check_crc (Some (rtu_frame x)) (length x + 2) = Some True)"
  using reply_read_spec[OF assms] reply_write_spec[OF assms(1-3)] reply_exception_spec[OF assms(1-3)] check_crc_rtu_frame by blast

text \<open>
  The silence before a transmission is the least number of microseconds that exceeds the time of three and a half characters of eleven
  bits at the configured baud rate; there is no silence when no baud rate is configured.
\<close>
theorem slave_gap_silence:
  "if baud_rate = 0 then slave_gap baud_rate = 0
   else 38500000 < unat baud_rate * unat (slave_gap baud_rate) \<and> unat baud_rate * (unat (slave_gap baud_rate) - 1) \<le> 38500000"
proof (cases "baud_rate = 0")
  case True
  then show ?thesis by (simp add: slave_gap_def)
next
  case False
  let ?b = "unat baud_rate"
  have b: "0 < ?b" using False by (simp add: unat_gt_0)
  have "38500000 div ?b \<le> 38500000" by (rule div_le_dividend)
  then have bound: "38500000 div ?b < 4294967295" by linarith
  define k where "k = 38500000 div ?b + 1"
  have "slave_gap baud_rate = of_nat k" using False by (simp add: slave_gap_def k_def)
  moreover have "k < 2 ^ 32" using bound by (simp add: k_def)
  ultimately have gap: "unat (slave_gap baud_rate) = 38500000 div ?b + 1"
    by (simp add: unsigned_of_nat take_bit_nat_eq_self) (simp add: k_def)
  have "?b * (38500000 div ?b) \<le> 38500000" by simp
  moreover have "38500000 < ?b * (38500000 div ?b + 1)" using b by (metis dividend_less_times_div add.commute mult.commute mult_Suc_right Suc_eq_plus1)
  ultimately show ?thesis using False gap by simp
qed

text \<open>
  Initialisation accepts a configuration exactly if the buffer and the callbacks are there, the buffer has room for a frame and the address is
  a slave address; then the slave is running, with nothing pending and the direction released, and else nothing changed.
\<close>
theorem nx_modbus_rtu_slave_init_sets_up:
  assumes "case sc_rx_buf cfg of None \<Rightarrow> True | Some b \<Rightarrow> sc_rx_size cfg \<le> length b"
    "case sc_read cfg of None \<Rightarrow> True | Some read \<Rightarrow> (\<forall>c m e. length (fst (read c m e)) \<le> m)"
    "slave_bus_ok cfg w" "ref_inv w H" "adu_ok w" "slave_inputs_ok cfg w"
  shows "\<exists>ok sp e. nx_modbus_rtu_slave_init (Some s) (Some cfg) (rw_env w) = Some (ok, sp, e) \<and>
    (if ok then \<exists>s'. sp = Some s' \<and> slave_inv s' (w\<lparr> rw_env := e \<rparr>) H \<and> ms_cfg s' = cfg \<and> slave_pending s' = [] \<and>
        ms_gap_us s' = slave_gap (sc_baud_rate cfg) \<and> 1 \<le> unat (sc_slave_addr cfg) \<and> unat (sc_slave_addr cfg) \<le> 247
     else sp = Some s \<and> e = rw_env w \<and>
       (sc_rx_buf cfg = None \<or> sc_read cfg = None \<or> sc_write cfg = None \<or> sc_rx_size cfg < 9 \<or> sc_slave_addr cfg = 0 \<or> 247 < unat (sc_slave_addr cfg)))"
  by (rule nx_modbus_rtu_slave_init_spec[OF assms])

section \<open>Witnesses\<close>

text \<open>
  A slave at address 1 with holding registers 16 to 31, whose serial line delivers one request for two registers and then nothing.
\<close>

definition rtu_demo_frame :: bytes where
  "rtu_demo_frame = rtu_frame [1, 3, 0, 16, 0, 2]"

definition rtu_demo_cfg :: "u32 nx_modbus_rtu_slave_cfg" where
  "rtu_demo_cfg = \<lparr> sc_slave_addr = 1, sc_baud_rate = 9600, sc_accept_broadcast = False, sc_pool = 8, sc_rx_buf = Some (replicate 32 0),
     sc_rx_size = 32, sc_subs = Some [\<lparr> sub_func = 3, sub_addr_min = 16, sub_addr_max = 31, sub_queue = 24 \<rparr>], sc_subs_count = 1,
     sc_response_queue = 16, sc_read = Some (\<lambda>_ m e. (if e = 0 then take m rtu_demo_frame else [], e + 1)),
     sc_write = Some (\<lambda>_ x e. (True, e)), sc_is_busy = None, sc_dir_tx = None, sc_get_us = Some (\<lambda>t. (t, t + 1)), sc_io_ctx = 0, sc_dir_ctx = 0 \<rparr>"

definition rtu_demo :: "u32 nx_modbus_rtu_slave" where
  "rtu_demo = \<lparr> ms_cfg = rtu_demo_cfg, ms_rx_len = 0, ms_gap_us = 4011, ms_tx_state = TX_IDLE, ms_last_bus_activity_us = 0, ms_tx_cur = 0 \<rparr>"

lemma rtu_demo_bus:
  "slave_bus_ok rtu_demo_cfg demo_bus" "ref_inv (demo_bus :: u32 rtu_world) (\<lambda>_. 0)" "adu_ok (demo_bus :: u32 rtu_world)" "slave_inputs_ok rtu_demo_cfg demo_bus"
proof -
  show "slave_bus_ok rtu_demo_cfg demo_bus"
    by (simp add: slave_bus_ok_def rtu_demo_cfg_def demo_bus_def demo_queue_def slave_subs_def mem_read_def chan_cap_def)
  show "ref_inv (demo_bus :: u32 rtu_world) (\<lambda>_. 0)" by (rule ref_start_inv[OF demo_bus_start])
  show "adu_ok (demo_bus :: u32 rtu_world)" by (simp add: adu_ok_def demo_bus_def payload_def)
  show "slave_inputs_ok rtu_demo_cfg demo_bus" by (simp add: slave_inputs_ok_def demo_chans)
qed

lemma rtu_demo_inv: "slave_inv rtu_demo demo_bus (\<lambda>_. 0)"
proof -
  have "hcur rtu_demo = (\<lambda>_. 0)" by (rule ext) (simp add: hcur_def rtu_demo_def)
  moreover have "slave_cfg_ok rtu_demo_cfg" by (simp add: slave_cfg_ok_def rtu_demo_cfg_def)
  ultimately show ?thesis using rtu_demo_bus
    by (simp add: slave_inv_def slave_tx_ok_def) (simp add: rtu_demo_def rtu_demo_cfg_def)
qed

lemma rtu_demo_good: "rtu_good 1 False 32 rtu_demo_frame"
proof -
  have "nx_modbus_rtu_check_crc (Some rtu_demo_frame) (length rtu_demo_frame) = Some True"
    using check_crc_rtu_frame[of "[1, 3, 0, 16, 0, 2]"] by (simp add: rtu_demo_frame_def)
  then show ?thesis by (simp add: rtu_good_def) (simp add: rtu_demo_frame_def rtu_frame_def frame_len_def)
qed

theorem nx_modbus_rtu_slave_process_serves_witness:
  "\<exists>s' w'. nx_modbus_rtu_slave_process (Some rtu_demo) demo_bus = Some (Some s', w') \<and> slave_inv s' w' (\<lambda>_. 0) \<and>
     slave_call rtu_demo demo_bus rtu_demo_frame s' w'"
proof -
  have read: "sc_read (ms_cfg rtu_demo) = Some (\<lambda>_ m e. (if e = 0 then take m rtu_demo_frame else [], e + 1))"
    by (simp add: rtu_demo_def rtu_demo_cfg_def)
  show ?thesis
    using nx_modbus_rtu_slave_process_serves[OF rtu_demo_inv read refl]
    by (simp add: rtu_demo_def rtu_demo_cfg_def demo_bus_def rtu_demo_frame_def) blast
qed

theorem slave_dispatch_routes_witness:
  "\<exists>w'. dispatch rtu_demo_cfg demo_bus rtu_demo_frame (length rtu_demo_frame) = Some w' \<and> rtu_handled rtu_demo_cfg rtu_demo_frame demo_bus w'"
  using slave_dispatch_routes[OF rtu_demo_bus(1-3) rtu_demo_good] by blast

text \<open>The request is for the subscriber's registers 16 and 17, so that its queue holds the frame.\<close>

lemma rtu_demo_delivered:
  obtains w' where "dispatch rtu_demo_cfg demo_bus rtu_demo_frame (length rtu_demo_frame) = Some w'" "chan w' 24 = [Some rtu_demo_frame]"
proof -
  have len: "length rtu_demo_frame = 8" by (simp add: rtu_demo_frame_def)
  have j: "rtu_judge (the (slave_subs rtu_demo_cfg)) rtu_demo_frame = Deliver [24]"
    by (simp add: rtu_judge_def rtu_demo_cfg_def slave_subs_def mem_read_def rtu_demo_frame_def rtu_frame_def request_span_def request_value_exc_def
        wire_u16_def mem_get_def sub_owns_def Let_def)
  have mem: "\<not> no_memory (demo_bus :: u32 rtu_world) (sc_pool rtu_demo_cfg) 8"
    by (simp add: no_memory_def rtu_demo_cfg_def demo_bus_run Let_def)
  obtain w' where w': "dispatch rtu_demo_cfg demo_bus rtu_demo_frame (length rtu_demo_frame) = Some w'" "rtu_handled rtu_demo_cfg rtu_demo_frame demo_bus w'"
    using dispatch_spec[OF rtu_demo_bus(1-3) rtu_demo_good] by blast
  have "sub_cap (demo_bus :: u32 rtu_world) 24 = 2" by (simp add: sub_cap_def chan_cap_def demo_bus_def demo_queue_def)
  then have "chan w' = (chan demo_bus)(24 := [Some rtu_demo_frame])"
    using w'(2) j mem len by (simp add: rtu_handled_def demo_chans)
  then have "chan w' 24 = [Some rtu_demo_frame]" by (rule ssubst) (simp only: fun_upd_same)
  with that w'(1) show ?thesis by blast
qed

theorem slave_dispatch_delivers_in_range_witness:
  "rtu_wellformed rtu_demo_frame \<and> rtu_start rtu_demo_frame + rtu_count rtu_demo_frame \<le> 32"
proof -
  obtain w' where w': "dispatch rtu_demo_cfg demo_bus rtu_demo_frame (length rtu_demo_frame) = Some w'" "chan w' 24 = [Some rtu_demo_frame]"
    by (rule rtu_demo_delivered)
  have "24 \<noteq> sc_response_queue rtu_demo_cfg" "chan w' 24 \<noteq> chan demo_bus 24" using w'(2) by (simp_all add: rtu_demo_cfg_def demo_chans)
  from slave_dispatch_delivers_in_range[OF rtu_demo_bus(1-3) rtu_demo_good w'(1) this] show ?thesis
    by (auto simp: rtu_demo_cfg_def slave_subs_def mem_read_def)
qed

theorem slave_replies_queue_frames_witness:
  "\<exists>r w'. nx_modbus_rtu_slave_reply_read (demo_bus :: u32 rtu_world) 8 16 1 3 (Some [0, 7, 0, 9]) 4 = Some (r, w') \<and>
     rtu_replied 8 16 [1, 3, 4, 0, 7, 0, 9] r demo_bus w'"
proof -
  have "4 \<le> length [0, 7, 0, 9 :: u8]" by simp
  from slave_replies_queue_frames[OF rtu_demo_bus(1-3) this, of 1 3] have
    "\<exists>r w'. nx_modbus_rtu_slave_reply_read (demo_bus :: u32 rtu_world) (sc_pool rtu_demo_cfg) (sc_response_queue rtu_demo_cfg) 1 3 (Some [0, 7, 0, 9]) 4 = Some (r, w') \<and>
      rtu_keeps (\<lambda>_. 0) demo_bus w' \<and>
      (if (1 :: u8) = 0 then r = NX_MODBUS_RTU_SLAVE_ERR_BROADCAST \<and> w' = demo_bus
       else if (4 :: nat) = 0 \<or> 251 < (4 :: nat) then r = NX_MODBUS_RTU_SLAVE_ERR_PARAM \<and> w' = demo_bus
       else rtu_replied (sc_pool rtu_demo_cfg) (sc_response_queue rtu_demo_cfg) ([1, 3, of_nat 4] @ take 4 [0, 7, 0, 9]) r demo_bus w')"
    by (rule conjunct1)
  then show ?thesis by (simp add: rtu_demo_cfg_def) blast
qed

theorem nx_modbus_rtu_slave_init_sets_up_witness:
  "\<exists>s' e. nx_modbus_rtu_slave_init (Some rtu_demo) (Some rtu_demo_cfg) (rw_env (demo_bus :: u32 rtu_world)) = Some (True, Some s', e) \<and>
     slave_inv s' (demo_bus\<lparr> rw_env := e \<rparr>) (\<lambda>_. 0)"
proof -
  have a: "case sc_rx_buf rtu_demo_cfg of None \<Rightarrow> True | Some b \<Rightarrow> sc_rx_size rtu_demo_cfg \<le> length b"
    "case sc_read rtu_demo_cfg of None \<Rightarrow> True | Some read \<Rightarrow> (\<forall>c m e. length (fst (read c m e)) \<le> m)"
    "\<not> (sc_rx_buf rtu_demo_cfg = None \<or> sc_read rtu_demo_cfg = None \<or> sc_write rtu_demo_cfg = None \<or> sc_rx_size rtu_demo_cfg < 9 \<or>
      sc_slave_addr rtu_demo_cfg = 0 \<or> 247 < unat (sc_slave_addr rtu_demo_cfg))"
    by (auto simp: rtu_demo_cfg_def)
  from nx_modbus_rtu_slave_init_sets_up[OF a(1,2) rtu_demo_bus, of rtu_demo] a(3) show ?thesis
    by (auto split: if_splits)
qed

end
