(* ===== verification/Nx_Modbus_Exchanged.thy ===== *)
theory Nx_Modbus_Exchanged
  imports Nx_Modbus_Polling Nx_Modbus_Served
begin

text \<open>
  The properties of the Modbus master, alone and together with the slave, and a concrete master on which they are evaluated.
\<close>

section \<open>Initialisation and shutdown\<close>

lemma nx_modbus_rtu_master_init_spec:
  assumes "case mc_rx_buf cfg of None \<Rightarrow> True | Some b \<Rightarrow> mc_rx_size cfg \<le> length b"
    "case mc_read cfg of None \<Rightarrow> True | Some read \<Rightarrow> (\<forall>c k e. length (fst (read c k e)) \<le> k)"
    "master_bus_ok cfg w" "ref_inv w H" "adu_ok w" "None \<notin> set (chan w (mc_request_queue cfg))"
  shows "\<exists>ok mp e. nx_modbus_rtu_master_init (Some m) (Some cfg) (rw_env w) = Some (ok, mp, e) \<and>
    (if ok then \<exists>m'. mp = Some m' \<and> master_inv m' (w\<lparr> rw_env := e \<rparr>) H \<and> mm_cfg m' = cfg \<and> master_pending m' = [] \<and>
        (\<forall>sub \<in> set (the (master_subs cfg)). su_slave_addr sub \<noteq> 0)
     else mp = Some m \<and> e = rw_env w)"
proof -
  obtain subs where subs: "master_subs cfg = Some subs" "\<forall>sub \<in> set subs. su_queue sub \<noteq> 0" "mc_pool cfg \<noteq> 0" "mc_request_queue cfg \<noteq> 0"
    using assms(3) by (auto simp: master_bus_ok_def)
  let ?bad = "\<not> master_cfg_valid cfg \<or>
    list_ex (\<lambda>sub. su_queue sub = 0 \<or> su_slave_addr sub < NX_MODBUS_RTU_ADDR_MIN \<or> su_slave_addr sub > NX_MODBUS_RTU_ADDR_MAX) subs \<or>
    mc_rx_size cfg < 6"
  show ?thesis
  proof (cases ?bad)
    case True
    then have "nx_modbus_rtu_master_init (Some m) (Some cfg) (rw_env w) = Some (False, Some m, rw_env w)"
      by (auto simp: nx_modbus_rtu_master_init_def subs(1))
    then show ?thesis by auto
  next
    case False
    define m1 where "m1 = \<lparr> mm_cfg = cfg, mm_rx_len = 0, mm_gap_us = master_gap (mc_baud_rate cfg), mm_tx_state = TX_IDLE,
        mm_last_bus_activity_us = 0, mm_tx_cur = 0 \<rparr>"
    obtain m2 e where st: "master_stamp m1 (master_dir cfg False (rw_env w)) = (m2, e)" by fastforce
    have m2: "mm_cfg m2 = cfg" "mm_rx_len m2 = 0" "mm_tx_state m2 = TX_IDLE" "mm_tx_cur m2 = 0"
      using st by (auto simp: master_stamp_def m1_def split: option.splits if_splits prod.splits)
    have run: "nx_modbus_rtu_master_init (Some m) (Some cfg) (rw_env w) = Some (True, Some m2, e)"
      using False st unfolding nx_modbus_rtu_master_init_def by (auto simp: subs(1) Let_def m1_def)
    have "hcur (line_of m2) = (\<lambda>_. 0)" using m2(4) by (simp add: hcur_def fun_eq_iff)
    moreover have "slave_cfg_ok (ms_cfg (line_of m2))"
      using False assms(1,2) m2(1) by (auto simp: slave_cfg_ok_def master_cfg_valid_def split: option.splits)
    moreover have "slave_bus_ok (ms_cfg (line_of m2)) w" using assms(3) m2(1) by (simp add: slave_bus_ok_def master_bus_ok_def)
    ultimately have "slave_inv (line_of m2) (w\<lparr> rw_env := e \<rparr>) H"
      using False assms(4-6) m2 slave_bus_shape[of "ms_cfg (line_of m2)" w "w\<lparr> rw_env := e \<rparr>"]
      by (simp add: slave_inv_def slave_tx_ok_def slave_inputs_ok_def)
    then have "master_inv m2 (w\<lparr> rw_env := e \<rparr>) H"
      using False m2(1) master_bus_shape[OF assms(3), of "w\<lparr> rw_env := e \<rparr>"] by (simp add: master_inv_def)
    moreover have "\<forall>sub \<in> set (the (master_subs cfg)). su_slave_addr sub \<noteq> 0" using False subs(1) by (auto simp: list_ex_iff)
    ultimately show ?thesis using run m2 by (intro exI[of _ True] exI[of _ "Some m2"] exI[of _ e]) (simp add: master_pending_def)
  qed
qed

text \<open>Shutting down gives back the message under way, and nothing else.\<close>

lemma nx_modbus_rtu_master_deinit_spec:
  assumes "master_inv m w H"
  shows "\<exists>m' w'. nx_modbus_rtu_master_deinit (Some m) w = Some (Some m', w') \<and> ref_inv w' H \<and> chan w' = chan w \<and>
    bus_shape w' = bus_shape w \<and> mm_tx_cur m' = 0 \<and> mm_tx_state m' = TX_IDLE \<and> mm_rx_len m' = 0"
proof (cases "mm_tx_cur m = 0")
  case True
  then have "hcur (line_of m) = (\<lambda>_. 0)" by (simp add: hcur_def fun_eq_iff)
  then have "ref_inv w H" using assms by (simp add: master_inv_def slave_inv_def)
  then show ?thesis using True by (simp add: nx_modbus_rtu_master_deinit_def)
next
  case False
  let ?K = "\<lambda>a. H a + hcur (line_of m) a"
  have k: "ref_inv w ?K" "0 < ?K (mm_tx_cur m)" using assms False by (simp_all add: master_inv_def slave_inv_def hcur_def)
  from bus_release[OF k] obtain w1 where w1: "nx_ref_msg_release w (mm_tx_cur m) = Some (NX_REF_MSG_OK, w1)"
    "ref_inv w1 (?K(mm_tx_cur m := ?K (mm_tx_cur m) - 1))" "chan w1 = chan w" "bus_shape w1 = bus_shape w" by blast
  have "?K(mm_tx_cur m := ?K (mm_tx_cur m) - 1) = H" using False by (auto simp: hcur_def fun_eq_iff)
  then have "ref_inv w1 H" using w1(2) by simp
  then show ?thesis using False w1 by (simp add: nx_modbus_rtu_master_deinit_def)
qed

section \<open>Properties\<close>

text \<open>
  C8: a call of \<open>nx_modbus_rtu_master_process\<close> succeeds on every running master and keeps it running, whatever the line delivers: if there are
  bytes, the time of their reception is noted; the responses that the bytes complete go to their subscribers in the order they arrived, and the rest of
  the bytes is kept for the next call. Then an idle transmitter gives the oldest frame of the request queue to the driver exactly if there is one, the
  interface is not busy and the gap has passed since the activity noted last, and a busy one is finished, with the time noted, exactly if the
  interface is not busy any more. The messages others hold are not touched.
\<close>
theorem nx_modbus_rtu_master_process_polls:
  assumes "master_inv m w H" "mc_read (mm_cfg m) = Some read"
    "x = fst (read (mc_io_ctx (mm_cfg m)) (mc_rx_size (mm_cfg m) - mm_rx_len m) (rw_env w))"
  shows "\<exists>m' w'. nx_modbus_rtu_master_process (Some m) w = Some (Some m', w') \<and> master_inv m' w' H \<and> held_kept H w w' \<and>
    (\<exists>b. mm_cfg m' = (mm_cfg m)\<lparr> mc_rx_buf := Some b \<rparr>) \<and> master_call m w x m' w'"
  by (rule nx_modbus_rtu_master_process_spec[OF assms])

text \<open>
  C9: a response goes, as it was received, to the queue of every subscription that names its address and either no function or its function,
  with or without the exception flag, in the order of the table and as far as the queues have room; nowhere else, and nowhere at all if there is no
  memory for it. The reference counts stay in order.
\<close>
theorem master_dispatch_routes:
  assumes "master_bus_ok cfg w" "ref_inv w H" "adu_ok w" "response_good sz f"
  shows "\<exists>w'. master_dispatch cfg w f (length f) = Some w' \<and> rtu_keeps H w w' \<and> response_handled cfg f w w'"
  using assms by (intro master_dispatch_spec) (simp_all add: response_good_def)

text \<open>
  C10: the request builders refuse exactly the requests outside the limits of the protocol (an address that cannot be asked, a quantity out of range,
  data of the wrong size), before anything is allocated; every other request becomes one frame at the end of the request queue, or nothing if there
  is no memory or no room, and the result says which. The block of a frame that was not queued is returned to the pool.
\<close>
theorem master_requests_queue_frames:
  assumes "request_bus_ok pool q w" "ref_inv w H" "adu_ok w"
  shows "\<exists>r w'. master_request w pool q a rq = Some (r, w') \<and> rtu_keeps H w w' \<and>
    (if request_valid a rq then rtu_requested pool q (request_body a rq) r w w' else r = NX_MODBUS_RTU_MASTER_ERR_PARAM \<and> w' = w)"
  by (rule master_request_spec[OF assms])

text \<open>
  C11: a frame a request builder queued is accepted by every slave it is addressed to: the slicing loop of the slave takes it off the stream as
  one frame, whatever follows it, the checks of its values find nothing to refuse, and the range it reads off the frame is the one that was asked for.
\<close>
theorem slave_takes_master_requests:
  assumes "request_bus_ok pool q w" "ref_inv w H" "adu_ok w" "master_request w pool q a rq = Some (NX_MODBUS_RTU_MASTER_OK, w')"
    "sc_slave_addr cfg = a \<or> a = 0 \<and> sc_accept_broadcast cfg" "255 \<le> sc_rx_size cfg"
  shows "\<exists>f. chan w' = (chan w)(q := chan w q @ [Some f]) \<and>
    (\<forall>rest v. slave_slice cfg (f @ rest) (length (f @ rest)) 0 v =
       do { v1 \<leftarrow> dispatch cfg v f (length f); (front, v2) \<leftarrow> slave_slice cfg rest (length rest) 0 v1; Some (length f + front, v2) }) \<and>
    request_value_exc (f ! 1) f = Some 0 \<and>
    (\<exists>lo hi. request_span (f ! 1) f = Some (lo, hi) \<and> unat lo = fst (request_touches rq) \<and>
       unat hi = fst (request_touches rq) + snd (request_touches rq) - 1)"
proof -
  have v: "request_valid a rq" "rtu_requested pool q (request_body a rq) NX_MODBUS_RTU_MASTER_OK w w'"
    using master_request_spec[OF assms(1-3), of a rq] assms(4) by (auto split: if_splits)
  let ?f = "rtu_frame (request_body a rq)"
  have "rtu_good (sc_slave_addr cfg) (sc_accept_broadcast cfg) (sc_rx_size cfg) ?f"
    using assms(5,6) request_body_length[OF v(1)] by (intro request_frame_good[OF v(1)]) auto
  note slice = slave_loop.slice_frame_first[OF rtu_head_whole[OF this]]
  obtain lo hi where "request_span (?f ! 1) ?f = Some (lo, hi)" "unat lo = fst (request_touches rq)"
    "unat hi = fst (request_touches rq) + snd (request_touches rq) - 1" by (rule request_span_touches[OF v(1)])
  then show ?thesis using v(2) slice request_accepted[OF v(1)] by (intro exI[of _ ?f]) (simp add: rtu_requested_def)
qed

text \<open>
  C12: a frame a reply builder of the slave queued is understood by the master: its slicing loop takes it off the stream as one frame, whatever
  follows, \<open>nx_modbus_rtu_master_rsp_is_exception\<close> tells whether it is a refusal and which, and \<open>nx_modbus_rtu_master_rsp_data\<close> finds the
  data of a read reply, all of it, and nothing in the others.
\<close>
theorem master_takes_slave_replies:
  assumes "slave_bus_ok cfg w" "ref_inv w H" "adu_ok w" "reply_func_ok rp"
    "slave_reply w (sc_pool cfg) (sc_response_queue cfg) a rp = Some (NX_MODBUS_RTU_SLAVE_OK, w')" "256 \<le> mc_rx_size mcfg"
  shows "\<exists>f. chan w' = (chan w)(sc_response_queue cfg := chan w (sc_response_queue cfg) @ [Some f]) \<and>
    (\<forall>rest v. master_slice mcfg (f @ rest) (length (f @ rest)) 0 v =
       do { v1 \<leftarrow> master_dispatch mcfg v f (length f); (front, v2) \<leftarrow> master_slice mcfg rest (length rest) 0 v1; Some (length f + front, v2) }) \<and>
    nx_modbus_rtu_master_rsp_is_exception (Some f) (length f) (Some e0) =
      Some (case rp of ExceptionReply c e \<Rightarrow> (True, Some e) | _ \<Rightarrow> (False, Some e0)) \<and>
    nx_modbus_rtu_master_rsp_data (Some f) (length f) (Some n0) =
      Some (case rp of ReadReply c x \<Rightarrow> (Some 3, Some (length x)) | _ \<Rightarrow> (None, Some 0)) \<and>
    (case rp of ReadReply c x \<Rightarrow> take (length x) (drop 3 f) = x | _ \<Rightarrow> True)"
proof -
  have v: "reply_sized rp" "rtu_replied (sc_pool cfg) (sc_response_queue cfg) (reply_body a rp) NX_MODBUS_RTU_SLAVE_OK w w'"
    using slave_reply_spec[OF assms(1-3), of a rp] assms(5) by auto
  let ?f = "rtu_frame (reply_body a rp)"
  have "length (reply_body a rp) + 2 \<le> 256" using v(1) by (cases rp) auto
  then have "response_good (mc_rx_size mcfg) ?f" using assms(6) by (intro reply_good[OF v(1) assms(4)]) simp
  note slice = master_loop.slice_frame_first[OF master_head_whole[OF this]]
  show ?thesis using v(2) slice reply_inspected[OF v(1) assms(4), of a]
    by (intro exI[of _ ?f] conjI) (simp_all add: rtu_replied_def)
qed

section \<open>Witnesses\<close>

text \<open>
  A master that polls the slave at address 1, whose serial line delivers the reply of two registers, and the request it was for.
\<close>

definition poll_demo_frame :: bytes where
  "poll_demo_frame = rtu_frame [1, 3, 4, 0, 7, 0, 9]"

definition poll_demo_cfg :: "u32 nx_modbus_rtu_master_cfg" where
  "poll_demo_cfg = \<lparr> mc_baud_rate = 9600, mc_pool = 8, mc_rx_buf = Some (replicate 256 0), mc_rx_size = 256,
     mc_subs = Some [\<lparr> su_slave_addr = 1, su_func = 0, su_queue = 24 \<rparr>], mc_subs_count = 1, mc_request_queue = 16,
     mc_read = Some (\<lambda>_ k e. (if e = 0 then take k poll_demo_frame else [], e + 1)), mc_write = Some (\<lambda>_ x e. (True, e)), mc_is_busy = None,
     mc_dir_tx = None, mc_get_us = Some (\<lambda>t. (t, t + 1)), mc_io_ctx = 0, mc_dir_ctx = 0 \<rparr>"

definition poll_demo :: "u32 nx_modbus_rtu_master" where
  "poll_demo = \<lparr> mm_cfg = poll_demo_cfg, mm_rx_len = 0, mm_gap_us = 4011, mm_tx_state = TX_IDLE, mm_last_bus_activity_us = 0, mm_tx_cur = 0 \<rparr>"

lemma poll_demo_bus: "master_bus_ok poll_demo_cfg demo_bus" "request_bus_ok 8 16 (demo_bus :: u32 rtu_world)"
  by (simp_all add: master_bus_ok_def poll_demo_cfg_def demo_bus_def demo_queue_def master_subs_def mem_read_def chan_cap_def request_bus_ok_def)

lemma poll_demo_inv: "master_inv poll_demo demo_bus (\<lambda>_. 0)"
proof -
  have "hcur (line_of poll_demo) = (\<lambda>_. 0)" by (rule ext) (simp add: hcur_def poll_demo_def line_of_def)
  moreover have "slave_cfg_ok (ms_cfg (line_of poll_demo))" by (simp add: slave_cfg_ok_def) (simp add: poll_demo_def poll_demo_cfg_def)
  moreover have "slave_bus_ok (ms_cfg (line_of poll_demo)) demo_bus"
    by (simp add: slave_bus_ok_def) (simp add: poll_demo_def poll_demo_cfg_def demo_bus_def demo_queue_def chan_cap_def)
  ultimately have "slave_inv (line_of poll_demo) demo_bus (\<lambda>_. 0)"
    using rtu_demo_bus(2,3) by (simp add: slave_inv_def slave_tx_ok_def slave_inputs_ok_def demo_chans) (simp add: poll_demo_def poll_demo_cfg_def)
  moreover have "mm_cfg poll_demo = poll_demo_cfg" by (simp add: poll_demo_def)
  ultimately show ?thesis using poll_demo_bus(1) by (simp add: master_inv_def) (simp add: poll_demo_cfg_def)
qed

theorem nx_modbus_rtu_master_process_polls_witness:
  "\<exists>m' w'. nx_modbus_rtu_master_process (Some poll_demo) demo_bus = Some (Some m', w') \<and> master_inv m' w' (\<lambda>_. 0) \<and>
     master_call poll_demo demo_bus poll_demo_frame m' w'"
proof -
  have read: "mc_read (mm_cfg poll_demo) = Some (\<lambda>_ k e. (if e = 0 then take k poll_demo_frame else [], e + 1))"
    by (simp add: poll_demo_def poll_demo_cfg_def)
  show ?thesis
    using nx_modbus_rtu_master_process_polls[OF poll_demo_inv read refl]
    by (simp add: poll_demo_def poll_demo_cfg_def demo_bus_def poll_demo_frame_def) blast
qed

lemma poll_demo_good: "response_good 256 poll_demo_frame"
  using reply_good[of "ReadReply 3 [0, 7, 0, 9]" 1 256] by (simp add: poll_demo_frame_def)

lemma demo_memory: "\<not> no_memory (demo_bus :: u32 rtu_world) 8 8" "\<not> no_memory (demo_bus :: u32 rtu_world) 8 9"
  by (simp_all add: no_memory_def demo_bus_run Let_def)

theorem master_dispatch_routes_witness:
  "\<exists>w'. master_dispatch poll_demo_cfg demo_bus poll_demo_frame 9 = Some w' \<and> chan w' 24 = [Some poll_demo_frame]"
proof -
  have len: "length poll_demo_frame = 9" by (simp add: poll_demo_frame_def)
  have c: "claimants (the (master_subs poll_demo_cfg)) poll_demo_frame = [24]"
    by (simp add: claimants_def poll_demo_cfg_def master_subs_def mem_read_def poll_demo_frame_def rtu_frame_def)
  have pool: "mc_pool poll_demo_cfg = 8" by (simp add: poll_demo_cfg_def)
  have cap: "sub_cap (demo_bus :: u32 rtu_world) 24 = 2" by (simp add: sub_cap_def chan_cap_def demo_bus_def demo_queue_def)
  show ?thesis
    using master_dispatch_routes[OF poll_demo_bus(1) rtu_demo_bus(2,3) poll_demo_good] demo_memory(2)
    unfolding response_handled_def c len pool by (auto simp: cap demo_chans)
qed

theorem master_requests_queue_frames_witness:
  "(\<exists>r w'. nx_modbus_rtu_master_read_holding_regs (demo_bus :: u32 rtu_world) 8 16 1 16 2 = Some (r, w') \<and>
      rtu_requested 8 16 [1, 3, 0, 16, 0, 2] r demo_bus w') \<and>
   nx_modbus_rtu_master_read_holding_regs (demo_bus :: u32 rtu_world) 8 16 0 16 2 = Some (NX_MODBUS_RTU_MASTER_ERR_PARAM, demo_bus)"
proof -
  note p = master_requests_queue_frames[OF poll_demo_bus(2) rtu_demo_bus(2,3)]
  show ?thesis using p[of 1 "ReadHoldingRegs 16 2"] p[of 0 "ReadHoldingRegs 16 2"] by (auto simp: wire_bytes_def)
qed

lemma poll_demo_queued:
  obtains w' where "master_request (demo_bus :: u32 rtu_world) 8 16 1 (ReadHoldingRegs 16 2) = Some (NX_MODBUS_RTU_MASTER_OK, w')"
proof -
  have cap: "chan_cap (demo_bus :: u32 rtu_world) 16 = Some 2" by (simp add: chan_cap_def demo_bus_def demo_queue_def)
  obtain r w' where r: "master_request (demo_bus :: u32 rtu_world) 8 16 1 (ReadHoldingRegs 16 2) = Some (r, w')"
    "rtu_requested 8 16 (request_body 1 (ReadHoldingRegs 16 2)) r demo_bus w'"
    using master_request_spec[OF poll_demo_bus(2) rtu_demo_bus(2,3), of 1 "ReadHoldingRegs 16 2"] by auto
  then have "r = NX_MODBUS_RTU_MASTER_OK" using demo_memory(1) cap by (cases r) (auto simp: rtu_requested_def demo_chans)
  with r that show ?thesis by blast
qed

theorem slave_takes_master_requests_witness:
  "\<exists>f lo hi. request_value_exc (f ! 1) f = Some 0 \<and> request_span (f ! 1) f = Some (lo, hi) \<and> unat lo = 16 \<and> unat hi = 17 \<and>
     (\<exists>w'. nx_modbus_rtu_master_read_holding_regs (demo_bus :: u32 rtu_world) 8 16 1 16 2 = Some (NX_MODBUS_RTU_MASTER_OK, w') \<and> chan w' 16 = [Some f])"
proof -
  let ?cfg = "rtu_demo_cfg\<lparr> sc_rx_size := 256 \<rparr>"
  obtain w' where w': "master_request (demo_bus :: u32 rtu_world) 8 16 1 (ReadHoldingRegs 16 2) = Some (NX_MODBUS_RTU_MASTER_OK, w')"
    by (rule poll_demo_queued)
  have "sc_slave_addr ?cfg = 1 \<or> (1 :: u8) = 0 \<and> sc_accept_broadcast ?cfg" "255 \<le> sc_rx_size ?cfg" by (simp_all add: rtu_demo_cfg_def)
  from slave_takes_master_requests[OF poll_demo_bus(2) rtu_demo_bus(2,3) w' this] w' show ?thesis by (auto simp: demo_chans)
qed

theorem master_takes_slave_replies_witness:
  "\<exists>f. nx_modbus_rtu_master_rsp_is_exception (Some f) (length f) (Some 0) = Some (True, Some 2) \<and>
     (\<exists>w'. nx_modbus_rtu_slave_reply_exception (demo_bus :: u32 rtu_world) 8 16 1 3 2 = Some (NX_MODBUS_RTU_SLAVE_OK, w') \<and> chan w' 16 = [Some f])"
proof -
  let ?rp = "ExceptionReply 3 2"
  have mem: "\<not> no_memory (demo_bus :: u32 rtu_world) 8 5" by (simp add: no_memory_def demo_bus_run Let_def)
  have cfg: "sc_pool rtu_demo_cfg = 8" "sc_response_queue rtu_demo_cfg = 16" by (simp_all add: rtu_demo_cfg_def)
  have cap: "chan_cap (demo_bus :: u32 rtu_world) 16 = Some 2" by (simp add: chan_cap_def demo_bus_def demo_queue_def)
  obtain r w' where r: "nx_modbus_rtu_slave_reply_exception demo_bus 8 16 1 3 2 = Some (r, w')"
    "rtu_replied 8 16 [1, 3 OR 0x80, 2] r (demo_bus :: u32 rtu_world) w'"
    using reply_exception_spec[OF rtu_demo_bus(1-3), of 1 3 2] unfolding cfg by auto
  then have "r = NX_MODBUS_RTU_SLAVE_OK" using mem cap by (cases r) (auto simp: rtu_replied_def demo_chans numeral_eq_Suc)
  then have run: "slave_reply demo_bus (sc_pool rtu_demo_cfg) (sc_response_queue rtu_demo_cfg) 1 ?rp = Some (NX_MODBUS_RTU_SLAVE_OK, w')"
    using r(1) by (simp add: cfg)
  have "reply_func_ok ?rp" "256 \<le> mc_rx_size poll_demo_cfg" by (simp_all add: poll_demo_cfg_def)
  from master_takes_slave_replies[OF rtu_demo_bus(1-3) this(1) run this(2), of 0 0] run show ?thesis
    by (auto simp: cfg demo_chans)
qed

end
