(* ===== verification/Nx_Sha256.thy ===== *)
theory Nx_Sha256
  imports Nx_Prelude
begin

text \<open>
  \<open>src/algo/nx_sha256.c\<close>: SHA-256 over data that arrives in pieces, the standard FIPS 180-4 it implements as a definition of its
  own, and the proof that the first computes the second.
\<close>

section \<open>The code\<close>

record nx_sha256_ctx =
  sha_state :: "u32 list"
  sha_bit_count :: u64
  sha_buffer :: bytes
  sha_buffer_len :: nat

abbreviation (input) NX_SHA256_BLOCK_SIZE :: nat where "NX_SHA256_BLOCK_SIZE \<equiv> 64"

definition nx_sha256_rotr :: "u32 \<Rightarrow> nat \<Rightarrow> u32" where
  "nx_sha256_rotr x n = (drop_bit n x OR push_bit (32 - n) x)"

definition NX_SHA256_K :: "u32 list" where
  "NX_SHA256_K = concat [
    [0x428a2f98, 0x71374491, 0xb5c0fbcf, 0xe9b5dba5],
    [0x3956c25b, 0x59f111f1, 0x923f82a4, 0xab1c5ed5],
    [0xd807aa98, 0x12835b01, 0x243185be, 0x550c7dc3],
    [0x72be5d74, 0x80deb1fe, 0x9bdc06a7, 0xc19bf174],
    [0xe49b69c1, 0xefbe4786, 0x0fc19dc6, 0x240ca1cc],
    [0x2de92c6f, 0x4a7484aa, 0x5cb0a9dc, 0x76f988da],
    [0x983e5152, 0xa831c66d, 0xb00327c8, 0xbf597fc7],
    [0xc6e00bf3, 0xd5a79147, 0x06ca6351, 0x14292967],
    [0x27b70a85, 0x2e1b2138, 0x4d2c6dfc, 0x53380d13],
    [0x650a7354, 0x766a0abb, 0x81c2c92e, 0x92722c85],
    [0xa2bfe8a1, 0xa81a664b, 0xc24b8b70, 0xc76c51a3],
    [0xd192e819, 0xd6990624, 0xf40e3585, 0x106aa070],
    [0x19a4c116, 0x1e376c08, 0x2748774c, 0x34b0bcb5],
    [0x391c0cb3, 0x4ed8aa4a, 0x5b9cca4f, 0x682e6ff3],
    [0x748f82ee, 0x78a5636f, 0x84c87814, 0x8cc70208],
    [0x90befffa, 0xa4506ceb, 0xbef9a3f7, 0xc67178f2]]"

text \<open>The message schedule: the words of the block, then one word after the other from those before it.\<close>

definition sha_word :: "bytes \<Rightarrow> nat \<Rightarrow> u32" where
  "sha_word block i =
     (push_bit 24 (ucast (block ! (i * 4))) OR push_bit 16 (ucast (block ! (i * 4 + 1))) OR
      push_bit 8 (ucast (block ! (i * 4 + 2))) OR ucast (block ! (i * 4 + 3)))"

definition sha_extend :: "u32 list \<Rightarrow> nat \<Rightarrow> u32 list" where
  "sha_extend w i =
     (let s0 = nx_sha256_rotr (w ! (i - 15)) 7 XOR nx_sha256_rotr (w ! (i - 15)) 18 XOR drop_bit 3 (w ! (i - 15));
          s1 = nx_sha256_rotr (w ! (i - 2)) 17 XOR nx_sha256_rotr (w ! (i - 2)) 19 XOR drop_bit 10 (w ! (i - 2))
      in w @ [w ! (i - 16) + s0 + w ! (i - 7) + s1])"

definition sha_schedule :: "bytes \<Rightarrow> u32 list" where
  "sha_schedule block = foldl sha_extend (map (sha_word block) [0..<16]) [16..<64]"

type_synonym sha_vars = "u32 \<times> u32 \<times> u32 \<times> u32 \<times> u32 \<times> u32 \<times> u32 \<times> u32"

fun sha_round :: "u32 list \<Rightarrow> sha_vars \<Rightarrow> nat \<Rightarrow> sha_vars" where
  "sha_round w (a, b, c, d, e, f, g, h) i =
     (let s1 = nx_sha256_rotr e 6 XOR nx_sha256_rotr e 11 XOR nx_sha256_rotr e 25;
          ch = (e AND f) XOR (NOT e AND g);
          temp1 = h + s1 + ch + NX_SHA256_K ! i + w ! i;
          s0 = nx_sha256_rotr a 2 XOR nx_sha256_rotr a 13 XOR nx_sha256_rotr a 22;
          maj = (a AND b) XOR (a AND c) XOR (b AND c);
          temp2 = s0 + maj
      in (temp1 + temp2, a, b, c, d + temp1, e, f, g))"

definition nx_sha256_transform :: "u32 list \<Rightarrow> bytes \<Rightarrow> u32 list" where
  "nx_sha256_transform state block =
     (let w = sha_schedule block;
          (a, b, c, d, e, f, g, h) =
            foldl (sha_round w)
              (state ! 0, state ! 1, state ! 2, state ! 3, state ! 4, state ! 5, state ! 6, state ! 7) [0..<64]
      in [state ! 0 + a, state ! 1 + b, state ! 2 + c, state ! 3 + d,
          state ! 4 + e, state ! 5 + f, state ! 6 + g, state ! 7 + h])"

definition sha_initial :: "u32 list" where
  "sha_initial = [0x6a09e667, 0xbb67ae85, 0x3c6ef372, 0xa54ff53a, 0x510e527f, 0x9b05688c, 0x1f83d9ab, 0x5be0cd19]"

definition nx_sha256_init :: "nx_sha256_ctx option \<Rightarrow> nx_sha256_ctx option" where
  "nx_sha256_init ctx =
     map_option (\<lambda>c. c\<lparr> sha_state := sha_initial, sha_bit_count := 0, sha_buffer_len := 0 \<rparr>) ctx"

text \<open>The parts of an update: the block that was begun, the whole blocks of the input, and what is left of it.\<close>

definition sha_top_up :: "nx_sha256_ctx \<Rightarrow> bytes \<Rightarrow> nat \<Rightarrow> (nx_sha256_ctx \<times> bytes \<times> nat) option" where
  "sha_top_up c p len =
     (if sha_buffer_len c > 0 then
        let need = size_sub NX_SHA256_BLOCK_SIZE (sha_buffer_len c);
            n = (if len < need then len else need)
        in do {
          x \<leftarrow> mem_read 0 n p;
          b \<leftarrow> mem_write (sha_buffer_len c) x (sha_buffer c);
          let c1 = c\<lparr> sha_buffer := b, sha_buffer_len := sha_buffer_len c + n \<rparr>;
          Some (if sha_buffer_len c1 = NX_SHA256_BLOCK_SIZE
                then c1\<lparr> sha_state := nx_sha256_transform (sha_state c1) (sha_buffer c1), sha_buffer_len := 0 \<rparr> else c1,
                drop n p, len - n) }
      else Some (c, p, len))"

function sha_blocks :: "u32 list \<Rightarrow> bytes \<Rightarrow> nat \<Rightarrow> (u32 list \<times> bytes \<times> nat) option" where
  "sha_blocks state p len =
     (if len \<ge> NX_SHA256_BLOCK_SIZE then do {
        block \<leftarrow> mem_read 0 NX_SHA256_BLOCK_SIZE p;
        sha_blocks (nx_sha256_transform state block) (drop NX_SHA256_BLOCK_SIZE p) (len - NX_SHA256_BLOCK_SIZE) }
      else Some (state, p, len))"
  by pat_completeness auto
termination
  by (relation "measure (\<lambda>(state, p, len). len)") auto

declare sha_blocks.simps [simp del]

definition nx_sha256_update :: "nx_sha256_ctx option \<Rightarrow> bytes option \<Rightarrow> nat \<Rightarrow> nx_sha256_ctx option option" where
  "nx_sha256_update ctx data len =
     (case (ctx, data) of
        (Some c, Some p) \<Rightarrow> do {
          (c1, p1, len1) \<leftarrow> sha_top_up (c\<lparr> sha_bit_count := sha_bit_count c + of_nat len * 8 \<rparr>) p len;
          (state, p2, len2) \<leftarrow> sha_blocks (sha_state c1) p1 len1;
          let c2 = c1\<lparr> sha_state := state \<rparr>;
          if len2 > 0 then do {
            x \<leftarrow> mem_read 0 len2 p2;
            b \<leftarrow> mem_write 0 x (sha_buffer c2);
            Some (Some (c2\<lparr> sha_buffer := b, sha_buffer_len := len2 \<rparr>)) }
          else Some (Some c2) }
      | _ \<Rightarrow> Some ctx)"

text \<open>The padding loop of \<open>nx_sha256_final\<close>; it ends only if the fill of the buffer meets 56.\<close>

partial_function (option) sha_pad_loop :: "u64 \<Rightarrow> nx_sha256_ctx \<Rightarrow> nx_sha256_ctx option" where
  "sha_pad_loop bit_count c =
     (if sha_buffer_len c \<noteq> NX_SHA256_BLOCK_SIZE - 8 then do {
        cp \<leftarrow> nx_sha256_update (Some c) (Some (replicate NX_SHA256_BLOCK_SIZE 0)) 1;
        c1 \<leftarrow> cp;
        sha_pad_loop bit_count (c1\<lparr> sha_bit_count := bit_count \<rparr>) }
      else Some c)"

declare sha_pad_loop.simps [code]

definition sha_be64 :: "u64 \<Rightarrow> bytes" where
  "sha_be64 n = map (\<lambda>i. ucast (drop_bit (56 - i * 8) n)) [0..<8]"

definition sha_emit :: "u32 list \<Rightarrow> bytes" where
  "sha_emit state =
     concat (map (\<lambda>i. [ucast (drop_bit 24 (state ! i)), ucast (drop_bit 16 (state ! i)), ucast (drop_bit 8 (state ! i)), ucast (state ! i)])
       [0..<8])"

definition nx_sha256_final ::
  "nx_sha256_ctx option \<Rightarrow> bytes option \<Rightarrow> (nx_sha256_ctx option \<times> bytes option) option" where
  "nx_sha256_final ctx digest =
     (case (ctx, digest) of
        (Some c, Some d) \<Rightarrow> do {
          let bit_count = sha_bit_count c;
          cp \<leftarrow> nx_sha256_update (Some c) (Some [0x80]) 1;
          c1 \<leftarrow> cp;
          c2 \<leftarrow> sha_pad_loop bit_count (c1\<lparr> sha_bit_count := bit_count \<rparr>);
          cp3 \<leftarrow> nx_sha256_update (Some c2) (Some (sha_be64 bit_count)) 8;
          c3 \<leftarrow> cp3;
          d1 \<leftarrow> mem_write 0 (sha_emit (sha_state c3)) d;
          Some (Some c3, Some d1) }
      | _ \<Rightarrow> Some (ctx, digest))"

text \<open>The one-shot call; its context is a local variable, whose bytes are arbitrary at first.\<close>

definition nx_sha256 :: "nx_sha256_ctx \<Rightarrow> bytes option \<Rightarrow> nat \<Rightarrow> bytes option \<Rightarrow> bytes option option" where
  "nx_sha256 ctx data len digest = do {
     cp \<leftarrow> nx_sha256_update (nx_sha256_init (Some ctx)) data len;
     (_, d) \<leftarrow> nx_sha256_final cp digest;
     Some d }"

section \<open>The standard\<close>

text \<open>
  FIPS 180-4, sections 4.1.2, 5.1.1 and 6.2.2, over lists of bytes: the six functions, the schedule as a recurrence, the compression
  function, the padding and the hash.
\<close>

definition fips_Ch :: "u32 \<Rightarrow> u32 \<Rightarrow> u32 \<Rightarrow> u32" where "fips_Ch x y z = (x AND y) XOR (NOT x AND z)"
definition fips_Maj :: "u32 \<Rightarrow> u32 \<Rightarrow> u32 \<Rightarrow> u32" where "fips_Maj x y z = (x AND y) XOR (x AND z) XOR (y AND z)"
definition fips_Sum0 :: "u32 \<Rightarrow> u32" where "fips_Sum0 x = word_rotr 2 x XOR word_rotr 13 x XOR word_rotr 22 x"
definition fips_Sum1 :: "u32 \<Rightarrow> u32" where "fips_Sum1 x = word_rotr 6 x XOR word_rotr 11 x XOR word_rotr 25 x"
definition fips_sig0 :: "u32 \<Rightarrow> u32" where "fips_sig0 x = word_rotr 7 x XOR word_rotr 18 x XOR drop_bit 3 x"
definition fips_sig1 :: "u32 \<Rightarrow> u32" where "fips_sig1 x = word_rotr 17 x XOR word_rotr 19 x XOR drop_bit 10 x"

fun fips_W :: "bytes \<Rightarrow> nat \<Rightarrow> u32" where
  "fips_W M t =
     (if t < 16 then word_rcat (take 4 (drop (4 * t) M))
      else fips_sig1 (fips_W M (t - 2)) + fips_W M (t - 7) + fips_sig0 (fips_W M (t - 15)) + fips_W M (t - 16))"

declare fips_W.simps [simp del]

fun fips_step :: "bytes \<Rightarrow> sha_vars \<Rightarrow> nat \<Rightarrow> sha_vars" where
  "fips_step M (a, b, c, d, e, f, g, h) t =
     (let T1 = h + fips_Sum1 e + fips_Ch e f g + NX_SHA256_K ! t + fips_W M t;
          T2 = fips_Sum0 a + fips_Maj a b c
      in (T1 + T2, a, b, c, d + T1, e, f, g))"

definition fips_compress :: "u32 list \<Rightarrow> bytes \<Rightarrow> u32 list" where
  "fips_compress H M =
     (let (a, b, c, d, e, f, g, h) = foldl (fips_step M) (H ! 0, H ! 1, H ! 2, H ! 3, H ! 4, H ! 5, H ! 6, H ! 7) [0..<64]
      in map2 (+) [a, b, c, d, e, f, g, h] (take 8 H))"

text \<open>A message cut into blocks of 64 bytes, and what is left.\<close>

fun sha_chunks :: "bytes \<Rightarrow> bytes list \<times> bytes" where
  "sha_chunks m = (if length m < 64 then ([], m) else (let (bs, r) = sha_chunks (drop 64 m) in (take 64 m # bs, r)))"

declare sha_chunks.simps [simp del]

text \<open>The bytes of a word, the most significant first.\<close>

definition fips_bytes :: "nat \<Rightarrow> 'a::len word \<Rightarrow> bytes" where
  "fips_bytes n x = map (\<lambda>i. of_nat (unat x div 256 ^ (n - 1 - i))) [0..<n]"

definition fips_pad :: "bytes \<Rightarrow> bytes" where
  "fips_pad m = m @ [0x80] @ replicate ((119 - length m mod 64) mod 64) 0 @ fips_bytes 8 (of_nat (8 * length m) :: u64)"

definition fips_sha256 :: "bytes \<Rightarrow> bytes" where
  "fips_sha256 m = concat (map (fips_bytes 4) (foldl fips_compress sha_initial (fst (sha_chunks (fips_pad m)))))"

section \<open>The compression function\<close>

lemma nx_sha256_rotr_eq:
  assumes "n < 32"
  shows "nx_sha256_rotr x n = word_rotr n x"
proof (rule bit_word_eqI)
  fix k assume "k < LENGTH(32)"
  then have k: "k < 32" by simp
  show "bit (nx_sha256_rotr x n) k \<longleftrightarrow> bit (word_rotr n x) k"
  proof (cases "k + n < 32")
    case True
    then have "\<not> 32 - n \<le> k" "(k + n) mod 32 = k + n" by simp_all
    then show ?thesis using k by (simp add: nx_sha256_rotr_def bit_simps bit_word_rotr_iff add.commute)
  next
    case False
    have "\<not> bit x (n + k)" using False bit_imp_le_length[of x "n + k"] by auto
    moreover have "(k + n) mod 32 = k - (32 - n)" using k False assms by (simp add: mod_if)
    moreover have "32 - n \<le> k" using False by simp
    ultimately show ?thesis using k by (simp add: nx_sha256_rotr_def bit_simps bit_word_rotr_iff)
  qed
qed

lemma bit_u8_high: "8 \<le> n \<Longrightarrow> \<not> bit (b :: u8) n"
  using bit_imp_le_length[of b n] by auto

lemma be32_rcat:
  "push_bit 24 (ucast (a :: u8)) OR push_bit 16 (ucast (b :: u8)) OR push_bit 8 (ucast (c :: u8)) OR ucast (d :: u8) =
   (word_rcat [a, b, c, d] :: u32)"
proof (rule bit_word_eqI)
  fix n assume "n < LENGTH(32)"
  then have n: "n < 32" by simp
  have rcat: "bit (word_rcat [a, b, c, d] :: u32) n \<longleftrightarrow> bit ([d, c, b, a] ! (n div 8)) (n mod 8)"
  proof -
    have "bit (word_rcat ws :: u32) n \<longleftrightarrow> bit (horner_sum uint (2 ^ LENGTH(8)) (rev ws)) n" for ws :: bytes
      using n by (simp add: word_rcat_def bit_simps)
    moreover have "n div 8 < 4" using n by auto
    ultimately show ?thesis using bit_horner_sum_uint_exp_iff[of "[d, c, b, a]" n] by simp
  qed
  consider "n < 8" | "8 \<le> n" "n < 16" | "16 \<le> n" "n < 24" | "24 \<le> n" by linarith
  then show "bit (push_bit 24 (ucast a) OR push_bit 16 (ucast b) OR push_bit 8 (ucast c) OR ucast d :: u32) n \<longleftrightarrow>
      bit (word_rcat [a, b, c, d] :: u32) n"
    by cases (use n in \<open>auto simp: rcat bit_simps bit_u8_high div_if mod_if\<close>)
qed

lemma sha_word_eq:
  assumes "4 * i + 4 \<le> length M"
  shows "sha_word M i = word_rcat (take 4 (drop (4 * i) M))"
proof -
  have "take 4 (drop (4 * i) M) = [M ! (i * 4), M ! (i * 4 + 1), M ! (i * 4 + 2), M ! (i * 4 + 3)]"
    using assms by (intro nth_equalityI) (auto simp: nth_Cons mult.commute numeral_eq_Suc split: nat.splits)
  then show ?thesis by (simp add: sha_word_def be32_rcat)
qed

lemma sha_schedule_prefix:
  assumes "length M = 64" "n \<le> 48"
  shows "foldl sha_extend (map (sha_word M) [0..<16]) [16..<16 + n] = map (fips_W M) [0..<16 + n]"
  using assms(2)
proof (induction n)
  case 0
  have "sha_word M i = fips_W M i" if "i < 16" for i
    using that assms(1) by (subst fips_W.simps) (simp add: sha_word_eq)
  then show ?case by simp
next
  case (Suc n)
  let ?t = "16 + n"
  have "foldl sha_extend (map (sha_word M) [0..<16]) [16..<16 + Suc n] = sha_extend (map (fips_W M) [0..<?t]) ?t"
    using Suc by (simp add: numeral_eq_Suc)
  also have "\<dots> = map (fips_W M) [0..<?t] @ [fips_W M ?t]"
    unfolding sha_extend_def Let_def
    by (subst fips_W.simps[of M ?t]) (simp add: nx_sha256_rotr_eq fips_sig0_def fips_sig1_def ac_simps)
  finally show ?case by (simp add: numeral_eq_Suc)
qed

lemma sha_round_eq:
  assumes "i < 64"
  shows "sha_round (map (fips_W M) [0..<64]) v i = fips_step M v i"
proof -
  obtain a b c d e f g h where "v = (a, b, c, d, e, f, g, h)" by (cases v) auto
  then show ?thesis using assms
    by (simp add: nx_sha256_rotr_eq fips_Sum0_def fips_Sum1_def fips_Ch_def fips_Maj_def Let_def)
qed

lemma foldl_eq_on: "(\<And>v i. i \<in> set is \<Longrightarrow> f v i = g v i) \<Longrightarrow> foldl f v is = foldl g v is"
  by (induction "is" arbitrary: v) auto

lemma nx_sha256_transform_eq:
  assumes "length M = 64" "length H = 8"
  shows "nx_sha256_transform H M = fips_compress H M" "length (nx_sha256_transform H M) = 8"
proof -
  have w: "sha_schedule M = map (fips_W M) [0..<64]"
    using sha_schedule_prefix[OF assms(1), of 48] by (simp add: sha_schedule_def)
  have f: "foldl (sha_round (sha_schedule M)) v [0..<64] = foldl (fips_step M) v [0..<64]" for v
    unfolding w by (rule foldl_eq_on) (simp add: sha_round_eq del: sha_round.simps fips_step.simps)
  have H: "take 8 H = [H ! 0, H ! 1, H ! 2, H ! 3, H ! 4, H ! 5, H ! 6, H ! 7]"
    using assms(2) by (intro nth_equalityI) (auto simp: nth_Cons numeral_eq_Suc split: nat.splits)
  show "nx_sha256_transform H M = fips_compress H M"
    unfolding nx_sha256_transform_def fips_compress_def Let_def f H by (simp add: add.commute split: prod.split)
  show "length (nx_sha256_transform H M) = 8"
    unfolding nx_sha256_transform_def Let_def by (simp split: prod.split)
qed

section \<open>Data that arrives in pieces\<close>

lemma sha_chunks_rest:
  "sha_chunks m = (bs, r) \<Longrightarrow> length r = length m mod 64 \<and> (\<forall>b \<in> set bs. length b = 64)"
proof (induction m arbitrary: bs r rule: sha_chunks.induct)
  case (1 m)
  show ?case
  proof (cases "length m < 64")
    case True
    then show ?thesis using 1(2) by (simp add: sha_chunks.simps)
  next
    case False
    obtain cs t where c: "sha_chunks (drop 64 m) = (cs, t)" by fastforce
    then have "bs = take 64 m # cs" "r = t" using 1(2) False by (simp_all add: sha_chunks.simps[of m])
    moreover have "length t = (length m - 64) mod 64" "\<forall>b \<in> set cs. length b = 64" using 1(1)[OF False c] by simp_all
    ultimately show ?thesis using False by (simp add: le_mod_geq)
  qed
qed

lemma sha_chunks_append:
  "sha_chunks (m @ x) = (let (bs, r) = sha_chunks m; (cs, t) = sha_chunks (r @ x) in (bs @ cs, t))"
proof (induction m rule: sha_chunks.induct)
  case (1 m)
  show ?case
  proof (cases "length m < 64")
    case True
    then show ?thesis by (simp add: sha_chunks.simps[of m])
  next
    case False
    then show ?thesis using 1 by (simp add: sha_chunks.simps[of m] sha_chunks.simps[of "m @ x"] Let_def split: prod.split)
  qed
qed

lemma sha_chunks_block [simp]: "length b = 64 \<Longrightarrow> sha_chunks b = ([b], [])"
  by (simp add: sha_chunks.simps)

lemma sha_chunks_short: "length m < 64 \<Longrightarrow> sha_chunks m = ([], m)"
  by (simp add: sha_chunks.simps)

lemma sha_blocks_spec:
  assumes "len \<le> length p" "sha_chunks (take len p) = (bs, r)"
  shows "\<exists>p'. sha_blocks state p len = Some (foldl nx_sha256_transform state bs, p', length r) \<and> length r \<le> length p' \<and> take (length r) p' = r"
  using assms
proof (induction len arbitrary: state p bs r rule: less_induct)
  case (less len)
  show ?case
  proof (cases "len < 64")
    case True
    then show ?thesis using less.prems by (intro exI[of _ p]) (auto simp: sha_blocks.simps sha_chunks_short min_absorb2)
  next
    case False
    obtain cs where cs: "sha_chunks (take (len - 64) (drop 64 p)) = (cs, r)" "bs = take 64 p # cs"
      using less.prems False by (auto simp: sha_chunks.simps[of "take len p"] drop_take min_absorb1 min_absorb2 split: prod.splits)
    have "len - 64 \<le> length (drop 64 p)" "len - 64 < len" using less.prems(1) False by simp_all
    from less.IH[OF this(2,1) cs(1), of "nx_sha256_transform state (take 64 p)"]
    obtain p' where p': "sha_blocks (nx_sha256_transform state (take 64 p)) (drop 64 p) (len - 64) =
        Some (foldl nx_sha256_transform state bs, p', length r)" "length r \<le> length p'" "take (length r) p' = r"
      using cs(2) by auto
    have "sha_blocks state p len = sha_blocks (nx_sha256_transform state (take 64 p)) (drop 64 p) (len - 64)"
      using False less.prems(1) by (subst sha_blocks.simps) (simp add: mem_read_def)
    with p' show ?thesis by (intro exI[of _ p']) simp
  qed
qed

text \<open>The context after the bytes \<open>m\<close> were absorbed.\<close>

definition sha_at :: "nx_sha256_ctx \<Rightarrow> bytes \<Rightarrow> bool" where
  "sha_at c m \<longleftrightarrow> length (sha_buffer c) = 64 \<and>
     (case sha_chunks m of (bs, r) \<Rightarrow>
        sha_state c = foldl nx_sha256_transform sha_initial bs \<and> sha_buffer_len c = length r \<and> take (length r) (sha_buffer c) = r)"

lemma sha_at_len: "sha_at c m \<Longrightarrow> sha_buffer_len c = length m mod 64"
  by (cases "sha_chunks m") (auto simp: sha_at_def dest: sha_chunks_rest)

lemma sha_at_count [simp]: "sha_at (c\<lparr> sha_bit_count := n \<rparr>) m = sha_at c m"
  by (simp add: sha_at_def)

lemma sha_top_up_spec:
  assumes at: "sha_at c m" and len: "len \<le> length p"
  shows "\<exists>c1 n. sha_top_up c p len = Some (c1, drop n p, len - n) \<and> n \<le> len \<and> sha_at c1 (m @ take n p) \<and>
    sha_bit_count c1 = sha_bit_count c \<and> (n = len \<or> sha_buffer_len c1 = 0)"
proof (cases "sha_buffer_len c = 0")
  case True
  then show ?thesis using at by (intro exI[of _ c] exI[of _ 0]) (simp add: sha_top_up_def)
next
  case False
  obtain bs r where m: "sha_chunks m = (bs, r)" by fastforce
  have c: "length (sha_buffer c) = 64" "sha_state c = foldl nx_sha256_transform sha_initial bs" "sha_buffer_len c = length r"
    "take (length r) (sha_buffer c) = r" using at m by (simp_all add: sha_at_def)
  have r: "length r < 64" using sha_chunks_rest[OF m] by simp
  define n where "n = (if len < 64 - length r then len else 64 - length r)"
  have n: "n \<le> len" "length r + n \<le> 64" "n \<le> length p" using r len by (auto simp: n_def)
  define b where "b = r @ take n p @ drop (length r + n) (sha_buffer c)"
  have wr: "mem_write (length r) (take n p) (sha_buffer c) = Some b"
    using n c(1,4) by (simp add: mem_write_def b_def min_absorb2)
  have rd: "mem_read 0 n p = Some (take n p)" using n by (simp add: mem_read_def)
  have lb: "length b = 64" using n c(1) by (simp add: b_def min_absorb2)
  have need: "(if len < size_sub 64 (length r) then len else size_sub 64 (length r)) = n" using r by (simp add: n_def size_sub_def)
  have app: "sha_chunks (m @ take n p) = (let (cs, t) = sha_chunks (r @ take n p) in (bs @ cs, t))"
    by (simp only: sha_chunks_append[of m] m Let_def prod.case)
  show ?thesis
  proof (cases "length r + n = 64")
    case True
    then have "b = r @ take n p" "length (r @ take n p) = 64" using c(1) n by (simp_all add: b_def)
    then have ch: "sha_chunks (m @ take n p) = (bs @ [b], [])" using app by simp
    let ?c = "c\<lparr> sha_buffer := b, sha_buffer_len := 0, sha_state := nx_sha256_transform (sha_state c) b \<rparr>"
    have "sha_top_up c p len = Some (?c, drop n p, len - n)"
      unfolding sha_top_up_def c(3) need Let_def using True False c(3) wr rd by simp
    moreover have "sha_at ?c (m @ take n p)" using ch c(2) lb by (simp add: sha_at_def)
    ultimately show ?thesis using n(1) by (intro exI[of _ ?c] exI[of _ n]) simp
  next
    case short: False
    then have ch: "sha_chunks (m @ take n p) = (bs, r @ take n p)" using app n by (simp add: sha_chunks_short)
    have "n = len" using short r by (auto simp: n_def split: if_splits)
    let ?c = "c\<lparr> sha_buffer := b, sha_buffer_len := length r + n \<rparr>"
    have "sha_top_up c p len = Some (?c, drop n p, len - n)"
      unfolding sha_top_up_def c(3) need Let_def using short False c(3) wr rd by simp
    moreover have "sha_at ?c (m @ take n p)" using ch c(2) lb n by (simp add: sha_at_def b_def min_absorb2)
    ultimately show ?thesis using n(1) \<open>n = len\<close> by (intro exI[of _ ?c] exI[of _ n]) simp
  qed
qed

lemma nx_sha256_update_spec:
  assumes at: "sha_at c m" and len: "len \<le> length p"
  shows "\<exists>c'. nx_sha256_update (Some c) (Some p) len = Some (Some c') \<and> sha_at c' (m @ take len p) \<and>
    sha_bit_count c' = sha_bit_count c + of_nat len * 8"
proof -
  let ?c = "c\<lparr> sha_bit_count := sha_bit_count c + of_nat len * 8 \<rparr>"
  have "sha_at ?c m" using at by simp
  from sha_top_up_spec[OF this len] obtain c1 n where c1: "sha_top_up ?c p len = Some (c1, drop n p, len - n)" "n \<le> len"
    "sha_at c1 (m @ take n p)" "sha_bit_count c1 = sha_bit_count c + of_nat len * 8" "n = len \<or> sha_buffer_len c1 = 0" by auto
  obtain bs r where m: "sha_chunks (m @ take n p) = (bs, r)" by fastforce
  obtain cs t where x: "sha_chunks (take (len - n) (drop n p)) = (cs, t)" by fastforce
  have le: "len - n \<le> length (drop n p)" using len by simp
  from sha_blocks_spec[OF le x, of "sha_state c1"] obtain p' where p': "length t \<le> length p'" "take (length t) p' = t"
    "sha_blocks (sha_state c1) (drop n p) (len - n) = Some (foldl nx_sha256_transform (sha_state c1) cs, p', length t)" by blast
  have cat: "m @ take len p = (m @ take n p) @ take (len - n) (drop n p)"
    using c1(2) by (metis append.assoc le_add_diff_inverse take_add)
  show ?thesis
  proof (cases "n = len")
    case True
    then have "cs = []" "t = []" using x by (simp_all add: sha_chunks_short)
    then show ?thesis using c1 p' True by (intro exI[of _ c1]) (simp add: nx_sha256_update_def)
  next
    case False
    then have z: "sha_buffer_len c1 = 0" using c1(5) by simp
    then have "r = []" using c1(3) m by (simp add: sha_at_def)
    then have all: "sha_chunks (m @ take len p) = (bs @ cs, t)" using m x
      by (simp only: cat sha_chunks_append[of "m @ take n p"] Let_def prod.case append_Nil)
    have b: "length (sha_buffer c1) = 64" "sha_state c1 = foldl nx_sha256_transform sha_initial bs" using c1(3) m by (simp_all add: sha_at_def)
    have t: "length t < 64" using sha_chunks_rest[OF x] by simp
    let ?st = "foldl nx_sha256_transform (sha_state c1) cs"
    let ?c2 = "if t = [] then c1\<lparr> sha_state := ?st \<rparr>
      else c1\<lparr> sha_state := ?st, sha_buffer := t @ drop (length t) (sha_buffer c1), sha_buffer_len := length t \<rparr>"
    have "mem_read 0 (length t) p' = Some t" using p'(1,2) by (simp add: mem_read_def)
    moreover have "mem_write 0 t (sha_buffer c1) = Some (t @ drop (length t) (sha_buffer c1))" using t b(1) by (simp add: mem_write_def)
    ultimately have "nx_sha256_update (Some c) (Some p) len = Some (Some ?c2)"
      by (simp add: nx_sha256_update_def c1(1) p'(3) Let_def)
    moreover have "sha_at ?c2 (m @ take len p)" using all b t z by (simp add: sha_at_def)
    ultimately show ?thesis using c1(4) by (intro exI[of _ ?c2]) simp
  qed
qed

lemma sha_at_init: "length (sha_buffer ctx) = 64 \<Longrightarrow> \<exists>c. nx_sha256_init (Some ctx) = Some c \<and> sha_at c [] \<and> sha_bit_count c = 0"
  by (simp add: nx_sha256_init_def sha_at_def sha_chunks_short)

text \<open>The zeros still to be added to a message of \<open>n\<close> bytes.\<close>

definition sha_zeros :: "nat \<Rightarrow> nat" where
  "sha_zeros n = (120 - n mod 64) mod 64"

lemma sha_zeros_if: "sha_zeros n = (if n mod 64 \<le> 56 then 56 - n mod 64 else 120 - n mod 64)"
proof -
  have "n mod 64 < 64" by simp
  then show ?thesis by (auto simp: sha_zeros_def mod_if[of "120 - n mod 64"])
qed

lemma sha_zeros_0: "sha_zeros n = 0 \<Longrightarrow> n mod 64 = 56"
  using mod_less_divisor[of 64 n] by (auto simp: sha_zeros_if split: if_splits)

lemma sha_zeros_Suc: "sha_zeros n = Suc k \<Longrightarrow> n mod 64 \<noteq> 56 \<and> sha_zeros (Suc n) = k"
  by (auto simp: sha_zeros_if mod_Suc split: if_splits)

lemma sha_zeros_pad: "sha_zeros (Suc n) = (119 - n mod 64) mod 64"
proof -
  have "n mod 64 < 64" by simp
  then show ?thesis by (auto simp: sha_zeros_def mod_Suc)
qed

lemma sha_pad_loop_spec:
  assumes "sha_at c m" "sha_bit_count c = n"
  shows "\<exists>c'. sha_pad_loop n c = Some c' \<and> sha_at c' (m @ replicate (sha_zeros (length m)) 0) \<and> sha_bit_count c' = n"
  using assms
proof (induction "sha_zeros (length m)" arbitrary: c m)
  case 0
  then have "length m mod 64 = 56" using sha_zeros_0 by simp
  then show ?case using 0 sha_at_len[OF 0(2)] by (subst sha_pad_loop.simps) simp
next
  case (Suc k)
  have z: "length m mod 64 \<noteq> 56 \<and> sha_zeros (Suc (length m)) = k" by (rule sha_zeros_Suc) (simp flip: Suc(2))
  then have ne: "sha_buffer_len c \<noteq> 56" using sha_at_len[OF Suc(3)] by simp
  have "1 \<le> length (replicate 64 0 :: bytes)" by simp
  from nx_sha256_update_spec[OF Suc(3) this] obtain c1 where
    c1: "nx_sha256_update (Some c) (Some (replicate 64 0)) 1 = Some (Some c1)" "sha_at c1 (m @ [0])" by auto
  have "k = sha_zeros (length (m @ [0 :: u8]))" using z by simp
  from Suc(1)[OF this, of "c1\<lparr> sha_bit_count := n \<rparr>"] c1(2) obtain c' where
    "sha_pad_loop n (c1\<lparr> sha_bit_count := n \<rparr>) = Some c'" "sha_at c' ((m @ [0]) @ replicate k 0)" "sha_bit_count c' = n"
    using \<open>k = _\<close> by auto
  then show ?case using ne c1(1) by (subst sha_pad_loop.simps) (simp flip: Suc(2))
qed

lemma u8_of_slice: "ucast (drop_bit k (x :: 'a::len word)) = (of_nat (unat x div 2 ^ k) :: u8)"
  by (simp flip: unat_drop_bit_eq drop_bit_eq_div add: unsigned_ucast_eq)

lemma sha_be64_eq: "sha_be64 n = fips_bytes 8 n"
proof -
  have "(256 :: nat) ^ (7 - i) = 2 ^ (56 - i * 8)" if "i < 8" for i
  proof -
    have "(256 :: nat) = 2 ^ 8" by simp
    then have "(256 :: nat) ^ (7 - i) = 2 ^ (8 * (7 - i))" by (simp only: power_mult)
    also have "8 * (7 - i) = 56 - i * 8" by simp
    finally show ?thesis .
  qed
  then show ?thesis by (simp add: sha_be64_def fips_bytes_def u8_of_slice)
qed

lemma sha_emit_eq:
  assumes "length st = 8"
  shows "sha_emit st = concat (map (fips_bytes 4) st)"
proof -
  have "fips_bytes 4 (x :: u32) = [ucast (drop_bit 24 x), ucast (drop_bit 16 x), ucast (drop_bit 8 x), ucast x]" for x
    using u8_of_slice[of 0 x] by (simp add: fips_bytes_def u8_of_slice upt_rec)
  then have "sha_emit st = concat (map (\<lambda>i. fips_bytes 4 (st ! i)) [0..<8])" by (simp add: sha_emit_def)
  also have "map (\<lambda>i. fips_bytes 4 (st ! i)) [0..<8] = map (fips_bytes 4) st"
    using assms by (metis map_nth map_map comp_apply map_cong)
  finally show ?thesis .
qed

lemma sha_fold_eq:
  assumes "\<forall>b \<in> set bs. length b = 64" "length st = 8"
  shows "foldl nx_sha256_transform st bs = foldl fips_compress st bs \<and> length (foldl fips_compress st bs) = 8"
  using assms
proof (induction bs arbitrary: st)
  case (Cons b bs)
  then show ?case using nx_sha256_transform_eq[of b st] by simp
qed simp

lemma nx_sha256_final_spec:
  assumes at: "sha_at c m" and cnt: "sha_bit_count c = of_nat (8 * length m)" and d: "32 \<le> length d"
  shows "\<exists>c'. nx_sha256_final (Some c) (Some d) = Some (Some c', Some (fips_sha256 m @ drop 32 d))"
proof -
  let ?n = "sha_bit_count c"
  have "1 \<le> length [0x80 :: u8]" by simp
  from nx_sha256_update_spec[OF at this] obtain c1 where
    c1: "nx_sha256_update (Some c) (Some [0x80]) 1 = Some (Some c1)" "sha_at c1 (m @ [0x80])" by auto
  have "sha_at (c1\<lparr> sha_bit_count := ?n \<rparr>) (m @ [0x80])" "sha_bit_count (c1\<lparr> sha_bit_count := ?n \<rparr>) = ?n" using c1(2) by simp_all
  from sha_pad_loop_spec[OF this] obtain c2 where
    c2: "sha_pad_loop ?n (c1\<lparr> sha_bit_count := ?n \<rparr>) = Some c2"
      "sha_at c2 ((m @ [0x80]) @ replicate (sha_zeros (length (m @ [0x80 :: u8]))) 0)" by blast
  have l: "length (sha_be64 ?n) = 8" by (simp add: sha_be64_def)
  then have "8 \<le> length (sha_be64 ?n)" by simp
  from nx_sha256_update_spec[OF c2(2) this] l obtain c3 where
    c3: "nx_sha256_update (Some c2) (Some (sha_be64 ?n)) 8 = Some (Some c3)"
      "sha_at c3 (((m @ [0x80]) @ replicate (sha_zeros (length (m @ [0x80 :: u8]))) 0) @ sha_be64 ?n)" by auto
  have "sha_zeros (length (m @ [0x80 :: u8])) = (119 - length m mod 64) mod 64" using sha_zeros_pad by simp
  then have "((m @ [0x80]) @ replicate (sha_zeros (length (m @ [0x80 :: u8]))) 0) @ sha_be64 ?n = fips_pad m"
    by (simp add: fips_pad_def sha_be64_eq cnt)
  then have at3: "sha_at c3 (fips_pad m)" using c3(2) by simp
  obtain bs r where ch: "sha_chunks (fips_pad m) = (bs, r)" by fastforce
  have "sha_state c3 = foldl nx_sha256_transform sha_initial bs" using at3 ch by (simp add: sha_at_def)
  moreover have "\<forall>b \<in> set bs. length b = 64" using sha_chunks_rest[OF ch] by simp
  ultimately have st: "sha_state c3 = foldl fips_compress sha_initial bs" "length (sha_state c3) = 8"
    using sha_fold_eq[of bs sha_initial] by (simp_all add: sha_initial_def)
  then have em: "sha_emit (sha_state c3) = fips_sha256 m" using sha_emit_eq[OF st(2)] by (simp add: fips_sha256_def ch)
  have "length (sha_emit (sha_state c3)) = 32" by (simp add: sha_emit_def length_concat comp_def sum_list_triv)
  then have "mem_write 0 (sha_emit (sha_state c3)) d = Some (fips_sha256 m @ drop 32 d)" using d by (simp add: mem_write_def em)
  then show ?thesis using c1(1) c2(1) c3(1) by (simp add: nx_sha256_final_def)
qed

text \<open>A sequence of updates, each with a pointer to its data, or NULL, and a length.\<close>

fun sha_updates :: "nx_sha256_ctx option \<Rightarrow> (bytes option \<times> nat) list \<Rightarrow> nx_sha256_ctx option option" where
  "sha_updates c [] = Some c"
| "sha_updates c ((d, n) # xs) = do { c1 \<leftarrow> nx_sha256_update c d n; sha_updates c1 xs }"

definition sha_data :: "(bytes option \<times> nat) list \<Rightarrow> bytes" where
  "sha_data xs = concat (map (\<lambda>(d, n). case d of None \<Rightarrow> [] | Some p \<Rightarrow> take n p) xs)"

definition sha_readable :: "bytes option \<times> nat \<Rightarrow> bool" where
  "sha_readable x = (case x of (None, n) \<Rightarrow> True | (Some p, n) \<Rightarrow> n \<le> length p)"

lemma sha_updates_spec:
  assumes "sha_at c m" "sha_bit_count c = of_nat (8 * length m)" "list_all sha_readable xs"
  shows "\<exists>c'. sha_updates (Some c) xs = Some (Some c') \<and> sha_at c' (m @ sha_data xs) \<and> sha_bit_count c' = of_nat (8 * length (m @ sha_data xs))"
  using assms
proof (induction xs arbitrary: c m)
  case Nil
  then show ?case by (simp add: sha_data_def)
next
  case (Cons x xs)
  obtain d n where x: "x = (d, n)" by fastforce
  show ?case
  proof (cases d)
    case None
    then show ?thesis using Cons.IH[OF Cons.prems(1,2)] Cons.prems(3) x by (simp add: nx_sha256_update_def sha_data_def)
  next
    case (Some p)
    have len: "n \<le> length p" using Cons.prems(3) x Some by (simp add: sha_readable_def)
    from nx_sha256_update_spec[OF Cons.prems(1) this] obtain c1 where
      c1: "nx_sha256_update (Some c) (Some p) n = Some (Some c1)" "sha_at c1 (m @ take n p)" "sha_bit_count c1 = sha_bit_count c + of_nat n * 8"
      by blast
    have "sha_bit_count c1 = of_nat (8 * length (m @ take n p))" using c1(3) Cons.prems(2) len by simp
    from Cons.IH[OF c1(2) this] Cons.prems(3) show ?thesis using c1(1) x Some by (simp add: sha_data_def)
  qed
qed

section \<open>Properties\<close>

text \<open>
  C34: hashing data in pieces of any lengths, NULL pieces and empty ones included, writes the digest FIPS 180-4 defines for the concatenation of the
  pieces to the first 32 bytes of the output buffer, and so does the one-shot call; whatever the context held before is of no effect. The model's
  schedule, rounds, padding loop and bit count compute the recurrences and the padding rule of the standard.
\<close>
theorem nx_sha256_streams_fips:
  assumes "length (sha_buffer ctx) = 64" "32 \<le> length d" "list_all sha_readable xs" "sha_readable (data, n)"
  shows "(do { c \<leftarrow> sha_updates (nx_sha256_init (Some ctx)) xs; (_, out) \<leftarrow> nx_sha256_final c (Some d); out }) =
      Some (fips_sha256 (sha_data xs) @ drop 32 d) \<and>
    nx_sha256 ctx data n (Some d) = Some (Some (fips_sha256 (sha_data [(data, n)]) @ drop 32 d))"
proof -
  have run: "\<exists>c c'. sha_updates (nx_sha256_init (Some ctx)) ys = Some (Some c) \<and>
      nx_sha256_final (Some c) (Some d) = Some (Some c', Some (fips_sha256 (sha_data ys) @ drop 32 d))" if ys: "list_all sha_readable ys" for ys
  proof -
    obtain c0 where c0: "nx_sha256_init (Some ctx) = Some c0" "sha_at c0 []" "sha_bit_count c0 = 0" using sha_at_init[OF assms(1)] by blast
    have "sha_bit_count c0 = of_nat (8 * length ([] :: bytes))" using c0(3) by simp
    from sha_updates_spec[OF c0(2) this ys] obtain c where
      "sha_updates (nx_sha256_init (Some ctx)) ys = Some (Some c)" "sha_at c (sha_data ys)" "sha_bit_count c = of_nat (8 * length (sha_data ys))"
      using c0(1) by auto
    then show ?thesis using nx_sha256_final_spec[OF _ _ assms(2)] by blast
  qed
  obtain c c' where "nx_sha256_update (nx_sha256_init (Some ctx)) data n = Some (Some c)"
    "nx_sha256_final (Some c) (Some d) = Some (Some c', Some (fips_sha256 (sha_data [(data, n)]) @ drop 32 d))"
    using run[of "[(data, n)]"] assms(4) by (auto simp: bind_eq_Some_conv)
  moreover obtain c1 c2 where "sha_updates (nx_sha256_init (Some ctx)) xs = Some (Some c1)"
    "nx_sha256_final (Some c1) (Some d) = Some (Some c2, Some (fips_sha256 (sha_data xs) @ drop 32 d))" using run[OF assms(3)] by blast
  ultimately show ?thesis by (simp add: nx_sha256_def)
qed

text \<open>The first 32 bits of the fractional part of the \<open>k\<close>-th root of \<open>p\<close>, as a fact about integers.\<close>

definition root_fraction :: "nat \<Rightarrow> nat \<Rightarrow> nat \<Rightarrow> u32 \<Rightarrow> bool" where
  "root_fraction k p x c \<longleftrightarrow> (2 ^ 32 * x + unat c) ^ k \<le> p * 2 ^ (32 * k) \<and> p * 2 ^ (32 * k) < (2 ^ 32 * x + unat c + 1) ^ k"

text \<open>The primes below \<open>n\<close>, for \<open>n\<close> up to 324: no proper divisor among the primes up to 17.\<close>

definition primes_below :: "nat \<Rightarrow> nat list" where
  "primes_below n = filter (\<lambda>p. list_all (\<lambda>d. p \<le> d \<or> p mod d \<noteq> 0) [2, 3, 5, 7, 11, 13, 17]) [2..<n]"

lemma primes_below_312: "primes_below 312 =
    [2, 3, 5, 7, 11, 13, 17, 19, 23, 29, 31, 37, 41, 43, 47, 53, 59, 61, 67, 71, 73, 79, 83, 89,
     97, 101, 103, 107, 109, 113, 127, 131, 137, 139, 149, 151, 157, 163, 167, 173, 179, 181, 191, 193, 197, 199, 211, 223,
     227, 229, 233, 239, 241, 251, 257, 263, 269, 271, 277, 281, 283, 293, 307, 311]"
  by (simp add: primes_below_def)

lemma primes_below_20: "primes_below 20 = [2, 3, 5, 7, 11, 13, 17, 19]"
  by (simp add: primes_below_def)

lemma list_all2_choose: "list_all (\<lambda>(x, p, c). R p x c) (zip xs (zip ps cs)) \<Longrightarrow> length xs = length ps \<Longrightarrow> length ps = length cs \<Longrightarrow>
  list_all2 (\<lambda>p c. \<exists>x. R p x c) ps cs"
  by (auto simp: list_all_length list_all2_conv_all_nth)

text \<open>
  The constants are the ones the standard derives: each of the 64 round constants is the first 32 bits of the fractional part of the cube root of
  the prime at its position, and each of the eight initial words that of the square root.
\<close>
theorem nx_sha256_constants:
  "list_all2 (\<lambda>p c. \<exists>x. root_fraction 3 p x c) (primes_below 312) NX_SHA256_K \<and>
   list_all2 (\<lambda>p c. \<exists>x. root_fraction 2 p x c) (primes_below 20) sha_initial"
proof
  show "list_all2 (\<lambda>p c. \<exists>x. root_fraction 3 p x c) (primes_below 312) NX_SHA256_K"
    unfolding primes_below_312 NX_SHA256_K_def
    by (rule list_all2_choose[where xs = "[1, 1, 1, 1, 2, 2, 2, 2, 2, 3, 3, 3, 3, 3, 3, 3, 3, 3, 4, 4, 4, 4, 4, 4, 4, 4, 4, 4, 4, 4, 5, 5,
     5, 5, 5, 5, 5, 5, 5, 5, 5, 5, 5, 5, 5, 5, 5, 6, 6, 6, 6, 6, 6, 6, 6, 6, 6, 6, 6, 6, 6, 6, 6, 6]"])
      (simp_all add: root_fraction_def)
  show "list_all2 (\<lambda>p c. \<exists>x. root_fraction 2 p x c) (primes_below 20) sha_initial"
    unfolding primes_below_20 sha_initial_def
    by (rule list_all2_choose[where xs = "[1, 1, 2, 2, 3, 3, 4, 4]"])
      (simp_all add: root_fraction_def)
qed

text \<open>The digest of "abc" that the standard gives as its first example.\<close>

definition sha_demo :: nx_sha256_ctx where
  "sha_demo = \<lparr> sha_state = replicate 8 7, sha_bit_count = 9, sha_buffer = replicate 64 5, sha_buffer_len = 70 \<rparr>"

definition sha_demo_digest :: bytes where
  "sha_demo_digest = [0xba, 0x78, 0x16, 0xbf, 0x8f, 0x01, 0xcf, 0xea, 0x41, 0x41, 0x40, 0xde, 0x5d, 0xae, 0x22, 0x23,
     0xb0, 0x03, 0x61, 0xa3, 0x96, 0x17, 0x7a, 0x9c, 0xb4, 0x10, 0xff, 0x61, 0xf2, 0x00, 0x15, 0xad]"

lemma sha_demo_run: "nx_sha256 sha_demo (Some [97, 98, 99]) 3 (Some (replicate 32 0)) = Some (Some sha_demo_digest)"
  by code_simp

theorem nx_sha256_streams_fips_witness:
  "nx_sha256 sha_demo (Some [97, 98, 99]) 3 (Some (replicate 32 0)) = Some (Some (fips_sha256 [97, 98, 99])) \<and>
   fips_sha256 [97, 98, 99] = sha_demo_digest"
  using nx_sha256_streams_fips[of sha_demo "replicate 32 0" "[]" "Some [97, 98, 99]" 3] sha_demo_run
  by (simp add: sha_readable_def sha_data_def sha_demo_def)

end
