(* ===== verification/Nx_List.thy ===== *)
theory Nx_List
  imports Nx_Prelude
begin

text \<open>
  \<open>src/core/nx_list.h\<close>: the intrusive circular doubly linked list. Nodes live at addresses, 0 is NULL, and a store maps the
  addresses of the nodes that exist to their two pointers; an access to a node that does not exist is None. A list is a ring through its
  head, and the operations are shown to work on the list of the nodes between the head and itself.
\<close>

section \<open>The code\<close>

record nx_list =
  ln_prev :: nat
  ln_next :: nat

type_synonym links = "nat \<rightharpoonup> nx_list"

definition set_prev :: "links \<Rightarrow> nat \<Rightarrow> nat \<Rightarrow> links option" where
  "set_prev h a v = do { n \<leftarrow> h a; Some (h(a \<mapsto> n\<lparr> ln_prev := v \<rparr>)) }"

definition set_next :: "links \<Rightarrow> nat \<Rightarrow> nat \<Rightarrow> links option" where
  "set_next h a v = do { n \<leftarrow> h a; Some (h(a \<mapsto> n\<lparr> ln_next := v \<rparr>)) }"

definition nx_list_init :: "links \<Rightarrow> nat \<Rightarrow> links option" where
  "nx_list_init h head = (if head \<noteq> 0 then do { h1 \<leftarrow> set_prev h head head; set_next h1 head head } else Some h)"

definition nx_list_add :: "links \<Rightarrow> nat \<Rightarrow> nat \<Rightarrow> links option" where
  "nx_list_add h pos node =
     (if pos = 0 \<or> node = 0 then Some h
      else do {
        h1 \<leftarrow> set_prev h node pos;
        p \<leftarrow> h1 pos;
        h2 \<leftarrow> set_next h1 node (ln_next p);
        p2 \<leftarrow> h2 pos;
        h3 \<leftarrow> set_prev h2 (ln_next p2) node;
        set_next h3 pos node })"

definition nx_list_add_head :: "links \<Rightarrow> nat \<Rightarrow> nat \<Rightarrow> links option" where
  "nx_list_add_head h head node = nx_list_add h head node"

definition nx_list_add_tail :: "links \<Rightarrow> nat \<Rightarrow> nat \<Rightarrow> links option" where
  "nx_list_add_tail h head node = (if head \<noteq> 0 then do { n \<leftarrow> h head; nx_list_add h (ln_prev n) node } else Some h)"

definition nx_list_del :: "links \<Rightarrow> nat \<Rightarrow> links option" where
  "nx_list_del h node =
     (if node = 0 then Some h
      else do {
        n \<leftarrow> h node;
        h1 \<leftarrow> set_next h (ln_prev n) (ln_next n);
        n1 \<leftarrow> h1 node;
        set_prev h1 (ln_next n1) (ln_prev n1) })"

definition nx_list_is_empty :: "links \<Rightarrow> nat \<Rightarrow> bool option" where
  "nx_list_is_empty h head = (if head = 0 then Some True else do { n \<leftarrow> h head; Some (ln_next n = head) })"

definition nx_list_first :: "links \<Rightarrow> nat \<Rightarrow> nat option" where
  "nx_list_first h head = do { n \<leftarrow> h head; Some (ln_next n) }"

definition nx_list_last :: "links \<Rightarrow> nat \<Rightarrow> nat option" where
  "nx_list_last h head = do { n \<leftarrow> h head; Some (ln_prev n) }"

text \<open>
  The two iteration macros, with the body as a function on a state that holds the links; the safe one reads the successor before
  the body runs. They need not end.
\<close>

partial_function (option) list_each_from :: "('s \<Rightarrow> links) \<Rightarrow> nat \<Rightarrow> (nat \<Rightarrow> 's \<Rightarrow> 's option) \<Rightarrow> nat \<Rightarrow> 's \<Rightarrow> 's option" where
  "list_each_from get head body pos s =
     (if pos \<noteq> head then do {
        s1 \<leftarrow> body pos s;
        n \<leftarrow> get s1 pos;
        list_each_from get head body (ln_next n) s1 }
      else Some s)"

definition nx_list_for_each :: "('s \<Rightarrow> links) \<Rightarrow> nat \<Rightarrow> (nat \<Rightarrow> 's \<Rightarrow> 's option) \<Rightarrow> 's \<Rightarrow> 's option" where
  "nx_list_for_each get head body s = do { h \<leftarrow> get s head; list_each_from get head body (ln_next h) s }"

partial_function (option) list_each_safe_from ::
  "('s \<Rightarrow> links) \<Rightarrow> nat \<Rightarrow> (nat \<Rightarrow> 's \<Rightarrow> 's option) \<Rightarrow> nat \<Rightarrow> nat \<Rightarrow> 's \<Rightarrow> 's option" where
  "list_each_safe_from get head body pos n s =
     (if pos \<noteq> head then do {
        s1 \<leftarrow> body pos s;
        m \<leftarrow> get s1 n;
        list_each_safe_from get head body n (ln_next m) s1 }
      else Some s)"

definition nx_list_for_each_safe :: "('s \<Rightarrow> links) \<Rightarrow> nat \<Rightarrow> (nat \<Rightarrow> 's \<Rightarrow> 's option) \<Rightarrow> 's \<Rightarrow> 's option" where
  "nx_list_for_each_safe get head body s = do {
     h \<leftarrow> get s head;
     p \<leftarrow> get s (ln_next h);
     list_each_safe_from get head body (ln_next h) (ln_next p) s }"

declare list_each_from.simps [code] list_each_safe_from.simps [code]

section \<open>Rings\<close>

definition nxt :: "links \<Rightarrow> nat \<rightharpoonup> nat" where "nxt h a = map_option ln_next (h a)"
definition prv :: "links \<Rightarrow> nat \<rightharpoonup> nat" where "prv h a = map_option ln_prev (h a)"

lemma set_prev_effect: "a \<in> dom h \<Longrightarrow> \<exists>h'. set_prev h a v = Some h' \<and> dom h' = dom h \<and> nxt h' = nxt h \<and> prv h' = (prv h)(a \<mapsto> v)"
  by (cases "h a") (auto simp: set_prev_def nxt_def prv_def intro!: exI[of _ "h(a \<mapsto> the (h a)\<lparr> ln_prev := v \<rparr>)"])

lemma set_next_effect: "a \<in> dom h \<Longrightarrow> \<exists>h'. set_next h a v = Some h' \<and> dom h' = dom h \<and> prv h' = prv h \<and> nxt h' = (nxt h)(a \<mapsto> v)"
  by (cases "h a") (auto simp: set_next_def nxt_def prv_def intro!: exI[of _ "h(a \<mapsto> the (h a)\<lparr> ln_next := v \<rparr>)"])

lemma nxt_Some: "nxt h a = Some b \<Longrightarrow> \<exists>n. h a = Some n \<and> ln_next n = b"
  by (auto simp: nxt_def)

lemma prv_Some: "prv h a = Some b \<Longrightarrow> \<exists>n. h a = Some n \<and> ln_prev n = b"
  by (auto simp: prv_def)

lemma dom_nxt: "a \<in> dom h \<longleftrightarrow> nxt h a \<noteq> None" "a \<in> dom h \<longleftrightarrow> prv h a \<noteq> None"
  by (auto simp: nxt_def prv_def)

text \<open>Each node of the sequence points forward to the one after it, and that one back.\<close>

fun chain :: "(nat \<rightharpoonup> nat) \<Rightarrow> (nat \<rightharpoonup> nat) \<Rightarrow> nat list \<Rightarrow> bool" where
  "chain N P (a # b # xs) \<longleftrightarrow> N a = Some b \<and> P b = Some a \<and> chain N P (b # xs)"
| "chain N P _ \<longleftrightarrow> True"

lemma chain_append: "chain N P (us @ p # vs) \<longleftrightarrow> chain N P (us @ [p]) \<and> chain N P (p # vs)"
  by (induction N P us rule: chain.induct) auto

lemma chain_local:
  assumes "chain N P zs" "\<And>a. a \<in> set (butlast zs) \<Longrightarrow> N' a = N a" "\<And>b. b \<in> set (tl zs) \<Longrightarrow> P' b = P b"
  shows "chain N' P' zs"
  using assms
proof (induction N P zs rule: chain.induct)
  case (1 N P a b xs)
  have "chain N P (b # xs)" "N a = Some b" "P b = Some a" using 1(2) by simp_all
  moreover have "chain N' P' (b # xs)"
    by (rule "1.IH"[OF calculation(1)]) (rule 1(3), simp, rule 1(4), simp)
  ultimately show ?case using 1(3)[of a] 1(4)[of b] by simp
qed simp_all

definition ring :: "links \<Rightarrow> nat \<Rightarrow> nat list \<Rightarrow> bool" where
  "ring h head xs \<longleftrightarrow> distinct (head # xs) \<and> 0 \<notin> set (head # xs) \<and> chain (nxt h) (prv h) (head # xs @ [head])"

text \<open>Inserting a node between neighbours, and taking one out.\<close>

lemma chain_insert:
  assumes "chain N P (us @ p # s # vs)" "p \<notin> set us" "s \<notin> set (tl (us @ [p]))" "p \<notin> set (butlast (s # vs))" "s \<notin> set vs"
    "a \<notin> set (us @ p # s # vs)"
  shows "chain (N(p \<mapsto> a, a \<mapsto> s)) (P(s \<mapsto> a, a \<mapsto> p)) (us @ p # a # s # vs)"
proof -
  have c: "chain N P (us @ [p])" "chain N P (s # vs)" using assms(1) chain_append[of N P us p "s # vs"] by auto
  have "a \<notin> set (tl (us @ [p]))" using assms(6) by (cases us) auto
  with c(1) have "chain (N(p \<mapsto> a, a \<mapsto> s)) (P(s \<mapsto> a, a \<mapsto> p)) (us @ [p])"
    using assms by (elim chain_local) auto
  moreover have "chain (N(p \<mapsto> a, a \<mapsto> s)) (P(s \<mapsto> a, a \<mapsto> p)) (s # vs)"
    using c(2) by (rule chain_local) (use assms(4-6) in \<open>auto dest: in_set_butlastD split: if_splits\<close>)
  ultimately show ?thesis using assms by (subst chain_append) auto
qed

lemma chain_remove:
  assumes "chain N P (us @ p # a # s # vs)" "p \<notin> set us" "s \<notin> set (tl (us @ [p]))" "p \<notin> set (butlast (s # vs))" "s \<notin> set vs"
  shows "chain (N(p \<mapsto> s)) (P(s \<mapsto> p)) (us @ p # s # vs)"
proof -
  have c: "chain N P (us @ [p])" "chain N P (s # vs)" using assms(1) chain_append[of N P us p "a # s # vs"] by auto
  have "chain (N(p \<mapsto> s)) (P(s \<mapsto> p)) (us @ [p])" using c(1) by (rule chain_local) (use assms in auto)
  moreover have "chain (N(p \<mapsto> s)) (P(s \<mapsto> p)) (s # vs)" using c(2) by (rule chain_local) (use assms(4,5) in auto)
  ultimately show ?thesis by (subst chain_append) auto
qed

section \<open>Operations on rings\<close>

definition succ_in :: "nat \<Rightarrow> nat list \<Rightarrow> nat" where "succ_in head ws = hd (ws @ [head])"

lemma ring_split:
  assumes "ring h head xs" "head # xs = us @ p # ws"
  obtains vs where "ws @ [head] = succ_in head ws # vs" "chain (nxt h) (prv h) (us @ p # succ_in head ws # vs)"
    "p \<notin> set us" "succ_in head ws \<notin> set (tl (us @ [p]))" "p \<notin> set (butlast (succ_in head ws # vs))" "succ_in head ws \<notin> set vs"
proof -
  obtain vs where vs: "ws @ [head] = succ_in head ws # vs" by (cases ws) (auto simp: succ_in_def)
  have d: "distinct (us @ p # ws)" using assms by (simp add: ring_def)
  have "head # xs @ [head] = us @ p # succ_in head ws # vs" using assms(2) vs by (metis append_Cons append_assoc)
  then have c: "chain (nxt h) (prv h) (us @ p # succ_in head ws # vs)" using assms(1) by (simp add: ring_def)
  have hd: "us @ [p] = head # tl (us @ [p])" using assms(2) by (cases us) auto
  then have "head \<notin> set (tl (us @ [p]))" "head \<notin> set ws \<or> ws = []"
    using d by (metis distinct.simps(2) distinct_append append_Cons append_Nil append_assoc, metis Un_iff append_assoc append_Cons append_Nil disjoint_iff distinct_append list.set_intros(1))
  moreover have "set (tl (us @ [p])) \<inter> set ws = {}" using d by (cases us) auto
  ultimately have "succ_in head ws \<notin> set (tl (us @ [p]))" "succ_in head ws \<notin> set vs"
    using vs d by (cases ws; auto simp: succ_in_def)+
  moreover have "butlast (succ_in head ws # vs) = ws" using vs by (metis butlast_snoc)
  ultimately show ?thesis using that[OF vs c] d by auto
qed

text \<open>What an operation leaves alone.\<close>

definition links_off :: "nat set \<Rightarrow> links \<Rightarrow> links \<Rightarrow> bool" where
  "links_off S h h' \<longleftrightarrow> dom h' = dom h \<and> (\<forall>c. c \<notin> S \<longrightarrow> nxt h' c = nxt h c \<and> prv h' c = prv h c)"

lemma nx_list_add_spec:
  assumes r: "ring h head xs" and sp: "head # xs = us @ p # ws" and a: "a \<noteq> 0" "a \<in> dom h" "a \<notin> set (head # xs)"
  shows "\<exists>h'. nx_list_add h p a = Some h' \<and> ring h' head (tl (us @ p # a # ws)) \<and> links_off (set (a # head # xs)) h h'"
proof -
  let ?s = "succ_in head ws"
  obtain vs where vs: "ws @ [head] = ?s # vs" "chain (nxt h) (prv h) (us @ p # ?s # vs)" "p \<notin> set us" "?s \<notin> set (tl (us @ [p]))"
    "p \<notin> set (butlast (?s # vs))" "?s \<notin> set vs" by (rule ring_split[OF r sp])
  have mem: "set (us @ p # ?s # vs) = set (head # xs)" using sp vs(1) by (metis append_Cons insert_absorb list.set_intros(1) list.simps(15) set_append Un_insert_right sup_bot.right_neutral empty_set append_assoc)
  have np: "nxt h p = Some ?s" "prv h ?s = Some p" using vs(2) chain_append[of "nxt h" "prv h" us p "?s # vs"] by simp_all
  have p0: "p \<noteq> 0" using r sp by (auto simp: ring_def dest: arg_cong[where f = set])
  have ne: "p \<noteq> a" "?s \<noteq> a" using a(3) mem by auto
  obtain h1 where h1: "set_prev h a p = Some h1" "dom h1 = dom h" "nxt h1 = nxt h" "prv h1 = (prv h)(a \<mapsto> p)" using set_prev_effect[OF a(2)] by blast
  obtain n1 where n1: "h1 p = Some n1" "ln_next n1 = ?s" using np(1) h1(3) nxt_Some[of h1 p] by auto
  have "a \<in> dom h1" using a(2) h1(2) by simp
  then obtain h2 where h2: "set_next h1 a ?s = Some h2" "dom h2 = dom h1" "prv h2 = prv h1" "nxt h2 = (nxt h1)(a \<mapsto> ?s)" using set_next_effect by blast
  have "nxt h2 p = Some ?s" using h2(4) h1(3) np(1) ne by simp
  then obtain n2 where n2: "h2 p = Some n2" "ln_next n2 = ?s" using nxt_Some by blast
  have "?s \<in> dom h2" using np(2) h1(2) h2(2) dom_nxt(2)[of ?s h] by simp
  then obtain h3 where h3: "set_prev h2 ?s a = Some h3" "dom h3 = dom h2" "nxt h3 = nxt h2" "prv h3 = (prv h2)(?s \<mapsto> a)" using set_prev_effect by blast
  have "p \<in> dom h3" using n2(1) h3(2) by auto
  then obtain h4 where h4: "set_next h3 p a = Some h4" "dom h4 = dom h3" "prv h4 = prv h3" "nxt h4 = (nxt h3)(p \<mapsto> a)" using set_next_effect by blast
  have run: "nx_list_add h p a = Some h4" using p0 a(1) h1(1) n1 h2(1) n2 h3(1) h4(1) by (simp add: nx_list_add_def)
  have N: "nxt h4 = (nxt h)(p \<mapsto> a, a \<mapsto> ?s)" "prv h4 = (prv h)(?s \<mapsto> a, a \<mapsto> p)"
    using h1 h2 h3 h4 ne by (auto simp: fun_upd_twist)
  have "a \<notin> set (us @ p # ?s # vs)" using a(3) mem by simp
  from chain_insert[OF vs(2-6) this] have "chain (nxt h4) (prv h4) ((us @ p # a # ws) @ [head])" using N vs(1) by simp
  moreover have hd: "us @ p # a # ws = head # tl (us @ p # a # ws)" using sp by (cases us) auto
  moreover have "distinct (us @ p # a # ws)" "0 \<notin> set (us @ p # a # ws)"
  proof -
    have "distinct (us @ p # ws)" "0 \<notin> set (us @ p # ws)" "a \<notin> set (us @ p # ws)" using r sp a by (simp_all add: ring_def)
    then show "distinct (us @ p # a # ws)" "0 \<notin> set (us @ p # a # ws)" using a(1) by auto
  qed
  ultimately have "ring h4 head (tl (us @ p # a # ws))" unfolding ring_def by (metis append_Cons)
  moreover have "p \<in> set (head # xs)" "?s \<in> set (head # xs)" unfolding mem[symmetric] by simp_all
  then have "links_off (set (a # head # xs)) h h4" using h1(2) h2(2) h3(2) h4(2) N unfolding links_off_def by (metis fun_upd_apply list.set_intros)
  ultimately show ?thesis using run by blast
qed

lemma nx_list_del_spec:
  assumes r: "ring h head xs" and sp: "xs = us @ a # ws"
  shows "\<exists>h'. nx_list_del h a = Some h' \<and> ring h' head (us @ ws) \<and> links_off (set (head # us @ ws)) h h'"
proof -
  let ?s = "succ_in head ws"
  obtain us' p where p: "head # us = us' @ [p]" by (metis append_butlast_last_id list.distinct(1))
  have sp1: "head # xs = us' @ p # a # ws" using sp p by (metis append_Cons append_Nil append_assoc)
  have sp2: "head # xs = (us' @ [p]) @ a # ws" using sp1 by simp
  obtain vs where vs: "ws @ [head] = ?s # vs" "chain (nxt h) (prv h) ((us' @ [p]) @ a # ?s # vs)" "?s \<notin> set (tl ((us' @ [p]) @ [a]))" "?s \<notin> set vs"
    by (rule ring_split[OF r sp2])
  have d: "distinct (us' @ p # a # ws)" "0 \<notin> set (us' @ p # a # ws)" using r sp1 by (simp_all add: ring_def)
  have bl: "butlast (?s # vs) = ws" using vs(1) by (metis butlast_snoc)
  have np: "nxt h p = Some a" "prv h a = Some p" "nxt h a = Some ?s" "prv h ?s = Some a"
    using vs(2) chain_append[of "nxt h" "prv h" us' p "a # ?s # vs"] by simp_all
  obtain n where n: "h a = Some n" "ln_next n = ?s" "ln_prev n = p" using np(2,3) nxt_Some prv_Some by (metis option.inject)
  have "p \<in> dom h" using np(1) dom_nxt(1) by auto
  then obtain h1 where h1: "set_next h p ?s = Some h1" "dom h1 = dom h" "prv h1 = prv h" "nxt h1 = (nxt h)(p \<mapsto> ?s)" using set_next_effect by blast
  have "nxt h1 a = Some ?s" "prv h1 a = Some p" using h1(3,4) np d(1) by auto
  then obtain n1 where n1: "h1 a = Some n1" "ln_next n1 = ?s" "ln_prev n1 = p" using nxt_Some prv_Some by (metis option.inject)
  have "?s \<in> dom h1" using np(4) h1(2) dom_nxt(2)[of ?s h] by simp
  then obtain h2 where h2: "set_prev h1 ?s p = Some h2" "dom h2 = dom h1" "nxt h2 = nxt h1" "prv h2 = (prv h1)(?s \<mapsto> p)" using set_prev_effect by blast
  have run: "nx_list_del h a = Some h2" using n h1(1) n1 h2(1) d(2) by (simp add: nx_list_del_def)
  have N: "nxt h2 = (nxt h)(p \<mapsto> ?s)" "prv h2 = (prv h)(?s \<mapsto> p)" using h1 h2 by auto
  have "?s \<notin> set (tl (us' @ [p]))" using vs(3) by (cases us') auto
  from chain_remove[OF _ _ this, of "nxt h" "prv h" a vs] vs(2,4) d(1) bl
  have "chain (nxt h2) (prv h2) (us' @ p # ?s # vs)" unfolding N by auto
  moreover have "us' @ p # ?s # vs = head # (us @ ws) @ [head]" using vs(1) p by (metis append_Cons append_Nil append_assoc)
  moreover have "distinct (head # us @ ws)" "0 \<notin> set (head # us @ ws)" using r sp by (auto simp: ring_def)
  ultimately have "ring h2 head (us @ ws)" by (simp add: ring_def)
  moreover have "p \<in> set (head # us @ ws)" "?s \<in> set (head # us @ ws)"
    using p vs(1) by (metis append_Cons in_set_conv_decomp append_assoc, metis append_Cons insert_iff list.set(2) list.set_intros(1) set_append Un_iff empty_iff empty_set)
  then have "links_off (set (head # us @ ws)) h h2" using h1(2) h2(2) N unfolding links_off_def by (metis fun_upd_apply)
  ultimately show ?thesis using run by blast
qed

lemma nx_list_init_spec:
  assumes "head \<noteq> 0" "head \<in> dom h"
  shows "\<exists>h'. nx_list_init h head = Some h' \<and> ring h' head [] \<and> links_off {head} h h'"
proof -
  obtain h1 where h1: "set_prev h head head = Some h1" "dom h1 = dom h" "nxt h1 = nxt h" "prv h1 = (prv h)(head \<mapsto> head)"
    using set_prev_effect[OF assms(2)] by blast
  then have "head \<in> dom h1" using assms(2) by simp
  from set_next_effect[OF this] obtain h2 where h2: "set_next h1 head head = Some h2" "dom h2 = dom h1" "prv h2 = prv h1" "nxt h2 = (nxt h1)(head \<mapsto> head)"
    by blast
  then show ?thesis using h1 assms(1) by (auto simp: nx_list_init_def ring_def links_off_def)
qed

text \<open>The ends of a ring.\<close>

lemma ring_ends:
  assumes "ring h head xs"
  shows "nxt h head = Some (hd (xs @ [head]))" "prv h head = Some (last (head # xs))" "head \<noteq> 0" "head \<in> dom h"
proof -
  have c: "chain (nxt h) (prv h) (head # xs @ [head])" using assms by (simp add: ring_def)
  then show n: "nxt h head = Some (hd (xs @ [head]))" by (cases xs) simp_all
  obtain us l where l: "head # xs = us @ [l]" by (metis append_butlast_last_id list.distinct(1))
  then have eq: "head # xs @ [head] = us @ l # [head]" by (metis append_Cons append_Nil append_assoc)
  have "chain (nxt h) (prv h) (us @ l # [head])" using c unfolding eq .
  then have "prv h head = Some l" using chain_append[of "nxt h" "prv h" us l "[head]"] by simp
  then show "prv h head = Some (last (head # xs))" unfolding l by simp
  show "head \<noteq> 0" using assms by (simp add: ring_def)
  show "head \<in> dom h" using n dom_nxt(1) by auto
qed

lemma ring_nodes:
  assumes "ring h head xs" "xs = us @ a # ws"
  shows "nxt h a = Some (succ_in head ws)" "a \<in> dom h" "a \<noteq> 0" "a \<noteq> head"
proof -
  have sp: "head # xs = (head # us) @ a # ws" using assms(2) by simp
  obtain vs where "chain (nxt h) (prv h) ((head # us) @ a # succ_in head ws # vs)" by (rule ring_split[OF assms(1) sp])
  then show n: "nxt h a = Some (succ_in head ws)" using chain_append[of "nxt h" "prv h" "head # us" a "succ_in head ws # vs"] by simp
  show "a \<in> dom h" using n dom_nxt(1) by auto
  show "a \<noteq> 0" "a \<noteq> head" using assms by (auto simp: ring_def)
qed

lemma ring_observed:
  assumes "ring h head xs"
  shows "nx_list_is_empty h head = Some (xs = [])" "nx_list_first h head = Some (hd (xs @ [head]))" "nx_list_last h head = Some (last (head # xs))"
proof -
  obtain n where n: "h head = Some n" "ln_next n = hd (xs @ [head])" using ring_ends(1)[OF assms] nxt_Some by blast
  have "ln_prev n = last (head # xs)" using n(1) ring_ends(2)[OF assms] by (simp add: prv_def)
  moreover have "hd (xs @ [head]) = head \<longleftrightarrow> xs = []" using assms by (cases xs) (auto simp: ring_def)
  ultimately show "nx_list_is_empty h head = Some (xs = [])" "nx_list_first h head = Some (hd (xs @ [head]))"
    "nx_list_last h head = Some (last (head # xs))"
    using n ring_ends(3)[OF assms] by (simp_all add: nx_list_is_empty_def nx_list_first_def nx_list_last_def)
qed

text \<open>A walk whose body leaves the links alone visits the nodes in order.\<close>

lemma list_each_visits:
  assumes "ring (get s) head xs" "xs = us @ ws" "\<And>p s. body p s = Some (f p s) \<and> get (f p s) = get s"
  shows "list_each_from get head body (succ_in head ws) s = Some (fold f ws s)"
  using assms(1,2)
proof (induction ws arbitrary: us s)
  case Nil
  then show ?case by (subst list_each_from.simps) (simp add: succ_in_def)
next
  case (Cons a ws)
  have "ring (get (f a s)) head xs" "xs = (us @ [a]) @ ws" using Cons.prems assms(3)[of a s] by simp_all
  note ih = Cons.IH[OF this]
  note n = ring_nodes[OF Cons.prems]
  have "succ_in head (a # ws) = a" by (simp add: succ_in_def)
  moreover obtain m where "get s a = Some m" "ln_next m = succ_in head ws" using n(1) nxt_Some by blast
  ultimately show ?case using assms(3)[of a s] n(4) ih by (subst list_each_from.simps) simp
qed

lemma nx_list_for_each_visits:
  assumes "ring (get s) head xs" "\<And>p s. body p s = Some (f p s) \<and> get (f p s) = get s"
  shows "nx_list_for_each get head body s = Some (fold f xs s)"
proof -
  obtain n where "get s head = Some n" "ln_next n = succ_in head xs" using ring_ends(1)[OF assms(1)] nxt_Some by (metis succ_in_def)
  then show ?thesis using list_each_visits[OF assms(1) _ assms(2), of "[]" xs] by (simp add: nx_list_for_each_def)
qed

section \<open>Refinement of a list\<close>

datatype list_op = Add_head nat | Add_tail nat | Add_after nat nat | Del nat

fun list_op_run :: "nat \<Rightarrow> list_op \<Rightarrow> links \<Rightarrow> links option" where
  "list_op_run head (Add_head a) h = nx_list_add_head h head a"
| "list_op_run head (Add_tail a) h = nx_list_add_tail h head a"
| "list_op_run head (Add_after p a) h = nx_list_add h p a"
| "list_op_run head (Del a) h = nx_list_del h a"

fun insert_after :: "nat \<Rightarrow> nat \<Rightarrow> nat list \<Rightarrow> nat list" where
  "insert_after p a [] = []"
| "insert_after p a (x # xs) = (if x = p then x # a # xs else x # insert_after p a xs)"

fun list_op_abs :: "list_op \<Rightarrow> nat list \<Rightarrow> nat list" where
  "list_op_abs (Add_head a) xs = a # xs"
| "list_op_abs (Add_tail a) xs = xs @ [a]"
| "list_op_abs (Add_after p a) xs = insert_after p a xs"
| "list_op_abs (Del a) xs = remove1 a xs"

text \<open>A node is added when it is in no list and removed when it is in this one, as the header asks.\<close>

fun list_op_legal :: "nat \<Rightarrow> nat set \<Rightarrow> list_op \<Rightarrow> nat list \<Rightarrow> bool" where
  "list_op_legal head D (Add_head a) xs \<longleftrightarrow> a \<noteq> 0 \<and> a \<in> D \<and> a \<notin> set (head # xs)"
| "list_op_legal head D (Add_tail a) xs \<longleftrightarrow> a \<noteq> 0 \<and> a \<in> D \<and> a \<notin> set (head # xs)"
| "list_op_legal head D (Add_after p a) xs \<longleftrightarrow> a \<noteq> 0 \<and> a \<in> D \<and> a \<notin> set (head # xs) \<and> p \<in> set xs"
| "list_op_legal head D (Del a) xs \<longleftrightarrow> a \<in> set xs"

fun list_ops_legal :: "nat \<Rightarrow> nat set \<Rightarrow> list_op list \<Rightarrow> nat list \<Rightarrow> bool" where
  "list_ops_legal head D [] xs = True"
| "list_ops_legal head D (x # ops) xs = (list_op_legal head D x xs \<and> list_ops_legal head D ops (list_op_abs x xs))"

fun list_ops_run :: "nat \<Rightarrow> list_op list \<Rightarrow> links \<Rightarrow> links option" where
  "list_ops_run head [] h = Some h"
| "list_ops_run head (x # ops) h = do { h1 \<leftarrow> list_op_run head x h; list_ops_run head ops h1 }"

lemma insert_after_split: "p \<notin> set us \<Longrightarrow> insert_after p a (us @ p # ws) = us @ p # a # ws"
  by (induction us) auto

lemma nx_list_add_tail_spec:
  assumes r: "ring h head xs" and a: "a \<noteq> 0" "a \<in> dom h" "a \<notin> set (head # xs)"
  shows "\<exists>h'. nx_list_add_tail h head a = Some h' \<and> ring h' head (xs @ [a]) \<and> links_off (set (a # head # xs)) h h'"
proof -
  obtain us l where l: "head # xs = us @ [l]" by (metis append_butlast_last_id list.distinct(1))
  obtain n where n: "h head = Some n" "ln_prev n = l" using ring_ends(2)[OF r] l prv_Some by (metis last_snoc)
  have "tl (us @ l # [a]) = xs @ [a]" using l by (cases us) auto
  then show ?thesis using nx_list_add_spec[OF r l a] n ring_ends(3)[OF r] by (simp add: nx_list_add_tail_def)
qed

lemma list_op_sim:
  assumes "ring h head xs" "list_op_legal head (dom h) x xs"
  shows "\<exists>h'. list_op_run head x h = Some h' \<and> ring h' head (list_op_abs x xs) \<and> dom h' = dom h"
proof (cases x)
  case (Add_head a)
  then show ?thesis using nx_list_add_spec[OF assms(1), of "[]" head xs a] assms(2)
    by (auto simp: nx_list_add_head_def links_off_def)
next
  case (Add_tail a)
  then show ?thesis using nx_list_add_tail_spec[OF assms(1), of a] assms(2) by (auto simp: links_off_def)
next
  case (Add_after p a)
  then obtain us ws where xs: "xs = us @ p # ws" "p \<notin> set us" using assms(2) by (auto dest: split_list_first)
  then have "head # xs = (head # us) @ p # ws" by simp
  from nx_list_add_spec[OF assms(1) this, of a] show ?thesis
    using Add_after assms(2) xs insert_after_split[OF xs(2), of a ws] by (auto simp: links_off_def)
next
  case (Del a)
  then obtain us ws where xs: "xs = us @ a # ws" "a \<notin> set us" using assms(2) by (auto dest: split_list_first)
  then have "remove1 a xs = us @ ws" by (simp add: remove1_append)
  with Del nx_list_del_spec[OF assms(1) xs(1)] show ?thesis by (auto simp: links_off_def)
qed

lemma list_ops_sim:
  assumes "ring h head xs" "list_ops_legal head (dom h) ops xs"
  shows "\<exists>h'. list_ops_run head ops h = Some h' \<and> ring h' head (fold list_op_abs ops xs) \<and> dom h' = dom h"
  using assms
proof (induction ops arbitrary: h xs)
  case (Cons x ops)
  obtain h1 where h1: "list_op_run head x h = Some h1" "ring h1 head (list_op_abs x xs)" "dom h1 = dom h"
    using list_op_sim[OF Cons.prems(1), of x] Cons.prems(2) by auto
  then show ?case using Cons.IH[OF h1(2)] Cons.prems(2) by auto
qed auto

section \<open>Properties\<close>

text \<open>
  C39: after the head was initialised, any sequence of insertions and removals in which a node is added only while it is in no list and removed only
  while it is in this one completes, and what the list operations then report is what the same operations on a list of nodes give: whether it is
  empty, its first and its last node, the head where there is none, and the nodes a walk visits, each once and in order.
\<close>
theorem nx_list_runs_as_list:
  assumes "head \<noteq> 0" "head \<in> dom h" "list_ops_legal head (dom h) ops []"
  shows "\<exists>h0 h'. nx_list_init h head = Some h0 \<and> list_ops_run head ops h0 = Some h' \<and>
    (let xs = fold list_op_abs ops []
     in nx_list_is_empty h' head = Some (xs = []) \<and> nx_list_first h' head = Some (hd (xs @ [head])) \<and>
        nx_list_last h' head = Some (last (head # xs)) \<and>
        nx_list_for_each fst head (\<lambda>p (l, v). Some (l, v @ [p])) (h', []) = Some (h', xs))"
proof -
  obtain h0 where h0: "nx_list_init h head = Some h0" "ring h0 head []" "dom h0 = dom h"
    using nx_list_init_spec[OF assms(1,2)] by (auto simp: links_off_def)
  obtain h' where h': "list_ops_run head ops h0 = Some h'" "ring h' head (fold list_op_abs ops [])"
    using list_ops_sim[OF h0(2), of ops] assms(3) unfolding h0(3) by blast
  have "fold (\<lambda>p (l, v). (l, v @ [p])) xs (h', v) = (h', v @ xs)" for xs and v :: "nat list" by (induction xs arbitrary: v) auto
  moreover have "nx_list_for_each fst head (\<lambda>p (l, v). Some (l, v @ [p])) (h', []) =
      Some (fold (\<lambda>p (l, v). (l, v @ [p])) (fold list_op_abs ops []) (h', []))"
    by (rule nx_list_for_each_visits) (use h'(2) in \<open>auto split: prod.split\<close>)
  ultimately show ?thesis using h0(1) h'(1) ring_observed[OF h'(2)] by (simp add: Let_def)
qed

theorem nx_list_runs_as_list_witness:
  "\<exists>h0 h'. nx_list_init (\<lambda>_. Some \<lparr> ln_prev = 0, ln_next = 0 \<rparr>) 1 = Some h0 \<and>
     list_ops_run 1 [Add_tail 2, Add_head 3, Add_after 3 4, Del 2] h0 = Some h' \<and>
     nx_list_for_each fst 1 (\<lambda>p (l, v). Some (l, v @ [p])) (h', []) = Some (h', [3, 4])"
  using nx_list_runs_as_list[of 1 "\<lambda>_. Some \<lparr> ln_prev = 0, ln_next = 0 \<rparr>" "[Add_tail 2, Add_head 3, Add_after 3 4, Del 2]"]
  by (auto simp: Let_def dom_def)

end
