(* ===== verification/Nx_Timer.thy ===== *)
theory Nx_Timer
  imports Nx_List
begin

text \<open>
  \<open>src/core/nx_timer.c\<close>: software timers on an intrusive list. A timer's list node is its first member, so that node and
  timer have one address; callbacks are function pointers, given a meaning by the parameter \<open>call\<close>, and may themselves
  start and stop timers.
\<close>

section \<open>The code\<close>

record nx_timer =
  t_expire_tick :: u32
  t_interval :: u32
  t_cb :: nat
  t_arg :: nat
  t_active :: bool

text \<open>All timers, the tick a manager saw last, the links of both, and whatever else the callbacks act on.\<close>

record 'e timer_world =
  tw_links :: links
  tw_timers :: "nat \<rightharpoonup> nx_timer"
  tw_last_tick :: "nat \<rightharpoonup> u32"
  tw_env :: 'e

definition put_timer :: "nat \<Rightarrow> nx_timer \<Rightarrow> 'e timer_world \<Rightarrow> 'e timer_world" where
  "put_timer t r w = w\<lparr> tw_timers := (tw_timers w)(t \<mapsto> r) \<rparr>"

definition put_last_tick :: "nat \<Rightarrow> u32 \<Rightarrow> 'e timer_world \<Rightarrow> 'e timer_world option" where
  "put_last_tick mgr now w = do { _ \<leftarrow> tw_last_tick w mgr; Some (w\<lparr> tw_last_tick := (tw_last_tick w)(mgr \<mapsto> now) \<rparr>) }"

definition nx_timer_mgr_init :: "nat \<Rightarrow> 'e timer_world \<Rightarrow> 'e timer_world option" where
  "nx_timer_mgr_init mgr w =
     (if mgr = 0 then Some w
      else do { h \<leftarrow> nx_list_init (tw_links w) mgr; put_last_tick mgr 0 (w\<lparr> tw_links := h \<rparr>) })"

definition nx_timer_init :: "nat \<Rightarrow> nat \<Rightarrow> nat \<Rightarrow> 'e timer_world \<Rightarrow> 'e timer_world option" where
  "nx_timer_init t cb arg w =
     (if t = 0 then Some w
      else do {
        h \<leftarrow> nx_list_init (tw_links w) t;
        _ \<leftarrow> tw_timers w t;
        Some (put_timer t \<lparr> t_expire_tick = 0, t_interval = 0, t_cb = cb, t_arg = arg, t_active = False \<rparr> (w\<lparr> tw_links := h \<rparr>)) })"

definition nx_timer_start :: "nat \<Rightarrow> nat \<Rightarrow> u32 \<Rightarrow> u32 \<Rightarrow> 'e timer_world \<Rightarrow> 'e timer_world option" where
  "nx_timer_start mgr t delay period w =
     (if mgr = 0 \<or> t = 0 then Some w
      else do {
        r \<leftarrow> tw_timers w t;
        if t_cb r = 0 then Some w
        else do {
          h1 \<leftarrow> (if t_active r then nx_list_del (tw_links w) t else Some (tw_links w));
          last \<leftarrow> tw_last_tick w mgr;
          let w1 = put_timer t (r\<lparr> t_expire_tick := last + delay, t_interval := period, t_active := True \<rparr>) (w\<lparr> tw_links := h1 \<rparr>);
          h2 \<leftarrow> nx_list_add_tail (tw_links w1) mgr t;
          Some (w1\<lparr> tw_links := h2 \<rparr>) } })"

definition nx_timer_stop :: "nat \<Rightarrow> 'e timer_world \<Rightarrow> 'e timer_world option" where
  "nx_timer_stop t w =
     (if t = 0 then Some w
      else do {
        r \<leftarrow> tw_timers w t;
        if \<not> t_active r then Some w
        else do {
          h \<leftarrow> nx_list_del (tw_links w) t;
          Some (put_timer t (r\<lparr> t_active := False \<rparr>) (w\<lparr> tw_links := h \<rparr>)) } })"

type_synonym 'e timer_call = "nat \<Rightarrow> nat \<Rightarrow> nat \<Rightarrow> 'e timer_world \<Rightarrow> 'e timer_world option"

text \<open>The tick \<open>expire\<close> is reached: the difference is not negative as a signed number.\<close>

definition timer_due :: "u32 \<Rightarrow> u32 \<Rightarrow> bool" where
  "timer_due now expire \<longleftrightarrow> 0 \<le> sint (now - expire)"

definition timer_notify :: "'e timer_call \<Rightarrow> nat \<Rightarrow> 'e timer_world \<Rightarrow> 'e timer_world option" where
  "timer_notify call t w = do { r \<leftarrow> tw_timers w t; if t_cb r \<noteq> 0 then call (t_cb r) t (t_arg r) w else Some w }"

definition timer_visit :: "'e timer_call \<Rightarrow> u32 \<Rightarrow> nat \<Rightarrow> 'e timer_world \<Rightarrow> 'e timer_world option" where
  "timer_visit call now t w = do {
     r \<leftarrow> tw_timers w t;
     if \<not> t_active r then Some w
     else if timer_due now (t_expire_tick r) then
       (if t_interval r = 0 then do {
          h \<leftarrow> nx_list_del (tw_links w) t;
          timer_notify call t (put_timer t (r\<lparr> t_active := False \<rparr>) (w\<lparr> tw_links := h \<rparr>)) }
        else timer_notify call t (put_timer t (r\<lparr> t_expire_tick := t_expire_tick r + t_interval r \<rparr>) w))
     else Some w }"

definition nx_timer_mgr_process :: "'e timer_call \<Rightarrow> nat \<Rightarrow> u32 \<Rightarrow> 'e timer_world \<Rightarrow> 'e timer_world option" where
  "nx_timer_mgr_process call mgr now w =
     (if mgr = 0 then Some w
      else do {
        w1 \<leftarrow> put_last_tick mgr now w;
        nx_list_for_each_safe tw_links mgr (timer_visit call now) w1 })"

section \<open>Timers as a list\<close>

text \<open>
  The abstract state of a manager: the running timers in the order in which they were started, the control blocks, and the rest. A callback
  decides from its arguments what to do with its timer.
\<close>

datatype timer_action = Leave | Stop_it | Restart u32 u32

type_synonym 'e timer_code = "nat \<Rightarrow> nat \<Rightarrow> nat \<Rightarrow> 'e \<Rightarrow> timer_action \<times> 'e"

text \<open>A callback that does anything to its environment and may stop or restart its own timer.\<close>

definition own_timer_call :: "nat \<Rightarrow> 'e timer_code \<Rightarrow> 'e timer_call" where
  "own_timer_call mgr code f t arg w =
     (let (act, e) = code f t arg (tw_env w); w1 = w\<lparr> tw_env := e \<rparr>
      in case act of Leave \<Rightarrow> Some w1 | Stop_it \<Rightarrow> nx_timer_stop t w1 | Restart delay period \<Rightarrow> nx_timer_start mgr t delay period w1)"

record 'e timer_abs =
  ta_running :: "nat list"
  ta_timers :: "nat \<rightharpoonup> nx_timer"
  ta_env :: 'e

definition abs_stop :: "nat \<Rightarrow> 'e timer_abs \<Rightarrow> 'e timer_abs" where
  "abs_stop t a = a\<lparr> ta_running := remove1 t (ta_running a), ta_timers := (ta_timers a)(t \<mapsto> (the (ta_timers a t))\<lparr> t_active := False \<rparr>) \<rparr>"

definition abs_start :: "nat \<Rightarrow> u32 \<Rightarrow> u32 \<Rightarrow> 'e timer_abs \<Rightarrow> 'e timer_abs" where
  "abs_start t expire period a = a\<lparr> ta_running := remove1 t (ta_running a) @ [t],
     ta_timers := (ta_timers a)(t \<mapsto> (the (ta_timers a t))\<lparr> t_expire_tick := expire, t_interval := period, t_active := True \<rparr>) \<rparr>"

text \<open>A timer fires: it stops or is reloaded, and then its callback acts.\<close>

definition abs_act :: "u32 \<Rightarrow> nat \<Rightarrow> timer_action \<times> 'e \<Rightarrow> 'e timer_abs \<Rightarrow> 'e timer_abs" where
  "abs_act now t x a =
     (let a1 = a\<lparr> ta_env := snd x \<rparr>
      in case fst x of Leave \<Rightarrow> a1 | Stop_it \<Rightarrow> abs_stop t a1 | Restart delay period \<Rightarrow> abs_start t (now + delay) period a1)"

definition abs_reload :: "nat \<Rightarrow> 'e timer_abs \<Rightarrow> 'e timer_abs" where
  "abs_reload t a = (let r = the (ta_timers a t)
     in if t_interval r = 0 then abs_stop t a
        else a\<lparr> ta_timers := (ta_timers a)(t \<mapsto> r\<lparr> t_expire_tick := t_expire_tick r + t_interval r \<rparr>) \<rparr>)"

definition abs_fire :: "'e timer_code \<Rightarrow> u32 \<Rightarrow> nat \<Rightarrow> 'e timer_abs \<Rightarrow> 'e timer_abs" where
  "abs_fire code now t a =
     (let r = the (ta_timers a t); a1 = abs_reload t a in abs_act now t (code (t_cb r) t (t_arg r) (ta_env a1)) a1)"

definition abs_due :: "u32 \<Rightarrow> 'e timer_abs \<Rightarrow> nat \<Rightarrow> bool" where
  "abs_due now a t \<longleftrightarrow> timer_due now (t_expire_tick (the (ta_timers a t)))"

text \<open>The state of a manager that is in order: its list holds exactly the active timers, and each has a callback.\<close>

definition timers_in :: "nat \<Rightarrow> u32 \<Rightarrow> 'e timer_world \<Rightarrow> 'e timer_abs \<Rightarrow> bool" where
  "timers_in mgr tick w a \<longleftrightarrow> ring (tw_links w) mgr (ta_running a) \<and> tw_timers w = ta_timers a \<and> tw_env w = ta_env a \<and>
     tw_last_tick w mgr = Some tick \<and> mgr \<notin> dom (ta_timers a) \<and> dom (ta_timers a) \<subseteq> dom (tw_links w) - {0} \<and>
     (\<forall>t r. ta_timers a t = Some r \<longrightarrow> (t_active r \<longleftrightarrow> t \<in> set (ta_running a)) \<and> (t_active r \<longrightarrow> t_cb r \<noteq> 0)) \<and>
     set (ta_running a) \<subseteq> dom (ta_timers a)"

lemma timers_in_ring: "timers_in mgr tick w a \<Longrightarrow> ring (tw_links w) mgr (ta_running a)"
  by (simp add: timers_in_def)

lemma ring_del:
  assumes "ring h head xs" "a \<in> set xs"
  shows "\<exists>h'. nx_list_del h a = Some h' \<and> ring h' head (remove1 a xs) \<and> dom h' = dom h"
proof -
  obtain us ws where xs: "xs = us @ a # ws" "a \<notin> set us" using assms(2) by (auto dest: split_list_first)
  then have "remove1 a xs = us @ ws" by (simp add: remove1_append)
  with nx_list_del_spec[OF assms(1) xs(1)] show ?thesis by (auto simp: links_off_def)
qed

lemma timer_stop_sim:
  assumes abs: "timers_in mgr tick w a" and t: "t \<in> dom (ta_timers a)"
  shows "\<exists>w'. nx_timer_stop t w = Some w' \<and> timers_in mgr tick w' (if t \<in> set (ta_running a) then abs_stop t a else a)"
proof -
  obtain r where r: "ta_timers a t = Some r" "tw_timers w t = Some r" "t_active r \<longleftrightarrow> t \<in> set (ta_running a)" "t \<noteq> 0"
    using assms unfolding timers_in_def by fastforce
  show ?thesis
  proof (cases "t \<in> set (ta_running a)")
    case True
    obtain h where h: "nx_list_del (tw_links w) t = Some h" "ring h mgr (remove1 t (ta_running a))" "dom h = dom (tw_links w)"
      using ring_del[OF timers_in_ring[OF abs] True] by blast
    have d: "distinct (ta_running a)" using timers_in_ring[OF abs] by (simp add: ring_def)
    let ?w = "put_timer t (r\<lparr> t_active := False \<rparr>) (w\<lparr> tw_links := h \<rparr>)"
    have "nx_timer_stop t w = Some ?w" using r h(1) True by (simp add: nx_timer_stop_def)
    moreover have "timers_in mgr tick ?w (abs_stop t a)"
      using abs h r(1) d unfolding timers_in_def by (auto simp: abs_stop_def put_timer_def)
    ultimately show ?thesis using True by simp
  next
    case False
    then show ?thesis using r abs by (simp add: nx_timer_stop_def)
  qed
qed

lemma timer_start_sim:
  assumes abs: "timers_in mgr tick w a" and t: "ta_timers a t = Some r" "t_cb r \<noteq> 0"
  shows "\<exists>w'. nx_timer_start mgr t delay period w = Some w' \<and> timers_in mgr tick w' (abs_start t (tick + delay) period a)"
proof -
  have r: "tw_timers w t = Some r" "t_active r \<longleftrightarrow> t \<in> set (ta_running a)" "t \<noteq> 0" "t \<noteq> mgr" "t \<in> dom (tw_links w)"
    using abs t unfolding timers_in_def by fastforce+
  have ring: "ring (tw_links w) mgr (ta_running a)" by (rule timers_in_ring[OF abs])
  have d: "distinct (ta_running a)" using ring by (simp add: ring_def)
  obtain h1 where h1: "(if t_active r then nx_list_del (tw_links w) t else Some (tw_links w)) = Some h1"
    "ring h1 mgr (remove1 t (ta_running a))" "dom h1 = dom (tw_links w)"
  proof (cases "t_active r")
    case True
    then show ?thesis using that ring_del[OF ring, of t] r(2) by auto
  next
    case False
    then show ?thesis using that ring r(2) by (simp add: remove1_idem)
  qed
  have "t \<notin> set (mgr # remove1 t (ta_running a))" using d r(4) by simp
  then obtain h2 where h2: "nx_list_add_tail h1 mgr t = Some h2" "ring h2 mgr (remove1 t (ta_running a) @ [t])" "dom h2 = dom h1"
    using nx_list_add_tail_spec[OF h1(2) r(3), of] r(5) h1(3) by (auto simp: links_off_def)
  let ?w = "put_timer t (r\<lparr> t_expire_tick := tick + delay, t_interval := period, t_active := True \<rparr>) (w\<lparr> tw_links := h2 \<rparr>)"
  have m: "mgr \<noteq> 0" "tw_last_tick w mgr = Some tick" using ring_ends(3)[OF ring] abs by (simp_all add: timers_in_def)
  have "nx_timer_start mgr t delay period w = Some ?w"
    using r h1(1) h2(1) t(2) m by (simp add: nx_timer_start_def put_timer_def)
  moreover have "timers_in mgr tick ?w (abs_start t (tick + delay) period a)"
    using abs h2(2,3) h1(3) t d unfolding timers_in_def by (auto simp: abs_start_def put_timer_def)
  ultimately show ?thesis by blast
qed

lemma abs_stop_idle: "timers_in mgr tick w a \<Longrightarrow> t \<in> dom (ta_timers a) \<Longrightarrow> t \<notin> set (ta_running a) \<Longrightarrow> abs_stop t a = a"
  unfolding timers_in_def by (auto simp: abs_stop_def remove1_idem fun_upd_idem)

lemma timer_stop_sim2:
  assumes "timers_in mgr tick w a" "t \<in> dom (ta_timers a)"
  shows "\<exists>w'. nx_timer_stop t w = Some w' \<and> timers_in mgr tick w' (abs_stop t a)"
  using timer_stop_sim[OF assms] abs_stop_idle[OF assms] by (auto split: if_splits)

lemma timers_in_env: "timers_in mgr tick w a \<Longrightarrow> timers_in mgr tick (w\<lparr> tw_env := e \<rparr>) (a\<lparr> ta_env := e \<rparr>)"
  by (simp add: timers_in_def)

lemma own_call_sim:
  assumes "timers_in mgr tick w a" "ta_timers a t = Some r" "t_cb r \<noteq> 0"
  shows "\<exists>w'. own_timer_call mgr code f t arg w = Some w' \<and> timers_in mgr tick w' (abs_act tick t (code f t arg (ta_env a)) a)"
proof -
  obtain act e where c: "code f t arg (ta_env a) = (act, e)" by fastforce
  have env: "tw_env w = ta_env a" using assms(1) by (simp add: timers_in_def)
  have a1: "timers_in mgr tick (w\<lparr> tw_env := e \<rparr>) (a\<lparr> ta_env := e \<rparr>)" by (rule timers_in_env[OF assms(1)])
  show ?thesis
  proof (cases act)
    case Leave
    then show ?thesis using a1 c env by (simp add: own_timer_call_def abs_act_def)
  next
    case Stop_it
    then show ?thesis using timer_stop_sim2[OF a1, of t] assms(2) c env by (auto simp: own_timer_call_def abs_act_def)
  next
    case (Restart d p)
    then show ?thesis using timer_start_sim[OF a1, of t r d p] assms(2,3) c env by (auto simp: own_timer_call_def abs_act_def)
  qed
qed

lemma timers_in_running:
  assumes "timers_in mgr tick w a" "t \<in> set (ta_running a)"
  obtains r where "ta_timers a t = Some r" "tw_timers w t = Some r" "t_active r" "t_cb r \<noteq> 0" "t \<noteq> 0"
  using assms unfolding timers_in_def by fastforce

lemma timer_visit_due:
  assumes abs: "timers_in mgr now w a" and t: "t \<in> set (ta_running a)" and due: "abs_due now a t"
  shows "\<exists>w'. timer_visit (own_timer_call mgr code) now t w = Some w' \<and> timers_in mgr now w' (abs_fire code now t a)"
proof -
  obtain r where r: "ta_timers a t = Some r" "tw_timers w t = Some r" "t_active r" "t_cb r \<noteq> 0" "t \<noteq> 0" by (rule timers_in_running[OF abs t])
  have d: "timer_due now (t_expire_tick r)" using due r(1) by (simp add: abs_due_def)
  obtain w1 r1 where w1: "timer_visit (own_timer_call mgr code) now t w = timer_notify (own_timer_call mgr code) t w1"
    "timers_in mgr now w1 (abs_reload t a)" "ta_timers (abs_reload t a) t = Some r1" "t_cb r1 = t_cb r" "t_arg r1 = t_arg r"
  proof (cases "t_interval r = 0")
    case True
    obtain h where h: "nx_list_del (tw_links w) t = Some h" using ring_del[OF timers_in_ring[OF abs] t] by blast
    let ?w = "put_timer t (r\<lparr> t_active := False \<rparr>) (w\<lparr> tw_links := h \<rparr>)"
    have "nx_timer_stop t w = Some ?w" using r h by (simp add: nx_timer_stop_def)
    then have "timers_in mgr now ?w (abs_stop t a)" using timer_stop_sim2[OF abs, of t] r(1) by auto
    then show ?thesis using that[of ?w "r\<lparr> t_active := False \<rparr>"] True r d h by (simp add: timer_visit_def abs_reload_def) (simp add: abs_stop_def)
  next
    case False
    let ?r = "r\<lparr> t_expire_tick := t_expire_tick r + t_interval r \<rparr>"
    have "timers_in mgr now (put_timer t ?r w) (a\<lparr> ta_timers := (ta_timers a)(t \<mapsto> ?r) \<rparr>)"
      using abs r(1) unfolding timers_in_def by (auto simp: put_timer_def)
    then show ?thesis using that[of "put_timer t ?r w" ?r] False r d by (simp add: timer_visit_def abs_reload_def)
  qed
  have "tw_timers w1 t = Some r1" using w1(2,3) by (simp add: timers_in_def)
  then have "timer_notify (own_timer_call mgr code) t w1 = own_timer_call mgr code (t_cb r) t (t_arg r) w1"
    using w1(4,5) r(4) by (simp add: timer_notify_def)
  moreover obtain w' where "own_timer_call mgr code (t_cb r) t (t_arg r) w1 = Some w'"
    "timers_in mgr now w' (abs_act now t (code (t_cb r) t (t_arg r) (ta_env (abs_reload t a))) (abs_reload t a))"
    using own_call_sim[OF w1(2,3), of code "t_cb r" "t_arg r"] w1(4) r(4) by auto
  ultimately show ?thesis using w1(1) r(1) by (auto simp: abs_fire_def Let_def)
qed

lemma timer_visit_not_due:
  assumes "timers_in mgr now w a" "t \<in> set (ta_running a)" "\<not> abs_due now a t"
  shows "timer_visit call now t w = Some w"
proof -
  obtain r where "ta_timers a t = Some r" "tw_timers w t = Some r" by (rule timers_in_running[OF assms(1,2)])
  then show ?thesis using assms(3) by (auto simp: timer_visit_def abs_due_def)
qed

text \<open>A restart with a delay that is not 0 and at most half of the range of ticks is not due in the same pass.\<close>

definition code_delays :: "'e timer_code \<Rightarrow> bool" where
  "code_delays code \<longleftrightarrow> (\<forall>f t arg e. case fst (code f t arg e) of Restart delay period \<Rightarrow> 0 < unat delay \<and> unat delay \<le> 2 ^ 31 | _ \<Rightarrow> True)"

lemma not_due_later:
  assumes "0 < unat (d :: u32)" "unat d \<le> 2 ^ 31"
  shows "\<not> timer_due now (now + d)"
proof -
  define m where "m = 2 ^ 32 - unat d"
  have "(of_nat (m + unat d) :: u32) = of_nat (2 ^ 32)" using unsigned_less[of d, where ?'a = nat] by (simp add: m_def)
  then have "of_nat m + d = 0" by simp
  then have "now - (now + d) = of_nat m" by (simp add: add_eq_0_iff2)
  moreover have "bit (of_nat m :: u32) 31"
  proof -
    have "2 ^ 31 \<le> m" "m < 2 ^ 32" using assms by (simp_all add: m_def)
    then have "m div 2 ^ 31 = 1" by (simp add: div_nat_eqI)
    then have "bit m 31" by (simp add: bit_iff_odd)
    then show ?thesis by (simp add: bit_simps)
  qed
  ultimately show ?thesis using bit_last_iff[of "of_nat m :: u32"] by (simp add: timer_due_def)
qed

lemma abs_fire_effect:
  assumes ring: "distinct (ta_running a)" and code: "code_delays code"
  shows "\<And>u. u \<noteq> t \<Longrightarrow> ta_timers (abs_fire code now t a) u = ta_timers a u"
    "ta_running (abs_fire code now t a) \<in> {ta_running a, remove1 t (ta_running a)} \<or>
     ta_running (abs_fire code now t a) = remove1 t (ta_running a) @ [t] \<and> \<not> abs_due now (abs_fire code now t a) t"
proof -
  let ?r = "the (ta_timers a t)" and ?a = "abs_reload t a"
  obtain act e where c: "code (t_cb ?r) t (t_arg ?r) (ta_env ?a) = (act, e)" by fastforce
  have fire: "abs_fire code now t a = abs_act now t (act, e) ?a" using c by (simp add: abs_fire_def Let_def)
  have rl: "\<And>u. u \<noteq> t \<Longrightarrow> ta_timers ?a u = ta_timers a u" "ta_running ?a \<in> {ta_running a, remove1 t (ta_running a)}"
    by (auto simp: abs_reload_def abs_stop_def Let_def)
  then show "\<And>u. u \<noteq> t \<Longrightarrow> ta_timers (abs_fire code now t a) u = ta_timers a u"
    unfolding fire by (cases act) (auto simp: abs_act_def abs_stop_def abs_start_def Let_def)
  have idem: "remove1 t (ta_running ?a) = remove1 t (ta_running a)" using rl(2) ring by (auto simp: remove1_idem)
  show "ta_running (abs_fire code now t a) \<in> {ta_running a, remove1 t (ta_running a)} \<or>
     ta_running (abs_fire code now t a) = remove1 t (ta_running a) @ [t] \<and> \<not> abs_due now (abs_fire code now t a) t"
  proof (cases act)
    case (Restart d p)
    have "case fst (code (t_cb ?r) t (t_arg ?r) (ta_env ?a)) of Restart delay period \<Rightarrow> 0 < unat delay \<and> unat delay \<le> 2 ^ 31 | _ \<Rightarrow> True"
      using code unfolding code_delays_def by blast
    then have "0 < unat d" "unat d \<le> 2 ^ 31" unfolding c Restart by simp_all
    then have "\<not> abs_due now (abs_fire code now t a) t" unfolding fire by (simp add: Restart abs_act_def abs_start_def abs_due_def not_due_later)
    moreover have "ta_running (abs_fire code now t a) = remove1 t (ta_running a) @ [t]" unfolding fire by (simp add: Restart abs_act_def abs_start_def idem)
    ultimately show ?thesis by blast
  qed (use rl(2) idem in \<open>auto simp: fire abs_act_def abs_stop_def\<close>)
qed

section \<open>The pass over the timers\<close>

lemma timer_pass_rest:
  assumes abs: "timers_in mgr now w a" and run: "ta_running a = kept @ qs" and q: "\<And>t. t \<in> set qs \<Longrightarrow> \<not> abs_due now a t"
    and n: "qs \<noteq> [] \<Longrightarrow> n = succ_in mgr (tl qs)"
  shows "list_each_safe_from tw_links mgr (timer_visit call now) (succ_in mgr qs) n w = Some w"
  using run q n
proof (induction qs arbitrary: kept n)
  case Nil
  then show ?case by (subst list_each_safe_from.simps) (simp add: succ_in_def)
next
  case (Cons t qs)
  note ring = timers_in_ring[OF abs]
  have v: "timer_visit call now t w = Some w" by (rule timer_visit_not_due[OF abs]) (use Cons.prems(1,2) in auto)
  have nq: "n = succ_in mgr qs" using Cons.prems(3) by simp
  have "t \<noteq> mgr" using ring Cons.prems(1) by (auto simp: ring_def)
  obtain m where m: "tw_links w n = Some m" "qs \<noteq> [] \<Longrightarrow> ln_next m = succ_in mgr (tl qs)"
  proof (cases qs)
    case Nil
    then show ?thesis using that ring_ends(4)[OF ring] nq by (auto simp: succ_in_def)
  next
    case (Cons u us)
    then have "ta_running a = (kept @ [t]) @ u # us" using \<open>ta_running a = kept @ t # qs\<close> by simp
    from ring_nodes(1)[OF ring this] show ?thesis using that nq Cons nxt_Some[of "tw_links w" u] by (auto simp: succ_in_def)
  qed
  have "list_each_safe_from tw_links mgr (timer_visit call now) (succ_in mgr qs) (ln_next m) w = Some w"
    by (rule Cons.IH[of "kept @ [t]"]) (use Cons.prems m in auto)
  then show ?case using v \<open>t \<noteq> mgr\<close> m(1) nq by (subst list_each_safe_from.simps) (simp add: succ_in_def)
qed

lemma abs_due_same: "ta_timers b t = ta_timers a t \<Longrightarrow> abs_due now b t = abs_due now a t"
  by (simp add: abs_due_def)

lemma timer_pass:
  assumes abs: "timers_in mgr now w a" and run: "ta_running a = kept @ ys @ qs" and q: "\<And>t. t \<in> set qs \<Longrightarrow> \<not> abs_due now a t"
    and n: "ys @ qs \<noteq> [] \<Longrightarrow> n = succ_in mgr (tl (ys @ qs))" and code: "code_delays code"
  shows "\<exists>w'. list_each_safe_from tw_links mgr (timer_visit (own_timer_call mgr code) now) (succ_in mgr (ys @ qs)) n w = Some w' \<and>
    timers_in mgr now w' (fold (abs_fire code now) (filter (abs_due now a) ys) a)"
  using abs run q n
proof (induction ys arbitrary: kept qs n w a)
  case Nil
  then show ?case using timer_pass_rest[OF Nil(1), of kept qs n] by auto
next
  case (Cons t ys)
  let ?body = "timer_visit (own_timer_call mgr code) now"
  note ring = timers_in_ring[OF Cons.prems(1)]
  have d: "distinct (kept @ t # ys @ qs)" "t \<noteq> mgr" using ring Cons.prems(2) by (auto simp: ring_def)
  have rem: "remove1 t (ta_running a) = kept @ ys @ qs" using d(1) Cons.prems(2) by (simp add: remove1_append)
  define a' where "a' = (if abs_due now a t then abs_fire code now t a else a)"
  obtain w' where w': "?body t w = Some w'" "timers_in mgr now w' a'"
    using timer_visit_due[OF Cons.prems(1), of t code] timer_visit_not_due[OF Cons.prems(1), of t] Cons.prems(1,2)
    by (cases "abs_due now a t") (auto simp: a'_def)
  have dist: "distinct (ta_running a)" using ring by (simp add: ring_def)
  have other: "ta_timers a' u = ta_timers a u" if "u \<noteq> t" for u
    using abs_fire_effect(1)[OF dist code that] by (simp add: a'_def)
  have same: "abs_due now a' u = abs_due now a u" if "u \<in> set (ys @ qs)" for u
    using that d(1) by (intro abs_due_same other) auto
  have sn: "succ_in mgr ((t # ys) @ qs) = t" "n = succ_in mgr (ys @ qs)" using Cons.prems(4) by (simp_all add: succ_in_def)
  obtain kept' qs' where k: "ta_running a' = kept' @ ys @ qs'" "\<And>u. u \<in> set qs' \<Longrightarrow> \<not> abs_due now a' u"
    "succ_in mgr (ys @ qs') = succ_in mgr (ys @ qs)"
  proof -
    have "ta_running a' = ta_running a \<or> ta_running a' = kept @ ys @ qs \<or> ta_running a' = (kept @ ys @ qs) @ [t] \<and> \<not> abs_due now a' t"
      using abs_fire_effect(2)[OF dist code, of now t] unfolding rem by (cases "abs_due now a t") (auto simp: a'_def)
    then consider "ta_running a' = ta_running a" | "ta_running a' = kept @ ys @ qs"
      | "ta_running a' = (kept @ ys @ qs) @ [t]" "\<not> abs_due now a' t" by blast
    then show ?thesis
    proof cases
      case 1
      then show ?thesis using that[of "kept @ [t]" qs] Cons.prems(2,3) same by auto
    next
      case 2
      then show ?thesis using that[of kept qs] Cons.prems(3) same by auto
    next
      case 3
      show ?thesis
      proof (cases "ys @ qs = []")
        case True
        then show ?thesis using that[of "kept @ [t]" "[]"] 3 by simp
      next
        case False
        then have "succ_in mgr (ys @ qs @ [t]) = succ_in mgr (ys @ qs)" by (cases ys; cases qs) (auto simp: succ_in_def)
        then show ?thesis using that[of kept "qs @ [t]"] 3 Cons.prems(3) same by auto
      qed
    qed
  qed
  have ring': "ring (tw_links w') mgr (kept' @ ys @ qs')" using timers_in_ring[OF w'(2)] k(1) by simp
  obtain m where m: "tw_links w' n = Some m" "ys @ qs' \<noteq> [] \<Longrightarrow> ln_next m = succ_in mgr (tl (ys @ qs'))"
  proof (cases "ys @ qs'")
    case Nil
    then have "n = mgr" using sn(2) k(3) by (simp add: succ_in_def)
    then show ?thesis using that ring_ends(4)[OF ring'] Nil by auto
  next
    case (Cons u us)
    then have "kept' @ ys @ qs' = kept' @ u # us" "n = u" using sn(2) k(3) by (simp_all add: succ_in_def)
    then show ?thesis using that Cons ring_nodes(1)[OF ring', of kept' u us] nxt_Some[of "tw_links w'" u] by auto
  qed
  obtain w2 where w2: "list_each_safe_from tw_links mgr ?body (succ_in mgr (ys @ qs')) (ln_next m) w' = Some w2"
    "timers_in mgr now w2 (fold (abs_fire code now) (filter (abs_due now a') ys) a')"
    using Cons.IH[OF w'(2) k(1,2) m(2)] by blast
  have "filter (abs_due now a') ys = filter (abs_due now a) ys" using same by (intro filter_cong) auto
  then have "fold (abs_fire code now) (filter (abs_due now a) (t # ys)) a = fold (abs_fire code now) (filter (abs_due now a') ys) a'"
    by (simp add: a'_def)
  moreover have "list_each_safe_from tw_links mgr ?body (succ_in mgr ((t # ys) @ qs)) n w = Some w2"
    unfolding sn(1) using d(2) w'(1) m(1) w2(1) sn(2) k(3) by (subst list_each_safe_from.simps) simp
  ultimately show ?case using w2(2) by simp
qed

lemma nx_timer_mgr_process_spec:
  assumes abs: "timers_in mgr tick w a" and code: "code_delays code"
  shows "\<exists>w'. nx_timer_mgr_process (own_timer_call mgr code) mgr now w = Some w' \<and>
    timers_in mgr now w' (fold (abs_fire code now) (filter (abs_due now a) (ta_running a)) a)"
proof -
  let ?w = "w\<lparr> tw_last_tick := (tw_last_tick w)(mgr \<mapsto> now) \<rparr>"
  have a1: "timers_in mgr now ?w a" using abs by (simp add: timers_in_def)
  note ring = timers_in_ring[OF a1]
  have put: "put_last_tick mgr now w = Some ?w" using abs by (simp add: timers_in_def put_last_tick_def)
  obtain h where h: "tw_links w mgr = Some h" "ln_next h = succ_in mgr (ta_running a)"
    using ring_ends(1)[OF ring] nxt_Some[of "tw_links ?w" mgr] by (auto simp: succ_in_def)
  obtain p where p: "tw_links w (succ_in mgr (ta_running a)) = Some p"
    "ta_running a \<noteq> [] \<Longrightarrow> ln_next p = succ_in mgr (tl (ta_running a))"
  proof (cases "ta_running a")
    case Nil
    then show ?thesis using that h(1) by (simp add: succ_in_def)
  next
    case (Cons t ts)
    then show ?thesis using that ring_nodes(1)[OF ring, of "[]" t ts] nxt_Some[of "tw_links ?w" t] by (auto simp: succ_in_def)
  qed
  have "mgr \<noteq> 0" using ring by (simp add: ring_def)
  then show ?thesis using timer_pass[OF a1, of "[]" "ta_running a" "[]" "ln_next p" code] p(2) code put h p(1)
    by (simp add: nx_timer_mgr_process_def nx_list_for_each_safe_def)
qed

text \<open>
  Without the bound on the delays the pass need not end: two timers that restart themselves without a delay follow each other for ever.
\<close>

definition hasty :: "'e timer_code" where
  "hasty f t arg e = (Restart 0 0, e)"

definition hasty_pair :: "nat \<Rightarrow> u32 \<Rightarrow> nat \<Rightarrow> nat \<Rightarrow> 'e timer_world \<Rightarrow> bool" where
  "hasty_pair mgr now t u w \<longleftrightarrow> (\<exists>a. timers_in mgr now w a \<and> ta_running a = [t, u] \<and> abs_due now a t \<and> abs_due now a u \<and> t \<noteq> u)"

lemma hasty_fire:
  assumes "timers_in mgr now w a" "ta_running a = [t, u]" "t \<noteq> u"
  shows "ta_running (abs_fire hasty now t a) = [u, t]" "abs_due now (abs_fire hasty now t a) t"
    "abs_due now (abs_fire hasty now t a) u = abs_due now a u"
  using assms(2,3) by (simp_all add: abs_fire_def abs_act_def hasty_def abs_reload_def abs_start_def abs_stop_def abs_due_def timer_due_def Let_def)

lemma hasty_pass_diverges:
  assumes "list_each_safe_from get mgr body t u w = Some w'"
  shows "get = tw_links \<longrightarrow> body = timer_visit (own_timer_call mgr hasty) now \<longrightarrow> \<not> hasty_pair mgr now t u w"
proof (rule list_each_safe_from.raw_induct[OF _ assms])
  fix f get mgr body t u and w w' :: "'a timer_world"
  assume ih: "\<And>get mgr body t u w w'. f get mgr body t u w = Some w' \<Longrightarrow>
      get = tw_links \<longrightarrow> body = timer_visit (own_timer_call mgr hasty) now \<longrightarrow> \<not> hasty_pair mgr now t u w"
    and step: "(if t \<noteq> mgr then body t w \<bind> (\<lambda>s1. get s1 u \<bind> (\<lambda>m. f get mgr body u (ln_next m) s1)) else Some w) = Some w'"
  show "get = tw_links \<longrightarrow> body = timer_visit (own_timer_call mgr hasty) now \<longrightarrow> \<not> hasty_pair mgr now t u w"
  proof (intro impI notI)
    assume def: "get = tw_links" "body = timer_visit (own_timer_call mgr hasty) now" and pair: "hasty_pair mgr now t u w"
    obtain a where a: "timers_in mgr now w a" "ta_running a = [t, u]" "abs_due now a t" "abs_due now a u" "t \<noteq> u"
      using pair by (auto simp: hasty_pair_def)
    have "t \<noteq> mgr" using timers_in_ring[OF a(1)] a(2) by (auto simp: ring_def)
    obtain w1 where w1: "body t w = Some w1" "timers_in mgr now w1 (abs_fire hasty now t a)"
      using timer_visit_due[OF a(1) _ a(3), of hasty] a(2) def(2) by auto
    note h = hasty_fire[OF a(1,2,5)]
    have "nxt (tw_links w1) u = Some t" using ring_nodes(1)[OF timers_in_ring[OF w1(2)], of "[]" u "[t]"] h(1) by (simp add: succ_in_def)
    then obtain m where "get w1 u = Some m" "ln_next m = t" using nxt_Some def(1) by blast
    then have "f get mgr body u t w1 = Some w'" using step \<open>t \<noteq> mgr\<close> w1(1) by simp
    from ih[OF this] have "\<not> hasty_pair mgr now u t w1" using def by simp
    then show False using w1(2) h a(4,5) by (auto simp: hasty_pair_def)
  qed
qed

section \<open>Properties\<close>

text \<open>
  C38: a pass of \<open>nx_timer_mgr_process\<close> over timers that are in order returns, whatever the callbacks do to their environment and
  whether they leave, stop or restart their timer, provided every restart a callback makes is for 1 to \<open>2 ^ 31\<close> ticks ahead: with a delay of 0, which
  \<open>nx_timer_start\<close> takes, the pass can go on for ever (\<open>hasty_pass_diverges\<close> above). It fires exactly the running timers that were
  due, each once and in the order in which they were started: a one-shot timer is stopped, a periodic one reloaded by its interval, and then the
  callback's decision about it is carried out; all other timers stay as they were. Starting and stopping a timer do to the list of running timers what
  their names say.
\<close>
theorem nx_timer_mgr_process_fires_due:
  assumes "timers_in mgr tick w a" "code_delays code"
  shows "(\<exists>w'. nx_timer_mgr_process (own_timer_call mgr code) mgr now w = Some w' \<and>
      timers_in mgr now w' (fold (abs_fire code now) (filter (abs_due now a) (ta_running a)) a)) \<and>
    (\<forall>t \<in> dom (ta_timers a). \<exists>w'. nx_timer_stop t w = Some w' \<and> timers_in mgr tick w' (abs_stop t a)) \<and>
    (\<forall>t \<in> dom (ta_timers a). t_cb (the (ta_timers a t)) \<noteq> 0 \<longrightarrow>
      (\<exists>w'. nx_timer_start mgr t delay period w = Some w' \<and> timers_in mgr tick w' (abs_start t (tick + delay) period a)))"
  using nx_timer_mgr_process_spec[OF assms] timer_stop_sim2[OF assms(1)] timer_start_sim[OF assms(1)] by (auto simp: dom_def)

text \<open>Two timers of a manager at address 1: a one-shot one that is due at tick 5 and a periodic one that is not.\<close>

definition timer_demo :: "nat timer_world" where
  "timer_demo = \<lparr>
     tw_links = [1 \<mapsto> \<lparr> ln_prev = 3, ln_next = 2 \<rparr>, 2 \<mapsto> \<lparr> ln_prev = 1, ln_next = 3 \<rparr>, 3 \<mapsto> \<lparr> ln_prev = 2, ln_next = 1 \<rparr>],
     tw_timers = [2 \<mapsto> \<lparr> t_expire_tick = 5, t_interval = 0, t_cb = 10, t_arg = 0, t_active = True \<rparr>,
                  3 \<mapsto> \<lparr> t_expire_tick = 9, t_interval = 4, t_cb = 10, t_arg = 0, t_active = True \<rparr>],
     tw_last_tick = [1 \<mapsto> 0], tw_env = 0 \<rparr>"

definition timer_demo_abs :: "nat timer_abs" where
  "timer_demo_abs = \<lparr> ta_running = [2, 3], ta_timers = tw_timers timer_demo, ta_env = 0 \<rparr>"

theorem nx_timer_mgr_process_fires_due_witness:
  "\<exists>w'. nx_timer_mgr_process (own_timer_call 1 (\<lambda>f t arg e. (Leave, e + t))) 1 6 timer_demo = Some w' \<and> tw_env w' = 2 \<and>
     (\<exists>a'. timers_in 1 6 w' a' \<and> ta_running a' = [3])"
proof -
  have abs: "timers_in 1 0 timer_demo timer_demo_abs"
    by (auto simp: timers_in_def timer_demo_def timer_demo_abs_def ring_def nxt_def prv_def split: if_splits)
  have due: "filter (abs_due 6 timer_demo_abs) [2, 3] = [2]"
    by (simp add: abs_due_def timer_due_def timer_demo_abs_def timer_demo_def)
  let ?code = "\<lambda>f t arg e. (Leave, e + t)"
  have "code_delays ?code" by (simp add: code_delays_def)
  note fires = nx_timer_mgr_process_fires_due[OF abs this, of 6]
  have "ta_running timer_demo_abs = [2, 3]" by (simp add: timer_demo_abs_def)
  then have "fold (abs_fire ?code 6) (filter (abs_due 6 timer_demo_abs) (ta_running timer_demo_abs)) timer_demo_abs = abs_fire ?code 6 2 timer_demo_abs"
    using due by simp
  with conjunct1[OF fires] obtain w' where
    w': "nx_timer_mgr_process (own_timer_call 1 ?code) 1 6 timer_demo = Some w'" "timers_in 1 6 w' (abs_fire ?code 6 2 timer_demo_abs)"
    by auto
  have "ta_running (abs_fire ?code 6 2 timer_demo_abs) = [3]" "ta_env (abs_fire ?code 6 2 timer_demo_abs) = 2"
    by (simp_all add: abs_fire_def abs_act_def abs_reload_def abs_stop_def timer_demo_abs_def timer_demo_def Let_def)
  moreover from this(2) w'(2) have "tw_env w' = 2" unfolding timers_in_def by simp
  ultimately show ?thesis using w' by blast
qed

end
