(* ===== verification/Nx_Uds_Server.thy ===== *)
theory Nx_Uds_Server
  imports Nx_Tp_Sdu
begin

text \<open>
  \<open>src/middleware/nx_uds_server.c\<close> and the vocabulary of \<open>nx_uds.h\<close>: the diagnostic server of ISO 14229. A request is judged against
  a table of services, a handler produces the answer in one or several calls, and the answer is offered to a carrier until it is taken and
  confirmed. Handlers are function pointers with a meaning given by the parameter \<open>call\<close>, since they may call back into the
  server; the output, the clock and the session callback act on the environment only. Handlers are addresses, 0 for NULL. The entry
  points take the server with its environment, \<open>None\<close> for a NULL server.
\<close>

section \<open>Vocabulary\<close>

abbreviation (input) NX_UDS_NEG_RSP_SID :: u8 where "NX_UDS_NEG_RSP_SID \<equiv> 0x7F"
abbreviation (input) NX_UDS_NEG_RSP_LEN :: u32 where "NX_UDS_NEG_RSP_LEN \<equiv> 3"

definition NX_UDS_SID_TO_POS_RSP :: "u8 \<Rightarrow> u8" where
  "NX_UDS_SID_TO_POS_RSP sid = sid OR 0x40"

abbreviation (input) NX_UDS_NRC_NONE :: u8 where "NX_UDS_NRC_NONE \<equiv> 0x00"
abbreviation (input) NX_UDS_NRC_SERVICE_NOT_SUPPORTED :: u8 where "NX_UDS_NRC_SERVICE_NOT_SUPPORTED \<equiv> 0x11"
abbreviation (input) NX_UDS_NRC_SUB_FUNCTION_NOT_SUPPORTED :: u8 where "NX_UDS_NRC_SUB_FUNCTION_NOT_SUPPORTED \<equiv> 0x12"
abbreviation (input) NX_UDS_NRC_INCORRECT_LENGTH_OR_FORMAT :: u8 where "NX_UDS_NRC_INCORRECT_LENGTH_OR_FORMAT \<equiv> 0x13"
abbreviation (input) NX_UDS_NRC_RESPONSE_TOO_LONG :: u8 where "NX_UDS_NRC_RESPONSE_TOO_LONG \<equiv> 0x14"
abbreviation (input) NX_UDS_NRC_BUSY_REPEAT_REQUEST :: u8 where "NX_UDS_NRC_BUSY_REPEAT_REQUEST \<equiv> 0x21"
abbreviation (input) NX_UDS_NRC_CONDITIONS_NOT_CORRECT :: u8 where "NX_UDS_NRC_CONDITIONS_NOT_CORRECT \<equiv> 0x22"
abbreviation (input) NX_UDS_NRC_REQUEST_SEQUENCE_ERROR :: u8 where "NX_UDS_NRC_REQUEST_SEQUENCE_ERROR \<equiv> 0x24"
abbreviation (input) NX_UDS_NRC_REQUEST_OUT_OF_RANGE :: u8 where "NX_UDS_NRC_REQUEST_OUT_OF_RANGE \<equiv> 0x31"
abbreviation (input) NX_UDS_NRC_SECURITY_ACCESS_DENIED :: u8 where "NX_UDS_NRC_SECURITY_ACCESS_DENIED \<equiv> 0x33"
abbreviation (input) NX_UDS_NRC_INVALID_KEY :: u8 where "NX_UDS_NRC_INVALID_KEY \<equiv> 0x35"
abbreviation (input) NX_UDS_NRC_EXCEEDED_NUMBER_OF_ATTEMPTS :: u8 where "NX_UDS_NRC_EXCEEDED_NUMBER_OF_ATTEMPTS \<equiv> 0x36"
abbreviation (input) NX_UDS_NRC_REQUIRED_TIME_DELAY_NOT_EXPIRED :: u8 where "NX_UDS_NRC_REQUIRED_TIME_DELAY_NOT_EXPIRED \<equiv> 0x37"
abbreviation (input) NX_UDS_NRC_RESPONSE_PENDING :: u8 where "NX_UDS_NRC_RESPONSE_PENDING \<equiv> 0x78"
abbreviation (input) NX_UDS_NRC_SUB_FUNCTION_NOT_SUPPORTED_IN_ACTIVE_SESSION :: u8 where
  "NX_UDS_NRC_SUB_FUNCTION_NOT_SUPPORTED_IN_ACTIVE_SESSION \<equiv> 0x7E"
abbreviation (input) NX_UDS_NRC_SERVICE_NOT_SUPPORTED_IN_ACTIVE_SESSION :: u8 where
  "NX_UDS_NRC_SERVICE_NOT_SUPPORTED_IN_ACTIVE_SESSION \<equiv> 0x7F"

abbreviation (input) NX_UDS_SESSION_DEFAULT :: u8 where "NX_UDS_SESSION_DEFAULT \<equiv> 0x01"
abbreviation (input) NX_UDS_SESSION_MAX :: u32 where "NX_UDS_SESSION_MAX \<equiv> 31"

definition NX_UDS_SESSION_BIT :: "u8 \<Rightarrow> u32" where
  "NX_UDS_SESSION_BIT s = (if (ucast s :: u32) \<le> NX_UDS_SESSION_MAX then push_bit (unat s) 1 else 0)"

definition NX_UDS_SESSION_IN_RANGE :: "u8 \<Rightarrow> bool" where
  "NX_UDS_SESSION_IN_RANGE s \<longleftrightarrow> (ucast s :: u32) \<noteq> 0 \<and> (ucast s :: u32) \<le> NX_UDS_SESSION_MAX"

definition NX_UDS_SUB_FUNCTION :: "u8 \<Rightarrow> u8" where
  "NX_UDS_SUB_FUNCTION b = b AND 0x7F"

definition NX_UDS_SUPPRESSES_POS_RSP :: "u8 \<Rightarrow> bool" where
  "NX_UDS_SUPPRESSES_POS_RSP b \<longleftrightarrow> b AND 0x80 \<noteq> 0"

abbreviation (input) NX_UDS_SVC_HAS_SUB_FUNCTION :: u8 where "NX_UDS_SVC_HAS_SUB_FUNCTION \<equiv> 0x01"
abbreviation (input) NX_UDS_SVC_ANSWER_FUNCTIONAL :: u8 where "NX_UDS_SVC_ANSWER_FUNCTIONAL \<equiv> 0x04"

datatype nx_uds_phase =
  NX_UDS_PHASE_REQUEST | NX_UDS_PHASE_RESUME | NX_UDS_PHASE_RESPONSE | NX_UDS_PHASE_CONFIRM | NX_UDS_PHASE_LINK_ERROR |
  NX_UDS_PHASE_SILENCE | NX_UDS_PHASE_ABORT

datatype nx_uds_disposition =
  NX_UDS_DISPOSITION_DONE | NX_UDS_DISPOSITION_PENDING | NX_UDS_DISPOSITION_NEGATIVE | NX_UDS_DISPOSITION_NO_RESPONSE

text \<open>
  The transaction as its handler sees it. The pointers to the request and to the response are those to the two buffers of the configuration,
  where handlers read and write them.
\<close>

record nx_uds_ctx =
  cx_phase :: nx_uds_phase
  cx_req_len :: u32
  cx_sid :: u8
  cx_sub :: u8
  cx_has_sub :: bool
  cx_suppress_pos :: bool
  cx_ta_type :: u8
  cx_link :: u8
  cx_session :: u8
  cx_sec_level :: u8
  cx_out_cap :: u32
  cx_out_len :: u32
  cx_nrc :: u8
  cx_result :: u8
  cx_state :: nat

record nx_uds_service =
  sv_sid :: u8
  sv_flags :: u8
  sv_sec_level :: u8
  sv_subs_count :: u8
  sv_subs :: "u8 list option"
  sv_sub_session_masks :: "u32 list option"
  sv_session_mask :: u32
  sv_min_len :: u16
  sv_max_len :: u16
  sv_p4_us :: u32
  sv_max_pending :: u8
  sv_p4_nrc :: u8
  sv_handler :: nat
  sv_user :: nat

section \<open>The server\<close>

datatype nx_uds_server_ret = NX_UDS_SERVER_OK | NX_UDS_SERVER_ERR_PARAM | NX_UDS_SERVER_ERR_BUSY | NX_UDS_SERVER_ERR_STATE

text \<open>The states of a transaction, a \<open>uint8_t\<close>.\<close>

abbreviation (input) TXN_IDLE :: u8 where "TXN_IDLE \<equiv> 0"
abbreviation (input) TXN_RUNNING :: u8 where "TXN_RUNNING \<equiv> 1"
abbreviation (input) TXN_SENDING :: u8 where "TXN_SENDING \<equiv> 2"
abbreviation (input) TXN_AWAIT :: u8 where "TXN_AWAIT \<equiv> 3"

abbreviation (input) NX_UDS_SERVER_DEFAULT_P2_US :: u32 where "NX_UDS_SERVER_DEFAULT_P2_US \<equiv> 50000"
abbreviation (input) NX_UDS_SERVER_DEFAULT_P2_STAR_US :: u32 where "NX_UDS_SERVER_DEFAULT_P2_STAR_US \<equiv> 5000000"
abbreviation (input) NX_UDS_SERVER_DEFAULT_P4_US :: u32 where "NX_UDS_SERVER_DEFAULT_P4_US \<equiv> 20000000"
abbreviation (input) NX_UDS_SERVER_DEFAULT_S3_US :: u32 where "NX_UDS_SERVER_DEFAULT_S3_US \<equiv> 5000000"
abbreviation (input) NX_UDS_SERVER_DEFAULT_MAX_PENDING :: u8 where "NX_UDS_SERVER_DEFAULT_MAX_PENDING \<equiv> 32"

text \<open>The buffers are held where the pointers to them are; the output is given the bytes at its source.\<close>

record 'e nx_uds_server_cfg =
  uc_services :: "nx_uds_service list option"
  uc_services_count :: u16
  uc_out_fn :: "(nat \<Rightarrow> u8 \<Rightarrow> bytes \<Rightarrow> u8 \<Rightarrow> 'e \<Rightarrow> bool \<times> 'e) option"
  uc_out_user :: nat
  uc_session_fn :: "(nat \<Rightarrow> u8 \<Rightarrow> u8 \<Rightarrow> 'e \<Rightarrow> 'e) option"
  uc_req_buf :: "bytes option"
  uc_req_buf_size :: u32
  uc_out_buf :: "bytes option"
  uc_out_buf_size :: u32
  uc_max_req_apdu :: u32
  uc_max_resp_apdu :: u32
  uc_link :: u8
  uc_accept_rsp_range_sid :: bool
  uc_get_us :: "('e \<Rightarrow> u32 \<times> 'e) option"
  uc_p2_us :: u32
  uc_p2_star_us :: u32
  uc_p2_adjust_us :: u32
  uc_p4_us :: u32
  uc_p4_nrc :: u8
  uc_s3_us :: u32
  uc_max_pending :: u8

record nx_uds_txn =
  ut_state :: u8
  ut_row :: u16
  ut_pend_count :: u8
  ut_pending_sent :: bool
  ut_pend_stuck :: bool
  ut_pend_give_up :: u32
  ut_answered :: bool
  ut_started :: u32
  ut_deadline :: u32
  ut_ctx :: nx_uds_ctx

record 'e nx_uds_server =
  us_cfg :: "'e nx_uds_server_cfg"
  us_session :: u8
  us_sec_level :: u8
  us_s3_armed :: bool
  us_s3_deadline :: u32
  us_txn :: nx_uds_txn

text \<open>The server and what its callbacks act on.\<close>

record 'e uds_world =
  uw_srv :: "'e nx_uds_server"
  uw_env :: 'e

type_synonym 'e uds_call = "nat \<Rightarrow> nat \<Rightarrow> 'e uds_world \<Rightarrow> (nx_uds_disposition \<times> 'e uds_world) option"

abbreviation uw_cfg :: "'e uds_world \<Rightarrow> 'e nx_uds_server_cfg" where "uw_cfg w \<equiv> us_cfg (uw_srv w)"
abbreviation uw_txn :: "'e uds_world \<Rightarrow> nx_uds_txn" where "uw_txn w \<equiv> us_txn (uw_srv w)"
abbreviation uw_ctx :: "'e uds_world \<Rightarrow> nx_uds_ctx" where "uw_ctx w \<equiv> ut_ctx (us_txn (uw_srv w))"

definition upd_srv :: "('e nx_uds_server \<Rightarrow> 'e nx_uds_server) \<Rightarrow> 'e uds_world \<Rightarrow> 'e uds_world" where
  "upd_srv f w = w\<lparr> uw_srv := f (uw_srv w) \<rparr>"

definition upd_txn :: "(nx_uds_txn \<Rightarrow> nx_uds_txn) \<Rightarrow> 'e uds_world \<Rightarrow> 'e uds_world" where
  "upd_txn f = upd_srv (\<lambda>s. s\<lparr> us_txn := f (us_txn s) \<rparr>)"

definition upd_ctx :: "(nx_uds_ctx \<Rightarrow> nx_uds_ctx) \<Rightarrow> 'e uds_world \<Rightarrow> 'e uds_world" where
  "upd_ctx f = upd_txn (\<lambda>t. t\<lparr> ut_ctx := f (ut_ctx t) \<rparr>)"

text \<open>Writing to the two buffers.\<close>

definition put_out :: "nat \<Rightarrow> bytes \<Rightarrow> 'e uds_world \<Rightarrow> 'e uds_world option" where
  "put_out i x w = do {
     b \<leftarrow> uc_out_buf (uw_cfg w);
     b1 \<leftarrow> mem_write i x b;
     Some (upd_srv (\<lambda>s. s\<lparr> us_cfg := (us_cfg s)\<lparr> uc_out_buf := Some b1 \<rparr> \<rparr>) w) }"

definition put_req :: "bytes \<Rightarrow> 'e uds_world \<Rightarrow> 'e uds_world option" where
  "put_req x w = do {
     b \<leftarrow> uc_req_buf (uw_cfg w);
     b1 \<leftarrow> mem_write 0 x b;
     Some (upd_srv (\<lambda>s. s\<lparr> us_cfg := (us_cfg s)\<lparr> uc_req_buf := Some b1 \<rparr> \<rparr>) w) }"

text \<open>What \<open>memset\<close> leaves.\<close>

definition uds_ctx_zero :: nx_uds_ctx where
  "uds_ctx_zero = \<lparr> cx_phase = NX_UDS_PHASE_REQUEST, cx_req_len = 0, cx_sid = 0, cx_sub = 0, cx_has_sub = False, cx_suppress_pos = False,
     cx_ta_type = 0, cx_link = 0, cx_session = 0, cx_sec_level = 0, cx_out_cap = 0, cx_out_len = 0, cx_nrc = 0, cx_result = 0, cx_state = 0 \<rparr>"

definition uds_txn_zero :: nx_uds_txn where
  "uds_txn_zero = \<lparr> ut_state = 0, ut_row = 0, ut_pend_count = 0, ut_pending_sent = False, ut_pend_stuck = False, ut_pend_give_up = 0,
     ut_answered = False, ut_started = 0, ut_deadline = 0, ut_ctx = uds_ctx_zero \<rparr>"

definition uds_now :: "'e uds_world \<Rightarrow> (u32 \<times> 'e uds_world) option" where
  "uds_now w = do { get_us \<leftarrow> uc_get_us (uw_cfg w); let (t, e) = get_us (uw_env w); Some (t, w\<lparr> uw_env := e \<rparr>) }"

definition uds_expired :: "u32 \<Rightarrow> u32 \<Rightarrow> bool" where
  "uds_expired now deadline \<longleftrightarrow> tick_reached now deadline"

section \<open>The service table\<close>

definition uds_is_response_sid :: "u8 \<Rightarrow> bool" where
  "uds_is_response_sid sid \<longleftrightarrow> (sid \<ge> 0x40 \<and> sid \<le> 0x7F) \<or> sid \<ge> 0xC0"

text \<open>
  The search loops: \<open>n\<close> elements are looked at from the front, and the result is \<open>n\<close> where none is the one. Nothing past the one found is read.
\<close>

fun uds_scan :: "('a \<Rightarrow> bool) \<Rightarrow> nat \<Rightarrow> 'a list \<Rightarrow> nat option" where
  "uds_scan p 0 xs = Some 0"
| "uds_scan p (Suc n) [] = None"
| "uds_scan p (Suc n) (x # xs) = (if p x then Some 0 else map_option Suc (uds_scan p n xs))"

definition uds_rows :: "'e nx_uds_server_cfg \<Rightarrow> nx_uds_service list" where
  "uds_rows cfg = (case uc_services cfg of Some rows \<Rightarrow> rows | None \<Rightarrow> [])"

definition uds_find_row :: "'e nx_uds_server_cfg \<Rightarrow> u8 \<Rightarrow> u16 option" where
  "uds_find_row cfg sid = map_option of_nat (uds_scan (\<lambda>r. sv_sid r = sid) (unat (uc_services_count cfg)) (uds_rows cfg))"

text \<open>The result is \<open>Some None\<close> where the transaction names no row.\<close>

definition uds_txn_row :: "'e uds_world \<Rightarrow> nx_uds_service option option" where
  "uds_txn_row w =
     (if ut_row (uw_txn w) \<ge> uc_services_count (uw_cfg w) then Some None
      else do { r \<leftarrow> mem_get (unat (ut_row (uw_txn w))) (uds_rows (uw_cfg w)); Some (Some r) })"

definition uds_row_in_session :: "nx_uds_service \<Rightarrow> u8 \<Rightarrow> bool" where
  "uds_row_in_session row session \<longleftrightarrow> sv_session_mask row AND NX_UDS_SESSION_BIT session \<noteq> 0"

section \<open>Session state\<close>

definition uds_arm_s3 :: "'e uds_world \<Rightarrow> 'e uds_world option" where
  "uds_arm_s3 w =
     (if us_session (uw_srv w) = NX_UDS_SESSION_DEFAULT then Some (upd_srv (\<lambda>s. s\<lparr> us_s3_armed := False \<rparr>) w)
      else do {
        (t, w1) \<leftarrow> uds_now w;
        Some (upd_srv (\<lambda>s. s\<lparr> us_s3_armed := True, us_s3_deadline := t + uc_s3_us (us_cfg s) \<rparr>) w1) })"

definition uds_enter_session :: "'e uds_world \<Rightarrow> u8 \<Rightarrow> 'e uds_world option" where
  "uds_enter_session w session = do {
     let old = us_session (uw_srv w);
     w1 \<leftarrow> uds_arm_s3 (upd_srv (\<lambda>s. s\<lparr> us_session := session, us_sec_level := 0 \<rparr>) w);
     Some (case uc_session_fn (uw_cfg w1) of
       Some session_fn \<Rightarrow>
         if old \<noteq> session then w1\<lparr> uw_env := session_fn (uc_out_user (uw_cfg w1)) old session (uw_env w1) \<rparr> else w1
     | None \<Rightarrow> w1) }"

section \<open>Assembling a response\<close>

definition uds_put_negative :: "'e uds_world \<Rightarrow> u8 \<Rightarrow> u8 \<Rightarrow> 'e uds_world option" where
  "uds_put_negative w sid nrc = do {
     w1 \<leftarrow> put_out 0 [NX_UDS_NEG_RSP_SID, sid, nrc] w;
     Some (upd_ctx (\<lambda>c. c\<lparr> cx_out_len := NX_UDS_NEG_RSP_LEN \<rparr>) w1) }"

definition uds_negative_suppressed :: "nx_uds_txn \<Rightarrow> u8 \<Rightarrow> u8 \<Rightarrow> bool" where
  "uds_negative_suppressed txn ta_type nrc =
     (if ta_type \<noteq> NX_TP_TA_FUNCTIONAL then False
      else if ut_pending_sent txn then False
      else nrc \<in> {NX_UDS_NRC_SERVICE_NOT_SUPPORTED, NX_UDS_NRC_SUB_FUNCTION_NOT_SUPPORTED, NX_UDS_NRC_REQUEST_OUT_OF_RANGE,
                  NX_UDS_NRC_SUB_FUNCTION_NOT_SUPPORTED_IN_ACTIVE_SESSION, NX_UDS_NRC_SERVICE_NOT_SUPPORTED_IN_ACTIVE_SESSION})"

section \<open>The transaction\<close>

definition uds_notify :: "'e uds_call \<Rightarrow> 'e uds_world \<Rightarrow> nx_uds_phase \<Rightarrow> 'e uds_world option" where
  "uds_notify call w phase = do {
     row \<leftarrow> uds_txn_row w;
     case row of
       None \<Rightarrow> Some w
     | Some r \<Rightarrow> map_option snd (call (sv_handler r) (sv_user r) (upd_ctx (\<lambda>c. c\<lparr> cx_phase := phase \<rparr>) w)) }"

definition uds_txn_end :: "'e uds_world \<Rightarrow> 'e uds_world" where
  "uds_txn_end w = upd_txn (\<lambda>_. uds_txn_zero\<lparr> ut_state := TXN_IDLE \<rparr>) w"

definition uds_txn_answer_ready :: "'e uds_call \<Rightarrow> 'e uds_world \<Rightarrow> bool \<Rightarrow> 'e uds_world option" where
  "uds_txn_answer_ready call w send =
     (if \<not> send then do { w1 \<leftarrow> uds_notify call w NX_UDS_PHASE_SILENCE; Some (uds_txn_end w1) }
      else uds_notify call (upd_txn (\<lambda>t. t\<lparr> ut_answered := True, ut_state := TXN_SENDING \<rparr>) w) NX_UDS_PHASE_RESPONSE)"

definition uds_txn_refuse :: "'e uds_call \<Rightarrow> 'e uds_world \<Rightarrow> u8 \<Rightarrow> 'e uds_world option" where
  "uds_txn_refuse call w nrc = do {
     w1 \<leftarrow> uds_put_negative w (cx_sid (uw_ctx w)) nrc;
     uds_txn_answer_ready call w1 (\<not> uds_negative_suppressed (uw_txn w1) (cx_ta_type (uw_ctx w1)) nrc) }"

definition uds_apply_disposition :: "'e uds_call \<Rightarrow> 'e uds_world \<Rightarrow> nx_uds_disposition \<Rightarrow> 'e uds_world option" where
  "uds_apply_disposition call w d =
     (case d of
        NX_UDS_DISPOSITION_PENDING \<Rightarrow> Some (upd_txn (\<lambda>t. t\<lparr> ut_state := TXN_RUNNING \<rparr>) w)
      | NX_UDS_DISPOSITION_NEGATIVE \<Rightarrow>
          uds_txn_refuse call w (if cx_nrc (uw_ctx w) \<noteq> NX_UDS_NRC_NONE then cx_nrc (uw_ctx w) else NX_UDS_NRC_CONDITIONS_NOT_CORRECT)
      | NX_UDS_DISPOSITION_NO_RESPONSE \<Rightarrow> do { w1 \<leftarrow> uds_notify call w NX_UDS_PHASE_SILENCE; Some (uds_txn_end w1) }
      | NX_UDS_DISPOSITION_DONE \<Rightarrow>
          if cx_out_len (uw_ctx w) > cx_out_cap (uw_ctx w) then uds_txn_refuse call w NX_UDS_NRC_RESPONSE_TOO_LONG
          else if cx_out_len (uw_ctx w) = 0 then do { w1 \<leftarrow> uds_notify call w NX_UDS_PHASE_SILENCE; Some (uds_txn_end w1) }
          else do {
            row \<leftarrow> uds_txn_row w;
            uds_txn_answer_ready call w
              (if cx_ta_type (uw_ctx w) = NX_TP_TA_FUNCTIONAL \<and>
                  (case row of None \<Rightarrow> True | Some r \<Rightarrow> sv_flags r AND NX_UDS_SVC_ANSWER_FUNCTIONAL = 0)
               then False else \<not> cx_suppress_pos (uw_ctx w)) })"

definition uds_run_handler :: "'e uds_call \<Rightarrow> 'e uds_world \<Rightarrow> nx_uds_phase \<Rightarrow> 'e uds_world option" where
  "uds_run_handler call w phase = do {
     row \<leftarrow> uds_txn_row w;
     case row of
       None \<Rightarrow> Some w
     | Some r \<Rightarrow> do {
         (d, w1) \<leftarrow> call (sv_handler r) (sv_user r) (upd_ctx (\<lambda>c. c\<lparr> cx_phase := phase, cx_nrc := NX_UDS_NRC_NONE \<rparr>) w);
         uds_apply_disposition call w1 d } }"

section \<open>Keeping a slow transaction alive\<close>

text \<open>Offering bytes to the output, which may not be installed.\<close>

definition uds_offer :: "'e uds_world \<Rightarrow> bytes \<Rightarrow> bool \<times> 'e uds_world" where
  "uds_offer w x =
     (case uc_out_fn (uw_cfg w) of
        None \<Rightarrow> (False, w)
      | Some out_fn \<Rightarrow>
          (case out_fn (uc_out_user (uw_cfg w)) (cx_link (uw_ctx w)) x (cx_ta_type (uw_ctx w)) (uw_env w) of
             (taken, e) \<Rightarrow> (taken, w\<lparr> uw_env := e \<rparr>)))"

definition uds_emit_pending :: "'e uds_world \<Rightarrow> (bool \<times> 'e uds_world) option" where
  "uds_emit_pending w =
     (let (taken, w1) = uds_offer w [NX_UDS_NEG_RSP_SID, cx_sid (uw_ctx w), NX_UDS_NRC_RESPONSE_PENDING]
      in if \<not> taken then
           (if \<not> ut_pend_stuck (uw_txn w1) then do {
              (t, w2) \<leftarrow> uds_now w1;
              Some (False, upd_txn (\<lambda>x. x\<lparr> ut_pend_stuck := True, ut_pend_give_up := t + uc_p2_star_us (uw_cfg w1) \<rparr>) w2) }
            else Some (False, w1))
         else do {
           let w2 = upd_txn (\<lambda>x. x\<lparr> ut_pend_stuck := False, ut_ctx := (ut_ctx x)\<lparr> cx_suppress_pos := False \<rparr>, ut_pending_sent := True,
                     ut_pend_count := (if ut_pend_count x < 0xFF then ut_pend_count x + 1 else ut_pend_count x) \<rparr>) w1;
           (t, w3) \<leftarrow> uds_now w2;
           Some (True, upd_txn (\<lambda>x. x\<lparr> ut_deadline := t + uc_p2_star_us (uw_cfg w2) - uc_p2_adjust_us (uw_cfg w2) \<rparr>) w3) })"

definition uds_txn_p4 :: "'e uds_world \<Rightarrow> u32 option" where
  "uds_txn_p4 w = do {
     row \<leftarrow> uds_txn_row w;
     let p4 = (case row of Some r \<Rightarrow> sv_p4_us r | None \<Rightarrow> 0);
     Some (if p4 \<noteq> 0 then p4 else uc_p4_us (uw_cfg w)) }"

definition uds_txn_max_pending :: "'e uds_world \<Rightarrow> u8 option" where
  "uds_txn_max_pending w = do {
     row \<leftarrow> uds_txn_row w;
     let n = (case row of Some r \<Rightarrow> sv_max_pending r | None \<Rightarrow> 0);
     Some (if n \<noteq> 0 then n else uc_max_pending (uw_cfg w)) }"

definition uds_txn_p4_nrc :: "'e uds_world \<Rightarrow> u8 option" where
  "uds_txn_p4_nrc w = do {
     row \<leftarrow> uds_txn_row w;
     let nrc = (case row of Some r \<Rightarrow> sv_p4_nrc r | None \<Rightarrow> NX_UDS_NRC_NONE);
     Some (if nrc \<noteq> NX_UDS_NRC_NONE then nrc
           else if uc_p4_nrc (uw_cfg w) \<noteq> NX_UDS_NRC_NONE then uc_p4_nrc (uw_cfg w) else NX_UDS_NRC_BUSY_REPEAT_REQUEST) }"

section \<open>The periodic step\<close>

definition uds_process_session :: "'e uds_world \<Rightarrow> 'e uds_world option" where
  "uds_process_session w =
     (if us_s3_armed (uw_srv w) then do {
        (t, w1) \<leftarrow> uds_now w;
        if uds_expired t (us_s3_deadline (uw_srv w1)) then uds_enter_session w1 NX_UDS_SESSION_DEFAULT else Some w1 }
      else Some w)"

definition uds_over_limit :: "'e uds_world \<Rightarrow> (bool \<times> 'e uds_world) option" where
  "uds_over_limit w = do {
     (t, w1) \<leftarrow> uds_now w;
     p4 \<leftarrow> uds_txn_p4 w1;
     if uds_expired t (ut_started (uw_txn w1) + p4) then Some (True, w1)
     else do { n \<leftarrow> uds_txn_max_pending w1; Some (ut_pend_count (uw_txn w1) \<ge> n, w1) } }"

definition uds_process_limit :: "'e uds_call \<Rightarrow> 'e uds_world \<Rightarrow> 'e uds_world option" where
  "uds_process_limit call w =
     (if ut_state (uw_txn w) = TXN_RUNNING then do {
        (over, w1) \<leftarrow> uds_over_limit w;
        if over then do {
          w2 \<leftarrow> uds_notify call w1 NX_UDS_PHASE_ABORT;
          nrc \<leftarrow> uds_txn_p4_nrc w2;
          uds_txn_refuse call w2 nrc }
        else Some w1 }
      else Some w)"

text \<open>The Boolean says whether the function returned here.\<close>

definition uds_process_running :: "'e uds_call \<Rightarrow> 'e uds_world \<Rightarrow> (bool \<times> 'e uds_world) option" where
  "uds_process_running call w =
     (if ut_state (uw_txn w) = TXN_RUNNING then do {
        (t, w1) \<leftarrow> uds_now w;
        w2 \<leftarrow> (if uds_expired t (ut_deadline (uw_txn w1)) then map_option snd (uds_emit_pending w1) else Some w1);
        (gone, w3) \<leftarrow> (if ut_pend_stuck (uw_txn w2)
                        then do { (u, w3) \<leftarrow> uds_now w2; Some (uds_expired u (ut_pend_give_up (uw_txn w3)), w3) }
                        else Some (False, w2));
        if gone then do {
          w4 \<leftarrow> uds_notify call (upd_ctx (\<lambda>c. c\<lparr> cx_result := NX_TP_N_ERROR \<rparr>) w3) NX_UDS_PHASE_LINK_ERROR;
          Some (True, uds_txn_end w4) }
        else do { w4 \<leftarrow> uds_run_handler call w3 NX_UDS_PHASE_RESUME; Some (False, w4) } }
      else Some (False, w))"

text \<open>The output is offered the answer where there is an output.\<close>

definition uds_offer_answer :: "'e uds_world \<Rightarrow> (bool \<times> 'e uds_world) option" where
  "uds_offer_answer w =
     (if uc_out_fn (uw_cfg w) = None then Some (False, w)
      else do {
        b \<leftarrow> uc_out_buf (uw_cfg w);
        x \<leftarrow> mem_read 0 (unat (cx_out_len (uw_ctx w))) b;
        Some (uds_offer w x) })"

definition uds_process_sending :: "'e uds_call \<Rightarrow> 'e uds_world \<Rightarrow> 'e uds_world option" where
  "uds_process_sending call w = do {
     (taken, w1) \<leftarrow> uds_offer_answer w;
     if taken then do {
       (t, w2) \<leftarrow> uds_now (upd_txn (\<lambda>x. x\<lparr> ut_state := TXN_AWAIT \<rparr>) w1);
       p4 \<leftarrow> uds_txn_p4 w2;
       Some (upd_txn (\<lambda>x. x\<lparr> ut_deadline := t + p4 \<rparr>) w2) }
     else do {
       (t, w2) \<leftarrow> uds_now w1;
       p4 \<leftarrow> uds_txn_p4 w2;
       if uds_expired t (ut_started (uw_txn w2) + p4)
       then do { w3 \<leftarrow> uds_notify call w2 NX_UDS_PHASE_ABORT; Some (uds_txn_end w3) }
       else Some w2 } }"

definition uds_process_await :: "'e uds_call \<Rightarrow> 'e uds_world \<Rightarrow> 'e uds_world option" where
  "uds_process_await call w =
     (if ut_state (uw_txn w) = TXN_AWAIT then do {
        (t, w1) \<leftarrow> uds_now w;
        if uds_expired t (ut_deadline (uw_txn w1)) then do {
          w2 \<leftarrow> uds_notify call (upd_ctx (\<lambda>c. c\<lparr> cx_result := NX_TP_N_ERROR \<rparr>) w1) NX_UDS_PHASE_LINK_ERROR;
          Some (uds_txn_end w2) }
        else Some w1 }
      else Some w)"

definition uds_process :: "'e uds_call \<Rightarrow> 'e uds_world \<Rightarrow> 'e uds_world option" where
  "uds_process call w = do {
     w1 \<leftarrow> uds_process_session w;
     if ut_state (uw_txn w1) = TXN_IDLE then Some w1
     else do {
       w2 \<leftarrow> uds_process_limit call w1;
       (returned, w3) \<leftarrow> uds_process_running call w2;
       if returned then Some w3
       else if ut_state (uw_txn w3) = TXN_SENDING then uds_process_sending call w3
       else uds_process_await call w3 } }"

definition nx_uds_server_process :: "'e uds_call \<Rightarrow> 'e uds_world option \<Rightarrow> 'e uds_world option option" where
  "nx_uds_server_process call wp =
     (case wp of None \<Rightarrow> Some None | Some w \<Rightarrow> do { w1 \<leftarrow> uds_process call w; Some (Some w1) })"

section \<open>Setting up\<close>

definition uds_row_ok :: "nx_uds_service \<Rightarrow> bool" where
  "uds_row_ok row \<longleftrightarrow>
     sv_handler row \<noteq> 0 \<and> \<not> uds_is_response_sid (sv_sid row) \<and> sv_session_mask row \<noteq> 0 \<and> \<not> sv_min_len row < 1 \<and>
     \<not> (sv_max_len row \<noteq> 0 \<and> sv_max_len row < sv_min_len row) \<and>
     \<not> (sv_flags row AND NX_UDS_SVC_HAS_SUB_FUNCTION \<noteq> 0 \<and> sv_min_len row < 2) \<and>
     \<not> (sv_sub_session_masks row \<noteq> None \<and> (sv_subs row = None \<or> sv_subs_count row = 0))"

definition uds_table_ok :: "'e nx_uds_server_cfg \<Rightarrow> bool option" where
  "uds_table_ok cfg =
     map_option (\<lambda>i. i = unat (uc_services_count cfg))
       (uds_scan (\<lambda>r. \<not> uds_row_ok r) (unat (uc_services_count cfg)) (uds_rows cfg))"

definition uds_cfg_ok :: "'e nx_uds_server_cfg \<Rightarrow> bool" where
  "uds_cfg_ok cfg \<longleftrightarrow>
     uc_get_us cfg \<noteq> None \<and> \<not> (uc_req_buf cfg = None \<or> uc_req_buf_size cfg < 1) \<and>
     \<not> (uc_out_buf cfg = None \<or> uc_out_buf_size cfg < NX_UDS_NEG_RSP_LEN) \<and>
     \<not> (uc_max_resp_apdu cfg \<noteq> 0 \<and> uc_max_resp_apdu cfg > uc_out_buf_size cfg)"

definition uds_defaults :: "'e nx_uds_server_cfg \<Rightarrow> 'e nx_uds_server_cfg" where
  "uds_defaults c = c\<lparr>
     uc_p2_us := (if uc_p2_us c = 0 then NX_UDS_SERVER_DEFAULT_P2_US else uc_p2_us c),
     uc_p2_star_us := (if uc_p2_star_us c = 0 then NX_UDS_SERVER_DEFAULT_P2_STAR_US else uc_p2_star_us c),
     uc_p4_us := (if uc_p4_us c = 0 then NX_UDS_SERVER_DEFAULT_P4_US else uc_p4_us c),
     uc_s3_us := (if uc_s3_us c = 0 then NX_UDS_SERVER_DEFAULT_S3_US else uc_s3_us c),
     uc_max_pending := (if uc_max_pending c = 0 then NX_UDS_SERVER_DEFAULT_MAX_PENDING else uc_max_pending c) \<rparr>"

definition nx_uds_server_init ::
  "'e nx_uds_server option \<Rightarrow> 'e nx_uds_server_cfg option \<Rightarrow> (bool \<times> 'e nx_uds_server option) option" where
  "nx_uds_server_init sp cfgp =
     (case (sp, cfgp) of
        (Some s, Some cfg) \<Rightarrow>
          if uc_services cfg = None \<or> uc_services_count cfg = 0 then Some (False, sp)
          else do {
            ok \<leftarrow> uds_table_ok cfg;
            if \<not> ok \<or> \<not> uds_cfg_ok cfg then Some (False, sp)
            else
              let c = uds_defaults cfg in
              if uc_p2_adjust_us c \<ge> uc_p2_us c \<or> uc_p2_adjust_us c \<ge> uc_p2_star_us c then Some (False, Some (s\<lparr> us_cfg := c \<rparr>))
              else Some (True, Some \<lparr>
                us_cfg = (if uc_max_resp_apdu c = 0 then c\<lparr> uc_max_resp_apdu := uc_out_buf_size c \<rparr> else c),
                us_session = NX_UDS_SESSION_DEFAULT, us_sec_level = 0, us_s3_armed = False, us_s3_deadline = 0,
                us_txn = uds_txn_zero \<rparr>) }
      | _ \<Rightarrow> Some (False, sp))"

section \<open>Entry points of the carrier and of the services\<close>

definition uds_confirm :: "'e uds_call \<Rightarrow> 'e uds_world \<Rightarrow> u8 \<Rightarrow> u8 \<Rightarrow> (nx_uds_server_ret \<times> 'e uds_world) option" where
  "uds_confirm call w link result =
     (if link \<noteq> uc_link (uw_cfg w) then Some (NX_UDS_SERVER_ERR_PARAM, w)
      else if ut_state (uw_txn w) \<noteq> TXN_AWAIT then Some (NX_UDS_SERVER_ERR_STATE, w)
      else do {
        w1 \<leftarrow> uds_notify call (upd_ctx (\<lambda>c. c\<lparr> cx_result := result \<rparr>) w)
                (if result = NX_TP_N_OK then NX_UDS_PHASE_CONFIRM else NX_UDS_PHASE_LINK_ERROR);
        Some (NX_UDS_SERVER_OK, uds_txn_end w1) })"

definition nx_uds_server_confirm ::
  "'e uds_call \<Rightarrow> 'e uds_world option \<Rightarrow> u8 \<Rightarrow> u8 \<Rightarrow> (nx_uds_server_ret \<times> 'e uds_world option) option" where
  "nx_uds_server_confirm call wp link result =
     (case wp of
        None \<Rightarrow> Some (NX_UDS_SERVER_ERR_PARAM, None)
      | Some w \<Rightarrow> do { (r, w1) \<leftarrow> uds_confirm call w link result; Some (r, Some w1) })"

definition nx_uds_server_is_busy :: "'e uds_world option \<Rightarrow> bool" where
  "nx_uds_server_is_busy wp = (case wp of None \<Rightarrow> False | Some w \<Rightarrow> ut_state (uw_txn w) \<noteq> TXN_IDLE)"

definition nx_uds_server_session :: "'e uds_world option \<Rightarrow> u8" where
  "nx_uds_server_session wp = (case wp of None \<Rightarrow> NX_UDS_SESSION_DEFAULT | Some w \<Rightarrow> us_session (uw_srv w))"

definition nx_uds_server_sec_level :: "'e uds_world option \<Rightarrow> u8" where
  "nx_uds_server_sec_level wp = (case wp of None \<Rightarrow> 0 | Some w \<Rightarrow> us_sec_level (uw_srv w))"

text \<open>What lies at the two result pointers, which may be NULL, and what is left there.\<close>

definition nx_uds_server_timing :: "'e uds_world option \<Rightarrow> u32 option \<Rightarrow> u32 option \<Rightarrow> u32 option \<times> u32 option" where
  "nx_uds_server_timing wp p2 p2_star =
     (case wp of
        None \<Rightarrow> (p2, p2_star)
      | Some w \<Rightarrow> (map_option (\<lambda>_. uc_p2_us (uw_cfg w)) p2, map_option (\<lambda>_. uc_p2_star_us (uw_cfg w)) p2_star))"

definition nx_uds_server_now :: "'e uds_world option \<Rightarrow> (u32 \<times> 'e uds_world option) option" where
  "nx_uds_server_now wp = (case wp of None \<Rightarrow> Some (0, None) | Some w \<Rightarrow> do { (t, w1) \<leftarrow> uds_now w; Some (t, Some w1) })"

definition nx_uds_server_apdu_limits :: "'e uds_world option \<Rightarrow> u32 option \<Rightarrow> u32 option \<Rightarrow> u32 option \<times> u32 option" where
  "nx_uds_server_apdu_limits wp req rsp =
     (case wp of
        None \<Rightarrow> (req, rsp)
      | Some w \<Rightarrow> (map_option (\<lambda>_. uc_max_req_apdu (uw_cfg w)) req, map_option (\<lambda>_. uc_max_resp_apdu (uw_cfg w)) rsp))"

definition nx_uds_server_set_output ::
  "'e uds_world option \<Rightarrow> (nat \<Rightarrow> u8 \<Rightarrow> bytes \<Rightarrow> u8 \<Rightarrow> 'e \<Rightarrow> bool \<times> 'e) option \<Rightarrow> nat \<Rightarrow> nx_uds_server_ret \<times> 'e uds_world option" where
  "nx_uds_server_set_output wp fn user =
     (case (wp, fn) of
        (Some w, Some f) \<Rightarrow>
          (NX_UDS_SERVER_OK, Some (upd_srv (\<lambda>s. s\<lparr> us_cfg := (us_cfg s)\<lparr> uc_out_fn := Some f, uc_out_user := user \<rparr> \<rparr>) w))
      | _ \<Rightarrow> (NX_UDS_SERVER_ERR_PARAM, wp))"

definition nx_uds_server_set_session :: "'e uds_world option \<Rightarrow> u8 \<Rightarrow> (nx_uds_server_ret \<times> 'e uds_world option) option" where
  "nx_uds_server_set_session wp session =
     (case wp of
        None \<Rightarrow> Some (NX_UDS_SERVER_ERR_PARAM, None)
      | Some w \<Rightarrow>
          if \<not> NX_UDS_SESSION_IN_RANGE session then Some (NX_UDS_SERVER_ERR_PARAM, Some w)
          else do { w1 \<leftarrow> uds_enter_session w session; Some (NX_UDS_SERVER_OK, Some w1) })"

definition nx_uds_server_set_sec_level :: "'e uds_world option \<Rightarrow> u8 \<Rightarrow> nx_uds_server_ret \<times> 'e uds_world option" where
  "nx_uds_server_set_sec_level wp level =
     (case wp of
        None \<Rightarrow> (NX_UDS_SERVER_ERR_PARAM, None)
      | Some w \<Rightarrow> (NX_UDS_SERVER_OK, Some (upd_srv (\<lambda>s. s\<lparr> us_sec_level := level \<rparr>) w)))"

definition nx_uds_server_touch :: "'e uds_world option \<Rightarrow> 'e uds_world option option" where
  "nx_uds_server_touch wp = (case wp of None \<Rightarrow> Some None | Some w \<Rightarrow> do { w1 \<leftarrow> uds_arm_s3 w; Some (Some w1) })"

section \<open>Accepting a request\<close>

definition uds_sub_session_mask :: "nx_uds_service \<Rightarrow> u8 \<Rightarrow> u32 option" where
  "uds_sub_session_mask row idx =
     (case sv_sub_session_masks row of None \<Rightarrow> Some (sv_session_mask row) | Some masks \<Rightarrow> mem_get (unat idx) masks)"

definition uds_find_sub :: "nx_uds_service \<Rightarrow> u8 \<Rightarrow> u8 option" where
  "uds_find_sub row sub = do {
     subs \<leftarrow> sv_subs row;
     i \<leftarrow> uds_scan (\<lambda>x. x = sub) (unat (sv_subs_count row)) subs;
     Some (of_nat i) }"

definition uds_txn_begin :: "'e uds_world \<Rightarrow> u16 \<Rightarrow> u32 \<Rightarrow> u8 \<Rightarrow> u8 \<Rightarrow> 'e uds_world option" where
  "uds_txn_begin w row len ta_type link = do {
     let cfg = uw_cfg w;
     let cap = (if uc_max_resp_apdu cfg < uc_out_buf_size cfg then uc_max_resp_apdu cfg else uc_out_buf_size cfg);
     (t, w1) \<leftarrow> uds_now w;
     b \<leftarrow> uc_req_buf cfg;
     sid \<leftarrow> mem_get 0 b;
     Some (upd_txn (\<lambda>_. uds_txn_zero\<lparr> ut_row := row, ut_started := t, ut_deadline := t + uc_p2_us cfg - uc_p2_adjust_us cfg,
       ut_state := TXN_RUNNING,
       ut_ctx := uds_ctx_zero\<lparr> cx_req_len := len, cx_sid := sid, cx_ta_type := ta_type, cx_link := link,
         cx_session := us_session (uw_srv w), cx_sec_level := us_sec_level (uw_srv w), cx_out_cap := cap, cx_out_len := 0 \<rparr> \<rparr>) w1) }"

definition uds_refuse_before_dispatch :: "'e uds_world \<Rightarrow> u16 \<Rightarrow> u32 \<Rightarrow> u8 \<Rightarrow> u8 \<Rightarrow> u8 \<Rightarrow> 'e uds_world option" where
  "uds_refuse_before_dispatch w row len ta_type link nrc = do {
     w1 \<leftarrow> uds_txn_begin w row len ta_type link;
     w2 \<leftarrow> uds_put_negative w1 (cx_sid (uw_ctx w1)) nrc;
     Some (if uds_negative_suppressed (uw_txn w2) ta_type nrc then uds_txn_end w2
           else upd_txn (\<lambda>t. t\<lparr> ut_answered := True, ut_state := TXN_SENDING \<rparr>) w2) }"

text \<open>Entering the handler of an accepted request.\<close>

definition uds_dispatch :: "'e uds_call \<Rightarrow> 'e uds_world \<Rightarrow> 'e uds_world option" where
  "uds_dispatch call w = do {
     w1 \<leftarrow> put_out 0 [NX_UDS_SID_TO_POS_RSP (cx_sid (uw_ctx w))] w;
     uds_run_handler call (upd_ctx (\<lambda>c. c\<lparr> cx_out_len := 1 \<rparr>) w1) NX_UDS_PHASE_REQUEST }"

text \<open>The sub-function, where the row has one.\<close>

definition uds_accept :: "'e uds_call \<Rightarrow> 'e uds_world \<Rightarrow> nx_uds_service \<Rightarrow> 'e uds_world option" where
  "uds_accept call w row =
     (if sv_flags row AND NX_UDS_SVC_HAS_SUB_FUNCTION \<noteq> 0 then do {
        b \<leftarrow> uc_req_buf (uw_cfg w);
        x \<leftarrow> mem_get 1 b;
        let w1 = upd_ctx (\<lambda>c. c\<lparr> cx_has_sub := True, cx_suppress_pos := NX_UDS_SUPPRESSES_POS_RSP x, cx_sub := NX_UDS_SUB_FUNCTION x \<rparr>) w;
        if sv_subs row \<noteq> None \<and> sv_subs_count row \<noteq> 0 then do {
          idx \<leftarrow> uds_find_sub row (cx_sub (uw_ctx w1));
          if idx \<ge> sv_subs_count row then uds_txn_refuse call w1 NX_UDS_NRC_SUB_FUNCTION_NOT_SUPPORTED
          else do {
            mask \<leftarrow> uds_sub_session_mask row idx;
            if mask AND NX_UDS_SESSION_BIT (us_session (uw_srv w1)) = 0
            then uds_txn_refuse call w1 NX_UDS_NRC_SUB_FUNCTION_NOT_SUPPORTED_IN_ACTIVE_SESSION
            else uds_dispatch call w1 } }
        else uds_dispatch call w1 }
      else uds_dispatch call w)"

text \<open>A request kept in the buffer, against the table.\<close>

definition uds_judge_request :: "'e uds_call \<Rightarrow> 'e uds_world \<Rightarrow> u8 \<Rightarrow> u32 \<Rightarrow> u8 \<Rightarrow> u8 \<Rightarrow> 'e uds_world option" where
  "uds_judge_request call w sid len ta_type link = do {
     row_idx \<leftarrow> uds_find_row (uw_cfg w) sid;
     if row_idx \<ge> uc_services_count (uw_cfg w) then
       uds_refuse_before_dispatch w (uc_services_count (uw_cfg w)) len ta_type link NX_UDS_NRC_SERVICE_NOT_SUPPORTED
     else do {
       row \<leftarrow> mem_get (unat row_idx) (uds_rows (uw_cfg w));
       if \<not> uds_row_in_session row (us_session (uw_srv w)) then
         uds_refuse_before_dispatch w row_idx len ta_type link NX_UDS_NRC_SERVICE_NOT_SUPPORTED_IN_ACTIVE_SESSION
       else if sv_sec_level row \<noteq> 0 \<and> us_sec_level (uw_srv w) < sv_sec_level row then
         uds_refuse_before_dispatch w row_idx len ta_type link NX_UDS_NRC_SECURITY_ACCESS_DENIED
       else if len < ucast (sv_min_len row) \<or> (sv_max_len row \<noteq> 0 \<and> len > ucast (sv_max_len row)) then
         uds_refuse_before_dispatch w row_idx len ta_type link NX_UDS_NRC_INCORRECT_LENGTH_OR_FORMAT
       else do {
         w1 \<leftarrow> uds_txn_begin w row_idx len ta_type link;
         uds_accept call w1 row } } }"

text \<open>\<open>req\<close> is the caller's memory at the pointer, \<open>None\<close> for NULL.\<close>

definition uds_indicate ::
  "'e uds_call \<Rightarrow> 'e uds_world \<Rightarrow> bytes \<Rightarrow> u32 \<Rightarrow> u8 \<Rightarrow> u8 \<Rightarrow> (nx_uds_server_ret \<times> 'e uds_world) option" where
  "uds_indicate call w req len ta_type link =
     (if link \<noteq> uc_link (uw_cfg w) then Some (NX_UDS_SERVER_ERR_PARAM, w)
      else if ut_state (uw_txn w) \<noteq> TXN_IDLE then Some (NX_UDS_SERVER_ERR_BUSY, w)
      else do {
        sid \<leftarrow> mem_get 0 req;
        if \<not> uc_accept_rsp_range_sid (uw_cfg w) \<and> uds_is_response_sid sid then Some (NX_UDS_SERVER_ERR_PARAM, w)
        else if len > uc_req_buf_size (uw_cfg w) \<or> (uc_max_req_apdu (uw_cfg w) \<noteq> 0 \<and> len > uc_max_req_apdu (uw_cfg w)) then do {
          w1 \<leftarrow> put_req [sid] w;
          w2 \<leftarrow> uds_refuse_before_dispatch w1 (uc_services_count (uw_cfg w1)) 1 ta_type link NX_UDS_NRC_INCORRECT_LENGTH_OR_FORMAT;
          Some (NX_UDS_SERVER_OK, w2) }
        else do {
          x \<leftarrow> mem_read 0 (unat len) req;
          w1 \<leftarrow> put_req x w;
          w2 \<leftarrow> uds_arm_s3 w1;
          w3 \<leftarrow> uds_judge_request call w2 sid len ta_type link;
          Some (NX_UDS_SERVER_OK, w3) } })"

definition nx_uds_server_indicate ::
  "'e uds_call \<Rightarrow> 'e uds_world option \<Rightarrow> bytes option \<Rightarrow> u32 \<Rightarrow> u8 \<Rightarrow> u8 \<Rightarrow> (nx_uds_server_ret \<times> 'e uds_world option) option" where
  "nx_uds_server_indicate call wp reqp len ta_type link =
     (case (wp, reqp) of
        (Some w, Some req) \<Rightarrow>
          if len = 0 then Some (NX_UDS_SERVER_ERR_PARAM, wp)
          else do { (r, w1) \<leftarrow> uds_indicate call w req len ta_type link; Some (r, Some w1) }
      | _ \<Rightarrow> Some (NX_UDS_SERVER_ERR_PARAM, wp))"

end
