(* ===== verification/Nx_Uds_Services.thy ===== *)
theory Nx_Uds_Services
  imports Nx_Uds_Server
begin

text \<open>
  The services every server has, \<open>src/middleware/nx_uds_svc_session.c\<close>, and the seed and key exchange, \<open>src/middleware/nx_uds_svc_sec.c\<close>;
  those that move memory are in Nx_Uds_Transfer, over the objects declared here.
  A row names its handler and a configuration by address, 0 for NULL; the configurations are objects of the environment, beside what
  the product's own callbacks act on. A configuration names the one server there is, or NULL.
\<close>

section \<open>The objects\<close>

record 'x nx_uds_svc_session_cfg =
  wc_srv :: bool
  wc_allow_fn :: "(nat \<Rightarrow> u8 \<Rightarrow> u8 \<Rightarrow> u8 \<Rightarrow> 'x \<Rightarrow> (bool \<times> u8) \<times> 'x) option"
  wc_user :: nat

record 'x nx_uds_svc_session_reset_cfg =
  rc_do_fn :: "(nat \<Rightarrow> u8 \<Rightarrow> 'x \<Rightarrow> 'x) option"
  rc_allow_fn :: "(nat \<Rightarrow> u8 \<Rightarrow> u8 \<Rightarrow> 'x \<Rightarrow> (bool \<times> u8) \<times> 'x) option"
  rc_user :: nat
  rc_power_down_time :: u8

record nx_uds_svc_sec_level =
  lv_level :: u8
  lv_seed_len :: u32
  lv_key_len :: u32

text \<open>
  The seed callback is given the record of the request and the room, and yields whether it produced a seed, the bytes it wrote and the
  length it reported.
\<close>

record 'x nx_uds_svc_sec_cfg =
  xc_srv :: bool
  xc_levels :: "nx_uds_svc_sec_level list option"
  xc_levels_count :: u8
  xc_seed_fn :: "(nat \<Rightarrow> u8 \<Rightarrow> bytes \<Rightarrow> u32 \<Rightarrow> 'x \<Rightarrow> (bool \<times> bytes \<times> u32) \<times> 'x) option"
  xc_verify_fn :: "(nat \<Rightarrow> u8 \<Rightarrow> bytes \<Rightarrow> bytes \<Rightarrow> 'x \<Rightarrow> bool \<times> 'x) option"
  xc_granted_fn :: "(nat \<Rightarrow> u8 \<Rightarrow> 'x \<Rightarrow> 'x) option"
  xc_user :: nat
  xc_seed_buf :: "bytes option"
  xc_seed_buf_size :: u32
  xc_max_attempts :: u8
  xc_delay_us :: u32

record 'x nx_uds_svc_sec =
  xs_cfg :: "'x nx_uds_svc_sec_cfg"
  xs_seed_level :: u8
  xs_seed_len :: u32
  xs_attempts :: u8
  xs_waiting :: bool
  xs_wait_until :: u32

text \<open>
  A transfer of memory. The callbacks are given what the code passes by value and the initial contents of the result pointers, and yield
  the results, the bytes written through the output pointer among them.
\<close>

datatype nx_uds_svc_transfer_dir = NX_UDS_SVC_TRANSFER_NONE | NX_UDS_SVC_TRANSFER_DOWNLOAD | NX_UDS_SVC_TRANSFER_UPLOAD

record 'x nx_uds_svc_transfer_cfg =
  tc_srv :: bool
  tc_open_fn :: "(nat \<Rightarrow> nx_uds_svc_transfer_dir \<Rightarrow> u32 \<Rightarrow> u32 \<Rightarrow> u8 \<Rightarrow> u32 \<Rightarrow> u8 \<Rightarrow> 'x \<Rightarrow> (bool \<times> u32 \<times> u8) \<times> 'x) option"
  tc_write_fn :: "(nat \<Rightarrow> u32 \<Rightarrow> bytes \<Rightarrow> u8 \<Rightarrow> 'x \<Rightarrow> (bool \<times> u8) \<times> 'x) option"
  tc_read_fn :: "(nat \<Rightarrow> u32 \<Rightarrow> u32 \<Rightarrow> u8 \<Rightarrow> 'x \<Rightarrow> (bool \<times> bytes \<times> u8) \<times> 'x) option"
  tc_close_fn :: "(nat \<Rightarrow> nx_uds_svc_transfer_dir \<Rightarrow> u32 \<Rightarrow> u32 \<Rightarrow> bytes option \<Rightarrow> u32 \<Rightarrow> u8 \<Rightarrow> 'x \<Rightarrow> (bool \<times> bytes \<times> u32 \<times> u8) \<times> 'x) option"
  tc_user :: nat
  tc_max_block_len :: u32
  tc_bsc_error_nrc :: u8
  tc_require_full_size :: bool

record nx_uds_svc_transfer_run =
  xr_dir :: nx_uds_svc_transfer_dir
  xr_addr :: u32
  xr_size :: u32
  xr_done :: u32
  xr_block_len :: u32
  xr_bsc_next :: u8
  xr_bsc_last :: u8
  xr_committed :: bool
  xr_last_len :: u32

record 'x nx_uds_svc_transfer =
  xf_cfg :: "'x nx_uds_svc_transfer_cfg"
  xf_run :: nx_uds_svc_transfer_run

text \<open>The environment of a server with these services.\<close>

record 'x uds_diag =
  dg_sessions :: "nat \<Rightarrow> 'x nx_uds_svc_session_cfg option"
  dg_resets :: "nat \<Rightarrow> 'x nx_uds_svc_session_reset_cfg option"
  dg_secs :: "nat \<Rightarrow> 'x nx_uds_svc_sec option"
  dg_xfers :: "nat \<Rightarrow> 'x nx_uds_svc_transfer option"
  dg_app :: 'x

type_synonym 'x diag_world = "'x uds_diag uds_world"

definition upd_app :: "'x \<Rightarrow> 'x diag_world \<Rightarrow> 'x diag_world" where
  "upd_app x w = w\<lparr> uw_env := (uw_env w)\<lparr> dg_app := x \<rparr> \<rparr>"

definition upd_sec :: "nat \<Rightarrow> ('x nx_uds_svc_sec \<Rightarrow> 'x nx_uds_svc_sec) \<Rightarrow> 'x diag_world \<Rightarrow> 'x diag_world" where
  "upd_sec u f w = w\<lparr> uw_env := (uw_env w)\<lparr> dg_secs := (dg_secs (uw_env w))(u := map_option f (dg_secs (uw_env w) u)) \<rparr> \<rparr>"

definition upd_xfer :: "nat \<Rightarrow> (nx_uds_svc_transfer_run \<Rightarrow> nx_uds_svc_transfer_run) \<Rightarrow> 'x diag_world \<Rightarrow> 'x diag_world" where
  "upd_xfer u f w = w\<lparr> uw_env := (uw_env w)\<lparr> dg_xfers := (dg_xfers (uw_env w))
     (u := map_option (\<lambda>t. t\<lparr> xf_run := f (xf_run t) \<rparr>) (dg_xfers (uw_env w) u)) \<rparr> \<rparr>"

text \<open>The two ways a handler ends: refusing with a reason, and having written an answer of \<open>n\<close> bytes.\<close>

definition svc_refuse :: "u8 \<Rightarrow> 'e uds_world \<Rightarrow> (nx_uds_disposition \<times> 'e uds_world) option" where
  "svc_refuse nrc w = Some (NX_UDS_DISPOSITION_NEGATIVE, upd_ctx (\<lambda>c. c\<lparr> cx_nrc := nrc \<rparr>) w)"

definition svc_done :: "u32 \<Rightarrow> 'e uds_world \<Rightarrow> (nx_uds_disposition \<times> 'e uds_world) option" where
  "svc_done n w = Some (NX_UDS_DISPOSITION_DONE, upd_ctx (\<lambda>c. c\<lparr> cx_out_len := n \<rparr>) w)"

section \<open>TesterPresent, DiagnosticSessionControl, ECUReset\<close>

definition svc_answered_positively :: "'e uds_world \<Rightarrow> bool option" where
  "svc_answered_positively w =
     (if cx_out_len (uw_ctx w) \<ge> 2 then do {
        b \<leftarrow> uc_out_buf (uw_cfg w);
        x \<leftarrow> mem_get 0 b;
        Some (x = NX_UDS_SID_TO_POS_RSP (cx_sid (uw_ctx w))) }
      else Some False)"

definition nx_uds_svc_session_tester_present :: "nat \<Rightarrow> 'e uds_world \<Rightarrow> (nx_uds_disposition \<times> 'e uds_world) option" where
  "nx_uds_svc_session_tester_present user w =
     (if cx_phase (uw_ctx w) \<noteq> NX_UDS_PHASE_REQUEST then Some (NX_UDS_DISPOSITION_DONE, w)
      else do { w1 \<leftarrow> put_out 1 [cx_sub (uw_ctx w)] w; svc_done 2 w1 })"

abbreviation (input) SVC_SESSION_RSP_LEN :: u32 where "SVC_SESSION_RSP_LEN \<equiv> 6"
abbreviation (input) SVC_WINDOW_MAX :: u32 where "SVC_WINDOW_MAX \<equiv> 0xFFFF"
abbreviation (input) NX_UDS_P2_RESOLUTION_US :: u32 where "NX_UDS_P2_RESOLUTION_US \<equiv> 1000"
abbreviation (input) NX_UDS_P2_STAR_RESOLUTION_US :: u32 where "NX_UDS_P2_STAR_RESOLUTION_US \<equiv> 10000"

definition svc_window_counts :: "u32 \<Rightarrow> u32 \<Rightarrow> u16" where
  "svc_window_counts us unit =
     (let counts = (us + unit - 1) div unit in ucast (if counts > SVC_WINDOW_MAX then SVC_WINDOW_MAX else counts))"

text \<open>Entering the session, where the answer that was settled is the acceptance.\<close>

definition session_control_settled :: "'e uds_world \<Rightarrow> (nx_uds_disposition \<times> 'e uds_world) option" where
  "session_control_settled w = do {
     yes \<leftarrow> svc_answered_positively w;
     if yes then do {
       (r, wp) \<leftarrow> nx_uds_server_set_session (Some w) (cx_sub (uw_ctx w));
       w1 \<leftarrow> wp;
       Some (NX_UDS_DISPOSITION_DONE, w1) }
     else Some (NX_UDS_DISPOSITION_DONE, w) }"

definition session_control_request ::
  "'x nx_uds_svc_session_cfg \<Rightarrow> 'x diag_world \<Rightarrow> (nx_uds_disposition \<times> 'x diag_world) option" where
  "session_control_request cfg w =
     (if \<not> NX_UDS_SESSION_IN_RANGE (cx_sub (uw_ctx w)) then svc_refuse NX_UDS_NRC_SUB_FUNCTION_NOT_SUPPORTED w
      else
        let ((allowed, nrc), x) =
              (case wc_allow_fn cfg of
                 None \<Rightarrow> ((True, NX_UDS_NRC_CONDITIONS_NOT_CORRECT), dg_app (uw_env w))
               | Some allow_fn \<Rightarrow>
                   allow_fn (wc_user cfg) (cx_session (uw_ctx w)) (cx_sub (uw_ctx w)) NX_UDS_NRC_CONDITIONS_NOT_CORRECT (dg_app (uw_env w)));
            w1 = upd_app x w
        in if \<not> allowed then svc_refuse nrc w1
           else if cx_out_cap (uw_ctx w1) < SVC_SESSION_RSP_LEN then svc_refuse NX_UDS_NRC_RESPONSE_TOO_LONG w1
           else do {
             let (p2, p2_star) = nx_uds_server_timing (Some w1) (Some 0) (Some 0);
             a \<leftarrow> map_option (\<lambda>us. svc_window_counts us NX_UDS_P2_RESOLUTION_US) p2;
             b \<leftarrow> map_option (\<lambda>us. svc_window_counts us NX_UDS_P2_STAR_RESOLUTION_US) p2_star;
             w2 \<leftarrow> put_out 1 [cx_sub (uw_ctx w1), ucast (drop_bit 8 a), ucast a, ucast (drop_bit 8 b), ucast b] w1;
             svc_done SVC_SESSION_RSP_LEN w2 })"

definition nx_uds_svc_session_control :: "nat \<Rightarrow> 'x diag_world \<Rightarrow> (nx_uds_disposition \<times> 'x diag_world) option" where
  "nx_uds_svc_session_control user w =
     (if user = 0 then svc_refuse NX_UDS_NRC_CONDITIONS_NOT_CORRECT w
      else do {
        cfg \<leftarrow> dg_sessions (uw_env w) user;
        if \<not> wc_srv cfg then svc_refuse NX_UDS_NRC_CONDITIONS_NOT_CORRECT w
        else if cx_phase (uw_ctx w) = NX_UDS_PHASE_REQUEST then session_control_request cfg w
        else if cx_phase (uw_ctx w) = NX_UDS_PHASE_CONFIRM \<or> cx_phase (uw_ctx w) = NX_UDS_PHASE_SILENCE then session_control_settled w
        else Some (NX_UDS_DISPOSITION_DONE, w) })"

abbreviation (input) NX_UDS_RESET_ENABLE_RAPID_POWER_SHUT_DOWN :: u8 where "NX_UDS_RESET_ENABLE_RAPID_POWER_SHUT_DOWN \<equiv> 0x04"

definition ecu_reset_request ::
  "'x nx_uds_svc_session_reset_cfg \<Rightarrow> 'x diag_world \<Rightarrow> (nx_uds_disposition \<times> 'x diag_world) option" where
  "ecu_reset_request cfg w =
     (let ((allowed, nrc), x) =
            (case rc_allow_fn cfg of
               None \<Rightarrow> ((True, NX_UDS_NRC_CONDITIONS_NOT_CORRECT), dg_app (uw_env w))
             | Some allow_fn \<Rightarrow> allow_fn (rc_user cfg) (cx_sub (uw_ctx w)) NX_UDS_NRC_CONDITIONS_NOT_CORRECT (dg_app (uw_env w)));
          w1 = upd_app x w;
          len = (if cx_sub (uw_ctx w) = NX_UDS_RESET_ENABLE_RAPID_POWER_SHUT_DOWN then 3 else 2) :: u32
      in if \<not> allowed then svc_refuse nrc w1
         else if cx_out_cap (uw_ctx w1) < len then svc_refuse NX_UDS_NRC_RESPONSE_TOO_LONG w1
         else do {
           w2 \<leftarrow> put_out 1 ([cx_sub (uw_ctx w1)] @ (if len = 3 then [rc_power_down_time cfg] else [])) w1;
           svc_done len w2 })"

definition nx_uds_svc_session_ecu_reset :: "nat \<Rightarrow> 'x diag_world \<Rightarrow> (nx_uds_disposition \<times> 'x diag_world) option" where
  "nx_uds_svc_session_ecu_reset user w =
     (if user = 0 then svc_refuse NX_UDS_NRC_CONDITIONS_NOT_CORRECT w
      else do {
        cfg \<leftarrow> dg_resets (uw_env w) user;
        case rc_do_fn cfg of
          None \<Rightarrow> svc_refuse NX_UDS_NRC_CONDITIONS_NOT_CORRECT w
        | Some do_fn \<Rightarrow>
            if cx_phase (uw_ctx w) = NX_UDS_PHASE_REQUEST then ecu_reset_request cfg w
            else if cx_phase (uw_ctx w) = NX_UDS_PHASE_CONFIRM \<or> cx_phase (uw_ctx w) = NX_UDS_PHASE_SILENCE then do {
              yes \<leftarrow> svc_answered_positively w;
              Some (NX_UDS_DISPOSITION_DONE,
                    if yes then upd_app (do_fn (rc_user cfg) (cx_sub (uw_ctx w)) (dg_app (uw_env w))) w else w) }
            else Some (NX_UDS_DISPOSITION_DONE, w) })"

section \<open>SecurityAccess: setting up\<close>

abbreviation (input) NX_UDS_SVC_SEC_DEFAULT_ATTEMPTS :: u8 where "NX_UDS_SVC_SEC_DEFAULT_ATTEMPTS \<equiv> 3"
abbreviation (input) NX_UDS_SVC_SEC_DEFAULT_DELAY_US :: u32 where "NX_UDS_SVC_SEC_DEFAULT_DELAY_US \<equiv> 10000000"
abbreviation (input) NX_UDS_SVC_SEC_MAX_LEVEL :: u8 where "NX_UDS_SVC_SEC_MAX_LEVEL \<equiv> 32"
abbreviation (input) SEC_KEY_RSP_LEN :: u32 where "SEC_KEY_RSP_LEN \<equiv> 2"

definition NX_UDS_SVC_SEC_KEY_SUB :: "u8 \<Rightarrow> u8" where
  "NX_UDS_SVC_SEC_KEY_SUB level = ucast ((ucast level :: u32) * 2)"

definition sec_reached :: "u32 \<Rightarrow> u32 \<Rightarrow> bool" where
  "sec_reached now deadline \<longleftrightarrow> tick_reached now deadline"

definition sec_level_of :: "u8 \<Rightarrow> u8" where
  "sec_level_of sub =
     (if sub = 0 \<or> sub > NX_UDS_SVC_SEC_KEY_SUB NX_UDS_SVC_SEC_MAX_LEVEL then 0 else ucast (((ucast sub :: u32) + 1) div 2))"

definition sec_is_seed_request :: "u8 \<Rightarrow> bool" where
  "sec_is_seed_request sub \<longleftrightarrow> sub AND 1 \<noteq> 0"

text \<open>The declaration of a level among the first \<open>n\<close>; \<open>Some None\<close> where there is none.\<close>

fun sec_search :: "u8 \<Rightarrow> nat \<Rightarrow> nx_uds_svc_sec_level list \<Rightarrow> nx_uds_svc_sec_level option option" where
  "sec_search level 0 lvs = Some None"
| "sec_search level (Suc n) [] = None"
| "sec_search level (Suc n) (lv # lvs) = (if lv_level lv = level then Some (Some lv) else sec_search level n lvs)"

definition sec_levels :: "'x nx_uds_svc_sec_cfg \<Rightarrow> nx_uds_svc_sec_level list" where
  "sec_levels c = (case xc_levels c of Some lvs \<Rightarrow> lvs | None \<Rightarrow> [])"

definition sec_find_level :: "'x nx_uds_svc_sec \<Rightarrow> u8 \<Rightarrow> nx_uds_svc_sec_level option option" where
  "sec_find_level sec level = sec_search level (unat (xc_levels_count (xs_cfg sec))) (sec_levels (xs_cfg sec))"

text \<open>The declarations one after the other; \<open>seen\<close> are the levels before.\<close>

fun sec_levels_ok :: "u32 \<Rightarrow> u8 list \<Rightarrow> nat \<Rightarrow> nx_uds_svc_sec_level list \<Rightarrow> bool option" where
  "sec_levels_ok room seen 0 lvs = Some True"
| "sec_levels_ok room seen (Suc n) [] = None"
| "sec_levels_ok room seen (Suc n) (lv # lvs) =
     (if lv_level lv = 0 \<or> lv_level lv > NX_UDS_SVC_SEC_MAX_LEVEL then Some False
      else if lv_seed_len lv = 0 \<or> lv_key_len lv = 0 then Some False
      else if lv_seed_len lv > room then Some False
      else if lv_level lv \<in> set seen then Some False
      else sec_levels_ok room (seen @ [lv_level lv]) n lvs)"

definition nx_uds_svc_sec_init ::
  "'x nx_uds_svc_sec option \<Rightarrow> 'x nx_uds_svc_sec_cfg option \<Rightarrow> (bool \<times> 'x nx_uds_svc_sec option) option" where
  "nx_uds_svc_sec_init sp cfgp =
     (case (sp, cfgp) of
        (Some sec, Some cfg) \<Rightarrow>
          if \<not> xc_srv cfg \<or> xc_levels cfg = None \<or> xc_levels_count cfg = 0 \<or> xc_seed_fn cfg = None \<or> xc_verify_fn cfg = None \<or>
             xc_seed_buf cfg = None \<or> xc_seed_buf_size cfg = 0
          then Some (False, sp)
          else do {
            ok \<leftarrow> sec_levels_ok (xc_seed_buf_size cfg) [] (unat (xc_levels_count cfg)) (sec_levels cfg);
            if \<not> ok then Some (False, sp)
            else Some (True, Some \<lparr>
              xs_cfg = cfg\<lparr> xc_max_attempts := (if xc_max_attempts cfg = 0 then NX_UDS_SVC_SEC_DEFAULT_ATTEMPTS else xc_max_attempts cfg),
                            xc_delay_us := (if xc_delay_us cfg = 0 then NX_UDS_SVC_SEC_DEFAULT_DELAY_US else xc_delay_us cfg) \<rparr>,
              xs_seed_level = 0, xs_seed_len = 0, xs_attempts = 0, xs_waiting = False, xs_wait_until = 0 \<rparr>) }
      | _ \<Rightarrow> Some (False, sp))"

text \<open>The server named by a configuration.\<close>

definition sec_srv :: "'x nx_uds_svc_sec \<Rightarrow> 'x diag_world \<Rightarrow> 'x diag_world option" where
  "sec_srv sec w = (if xc_srv (xs_cfg sec) then Some w else None)"

text \<open>The clock of that server, which is 0 for NULL.\<close>

definition sec_now :: "'x nx_uds_svc_sec \<Rightarrow> 'x diag_world \<Rightarrow> (u32 \<times> 'x diag_world) option" where
  "sec_now sec w = do {
     (t, wp) \<leftarrow> nx_uds_server_now (sec_srv sec w);
     Some (t, case wp of Some w1 \<Rightarrow> w1 | None \<Rightarrow> w) }"

text \<open>What lies at the result pointers, which may be NULL, and what is left there.\<close>

definition nx_uds_svc_sec_get_lockout ::
  "nat \<Rightarrow> u8 option \<Rightarrow> bool option \<Rightarrow> u32 option \<Rightarrow> 'x diag_world \<Rightarrow> ((u8 option \<times> bool option \<times> u32 option) \<times> 'x diag_world) option" where
  "nx_uds_svc_sec_get_lockout u attempts waiting remaining w =
     (if u = 0 then Some ((attempts, waiting, remaining), w)
      else do {
        sec \<leftarrow> dg_secs (uw_env w) u;
        let a = map_option (\<lambda>_. xs_attempts sec) attempts;
        let b = map_option (\<lambda>_. xs_waiting sec) waiting;
        if remaining = None then Some ((a, b, None), w)
        else if \<not> xs_waiting sec then Some ((a, b, Some 0), w)
        else do {
          (t, w1) \<leftarrow> sec_now sec w;
          Some ((a, b, Some (if \<not> sec_reached t (xs_wait_until sec) then xs_wait_until sec - t else 0)), w1) } })"

definition nx_uds_svc_sec_set_lockout :: "nat \<Rightarrow> u8 \<Rightarrow> bool \<Rightarrow> u32 \<Rightarrow> 'x diag_world \<Rightarrow> (bool \<times> 'x diag_world) option" where
  "nx_uds_svc_sec_set_lockout u attempts waiting remaining w =
     (if u = 0 then Some (False, w)
      else do {
        sec \<leftarrow> dg_secs (uw_env w) u;
        (t, w1) \<leftarrow> (if waiting then do { (t, w1) \<leftarrow> sec_now sec w; Some (t + remaining, w1) } else Some (0, w));
        Some (True, upd_sec u (\<lambda>s. s\<lparr> xs_attempts := attempts, xs_waiting := waiting, xs_wait_until := t, xs_seed_level := 0, xs_seed_len := 0 \<rparr>) w1) })"

section \<open>SecurityAccess: the exchange\<close>

definition sec_forget :: "nat \<Rightarrow> 'x diag_world \<Rightarrow> 'x diag_world" where
  "sec_forget u = upd_sec u (\<lambda>s. s\<lparr> xs_seed_level := 0, xs_seed_len := 0 \<rparr>)"

text \<open>The bytes of the request from the third on.\<close>

definition req_from :: "'e uds_world \<Rightarrow> u32 \<Rightarrow> bytes option" where
  "req_from w n = do { b \<leftarrow> uc_req_buf (uw_cfg w); mem_read 2 (unat n) b }"

definition sec_do_seed :: "nat \<Rightarrow> 'x nx_uds_svc_sec \<Rightarrow> nx_uds_svc_sec_level \<Rightarrow> u8 \<Rightarrow> 'x diag_world \<Rightarrow> (nx_uds_disposition \<times> 'x diag_world) option" where
  "sec_do_seed u sec lv level w =
     (let c = uw_ctx w; cfg = xs_cfg sec in
      if cx_out_cap c < 2 + lv_seed_len lv then svc_refuse NX_UDS_NRC_RESPONSE_TOO_LONG w
      else if cx_suppress_pos c then do {
        w1 \<leftarrow> put_out 1 [cx_sub c] (sec_forget u w);
        svc_done 2 w1 }
      else if cx_sec_level c = level then do {
        w1 \<leftarrow> put_out 2 (replicate (unat (lv_seed_len lv)) 0) (sec_forget u w);
        w2 \<leftarrow> put_out 1 [cx_sub c] w1;
        svc_done (2 + lv_seed_len lv) w2 }
      else do {
        seed_fn \<leftarrow> xc_seed_fn cfg;
        rec \<leftarrow> req_from w (cx_req_len c - 2);
        area \<leftarrow> xc_seed_buf cfg;
        let ((ok, seed, n), x) = seed_fn (xc_user cfg) level rec (xc_seed_buf_size cfg) (dg_app (uw_env w));
        area1 \<leftarrow> mem_write 0 seed area;
        let w1 = upd_sec u (\<lambda>s. s\<lparr> xs_cfg := (xs_cfg s)\<lparr> xc_seed_buf := Some area1 \<rparr> \<rparr>) (upd_app x w);
        if \<not> ok then svc_refuse NX_UDS_NRC_CONDITIONS_NOT_CORRECT w1
        else if n \<noteq> lv_seed_len lv then svc_refuse NX_UDS_NRC_CONDITIONS_NOT_CORRECT (sec_forget u w1)
        else do {
          out \<leftarrow> mem_read 0 (unat n) area1;
          w2 \<leftarrow> put_out 2 out (upd_sec u (\<lambda>s. s\<lparr> xs_seed_level := level, xs_seed_len := n \<rparr>) w1);
          w3 \<leftarrow> put_out 1 [cx_sub c] w2;
          svc_done (2 + n) w3 } })"

definition sec_do_key :: "nat \<Rightarrow> 'x nx_uds_svc_sec \<Rightarrow> nx_uds_svc_sec_level \<Rightarrow> u8 \<Rightarrow> 'x diag_world \<Rightarrow> (nx_uds_disposition \<times> 'x diag_world) option" where
  "sec_do_key u sec lv level w =
     (let c = uw_ctx w; cfg = xs_cfg sec in
      if xs_seed_level sec \<noteq> level then svc_refuse NX_UDS_NRC_REQUEST_SEQUENCE_ERROR w
      else if cx_req_len c \<noteq> 2 + lv_key_len lv then svc_refuse NX_UDS_NRC_INCORRECT_LENGTH_OR_FORMAT w
      else if cx_out_cap c < SEC_KEY_RSP_LEN then svc_refuse NX_UDS_NRC_RESPONSE_TOO_LONG w
      else do {
        verify_fn \<leftarrow> xc_verify_fn cfg;
        area \<leftarrow> xc_seed_buf cfg;
        seed \<leftarrow> mem_read 0 (unat (xs_seed_len sec)) area;
        key \<leftarrow> req_from w (lv_key_len lv);
        let (right, x) = verify_fn (xc_user cfg) level seed key (dg_app (uw_env w));
        let w1 = sec_forget u (upd_app x w);
        if \<not> right then do {
          let attempts = (if xs_attempts sec < 0xFF then xs_attempts sec + 1 else xs_attempts sec);
          let w2 = upd_sec u (\<lambda>s. s\<lparr> xs_attempts := attempts \<rparr>) w1;
          if attempts \<ge> xc_max_attempts cfg then do {
            (t, w3) \<leftarrow> sec_now sec (upd_sec u (\<lambda>s. s\<lparr> xs_waiting := True \<rparr>) w2);
            svc_refuse NX_UDS_NRC_EXCEEDED_NUMBER_OF_ATTEMPTS (upd_sec u (\<lambda>s. s\<lparr> xs_wait_until := t + xc_delay_us cfg \<rparr>) w3) }
          else svc_refuse NX_UDS_NRC_INVALID_KEY w2 }
        else do {
          let w2 = upd_sec u (\<lambda>s. s\<lparr> xs_attempts := 0 \<rparr>) w1;
          let w3 = (case snd (nx_uds_server_set_sec_level (sec_srv sec w2) level) of Some w3 \<Rightarrow> w3 | None \<Rightarrow> w2);
          w4 \<leftarrow> put_out 1 [cx_sub c] w3;
          (d, w5) \<leftarrow> svc_done SEC_KEY_RSP_LEN w4;
          Some (d, case xc_granted_fn cfg of None \<Rightarrow> w5 | Some granted_fn \<Rightarrow> upd_app (granted_fn (xc_user cfg) level (dg_app (uw_env w5))) w5) } })"

text \<open>The request once no wait is running.\<close>

definition sec_exchange :: "nat \<Rightarrow> 'x diag_world \<Rightarrow> (nx_uds_disposition \<times> 'x diag_world) option" where
  "sec_exchange u w = do {
     sec \<leftarrow> dg_secs (uw_env w) u;
     let level = sec_level_of (cx_sub (uw_ctx w));
     lv \<leftarrow> (if level \<noteq> 0 then sec_find_level sec level else Some None);
     case lv of
       None \<Rightarrow> svc_refuse NX_UDS_NRC_SUB_FUNCTION_NOT_SUPPORTED w
     | Some l \<Rightarrow> if sec_is_seed_request (cx_sub (uw_ctx w)) then sec_do_seed u sec l level w else sec_do_key u sec l level w }"

definition nx_uds_svc_security_access :: "nat \<Rightarrow> 'x diag_world \<Rightarrow> (nx_uds_disposition \<times> 'x diag_world) option" where
  "nx_uds_svc_security_access u w =
     (if u = 0 then svc_refuse NX_UDS_NRC_CONDITIONS_NOT_CORRECT w
      else do {
        sec \<leftarrow> dg_secs (uw_env w) u;
        if \<not> xc_srv (xs_cfg sec) then svc_refuse NX_UDS_NRC_CONDITIONS_NOT_CORRECT w
        else if cx_phase (uw_ctx w) \<noteq> NX_UDS_PHASE_REQUEST then Some (NX_UDS_DISPOSITION_DONE, w)
        else if xs_waiting sec then do {
          (t, w1) \<leftarrow> sec_now sec w;
          if \<not> sec_reached t (xs_wait_until sec) then svc_refuse NX_UDS_NRC_REQUIRED_TIME_DELAY_NOT_EXPIRED w1
          else sec_exchange u (upd_sec u (\<lambda>s. s\<lparr> xs_waiting := False, xs_attempts := 0 \<rparr>) w1) }
        else sec_exchange u w })"

end
