(* ===== verification/Nx_Uds_Transfer.thy ===== *)
theory Nx_Uds_Transfer
  imports Nx_Uds_Services
begin

text \<open>
  The services that move memory, \<open>src/middleware/nx_uds_svc_transfer.c\<close>: RequestDownload, RequestUpload, TransferData and
  RequestTransferExit. The product's callbacks act on its own part of the environment. At the end all handlers of the repository by address.
\<close>

section \<open>Fields of several bytes\<close>

abbreviation (input) NX_UDS_NRC_UPLOAD_DOWNLOAD_NOT_ACCEPTED :: u8 where "NX_UDS_NRC_UPLOAD_DOWNLOAD_NOT_ACCEPTED \<equiv> 0x70"
abbreviation (input) NX_UDS_NRC_GENERAL_PROGRAMMING_FAILURE :: u8 where "NX_UDS_NRC_GENERAL_PROGRAMMING_FAILURE \<equiv> 0x72"
abbreviation (input) NX_UDS_NRC_WRONG_BLOCK_SEQUENCE_COUNTER :: u8 where "NX_UDS_NRC_WRONG_BLOCK_SEQUENCE_COUNTER \<equiv> 0x73"
abbreviation (input) XFER_REQ_FIXED :: u32 where "XFER_REQ_FIXED \<equiv> 3"
abbreviation (input) XFER_RSP_FIXED :: u32 where "XFER_RSP_FIXED \<equiv> 2"
abbreviation (input) NX_UDS_SVC_TRANSFER_BLOCK_OVERHEAD :: u32 where "NX_UDS_SVC_TRANSFER_BLOCK_OVERHEAD \<equiv> 2"
abbreviation (input) NX_UDS_SVC_TRANSFER_FIRST_BSC :: u8 where "NX_UDS_SVC_TRANSFER_FIRST_BSC \<equiv> 1"

definition nx_uds_svc_transfer_payload_room :: "u32 \<Rightarrow> u32" where
  "nx_uds_svc_transfer_payload_room block_len =
     (if block_len > NX_UDS_SVC_TRANSFER_BLOCK_OVERHEAD then block_len - NX_UDS_SVC_TRANSFER_BLOCK_OVERHEAD else 0)"

text \<open>The bytes above the width of an address, which have to be zero; \<open>None\<close> where one is not.\<close>

fun xfer_skip_high :: "bytes \<Rightarrow> bytes option" where
  "xfer_skip_high [] = Some []"
| "xfer_skip_high (b # x) = (if 4 < length (b # x) then (if b \<noteq> 0 then None else xfer_skip_high x) else Some (b # x))"

definition xfer_read_be :: "bytes \<Rightarrow> u32 option" where
  "xfer_read_be x = map_option (foldl (\<lambda>v b. push_bit 8 v OR ucast b) 0) (xfer_skip_high x)"

definition xfer_write_be :: "nat \<Rightarrow> u32 \<Rightarrow> bytes" where
  "xfer_write_be len v = map (\<lambda>k. ucast (drop_bit (8 * (len - 1 - k)) v)) [0..<len]"

section \<open>Setting up and tearing down\<close>

definition xfer_run_zero :: nx_uds_svc_transfer_run where
  "xfer_run_zero = \<lparr> xr_dir = NX_UDS_SVC_TRANSFER_NONE, xr_addr = 0, xr_size = 0, xr_done = 0, xr_block_len = 0, xr_bsc_next = 0,
     xr_bsc_last = 0, xr_committed = False, xr_last_len = 0 \<rparr>"

definition nx_uds_svc_transfer_init ::
  "'x nx_uds_svc_transfer option \<Rightarrow> 'x nx_uds_svc_transfer_cfg option \<Rightarrow> bool \<times> 'x nx_uds_svc_transfer option" where
  "nx_uds_svc_transfer_init xp cfgp =
     (case (xp, cfgp) of
        (Some _, Some cfg) \<Rightarrow>
          if \<not> tc_srv cfg then (False, xp)
          else if tc_write_fn cfg = None \<and> tc_read_fn cfg = None then (False, xp)
          else (True, Some \<lparr> xf_cfg = cfg\<lparr> tc_bsc_error_nrc :=
                  (if tc_bsc_error_nrc cfg = 0 then NX_UDS_NRC_WRONG_BLOCK_SEQUENCE_COUNTER else tc_bsc_error_nrc cfg) \<rparr>,
                xf_run = xfer_run_zero \<rparr>)
      | _ \<Rightarrow> (False, xp))"

definition xfer_clear :: "nat \<Rightarrow> 'x diag_world \<Rightarrow> 'x diag_world" where
  "xfer_clear u = upd_xfer u (\<lambda>_. xfer_run_zero)"

definition nx_uds_svc_transfer_abort :: "nat \<Rightarrow> 'x diag_world \<Rightarrow> 'x diag_world" where
  "nx_uds_svc_transfer_abort u w = (if u = 0 then w else xfer_clear u w)"

text \<open>What lies at the two result pointers, which may be NULL, and what is left there.\<close>

definition nx_uds_svc_transfer_progress ::
  "'x nx_uds_svc_transfer option \<Rightarrow> u32 option \<Rightarrow> u32 option \<Rightarrow> nx_uds_svc_transfer_dir \<times> u32 option \<times> u32 option" where
  "nx_uds_svc_transfer_progress xp done_at size_at =
     (case xp of
        None \<Rightarrow> (NX_UDS_SVC_TRANSFER_NONE, done_at, size_at)
      | Some t \<Rightarrow> (xr_dir (xf_run t), map_option (\<lambda>_. xr_done (xf_run t)) done_at, map_option (\<lambda>_. xr_size (xf_run t)) size_at))"

section \<open>Opening a transfer\<close>

definition xfer_srv :: "'x nx_uds_svc_transfer \<Rightarrow> 'x diag_world \<Rightarrow> 'x diag_world option" where
  "xfer_srv t w = (if tc_srv (xf_cfg t) then Some w else None)"

definition xfer_announce_len :: "'x nx_uds_svc_transfer \<Rightarrow> nx_uds_svc_transfer_dir \<Rightarrow> 'x diag_world \<Rightarrow> u32 option" where
  "xfer_announce_len t dir w = do {
     let (req, rsp) = nx_uds_server_apdu_limits (xfer_srv t w) (Some 0) (Some 0);
     len \<leftarrow> (if dir = NX_UDS_SVC_TRANSFER_DOWNLOAD then req else rsp);
     Some (if tc_max_block_len (xf_cfg t) \<noteq> 0 \<and> tc_max_block_len (xf_cfg t) < len then tc_max_block_len (xf_cfg t) else len) }"

definition xfer_width_for :: "u32 \<Rightarrow> u32" where
  "xfer_width_for v = (if v \<le> 0xFF then 1 else if v \<le> 0xFFFF then 2 else 4)"

text \<open>\<open>n\<close> bytes of the request from its byte \<open>i\<close> on.\<close>

definition req_at :: "'e uds_world \<Rightarrow> nat \<Rightarrow> u32 \<Rightarrow> bytes option" where
  "req_at w i n = do { b \<leftarrow> uc_req_buf (uw_cfg w); mem_read i (unat n) b }"

definition req_byte :: "'e uds_world \<Rightarrow> nat \<Rightarrow> u8 option" where
  "req_byte w i = do { b \<leftarrow> uc_req_buf (uw_cfg w); mem_get i b }"

text \<open>Announcing the block length, the transfer being open.\<close>

definition xfer_announce ::
  "nat \<Rightarrow> nx_uds_svc_transfer_dir \<Rightarrow> u32 \<Rightarrow> u32 \<Rightarrow> u32 \<Rightarrow> 'x diag_world \<Rightarrow> (nx_uds_disposition \<times> 'x diag_world) option" where
  "xfer_announce u dir addr region block_len w =
     (if nx_uds_svc_transfer_payload_room block_len = 0 then svc_refuse NX_UDS_NRC_CONDITIONS_NOT_CORRECT w
      else
        let width = xfer_width_for block_len in
        if cx_out_cap (uw_ctx w) < XFER_RSP_FIXED + width then svc_refuse NX_UDS_NRC_RESPONSE_TOO_LONG w
        else do {
          let w1 = upd_xfer u (\<lambda>_. \<lparr> xr_dir = dir, xr_addr = addr, xr_size = region, xr_done = 0, xr_block_len = block_len,
                 xr_bsc_next = NX_UDS_SVC_TRANSFER_FIRST_BSC, xr_bsc_last = 0, xr_committed = False, xr_last_len = 0 \<rparr>) w;
          w2 \<leftarrow> put_out 1 [ucast (push_bit 4 width)] w1;
          w3 \<leftarrow> put_out 2 (xfer_write_be (unat width) block_len) w2;
          svc_done (XFER_RSP_FIXED + width) w3 })"

text \<open>Asking the product.\<close>

definition xfer_consult ::
  "nat \<Rightarrow> 'x nx_uds_svc_transfer \<Rightarrow> nx_uds_svc_transfer_dir \<Rightarrow> u32 \<Rightarrow> u32 \<Rightarrow> 'x diag_world \<Rightarrow> (nx_uds_disposition \<times> 'x diag_world) option" where
  "xfer_consult u t dir addr region w = do {
     limit \<leftarrow> xfer_announce_len t dir w;
     format \<leftarrow> req_byte w 1;
     let ((ok, block_len, nrc), x) =
           (case tc_open_fn (xf_cfg t) of
              None \<Rightarrow> ((True, limit, NX_UDS_NRC_REQUEST_OUT_OF_RANGE), dg_app (uw_env w))
            | Some open_fn \<Rightarrow> open_fn (tc_user (xf_cfg t)) dir addr region format limit NX_UDS_NRC_REQUEST_OUT_OF_RANGE (dg_app (uw_env w)));
     let w1 = upd_app x w;
     if \<not> ok then svc_refuse nrc w1
     else xfer_announce u dir addr region (if block_len > limit then limit else block_len) w1 }"

definition xfer_open :: "nat \<Rightarrow> nx_uds_svc_transfer_dir \<Rightarrow> 'x diag_world \<Rightarrow> (nx_uds_disposition \<times> 'x diag_world) option" where
  "xfer_open u dir w = do {
     t \<leftarrow> dg_xfers (uw_env w) u;
     if xr_dir (xf_run t) \<noteq> NX_UDS_SVC_TRANSFER_NONE then svc_refuse NX_UDS_NRC_CONDITIONS_NOT_CORRECT w
     else if (dir = NX_UDS_SVC_TRANSFER_DOWNLOAD \<and> tc_write_fn (xf_cfg t) = None) \<or>
             (dir = NX_UDS_SVC_TRANSFER_UPLOAD \<and> tc_read_fn (xf_cfg t) = None)
     then svc_refuse NX_UDS_NRC_UPLOAD_DOWNLOAD_NOT_ACCEPTED w
     else do {
       f \<leftarrow> req_byte w 2;
       let addr_len = (ucast (f AND 0x0F) :: u32);
       let size_len = (ucast (drop_bit 4 f AND 0x0F) :: u32);
       if addr_len = 0 \<or> size_len = 0 \<or> cx_req_len (uw_ctx w) \<noteq> XFER_REQ_FIXED + addr_len + size_len
       then svc_refuse NX_UDS_NRC_INCORRECT_LENGTH_OR_FORMAT w
       else do {
         a \<leftarrow> req_at w 3 addr_len;
         s \<leftarrow> req_at w (3 + unat addr_len) size_len;
         (case (xfer_read_be a, xfer_read_be s) of
            (Some addr, Some region) \<Rightarrow>
              if region = 0 then svc_refuse NX_UDS_NRC_REQUEST_OUT_OF_RANGE w else xfer_consult u t dir addr region w
          | _ \<Rightarrow> svc_refuse NX_UDS_NRC_REQUEST_OUT_OF_RANGE w) } } }"

definition xfer_request :: "nx_uds_svc_transfer_dir \<Rightarrow> nat \<Rightarrow> 'x diag_world \<Rightarrow> (nx_uds_disposition \<times> 'x diag_world) option" where
  "xfer_request dir u w =
     (if u = 0 then svc_refuse NX_UDS_NRC_CONDITIONS_NOT_CORRECT w
      else if cx_phase (uw_ctx w) \<noteq> NX_UDS_PHASE_REQUEST then Some (NX_UDS_DISPOSITION_DONE, w)
      else xfer_open u dir w)"

definition nx_uds_svc_transfer_request_download :: "nat \<Rightarrow> 'x diag_world \<Rightarrow> (nx_uds_disposition \<times> 'x diag_world) option" where
  "nx_uds_svc_transfer_request_download = xfer_request NX_UDS_SVC_TRANSFER_DOWNLOAD"

definition nx_uds_svc_transfer_request_upload :: "nat \<Rightarrow> 'x diag_world \<Rightarrow> (nx_uds_disposition \<times> 'x diag_world) option" where
  "nx_uds_svc_transfer_request_upload = xfer_request NX_UDS_SVC_TRANSFER_UPLOAD"

section \<open>Carrying a block\<close>

definition xfer_fill_upload :: "'x nx_uds_svc_transfer \<Rightarrow> u32 \<Rightarrow> u32 \<Rightarrow> 'x diag_world \<Rightarrow> (nx_uds_disposition \<times> 'x diag_world) option" where
  "xfer_fill_upload t offset len w =
     (if cx_out_cap (uw_ctx w) < NX_UDS_SVC_TRANSFER_BLOCK_OVERHEAD + len then svc_refuse NX_UDS_NRC_RESPONSE_TOO_LONG w
      else do {
        read_fn \<leftarrow> tc_read_fn (xf_cfg t);
        let ((ok, data, nrc), x) =
              read_fn (tc_user (xf_cfg t)) (xr_addr (xf_run t) + offset) len NX_UDS_NRC_GENERAL_PROGRAMMING_FAILURE (dg_app (uw_env w));
        w1 \<leftarrow> put_out 2 data (upd_app x w);
        if \<not> ok then svc_refuse nrc w1
        else svc_done (NX_UDS_SVC_TRANSFER_BLOCK_OVERHEAD + len) w1 })"

definition xfer_repeat :: "'x nx_uds_svc_transfer \<Rightarrow> 'x diag_world \<Rightarrow> (nx_uds_disposition \<times> 'x diag_world) option" where
  "xfer_repeat t w = do {
     w1 \<leftarrow> put_out 1 [xr_bsc_last (xf_run t)] w;
     if xr_dir (xf_run t) = NX_UDS_SVC_TRANSFER_UPLOAD
     then xfer_fill_upload t (xr_done (xf_run t) - xr_last_len (xf_run t)) (xr_last_len (xf_run t)) w1
     else svc_done NX_UDS_SVC_TRANSFER_BLOCK_OVERHEAD w1 }"

text \<open>How much this block carries, or the reason to refuse it.\<close>

definition xfer_block_len :: "nx_uds_svc_transfer_run \<Rightarrow> u32 \<Rightarrow> u32 option" where
  "xfer_block_len r req_len =
     (let room = nx_uds_svc_transfer_payload_room (xr_block_len r);
          down = (xr_dir r = NX_UDS_SVC_TRANSFER_DOWNLOAD);
          len = (if down then req_len - NX_UDS_SVC_TRANSFER_BLOCK_OVERHEAD else room) in
      if down \<and> (len = 0 \<or> len > room) then None
      else if xr_done r + len > xr_size r then
        (let left = xr_size r - xr_done r in if left = 0 then None else if down then None else Some left)
      else Some len)"

text \<open>Writing or reading the block.\<close>

definition xfer_carry :: "'x nx_uds_svc_transfer \<Rightarrow> u32 \<Rightarrow> 'x diag_world \<Rightarrow> (nx_uds_disposition \<times> 'x diag_world) option" where
  "xfer_carry t len w =
     (if xr_dir (xf_run t) = NX_UDS_SVC_TRANSFER_DOWNLOAD then do {
        write_fn \<leftarrow> tc_write_fn (xf_cfg t);
        data \<leftarrow> req_at w 2 len;
        let ((ok, nrc), x) = write_fn (tc_user (xf_cfg t)) (xr_addr (xf_run t) + xr_done (xf_run t)) data
              NX_UDS_NRC_GENERAL_PROGRAMMING_FAILURE (dg_app (uw_env w));
        if \<not> ok then svc_refuse nrc (upd_app x w)
        else svc_done NX_UDS_SVC_TRANSFER_BLOCK_OVERHEAD (upd_app x w) }
      else xfer_fill_upload t (xr_done (xf_run t)) len w)"

definition xfer_commit :: "u8 \<Rightarrow> u32 \<Rightarrow> nx_uds_svc_transfer_run \<Rightarrow> nx_uds_svc_transfer_run" where
  "xfer_commit bsc len r = r\<lparr> xr_done := xr_done r + len, xr_bsc_last := bsc, xr_bsc_next := bsc + 1, xr_committed := True, xr_last_len := len \<rparr>"

definition xfer_data :: "nat \<Rightarrow> 'x nx_uds_svc_transfer \<Rightarrow> 'x diag_world \<Rightarrow> (nx_uds_disposition \<times> 'x diag_world) option" where
  "xfer_data u t w = do {
     bsc \<leftarrow> req_byte w 1;
     if xr_committed (xf_run t) \<and> bsc = xr_bsc_last (xf_run t) then xfer_repeat t w
     else if bsc \<noteq> xr_bsc_next (xf_run t) then svc_refuse (tc_bsc_error_nrc (xf_cfg t)) w
     else (case xfer_block_len (xf_run t) (cx_req_len (uw_ctx w)) of
             None \<Rightarrow> svc_refuse NX_UDS_NRC_REQUEST_OUT_OF_RANGE w
           | Some len \<Rightarrow> do {
               w1 \<leftarrow> put_out 1 [bsc] w;
               (d, w2) \<leftarrow> xfer_carry t len w1;
               Some (d, if d = NX_UDS_DISPOSITION_DONE then upd_xfer u (xfer_commit bsc len) w2 else w2) }) }"

definition nx_uds_svc_transfer_data :: "nat \<Rightarrow> 'x diag_world \<Rightarrow> (nx_uds_disposition \<times> 'x diag_world) option" where
  "nx_uds_svc_transfer_data u w =
     (if u = 0 then svc_refuse NX_UDS_NRC_CONDITIONS_NOT_CORRECT w
      else if cx_phase (uw_ctx w) \<noteq> NX_UDS_PHASE_REQUEST then Some (NX_UDS_DISPOSITION_DONE, w)
      else do {
        t \<leftarrow> dg_xfers (uw_env w) u;
        if xr_dir (xf_run t) = NX_UDS_SVC_TRANSFER_NONE then svc_refuse NX_UDS_NRC_REQUEST_SEQUENCE_ERROR w
        else xfer_data u t w })"

section \<open>Finishing\<close>

text \<open>The answer, and the end of the transfer.\<close>

definition xfer_finish :: "nat \<Rightarrow> u32 \<Rightarrow> 'x diag_world \<Rightarrow> (nx_uds_disposition \<times> 'x diag_world) option" where
  "xfer_finish u out_len w =
     (if 1 + out_len > cx_out_cap (uw_ctx w) then svc_refuse NX_UDS_NRC_RESPONSE_TOO_LONG w
      else svc_done (1 + out_len) (xfer_clear u w))"

definition xfer_close :: "nat \<Rightarrow> 'x nx_uds_svc_transfer \<Rightarrow> 'x diag_world \<Rightarrow> (nx_uds_disposition \<times> 'x diag_world) option" where
  "xfer_close u t w = do {
     record \<leftarrow> (if cx_req_len (uw_ctx w) > 1 then map_option Some (req_at w 1 (cx_req_len (uw_ctx w) - 1)) else Some None);
     case tc_close_fn (xf_cfg t) of
       None \<Rightarrow> xfer_finish u 0 w
     | Some close_fn \<Rightarrow> do {
         let ((ok, out, out_len, nrc), x) =
               close_fn (tc_user (xf_cfg t)) (xr_dir (xf_run t)) (xr_done (xf_run t)) (xr_size (xf_run t)) record
                 (if cx_out_cap (uw_ctx w) > 1 then cx_out_cap (uw_ctx w) - 1 else 0) NX_UDS_NRC_GENERAL_PROGRAMMING_FAILURE (dg_app (uw_env w));
         w1 \<leftarrow> put_out 1 out (upd_app x w);
         if \<not> ok then svc_refuse nrc w1 else xfer_finish u out_len w1 } }"

definition nx_uds_svc_transfer_exit :: "nat \<Rightarrow> 'x diag_world \<Rightarrow> (nx_uds_disposition \<times> 'x diag_world) option" where
  "nx_uds_svc_transfer_exit u w =
     (if u = 0 then svc_refuse NX_UDS_NRC_CONDITIONS_NOT_CORRECT w
      else if cx_phase (uw_ctx w) \<noteq> NX_UDS_PHASE_REQUEST then Some (NX_UDS_DISPOSITION_DONE, w)
      else do {
        t \<leftarrow> dg_xfers (uw_env w) u;
        if xr_dir (xf_run t) = NX_UDS_SVC_TRANSFER_NONE then svc_refuse NX_UDS_NRC_REQUEST_SEQUENCE_ERROR w
        else if tc_require_full_size (xf_cfg t) \<and> xr_done (xf_run t) \<noteq> xr_size (xf_run t) then svc_refuse NX_UDS_NRC_REQUEST_SEQUENCE_ERROR w
        else xfer_close u t w })"

section \<open>The handlers by address\<close>

abbreviation (input) AT_TESTER_PRESENT :: nat where "AT_TESTER_PRESENT \<equiv> 1"
abbreviation (input) AT_SESSION_CONTROL :: nat where "AT_SESSION_CONTROL \<equiv> 2"
abbreviation (input) AT_ECU_RESET :: nat where "AT_ECU_RESET \<equiv> 3"
abbreviation (input) AT_SECURITY_ACCESS :: nat where "AT_SECURITY_ACCESS \<equiv> 4"
abbreviation (input) AT_REQUEST_DOWNLOAD :: nat where "AT_REQUEST_DOWNLOAD \<equiv> 5"
abbreviation (input) AT_REQUEST_UPLOAD :: nat where "AT_REQUEST_UPLOAD \<equiv> 6"
abbreviation (input) AT_TRANSFER_DATA :: nat where "AT_TRANSFER_DATA \<equiv> 7"
abbreviation (input) AT_TRANSFER_EXIT :: nat where "AT_TRANSFER_EXIT \<equiv> 8"

text \<open>The product's own handlers are at other addresses, with the meaning \<open>app\<close>.\<close>

definition uds_services :: "'x uds_diag uds_call \<Rightarrow> 'x uds_diag uds_call" where
  "uds_services app h u w =
     (if h = 0 then None
      else if h = AT_TESTER_PRESENT then nx_uds_svc_session_tester_present u w
      else if h = AT_SESSION_CONTROL then nx_uds_svc_session_control u w
      else if h = AT_ECU_RESET then nx_uds_svc_session_ecu_reset u w
      else if h = AT_SECURITY_ACCESS then nx_uds_svc_security_access u w
      else if h = AT_REQUEST_DOWNLOAD then nx_uds_svc_transfer_request_download u w
      else if h = AT_REQUEST_UPLOAD then nx_uds_svc_transfer_request_upload u w
      else if h = AT_TRANSFER_DATA then nx_uds_svc_transfer_data u w
      else if h = AT_TRANSFER_EXIT then nx_uds_svc_transfer_exit u w
      else app h u w)"

end
