(* ===== verification/Nx_Uds_Contract.thy ===== *)
theory Nx_Uds_Contract
  imports Nx_Uds_Server
begin

text \<open>
  What the server relies on and keeps. The server's invariant, the frame a handler has to respect, the contract of the handlers as the
  locale \<open>uds_handlers\<close>, and the preservation of the invariant by every step of the server under that contract.
\<close>

section \<open>The invariant of a server\<close>

text \<open>A row of an accepted table, whose lists are as long as the row says.\<close>

definition uds_row_wf :: "nx_uds_service \<Rightarrow> bool" where
  "uds_row_wf r \<longleftrightarrow> uds_row_ok r \<and>
     (case sv_subs r of None \<Rightarrow> True | Some xs \<Rightarrow> unat (sv_subs_count r) \<le> length xs) \<and>
     (case sv_sub_session_masks r of None \<Rightarrow> True | Some xs \<Rightarrow> unat (sv_subs_count r) \<le> length xs)"

definition uds_table_wf :: "'e nx_uds_server_cfg \<Rightarrow> bool" where
  "uds_table_wf c \<longleftrightarrow> unat (uc_services_count c) \<le> length (uds_rows c) \<and>
     list_all uds_row_wf (take (unat (uc_services_count c)) (uds_rows c))"

definition uds_buffer :: "bytes option \<Rightarrow> u32 \<Rightarrow> bool" where
  "uds_buffer p n \<longleftrightarrow> (case p of None \<Rightarrow> False | Some b \<Rightarrow> length b = unat n)"

definition uds_cfg_inv :: "'e nx_uds_server_cfg \<Rightarrow> bool" where
  "uds_cfg_inv c \<longleftrightarrow> uds_table_wf c \<and> uc_get_us c \<noteq> None \<and>
     uds_buffer (uc_req_buf c) (uc_req_buf_size c) \<and> uc_req_buf_size c \<ge> 1 \<and>
     uds_buffer (uc_out_buf c) (uc_out_buf_size c) \<and> uc_out_buf_size c \<ge> 3 \<and>
     uc_max_resp_apdu c \<noteq> 0 \<and> uc_max_resp_apdu c \<le> uc_out_buf_size c \<and>
     uc_p2_adjust_us c < uc_p2_us c \<and> uc_p2_adjust_us c < uc_p2_star_us c \<and>
     uc_p4_us c \<noteq> 0 \<and> uc_s3_us c \<noteq> 0 \<and> uc_max_pending c \<noteq> 0"

definition uds_ctx_inv :: "'e nx_uds_server_cfg \<Rightarrow> nx_uds_ctx \<Rightarrow> bool" where
  "uds_ctx_inv c x \<longleftrightarrow> 1 \<le> cx_req_len x \<and> cx_req_len x \<le> uc_req_buf_size c \<and>
     (if cx_has_sub x then 2 \<le> cx_req_len x else cx_sub x = 0) \<and> cx_out_cap x = uc_max_resp_apdu c"

definition uds_txn_inv :: "'e nx_uds_server_cfg \<Rightarrow> nx_uds_txn \<Rightarrow> bool" where
  "uds_txn_inv c t \<longleftrightarrow>
     (if ut_state t = TXN_IDLE then t = uds_txn_zero
      else uds_ctx_inv c (ut_ctx t) \<and> ut_row t \<le> uc_services_count c \<and>
        (if ut_state t = TXN_RUNNING then ut_row t < uc_services_count c \<and> \<not> ut_answered t \<and>
           ucast (sv_min_len (uds_rows c ! unat (ut_row t))) \<le> cx_req_len (ut_ctx t)
         else (ut_state t = TXN_SENDING \<or> ut_state t = TXN_AWAIT) \<and> ut_answered t \<and>
           0 < cx_out_len (ut_ctx t) \<and> cx_out_len (ut_ctx t) \<le> uc_out_buf_size c))"

definition uds_session_inv :: "'e nx_uds_server \<Rightarrow> bool" where
  "uds_session_inv s \<longleftrightarrow> NX_UDS_SESSION_IN_RANGE (us_session s) \<and> (us_s3_armed s \<longleftrightarrow> us_session s \<noteq> NX_UDS_SESSION_DEFAULT)"

definition uds_inv :: "'e nx_uds_server \<Rightarrow> bool" where
  "uds_inv s \<longleftrightarrow> uds_cfg_inv (us_cfg s) \<and> uds_session_inv s \<and> uds_txn_inv (us_cfg s) (us_txn s)"

text \<open>The rows that can be reached are of the kind \<open>R\<close>.\<close>

definition uds_rows_fit :: "(nx_uds_service \<Rightarrow> bool) \<Rightarrow> 'e nx_uds_server_cfg \<Rightarrow> bool" where
  "uds_rows_fit R c \<longleftrightarrow> list_all R (take (unat (uc_services_count c)) (uds_rows c))"

text \<open>The callbacks of the configuration keep \<open>J\<close>.\<close>

definition uds_keeps :: "('e \<Rightarrow> bool) \<Rightarrow> 'e nx_uds_server_cfg \<Rightarrow> bool" where
  "uds_keeps J c \<longleftrightarrow>
     (\<forall>e. J e \<longrightarrow>
       (case uc_get_us c of None \<Rightarrow> True | Some f \<Rightarrow> J (snd (f e))) \<and>
       (case uc_out_fn c of None \<Rightarrow> True | Some f \<Rightarrow> \<forall>l x a. J (snd (f (uc_out_user c) l x a e))) \<and>
       (case uc_session_fn c of None \<Rightarrow> True | Some f \<Rightarrow> \<forall>a b. J (f (uc_out_user c) a b e)))"

definition uds_good :: "(nx_uds_service \<Rightarrow> bool) \<Rightarrow> ('e \<Rightarrow> bool) \<Rightarrow> 'e uds_world \<Rightarrow> bool" where
  "uds_good R J w \<longleftrightarrow> uds_inv (uw_srv w) \<and> J (uw_env w) \<and> uds_keeps J (uw_cfg w) \<and> uds_rows_fit R (uw_cfg w)"

section \<open>What a handler may do\<close>

text \<open>
  A handler writes the response buffer and the three fields of the transaction that are its own, and it may move the server to a session
  the masks reach, change the security level and restart the quiet timer. In the reporting phases it leaves the answer alone.
\<close>

definition uds_cfg_same :: "'e nx_uds_server_cfg \<Rightarrow> 'e nx_uds_server_cfg \<Rightarrow> bool" where
  "uds_cfg_same c c' \<longleftrightarrow> (\<exists>b. c' = c\<lparr> uc_out_buf := b \<rparr> \<and> map_option length b = map_option length (uc_out_buf c))"

definition uds_answer_phase :: "nx_uds_phase \<Rightarrow> bool" where
  "uds_answer_phase p \<longleftrightarrow> p = NX_UDS_PHASE_REQUEST \<or> p = NX_UDS_PHASE_RESUME"

definition uds_frame :: "'e uds_world \<Rightarrow> 'e uds_world \<Rightarrow> bool" where
  "uds_frame w w' \<longleftrightarrow>
     uds_cfg_same (uw_cfg w) (uw_cfg w') \<and>
     (\<exists>n r k. uw_txn w' = (uw_txn w)\<lparr> ut_ctx := (uw_ctx w)\<lparr> cx_out_len := n, cx_nrc := r, cx_state := k \<rparr> \<rparr>) \<and>
     (\<not> uds_answer_phase (cx_phase (uw_ctx w)) \<longrightarrow>
        cx_out_len (uw_ctx w') = cx_out_len (uw_ctx w) \<and> uc_out_buf (uw_cfg w') = uc_out_buf (uw_cfg w)) \<and>
     uds_session_inv (uw_srv w')"

text \<open>The row of a transaction.\<close>

definition uds_row_of :: "'e uds_world \<Rightarrow> nx_uds_service option" where
  "uds_row_of w = (if ut_row (uw_txn w) < uc_services_count (uw_cfg w) then Some (uds_rows (uw_cfg w) ! unat (ut_row (uw_txn w))) else None)"

text \<open>
  The contract of the handlers: what holds of the rows is \<open>R\<close>, what they and the callbacks keep of the environment is \<open>J\<close>.
\<close>

locale uds_handlers =
  fixes call :: "'e uds_call" and R :: "nx_uds_service \<Rightarrow> bool" and J :: "'e \<Rightarrow> bool"
  assumes handled:
    "uds_good R J w \<Longrightarrow> ut_state (uw_txn w) \<noteq> TXN_IDLE \<Longrightarrow> uds_row_of w = Some r \<Longrightarrow>
     (uds_answer_phase (cx_phase (uw_ctx w)) \<Longrightarrow> ut_state (uw_txn w) = TXN_RUNNING) \<Longrightarrow>
     \<exists>d w'. call (sv_handler r) (sv_user r) w = Some (d, w') \<and> uds_frame w w' \<and> J (uw_env w')"

section \<open>The primitives on a server that keeps its invariant\<close>

named_theorems uds_simps \<open>the update functions of the world\<close>

lemma uw_upd [uds_simps, simp]:
  "uw_srv (upd_srv f w) = f (uw_srv w)" "uw_env (upd_srv f w) = uw_env w"
  "uw_srv (upd_txn g w) = (uw_srv w)\<lparr> us_txn := g (uw_txn w) \<rparr>" "uw_env (upd_txn g w) = uw_env w"
  "uw_srv (upd_ctx k w) = (uw_srv w)\<lparr> us_txn := (uw_txn w)\<lparr> ut_ctx := k (uw_ctx w) \<rparr> \<rparr>" "uw_env (upd_ctx k w) = uw_env w"
  by (simp_all add: upd_srv_def upd_txn_def upd_ctx_def)

lemma uds_session_inv_txn [simp]: "uds_session_inv (s\<lparr> us_txn := t \<rparr>) \<longleftrightarrow> uds_session_inv s"
  by (simp add: uds_session_inv_def)

lemma uds_session_inv_cfg [simp]: "uds_session_inv (s\<lparr> us_cfg := c \<rparr>) \<longleftrightarrow> uds_session_inv s"
  by (simp add: uds_session_inv_def)

lemma uds_keeps_out_buf [simp]: "uds_keeps J (c\<lparr> uc_out_buf := b \<rparr>) \<longleftrightarrow> uds_keeps J c"
  by (simp add: uds_keeps_def cong: option.case_cong)

lemma uds_keeps_req_buf [simp]: "uds_keeps J (c\<lparr> uc_req_buf := b \<rparr>) \<longleftrightarrow> uds_keeps J c"
  by (simp add: uds_keeps_def cong: option.case_cong)

lemma uds_rows_fit_bufs [simp]:
  "uds_rows_fit R (c\<lparr> uc_out_buf := b \<rparr>) \<longleftrightarrow> uds_rows_fit R c" "uds_rows_fit R (c\<lparr> uc_req_buf := b \<rparr>) \<longleftrightarrow> uds_rows_fit R c"
  by (simp_all add: uds_rows_fit_def uds_rows_def)

lemma uds_rows_bufs [simp]:
  "uds_rows (c\<lparr> uc_out_buf := b \<rparr>) = uds_rows c" "uds_rows (c\<lparr> uc_req_buf := b \<rparr>) = uds_rows c"
  by (simp_all add: uds_rows_def)

lemma uds_buffer_same: "map_option length p = map_option length q \<Longrightarrow> uds_buffer p n = uds_buffer q n"
  by (cases p; cases q) (simp_all add: uds_buffer_def)

lemma uds_cfg_inv_out_buf:
  assumes "map_option length b = map_option length (uc_out_buf c)"
  shows "uds_cfg_inv (c\<lparr> uc_out_buf := b \<rparr>) \<longleftrightarrow> uds_cfg_inv c"
  using uds_buffer_same[OF assms] by (simp add: uds_cfg_inv_def uds_table_wf_def)

lemma uds_cfg_inv_req_buf:
  assumes "map_option length b = map_option length (uc_req_buf c)"
  shows "uds_cfg_inv (c\<lparr> uc_req_buf := b \<rparr>) \<longleftrightarrow> uds_cfg_inv c"
  using uds_buffer_same[OF assms] by (simp add: uds_cfg_inv_def uds_table_wf_def)

lemma uds_txn_inv_bufs [simp]:
  "uds_txn_inv (c\<lparr> uc_out_buf := b \<rparr>) t \<longleftrightarrow> uds_txn_inv c t" "uds_txn_inv (c\<lparr> uc_req_buf := b \<rparr>) t \<longleftrightarrow> uds_txn_inv c t"
  by (simp_all add: uds_txn_inv_def uds_ctx_inv_def)

lemma uds_cfg_invE:
  assumes "uds_cfg_inv c"
  obtains rb ob g where "uc_req_buf c = Some rb" "length rb = unat (uc_req_buf_size c)" "1 \<le> length rb"
    "uc_out_buf c = Some ob" "length ob = unat (uc_out_buf_size c)" "3 \<le> length ob" "uc_get_us c = Some g"
proof -
  have "1 \<le> unat (uc_req_buf_size c)" "3 \<le> unat (uc_out_buf_size c)"
    using assms by (auto simp: uds_cfg_inv_def word_le_nat_alt)
  then show thesis using assms that
    by (auto simp: uds_cfg_inv_def uds_buffer_def split: option.splits)
qed

text \<open>The clock.\<close>

lemma uds_now_good:
  assumes "uds_good R J w"
  shows "\<exists>t e. uds_now w = Some (t, w\<lparr> uw_env := e \<rparr>) \<and> J e"
proof -
  from assms have "uds_cfg_inv (uw_cfg w)" and J: "J (uw_env w)" and k: "uds_keeps J (uw_cfg w)"
    by (auto simp: uds_good_def uds_inv_def)
  then obtain g where g: "uc_get_us (uw_cfg w) = Some g" by (elim uds_cfg_invE)
  have "J (snd (g (uw_env w)))" using k J g by (auto simp: uds_keeps_def)
  then show ?thesis by (cases "g (uw_env w)") (auto simp: uds_now_def g)
qed

lemma uds_good_env [simp]: "uds_good R J (w\<lparr> uw_env := e \<rparr>) \<longleftrightarrow> uds_inv (uw_srv w) \<and> J e \<and> uds_keeps J (uw_cfg w) \<and> uds_rows_fit R (uw_cfg w)"
  by (simp add: uds_good_def)

lemma uds_good_txn:
  "uds_good R J w \<Longrightarrow> uds_txn_inv (uw_cfg w) (f (uw_txn w)) \<Longrightarrow> uds_good R J (upd_txn f w)"
  by (simp add: uds_good_def uds_inv_def)

lemma uds_good_ctx:
  "uds_good R J w \<Longrightarrow> uds_txn_inv (uw_cfg w) ((uw_txn w)\<lparr> ut_ctx := f (uw_ctx w) \<rparr>) \<Longrightarrow> uds_good R J (upd_ctx f w)"
  by (simp add: uds_good_def uds_inv_def)

lemma uds_goodD:
  assumes "uds_good R J w"
  shows "uds_inv (uw_srv w)" "uds_cfg_inv (uw_cfg w)" "uds_session_inv (uw_srv w)" "uds_txn_inv (uw_cfg w) (uw_txn w)"
    "J (uw_env w)" "uds_keeps J (uw_cfg w)" "uds_rows_fit R (uw_cfg w)"
  using assms by (simp_all add: uds_good_def uds_inv_def)

lemma uds_good_now:
  assumes "uds_good R J w"
  obtains t e where "uds_now w = Some (t, w\<lparr> uw_env := e \<rparr>)" "uds_good R J (w\<lparr> uw_env := e \<rparr>)"
  using uds_now_good[OF assms] assms by (auto simp: uds_good_def)

text \<open>Rows are found inside the table.\<close>

lemma uds_scan_total: "n \<le> length xs \<Longrightarrow> \<exists>i \<le> n. uds_scan p n xs = Some i"
  by (induction p n xs rule: uds_scan.induct) auto

lemma uds_scan_all:
  "uds_scan p n xs = Some n \<Longrightarrow> n \<le> length xs \<and> list_all (\<lambda>x. \<not> p x) (take n xs)"
  by (induction p n xs rule: uds_scan.induct) (auto split: if_splits)

lemma uds_scan_found:
  "uds_scan p n xs = Some i \<Longrightarrow> i < n \<Longrightarrow> i < length xs \<and> p (xs ! i) \<and> list_all (\<lambda>x. \<not> p x) (take i xs)"
proof (induction p n xs arbitrary: i rule: uds_scan.induct)
  case (3 p n x xs)
  then show ?case by (cases i) (auto split: if_splits)
qed auto

lemma uds_row_at:
  assumes "uds_cfg_inv c" "i < uc_services_count c"
  shows "unat i < length (uds_rows c)" "uds_row_wf (uds_rows c ! unat i)"
proof -
  have i: "unat i < unat (uc_services_count c)" using assms(2) by (simp add: word_less_nat_alt)
  moreover have n: "unat (uc_services_count c) \<le> length (uds_rows c)"
    and a: "list_all uds_row_wf (take (unat (uc_services_count c)) (uds_rows c))"
    using assms(1) by (auto simp: uds_cfg_inv_def uds_table_wf_def)
  ultimately show "unat i < length (uds_rows c)" by simp
  show "uds_row_wf (uds_rows c ! unat i)" using a i n by (auto simp: list_all_length)
qed

lemma uds_txn_row_good:
  assumes "uds_good R J w"
  shows "uds_txn_row w = Some (uds_row_of w)"
  using uds_row_at(1)[OF uds_goodD(2)[OF assms], of "ut_row (uw_txn w)"]
  by (auto simp: uds_txn_row_def uds_row_of_def mem_get_def not_le)

lemma uds_row_of_handler:
  assumes "uds_good R J w" "uds_row_of w = Some r"
  shows "sv_handler r \<noteq> 0" "uds_row_wf r" "R r"
proof -
  have r: "ut_row (uw_txn w) < uc_services_count (uw_cfg w)" "uds_rows (uw_cfg w) ! unat (ut_row (uw_txn w)) = r"
    using assms(2) by (auto simp: uds_row_of_def split: if_splits)
  show "sv_handler r \<noteq> 0" "uds_row_wf r" using uds_row_at(2)[OF uds_goodD(2)[OF assms(1)] r(1)] r(2)
    by (auto simp: uds_row_wf_def uds_row_ok_def)
  show "R r" using uds_goodD(7)[OF assms(1)] r uds_row_at(1)[OF uds_goodD(2)[OF assms(1)] r(1)]
    by (auto simp: uds_rows_fit_def list_all_length word_less_nat_alt)
qed

text \<open>Ending a transaction.\<close>

lemma uds_txn_inv_zero [simp]: "uds_txn_inv c uds_txn_zero"
  by (simp add: uds_txn_inv_def uds_txn_zero_def)

lemma uds_txn_end_eq: "uds_txn_end w = upd_txn (\<lambda>_. uds_txn_zero) w"
  by (simp add: uds_txn_end_def uds_txn_zero_def)

lemma uds_txn_end_good [intro]: "uds_good R J w \<Longrightarrow> uds_good R J (uds_txn_end w)"
  by (simp add: uds_txn_end_eq uds_good_txn)

lemma uds_txn_end_idle [simp]: "ut_state (uw_txn (uds_txn_end w)) = 0"
  by (simp add: uds_txn_end_eq uds_txn_zero_def)

text \<open>Writing the response.\<close>

lemma put_out_good:
  assumes "uds_good R J w" "uc_out_buf (uw_cfg w) = Some b" "i + length x \<le> length b"
  shows "\<exists>b1. mem_write i x b = Some b1 \<and> length b1 = length b \<and>
     put_out i x w = Some (upd_srv (\<lambda>s. s\<lparr> us_cfg := (us_cfg s)\<lparr> uc_out_buf := Some b1 \<rparr> \<rparr>) w) \<and>
     uds_good R J (upd_srv (\<lambda>s. s\<lparr> us_cfg := (us_cfg s)\<lparr> uc_out_buf := Some b1 \<rparr> \<rparr>) w)"
proof -
  obtain b1 where b1: "mem_write i x b = Some b1" using assms(3) mem_write_ok by blast
  have l: "length b1 = length b" using b1 by (rule mem_write_length)
  have "uds_good R J (upd_srv (\<lambda>s. s\<lparr> us_cfg := (us_cfg s)\<lparr> uc_out_buf := Some b1 \<rparr> \<rparr>) w)"
    using assms(1,2) l by (simp add: uds_good_def uds_inv_def uds_cfg_inv_out_buf)
  then show ?thesis using b1 l assms(2) by (simp add: put_out_def)
qed

section \<open>The steps of the server keep the invariant\<close>

lemma uds_frame_good:
  assumes g: "uds_good R J w" and s: "ut_state (uw_txn w) \<noteq> TXN_IDLE" and f: "uds_frame w w'" and j: "J (uw_env w')"
    and p: "\<not> uds_answer_phase (cx_phase (uw_ctx w)) \<or> ut_state (uw_txn w) = TXN_RUNNING"
  shows "uds_good R J w'"
proof -
  obtain b where c: "uw_cfg w' = (uw_cfg w)\<lparr> uc_out_buf := b \<rparr>" "map_option length b = map_option length (uc_out_buf (uw_cfg w))"
    using f by (auto simp: uds_frame_def uds_cfg_same_def)
  have "uds_txn_inv (uw_cfg w) (uw_txn w')"
  proof -
    obtain n r k where t: "uw_txn w' = (uw_txn w)\<lparr> ut_ctx := (uw_ctx w)\<lparr> cx_out_len := n, cx_nrc := r, cx_state := k \<rparr> \<rparr>"
      using f by (auto simp: uds_frame_def)
    have "cx_out_len (uw_ctx w') = cx_out_len (uw_ctx w)" if "ut_state (uw_txn w) \<noteq> TXN_RUNNING"
      using f p that unfolding uds_frame_def by blast
    then have n: "n = cx_out_len (uw_ctx w)" if "ut_state (uw_txn w) \<noteq> TXN_RUNNING" using that t by simp
    show ?thesis
    proof (cases "ut_state (uw_txn w) = TXN_RUNNING")
      case True
      then show ?thesis using uds_goodD(4)[OF g] t by (simp add: uds_txn_inv_def uds_ctx_inv_def)
    next
      case False
      then show ?thesis using uds_goodD(4)[OF g] t n s by (simp add: uds_txn_inv_def uds_ctx_inv_def)
    qed
  qed
  then show ?thesis using g f j c by (simp add: uds_good_def uds_inv_def uds_frame_def uds_cfg_inv_out_buf)
qed

lemma uds_frame_state:
  "uds_frame w w' \<Longrightarrow> ut_state (uw_txn w') = ut_state (uw_txn w)"
  "uds_frame w w' \<Longrightarrow> ut_started (uw_txn w') = ut_started (uw_txn w)"
  "uds_frame w w' \<Longrightarrow> cx_phase (uw_ctx w') = cx_phase (uw_ctx w)"
  by (auto simp: uds_frame_def)

lemma uds_phase_good: "uds_good R J w \<Longrightarrow> ut_state (uw_txn w) \<noteq> TXN_IDLE \<Longrightarrow> uds_good R J (upd_ctx (\<lambda>c. c\<lparr> cx_phase := p \<rparr>) w)"
  by (rule uds_good_ctx) (auto simp: uds_good_def uds_inv_def uds_txn_inv_def uds_ctx_inv_def)

lemma uds_row_of_upd [simp]:
  "uds_row_of (upd_ctx f w) = uds_row_of w"
  "uds_row_of (upd_srv (\<lambda>s. s\<lparr> us_cfg := (us_cfg s)\<lparr> uc_out_buf := b \<rparr> \<rparr>) w) = uds_row_of w"
  by (simp_all add: uds_row_of_def)

context uds_handlers
begin

text \<open>A report to the handler.\<close>

lemma notify_good:
  assumes g: "uds_good R J w" and s: "ut_state (uw_txn w) \<noteq> TXN_IDLE" and p: "\<not> uds_answer_phase p"
  obtains w' where "uds_notify call w p = Some w'" "uds_good R J w'" "ut_state (uw_txn w') = ut_state (uw_txn w)"
proof (cases "uds_row_of w")
  case None
  then show thesis using that g uds_txn_row_good[OF g] by (simp add: uds_notify_def)
next
  case (Some r)
  let ?w = "upd_ctx (\<lambda>c. c\<lparr> cx_phase := p \<rparr>) w"
  have g1: "uds_good R J ?w" by (rule uds_phase_good[OF g s])
  obtain d w' where c: "call (sv_handler r) (sv_user r) ?w = Some (d, w')" and f: "uds_frame ?w w'" and j: "J (uw_env w')"
    using handled[OF g1, of r] s Some p by auto
  have "uds_good R J w'" by (rule uds_frame_good[OF g1 _ f j]) (use s in \<open>simp_all add: p\<close>)
  moreover have "ut_state (uw_txn w') = ut_state (uw_txn w)" using uds_frame_state(1)[OF f] by simp
  ultimately show thesis using that c uds_txn_row_good[OF g] Some by (simp add: uds_notify_def)
qed

lemma silence_good:
  assumes "uds_good R J w" "ut_state (uw_txn w) \<noteq> TXN_IDLE"
  obtains w' where "uds_notify call w NX_UDS_PHASE_SILENCE = Some w'" "uds_good R J (uds_txn_end w')"
  using notify_good[OF assms, of NX_UDS_PHASE_SILENCE] by (auto simp: uds_answer_phase_def)

text \<open>An answer that is in the buffer.\<close>

lemma answer_ready_good:
  assumes g: "uds_good R J w" and s: "ut_state (uw_txn w) = TXN_RUNNING"
    and n: "0 < cx_out_len (uw_ctx w)" "cx_out_len (uw_ctx w) \<le> uc_out_buf_size (uw_cfg w)"
  obtains w' where "uds_txn_answer_ready call w send = Some w'" "uds_good R J w'" "ut_state (uw_txn w') \<noteq> TXN_RUNNING"
proof (cases send)
  case False
  obtain w' where "uds_notify call w NX_UDS_PHASE_SILENCE = Some w'" "uds_good R J (uds_txn_end w')"
    using silence_good[OF g] s by auto
  then show thesis using that False by (simp add: uds_txn_answer_ready_def)
next
  case True
  let ?w = "upd_txn (\<lambda>t. t\<lparr> ut_answered := True, ut_state := TXN_SENDING \<rparr>) w"
  have g1: "uds_good R J ?w"
    by (rule uds_good_txn[OF g]) (use uds_goodD(4)[OF g] s n in \<open>auto simp: uds_txn_inv_def uds_ctx_inv_def\<close>)
  obtain w' where "uds_notify call ?w NX_UDS_PHASE_RESPONSE = Some w'" "uds_good R J w'" "ut_state (uw_txn w') = TXN_SENDING"
    using notify_good[OF g1, of NX_UDS_PHASE_RESPONSE] by (auto simp: uds_answer_phase_def)
  then show thesis using that True by (simp add: uds_txn_answer_ready_def)
qed

end

text \<open>What a negative response leaves.\<close>

definition uds_negative_written :: "bytes \<Rightarrow> u8 \<Rightarrow> u8 \<Rightarrow> 'e uds_world \<Rightarrow> 'e uds_world" where
  "uds_negative_written b sid nrc w = upd_ctx (\<lambda>c. c\<lparr> cx_out_len := 3 \<rparr>)
     (upd_srv (\<lambda>s. s\<lparr> us_cfg := (us_cfg s)\<lparr> uc_out_buf := Some ([0x7F, sid, nrc] @ drop 3 b) \<rparr> \<rparr>) w)"

lemma uds_negative_written_simps [simp]:
  "uw_cfg (uds_negative_written b sid nrc w) = (uw_cfg w)\<lparr> uc_out_buf := Some ([0x7F, sid, nrc] @ drop 3 b) \<rparr>"
  "uw_txn (uds_negative_written b sid nrc w) = (uw_txn w)\<lparr> ut_ctx := (uw_ctx w)\<lparr> cx_out_len := 3 \<rparr> \<rparr>"
  "uw_env (uds_negative_written b sid nrc w) = uw_env w"
  "us_session (uw_srv (uds_negative_written b sid nrc w)) = us_session (uw_srv w)"
  "us_sec_level (uw_srv (uds_negative_written b sid nrc w)) = us_sec_level (uw_srv w)"
  by (simp_all add: uds_negative_written_def)

lemma put_negative_eq:
  assumes "uc_out_buf (uw_cfg w) = Some b" "3 \<le> length b"
  shows "uds_put_negative w sid nrc = Some (uds_negative_written b sid nrc w)"
  using assms by (simp add: uds_put_negative_def uds_negative_written_def put_out_def mem_write_def eval_nat_numeral)

lemma put_negative_good:
  assumes g: "uds_good R J w" and s: "ut_state (uw_txn w) = TXN_RUNNING"
  obtains b where "uc_out_buf (uw_cfg w) = Some b" "3 \<le> length b"
    "uds_put_negative w sid nrc = Some (uds_negative_written b sid nrc w)"
    "uds_good R J (uds_negative_written b sid nrc w)"
proof -
  obtain b where b: "uc_out_buf (uw_cfg w) = Some b" "3 \<le> length b" using uds_goodD(2)[OF g] by (elim uds_cfg_invE)
  have m: "mem_write 0 [0x7F, sid, nrc] b = Some ([0x7F, sid, nrc] @ drop 3 b)" using b(2) by (simp add: mem_write_def eval_nat_numeral)
  let ?w = "upd_srv (\<lambda>s. s\<lparr> us_cfg := (us_cfg s)\<lparr> uc_out_buf := Some ([0x7F, sid, nrc] @ drop 3 b) \<rparr> \<rparr>) w"
  have p: "put_out 0 [0x7F, sid, nrc] w = Some ?w" and g1: "uds_good R J ?w"
    using put_out_good[OF g b(1), of 0 "[0x7F, sid, nrc]"] b(2) m by auto
  have "uds_good R J (uds_negative_written b sid nrc w)" unfolding uds_negative_written_def
    by (rule uds_good_ctx[OF g1]) (use uds_goodD(4)[OF g] s in \<open>auto simp: uds_txn_inv_def uds_ctx_inv_def\<close>)
  then show thesis using that b p by (simp add: uds_put_negative_def uds_negative_written_def)
qed

context uds_handlers
begin

lemma refuse_good:
  assumes g: "uds_good R J w" and s: "ut_state (uw_txn w) = TXN_RUNNING"
  obtains w' where "uds_txn_refuse call w nrc = Some w'" "uds_good R J w'" "ut_state (uw_txn w') \<noteq> TXN_RUNNING"
proof -
  obtain b where n: "uds_put_negative w (cx_sid (uw_ctx w)) nrc = Some (uds_negative_written b (cx_sid (uw_ctx w)) nrc w)"
    and g1: "uds_good R J (uds_negative_written b (cx_sid (uw_ctx w)) nrc w)"
    using put_negative_good[OF g s] by metis
  let ?w = "uds_negative_written b (cx_sid (uw_ctx w)) nrc w"
  have "3 \<le> uc_out_buf_size (uw_cfg w)" using uds_goodD(2)[OF g] by (simp add: uds_cfg_inv_def)
  then obtain w' where "uds_txn_answer_ready call ?w (\<not> uds_negative_suppressed (uw_txn ?w) (cx_ta_type (uw_ctx ?w)) nrc) = Some w'"
    "uds_good R J w'" "ut_state (uw_txn w') \<noteq> TXN_RUNNING"
    using answer_ready_good[OF g1] s by auto
  then show thesis using that n by (simp add: uds_txn_refuse_def)
qed

end

end
