(* ===== verification/Nx_Uds_Steps.thy ===== *)
theory Nx_Uds_Steps
  imports Nx_Uds_Contract
begin

text \<open>Every operation of the server runs without an access outside its objects and keeps the invariant, under the contract of the handlers.\<close>

section \<open>Sessions\<close>

lemma arm_s3_good:
  assumes g: "uds_good R J w"
  shows "\<exists>w'. uds_arm_s3 w = Some w' \<and> uds_good R J w' \<and> uw_cfg w' = uw_cfg w \<and> uw_txn w' = uw_txn w \<and>
     us_session (uw_srv w') = us_session (uw_srv w) \<and> us_sec_level (uw_srv w') = us_sec_level (uw_srv w)"
proof (cases "us_session (uw_srv w) = NX_UDS_SESSION_DEFAULT")
  case True
  then show ?thesis using g by (auto simp: uds_arm_s3_def uds_good_def uds_inv_def uds_session_inv_def)
next
  case False
  obtain t e where n: "uds_now w = Some (t, w\<lparr> uw_env := e \<rparr>)" "uds_good R J (w\<lparr> uw_env := e \<rparr>)" by (rule uds_good_now[OF g])
  show ?thesis using n False by (auto simp: uds_arm_s3_def uds_good_def uds_inv_def uds_session_inv_def)
qed

text \<open>Arming makes the timer right whatever it was before.\<close>

lemma enter_session_good:
  assumes g: "uds_good R J w" and r: "NX_UDS_SESSION_IN_RANGE session"
  shows "\<exists>w'. uds_enter_session w session = Some w' \<and> uds_good R J w' \<and> uw_cfg w' = uw_cfg w \<and> uw_txn w' = uw_txn w \<and>
     us_session (uw_srv w') = session \<and> us_sec_level (uw_srv w') = 0"
proof -
  let ?w = "upd_srv (\<lambda>s. s\<lparr> us_session := session, us_sec_level := 0 \<rparr>) w"
  have c: "uds_cfg_inv (uw_cfg w)" and t: "uds_txn_inv (uw_cfg w) (uw_txn w)" and k: "uds_keeps J (uw_cfg w)" and J: "J (uw_env w)"
    and R: "uds_rows_fit R (uw_cfg w)"
    using uds_goodD[OF g] by simp_all
  obtain f where f: "uc_get_us (uw_cfg w) = Some f" using c by (elim uds_cfg_invE)
  have Jf: "J (snd (f e))" if "J e" for e using k that f by (auto simp: uds_keeps_def)
  have "\<exists>w1. uds_arm_s3 ?w = Some w1 \<and> uw_cfg w1 = uw_cfg w \<and> uw_txn w1 = uw_txn w \<and> J (uw_env w1) \<and>
      us_session (uw_srv w1) = session \<and> us_sec_level (uw_srv w1) = 0 \<and> (us_s3_armed (uw_srv w1) \<longleftrightarrow> session \<noteq> NX_UDS_SESSION_DEFAULT)"
  proof (cases "session = NX_UDS_SESSION_DEFAULT")
    case True
    then show ?thesis using J by (simp add: uds_arm_s3_def)
  next
    case False
    then show ?thesis using Jf[OF J] by (simp add: uds_arm_s3_def uds_now_def f case_prod_beta)
  qed
  then obtain w1 where w1: "uds_arm_s3 ?w = Some w1" "uw_cfg w1 = uw_cfg w" "uw_txn w1 = uw_txn w" "J (uw_env w1)"
    "us_session (uw_srv w1) = session" "us_sec_level (uw_srv w1) = 0" "us_s3_armed (uw_srv w1) \<longleftrightarrow> session \<noteq> NX_UDS_SESSION_DEFAULT"
    by blast
  have g1: "uds_good R J w1" using w1 c t k r R by (simp add: uds_good_def uds_inv_def uds_session_inv_def)
  show ?thesis
  proof (cases "uc_session_fn (uw_cfg w)")
    case None
    then show ?thesis using w1 g1 by (simp add: uds_enter_session_def)
  next
    case (Some h)
    have "J (h (uc_out_user (uw_cfg w)) a b e)" if "J e" for a b e using k that Some by (auto simp: uds_keeps_def)
    then show ?thesis using w1 g1 Some
      by (cases "us_session (uw_srv w) = session") (auto simp: uds_enter_session_def uds_good_def Let_def)
  qed
qed

section \<open>Offering\<close>

lemma offer_good:
  assumes g: "uds_good R J w"
  obtains taken e where "uds_offer w x = (taken, w\<lparr> uw_env := e \<rparr>)" "uds_good R J (w\<lparr> uw_env := e \<rparr>)"
proof (cases "uc_out_fn (uw_cfg w)")
  case None
  then show thesis using that[of False "uw_env w"] g by (simp add: uds_offer_def)
next
  case (Some f)
  let ?r = "f (uc_out_user (uw_cfg w)) (cx_link (uw_ctx w)) x (cx_ta_type (uw_ctx w)) (uw_env w)"
  have "\<forall>l x a. J (snd (f (uc_out_user (uw_cfg w)) l x a (uw_env w)))"
    using uds_goodD(5,6)[OF g] Some unfolding uds_keeps_def by auto
  then have "J (snd ?r)" by blast
  then show thesis using that[of "fst ?r" "snd ?r"] g Some by (simp add: uds_offer_def uds_good_def case_prod_beta)
qed

lemma emit_pending_good:
  assumes g: "uds_good R J w" and s: "ut_state (uw_txn w) = TXN_RUNNING"
  obtains taken w' where "uds_emit_pending w = Some (taken, w')" "uds_good R J w'" "ut_state (uw_txn w') = TXN_RUNNING"
    "ut_started (uw_txn w') = ut_started (uw_txn w)"
proof -
  let ?x = "[NX_UDS_NEG_RSP_SID, cx_sid (uw_ctx w), NX_UDS_NRC_RESPONSE_PENDING]"
  obtain taken e where o: "uds_offer w ?x = (taken, w\<lparr> uw_env := e \<rparr>)" and g1: "uds_good R J (w\<lparr> uw_env := e \<rparr>)" by (rule offer_good[OF g])
  have k: "uds_txn_inv (uw_cfg w) t'" if "ut_row t' = ut_row (uw_txn w)" "ut_state t' = ut_state (uw_txn w)"
    "ut_answered t' = ut_answered (uw_txn w)" "uds_ctx_inv (uw_cfg w) (ut_ctx t') = uds_ctx_inv (uw_cfg w) (uw_ctx w)"
    "cx_req_len (ut_ctx t') = cx_req_len (uw_ctx w)" for t'
    using uds_goodD(4)[OF g] s that by (simp add: uds_txn_inv_def)
  let ?w1 = "w\<lparr> uw_env := e \<rparr>"
  show thesis
  proof (cases taken)
    case False
    show thesis
    proof (cases "ut_pend_stuck (uw_txn w)")
      case True
      then show thesis using that[of False ?w1] False o g1 s by (simp add: uds_emit_pending_def)
    next
      case no: False
      obtain t e2 where n: "uds_now ?w1 = Some (t, ?w1\<lparr> uw_env := e2 \<rparr>)" "uds_good R J (?w1\<lparr> uw_env := e2 \<rparr>)" by (rule uds_good_now[OF g1])
      let ?w2 = "upd_txn (\<lambda>x. x\<lparr> ut_pend_stuck := True, ut_pend_give_up := t + uc_p2_star_us (uw_cfg ?w1) \<rparr>) (?w1\<lparr> uw_env := e2 \<rparr>)"
      have "uds_good R J ?w2" by (rule uds_good_txn[OF n(2)]) (simp add: k)
      then show thesis using that[of False ?w2] False no o n(1) s by (simp add: uds_emit_pending_def)
    qed
  next
    case True
    let ?w2 = "upd_txn (\<lambda>x. x\<lparr> ut_pend_stuck := False, ut_ctx := (ut_ctx x)\<lparr> cx_suppress_pos := False \<rparr>, ut_pending_sent := True,
                     ut_pend_count := (if ut_pend_count x < 0xFF then ut_pend_count x + 1 else ut_pend_count x) \<rparr>) ?w1"
    have g2: "uds_good R J ?w2" by (rule uds_good_txn[OF g1]) (simp add: k uds_ctx_inv_def)
    obtain t e2 where n: "uds_now ?w2 = Some (t, ?w2\<lparr> uw_env := e2 \<rparr>)" "uds_good R J (?w2\<lparr> uw_env := e2 \<rparr>)" by (rule uds_good_now[OF g2])
    let ?w3 = "upd_txn (\<lambda>x. x\<lparr> ut_deadline := t + uc_p2_star_us (uw_cfg ?w2) - uc_p2_adjust_us (uw_cfg ?w2) \<rparr>) (?w2\<lparr> uw_env := e2 \<rparr>)"
    have "uds_good R J ?w3" by (rule uds_good_txn[OF n(2)]) (simp add: k uds_ctx_inv_def)
    then show thesis using that[of True ?w3] True o n(1) s by (simp add: uds_emit_pending_def)
  qed
qed

section \<open>Handlers\<close>

lemma p4_good: "uds_good R J w \<Longrightarrow> \<exists>p4. uds_txn_p4 w = Some p4"
  using uds_txn_row_good[of R J w] by (simp add: uds_txn_p4_def Let_def)

lemma max_pending_good: "uds_good R J w \<Longrightarrow> \<exists>n. uds_txn_max_pending w = Some n"
  using uds_txn_row_good[of R J w] by (simp add: uds_txn_max_pending_def Let_def)

context uds_handlers
begin

lemma disposition_good:
  assumes g: "uds_good R J w" and s: "ut_state (uw_txn w) = TXN_RUNNING"
  obtains w' where "uds_apply_disposition call w d = Some w'" "uds_good R J w'" "d \<noteq> NX_UDS_DISPOSITION_PENDING \<Longrightarrow> ut_state (uw_txn w') \<noteq> TXN_RUNNING"
proof (cases d)
  case NX_UDS_DISPOSITION_DONE
  have cap: "cx_out_cap (uw_ctx w) \<le> uc_out_buf_size (uw_cfg w)"
    using uds_goodD(2,4)[OF g] s by (simp add: uds_txn_inv_def uds_ctx_inv_def uds_cfg_inv_def)
  consider "cx_out_len (uw_ctx w) > cx_out_cap (uw_ctx w)" | "cx_out_len (uw_ctx w) = 0"
    | "\<not> cx_out_len (uw_ctx w) > cx_out_cap (uw_ctx w)" "cx_out_len (uw_ctx w) \<noteq> 0" by blast
  then show thesis
  proof cases
    case 1
    obtain w' where r: "uds_txn_refuse call w NX_UDS_NRC_RESPONSE_TOO_LONG = Some w'" "uds_good R J w'" "ut_state (uw_txn w') \<noteq> TXN_RUNNING"
      by (rule refuse_good[OF g s])
    show thesis by (rule that[OF _ r(2,3)]) (use 1 r(1) NX_UDS_DISPOSITION_DONE in \<open>simp add: uds_apply_disposition_def\<close>)
  next
    case 2
    obtain w' where r: "uds_notify call w NX_UDS_PHASE_SILENCE = Some w'" "uds_good R J (uds_txn_end w')"
      by (rule silence_good[OF g]) (use s in simp)
    show thesis by (rule that[OF _ r(2)]) (use 2 r(1) NX_UDS_DISPOSITION_DONE in \<open>simp_all add: uds_apply_disposition_def\<close>)
  next
    case 3
    then have n: "0 < cx_out_len (uw_ctx w)" "cx_out_len (uw_ctx w) \<le> uc_out_buf_size (uw_cfg w)"
      using cap by (auto simp: word_neq_0_conv)
    obtain w' where r: "uds_txn_answer_ready call w
        (if cx_ta_type (uw_ctx w) = NX_TP_TA_FUNCTIONAL \<and>
            (case uds_row_of w of None \<Rightarrow> True | Some r \<Rightarrow> sv_flags r AND NX_UDS_SVC_ANSWER_FUNCTIONAL = 0)
         then False else \<not> cx_suppress_pos (uw_ctx w)) = Some w'" "uds_good R J w'" "ut_state (uw_txn w') \<noteq> TXN_RUNNING"
      by (rule answer_ready_good[OF g s n])
    show thesis
      by (rule that[OF _ r(2,3)]) (use 3 r(1) NX_UDS_DISPOSITION_DONE uds_txn_row_good[OF g] in \<open>simp add: uds_apply_disposition_def\<close>)
  qed
next
  case NX_UDS_DISPOSITION_PENDING
  have "uds_good R J (upd_txn (\<lambda>t. t\<lparr> ut_state := TXN_RUNNING \<rparr>) w)"
    by (rule uds_good_txn[OF g]) (use uds_goodD(4)[OF g] s in \<open>simp add: uds_txn_inv_def\<close>)
  then show thesis using that NX_UDS_DISPOSITION_PENDING by (simp add: uds_apply_disposition_def)
next
  case NX_UDS_DISPOSITION_NEGATIVE
  obtain w' where r: "uds_txn_refuse call w
      (if cx_nrc (uw_ctx w) \<noteq> NX_UDS_NRC_NONE then cx_nrc (uw_ctx w) else NX_UDS_NRC_CONDITIONS_NOT_CORRECT) = Some w'"
    "uds_good R J w'" "ut_state (uw_txn w') \<noteq> TXN_RUNNING"
    by (rule refuse_good[OF g s])
  show thesis by (rule that[OF _ r(2,3)]) (use r(1) NX_UDS_DISPOSITION_NEGATIVE in \<open>simp add: uds_apply_disposition_def\<close>)
next
  case NX_UDS_DISPOSITION_NO_RESPONSE
  obtain w' where r: "uds_notify call w NX_UDS_PHASE_SILENCE = Some w'" "uds_good R J (uds_txn_end w')"
    by (rule silence_good[OF g]) (use s in simp)
  show thesis by (rule that[OF _ r(2)]) (use r(1) NX_UDS_DISPOSITION_NO_RESPONSE in \<open>simp_all add: uds_apply_disposition_def\<close>)
qed

lemma run_handler_good:
  assumes g: "uds_good R J w" and s: "ut_state (uw_txn w) = TXN_RUNNING"
  obtains w' where "uds_run_handler call w p = Some w'" "uds_good R J w'"
proof (cases "uds_row_of w")
  case None
  then show thesis using that g uds_txn_row_good[OF g] by (simp add: uds_run_handler_def)
next
  case (Some r)
  let ?w = "upd_ctx (\<lambda>c. c\<lparr> cx_phase := p, cx_nrc := NX_UDS_NRC_NONE \<rparr>) w"
  have g1: "uds_good R J ?w"
    by (rule uds_good_ctx[OF g]) (use uds_goodD(4)[OF g] s in \<open>simp add: uds_txn_inv_def uds_ctx_inv_def\<close>)
  obtain d w' where c: "call (sv_handler r) (sv_user r) ?w = Some (d, w')" and f: "uds_frame ?w w'" and j: "J (uw_env w')"
    using handled[OF g1, of r] s Some by auto
  have g2: "uds_good R J w'" by (rule uds_frame_good[OF g1 _ f j]) (use s in simp_all)
  have "ut_state (uw_txn w') = TXN_RUNNING" using uds_frame_state(1)[OF f] s by simp
  from disposition_good[OF g2 this, of d] show thesis using that c uds_txn_row_good[OF g] Some by (auto simp: uds_run_handler_def)
qed

section \<open>The periodic step\<close>

lemma process_session_good:
  assumes g: "uds_good R J w"
  obtains w' where "uds_process_session w = Some w'" "uds_good R J w'" "uw_txn w' = uw_txn w"
proof (cases "us_s3_armed (uw_srv w)")
  case False
  then show thesis using that g by (simp add: uds_process_session_def)
next
  case True
  obtain t e where n: "uds_now w = Some (t, w\<lparr> uw_env := e \<rparr>)" "uds_good R J (w\<lparr> uw_env := e \<rparr>)" by (rule uds_good_now[OF g])
  have "NX_UDS_SESSION_IN_RANGE NX_UDS_SESSION_DEFAULT" by (simp add: NX_UDS_SESSION_IN_RANGE_def)
  from enter_session_good[OF n(2) this] show thesis using that n True
    by (cases "uds_expired t (us_s3_deadline (uw_srv w))") (auto simp: uds_process_session_def)
qed

lemma over_limit_good:
  assumes g: "uds_good R J w"
  obtains b e where "uds_over_limit w = Some (b, w\<lparr> uw_env := e \<rparr>)" "uds_good R J (w\<lparr> uw_env := e \<rparr>)"
proof -
  obtain t e where n: "uds_now w = Some (t, w\<lparr> uw_env := e \<rparr>)" "uds_good R J (w\<lparr> uw_env := e \<rparr>)" by (rule uds_good_now[OF g])
  obtain p4 m where "uds_txn_p4 (w\<lparr> uw_env := e \<rparr>) = Some p4" "uds_txn_max_pending (w\<lparr> uw_env := e \<rparr>) = Some m"
    using p4_good[OF n(2)] max_pending_good[OF n(2)] by blast
  then show thesis using that n
    by (cases "uds_expired t (ut_started (uw_txn w) + p4)") (auto simp: uds_over_limit_def)
qed

lemma process_limit_good:
  assumes g: "uds_good R J w"
  obtains w' where "uds_process_limit call w = Some w'" "uds_good R J w'"
proof (cases "ut_state (uw_txn w) = TXN_RUNNING")
  case False
  then show thesis using that g by (simp add: uds_process_limit_def)
next
  case s: True
  obtain b e where o: "uds_over_limit w = Some (b, w\<lparr> uw_env := e \<rparr>)" and g1: "uds_good R J (w\<lparr> uw_env := e \<rparr>)" by (rule over_limit_good[OF g])
  show thesis
  proof (cases b)
    case False
    then show thesis using that o g1 s by (simp add: uds_process_limit_def)
  next
    case True
    obtain w2 where n: "uds_notify call (w\<lparr> uw_env := e \<rparr>) NX_UDS_PHASE_ABORT = Some w2" and g2: "uds_good R J w2"
      and s2: "ut_state (uw_txn w2) = TXN_RUNNING"
      using notify_good[OF g1, of NX_UDS_PHASE_ABORT] s by (auto simp: uds_answer_phase_def)
    obtain nrc where c: "uds_txn_p4_nrc w2 = Some nrc" using uds_txn_row_good[OF g2] by (auto simp: uds_txn_p4_nrc_def Let_def)
    from refuse_good[OF g2 s2, of nrc] show thesis using that o n c True s by (auto simp: uds_process_limit_def)
  qed
qed

lemma result_good: "uds_good R J w \<Longrightarrow> ut_state (uw_txn w) \<noteq> TXN_IDLE \<Longrightarrow> uds_good R J (upd_ctx (\<lambda>c. c\<lparr> cx_result := r \<rparr>) w)"
  by (rule uds_good_ctx) (auto simp: uds_good_def uds_inv_def uds_txn_inv_def uds_ctx_inv_def)

lemma link_error_good:
  assumes g: "uds_good R J w" and s: "ut_state (uw_txn w) \<noteq> TXN_IDLE"
  obtains w' where "uds_notify call (upd_ctx (\<lambda>c. c\<lparr> cx_result := r \<rparr>) w) NX_UDS_PHASE_LINK_ERROR = Some w'" "uds_good R J (uds_txn_end w')"
  using notify_good[OF result_good[OF g s, of r], of NX_UDS_PHASE_LINK_ERROR] s by (auto simp: uds_answer_phase_def)

text \<open>The part of the running step before the handler is entered again: a server told the client to wait, where the window is over.\<close>

lemma process_running_good:
  assumes g: "uds_good R J w"
  obtains b w' where "uds_process_running call w = Some (b, w')" "uds_good R J w'"
proof (cases "ut_state (uw_txn w) = TXN_RUNNING")
  case False
  then show thesis using that g by (simp add: uds_process_running_def)
next
  case s: True
  obtain t e where n: "uds_now w = Some (t, w\<lparr> uw_env := e \<rparr>)" and g1: "uds_good R J (w\<lparr> uw_env := e \<rparr>)" by (rule uds_good_now[OF g])
  let ?w1 = "w\<lparr> uw_env := e \<rparr>"
  have s1: "ut_state (uw_txn ?w1) = TXN_RUNNING" using s by simp
  obtain tk wp where ep: "uds_emit_pending ?w1 = Some (tk, wp)" "uds_good R J wp" "ut_state (uw_txn wp) = TXN_RUNNING"
    by (rule emit_pending_good[OF g1 s1])
  define w2 where "w2 = (if uds_expired t (ut_deadline (uw_txn ?w1)) then wp else ?w1)"
  have e2: "(if uds_expired t (ut_deadline (uw_txn ?w1)) then map_option snd (uds_emit_pending ?w1) else Some ?w1) = Some w2"
    and g2: "uds_good R J w2" and s2: "ut_state (uw_txn w2) = TXN_RUNNING"
    using ep g1 s1 by (auto simp: w2_def)
  obtain u e3 where n3: "uds_now w2 = Some (u, w2\<lparr> uw_env := e3 \<rparr>)" "uds_good R J (w2\<lparr> uw_env := e3 \<rparr>)" by (rule uds_good_now[OF g2])
  define w3 where "w3 = (if ut_pend_stuck (uw_txn w2) then w2\<lparr> uw_env := e3 \<rparr> else w2)"
  obtain gone where e3: "(if ut_pend_stuck (uw_txn w2)
        then do { (u, w3) \<leftarrow> uds_now w2; Some (uds_expired u (ut_pend_give_up (uw_txn w3)), w3) } else Some (False, w2)) = Some (gone, w3)"
    using n3 by (cases "ut_pend_stuck (uw_txn w2)") (auto simp: w3_def)
  have g3: "uds_good R J w3" and s3: "ut_state (uw_txn w3) = TXN_RUNNING" using n3 g2 s2 by (simp_all add: w3_def)
  show thesis
  proof (cases gone)
    case True
    have i: "ut_state (uw_txn w3) \<noteq> TXN_IDLE" using s3 by simp
    show thesis
      by (rule link_error_good[OF g3 i, of NX_TP_N_ERROR]) (rule that[of True], use n e2 e3 True s in \<open>simp_all add: uds_process_running_def\<close>)
  next
    case False
    show thesis
      by (rule run_handler_good[OF g3 s3, of NX_UDS_PHASE_RESUME])
        (rule that[of False], use n e2 e3 False s in \<open>simp_all add: uds_process_running_def\<close>)
  qed
qed

lemma offer_answer_good:
  assumes g: "uds_good R J w" and s: "ut_state (uw_txn w) = TXN_SENDING"
  obtains b e where "uds_offer_answer w = Some (b, w\<lparr> uw_env := e \<rparr>)" "uds_good R J (w\<lparr> uw_env := e \<rparr>)"
proof (cases "uc_out_fn (uw_cfg w)")
  case None
  then show thesis using that[of False "uw_env w"] g by (simp add: uds_offer_answer_def)
next
  case (Some f)
  obtain b where b: "uc_out_buf (uw_cfg w) = Some b" "length b = unat (uc_out_buf_size (uw_cfg w))"
    using uds_goodD(2)[OF g] by (elim uds_cfg_invE)
  have "unat (cx_out_len (uw_ctx w)) \<le> length b"
    using uds_goodD(4)[OF g] s b(2) by (simp add: uds_txn_inv_def word_le_nat_alt)
  then have "mem_read 0 (unat (cx_out_len (uw_ctx w))) b = Some (take (unat (cx_out_len (uw_ctx w))) b)" by (simp add: mem_read_def)
  moreover obtain k e where "uds_offer w (take (unat (cx_out_len (uw_ctx w))) b) = (k, w\<lparr> uw_env := e \<rparr>)" "uds_good R J (w\<lparr> uw_env := e \<rparr>)"
    by (rule offer_good[OF g])
  ultimately show thesis using that Some b by (simp add: uds_offer_answer_def)
qed

lemma process_sending_good:
  assumes g: "uds_good R J w" and s: "ut_state (uw_txn w) = TXN_SENDING"
  obtains w' where "uds_process_sending call w = Some w'" "uds_good R J w'"
proof -
  obtain b e where o: "uds_offer_answer w = Some (b, w\<lparr> uw_env := e \<rparr>)" and g1: "uds_good R J (w\<lparr> uw_env := e \<rparr>)"
    by (rule offer_answer_good[OF g s])
  show thesis
  proof (cases b)
    case True
    let ?w = "upd_txn (\<lambda>x. x\<lparr> ut_state := TXN_AWAIT \<rparr>) (w\<lparr> uw_env := e \<rparr>)"
    have g2: "uds_good R J ?w" by (rule uds_good_txn[OF g1]) (use uds_goodD(4)[OF g] s in \<open>simp add: uds_txn_inv_def\<close>)
    obtain t e2 where n: "uds_now ?w = Some (t, ?w\<lparr> uw_env := e2 \<rparr>)" "uds_good R J (?w\<lparr> uw_env := e2 \<rparr>)" by (rule uds_good_now[OF g2])
    obtain p4 where p: "uds_txn_p4 (?w\<lparr> uw_env := e2 \<rparr>) = Some p4" using p4_good[OF n(2)] by blast
    have "uds_good R J (upd_txn (\<lambda>x. x\<lparr> ut_deadline := t + p4 \<rparr>) (?w\<lparr> uw_env := e2 \<rparr>))"
      by (rule uds_good_txn[OF n(2)]) (use uds_goodD(4)[OF g] s in \<open>simp add: uds_txn_inv_def\<close>)
    then show thesis using that o True n(1) p by (simp add: uds_process_sending_def)
  next
    case False
    obtain t e2 where n: "uds_now (w\<lparr> uw_env := e \<rparr>) = Some (t, w\<lparr> uw_env := e2 \<rparr>)" and g2: "uds_good R J (w\<lparr> uw_env := e2 \<rparr>)"
      using uds_good_now[OF g1] by (metis uds_world.update_convs(2) uds_world.surjective)
    obtain p4 where p: "uds_txn_p4 (w\<lparr> uw_env := e2 \<rparr>) = Some p4" using p4_good[OF g2] by blast
    obtain w3 where "uds_notify call (w\<lparr> uw_env := e2 \<rparr>) NX_UDS_PHASE_ABORT = Some w3" "uds_good R J w3"
      using notify_good[OF g2, of NX_UDS_PHASE_ABORT] s by (auto simp: uds_answer_phase_def)
    then show thesis using that o False n p g2
      by (cases "uds_expired t (ut_started (uw_txn w) + p4)") (auto simp: uds_process_sending_def)
  qed
qed

lemma process_await_good:
  assumes g: "uds_good R J w"
  obtains w' where "uds_process_await call w = Some w'" "uds_good R J w'"
proof (cases "ut_state (uw_txn w) = TXN_AWAIT")
  case False
  then show thesis using that g by (simp add: uds_process_await_def)
next
  case s: True
  obtain t e where n: "uds_now w = Some (t, w\<lparr> uw_env := e \<rparr>)" and g1: "uds_good R J (w\<lparr> uw_env := e \<rparr>)" by (rule uds_good_now[OF g])
  have i: "ut_state (uw_txn (w\<lparr> uw_env := e \<rparr>)) \<noteq> TXN_IDLE" using s by simp
  obtain w2 where "uds_notify call (upd_ctx (\<lambda>c. c\<lparr> cx_result := NX_TP_N_ERROR \<rparr>) (w\<lparr> uw_env := e \<rparr>)) NX_UDS_PHASE_LINK_ERROR = Some w2"
    "uds_good R J (uds_txn_end w2)"
    by (rule link_error_good[OF g1 i, of NX_TP_N_ERROR])
  then show thesis using that s n g1
    by (cases "uds_expired t (ut_deadline (uw_txn w))") (auto simp: uds_process_await_def)
qed

lemma process_good:
  assumes g: "uds_good R J w"
  obtains w' where "uds_process call w = Some w'" "uds_good R J w'"
proof -
  obtain w1 where w1: "uds_process_session w = Some w1" "uds_good R J w1" by (rule process_session_good[OF g])
  obtain w2 where w2: "uds_process_limit call w1 = Some w2" "uds_good R J w2" by (rule process_limit_good[OF w1(2)])
  obtain b w3 where w3: "uds_process_running call w2 = Some (b, w3)" "uds_good R J w3" by (rule process_running_good[OF w2(2)])
  obtain w4 where w4: "(if ut_state (uw_txn w3) = TXN_SENDING then uds_process_sending call w3 else uds_process_await call w3) = Some w4"
    "uds_good R J w4"
    by (cases "ut_state (uw_txn w3) = TXN_SENDING")
      (auto elim: process_sending_good[OF w3(2)] process_await_good[OF w3(2)])
  show thesis using that w1 w2 w3 w4
    by (cases "ut_state (uw_txn w1) = TXN_IDLE"; cases b) (auto simp: uds_process_def)
qed

lemma confirm_good:
  assumes g: "uds_good R J w"
  obtains r w' where "uds_confirm call w link result = Some (r, w')" "uds_good R J w'"
proof (cases "link \<noteq> uc_link (uw_cfg w) \<or> ut_state (uw_txn w) \<noteq> TXN_AWAIT")
  case True
  then show thesis using that g by (cases "link = uc_link (uw_cfg w)") (simp_all add: uds_confirm_def)
next
  case False
  then have s: "ut_state (uw_txn w) \<noteq> TXN_IDLE" by simp
  let ?p = "if result = NX_TP_N_OK then NX_UDS_PHASE_CONFIRM else NX_UDS_PHASE_LINK_ERROR"
  obtain w1 where "uds_notify call (upd_ctx (\<lambda>c. c\<lparr> cx_result := result \<rparr>) w) ?p = Some w1" "uds_good R J w1"
    by (rule notify_good[OF result_good[OF g s, of result], of ?p]) (use s in \<open>simp_all add: uds_answer_phase_def\<close>)
  then show thesis using that[of NX_UDS_SERVER_OK "uds_txn_end w1"] False by (simp add: uds_confirm_def uds_txn_end_good)
qed

end

end
