(* ===== verification/Nx_Uds_Indicate.thy ===== *)
theory Nx_Uds_Indicate
  imports Nx_Uds_Steps
begin

text \<open>
  How a request is judged: the verdict of the service table as a pure function of the table, the session, the security level and the
  request, and the proof that \<open>nx_uds_server_indicate\<close> carries it out.
\<close>

section \<open>The verdict\<close>

text \<open>A sub-function against the list of its row.\<close>

definition uds_sub_verdict :: "nx_uds_service \<Rightarrow> u8 \<Rightarrow> u8 \<Rightarrow> u8 option" where
  "uds_sub_verdict r session sub =
     (case sv_subs r of
        None \<Rightarrow> None
      | Some subs \<Rightarrow>
          if sv_subs_count r = 0 then None
          else (case find (\<lambda>i. subs ! i = sub) [0..<unat (sv_subs_count r)] of
              None \<Rightarrow> Some NX_UDS_NRC_SUB_FUNCTION_NOT_SUPPORTED
            | Some i \<Rightarrow>
                if bit (case sv_sub_session_masks r of None \<Rightarrow> sv_session_mask r | Some masks \<Rightarrow> masks ! i) (unat session) then None
                else Some NX_UDS_NRC_SUB_FUNCTION_NOT_SUPPORTED_IN_ACTIVE_SESSION))"

text \<open>\<open>Inl\<close> is the row that takes the request, \<open>Inr\<close> the reason it is refused with.\<close>

definition uds_verdict :: "'e nx_uds_server_cfg \<Rightarrow> u8 \<Rightarrow> u8 \<Rightarrow> bytes \<Rightarrow> nx_uds_service + u8" where
  "uds_verdict c session level req =
     (if length req > unat (uc_req_buf_size c) \<or> (uc_max_req_apdu c \<noteq> 0 \<and> length req > unat (uc_max_req_apdu c))
      then Inr NX_UDS_NRC_INCORRECT_LENGTH_OR_FORMAT
      else case find (\<lambda>r. sv_sid r = hd req) (take (unat (uc_services_count c)) (uds_rows c)) of
        None \<Rightarrow> Inr NX_UDS_NRC_SERVICE_NOT_SUPPORTED
      | Some r \<Rightarrow>
          if \<not> bit (sv_session_mask r) (unat session) then Inr NX_UDS_NRC_SERVICE_NOT_SUPPORTED_IN_ACTIVE_SESSION
          else if level < sv_sec_level r then Inr NX_UDS_NRC_SECURITY_ACCESS_DENIED
          else if length req < unat (sv_min_len r) \<or> (sv_max_len r \<noteq> 0 \<and> unat (sv_max_len r) < length req)
          then Inr NX_UDS_NRC_INCORRECT_LENGTH_OR_FORMAT
          else if sv_flags r AND NX_UDS_SVC_HAS_SUB_FUNCTION = 0 then Inl r
          else (case uds_sub_verdict r session (req ! 1 AND 0x7F) of None \<Rightarrow> Inl r | Some nrc \<Rightarrow> Inr nrc))"

text \<open>The refusals a functionally addressed request does not get.\<close>

definition uds_quiet :: "u8 \<Rightarrow> u8 \<Rightarrow> bool" where
  "uds_quiet ta_type nrc \<longleftrightarrow> ta_type = NX_TP_TA_FUNCTIONAL \<and> nrc \<in> {0x11, 0x12, 0x31, 0x7E, 0x7F}"

text \<open>The answer under way.\<close>

definition uds_answer :: "'e uds_world \<Rightarrow> bytes option" where
  "uds_answer w =
     (if ut_state (uw_txn w) = TXN_SENDING then map_option (take (unat (cx_out_len (uw_ctx w)))) (uc_out_buf (uw_cfg w)) else None)"

section \<open>The searches\<close>

lemma uds_scan_find:
  assumes "uds_scan p n xs = Some i" "n \<le> length xs"
  shows "find p (take n xs) = (if i < n then Some (xs ! i) else None)" "i \<le> n"
  using assms
proof (induction p n xs arbitrary: i rule: uds_scan.induct)
  case (3 p n x xs)
  { case 1 then show ?case using 3 by (auto split: if_splits) }
  { case 2 then show ?case using 3 by (auto split: if_splits) }
qed auto

lemma find_map: "find p (map f xs) = map_option f (find (\<lambda>x. p (f x)) xs)"
  by (induction xs) auto

lemma uds_scan_find_index:
  assumes "uds_scan p n xs = Some i" "n \<le> length xs"
  shows "find (\<lambda>j. p (xs ! j)) [0..<n] = (if i < n then Some i else None)"
  using assms
proof (induction p n xs arbitrary: i rule: uds_scan.induct)
  case (3 p n x xs)
  show ?case
  proof (cases "p x")
    case True
    then show ?thesis using 3 by (simp add: upt_conv_Cons del: upt_Suc)
  next
    case False
    then obtain k where k: "uds_scan p n xs = Some k" "i = Suc k" using 3(2) by auto
    have "[0..<Suc n] = 0 # map Suc [0..<n]" by (simp add: map_Suc_upt upt_conv_Cons del: upt_Suc)
    then show ?thesis using 3(1)[OF False k(1)] 3(3) False k(2) by (simp add: find_map del: upt_Suc)
  qed
qed auto

lemma find_row_verdict:
  assumes "uds_cfg_inv c"
  obtains i where "uds_find_row c sid = Some i"
    "find (\<lambda>r. sv_sid r = sid) (take (unat (uc_services_count c)) (uds_rows c)) =
       (if i < uc_services_count c then Some (uds_rows c ! unat i) else None)"
proof -
  let ?n = "unat (uc_services_count c)"
  have n: "?n \<le> length (uds_rows c)" using assms by (simp add: uds_cfg_inv_def uds_table_wf_def)
  then obtain k where k: "uds_scan (\<lambda>r. sv_sid r = sid) ?n (uds_rows c) = Some k" "k \<le> ?n" using uds_scan_total by blast
  have u: "unat (of_nat k :: u16) = k"
    unfolding unsigned_of_nat of_nat_id
    by (rule take_bit_nat_eq_self) (rule le_less_trans[OF k(2) unsigned_less])
  show thesis
    by (rule that[of "of_nat k"])
      (use k u uds_scan_find(1)[OF k(1) n] in \<open>simp_all add: uds_find_row_def word_less_nat_alt\<close>)
qed

lemma find_sub_verdict:
  assumes "uds_row_wf r" "sv_subs r = Some subs"
  obtains i where "uds_find_sub r sub = Some i"
    "find (\<lambda>j. subs ! j = sub) [0..<unat (sv_subs_count r)] = (if i < sv_subs_count r then Some (unat i) else None)"
proof -
  let ?n = "unat (sv_subs_count r)"
  have n: "?n \<le> length subs" using assms by (simp add: uds_row_wf_def)
  then obtain k where k: "uds_scan (\<lambda>x. x = sub) ?n subs = Some k" "k \<le> ?n" using uds_scan_total by blast
  have u: "unat (of_nat k :: u8) = k"
    unfolding unsigned_of_nat of_nat_id
    by (rule take_bit_nat_eq_self) (rule le_less_trans[OF k(2) unsigned_less])
  show thesis
    by (rule that[of "of_nat k"])
      (use assms(2) k u uds_scan_find_index[OF k(1) n] in \<open>simp_all add: uds_find_sub_def word_less_nat_alt\<close>)
qed

lemma session_bit:
  assumes "NX_UDS_SESSION_IN_RANGE s"
  shows "m AND NX_UDS_SESSION_BIT s \<noteq> 0 \<longleftrightarrow> bit m (unat s)"
proof -
  have le: "(ucast s :: u32) \<le> 31" using assms by (simp add: NX_UDS_SESSION_IN_RANGE_def)
  then have "unat s \<le> 31" by (simp add: word_le_nat_alt unat_ucast_wider)
  then have u: "unat s < 32" by simp
  have e: "m AND push_bit (unat s) 1 = (if bit m (unat s) then push_bit (unat s) 1 else 0)"
    by (rule bit_eqI) (auto simp: bit_simps)
  have "push_bit (unat s) (1::u32) \<noteq> 0"
  proof
    assume "push_bit (unat s) (1::u32) = 0"
    then have "\<not> bit (push_bit (unat s) (1::u32)) (unat s)" by (simp only: bit_0_eq bot_apply bot_bool_def) simp
    then show False using u by (simp add: bit_simps)
  qed
  then show ?thesis using le e by (simp add: NX_UDS_SESSION_BIT_def)
qed

section \<open>Beginning a transaction\<close>

definition uds_begun :: "'e uds_world \<Rightarrow> 'e \<Rightarrow> u32 \<Rightarrow> u16 \<Rightarrow> u32 \<Rightarrow> u8 \<Rightarrow> u8 \<Rightarrow> u8 \<Rightarrow> 'e uds_world" where
  "uds_begun w e t row len ta_type link sid =
     upd_txn (\<lambda>_. uds_txn_zero\<lparr> ut_row := row, ut_started := t, ut_deadline := t + uc_p2_us (uw_cfg w) - uc_p2_adjust_us (uw_cfg w),
       ut_state := TXN_RUNNING,
       ut_ctx := uds_ctx_zero\<lparr> cx_req_len := len, cx_sid := sid, cx_ta_type := ta_type, cx_link := link,
         cx_session := us_session (uw_srv w), cx_sec_level := us_sec_level (uw_srv w),
         cx_out_cap := uc_max_resp_apdu (uw_cfg w), cx_out_len := 0 \<rparr> \<rparr>) (w\<lparr> uw_env := e \<rparr>)"

lemma uds_begun_simps [simp]:
  "uw_cfg (uds_begun w e t row len ta_type link sid) = uw_cfg w"
  "ut_state (uw_txn (uds_begun w e t row len ta_type link sid)) = TXN_RUNNING"
  "ut_row (uw_txn (uds_begun w e t row len ta_type link sid)) = row"
  "ut_pending_sent (uw_txn (uds_begun w e t row len ta_type link sid)) = False"
  "ut_answered (uw_txn (uds_begun w e t row len ta_type link sid)) = False"
  "cx_sid (uw_ctx (uds_begun w e t row len ta_type link sid)) = sid"
  "cx_ta_type (uw_ctx (uds_begun w e t row len ta_type link sid)) = ta_type"
  "cx_link (uw_ctx (uds_begun w e t row len ta_type link sid)) = link"
  "cx_req_len (uw_ctx (uds_begun w e t row len ta_type link sid)) = len"
  "cx_has_sub (uw_ctx (uds_begun w e t row len ta_type link sid)) = False"
  "cx_suppress_pos (uw_ctx (uds_begun w e t row len ta_type link sid)) = False"
  "cx_sub (uw_ctx (uds_begun w e t row len ta_type link sid)) = 0"
  "cx_out_cap (uw_ctx (uds_begun w e t row len ta_type link sid)) = uc_max_resp_apdu (uw_cfg w)"
  "cx_session (uw_ctx (uds_begun w e t row len ta_type link sid)) = us_session (uw_srv w)"
  "cx_sec_level (uw_ctx (uds_begun w e t row len ta_type link sid)) = us_sec_level (uw_srv w)"
  "us_session (uw_srv (uds_begun w e t row len ta_type link sid)) = us_session (uw_srv w)"
  "us_sec_level (uw_srv (uds_begun w e t row len ta_type link sid)) = us_sec_level (uw_srv w)"
  "uw_env (uds_begun w e t row len ta_type link sid) = e"
  "uds_session_inv (uw_srv (uds_begun w e t row len ta_type link sid)) = uds_session_inv (uw_srv w)"
  by (simp_all add: uds_begun_def uds_txn_zero_def uds_ctx_zero_def)

lemma txn_begin_eq:
  assumes g: "uds_good R J w" and b: "uc_req_buf (uw_cfg w) = Some b" "b ! 0 = sid"
  obtains t e where "uds_txn_begin w row len ta_type link = Some (uds_begun w e t row len ta_type link sid)" "J e"
proof -
  obtain t e where n: "uds_now w = Some (t, w\<lparr> uw_env := e \<rparr>)" "uds_good R J (w\<lparr> uw_env := e \<rparr>)" by (rule uds_good_now[OF g])
  have "0 < length b" using uds_goodD(2)[OF g] b(1) by (auto elim!: uds_cfg_invE)
  moreover have "(if uc_max_resp_apdu (uw_cfg w) < uc_out_buf_size (uw_cfg w) then uc_max_resp_apdu (uw_cfg w) else uc_out_buf_size (uw_cfg w))
      = uc_max_resp_apdu (uw_cfg w)"
    using uds_goodD(2)[OF g] by (auto simp: uds_cfg_inv_def)
  moreover have "J e" using n(2) by simp
  ultimately show thesis using n(1) b by (intro that[of e t]) (simp_all add: uds_txn_begin_def uds_begun_def mem_get_def Let_def)
qed

lemma begun_good:
  assumes g: "uds_good R J w" and "J e" and l: "1 \<le> len" "len \<le> uc_req_buf_size (uw_cfg w)" and r: "row < uc_services_count (uw_cfg w)"
    and "ucast (sv_min_len (uds_rows (uw_cfg w) ! unat row)) \<le> len"
  shows "uds_good R J (uds_begun w e t row len ta_type link sid)"
  using assms by (simp add: uds_good_def uds_inv_def uds_txn_inv_def uds_ctx_inv_def)

lemma refuse_before_dispatch_good:
  assumes g: "uds_good R J w" and b: "uc_req_buf (uw_cfg w) = Some b" "b ! 0 = sid"
    and l: "1 \<le> len" "len \<le> uc_req_buf_size (uw_cfg w)" and r: "row \<le> uc_services_count (uw_cfg w)"
  obtains w' where "uds_refuse_before_dispatch w row len ta_type link nrc = Some w'" "uds_good R J w'"
    "if uds_quiet ta_type nrc then ut_state (uw_txn w') = TXN_IDLE else uds_answer w' = Some [NX_UDS_NEG_RSP_SID, sid, nrc]"
proof -
  obtain t e where bg: "uds_txn_begin w row len ta_type link = Some (uds_begun w e t row len ta_type link sid)" and J: "J e"
    by (rule txn_begin_eq[OF g b])
  let ?w1 = "uds_begun w e t row len ta_type link sid"
  obtain ob where ob: "uc_out_buf (uw_cfg w) = Some ob" "length ob = unat (uc_out_buf_size (uw_cfg w))" "3 \<le> length ob"
    using uds_goodD(2)[OF g] by (elim uds_cfg_invE)
  let ?w2 = "uds_negative_written ob sid nrc ?w1"
  have p: "uds_put_negative ?w1 sid nrc = Some ?w2" using ob by (simp add: put_negative_eq)
  have q: "uds_negative_suppressed (uw_txn ?w2) ta_type nrc \<longleftrightarrow> uds_quiet ta_type nrc"
    by (auto simp: uds_negative_suppressed_def uds_quiet_def)
  let ?w' = "if uds_quiet ta_type nrc then uds_txn_end ?w2 else upd_txn (\<lambda>t. t\<lparr> ut_answered := True, ut_state := TXN_SENDING \<rparr>) ?w2"
  have e: "uds_refuse_before_dispatch w row len ta_type link nrc = Some ?w'"
    using bg p q by (simp add: uds_refuse_before_dispatch_def)
  have m: "map_option length (Some ([NX_UDS_NEG_RSP_SID, sid, nrc] @ drop 3 ob)) = map_option length (uc_out_buf (uw_cfg w))" using ob by simp
  have c: "uds_cfg_inv ((uw_cfg w)\<lparr> uc_out_buf := Some ([NX_UDS_NEG_RSP_SID, sid, nrc] @ drop 3 ob) \<rparr>)"
    using uds_cfg_inv_out_buf[OF m] uds_goodD(2)[OF g] by simp
  have s3: "3 \<le> uc_out_buf_size (uw_cfg w)" using uds_goodD(2)[OF g] by (simp add: uds_cfg_inv_def)
  have ss: "uds_session_inv (uw_srv ?w2)" using uds_goodD(3)[OF g] by (simp add: uds_negative_written_def)
  have "uds_good R J ?w'"
    using c ss J uds_goodD(6,7)[OF g] l r s3
    by (simp add: uds_good_def uds_inv_def uds_txn_end_eq uds_txn_inv_def[of _ "_\<lparr> ut_state := 2 \<rparr>"] uds_ctx_inv_def)
  moreover have "if uds_quiet ta_type nrc then ut_state (uw_txn ?w') = TXN_IDLE else uds_answer ?w' = Some [NX_UDS_NEG_RSP_SID, sid, nrc]"
    by (simp add: uds_answer_def)
  ultimately show thesis using that e by blast
qed

section \<open>Refusing, and entering the handler\<close>

context uds_handlers
begin

lemma notify_answer:
  assumes g: "uds_good R J w" and s: "ut_state (uw_txn w) \<noteq> TXN_IDLE" and p: "\<not> uds_answer_phase p"
    and n: "uds_notify call w p = Some w'"
  shows "uds_answer w' = uds_answer w"
proof (cases "uds_row_of w")
  case None
  then show ?thesis using n uds_txn_row_good[OF g] by (simp add: uds_notify_def)
next
  case (Some r)
  let ?w = "upd_ctx (\<lambda>c. c\<lparr> cx_phase := p \<rparr>) w"
  have g1: "uds_good R J ?w" by (rule uds_phase_good[OF g s])
  obtain d w'' where c: "call (sv_handler r) (sv_user r) ?w = Some (d, w'')" and f: "uds_frame ?w w''"
    using handled[OF g1, of r] s Some p by auto
  have "w'' = w'" using n c uds_txn_row_good[OF g] Some by (simp add: uds_notify_def)
  moreover have "cx_out_len (uw_ctx w'') = cx_out_len (uw_ctx w)" "uc_out_buf (uw_cfg w'') = uc_out_buf (uw_cfg w)"
    using f p by (auto simp: uds_frame_def)
  ultimately show ?thesis using uds_frame_state(1)[OF f] by (simp add: uds_answer_def)
qed

lemma refuse_answers:
  assumes g: "uds_good R J w" and s: "ut_state (uw_txn w) = TXN_RUNNING" and u: "\<not> ut_pending_sent (uw_txn w)"
  obtains w' where "uds_txn_refuse call w nrc = Some w'" "uds_good R J w'"
    "if uds_quiet (cx_ta_type (uw_ctx w)) nrc then ut_state (uw_txn w') = TXN_IDLE
     else uds_answer w' = Some [NX_UDS_NEG_RSP_SID, cx_sid (uw_ctx w), nrc]"
proof -
  obtain b where b: "uds_put_negative w (cx_sid (uw_ctx w)) nrc = Some (uds_negative_written b (cx_sid (uw_ctx w)) nrc w)"
    and g1: "uds_good R J (uds_negative_written b (cx_sid (uw_ctx w)) nrc w)"
    using put_negative_good[OF g s] by metis
  let ?w = "uds_negative_written b (cx_sid (uw_ctx w)) nrc w"
  have q: "uds_negative_suppressed (uw_txn ?w) (cx_ta_type (uw_ctx ?w)) nrc \<longleftrightarrow> uds_quiet (cx_ta_type (uw_ctx w)) nrc"
    using u by (auto simp: uds_negative_suppressed_def uds_quiet_def)
  have r: "uds_txn_refuse call w nrc = uds_txn_answer_ready call ?w (\<not> uds_quiet (cx_ta_type (uw_ctx w)) nrc)"
    using b q by (simp add: uds_txn_refuse_def)
  obtain w' where a: "uds_txn_answer_ready call ?w (\<not> uds_quiet (cx_ta_type (uw_ctx w)) nrc) = Some w'" "uds_good R J w'"
    by (rule answer_ready_good[OF g1]) (use s uds_goodD(2)[OF g] in \<open>simp_all add: uds_cfg_inv_def\<close>)
  have "if uds_quiet (cx_ta_type (uw_ctx w)) nrc then ut_state (uw_txn w') = TXN_IDLE
     else uds_answer w' = Some [NX_UDS_NEG_RSP_SID, cx_sid (uw_ctx w), nrc]"
  proof (cases "uds_quiet (cx_ta_type (uw_ctx w)) nrc")
    case True
    then show ?thesis using a(1) by (auto simp: uds_txn_answer_ready_def bind_eq_Some_conv)
  next
    case False
    let ?w2 = "upd_txn (\<lambda>t. t\<lparr> ut_answered := True, ut_state := TXN_SENDING \<rparr>) ?w"
    have n: "uds_notify call ?w2 NX_UDS_PHASE_RESPONSE = Some w'" using a(1) False by (simp add: uds_txn_answer_ready_def)
    have "uds_good R J ?w2"
      by (rule uds_good_txn[OF g1]) (use uds_goodD(2,4)[OF g] s in \<open>auto simp: uds_txn_inv_def uds_ctx_inv_def uds_cfg_inv_def\<close>)
    then have "uds_answer w' = uds_answer ?w2" by (rule notify_answer[OF _ _ _ n]) (simp_all add: uds_answer_phase_def)
    then show ?thesis using False by (simp add: uds_answer_def)
  qed
  then show thesis using that r a by simp
qed

end

text \<open>What the handler of an accepted request finds.\<close>

definition uds_presents :: "nx_uds_service \<Rightarrow> u8 \<Rightarrow> u8 \<Rightarrow> bytes \<Rightarrow> u8 \<Rightarrow> 'e uds_world \<Rightarrow> bool" where
  "uds_presents r session level req ta_type w \<longleftrightarrow>
     ut_state (uw_txn w) = TXN_RUNNING \<and> uds_row_of w = Some r \<and> us_session (uw_srv w) = session \<and> us_sec_level (uw_srv w) = level \<and>
     (let c = uw_ctx w; sub = sv_flags r AND NX_UDS_SVC_HAS_SUB_FUNCTION \<noteq> 0 in
        cx_phase c = NX_UDS_PHASE_REQUEST \<and> unat (cx_req_len c) = length req \<and> cx_sid c = hd req \<and> cx_ta_type c = ta_type \<and>
        cx_session c = session \<and> cx_sec_level c = level \<and> cx_has_sub c = sub \<and>
        cx_sub c = (if sub then req ! 1 AND 0x7F else 0) \<and> cx_suppress_pos c = (sub \<and> bit (req ! 1) 7) \<and>
        cx_out_len c = 1 \<and> cx_nrc c = 0) \<and>
     (case uc_req_buf (uw_cfg w) of None \<Rightarrow> False | Some b \<Rightarrow> take (length req) b = req) \<and>
     (case uc_out_buf (uw_cfg w) of None \<Rightarrow> False | Some b \<Rightarrow> take 1 b = [hd req OR 0x40])"

lemma suppress_bit: "(x::u8) AND 0x80 \<noteq> 0 \<longleftrightarrow> bit x 7"
  using bit_iff_and_push_bit_not_eq_0[of x 7] by simp

context uds_handlers
begin

lemma dispatch_good:
  assumes g: "uds_good R J w" and s: "ut_state (uw_txn w) = TXN_RUNNING" and r: "uds_row_of w = Some r"
  obtains wb d w2 w' where "uds_dispatch call w = Some w'" "uds_good R J w'"
    "call (sv_handler r) (sv_user r) wb = Some (d, w2)" "uds_apply_disposition call w2 d = Some w'"
    "uw_ctx wb = (uw_ctx w)\<lparr> cx_out_len := 1, cx_phase := NX_UDS_PHASE_REQUEST, cx_nrc := 0 \<rparr>"
    "ut_state (uw_txn wb) = TXN_RUNNING" "uds_row_of wb = Some r"
    "us_session (uw_srv wb) = us_session (uw_srv w)" "us_sec_level (uw_srv wb) = us_sec_level (uw_srv w)"
    "uc_req_buf (uw_cfg wb) = uc_req_buf (uw_cfg w)" "J (uw_env wb)"
    "\<exists>b. uc_out_buf (uw_cfg wb) = Some b \<and> take 1 b = [cx_sid (uw_ctx w) OR 0x40]"
proof -
  obtain ob where ob: "uc_out_buf (uw_cfg w) = Some ob" "3 \<le> length ob" using uds_goodD(2)[OF g] by (elim uds_cfg_invE)
  let ?x = "[NX_UDS_SID_TO_POS_RSP (cx_sid (uw_ctx w))]"
  have m: "mem_write 0 ?x ob = Some (?x @ drop 1 ob)" using ob(2) by (simp add: mem_write_def)
  let ?w1 = "upd_srv (\<lambda>s. s\<lparr> us_cfg := (us_cfg s)\<lparr> uc_out_buf := Some (?x @ drop 1 ob) \<rparr> \<rparr>) w"
  have p: "put_out 0 ?x w = Some ?w1" and g1: "uds_good R J ?w1"
    using put_out_good[OF g ob(1), of 0 ?x] ob(2) m by auto
  let ?w2 = "upd_ctx (\<lambda>c. c\<lparr> cx_out_len := 1 \<rparr>) ?w1"
  let ?wb = "upd_ctx (\<lambda>c. c\<lparr> cx_phase := NX_UDS_PHASE_REQUEST, cx_nrc := NX_UDS_NRC_NONE \<rparr>) ?w2"
  have t: "uds_txn_inv (uw_cfg w) (uw_txn w)" by (rule uds_goodD(4)[OF g])
  have g2: "uds_good R J ?w2" by (rule uds_good_ctx[OF g1]) (use t s in \<open>simp add: uds_txn_inv_def uds_ctx_inv_def\<close>)
  have gb: "uds_good R J ?wb" by (rule uds_good_ctx[OF g2]) (use t s in \<open>simp add: uds_txn_inv_def uds_ctx_inv_def\<close>)
  have rb: "uds_row_of ?wb = Some r" using r by (auto simp: uds_row_of_def split: if_splits)
  have r2: "uds_row_of ?w2 = Some r" using r by (auto simp: uds_row_of_def split: if_splits)
  obtain d w2 where c: "call (sv_handler r) (sv_user r) ?wb = Some (d, w2)" and f: "uds_frame ?wb w2" and j: "J (uw_env w2)"
    using handled[OF gb, of r] s r by auto
  have gw2: "uds_good R J w2" by (rule uds_frame_good[OF gb _ f j]) (use s in simp_all)
  have "ut_state (uw_txn w2) = TXN_RUNNING" using uds_frame_state(1)[OF f] s by simp
  then obtain w' where a: "uds_apply_disposition call w2 d = Some w'" "uds_good R J w'" by (rule disposition_good[OF gw2])
  have e: "uds_dispatch call w = Some w'"
    using p uds_txn_row_good[OF g2] r2 c a(1) by (simp add: uds_dispatch_def uds_run_handler_def)
  show thesis
    by (rule that[OF e a(2) c a(1)]) (use s rb uds_goodD(5)[OF gb] in \<open>simp_all add: NX_UDS_SID_TO_POS_RSP_def\<close>)
qed

end

section \<open>The decision carried out\<close>

text \<open>How the server stands after a request: refused with \<open>nrc\<close>, or handed to the handler of \<open>r\<close>.\<close>

definition uds_refused :: "u8 \<Rightarrow> u8 \<Rightarrow> u8 \<Rightarrow> 'e uds_world \<Rightarrow> bool" where
  "uds_refused ta_type sid nrc w \<longleftrightarrow>
     (if uds_quiet ta_type nrc then ut_state (uw_txn w) = TXN_IDLE else uds_answer w = Some [NX_UDS_NEG_RSP_SID, sid, nrc])"

definition uds_handed :: "'e uds_call \<Rightarrow> ('e \<Rightarrow> bool) \<Rightarrow> u32 \<Rightarrow> nx_uds_service \<Rightarrow> u8 \<Rightarrow> u8 \<Rightarrow> bytes \<Rightarrow> u8 \<Rightarrow> 'e uds_world \<Rightarrow> bool" where
  "uds_handed call J cap r session level req ta_type w' \<longleftrightarrow>
     (\<exists>w d w2. uds_presents r session level req ta_type w \<and> cx_out_cap (uw_ctx w) = cap \<and> J (uw_env w) \<and>
        call (sv_handler r) (sv_user r) w = Some (d, w2) \<and> uds_apply_disposition call w2 d = Some w')"

definition uds_judged :: "'e uds_call \<Rightarrow> ('e \<Rightarrow> bool) \<Rightarrow> u32 \<Rightarrow> nx_uds_service + u8 \<Rightarrow> u8 \<Rightarrow> u8 \<Rightarrow> bytes \<Rightarrow> u8 \<Rightarrow> 'e uds_world \<Rightarrow> bool" where
  "uds_judged call J cap v session level req ta_type w' \<longleftrightarrow>
     (case v of Inl r \<Rightarrow> uds_handed call J cap r session level req ta_type w' | Inr nrc \<Rightarrow> uds_refused ta_type (hd req) nrc w')"

text \<open>The verdict once the row is found and its session, level and length are right.\<close>

definition uds_late_verdict :: "nx_uds_service \<Rightarrow> u8 \<Rightarrow> bytes \<Rightarrow> nx_uds_service + u8" where
  "uds_late_verdict r session req =
     (if sv_flags r AND NX_UDS_SVC_HAS_SUB_FUNCTION = 0 then Inl r
      else (case uds_sub_verdict r session (req ! 1 AND 0x7F) of None \<Rightarrow> Inl r | Some nrc \<Rightarrow> Inr nrc))"

text \<open>The transaction with its sub-function taken apart.\<close>

definition uds_sub_taken :: "u8 \<Rightarrow> 'e uds_world \<Rightarrow> 'e uds_world" where
  "uds_sub_taken x =
     upd_ctx (\<lambda>c. c\<lparr> cx_has_sub := True, cx_suppress_pos := NX_UDS_SUPPRESSES_POS_RSP x, cx_sub := NX_UDS_SUB_FUNCTION x \<rparr>)"

context uds_handlers
begin

lemma dispatch_hands:
  assumes g: "uds_good R J w" and s: "ut_state (uw_txn w) = TXN_RUNNING" and r: "uds_row_of w = Some r"
    and b: "uc_req_buf (uw_cfg w) = Some b" "take (length req) b = req"
    and c: "unat (cx_req_len (uw_ctx w)) = length req" "cx_sid (uw_ctx w) = hd req" "cx_ta_type (uw_ctx w) = ta_type"
      "cx_session (uw_ctx w) = us_session (uw_srv w)" "cx_sec_level (uw_ctx w) = us_sec_level (uw_srv w)"
      "cx_has_sub (uw_ctx w) = (sv_flags r AND NX_UDS_SVC_HAS_SUB_FUNCTION \<noteq> 0)"
      "cx_sub (uw_ctx w) = (if sv_flags r AND NX_UDS_SVC_HAS_SUB_FUNCTION \<noteq> 0 then req ! 1 AND 0x7F else 0)"
      "cx_suppress_pos (uw_ctx w) = (sv_flags r AND NX_UDS_SVC_HAS_SUB_FUNCTION \<noteq> 0 \<and> bit (req ! 1) 7)"
      "cx_out_cap (uw_ctx w) = uc_max_resp_apdu (uw_cfg w)"
  obtains w' where "uds_dispatch call w = Some w'" "uds_good R J w'"
    "uds_handed call J (uc_max_resp_apdu (uw_cfg w)) r (us_session (uw_srv w)) (us_sec_level (uw_srv w)) req ta_type w'"
proof -
  obtain wb d w2 w' where e: "uds_dispatch call w = Some w'" "uds_good R J w'"
    and h: "call (sv_handler r) (sv_user r) wb = Some (d, w2)" "uds_apply_disposition call w2 d = Some w'"
    and x: "uw_ctx wb = (uw_ctx w)\<lparr> cx_out_len := 1, cx_phase := NX_UDS_PHASE_REQUEST, cx_nrc := 0 \<rparr>"
    and y: "ut_state (uw_txn wb) = TXN_RUNNING" "uds_row_of wb = Some r"
      "us_session (uw_srv wb) = us_session (uw_srv w)" "us_sec_level (uw_srv wb) = us_sec_level (uw_srv w)"
      "uc_req_buf (uw_cfg wb) = uc_req_buf (uw_cfg w)" "J (uw_env wb)"
    and z: "\<exists>b. uc_out_buf (uw_cfg wb) = Some b \<and> take 1 b = [cx_sid (uw_ctx w) OR 0x40]"
    by (rule dispatch_good[OF g s r])
  obtain ob where ob: "uc_out_buf (uw_cfg wb) = Some ob" "take 1 ob = [hd req OR 0x40]" using z c(2) by auto
  have "uds_presents r (us_session (uw_srv w)) (us_sec_level (uw_srv w)) req ta_type wb"
    unfolding uds_presents_def Let_def x y(1-5) ob option.case b using c ob(2) b(2) by simp
  moreover have "cx_out_cap (uw_ctx wb) = uc_max_resp_apdu (uw_cfg w)" using c(9) by (simp add: x)
  ultimately have "uds_handed call J (uc_max_resp_apdu (uw_cfg w)) r (us_session (uw_srv w)) (us_sec_level (uw_srv w)) req ta_type w'"
    unfolding uds_handed_def using h y(6) by blast
  then show thesis using that e by blast
qed

lemma accept_judges:
  assumes g: "uds_good R J w" and s: "ut_state (uw_txn w) = TXN_RUNNING" and r: "uds_row_of w = Some r"
    and b: "uc_req_buf (uw_cfg w) = Some b" "take (length req) b = req" and u: "\<not> ut_pending_sent (uw_txn w)"
    and l: "unat (sv_min_len r) \<le> length req"
    and c: "unat (cx_req_len (uw_ctx w)) = length req" "cx_sid (uw_ctx w) = hd req" "cx_ta_type (uw_ctx w) = ta_type"
      "cx_session (uw_ctx w) = us_session (uw_srv w)" "cx_sec_level (uw_ctx w) = us_sec_level (uw_srv w)"
      "\<not> cx_has_sub (uw_ctx w)" "cx_sub (uw_ctx w) = 0" "\<not> cx_suppress_pos (uw_ctx w)"
      "cx_out_cap (uw_ctx w) = uc_max_resp_apdu (uw_cfg w)"
  obtains w' where "uds_accept call w r = Some w'" "uds_good R J w'"
    "uds_judged call J (uc_max_resp_apdu (uw_cfg w)) (uds_late_verdict r (us_session (uw_srv w)) req) (us_session (uw_srv w)) (us_sec_level (uw_srv w)) req ta_type w'"
proof (cases "sv_flags r AND NX_UDS_SVC_HAS_SUB_FUNCTION = 0")
  case True
  obtain w' where d: "uds_dispatch call w = Some w'" "uds_good R J w'"
    "uds_handed call J (uc_max_resp_apdu (uw_cfg w)) r (us_session (uw_srv w)) (us_sec_level (uw_srv w)) req ta_type w'"
    by (rule dispatch_hands[OF g s r b c(1-5)]) (use c True in simp_all)
  show thesis by (rule that[OF _ d(2)]) (use d True in \<open>simp_all add: uds_accept_def uds_judged_def uds_late_verdict_def\<close>)
next
  case False
  have wf: "uds_row_wf r" by (rule uds_row_of_handler(2)[OF g r])
  then have "2 \<le> unat (sv_min_len r)" using False by (auto simp: uds_row_wf_def uds_row_ok_def word_le_nat_alt not_less)
  then have n2: "2 \<le> length req" using l by simp
  then have lb: "1 < length b" using b(2) by (metis Suc_le_eq length_take less_le_trans min.cobounded1 numeral_2_eq_2 One_nat_def)
  have b1: "b ! 1 = req ! 1" using b(2) n2 by (metis Suc_1 Suc_le_lessD nth_take)
  let ?x = "req ! 1" and ?s = "us_session (uw_srv w)"
  let ?w = "uds_sub_taken ?x w"
  have g1: "uds_good R J ?w" unfolding uds_sub_taken_def
  proof (rule uds_good_ctx[OF g])
    have "2 \<le> cx_req_len (uw_ctx w)" using c(1) n2 by (simp add: word_le_nat_alt)
    then show "uds_txn_inv (uw_cfg w) ((uw_txn w)\<lparr> ut_ctx := (uw_ctx w)\<lparr> cx_has_sub := True,
        cx_suppress_pos := NX_UDS_SUPPRESSES_POS_RSP ?x, cx_sub := NX_UDS_SUB_FUNCTION ?x \<rparr> \<rparr>)"
      using uds_goodD(4)[OF g] s by (simp add: uds_txn_inv_def uds_ctx_inv_def)
  qed
  have s1: "ut_state (uw_txn ?w) = TXN_RUNNING" and r1: "uds_row_of ?w = Some r" and u1: "\<not> ut_pending_sent (uw_txn ?w)"
    using s r u by (simp_all add: uds_sub_taken_def)
  obtain w' where d: "uds_dispatch call ?w = Some w'" "uds_good R J w'"
    "uds_handed call J (uc_max_resp_apdu (uw_cfg w)) r ?s (us_sec_level (uw_srv w)) req ta_type w'"
  proof (rule dispatch_hands[OF g1 s1 r1, of b req ta_type])
    fix w' assume "uds_dispatch call ?w = Some w'" "uds_good R J w'"
      "uds_handed call J (uc_max_resp_apdu (uw_cfg ?w)) r (us_session (uw_srv ?w)) (us_sec_level (uw_srv ?w)) req ta_type w'"
    then show thesis by (intro that) (simp_all add: uds_sub_taken_def)
  qed (use b c False in \<open>simp_all add: uds_sub_taken_def NX_UDS_SUPPRESSES_POS_RSP_def NX_UDS_SUB_FUNCTION_def suppress_bit\<close>)
  have rf: "\<exists>w'. uds_txn_refuse call ?w nrc = Some w' \<and> uds_good R J w' \<and> uds_refused ta_type (hd req) nrc w'" for nrc
  proof -
    obtain w' where "uds_txn_refuse call ?w nrc = Some w'" "uds_good R J w'"
      "if uds_quiet (cx_ta_type (uw_ctx ?w)) nrc then ut_state (uw_txn w') = TXN_IDLE
       else uds_answer w' = Some [NX_UDS_NEG_RSP_SID, cx_sid (uw_ctx ?w), nrc]"
      by (rule refuse_answers[OF g1 s1 u1])
    then show ?thesis using c by (auto simp: uds_refused_def uds_sub_taken_def)
  qed
  have acc: "uds_accept call w r =
      (if sv_subs r \<noteq> None \<and> sv_subs_count r \<noteq> 0 then do {
         idx \<leftarrow> uds_find_sub r (?x AND 0x7F);
         if idx \<ge> sv_subs_count r then uds_txn_refuse call ?w NX_UDS_NRC_SUB_FUNCTION_NOT_SUPPORTED
         else do {
           m \<leftarrow> uds_sub_session_mask r idx;
           if m AND NX_UDS_SESSION_BIT ?s = 0
           then uds_txn_refuse call ?w NX_UDS_NRC_SUB_FUNCTION_NOT_SUPPORTED_IN_ACTIVE_SESSION
           else uds_dispatch call ?w } }
       else uds_dispatch call ?w)"
  proof -
    have "mem_get 1 b = Some ?x" using lb b1 by (simp add: mem_get_def)
    moreover have "cx_sub (uw_ctx ?w) = ?x AND 0x7F" "us_session (uw_srv ?w) = ?s"
      by (simp_all add: uds_sub_taken_def NX_UDS_SUB_FUNCTION_def)
    ultimately show ?thesis
      by (simp only: uds_accept_def if_P[OF False] b(1) bind.bind_lunit Let_def uds_sub_taken_def[symmetric])
  qed
  have sr: "NX_UDS_SESSION_IN_RANGE ?s" using uds_goodD(3)[OF g] by (simp add: uds_session_inv_def)
  let ?v = "uds_late_verdict r ?s req"
  have v: "?v = (case uds_sub_verdict r ?s (?x AND 0x7F) of None \<Rightarrow> Inl r | Some nrc \<Rightarrow> Inr nrc)"
    using False by (simp add: uds_late_verdict_def)
  show thesis
  proof (cases "sv_subs r \<noteq> None \<and> sv_subs_count r \<noteq> 0")
    case False
    then have "uds_sub_verdict r ?s (?x AND 0x7F) = None" by (auto simp: uds_sub_verdict_def split: option.splits)
    then have "uds_accept call w r = Some w'" "uds_judged call J (uc_max_resp_apdu (uw_cfg w)) ?v ?s (us_sec_level (uw_srv w)) req ta_type w'"
      using d by (simp_all only: acc if_not_P[OF False] v option.case uds_judged_def sum.case)
    then show thesis using that d(2) by blast
  next
    case True
    then obtain subs where subs: "sv_subs r = Some subs" "sv_subs_count r \<noteq> 0" by auto
    obtain i where i: "uds_find_sub r (?x AND 0x7F) = Some i"
      "find (\<lambda>j. subs ! j = ?x AND 0x7F) [0..<unat (sv_subs_count r)] = (if i < sv_subs_count r then Some (unat i) else None)"
      by (rule find_sub_verdict[OF wf subs(1)])
    show thesis
    proof (cases "i < sv_subs_count r")
      case no: False
      then have "uds_sub_verdict r ?s (?x AND 0x7F) = Some NX_UDS_NRC_SUB_FUNCTION_NOT_SUPPORTED"
        using subs i(2) by (simp add: uds_sub_verdict_def)
      then show thesis using that rf[of NX_UDS_NRC_SUB_FUNCTION_NOT_SUPPORTED] acc True i(1) no v
        by (auto simp: uds_judged_def not_less)
    next
      case yes: True
      let ?m = "case sv_sub_session_masks r of None \<Rightarrow> sv_session_mask r | Some masks \<Rightarrow> masks ! unat i"
      have "unat i < unat (sv_subs_count r)" using yes by (simp add: word_less_nat_alt)
      then have m: "uds_sub_session_mask r i = Some ?m"
        using wf by (auto simp: uds_sub_session_mask_def uds_row_wf_def mem_get_def split: option.splits)
      have sv: "uds_sub_verdict r ?s (?x AND 0x7F) =
          (if bit ?m (unat ?s) then None else Some NX_UDS_NRC_SUB_FUNCTION_NOT_SUPPORTED_IN_ACTIVE_SESSION)"
        using subs i(2) yes by (simp add: uds_sub_verdict_def)
      have q: "?m AND NX_UDS_SESSION_BIT ?s = 0 \<longleftrightarrow> \<not> bit ?m (unat ?s)" using session_bit[OF sr] by blast
      have a2: "uds_accept call w r = (if bit ?m (unat ?s) then uds_dispatch call ?w
          else uds_txn_refuse call ?w NX_UDS_NRC_SUB_FUNCTION_NOT_SUPPORTED_IN_ACTIVE_SESSION)"
      proof -
        have ny: "\<not> i \<ge> sv_subs_count r" using yes by (simp add: not_le)
        show ?thesis by (simp only: acc if_P[OF True] i(1) if_not_P[OF ny] m q bind.bind_lunit) simp
      qed
      show thesis
      proof (cases "bit ?m (unat ?s)")
        case True
        then show thesis using that[of w'] d a2 sv v by (simp add: uds_judged_def)
      next
        case False
        then show thesis using that rf[of NX_UDS_NRC_SUB_FUNCTION_NOT_SUPPORTED_IN_ACTIVE_SESSION] a2 sv v
          by (auto simp: uds_judged_def)
      qed
    qed
  qed
qed


lemma judge_request_judges:
  assumes g: "uds_good R J w" and b: "uc_req_buf (uw_cfg w) = Some b" "take (length req) b = req" and n: "req \<noteq> []"
    and l: "unat len = length req" "len \<le> uc_req_buf_size (uw_cfg w)"
    and fit: "\<not> (uc_max_req_apdu (uw_cfg w) \<noteq> 0 \<and> length req > unat (uc_max_req_apdu (uw_cfg w)))"
  obtains w' where "uds_judge_request call w (hd req) len ta_type link = Some w'" "uds_good R J w'"
    "uds_judged call J (uc_max_resp_apdu (uw_cfg w)) (uds_verdict (uw_cfg w) (us_session (uw_srv w)) (us_sec_level (uw_srv w)) req)
       (us_session (uw_srv w)) (us_sec_level (uw_srv w)) req ta_type w'"
proof -
  note fin = that
  let ?c = "uw_cfg w" and ?s = "us_session (uw_srv w)" and ?l = "us_sec_level (uw_srv w)"
  have b0: "b ! 0 = hd req" using b(2) n by (metis hd_conv_nth length_greater_0_conv nth_take)
  have l1: "1 \<le> len" using l(1) n by (cases req) (simp_all add: word_le_nat_alt)
  have fits: "\<not> (length req > unat (uc_req_buf_size ?c) \<or> (uc_max_req_apdu ?c \<noteq> 0 \<and> length req > unat (uc_max_req_apdu ?c)))"
    using l fit by (auto simp: word_le_nat_alt)
  have sr: "NX_UDS_SESSION_IN_RANGE ?s" using uds_goodD(3)[OF g] by (simp add: uds_session_inv_def)
  have rf: "\<exists>w'. uds_refuse_before_dispatch w row len ta_type link nrc = Some w' \<and> uds_good R J w' \<and> uds_refused ta_type (hd req) nrc w'"
    if "row \<le> uc_services_count ?c" for row nrc
    by (rule refuse_before_dispatch_good[OF g b(1) b0 l1 l(2) that, of ta_type link nrc]) (auto simp: uds_refused_def)
  obtain i where i: "uds_find_row ?c (hd req) = Some i"
    "find (\<lambda>r. sv_sid r = hd req) (take (unat (uc_services_count ?c)) (uds_rows ?c)) =
       (if i < uc_services_count ?c then Some (uds_rows ?c ! unat i) else None)"
    by (rule find_row_verdict[OF uds_goodD(2)[OF g]])
  show thesis
  proof (cases "i < uc_services_count ?c")
    case False
    then have v: "uds_verdict ?c ?s ?l req = Inr NX_UDS_NRC_SERVICE_NOT_SUPPORTED" using i(2) fits by (simp add: uds_verdict_def)
    then show thesis using that rf[OF order_refl, of NX_UDS_NRC_SERVICE_NOT_SUPPORTED] i(1) False
      by (auto simp: uds_judge_request_def uds_judged_def not_less)
  next
    case True
    let ?r = "uds_rows ?c ! unat i"
    note wf = uds_row_at[OF uds_goodD(2)[OF g] True]
    have le: "i \<le> uc_services_count ?c" using True by simp
    have j: "uds_judge_request call w (hd req) len ta_type link =
       (if \<not> bit (sv_session_mask ?r) (unat ?s) then
         uds_refuse_before_dispatch w i len ta_type link NX_UDS_NRC_SERVICE_NOT_SUPPORTED_IN_ACTIVE_SESSION
       else if ?l < sv_sec_level ?r then
         uds_refuse_before_dispatch w i len ta_type link NX_UDS_NRC_SECURITY_ACCESS_DENIED
       else if length req < unat (sv_min_len ?r) \<or> (sv_max_len ?r \<noteq> 0 \<and> unat (sv_max_len ?r) < length req) then
         uds_refuse_before_dispatch w i len ta_type link NX_UDS_NRC_INCORRECT_LENGTH_OR_FORMAT
       else do { w1 \<leftarrow> uds_txn_begin w i len ta_type link; uds_accept call w1 ?r })"
    proof -
      have q1: "uds_row_in_session ?r ?s \<longleftrightarrow> bit (sv_session_mask ?r) (unat ?s)"
        using session_bit[OF sr] by (simp add: uds_row_in_session_def)
      have q2: "sv_sec_level ?r \<noteq> 0 \<and> ?l < sv_sec_level ?r \<longleftrightarrow> ?l < sv_sec_level ?r" by auto
      have q3: "len < ucast (sv_min_len ?r) \<longleftrightarrow> length req < unat (sv_min_len ?r)"
        and q4: "len > ucast (sv_max_len ?r) \<longleftrightarrow> unat (sv_max_len ?r) < length req"
        by (simp_all add: word_less_nat_alt unat_ucast_wider l(1))
      have "\<not> i \<ge> uc_services_count ?c" using True by simp
      then show ?thesis using i(1) wf(1)
        by (simp add: uds_judge_request_def q1 q2 q3 q4 mem_get_def)
    qed
    have v: "uds_verdict ?c ?s ?l req =
       (if \<not> bit (sv_session_mask ?r) (unat ?s) then Inr NX_UDS_NRC_SERVICE_NOT_SUPPORTED_IN_ACTIVE_SESSION
        else if ?l < sv_sec_level ?r then Inr NX_UDS_NRC_SECURITY_ACCESS_DENIED
        else if length req < unat (sv_min_len ?r) \<or> (sv_max_len ?r \<noteq> 0 \<and> unat (sv_max_len ?r) < length req)
        then Inr NX_UDS_NRC_INCORRECT_LENGTH_OR_FORMAT else uds_late_verdict ?r ?s req)"
      by (simp only: uds_verdict_def uds_late_verdict_def i(2) if_not_P[OF fits] if_P[OF True] option.case)
    have done_with: thesis
      if "uds_judge_request call w (hd req) len ta_type link = uds_refuse_before_dispatch w i len ta_type link nrc"
        "uds_verdict ?c ?s ?l req = Inr nrc" for nrc
      using rf[OF le, of nrc] that fin by (auto simp: uds_judged_def)
    consider "\<not> bit (sv_session_mask ?r) (unat ?s)" | "bit (sv_session_mask ?r) (unat ?s)" "?l < sv_sec_level ?r"
      | "bit (sv_session_mask ?r) (unat ?s)" "\<not> ?l < sv_sec_level ?r"
        "length req < unat (sv_min_len ?r) \<or> (sv_max_len ?r \<noteq> 0 \<and> unat (sv_max_len ?r) < length req)"
      | "bit (sv_session_mask ?r) (unat ?s)" "\<not> ?l < sv_sec_level ?r"
        "\<not> (length req < unat (sv_min_len ?r) \<or> (sv_max_len ?r \<noteq> 0 \<and> unat (sv_max_len ?r) < length req))" by blast
    then show thesis
    proof cases
      case 1
      then show thesis by (intro done_with) (simp_all only: j v if_True not_False_eq_True)
    next
      case 2
      then show thesis by (intro done_with) (simp_all only: j v if_True if_False not_True_eq_False simp_thms)
    next
      case 3
      then show thesis by (intro done_with) (simp_all only: j v if_True if_False not_True_eq_False simp_thms)
    next
      case 4
      obtain t e where bg: "uds_txn_begin w i len ta_type link = Some (uds_begun w e t i len ta_type link (hd req))" and Je: "J e"
        by (rule txn_begin_eq[OF g b(1) b0])
      let ?w = "uds_begun w e t i len ta_type link (hd req)"
      have "ucast (sv_min_len ?r) \<le> len" using 4(3) l(1) by (simp add: word_le_nat_alt unat_ucast_wider)
      then have gw: "uds_good R J ?w" by (rule begun_good[OF g Je l1 l(2) True])
      have rw: "uds_row_of ?w = Some ?r" using True by (simp add: uds_row_of_def)
      obtain w' where a: "uds_accept call ?w ?r = Some w'" "uds_good R J w'"
        "uds_judged call J (uc_max_resp_apdu (uw_cfg ?w)) (uds_late_verdict ?r (us_session (uw_srv ?w)) req) (us_session (uw_srv ?w)) (us_sec_level (uw_srv ?w)) req ta_type w'"
        by (rule accept_judges[OF gw _ rw, of b req ta_type]) (use b 4 l(1) in simp_all)
      have v4: "uds_verdict ?c ?s ?l req = uds_late_verdict ?r ?s req"
        using 4 by (simp only: v if_True if_False not_True_eq_False simp_thms)
      have "uds_judge_request call w (hd req) len ta_type link = Some w'"
        using 4 bg a(1) by (simp only: j if_True if_False not_True_eq_False simp_thms bind.bind_lunit)
      then show thesis using that a(2,3) v4 by simp
    qed
  qed
qed

end

text \<open>When a request is looked at at all.\<close>

definition uds_listens :: "'e uds_world \<Rightarrow> u8 \<Rightarrow> bytes \<Rightarrow> bool" where
  "uds_listens w link req \<longleftrightarrow>
     link = uc_link (uw_cfg w) \<and> ut_state (uw_txn w) = TXN_IDLE \<and>
     (uc_accept_rsp_range_sid (uw_cfg w) \<or> \<not> (hd req \<ge> 0x40 \<and> hd req \<le> 0x7F \<or> hd req \<ge> 0xC0))"

context uds_handlers
begin

lemma put_req_good:
  assumes g: "uds_good R J w" and n: "length x \<le> unat (uc_req_buf_size (uw_cfg w))"
  obtains b w' where "put_req x w = Some w'" "uds_good R J w'" "uc_req_buf (uw_cfg w') = Some b" "take (length x) b = x"
    "uw_cfg w' = (uw_cfg w)\<lparr> uc_req_buf := Some b \<rparr>" "uw_txn w' = uw_txn w" "us_session (uw_srv w') = us_session (uw_srv w)"
    "us_sec_level (uw_srv w') = us_sec_level (uw_srv w)"
proof -
  obtain rb where rb: "uc_req_buf (uw_cfg w) = Some rb" "length rb = unat (uc_req_buf_size (uw_cfg w))"
    using uds_goodD(2)[OF g] by (elim uds_cfg_invE)
  let ?b = "x @ drop (length x) rb"
  have m: "mem_write 0 x rb = Some ?b" using n rb(2) by (simp add: mem_write_def)
  let ?w = "upd_srv (\<lambda>s. s\<lparr> us_cfg := (us_cfg s)\<lparr> uc_req_buf := Some ?b \<rparr> \<rparr>) w"
  have "map_option length (Some ?b) = map_option length (uc_req_buf (uw_cfg w))" using rb n by simp
  then have "uds_good R J ?w" using g by (simp add: uds_good_def uds_inv_def uds_cfg_inv_req_buf)
  then show thesis using that[of ?w ?b] rb(1) m by (simp add: put_req_def)
qed

lemma uds_verdict_req_buf [simp]: "uds_verdict (c\<lparr> uc_req_buf := b \<rparr>) s l req = uds_verdict c s l req"
  by (simp add: uds_verdict_def)

lemma indicate_judges:
  assumes g: "uds_good R J w" and n: "req \<noteq> []" and l: "unat len = length req" and q: "uds_listens w link req"
  obtains w' where "uds_indicate call w req len ta_type link = Some (NX_UDS_SERVER_OK, w')" "uds_good R J w'"
    "uds_judged call J (uc_max_resp_apdu (uw_cfg w)) (uds_verdict (uw_cfg w) (us_session (uw_srv w)) (us_sec_level (uw_srv w)) req)
       (us_session (uw_srv w)) (us_sec_level (uw_srv w)) req ta_type w'"
proof -
  let ?c = "uw_cfg w"
  have h: "mem_get 0 req = Some (hd req)" using n by (simp add: mem_get_def hd_conv_nth)
  have long: "len > uc_req_buf_size ?c \<or> (uc_max_req_apdu ?c \<noteq> 0 \<and> len > uc_max_req_apdu ?c) \<longleftrightarrow>
      length req > unat (uc_req_buf_size ?c) \<or> (uc_max_req_apdu ?c \<noteq> 0 \<and> length req > unat (uc_max_req_apdu ?c))"
    by (simp add: word_less_nat_alt l)
  have start: "uds_indicate call w req len ta_type link =
      (if length req > unat (uc_req_buf_size ?c) \<or> (uc_max_req_apdu ?c \<noteq> 0 \<and> length req > unat (uc_max_req_apdu ?c)) then do {
          w1 \<leftarrow> put_req [hd req] w;
          w2 \<leftarrow> uds_refuse_before_dispatch w1 (uc_services_count (uw_cfg w1)) 1 ta_type link NX_UDS_NRC_INCORRECT_LENGTH_OR_FORMAT;
          Some (NX_UDS_SERVER_OK, w2) }
        else do {
          x \<leftarrow> mem_read 0 (unat len) req;
          w1 \<leftarrow> put_req x w;
          w2 \<leftarrow> uds_arm_s3 w1;
          w3 \<leftarrow> uds_judge_request call w2 (hd req) len ta_type link;
          Some (NX_UDS_SERVER_OK, w3) })"
  proof -
    have "\<not> link \<noteq> uc_link ?c" "\<not> ut_state (uw_txn w) \<noteq> TXN_IDLE"
      "\<not> (\<not> uc_accept_rsp_range_sid ?c \<and> uds_is_response_sid (hd req))"
      using q by (auto simp: uds_listens_def uds_is_response_sid_def)
    then show ?thesis by (simp only: uds_indicate_def h long if_False bind.bind_lunit)
  qed
  have s1: "1 \<le> uc_req_buf_size ?c" using uds_goodD(2)[OF g] by (simp add: uds_cfg_inv_def)
  show thesis
  proof (cases "length req > unat (uc_req_buf_size ?c) \<or> (uc_max_req_apdu ?c \<noteq> 0 \<and> length req > unat (uc_max_req_apdu ?c))")
    case True
    have "length [hd req] \<le> unat (uc_req_buf_size ?c)" using s1 by (simp add: word_le_nat_alt)
    then obtain b w1 where p: "put_req [hd req] w = Some w1" "uds_good R J w1" "uc_req_buf (uw_cfg w1) = Some b"
      "take (length [hd req]) b = [hd req]" "uw_cfg w1 = ?c\<lparr> uc_req_buf := Some b \<rparr>"
      by (rule put_req_good[OF g])
    have b0: "b ! 0 = hd req" using p(4) by (cases b) simp_all
    have s1': "(1 :: u32) \<le> uc_req_buf_size (uw_cfg w1)" using s1 p(5) by simp
    obtain w2 where r: "uds_refuse_before_dispatch w1 (uc_services_count (uw_cfg w1)) 1 ta_type link NX_UDS_NRC_INCORRECT_LENGTH_OR_FORMAT = Some w2"
      "uds_good R J w2"
      "if uds_quiet ta_type NX_UDS_NRC_INCORRECT_LENGTH_OR_FORMAT then ut_state (uw_txn w2) = TXN_IDLE
       else uds_answer w2 = Some [NX_UDS_NEG_RSP_SID, hd req, NX_UDS_NRC_INCORRECT_LENGTH_OR_FORMAT]"
      by (rule refuse_before_dispatch_good[OF p(2,3) b0 order_refl s1' order_refl])
    have v: "uds_verdict ?c (us_session (uw_srv w)) (us_sec_level (uw_srv w)) req = Inr NX_UDS_NRC_INCORRECT_LENGTH_OR_FORMAT"
      using True by (simp only: uds_verdict_def if_True)
    have e: "uds_indicate call w req len ta_type link = Some (NX_UDS_SERVER_OK, w2)"
      using True p(1) r(1) by (simp only: start if_True bind.bind_lunit)
    show thesis by (rule that[OF e r(2)]) (use r(3) in \<open>simp add: v uds_judged_def uds_refused_def\<close>)
  next
    case False
    have lr: "length req \<le> unat (uc_req_buf_size ?c)" using False by auto
    have mr: "mem_read 0 (unat len) req = Some req" using l by (simp add: mem_read_def)
    obtain b w1 where p: "put_req req w = Some w1" "uds_good R J w1" "uc_req_buf (uw_cfg w1) = Some b" "take (length req) b = req"
      "uw_cfg w1 = ?c\<lparr> uc_req_buf := Some b \<rparr>" "us_session (uw_srv w1) = us_session (uw_srv w)"
      "us_sec_level (uw_srv w1) = us_sec_level (uw_srv w)"
      using put_req_good[OF g lr] by metis
    obtain w2 where a: "uds_arm_s3 w1 = Some w2" "uds_good R J w2" "uw_cfg w2 = uw_cfg w1"
      "us_session (uw_srv w2) = us_session (uw_srv w1)" "us_sec_level (uw_srv w2) = us_sec_level (uw_srv w1)"
      using arm_s3_good[OF p(2)] by blast
    have bl: "len \<le> uc_req_buf_size (uw_cfg w2)" using lr l a(3) p(5) by (simp add: word_le_nat_alt)
    obtain w3 where j: "uds_judge_request call w2 (hd req) len ta_type link = Some w3" "uds_good R J w3"
      "uds_judged call J (uc_max_resp_apdu (uw_cfg w)) (uds_verdict (uw_cfg w2) (us_session (uw_srv w2)) (us_sec_level (uw_srv w2)) req)
         (us_session (uw_srv w2)) (us_sec_level (uw_srv w2)) req ta_type w3"
      by (rule judge_request_judges[OF a(2) _ p(4) n l bl]) (use a(3) p(3,5) False in auto)
    have e: "uds_indicate call w req len ta_type link = Some (NX_UDS_SERVER_OK, w3)"
      using False mr p(1) a(1) j(1) by (simp only: start if_False bind.bind_lunit)
    show thesis by (rule that[OF e j(2)]) (use j(3) a p in simp)
  qed
qed

end

end
