(* ===== verification/Nx_Uds_Standard.thy ===== *)
theory Nx_Uds_Standard
  imports Nx_Uds_Transfer Nx_Uds_Indicate
begin

text \<open>
  The services of the repository keep the contract of the handlers: whatever the product's own handlers do within that contract, a table
  that names the standard services beside them is served.
\<close>

section \<open>The environment the services need\<close>

definition sec_level_ok :: "u32 \<Rightarrow> nx_uds_svc_sec_level \<Rightarrow> bool" where
  "sec_level_ok room lv \<longleftrightarrow> lv_level lv \<noteq> 0 \<and> lv_level lv \<le> NX_UDS_SVC_SEC_MAX_LEVEL \<and> lv_seed_len lv \<noteq> 0 \<and> lv_key_len lv \<noteq> 0 \<and>
     lv_seed_len lv \<le> room"

text \<open>
  An exchange as \<open>nx_uds_svc_sec_init\<close> accepts it, with the seed store its configuration describes; it is not so large that two more bytes
  do not fit the address space. The seed callback writes no more than the room it is given.
\<close>

definition sec_seed_fits :: "'x nx_uds_svc_sec_cfg \<Rightarrow> bool" where
  "sec_seed_fits c \<longleftrightarrow>
     (case xc_seed_fn c of
        None \<Rightarrow> False
      | Some f \<Rightarrow> \<forall>level rec x. length (fst (snd (fst (f (xc_user c) level rec (xc_seed_buf_size c) x)))) \<le> unat (xc_seed_buf_size c))"

definition sec_cfg_ok :: "'x nx_uds_svc_sec_cfg \<Rightarrow> bool" where
  "sec_cfg_ok c \<longleftrightarrow> xc_srv c \<and> xc_verify_fn c \<noteq> None \<and> uds_buffer (xc_seed_buf c) (xc_seed_buf_size c) \<and>
     xc_seed_buf_size c \<le> 0xFFFFFFFD \<and> unat (xc_levels_count c) \<le> length (sec_levels c) \<and>
     list_all (sec_level_ok (xc_seed_buf_size c)) (take (unat (xc_levels_count c)) (sec_levels c)) \<and> sec_seed_fits c"

definition sec_ok :: "'x nx_uds_svc_sec \<Rightarrow> bool" where
  "sec_ok s \<longleftrightarrow> sec_cfg_ok (xs_cfg s) \<and> xs_seed_len s \<le> xc_seed_buf_size (xs_cfg s)"

text \<open>
  A transfer: the callbacks write no more than the room they are given, the one its direction needs is there, the bytes moved are within the
  region and the last block fits the announced length.
\<close>

definition xfer_cfg_ok :: "'x nx_uds_svc_transfer_cfg \<Rightarrow> bool" where
  "xfer_cfg_ok c \<longleftrightarrow> tc_srv c \<and>
     (case tc_read_fn c of
        None \<Rightarrow> True
      | Some f \<Rightarrow> \<forall>addr len nrc x. length (fst (snd (fst (f (tc_user c) addr len nrc x)))) \<le> unat len) \<and>
     (case tc_close_fn c of
        None \<Rightarrow> True
      | Some f \<Rightarrow> \<forall>dir moved region record cap nrc x. length (fst (snd (fst (f (tc_user c) dir moved region record cap nrc x)))) \<le> unat cap)"

definition xfer_run_ok :: "'x nx_uds_svc_transfer_cfg \<Rightarrow> nx_uds_svc_transfer_run \<Rightarrow> bool" where
  "xfer_run_ok c r \<longleftrightarrow>
     (xr_dir r = NX_UDS_SVC_TRANSFER_DOWNLOAD \<longrightarrow> tc_write_fn c \<noteq> None) \<and> (xr_dir r = NX_UDS_SVC_TRANSFER_UPLOAD \<longrightarrow> tc_read_fn c \<noteq> None) \<and>
     xr_done r \<le> xr_size r \<and> xr_last_len r \<le> nx_uds_svc_transfer_payload_room (xr_block_len r)"

definition xfer_ok :: "'x nx_uds_svc_transfer \<Rightarrow> bool" where
  "xfer_ok t \<longleftrightarrow> xfer_cfg_ok (xf_cfg t) \<and> xfer_run_ok (xf_cfg t) (xf_run t)"

text \<open>The objects stay where they were in \<open>e0\<close>.\<close>

definition svc_env_ok :: "'x uds_diag \<Rightarrow> 'x uds_diag \<Rightarrow> bool" where
  "svc_env_ok e0 e \<longleftrightarrow> dg_sessions e = dg_sessions e0 \<and> dg_resets e = dg_resets e0 \<and> dom (dg_secs e) = dom (dg_secs e0) \<and>
     (\<forall>u \<in> dom (dg_secs e). sec_ok (the (dg_secs e u))) \<and> dom (dg_xfers e) = dom (dg_xfers e0) \<and>
     (\<forall>u \<in> dom (dg_xfers e). xfer_ok (the (dg_xfers e u)))"

text \<open>The rows name their objects, and those of the transfer ask for the lengths that the header says they have to.\<close>

definition svc_row_ok :: "'x uds_diag \<Rightarrow> nx_uds_service \<Rightarrow> bool" where
  "svc_row_ok e0 r \<longleftrightarrow>
     (sv_handler r = AT_SESSION_CONTROL \<longrightarrow> sv_user r = 0 \<or> dg_sessions e0 (sv_user r) \<noteq> None) \<and>
     (sv_handler r = AT_ECU_RESET \<longrightarrow> sv_user r = 0 \<or> dg_resets e0 (sv_user r) \<noteq> None) \<and>
     (sv_handler r = AT_SECURITY_ACCESS \<longrightarrow> sv_user r = 0 \<or> dg_secs e0 (sv_user r) \<noteq> None) \<and>
     (sv_handler r \<in> {AT_REQUEST_DOWNLOAD, AT_REQUEST_UPLOAD, AT_TRANSFER_DATA, AT_TRANSFER_EXIT} \<longrightarrow>
        sv_user r = 0 \<or> dg_xfers e0 (sv_user r) \<noteq> None) \<and>
     (sv_handler r \<in> {AT_REQUEST_DOWNLOAD, AT_REQUEST_UPLOAD} \<longrightarrow> 5 \<le> sv_min_len r) \<and>
     (sv_handler r = AT_TRANSFER_DATA \<longrightarrow> 2 \<le> sv_min_len r)"

section \<open>Steps inside a handler\<close>

definition svc_fit :: "('e \<Rightarrow> bool) \<Rightarrow> 'e uds_world \<Rightarrow> bool" where
  "svc_fit J w \<longleftrightarrow> uds_cfg_inv (uw_cfg w) \<and> uds_session_inv (uw_srv w) \<and> J (uw_env w) \<and> uds_keeps J (uw_cfg w)"

lemma uds_cfg_same_refl [simp]: "uds_cfg_same c c"
proof -
  have "c = c\<lparr> uc_out_buf := uc_out_buf c \<rparr>" by (rule sym) simp
  then show ?thesis unfolding uds_cfg_same_def by blast
qed

text \<open>A frame from its parts.\<close>

lemma uds_frameI:
  assumes "uds_cfg_same (uw_cfg w) (uw_cfg w')"
    and "uw_txn w' = (uw_txn w)\<lparr> ut_ctx := (uw_ctx w)\<lparr> cx_out_len := n, cx_nrc := r, cx_state := k \<rparr> \<rparr>"
    and "\<not> uds_answer_phase (cx_phase (uw_ctx w)) \<Longrightarrow> n = cx_out_len (uw_ctx w) \<and> uc_out_buf (uw_cfg w') = uc_out_buf (uw_cfg w)"
    and "uds_session_inv (uw_srv w')"
  shows "uds_frame w w'"
proof -
  have "\<exists>n r k. uw_txn w' = (uw_txn w)\<lparr> ut_ctx := (uw_ctx w)\<lparr> cx_out_len := n, cx_nrc := r, cx_state := k \<rparr> \<rparr>"
    by (intro exI) (rule assms(2))
  moreover have "cx_out_len (uw_ctx w') = n" unfolding assms(2) by simp
  ultimately show ?thesis unfolding uds_frame_def using assms(1,3,4) by blast
qed

lemma uds_frame_refl: "uds_session_inv (uw_srv w) \<Longrightarrow> uds_frame w w"
  by (rule uds_frameI[where n = "cx_out_len (uw_ctx w)" and r = "cx_nrc (uw_ctx w)" and k = "cx_state (uw_ctx w)"]) simp_all

lemma uds_frameE:
  assumes "uds_frame w w'"
  obtains b n r k where "uw_cfg w' = (uw_cfg w)\<lparr> uc_out_buf := b \<rparr>" "map_option length b = map_option length (uc_out_buf (uw_cfg w))"
    "uw_txn w' = (uw_txn w)\<lparr> ut_ctx := (uw_ctx w)\<lparr> cx_out_len := n, cx_nrc := r, cx_state := k \<rparr> \<rparr>"
    "\<not> uds_answer_phase (cx_phase (uw_ctx w)) \<longrightarrow> cx_out_len (uw_ctx w') = cx_out_len (uw_ctx w) \<and> uc_out_buf (uw_cfg w') = uc_out_buf (uw_cfg w)"
    "uds_session_inv (uw_srv w')"
  using assms unfolding uds_frame_def uds_cfg_same_def by blast

lemma uds_frame_trans:
  assumes "uds_frame w w1" "uds_frame w1 w2"
  shows "uds_frame w w2"
proof -
  obtain b1 n1 r1 k1 where f1: "uw_cfg w1 = (uw_cfg w)\<lparr> uc_out_buf := b1 \<rparr>" "map_option length b1 = map_option length (uc_out_buf (uw_cfg w))"
    "uw_txn w1 = (uw_txn w)\<lparr> ut_ctx := (uw_ctx w)\<lparr> cx_out_len := n1, cx_nrc := r1, cx_state := k1 \<rparr> \<rparr>"
    "\<not> uds_answer_phase (cx_phase (uw_ctx w)) \<longrightarrow> cx_out_len (uw_ctx w1) = cx_out_len (uw_ctx w) \<and> uc_out_buf (uw_cfg w1) = uc_out_buf (uw_cfg w)"
    by (rule uds_frameE[OF assms(1)])
  obtain b2 n2 r2 k2 where f2: "uw_cfg w2 = (uw_cfg w1)\<lparr> uc_out_buf := b2 \<rparr>" "map_option length b2 = map_option length (uc_out_buf (uw_cfg w1))"
    "uw_txn w2 = (uw_txn w1)\<lparr> ut_ctx := (uw_ctx w1)\<lparr> cx_out_len := n2, cx_nrc := r2, cx_state := k2 \<rparr> \<rparr>"
    "\<not> uds_answer_phase (cx_phase (uw_ctx w1)) \<longrightarrow> cx_out_len (uw_ctx w2) = cx_out_len (uw_ctx w1) \<and> uc_out_buf (uw_cfg w2) = uc_out_buf (uw_cfg w1)"
    "uds_session_inv (uw_srv w2)"
    by (rule uds_frameE[OF assms(2)])
  have "uw_cfg w2 = (uw_cfg w)\<lparr> uc_out_buf := b2 \<rparr>" "map_option length b2 = map_option length (uc_out_buf (uw_cfg w))" using f1(1,2) f2(1,2) by simp_all
  then have c: "uds_cfg_same (uw_cfg w) (uw_cfg w2)" unfolding uds_cfg_same_def by blast
  have t: "uw_txn w2 = (uw_txn w)\<lparr> ut_ctx := (uw_ctx w)\<lparr> cx_out_len := n2, cx_nrc := r2, cx_state := k2 \<rparr> \<rparr>"
    unfolding f2(3) f1(3) by simp
  have p: "cx_phase (uw_ctx w1) = cx_phase (uw_ctx w)" unfolding f1(3) by simp
  have n: "cx_out_len (uw_ctx w2) = n2" unfolding f2(3) by simp
  show ?thesis
  proof (rule uds_frameI[OF c t _ f2(5)])
    assume a: "\<not> uds_answer_phase (cx_phase (uw_ctx w))"
    then have "\<not> uds_answer_phase (cx_phase (uw_ctx w1))" unfolding p .
    with f1(4) f2(4) a n show "n2 = cx_out_len (uw_ctx w) \<and> uc_out_buf (uw_cfg w2) = uc_out_buf (uw_cfg w)" by metis
  qed
qed

lemma svc_fit_frame:
  assumes "svc_fit J w" "uds_frame w w'" "J (uw_env w')"
  shows "svc_fit J w'"
proof -
  obtain b where "uw_cfg w' = (uw_cfg w)\<lparr> uc_out_buf := b \<rparr>" "map_option length b = map_option length (uc_out_buf (uw_cfg w))"
    "uds_session_inv (uw_srv w')"
    by (rule uds_frameE[OF assms(2)])
  then show ?thesis using assms(1,3) by (simp add: svc_fit_def uds_cfg_inv_out_buf)
qed

lemma svc_fit_good: "uds_good R J w \<Longrightarrow> svc_fit J w"
  by (simp add: svc_fit_def uds_good_def uds_inv_def)

text \<open>Steps that touch the environment, the reason and, in the answering phases, the answer.\<close>

lemma frame_env: "uds_session_inv (uw_srv w) \<Longrightarrow> uds_frame w (w\<lparr> uw_env := e \<rparr>)"
  by (rule uds_frameI[where n = "cx_out_len (uw_ctx w)" and r = "cx_nrc (uw_ctx w)" and k = "cx_state (uw_ctx w)"]) simp_all

lemma frame_nrc: "uds_session_inv (uw_srv w) \<Longrightarrow> uds_frame w (upd_ctx (\<lambda>c. c\<lparr> cx_nrc := r \<rparr>) w)"
  by (rule uds_frameI[where n = "cx_out_len (uw_ctx w)" and r = r and k = "cx_state (uw_ctx w)"]) simp_all

lemma frame_out_len:
  "uds_session_inv (uw_srv w) \<Longrightarrow> uds_answer_phase (cx_phase (uw_ctx w)) \<Longrightarrow> uds_frame w (upd_ctx (\<lambda>c. c\<lparr> cx_out_len := n \<rparr>) w)"
  by (rule uds_frameI[where n = n and r = "cx_nrc (uw_ctx w)" and k = "cx_state (uw_ctx w)"]) simp_all

text \<open>What a step leaves alone besides: everything the frame lets a handler write.\<close>

lemma put_out_frame:
  assumes f: "svc_fit J w" and p: "uds_answer_phase (cx_phase (uw_ctx w))" and n: "i + length x \<le> unat (uc_out_buf_size (uw_cfg w))"
  obtains b w1 where "uc_out_buf (uw_cfg w) = Some b" "put_out i x w = Some w1" "uds_frame w w1" "svc_fit J w1" "uw_env w1 = uw_env w" "uw_txn w1 = uw_txn w"
    "us_session (uw_srv w1) = us_session (uw_srv w)" "us_sec_level (uw_srv w1) = us_sec_level (uw_srv w)"
    "uw_cfg w1 = (uw_cfg w)\<lparr> uc_out_buf := Some (take i b @ x @ drop (i + length x) b) \<rparr>"
proof -
  obtain b where b: "uc_out_buf (uw_cfg w) = Some b" "length b = unat (uc_out_buf_size (uw_cfg w))"
    using f by (auto simp: svc_fit_def elim: uds_cfg_invE)
  let ?b = "take i b @ x @ drop (i + length x) b"
  let ?w = "upd_srv (\<lambda>s. s\<lparr> us_cfg := (us_cfg s)\<lparr> uc_out_buf := Some ?b \<rparr> \<rparr>) w"
  have e: "put_out i x w = Some ?w" using b n by (simp add: put_out_def mem_write_def)
  have "uds_cfg_same (uw_cfg w) (uw_cfg ?w)" unfolding uds_cfg_same_def by (rule exI[of _ "Some ?b"]) (use b n in simp)
  moreover have "uds_session_inv (uw_srv w)" using f by (simp add: svc_fit_def)
  ultimately have fr: "uds_frame w ?w"
    by (intro uds_frameI[where n = "cx_out_len (uw_ctx w)" and r = "cx_nrc (uw_ctx w)" and k = "cx_state (uw_ctx w)"]) (simp_all add: p)
  show thesis by (rule that[OF b(1) e fr svc_fit_frame[OF f fr]]) (use f in \<open>simp_all add: svc_fit_def\<close>)
qed

lemma uds_now_fit:
  assumes "svc_fit J w"
  obtains t e where "uds_now w = Some (t, w\<lparr> uw_env := e \<rparr>)" "J e" "uds_frame w (w\<lparr> uw_env := e \<rparr>)" "svc_fit J (w\<lparr> uw_env := e \<rparr>)"
proof -
  obtain g where g: "uc_get_us (uw_cfg w) = Some g" using assms by (auto simp: svc_fit_def elim: uds_cfg_invE)
  have J: "J (snd (g (uw_env w)))" using assms g by (auto simp: svc_fit_def uds_keeps_def)
  have n: "uds_now w = Some (fst (g (uw_env w)), w\<lparr> uw_env := snd (g (uw_env w)) \<rparr>)" by (simp add: uds_now_def g case_prod_beta)
  have f: "uds_frame w (w\<lparr> uw_env := snd (g (uw_env w)) \<rparr>)" using assms by (intro frame_env) (simp add: svc_fit_def)
  have s: "svc_fit J (w\<lparr> uw_env := snd (g (uw_env w)) \<rparr>)" using assms J by (simp add: svc_fit_def)
  show thesis by (rule that[OF n J f s])
qed

text \<open>The contract of one call.\<close>

definition svc_keeps :: "('e \<Rightarrow> bool) \<Rightarrow> 'e uds_world \<Rightarrow> (nx_uds_disposition \<times> 'e uds_world) option \<Rightarrow> bool" where
  "svc_keeps J w r \<longleftrightarrow> (case r of None \<Rightarrow> False | Some (d, w') \<Rightarrow> uds_frame w w' \<and> J (uw_env w'))"

lemma svc_keeps_same: "svc_fit J w \<Longrightarrow> svc_keeps J w (Some (d, w))"
  by (simp add: svc_keeps_def svc_fit_def uds_frame_refl)

lemma svc_keeps_refuse: "svc_fit J w \<Longrightarrow> svc_keeps J w (svc_refuse nrc w)"
  by (simp add: svc_keeps_def svc_fit_def svc_refuse_def frame_nrc)

lemma svc_keeps_done: "svc_fit J w \<Longrightarrow> uds_answer_phase (cx_phase (uw_ctx w)) \<Longrightarrow> svc_keeps J w (svc_done n w)"
  by (simp add: svc_keeps_def svc_fit_def svc_done_def frame_out_len)

lemma svc_keeps_after: "uds_frame w w1 \<Longrightarrow> svc_keeps J w1 r \<Longrightarrow> svc_keeps J w r"
  by (auto simp: svc_keeps_def intro: uds_frame_trans split: option.splits)

lemma svc_keeps_put:
  assumes f: "svc_fit J w" and p: "uds_answer_phase (cx_phase (uw_ctx w))" and n: "i + length x \<le> unat (uc_out_buf_size (uw_cfg w))"
    and k: "\<And>w1. uds_frame w w1 \<Longrightarrow> svc_fit J w1 \<Longrightarrow> uw_env w1 = uw_env w \<Longrightarrow> uw_txn w1 = uw_txn w \<Longrightarrow>
      uc_out_buf_size (uw_cfg w1) = uc_out_buf_size (uw_cfg w) \<Longrightarrow> svc_keeps J w1 (g w1)"
  shows "svc_keeps J w (do { w1 \<leftarrow> put_out i x w; g w1 })"
proof -
  obtain b w1 where e: "put_out i x w = Some w1" "uds_frame w w1" "svc_fit J w1" "uw_env w1 = uw_env w" "uw_txn w1 = uw_txn w"
    "uw_cfg w1 = (uw_cfg w)\<lparr> uc_out_buf := Some (take i b @ x @ drop (i + length x) b) \<rparr>"
    by (rule put_out_frame[OF f p n])
  have "svc_keeps J w1 (g w1)" by (rule k[OF e(2-5)]) (simp add: e(6))
  then show ?thesis using e(1,2) by (simp add: svc_keeps_after)
qed

section \<open>The session services\<close>

lemma out_buf_3: "svc_fit J w \<Longrightarrow> 3 \<le> unat (uc_out_buf_size (uw_cfg w))"
  by (simp add: svc_fit_def uds_cfg_inv_def word_le_nat_alt)

lemma tester_present_keeps:
  assumes f: "svc_fit J w"
  shows "svc_keeps J w (nx_uds_svc_session_tester_present u w)"
proof (cases "cx_phase (uw_ctx w) = NX_UDS_PHASE_REQUEST")
  case False
  then show ?thesis using svc_keeps_same[OF f] by (simp add: nx_uds_svc_session_tester_present_def)
next
  case True
  then have p: "uds_answer_phase (cx_phase (uw_ctx w))" by (simp add: uds_answer_phase_def)
  have "svc_keeps J w (do { w1 \<leftarrow> put_out 1 [cx_sub (uw_ctx w)] w; svc_done 2 w1 })"
    by (rule svc_keeps_put[OF f p]) (use out_buf_3[OF f] p in \<open>auto intro: svc_keeps_done\<close>)
  then show ?thesis using True by (simp add: nx_uds_svc_session_tester_present_def)
qed

lemma answered_total:
  assumes f: "svc_fit J w"
  obtains yes where "svc_answered_positively w = Some yes"
proof -
  obtain b where b: "uc_out_buf (uw_cfg w) = Some b" "3 \<le> length b" using f by (auto simp: svc_fit_def elim: uds_cfg_invE)
  then have "b \<noteq> []" by auto
  then show thesis using that b by (cases "2 \<le> cx_out_len (uw_ctx w)") (auto simp: svc_answered_positively_def mem_get_def)
qed

lemma svc_env_ok_app [simp]: "svc_env_ok e0 (e\<lparr> dg_app := x \<rparr>) \<longleftrightarrow> svc_env_ok e0 e"
  by (simp add: svc_env_ok_def)

lemma uw_upd_app [simp]:
  "uw_srv (upd_app x w) = uw_srv w" "uw_env (upd_app x w) = (uw_env w)\<lparr> dg_app := x \<rparr>"
  "uw_srv (upd_sec u f w) = uw_srv w"
  "uw_env (upd_sec u f w) = (uw_env w)\<lparr> dg_secs := (dg_secs (uw_env w))(u := map_option f (dg_secs (uw_env w) u)) \<rparr>"
  by (simp_all add: upd_app_def upd_sec_def)

lemma svc_fit_app: "svc_fit (svc_env_ok e0) w \<Longrightarrow> svc_fit (svc_env_ok e0) (upd_app x w)"
  by (simp add: svc_fit_def)

lemma frame_app: "svc_fit J w \<Longrightarrow> uds_frame w (upd_app x w)"
  unfolding upd_app_def by (rule frame_env) (simp add: svc_fit_def)

lemma svc_env_ok_sec:
  assumes "svc_env_ok e0 e" and "\<And>s. dg_secs e u = Some s \<Longrightarrow> sec_ok s \<Longrightarrow> sec_ok (f s)"
  shows "svc_env_ok e0 (e\<lparr> dg_secs := (dg_secs e)(u := map_option f (dg_secs e u)) \<rparr>)"
proof -
  have ok: "sec_ok (the (dg_secs e v))" if "v \<in> dom (dg_secs e)" for v using assms(1) that by (auto simp: svc_env_ok_def)
  have d: "dom ((dg_secs e)(u := map_option f (dg_secs e u))) = dom (dg_secs e)" by (auto split: if_splits)
  have "sec_ok (the (((dg_secs e)(u := map_option f (dg_secs e u))) v))" if "v \<in> dom (dg_secs e)" for v
    using ok[OF that] that assms(2) by (cases "v = u") auto
  then show ?thesis using assms(1) d by (simp add: svc_env_ok_def del: fun_upd_apply)
qed

lemma frame_sec: "svc_fit J w \<Longrightarrow> uds_frame w (upd_sec u f w)"
  unfolding upd_sec_def by (rule frame_env) (simp add: svc_fit_def)

lemma svc_fit_sec:
  assumes f: "svc_fit (svc_env_ok e0) w" and s: "\<And>s. dg_secs (uw_env w) u = Some s \<Longrightarrow> sec_ok s \<Longrightarrow> sec_ok (f s)"
  shows "svc_fit (svc_env_ok e0) (upd_sec u f w)"
proof -
  have "svc_env_ok e0 (uw_env w)" using f by (simp add: svc_fit_def)
  from svc_env_ok_sec[OF this, of u f] s f show ?thesis by (simp add: svc_fit_def del: fun_upd_apply)
qed

lemma session_control_request_keeps:
  assumes f: "svc_fit (svc_env_ok e0) w" and p: "uds_answer_phase (cx_phase (uw_ctx w))"
    and cap: "cx_out_cap (uw_ctx w) \<le> uc_out_buf_size (uw_cfg w)"
  shows "svc_keeps (svc_env_ok e0) w (session_control_request cfg w)"
proof -
  let ?r = "case wc_allow_fn cfg of
      None \<Rightarrow> ((True, NX_UDS_NRC_CONDITIONS_NOT_CORRECT), dg_app (uw_env w))
    | Some allow_fn \<Rightarrow> allow_fn (wc_user cfg) (cx_session (uw_ctx w)) (cx_sub (uw_ctx w)) NX_UDS_NRC_CONDITIONS_NOT_CORRECT (dg_app (uw_env w))"
  obtain allowed nrc x where r: "?r = ((allowed, nrc), x)" by (metis surj_pair)
  let ?w = "upd_app x w"
  have f1: "svc_fit (svc_env_ok e0) ?w" and fr: "uds_frame w ?w" using f by (auto intro: svc_fit_app frame_app)
  have done_with: "svc_keeps (svc_env_ok e0) w (do { w2 \<leftarrow> put_out 1 [a, b, c, d, e] ?w; svc_done 6 w2 })"
    if "\<not> cx_out_cap (uw_ctx w) < 6" for a b c d e
  proof (rule svc_keeps_after[OF fr], rule svc_keeps_put[OF f1])
    show "uds_answer_phase (cx_phase (uw_ctx ?w))" using p by simp
    have "(6 :: u32) \<le> uc_out_buf_size (uw_cfg w)" using that cap by (simp add: not_less)
    then have "(6 :: nat) \<le> unat (uc_out_buf_size (uw_cfg w))" by (simp add: word_le_nat_alt)
    then show "1 + length [a, b, c, d, e] \<le> unat (uc_out_buf_size (uw_cfg ?w))" by simp
  qed (use p in \<open>auto intro: svc_keeps_done\<close>)
  show ?thesis
  proof (cases "NX_UDS_SESSION_IN_RANGE (cx_sub (uw_ctx w))")
    case False
    then show ?thesis using svc_keeps_refuse[OF f] by (simp add: session_control_request_def)
  next
    case True
    have e: "session_control_request cfg w =
        (if \<not> allowed then svc_refuse nrc ?w
         else if cx_out_cap (uw_ctx w) < 6 then svc_refuse NX_UDS_NRC_RESPONSE_TOO_LONG ?w
         else do {
           w2 \<leftarrow> put_out 1 [cx_sub (uw_ctx w),
             ucast (drop_bit 8 (svc_window_counts (uc_p2_us (uw_cfg w)) 1000)), ucast (svc_window_counts (uc_p2_us (uw_cfg w)) 1000),
             ucast (drop_bit 8 (svc_window_counts (uc_p2_star_us (uw_cfg w)) 10000)), ucast (svc_window_counts (uc_p2_star_us (uw_cfg w)) 10000)] ?w;
           svc_done 6 w2 })"
      using True by (simp add: session_control_request_def r nx_uds_server_timing_def Let_def)
    show ?thesis
      using svc_keeps_after[OF fr svc_keeps_refuse[OF f1]] done_with by (simp add: e)
  qed
qed

lemma set_session_keeps:
  assumes f: "svc_fit J w"
  shows "\<exists>r w'. nx_uds_server_set_session (Some w) s = Some (r, Some w') \<and> uds_frame w w' \<and> J (uw_env w')"
proof (cases "NX_UDS_SESSION_IN_RANGE s")
  case False
  then show ?thesis using f uds_frame_refl by (auto simp: nx_uds_server_set_session_def svc_fit_def)
next
  case True
  let ?i = "uds_txn_end w"
  have g: "uds_good (\<lambda>_. True) J ?i"
    using f by (simp add: svc_fit_def uds_good_def uds_inv_def uds_txn_end_eq uds_rows_fit_def list_all_iff)
  obtain i' where i': "uds_enter_session ?i s = Some i'" "uds_good (\<lambda>_. True) J i'" "uw_cfg i' = uw_cfg ?i"
    using enter_session_good[OF g True] by blast
  have "\<exists>w'. uds_enter_session w s = Some w' \<and> uw_cfg w' = uw_cfg w \<and> uw_txn w' = uw_txn w \<and> uw_env w' = uw_env i' \<and>
      uds_session_inv (uw_srv w') = uds_session_inv (uw_srv i')"
    using i'(1)
    by (cases "s = NX_UDS_SESSION_DEFAULT"; cases "uc_get_us (uw_cfg w)"; cases "uc_session_fn (uw_cfg w)")
      (auto simp: uds_enter_session_def uds_arm_s3_def uds_now_def uds_txn_end_eq uds_session_inv_def Let_def split: prod.splits if_splits)
  then obtain w' where w': "uds_enter_session w s = Some w'" "uw_cfg w' = uw_cfg w" "uw_txn w' = uw_txn w" "uw_env w' = uw_env i'"
    "uds_session_inv (uw_srv w')" using uds_goodD(3)[OF i'(2)] by blast
  have "uds_frame w w'"
    by (rule uds_frameI[where n = "cx_out_len (uw_ctx w)" and r = "cx_nrc (uw_ctx w)" and k = "cx_state (uw_ctx w)"]) (simp_all add: w')
  then show ?thesis using True w' uds_goodD(5)[OF i'(2)] by (simp add: nx_uds_server_set_session_def)
qed

lemma session_control_keeps:
  assumes f: "svc_fit (svc_env_ok e0) w" and u: "u = 0 \<or> dg_sessions e0 u \<noteq> None"
    and cap: "cx_out_cap (uw_ctx w) \<le> uc_out_buf_size (uw_cfg w)"
  shows "svc_keeps (svc_env_ok e0) w (nx_uds_svc_session_control u w)"
proof (cases "u = 0")
  case True
  then show ?thesis using svc_keeps_refuse[OF f] by (simp add: nx_uds_svc_session_control_def)
next
  case u0: False
  then obtain cfg where cfg: "dg_sessions (uw_env w) u = Some cfg" using u f by (auto simp: svc_fit_def svc_env_ok_def)
  have settled: "svc_keeps (svc_env_ok e0) w (session_control_settled w)"
  proof -
    obtain yes where yes: "svc_answered_positively w = Some yes" by (rule answered_total[OF f])
    obtain r w' where "nx_uds_server_set_session (Some w) (cx_sub (uw_ctx w)) = Some (r, Some w')" "uds_frame w w'" "svc_env_ok e0 (uw_env w')"
      using set_session_keeps[OF f] by blast
    then show ?thesis using yes svc_keeps_same[OF f] by (cases yes) (simp_all add: session_control_settled_def svc_keeps_def)
  qed
  have req: "svc_keeps (svc_env_ok e0) w (session_control_request cfg w)" if "cx_phase (uw_ctx w) = NX_UDS_PHASE_REQUEST"
    by (rule session_control_request_keeps[OF f _ cap]) (simp add: that uds_answer_phase_def)
  show ?thesis using u0 cfg settled req svc_keeps_refuse[OF f] svc_keeps_same[OF f] by (simp add: nx_uds_svc_session_control_def)
qed

lemma ecu_reset_request_keeps:
  assumes f: "svc_fit (svc_env_ok e0) w" and p: "uds_answer_phase (cx_phase (uw_ctx w))"
  shows "svc_keeps (svc_env_ok e0) w (ecu_reset_request cfg w)"
proof -
  let ?r = "case rc_allow_fn cfg of
      None \<Rightarrow> ((True, NX_UDS_NRC_CONDITIONS_NOT_CORRECT), dg_app (uw_env w))
    | Some allow_fn \<Rightarrow> allow_fn (rc_user cfg) (cx_sub (uw_ctx w)) NX_UDS_NRC_CONDITIONS_NOT_CORRECT (dg_app (uw_env w))"
  obtain allowed nrc x where r: "?r = ((allowed, nrc), x)" by (metis surj_pair)
  let ?w = "upd_app x w" and ?len = "(if cx_sub (uw_ctx w) = 0x04 then 3 else 2) :: u32"
  let ?x = "[cx_sub (uw_ctx w)] @ (if ?len = 3 then [rc_power_down_time cfg] else [])"
  have f1: "svc_fit (svc_env_ok e0) ?w" and fr: "uds_frame w ?w" using f by (auto intro: svc_fit_app frame_app)
  have d: "svc_keeps (svc_env_ok e0) w (do { w2 \<leftarrow> put_out 1 ?x ?w; svc_done ?len w2 })"
  proof (rule svc_keeps_after[OF fr], rule svc_keeps_put[OF f1])
    show "uds_answer_phase (cx_phase (uw_ctx ?w))" using p by simp
    show "1 + length ?x \<le> unat (uc_out_buf_size (uw_cfg ?w))" using out_buf_3[OF f1] by auto
  qed (use p in \<open>auto intro: svc_keeps_done\<close>)
  have e: "ecu_reset_request cfg w =
      (if \<not> allowed then svc_refuse nrc ?w
       else if cx_out_cap (uw_ctx w) < ?len then svc_refuse NX_UDS_NRC_RESPONSE_TOO_LONG ?w
       else do { w2 \<leftarrow> put_out 1 ?x ?w; svc_done ?len w2 })"
    by (simp add: ecu_reset_request_def r Let_def)
  show ?thesis unfolding e using svc_keeps_after[OF fr svc_keeps_refuse[OF f1]] d by simp
qed

lemma ecu_reset_keeps:
  assumes f: "svc_fit (svc_env_ok e0) w" and u: "u = 0 \<or> dg_resets e0 u \<noteq> None"
  shows "svc_keeps (svc_env_ok e0) w (nx_uds_svc_session_ecu_reset u w)"
proof (cases "u = 0")
  case True
  then show ?thesis using svc_keeps_refuse[OF f] by (simp add: nx_uds_svc_session_ecu_reset_def)
next
  case u0: False
  then obtain cfg where cfg: "dg_resets (uw_env w) u = Some cfg" using u f by (auto simp: svc_fit_def svc_env_ok_def)
  obtain yes where yes: "svc_answered_positively w = Some yes" by (rule answered_total[OF f])
  have req: "svc_keeps (svc_env_ok e0) w (ecu_reset_request cfg w)" if "cx_phase (uw_ctx w) = NX_UDS_PHASE_REQUEST"
    by (rule ecu_reset_request_keeps[OF f]) (simp add: that uds_answer_phase_def)
  have app: "svc_keeps (svc_env_ok e0) w (Some (NX_UDS_DISPOSITION_DONE, upd_app x w))" for x
    using svc_keeps_after[OF frame_app[OF f] svc_keeps_same[OF svc_fit_app[OF f]]] .
  show ?thesis
    using u0 cfg yes req app svc_keeps_refuse[OF f] svc_keeps_same[OF f]
    by (cases "rc_do_fn cfg") (auto simp: nx_uds_svc_session_ecu_reset_def)
qed

end
