(* ===== verification/Nx_Uds_Moves.thy ===== *)
theory Nx_Uds_Moves
  imports Nx_Uds_Standard
begin

text \<open>The services that move memory keep the contract of the handlers.\<close>

section \<open>The transfer as an object of the environment\<close>

lemma uw_upd_xfer [simp]:
  "uw_srv (upd_xfer u f w) = uw_srv w"
  "uw_env (upd_xfer u f w) = (uw_env w)\<lparr> dg_xfers := (dg_xfers (uw_env w))
     (u := map_option (\<lambda>t. t\<lparr> xf_run := f (xf_run t) \<rparr>) (dg_xfers (uw_env w) u)) \<rparr>"
  by (simp_all add: upd_xfer_def)

lemma xfer_of_env:
  assumes "svc_fit (svc_env_ok e0) w" "dg_xfers (uw_env w) u = Some t"
  shows "xfer_ok t"
proof -
  have "u \<in> dom (dg_xfers (uw_env w))" using assms(2) by blast
  then have "xfer_ok (the (dg_xfers (uw_env w) u))" using assms(1) unfolding svc_fit_def svc_env_ok_def by blast
  then show ?thesis using assms(2) by simp
qed

lemma xfer_there:
  assumes "svc_fit (svc_env_ok e0) w" "dg_xfers e0 u \<noteq> None"
  obtains t where "dg_xfers (uw_env w) u = Some t"
proof -
  have "u \<in> dom (dg_xfers e0)" using assms(2) by blast
  then have "u \<in> dom (dg_xfers (uw_env w))" using assms(1) unfolding svc_fit_def svc_env_ok_def by blast
  then show thesis using that by blast
qed

lemma frame_xfer: "svc_fit J w \<Longrightarrow> uds_frame w (upd_xfer u f w)"
  unfolding upd_xfer_def by (rule frame_env) (simp add: svc_fit_def)

lemma svc_fit_xfer:
  assumes f: "svc_fit (svc_env_ok e0) w"
    and t: "\<And>t. dg_xfers (uw_env w) u = Some t \<Longrightarrow> xfer_ok t \<Longrightarrow> xfer_run_ok (xf_cfg t) (g (xf_run t))"
  shows "svc_fit (svc_env_ok e0) (upd_xfer u g w)"
proof -
  let ?e = "uw_env w"
  let ?m = "(dg_xfers ?e)(u := map_option (\<lambda>t. t\<lparr> xf_run := g (xf_run t) \<rparr>) (dg_xfers ?e u))"
  have J: "svc_env_ok e0 ?e" using f by (simp add: svc_fit_def)
  have ok: "xfer_ok (the (dg_xfers ?e v))" if "v \<in> dom (dg_xfers ?e)" for v using J that by (auto simp: svc_env_ok_def)
  have d: "dom ?m = dom (dg_xfers ?e)" by (auto split: if_splits)
  have "xfer_ok (the (?m v))" if "v \<in> dom (dg_xfers ?e)" for v
    using ok[OF that] that t by (cases "v = u") (auto simp: xfer_ok_def)
  then have "svc_env_ok e0 (?e\<lparr> dg_xfers := ?m \<rparr>)" using J d by (simp add: svc_env_ok_def del: fun_upd_apply)
  then show ?thesis using f by (simp add: svc_fit_def del: fun_upd_apply)
qed

lemma xfer_run_zero_ok [simp]: "xfer_run_ok c xfer_run_zero"
  by (simp add: xfer_run_ok_def xfer_run_zero_def nx_uds_svc_transfer_payload_room_def)

lemma put_out_env: "put_out i x w = Some w' \<Longrightarrow> uw_env w' = uw_env w \<and> uw_txn w' = uw_txn w"
  by (auto simp: put_out_def bind_eq_Some_conv)

section \<open>Lengths\<close>

lemma payload_room_le:
  assumes "n \<le> nx_uds_svc_transfer_payload_room k"
  shows "unat (2 + n) = 2 + unat n"
proof -
  have k: "unat k < 4294967296" using unsigned_less[where ?'a=nat, of k] by simp
  have "unat n \<le> unat k - 2"
    using assms by (auto simp: nx_uds_svc_transfer_payload_room_def word_le_nat_alt word_less_nat_alt unat_sub split: if_splits)
  then have "2 + unat n < 4294967296" using k by arith
  then show ?thesis by (simp add: unat_word_ariths)
qed

text \<open>What a block carries keeps the run within its region.\<close>

lemma region_left:
  assumes "(d :: u32) \<le> s" "d + n > s"
  shows "s - d \<le> n"
proof (cases "unat d + unat n < 2 ^ 32")
  case True
  then have "unat (d + n) = unat d + unat n" by (simp add: unat_word_ariths)
  then show ?thesis using assms by (simp add: word_le_nat_alt word_less_nat_alt unat_sub)
next
  case False
  have "unat d < 2 ^ 32" "unat n < 2 ^ 32" using unsigned_less[where ?'a=nat, of d] unsigned_less[where ?'a=nat, of n] by simp_all
  then have "unat (d + n) = unat d + unat n - 2 ^ 32" using False by (simp add: unat_word_ariths mod_if)
  then have "unat (d + n) < unat d" using \<open>unat n < 2 ^ 32\<close> False by linarith
  then show ?thesis using assms by (simp add: word_le_nat_alt word_less_nat_alt)
qed

lemma xfer_block_len_ok:
  assumes r: "xfer_run_ok c r" and n: "xfer_block_len r q = Some n"
  shows "n \<le> nx_uds_svc_transfer_payload_room (xr_block_len r)" "xr_done r + n \<le> xr_size r" "xfer_run_ok c (xfer_commit bsc n r)"
    "xr_dir r = NX_UDS_SVC_TRANSFER_DOWNLOAD \<Longrightarrow> n = q - 2 \<and> n \<noteq> 0"
proof -
  let ?room = "nx_uds_svc_transfer_payload_room (xr_block_len r)"
  have d: "xr_done r \<le> xr_size r" using r by (simp add: xfer_run_ok_def)
  have left: "xr_size r - xr_done r \<le> ?room" if "xr_done r + ?room > xr_size r" by (rule region_left[OF d that])
  show room: "n \<le> ?room" and fits: "xr_done r + n \<le> xr_size r"
    using n left by (auto simp: xfer_block_len_def Let_def not_less split: if_splits)
  show "xfer_run_ok c (xfer_commit bsc n r)" using r room fits by (simp add: xfer_run_ok_def xfer_commit_def)
  show "xr_dir r = NX_UDS_SVC_TRANSFER_DOWNLOAD \<Longrightarrow> n = q - 2 \<and> n \<noteq> 0"
    using n by (auto simp: xfer_block_len_def Let_def split: if_splits)
qed

section \<open>Reading the request\<close>

lemma req_buf_there:
  assumes "svc_fit J w"
  obtains b where "uc_req_buf (uw_cfg w) = Some b" "length b = unat (uc_req_buf_size (uw_cfg w))"
  using assms by (auto simp: svc_fit_def elim: uds_cfg_invE)

lemma req_byte_fit:
  assumes "svc_fit J w" "i < unat (uc_req_buf_size (uw_cfg w))"
  shows "\<exists>x. req_byte w i = Some x"
  by (rule req_buf_there[OF assms(1)]) (use assms(2) in \<open>simp add: req_byte_def mem_get_def\<close>)

lemma req_at_fit:
  assumes "svc_fit J w" "i + unat n \<le> unat (uc_req_buf_size (uw_cfg w))"
  shows "\<exists>x. req_at w i n = Some x \<and> length x = unat n"
  by (rule req_buf_there[OF assms(1)]) (use assms(2) in \<open>simp add: req_at_def mem_read_def\<close>)

section \<open>Opening\<close>

lemma ctx_lengths:
  assumes "svc_fit J w" "uds_ctx_inv (uw_cfg w) (uw_ctx w)"
  shows "cx_out_cap (uw_ctx w) \<le> uc_out_buf_size (uw_cfg w)" "unat (cx_req_len (uw_ctx w)) \<le> unat (uc_req_buf_size (uw_cfg w))"
  using assms by (auto simp: uds_ctx_inv_def svc_fit_def uds_cfg_inv_def word_le_nat_alt)

lemma width_cases: "xfer_width_for v = 1 \<or> xfer_width_for v = 2 \<or> xfer_width_for v = 4"
  by (simp add: xfer_width_for_def)

lemma write_be_length [simp]: "length (xfer_write_be n v) = n"
  by (simp add: xfer_write_be_def)

lemma answer_room:
  assumes "\<not> cap < 2 + n" "unat (2 + n) = 2 + unat (n :: u32)" "cap \<le> m"
  shows "2 + unat n \<le> unat m"
  using assms by (simp add: not_less word_le_nat_alt)

lemma announce_keeps:
  assumes f: "svc_fit (svc_env_ok e0) w" and p: "uds_answer_phase (cx_phase (uw_ctx w))"
    and cap: "cx_out_cap (uw_ctx w) \<le> uc_out_buf_size (uw_cfg w)"
    and t: "dg_xfers (uw_env w) u = Some t"
    and d: "dir = NX_UDS_SVC_TRANSFER_DOWNLOAD \<Longrightarrow> tc_write_fn (xf_cfg t) \<noteq> None" "dir = NX_UDS_SVC_TRANSFER_UPLOAD \<Longrightarrow> tc_read_fn (xf_cfg t) \<noteq> None"
  shows "svc_keeps (svc_env_ok e0) w (xfer_announce u dir addr region n w)"
proof -
  let ?width = "xfer_width_for n"
  let ?r = "\<lparr> xr_dir = dir, xr_addr = addr, xr_size = region, xr_done = 0, xr_block_len = n, xr_bsc_next = 1, xr_bsc_last = 0,
     xr_committed = False, xr_last_len = 0 \<rparr>"
  let ?w1 = "upd_xfer u (\<lambda>_. ?r) w"
  have f1: "svc_fit (svc_env_ok e0) ?w1" by (rule svc_fit_xfer[OF f]) (use t d in \<open>simp add: xfer_run_ok_def\<close>)
  have "svc_keeps (svc_env_ok e0) ?w1 (do {
      w2 \<leftarrow> put_out 1 [ucast (push_bit 4 ?width)] ?w1; w3 \<leftarrow> put_out 2 (xfer_write_be (unat ?width) n) w2; svc_done (2 + ?width) w3 })"
    if room: "\<not> cx_out_cap (uw_ctx w) < 2 + ?width"
  proof (rule svc_keeps_put[OF f1])
    have "unat (2 + ?width) = 2 + unat ?width" using width_cases[of n] by auto
    then have r: "2 + unat ?width \<le> unat (uc_out_buf_size (uw_cfg w))" by (rule answer_room[OF room _ cap])
    show "1 + length [ucast (push_bit 4 ?width) :: u8] \<le> unat (uc_out_buf_size (uw_cfg ?w1))" using out_buf_3[OF f] by simp
    fix w2 assume f2: "svc_fit (svc_env_ok e0) w2" and x: "uw_txn w2 = uw_txn ?w1" "uc_out_buf_size (uw_cfg w2) = uc_out_buf_size (uw_cfg ?w1)"
    show "svc_keeps (svc_env_ok e0) w2 (do { w3 \<leftarrow> put_out 2 (xfer_write_be (unat ?width) n) w2; svc_done (2 + ?width) w3 })"
      by (rule svc_keeps_put[OF f2]) (use x r p in \<open>auto intro: svc_keeps_done\<close>)
  qed (use p in simp)
  from svc_keeps_after[OF frame_xfer[OF f] this] show ?thesis
    using svc_keeps_refuse[OF f] by (simp add: xfer_announce_def Let_def)
qed

lemma announce_len_there: "tc_srv (xf_cfg t) \<Longrightarrow> \<exists>n. xfer_announce_len t dir w = Some n"
  by (simp add: xfer_announce_len_def xfer_srv_def nx_uds_server_apdu_limits_def Let_def)

lemma consult_keeps:
  assumes f: "svc_fit (svc_env_ok e0) w" and p: "uds_answer_phase (cx_phase (uw_ctx w))"
    and cap: "cx_out_cap (uw_ctx w) \<le> uc_out_buf_size (uw_cfg w)" and q: "1 < unat (uc_req_buf_size (uw_cfg w))"
    and t: "dg_xfers (uw_env w) u = Some t"
    and d: "dir = NX_UDS_SVC_TRANSFER_DOWNLOAD \<Longrightarrow> tc_write_fn (xf_cfg t) \<noteq> None" "dir = NX_UDS_SVC_TRANSFER_UPLOAD \<Longrightarrow> tc_read_fn (xf_cfg t) \<noteq> None"
  shows "svc_keeps (svc_env_ok e0) w (xfer_consult u t dir addr region w)"
proof -
  have "tc_srv (xf_cfg t)" using xfer_of_env[OF f t] by (simp add: xfer_ok_def xfer_cfg_ok_def)
  then obtain limit where limit: "xfer_announce_len t dir w = Some limit" using announce_len_there by blast
  obtain format where format: "req_byte w 1 = Some format" using req_byte_fit[OF f q] by blast
  let ?r = "case tc_open_fn (xf_cfg t) of
      None \<Rightarrow> ((True, limit, NX_UDS_NRC_REQUEST_OUT_OF_RANGE), dg_app (uw_env w))
    | Some open_fn \<Rightarrow> open_fn (tc_user (xf_cfg t)) dir addr region format limit NX_UDS_NRC_REQUEST_OUT_OF_RANGE (dg_app (uw_env w))"
  obtain ok n nrc x where r: "?r = ((ok, n, nrc), x)" by (metis surj_pair)
  let ?w = "upd_app x w"
  have f1: "svc_fit (svc_env_ok e0) ?w" and fr: "uds_frame w ?w" using f by (auto intro: svc_fit_app frame_app)
  have "svc_keeps (svc_env_ok e0) ?w (xfer_announce u dir addr region m ?w)" for m
    by (rule announce_keeps[OF f1]) (use p cap t d in simp_all)
  then show ?thesis using limit format r svc_keeps_after[OF fr] svc_keeps_refuse[OF f1] by (simp add: xfer_consult_def Let_def)
qed

lemma nibble_lengths:
  fixes f :: u8
  assumes "n = 3 + ucast (f AND 15) + (ucast (drop_bit 4 f AND 15) :: u32)"
  shows "unat n = 3 + unat (ucast (f AND 15) :: u32) + unat (ucast (drop_bit 4 f AND 15) :: u32)"
proof -
  have "unat (x AND 15) \<le> 15" for x :: u8 using word_and_le1[of x 15] by (simp add: word_le_nat_alt)
  then have "unat (ucast (f AND 15) :: u32) \<le> 15" "unat (ucast (drop_bit 4 f AND 15) :: u32) \<le> 15"
    by (simp_all add: unat_ucast_wider)
  then show ?thesis unfolding assms by (simp add: unat_word_ariths)
qed

lemma open_keeps:
  assumes f: "svc_fit (svc_env_ok e0) w" and p: "uds_answer_phase (cx_phase (uw_ctx w))"
    and c: "uds_ctx_inv (uw_cfg w) (uw_ctx w)" and l: "5 \<le> cx_req_len (uw_ctx w)" and t: "dg_xfers (uw_env w) u = Some t"
  shows "svc_keeps (svc_env_ok e0) w (xfer_open u dir w)"
proof -
  have len: "unat (cx_req_len (uw_ctx w)) \<le> unat (uc_req_buf_size (uw_cfg w))" and cap: "cx_out_cap (uw_ctx w) \<le> uc_out_buf_size (uw_cfg w)"
    using ctx_lengths[OF f c] by simp_all
  then have b: "2 < unat (uc_req_buf_size (uw_cfg w))" "1 < unat (uc_req_buf_size (uw_cfg w))" using l by (simp_all add: word_le_nat_alt)
  obtain x where x: "req_byte w 2 = Some x" using req_byte_fit[OF f b(1)] by blast
  let ?a = "ucast (x AND 15) :: u32" and ?s = "ucast (drop_bit 4 x AND 15) :: u32"
  show ?thesis
  proof (cases "xr_dir (xf_run t) \<noteq> NX_UDS_SVC_TRANSFER_NONE \<or>
      dir = NX_UDS_SVC_TRANSFER_DOWNLOAD \<and> tc_write_fn (xf_cfg t) = None \<or> dir = NX_UDS_SVC_TRANSFER_UPLOAD \<and> tc_read_fn (xf_cfg t) = None \<or>
      ?a = 0 \<or> ?s = 0 \<or> cx_req_len (uw_ctx w) \<noteq> 3 + ?a + ?s")
    case True
    then show ?thesis using t x svc_keeps_refuse[OF f] by (auto simp: xfer_open_def Let_def)
  next
    case False
    then have "unat (cx_req_len (uw_ctx w)) = 3 + unat ?a + unat ?s" by (intro nibble_lengths) simp
    then have "3 + unat ?a \<le> unat (uc_req_buf_size (uw_cfg w))" "3 + unat ?a + unat ?s \<le> unat (uc_req_buf_size (uw_cfg w))" using len by linarith+
    from req_at_fit[OF f this(1)] req_at_fit[OF f this(2)] obtain ax sx
      where ax: "req_at w 3 ?a = Some ax" and sx: "req_at w (3 + unat ?a) ?s = Some sx" by blast
    have k: "svc_keeps (svc_env_ok e0) w (xfer_consult u t dir addr region w)" for addr region
      by (rule consult_keeps[OF f p cap b(2) t]) (use False in simp_all)
    have "xfer_open u dir w =
        (case (xfer_read_be ax, xfer_read_be sx) of
           (Some addr, Some region) \<Rightarrow> if region = 0 then svc_refuse NX_UDS_NRC_REQUEST_OUT_OF_RANGE w else xfer_consult u t dir addr region w
         | _ \<Rightarrow> svc_refuse NX_UDS_NRC_REQUEST_OUT_OF_RANGE w)"
      using False t x ax sx by (auto simp: xfer_open_def Let_def)
    then show ?thesis using k svc_keeps_refuse[OF f] by (simp split: option.split)
  qed
qed

section \<open>Carrying\<close>

lemma fill_upload_keeps:
  assumes f: "svc_fit (svc_env_ok e0) w" and p: "uds_answer_phase (cx_phase (uw_ctx w))"
    and cap: "cx_out_cap (uw_ctx w) \<le> uc_out_buf_size (uw_cfg w)" and t: "xfer_ok t" "tc_read_fn (xf_cfg t) \<noteq> None"
    and n: "n \<le> nx_uds_svc_transfer_payload_room k"
  shows "svc_keeps (svc_env_ok e0) w (xfer_fill_upload t off n w)"
proof (cases "cx_out_cap (uw_ctx w) < 2 + n")
  case True
  then show ?thesis using svc_keeps_refuse[OF f] by (simp add: xfer_fill_upload_def)
next
  case room: False
  obtain g where g: "tc_read_fn (xf_cfg t) = Some g" using t(2) by blast
  obtain ok data nrc x where r: "g (tc_user (xf_cfg t)) (xr_addr (xf_run t) + off) n NX_UDS_NRC_GENERAL_PROGRAMMING_FAILURE (dg_app (uw_env w)) =
      ((ok, data, nrc), x)" by (metis surj_pair)
  have gl: "\<forall>addr len nrc x. length (fst (snd (fst (g (tc_user (xf_cfg t)) addr len nrc x)))) \<le> unat len"
    using t(1) g by (simp add: xfer_ok_def xfer_cfg_ok_def)
  have "length data \<le> unat n" using gl[rule_format, of "xr_addr (xf_run t) + off" n NX_UDS_NRC_GENERAL_PROGRAMMING_FAILURE "dg_app (uw_env w)"] r by simp
  then have d: "2 + length data \<le> unat (uc_out_buf_size (uw_cfg w))"
    using answer_room[OF room payload_room_le[OF n] cap] by linarith
  let ?w = "upd_app x w"
  have f1: "svc_fit (svc_env_ok e0) ?w" by (rule svc_fit_app[OF f])
  have "svc_keeps (svc_env_ok e0) ?w (do { w1 \<leftarrow> put_out 2 data ?w; if \<not> ok then svc_refuse nrc w1 else svc_done (2 + n) w1 })"
    by (rule svc_keeps_put[OF f1]) (use p d in \<open>auto intro: svc_keeps_done svc_keeps_refuse\<close>)
  from svc_keeps_after[OF frame_app[OF f] this] show ?thesis using room g r by (simp add: xfer_fill_upload_def Let_def)
qed

lemma repeat_keeps:
  assumes f: "svc_fit (svc_env_ok e0) w" and p: "uds_answer_phase (cx_phase (uw_ctx w))"
    and cap: "cx_out_cap (uw_ctx w) \<le> uc_out_buf_size (uw_cfg w)" and t: "dg_xfers (uw_env w) u = Some t"
  shows "svc_keeps (svc_env_ok e0) w (xfer_repeat t w)"
  unfolding xfer_repeat_def
proof (rule svc_keeps_put[OF f p])
  have ok: "xfer_ok t" by (rule xfer_of_env[OF f t])
  show "1 + length [xr_bsc_last (xf_run t)] \<le> unat (uc_out_buf_size (uw_cfg w))" using out_buf_3[OF f] by simp
  fix w1 assume f1: "svc_fit (svc_env_ok e0) w1" and x: "uw_env w1 = uw_env w" "uw_txn w1 = uw_txn w" "uc_out_buf_size (uw_cfg w1) = uc_out_buf_size (uw_cfg w)"
  have "svc_keeps (svc_env_ok e0) w1 (xfer_fill_upload t (xr_done (xf_run t) - xr_last_len (xf_run t)) (xr_last_len (xf_run t)) w1)"
    if "xr_dir (xf_run t) = NX_UDS_SVC_TRANSFER_UPLOAD"
    by (rule fill_upload_keeps[OF f1, where k = "xr_block_len (xf_run t)"]) (use p cap x ok that in \<open>simp_all add: xfer_ok_def xfer_run_ok_def\<close>)
  then show "svc_keeps (svc_env_ok e0) w1
      (if xr_dir (xf_run t) = NX_UDS_SVC_TRANSFER_UPLOAD
       then xfer_fill_upload t (xr_done (xf_run t) - xr_last_len (xf_run t)) (xr_last_len (xf_run t)) w1 else svc_done 2 w1)"
    using svc_keeps_done[OF f1, of 2] p x by simp
qed

lemma carry_keeps:
  assumes f: "svc_fit (svc_env_ok e0) w" and p: "uds_answer_phase (cx_phase (uw_ctx w))"
    and c: "uds_ctx_inv (uw_cfg w) (uw_ctx w)" and l: "2 \<le> cx_req_len (uw_ctx w)"
    and t: "xfer_ok t" "xr_dir (xf_run t) \<noteq> NX_UDS_SVC_TRANSFER_NONE"
    and n: "xfer_block_len (xf_run t) (cx_req_len (uw_ctx w)) = Some n"
  shows "svc_keeps (svc_env_ok e0) w (xfer_carry t n w)"
proof -
  have r: "xfer_run_ok (xf_cfg t) (xf_run t)" using t(1) by (simp add: xfer_ok_def)
  note nl = xfer_block_len_ok[OF r n]
  have len: "unat (cx_req_len (uw_ctx w)) \<le> unat (uc_req_buf_size (uw_cfg w))" and cap: "cx_out_cap (uw_ctx w) \<le> uc_out_buf_size (uw_cfg w)"
    using ctx_lengths[OF f c] by simp_all
  show ?thesis
  proof (cases "xr_dir (xf_run t) = NX_UDS_SVC_TRANSFER_DOWNLOAD")
    case False
    then have "xr_dir (xf_run t) = NX_UDS_SVC_TRANSFER_UPLOAD" using t(2) by (cases "xr_dir (xf_run t)") simp_all
    then have "svc_keeps (svc_env_ok e0) w (xfer_fill_upload t (xr_done (xf_run t)) n w)"
      by (intro fill_upload_keeps[OF f p cap t(1) _ nl(1)]) (use r in \<open>simp add: xfer_run_ok_def\<close>)
    then show ?thesis using False by (simp add: xfer_carry_def)
  next
    case True
    then obtain g where g: "tc_write_fn (xf_cfg t) = Some g" using r by (auto simp: xfer_run_ok_def)
    have "n = cx_req_len (uw_ctx w) - 2" using nl(4) True by simp
    then have "unat n = unat (cx_req_len (uw_ctx w)) - 2" using l by (simp add: unat_sub word_le_nat_alt)
    then have "2 + unat n \<le> unat (uc_req_buf_size (uw_cfg w))" using l len by (simp add: word_le_nat_alt)
    from req_at_fit[OF f this] obtain data where data: "req_at w 2 n = Some data" by blast
    obtain ok nrc x where x: "g (tc_user (xf_cfg t)) (xr_addr (xf_run t) + xr_done (xf_run t)) data NX_UDS_NRC_GENERAL_PROGRAMMING_FAILURE
        (dg_app (uw_env w)) = ((ok, nrc), x)" by (metis surj_pair)
    have f1: "svc_fit (svc_env_ok e0) (upd_app x w)" by (rule svc_fit_app[OF f])
    have "svc_keeps (svc_env_ok e0) (upd_app x w) (if \<not> ok then svc_refuse nrc (upd_app x w) else svc_done 2 (upd_app x w))"
      using svc_keeps_refuse[OF f1] svc_keeps_done[OF f1] p by simp
    from svc_keeps_after[OF frame_app[OF f] this] show ?thesis using True g data x by (simp add: xfer_carry_def Let_def split: if_splits)
  qed
qed

lemma fill_upload_leaves:
  assumes "xfer_fill_upload t off n w = Some (d, w')"
  shows "dg_xfers (uw_env w') = dg_xfers (uw_env w)"
proof (cases "cx_out_cap (uw_ctx w) < 2 + n")
  case True
  then show ?thesis using assms by (auto simp: xfer_fill_upload_def svc_refuse_def)
next
  case False
  then obtain g where g: "tc_read_fn (xf_cfg t) = Some g" using assms by (auto simp: xfer_fill_upload_def bind_eq_Some_conv)
  obtain ok data nrc x where "g (tc_user (xf_cfg t)) (xr_addr (xf_run t) + off) n NX_UDS_NRC_GENERAL_PROGRAMMING_FAILURE (dg_app (uw_env w)) =
      ((ok, data, nrc), x)" by (metis surj_pair)
  then show ?thesis using False g assms
    by (auto simp: xfer_fill_upload_def svc_refuse_def svc_done_def bind_eq_Some_conv split: if_splits dest!: put_out_env)
qed

lemma carry_leaves:
  assumes "xfer_carry t n w = Some (d, w')"
  shows "dg_xfers (uw_env w') = dg_xfers (uw_env w)"
proof (cases "xr_dir (xf_run t) = NX_UDS_SVC_TRANSFER_DOWNLOAD")
  case False
  then show ?thesis using assms fill_upload_leaves by (auto simp: xfer_carry_def)
next
  case True
  then obtain g data where g: "tc_write_fn (xf_cfg t) = Some g" "req_at w 2 n = Some data"
    using assms by (auto simp: xfer_carry_def bind_eq_Some_conv)
  obtain ok nrc x where "g (tc_user (xf_cfg t)) (xr_addr (xf_run t) + xr_done (xf_run t)) data NX_UDS_NRC_GENERAL_PROGRAMMING_FAILURE
      (dg_app (uw_env w)) = ((ok, nrc), x)" by (metis surj_pair)
  then show ?thesis using True g assms by (auto simp: xfer_carry_def svc_refuse_def svc_done_def split: if_splits)
qed

lemma data_keeps:
  assumes f: "svc_fit (svc_env_ok e0) w" and p: "uds_answer_phase (cx_phase (uw_ctx w))"
    and c: "uds_ctx_inv (uw_cfg w) (uw_ctx w)" and l: "2 \<le> cx_req_len (uw_ctx w)"
    and t: "dg_xfers (uw_env w) u = Some t" "xr_dir (xf_run t) \<noteq> NX_UDS_SVC_TRANSFER_NONE"
  shows "svc_keeps (svc_env_ok e0) w (xfer_data u t w)"
proof -
  have len: "unat (cx_req_len (uw_ctx w)) \<le> unat (uc_req_buf_size (uw_cfg w))" and cap: "cx_out_cap (uw_ctx w) \<le> uc_out_buf_size (uw_cfg w)"
    using ctx_lengths[OF f c] by simp_all
  then have "1 < unat (uc_req_buf_size (uw_cfg w))" using l by (simp add: word_le_nat_alt)
  then obtain bsc where bsc: "req_byte w 1 = Some bsc" using req_byte_fit[OF f] by blast
  have ok: "xfer_ok t" by (rule xfer_of_env[OF f t(1)])
  then have r: "xfer_run_ok (xf_cfg t) (xf_run t)" by (simp add: xfer_ok_def)
  have go: "svc_keeps (svc_env_ok e0) w (do {
      w1 \<leftarrow> put_out 1 [bsc] w; (d, w2) \<leftarrow> xfer_carry t n w1;
      Some (d, if d = NX_UDS_DISPOSITION_DONE then upd_xfer u (xfer_commit bsc n) w2 else w2) })"
    if n: "xfer_block_len (xf_run t) (cx_req_len (uw_ctx w)) = Some n" for n
  proof (rule svc_keeps_put[OF f p])
    show "1 + length [bsc] \<le> unat (uc_out_buf_size (uw_cfg w))" using out_buf_3[OF f] by simp
    fix w1 assume fr1: "uds_frame w w1" and f1: "svc_fit (svc_env_ok e0) w1" and x: "uw_env w1 = uw_env w" "uw_txn w1 = uw_txn w"
    obtain b1 where "uw_cfg w1 = (uw_cfg w)\<lparr> uc_out_buf := b1 \<rparr>" by (rule uds_frameE[OF fr1])
    then have c1: "uds_ctx_inv (uw_cfg w1) (uw_ctx w1)" using c x by (simp add: uds_ctx_inv_def)
    have "svc_keeps (svc_env_ok e0) w1 (xfer_carry t n w1)" by (rule carry_keeps[OF f1 _ c1 _ ok t(2)]) (use p l n x in simp_all)
    then obtain d w2 where k: "xfer_carry t n w1 = Some (d, w2)" "uds_frame w1 w2" "svc_env_ok e0 (uw_env w2)"
      by (auto simp: svc_keeps_def split: option.splits)
    have f2: "svc_fit (svc_env_ok e0) w2" by (rule svc_fit_frame[OF f1 k(2,3)])
    have t2: "dg_xfers (uw_env w2) u = Some t" using carry_leaves[OF k(1)] x t by simp
    have f3: "svc_fit (svc_env_ok e0) (upd_xfer u (xfer_commit bsc n) w2)"
      by (rule svc_fit_xfer[OF f2]) (use t2 xfer_block_len_ok(3)[OF r n] in simp)
    have "svc_keeps (svc_env_ok e0) w1 (Some (d, upd_xfer u (xfer_commit bsc n) w2))"
      by (rule svc_keeps_after[OF uds_frame_trans[OF k(2) frame_xfer[OF f2]] svc_keeps_same[OF f3]])
    moreover have "svc_keeps (svc_env_ok e0) w1 (Some (d, w2))" by (rule svc_keeps_after[OF k(2) svc_keeps_same[OF f2]])
    ultimately show "svc_keeps (svc_env_ok e0) w1 (do { (d, w2) \<leftarrow> xfer_carry t n w1;
        Some (d, if d = NX_UDS_DISPOSITION_DONE then upd_xfer u (xfer_commit bsc n) w2 else w2) })"
      using k(1) by auto
  qed
  show ?thesis using bsc go repeat_keeps[OF f p cap t(1)] svc_keeps_refuse[OF f]
    by (auto simp: xfer_data_def Let_def split: option.split)
qed

section \<open>Finishing\<close>

lemma finish_keeps:
  assumes f: "svc_fit (svc_env_ok e0) w" and p: "uds_answer_phase (cx_phase (uw_ctx w))"
  shows "svc_keeps (svc_env_ok e0) w (xfer_finish u n w)"
proof -
  have f1: "svc_fit (svc_env_ok e0) (xfer_clear u w)" unfolding xfer_clear_def by (rule svc_fit_xfer[OF f]) simp
  have "svc_keeps (svc_env_ok e0) w (svc_done (1 + n) (xfer_clear u w))"
    by (rule svc_keeps_after[OF frame_xfer[OF f, of u "\<lambda>_. xfer_run_zero", folded xfer_clear_def] svc_keeps_done[OF f1]])
      (use p in \<open>simp add: xfer_clear_def\<close>)
  then show ?thesis using svc_keeps_refuse[OF f] by (simp add: xfer_finish_def)
qed

lemma close_keeps:
  assumes f: "svc_fit (svc_env_ok e0) w" and p: "uds_answer_phase (cx_phase (uw_ctx w))"
    and c: "uds_ctx_inv (uw_cfg w) (uw_ctx w)" and t: "dg_xfers (uw_env w) u = Some t"
  shows "svc_keeps (svc_env_ok e0) w (xfer_close u t w)"
proof -
  let ?c = "xf_cfg t" and ?r = "xf_run t" and ?n = "cx_req_len (uw_ctx w)" and ?cap = "cx_out_cap (uw_ctx w)"
  have len: "unat ?n \<le> unat (uc_req_buf_size (uw_cfg w))" and cap: "?cap \<le> uc_out_buf_size (uw_cfg w)"
    using ctx_lengths[OF f c] by simp_all
  have "\<exists>x. req_at w 1 (?n - 1) = Some x" if "?n > 1"
  proof -
    have "unat (?n - 1) = unat ?n - 1" "1 < unat ?n" using that by (simp_all add: unat_sub word_le_nat_alt word_less_nat_alt)
    then show ?thesis using req_at_fit[OF f, of 1 "?n - 1"] len by auto
  qed
  then obtain rec where rec: "(if ?n > 1 then map_option Some (req_at w 1 (?n - 1)) else Some None) = Some rec" by fastforce
  show ?thesis
  proof (cases "tc_close_fn ?c")
    case None
    then show ?thesis using rec finish_keeps[OF f p] by (simp add: xfer_close_def)
  next
    case (Some g)
    let ?room = "if ?cap > 1 then ?cap - 1 else 0"
    obtain ok out out_len nrc x where r: "g (tc_user ?c) (xr_dir ?r) (xr_done ?r) (xr_size ?r) rec ?room
        NX_UDS_NRC_GENERAL_PROGRAMMING_FAILURE (dg_app (uw_env w)) = ((ok, out, out_len, nrc), x)" by (metis surj_pair)
    have gl: "\<forall>dir moved region record cap nrc x. length (fst (snd (fst (g (tc_user ?c) dir moved region record cap nrc x)))) \<le> unat cap"
      using xfer_of_env[OF f t] Some by (simp add: xfer_ok_def xfer_cfg_ok_def)
    have "length out \<le> unat ?room"
      using gl[rule_format, of "xr_dir ?r" "xr_done ?r" "xr_size ?r" rec ?room NX_UDS_NRC_GENERAL_PROGRAMMING_FAILURE "dg_app (uw_env w)"]
      unfolding r by simp
    moreover have "1 + unat ?room \<le> unat (uc_out_buf_size (uw_cfg w))"
      using cap out_buf_3[OF f] by (auto simp: word_le_nat_alt word_less_nat_alt unat_sub)
    ultimately have o: "1 + length out \<le> unat (uc_out_buf_size (uw_cfg w))" by linarith
    let ?w = "upd_app x w"
    have f1: "svc_fit (svc_env_ok e0) ?w" by (rule svc_fit_app[OF f])
    have "svc_keeps (svc_env_ok e0) ?w (do { w1 \<leftarrow> put_out 1 out ?w; if \<not> ok then svc_refuse nrc w1 else xfer_finish u out_len w1 })"
      by (rule svc_keeps_put[OF f1]) (use p o in \<open>auto intro: finish_keeps svc_keeps_refuse\<close>)
    from svc_keeps_after[OF frame_app[OF f] this] show ?thesis using rec Some r by (simp add: xfer_close_def Let_def)
  qed
qed

section \<open>The four services\<close>

lemma transfer_request_keeps:
  assumes f: "svc_fit (svc_env_ok e0) w" and u: "u = 0 \<or> dg_xfers e0 u \<noteq> None" and c: "uds_ctx_inv (uw_cfg w) (uw_ctx w)"
    and l: "uds_answer_phase (cx_phase (uw_ctx w)) \<Longrightarrow> 5 \<le> cx_req_len (uw_ctx w)"
  shows "svc_keeps (svc_env_ok e0) w (xfer_request dir u w)"
proof (cases "u = 0 \<or> cx_phase (uw_ctx w) \<noteq> NX_UDS_PHASE_REQUEST")
  case True
  then show ?thesis using svc_keeps_refuse[OF f] svc_keeps_same[OF f] by (auto simp: xfer_request_def)
next
  case False
  then have p: "uds_answer_phase (cx_phase (uw_ctx w))" by (simp add: uds_answer_phase_def)
  obtain t where "dg_xfers (uw_env w) u = Some t" by (rule xfer_there[OF f]) (use u False in blast)
  then have "svc_keeps (svc_env_ok e0) w (xfer_open u dir w)" by (rule open_keeps[OF f p c l[OF p]])
  then show ?thesis using False by (simp add: xfer_request_def)
qed

lemma transfer_data_keeps:
  assumes f: "svc_fit (svc_env_ok e0) w" and u: "u = 0 \<or> dg_xfers e0 u \<noteq> None" and c: "uds_ctx_inv (uw_cfg w) (uw_ctx w)"
    and l: "uds_answer_phase (cx_phase (uw_ctx w)) \<Longrightarrow> 2 \<le> cx_req_len (uw_ctx w)"
  shows "svc_keeps (svc_env_ok e0) w (nx_uds_svc_transfer_data u w)"
proof (cases "u = 0 \<or> cx_phase (uw_ctx w) \<noteq> NX_UDS_PHASE_REQUEST")
  case True
  then show ?thesis using svc_keeps_refuse[OF f] svc_keeps_same[OF f] by (auto simp: nx_uds_svc_transfer_data_def)
next
  case False
  then have p: "uds_answer_phase (cx_phase (uw_ctx w))" by (simp add: uds_answer_phase_def)
  obtain t where t: "dg_xfers (uw_env w) u = Some t" by (rule xfer_there[OF f]) (use u False in blast)
  show ?thesis using False t data_keeps[OF f p c l[OF p] t] svc_keeps_refuse[OF f] by (simp add: nx_uds_svc_transfer_data_def)
qed

lemma transfer_exit_keeps:
  assumes f: "svc_fit (svc_env_ok e0) w" and u: "u = 0 \<or> dg_xfers e0 u \<noteq> None" and c: "uds_ctx_inv (uw_cfg w) (uw_ctx w)"
  shows "svc_keeps (svc_env_ok e0) w (nx_uds_svc_transfer_exit u w)"
proof (cases "u = 0 \<or> cx_phase (uw_ctx w) \<noteq> NX_UDS_PHASE_REQUEST")
  case True
  then show ?thesis using svc_keeps_refuse[OF f] svc_keeps_same[OF f] by (auto simp: nx_uds_svc_transfer_exit_def)
next
  case False
  then have p: "uds_answer_phase (cx_phase (uw_ctx w))" by (simp add: uds_answer_phase_def)
  obtain t where t: "dg_xfers (uw_env w) u = Some t" by (rule xfer_there[OF f]) (use u False in blast)
  show ?thesis using False t close_keeps[OF f p c t] svc_keeps_refuse[OF f] by (simp add: nx_uds_svc_transfer_exit_def)
qed

end
