(* ===== verification/Nx_Uds_Diag.thy ===== *)
theory Nx_Uds_Diag
  imports Nx_Uds_Moves
begin

text \<open>The seed and key exchange keeps the contract of the handlers, and with it every table over the standard services is served.\<close>

section \<open>The exchange stays inside its objects\<close>

lemma uds_ctx_inv_app [simp]: "uds_ctx_inv (uw_cfg (upd_app x w)) c = uds_ctx_inv (uw_cfg w) c"
  by simp

lemma sec_search_total:
  assumes "n \<le> length lvs"
  shows "\<exists>r. sec_search level n lvs = Some r \<and> (\<forall>lv. r = Some lv \<longrightarrow> lv_level lv = level \<and> lv \<in> set (take n lvs))"
  using assms by (induction level n lvs rule: sec_search.induct) auto

lemma sec_find_level_ok:
  assumes "sec_ok sec"
  obtains r where "sec_find_level sec level = Some r"
    "\<forall>lv. r = Some lv \<longrightarrow> lv_level lv = level \<and> sec_level_ok (xc_seed_buf_size (xs_cfg sec)) lv"
proof -
  have n: "unat (xc_levels_count (xs_cfg sec)) \<le> length (sec_levels (xs_cfg sec))"
    and a: "list_all (sec_level_ok (xc_seed_buf_size (xs_cfg sec))) (take (unat (xc_levels_count (xs_cfg sec))) (sec_levels (xs_cfg sec)))"
    using assms by (auto simp: sec_ok_def sec_cfg_ok_def)
  from sec_search_total[OF n, of level] obtain r where "sec_find_level sec level = Some r"
    "\<forall>lv. r = Some lv \<longrightarrow> lv_level lv = level \<and> lv \<in> set (take (unat (xc_levels_count (xs_cfg sec))) (sec_levels (xs_cfg sec)))"
    by (auto simp: sec_find_level_def)
  then show thesis using that a by (auto simp: list_all_iff)
qed

lemma sec_of_env:
  assumes "svc_fit (svc_env_ok e0) w" "dg_secs (uw_env w) u = Some sec"
  shows "sec_ok sec"
proof -
  have "u \<in> dom (dg_secs (uw_env w))" using assms(2) by blast
  then have "sec_ok (the (dg_secs (uw_env w) u))" using assms(1) unfolding svc_fit_def svc_env_ok_def by blast
  then show ?thesis using assms(2) by simp
qed

lemma svc_fit_forget: "svc_fit (svc_env_ok e0) w \<Longrightarrow> svc_fit (svc_env_ok e0) (sec_forget u w)"
  unfolding sec_forget_def by (rule svc_fit_sec) (simp_all add: sec_ok_def)

lemma frame_forget: "svc_fit J w \<Longrightarrow> uds_frame w (sec_forget u w)"
  unfolding sec_forget_def by (rule frame_sec)

lemma uw_forget [simp]: "uw_srv (sec_forget u w) = uw_srv w"
  by (simp add: sec_forget_def)

text \<open>Two writes and the length, as every positive answer of the exchange ends.\<close>

lemma svc_keeps_echo:
  assumes f: "svc_fit J w" and p: "uds_answer_phase (cx_phase (uw_ctx w))"
  shows "svc_keeps J w (do { w1 \<leftarrow> put_out 1 [x] w; svc_done n w1 })"
proof (rule svc_keeps_put[OF f p])
  show "1 + length [x] \<le> unat (uc_out_buf_size (uw_cfg w))" using out_buf_3[OF f] by simp
qed (use p in \<open>auto intro: svc_keeps_done\<close>)

lemma svc_keeps_seed:
  assumes f: "svc_fit J w" and p: "uds_answer_phase (cx_phase (uw_ctx w))" and n: "2 + length s \<le> unat (uc_out_buf_size (uw_cfg w))"
  shows "svc_keeps J w (do { w1 \<leftarrow> put_out 2 s w; w2 \<leftarrow> put_out 1 [x] w1; svc_done m w2 })"
proof (rule svc_keeps_put[OF f p n])
  fix w1 assume "svc_fit J w1" "uw_txn w1 = uw_txn w"
  then show "svc_keeps J w1 (do { w2 \<leftarrow> put_out 1 [x] w1; svc_done m w2 })" using p by (intro svc_keeps_echo) simp_all
qed

lemma seed_room:
  assumes "sec_level_ok room lv" "room \<le> 0xFFFFFFFD" "\<not> cap < 2 + lv_seed_len lv" "cap \<le> (n :: u32)"
  shows "2 + unat (lv_seed_len lv) \<le> unat n"
proof -
  have l: "unat (lv_seed_len lv) \<le> 4294967293"
    using assms(1,2) by (simp add: sec_level_ok_def word_le_nat_alt)
  have "unat (2 + lv_seed_len lv) = 2 + unat (lv_seed_len lv)"
    using l by (simp add: unat_word_ariths)
  moreover have "unat (2 + lv_seed_len lv) \<le> unat cap" using assms(3) by (simp add: word_le_nat_alt not_less)
  moreover have "unat cap \<le> unat n" using assms(4) by (simp add: word_le_nat_alt)
  ultimately show ?thesis by simp
qed

lemma req_from_fit:
  assumes f: "svc_fit J w" and n: "2 + unat n \<le> unat (uc_req_buf_size (uw_cfg w))"
  shows "\<exists>x. req_from w n = Some x"
proof -
  obtain b where "uc_req_buf (uw_cfg w) = Some b" "length b = unat (uc_req_buf_size (uw_cfg w))"
    using f by (auto simp: svc_fit_def elim: uds_cfg_invE)
  then show ?thesis using n by (simp add: req_from_def mem_read_def)
qed

lemma sec_do_seed_keeps:
  assumes f: "svc_fit (svc_env_ok e0) w" and p: "uds_answer_phase (cx_phase (uw_ctx w))"
    and s: "dg_secs (uw_env w) u = Some sec" and lv: "sec_level_ok (xc_seed_buf_size (xs_cfg sec)) lv"
    and cap: "cx_out_cap (uw_ctx w) \<le> uc_out_buf_size (uw_cfg w)"
    and q: "2 \<le> cx_req_len (uw_ctx w)" "cx_req_len (uw_ctx w) \<le> uc_req_buf_size (uw_cfg w)"
  shows "svc_keeps (svc_env_ok e0) w (sec_do_seed u sec lv level w)"
proof (cases "cx_out_cap (uw_ctx w) < 2 + lv_seed_len lv")
  case True
  then show ?thesis using svc_keeps_refuse[OF f] by (simp add: sec_do_seed_def)
next
  case room: False
  have ok: "sec_ok sec" by (rule sec_of_env[OF f s])
  let ?cfg = "xs_cfg sec"
  have big: "xc_seed_buf_size ?cfg \<le> 0xFFFFFFFD" using ok by (simp add: sec_ok_def sec_cfg_ok_def)
  have n2: "2 + unat (lv_seed_len lv) \<le> unat (uc_out_buf_size (uw_cfg w))" by (rule seed_room[OF lv big room cap])
  have ff: "svc_fit (svc_env_ok e0) (sec_forget u w)" and fr: "uds_frame w (sec_forget u w)" using f by (auto intro: svc_fit_forget frame_forget)
  show ?thesis
  proof (cases "cx_suppress_pos (uw_ctx w) \<or> cx_sec_level (uw_ctx w) = level")
    case True
    have "svc_keeps (svc_env_ok e0) w (do { w1 \<leftarrow> put_out 1 [cx_sub (uw_ctx w)] (sec_forget u w); svc_done 2 w1 })"
      by (rule svc_keeps_after[OF fr svc_keeps_echo[OF ff]]) (use p in simp)
    moreover have "svc_keeps (svc_env_ok e0) w (do {
        w1 \<leftarrow> put_out 2 (replicate (unat (lv_seed_len lv)) 0) (sec_forget u w);
        w2 \<leftarrow> put_out 1 [cx_sub (uw_ctx w)] w1;
        svc_done (2 + lv_seed_len lv) w2 })"
      by (rule svc_keeps_after[OF fr svc_keeps_seed[OF ff]]) (use p n2 in simp_all)
    ultimately show ?thesis using True room by (auto simp: sec_do_seed_def Let_def)
  next
    case False
    obtain g where g: "xc_seed_fn ?cfg = Some g"
      and gl: "\<And>level rec x. length (fst (snd (fst (g (xc_user ?cfg) level rec (xc_seed_buf_size ?cfg) x)))) \<le> unat (xc_seed_buf_size ?cfg)"
      using ok by (auto simp: sec_ok_def sec_cfg_ok_def sec_seed_fits_def split: option.splits)
    have "unat (cx_req_len (uw_ctx w) - 2) = unat (cx_req_len (uw_ctx w)) - 2"
      using q(1) by (simp add: unat_sub word_le_nat_alt)
    moreover have "2 \<le> unat (cx_req_len (uw_ctx w))" "unat (cx_req_len (uw_ctx w)) \<le> unat (uc_req_buf_size (uw_cfg w))"
      using q by (simp_all add: word_le_nat_alt)
    ultimately have "2 + unat (cx_req_len (uw_ctx w) - 2) \<le> unat (uc_req_buf_size (uw_cfg w))" by linarith
    then obtain rec where rec: "req_from w (cx_req_len (uw_ctx w) - 2) = Some rec" using req_from_fit[OF f] by blast
    obtain area where area: "xc_seed_buf ?cfg = Some area" "length area = unat (xc_seed_buf_size ?cfg)"
      using ok by (auto simp: sec_ok_def sec_cfg_ok_def uds_buffer_def split: option.splits)
    obtain good seed n x where r: "g (xc_user ?cfg) level rec (xc_seed_buf_size ?cfg) (dg_app (uw_env w)) = ((good, seed, n), x)" by (metis surj_pair)
    have ls: "length seed \<le> length area" using gl[of level rec "dg_app (uw_env w)"] r area(2) by simp
    then obtain area1 where a1: "mem_write 0 seed area = Some area1" using mem_write_ok[of 0 seed area] by auto
    have l1: "length area1 = length area" using a1 by (rule mem_write_length)
    let ?w1 = "upd_sec u (\<lambda>s. s\<lparr> xs_cfg := (xs_cfg s)\<lparr> xc_seed_buf := Some area1 \<rparr> \<rparr>) (upd_app x w)"
    have fa: "svc_fit (svc_env_ok e0) (upd_app x w)" by (rule svc_fit_app[OF f])
    have f1: "svc_fit (svc_env_ok e0) ?w1"
    proof (rule svc_fit_sec[OF fa])
      fix t assume "dg_secs (uw_env (upd_app x w)) u = Some t" "sec_ok t"
      then have t: "t = sec" using s by simp
      show "sec_ok (t\<lparr> xs_cfg := (xs_cfg t)\<lparr> xc_seed_buf := Some area1 \<rparr> \<rparr>)"
        using ok l1 area t by (simp add: sec_ok_def sec_cfg_ok_def uds_buffer_def sec_levels_def sec_seed_fits_def cong: option.case_cong)
    qed
    have fr1: "uds_frame w ?w1" by (rule uds_frame_trans[OF frame_app[OF f] frame_sec[OF fa]])
    have e: "sec_do_seed u sec lv level w =
        (if \<not> good then svc_refuse NX_UDS_NRC_CONDITIONS_NOT_CORRECT ?w1
         else if n \<noteq> lv_seed_len lv then svc_refuse NX_UDS_NRC_CONDITIONS_NOT_CORRECT (sec_forget u ?w1)
         else do {
           out \<leftarrow> mem_read 0 (unat n) area1;
           w2 \<leftarrow> put_out 2 out (upd_sec u (\<lambda>s. s\<lparr> xs_seed_level := level, xs_seed_len := n \<rparr>) ?w1);
           w3 \<leftarrow> put_out 1 [cx_sub (uw_ctx w)] w2;
           svc_done (2 + n) w3 })"
      using False room g rec area(1) r a1 by (simp add: sec_do_seed_def Let_def)
    show ?thesis
    proof (cases "good \<and> n = lv_seed_len lv")
      case no: False
      have "svc_keeps (svc_env_ok e0) w (svc_refuse NX_UDS_NRC_CONDITIONS_NOT_CORRECT (sec_forget u ?w1))"
        by (rule svc_keeps_after[OF uds_frame_trans[OF fr1 frame_forget[OF f1]] svc_keeps_refuse[OF svc_fit_forget[OF f1]]])
      then show ?thesis using no svc_keeps_after[OF fr1 svc_keeps_refuse[OF f1]] by (auto simp: e)
    next
      case True
      let ?w2 = "upd_sec u (\<lambda>s. s\<lparr> xs_seed_level := level, xs_seed_len := n \<rparr>) ?w1"
      have sl: "lv_seed_len lv \<le> xc_seed_buf_size ?cfg" using lv by (simp add: sec_level_ok_def)
      then have "unat n \<le> length area1" using True area(2) l1 by (simp add: word_le_nat_alt)
      then have m: "mem_read 0 (unat n) area1 = Some (take (unat n) area1)" "length (take (unat n) area1) = unat n" by (simp_all add: mem_read_def)
      have f2: "svc_fit (svc_env_ok e0) ?w2"
        by (rule svc_fit_sec[OF f1]) (use s sl True in \<open>auto simp: sec_ok_def\<close>)
      have "svc_keeps (svc_env_ok e0) ?w2 (do {
          w2 \<leftarrow> put_out 2 (take (unat n) area1) ?w2; w3 \<leftarrow> put_out 1 [cx_sub (uw_ctx w)] w2; svc_done (2 + n) w3 })"
        by (rule svc_keeps_seed[OF f2]) (use p n2 m(2) True in simp_all)
      from svc_keeps_after[OF uds_frame_trans[OF fr1 frame_sec[OF f1]] this] show ?thesis using True m(1) by (simp add: e)
    qed
  qed
qed

lemma sec_now_fit:
  assumes f: "svc_fit J w" and s: "xc_srv (xs_cfg sec)"
  obtains t e where "sec_now sec w = Some (t, w\<lparr> uw_env := e \<rparr>)" "uds_frame w (w\<lparr> uw_env := e \<rparr>)" "svc_fit J (w\<lparr> uw_env := e \<rparr>)"
proof -
  obtain t e where "uds_now w = Some (t, w\<lparr> uw_env := e \<rparr>)" "uds_frame w (w\<lparr> uw_env := e \<rparr>)" "svc_fit J (w\<lparr> uw_env := e \<rparr>)"
    by (rule uds_now_fit[OF f])
  then show thesis using that s by (simp add: sec_now_def sec_srv_def nx_uds_server_now_def)
qed

lemma sec_do_key_keeps:
  assumes f: "svc_fit (svc_env_ok e0) w" and p: "uds_answer_phase (cx_phase (uw_ctx w))"
    and s: "dg_secs (uw_env w) u = Some sec"
    and q: "2 \<le> cx_req_len (uw_ctx w)" "cx_req_len (uw_ctx w) \<le> uc_req_buf_size (uw_cfg w)"
  shows "svc_keeps (svc_env_ok e0) w (sec_do_key u sec lv level w)"
proof -
  let ?c = "uw_ctx w" and ?cfg = "xs_cfg sec"
  have ok: "sec_ok sec" by (rule sec_of_env[OF f s])
  have srv: "xc_srv ?cfg" using ok by (simp add: sec_ok_def sec_cfg_ok_def)
  consider "xs_seed_level sec \<noteq> level \<or> cx_req_len ?c \<noteq> 2 + lv_key_len lv \<or> cx_out_cap ?c < SEC_KEY_RSP_LEN"
    | "xs_seed_level sec = level" "cx_req_len ?c = 2 + lv_key_len lv" "\<not> cx_out_cap ?c < SEC_KEY_RSP_LEN" by blast
  then show ?thesis
  proof cases
    case 1
    then show ?thesis using svc_keeps_refuse[OF f] by (auto simp: sec_do_key_def Let_def)
  next
    case 2
    obtain v where v: "xc_verify_fn ?cfg = Some v" using ok by (auto simp: sec_ok_def sec_cfg_ok_def)
    obtain area where area: "xc_seed_buf ?cfg = Some area" "length area = unat (xc_seed_buf_size ?cfg)"
      using ok by (auto simp: sec_ok_def sec_cfg_ok_def uds_buffer_def split: option.splits)
    have "unat (xs_seed_len sec) \<le> length area" using ok area(2) by (simp add: sec_ok_def word_le_nat_alt)
    then obtain seed where seed: "mem_read 0 (unat (xs_seed_len sec)) area = Some seed" by (simp add: mem_read_def)
    have "lv_key_len lv = cx_req_len ?c - 2" using 2(2) by simp
    then have "unat (lv_key_len lv) = unat (cx_req_len ?c) - 2" using q(1) by (simp add: unat_sub word_le_nat_alt)
    moreover have "2 \<le> unat (cx_req_len ?c)" "unat (cx_req_len ?c) \<le> unat (uc_req_buf_size (uw_cfg w))"
      using q by (simp_all add: word_le_nat_alt)
    ultimately have "2 + unat (lv_key_len lv) \<le> unat (uc_req_buf_size (uw_cfg w))" by linarith
    then obtain key where key: "req_from w (lv_key_len lv) = Some key" using req_from_fit[OF f] by blast
    obtain right x where r: "v (xc_user ?cfg) level seed key (dg_app (uw_env w)) = (right, x)" by (metis surj_pair)
    let ?w1 = "sec_forget u (upd_app x w)"
    have fa: "svc_fit (svc_env_ok e0) (upd_app x w)" by (rule svc_fit_app[OF f])
    have f1: "svc_fit (svc_env_ok e0) ?w1" by (rule svc_fit_forget[OF fa])
    have fr1: "uds_frame w ?w1" by (rule uds_frame_trans[OF frame_app[OF f] frame_forget[OF fa]])
    let ?a = "if xs_attempts sec < 0xFF then xs_attempts sec + 1 else xs_attempts sec"
    let ?w2 = "upd_sec u (\<lambda>s. s\<lparr> xs_attempts := ?a \<rparr>) ?w1"
    let ?v2 = "upd_sec u (\<lambda>s. s\<lparr> xs_attempts := 0 \<rparr>) ?w1"
    let ?v3 = "upd_srv (\<lambda>s. s\<lparr> us_sec_level := level \<rparr>) ?v2"
    have e: "sec_do_key u sec lv level w =
        (if \<not> right then
           if ?a \<ge> xc_max_attempts ?cfg then do {
             (t, w3) \<leftarrow> sec_now sec (upd_sec u (\<lambda>s. s\<lparr> xs_waiting := True \<rparr>) ?w2);
             svc_refuse NX_UDS_NRC_EXCEEDED_NUMBER_OF_ATTEMPTS (upd_sec u (\<lambda>s. s\<lparr> xs_wait_until := t + xc_delay_us ?cfg \<rparr>) w3) }
           else svc_refuse NX_UDS_NRC_INVALID_KEY ?w2
         else do {
           w4 \<leftarrow> put_out 1 [cx_sub ?c] ?v3;
           (d, w5) \<leftarrow> svc_done SEC_KEY_RSP_LEN w4;
           Some (d, case xc_granted_fn ?cfg of None \<Rightarrow> w5 | Some h \<Rightarrow> upd_app (h (xc_user ?cfg) level (dg_app (uw_env w5))) w5) })"
      using 2 v area(1) seed key r srv
      by (simp add: sec_do_key_def Let_def sec_srv_def nx_uds_server_set_sec_level_def)
    show ?thesis
    proof (cases right)
      case False
      have f2: "svc_fit (svc_env_ok e0) ?w2" by (rule svc_fit_sec[OF f1]) (simp add: sec_ok_def)
      have fr2: "uds_frame w ?w2" by (rule uds_frame_trans[OF fr1 frame_sec[OF f1]])
      let ?w3 = "upd_sec u (\<lambda>s. s\<lparr> xs_waiting := True \<rparr>) ?w2"
      have f3: "svc_fit (svc_env_ok e0) ?w3" by (rule svc_fit_sec[OF f2]) (simp add: sec_ok_def)
      have fr3: "uds_frame w ?w3" by (rule uds_frame_trans[OF fr2 frame_sec[OF f2]])
      obtain t e where n: "sec_now sec ?w3 = Some (t, ?w3\<lparr> uw_env := e \<rparr>)" "uds_frame ?w3 (?w3\<lparr> uw_env := e \<rparr>)"
        and f4: "svc_fit (svc_env_ok e0) (?w3\<lparr> uw_env := e \<rparr>)"
        by (rule sec_now_fit[OF f3 srv])
      let ?w5 = "upd_sec u (\<lambda>s. s\<lparr> xs_wait_until := t + xc_delay_us ?cfg \<rparr>) (?w3\<lparr> uw_env := e \<rparr>)"
      have f5: "svc_fit (svc_env_ok e0) ?w5" by (rule svc_fit_sec[OF f4]) (simp add: sec_ok_def)
      have fr5: "uds_frame w ?w5" by (rule uds_frame_trans[OF uds_frame_trans[OF fr3 n(2)] frame_sec[OF f4]])
      have a: "svc_keeps (svc_env_ok e0) w (svc_refuse NX_UDS_NRC_EXCEEDED_NUMBER_OF_ATTEMPTS ?w5)"
        by (rule svc_keeps_after[OF fr5 svc_keeps_refuse[OF f5]])
      have b: "svc_keeps (svc_env_ok e0) w (svc_refuse NX_UDS_NRC_INVALID_KEY ?w2)"
        by (rule svc_keeps_after[OF fr2 svc_keeps_refuse[OF f2]])
      show ?thesis unfolding e using False n(1) a b by simp
    next
      case True
      have f2: "svc_fit (svc_env_ok e0) ?v2" by (rule svc_fit_sec[OF f1]) (simp add: sec_ok_def)
      have fr2: "uds_frame w ?v2" by (rule uds_frame_trans[OF fr1 frame_sec[OF f1]])
      have f3: "svc_fit (svc_env_ok e0) ?v3" using f2 by (simp add: svc_fit_def uds_session_inv_def)
      have "uds_frame ?v2 ?v3"
        by (rule uds_frameI[where n = "cx_out_len (uw_ctx ?v2)" and r = "cx_nrc (uw_ctx ?v2)" and k = "cx_state (uw_ctx ?v2)"])
          (use f2 in \<open>simp_all add: svc_fit_def uds_session_inv_def\<close>)
      then have fr3: "uds_frame w ?v3" by (rule uds_frame_trans[OF fr2])
      have "svc_keeps (svc_env_ok e0) ?v3 (do { w4 \<leftarrow> put_out 1 [cx_sub ?c] ?v3; (d, w5) \<leftarrow> svc_done SEC_KEY_RSP_LEN w4;
          Some (d, case xc_granted_fn ?cfg of None \<Rightarrow> w5 | Some h \<Rightarrow> upd_app (h (xc_user ?cfg) level (dg_app (uw_env w5))) w5) })"
      proof (rule svc_keeps_put[OF f3])
        show "uds_answer_phase (cx_phase (uw_ctx ?v3))" using p by simp
        show "1 + length [cx_sub ?c] \<le> unat (uc_out_buf_size (uw_cfg ?v3))" using out_buf_3[OF f3] by simp
        fix w4 assume f4: "svc_fit (svc_env_ok e0) w4" and t4: "uw_txn w4 = uw_txn ?v3"
        let ?w5 = "upd_ctx (\<lambda>c. c\<lparr> cx_out_len := SEC_KEY_RSP_LEN \<rparr>) w4"
        have f5: "svc_fit (svc_env_ok e0) ?w5" using f4 by (simp add: svc_fit_def)
        have fr5: "uds_frame w4 ?w5" by (rule frame_out_len) (use f4 t4 p in \<open>simp_all add: svc_fit_def\<close>)
        have g: "svc_keeps (svc_env_ok e0) w4 (Some (NX_UDS_DISPOSITION_DONE, upd_app y ?w5))" for y
          by (rule svc_keeps_after[OF uds_frame_trans[OF fr5 frame_app[OF f5]] svc_keeps_same[OF svc_fit_app[OF f5]]])
        have h: "svc_keeps (svc_env_ok e0) w4 (Some (NX_UDS_DISPOSITION_DONE, ?w5))"
          by (rule svc_keeps_after[OF fr5 svc_keeps_same[OF f5]])
        show "svc_keeps (svc_env_ok e0) w4 (do { (d, w5) \<leftarrow> svc_done SEC_KEY_RSP_LEN w4;
            Some (d, case xc_granted_fn ?cfg of None \<Rightarrow> w5 | Some h \<Rightarrow> upd_app (h (xc_user ?cfg) level (dg_app (uw_env w5))) w5) })"
          using g h by (cases "xc_granted_fn ?cfg") (simp_all add: svc_done_def)
      qed
      from svc_keeps_after[OF fr3 this] show ?thesis unfolding e using True by simp
    qed
  qed
qed

lemma sec_exchange_keeps:
  assumes f: "svc_fit (svc_env_ok e0) w" and p: "uds_answer_phase (cx_phase (uw_ctx w))"
    and s: "dg_secs (uw_env w) u = Some sec" and x: "uds_ctx_inv (uw_cfg w) (uw_ctx w)"
  shows "svc_keeps (svc_env_ok e0) w (sec_exchange u w)"
proof -
  let ?sub = "cx_sub (uw_ctx w)"
  obtain r where r: "sec_find_level sec (sec_level_of ?sub) = Some r"
    "\<forall>lv. r = Some lv \<longrightarrow> lv_level lv = sec_level_of ?sub \<and> sec_level_ok (xc_seed_buf_size (xs_cfg sec)) lv"
    by (rule sec_find_level_ok[OF sec_of_env[OF f s], of "sec_level_of ?sub"])
  show ?thesis
  proof (cases "sec_level_of ?sub = 0 \<or> r = None")
    case True
    then show ?thesis using s r(1) svc_keeps_refuse[OF f] by (auto simp: sec_exchange_def Let_def)
  next
    case False
    then obtain lv where lv: "r = Some lv" "sec_level_of ?sub \<noteq> 0" by auto
    have "?sub \<noteq> 0" using lv(2) by (auto simp: sec_level_of_def)
    then have q: "2 \<le> cx_req_len (uw_ctx w)" "cx_req_len (uw_ctx w) \<le> uc_req_buf_size (uw_cfg w)"
      and cap: "cx_out_cap (uw_ctx w) \<le> uc_out_buf_size (uw_cfg w)"
      using x f by (auto simp: uds_ctx_inv_def svc_fit_def uds_cfg_inv_def split: if_splits)
    have "svc_keeps (svc_env_ok e0) w (sec_do_seed u sec lv (sec_level_of ?sub) w)"
      by (rule sec_do_seed_keeps[OF f p s _ cap q]) (use r(2) lv in blast)
    then show ?thesis using s r(1) lv sec_do_key_keeps[OF f p s q] by (simp add: sec_exchange_def Let_def)
  qed
qed

lemma security_access_keeps:
  assumes f: "svc_fit (svc_env_ok e0) w" and u: "u = 0 \<or> dg_secs e0 u \<noteq> None" and x: "uds_ctx_inv (uw_cfg w) (uw_ctx w)"
  shows "svc_keeps (svc_env_ok e0) w (nx_uds_svc_security_access u w)"
proof (cases "u = 0 \<or> cx_phase (uw_ctx w) \<noteq> NX_UDS_PHASE_REQUEST")
  case True
  have "u \<noteq> 0 \<Longrightarrow> \<exists>sec. dg_secs (uw_env w) u = Some sec"
    using u f unfolding svc_fit_def svc_env_ok_def by blast
  then show ?thesis using True svc_keeps_refuse[OF f] svc_keeps_same[OF f]
    by (cases "u = 0") (auto simp: nx_uds_svc_security_access_def)
next
  case False
  then have p: "uds_answer_phase (cx_phase (uw_ctx w))" by (simp add: uds_answer_phase_def)
  have "u \<in> dom (dg_secs e0)" using u False by blast
  then obtain sec where s: "dg_secs (uw_env w) u = Some sec" using f unfolding svc_fit_def svc_env_ok_def by blast
  have srv: "xc_srv (xs_cfg sec)" using sec_of_env[OF f s] by (simp add: sec_ok_def sec_cfg_ok_def)
  obtain t e where n: "sec_now sec w = Some (t, w\<lparr> uw_env := e \<rparr>)" "uds_frame w (w\<lparr> uw_env := e \<rparr>)"
    and f1: "svc_fit (svc_env_ok e0) (w\<lparr> uw_env := e \<rparr>)" by (rule sec_now_fit[OF f srv])
  let ?w1 = "w\<lparr> uw_env := e \<rparr>" and ?g = "\<lambda>s::'a nx_uds_svc_sec. s\<lparr> xs_waiting := False, xs_attempts := 0 \<rparr>"
  have "u \<in> dom (dg_secs e0)" using u False by blast
  then obtain sec1 where s1: "dg_secs (uw_env ?w1) u = Some sec1" using f1 unfolding svc_fit_def svc_env_ok_def by blast
  have f2: "svc_fit (svc_env_ok e0) (upd_sec u ?g ?w1)" by (rule svc_fit_sec[OF f1]) (simp add: sec_ok_def)
  have "svc_keeps (svc_env_ok e0) (upd_sec u ?g ?w1) (sec_exchange u (upd_sec u ?g ?w1))"
    by (rule sec_exchange_keeps[OF f2, of _ "?g sec1"]) (use p s1 x in simp_all)
  then have a: "svc_keeps (svc_env_ok e0) w (sec_exchange u (upd_sec u ?g ?w1))"
    by (rule svc_keeps_after[OF uds_frame_trans[OF n(2) frame_sec[OF f1]]])
  have b: "svc_keeps (svc_env_ok e0) w (svc_refuse NX_UDS_NRC_REQUIRED_TIME_DELAY_NOT_EXPIRED ?w1)"
    by (rule svc_keeps_after[OF n(2) svc_keeps_refuse[OF f1]])
  show ?thesis using False s srv n(1) a b sec_exchange_keeps[OF f p s x]
    by (simp add: nx_uds_svc_security_access_def)
qed

section \<open>The contract\<close>

text \<open>The product's handlers, at their own addresses.\<close>

locale uds_product =
  fixes app :: "'x uds_diag uds_call" and e0 :: "'x uds_diag"
  assumes product_handled:
    "uds_good (svc_row_ok e0) (svc_env_ok e0) w \<Longrightarrow> ut_state (uw_txn w) \<noteq> TXN_IDLE \<Longrightarrow> uds_row_of w = Some r \<Longrightarrow>
     (uds_answer_phase (cx_phase (uw_ctx w)) \<Longrightarrow> ut_state (uw_txn w) = TXN_RUNNING) \<Longrightarrow>
     sv_handler r > AT_TRANSFER_EXIT \<Longrightarrow> svc_keeps (svc_env_ok e0) w (app (sv_handler r) (sv_user r) w)"

sublocale uds_product \<subseteq> uds_handlers "uds_services app" "svc_row_ok e0" "svc_env_ok e0"
proof unfold_locales
  fix w :: "'x diag_world" and r
  assume g: "uds_good (svc_row_ok e0) (svc_env_ok e0) w" and s: "ut_state (uw_txn w) \<noteq> TXN_IDLE" and r: "uds_row_of w = Some r"
    and run: "uds_answer_phase (cx_phase (uw_ctx w)) \<Longrightarrow> ut_state (uw_txn w) = TXN_RUNNING"
  have f: "svc_fit (svc_env_ok e0) w" by (rule svc_fit_good[OF g])
  have ok: "sv_handler r \<noteq> 0" "svc_row_ok e0 r" using uds_row_of_handler[OF g r] by simp_all
  have x: "uds_ctx_inv (uw_cfg w) (uw_ctx w)" using uds_goodD(4)[OF g] s by (simp add: uds_txn_inv_def)
  then have cap: "cx_out_cap (uw_ctx w) \<le> uc_out_buf_size (uw_cfg w)"
    using uds_goodD(2)[OF g] by (simp add: uds_ctx_inv_def uds_cfg_inv_def)
  have l: "ucast (sv_min_len r) \<le> cx_req_len (uw_ctx w)" if "uds_answer_phase (cx_phase (uw_ctx w))"
    using uds_goodD(4)[OF g] run[OF that] r by (auto simp: uds_txn_inv_def uds_row_of_def split: if_splits)
  have l5: "5 \<le> cx_req_len (uw_ctx w)" if "5 \<le> sv_min_len r" "uds_answer_phase (cx_phase (uw_ctx w))"
    using that(1) l[OF that(2)] by (simp add: word_le_nat_alt unat_ucast_wider)
  have l2: "2 \<le> cx_req_len (uw_ctx w)" if "2 \<le> sv_min_len r" "uds_answer_phase (cx_phase (uw_ctx w))"
    using that(1) l[OF that(2)] by (simp add: word_le_nat_alt unat_ucast_wider)
  consider "sv_handler r > AT_TRANSFER_EXIT" | "sv_handler r \<in> {AT_REQUEST_DOWNLOAD, AT_REQUEST_UPLOAD}" | "sv_handler r = AT_TRANSFER_DATA"
    | "sv_handler r = AT_TRANSFER_EXIT" | "sv_handler r \<le> AT_SECURITY_ACCESS" by force
  then have "svc_keeps (svc_env_ok e0) w (uds_services app (sv_handler r) (sv_user r) w)"
  proof cases
    case 1
    then show ?thesis using product_handled[OF g s r run 1] by (simp add: uds_services_def)
  next
    case 2
    have "svc_keeps (svc_env_ok e0) w (xfer_request dir (sv_user r) w)" for dir
      by (rule transfer_request_keeps[OF f _ x l5]) (use 2 ok(2) in \<open>auto simp: svc_row_ok_def\<close>)
    then show ?thesis using 2
      by (auto simp: uds_services_def nx_uds_svc_transfer_request_download_def nx_uds_svc_transfer_request_upload_def)
  next
    case 3
    have "svc_keeps (svc_env_ok e0) w (nx_uds_svc_transfer_data (sv_user r) w)"
      by (rule transfer_data_keeps[OF f _ x l2]) (use 3 ok(2) in \<open>auto simp: svc_row_ok_def\<close>)
    then show ?thesis using 3 by (simp add: uds_services_def)
  next
    case 4
    have "svc_keeps (svc_env_ok e0) w (nx_uds_svc_transfer_exit (sv_user r) w)"
      by (rule transfer_exit_keeps[OF f _ x]) (use 4 ok(2) in \<open>auto simp: svc_row_ok_def\<close>)
    then show ?thesis using 4 by (simp add: uds_services_def)
  next
    case 5
    then show ?thesis
      using ok tester_present_keeps[OF f] session_control_keeps[OF f _ cap] ecu_reset_keeps[OF f] security_access_keeps[OF f _ x]
      by (auto simp: uds_services_def svc_row_ok_def)
  qed
  then show "\<exists>d w'. uds_services app (sv_handler r) (sv_user r) w = Some (d, w') \<and> uds_frame w w' \<and> svc_env_ok e0 (uw_env w')"
    by (auto simp: svc_keeps_def split: option.splits)
qed

text \<open>A product whose other services decline every request.\<close>

definition declining_product :: "'x uds_diag uds_call" where
  "declining_product h u w = Some (NX_UDS_DISPOSITION_NO_RESPONSE, w)"

interpretation declining: uds_product declining_product e0 for e0
proof unfold_locales
  fix w :: "'a diag_world" and r
  assume "uds_good (svc_row_ok e0) (svc_env_ok e0) w"
  then show "svc_keeps (svc_env_ok e0) w (declining_product (sv_handler r) (sv_user r) w)"
    unfolding declining_product_def by (intro svc_keeps_same svc_fit_good)
qed

end
