(* ===== verification/Nx_Uds_Timing.thy ===== *)
theory Nx_Uds_Timing
  imports Nx_Uds_Diag
begin

text \<open>The time limits of the diagnostic server: no transaction outlives its limit, and a quiet conversation loses its session.\<close>

section \<open>Which transaction it is\<close>

text \<open>The limit of a transaction, as a function of its row.\<close>

definition uds_p4_of :: "'e uds_world \<Rightarrow> u32" where
  "uds_p4_of w = (case uds_row_of w of
     Some r \<Rightarrow> if sv_p4_us r \<noteq> 0 then sv_p4_us r else uc_p4_us (uw_cfg w)
   | None \<Rightarrow> uc_p4_us (uw_cfg w))"

lemma uds_txn_p4_of: "uds_good R J w \<Longrightarrow> uds_txn_p4 w = Some (uds_p4_of w)"
  using uds_txn_row_good[of R J w] by (simp add: uds_txn_p4_def uds_p4_of_def Let_def split: option.splits)

text \<open>The same transaction of the same server, in whatever state.\<close>

definition uds_stays :: "'e uds_world \<Rightarrow> 'e uds_world \<Rightarrow> bool" where
  "uds_stays w w' \<longleftrightarrow> uds_cfg_same (uw_cfg w) (uw_cfg w') \<and> ut_started (uw_txn w') = ut_started (uw_txn w) \<and> ut_row (uw_txn w') = ut_row (uw_txn w)"

text \<open>The same transaction, or none any more.\<close>

definition uds_trails :: "'e uds_world \<Rightarrow> 'e uds_world \<Rightarrow> bool" where
  "uds_trails w w' \<longleftrightarrow> uds_cfg_same (uw_cfg w) (uw_cfg w') \<and> (ut_state (uw_txn w') = TXN_IDLE \<or> uds_stays w w')"

lemma uds_cfg_same_trans: "uds_cfg_same a b \<Longrightarrow> uds_cfg_same b c \<Longrightarrow> uds_cfg_same a c"
proof -
  assume "uds_cfg_same a b" "uds_cfg_same b c"
  then obtain x y where "b = a\<lparr> uc_out_buf := x \<rparr>" "map_option length x = map_option length (uc_out_buf a)"
    "c = b\<lparr> uc_out_buf := y \<rparr>" "map_option length y = map_option length (uc_out_buf b)"
    unfolding uds_cfg_same_def by blast
  then have "c = a\<lparr> uc_out_buf := y \<rparr>" "map_option length y = map_option length (uc_out_buf a)" by simp_all
  then show ?thesis unfolding uds_cfg_same_def by blast
qed

lemma uds_cfg_same_fields:
  assumes "uds_cfg_same c c'"
  shows "uds_rows c' = uds_rows c" "uc_services_count c' = uc_services_count c" "uc_p4_us c' = uc_p4_us c" "uc_get_us c' = uc_get_us c"
proof -
  obtain b where "c' = c\<lparr> uc_out_buf := b \<rparr>" using assms unfolding uds_cfg_same_def by blast
  then show "uds_rows c' = uds_rows c" "uc_services_count c' = uc_services_count c" "uc_p4_us c' = uc_p4_us c" "uc_get_us c' = uc_get_us c"
    by simp_all
qed

lemma uds_stays_refl [simp]: "uds_stays w w"
  by (simp add: uds_stays_def)

lemma uds_stays_trans: "uds_stays a b \<Longrightarrow> uds_stays b c \<Longrightarrow> uds_stays a c"
  unfolding uds_stays_def using uds_cfg_same_trans by metis

lemma uds_stays_trails: "uds_stays a b \<Longrightarrow> uds_trails b c \<Longrightarrow> uds_trails a c"
  unfolding uds_trails_def using uds_stays_trans uds_cfg_same_trans uds_stays_def by metis

lemma uds_stays_of: "uds_stays w w' \<Longrightarrow> uds_trails w w'"
  by (simp add: uds_trails_def uds_stays_def)

lemma uds_stays_env [simp]: "uds_stays w (w\<lparr> uw_env := e \<rparr>)"
  by (simp add: uds_stays_def)

lemma uds_trails_end: "uds_cfg_same (uw_cfg w) (uw_cfg w') \<Longrightarrow> uds_trails w (uds_txn_end w')"
  by (simp add: uds_trails_def uds_txn_end_eq uds_txn_zero_def)

lemma uds_p4_of_stays:
  assumes "uds_stays w w'"
  shows "uds_p4_of w' = uds_p4_of w"
  using assms uds_cfg_same_fields[of "uw_cfg w" "uw_cfg w'"] by (simp add: uds_stays_def uds_p4_of_def uds_row_of_def)

lemma uds_frame_stays: "uds_frame w w' \<Longrightarrow> uds_stays w w'"
proof (erule uds_frameE)
  fix b n r k
  assume a: "uw_cfg w' = (uw_cfg w)\<lparr> uc_out_buf := b \<rparr>" "map_option length b = map_option length (uc_out_buf (uw_cfg w))"
    and t: "uw_txn w' = (uw_txn w)\<lparr> ut_ctx := (uw_ctx w)\<lparr> cx_out_len := n, cx_nrc := r, cx_state := k \<rparr> \<rparr>"
  have "uds_cfg_same (uw_cfg w) (uw_cfg w')" unfolding uds_cfg_same_def using a by blast
  then show ?thesis unfolding uds_stays_def t by simp
qed

lemma uds_stays_ctx [simp]: "uds_stays w (upd_ctx f w)"
  by (simp add: uds_stays_def)

lemma uds_stays_txn: "ut_started (f (uw_txn w)) = ut_started (uw_txn w) \<Longrightarrow> ut_row (f (uw_txn w)) = ut_row (uw_txn w) \<Longrightarrow> uds_stays w (upd_txn f w)"
  by (simp add: uds_stays_def)

lemma uds_put_negative_stays: "uds_good R J w \<Longrightarrow> uds_put_negative w sid nrc = Some w' \<Longrightarrow> uds_stays w w'"
proof -
  assume g: "uds_good R J w" and n: "uds_put_negative w sid nrc = Some w'"
  obtain b where b: "uc_out_buf (uw_cfg w) = Some b" "3 \<le> length b" using uds_goodD(2)[OF g] by (elim uds_cfg_invE)
  have w': "w' = uds_negative_written b sid nrc w" using n put_negative_eq[OF b, of sid nrc] by simp
  have "map_option length (Some ([0x7F, sid, nrc] @ drop 3 b)) = map_option length (uc_out_buf (uw_cfg w))" using b by simp
  then have "uds_cfg_same (uw_cfg w) (uw_cfg w')" unfolding w' uds_cfg_same_def uds_negative_written_simps by blast
  then show ?thesis by (simp add: uds_stays_def w')
qed

context uds_handlers
begin

lemma notify_stays:
  assumes g: "uds_good R J w" and s: "ut_state (uw_txn w) \<noteq> TXN_IDLE" and p: "\<not> uds_answer_phase p"
    and n: "uds_notify call w p = Some w'"
  shows "uds_stays w w'"
proof (cases "uds_row_of w")
  case None
  then show ?thesis using n uds_txn_row_good[OF g] by (simp add: uds_notify_def)
next
  case (Some r)
  let ?w = "upd_ctx (\<lambda>c. c\<lparr> cx_phase := p \<rparr>) w"
  have g1: "uds_good R J ?w" by (rule uds_phase_good[OF g s])
  obtain d w'' where c: "call (sv_handler r) (sv_user r) ?w = Some (d, w'')" and f: "uds_frame ?w w''"
    using handled[OF g1, of r] s Some p by auto
  have "w'' = w'" using n c uds_txn_row_good[OF g] Some by (simp add: uds_notify_def)
  then show ?thesis using uds_stays_trans[OF uds_stays_ctx uds_frame_stays[OF f]] by simp
qed

lemma silence_trails:
  assumes g: "uds_good R J w" and s: "ut_state (uw_txn w) \<noteq> TXN_IDLE" and n: "do { w1 \<leftarrow> uds_notify call w NX_UDS_PHASE_SILENCE; Some (uds_txn_end w1) } = Some w'"
  shows "uds_trails w w'"
proof -
  obtain w1 where w1: "uds_notify call w NX_UDS_PHASE_SILENCE = Some w1" "w' = uds_txn_end w1" using n by (auto simp: bind_eq_Some_conv)
  have "uds_stays w w1" by (rule notify_stays[OF g s _ w1(1)]) (simp add: uds_answer_phase_def)
  then show ?thesis unfolding w1(2) by (intro uds_trails_end) (simp add: uds_stays_def)
qed

lemma answer_ready_trails:
  assumes g: "uds_good R J w" and s: "ut_state (uw_txn w) = TXN_RUNNING"
    and n: "0 < cx_out_len (uw_ctx w)" "cx_out_len (uw_ctx w) \<le> uc_out_buf_size (uw_cfg w)"
    and a: "uds_txn_answer_ready call w send = Some w'"
  shows "uds_trails w w'"
proof (cases send)
  case False
  have i: "ut_state (uw_txn w) \<noteq> TXN_IDLE" using s by simp
  have "do { w1 \<leftarrow> uds_notify call w NX_UDS_PHASE_SILENCE; Some (uds_txn_end w1) } = Some w'"
    using a False by (simp add: uds_txn_answer_ready_def)
  then show ?thesis by (rule silence_trails[OF g i])
next
  case True
  let ?w = "upd_txn (\<lambda>t. t\<lparr> ut_answered := True, ut_state := TXN_SENDING \<rparr>) w"
  have g1: "uds_good R J ?w"
    by (rule uds_good_txn[OF g]) (use uds_goodD(4)[OF g] s n in \<open>auto simp: uds_txn_inv_def uds_ctx_inv_def\<close>)
  have e: "uds_notify call ?w NX_UDS_PHASE_RESPONSE = Some w'" using a True by (simp add: uds_txn_answer_ready_def)
  have "uds_stays ?w w'" by (rule notify_stays[OF g1 _ _ e]) (simp_all add: uds_answer_phase_def)
  moreover have "uds_stays w ?w" by (rule uds_stays_txn) simp_all
  ultimately show ?thesis using uds_stays_trans uds_stays_of by blast
qed

lemma refuse_trails:
  assumes g: "uds_good R J w" and s: "ut_state (uw_txn w) = TXN_RUNNING" and r: "uds_txn_refuse call w nrc = Some w'"
  shows "uds_trails w w'"
proof -
  obtain b where b: "uds_put_negative w (cx_sid (uw_ctx w)) nrc = Some (uds_negative_written b (cx_sid (uw_ctx w)) nrc w)"
    and g1: "uds_good R J (uds_negative_written b (cx_sid (uw_ctx w)) nrc w)"
    using put_negative_good[OF g s] by metis
  let ?w = "uds_negative_written b (cx_sid (uw_ctx w)) nrc w"
  have a: "uds_txn_answer_ready call ?w (\<not> uds_negative_suppressed (uw_txn ?w) (cx_ta_type (uw_ctx ?w)) nrc) = Some w'"
    using r b by (simp add: uds_txn_refuse_def)
  have "uds_trails ?w w'"
    by (rule answer_ready_trails[OF g1 _ _ _ a]) (use s uds_goodD(2)[OF g] in \<open>simp_all add: uds_cfg_inv_def\<close>)
  then show ?thesis using uds_stays_trails[OF uds_put_negative_stays[OF g b]] by blast
qed

lemma disposition_trails:
  assumes g: "uds_good R J w" and s: "ut_state (uw_txn w) = TXN_RUNNING" and a: "uds_apply_disposition call w d = Some w'"
  shows "uds_trails w w'"
proof (cases d)
  case NX_UDS_DISPOSITION_DONE
  have i: "ut_state (uw_txn w) \<noteq> TXN_IDLE" using s by simp
  have cap: "cx_out_cap (uw_ctx w) \<le> uc_out_buf_size (uw_cfg w)"
    using uds_goodD(2,4)[OF g] s by (simp add: uds_txn_inv_def uds_ctx_inv_def uds_cfg_inv_def)
  consider "cx_out_len (uw_ctx w) > cx_out_cap (uw_ctx w)" | "\<not> cx_out_len (uw_ctx w) > cx_out_cap (uw_ctx w)" "cx_out_len (uw_ctx w) = 0"
    | "\<not> cx_out_len (uw_ctx w) > cx_out_cap (uw_ctx w)" "cx_out_len (uw_ctx w) \<noteq> 0" by blast
  then show ?thesis
  proof cases
    case 1
    then have "uds_txn_refuse call w NX_UDS_NRC_RESPONSE_TOO_LONG = Some w'" using a NX_UDS_DISPOSITION_DONE by (simp add: uds_apply_disposition_def)
    then show ?thesis by (rule refuse_trails[OF g s])
  next
    case 2
    then have "do { w1 \<leftarrow> uds_notify call w NX_UDS_PHASE_SILENCE; Some (uds_txn_end w1) } = Some w'"
      using a NX_UDS_DISPOSITION_DONE by (simp add: uds_apply_disposition_def)
    then show ?thesis by (rule silence_trails[OF g i])
  next
    case 3
    then have n: "0 < cx_out_len (uw_ctx w)" "cx_out_len (uw_ctx w) \<le> uc_out_buf_size (uw_cfg w)"
      using cap by (auto simp: word_neq_0_conv)
    obtain send where "uds_txn_answer_ready call w send = Some w'"
      using a 3 NX_UDS_DISPOSITION_DONE uds_txn_row_good[OF g] by (simp add: uds_apply_disposition_def)
    then show ?thesis by (rule answer_ready_trails[OF g s n])
  qed
next
  case NX_UDS_DISPOSITION_PENDING
  then have "w' = upd_txn (\<lambda>t. t\<lparr> ut_state := TXN_RUNNING \<rparr>) w" using a by (simp add: uds_apply_disposition_def)
  then show ?thesis by (simp add: uds_trails_def uds_stays_def)
next
  case NX_UDS_DISPOSITION_NEGATIVE
  then obtain nrc where "uds_txn_refuse call w nrc = Some w'" using a by (simp add: uds_apply_disposition_def)
  then show ?thesis by (rule refuse_trails[OF g s])
next
  case NX_UDS_DISPOSITION_NO_RESPONSE
  have i: "ut_state (uw_txn w) \<noteq> TXN_IDLE" using s by simp
  have "do { w1 \<leftarrow> uds_notify call w NX_UDS_PHASE_SILENCE; Some (uds_txn_end w1) } = Some w'"
    using a NX_UDS_DISPOSITION_NO_RESPONSE by (simp add: uds_apply_disposition_def)
  then show ?thesis by (rule silence_trails[OF g i])
qed

lemma run_handler_trails:
  assumes g: "uds_good R J w" and s: "ut_state (uw_txn w) = TXN_RUNNING" and h: "uds_run_handler call w p = Some w'"
  shows "uds_trails w w'"
proof (cases "uds_row_of w")
  case None
  then show ?thesis using h uds_txn_row_good[OF g] uds_stays_of[OF uds_stays_refl] by (simp add: uds_run_handler_def)
next
  case (Some r)
  let ?w = "upd_ctx (\<lambda>c. c\<lparr> cx_phase := p, cx_nrc := NX_UDS_NRC_NONE \<rparr>) w"
  have g1: "uds_good R J ?w"
    by (rule uds_good_ctx[OF g]) (use uds_goodD(4)[OF g] s in \<open>simp add: uds_txn_inv_def uds_ctx_inv_def\<close>)
  obtain d w2 where c: "call (sv_handler r) (sv_user r) ?w = Some (d, w2)" and f: "uds_frame ?w w2" and j: "J (uw_env w2)"
    using handled[OF g1, of r] s Some by auto
  have g2: "uds_good R J w2" by (rule uds_frame_good[OF g1 _ f j]) (use s in simp_all)
  have s2: "ut_state (uw_txn w2) = TXN_RUNNING" using uds_frame_state(1)[OF f] s by simp
  have "uds_apply_disposition call w2 d = Some w'" using h c uds_txn_row_good[OF g] Some by (simp add: uds_run_handler_def)
  then have "uds_trails w2 w'" by (rule disposition_trails[OF g2 s2])
  then show ?thesis using uds_stays_trails uds_stays_trans[OF uds_stays_ctx uds_frame_stays[OF f]] by blast
qed

end

section \<open>The limits\<close>

lemma uds_now_env: "uds_now w = Some (t, w1) \<Longrightarrow> \<exists>e. w1 = w\<lparr> uw_env := e \<rparr>"
  by (cases "uc_get_us (uw_cfg w)") (auto simp: uds_now_def case_prod_beta)

lemma uds_now_stays: "uds_now w = Some (t, w1) \<Longrightarrow> uds_stays w w1"
  using uds_now_env by fastforce

lemma emit_pending_stays:
  assumes g: "uds_good R J w" and e: "uds_emit_pending w = Some (taken, w')"
  shows "uds_stays w w'"
proof -
  let ?x = "[NX_UDS_NEG_RSP_SID, cx_sid (uw_ctx w), NX_UDS_NRC_RESPONSE_PENDING]"
  obtain b v where o: "uds_offer w ?x = (b, w\<lparr> uw_env := v \<rparr>)" by (rule offer_good[OF g])
  let ?w1 = "w\<lparr> uw_env := v \<rparr>"
  show ?thesis
  proof (cases b)
    case False
    show ?thesis
    proof (cases "ut_pend_stuck (uw_txn w)")
      case True
      then show ?thesis using e o False by (auto simp: uds_emit_pending_def)
    next
      case no: False
      then obtain t w2 where n: "uds_now ?w1 = Some (t, w2)" and w': "w' = upd_txn (\<lambda>x. x\<lparr> ut_pend_stuck := True, ut_pend_give_up := t + uc_p2_star_us (uw_cfg ?w1) \<rparr>) w2"
        using e o False by (auto simp: uds_emit_pending_def bind_eq_Some_conv)
      have "uds_stays w w2" using uds_stays_trans[OF uds_stays_env uds_now_stays[OF n]] .
      then show ?thesis unfolding w' by (simp add: uds_stays_def)
    qed
  next
    case True
    let ?w2 = "upd_txn (\<lambda>x. x\<lparr> ut_pend_stuck := False, ut_ctx := (ut_ctx x)\<lparr> cx_suppress_pos := False \<rparr>, ut_pending_sent := True,
                     ut_pend_count := (if ut_pend_count x < 0xFF then ut_pend_count x + 1 else ut_pend_count x) \<rparr>) ?w1"
    obtain t w3 where n: "uds_now ?w2 = Some (t, w3)"
      and w': "w' = upd_txn (\<lambda>x. x\<lparr> ut_deadline := t + uc_p2_star_us (uw_cfg ?w2) - uc_p2_adjust_us (uw_cfg ?w2) \<rparr>) w3"
      using e o True by (auto simp: uds_emit_pending_def Let_def bind_eq_Some_conv)
    have "uds_stays ?w2 w3" by (rule uds_now_stays[OF n])
    then show ?thesis unfolding w' by (simp add: uds_stays_def)
  qed
qed

text \<open>Limits of at most half the range of the clock, the most that the comparison of two readings can tell.\<close>

definition uds_limits_short :: "'e nx_uds_server_cfg \<Rightarrow> bool" where
  "uds_limits_short c \<longleftrightarrow> uc_p4_us c \<le> 0x80000000 \<and>
     list_all (\<lambda>r. sv_p4_us r \<le> 0x80000000) (take (unat (uc_services_count c)) (uds_rows c))"

text \<open>A transaction within its limit at the time \<open>t\<close>.\<close>

definition uds_within :: "u32 \<Rightarrow> 'e uds_world \<Rightarrow> bool" where
  "uds_within t w \<longleftrightarrow>
     (if ut_state (uw_txn w) = TXN_RUNNING \<or> ut_state (uw_txn w) = TXN_SENDING
      then \<not> uds_expired t (ut_started (uw_txn w) + uds_p4_of w)
      else ut_state (uw_txn w) = TXN_AWAIT \<longrightarrow> \<not> uds_expired t (ut_deadline (uw_txn w)))"

lemma uds_p4_of_range:
  assumes g: "uds_good R J w" and l: "uds_limits_short (uw_cfg w)"
  shows "uds_p4_of w \<noteq> 0" "uds_p4_of w \<le> 0x80000000"
proof -
  have p: "uc_p4_us (uw_cfg w) \<noteq> 0" "uc_p4_us (uw_cfg w) \<le> 0x80000000"
    using uds_goodD(2)[OF g] l by (simp_all add: uds_cfg_inv_def uds_limits_short_def)
  have r: "sv_p4_us r \<le> 0x80000000" if "uds_row_of w = Some r" for r
  proof -
    have i: "ut_row (uw_txn w) < uc_services_count (uw_cfg w)" "uds_rows (uw_cfg w) ! unat (ut_row (uw_txn w)) = r"
      using that by (auto simp: uds_row_of_def split: if_splits)
    then show ?thesis using l uds_row_at(1)[OF uds_goodD(2)[OF g] i(1)]
      by (auto simp: uds_limits_short_def list_all_length word_less_nat_alt)
  qed
  show "uds_p4_of w \<noteq> 0" "uds_p4_of w \<le> 0x80000000"
    using p r by (auto simp: uds_p4_of_def split: option.splits)
qed

lemma not_expired_ahead:
  assumes "d \<noteq> 0" "d \<le> (0x80000000 :: u32)"
  shows "\<not> uds_expired t (t + d)"
proof -
  have "0 < d" using assms(1) by (simp add: word_neq_0_conv)
  then have u: "0 < uint d" "uint d \<le> 2147483648" using assms(2) by (simp_all add: word_le_def word_less_def)
  have "sint (t - (t + d)) = signed_take_bit 31 (- uint d)"
    by (simp add: sint_uint uint_word_ariths signed_take_bit_eq_iff_take_bit_eq take_bit_eq_mod)
  also have "\<dots> = - uint d" by (rule signed_take_bit_int_eq_self) (use u in simp_all)
  finally show ?thesis using u by (simp add: uds_expired_def tick_reached_def tick_diff_def)
qed

lemma now_fixed: "uc_get_us (uw_cfg w) = Some (\<lambda>e. (t, e)) \<Longrightarrow> uds_now w = Some (t, w)"
  by (simp add: uds_now_def)

lemma within_idle: "ut_state (uw_txn w) = TXN_IDLE \<Longrightarrow> uds_within t w"
  by (simp add: uds_within_def)

context uds_handlers
begin

lemma process_session_stays:
  assumes g: "uds_good R J w" and p: "uds_process_session w = Some w'"
  shows "uds_stays w w'"
proof (cases "us_s3_armed (uw_srv w)")
  case False
  then show ?thesis using p by (simp add: uds_process_session_def)
next
  case True
  obtain t e where n: "uds_now w = Some (t, w\<lparr> uw_env := e \<rparr>)" and g1: "uds_good R J (w\<lparr> uw_env := e \<rparr>)" by (rule uds_good_now[OF g])
  have r: "NX_UDS_SESSION_IN_RANGE NX_UDS_SESSION_DEFAULT" by (simp add: NX_UDS_SESSION_IN_RANGE_def)
  obtain w2 where "uds_enter_session (w\<lparr> uw_env := e \<rparr>) NX_UDS_SESSION_DEFAULT = Some w2" "uw_cfg w2 = uw_cfg w" "uw_txn w2 = uw_txn w"
    using enter_session_good[OF g1 r] by auto
  then show ?thesis using p n True by (auto simp: uds_process_session_def uds_stays_def split: if_splits)
qed

lemma process_limit_within:
  assumes g: "uds_good R J w" and t: "uc_get_us (uw_cfg w) = Some (\<lambda>e. (t, e))" and p: "uds_process_limit call w = Some w'"
  shows "uds_trails w w'" "ut_state (uw_txn w') = TXN_RUNNING \<Longrightarrow> uds_within t w'"
proof -
  have "uds_trails w w' \<and> (ut_state (uw_txn w') = TXN_RUNNING \<longrightarrow> uds_within t w')"
  proof (cases "ut_state (uw_txn w) = TXN_RUNNING")
    case False
    then show ?thesis using p uds_stays_of[OF uds_stays_refl] by (simp add: uds_process_limit_def)
  next
    case s: True
    obtain b where o: "uds_over_limit w = Some (b, w)" "\<not> b \<longrightarrow> \<not> uds_expired t (ut_started (uw_txn w) + uds_p4_of w)"
      using now_fixed[OF t] uds_txn_p4_of[OF g] max_pending_good[OF g]
      by (cases "uds_expired t (ut_started (uw_txn w) + uds_p4_of w)") (auto simp: uds_over_limit_def)
    show ?thesis
    proof (cases b)
      case False
      then have "w' = w" using p o(1) s by (simp add: uds_process_limit_def)
      then show ?thesis using o(2) False s uds_stays_of[OF uds_stays_refl] by (simp add: uds_within_def)
    next
      case True
      have i: "ut_state (uw_txn w) \<noteq> TXN_IDLE" "\<not> uds_answer_phase NX_UDS_PHASE_ABORT" using s by (simp_all add: uds_answer_phase_def)
      obtain w2 where n: "uds_notify call w NX_UDS_PHASE_ABORT = Some w2" and g2: "uds_good R J w2" and s2: "ut_state (uw_txn w2) = TXN_RUNNING"
        using notify_good[OF g i] s by auto
      obtain nrc where r: "uds_txn_refuse call w2 nrc = Some w'"
        using p o(1) n s True by (auto simp: uds_process_limit_def bind_eq_Some_conv)
      have "ut_state (uw_txn w') \<noteq> TXN_RUNNING" using refuse_good[OF g2 s2, of nrc] r by auto
      then show ?thesis using uds_stays_trails[OF notify_stays[OF g i n] refuse_trails[OF g2 s2 r]] by simp
    qed
  qed
  then show "uds_trails w w'" "ut_state (uw_txn w') = TXN_RUNNING \<Longrightarrow> uds_within t w'" by blast+
qed

lemma process_running_within:
  assumes g: "uds_good R J w" and v: "ut_state (uw_txn w) = TXN_RUNNING \<Longrightarrow> uds_within t w"
    and p: "uds_process_running call w = Some (b, w')"
  shows "uds_trails w w'" "b \<Longrightarrow> ut_state (uw_txn w') = TXN_IDLE" "ut_state (uw_txn w') = TXN_RUNNING \<Longrightarrow> uds_within t w'"
proof -
  have "uds_trails w w' \<and> (b \<longrightarrow> ut_state (uw_txn w') = TXN_IDLE) \<and> (ut_state (uw_txn w') = TXN_RUNNING \<longrightarrow> uds_within t w')"
  proof (cases "ut_state (uw_txn w) = TXN_RUNNING")
    case False
    then show ?thesis using p uds_stays_of[OF uds_stays_refl] by (simp add: uds_process_running_def)
  next
    case s: True
    obtain u e where n: "uds_now w = Some (u, w\<lparr> uw_env := e \<rparr>)" and g1: "uds_good R J (w\<lparr> uw_env := e \<rparr>)" by (rule uds_good_now[OF g])
    let ?w1 = "w\<lparr> uw_env := e \<rparr>"
    have s1: "ut_state (uw_txn ?w1) = TXN_RUNNING" using s by simp
    obtain tk wp where ep: "uds_emit_pending ?w1 = Some (tk, wp)" "uds_good R J wp" "ut_state (uw_txn wp) = TXN_RUNNING"
      by (rule emit_pending_good[OF g1 s1])
    have sp: "uds_stays w wp" using uds_stays_trans[OF uds_stays_env emit_pending_stays[OF g1 ep(1)]] .
    define w2 where "w2 = (if uds_expired u (ut_deadline (uw_txn ?w1)) then wp else ?w1)"
    have e2: "(if uds_expired u (ut_deadline (uw_txn ?w1)) then map_option snd (uds_emit_pending ?w1) else Some ?w1) = Some w2"
      and a2: "uds_good R J w2" "ut_state (uw_txn w2) = TXN_RUNNING" "uds_stays w w2"
      using ep g1 s1 sp by (auto simp: w2_def)
    obtain x y where ny: "uds_now w2 = Some (x, w2\<lparr> uw_env := y \<rparr>)" "uds_good R J (w2\<lparr> uw_env := y \<rparr>)" by (rule uds_good_now[OF a2(1)])
    have sy: "uds_stays w (w2\<lparr> uw_env := y \<rparr>)" by (rule uds_stays_trans[OF a2(3) uds_stays_env])
    define w3 where "w3 = (if ut_pend_stuck (uw_txn w2) then w2\<lparr> uw_env := y \<rparr> else w2)"
    obtain gone where e3: "(if ut_pend_stuck (uw_txn w2)
        then do { (u, w3) \<leftarrow> uds_now w2; Some (uds_expired u (ut_pend_give_up (uw_txn w3)), w3) } else Some (False, w2)) = Some (gone, w3)"
      using ny by (cases "ut_pend_stuck (uw_txn w2)") (auto simp: w3_def)
    have a3: "uds_good R J w3 \<and> ut_state (uw_txn w3) = TXN_RUNNING \<and> uds_stays w w3"
      using ny a2 sy unfolding w3_def by simp
    have q: "(if gone then do {
          w4 \<leftarrow> uds_notify call (upd_ctx (\<lambda>c. c\<lparr> cx_result := NX_TP_N_ERROR \<rparr>) w3) NX_UDS_PHASE_LINK_ERROR;
          Some (True, uds_txn_end w4) }
        else do { w4 \<leftarrow> uds_run_handler call w3 NX_UDS_PHASE_RESUME; Some (False, w4) }) = Some (b, w')"
      using p n e2 e3 s by (simp add: uds_process_running_def)
    show ?thesis
    proof (cases gone)
      case True
      let ?w4 = "upd_ctx (\<lambda>c. c\<lparr> cx_result := NX_TP_N_ERROR \<rparr>) w3"
      obtain w5 where n5: "uds_notify call ?w4 NX_UDS_PHASE_LINK_ERROR = Some w5" "b" "w' = uds_txn_end w5"
        using q True by (auto simp: bind_eq_Some_conv)
      have g4: "uds_good R J ?w4" by (rule result_good) (use a3 in simp_all)
      have s4: "ut_state (uw_txn ?w4) \<noteq> TXN_IDLE" "\<not> uds_answer_phase NX_UDS_PHASE_LINK_ERROR" using a3 by (simp_all add: uds_answer_phase_def)
      have "uds_stays w w5" using a3 uds_stays_trans[OF uds_stays_ctx notify_stays[OF g4 s4 n5(1)]] uds_stays_trans by blast
      then have "uds_trails w w'" unfolding n5(3) by (intro uds_trails_end) (simp add: uds_stays_def)
      then show ?thesis using n5(3) by simp
    next
      case False
      then have h: "uds_run_handler call w3 NX_UDS_PHASE_RESUME = Some w'" "\<not> b" using q by (auto simp: bind_eq_Some_conv)
      have tr: "uds_trails w w'" using a3 run_handler_trails[OF _ _ h(1)] uds_stays_trails by blast
      have "uds_within t w'" if r: "ut_state (uw_txn w') = TXN_RUNNING"
      proof -
        have st: "uds_stays w w'" using tr r by (simp add: uds_trails_def)
        then show ?thesis using v[OF s] r s uds_p4_of_stays[OF st] by (simp add: uds_within_def uds_stays_def)
      qed
      then show ?thesis using tr h(2) by blast
    qed
  qed
  then show "uds_trails w w'" "b \<Longrightarrow> ut_state (uw_txn w') = TXN_IDLE" "ut_state (uw_txn w') = TXN_RUNNING \<Longrightarrow> uds_within t w'" by blast+
qed

lemma process_sending_within:
  assumes g: "uds_good R J w" and s: "ut_state (uw_txn w) = TXN_SENDING" and t: "uc_get_us (uw_cfg w) = Some (\<lambda>e. (t, e))"
    and l: "uds_limits_short (uw_cfg w)" and p: "uds_process_sending call w = Some w'"
  shows "uds_within t w'"
proof -
  obtain b e where o: "uds_offer_answer w = Some (b, w\<lparr> uw_env := e \<rparr>)" and g1: "uds_good R J (w\<lparr> uw_env := e \<rparr>)"
    by (rule offer_answer_good[OF g s])
  let ?w1 = "w\<lparr> uw_env := e \<rparr>"
  show ?thesis
  proof (cases b)
    case True
    let ?w = "upd_txn (\<lambda>x. x\<lparr> ut_state := TXN_AWAIT \<rparr>) ?w1"
    have g2: "uds_good R J ?w" by (rule uds_good_txn[OF g1]) (use uds_goodD(4)[OF g] s in \<open>simp add: uds_txn_inv_def\<close>)
    have n: "uds_now ?w = Some (t, ?w)" by (rule now_fixed) (simp add: t)
    have "w' = upd_txn (\<lambda>x. x\<lparr> ut_deadline := t + uds_p4_of ?w \<rparr>) ?w"
      using p o True n uds_txn_p4_of[OF g2] by (simp add: uds_process_sending_def)
    moreover have "\<not> uds_expired t (t + uds_p4_of ?w)"
      by (rule not_expired_ahead; rule uds_p4_of_range[OF g2]) (simp_all add: l)
    ultimately show ?thesis by (simp add: uds_within_def)
  next
    case False
    have n: "uds_now ?w1 = Some (t, ?w1)" by (rule now_fixed) (simp add: t)
    show ?thesis
    proof (cases "uds_expired t (ut_started (uw_txn w) + uds_p4_of ?w1)")
      case True
      then obtain w3 where "w' = uds_txn_end w3"
        using p o False n uds_txn_p4_of[OF g1] by (auto simp: uds_process_sending_def bind_eq_Some_conv)
      then show ?thesis by (simp add: within_idle)
    next
      case no: False
      then have "w' = ?w1" using p o False n uds_txn_p4_of[OF g1] by (simp add: uds_process_sending_def)
      then show ?thesis using no s by (simp add: uds_within_def)
    qed
  qed
qed

lemma process_await_within:
  assumes g: "uds_good R J w" and s: "ut_state (uw_txn w) = TXN_AWAIT" and t: "uc_get_us (uw_cfg w) = Some (\<lambda>e. (t, e))"
    and p: "uds_process_await call w = Some w'"
  shows "uds_within t w'"
proof (cases "uds_expired t (ut_deadline (uw_txn w))")
  case True
  then obtain w2 where "w' = uds_txn_end w2" using p s now_fixed[OF t] by (auto simp: uds_process_await_def bind_eq_Some_conv)
  then show ?thesis by (simp add: within_idle)
next
  case False
  then have "w' = w" using p s now_fixed[OF t] by (simp add: uds_process_await_def)
  then show ?thesis using False s by (simp add: uds_within_def)
qed

lemma process_within:
  assumes g: "uds_good R J w" and t: "uc_get_us (uw_cfg w) = Some (\<lambda>e. (t, e))" and l: "uds_limits_short (uw_cfg w)"
    and p: "uds_process call w = Some w'"
  shows "uds_within t w'"
proof -
  have cfg: "uc_get_us (uw_cfg v) = Some (\<lambda>e. (t, e)) \<and> uds_limits_short (uw_cfg v)" if "uds_cfg_same (uw_cfg w) (uw_cfg v)" for v
    using t l uds_cfg_same_fields[OF that] by (simp add: uds_limits_short_def)
  obtain w1 where w1: "uds_process_session w = Some w1" "uds_good R J w1" by (rule process_session_good[OF g])
  have st1: "uds_cfg_same (uw_cfg w) (uw_cfg w1)" using process_session_stays[OF g w1(1)] by (simp add: uds_stays_def)
  show ?thesis
  proof (cases "ut_state (uw_txn w1) = TXN_IDLE")
    case True
    then show ?thesis using p w1(1) by (simp add: uds_process_def within_idle)
  next
    case False
    obtain w2 where w2: "uds_process_limit call w1 = Some w2" "uds_good R J w2" by (rule process_limit_good[OF w1(2)])
    note v2 = process_limit_within[OF w1(2) conjunct1[OF cfg[OF st1]] w2(1)]
    have st2: "uds_cfg_same (uw_cfg w) (uw_cfg w2)" using v2(1) st1 uds_cfg_same_trans by (auto simp: uds_trails_def)
    obtain b w3 where w3: "uds_process_running call w2 = Some (b, w3)" "uds_good R J w3" by (rule process_running_good[OF w2(2)])
    note v3 = process_running_within[OF w2(2) v2(2) w3(1)]
    have st3: "uds_cfg_same (uw_cfg w) (uw_cfg w3)" using v3(1) st2 uds_cfg_same_trans by (auto simp: uds_trails_def)
    have q: "(if b then Some w3 else if ut_state (uw_txn w3) = TXN_SENDING then uds_process_sending call w3 else uds_process_await call w3) = Some w'"
      using p w1(1) w2(1) w3(1) False by (simp add: uds_process_def)
    consider "b" | "\<not> b" "ut_state (uw_txn w3) = TXN_SENDING" | "\<not> b" "ut_state (uw_txn w3) = TXN_AWAIT"
      | "\<not> b" "ut_state (uw_txn w3) \<noteq> TXN_SENDING" "ut_state (uw_txn w3) \<noteq> TXN_AWAIT" by blast
    then show ?thesis
    proof cases
      case 1
      then show ?thesis using q v3(2) within_idle by auto
    next
      case 2
      then show ?thesis using q process_sending_within[OF w3(2) 2(2)] cfg[OF st3] by simp
    next
      case 3
      then show ?thesis using q process_await_within[OF w3(2) 3(2)] cfg[OF st3] by simp
    next
      case 4
      then have "w' = w3" using q by (simp add: uds_process_await_def)
      moreover have "ut_state (uw_txn w3) = TXN_IDLE \<or> ut_state (uw_txn w3) = TXN_RUNNING"
        using uds_goodD(4)[OF w3(2)] 4 by (auto simp: uds_txn_inv_def split: if_splits)
      ultimately show ?thesis using v3(3) within_idle by blast
    qed
  qed
qed

end

end
