(* ===== verification/Nx_Uds_Lock.thy ===== *)
theory Nx_Uds_Lock
  imports Nx_Uds_Diag
begin

text \<open>
  What the seed and key exchange guarantees: a level is unlocked only by a key that was judged right against the seed that is outstanding
  for it, a seed is spent by the first key judged against it, and wrong keys are counted up to the wait.
\<close>

text \<open>The clock does not touch the exchanges.\<close>

definition sec_clock_apart :: "'x nx_uds_server_cfg \<Rightarrow> ('x \<Rightarrow> 's) \<Rightarrow> bool" where
  "sec_clock_apart c secs \<longleftrightarrow> (case uc_get_us c of None \<Rightarrow> True | Some f \<Rightarrow> \<forall>e. secs (snd (f e)) = secs e)"

definition sec_guarded :: "'x nx_uds_svc_sec \<Rightarrow> bool" where
  "sec_guarded s \<longleftrightarrow> xc_max_attempts (xs_cfg s) \<noteq> 0 \<and> (xs_waiting s \<or> xs_attempts s < xc_max_attempts (xs_cfg s))"

section \<open>What the steps leave alone\<close>

lemma put_out_keeps:
  "put_out i x w = Some w1 \<Longrightarrow> us_sec_level (uw_srv w1) = us_sec_level (uw_srv w) \<and> uw_env w1 = uw_env w \<and> uw_txn w1 = uw_txn w"
  by (auto simp: put_out_def bind_eq_Some_conv)

lemma sec_now_keeps:
  assumes "sec_now sec w = Some (t, w1)" "sec_clock_apart (uw_cfg w) dg_secs"
  shows "uw_srv w1 = uw_srv w" "dg_secs (uw_env w1) = dg_secs (uw_env w)"
  using assms by (auto simp: sec_now_def sec_srv_def nx_uds_server_now_def uds_now_def sec_clock_apart_def bind_eq_Some_conv
      split: if_splits option.splits prod.splits) (metis snd_conv)+

lemma sec_of_upd:
  "dg_secs (uw_env (upd_sec u f w)) u = map_option f (dg_secs (uw_env w) u)"
  "dg_secs (uw_env (upd_app x w)) u = dg_secs (uw_env w) u"
  "dg_secs (uw_env (sec_forget u w)) u = map_option (\<lambda>s. s\<lparr> xs_seed_level := 0, xs_seed_len := 0 \<rparr>) (dg_secs (uw_env w) u)"
  by (simp_all add: sec_forget_def)

text \<open>Asking for a seed.\<close>

definition sec_seed_left :: "nat \<Rightarrow> 'x nx_uds_svc_sec \<Rightarrow> 'x diag_world \<Rightarrow> nx_uds_disposition \<Rightarrow> 'x diag_world \<Rightarrow> bool" where
  "sec_seed_left u sec w d w' \<longleftrightarrow> us_sec_level (uw_srv w') = us_sec_level (uw_srv w) \<and>
     (\<exists>s'. dg_secs (uw_env w') u = Some s' \<and> xs_attempts s' = xs_attempts sec \<and> xs_waiting s' = xs_waiting sec \<and>
       xc_max_attempts (xs_cfg s') = xc_max_attempts (xs_cfg sec)) \<and>
     (d = NX_UDS_DISPOSITION_NEGATIVE \<longrightarrow> cx_nrc (uw_ctx w') \<in> {NX_UDS_NRC_RESPONSE_TOO_LONG, NX_UDS_NRC_CONDITIONS_NOT_CORRECT})"

lemma sec_do_seed_leaves:
  assumes r: "sec_do_seed u sec lv level w = Some (d, w')" and s: "dg_secs (uw_env w) u = Some sec"
  shows "sec_seed_left u sec w d w'"
proof (cases "cx_out_cap (uw_ctx w) < 2 + lv_seed_len lv")
  case True
  then show ?thesis using r s by (auto simp: sec_do_seed_def svc_refuse_def sec_seed_left_def)
next
  case room: False
  show ?thesis
  proof (cases "cx_suppress_pos (uw_ctx w) \<or> cx_sec_level (uw_ctx w) = level")
    case True
    then show ?thesis using r s room
      by (auto simp: sec_do_seed_def Let_def svc_done_def bind_eq_Some_conv sec_of_upd sec_seed_left_def split: if_splits dest!: put_out_keeps)
  next
    case False
    obtain f rec area where k: "xc_seed_fn (xs_cfg sec) = Some f" "req_from w (cx_req_len (uw_ctx w) - 2) = Some rec" "xc_seed_buf (xs_cfg sec) = Some area"
      using r room False by (auto simp: sec_do_seed_def Let_def bind_eq_Some_conv case_prod_beta)
    obtain good seed n x where q: "f (xc_user (xs_cfg sec)) level rec (xc_seed_buf_size (xs_cfg sec)) (dg_app (uw_env w)) = ((good, seed, n), x)"
      by (metis surj_pair)
    obtain area1 where a1: "mem_write 0 seed area = Some area1"
      using r room False k q by (auto simp: sec_do_seed_def Let_def bind_eq_Some_conv)
    let ?w1 = "upd_sec u (\<lambda>s. s\<lparr> xs_cfg := (xs_cfg s)\<lparr> xc_seed_buf := Some area1 \<rparr> \<rparr>) (upd_app x w)"
    have e: "(if \<not> good then svc_refuse NX_UDS_NRC_CONDITIONS_NOT_CORRECT ?w1
         else if n \<noteq> lv_seed_len lv then svc_refuse NX_UDS_NRC_CONDITIONS_NOT_CORRECT (sec_forget u ?w1)
         else do {
           out \<leftarrow> mem_read 0 (unat n) area1;
           w2 \<leftarrow> put_out 2 out (upd_sec u (\<lambda>s. s\<lparr> xs_seed_level := level, xs_seed_len := n \<rparr>) ?w1);
           w3 \<leftarrow> put_out 1 [cx_sub (uw_ctx w)] w2;
           svc_done (2 + n) w3 }) = Some (d, w')"
      using r False room k q a1 by (simp add: sec_do_seed_def Let_def)
    show ?thesis using e s
      by (cases good; cases "n = lv_seed_len lv")
        (auto simp: svc_refuse_def svc_done_def bind_eq_Some_conv sec_of_upd sec_seed_left_def dest!: put_out_keeps)
  qed
qed

text \<open>Presenting a key.\<close>

lemma sec_do_key_leaves:
  assumes r: "sec_do_key u sec lv level w = Some (d, w')" and s: "dg_secs (uw_env w) u = Some sec"
    and c: "sec_clock_apart (uw_cfg w) dg_secs" and gd: "sec_guarded sec" and nw: "\<not> xs_waiting sec"
  shows "\<exists>s'. dg_secs (uw_env w') u = Some s' \<and> sec_guarded s' \<and>
     (d = NX_UDS_DISPOSITION_NEGATIVE \<and> cx_nrc (uw_ctx w') = NX_UDS_NRC_INVALID_KEY \<longrightarrow>
        xs_attempts s' = xs_attempts sec + 1 \<and> \<not> xs_waiting s' \<and> xs_seed_level s' = 0) \<and>
     (d = NX_UDS_DISPOSITION_NEGATIVE \<and> cx_nrc (uw_ctx w') = NX_UDS_NRC_EXCEEDED_NUMBER_OF_ATTEMPTS \<longrightarrow>
        xs_attempts s' = xs_attempts sec + 1 \<and> xs_waiting s' \<and> xs_seed_level s' = 0)"
proof -
  let ?a = "if xs_attempts sec < 0xFF then xs_attempts sec + 1 else xs_attempts sec"
  have lt: "xs_attempts sec < xc_max_attempts (xs_cfg sec)" using gd nw by (simp add: sec_guarded_def)
  then have a: "?a = xs_attempts sec + 1"
  proof -
    have "unat (xc_max_attempts (xs_cfg sec)) < 256" "unat (0xFF :: u8) = 255" by simp_all
    then have "xc_max_attempts (xs_cfg sec) \<le> 0xFF" unfolding word_le_nat_alt by linarith
    then show ?thesis using lt by simp
  qed
  consider "xs_seed_level sec \<noteq> level \<or> cx_req_len (uw_ctx w) \<noteq> 2 + lv_key_len lv \<or> cx_out_cap (uw_ctx w) < SEC_KEY_RSP_LEN"
    | "xs_seed_level sec = level" "cx_req_len (uw_ctx w) = 2 + lv_key_len lv" "\<not> cx_out_cap (uw_ctx w) < SEC_KEY_RSP_LEN" by blast
  then show ?thesis
  proof cases
    case 1
    then show ?thesis using r s gd by (auto simp: sec_do_key_def Let_def svc_refuse_def split: if_splits)
  next
    case 2
    obtain v area seed key where k4: "xc_verify_fn (xs_cfg sec) = Some v" "xc_seed_buf (xs_cfg sec) = Some area"
      "mem_read 0 (unat (xs_seed_len sec)) area = Some seed" "req_from w (lv_key_len lv) = Some key"
    using r 2 by (auto simp: sec_do_key_def Let_def bind_eq_Some_conv)
    obtain right x where kv: "v (xc_user (xs_cfg sec)) level seed key (dg_app (uw_env w)) = (right, x)" by (metis surj_pair)
    note k = k4 kv
    show ?thesis
    proof (cases right)
      case True
      then show ?thesis using r 2 k s gd
        by (auto simp: sec_do_key_def Let_def svc_done_def bind_eq_Some_conv sec_of_upd sec_srv_def nx_uds_server_set_sec_level_def
            sec_guarded_def word_neq_0_conv split: option.splits if_splits dest!: put_out_keeps)
    next
      case False
      let ?w2 = "upd_sec u (\<lambda>s. s\<lparr> xs_attempts := ?a \<rparr>) (sec_forget u (upd_app x w))"
      show ?thesis
      proof (cases "?a \<ge> xc_max_attempts (xs_cfg sec)")
        case no: False
        then have "(d, w') = (NX_UDS_DISPOSITION_NEGATIVE, upd_ctx (\<lambda>c. c\<lparr> cx_nrc := NX_UDS_NRC_INVALID_KEY \<rparr>) ?w2)"
          using r 2 k False by (simp add: sec_do_key_def Let_def svc_refuse_def)
        then show ?thesis using s gd nw no a by (auto simp: sec_of_upd sec_guarded_def not_le)
      next
        case True
        let ?w3 = "upd_sec u (\<lambda>s. s\<lparr> xs_waiting := True \<rparr>) ?w2"
        obtain t w4 where n: "sec_now sec ?w3 = Some (t, w4)" and e: "d = NX_UDS_DISPOSITION_NEGATIVE"
          "w' = upd_ctx (\<lambda>c. c\<lparr> cx_nrc := NX_UDS_NRC_EXCEEDED_NUMBER_OF_ATTEMPTS \<rparr>) (upd_sec u (\<lambda>s. s\<lparr> xs_wait_until := t + xc_delay_us (xs_cfg sec) \<rparr>) w4)"
          using r 2 k False True by (auto simp: sec_do_key_def Let_def svc_refuse_def bind_eq_Some_conv)
        have "dg_secs (uw_env w4) u = dg_secs (uw_env ?w3) u" using sec_now_keeps(2)[OF n] c by (simp add: sec_forget_def)
        then show ?thesis using e s gd a by (auto simp: sec_of_upd sec_guarded_def)
      qed
    qed
  qed
qed

lemma sec_do_key_unlocks:
  assumes r: "sec_do_key u sec lv level w = Some (d, w')" and s: "dg_secs (uw_env w) u = Some sec"
    and c: "sec_clock_apart (uw_cfg w) dg_secs" and n: "us_sec_level (uw_srv w') \<noteq> us_sec_level (uw_srv w)"
  obtains v area seed key x s' where "xc_verify_fn (xs_cfg sec) = Some v" "xc_seed_buf (xs_cfg sec) = Some area"
      "mem_read 0 (unat (xs_seed_len sec)) area = Some seed" "req_from w (lv_key_len lv) = Some key"
      "v (xc_user (xs_cfg sec)) level seed key (dg_app (uw_env w)) = (True, x)"
      "xs_seed_level sec = level" "cx_req_len (uw_ctx w) = 2 + lv_key_len lv" "us_sec_level (uw_srv w') = level"
      "dg_secs (uw_env w') u = Some s'" "xs_seed_level s' = 0" "xs_attempts s' = 0"
proof (cases "xs_seed_level sec = level \<and> cx_req_len (uw_ctx w) = 2 + lv_key_len lv \<and> \<not> cx_out_cap (uw_ctx w) < SEC_KEY_RSP_LEN")
  case False
  then show thesis using r n by (auto simp: sec_do_key_def Let_def svc_refuse_def split: if_splits)
next
  case 2: True
  obtain v area seed key where k4: "xc_verify_fn (xs_cfg sec) = Some v" "xc_seed_buf (xs_cfg sec) = Some area"
    "mem_read 0 (unat (xs_seed_len sec)) area = Some seed" "req_from w (lv_key_len lv) = Some key"
  using r 2 by (auto simp: sec_do_key_def Let_def bind_eq_Some_conv)
  obtain right x where kv: "v (xc_user (xs_cfg sec)) level seed key (dg_app (uw_env w)) = (right, x)" by (metis surj_pair)
  note k = k4 kv
  show thesis
  proof (cases right)
    case True
    have "us_sec_level (uw_srv w') = level \<and> (\<exists>s'. dg_secs (uw_env w') u = Some s' \<and> xs_seed_level s' = 0 \<and> xs_attempts s' = 0)"
      using r 2 k s n True
      by (auto simp: sec_do_key_def Let_def svc_done_def bind_eq_Some_conv sec_of_upd sec_srv_def nx_uds_server_set_sec_level_def
          split: option.splits if_splits dest!: put_out_keeps)
    then obtain s' where o: "us_sec_level (uw_srv w') = level" "dg_secs (uw_env w') u = Some s'" "xs_seed_level s' = 0" "xs_attempts s' = 0" by blast
    have v: "v (xc_user (xs_cfg sec)) level seed key (dg_app (uw_env w)) = (True, x)" using k(5) True by simp
    show thesis by (rule that[OF k(1-4) v _ _ o]) (use 2 in simp_all)
  next
    case False
    let ?a = "if xs_attempts sec < 0xFF then xs_attempts sec + 1 else xs_attempts sec"
    let ?w2 = "upd_sec u (\<lambda>s. s\<lparr> xs_attempts := ?a \<rparr>) (sec_forget u (upd_app x w))"
    have "us_sec_level (uw_srv w') = us_sec_level (uw_srv w)"
    proof (cases "?a \<ge> xc_max_attempts (xs_cfg sec)")
      case no: False
      then have "w' = upd_ctx (\<lambda>c. c\<lparr> cx_nrc := NX_UDS_NRC_INVALID_KEY \<rparr>) ?w2"
        using r 2 k False by (simp add: sec_do_key_def Let_def svc_refuse_def)
      then show ?thesis by simp
    next
      case True
      let ?w3 = "upd_sec u (\<lambda>s. s\<lparr> xs_waiting := True \<rparr>) ?w2"
      obtain t w4 where m: "sec_now sec ?w3 = Some (t, w4)"
        and e: "w' = upd_ctx (\<lambda>c. c\<lparr> cx_nrc := NX_UDS_NRC_EXCEEDED_NUMBER_OF_ATTEMPTS \<rparr>) (upd_sec u (\<lambda>s. s\<lparr> xs_wait_until := t + xc_delay_us (xs_cfg sec) \<rparr>) w4)"
        using r 2 k False True by (auto simp: sec_do_key_def Let_def svc_refuse_def bind_eq_Some_conv)
      have "uw_srv w4 = uw_srv w" using sec_now_keeps(1)[OF m] c by simp
      then show ?thesis using e by simp
    qed
    then show thesis using n by simp
  qed
qed

section \<open>The service\<close>

text \<open>The exchange is done in a state that differs from the one the handler found only in the time read and the wait served.\<close>

lemma security_access_cases:
  assumes r: "nx_uds_svc_security_access u w = Some (d, w')" and s: "dg_secs (uw_env w) u = Some sec"
    and c: "sec_clock_apart (uw_cfg w) dg_secs" and u: "u \<noteq> 0" "xc_srv (xs_cfg sec)" "cx_phase (uw_ctx w) = NX_UDS_PHASE_REQUEST"
  obtains t w1 where "xs_waiting sec" "sec_now sec w = Some (t, w1)" "\<not> sec_reached t (xs_wait_until sec)"
      "d = NX_UDS_DISPOSITION_NEGATIVE" "w' = upd_ctx (\<lambda>c. c\<lparr> cx_nrc := NX_UDS_NRC_REQUIRED_TIME_DELAY_NOT_EXPIRED \<rparr>) w1"
      "uw_srv w1 = uw_srv w" "dg_secs (uw_env w1) = dg_secs (uw_env w)"
    | w1 sec1 where "sec_exchange u w1 = Some (d, w')" "uw_srv w1 = uw_srv w" "dg_secs (uw_env w1) u = Some sec1"
      "sec1 = sec\<lparr> xs_waiting := False, xs_attempts := if xs_waiting sec then 0 else xs_attempts sec \<rparr>"
proof (cases "xs_waiting sec")
  case False
  have e: "sec_exchange u w = Some (d, w')" using r s u False by (simp add: nx_uds_svc_security_access_def)
  show thesis by (rule that(2)[OF e refl s]) (use False in simp)
next
  case True
  obtain t w1 where n: "sec_now sec w = Some (t, w1)"
    and q: "(if \<not> sec_reached t (xs_wait_until sec) then svc_refuse NX_UDS_NRC_REQUIRED_TIME_DELAY_NOT_EXPIRED w1
          else sec_exchange u (upd_sec u (\<lambda>s. s\<lparr> xs_waiting := False, xs_attempts := 0 \<rparr>) w1)) = Some (d, w')"
    using r s u True by (auto simp: nx_uds_svc_security_access_def bind_eq_Some_conv)
  note k = sec_now_keeps[OF n c]
  show thesis
  proof (cases "sec_reached t (xs_wait_until sec)")
    case False
    then show thesis using q by (intro that(1)[OF True n False _ _ k]) (simp_all add: svc_refuse_def)
  next
    case yes: True
    have e: "sec_exchange u (upd_sec u (\<lambda>s. s\<lparr> xs_waiting := False, xs_attempts := 0 \<rparr>) w1) = Some (d, w')" using q yes by simp
    show thesis by (rule that(2)[OF e]) (use k s True in \<open>simp_all add: sec_of_upd\<close>)
  qed
qed

lemma sec_exchange_cases:
  assumes r: "sec_exchange u w = Some (d, w')" and s: "dg_secs (uw_env w) u = Some sec"
  obtains "d = NX_UDS_DISPOSITION_NEGATIVE" "w' = upd_ctx (\<lambda>c. c\<lparr> cx_nrc := NX_UDS_NRC_SUB_FUNCTION_NOT_SUPPORTED \<rparr>) w"
    | lv where "sec_do_seed u sec lv (sec_level_of (cx_sub (uw_ctx w))) w = Some (d, w')"
    | lv where "sec_level_of (cx_sub (uw_ctx w)) \<noteq> 0" "\<not> sec_is_seed_request (cx_sub (uw_ctx w))"
        "sec_find_level sec (sec_level_of (cx_sub (uw_ctx w))) = Some (Some lv)"
        "sec_do_key u sec lv (sec_level_of (cx_sub (uw_ctx w))) w = Some (d, w')"
proof -
  let ?l = "sec_level_of (cx_sub (uw_ctx w))"
  obtain p where p: "(if ?l \<noteq> 0 then sec_find_level sec ?l else Some None) = Some p"
    and q: "(case p of None \<Rightarrow> svc_refuse NX_UDS_NRC_SUB_FUNCTION_NOT_SUPPORTED w
       | Some l \<Rightarrow> if sec_is_seed_request (cx_sub (uw_ctx w)) then sec_do_seed u sec l ?l w else sec_do_key u sec l ?l w) = Some (d, w')"
    using r s by (auto simp: sec_exchange_def Let_def bind_eq_Some_conv)
  show thesis
  proof (cases p)
    case None
    then show thesis using q by (intro that(1)) (simp_all add: svc_refuse_def)
  next
    case (Some lv)
    then have "?l \<noteq> 0" "sec_find_level sec ?l = Some (Some lv)" using p by (auto split: if_splits)
    then show thesis using q Some that(2,3) by (cases "sec_is_seed_request (cx_sub (uw_ctx w))") auto
  qed
qed

text \<open>The even sub-function names twice its level.\<close>

lemma sec_level_of_key:
  assumes "sec_level_of sub \<noteq> 0" "\<not> sec_is_seed_request sub"
  shows "unat sub = 2 * unat (sec_level_of sub)"
proof -
  have k: "NX_UDS_SVC_SEC_KEY_SUB NX_UDS_SVC_SEC_MAX_LEVEL = 64" by (simp add: NX_UDS_SVC_SEC_KEY_SUB_def)
  have le: "unat sub \<le> 64" using assms(1) by (auto simp: sec_level_of_def k word_less_nat_alt split: if_splits)
  have "\<not> bit sub 0" using assms(2) bit_iff_and_push_bit_not_eq_0[of sub 0] by (simp add: sec_is_seed_request_def)
  then have "\<not> bit (unat sub) 0" by (simp add: bit_unsigned_iff)
  then have "even (unat sub)" by (simp add: bit_0)
  then obtain m where m: "unat sub = 2 * m" by (elim evenE)
  have "unat ((ucast sub :: u32) + 1) = unat sub + 1"
    using le by (simp add: unat_word_ariths unat_ucast_wider)
  then have "unat (((ucast sub :: u32) + 1) div 2) = m" using m by (simp add: unat_div)
  then have "unat (ucast (((ucast sub :: u32) + 1) div 2) :: u8) = m"
    using le m by (simp add: unsigned_ucast_eq take_bit_nat_eq_self)
  then show ?thesis using assms(1) m by (simp add: sec_level_of_def split: if_splits)
qed

end
