(* ===== verification/Nx_Uds_Demo.thy ===== *)
theory Nx_Uds_Demo
  imports Nx_Uds_Timing Nx_Uds_Lock
begin

text \<open>
  A small product: session control, security access, tester present and one service of its own behind level 1, with a seed of two bytes
  whose key is the seed backwards. The clock stands at 5. It shows the hypotheses of the properties to hold together.
\<close>

definition diag_row :: "u8 \<Rightarrow> u8 \<Rightarrow> u8 \<Rightarrow> u8 list \<Rightarrow> u32 \<Rightarrow> u16 \<Rightarrow> u16 \<Rightarrow> nat \<Rightarrow> nat \<Rightarrow> nx_uds_service" where
  "diag_row sid flags level subs sessions lo hi handler user =
     \<lparr> sv_sid = sid, sv_flags = flags, sv_sec_level = level, sv_subs_count = of_nat (length subs), sv_subs = Some subs,
       sv_sub_session_masks = None, sv_session_mask = sessions, sv_min_len = lo, sv_max_len = hi, sv_p4_us = 0, sv_max_pending = 0,
       sv_p4_nrc = 0, sv_handler = handler, sv_user = user \<rparr>"

definition diag_rows :: "nx_uds_service list" where
  "diag_rows =
     [diag_row 0x10 1 0 [1, 3] 0xFFFFFFFF 2 2 AT_SESSION_CONTROL 1,
      diag_row 0x27 1 0 [1, 2] 8 2 0 AT_SECURITY_ACCESS 1,
      diag_row 0x3E 1 0 [0] 0xFFFFFFFF 2 2 AT_TESTER_PRESENT 0,
      diag_row 0x22 0 1 [] 0xFFFFFFFF 3 0 9 0]"

definition diag_cfg :: "u32 uds_diag nx_uds_server_cfg" where
  "diag_cfg = \<lparr> uc_services = Some diag_rows, uc_services_count = 4, uc_out_fn = Some (\<lambda>_ _ _ _ e. (True, e)), uc_out_user = 0,
     uc_session_fn = None, uc_req_buf = Some (replicate 8 0), uc_req_buf_size = 8, uc_out_buf = Some (replicate 8 0), uc_out_buf_size = 8,
     uc_max_req_apdu = 0, uc_max_resp_apdu = 8, uc_link = 0, uc_accept_rsp_range_sid = False, uc_get_us = Some (\<lambda>e. (5, e)),
     uc_p2_us = 50000, uc_p2_star_us = 5000000, uc_p2_adjust_us = 0, uc_p4_us = 20000000, uc_p4_nrc = 0, uc_s3_us = 5000000,
     uc_max_pending = 32 \<rparr>"

definition diag_server :: "u32 uds_diag nx_uds_server" where
  "diag_server = \<lparr> us_cfg = diag_cfg, us_session = 1, us_sec_level = 0, us_s3_armed = False, us_s3_deadline = 0, us_txn = uds_txn_zero \<rparr>"

definition diag_sec_cfg :: "u32 nx_uds_svc_sec_cfg" where
  "diag_sec_cfg = \<lparr> xc_srv = True, xc_levels = Some [\<lparr> lv_level = 1, lv_seed_len = 2, lv_key_len = 2 \<rparr>], xc_levels_count = 1,
     xc_seed_fn = Some (\<lambda>_ _ _ _ x. ((True, [0x12, 0x34], 2), x)), xc_verify_fn = Some (\<lambda>_ _ seed key x. (key = rev seed, x)),
     xc_granted_fn = None, xc_user = 0, xc_seed_buf = Some [0x12, 0x34], xc_seed_buf_size = 2, xc_max_attempts = 3, xc_delay_us = 10000000 \<rparr>"

definition diag_sec :: "u32 nx_uds_svc_sec" where
  "diag_sec = \<lparr> xs_cfg = diag_sec_cfg, xs_seed_level = 0, xs_seed_len = 0, xs_attempts = 0, xs_waiting = False, xs_wait_until = 0 \<rparr>"

definition diag_env :: "u32 uds_diag" where
  "diag_env = \<lparr> dg_sessions = [1 \<mapsto> \<lparr> wc_srv = True, wc_allow_fn = None, wc_user = 0 \<rparr>], dg_resets = Map.empty, dg_secs = [1 \<mapsto> diag_sec], dg_xfers = Map.empty, dg_app = 0 \<rparr>"

abbreviation diag_call :: "u32 uds_diag uds_call" where
  "diag_call \<equiv> uds_services declining_product"

text \<open>The parts of the contract.\<close>

lemma diag_handlers: "uds_handlers diag_call (svc_row_ok diag_env) (svc_env_ok diag_env)"
  by (rule declining.uds_handlers_axioms)

lemma diag_sec_init: "nx_uds_svc_sec_init (Some s) (Some diag_sec_cfg) = Some (True, Some diag_sec)"
  by (simp add: nx_uds_svc_sec_init_def diag_sec_cfg_def diag_sec_def sec_levels_def)

lemma diag_sec_ok: "sec_ok diag_sec"
  by (simp add: sec_ok_def sec_cfg_ok_def diag_sec_def diag_sec_cfg_def uds_buffer_def sec_levels_def sec_level_ok_def sec_seed_fits_def)

lemma diag_env_ok: "svc_env_ok diag_env diag_env"
  using diag_sec_ok by (simp add: svc_env_ok_def diag_env_def)

lemma diag_rows_ok: "list_all uds_row_wf diag_rows" "list_all (svc_row_ok diag_env) diag_rows" "length diag_rows = 4"
  by (simp_all add: diag_rows_def diag_row_def uds_row_wf_def uds_row_ok_def uds_is_response_sid_def svc_row_ok_def diag_env_def)

lemma diag_cfg_rows [simp]: "uds_rows diag_cfg = diag_rows" "unat (uc_services_count diag_cfg) = 4"
  by (simp_all add: uds_rows_def diag_cfg_def)

lemma diag_cfg_inv: "uds_cfg_inv diag_cfg"
  using diag_rows_ok by (simp add: uds_cfg_inv_def uds_table_wf_def) (simp add: diag_cfg_def uds_buffer_def)

lemma diag_keeps: "uds_keeps (svc_env_ok diag_env) diag_cfg"
  by (simp add: uds_keeps_def diag_cfg_def)

lemma diag_fit: "uds_rows_fit (svc_row_ok diag_env) diag_cfg"
  using diag_rows_ok by (simp add: uds_rows_fit_def)

text \<open>A world of this product, as far as the session and the transaction go.\<close>

lemma diag_good:
  assumes "us_cfg s = diag_cfg" "uds_session_inv s" "uds_txn_inv diag_cfg (us_txn s)" "svc_env_ok diag_env e"
  shows "uds_good (svc_row_ok diag_env) (svc_env_ok diag_env) \<lparr> uw_srv = s, uw_env = e \<rparr>"
  using assms diag_cfg_inv diag_keeps diag_fit by (simp add: uds_good_def uds_inv_def)

lemma diag_server_good: "uds_good (svc_row_ok diag_env) (svc_env_ok diag_env) \<lparr> uw_srv = diag_server, uw_env = diag_env \<rparr>"
  by (rule diag_good) (simp_all add: diag_server_def uds_session_inv_def NX_UDS_SESSION_IN_RANGE_def diag_env_ok)

lemma diag_server_init: "nx_uds_server_init (Some diag_server) (Some diag_cfg) = Some (True, Some diag_server)"
proof -
  have d: "uds_defaults diag_cfg = diag_cfg" by (simp add: uds_defaults_def diag_cfg_def)
  have ok: "list_all uds_row_ok diag_rows" using diag_rows_ok(1) by (auto simp: list_all_iff uds_row_wf_def)
  obtain i where i: "uds_scan (\<lambda>r. \<not> uds_row_ok r) 4 diag_rows = Some i" "i \<le> 4"
    using uds_scan_total[of 4 diag_rows] diag_rows_ok(3) by auto
  have "i = 4"
  proof (rule ccontr)
    assume "i \<noteq> 4"
    then have "i < 4" using i(2) by simp
    from uds_scan_found[OF i(1) this] show False using ok by (auto simp: list_all_length)
  qed
  then have t: "uds_table_ok diag_cfg = Some True" using i(1) by (simp add: uds_table_ok_def)
  have c: "uds_cfg_ok diag_cfg" by (simp add: uds_cfg_ok_def diag_cfg_def)
  have x: "uc_services diag_cfg \<noteq> None" "uc_services_count diag_cfg \<noteq> 0" "\<not> uc_p2_adjust_us diag_cfg \<ge> uc_p2_us diag_cfg"
    "\<not> uc_p2_adjust_us diag_cfg \<ge> uc_p2_star_us diag_cfg" "uc_max_resp_apdu diag_cfg \<noteq> 0" by (simp_all add: diag_cfg_def)
  show ?thesis using d t c x by (simp add: nx_uds_server_init_def diag_server_def Let_def)
qed

text \<open>Transactions of this product, at three points of their life.\<close>

definition diag_txn :: "u8 \<Rightarrow> u16 \<Rightarrow> nx_uds_ctx \<Rightarrow> nx_uds_txn" where
  "diag_txn state row ctx = uds_txn_zero\<lparr> ut_state := state, ut_row := row, ut_answered := (state \<noteq> TXN_RUNNING),
     ut_started := 5 - 30000000, ut_ctx := ctx \<rparr>"

definition diag_ctx :: "u8 \<Rightarrow> u8 \<Rightarrow> u32 \<Rightarrow> u32 \<Rightarrow> nx_uds_ctx" where
  "diag_ctx sid sub n out = uds_ctx_zero\<lparr> cx_req_len := n, cx_sid := sid, cx_has_sub := True, cx_sub := sub, cx_out_cap := 8, cx_out_len := out \<rparr>"

text \<open>The exchange with its seed out, and the request with a key to it.\<close>

definition diag_keyed :: "u8 \<Rightarrow> u8 \<Rightarrow> u32 diag_world" where
  "diag_keyed a b = \<lparr> uw_srv = diag_server\<lparr> us_cfg := diag_cfg\<lparr> uc_req_buf := Some [0x27, 2, a, b, 0, 0, 0, 0] \<rparr>, us_session := 3,
       us_s3_armed := True, us_s3_deadline := 9, us_txn := diag_txn TXN_RUNNING 1 (diag_ctx 0x27 2 4 1) \<rparr>,
     uw_env = diag_env\<lparr> dg_secs := [1 \<mapsto> diag_sec\<lparr> xs_seed_level := 1, xs_seed_len := 2 \<rparr>] \<rparr> \<rparr>"

lemmas diag_keyed_defs = diag_keyed_def diag_sec_def diag_sec_cfg_def diag_txn_def diag_ctx_def diag_server_def diag_env_def
  uds_txn_zero_def uds_ctx_zero_def

lemma diag_keyed_runs:
  "\<exists>d w'. nx_uds_svc_security_access 1 (diag_keyed a b) = Some (d, w') \<and>
     (if [a, b] = [0x34, 0x12] then us_sec_level (uw_srv w') = 1
      else d = NX_UDS_DISPOSITION_NEGATIVE \<and> cx_nrc (uw_ctx w') = NX_UDS_NRC_INVALID_KEY)"
proof -
  have l: "sec_level_of 2 = 1" by (simp add: sec_level_of_def NX_UDS_SVC_SEC_KEY_SUB_def)
  have m: "\<not> (3 :: u8) \<le> 1" by (simp add: word_le_nat_alt)
  show ?thesis
    by (cases "[a, b] = [0x34, 0x12]")
      (auto simp: nx_uds_svc_security_access_def sec_exchange_def diag_keyed_defs Let_def l m sec_find_level_def sec_levels_def
        sec_is_seed_request_def sec_do_key_def mem_read_def req_from_def sec_srv_def nx_uds_server_set_sec_level_def put_out_def
        svc_done_def svc_refuse_def upd_sec_def upd_app_def sec_forget_def diag_cfg_def mem_write_def)
qed

end
