(* ===== verification/Nx_Uds_Session.thy ===== *)
theory Nx_Uds_Session
  imports Nx_Uds_Demo
begin

text \<open>
  When a session change takes effect (\<open>nx_uds_svc_session.c\<close> under \<open>nx_uds_server.c\<close>): the session service moves the server only when the
  fate of a positive answer is settled, which is when the carrier reports that it arrived or when it is withheld; a refusal, an
  answer under way, one that failed on the link and one that is given up leave session and security level alone.
\<close>

section \<open>The two outcomes\<close>

definition session_moves :: "bool \<Rightarrow> u8 \<Rightarrow> 'e uds_world \<Rightarrow> 'e uds_world \<Rightarrow> bool" where
  "session_moves yes sub w w' \<longleftrightarrow>
     us_session (uw_srv w') = (if yes then sub else us_session (uw_srv w)) \<and>
     us_sec_level (uw_srv w') = (if yes then 0 else us_sec_level (uw_srv w))"

text \<open>The answer in the buffer is the positive one to the request.\<close>

definition answer_positive :: "'e uds_world \<Rightarrow> bool" where
  "answer_positive w \<longleftrightarrow> 2 \<le> cx_out_len (uw_ctx w) \<and>
     (case uc_out_buf (uw_cfg w) of None \<Rightarrow> False | Some b \<Rightarrow> b ! 0 = cx_sid (uw_ctx w) OR 0x40)"

text \<open>A positive answer nobody is sent: the request asked for none, or it went to all and its row does not answer those.\<close>

definition answer_withheld :: "nx_uds_service \<Rightarrow> u8 \<Rightarrow> bytes \<Rightarrow> bool" where
  "answer_withheld r ta_type req \<longleftrightarrow>
     ta_type = NX_TP_TA_FUNCTIONAL \<and> sv_flags r AND NX_UDS_SVC_ANSWER_FUNCTIONAL = 0 \<or>
     sv_flags r AND NX_UDS_SVC_HAS_SUB_FUNCTION \<noteq> 0 \<and> bit (req ! 1) 7"

text \<open>What the session service decides: there is such a session, the product has nothing against it, and the answer fits.\<close>

definition session_allowed :: "'x nx_uds_svc_session_cfg \<Rightarrow> u8 \<Rightarrow> u8 \<Rightarrow> u32 \<Rightarrow> 'x \<Rightarrow> bool" where
  "session_allowed cfg session sub cap x \<longleftrightarrow> NX_UDS_SESSION_IN_RANGE sub \<and> 6 \<le> cap \<and>
     (case wc_allow_fn cfg of None \<Rightarrow> True
      | Some allow_fn \<Rightarrow> fst (fst (allow_fn (wc_user cfg) session sub NX_UDS_NRC_CONDITIONS_NOT_CORRECT x)))"

lemma session_moves_no [simp]:
  "session_moves False sub w w' \<longleftrightarrow> us_session (uw_srv w') = us_session (uw_srv w) \<and> us_sec_level (uw_srv w') = us_sec_level (uw_srv w)"
  by (simp add: session_moves_def)

lemma answered_positive: "svc_answered_positively w = Some yes \<Longrightarrow> yes = answer_positive w"
  by (auto simp: svc_answered_positively_def answer_positive_def mem_get_def NX_UDS_SID_TO_POS_RSP_def split: if_splits bind_splits)

section \<open>The service, phase by phase\<close>

lemma enter_session_moves: "uds_enter_session w s = Some w' \<Longrightarrow> session_moves True s w w'"
  by (auto simp: uds_enter_session_def uds_arm_s3_def uds_now_def session_moves_def Let_def case_prod_beta'
      split: if_splits bind_splits option.splits)

lemma settled_moves:
  assumes "session_control_settled w = Some (d, w')"
  shows "session_moves (answer_positive w \<and> NX_UDS_SESSION_IN_RANGE (cx_sub (uw_ctx w))) (cx_sub (uw_ctx w)) w w'"
proof -
  obtain yes where yes: "svc_answered_positively w = Some yes" using assms by (auto simp: session_control_settled_def split: bind_splits)
  show ?thesis
  proof (cases "yes \<and> NX_UDS_SESSION_IN_RANGE (cx_sub (uw_ctx w))")
    case True
    then have "uds_enter_session w (cx_sub (uw_ctx w)) = Some w'"
      using assms yes by (auto simp: session_control_settled_def nx_uds_server_set_session_def split: bind_splits)
    then show ?thesis using enter_session_moves True answered_positive[OF yes] by (metis (full_types))
  next
    case False
    then have "w' = w" using assms yes by (auto simp: session_control_settled_def nx_uds_server_set_session_def split: if_splits bind_splits)
    then show ?thesis using False answered_positive[OF yes] by auto
  qed
qed

lemma request_moves:
  assumes "session_control_request cfg w = Some (d, w')"
  shows "session_moves False sub w w'" "uw_txn w' = (uw_txn w)\<lparr> ut_ctx := (uw_ctx w)\<lparr> cx_out_len := cx_out_len (uw_ctx w'), cx_nrc := cx_nrc (uw_ctx w') \<rparr> \<rparr>"
    "uds_rows (uw_cfg w') = uds_rows (uw_cfg w)" "uc_services_count (uw_cfg w') = uc_services_count (uw_cfg w)"
    "dg_sessions (uw_env w') = dg_sessions (uw_env w)" "d \<in> {NX_UDS_DISPOSITION_DONE, NX_UDS_DISPOSITION_NEGATIVE}"
  using assms
  by (auto simp: session_control_request_def svc_refuse_def svc_done_def put_out_def upd_app_def nx_uds_server_timing_def Let_def
      case_prod_beta' uds_rows_def split: if_splits bind_splits)

text \<open>Outside the two phases that settle an answer the service does not move the server.\<close>

lemma session_control_stays:
  assumes "nx_uds_svc_session_control u w = Some (d, w')" "cx_phase (uw_ctx w) \<noteq> NX_UDS_PHASE_CONFIRM" "cx_phase (uw_ctx w) \<noteq> NX_UDS_PHASE_SILENCE"
  shows "session_moves False sub w w'"
  using assms request_moves(1)
  by (auto simp: nx_uds_svc_session_control_def svc_refuse_def split: if_splits bind_splits)

lemma session_control_moves:
  assumes "nx_uds_svc_session_control u w = Some (d, w')" "\<not> answer_positive w"
  shows "session_moves False sub w w'"
proof (cases "cx_phase (uw_ctx w) = NX_UDS_PHASE_CONFIRM \<or> cx_phase (uw_ctx w) = NX_UDS_PHASE_SILENCE")
  case True
  then show ?thesis using assms settled_moves
    by (fastforce simp: nx_uds_svc_session_control_def svc_refuse_def split: if_splits bind_splits)
next
  case False
  then show ?thesis using session_control_stays[OF assms(1)] by simp
qed

lemma session_control_settles:
  assumes "nx_uds_svc_session_control u w = Some (d, w')" "cx_phase (uw_ctx w) = NX_UDS_PHASE_CONFIRM \<or> cx_phase (uw_ctx w) = NX_UDS_PHASE_SILENCE"
    and "u \<noteq> 0" "dg_sessions (uw_env w) u = Some cfg" "wc_srv cfg"
  shows "session_moves (answer_positive w \<and> NX_UDS_SESSION_IN_RANGE (cx_sub (uw_ctx w))) (cx_sub (uw_ctx w)) w w'"
  using assms settled_moves by (auto simp: nx_uds_svc_session_control_def)

lemma session_answer:
  assumes "nx_uds_svc_session_control user w = Some (NX_UDS_DISPOSITION_DONE, w')" "cx_phase (uw_ctx w) = NX_UDS_PHASE_REQUEST"
    "uc_out_buf (uw_cfg w) = Some out"
  obtains out' where "uc_out_buf (uw_cfg w') = Some out'" "6 \<le> length out'" "cx_out_len (uw_ctx w') = 6"
    "take 6 out' = [out ! 0, cx_sub (uw_ctx w),
       ucast (drop_bit 8 (svc_window_counts (uc_p2_us (uw_cfg w)) 1000)), ucast (svc_window_counts (uc_p2_us (uw_cfg w)) 1000),
       ucast (drop_bit 8 (svc_window_counts (uc_p2_star_us (uw_cfg w)) 10000)), ucast (svc_window_counts (uc_p2_star_us (uw_cfg w)) 10000)]"
proof -
  obtain cfg where cfg: "session_control_request cfg w = Some (NX_UDS_DISPOSITION_DONE, w')"
    using assms(1,2) by (auto simp: nx_uds_svc_session_control_def svc_refuse_def split: if_splits bind_splits)
  let ?x = "[cx_sub (uw_ctx w), ucast (drop_bit 8 (svc_window_counts (uc_p2_us (uw_cfg w)) 1000)), ucast (svc_window_counts (uc_p2_us (uw_cfg w)) 1000),
       ucast (drop_bit 8 (svc_window_counts (uc_p2_star_us (uw_cfg w)) 10000)), ucast (svc_window_counts (uc_p2_star_us (uw_cfg w)) 10000)]"
  obtain out' where v: "mem_write 1 ?x out = Some out'" "uc_out_buf (uw_cfg w') = Some out'" "cx_out_len (uw_ctx w') = 6"
    using cfg assms(3)
    by (auto simp: session_control_request_def svc_refuse_def svc_done_def put_out_def upd_app_def nx_uds_server_timing_def Let_def case_prod_beta'
        split: if_splits bind_splits)
  have "6 \<le> length out" "out' = take 1 out @ ?x @ drop 6 out" using mem_write_eq_SomeD[OF v(1)] by (simp_all add: eval_nat_numeral)
  then have "take 6 out' = out ! 0 # ?x" "6 \<le> length out'" by (cases out; simp)+
  then show ?thesis using that[of out'] v(2,3) by simp
qed

text \<open>An accepted request leaves the positive answer in the buffer.\<close>

lemma session_control_accepts:
  assumes "nx_uds_svc_session_control u w = Some (NX_UDS_DISPOSITION_DONE, w')" "cx_phase (uw_ctx w) = NX_UDS_PHASE_REQUEST"
    and "uc_out_buf (uw_cfg w) = Some b" "take 1 b = [cx_sid (uw_ctx w) OR 0x40]"
  obtains cfg where "u \<noteq> 0" "dg_sessions (uw_env w) u = Some cfg" "wc_srv cfg" "NX_UDS_SESSION_IN_RANGE (cx_sub (uw_ctx w))"
    "cx_out_len (uw_ctx w') = 6" "6 \<le> cx_out_cap (uw_ctx w)" "answer_positive w'" "session_control_request cfg w = Some (NX_UDS_DISPOSITION_DONE, w')"
    "\<exists>b' x. uc_out_buf (uw_cfg w') = Some b' \<and> take 6 b' = (cx_sid (uw_ctx w) OR 0x40) # cx_sub (uw_ctx w) # x"
proof -
  obtain cfg where c: "u \<noteq> 0" "dg_sessions (uw_env w) u = Some cfg" "wc_srv cfg" "session_control_request cfg w = Some (NX_UDS_DISPOSITION_DONE, w')"
    using assms(1,2) by (auto simp: nx_uds_svc_session_control_def svc_refuse_def split: if_splits bind_splits)
  have v: "NX_UDS_SESSION_IN_RANGE (cx_sub (uw_ctx w))" "6 \<le> cx_out_cap (uw_ctx w)"
    using c(4)
    by (auto simp: session_control_request_def svc_refuse_def upd_app_def Let_def case_prod_beta' not_less split: if_splits bind_splits)
  have b0: "b ! 0 = cx_sid (uw_ctx w) OR 0x40" using assms(4) by (cases b) simp_all
  obtain b' x where a: "uc_out_buf (uw_cfg w') = Some b'" "6 \<le> length b'" "cx_out_len (uw_ctx w') = 6"
    "take 6 b' = (cx_sid (uw_ctx w) OR 0x40) # cx_sub (uw_ctx w) # x"
    using session_answer[OF assms(1-3)] b0 by metis
  have "cx_sid (uw_ctx w') = cx_sid (uw_ctx w)" by (subst request_moves(2)[OF c(4)]) simp
  moreover have "b' ! 0 = cx_sid (uw_ctx w) OR 0x40" using a(4) by (cases b') simp_all
  ultimately have "answer_positive w'" using a(1,3) by (simp add: answer_positive_def)
  then show thesis using that c v a by blast
qed

section \<open>The request carried through\<close>

text \<open>A report to the session service.\<close>

lemma session_notified:
  assumes "uds_notify (uds_services app) w p = Some w'" "uds_row_of w = Some r" "sv_handler r = AT_SESSION_CONTROL"
  obtains d where "nx_uds_svc_session_control (sv_user r) (upd_ctx (\<lambda>c. c\<lparr> cx_phase := p \<rparr>) w) = Some (d, w')"
proof -
  have "uds_txn_row w = Some (Some r)"
    using assms(1,2) by (auto simp: uds_notify_def uds_txn_row_def uds_row_of_def mem_get_def split: if_splits bind_splits)
  then show thesis using that assms(1,3) by (auto simp: uds_notify_def uds_services_def)
qed

lemma answer_positive_phase [simp]:
  "answer_positive (upd_ctx (\<lambda>c. c\<lparr> cx_phase := p \<rparr>) w) = answer_positive w"
  "answer_positive (upd_txn (\<lambda>t. t\<lparr> ut_answered := b, ut_state := s \<rparr>) w) = answer_positive w"
  by (simp_all add: answer_positive_def cong: option.case_cong)

lemma session_moves_phase [simp]:
  "session_moves yes sub (upd_ctx f w) w' = session_moves yes sub w w'"
  "session_moves yes sub (upd_txn g w) w' = session_moves yes sub w w'"
  "session_moves yes sub w (uds_txn_end w') = session_moves yes sub w w'"
  by (simp_all add: session_moves_def uds_txn_end_eq)

lemma session_moves_no_trans:
  "session_moves False s w w1 \<Longrightarrow> session_moves yes sub w1 w2 \<Longrightarrow> session_moves yes sub w w2"
  by (auto simp: session_moves_def)

text \<open>A negative answer moves nothing, whether it goes out or not.\<close>

lemma session_refused:
  assumes "uds_txn_refuse (uds_services app) w nrc = Some w'" "uds_row_of w = Some r" "sv_handler r = AT_SESSION_CONTROL"
    and "cx_sid (uw_ctx w) = 0x10"
  shows "session_moves False sub w w'"
proof -
  obtain w1 where w1: "uds_put_negative w (cx_sid (uw_ctx w)) nrc = Some w1"
    and a: "uds_txn_answer_ready (uds_services app) w1 (\<not> uds_negative_suppressed (uw_txn w1) (cx_ta_type (uw_ctx w1)) nrc) = Some w'"
    using assms(1) by (auto simp: uds_txn_refuse_def split: bind_splits)
  have n: "\<not> answer_positive w1" "uds_row_of w1 = Some r" "session_moves False sub w w1"
    using w1 assms(2,4)
    by (auto simp: uds_put_negative_def put_out_def mem_write_def answer_positive_def uds_row_of_def uds_rows_def session_moves_def
        split: if_splits bind_splits)
  obtain w2 p v where s: "uds_notify (uds_services app) v p = Some w2" "session_moves False sub w2 w'" "\<not> answer_positive v" "uds_row_of v = Some r"
    "session_moves False sub w1 v"
    using a n by (auto simp: uds_txn_answer_ready_def uds_row_of_def session_moves_def uds_txn_end_eq split: if_splits bind_splits)
  obtain d where "nx_uds_svc_session_control (sv_user r) (upd_ctx (\<lambda>c. c\<lparr> cx_phase := p \<rparr>) v) = Some (d, w2)"
    by (rule session_notified[OF s(1,4) assms(3)])
  from session_control_moves[OF this] s n(3) show ?thesis by (auto simp: session_moves_def)
qed

text \<open>A positive answer moves the server at once where it is withheld, and waits in the buffer otherwise.\<close>

lemma session_answer_ready:
  assumes "uds_txn_answer_ready (uds_services app) w send = Some w'" "uds_row_of w = Some r" "sv_handler r = AT_SESSION_CONTROL"
    and "sv_user r \<noteq> 0" "dg_sessions (uw_env w) (sv_user r) = Some cfg" "wc_srv cfg"
    and "answer_positive w" "NX_UDS_SESSION_IN_RANGE (cx_sub (uw_ctx w))"
  shows "session_moves (\<not> send) (cx_sub (uw_ctx w)) w w'"
    "ut_state (uw_txn w') = (if send then TXN_SENDING else TXN_IDLE)"
    "send \<Longrightarrow> cx_out_len (uw_ctx w') = cx_out_len (uw_ctx w) \<and> uc_out_buf (uw_cfg w') = uc_out_buf (uw_cfg w)"
proof -
  have "session_moves (\<not> send) (cx_sub (uw_ctx w)) w w' \<and> ut_state (uw_txn w') = (if send then TXN_SENDING else TXN_IDLE) \<and>
    (send \<longrightarrow> cx_out_len (uw_ctx w') = cx_out_len (uw_ctx w) \<and> uc_out_buf (uw_cfg w') = uc_out_buf (uw_cfg w))"
  proof (cases send)
    case False
    obtain w1 where n: "uds_notify (uds_services app) w NX_UDS_PHASE_SILENCE = Some w1" "w' = uds_txn_end w1"
      using assms(1) False by (auto simp: uds_txn_answer_ready_def split: bind_splits)
    obtain d where d: "nx_uds_svc_session_control (sv_user r) (upd_ctx (\<lambda>c. c\<lparr> cx_phase := NX_UDS_PHASE_SILENCE \<rparr>) w) = Some (d, w1)"
      by (rule session_notified[OF n(1) assms(2,3)])
    from session_control_settles[OF d _ assms(4) _ assms(6)] show ?thesis using False n(2) assms(5,7,8) by simp
  next
    case True
    let ?v = "upd_txn (\<lambda>t. t\<lparr> ut_answered := True, ut_state := TXN_SENDING \<rparr>) w"
    have n: "uds_notify (uds_services app) ?v NX_UDS_PHASE_RESPONSE = Some w'" using assms(1) True by (simp add: uds_txn_answer_ready_def)
    have r: "uds_row_of ?v = Some r" using assms(2) by (simp add: uds_row_of_def split: if_splits)
    obtain d where "nx_uds_svc_session_control (sv_user r) (upd_ctx (\<lambda>c. c\<lparr> cx_phase := NX_UDS_PHASE_RESPONSE \<rparr>) ?v) = Some (d, w')"
      by (rule session_notified[OF n r assms(3)])
    then show ?thesis using True assms(4-6) by (auto simp: nx_uds_svc_session_control_def)
  qed
  then show "session_moves (\<not> send) (cx_sub (uw_ctx w)) w w'" "ut_state (uw_txn w') = (if send then TXN_SENDING else TXN_IDLE)"
    "send \<Longrightarrow> cx_out_len (uw_ctx w') = cx_out_len (uw_ctx w) \<and> uc_out_buf (uw_cfg w') = uc_out_buf (uw_cfg w)" by blast+
qed

lemma session_control_refuses:
  assumes "nx_uds_svc_session_control u w = Some (d, w')" "cx_phase (uw_ctx w) = NX_UDS_PHASE_REQUEST" "d \<noteq> NX_UDS_DISPOSITION_DONE"
  shows "d = NX_UDS_DISPOSITION_NEGATIVE" "uds_row_of w' = uds_row_of w" "cx_sid (uw_ctx w') = cx_sid (uw_ctx w)"
  using assms
  by (auto simp: nx_uds_svc_session_control_def session_control_request_def svc_refuse_def svc_done_def upd_app_def uds_row_of_def Let_def
      case_prod_beta' split: if_splits bind_splits)

lemma session_control_decides:
  assumes "nx_uds_svc_session_control u w = Some (d, w')" "cx_phase (uw_ctx w) = NX_UDS_PHASE_REQUEST"
    and "u \<noteq> 0" "dg_sessions (uw_env w) u = Some cfg" "wc_srv cfg"
  shows "d = NX_UDS_DISPOSITION_DONE \<longleftrightarrow>
    session_allowed cfg (cx_session (uw_ctx w)) (cx_sub (uw_ctx w)) (cx_out_cap (uw_ctx w)) (dg_app (uw_env w))"
proof -
  have "session_control_request cfg w = Some (d, w')" using assms by (simp add: nx_uds_svc_session_control_def)
  then show ?thesis
    by (auto simp: session_control_request_def session_allowed_def svc_refuse_def svc_done_def upd_app_def
        nx_uds_server_timing_def Let_def not_less case_prod_beta' split: if_splits bind_splits option.splits)
qed

text \<open>What the service decided, applied.\<close>

lemma session_applied:
  assumes "uds_presents r session level req ta_type w" "sv_handler r = AT_SESSION_CONTROL" "hd req = 0x10"
    and "nx_uds_svc_session_control (sv_user r) w = Some (d, w2)" "uds_apply_disposition (uds_services app) w2 d = Some w'"
  shows "session_moves (d = NX_UDS_DISPOSITION_DONE \<and> answer_withheld r ta_type req) (cx_sub (uw_ctx w)) w w' \<and>
    (d = NX_UDS_DISPOSITION_DONE \<and> answer_withheld r ta_type req \<longrightarrow> ut_state (uw_txn w') = TXN_IDLE) \<and>
    (d = NX_UDS_DISPOSITION_DONE \<and> \<not> answer_withheld r ta_type req \<longrightarrow> (\<exists>x. uds_answer w' = Some (0x50 # cx_sub (uw_ctx w) # x)))"
proof -
  have c: "cx_phase (uw_ctx w) = NX_UDS_PHASE_REQUEST" "cx_sid (uw_ctx w) = 0x10" "cx_ta_type (uw_ctx w) = ta_type" "uds_row_of w = Some r"
    "cx_suppress_pos (uw_ctx w) = (sv_flags r AND NX_UDS_SVC_HAS_SUB_FUNCTION \<noteq> 0 \<and> bit (req ! 1) 7)"
    using assms(1,3) by (simp_all add: uds_presents_def Let_def)
  have stays: "session_moves False sub w w2" for sub by (rule session_control_stays[OF assms(4)]) (simp_all add: c(1))
  show ?thesis
  proof (cases "d = NX_UDS_DISPOSITION_DONE")
    case False
    note n = session_control_refuses[OF assms(4) c(1) False]
    obtain nrc where "uds_txn_refuse (uds_services app) w2 nrc = Some w'" using assms(5) n(1) by (simp add: uds_apply_disposition_def)
    from session_refused[OF this _ assms(2)] show ?thesis using False n c stays session_moves_no_trans by auto
  next
    case True
    obtain b where b: "uc_out_buf (uw_cfg w) = Some b" "take 1 b = [cx_sid (uw_ctx w) OR 0x40]"
      using assms(1,3) c(2) by (auto simp: uds_presents_def split: option.splits)
    obtain cfg where a: "sv_user r \<noteq> 0" "dg_sessions (uw_env w) (sv_user r) = Some cfg" "wc_srv cfg" "NX_UDS_SESSION_IN_RANGE (cx_sub (uw_ctx w))"
      "cx_out_len (uw_ctx w2) = 6" "6 \<le> cx_out_cap (uw_ctx w)" "answer_positive w2" "session_control_request cfg w = Some (NX_UDS_DISPOSITION_DONE, w2)"
      "\<exists>b' x. uc_out_buf (uw_cfg w2) = Some b' \<and> take 6 b' = (cx_sid (uw_ctx w) OR 0x40) # cx_sub (uw_ctx w) # x"
      using assms(4) unfolding True by (rule session_control_accepts[OF _ c(1) b])
    note q = request_moves[OF a(8)]
    have x: "cx_sub (uw_ctx w2) = cx_sub (uw_ctx w)" "cx_out_cap (uw_ctx w2) = cx_out_cap (uw_ctx w)" "cx_ta_type (uw_ctx w2) = ta_type"
      "cx_suppress_pos (uw_ctx w2) = cx_suppress_pos (uw_ctx w)" using c(3) by (subst q(2), simp)+
    have row: "uds_row_of w2 = Some r" using c(4) q(3,4) arg_cong[OF q(2), of ut_row] by (simp add: uds_row_of_def split: if_splits)
    have tr: "uds_txn_row w2 = Some (Some r)" if "uds_txn_row w2 \<noteq> None"
      using that row by (auto simp: uds_txn_row_def uds_row_of_def mem_get_def split: if_splits)
    have "uds_txn_answer_ready (uds_services app) w2 (\<not> answer_withheld r ta_type req) = Some w'"
      using assms(5) True a(5,6) x tr c(5)
      by (cases "uds_txn_row w2") (auto simp: uds_apply_disposition_def answer_withheld_def not_le split: if_splits)
    note w' = session_answer_ready[OF this row assms(2) a(1) _ a(3,7)]
    have m: "session_moves (\<not> \<not> answer_withheld r ta_type req) (cx_sub (uw_ctx w)) w w'"
      by (rule session_moves_no_trans[OF stays]) (use w'(1) a(2,4) q(5) x(1) in simp)
    show ?thesis using m w'(2,3) a(2,4,5,9) q(5) x(1) c(2) True by (auto simp: uds_answer_def)
  qed
qed

section \<open>The report of the carrier, and the calls until it comes\<close>

lemma session_confirmed:
  assumes "nx_uds_server_confirm (uds_services app) (Some w) (uc_link (uw_cfg w)) result = Some (NX_UDS_SERVER_OK, Some w')"
    and "uds_row_of w = Some r" "ut_state (uw_txn w) = TXN_AWAIT" "sv_handler r = AT_SESSION_CONTROL"
    and "sv_user r \<noteq> 0" "dg_sessions (uw_env w) (sv_user r) = Some cfg" "wc_srv cfg"
  shows "session_moves (result = NX_TP_N_OK \<and> answer_positive w \<and> NX_UDS_SESSION_IN_RANGE (cx_sub (uw_ctx w))) (cx_sub (uw_ctx w)) w w' \<and>
    ut_state (uw_txn w') = TXN_IDLE"
proof -
  let ?w = "upd_ctx (\<lambda>c. c\<lparr> cx_result := result \<rparr>) w" and ?p = "if result = NX_TP_N_OK then NX_UDS_PHASE_CONFIRM else NX_UDS_PHASE_LINK_ERROR"
  obtain w1 where n: "uds_notify (uds_services app) ?w ?p = Some w1" "w' = uds_txn_end w1"
    using assms(1,3) by (auto simp: nx_uds_server_confirm_def uds_confirm_def split: bind_splits)
  have r: "uds_row_of ?w = Some r" using assms(2) by simp
  obtain d where d: "nx_uds_svc_session_control (sv_user r) (upd_ctx (\<lambda>c. c\<lparr> cx_phase := ?p \<rparr>) ?w) = Some (d, w1)"
    by (rule session_notified[OF n(1) r assms(4)])
  have a: "answer_positive ?w = answer_positive w" by (simp add: answer_positive_def cong: option.case_cong)
  show ?thesis
  proof (cases "result = NX_TP_N_OK")
    case True
    from session_control_settles[OF d _ assms(5) _ assms(7)] show ?thesis using True n(2) a assms(6) by simp
  next
    case False
    from session_control_stays[OF d] show ?thesis using False n(2) by simp
  qed
qed

lemma uds_now_srv: "uds_now w = Some (t, w') \<Longrightarrow> uw_srv w' = uw_srv w"
  by (auto simp: uds_now_def Let_def case_prod_beta' split: bind_splits)

lemma session_reported:
  assumes "uds_notify (uds_services app) w p = Some w'" "uds_row_of w = Some r" "sv_handler r = AT_SESSION_CONTROL"
    and "p \<noteq> NX_UDS_PHASE_CONFIRM" "p \<noteq> NX_UDS_PHASE_SILENCE"
  shows "session_moves False s w w'"
proof -
  obtain d where "nx_uds_svc_session_control (sv_user r) (upd_ctx (\<lambda>c. c\<lparr> cx_phase := p \<rparr>) w) = Some (d, w')"
    by (rule session_notified[OF assms(1-3)])
  from session_control_stays[OF this] assms(4,5) show ?thesis by simp
qed

lemma session_offered:
  assumes "uds_process_sending (uds_services app) w = Some w'" "uds_row_of w = Some r" "sv_handler r = AT_SESSION_CONTROL"
  shows "session_moves False s w w'"
proof -
  obtain taken w1 where o: "uds_offer_answer w = Some (taken, w1)" using assms(1) by (auto simp: uds_process_sending_def split: bind_splits)
  then have s1: "uw_srv w1 = uw_srv w"
    by (auto simp: uds_offer_answer_def uds_offer_def split: if_splits bind_splits option.splits prod.splits)
  show ?thesis
  proof (cases taken)
    case True
    then obtain t w2 p4 where n: "uds_now (upd_txn (\<lambda>x. x\<lparr> ut_state := TXN_AWAIT \<rparr>) w1) = Some (t, w2)"
      "w' = upd_txn (\<lambda>x. x\<lparr> ut_deadline := t + p4 \<rparr>) w2"
      using assms(1) o by (auto simp: uds_process_sending_def split: bind_splits)
    then show ?thesis using uds_now_srv[OF n(1)] s1 by (simp add: session_moves_def)
  next
    case False
    then obtain t w2 p4 where n: "uds_now w1 = Some (t, w2)" "uds_txn_p4 w2 = Some p4"
      and e: "(if uds_expired t (ut_started (uw_txn w2) + p4)
         then do { w3 \<leftarrow> uds_notify (uds_services app) w2 NX_UDS_PHASE_ABORT; Some (uds_txn_end w3) } else Some w2) = Some w'"
      using assms(1) o by (auto simp: uds_process_sending_def split: bind_splits)
    have s2: "uw_srv w2 = uw_srv w" using uds_now_srv[OF n(1)] s1 by simp
    have r2: "uds_row_of w2 = Some r" using assms(2) by (simp add: uds_row_of_def s2 split: if_splits)
    show ?thesis
    proof (cases "w' = w2")
      case True then show ?thesis using s2 by (simp add: session_moves_def)
    next
      case False
      then obtain w3 where "uds_notify (uds_services app) w2 NX_UDS_PHASE_ABORT = Some w3" "w' = uds_txn_end w3"
        using e by (auto split: if_splits bind_splits)
      with session_reported[OF _ r2 assms(3)] show ?thesis using s2 by (fastforce simp: session_moves_def uds_txn_end_eq)
    qed
  qed
qed

lemma session_awaited:
  assumes "uds_process_await (uds_services app) w = Some w'" "uds_row_of w = Some r" "sv_handler r = AT_SESSION_CONTROL"
  shows "session_moves False s w w'"
proof (cases "ut_state (uw_txn w) = TXN_AWAIT")
  case False
  then show ?thesis using assms(1) by (simp add: uds_process_await_def)
next
  case True
  then obtain t w1 where n: "uds_now w = Some (t, w1)"
    and e: "(if uds_expired t (ut_deadline (uw_txn w1)) then do {
          w2 \<leftarrow> uds_notify (uds_services app) (upd_ctx (\<lambda>c. c\<lparr> cx_result := NX_TP_N_ERROR \<rparr>) w1) NX_UDS_PHASE_LINK_ERROR;
          Some (uds_txn_end w2) }
        else Some w1) = Some w'"
    using assms(1) by (auto simp: uds_process_await_def split: bind_splits)
  have s1: "uw_srv w1 = uw_srv w" by (rule uds_now_srv[OF n])
  show ?thesis
  proof (cases "w' = w1")
    case True then show ?thesis using s1 by (simp add: session_moves_def)
  next
    case False
    let ?w1 = "upd_ctx (\<lambda>c. c\<lparr> cx_result := NX_TP_N_ERROR \<rparr>) w1"
    obtain w2 where w2: "uds_notify (uds_services app) ?w1 NX_UDS_PHASE_LINK_ERROR = Some w2" "w' = uds_txn_end w2"
      using e False by (auto split: if_splits bind_splits)
    have "uds_row_of ?w1 = Some r" using assms(2) by (simp add: uds_row_of_def s1 split: if_splits)
    from session_reported[OF w2(1) this assms(3)] show ?thesis using s1 w2(2) by (simp add: session_moves_def uds_txn_end_eq)
  qed
qed

text \<open>A periodic call moves the server as its quiet timer has it and not for the sake of an answer under way.\<close>

lemma session_processed:
  assumes "nx_uds_server_process (uds_services app) (Some w) = Some (Some w')" "uds_row_of w = Some r" "sv_handler r = AT_SESSION_CONTROL"
    and "ut_state (uw_txn w) = TXN_SENDING \<or> ut_state (uw_txn w) = TXN_AWAIT"
  shows "\<exists>w1. uds_process_session w = Some w1 \<and> session_moves False s w1 w'"
proof -
  obtain w1 where w1: "uds_process_session w = Some w1" "uw_txn w1 = uw_txn w" "uds_row_of w1 = uds_row_of w"
    using assms(1)
    by (auto simp: nx_uds_server_process_def uds_process_def uds_process_session_def uds_enter_session_def uds_arm_s3_def uds_now_def uds_row_of_def
        Let_def case_prod_beta' split: if_splits bind_splits option.splits)
  have "(if ut_state (uw_txn w1) = TXN_SENDING then uds_process_sending (uds_services app) w1 else uds_process_await (uds_services app) w1) = Some w'"
    using assms(1,4) w1(1,2) by (auto simp: nx_uds_server_process_def uds_process_def uds_process_limit_def uds_process_running_def split: bind_splits)
  then have "session_moves False s w1 w'"
    using session_offered[of app w1 w' r s] session_awaited[of app w1 w' r s] w1(3) assms(2,3) by (simp split: if_splits)
  then show ?thesis using w1(1) by blast
qed

end
