(* ===== verification/Nx_Uds_Served.thy ===== *)
theory Nx_Uds_Served
  imports Nx_Uds_Session
begin

text \<open>The properties of the diagnostic server, for any handlers within the contract, and their witnesses on the standard services.\<close>

section \<open>Setting up\<close>

text \<open>What the caller of \<open>nx_uds_server_init\<close> owes: lists and buffers as long as the configuration says.\<close>

definition uds_cfg_memory :: "'e nx_uds_server_cfg \<Rightarrow> bool" where
  "uds_cfg_memory c \<longleftrightarrow> unat (uc_services_count c) \<le> length (uds_rows c) \<and>
     list_all (\<lambda>r. (case sv_subs r of None \<Rightarrow> True | Some xs \<Rightarrow> unat (sv_subs_count r) \<le> length xs) \<and>
                   (case sv_sub_session_masks r of None \<Rightarrow> True | Some xs \<Rightarrow> unat (sv_subs_count r) \<le> length xs)) (uds_rows c) \<and>
     (case uc_req_buf c of None \<Rightarrow> True | Some b \<Rightarrow> length b = unat (uc_req_buf_size c)) \<and>
     (case uc_out_buf c of None \<Rightarrow> True | Some b \<Rightarrow> length b = unat (uc_out_buf_size c))"

lemma uds_rows_defaults [simp]: "uds_rows (uds_defaults c) = uds_rows c" "uds_rows (c\<lparr> uc_max_resp_apdu := n \<rparr>) = uds_rows c"
  by (simp_all add: uds_rows_def uds_defaults_def)

lemma uds_table_ok_total:
  assumes "uds_cfg_memory c"
  obtains ok where "uds_table_ok c = Some ok" "ok \<longrightarrow> uds_table_wf c"
proof -
  let ?n = "unat (uc_services_count c)"
  have n: "?n \<le> length (uds_rows c)" using assms by (simp add: uds_cfg_memory_def)
  then obtain k where k: "uds_scan (\<lambda>r. \<not> uds_row_ok r) ?n (uds_rows c) = Some k" using uds_scan_total by blast
  have "uds_table_wf c" if "k = ?n"
  proof -
    have a: "list_all uds_row_ok (take ?n (uds_rows c))" using uds_scan_all[OF k[unfolded that]] by simp
    have m: "list_all (\<lambda>r. (case sv_subs r of None \<Rightarrow> True | Some xs \<Rightarrow> unat (sv_subs_count r) \<le> length xs) \<and>
        (case sv_sub_session_masks r of None \<Rightarrow> True | Some xs \<Rightarrow> unat (sv_subs_count r) \<le> length xs)) (take ?n (uds_rows c))"
      using assms by (auto simp: uds_cfg_memory_def list_all_iff dest: in_set_takeD)
    show ?thesis using a m n by (simp add: uds_table_wf_def uds_row_wf_def list_all_iff)
  qed
  then show thesis using that[of "k = ?n"] k by (simp add: uds_table_ok_def)
qed

lemma nx_uds_server_init_inv:
  assumes m: "uds_cfg_memory cfg" and i: "nx_uds_server_init (Some s) (Some cfg) = Some (True, Some srv)"
  shows "uds_inv srv" "us_session srv = NX_UDS_SESSION_DEFAULT" "us_sec_level srv = 0" "ut_state (us_txn srv) = TXN_IDLE"
    "uds_keeps J (us_cfg srv) \<longleftrightarrow> uds_keeps J cfg" "uds_rows_fit R (us_cfg srv) \<longleftrightarrow> uds_rows_fit R cfg"
proof -
  obtain ok where ok: "uds_table_ok cfg = Some ok" "ok \<longrightarrow> uds_table_wf cfg" by (rule uds_table_ok_total[OF m])
  let ?c = "uds_defaults cfg"
  let ?d = "if uc_max_resp_apdu ?c = 0 then ?c\<lparr> uc_max_resp_apdu := uc_out_buf_size ?c \<rparr> else ?c"
  have x: "ok" "uds_cfg_ok cfg" "\<not> uc_p2_adjust_us ?c \<ge> uc_p2_us ?c" "\<not> uc_p2_adjust_us ?c \<ge> uc_p2_star_us ?c"
    "uc_services_count cfg \<noteq> 0"
    and srv: "srv = \<lparr> us_cfg = ?d, us_session = NX_UDS_SESSION_DEFAULT, us_sec_level = 0, us_s3_armed = False, us_s3_deadline = 0, us_txn = uds_txn_zero \<rparr>"
    using i ok(1) by (auto simp: nx_uds_server_init_def Let_def split: if_splits)
  have wf: "uds_table_wf ?d" using ok(2) x(1) by (simp add: uds_table_wf_def) (simp add: uds_defaults_def)
  have "uds_cfg_inv ?d"
  proof -
    have o3: "3 \<le> uc_out_buf_size cfg" using x(2) by (simp add: uds_cfg_ok_def not_less)
    then have nz: "uc_out_buf_size cfg \<noteq> 0" by (auto simp: word_le_nat_alt)
    have r1: "1 \<le> uc_req_buf_size cfg" using x(2) unfolding uds_cfg_ok_def by (meson linorder_not_less)
    from nz show ?thesis using wf x m o3 r1
      by (auto simp: uds_cfg_inv_def uds_cfg_ok_def uds_cfg_memory_def uds_defaults_def uds_buffer_def not_le not_less split: option.splits)
  qed
  moreover have "NX_UDS_SESSION_IN_RANGE 1" by (simp add: NX_UDS_SESSION_IN_RANGE_def)
  ultimately show "uds_inv srv" by (simp add: srv uds_inv_def uds_session_inv_def)
  show "us_session srv = NX_UDS_SESSION_DEFAULT" "us_sec_level srv = 0" "ut_state (us_txn srv) = TXN_IDLE"
    by (simp_all add: srv uds_txn_zero_def)
  show "uds_keeps J (us_cfg srv) \<longleftrightarrow> uds_keeps J cfg" by (simp add: srv uds_keeps_def uds_defaults_def cong: option.case_cong)
  show "uds_rows_fit R (us_cfg srv) \<longleftrightarrow> uds_rows_fit R cfg"
    by (simp add: srv uds_rows_fit_def) (simp add: uds_defaults_def)
qed

section \<open>Whatever happens to it\<close>

text \<open>What the carrier and the product do to a server. Requests and links are as they come.\<close>

datatype uds_event =
  UdsProcess | UdsIndicate bytes u8 u8 | UdsConfirm u8 u8 | UdsSetSession u8 | UdsSetSecLevel u8 | UdsTouch | UdsNow

fun uds_event_step :: "'e uds_call \<Rightarrow> uds_event \<Rightarrow> 'e uds_world option \<Rightarrow> 'e uds_world option option" where
  "uds_event_step call UdsProcess wp = nx_uds_server_process call wp"
| "uds_event_step call (UdsIndicate req ta link) wp = map_option snd (nx_uds_server_indicate call wp (Some req) (of_nat (length req)) ta link)"
| "uds_event_step call (UdsConfirm link result) wp = map_option snd (nx_uds_server_confirm call wp link result)"
| "uds_event_step call (UdsSetSession s) wp = map_option snd (nx_uds_server_set_session wp s)"
| "uds_event_step call (UdsSetSecLevel l) wp = Some (snd (nx_uds_server_set_sec_level wp l))"
| "uds_event_step call UdsTouch wp = nx_uds_server_touch wp"
| "uds_event_step call UdsNow wp = map_option snd (nx_uds_server_now wp)"

fun uds_events :: "'e uds_call \<Rightarrow> uds_event list \<Rightarrow> 'e uds_world option \<Rightarrow> 'e uds_world option option" where
  "uds_events call [] wp = Some wp"
| "uds_events call (x # xs) wp = do { w1 \<leftarrow> uds_event_step call x wp; uds_events call xs w1 }"

definition uds_event_ok :: "uds_event \<Rightarrow> bool" where
  "uds_event_ok x \<longleftrightarrow> (case x of UdsIndicate req _ _ \<Rightarrow> length req < 2 ^ 32 | _ \<Rightarrow> True)"

context uds_handlers
begin

lemma event_step_good:
  assumes g: "uds_good R J w" and x: "uds_event_ok x"
  shows "\<exists>w'. uds_event_step call x (Some w) = Some (Some w') \<and> uds_good R J w'"
proof (cases x)
  case UdsProcess
  obtain w' where "uds_process call w = Some w'" "uds_good R J w'" by (rule process_good[OF g])
  then show ?thesis using UdsProcess by (simp add: nx_uds_server_process_def)
next
  case (UdsIndicate req ta link)
  show ?thesis
  proof (cases "req = []")
    case True
    then show ?thesis using UdsIndicate g by (simp add: nx_uds_server_indicate_def)
  next
    case False
    let ?n = "of_nat (length req) :: u32"
    have n: "unat ?n = length req"
      unfolding unsigned_of_nat of_nat_id by (rule take_bit_nat_eq_self) (use x UdsIndicate in \<open>simp add: uds_event_ok_def\<close>)
    have n0: "?n \<noteq> 0" using n False by (metis length_0_conv unsigned_0)
    have "\<exists>r w'. uds_indicate call w req ?n ta link = Some (r, w') \<and> uds_good R J w'"
    proof (cases "uds_listens w link req")
      case True
      obtain w' where "uds_indicate call w req ?n ta link = Some (NX_UDS_SERVER_OK, w')" "uds_good R J w'"
        by (rule indicate_judges[OF g False n True])
      then show ?thesis by blast
    next
      case no: False
      have h: "mem_get 0 req = Some (hd req)" using False by (simp add: mem_get_def hd_conv_nth)
      have "uds_indicate call w req ?n ta link \<in> {Some (NX_UDS_SERVER_ERR_PARAM, w), Some (NX_UDS_SERVER_ERR_BUSY, w)}"
        using no h unfolding uds_indicate_def uds_listens_def uds_is_response_sid_def by auto
      then show ?thesis using g by blast
    qed
    then show ?thesis using UdsIndicate n0 by (auto simp: nx_uds_server_indicate_def)
  qed
next
  case (UdsConfirm link result)
  obtain r w' where "uds_confirm call w link result = Some (r, w')" "uds_good R J w'" by (rule confirm_good[OF g])
  then show ?thesis using UdsConfirm by (simp add: nx_uds_server_confirm_def)
next
  case (UdsSetSession s)
  then show ?thesis using enter_session_good[OF g, of s] g
    by (cases "NX_UDS_SESSION_IN_RANGE s") (auto simp: nx_uds_server_set_session_def)
next
  case (UdsSetSecLevel l)
  then show ?thesis using g by (simp add: nx_uds_server_set_sec_level_def uds_good_def uds_inv_def uds_session_inv_def)
next
  case UdsTouch
  then show ?thesis using arm_s3_good[OF g] by (auto simp: nx_uds_server_touch_def)
next
  case UdsNow
  obtain t e where "uds_now w = Some (t, w\<lparr> uw_env := e \<rparr>)" "uds_good R J (w\<lparr> uw_env := e \<rparr>)" by (rule uds_good_now[OF g])
  then show ?thesis using UdsNow by (simp add: nx_uds_server_now_def del: uds_good_env)
qed

lemma events_good:
  "uds_good R J w \<Longrightarrow> list_all uds_event_ok xs \<Longrightarrow> \<exists>w'. uds_events call xs (Some w) = Some (Some w') \<and> uds_good R J w'"
proof (induction xs arbitrary: w)
  case (Cons x xs)
  then obtain w1 where "uds_event_step call x (Some w) = Some (Some w1)" "uds_good R J w1" using event_step_good by fastforce
  with Cons show ?case by simp
qed simp

end

section \<open>The properties\<close>

text \<open>
  C13: a server that \<open>nx_uds_server_init\<close> accepted stays well-formed, and every call on it is defined, whatever sequence of requests,
  confirmations, periodic calls, session changes and clock readings it gets and whatever its handlers answer, as long as they keep their
  contract: the transaction, the session and the buffers satisfy the invariant after every call.
\<close>

theorem nx_uds_server_stays_wellformed:
  assumes "uds_handlers call R J"
    and "nx_uds_server_init (Some s) (Some cfg) = Some (True, Some srv)"
    and "uds_cfg_memory cfg" and "uds_rows_fit R cfg" and "uds_keeps J cfg" and "J e"
    and "list_all uds_event_ok xs"
  shows "\<exists>w. uds_events call xs (Some \<lparr> uw_srv = srv, uw_env = e \<rparr>) = Some (Some w) \<and> uds_inv (uw_srv w)"
proof -
  have "uds_good R J \<lparr> uw_srv = srv, uw_env = e \<rparr>"
    using nx_uds_server_init_inv[OF assms(3,2)] assms(4-6) by (simp add: uds_good_def)
  from uds_handlers.events_good[OF assms(1) this assms(7)] show ?thesis by (auto simp: uds_good_def)
qed

theorem nx_uds_server_stays_wellformed_witness:
  "\<exists>w. uds_events diag_call [UdsIndicate [0x10, 3] 0 0, UdsProcess, UdsConfirm 0 0, UdsIndicate [0x27, 1] 0 0, UdsProcess]
     (Some \<lparr> uw_srv = diag_server, uw_env = diag_env \<rparr>) = Some (Some w) \<and> uds_inv (uw_srv w)"
proof (rule nx_uds_server_stays_wellformed[OF diag_handlers diag_server_init _ diag_fit diag_keeps diag_env_ok])
  show "uds_cfg_memory diag_cfg"
    using diag_rows_ok by (simp add: uds_cfg_memory_def list_all_iff uds_row_wf_def) (simp add: diag_cfg_def)
qed (simp add: uds_event_ok_def)

text \<open>
  C14: a request to an idle server on its link is decided as the verdict of the service table says. A refused one is answered with the
  three bytes of the negative response, or silently ended where it was addressed to all and the reason is one of those nobody is told. An
  accepted one reaches the handler of its row with the request, the session, the security level, the sub-function and the
  identifier of the positive response in place, and what the handler returns is applied.
\<close>

theorem nx_uds_server_indicate_judges:
  assumes "uds_handlers call R J" and "uds_good R J w"
    and "req \<noteq> []" and "unat len = length req" and "uds_listens w link req"
  shows "\<exists>w'. nx_uds_server_indicate call (Some w) (Some req) len ta_type link = Some (NX_UDS_SERVER_OK, Some w') \<and>
     (case uds_verdict (uw_cfg w) (us_session (uw_srv w)) (us_sec_level (uw_srv w)) req of
        Inr nrc \<Rightarrow> (if uds_quiet ta_type nrc then ut_state (uw_txn w') = TXN_IDLE
                   else uds_answer w' = Some [NX_UDS_NEG_RSP_SID, hd req, nrc])
      | Inl r \<Rightarrow> (\<exists>w1 d w2. uds_presents r (us_session (uw_srv w)) (us_sec_level (uw_srv w)) req ta_type w1 \<and>
                   call (sv_handler r) (sv_user r) w1 = Some (d, w2) \<and> uds_apply_disposition call w2 d = Some w'))"
proof -
  obtain w' where i: "uds_indicate call w req len ta_type link = Some (NX_UDS_SERVER_OK, w')"
    and j: "uds_judged call J (uc_max_resp_apdu (uw_cfg w)) (uds_verdict (uw_cfg w) (us_session (uw_srv w)) (us_sec_level (uw_srv w)) req)
       (us_session (uw_srv w)) (us_sec_level (uw_srv w)) req ta_type w'"
    by (rule uds_handlers.indicate_judges[OF assms])
  have "len \<noteq> 0" using assms(3,4) by (metis length_0_conv unsigned_0)
  then have "nx_uds_server_indicate call (Some w) (Some req) len ta_type link = Some (NX_UDS_SERVER_OK, Some w')"
    using i by (simp add: nx_uds_server_indicate_def)
  moreover have "case uds_verdict (uw_cfg w) (us_session (uw_srv w)) (us_sec_level (uw_srv w)) req of
        Inr nrc \<Rightarrow> (if uds_quiet ta_type nrc then ut_state (uw_txn w') = TXN_IDLE
                   else uds_answer w' = Some [NX_UDS_NEG_RSP_SID, hd req, nrc])
      | Inl r \<Rightarrow> (\<exists>w1 d w2. uds_presents r (us_session (uw_srv w)) (us_sec_level (uw_srv w)) req ta_type w1 \<and>
                   call (sv_handler r) (sv_user r) w1 = Some (d, w2) \<and> uds_apply_disposition call w2 d = Some w')"
    using j by (cases "uds_verdict (uw_cfg w) (us_session (uw_srv w)) (us_sec_level (uw_srv w)) req")
      (auto simp: uds_judged_def uds_handed_def uds_refused_def)
  ultimately show ?thesis by blast
qed

text \<open>Reading a data identifier from a server nothing is unlocked in.\<close>

theorem nx_uds_server_indicate_judges_witness:
  "\<exists>w'. nx_uds_server_indicate diag_call (Some \<lparr> uw_srv = diag_server, uw_env = diag_env \<rparr>) (Some [0x22, 0xF1, 0x90]) 3 0 0 =
     Some (NX_UDS_SERVER_OK, Some w') \<and> uds_answer w' = Some [0x7F, 0x22, 0x33]"
proof -
  have l: "uds_listens \<lparr> uw_srv = diag_server, uw_env = diag_env \<rparr> 0 [0x22, 0xF1, 0x90]"
    by (simp add: uds_listens_def diag_server_def diag_cfg_def uds_txn_zero_def)
  have v: "uds_verdict (us_cfg diag_server) (us_session diag_server) (us_sec_level diag_server) [0x22, 0xF1, 0x90] = Inr 0x33"
  proof -
    have "find (\<lambda>r. sv_sid r = 0x22) diag_rows = Some (diag_row 0x22 0 1 [] 0xFFFFFFFF 3 0 9 0)" by (simp add: diag_rows_def diag_row_def)
    moreover have "bit (sv_session_mask (diag_row 0x22 0 1 [] 0xFFFFFFFF 3 0 9 0)) 1" by (simp add: diag_row_def bit_simps)
    moreover have "take 4 diag_rows = diag_rows" using diag_rows_ok(3) by simp
    moreover have "(0 :: u8) < sv_sec_level (diag_row 0x22 0 1 [] 0xFFFFFFFF 3 0 9 0)" by (simp add: diag_row_def)
    ultimately show ?thesis by (simp add: uds_verdict_def diag_server_def) (simp add: diag_cfg_def)
  qed
  show ?thesis
    using nx_uds_server_indicate_judges[OF diag_handlers diag_server_good _ _ l, of 3 0] v by (simp add: uds_quiet_def)
qed

text \<open>
  C15: no transaction outlives its limit. After a call of \<open>nx_uds_server_process\<close> at the time \<open>t\<close>, a transaction that is still worked on
  or still offered is within the time its service is allowed, and one whose answer is with the carrier is within the time the carrier is
  given to report: whatever the handlers answer, an overdue transaction has been refused, handed over or ended by that call.
\<close>

theorem nx_uds_server_process_ends_late:
  assumes "uds_handlers call R J" and "uds_good R J w"
    and "uc_get_us (uw_cfg w) = Some (\<lambda>e. (t, e))" and "uds_limits_short (uw_cfg w)"
  shows "\<exists>w'. nx_uds_server_process call (Some w) = Some (Some w') \<and>
     (ut_state (uw_txn w') = TXN_RUNNING \<or> ut_state (uw_txn w') = TXN_SENDING \<longrightarrow>
        \<not> uds_expired t (ut_started (uw_txn w') + uds_p4_of w')) \<and>
     (ut_state (uw_txn w') = TXN_AWAIT \<longrightarrow> \<not> uds_expired t (ut_deadline (uw_txn w')))"
proof -
  obtain w' where p: "uds_process call w = Some w'" by (rule uds_handlers.process_good[OF assms(1,2)])
  have "uds_within t w'" by (rule uds_handlers.process_within[OF assms(1-4) p])
  then show ?thesis using p by (auto simp: nx_uds_server_process_def uds_within_def)
qed

text \<open>A request of 30 seconds ago, with 20 allowed: no handler is waited for any longer.\<close>

theorem nx_uds_server_process_ends_late_witness:
  "\<exists>w'. nx_uds_server_process diag_call
       (Some \<lparr> uw_srv = diag_server\<lparr> us_txn := diag_txn TXN_RUNNING 3 (diag_ctx 0x22 0 3 1) \<rparr>, uw_env = diag_env \<rparr>) = Some (Some w') \<and>
     (ut_state (uw_txn w') = TXN_RUNNING \<longrightarrow> \<not> uds_expired 5 (ut_started (uw_txn w') + uds_p4_of w'))"
proof -
  let ?w = "\<lparr> uw_srv = diag_server\<lparr> us_txn := diag_txn TXN_RUNNING 3 (diag_ctx 0x22 0 3 1) \<rparr>, uw_env = diag_env \<rparr>"
  have g: "uds_good (svc_row_ok diag_env) (svc_env_ok diag_env) ?w"
    by (rule diag_good) (simp_all add: diag_server_def uds_session_inv_def NX_UDS_SESSION_IN_RANGE_def diag_env_ok uds_txn_inv_def uds_ctx_inv_def
        diag_txn_def diag_ctx_def uds_txn_zero_def uds_ctx_zero_def diag_cfg_def uds_rows_def diag_rows_def diag_row_def)
  have c: "uc_get_us (uw_cfg ?w) = Some (\<lambda>e. (5, e))" by (simp add: diag_server_def diag_cfg_def)
  have l: "uds_limits_short (uw_cfg ?w)"
    by (simp add: uds_limits_short_def diag_server_def diag_rows_def diag_row_def) (simp add: diag_cfg_def)
  show ?thesis using nx_uds_server_process_ends_late[OF diag_handlers g c l] by blast
qed

text \<open>
  C16: a conversation that has gone quiet loses its session and with it what it had unlocked, in the first periodic call after the timer ran
  out; before that, and in the default session, nothing of the session changes.
\<close>

theorem nx_uds_server_quiet_session_lapses:
  assumes "uds_good R J w" and "ut_state (uw_txn w) = TXN_IDLE" and "uds_now w = Some (t, w1)"
  shows "\<exists>w'. nx_uds_server_process call (Some w) = Some (Some w') \<and> ut_state (uw_txn w') = TXN_IDLE \<and>
     (if us_session (uw_srv w) \<noteq> NX_UDS_SESSION_DEFAULT \<and> uds_expired t (us_s3_deadline (uw_srv w))
      then us_session (uw_srv w') = NX_UDS_SESSION_DEFAULT \<and> us_sec_level (uw_srv w') = 0 \<and> \<not> us_s3_armed (uw_srv w')
      else us_session (uw_srv w') = us_session (uw_srv w) \<and> us_sec_level (uw_srv w') = us_sec_level (uw_srv w))"
proof -
  have armed: "us_s3_armed (uw_srv w) \<longleftrightarrow> us_session (uw_srv w) \<noteq> NX_UDS_SESSION_DEFAULT"
    using uds_goodD(3)[OF assms(1)] by (simp add: uds_session_inv_def)
  obtain e where w1: "w1 = w\<lparr> uw_env := e \<rparr>" and g1: "uds_good R J w1"
    using uds_good_now[OF assms(1)] assms(3) by (metis option.inject prod.inject)
  have r: "NX_UDS_SESSION_IN_RANGE NX_UDS_SESSION_DEFAULT" by (simp add: NX_UDS_SESSION_IN_RANGE_def)
  obtain w2 where w2: "uds_enter_session w1 NX_UDS_SESSION_DEFAULT = Some w2" "uds_good R J w2" "uw_txn w2 = uw_txn w1"
    "us_session (uw_srv w2) = NX_UDS_SESSION_DEFAULT" "us_sec_level (uw_srv w2) = 0"
    using enter_session_good[OF g1 r] by blast
  have "\<not> us_s3_armed (uw_srv w2)" using uds_goodD(3)[OF w2(2)] w2(4) by (simp add: uds_session_inv_def)
  then show ?thesis using armed assms(2,3) w1 w2
    by (cases "us_session (uw_srv w) = NX_UDS_SESSION_DEFAULT"; cases "uds_expired t (us_s3_deadline (uw_srv w))")
      (simp_all add: nx_uds_server_process_def uds_process_def uds_process_session_def)
qed

theorem nx_uds_server_quiet_session_lapses_witness:
  "\<exists>w'. nx_uds_server_process diag_call (Some \<lparr> uw_srv = diag_server\<lparr> us_session := 3, us_sec_level := 1, us_s3_armed := True,
       us_s3_deadline := 4 \<rparr>, uw_env = diag_env \<rparr>) = Some (Some w') \<and> us_session (uw_srv w') = 1 \<and> us_sec_level (uw_srv w') = 0"
proof -
  let ?w = "\<lparr> uw_srv = diag_server\<lparr> us_session := 3, us_sec_level := 1, us_s3_armed := True, us_s3_deadline := 4 \<rparr>, uw_env = diag_env \<rparr>"
  have g: "uds_good (svc_row_ok diag_env) (svc_env_ok diag_env) ?w"
    by (rule diag_good) (simp_all add: diag_server_def uds_session_inv_def NX_UDS_SESSION_IN_RANGE_def diag_env_ok)
  have i: "ut_state (uw_txn ?w) = TXN_IDLE" by (simp add: diag_server_def uds_txn_zero_def)
  have n: "uds_now ?w = Some (5, ?w)" by (simp add: uds_now_def diag_server_def diag_cfg_def)
  have x: "uds_expired 5 4" by (simp add: uds_expired_def tick_reached_def tick_diff_def)
  show ?thesis using nx_uds_server_quiet_session_lapses[OF g i n, of diag_call] x by auto
qed

text \<open>
  C17: DiagnosticSessionControl takes effect when the fate of its positive answer is settled. A request that the service accepts moves the
  server at once, with everything locked again, where the answer is withheld: the client asked for none or the request went to all and its
  row does not answer those. Where an answer is owed, it is left to be sent and the session stays. The periodic calls until the carrier
  reports do not move the server but for the quiet timer, and the report moves it exactly if it is of success and the answer in the buffer
  is the positive one. A refused request moves nothing, and in no phase but those two settling ones does the service touch the session.
\<close>

theorem nx_uds_svc_session_control_takes_effect:
  assumes "uds_handlers (uds_services app) (svc_row_ok e0) (svc_env_ok e0)" and "uds_good (svc_row_ok e0) (svc_env_ok e0) w"
    and "sv_handler r = AT_SESSION_CONTROL" and "sv_user r \<noteq> 0" and "dg_sessions e0 (sv_user r) = Some cfg" and "wc_srv cfg"
  shows "(\<forall>req len ta_type link. hd req = 0x10 \<and> unat len = length req \<and> req \<noteq> [] \<and> uds_listens w link req \<and>
       uds_verdict (uw_cfg w) (us_session (uw_srv w)) (us_sec_level (uw_srv w)) req = Inl r \<longrightarrow>
       (\<exists>w' x. nx_uds_server_indicate (uds_services app) (Some w) (Some req) len ta_type link = Some (NX_UDS_SERVER_OK, Some w') \<and>
          (let sub = if sv_flags r AND NX_UDS_SVC_HAS_SUB_FUNCTION \<noteq> 0 then req ! 1 AND 0x7F else 0;
               yes = session_allowed cfg (us_session (uw_srv w)) sub (uc_max_resp_apdu (uw_cfg w)) x
           in session_moves (yes \<and> answer_withheld r ta_type req) sub w w' \<and>
              (yes \<longrightarrow> (if answer_withheld r ta_type req then ut_state (uw_txn w') = TXN_IDLE
                     else \<exists>y. uds_answer w' = Some (0x50 # sub # y)))))) \<and>
    (uds_row_of w = Some r \<and> (ut_state (uw_txn w) = TXN_SENDING \<or> ut_state (uw_txn w) = TXN_AWAIT) \<longrightarrow>
       (\<exists>w1 w'. uds_process_session w = Some w1 \<and> nx_uds_server_process (uds_services app) (Some w) = Some (Some w') \<and>
          us_session (uw_srv w') = us_session (uw_srv w1) \<and> us_sec_level (uw_srv w') = us_sec_level (uw_srv w1))) \<and>
    (\<forall>result. uds_row_of w = Some r \<and> ut_state (uw_txn w) = TXN_AWAIT \<longrightarrow>
       (\<exists>w'. nx_uds_server_confirm (uds_services app) (Some w) (uc_link (uw_cfg w)) result = Some (NX_UDS_SERVER_OK, Some w') \<and>
          ut_state (uw_txn w') = TXN_IDLE \<and>
          session_moves (result = NX_TP_N_OK \<and> answer_positive w \<and> NX_UDS_SESSION_IN_RANGE (cx_sub (uw_ctx w))) (cx_sub (uw_ctx w)) w w')) \<and>
    (\<forall>u x d x'. nx_uds_svc_session_control u x = Some (d, x') \<and> cx_phase (uw_ctx x) \<noteq> NX_UDS_PHASE_CONFIRM \<and>
       cx_phase (uw_ctx x) \<noteq> NX_UDS_PHASE_SILENCE \<longrightarrow>
       us_session (uw_srv x') = us_session (uw_srv x) \<and> us_sec_level (uw_srv x') = us_sec_level (uw_srv x))"
  (is "?request \<and> ?between \<and> ?report \<and> ?phases")
proof (intro conjI)
  have cfg: "dg_sessions (uw_env w) (sv_user r) = Some cfg" using uds_goodD(5)[OF assms(2)] assms(5) by (simp add: svc_env_ok_def)
  show ?request
  proof (intro allI impI, elim conjE)
    fix req and len :: u32 and ta_type link
    assume a: "hd req = 0x10" "unat len = length req" "req \<noteq> []" "uds_listens w link req"
      "uds_verdict (uw_cfg w) (us_session (uw_srv w)) (us_sec_level (uw_srv w)) req = Inl r"
    obtain w' where i: "uds_indicate (uds_services app) w req len ta_type link = Some (NX_UDS_SERVER_OK, w')"
      and j: "uds_judged (uds_services app) (svc_env_ok e0) (uc_max_resp_apdu (uw_cfg w)) (Inl r)
         (us_session (uw_srv w)) (us_sec_level (uw_srv w)) req ta_type w'"
      using uds_handlers.indicate_judges[OF assms(1,2) a(3,2,4)] unfolding a(5) by metis
    obtain w1 d w2 where p: "uds_presents r (us_session (uw_srv w)) (us_sec_level (uw_srv w)) req ta_type w1" "cx_out_cap (uw_ctx w1) = uc_max_resp_apdu (uw_cfg w)"
        "svc_env_ok e0 (uw_env w1)"
      and h: "uds_services app (sv_handler r) (sv_user r) w1 = Some (d, w2)" "uds_apply_disposition (uds_services app) w2 d = Some w'"
      using j by (auto simp: uds_judged_def uds_handed_def)
    have "len \<noteq> 0" using a(2,3) by (metis length_0_conv unsigned_0)
    then have n: "nx_uds_server_indicate (uds_services app) (Some w) (Some req) len ta_type link = Some (NX_UDS_SERVER_OK, Some w')"
      using i by (simp add: nx_uds_server_indicate_def)
    have s: "nx_uds_svc_session_control (sv_user r) w1 = Some (d, w2)" using h(1) assms(3) by (simp add: uds_services_def)
    let ?sub = "if sv_flags r AND NX_UDS_SVC_HAS_SUB_FUNCTION \<noteq> 0 then req ! 1 AND 0x7F else 0"
    have c: "cx_phase (uw_ctx w1) = NX_UDS_PHASE_REQUEST" "cx_session (uw_ctx w1) = us_session (uw_srv w)" "cx_sub (uw_ctx w1) = ?sub"
      using p(1) by (simp_all add: uds_presents_def Let_def)
    have "dg_sessions (uw_env w1) (sv_user r) = Some cfg" using p(3) assms(5) by (simp add: svc_env_ok_def)
    note d = session_control_decides[OF s c(1) assms(4) this assms(6), unfolded c(2,3) p(2)]
    note m = session_applied[OF p(1) assms(3) a(1) s h(2), unfolded c(3) d]
    have "session_moves (session_allowed cfg (us_session (uw_srv w)) ?sub (uc_max_resp_apdu (uw_cfg w)) (dg_app (uw_env w1)) \<and>
        answer_withheld r ta_type req) ?sub w w'"
      using m p(1) by (simp add: session_moves_def uds_presents_def)
    then show "\<exists>w' x. nx_uds_server_indicate (uds_services app) (Some w) (Some req) len ta_type link = Some (NX_UDS_SERVER_OK, Some w') \<and>
          (let sub = ?sub; yes = session_allowed cfg (us_session (uw_srv w)) sub (uc_max_resp_apdu (uw_cfg w)) x
           in session_moves (yes \<and> answer_withheld r ta_type req) sub w w' \<and>
              (yes \<longrightarrow> (if answer_withheld r ta_type req then ut_state (uw_txn w') = TXN_IDLE
                     else \<exists>y. uds_answer w' = Some (0x50 # sub # y))))"
      unfolding Let_def using n m by (intro exI[of _ w'] exI[of _ "dg_app (uw_env w1)"]) (simp only: if_splits simp_thms, blast)
  qed
  show ?between
  proof (intro impI, elim conjE)
    assume a: "uds_row_of w = Some r" "ut_state (uw_txn w) = TXN_SENDING \<or> ut_state (uw_txn w) = TXN_AWAIT"
    obtain w' where "uds_process (uds_services app) w = Some w'" by (rule uds_handlers.process_good[OF assms(1,2)])
    then have p: "nx_uds_server_process (uds_services app) (Some w) = Some (Some w')" by (simp add: nx_uds_server_process_def)
    show "\<exists>w1 w'. uds_process_session w = Some w1 \<and> nx_uds_server_process (uds_services app) (Some w) = Some (Some w') \<and>
        us_session (uw_srv w') = us_session (uw_srv w1) \<and> us_sec_level (uw_srv w') = us_sec_level (uw_srv w1)"
      using session_processed[OF p a(1) assms(3) a(2)] p by auto
  qed
  show ?report
  proof (intro allI impI, elim conjE)
    fix result assume a: "uds_row_of w = Some r" "ut_state (uw_txn w) = TXN_AWAIT"
    obtain ret w' where "uds_confirm (uds_services app) w (uc_link (uw_cfg w)) result = Some (ret, w')"
      by (rule uds_handlers.confirm_good[OF assms(1,2)])
    then have c: "nx_uds_server_confirm (uds_services app) (Some w) (uc_link (uw_cfg w)) result = Some (NX_UDS_SERVER_OK, Some w')"
      using a(2) by (auto simp: nx_uds_server_confirm_def uds_confirm_def split: bind_splits)
    show "\<exists>w'. nx_uds_server_confirm (uds_services app) (Some w) (uc_link (uw_cfg w)) result = Some (NX_UDS_SERVER_OK, Some w') \<and>
        ut_state (uw_txn w') = TXN_IDLE \<and>
        session_moves (result = NX_TP_N_OK \<and> answer_positive w \<and> NX_UDS_SESSION_IN_RANGE (cx_sub (uw_ctx w))) (cx_sub (uw_ctx w)) w w'"
      using session_confirmed[OF c a assms(3,4) cfg assms(6)] c by blast
  qed
  show ?phases using session_control_stays by (auto simp: session_moves_def)
qed

text \<open>The session 3 is asked for with no answer wanted, and it is asked for with one, which the carrier reports to have arrived.\<close>

theorem nx_uds_svc_session_control_takes_effect_witness:
  "(\<exists>w'. nx_uds_server_indicate diag_call (Some \<lparr> uw_srv = diag_server, uw_env = diag_env \<rparr>) (Some [0x10, 0x83]) 2 0 0 =
       Some (NX_UDS_SERVER_OK, Some w') \<and> us_session (uw_srv w') = 3 \<and> ut_state (uw_txn w') = TXN_IDLE) \<and>
   (\<exists>w'. nx_uds_server_confirm diag_call
       (Some \<lparr> uw_srv = diag_server\<lparr> us_cfg := diag_cfg\<lparr> uc_out_buf := Some [0x50, 3, 0, 50, 1, 0xF4, 0, 0] \<rparr>,
         us_txn := diag_txn TXN_AWAIT 0 (diag_ctx 0x10 3 2 6) \<rparr>, uw_env = diag_env \<rparr>) 0 NX_TP_N_OK = Some (NX_UDS_SERVER_OK, Some w') \<and>
     us_session (uw_srv w') = 3)"
proof
  let ?r = "diag_row 0x10 1 0 [1, 3] 0xFFFFFFFF 2 2 AT_SESSION_CONTROL 1"
  have h: "sv_handler ?r = AT_SESSION_CONTROL" "sv_user ?r \<noteq> 0" by (simp_all add: diag_row_def)
  have cfg: "dg_sessions diag_env (sv_user ?r) = Some \<lparr> wc_srv = True, wc_allow_fn = None, wc_user = 0 \<rparr>"
    by (simp add: diag_env_def diag_row_def)
  show "\<exists>w'. nx_uds_server_indicate diag_call (Some \<lparr> uw_srv = diag_server, uw_env = diag_env \<rparr>) (Some [0x10, 0x83]) 2 0 0 =
       Some (NX_UDS_SERVER_OK, Some w') \<and> us_session (uw_srv w') = 3 \<and> ut_state (uw_txn w') = TXN_IDLE"
  proof -
    let ?w = "\<lparr> uw_srv = diag_server, uw_env = diag_env \<rparr>"
    have l: "uds_listens ?w 0 [0x10, 0x83]" by (simp add: uds_listens_def diag_server_def diag_cfg_def uds_txn_zero_def)
    have v: "uds_verdict (us_cfg diag_server) (us_session diag_server) (us_sec_level diag_server) [0x10, 0x83] = Inl ?r"
    proof -
      have "find (\<lambda>r. sv_sid r = 0x10) diag_rows = Some ?r" by (simp add: diag_rows_def diag_row_def)
      moreover have "bit (sv_session_mask ?r) 1" by (simp add: diag_row_def bit_simps)
      moreover have "take 4 diag_rows = diag_rows" using diag_rows_ok(3) by simp
      moreover have "\<not> (0 :: u8) < sv_sec_level ?r" by (simp add: diag_row_def)
      moreover have "uds_sub_verdict ?r 1 3 = None" by (simp add: uds_sub_verdict_def diag_row_def upt_conv_Cons bit_simps)
      ultimately show ?thesis by (simp add: uds_verdict_def diag_server_def) (simp add: diag_cfg_def diag_row_def)
    qed
    have s: "answer_withheld ?r 0 [0x10, 0x83]" by (simp add: answer_withheld_def diag_row_def)
    have y: "session_allowed \<lparr> wc_srv = True, wc_allow_fn = None, wc_user = 0 \<rparr> 1 3 (uc_max_resp_apdu diag_cfg) x" for x :: u32
      by (simp add: session_allowed_def NX_UDS_SESSION_IN_RANGE_def diag_cfg_def)
    note m = conjunct1[OF nx_uds_svc_session_control_takes_effect[OF diag_handlers diag_server_good h cfg], rule_format, of "[0x10, 0x83]" 2 0 0]
    have f: "sv_flags ?r AND NX_UDS_SVC_HAS_SUB_FUNCTION \<noteq> 0" by (simp add: diag_row_def)
    show ?thesis using m l v s y f by (auto simp: session_moves_def Let_def diag_server_def)
  qed
  show "\<exists>w'. nx_uds_server_confirm diag_call
       (Some \<lparr> uw_srv = diag_server\<lparr> us_cfg := diag_cfg\<lparr> uc_out_buf := Some [0x50, 3, 0, 50, 1, 0xF4, 0, 0] \<rparr>,
         us_txn := diag_txn TXN_AWAIT 0 (diag_ctx 0x10 3 2 6) \<rparr>, uw_env = diag_env \<rparr>) 0 NX_TP_N_OK = Some (NX_UDS_SERVER_OK, Some w') \<and>
     us_session (uw_srv w') = 3"
  proof -
    let ?c = "diag_cfg\<lparr> uc_out_buf := Some [0x50, 3, 0, 50, 1, 0xF4, 0, 0] \<rparr>"
    let ?s = "diag_server\<lparr> us_cfg := ?c, us_txn := diag_txn TXN_AWAIT 0 (diag_ctx 0x10 3 2 6) \<rparr>"
    let ?w = "\<lparr> uw_srv = ?s, uw_env = diag_env \<rparr>"
    have ci: "uds_cfg_inv ?c" using uds_cfg_inv_out_buf[of "Some [0x50, 3, 0, 50, 1, 0xF4, 0, 0]" diag_cfg] diag_cfg_inv by (simp add: diag_cfg_def)
    have ti: "uds_txn_inv ?c (us_txn ?s)"
      by (simp add: uds_txn_inv_def uds_ctx_inv_def diag_txn_def diag_ctx_def uds_txn_zero_def uds_ctx_zero_def) (simp add: diag_cfg_def)
    have g: "uds_good (svc_row_ok diag_env) (svc_env_ok diag_env) ?w"
      using ci ti diag_keeps diag_fit diag_env_ok
      by (simp add: uds_good_def uds_inv_def) (simp add: diag_server_def uds_session_inv_def NX_UDS_SESSION_IN_RANGE_def)
    have r: "uds_row_of ?w = Some ?r"
      by (simp add: uds_row_of_def diag_txn_def uds_txn_zero_def word_less_nat_alt) (simp add: diag_rows_def)
    have t: "ut_state (uw_txn ?w) = TXN_AWAIT" "cx_sub (uw_ctx ?w) = 3" "cx_sid (uw_ctx ?w) = 0x10" "cx_out_len (uw_ctx ?w) = 6" "uc_link (uw_cfg ?w) = 0"
      by (simp_all add: diag_txn_def diag_ctx_def uds_txn_zero_def uds_ctx_zero_def) (simp add: diag_cfg_def)
    have p: "answer_positive ?w" using t by (simp add: answer_positive_def)
    note m = conjunct1[OF conjunct2[OF conjunct2[OF nx_uds_svc_session_control_takes_effect[OF diag_handlers g h cfg]]], rule_format, of NX_TP_N_OK]
    have "NX_UDS_SESSION_IN_RANGE (cx_sub (uw_ctx ?w))" unfolding t(2) by (simp add: NX_UDS_SESSION_IN_RANGE_def)
    then have "(0 :: u8) = 0 \<and> answer_positive ?w \<and> NX_UDS_SESSION_IN_RANGE (cx_sub (uw_ctx ?w))" using p by blast
    note yes = if_P[OF this]
    obtain w' where "nx_uds_server_confirm diag_call (Some ?w) (uc_link (uw_cfg ?w)) 0 = Some (NX_UDS_SERVER_OK, Some w')"
      "us_session (uw_srv w') = cx_sub (uw_ctx ?w)"
    proof (rule exE[OF m])
      show "wc_srv \<lparr> wc_srv = True, wc_allow_fn = None, wc_user = 0 \<rparr>" by simp
      show "uds_row_of ?w = Some ?r \<and> ut_state (uw_txn ?w) = TXN_AWAIT" by (rule conjI[OF r t(1)])
    qed (auto simp only: session_moves_def yes)
    then show ?thesis unfolding t(2,5) by blast
  qed
qed

text \<open>
  The window published by DiagnosticSessionControl is rounded up and saturated: it is at least the window kept, unless the field cannot
  hold it, and less than one count longer. Windows within one count of the range of the clock are not covered: the sum wraps there.
\<close>

theorem svc_window_counts_rounds_up:
  assumes "unit \<noteq> 0" and "unat us + unat unit \<le> 2 ^ 32"
  shows "unat (svc_window_counts us unit) = min 65535 ((unat us + unat unit - 1) div unat unit) \<and>
     (unat (svc_window_counts us unit) = 65535 \<or> unat us \<le> unat (svc_window_counts us unit) * unat unit) \<and>
     (us \<noteq> 0 \<longrightarrow> unat (svc_window_counts us unit) * unat unit < unat us + unat unit)"
proof -
  have u0: "0 < unat unit" using assms(1) by (simp add: unat_gt_0)
  let ?q = "(unat us + unat unit - 1) div unat unit"
  have "unat (us + unit - 1) = unat us + unat unit - 1"
  proof -
    have "us + unit - 1 = (of_nat (unat us + unat unit - 1) :: u32)" using u0 by (simp add: of_nat_diff)
    moreover have "unat us + unat unit - 1 < 2 ^ 32" using assms(2) u0 by linarith
    ultimately show ?thesis by (simp add: unsigned_of_nat take_bit_nat_eq_self)
  qed
  then have q: "unat ((us + unit - 1) div unit) = ?q" by (simp add: unat_div)
  have c: "unat (svc_window_counts us unit) = min 65535 ?q"
    using q by (auto simp: svc_window_counts_def Let_def word_less_nat_alt unsigned_ucast_eq min_def take_bit_nat_eq_self)
  have m: "?q * unat unit \<le> unat us + unat unit - 1" by simp
  have "unat us + unat unit - 1 < (?q + 1) * unat unit" using u0 by (simp add: dividend_less_times_div mult.commute)
  then have lo: "unat us \<le> ?q * unat unit" using u0 by (simp add: algebra_simps)
  have hi: "min 65535 ?q * unat unit < unat us + unat unit"
  proof -
    have "min 65535 ?q * unat unit \<le> ?q * unat unit" by (rule mult_le_mono1) simp
    then show ?thesis using m u0 by linarith
  qed
  show ?thesis unfolding c using lo hi by (cases "?q \<le> 65535") (simp_all add: min_def)
qed

theorem svc_window_counts_rounds_up_witness: "unat (svc_window_counts 50001 1000) = 51"
  using svc_window_counts_rounds_up[of 1000 50001] by simp

text \<open>Where the sum wraps, the longest windows are published as none.\<close>

lemma svc_window_counts_wraps: "svc_window_counts 0xFFFFFFFF NX_UDS_P2_RESOLUTION_US = 0"
  by (simp add: svc_window_counts_def Let_def)

text \<open>
  C18: a level is unlocked only by its key. If a request to SecurityAccess changes the security level, it was the request with the even
  sub-function of the new level, the seed outstanding was one of that level, and the product judged the bytes the request carried, as many
  as the level's key has, right against exactly that seed; the seed is spent and the count of wrong keys cleared.
\<close>

theorem nx_uds_svc_security_access_unlocks_by_key:
  assumes "nx_uds_svc_security_access u w = Some (d, w')" and "us_sec_level (uw_srv w') \<noteq> us_sec_level (uw_srv w)"
    and "sec_clock_apart (uw_cfg w) dg_secs"
  shows "\<exists>sec v area b x y lv s'. dg_secs (uw_env w) u = Some sec \<and> cx_phase (uw_ctx w) = NX_UDS_PHASE_REQUEST \<and>
     unat (cx_sub (uw_ctx w)) = 2 * unat (us_sec_level (uw_srv w')) \<and> xs_seed_level sec = us_sec_level (uw_srv w') \<and>
     sec_find_level sec (us_sec_level (uw_srv w')) = Some (Some lv) \<and> cx_req_len (uw_ctx w) = 2 + lv_key_len lv \<and>
     xc_verify_fn (xs_cfg sec) = Some v \<and> xc_seed_buf (xs_cfg sec) = Some area \<and> uc_req_buf (uw_cfg w) = Some b \<and>
     v (xc_user (xs_cfg sec)) (us_sec_level (uw_srv w')) (take (unat (xs_seed_len sec)) area) (take (unat (lv_key_len lv)) (drop 2 b)) x = (True, y) \<and>
     dg_secs (uw_env w') u = Some s' \<and> xs_seed_level s' = 0 \<and> xs_attempts s' = 0"
proof -
  have u: "u \<noteq> 0"
  proof
    assume "u = 0"
    then show False using assms(1,2) by (auto simp: nx_uds_svc_security_access_def svc_refuse_def)
  qed
  then obtain sec where s: "dg_secs (uw_env w) u = Some sec"
    using assms(1) by (auto simp: nx_uds_svc_security_access_def bind_eq_Some_conv)
  have p: "xc_srv (xs_cfg sec)" "cx_phase (uw_ctx w) = NX_UDS_PHASE_REQUEST"
    using assms(1,2) u s by (auto simp: nx_uds_svc_security_access_def svc_refuse_def split: if_splits)
  from security_access_cases[OF assms(1) s assms(3) u p] show ?thesis
  proof cases
    case (1 t w1)
    then show ?thesis using assms(2) by simp
  next
    case (2 w1 sec1)
    have x: "uw_cfg w1 = uw_cfg w" "uw_ctx w1 = uw_ctx w" "us_sec_level (uw_srv w1) = us_sec_level (uw_srv w)" by (simp_all add: 2(2))
    from sec_exchange_cases[OF 2(1,3)] show ?thesis
    proof cases
      case 1
      then show ?thesis using assms(2) x by simp
    next
      case (2 lv)
      then show ?thesis using sec_do_seed_leaves[OF 2] \<open>dg_secs (uw_env w1) u = Some sec1\<close> assms(2) x by (simp add: sec_seed_left_def)
    next
      case (3 lv)
      have c1: "sec_clock_apart (uw_cfg w1) dg_secs" using assms(3) x by simp
      have n1: "us_sec_level (uw_srv w') \<noteq> us_sec_level (uw_srv w1)" using assms(2) x by simp
      obtain v area seed key z s' where k: "xc_verify_fn (xs_cfg sec1) = Some v" "xc_seed_buf (xs_cfg sec1) = Some area"
          "mem_read 0 (unat (xs_seed_len sec1)) area = Some seed" "req_from w1 (lv_key_len lv) = Some key"
          "v (xc_user (xs_cfg sec1)) (sec_level_of (cx_sub (uw_ctx w1))) seed key (dg_app (uw_env w1)) = (True, z)"
          "xs_seed_level sec1 = sec_level_of (cx_sub (uw_ctx w1))" "cx_req_len (uw_ctx w1) = 2 + lv_key_len lv"
          "us_sec_level (uw_srv w') = sec_level_of (cx_sub (uw_ctx w1))"
          "dg_secs (uw_env w') u = Some s'" "xs_seed_level s' = 0" "xs_attempts s' = 0"
        by (rule sec_do_key_unlocks[OF 3(4) 2(3) c1 n1])
      obtain b where b: "uc_req_buf (uw_cfg w) = Some b" "key = take (unat (lv_key_len lv)) (drop 2 b)"
        using k(4) x by (auto simp: req_from_def bind_eq_Some_conv dest!: mem_read_eq_SomeD)
      have sd: "seed = take (unat (xs_seed_len sec)) area" using k(3) 2(4) by (auto dest!: mem_read_eq_SomeD)
      have f: "sec_find_level sec = sec_find_level sec1" using 2(4) by (simp add: sec_find_level_def fun_eq_iff)
      show ?thesis
        by (rule exI[of _ sec], rule exI[of _ v], rule exI[of _ area], rule exI[of _ b], rule exI[of _ "dg_app (uw_env w1)"],
            rule exI[of _ z], rule exI[of _ lv], rule exI[of _ s'])
          (use s p k b sd f 3 2(4) x sec_level_of_key[OF 3(1,2)] in auto)
    qed
  qed
qed

theorem nx_uds_svc_security_access_unlocks_by_key_witness:
  "\<exists>d w' sec s'. nx_uds_svc_security_access 1 (diag_keyed 0x34 0x12) = Some (d, w') \<and> us_sec_level (uw_srv w') = 1 \<and>
     dg_secs (uw_env (diag_keyed 0x34 0x12)) 1 = Some sec \<and> xs_seed_level sec = 1 \<and>
     dg_secs (uw_env w') 1 = Some s' \<and> xs_seed_level s' = 0"
proof -
  let ?w = "diag_keyed 0x34 0x12"
  obtain d w' where r: "nx_uds_svc_security_access 1 ?w = Some (d, w')" "us_sec_level (uw_srv w') = 1"
    using diag_keyed_runs[of "0x34" "0x12"] by auto
  have n: "us_sec_level (uw_srv w') \<noteq> us_sec_level (uw_srv ?w)" using r(2) by (simp add: diag_keyed_def diag_server_def)
  have c: "sec_clock_apart (uw_cfg ?w) dg_secs" by (simp add: sec_clock_apart_def diag_keyed_def diag_cfg_def)
  show ?thesis using nx_uds_svc_security_access_unlocks_by_key[OF r(1) n c] r by auto
qed

text \<open>
  C19: guessing is limited. An exchange that is neither waiting nor has reached its limit of wrong keys stays so under every request. A key
  judged wrong spends the seed and is counted, and the one that reaches the limit starts the wait; while the wait runs every request is
  refused with the same reason and changes nothing, whatever it asks.
\<close>

theorem nx_uds_svc_security_access_limits_guesses:
  assumes "nx_uds_svc_security_access u w = Some (d, w')" and "u \<noteq> 0" and "dg_secs (uw_env w) u = Some sec" and "sec_guarded sec"
    and "sec_clock_apart (uw_cfg w) dg_secs" and "cx_phase (uw_ctx w) = NX_UDS_PHASE_REQUEST" and "xc_srv (xs_cfg sec)"
  shows "\<exists>s'. dg_secs (uw_env w') u = Some s' \<and> sec_guarded s' \<and>
     (d = NX_UDS_DISPOSITION_NEGATIVE \<and> cx_nrc (uw_ctx w') = NX_UDS_NRC_INVALID_KEY \<longrightarrow>
        xs_attempts s' = (if xs_waiting sec then 0 else xs_attempts sec) + 1 \<and> \<not> xs_waiting s' \<and> xs_seed_level s' = 0) \<and>
     (d = NX_UDS_DISPOSITION_NEGATIVE \<and> cx_nrc (uw_ctx w') = NX_UDS_NRC_EXCEEDED_NUMBER_OF_ATTEMPTS \<longrightarrow>
        xs_attempts s' = (if xs_waiting sec then 0 else xs_attempts sec) + 1 \<and> xs_waiting s' \<and> xs_seed_level s' = 0) \<and>
     (\<forall>t w1. xs_waiting sec \<and> sec_now sec w = Some (t, w1) \<and> \<not> sec_reached t (xs_wait_until sec) \<longrightarrow>
        s' = sec \<and> d = NX_UDS_DISPOSITION_NEGATIVE \<and> w' = upd_ctx (\<lambda>c. c\<lparr> cx_nrc := NX_UDS_NRC_REQUIRED_TIME_DELAY_NOT_EXPIRED \<rparr>) w1)"
proof (cases "\<exists>t w1. xs_waiting sec \<and> sec_now sec w = Some (t, w1) \<and> \<not> sec_reached t (xs_wait_until sec)")
  case True
  then obtain t w1 where n: "xs_waiting sec" "sec_now sec w = Some (t, w1)" "\<not> sec_reached t (xs_wait_until sec)" by blast
  have "Some (d, w') = svc_refuse NX_UDS_NRC_REQUIRED_TIME_DELAY_NOT_EXPIRED w1"
    using assms(1-3,6,7) n by (simp add: nx_uds_svc_security_access_def)
  then show ?thesis using n sec_now_keeps[OF n(2) assms(5)] assms(3,4) by (auto simp: svc_refuse_def)
next
  case served: False
  from security_access_cases[OF assms(1,3,5,2,7,6)] show ?thesis
  proof cases
    case (1 t w1)
    then show ?thesis using served by blast
  next
    case (2 w1 sec1)
    have g1: "sec_guarded sec1" "\<not> xs_waiting sec1" "xs_attempts sec1 = (if xs_waiting sec then 0 else xs_attempts sec)"
      using assms(4) 2(4) by (auto simp: sec_guarded_def word_neq_0_conv)
    have c1: "sec_clock_apart (uw_cfg w1) dg_secs" using assms(5) 2(2) by simp
    from sec_exchange_cases[OF 2(1,3)] show ?thesis
    proof cases
      case 1
      then show ?thesis using 2(3) g1 served by auto
    next
      case (2 lv)
      then show ?thesis using sec_do_seed_leaves[OF 2 \<open>dg_secs (uw_env w1) u = Some sec1\<close>] g1 served
        by (auto simp: sec_seed_left_def sec_guarded_def)
    next
      case (3 lv)
      show ?thesis using sec_do_key_leaves[OF 3(4) 2(3) c1 g1(1,2)] g1(3) served by auto
    qed
  qed
qed

text \<open>The same exchange with a wrong key.\<close>

theorem nx_uds_svc_security_access_limits_guesses_witness:
  "\<exists>d w' s'. nx_uds_svc_security_access 1 (diag_keyed 0 0) = Some (d, w') \<and> dg_secs (uw_env w') 1 = Some s' \<and>
     xs_attempts s' = 1 \<and> xs_seed_level s' = 0"
proof -
  let ?w = "diag_keyed 0 0" and ?s = "diag_sec\<lparr> xs_seed_level := 1, xs_seed_len := 2 \<rparr>"
  obtain d w' where r: "nx_uds_svc_security_access 1 ?w = Some (d, w')" "d = NX_UDS_DISPOSITION_NEGATIVE" "cx_nrc (uw_ctx w') = NX_UDS_NRC_INVALID_KEY"
    using diag_keyed_runs[of 0 0] by auto
  have k: "dg_secs (uw_env ?w) 1 = Some ?s" "sec_guarded ?s" "sec_clock_apart (uw_cfg ?w) dg_secs"
    "cx_phase (uw_ctx ?w) = NX_UDS_PHASE_REQUEST" "xc_srv (xs_cfg ?s)" "xs_attempts ?s = 0" "\<not> xs_waiting ?s"
    by (simp_all add: diag_keyed_defs sec_guarded_def sec_clock_apart_def) (simp add: diag_cfg_def)
  show ?thesis using nx_uds_svc_security_access_limits_guesses[OF r(1) _ k(1-5)] r k(6,7) by auto
qed

end
