(* ===== verification/Nx_Uds_Image.thy ===== *)
theory Nx_Uds_Image
  imports Nx_Uds_Moves
begin

text \<open>
  What the services that move memory do over a whole transfer. Requests are put before the handler as the server puts them; the receiver of a
  download is a list of blocks, which the code keeps only the length and the counter of.
\<close>

section \<open>A request and its answer\<close>

definition svc_ask :: "bytes \<Rightarrow> 'e uds_world \<Rightarrow> 'e uds_world option" where
  "svc_ask req w = do {
     w1 \<leftarrow> put_req req w;
     w2 \<leftarrow> put_out 0 [NX_UDS_SID_TO_POS_RSP (hd req)] w1;
     Some (upd_ctx (\<lambda>c. c\<lparr> cx_phase := NX_UDS_PHASE_REQUEST, cx_req_len := of_nat (length req), cx_sid := hd req, cx_out_len := 1,
       cx_nrc := NX_UDS_NRC_NONE \<rparr>) w2) }"

text \<open>The answer, or the reason of the refusal.\<close>

definition svc_reply :: "nx_uds_disposition \<Rightarrow> 'e uds_world \<Rightarrow> (bytes + u8) option" where
  "svc_reply d w =
     (if d = NX_UDS_DISPOSITION_DONE then do { b \<leftarrow> uc_out_buf (uw_cfg w); x \<leftarrow> mem_read 0 (unat (cx_out_len (uw_ctx w))) b; Some (Inl x) }
      else Some (Inr (cx_nrc (uw_ctx w))))"

definition xfer_served :: "nat \<Rightarrow> u8 \<times> bytes \<Rightarrow> 'x diag_world \<Rightarrow> ((bytes + u8) \<times> 'x diag_world) option" where
  "xfer_served u = (\<lambda>(bsc, data) w. do {
     w1 \<leftarrow> svc_ask ([0x36, bsc] @ data) w;
     (d, w2) \<leftarrow> nx_uds_svc_transfer_data u w1;
     r \<leftarrow> svc_reply d w2;
     Some (r, w2) })"

section \<open>The receiver of a download\<close>

text \<open>The product's way to write, at an address, which may refuse.\<close>

type_synonym 'x xfer_writer = "u32 \<Rightarrow> bytes \<Rightarrow> 'x \<Rightarrow> (bool \<times> u8) \<times> 'x"

definition receiver_step :: "'x xfer_writer \<Rightarrow> u32 \<Rightarrow> nat \<Rightarrow> nat \<Rightarrow> u8 \<Rightarrow> u8 \<times> bytes \<Rightarrow> bytes list \<times> 'x \<Rightarrow> (bytes + u8) \<times> (bytes list \<times> 'x)" where
  "receiver_step wr addr region room wrong = (\<lambda>(bsc, data) (blocks, x).
     if blocks \<noteq> [] \<and> bsc = of_nat (length blocks) then (Inl [0x76, bsc], (blocks, x))
     else if bsc \<noteq> of_nat (length blocks + 1) then (Inr wrong, (blocks, x))
     else if data = [] \<or> length data > room \<or> length (concat blocks) + length data > region
     then (Inr NX_UDS_NRC_REQUEST_OUT_OF_RANGE, (blocks, x))
     else (case wr (addr + of_nat (length (concat blocks))) data x of
             ((True, _), x1) \<Rightarrow> (Inl [0x76, bsc], (blocks @ [data], x1))
           | ((False, nrc), x1) \<Rightarrow> (Inr nrc, (blocks, x1))))"

text \<open>The world in which those blocks have arrived.\<close>

definition xfer_received :: "nat \<Rightarrow> 'x nx_uds_svc_transfer_cfg \<Rightarrow> u32 \<Rightarrow> nat \<Rightarrow> nat \<Rightarrow> nat \<Rightarrow> bytes list \<times> 'x \<Rightarrow> 'x diag_world \<Rightarrow> bool" where
  "xfer_received u c addr region room len = (\<lambda>(blocks, x) w.
     length (concat blocks) \<le> region \<and> dg_app (uw_env w) = x \<and>
     (\<exists>b. uc_req_buf (uw_cfg w) = Some b \<and> length b = len) \<and> (\<exists>b. uc_out_buf (uw_cfg w) = Some b \<and> 3 \<le> length b) \<and>
     (\<exists>t. dg_xfers (uw_env w) u = Some t \<and> xf_cfg t = c \<and> xr_dir (xf_run t) = NX_UDS_SVC_TRANSFER_DOWNLOAD \<and>
        xr_addr (xf_run t) = addr \<and> unat (xr_size (xf_run t)) = region \<and> unat (xr_done (xf_run t)) = length (concat blocks) \<and>
        unat (nx_uds_svc_transfer_payload_room (xr_block_len (xf_run t))) = room \<and>
        xr_bsc_next (xf_run t) = of_nat (length blocks + 1) \<and> xr_bsc_last (xf_run t) = of_nat (length blocks) \<and>
        (xr_committed (xf_run t) \<longleftrightarrow> blocks \<noteq> [])))"

lemma svc_ask_there:
  assumes "uc_req_buf (uw_cfg w) = Some b" "length req \<le> length b" "uc_out_buf (uw_cfg w) = Some ob" "3 \<le> length ob"
  obtains w1 where "svc_ask req w = Some w1" "uw_env w1 = uw_env w" "uc_req_buf (uw_cfg w1) = Some (req @ drop (length req) b)"
    "uc_out_buf (uw_cfg w1) = Some ((hd req OR 0x40) # drop 1 ob)" "cx_phase (uw_ctx w1) = NX_UDS_PHASE_REQUEST"
    "cx_req_len (uw_ctx w1) = of_nat (length req)" "cx_out_cap (uw_ctx w1) = cx_out_cap (uw_ctx w)"
proof -
  have "mem_write 0 req b = Some (req @ drop (length req) b)" using assms(2) by (simp add: mem_write_def)
  moreover have "mem_write 0 [hd req OR 0x40] ob = Some ((hd req OR 0x40) # drop 1 ob)" using assms(4) by (simp add: mem_write_def)
  moreover define w1 where "w1 = upd_ctx (\<lambda>c. c\<lparr> cx_phase := NX_UDS_PHASE_REQUEST, cx_req_len := of_nat (length req), cx_sid := hd req,
      cx_out_len := 1, cx_nrc := 0 \<rparr>) (upd_srv (\<lambda>s. s\<lparr> us_cfg := (us_cfg s)\<lparr> uc_out_buf := Some ((hd req OR 0x40) # drop 1 ob) \<rparr> \<rparr>)
      (upd_srv (\<lambda>s. s\<lparr> us_cfg := (us_cfg s)\<lparr> uc_req_buf := Some (req @ drop (length req) b) \<rparr> \<rparr>) w))"
  ultimately show thesis using assms
    by (intro that[of w1]) (simp_all add: svc_ask_def put_req_def put_out_def NX_UDS_SID_TO_POS_RSP_def w1_def)
qed

text \<open>The answers of two bytes, and the refusals.\<close>

lemma reply_refuse: "svc_refuse nrc w = Some (d, w') \<Longrightarrow> svc_reply d w' = Some (Inr nrc)"
  by (auto simp: svc_refuse_def svc_reply_def)

lemma echo_eq:
  assumes "uc_out_buf (uw_cfg w) = Some (a # r)" "r \<noteq> []"
  shows "put_out 1 [x] w = Some (upd_srv (\<lambda>s. s\<lparr> us_cfg := (us_cfg s)\<lparr> uc_out_buf := Some (a # x # tl r) \<rparr> \<rparr>) w)"
proof -
  have "mem_write 1 [x] (a # r) = Some (a # x # tl r)" using assms(2) by (cases r) (simp_all add: mem_write_def)
  then show ?thesis using assms(1) by (simp add: put_out_def)
qed

lemma room_sum:
  assumes "unat (d :: u32) + unat n < 2 ^ 32"
  shows "unat (d + n) = unat d + unat n"
  using assms by (simp add: unat_word_ariths)

text \<open>The decision on the length of a block of a download, over the naturals.\<close>

lemma download_len:
  assumes "xr_dir r = NX_UDS_SVC_TRANSFER_DOWNLOAD" and "unat (xr_size r) + unat (nx_uds_svc_transfer_payload_room (xr_block_len r)) < 2 ^ 32"
    and "xr_done r \<le> xr_size r" and q: "unat q = 2 + n"
  shows "xfer_block_len r q =
    (if n = 0 \<or> n > unat (nx_uds_svc_transfer_payload_room (xr_block_len r)) \<or> unat (xr_done r) + n > unat (xr_size r) then None else Some (q - 2))"
proof -
  let ?room = "nx_uds_svc_transfer_payload_room (xr_block_len r)"
  have "2 \<le> q" using q by (simp add: word_le_nat_alt)
  then have m: "unat (q - 2) = n" using q by (simp add: unat_sub)
  then have z: "q - 2 = 0 \<longleftrightarrow> n = 0" by (metis unsigned_0 unsigned_word_eqI)
  show ?thesis
  proof (cases "n \<le> unat ?room")
    case False
    then show ?thesis using assms(1) m by (simp add: xfer_block_len_def Let_def word_less_nat_alt)
  next
    case True
    then have "unat (xr_done r + (q - 2)) = unat (xr_done r) + n"
      using assms(2,3) m by (simp add: room_sum word_le_nat_alt)
    then show ?thesis using assms(1) m z True by (simp add: xfer_block_len_def Let_def word_less_nat_alt del: add_diff_eq)
  qed
qed

text \<open>One request, in each of its cases.\<close>

lemma received_step:
  assumes u: "u \<noteq> 0" and rel: "xfer_received u c addr region room len (blocks, x) w"
    and small: "region + room < 2 ^ 32" "len < 2 ^ 32" and fits: "2 + length data \<le> len"
    and wf: "tc_write_fn c = Some wfn" and wr: "wr = (\<lambda>a d. wfn (tc_user c) a d NX_UDS_NRC_GENERAL_PROGRAMMING_FAILURE)"
  shows "\<exists>w'. xfer_served u (bsc, data) w = Some (fst (receiver_step wr addr region room (tc_bsc_error_nrc c) (bsc, data) (blocks, x)), w') \<and>
     xfer_received u c addr region room len (snd (receiver_step wr addr region room (tc_bsc_error_nrc c) (bsc, data) (blocks, x))) w'"
proof -
  let ?moved = "length (concat blocks)" and ?req = "[0x36, bsc] @ data"
  obtain t where t: "dg_xfers (uw_env w) u = Some t" "xf_cfg t = c" "xr_dir (xf_run t) = NX_UDS_SVC_TRANSFER_DOWNLOAD"
    "xr_addr (xf_run t) = addr" "unat (xr_size (xf_run t)) = region" "unat (xr_done (xf_run t)) = ?moved"
    "unat (nx_uds_svc_transfer_payload_room (xr_block_len (xf_run t))) = room"
    "xr_bsc_next (xf_run t) = of_nat (length blocks + 1)" "xr_bsc_last (xf_run t) = of_nat (length blocks)"
    "xr_committed (xf_run t) \<longleftrightarrow> blocks \<noteq> []"
    and m: "?moved \<le> region" "dg_app (uw_env w) = x" using rel by (auto simp: xfer_received_def)
  obtain b ob where b: "uc_req_buf (uw_cfg w) = Some b" "length b = len" and ob: "uc_out_buf (uw_cfg w) = Some ob" "3 \<le> length ob"
    using rel by (auto simp: xfer_received_def)
  obtain w1 where a: "svc_ask ?req w = Some w1" and e1: "uw_env w1 = uw_env w"
    and b1: "uc_req_buf (uw_cfg w1) = Some (?req @ drop (length ?req) b)"
    and o1: "uc_out_buf (uw_cfg w1) = Some ((hd ?req OR 0x40) # drop 1 ob)" and p1: "cx_phase (uw_ctx w1) = NX_UDS_PHASE_REQUEST"
    and l1: "cx_req_len (uw_ctx w1) = of_nat (length ?req)"
    by (rule svc_ask_there[OF b(1) _ ob, of ?req]) (use b(2) fits in simp_all)
  have q: "unat (cx_req_len (uw_ctx w1)) = 2 + length data"
    unfolding l1 unsigned_of_nat by (simp add: take_bit_nat_eq_self) (rule take_bit_nat_eq_self, use small(2) fits in simp)
  have bsc: "req_byte w1 1 = Some bsc" using b1 by (simp add: req_byte_def mem_get_def)
  have data: "req_at w1 2 n = Some data" if "unat n = length data" for n
    using b1 that by (simp add: req_at_def mem_read_def)
  have "drop 1 ob \<noteq> []" using ob(2) by auto
  then have echo: "put_out 1 [y] w1 = Some (upd_srv (\<lambda>s. s\<lparr> us_cfg := (us_cfg s)\<lparr> uc_out_buf := Some (0x76 # y # tl (drop 1 ob)) \<rparr> \<rparr>) w1)" for y
    using echo_eq[OF o1] by simp
  have svc: "nx_uds_svc_transfer_data u w1 = xfer_data u t w1"
    using u p1 e1 t by (simp add: nx_uds_svc_transfer_data_def)
  have rd: "mem_read 0 2 (0x76 # y # r) = Some [0x76, y]" for y :: u8 and r by (simp add: mem_read_def numeral_2_eq_2)
  have o3: "3 \<le> length ((0x76 :: u8) # y # tl (drop 1 ob))" for y using ob(2) by simp
  have stays: "xfer_received u c addr region room len (blocks, x') w2"
    if "dg_xfers (uw_env w2) u = Some t" "dg_app (uw_env w2) = x'" "uc_req_buf (uw_cfg w2) = uc_req_buf (uw_cfg w1)"
      "\<exists>b. uc_out_buf (uw_cfg w2) = Some b \<and> 3 \<le> length b" for w2 x'
    using that t m b1 b(2) fits by (auto simp: xfer_received_def)
  have refuses: "\<exists>w'. xfer_served u (bsc, data) w = Some (Inr nrc, w') \<and> xfer_received u c addr region room len (blocks, x) w'"
    if "xfer_data u t w1 = svc_refuse nrc w1" for nrc
    using that a svc o1 ob(2) e1 t(1) m(2)
    by (intro exI[of _ "upd_ctx (\<lambda>c. c\<lparr> cx_nrc := nrc \<rparr>) w1"] conjI stays) (auto simp: xfer_served_def svc_refuse_def svc_reply_def)
  have bl: "xfer_block_len (xf_run t) (cx_req_len (uw_ctx w1)) =
      (if data = [] \<or> length data > room \<or> ?moved + length data > region then None else Some (cx_req_len (uw_ctx w1) - 2))"
    using download_len[OF t(3) _ _ q] t(5-7) m(1) small(1) by (auto simp: word_le_nat_alt)
  let ?echo = "upd_srv (\<lambda>s. s\<lparr> us_cfg := (us_cfg s)\<lparr> uc_out_buf := Some (0x76 # bsc # tl (drop 1 ob)) \<rparr> \<rparr>) w1"
  let ?done = "\<lambda>w. upd_ctx (\<lambda>c. c\<lparr> cx_out_len := 2 \<rparr>) w"
  have bn: "bsc = of_nat (length blocks) \<longleftrightarrow> bsc = xr_bsc_last (xf_run t)" "bsc = of_nat (length blocks + 1) \<longleftrightarrow> bsc = xr_bsc_next (xf_run t)"
    using t(8,9) by auto
  consider (again) "blocks \<noteq> []" "bsc = of_nat (length blocks)"
    | (wrong) "\<not> (blocks \<noteq> [] \<and> bsc = of_nat (length blocks))" "bsc \<noteq> of_nat (length blocks + 1)"
    | (bad) "\<not> (blocks \<noteq> [] \<and> bsc = of_nat (length blocks))" "bsc = of_nat (length blocks + 1)"
        "data = [] \<or> length data > room \<or> ?moved + length data > region"
    | (good) "\<not> (blocks \<noteq> [] \<and> bsc = of_nat (length blocks))" "bsc = of_nat (length blocks + 1)"
        "\<not> (data = [] \<or> length data > room \<or> ?moved + length data > region)" by blast
  then show ?thesis
  proof cases
    case again
    have "xfer_data u t w1 = Some (NX_UDS_DISPOSITION_DONE, ?done ?echo)"
      using again bn bsc t(3,10) echo by (simp add: xfer_data_def xfer_repeat_def svc_done_def)
    then have "xfer_served u (bsc, data) w = Some (Inl [0x76, bsc], ?done ?echo)"
      using a svc rd by (simp add: xfer_served_def svc_reply_def)
    moreover have "xfer_received u c addr region room len (blocks, x) (?done ?echo)"
      by (rule stays) (use e1 t(1) m(2) o3[of bsc] in simp_all)
    ultimately show ?thesis using again by (simp add: receiver_step_def)
  next
    case wrong
    have "xfer_data u t w1 = svc_refuse (tc_bsc_error_nrc c) w1"
      using wrong bn bsc t(2,10) by (auto simp: xfer_data_def)
    from refuses[OF this] show ?thesis using wrong by (auto simp: receiver_step_def)
  next
    case bad
    have "xfer_data u t w1 = svc_refuse NX_UDS_NRC_REQUEST_OUT_OF_RANGE w1"
      using bad bn bsc t(10) bl by (auto simp: xfer_data_def)
    from refuses[OF this] show ?thesis using bad by (auto simp: receiver_step_def)
  next
    case good
    let ?n = "cx_req_len (uw_ctx w1) - 2"
    have n: "unat ?n = length data" using q by (simp add: unat_sub word_le_nat_alt)
    obtain ok nrc x1 where r: "wfn (tc_user c) (addr + of_nat ?moved) data NX_UDS_NRC_GENERAL_PROGRAMMING_FAILURE x = ((ok, nrc), x1)"
      by (metis surj_pair)
    have at: "xr_addr (xf_run t) + xr_done (xf_run t) = addr + of_nat ?moved" using t(4) by (simp add: t(6)[symmetric])
    have dx: "req_at ?echo 2 ?n = Some data" "dg_app (uw_env ?echo) = x" using data[OF n] e1 m(2) by (simp_all add: req_at_def)
    have carry: "xfer_carry t ?n ?echo =
        (if ok then Some (NX_UDS_DISPOSITION_DONE, ?done (upd_app x1 ?echo)) else svc_refuse nrc (upd_app x1 ?echo))"
      using t(2,3) wf at dx r by (simp add: xfer_carry_def svc_done_def)
    have data_eq: "xfer_data u t w1 = (if ok then Some (NX_UDS_DISPOSITION_DONE, upd_xfer u (xfer_commit bsc ?n) (?done (upd_app x1 ?echo)))
        else svc_refuse nrc (upd_app x1 ?echo))"
      using good bn bsc t(10) bl echo[of bsc] carry by (auto simp: xfer_data_def svc_refuse_def)
    have spec: "receiver_step wr addr region room (tc_bsc_error_nrc c) (bsc, data) (blocks, x) =
        (if ok then (Inl [0x76, bsc], (blocks @ [data], x1)) else (Inr nrc, (blocks, x1)))"
      using good r wr by (auto simp: receiver_step_def)
    show ?thesis
    proof (cases ok)
      case False
      have "xfer_served u (bsc, data) w = Some (Inr nrc, upd_ctx (\<lambda>c. c\<lparr> cx_nrc := nrc \<rparr>) (upd_app x1 ?echo))"
        using False a svc data_eq by (simp add: xfer_served_def svc_refuse_def svc_reply_def)
      moreover have "xfer_received u c addr region room len (blocks, x1) (upd_ctx (\<lambda>c. c\<lparr> cx_nrc := nrc \<rparr>) (upd_app x1 ?echo))"
        by (rule stays) (use e1 t(1) o3[of bsc] in simp_all)
      ultimately show ?thesis using False spec by simp
    next
      case True
      let ?w' = "upd_xfer u (xfer_commit bsc ?n) (?done (upd_app x1 ?echo))"
      have "xfer_served u (bsc, data) w = Some (Inl [0x76, bsc], ?w')"
        using True a svc data_eq rd by (simp add: xfer_served_def svc_reply_def)
      moreover have "xfer_received u c addr region room len (blocks @ [data], x1) ?w'"
      proof -
        have "unat (xr_done (xf_run t)) + unat ?n < 2 ^ 32" using t(6) n good(3) small(1) by linarith
        then have "unat (xr_done (xf_run t) + ?n) = ?moved + length data" using t(6) n by (simp add: room_sum)
        then show ?thesis using good t e1 o3[of bsc] b1 b(2) fits by (auto simp: xfer_received_def xfer_commit_def)
      qed
      ultimately show ?thesis using True spec by simp
    qed
  qed
qed

lemma received_run:
  assumes u: "u \<noteq> 0" and small: "region + room < 2 ^ 32" "len < 2 ^ 32"
    and wf: "tc_write_fn c = Some wfn" and wr: "wr = (\<lambda>a d. wfn (tc_user c) a d NX_UDS_NRC_GENERAL_PROGRAMMING_FAILURE)"
  shows "xfer_received u c addr region room len s w \<Longrightarrow> list_all (\<lambda>(bsc, data). 2 + length data \<le> len) reqs \<Longrightarrow>
    \<exists>w'. run_ops (xfer_served u) reqs w = Some (fst (run_spec (receiver_step wr addr region room (tc_bsc_error_nrc c)) reqs s), w') \<and>
      xfer_received u c addr region room len (snd (run_spec (receiver_step wr addr region room (tc_bsc_error_nrc c)) reqs s)) w'"
proof (induction reqs arbitrary: s w)
  case (Cons q reqs)
  obtain bsc data blocks x where q: "q = (bsc, data)" and s: "s = (blocks, x)" by (metis surj_pair)
  have "2 + length data \<le> len" using Cons.prems(2) q by simp
  from received_step[OF u Cons.prems(1)[unfolded s] small this wf wr, of bsc] obtain w1
    where w1: "xfer_served u q w = Some (fst (receiver_step wr addr region room (tc_bsc_error_nrc c) q s), w1)"
      "xfer_received u c addr region room len (snd (receiver_step wr addr region room (tc_bsc_error_nrc c) q s)) w1"
    unfolding q s by blast
  from Cons.IH[OF w1(2)] Cons.prems(2) w1(1) show ?case by (auto simp: split_beta Let_def)
qed simp

section \<open>A client that repeats itself\<close>

text \<open>Every block is sent once and then again as often as its number says, with the counter that belongs to it.\<close>

fun xfer_client :: "nat \<Rightarrow> (bytes \<times> nat) list \<Rightarrow> (u8 \<times> bytes) list" where
  "xfer_client k [] = []"
| "xfer_client k ((d, again) # ds) = replicate (Suc again) (of_nat (Suc k), d) @ xfer_client (Suc k) ds"

fun xfer_stored :: "(u32 \<Rightarrow> bytes \<Rightarrow> 'x \<Rightarrow> 'x) \<Rightarrow> u32 \<Rightarrow> nat \<Rightarrow> bytes list \<Rightarrow> 'x \<Rightarrow> 'x" where
  "xfer_stored put addr off [] x = x"
| "xfer_stored put addr off (d # ds) x = xfer_stored put addr (off + length d) ds (put (addr + of_nat off) d x)"

lemma run_spec_append:
  "run_spec f (xs @ ys) a = (let (r, a1) = run_spec f xs a; (r', a2) = run_spec f ys a1 in (r @ r', a2))"
  by (induction xs arbitrary: a) (simp_all add: split_beta Let_def)

lemma receiver_repeats:
  "blocks \<noteq> [] \<Longrightarrow> run_spec (receiver_step wr addr region room wrong) (replicate n (of_nat (length blocks), d)) (blocks, x) =
     (replicate n (Inl [0x76, of_nat (length blocks)]), (blocks, x))"
  by (induction n) (simp_all add: receiver_step_def)

lemma counter_moves: "(of_nat (Suc k) :: u8) \<noteq> of_nat k"
  by simp

lemma receiver_takes:
  assumes put: "\<And>a d y. \<exists>n. wr a d y = ((True, n), put a d y)"
    and d: "d \<noteq> []" "length d \<le> room" "length (concat blocks) + length d \<le> region"
  shows "run_spec (receiver_step wr addr region room wrong) (replicate (Suc n) (of_nat (Suc (length blocks)), d)) (blocks, x) =
     (replicate (Suc n) (Inl [0x76, of_nat (Suc (length blocks))]), (blocks @ [d], put (addr + of_nat (length (concat blocks))) d x))"
proof -
  obtain m where "wr (addr + of_nat (length (concat blocks))) d x = ((True, m), put (addr + of_nat (length (concat blocks))) d x)"
    using put by blast
  then have "receiver_step wr addr region room wrong (of_nat (Suc (length blocks)), d) (blocks, x) =
      (Inl [0x76, of_nat (Suc (length blocks))], (blocks @ [d], put (addr + of_nat (length (concat blocks))) d x))"
    using d counter_moves[of "length blocks"] by (simp add: receiver_step_def del: of_nat_Suc)
  moreover have "run_spec (receiver_step wr addr region room wrong) (replicate n (of_nat (Suc (length blocks)), d)) (blocks @ [d], y) =
      (replicate n (Inl [0x76, of_nat (Suc (length blocks))]), (blocks @ [d], y))" for y
    using receiver_repeats[of "blocks @ [d]" wr addr region room wrong n d y] by simp
  ultimately show ?thesis by (simp add: Let_def split_beta)
qed

lemma receiver_stores:
  assumes put: "\<And>a d y. \<exists>n. wr a d y = ((True, n), put a d y)"
  shows "list_all (\<lambda>(d, _). d \<noteq> [] \<and> length d \<le> room) ds \<Longrightarrow> length (concat blocks) + length (concat (map fst ds)) \<le> region \<Longrightarrow>
    run_spec (receiver_step wr addr region room wrong) (xfer_client (length blocks) ds) (blocks, x) =
      (map (\<lambda>(bsc, _). Inl [0x76, bsc]) (xfer_client (length blocks) ds),
       (blocks @ map fst ds, xfer_stored put addr (length (concat blocks)) (map fst ds) x))"
proof (induction ds arbitrary: blocks x)
  case (Cons p ds)
  obtain d n where p: "p = (d, n)" by (metis surj_pair)
  have d: "d \<noteq> []" "length d \<le> room" "length (concat blocks) + length d \<le> region" using Cons.prems p by auto
  note t = receiver_takes[OF put d, where addr = addr and wrong = wrong and n = n and x = x]
  have "run_spec (receiver_step wr addr region room wrong) (xfer_client (length (blocks @ [d])) ds) (blocks @ [d], y) =
      (map (\<lambda>(bsc, _). Inl [0x76, bsc]) (xfer_client (length (blocks @ [d])) ds),
       ((blocks @ [d]) @ map fst ds, xfer_stored put addr (length (concat (blocks @ [d]))) (map fst ds) y))" for y
    by (rule Cons.IH) (use Cons.prems p in auto)
  then show ?case using t unfolding p
    by (simp add: run_spec_append Let_def map_replicate_const del: of_nat_Suc replicate.simps)
qed simp

text \<open>What a memory holds then.\<close>

lemma stored_memory:
  fixes mem :: "'x \<Rightarrow> u32 \<Rightarrow> u8"
  assumes put: "\<And>a d y k. mem (put a d y) k = (if unat (k - a) < length d then d ! unat (k - a) else mem y k)"
  shows "off + length (concat ds) < 2 ^ 32 \<Longrightarrow>
    mem (xfer_stored put addr off ds x) k =
      (if unat (k - (addr + of_nat off)) < length (concat ds) then concat ds ! unat (k - (addr + of_nat off)) else mem x k)"
proof (induction ds arbitrary: off x)
  case (Cons d ds)
  let ?j = "k - (addr + of_nat off)"
  have IH: "mem (xfer_stored put addr off (d # ds) x) k =
      (if unat (?j - of_nat (length d)) < length (concat ds) then concat ds ! unat (?j - of_nat (length d))
       else if unat ?j < length d then d ! unat ?j else mem x k)"
    using Cons by (simp add: put algebra_simps)
  have ld: "unat (of_nat (length d) :: u32) = length d" using Cons.prems unfolding unsigned_of_nat of_nat_id by (intro take_bit_nat_eq_self) simp
  show ?case
  proof (cases "unat ?j < length d")
    case False
    then have "unat (?j - of_nat (length d)) = unat ?j - length d" using ld by (simp add: unat_sub word_le_nat_alt)
    then show ?thesis using False IH by (auto simp: nth_append)
  next
    case True
    have "unat (?j - of_nat (length d)) = unat ?j + 2 ^ 32 - length d"
      using True ld by (simp add: unat_sub_if_size word_size)
    then have "\<not> unat (?j - of_nat (length d)) < length (concat ds)" using Cons.prems True by auto
    then show ?thesis using True IH by (simp add: nth_append)
  qed
qed simp

end
