(* ===== verification/Nx_Uds_Open.thy ===== *)
theory Nx_Uds_Open
  imports Nx_Uds_Image
begin

text \<open>Opening a transfer: what the fields of the request mean, and what is announced.\<close>

section \<open>Fields of several bytes as numbers\<close>

definition be_nat :: "bytes \<Rightarrow> nat" where
  "be_nat = foldl (\<lambda>v b. 256 * v + unat b) 0"

lemma push_or_add: "push_bit 8 (v :: u32) OR ucast (b :: u8) = 256 * v + of_nat (unat b)"
proof -
  have "push_bit 8 v AND ucast b = 0" by (rule bit_word_eqI) (auto simp: bit_simps dest: bit_imp_le_length)
  then have "push_bit 8 v OR ucast b = push_bit 8 v + ucast b" using word_plus_and_or[of "push_bit 8 v" "ucast b"] by simp
  also have "\<dots> = 256 * v + of_nat (unat b)" by (simp add: push_bit_eq_mult)
  finally show ?thesis .
qed

lemma fold_be: "foldl (\<lambda>v b. push_bit 8 v OR ucast b) (of_nat n :: u32) (x :: bytes) = of_nat (foldl (\<lambda>v b. 256 * v + unat b) n x)"
proof (induction x arbitrary: n)
  case (Cons b x)
  then show ?case using Cons[of "256 * n + unat b"] by (simp add: push_or_add)
qed simp

lemma foldl_be_acc: "foldl (\<lambda>v b. 256 * v + unat b) n (x :: bytes) = n * 256 ^ length x + foldl (\<lambda>v b. 256 * v + unat b) 0 x"
proof (induction x arbitrary: n)
  case (Cons b x)
  show ?case using Cons[of "256 * n + unat b"] Cons[of "unat b"] by (simp add: algebra_simps)
qed simp

lemma be_nat_simps [simp]: "be_nat [] = 0" "be_nat (b # x) = unat b * 256 ^ length x + be_nat x"
  using foldl_be_acc[of "unat b" x] by (simp_all add: be_nat_def)

lemma be_nat_less: "be_nat x < 256 ^ length x"
proof (induction x)
  case (Cons b x)
  have "unat b * 256 ^ length x + be_nat x < (unat b + 1) * 256 ^ length x" using Cons by simp
  also have "(unat b + 1) * 256 ^ length x \<le> 256 * 256 ^ length x"
    using unat_u8_less[of b] by (intro mult_le_mono1) linarith
  finally show ?case by simp
qed simp

text \<open>A field reads as its number, and is refused exactly where that is no address.\<close>

lemma skip_high_eq: "xfer_skip_high x = (if be_nat x < 2 ^ 32 then Some (drop (length x - 4) x) else None)"
proof (induction x rule: xfer_skip_high.induct)
  case (2 b x)
  show ?case
  proof (cases "4 < length (b # x)")
    case False
    then have "(256 :: nat) ^ length (b # x) \<le> 256 ^ 4" by (intro power_increasing) auto
    then have "be_nat (b # x) < 2 ^ 32" using be_nat_less[of "b # x"] by simp
    then show ?thesis using False by simp
  next
    case True
    show ?thesis
    proof (cases "b = 0")
      case True
      moreover have "length (b # x) - 4 = Suc (length x - 4)" using \<open>4 < length (b # x)\<close> by simp
      ultimately show ?thesis using 2 \<open>4 < length (b # x)\<close> by simp
    next
      case False
      then have "1 \<le> unat b" by (simp add: Suc_le_eq unat_gt_0)
      moreover have "(256 :: nat) ^ 4 \<le> 256 ^ length x" using True by (intro power_increasing) auto
      ultimately have "256 ^ 4 \<le> unat b * 256 ^ length x" using mult_le_mono[of 1 "unat b" "256 ^ 4" "256 ^ length x"] by simp
      then have "\<not> be_nat (b # x) < 2 ^ 32" by simp
      then show ?thesis using True False by simp
    qed
  qed
qed simp

lemma be_nat_drop: "be_nat x < 256 ^ n \<Longrightarrow> be_nat (drop (length x - n) x) = be_nat x"
proof (induction x)
  case (Cons b x)
  show ?case
  proof (cases "length x < n")
    case False
    then have "(256 :: nat) ^ n \<le> 256 ^ length x" by (intro power_increasing) auto
    moreover have "unat b * 256 ^ length x < 256 ^ n" using Cons.prems by simp
    ultimately have "unat b * 256 ^ length x < 1 * 256 ^ length x" by linarith
    then have "unat b = 0" by (simp only: mult_less_cancel2) simp
    then show ?thesis using Cons False by (simp add: Suc_diff_le)
  qed simp
qed simp

lemma read_be_nat: "xfer_read_be x = (if be_nat x < 2 ^ 32 then Some (of_nat (be_nat x)) else None)"
proof (cases "be_nat x < 2 ^ 32")
  case True
  then have "be_nat (drop (length x - 4) x) = be_nat x" using be_nat_drop[of x 4] by simp
  then show ?thesis using True fold_be[of 0 "drop (length x - 4) x"] by (simp add: xfer_read_be_def skip_high_eq be_nat_def)
qed (simp add: xfer_read_be_def skip_high_eq)

text \<open>The announced length reads back as the number it is.\<close>

lemma write_be_Suc: "xfer_write_be (Suc n) v = ucast (drop_bit (8 * n) v) # xfer_write_be n v"
  by (simp add: xfer_write_be_def upt_conv_Cons map_Suc_upt[symmetric] del: upt_Suc)

lemma write_be_mod: "be_nat (xfer_write_be n v) = unat v mod 256 ^ n"
proof (induction n)
  case (Suc n)
  have "unat (ucast (drop_bit (8 * n) v) :: u8) = unat v div 256 ^ n mod 256"
    unfolding unsigned_ucast_eq unat_drop_bit_eq by (simp add: take_bit_eq_mod drop_bit_eq_div power_mult)
  moreover have "unat v mod 256 ^ Suc n = 256 ^ n * (unat v div 256 ^ n mod 256) + unat v mod 256 ^ n"
    using mod_mult2_eq[of "unat v" "256 ^ n" 256] by (simp only: power_Suc2)
  ultimately show ?case using Suc by (simp add: write_be_Suc mult.commute)
qed (simp add: xfer_write_be_def)

lemma write_be_nat: "unat v < 256 ^ n \<Longrightarrow> be_nat (xfer_write_be n v) = unat v"
  by (simp add: write_be_mod)

section \<open>The format byte\<close>

definition nibbles :: "nat \<Rightarrow> nat \<Rightarrow> u8" where
  "nibbles hi lo = of_nat (16 * hi + lo)"

lemma nibbles_read:
  assumes "hi < 16" "lo < 16"
  shows "unat (ucast (nibbles hi lo AND 15) :: u32) = lo" "unat (ucast (drop_bit 4 (nibbles hi lo) AND 15) :: u32) = hi"
proof -
  have n: "unat (nibbles hi lo) = 16 * hi + lo"
    unfolding nibbles_def unsigned_of_nat of_nat_id by (rule take_bit_nat_eq_self) (use assms in simp)
  have m: "unat (x AND 15) = unat x mod 16" for x :: u8
  proof -
    have "x AND 15 = take_bit 4 x" by (simp add: take_bit_eq_mask mask_eq_exp_minus_1)
    then have "unat (x AND 15) = take_bit 4 (unat x)" by (simp only: unsigned_take_bit_eq)
    then show ?thesis by (simp add: take_bit_eq_mod)
  qed
  show "unat (ucast (nibbles hi lo AND 15) :: u32) = lo" using assms by (simp add: unat_ucast_wider m n)
  have "unat (drop_bit 4 (nibbles hi lo)) = hi" unfolding unat_drop_bit_eq n using assms by (simp add: drop_bit_eq_div)
  then show "unat (ucast (drop_bit 4 (nibbles hi lo) AND 15) :: u32) = hi" using assms by (simp add: unat_ucast_wider m)
qed

section \<open>Opening a download\<close>

definition xfer_opened :: "nat \<Rightarrow> bytes \<Rightarrow> 'x diag_world \<Rightarrow> ((bytes + u8) \<times> 'x diag_world) option" where
  "xfer_opened u req w = do {
     w1 \<leftarrow> svc_ask req w;
     (d, w2) \<leftarrow> nx_uds_svc_transfer_request_download u w1;
     r \<leftarrow> svc_reply d w2;
     Some (r, w2) }"

text \<open>The longest block the server can take, as the code reads it: the limit of the requests, or the product's if that is lower.\<close>

definition download_limit :: "'x nx_uds_svc_transfer_cfg \<Rightarrow> 'x diag_world \<Rightarrow> u32" where
  "download_limit c w =
     (if tc_max_block_len c \<noteq> 0 \<and> tc_max_block_len c < uc_max_req_apdu (uw_cfg w) then tc_max_block_len c else uc_max_req_apdu (uw_cfg w))"

text \<open>The product's word on it.\<close>

definition product_consents :: "'x nx_uds_svc_transfer_cfg \<Rightarrow> u32 \<Rightarrow> u32 \<Rightarrow> u8 \<Rightarrow> u32 \<Rightarrow> 'x \<Rightarrow> (bool \<times> u32 \<times> u8) \<times> 'x" where
  "product_consents c addr region format limit x =
     (case tc_open_fn c of
        None \<Rightarrow> ((True, limit, NX_UDS_NRC_REQUEST_OUT_OF_RANGE), x)
      | Some f \<Rightarrow> f (tc_user c) NX_UDS_SVC_TRANSFER_DOWNLOAD addr region format limit NX_UDS_NRC_REQUEST_OUT_OF_RANGE x)"

lemma width_holds: "unat v < 256 ^ unat (xfer_width_for v)" "unat (xfer_width_for v) \<le> 4"
proof -
  show "unat (xfer_width_for v) \<le> 4" by (simp add: xfer_width_for_def)
  show "unat v < 256 ^ unat (xfer_width_for v)"
    using unsigned_less[where ?'a=nat, of v] by (auto simp: xfer_width_for_def word_le_nat_alt)
qed

lemma announce_runs:
  assumes t: "dg_xfers (uw_env w) u = Some t" and ob: "uc_out_buf (uw_cfg w) = Some (0x74 # r)" "6 \<le> length (0x74 # r)"
    and cap: "6 \<le> cx_out_cap (uw_ctx w)"
  shows "\<exists>d w'. xfer_announce u dir addr region n w = Some (d, w') \<and> uc_req_buf (uw_cfg w') = uc_req_buf (uw_cfg w) \<and>
     dg_app (uw_env w') = dg_app (uw_env w) \<and> (\<exists>b. uc_out_buf (uw_cfg w') = Some b \<and> length b = length (0x74 # r)) \<and>
     (if nx_uds_svc_transfer_payload_room n = 0 then svc_reply d w' = Some (Inr NX_UDS_NRC_CONDITIONS_NOT_CORRECT) \<and> uw_env w' = uw_env w
      else svc_reply d w' = Some (Inl ([0x74, ucast (push_bit 4 (xfer_width_for n))] @ xfer_write_be (unat (xfer_width_for n)) n)) \<and>
        dg_xfers (uw_env w') u = Some (t\<lparr> xf_run := \<lparr> xr_dir = dir, xr_addr = addr, xr_size = region, xr_done = 0, xr_block_len = n,
          xr_bsc_next = 1, xr_bsc_last = 0, xr_committed = False, xr_last_len = 0 \<rparr> \<rparr>))"
proof (cases "nx_uds_svc_transfer_payload_room n = 0")
  case True
  then show ?thesis using ob(1) by (simp add: xfer_announce_def svc_refuse_def svc_reply_def)
next
  case False
  let ?width = "xfer_width_for n" and ?be = "xfer_write_be (unat (xfer_width_for n)) n"
  let ?b = "0x74 # ucast (push_bit 4 ?width) # ?be @ drop (unat ?width) (tl r)"
  have w4: "?width \<le> 4" using width_holds(2)[of n] by (simp add: word_le_nat_alt)
  then have c: "\<not> cx_out_cap (uw_ctx w) < 2 + ?width"
    using cap width_cases[of n] by (auto simp: word_le_nat_alt word_less_nat_alt)
  let ?w1 = "upd_xfer u (\<lambda>_. \<lparr> xr_dir = dir, xr_addr = addr, xr_size = region, xr_done = 0, xr_block_len = n, xr_bsc_next = 1,
      xr_bsc_last = 0, xr_committed = False, xr_last_len = 0 \<rparr>) w"
  let ?w2 = "upd_srv (\<lambda>s. s\<lparr> us_cfg := (us_cfg s)\<lparr> uc_out_buf := Some (0x74 # ucast (push_bit 4 ?width) # tl r) \<rparr> \<rparr>) ?w1"
  let ?w3 = "upd_srv (\<lambda>s. s\<lparr> us_cfg := (us_cfg s)\<lparr> uc_out_buf := Some ?b \<rparr> \<rparr>) ?w2"
  have r: "r \<noteq> []" "4 \<le> length (tl r)" using ob(2) by (auto simp: Suc_le_eq)
  have p1: "put_out 1 [ucast (push_bit 4 ?width)] ?w1 = Some ?w2" by (rule echo_eq) (use ob(1) r in simp_all)
  have "mem_write 2 ?be (0x74 # ucast (push_bit 4 ?width) # tl r) = Some ?b"
    using r width_holds(2)[of n] by (simp add: mem_write_def numeral_2_eq_2)
  then have p2: "put_out 2 ?be ?w2 = Some ?w3" by (simp add: put_out_def)
  have run: "xfer_announce u dir addr region n w = Some (NX_UDS_DISPOSITION_DONE, upd_ctx (\<lambda>c. c\<lparr> cx_out_len := 2 + ?width \<rparr>) ?w3)"
    using False c p1 p2 by (simp add: xfer_announce_def Let_def svc_done_def)
  have "unat (2 + ?width) = 2 + unat ?width" using width_cases[of n] by auto
  then have "svc_reply NX_UDS_DISPOSITION_DONE (upd_ctx (\<lambda>c. c\<lparr> cx_out_len := 2 + ?width \<rparr>) ?w3) =
      Some (Inl ([0x74, ucast (push_bit 4 ?width)] @ ?be))"
    by (simp add: svc_reply_def mem_read_def)
  then show ?thesis using False run t r ob(2) width_holds(2)[of n] by simp
qed

text \<open>The request, as far as the handler reads it.\<close>

definition download_request :: "u8 \<Rightarrow> bytes \<Rightarrow> bytes \<Rightarrow> bytes" where
  "download_request format a s = [0x34, format, nibbles (length s) (length a)] @ a @ s"

lemma download_asks:
  assumes u: "u \<noteq> 0" and t: "dg_xfers (uw_env w) u = Some t" "xr_dir (xf_run t) = NX_UDS_SVC_TRANSFER_NONE" "tc_srv (xf_cfg t)"
    "tc_write_fn (xf_cfg t) \<noteq> None"
    and a: "a \<noteq> []" "length a < 16" "be_nat a < 2 ^ 32" and s: "s \<noteq> []" "length s < 16" "0 < be_nat s" "be_nat s < 2 ^ 32"
    and b: "uc_req_buf (uw_cfg w) = Some b" "length (download_request format a s) \<le> length b"
    and ob: "uc_out_buf (uw_cfg w) = Some ob" "3 \<le> length ob"
    and pr: "product_consents (xf_cfg t) (of_nat (be_nat a)) (of_nat (be_nat s)) format (download_limit (xf_cfg t) w) (dg_app (uw_env w)) = ((ok, n, nrc), x)"
  obtains w1 where "svc_ask (download_request format a s) w = Some w1" "uw_env w1 = uw_env w"
    "\<exists>b'. uc_req_buf (uw_cfg w1) = Some b' \<and> length b' = length b" "uc_out_buf (uw_cfg w1) = Some (0x74 # drop 1 ob)"
    "cx_out_cap (uw_ctx w1) = cx_out_cap (uw_ctx w)"
    "nx_uds_svc_transfer_request_download u w1 =
       (if \<not> ok then svc_refuse nrc (upd_app x w1)
        else xfer_announce u NX_UDS_SVC_TRANSFER_DOWNLOAD (of_nat (be_nat a)) (of_nat (be_nat s))
          (min n (download_limit (xf_cfg t) w)) (upd_app x w1))"
proof -
  let ?req = "download_request format a s" and ?f = "nibbles (length s) (length a)"
  obtain w1 where ask: "svc_ask ?req w = Some w1" and e1: "uw_env w1 = uw_env w"
    and b1: "uc_req_buf (uw_cfg w1) = Some (?req @ drop (length ?req) b)" and o1: "uc_out_buf (uw_cfg w1) = Some (0x74 # drop 1 ob)"
    and p1: "cx_phase (uw_ctx w1) = NX_UDS_PHASE_REQUEST" and l1: "cx_req_len (uw_ctx w1) = of_nat (length ?req)"
    and c1: "cx_out_cap (uw_ctx w1) = cx_out_cap (uw_ctx w)"
    by (rule svc_ask_there[OF b(1) b(2) ob]) (auto simp: download_request_def)
  have cfg1: "uc_max_req_apdu (uw_cfg w1) = uc_max_req_apdu (uw_cfg w)"
    using ask b ob by (auto simp: svc_ask_def put_req_def put_out_def bind_eq_Some_conv)
  have nib: "unat (ucast (?f AND 15) :: u32) = length a" "unat (ucast (drop_bit 4 ?f AND 15) :: u32) = length s"
    using nibbles_read[of "length s" "length a"] a s by simp_all
  then have nib_eq: "(ucast (?f AND 15) :: u32) = of_nat (length a)" "(ucast (drop_bit 4 ?f AND 15) :: u32) = of_nat (length s)"
    by (metis of_nat_unat ucast_id)+
  have nz: "(of_nat (length a) :: u32) \<noteq> 0" "(of_nat (length s) :: u32) \<noteq> 0"
    using nib nib_eq a(1) s(1) by (metis length_0_conv unsigned_0)+
  have l: "cx_req_len (uw_ctx w1) = 3 + of_nat (length a) + of_nat (length s)"
    unfolding l1 by (simp add: download_request_def)
  have bytes: "req_byte w1 2 = Some ?f" "req_byte w1 1 = Some format" using b1 by (simp_all add: req_byte_def mem_get_def download_request_def)
  have fields: "req_at w1 3 (of_nat (length a)) = Some a" "req_at w1 (3 + length a) (of_nat (length s)) = Some s"
    using b1 nib nib_eq by (simp_all add: req_at_def mem_read_def download_request_def numeral_3_eq_3)
  have nums: "xfer_read_be a = Some (of_nat (be_nat a))" "xfer_read_be s = Some (of_nat (be_nat s))" using a s by (simp_all add: read_be_nat)
  have sz: "(of_nat (be_nat s) :: u32) \<noteq> 0"
  proof
    assume "(of_nat (be_nat s) :: u32) = 0"
    then have "unat (of_nat (be_nat s) :: u32) = 0" by simp
    then show False using s(3,4) by (simp add: unsigned_of_nat take_bit_nat_eq_self)
  qed
  have lim: "xfer_announce_len t NX_UDS_SVC_TRANSFER_DOWNLOAD w1 = Some (download_limit (xf_cfg t) w)"
    using t(3) cfg1 by (simp add: xfer_announce_len_def xfer_srv_def nx_uds_server_apdu_limits_def download_limit_def)
  have m: "(if m' < n then m' else n) = min n m'" for m' :: u32 by (auto simp: min_def not_less)
  have "nx_uds_svc_transfer_request_download u w1 =
      xfer_consult u t NX_UDS_SVC_TRANSFER_DOWNLOAD (of_nat (be_nat a)) (of_nat (be_nat s)) w1"
    using u p1 e1 t bytes(1) nib_eq nib nz l fields nums sz
    by (auto simp: nx_uds_svc_transfer_request_download_def xfer_request_def xfer_open_def Let_def)
  also have "\<dots> = (if \<not> ok then svc_refuse nrc (upd_app x w1)
        else xfer_announce u NX_UDS_SVC_TRANSFER_DOWNLOAD (of_nat (be_nat a)) (of_nat (be_nat s))
          (min n (download_limit (xf_cfg t) w)) (upd_app x w1))"
    using lim bytes(2) pr e1 by (cases "tc_open_fn (xf_cfg t)") (auto simp: xfer_consult_def product_consents_def m Let_def)
  finally show thesis using that ask e1 b1 o1 c1 b(2) by auto
qed

end
