(* ===== verification/Nx_Uds_Upload.thy ===== *)
theory Nx_Uds_Upload
  imports Nx_Uds_Image
begin

text \<open>An upload block by block, for a product whose memory can be read without changing it.\<close>

section \<open>The blocks of a region\<close>

definition upload_chunk :: "(u32 \<Rightarrow> u8) \<Rightarrow> u32 \<Rightarrow> nat \<Rightarrow> nat \<Rightarrow> nat \<Rightarrow> bytes" where
  "upload_chunk m addr region room k = map (\<lambda>i. m (addr + of_nat i)) [min (k * room) region..<min (Suc k * room) region]"

lemma upload_chunks: "concat (map (upload_chunk m addr region room) [0..<n]) = map (\<lambda>i. m (addr + of_nat i)) [0..<min (n * room) region]"
proof (induction n)
  case (Suc n)
  have "[0..<min (Suc n * room) region] = [0..<min (n * room) region] @ [min (n * room) region..<min (Suc n * room) region]"
  proof -
    have "min (n * room) region \<le> min (Suc n * room) region" by simp
    then obtain d where "min (Suc n * room) region = min (n * room) region + d" using le_Suc_ex by blast
    then show ?thesis by (simp only: upt_add_eq_append[of 0, simplified])
  qed
  then show ?case using Suc by (simp add: upload_chunk_def)
qed simp

definition xfer_sending :: "nat \<Rightarrow> 'x nx_uds_svc_transfer_cfg \<Rightarrow> u32 \<Rightarrow> nat \<Rightarrow> nat \<Rightarrow> 'x \<Rightarrow> nat \<Rightarrow> 'x diag_world \<Rightarrow> bool" where
  "xfer_sending u c addr region room x k w \<longleftrightarrow> dg_app (uw_env w) = x \<and>
     (\<exists>b. uc_req_buf (uw_cfg w) = Some b \<and> 2 \<le> length b) \<and> (\<exists>b. uc_out_buf (uw_cfg w) = Some b \<and> 3 \<le> length b \<and> 2 + room \<le> length b) \<and>
     2 + room \<le> unat (cx_out_cap (uw_ctx w)) \<and>
     (\<exists>t. dg_xfers (uw_env w) u = Some t \<and> xf_cfg t = c \<and> xr_dir (xf_run t) = NX_UDS_SVC_TRANSFER_UPLOAD \<and>
        xr_addr (xf_run t) = addr \<and> unat (xr_size (xf_run t)) = region \<and> unat (xr_done (xf_run t)) = min (k * room) region \<and>
        unat (nx_uds_svc_transfer_payload_room (xr_block_len (xf_run t))) = room \<and>
        xr_bsc_next (xf_run t) = of_nat (Suc k) \<and> xr_bsc_last (xf_run t) = of_nat k \<and> (xr_committed (xf_run t) \<longleftrightarrow> k \<noteq> 0) \<and>
        (k \<noteq> 0 \<longrightarrow> unat (xr_last_len (xf_run t)) = min (k * room) region - min ((k - 1) * room) region))"

definition reads_memory :: "'x nx_uds_svc_transfer_cfg \<Rightarrow> ('x \<Rightarrow> u32 \<Rightarrow> u8) \<Rightarrow> bool" where
  "reads_memory c mem \<longleftrightarrow>
     (case tc_read_fn c of
        None \<Rightarrow> False
      | Some f \<Rightarrow> \<forall>a n x. \<exists>nrc. f (tc_user c) a n NX_UDS_NRC_GENERAL_PROGRAMMING_FAILURE x =
          ((True, map (\<lambda>i. mem x (a + of_nat i)) [0..<unat n], nrc), x))"

section \<open>One block\<close>

lemma fill_reads:
  assumes c: "reads_memory (xf_cfg t) mem" and cap: "2 + unat n \<le> unat (cx_out_cap (uw_ctx w))"
    and ob: "uc_out_buf (uw_cfg w) = Some (0x76 # bsc # r)" "unat n \<le> length r" and x: "dg_app (uw_env w) = x"
  shows "\<exists>w'. xfer_fill_upload t off n w = Some (NX_UDS_DISPOSITION_DONE, w') \<and> uw_env w' = uw_env w \<and>
     svc_reply NX_UDS_DISPOSITION_DONE w' = Some (Inl ([0x76, bsc] @ map (\<lambda>i. mem x (xr_addr (xf_run t) + off + of_nat i)) [0..<unat n])) \<and>
     uc_req_buf (uw_cfg w') = uc_req_buf (uw_cfg w) \<and> cx_out_cap (uw_ctx w') = cx_out_cap (uw_ctx w) \<and>
     (\<exists>b. uc_out_buf (uw_cfg w') = Some b \<and> length b = 2 + length r)"
proof -
  obtain f where f: "tc_read_fn (xf_cfg t) = Some f" using c by (auto simp: reads_memory_def split: option.splits)
  let ?d = "map (\<lambda>i. mem x (xr_addr (xf_run t) + off + of_nat i)) [0..<unat n]"
  have "\<forall>a n x. \<exists>nrc. f (tc_user (xf_cfg t)) a n NX_UDS_NRC_GENERAL_PROGRAMMING_FAILURE x = ((True, map (\<lambda>i. mem x (a + of_nat i)) [0..<unat n], nrc), x)"
    using c f by (simp add: reads_memory_def)
  from this[rule_format, of "xr_addr (xf_run t) + off" n x] obtain nrc
    where d: "f (tc_user (xf_cfg t)) (xr_addr (xf_run t) + off) n NX_UDS_NRC_GENERAL_PROGRAMMING_FAILURE x = ((True, ?d, nrc), x)" by blast
  have n2: "unat (2 + n) = 2 + unat n"
    using cap unsigned_less[where ?'a=nat, of "cx_out_cap (uw_ctx w)"] by (simp add: unat_word_ariths)
  then have room: "\<not> cx_out_cap (uw_ctx w) < 2 + n" using cap by (simp add: word_less_nat_alt)
  let ?b = "0x76 # bsc # ?d @ drop (unat n) r"
  let ?w1 = "upd_srv (\<lambda>s. s\<lparr> us_cfg := (us_cfg s)\<lparr> uc_out_buf := Some ?b \<rparr> \<rparr>) (upd_app x w)"
  have "mem_write 2 ?d (0x76 # bsc # r) = Some ?b" using ob(2) by (simp add: mem_write_def numeral_2_eq_2)
  then have p: "put_out 2 ?d (upd_app x w) = Some ?w1" using ob(1) by (simp add: put_out_def)
  let ?w' = "upd_ctx (\<lambda>c. c\<lparr> cx_out_len := 2 + n \<rparr>) ?w1"
  have run: "xfer_fill_upload t off n w = Some (NX_UDS_DISPOSITION_DONE, ?w')"
    using room f d p x by (simp add: xfer_fill_upload_def svc_done_def)
  have "svc_reply NX_UDS_DISPOSITION_DONE ?w' = Some (Inl ([0x76, bsc] @ ?d))" by (simp add: svc_reply_def mem_read_def n2)
  then show ?thesis using run x ob(2) by (intro exI[of _ ?w']) simp
qed

text \<open>What the request finds: the counter, and the response begun with the identifier.\<close>

lemma upload_asked:
  assumes u: "u \<noteq> 0" and rel: "xfer_sending u c addr region room x k w"
  obtains w1 t r where "svc_ask [0x36, bsc] w = Some w1" "dg_xfers (uw_env w1) u = Some t" "dg_app (uw_env w1) = x"
    "nx_uds_svc_transfer_data u w1 = xfer_data u t w1" "req_byte w1 1 = Some bsc" "xfer_sending u c addr region room x k w1"
    "\<forall>y. put_out 1 [y] w1 = Some (upd_srv (\<lambda>s. s\<lparr> us_cfg := (us_cfg s)\<lparr> uc_out_buf := Some (0x76 # y # r) \<rparr> \<rparr>) w1)" "room \<le> length r" "1 \<le> length r"
proof -
  obtain b ob where b: "uc_req_buf (uw_cfg w) = Some b" "2 \<le> length b" and ob: "uc_out_buf (uw_cfg w) = Some ob" "3 \<le> length ob" "2 + room \<le> length ob"
    using rel by (auto simp: xfer_sending_def)
  obtain w1 where a: "svc_ask [0x36, bsc] w = Some w1" and e1: "uw_env w1 = uw_env w"
    and b1: "uc_req_buf (uw_cfg w1) = Some ([0x36, bsc] @ drop (length [0x36, bsc]) b)"
    and o1: "uc_out_buf (uw_cfg w1) = Some ((hd [0x36, bsc] OR 0x40) # drop 1 ob)" and p1: "cx_phase (uw_ctx w1) = NX_UDS_PHASE_REQUEST"
    and c1: "cx_out_cap (uw_ctx w1) = cx_out_cap (uw_ctx w)"
    by (rule svc_ask_there[OF b(1) _ ob(1,2), of "[0x36, bsc]"]) (use b(2) in simp_all)
  have rel1: "xfer_sending u c addr region room x k w1" using rel b1 b(2) o1 ob e1 c1 by (auto simp: xfer_sending_def)
  obtain t where t: "dg_xfers (uw_env w1) u = Some t" "xr_dir (xf_run t) = NX_UDS_SVC_TRANSFER_UPLOAD" using rel1 by (auto simp: xfer_sending_def)
  have svc: "nx_uds_svc_transfer_data u w1 = xfer_data u t w1" using u p1 t by (simp add: nx_uds_svc_transfer_data_def)
  have "drop 1 ob \<noteq> []" using ob(2) by auto
  then have echo: "\<forall>y. put_out 1 [y] w1 = Some (upd_srv (\<lambda>s. s\<lparr> us_cfg := (us_cfg s)\<lparr> uc_out_buf := Some (0x76 # y # tl (drop 1 ob)) \<rparr> \<rparr>) w1)"
    using echo_eq[of w1 "hd [0x36, bsc] OR 0x40" "drop 1 ob"] o1 by simp
  have bsc: "req_byte w1 1 = Some bsc" using b1 by (simp add: req_byte_def mem_get_def)
  have x: "dg_app (uw_env w1) = x" using rel1 by (simp add: xfer_sending_def)
  show thesis by (rule that[OF a t(1) x svc bsc rel1 echo]) (use ob in simp_all)
qed

lemma chunk_as_read:
  fixes off :: u32
  assumes "unat off = min (k * room) region" "unat n = min (Suc k * room) region - min (k * room) region"
  shows "map (\<lambda>i. m (addr + off + of_nat i)) [0..<unat n] = upload_chunk m addr region room k"
proof -
  have "off = of_nat (min (k * room) region)" using assms(1) by (metis of_nat_unat ucast_id)
  moreover have "[a..<b] = map (\<lambda>i. a + i) [0..<b - a]" for a b :: nat by (rule nth_equalityI) simp_all
  then have "[min (k * room) region..<min (Suc k * room) region] = map (\<lambda>i. min (k * room) region + i) [0..<unat n]"
    unfolding assms(2) by blast
  ultimately show ?thesis by (simp add: upload_chunk_def comp_def add.assoc)
qed

text \<open>The next block.\<close>

lemma upload_next:
  assumes u: "u \<noteq> 0" and c: "reads_memory c mem" and rel: "xfer_sending u c addr region room x k w"
    and small: "region + room < 2 ^ 32" and more: "k * room < region" "0 < room"
  shows "\<exists>w'. xfer_served u (of_nat (Suc k), []) w = Some (Inl ([0x76, of_nat (Suc k)] @ upload_chunk (mem x) addr region room k), w') \<and>
     xfer_sending u c addr region room x (Suc k) w'"
proof -
  let ?bsc = "of_nat (Suc k) :: u8"
  obtain w1 t r where ask: "svc_ask [0x36, ?bsc] w = Some w1" and t: "dg_xfers (uw_env w1) u = Some t" and x: "dg_app (uw_env w1) = x"
    and svc: "nx_uds_svc_transfer_data u w1 = xfer_data u t w1" and bsc: "req_byte w1 1 = Some ?bsc" and rel1: "xfer_sending u c addr region room x k w1"
    and echo: "\<forall>y. put_out 1 [y] w1 = Some (upd_srv (\<lambda>s. s\<lparr> us_cfg := (us_cfg s)\<lparr> uc_out_buf := Some (0x76 # y # r) \<rparr> \<rparr>) w1)"
    and lr: "room \<le> length r" "1 \<le> length r" by (rule upload_asked[OF u rel, where bsc = ?bsc])
  let ?w2 = "upd_srv (\<lambda>s. s\<lparr> us_cfg := (us_cfg s)\<lparr> uc_out_buf := Some (0x76 # ?bsc # r) \<rparr> \<rparr>) w1"
  have s: "xf_cfg t = c" "xr_dir (xf_run t) = NX_UDS_SVC_TRANSFER_UPLOAD" "xr_addr (xf_run t) = addr" "unat (xr_size (xf_run t)) = region"
    "unat (xr_done (xf_run t)) = k * room" "unat (nx_uds_svc_transfer_payload_room (xr_block_len (xf_run t))) = room"
    "xr_bsc_next (xf_run t) = ?bsc" "xr_bsc_last (xf_run t) = of_nat k" "2 + room \<le> unat (cx_out_cap (uw_ctx w1))"
    using rel1 t more by (auto simp: xfer_sending_def)
  let ?room = "nx_uds_svc_transfer_payload_room (xr_block_len (xf_run t))"
  let ?n = "if xr_done (xf_run t) + ?room > xr_size (xf_run t) then xr_size (xf_run t) - xr_done (xf_run t) else ?room"
  have sum: "unat (xr_done (xf_run t) + ?room) = k * room + room" using s small more by (simp add: room_sum)
  have left: "unat (xr_size (xf_run t) - xr_done (xf_run t)) = region - k * room" using s more by (simp add: unat_sub word_le_nat_alt)
  have n: "unat ?n = min (Suc k * room) region - min (k * room) region" "unat ?n \<le> room"
    using s sum left more by (auto simp: word_less_nat_alt min_def)
  have lz: "xr_size (xf_run t) - xr_done (xf_run t) \<noteq> 0" using left more by (metis less_numeral_extra(3) unsigned_0 zero_less_diff)
  have bl: "xfer_block_len (xf_run t) (cx_req_len (uw_ctx w1)) = Some ?n" using s(2) lz by (simp add: xfer_block_len_def Let_def)
  have c2: "reads_memory (xf_cfg t) mem" using c s(1) by simp
  have cap2: "2 + unat ?n \<le> unat (cx_out_cap (uw_ctx ?w2))" using s(9) n(2) by simp
  obtain w3 where w3: "xfer_fill_upload t (xr_done (xf_run t)) ?n ?w2 = Some (NX_UDS_DISPOSITION_DONE, w3)" "uw_env w3 = uw_env ?w2"
    "svc_reply NX_UDS_DISPOSITION_DONE w3 = Some (Inl ([0x76, ?bsc] @ map (\<lambda>i. mem x (xr_addr (xf_run t) + xr_done (xf_run t) + of_nat i)) [0..<unat ?n]))"
    "uc_req_buf (uw_cfg w3) = uc_req_buf (uw_cfg ?w2)" "cx_out_cap (uw_ctx w3) = cx_out_cap (uw_ctx ?w2)"
    "\<exists>b. uc_out_buf (uw_cfg w3) = Some b \<and> length b = 2 + length r"
    using fill_reads[OF c2 cap2, of ?bsc r x "xr_done (xf_run t)"] n(2) lr(1) x by auto
  have run: "xfer_data u t w1 = Some (NX_UDS_DISPOSITION_DONE, upd_xfer u (xfer_commit ?bsc ?n) w3)"
    using bsc s(2,7,8) bl echo w3(1) counter_moves[of k] by (simp add: xfer_data_def xfer_carry_def del: of_nat_Suc)
  have "svc_reply NX_UDS_DISPOSITION_DONE (upd_xfer u (xfer_commit ?bsc ?n) w3) = svc_reply NX_UDS_DISPOSITION_DONE w3"
    by (simp add: svc_reply_def)
  then have "xfer_served u (?bsc, []) w = Some (Inl ([0x76, ?bsc] @ upload_chunk (mem x) addr region room k), upd_xfer u (xfer_commit ?bsc ?n) w3)"
    using ask svc run w3(3) chunk_as_read[of "xr_done (xf_run t)" k room region ?n "mem x" addr] s(3,5) n(1) more
    by (simp add: xfer_served_def del: of_nat_Suc)
  moreover have "xfer_sending u c addr region room x (Suc k) (upd_xfer u (xfer_commit ?bsc ?n) w3)"
  proof -
    have d: "unat (xr_done (xf_run t) + ?n) = min (Suc k * room) region"
      using n s(5) more small by (subst room_sum) auto
    have "\<exists>b. uc_req_buf (uw_cfg w3) = Some b \<and> 2 \<le> length b" "dg_app (uw_env w3) = x" "dg_xfers (uw_env w3) u = Some t"
      using rel1 w3(2,4) t x by (auto simp: xfer_sending_def)
    then show ?thesis using w3(5,6) s lr d n(1) by (auto simp: xfer_sending_def xfer_commit_def)
  qed
  ultimately show ?thesis by blast
qed

text \<open>The block before, once more: the same bytes.\<close>

lemma upload_again:
  assumes u: "u \<noteq> 0" and c: "reads_memory c mem" and rel: "xfer_sending u c addr region room x (Suc k) w"
  shows "\<exists>w'. xfer_served u (of_nat (Suc k), []) w = Some (Inl ([0x76, of_nat (Suc k)] @ upload_chunk (mem x) addr region room k), w') \<and>
     xfer_sending u c addr region room x (Suc k) w'"
proof -
  let ?bsc = "of_nat (Suc k) :: u8"
  obtain w1 t r where ask: "svc_ask [0x36, ?bsc] w = Some w1" and t: "dg_xfers (uw_env w1) u = Some t" and x: "dg_app (uw_env w1) = x"
    and svc: "nx_uds_svc_transfer_data u w1 = xfer_data u t w1" and bsc: "req_byte w1 1 = Some ?bsc" and rel1: "xfer_sending u c addr region room x (Suc k) w1"
    and echo: "\<forall>y. put_out 1 [y] w1 = Some (upd_srv (\<lambda>s. s\<lparr> us_cfg := (us_cfg s)\<lparr> uc_out_buf := Some (0x76 # y # r) \<rparr> \<rparr>) w1)"
    and lr: "room \<le> length r" "1 \<le> length r" by (rule upload_asked[OF u rel, where bsc = ?bsc])
  let ?w2 = "upd_srv (\<lambda>s. s\<lparr> us_cfg := (us_cfg s)\<lparr> uc_out_buf := Some (0x76 # ?bsc # r) \<rparr> \<rparr>) w1"
  have s: "xf_cfg t = c" "xr_dir (xf_run t) = NX_UDS_SVC_TRANSFER_UPLOAD" "xr_addr (xf_run t) = addr"
    "unat (xr_done (xf_run t)) = min (Suc k * room) region" "unat (xr_last_len (xf_run t)) = min (Suc k * room) region - min (k * room) region"
    "xr_bsc_last (xf_run t) = ?bsc" "xr_committed (xf_run t)" "2 + room \<le> unat (cx_out_cap (uw_ctx w1))"
    using rel1 t by (auto simp: xfer_sending_def)
  let ?off = "xr_done (xf_run t) - xr_last_len (xf_run t)" and ?n = "xr_last_len (xf_run t)"
  have off: "unat ?off = min (k * room) region" using s(4,5) by (auto simp: unat_sub word_le_nat_alt min_def)
  have n: "unat ?n \<le> room" using s(5) by (auto simp: min_def)
  have c2: "reads_memory (xf_cfg t) mem" using c s(1) by simp
  have cap2: "2 + unat ?n \<le> unat (cx_out_cap (uw_ctx ?w2))" using s(8) n by simp
  obtain w3 where w3: "xfer_fill_upload t ?off ?n ?w2 = Some (NX_UDS_DISPOSITION_DONE, w3)" "uw_env w3 = uw_env ?w2"
    "svc_reply NX_UDS_DISPOSITION_DONE w3 = Some (Inl ([0x76, ?bsc] @ map (\<lambda>i. mem x (xr_addr (xf_run t) + ?off + of_nat i)) [0..<unat ?n]))"
    "uc_req_buf (uw_cfg w3) = uc_req_buf (uw_cfg ?w2)" "cx_out_cap (uw_ctx w3) = cx_out_cap (uw_ctx ?w2)"
    "\<exists>b. uc_out_buf (uw_cfg w3) = Some b \<and> length b = 2 + length r"
    using fill_reads[OF c2 cap2, of ?bsc r x ?off] n lr(1) x by auto
  have run: "xfer_data u t w1 = Some (NX_UDS_DISPOSITION_DONE, w3)"
    using bsc s(2,6,7) echo w3(1) by (simp add: xfer_data_def xfer_repeat_def del: of_nat_Suc)
  have "xfer_served u (?bsc, []) w = Some (Inl ([0x76, ?bsc] @ upload_chunk (mem x) addr region room k), w3)"
    using ask svc run w3(3) chunk_as_read[OF off s(5), of "mem x" addr] s(3) by (simp add: xfer_served_def del: of_nat_Suc)
  moreover have "xfer_sending u c addr region room x (Suc k) w3"
    using rel1 w3(2,4-6) lr by (auto simp: xfer_sending_def)
  ultimately show ?thesis by blast
qed

section \<open>All blocks\<close>

text \<open>A client that asks for block after block, each as often again as its number says, and what it is told.\<close>

fun upload_client :: "nat \<Rightarrow> nat list \<Rightarrow> (u8 \<times> bytes) list" where
  "upload_client k [] = []"
| "upload_client k (again # ns) = replicate (Suc again) (of_nat (Suc k), []) @ upload_client (Suc k) ns"

fun upload_answers :: "(nat \<Rightarrow> bytes) \<Rightarrow> nat \<Rightarrow> nat list \<Rightarrow> (bytes + u8) list" where
  "upload_answers chunk k [] = []"
| "upload_answers chunk k (again # ns) = replicate (Suc again) (Inl ([0x76, of_nat (Suc k)] @ chunk k)) @ upload_answers chunk (Suc k) ns"

lemma run_ops_append:
  "run_ops f xs s = Some (r, s1) \<Longrightarrow> run_ops f ys s1 = Some (r', s2) \<Longrightarrow> run_ops f (xs @ ys) s = Some (r @ r', s2)"
  by (induction xs arbitrary: s r) (auto simp: bind_eq_Some_conv)

lemma upload_repeats:
  assumes "u \<noteq> 0" "reads_memory c mem"
  shows "xfer_sending u c addr region room x (Suc k) w \<Longrightarrow>
    \<exists>w'. run_ops (xfer_served u) (replicate n (of_nat (Suc k), [])) w =
        Some (replicate n (Inl ([0x76, of_nat (Suc k)] @ upload_chunk (mem x) addr region room k)), w') \<and>
      xfer_sending u c addr region room x (Suc k) w'"
proof (induction n arbitrary: w)
  case (Suc n)
  obtain w1 where "xfer_served u (of_nat (Suc k), []) w = Some (Inl ([0x76, of_nat (Suc k)] @ upload_chunk (mem x) addr region room k), w1)"
    "xfer_sending u c addr region room x (Suc k) w1" using upload_again[OF assms Suc.prems] by blast
  with Suc.IH[of w1] show ?case by (auto simp del: of_nat_Suc)
qed simp

lemma upload_all:
  assumes "u \<noteq> 0" "reads_memory c mem" "region + room < 2 ^ 32" "0 < room"
  shows "xfer_sending u c addr region room x k w \<Longrightarrow> (k + length ns - 1) * room < region \<or> ns = [] \<Longrightarrow>
    \<exists>w'. run_ops (xfer_served u) (upload_client k ns) w = Some (upload_answers (upload_chunk (mem x) addr region room) k ns, w') \<and>
      xfer_sending u c addr region room x (k + length ns) w'"
proof (induction ns arbitrary: k w)
  case (Cons n ns)
  have "k * room \<le> (k + length ns) * room" by simp
  also have "\<dots> < region" using Cons.prems(2) by simp
  finally have more: "k * room < region" .
  obtain w1 where w1: "xfer_served u (of_nat (Suc k), []) w = Some (Inl ([0x76, of_nat (Suc k)] @ upload_chunk (mem x) addr region room k), w1)"
    "xfer_sending u c addr region room x (Suc k) w1" using upload_next[OF assms(1,2) Cons.prems(1) assms(3) more assms(4)] by blast
  obtain w2 where w2: "run_ops (xfer_served u) (replicate n (of_nat (Suc k), [])) w1 =
        Some (replicate n (Inl ([0x76, of_nat (Suc k)] @ upload_chunk (mem x) addr region room k)), w2)"
      "xfer_sending u c addr region room x (Suc k) w2" using upload_repeats[OF assms(1,2) w1(2)] by blast
  obtain w3 where w3: "run_ops (xfer_served u) (upload_client (Suc k) ns) w2 = Some (upload_answers (upload_chunk (mem x) addr region room) (Suc k) ns, w3)"
    "xfer_sending u c addr region room x (Suc k + length ns) w3" using Cons.IH[OF w2(2)] Cons.prems(2) by auto
  show ?case using w1(1) run_ops_append[OF w2(1) w3(1)] w3(2) by (simp del: of_nat_Suc)
qed simp

end
