(* ===== verification/Nx_Uds_Moved.thy ===== *)
theory Nx_Uds_Moved
  imports Nx_Uds_Open Nx_Uds_Upload
begin

text \<open>The properties of the services that move memory, with a small product whose memory is a function for the witnesses.\<close>

section \<open>A small product\<close>

definition ram_put :: "u32 \<Rightarrow> bytes \<Rightarrow> (u32 \<Rightarrow> u8) \<Rightarrow> u32 \<Rightarrow> u8" where
  "ram_put a d m k = (if unat (k - a) < length d then d ! unat (k - a) else m k)"

definition ram_cfg :: "(u32 \<Rightarrow> u8) nx_uds_svc_transfer_cfg" where
  "ram_cfg = \<lparr> tc_srv = True, tc_open_fn = None, tc_write_fn = Some (\<lambda>_ a d nrc m. ((True, nrc), ram_put a d m)), tc_read_fn = None,
     tc_close_fn = None, tc_user = 0, tc_max_block_len = 0, tc_bsc_error_nrc = 0x73, tc_require_full_size = False \<rparr>"

definition ram_world :: "nx_uds_svc_transfer_run \<Rightarrow> u32 \<Rightarrow> (u32 \<Rightarrow> u8) diag_world" where
  "ram_world r limit = \<lparr> uw_srv = \<lparr> us_cfg = \<lparr> uc_services = None, uc_services_count = 0, uc_out_fn = None, uc_out_user = 0,
       uc_session_fn = None, uc_req_buf = Some (replicate 8 0), uc_req_buf_size = 8, uc_out_buf = Some (replicate 8 0), uc_out_buf_size = 8,
       uc_max_req_apdu = limit, uc_max_resp_apdu = 8, uc_link = 0, uc_accept_rsp_range_sid = False, uc_get_us = None, uc_p2_us = 0,
       uc_p2_star_us = 0, uc_p2_adjust_us = 0, uc_p4_us = 0, uc_p4_nrc = 0, uc_s3_us = 0, uc_max_pending = 0 \<rparr>,
     us_session = 1, us_sec_level = 0, us_s3_armed = False, us_s3_deadline = 0,
     us_txn = uds_txn_zero\<lparr> ut_ctx := uds_ctx_zero\<lparr> cx_out_cap := 8 \<rparr> \<rparr> \<rparr>,
     uw_env = \<lparr> dg_sessions = Map.empty, dg_resets = Map.empty, dg_secs = Map.empty,
       dg_xfers = [1 \<mapsto> \<lparr> xf_cfg = ram_cfg, xf_run = r \<rparr>], dg_app = (\<lambda>_. 0) \<rparr> \<rparr>"

definition ram_run :: nx_uds_svc_transfer_run where
  "ram_run = \<lparr> xr_dir = NX_UDS_SVC_TRANSFER_DOWNLOAD, xr_addr = 0x100, xr_size = 4, xr_done = 0, xr_block_len = 5, xr_bsc_next = 1,
     xr_bsc_last = 0, xr_committed = False, xr_last_len = 0 \<rparr>"

lemma ram_received: "xfer_received 1 ram_cfg 0x100 4 3 8 ([], \<lambda>_. 0) (ram_world ram_run 8)"
  by (simp add: xfer_received_def ram_world_def ram_run_def nx_uds_svc_transfer_payload_room_def)

section \<open>The properties\<close>

text \<open>
  C20: TransferData implements a receiver of blocks. Whatever requests a client sends during a download, in whatever order, with whatever
  counters and of whatever lengths, each gets the answer of a receiver that keeps the list of accepted blocks: a block with the next
  counter that is not empty, fits what was announced and stays inside the region is written behind the blocks before it and
  acknowledged, the last block sent again is acknowledged and not written again, and everything else is refused and changes nothing.
  This is for a region whose length and one block together stay below \<open>2 ^ 32\<close>: beyond that the sum that is compared with the end of the region
  wraps, and a block outside the region is taken (\<open>xfer_block_len_wraps\<close> below).
\<close>

theorem nx_uds_svc_transfer_data_receives:
  assumes "u \<noteq> 0" and "xfer_received u c addr region room len ([], x) w"
    and "region + room < 2 ^ 32" and "len < 2 ^ 32" and "tc_write_fn c = Some wfn"
    and "list_all (\<lambda>(bsc, data). 2 + length data \<le> len) reqs"
  shows "\<exists>answers blocks x' w'.
     run_spec (receiver_step (\<lambda>a d. wfn (tc_user c) a d NX_UDS_NRC_GENERAL_PROGRAMMING_FAILURE) addr region room (tc_bsc_error_nrc c)) reqs ([], x)
       = (answers, (blocks, x')) \<and>
     run_ops (xfer_served u) reqs w = Some (answers, w') \<and> dg_app (uw_env w') = x' \<and>
     (\<exists>t. dg_xfers (uw_env w') u = Some t \<and> unat (xr_done (xf_run t)) = length (concat blocks) \<and> xr_done (xf_run t) \<le> xr_size (xf_run t))"
proof -
  let ?s = "receiver_step (\<lambda>a d. wfn (tc_user c) a d NX_UDS_NRC_GENERAL_PROGRAMMING_FAILURE) addr region room (tc_bsc_error_nrc c)"
  obtain answers blocks x' where r: "run_spec ?s reqs ([], x) = (answers, (blocks, x'))" by (metis surj_pair)
  obtain w' where "run_ops (xfer_served u) reqs w = Some (answers, w')" "xfer_received u c addr region room len (blocks, x') w'"
    using received_run[OF assms(1,3,4,5) refl assms(2,6)] r by auto
  then show ?thesis using r by (auto simp: xfer_received_def word_le_nat_alt)
qed

theorem nx_uds_svc_transfer_data_receives_witness:
  "\<exists>answers blocks x' w'.
     run_spec (receiver_step (\<lambda>a d m. ((True, 0x72), ram_put a d m)) 0x100 4 3 0x73) [(2, [7]), (1, [1, 2, 3]), (1, [1, 2, 3]), (2, [])] ([], \<lambda>_. 0)
       = (answers, (blocks, x')) \<and>
     run_ops (xfer_served 1) [(2, [7]), (1, [1, 2, 3]), (1, [1, 2, 3]), (2, [])] (ram_world ram_run 8) = Some (answers, w') \<and>
     answers = [Inr 0x73, Inl [0x76, 1], Inl [0x76, 1], Inr 0x31]"
proof -
  have s: "run_spec (receiver_step (\<lambda>a d m. ((True, 0x72), ram_put a d m)) 0x100 4 3 0x73) [(2, [7]), (1, [1, 2, 3]), (1, [1, 2, 3]), (2, [])] ([], \<lambda>_. 0)
      = ([Inr 0x73, Inl [0x76, 1], Inl [0x76, 1], Inr 0x31], ([[1, 2, 3]], ram_put 0x100 [1, 2, 3] (\<lambda>_. 0)))"
    by (simp add: receiver_step_def)
  show ?thesis
    using nx_uds_svc_transfer_data_receives[OF _ ram_received, where wfn = "\<lambda>_ a d nrc m. ((True, nrc), ram_put a d m)"
      and reqs = "[(2, [7]), (1, [1, 2, 3]), (1, [1, 2, 3]), (2, [])]"] s
    by (auto simp: ram_cfg_def)
qed

text \<open>
  C21: a download brings the image into memory. A client that sends the blocks of an image in order, each with its counter and each as
  many times as it likes before it goes on, gets every request acknowledged, and afterwards the memory holds the image from the address of
  the region on and is unchanged elsewhere. There may be more blocks than the counter has values. Again length and one block together are below
  \<open>2 ^ 32\<close>.
\<close>

theorem nx_uds_svc_transfer_data_stores_image:
  fixes mem :: "'x \<Rightarrow> u32 \<Rightarrow> u8"
  assumes "u \<noteq> 0" and "xfer_received u c addr region room len ([], x) w"
    and "region + room < 2 ^ 32" and "len < 2 ^ 32" and "tc_write_fn c = Some wfn"
    and "\<And>a d y. \<exists>n. wfn (tc_user c) a d NX_UDS_NRC_GENERAL_PROGRAMMING_FAILURE y = ((True, n), put a d y)"
    and "\<And>a d y k. mem (put a d y) k = (if unat (k - a) < length d then d ! unat (k - a) else mem y k)"
    and "list_all (\<lambda>(d, _). d \<noteq> [] \<and> length d \<le> room \<and> 2 + length d \<le> len) ds" and "length (concat (map fst ds)) \<le> region"
  shows "\<exists>w'. run_ops (xfer_served u) (xfer_client 0 ds) w = Some (map (\<lambda>(bsc, _). Inl [0x76, bsc]) (xfer_client 0 ds), w') \<and>
     (\<forall>k. mem (dg_app (uw_env w')) k =
       (if unat (k - addr) < length (concat (map fst ds)) then concat (map fst ds) ! unat (k - addr) else mem x k))"
proof -
  let ?wr = "\<lambda>a d. wfn (tc_user c) a d NX_UDS_NRC_GENERAL_PROGRAMMING_FAILURE"
  have l: "list_all (\<lambda>(bsc, data). 2 + length data \<le> len) (xfer_client k ds)" for k
    using assms(8) by (induction k ds rule: xfer_client.induct) (auto simp: list_all_iff)
  have "list_all (\<lambda>(d, _). d \<noteq> [] \<and> length d \<le> room) ds" using assms(8) by (auto simp: list_all_iff)
  then have s: "run_spec (receiver_step ?wr addr region room (tc_bsc_error_nrc c)) (xfer_client 0 ds) ([], x) =
      (map (\<lambda>(bsc, _). Inl [0x76, bsc]) (xfer_client 0 ds), (map fst ds, xfer_stored put addr 0 (map fst ds) x))"
    using receiver_stores[where wr = ?wr and put = put and ds = ds and room = room and blocks = "[]" and region = region, OF assms(6)] assms(9) by simp
  obtain w' where w': "run_ops (xfer_served u) (xfer_client 0 ds) w = Some (map (\<lambda>(bsc, _). Inl [0x76, bsc]) (xfer_client 0 ds), w')"
    "xfer_received u c addr region room len (map fst ds, xfer_stored put addr 0 (map fst ds) x) w'"
    using received_run[OF assms(1,3,4,5) refl assms(2) l[of 0]] s by auto
  have x': "dg_app (uw_env w') = xfer_stored put addr 0 (map fst ds) x" using w'(2) by (simp add: xfer_received_def)
  have small: "0 + length (concat (map fst ds)) < 2 ^ 32" using assms(3,9) by simp
  show ?thesis using w'(1) stored_memory[of mem put 0 "map fst ds" addr x, OF assms(7) small] by (auto simp: x')
qed

theorem nx_uds_svc_transfer_data_stores_image_witness:
  "\<exists>w'. run_ops (xfer_served 1) (xfer_client 0 [([1, 2, 3], 1), ([4], 0)]) (ram_world ram_run 8) =
       Some ([Inl [0x76, 1], Inl [0x76, 1], Inl [0x76, 2]], w') \<and> dg_app (uw_env w') 0x103 = 4"
  using nx_uds_svc_transfer_data_stores_image[OF _ ram_received, where wfn = "\<lambda>_ a d nrc m. ((True, nrc), ram_put a d m)" and put = ram_put
      and mem = "\<lambda>m. m" and ds = "[([1, 2, 3], 1), ([4], 0)]"]
  by (auto simp: ram_cfg_def ram_put_def)

text \<open>
  C23: RequestDownload opens what it announces. For a request with the address and the length of the region in fields of one to fifteen
  bytes, neither too large for an address, the product is asked with those numbers; if it consents, the length that is announced is the
  smaller of what it allows and of the limit, the answer spells that number, and the receiver stands at the start of the region with as much
  room per block. If no payload fits the announced length the request is refused and nothing is opened; that is so for every
  request to a server whose own limit is 0, which its configuration says to mean that there is none.
\<close>

theorem nx_uds_svc_transfer_request_download_opens:
  assumes "u \<noteq> 0" and "dg_xfers (uw_env w) u = Some t" and "xr_dir (xf_run t) = NX_UDS_SVC_TRANSFER_NONE" and "tc_srv (xf_cfg t)"
    and "tc_write_fn (xf_cfg t) \<noteq> None"
    and "a \<noteq> []" and "length a < 16" and "be_nat a < 2 ^ 32" and "s \<noteq> []" and "length s < 16" and "0 < be_nat s" and "be_nat s < 2 ^ 32"
    and "uc_req_buf (uw_cfg w) = Some b" and "length (download_request format a s) \<le> length b"
    and "uc_out_buf (uw_cfg w) = Some ob" and "6 \<le> length ob" and "6 \<le> cx_out_cap (uw_ctx w)"
    and "product_consents (xf_cfg t) (of_nat (be_nat a)) (of_nat (be_nat s)) format (download_limit (xf_cfg t) w) (dg_app (uw_env w)) = ((ok, n, nrc), x)"
  shows "\<exists>r w'. xfer_opened u (download_request format a s) w = Some (r, w') \<and> dg_app (uw_env w') = x \<and>
     (if \<not> ok then r = Inr nrc \<and> dg_xfers (uw_env w') = dg_xfers (uw_env w)
      else if min n (download_limit (xf_cfg t) w) \<le> 2 then r = Inr NX_UDS_NRC_CONDITIONS_NOT_CORRECT \<and> dg_xfers (uw_env w') = dg_xfers (uw_env w)
      else (\<exists>k digits. r = Inl ([0x74, k] @ digits) \<and> k = of_nat (16 * length digits) \<and> be_nat digits = unat (min n (download_limit (xf_cfg t) w)) \<and>
        xfer_received u (xf_cfg t) (of_nat (be_nat a)) (be_nat s) (unat (min n (download_limit (xf_cfg t) w)) - 2) (length b) ([], x) w'))"
proof -
  let ?n = "min n (download_limit (xf_cfg t) w)"
  obtain w1 where ask: "svc_ask (download_request format a s) w = Some w1" and e1: "uw_env w1 = uw_env w"
    and b1: "\<exists>b'. uc_req_buf (uw_cfg w1) = Some b' \<and> length b' = length b" and o1: "uc_out_buf (uw_cfg w1) = Some (0x74 # drop 1 ob)"
    and c1: "cx_out_cap (uw_ctx w1) = cx_out_cap (uw_ctx w)"
    and run: "nx_uds_svc_transfer_request_download u w1 =
       (if \<not> ok then svc_refuse nrc (upd_app x w1)
        else xfer_announce u NX_UDS_SVC_TRANSFER_DOWNLOAD (of_nat (be_nat a)) (of_nat (be_nat s)) ?n (upd_app x w1))"
    by (rule download_asks[OF assms(1-15) _ assms(18)]) (use assms(16) in simp)
  show ?thesis
  proof (cases ok)
    case False
    then show ?thesis using ask run e1 by (simp add: xfer_opened_def svc_refuse_def svc_reply_def)
  next
    case True
    have t1: "dg_xfers (uw_env (upd_app x w1)) u = Some t" "uc_out_buf (uw_cfg (upd_app x w1)) = Some (0x74 # drop 1 ob)"
      "6 \<le> length (0x74 # drop 1 ob :: bytes)" "6 \<le> cx_out_cap (uw_ctx (upd_app x w1))"
      using assms(2,16,17) e1 o1 c1 by simp_all
    obtain d w2 where w2: "xfer_announce u NX_UDS_SVC_TRANSFER_DOWNLOAD (of_nat (be_nat a)) (of_nat (be_nat s)) ?n (upd_app x w1) = Some (d, w2)"
      "uc_req_buf (uw_cfg w2) = uc_req_buf (uw_cfg (upd_app x w1))" "dg_app (uw_env w2) = dg_app (uw_env (upd_app x w1))"
      "\<exists>b. uc_out_buf (uw_cfg w2) = Some b \<and> length b = length (0x74 # drop 1 ob :: bytes)"
      "if nx_uds_svc_transfer_payload_room ?n = 0 then svc_reply d w2 = Some (Inr NX_UDS_NRC_CONDITIONS_NOT_CORRECT) \<and> uw_env w2 = uw_env (upd_app x w1)
       else svc_reply d w2 = Some (Inl ([0x74, ucast (push_bit 4 (xfer_width_for ?n))] @ xfer_write_be (unat (xfer_width_for ?n)) ?n)) \<and>
        dg_xfers (uw_env w2) u = Some (t\<lparr> xf_run := \<lparr> xr_dir = NX_UDS_SVC_TRANSFER_DOWNLOAD, xr_addr = of_nat (be_nat a), xr_size = of_nat (be_nat s),
          xr_done = 0, xr_block_len = ?n, xr_bsc_next = 1, xr_bsc_last = 0, xr_committed = False, xr_last_len = 0 \<rparr> \<rparr>)"
      using announce_runs[OF t1, of NX_UDS_SVC_TRANSFER_DOWNLOAD "of_nat (be_nat a)" "of_nat (be_nat s)" ?n] by blast
    have room: "nx_uds_svc_transfer_payload_room ?n = 0 \<longleftrightarrow> ?n \<le> 2" "unat (nx_uds_svc_transfer_payload_room ?n) = unat ?n - 2"
      by (auto simp: nx_uds_svc_transfer_payload_room_def word_le_nat_alt word_less_nat_alt unat_sub)
    show ?thesis
    proof (cases "?n \<le> 2")
      case True
      then show ?thesis using \<open>ok\<close> ask run w2 room e1 by (auto simp: xfer_opened_def)
    next
      case False
      let ?width = "xfer_width_for ?n"
      have k: "ucast (push_bit 4 ?width) = (of_nat (16 * unat ?width) :: u8)" using width_cases[of ?n] by auto
      have r: "svc_reply d w2 = Some (Inl ([0x74, of_nat (16 * length (xfer_write_be (unat ?width) ?n))] @ xfer_write_be (unat ?width) ?n))"
        using w2(5) room False k by simp
      have v: "be_nat (xfer_write_be (unat ?width) ?n) = unat ?n" by (rule write_be_nat[OF width_holds(1)])
      have sz: "unat (of_nat (be_nat s) :: u32) = be_nat s"
        unfolding unsigned_of_nat of_nat_id by (rule take_bit_nat_eq_self) (use assms(12) in simp)
      have "xfer_received u (xf_cfg t) (of_nat (be_nat a)) (be_nat s) (unat ?n - 2) (length b) ([], x) w2"
        using w2 room False b1 sz assms(16) by (auto simp: xfer_received_def)
      then have "\<exists>k digits. Inl ([0x74, of_nat (16 * length (xfer_write_be (unat ?width) ?n))] @ xfer_write_be (unat ?width) ?n) = (Inl ([0x74, k] @ digits) :: bytes + u8) \<and>
          k = of_nat (16 * length digits) \<and> be_nat digits = unat ?n \<and>
          xfer_received u (xf_cfg t) (of_nat (be_nat a)) (be_nat s) (unat ?n - 2) (length b) ([], x) w2"
        using v by blast
      moreover have "xfer_opened u (download_request format a s) w =
          Some (Inl ([0x74, of_nat (16 * length (xfer_write_be (unat ?width) ?n))] @ xfer_write_be (unat ?width) ?n), w2)"
        using \<open>ok\<close> ask run w2(1) r by (simp add: xfer_opened_def)
      ultimately show ?thesis using \<open>ok\<close> False w2(3) by simp
    qed
  qed
qed

text \<open>The limit of 0: nothing can be opened.\<close>

theorem nx_uds_svc_transfer_request_download_opens_witness:
  "\<exists>w'. xfer_opened 1 (download_request 0 [1, 0] [4]) (ram_world xfer_run_zero 0) = Some (Inr 0x22, w')"
proof -
  let ?w = "ram_world xfer_run_zero 0" and ?t = "\<lparr> xf_cfg = ram_cfg, xf_run = xfer_run_zero \<rparr>"
  have l: "download_limit ram_cfg ?w = 0" by (simp add: download_limit_def ram_cfg_def ram_world_def)
  have p: "product_consents (xf_cfg ?t) a r 0 (download_limit (xf_cfg ?t) ?w) (dg_app (uw_env ?w)) = ((True, 0, 0x31), \<lambda>_. 0)" for a r
    using l by (simp add: product_consents_def) (simp add: ram_cfg_def ram_world_def)
  have x: "dg_xfers (uw_env ?w) 1 = Some ?t" "xr_dir (xf_run ?t) = NX_UDS_SVC_TRANSFER_NONE" "tc_srv (xf_cfg ?t)" "tc_write_fn (xf_cfg ?t) \<noteq> None"
    by (simp_all add: ram_world_def xfer_run_zero_def ram_cfg_def)
  have y: "uc_req_buf (uw_cfg ?w) = Some (replicate 8 0)" "uc_out_buf (uw_cfg ?w) = Some (replicate 8 0)" "6 \<le> cx_out_cap (uw_ctx ?w)"
    by (simp_all add: ram_world_def)
  show ?thesis
    using nx_uds_svc_transfer_request_download_opens[OF _ x, of "[1, 0]" "[4]" "replicate 8 0" 0 "replicate 8 0" True 0 "0x31" "\<lambda>_. 0"] y p l
    by (auto simp: download_request_def)
qed

text \<open>
  C22: an upload hands out the region. A client that asks for block after block, each as often as it likes before it goes on, is told the same
  bytes every time it asks for the same block, and the payloads of the blocks put together are the memory of the region in order, as far
  as it asked; the last block is the short one. This is for a region whose length and one block together stay below \<open>2 ^ 32\<close>: beyond
  that the sum that is compared with the end of the region wraps, the last block is not shortened and reads past the region.
\<close>

theorem nx_uds_svc_transfer_data_reads_region:
  assumes "u \<noteq> 0" and "xfer_sending u c addr region room x 0 w" and "reads_memory c mem"
    and "region + room < 2 ^ 32" and "0 < room" and "(length ns - 1) * room < region"
  shows "\<exists>w' chunk. run_ops (xfer_served u) (upload_client 0 ns) w = Some (upload_answers chunk 0 ns, w') \<and> dg_app (uw_env w') = x \<and>
     (\<forall>k. length (chunk k) \<le> room) \<and>
     concat (map chunk [0..<length ns]) = map (\<lambda>i. mem x (addr + of_nat i)) [0..<min (length ns * room) region]"
proof -
  obtain w' where "run_ops (xfer_served u) (upload_client 0 ns) w = Some (upload_answers (upload_chunk (mem x) addr region room) 0 ns, w')"
    "xfer_sending u c addr region room x (0 + length ns) w'"
    using upload_all[OF assms(1,3,4,5,2), of ns] assms(6) by auto
  moreover have "length (upload_chunk (mem x) addr region room k) \<le> room" for k by (auto simp: upload_chunk_def min_def)
  ultimately show ?thesis using upload_chunks[of "mem x" addr region room "length ns"]
    by (intro exI[of _ w'] exI[of _ "upload_chunk (mem x) addr region room"]) (simp add: xfer_sending_def)
qed

definition rom_cfg :: "(u32 \<Rightarrow> u8) nx_uds_svc_transfer_cfg" where
  "rom_cfg = ram_cfg\<lparr> tc_write_fn := None, tc_read_fn := Some (\<lambda>_ a n nrc m. ((True, map (\<lambda>i. m (a + of_nat i)) [0..<unat n], nrc), m)) \<rparr>"

definition rom_world :: "(u32 \<Rightarrow> u8) diag_world" where
  "rom_world = (ram_world ram_run 8)\<lparr> uw_env := (uw_env (ram_world ram_run 8))\<lparr>
     dg_xfers := [1 \<mapsto> \<lparr> xf_cfg = rom_cfg, xf_run = ram_run\<lparr> xr_dir := NX_UDS_SVC_TRANSFER_UPLOAD \<rparr> \<rparr>], dg_app := (\<lambda>a. if a = 0x102 then 7 else 9) \<rparr> \<rparr>"

theorem nx_uds_svc_transfer_data_reads_region_witness:
  "\<exists>w' chunk. run_ops (xfer_served 1) [(1, []), (1, []), (2, [])] rom_world = Some (upload_answers chunk 0 [1, 0], w') \<and>
     chunk 0 @ chunk 1 = [9, 9, 7, 9]"
proof -
  have s: "xfer_sending 1 rom_cfg 0x100 4 3 (\<lambda>a. if a = 0x102 then 7 else 9) 0 rom_world"
    by (simp add: xfer_sending_def rom_world_def ram_world_def ram_run_def nx_uds_svc_transfer_payload_room_def)
  have m: "reads_memory rom_cfg (\<lambda>m. m)" by (simp add: reads_memory_def rom_cfg_def ram_cfg_def)
  have l: "[0..<4] = [0, 1, 2, 3 :: nat]" "[0..<2] = [0, 1 :: nat]" by (simp_all add: upt_conv_Cons)
  show ?thesis using nx_uds_svc_transfer_data_reads_region[OF _ s m, of "[1, 0]"] by (fastforce simp: l)
qed

text \<open>
  Without that bound: the test against the end of the region wraps, so a block that lies outside it is taken in a download, and in an upload
  the last block is not shortened to the 15 bytes that are left.
\<close>

lemma xfer_block_len_wraps:
  "xfer_block_len \<lparr> xr_dir = NX_UDS_SVC_TRANSFER_DOWNLOAD, xr_addr = 0, xr_size = 0xFFFFFFFF, xr_done = 0xFFFFFFF0, xr_block_len = 0x40,
     xr_bsc_next = 1, xr_bsc_last = 0, xr_committed = False, xr_last_len = 0 \<rparr> 0x22 = Some 0x20"
  "xfer_block_len \<lparr> xr_dir = NX_UDS_SVC_TRANSFER_UPLOAD, xr_addr = 0, xr_size = 0xFFFFFFFF, xr_done = 0xFFFFFFF0, xr_block_len = 0x40,
     xr_bsc_next = 1, xr_bsc_last = 0, xr_committed = False, xr_last_len = 0 \<rparr> 2 = Some 0x3E"
  by (simp_all add: xfer_block_len_def nx_uds_svc_transfer_payload_room_def)

end
