(* ===== verification/Nx_Uds_Client.thy ===== *)
theory Nx_Uds_Client
  imports Nx_Uds_Services
begin

text \<open>
  \<open>src/middleware/nx_uds_client.c\<close>: the diagnostic client of ISO 14229, one request at a time. A request is offered to a send path until it is
  taken, then a response is awaited, and extended by the server as often as the configuration tolerates; how the transaction ended is reported
  once. The report is a function pointer that gets the client and may call back into it, so its meaning is the parameter \<open>report\<close>
  and its value an address, 0 for NULL; the send path and the clock act on the environment only. The entry points take the client with its
  environment, \<open>None\<close> for a NULL client.
\<close>

section \<open>Types\<close>

abbreviation (input) NX_UDS_CLIENT_DEFAULT_P2_US :: u32 where "NX_UDS_CLIENT_DEFAULT_P2_US \<equiv> 50000"
abbreviation (input) NX_UDS_CLIENT_DEFAULT_P2_STAR_US :: u32 where "NX_UDS_CLIENT_DEFAULT_P2_STAR_US \<equiv> 5000000"
abbreviation (input) NX_UDS_CLIENT_DEFAULT_SEND_TIMEOUT_US :: u32 where "NX_UDS_CLIENT_DEFAULT_SEND_TIMEOUT_US \<equiv> 5000000"
abbreviation (input) NX_UDS_CLIENT_DEFAULT_MAX_PENDING :: u8 where "NX_UDS_CLIENT_DEFAULT_MAX_PENDING \<equiv> 32"

abbreviation (input) NX_UDS_SID_DIAGNOSTIC_SESSION_CONTROL :: u8 where "NX_UDS_SID_DIAGNOSTIC_SESSION_CONTROL \<equiv> 0x10"

datatype nx_uds_client_ret = NX_UDS_CLIENT_OK | NX_UDS_CLIENT_ERR_PARAM | NX_UDS_CLIENT_ERR_BUSY | NX_UDS_CLIENT_ERR_STATE

datatype nx_uds_client_result =
  NX_UDS_CLIENT_RESULT_OK | NX_UDS_CLIENT_RESULT_NEGATIVE | NX_UDS_CLIENT_RESULT_NO_RESPONSE | NX_UDS_CLIENT_RESULT_TIMEOUT |
  NX_UDS_CLIENT_RESULT_PROTOCOL_ERROR | NX_UDS_CLIENT_RESULT_CANCELED

text \<open>The states of a transaction, a \<open>uint8_t\<close>.\<close>

abbreviation (input) CLT_IDLE :: u8 where "CLT_IDLE \<equiv> 0"
abbreviation (input) CLT_WAIT_SEND :: u8 where "CLT_WAIT_SEND \<equiv> 1"
abbreviation (input) CLT_WAIT_RSP :: u8 where "CLT_WAIT_RSP \<equiv> 2"
abbreviation (input) CLT_WAIT_P2STAR :: u8 where "CLT_WAIT_P2STAR \<equiv> 3"
abbreviation (input) CLT_CANCELED :: u8 where "CLT_CANCELED \<equiv> 4"

text \<open>The buffers are held where the pointers to them are; the send path is given the bytes at its source.\<close>

record 'e nx_uds_client_cfg =
  cc_result_fn :: nat
  cc_result_user :: nat
  cc_send_fn :: "(nat \<Rightarrow> u8 \<Rightarrow> bytes \<Rightarrow> u8 \<Rightarrow> 'e \<Rightarrow> bool \<times> 'e) option"
  cc_send_user :: nat
  cc_req_buf :: "bytes option"
  cc_req_buf_size :: nat
  cc_rsp_buf :: "bytes option"
  cc_rsp_buf_size :: nat
  cc_link :: u8
  cc_get_us :: "('e \<Rightarrow> u32 \<times> 'e) option"
  cc_p2_us :: u32
  cc_p2_star_us :: u32
  cc_send_timeout_us :: u32
  cc_max_pending :: u8
  cc_fixed_timing :: bool

record nx_uds_client_txn =
  ct_state :: u8
  ct_sid :: u8
  ct_suppress_pos :: bool
  ct_ta_type :: u8
  ct_link :: u8
  ct_pend_count :: u8
  ct_req_len :: u32
  ct_started :: u32
  ct_send_deadline :: u32
  ct_deadline :: u32

record 'e nx_uds_client =
  cl_cfg :: "'e nx_uds_client_cfg"
  cl_txn :: nx_uds_client_txn
  cl_resp_len :: u32
  cl_p2_us :: u32
  cl_p2_star_us :: u32
  cl_session :: u8

text \<open>The client and what its callbacks act on.\<close>

record 'e clt_world =
  cw_clt :: "'e nx_uds_client"
  cw_env :: 'e

type_synonym 'e clt_report = "nat \<Rightarrow> nat \<Rightarrow> nx_uds_client_result \<Rightarrow> 'e clt_world \<Rightarrow> 'e clt_world option"

abbreviation cw_cfg :: "'e clt_world \<Rightarrow> 'e nx_uds_client_cfg" where "cw_cfg w \<equiv> cl_cfg (cw_clt w)"
abbreviation cw_txn :: "'e clt_world \<Rightarrow> nx_uds_client_txn" where "cw_txn w \<equiv> cl_txn (cw_clt w)"

definition upd_clt :: "('e nx_uds_client \<Rightarrow> 'e nx_uds_client) \<Rightarrow> 'e clt_world \<Rightarrow> 'e clt_world" where
  "upd_clt f w = w\<lparr> cw_clt := f (cw_clt w) \<rparr>"

definition clt_txn_zero :: nx_uds_client_txn where
  "clt_txn_zero = \<lparr> ct_state = 0, ct_sid = 0, ct_suppress_pos = False, ct_ta_type = 0, ct_link = 0, ct_pend_count = 0, ct_req_len = 0,
     ct_started = 0, ct_send_deadline = 0, ct_deadline = 0 \<rparr>"

definition clt_now :: "'e clt_world \<Rightarrow> (u32 \<times> 'e clt_world) option" where
  "clt_now w = do { get_us \<leftarrow> cc_get_us (cw_cfg w); let (t, e) = get_us (cw_env w); Some (t, w\<lparr> cw_env := e \<rparr>) }"

definition clt_expired :: "u32 \<Rightarrow> u32 \<Rightarrow> bool" where
  "clt_expired now deadline \<longleftrightarrow> tick_reached now deadline"

section \<open>Resolving a transaction\<close>

definition clt_txn_resolve :: "'e clt_report \<Rightarrow> 'e clt_world \<Rightarrow> nx_uds_client_result \<Rightarrow> 'e clt_world option" where
  "clt_txn_resolve report w result =
     (let w1 = upd_clt (\<lambda>c. c\<lparr> cl_txn := clt_txn_zero\<lparr> ct_state := CLT_IDLE \<rparr> \<rparr>) w
      in if cc_result_fn (cw_cfg w1) \<noteq> 0 then report (cc_result_fn (cw_cfg w1)) (cc_result_user (cw_cfg w1)) result w1 else Some w1)"

text \<open>\<open>rsp\<close> is the memory at the response.\<close>

definition clt_answers_sid :: "'e clt_world \<Rightarrow> bytes \<Rightarrow> bool option" where
  "clt_answers_sid w rsp = do {
     let sid = ct_sid (cw_txn w);
     r0 \<leftarrow> mem_get 0 rsp;
     if r0 = NX_UDS_NEG_RSP_SID then do { r1 \<leftarrow> mem_get 1 rsp; Some (r1 = sid) }
     else Some (NX_UDS_SID_TO_POS_RSP sid = r0) }"

definition clt_set_resp_len :: "u32 \<Rightarrow> 'e clt_world \<Rightarrow> 'e clt_world" where
  "clt_set_resp_len n = upd_clt (\<lambda>c. c\<lparr> cl_resp_len := n \<rparr>)"

definition clt_txn_pend :: "'e clt_report \<Rightarrow> 'e clt_world \<Rightarrow> (bool \<times> 'e clt_world) option" where
  "clt_txn_pend report w =
     (if ct_pend_count (cw_txn w) \<ge> cc_max_pending (cw_cfg w) then do {
        w1 \<leftarrow> clt_txn_resolve report (clt_set_resp_len 0 w) NX_UDS_CLIENT_RESULT_TIMEOUT;
        Some (True, w1) }
      else do {
        let w1 = upd_clt (\<lambda>c. c\<lparr> cl_txn := (cl_txn c)\<lparr> ct_pend_count := ct_pend_count (cl_txn c) + 1, ct_suppress_pos := False,
                                      ct_state := CLT_WAIT_P2STAR \<rparr> \<rparr>) w;
        (t, w2) \<leftarrow> clt_now w1;
        Some (False, upd_clt (\<lambda>c. c\<lparr> cl_txn := (cl_txn c)\<lparr> ct_deadline := t + cl_p2_star_us c \<rparr> \<rparr>) w2) })"

text \<open>A response that this state does not allow.\<close>

definition clt_protocol_error :: "'e clt_report \<Rightarrow> 'e clt_world \<Rightarrow> (bool \<times> 'e clt_world) option" where
  "clt_protocol_error report w = do {
     w1 \<leftarrow> clt_txn_resolve report (clt_set_resp_len 0 w) NX_UDS_CLIENT_RESULT_PROTOCOL_ERROR;
     Some (True, w1) }"

text \<open>A response that is kept for the application.\<close>

definition clt_keep_response :: "'e clt_report \<Rightarrow> 'e clt_world \<Rightarrow> bytes \<Rightarrow> u32 \<Rightarrow> nx_uds_client_result \<Rightarrow> (bool \<times> 'e clt_world) option" where
  "clt_keep_response report w rsp len result = do {
     x \<leftarrow> mem_read 0 (unat len) rsp;
     b \<leftarrow> cc_rsp_buf (cw_cfg w);
     b1 \<leftarrow> mem_write 0 x b;
     let w1 = upd_clt (\<lambda>c. c\<lparr> cl_cfg := (cl_cfg c)\<lparr> cc_rsp_buf := Some b1 \<rparr>, cl_resp_len := len \<rparr>) w;
     w2 \<leftarrow> clt_txn_resolve report w1 result;
     Some (True, w2) }"

text \<open>The session and the windows that a positive answer to a session request brings.\<close>

definition clt_adopt_session :: "'e clt_world \<Rightarrow> bytes \<Rightarrow> u32 \<Rightarrow> 'e clt_world option" where
  "clt_adopt_session w rsp len =
     (if ct_sid (cw_txn w) = NX_UDS_SID_DIAGNOSTIC_SESSION_CONTROL \<and> len \<ge> 2 then do {
        s \<leftarrow> mem_get 1 rsp;
        let w1 = upd_clt (\<lambda>c. c\<lparr> cl_session := s \<rparr>) w;
        if \<not> cc_fixed_timing (cw_cfg w1) \<and> len \<ge> 6 then do {
          a \<leftarrow> mem_get 2 rsp;
          b \<leftarrow> mem_get 3 rsp;
          c \<leftarrow> mem_get 4 rsp;
          d \<leftarrow> mem_get 5 rsp;
          let p2 = (push_bit 8 (ucast a) OR ucast b :: u32);
          let p2s = (push_bit 8 (ucast c) OR ucast d :: u32);
          Some (upd_clt (\<lambda>x. x\<lparr> cl_p2_us := p2 * NX_UDS_P2_RESOLUTION_US, cl_p2_star_us := p2s * NX_UDS_P2_STAR_RESOLUTION_US \<rparr>) w1) }
        else Some w1 }
      else Some w)"

definition clt_digest :: "'e clt_report \<Rightarrow> 'e clt_world \<Rightarrow> bytes \<Rightarrow> u32 \<Rightarrow> (bool \<times> 'e clt_world) option" where
  "clt_digest report w rsp len =
     (if len < 1 then clt_protocol_error report w
      else do {
        r0 \<leftarrow> mem_get 0 rsp;
        if r0 = NX_UDS_NEG_RSP_SID then
          (if len < NX_UDS_NEG_RSP_LEN then clt_protocol_error report w
           else do {
             r2 \<leftarrow> mem_get 2 rsp;
             mine \<leftarrow> clt_answers_sid w rsp;
             if len = NX_UDS_NEG_RSP_LEN \<and> r2 = NX_UDS_NRC_RESPONSE_PENDING then
               (if \<not> mine then clt_protocol_error report w else clt_txn_pend report w)
             else if \<not> mine then clt_protocol_error report w
             else if unat len > cc_rsp_buf_size (cw_cfg w) then clt_protocol_error report w
             else clt_keep_response report w rsp len NX_UDS_CLIENT_RESULT_NEGATIVE })
        else do {
          mine \<leftarrow> clt_answers_sid w rsp;
          if mine then
            (if unat len > cc_rsp_buf_size (cw_cfg w) then clt_protocol_error report w
             else do {
               w1 \<leftarrow> clt_adopt_session w rsp len;
               clt_keep_response report w1 rsp len NX_UDS_CLIENT_RESULT_OK })
          else clt_protocol_error report w } })"

section \<open>Arming a transaction\<close>

definition clt_txn_arm :: "'e clt_world \<Rightarrow> u8 \<Rightarrow> bool \<Rightarrow> u8 \<Rightarrow> u32 \<Rightarrow> 'e clt_world option" where
  "clt_txn_arm w sid suppress_pos ta_type len = do {
     (now, w1) \<leftarrow> clt_now w;
     Some (upd_clt (\<lambda>c. c\<lparr> cl_resp_len := 0, cl_txn := \<lparr> ct_state = CLT_WAIT_SEND, ct_sid = sid, ct_suppress_pos = suppress_pos,
        ct_ta_type = ta_type, ct_link = cc_link (cl_cfg c), ct_pend_count = 0, ct_req_len = len, ct_started = now,
        ct_send_deadline = now + cc_send_timeout_us (cl_cfg c), ct_deadline = now + cl_p2_us c \<rparr> \<rparr>) w1) }"

definition clt_put_req :: "nat \<Rightarrow> bytes \<Rightarrow> 'e clt_world \<Rightarrow> 'e clt_world option" where
  "clt_put_req i x w = do {
     b \<leftarrow> cc_req_buf (cw_cfg w);
     b1 \<leftarrow> mem_write i x b;
     Some (upd_clt (\<lambda>c. c\<lparr> cl_cfg := (cl_cfg c)\<lparr> cc_req_buf := Some b1 \<rparr> \<rparr>) w) }"

section \<open>Public API\<close>

definition clt_cfg_valid :: "'e nx_uds_client_cfg \<Rightarrow> bool" where
  "clt_cfg_valid cfg \<longleftrightarrow> \<not> (cc_req_buf cfg = None \<or> cc_req_buf_size cfg < 1) \<and>
     \<not> (cc_rsp_buf cfg = None \<or> cc_rsp_buf_size cfg < unat NX_UDS_NEG_RSP_LEN) \<and> cc_get_us cfg \<noteq> None"

definition clt_cfg_defaults :: "'e nx_uds_client_cfg \<Rightarrow> 'e nx_uds_client_cfg" where
  "clt_cfg_defaults cfg = cfg\<lparr>
     cc_p2_us := (if cc_p2_us cfg = 0 then NX_UDS_CLIENT_DEFAULT_P2_US else cc_p2_us cfg),
     cc_p2_star_us := (if cc_p2_star_us cfg = 0 then NX_UDS_CLIENT_DEFAULT_P2_STAR_US else cc_p2_star_us cfg),
     cc_send_timeout_us := (if cc_send_timeout_us cfg = 0 then NX_UDS_CLIENT_DEFAULT_SEND_TIMEOUT_US else cc_send_timeout_us cfg),
     cc_max_pending := (if cc_max_pending cfg = 0 then NX_UDS_CLIENT_DEFAULT_MAX_PENDING else cc_max_pending cfg) \<rparr>"

definition nx_uds_client_init ::
  "'e nx_uds_client option \<Rightarrow> 'e nx_uds_client_cfg option \<Rightarrow> nx_uds_client_ret \<times> 'e nx_uds_client option" where
  "nx_uds_client_init cp cfgp =
     (case (cp, cfgp) of
        (Some clt, Some cfg) \<Rightarrow>
          if \<not> clt_cfg_valid cfg then (NX_UDS_CLIENT_ERR_PARAM, cp)
          else
            let cfg1 = clt_cfg_defaults cfg
            in (NX_UDS_CLIENT_OK, Some \<lparr> cl_cfg = cfg1, cl_txn = clt_txn_zero\<lparr> ct_state := CLT_IDLE \<rparr>, cl_resp_len = 0,
                  cl_p2_us = cc_p2_us cfg1, cl_p2_star_us = cc_p2_star_us cfg1, cl_session = NX_UDS_SESSION_DEFAULT \<rparr>)
      | _ \<Rightarrow> (NX_UDS_CLIENT_ERR_PARAM, cp))"

definition nx_uds_client_request ::
  "'e clt_world option \<Rightarrow> u8 \<Rightarrow> u8 \<Rightarrow> bytes option \<Rightarrow> nat \<Rightarrow> u8 \<Rightarrow> (nx_uds_client_ret \<times> 'e clt_world option) option" where
  "nx_uds_client_request wp sid subfunc data len ta_type =
     (case wp of
        None \<Rightarrow> Some (NX_UDS_CLIENT_ERR_PARAM, None)
      | Some w \<Rightarrow>
          if len > 0 \<and> data = None then Some (NX_UDS_CLIENT_ERR_PARAM, wp)
          else if ct_state (cw_txn w) \<noteq> CLT_IDLE then Some (NX_UDS_CLIENT_ERR_BUSY, wp)
          else if len > cc_req_buf_size (cw_cfg w) \<or> cc_req_buf_size (cw_cfg w) - len < 2 then Some (NX_UDS_CLIENT_ERR_PARAM, wp)
          else do {
            w1 \<leftarrow> clt_put_req 0 [sid] w;
            w2 \<leftarrow> clt_put_req 1 [subfunc] w1;
            w3 \<leftarrow> (if len > 0 then do { src \<leftarrow> data; x \<leftarrow> mem_read 0 len src; clt_put_req 2 x w2 } else Some w2);
            w4 \<leftarrow> clt_txn_arm w3 sid (NX_UDS_SUPPRESSES_POS_RSP subfunc) ta_type (of_nat len + 2);
            Some (NX_UDS_CLIENT_OK, Some w4) })"

definition nx_uds_client_request_raw ::
  "'e clt_world option \<Rightarrow> bytes option \<Rightarrow> nat \<Rightarrow> u8 \<Rightarrow> (nx_uds_client_ret \<times> 'e clt_world option) option" where
  "nx_uds_client_request_raw wp req len ta_type =
     (case wp of
        None \<Rightarrow> Some (NX_UDS_CLIENT_ERR_PARAM, None)
      | Some w \<Rightarrow>
          if req = None \<or> len = 0 then Some (NX_UDS_CLIENT_ERR_PARAM, wp)
          else if ct_state (cw_txn w) \<noteq> CLT_IDLE then Some (NX_UDS_CLIENT_ERR_BUSY, wp)
          else if len > cc_req_buf_size (cw_cfg w) then Some (NX_UDS_CLIENT_ERR_PARAM, wp)
          else do {
            src \<leftarrow> req;
            x \<leftarrow> mem_read 0 len src;
            w1 \<leftarrow> clt_put_req 0 x w;
            sid \<leftarrow> mem_get 0 src;
            w2 \<leftarrow> clt_txn_arm w1 sid False ta_type (of_nat len);
            Some (NX_UDS_CLIENT_OK, Some w2) })"

text \<open>The step of a request that waits to be sent: \<open>now\<close> was read before the send path was called.\<close>

definition clt_process_send :: "'e clt_report \<Rightarrow> 'e clt_world \<Rightarrow> u32 \<Rightarrow> 'e clt_world option" where
  "clt_process_send report w now = do {
     (taken, w1) \<leftarrow>
       (case cc_send_fn (cw_cfg w) of
          None \<Rightarrow> Some (False, w)
        | Some send_fn \<Rightarrow> do {
            b \<leftarrow> cc_req_buf (cw_cfg w);
            x \<leftarrow> mem_read 0 (unat (ct_req_len (cw_txn w))) b;
            let (ok, e) = send_fn (cc_send_user (cw_cfg w)) (ct_link (cw_txn w)) x (ct_ta_type (cw_txn w)) (cw_env w);
            Some (ok, w\<lparr> cw_env := e \<rparr>) });
     if taken then
       Some (upd_clt (\<lambda>c. c\<lparr> cl_txn := (cl_txn c)\<lparr> ct_state := CLT_WAIT_RSP, ct_deadline := now + cl_p2_us c \<rparr> \<rparr>) w1)
     else if clt_expired now (ct_send_deadline (cw_txn w1)) then clt_txn_resolve report w1 NX_UDS_CLIENT_RESULT_TIMEOUT
     else Some w1 }"

definition nx_uds_client_process :: "'e clt_report \<Rightarrow> 'e clt_world option \<Rightarrow> (nx_uds_client_ret \<times> 'e clt_world option) option" where
  "nx_uds_client_process report wp =
     (case wp of
        None \<Rightarrow> Some (NX_UDS_CLIENT_ERR_PARAM, None)
      | Some w0 \<Rightarrow> do {
          (now, w) \<leftarrow> clt_now w0;
          w' \<leftarrow>
            (if ct_state (cw_txn w) = CLT_IDLE then Some w
             else if ct_state (cw_txn w) = CLT_CANCELED then clt_txn_resolve report w NX_UDS_CLIENT_RESULT_CANCELED
             else if ct_state (cw_txn w) = CLT_WAIT_SEND then clt_process_send report w now
             else if ct_state (cw_txn w) = CLT_WAIT_RSP \<or> ct_state (cw_txn w) = CLT_WAIT_P2STAR then
               (if clt_expired now (ct_deadline (cw_txn w)) then
                  clt_txn_resolve report w
                    (if ct_suppress_pos (cw_txn w) then NX_UDS_CLIENT_RESULT_NO_RESPONSE else NX_UDS_CLIENT_RESULT_TIMEOUT)
                else Some w)
             else Some w);
          Some (NX_UDS_CLIENT_OK, Some w') })"

definition nx_uds_client_indicate ::
  "'e clt_report \<Rightarrow> 'e clt_world option \<Rightarrow> bytes option \<Rightarrow> u32 \<Rightarrow> u8 \<Rightarrow> u8 \<Rightarrow> (nx_uds_client_ret \<times> 'e clt_world option) option" where
  "nx_uds_client_indicate report wp rsp len ta_type link =
     (case wp of
        None \<Rightarrow> Some (NX_UDS_CLIENT_ERR_PARAM, None)
      | Some w \<Rightarrow>
          if rsp = None \<or> len = 0 then Some (NX_UDS_CLIENT_ERR_PARAM, wp)
          else if link \<noteq> cc_link (cw_cfg w) then Some (NX_UDS_CLIENT_ERR_PARAM, wp)
          else if ct_state (cw_txn w) \<noteq> CLT_WAIT_RSP \<and> ct_state (cw_txn w) \<noteq> CLT_WAIT_P2STAR then Some (NX_UDS_CLIENT_ERR_STATE, wp)
          else do {
            p \<leftarrow> rsp;
            (_, w1) \<leftarrow> clt_digest report w p len;
            Some (NX_UDS_CLIENT_OK, Some w1) })"

definition nx_uds_client_confirm :: "'e clt_report \<Rightarrow> 'e clt_world option \<Rightarrow> u8 \<Rightarrow> u8 \<Rightarrow> 'e clt_world option option" where
  "nx_uds_client_confirm report wp link result =
     (case wp of
        None \<Rightarrow> Some None
      | Some w \<Rightarrow>
          if link \<noteq> cc_link (cw_cfg w) then Some wp
          else if ct_state (cw_txn w) \<noteq> CLT_WAIT_RSP \<and> ct_state (cw_txn w) \<noteq> CLT_WAIT_P2STAR then Some wp
          else if result = NX_TP_N_OK then Some wp
          else do {
            w1 \<leftarrow> clt_txn_resolve report (clt_set_resp_len 0 w) NX_UDS_CLIENT_RESULT_TIMEOUT;
            Some (Some w1) })"

definition nx_uds_client_cancel :: "'e clt_world option \<Rightarrow> nx_uds_client_ret \<times> 'e clt_world option" where
  "nx_uds_client_cancel wp =
     (case wp of
        None \<Rightarrow> (NX_UDS_CLIENT_ERR_PARAM, None)
      | Some w \<Rightarrow>
          if ct_state (cw_txn w) = CLT_IDLE \<or> ct_state (cw_txn w) = CLT_CANCELED then (NX_UDS_CLIENT_ERR_STATE, wp)
          else (NX_UDS_CLIENT_OK, Some (upd_clt (\<lambda>c. c\<lparr> cl_txn := (cl_txn c)\<lparr> ct_state := CLT_CANCELED \<rparr> \<rparr>) w)))"

definition nx_uds_client_is_busy :: "'e nx_uds_client option \<Rightarrow> bool" where
  "nx_uds_client_is_busy cp = (case cp of None \<Rightarrow> False | Some c \<Rightarrow> ct_state (cl_txn c) \<noteq> CLT_IDLE)"

definition nx_uds_client_session :: "'e nx_uds_client option \<Rightarrow> u8" where
  "nx_uds_client_session cp = (case cp of None \<Rightarrow> NX_UDS_SESSION_DEFAULT | Some c \<Rightarrow> cl_session c)"

text \<open>The results are what is behind the two pointers afterwards, \<open>None\<close> for a NULL pointer.\<close>

definition nx_uds_client_timing :: "'e nx_uds_client option \<Rightarrow> u32 option \<Rightarrow> u32 option \<Rightarrow> u32 option \<times> u32 option" where
  "nx_uds_client_timing cp p2 p2_star =
     (case cp of None \<Rightarrow> (p2, p2_star) | Some c \<Rightarrow> (map_option (\<lambda>_. cl_p2_us c) p2, map_option (\<lambda>_. cl_p2_star_us c) p2_star))"

definition nx_uds_client_set_timing :: "'e nx_uds_client option \<Rightarrow> u32 \<Rightarrow> u32 \<Rightarrow> 'e nx_uds_client option" where
  "nx_uds_client_set_timing cp p2_us p2_star_us =
     map_option (\<lambda>c. c\<lparr> cl_cfg := (cl_cfg c)\<lparr> cc_p2_us := p2_us, cc_p2_star_us := p2_star_us \<rparr>, cl_p2_us := p2_us,
       cl_p2_star_us := p2_star_us \<rparr>) cp"

definition nx_uds_client_resp_len :: "'e nx_uds_client option \<Rightarrow> u32" where
  "nx_uds_client_resp_len cp = (case cp of None \<Rightarrow> 0 | Some c \<Rightarrow> cl_resp_len c)"

definition nx_uds_client_set_send ::
  "'e nx_uds_client option \<Rightarrow> (nat \<Rightarrow> u8 \<Rightarrow> bytes \<Rightarrow> u8 \<Rightarrow> 'e \<Rightarrow> bool \<times> 'e) option \<Rightarrow> nat \<Rightarrow> nx_uds_client_ret \<times> 'e nx_uds_client option" where
  "nx_uds_client_set_send cp fn user =
     (case cp of
        None \<Rightarrow> (NX_UDS_CLIENT_ERR_PARAM, None)
      | Some c \<Rightarrow>
          if fn = None then (NX_UDS_CLIENT_ERR_PARAM, cp)
          else (NX_UDS_CLIENT_OK, Some (c\<lparr> cl_cfg := (cl_cfg c)\<lparr> cc_send_fn := fn, cc_send_user := user \<rparr> \<rparr>)))"

end
