(* ===== verification/Nx_Uds_Client_Judged.thy ===== *)
theory Nx_Uds_Client_Judged
  imports Nx_Uds_Client
begin

text \<open>
  The invariant of the diagnostic client; what its operations do to it, in a vocabulary of steps without memory accesses; and the abstract
  verdict by which a response is judged.
\<close>

section \<open>The invariant\<close>

definition clt_waiting :: "'e clt_world \<Rightarrow> bool" where
  "clt_waiting w \<longleftrightarrow> ct_state (cw_txn w) = CLT_WAIT_RSP \<or> ct_state (cw_txn w) = CLT_WAIT_P2STAR"

definition clt_idle :: "'e clt_world \<Rightarrow> bool" where
  "clt_idle w \<longleftrightarrow> ct_state (cw_txn w) = CLT_IDLE"

text \<open>The buffers are as large as the configuration says.\<close>

definition clt_cfg_ok :: "'e nx_uds_client_cfg \<Rightarrow> bool" where
  "clt_cfg_ok cfg \<longleftrightarrow> (\<exists>b. cc_req_buf cfg = Some b \<and> cc_req_buf_size cfg \<le> length b) \<and>
     (\<exists>b. cc_rsp_buf cfg = Some b \<and> cc_rsp_buf_size cfg \<le> length b) \<and> 3 \<le> cc_rsp_buf_size cfg \<and> cc_get_us cfg \<noteq> None"

definition clt_txn_ok :: "'e nx_uds_client_cfg \<Rightarrow> nx_uds_client_txn \<Rightarrow> bool" where
  "clt_txn_ok cfg t \<longleftrightarrow> ct_state t \<in> {CLT_IDLE, CLT_WAIT_SEND, CLT_WAIT_RSP, CLT_WAIT_P2STAR, CLT_CANCELED} \<and>
     unat (ct_req_len t) \<le> cc_req_buf_size cfg \<and> ct_pend_count t \<le> cc_max_pending cfg"

definition clt_wf :: "'e clt_world \<Rightarrow> bool" where
  "clt_wf w \<longleftrightarrow> clt_cfg_ok (cw_cfg w) \<and> clt_txn_ok (cw_cfg w) (cw_txn w) \<and> unat (cl_resp_len (cw_clt w)) \<le> cc_rsp_buf_size (cw_cfg w)"

text \<open>
  What the report callback owes: called on an idle client it returns and leaves a client in order. It may well start the next request.
\<close>

definition clt_report_ok :: "'e clt_report \<Rightarrow> bool" where
  "clt_report_ok report \<longleftrightarrow> (\<forall>f u r w. clt_wf w \<longrightarrow> clt_idle w \<longrightarrow> (\<exists>w'. report f u r w = Some w' \<and> clt_wf w'))"

lemma upd_clt_sel [simp]: "cw_clt (upd_clt f w) = f (cw_clt w)" "cw_env (upd_clt f w) = cw_env w"
  by (simp_all add: upd_clt_def)

lemma upd_clt_env [simp]: "upd_clt f (w\<lparr> cw_env := e \<rparr>) = (upd_clt f w)\<lparr> cw_env := e \<rparr>"
  by (simp add: upd_clt_def)

lemma upd_clt_twice [simp]: "upd_clt f (upd_clt g w) = upd_clt (f \<circ> g) w"
  by (simp add: upd_clt_def)

lemma clt_env_wf [simp]: "clt_wf (w\<lparr> cw_env := e \<rparr>) = clt_wf w"
  by (simp add: clt_wf_def)

lemma clt_idle_not_waiting: "clt_idle w \<Longrightarrow> \<not> clt_waiting w"
  by (simp add: clt_idle_def clt_waiting_def)

lemma clt_txn_zero_state [simp]: "clt_txn_zero\<lparr> ct_state := 0 \<rparr> = clt_txn_zero" "ct_state clt_txn_zero = 0"
  by (simp_all add: clt_txn_zero_def)

lemma clt_now_run:
  assumes "clt_wf w"
  obtains t e where "clt_now w = Some (t, w\<lparr> cw_env := e \<rparr>)"
proof -
  obtain get_us where g: "cc_get_us (cw_cfg w) = Some get_us" using assms by (auto simp: clt_wf_def clt_cfg_ok_def)
  obtain t e where "get_us (cw_env w) = (t, e)" by fastforce
  then show ?thesis using that[of t e] g by (simp add: clt_now_def)
qed

section \<open>The steps\<close>

text \<open>The transaction is cleared and its end reported.\<close>

definition clt_cleared :: "'e clt_world \<Rightarrow> 'e clt_world" where
  "clt_cleared w = upd_clt (\<lambda>c. c\<lparr> cl_txn := clt_txn_zero \<rparr>) w"

definition clt_ends :: "'e clt_report \<Rightarrow> nx_uds_client_result \<Rightarrow> 'e clt_world \<Rightarrow> 'e clt_world option" where
  "clt_ends report r w =
     (if cc_result_fn (cw_cfg w) \<noteq> 0 then report (cc_result_fn (cw_cfg w)) (cc_result_user (cw_cfg w)) r (clt_cleared w)
      else Some (clt_cleared w))"

lemma clt_txn_resolve_ends: "clt_txn_resolve report w r = clt_ends report r w"
  by (simp add: clt_txn_resolve_def clt_ends_def clt_cleared_def)

text \<open>A response is kept at the start of the buffer.\<close>

definition clt_holds :: "bytes \<Rightarrow> 'e clt_world \<Rightarrow> 'e clt_world" where
  "clt_holds x = upd_clt (\<lambda>c. c\<lparr> cl_cfg := (cl_cfg c)\<lparr> cc_rsp_buf := map_option (\<lambda>b. x @ drop (length x) b) (cc_rsp_buf (cl_cfg c)) \<rparr>,
     cl_resp_len := of_nat (length x) \<rparr>)"

text \<open>The session and the windows of a session answer; a window is published as a number of units.\<close>

definition clt_window :: "nat \<Rightarrow> u8 \<Rightarrow> u8 \<Rightarrow> u32" where
  "clt_window unit hi lo = of_nat ((256 * unat hi + unat lo) * unit)"

definition clt_renewed :: "bytes \<Rightarrow> 'e clt_world \<Rightarrow> 'e clt_world" where
  "clt_renewed x w =
     (if ct_sid (cw_txn w) = 0x10 \<and> 2 \<le> length x
      then upd_clt (\<lambda>c. (if \<not> cc_fixed_timing (cl_cfg c) \<and> 6 \<le> length x
             then c\<lparr> cl_p2_us := clt_window 1000 (x ! 2) (x ! 3), cl_p2_star_us := clt_window 10000 (x ! 4) (x ! 5) \<rparr>
             else c)\<lparr> cl_session := x ! 1 \<rparr>) w
      else w)"

text \<open>The window starts anew, and silence is no longer what was asked for.\<close>

definition clt_extended :: "u32 \<Rightarrow> 'e clt_world \<Rightarrow> 'e clt_world" where
  "clt_extended t = upd_clt (\<lambda>c. c\<lparr> cl_txn := (cl_txn c)\<lparr> ct_state := CLT_WAIT_P2STAR, ct_suppress_pos := False,
     ct_pend_count := ct_pend_count (cl_txn c) + 1, ct_deadline := t + cl_p2_star_us c \<rparr> \<rparr>)"

lemma clt_cleared_wf: "clt_wf w \<Longrightarrow> clt_wf (clt_cleared w) \<and> clt_idle (clt_cleared w)"
  by (simp add: clt_wf_def clt_cleared_def clt_txn_ok_def clt_idle_def) (simp add: clt_txn_zero_def)

lemma clt_ends_wf:
  assumes "clt_report_ok report" "clt_wf w"
  obtains w' where "clt_ends report r w = Some w'" "clt_wf w'"
proof (cases "cc_result_fn (cw_cfg w) = 0")
  case True
  then show ?thesis using that clt_cleared_wf[OF assms(2)] by (simp add: clt_ends_def)
next
  case False
  have "\<exists>w'. report (cc_result_fn (cw_cfg w)) (cc_result_user (cw_cfg w)) r (clt_cleared w) = Some w' \<and> clt_wf w'"
    using assms(1) clt_cleared_wf[OF assms(2)] unfolding clt_report_ok_def by blast
  then show ?thesis using that False by (auto simp: clt_ends_def)
qed

lemma clt_set_resp_len_wf: "clt_wf w \<Longrightarrow> clt_wf (clt_set_resp_len 0 w)"
  by (simp add: clt_wf_def clt_set_resp_len_def)

lemma clt_holds_wf:
  assumes "clt_wf w" "length x \<le> cc_rsp_buf_size (cw_cfg w)"
  shows "clt_wf (clt_holds x w)"
proof -
  have "unat (of_nat (length x) :: u32) \<le> length x" by (simp add: unsigned_of_nat)
  then show ?thesis using assms by (auto simp: clt_wf_def clt_holds_def clt_cfg_ok_def clt_txn_ok_def)
qed

lemma clt_renewed_keeps [simp]: "cw_cfg (clt_renewed x w) = cw_cfg w" "cw_txn (clt_renewed x w) = cw_txn w"
    "cl_resp_len (cw_clt (clt_renewed x w)) = cl_resp_len (cw_clt w)" "cw_env (clt_renewed x w) = cw_env w"
  by (simp_all add: clt_renewed_def)

lemma clt_renewed_wf: "clt_wf w \<Longrightarrow> clt_wf (clt_renewed x w)"
  by (simp add: clt_wf_def)

lemma clt_extended_wf:
  assumes "clt_wf w" "ct_pend_count (cw_txn w) < cc_max_pending (cw_cfg w)"
  shows "clt_wf (clt_extended t w)"
proof -
  have "ct_pend_count (cw_txn w) + 1 \<le> cc_max_pending (cw_cfg w)" using assms(2) by (rule inc_le)
  then show ?thesis using assms(1) by (simp add: clt_wf_def clt_extended_def clt_txn_ok_def)
qed

section \<open>The verdict\<close>

datatype clt_verdict = Unusable | Answered | Refused | Extended | Overdue

text \<open>
  How a response \<open>x\<close> of at least one byte is judged by a client that asked the service \<open>sid\<close>, has room for \<open>room\<close> bytes and has
  \<open>spent\<close> its extensions or not.
\<close>

definition clt_judge :: "u8 \<Rightarrow> nat \<Rightarrow> bool \<Rightarrow> bytes \<Rightarrow> clt_verdict" where
  "clt_judge sid room spent x =
     (if x = [0x7F, sid, 0x78] then (if spent then Overdue else Extended)
      else if room < length x then Unusable
      else if x ! 0 = 0x7F then (if 3 \<le> length x \<and> x ! 1 = sid then Refused else Unusable)
      else if x ! 0 = sid OR 0x40 then Answered else Unusable)"

definition clt_room :: "'e clt_world \<Rightarrow> nat" where "clt_room w = cc_rsp_buf_size (cw_cfg w)"
definition clt_spent :: "'e clt_world \<Rightarrow> bool" where "clt_spent w \<longleftrightarrow> ct_pend_count (cw_txn w) \<ge> cc_max_pending (cw_cfg w)"

definition clt_judged :: "'e clt_report \<Rightarrow> 'e clt_world \<Rightarrow> bytes \<Rightarrow> 'e clt_world option" where
  "clt_judged report w x =
     (case clt_judge (ct_sid (cw_txn w)) (clt_room w) (clt_spent w) x of
        Unusable \<Rightarrow> clt_ends report NX_UDS_CLIENT_RESULT_PROTOCOL_ERROR (clt_set_resp_len 0 w)
      | Overdue \<Rightarrow> clt_ends report NX_UDS_CLIENT_RESULT_TIMEOUT (clt_set_resp_len 0 w)
      | Refused \<Rightarrow> clt_ends report NX_UDS_CLIENT_RESULT_NEGATIVE (clt_holds x w)
      | Answered \<Rightarrow> clt_ends report NX_UDS_CLIENT_RESULT_OK (clt_holds x (clt_renewed x w))
      | Extended \<Rightarrow> (case clt_now w of None \<Rightarrow> None | Some (t, w1) \<Rightarrow> Some (clt_extended t w1)))"

lemma clt_judged_wf:
  assumes "clt_report_ok report" "clt_wf w"
  obtains w' where "clt_judged report w x = Some w'" "clt_wf w'"
proof (cases "clt_judge (ct_sid (cw_txn w)) (clt_room w) (clt_spent w) x")
  case Unusable
  then show ?thesis using that clt_ends_wf[OF assms(1) clt_set_resp_len_wf[OF assms(2)]] by (auto simp: clt_judged_def)
next
  case Overdue
  then show ?thesis using that clt_ends_wf[OF assms(1) clt_set_resp_len_wf[OF assms(2)]] by (auto simp: clt_judged_def)
next
  case Refused
  then have "length x \<le> cc_rsp_buf_size (cw_cfg w)" by (auto simp: clt_judge_def clt_room_def split: if_splits)
  from clt_ends_wf[OF assms(1) clt_holds_wf[OF assms(2) this]] show ?thesis using that Refused by (auto simp: clt_judged_def)
next
  case Answered
  then have "length x \<le> cc_rsp_buf_size (cw_cfg (clt_renewed x w))" by (auto simp: clt_judge_def clt_room_def split: if_splits)
  from clt_ends_wf[OF assms(1) clt_holds_wf[OF clt_renewed_wf[OF assms(2)] this]] show ?thesis
    using that Answered by (auto simp: clt_judged_def)
next
  case Extended
  then have "ct_pend_count (cw_txn w) < cc_max_pending (cw_cfg w)" by (auto simp: clt_judge_def clt_spent_def split: if_splits)
  moreover obtain t e where "clt_now w = Some (t, w\<lparr> cw_env := e \<rparr>)" by (rule clt_now_run[OF assms(2)])
  ultimately show ?thesis using that Extended assms(2) clt_extended_wf[of "w\<lparr> cw_env := e \<rparr>" t] by (simp add: clt_judged_def)
qed

section \<open>The code judges so\<close>

lemma clt_protocol_error_ends: "map_option snd (clt_protocol_error report w) =
    clt_ends report NX_UDS_CLIENT_RESULT_PROTOCOL_ERROR (clt_set_resp_len 0 w)"
  by (cases "clt_ends report NX_UDS_CLIENT_RESULT_PROTOCOL_ERROR (clt_set_resp_len 0 w)")
    (simp_all add: clt_protocol_error_def clt_txn_resolve_ends)

lemma clt_txn_pend_spent:
  assumes "clt_spent w"
  shows "map_option snd (clt_txn_pend report w) = clt_ends report NX_UDS_CLIENT_RESULT_TIMEOUT (clt_set_resp_len 0 w)"
  using assms by (cases "clt_ends report NX_UDS_CLIENT_RESULT_TIMEOUT (clt_set_resp_len 0 w)")
    (simp_all add: clt_txn_pend_def clt_txn_resolve_ends clt_spent_def)

lemma clt_now_upd: "cl_cfg (f (cw_clt w)) = cw_cfg w \<Longrightarrow> clt_now (upd_clt f w) = map_option (\<lambda>(t, w1). (t, upd_clt f w1)) (clt_now w)"
  by (cases "cc_get_us (cw_cfg w)") (simp_all add: clt_now_def case_prod_beta' upd_clt_def Let_def)

lemma clt_txn_pend_extends:
  assumes "\<not> clt_spent w"
  shows "map_option snd (clt_txn_pend report w) = (case clt_now w of None \<Rightarrow> None | Some (t, w1) \<Rightarrow> Some (clt_extended t w1))"
  using assms by (cases "clt_now w")
    (auto simp: clt_txn_pend_def clt_spent_def clt_now_upd clt_extended_def comp_def)

lemma clt_keep_response_ends:
  assumes "clt_wf w" "unat len \<le> cc_rsp_buf_size (cw_cfg w)" "unat len \<le> length rsp"
  shows "map_option snd (clt_keep_response report w rsp len r) = clt_ends report r (clt_holds (take (unat len) rsp) w)"
proof -
  obtain b where b: "cc_rsp_buf (cw_cfg w) = Some b" "cc_rsp_buf_size (cw_cfg w) \<le> length b" using assms(1) by (auto simp: clt_wf_def clt_cfg_ok_def)
  have "clt_holds (take (unat len) rsp) w =
      upd_clt (\<lambda>c. c\<lparr> cl_cfg := (cl_cfg c)\<lparr> cc_rsp_buf := Some (take (unat len) rsp @ drop (unat len) b) \<rparr>, cl_resp_len := len \<rparr>) w"
    using assms(3) b(1) by (simp add: clt_holds_def upd_clt_def)
  then show ?thesis using assms(2,3) b
    by (cases "clt_ends report r (clt_holds (take (unat len) rsp) w)")
      (simp_all add: clt_keep_response_def mem_read_def mem_write_def clt_txn_resolve_ends)
qed

lemma window_bytes: "(push_bit 8 (ucast (a :: u8)) OR ucast (b :: u8) :: u32) = of_nat (256 * unat a + unat b)"
proof -
  have "(push_bit 8 (ucast a) OR ucast b :: u32) = push_bit 8 (ucast a) + ucast b"
  proof (rule disjunctive_add[symmetric])
    fix n
    show "\<not> bit (push_bit 8 (ucast a :: u32)) n \<or> \<not> bit (ucast b :: u32) n" by (auto simp: bit_simps dest: bit_imp_le_length)
  qed
  also have "\<dots> = of_nat (256 * unat a + unat b)" by (simp add: push_bit_eq_mult)
  finally show ?thesis .
qed

lemma window_units:
  "(push_bit 8 (ucast (a :: u8)) OR ucast (b :: u8)) * 1000 = clt_window 1000 a b"
  "(push_bit 8 (ucast (a :: u8)) OR ucast (b :: u8)) * 10000 = clt_window 10000 a b"
  by (simp_all only: window_bytes clt_window_def of_nat_mult of_nat_numeral)

lemma three_bytes: "xs = [a, b, c] \<longleftrightarrow> length xs = 3 \<and> xs ! 0 = a \<and> xs ! 1 = b \<and> xs ! 2 = c"
  by (auto simp: numeral_eq_Suc length_Suc_conv)

lemma clt_adopt_session_renews:
  assumes "unat len \<le> length rsp"
  shows "clt_adopt_session w rsp len = Some (clt_renewed (take (unat len) rsp) w)"
proof -
  let ?x = "take (unat len) rsp"
  have l: "length ?x = unat len" using assms by simp
  have g: "mem_get i rsp = Some (?x ! i)" if "i < unat len" for i using that assms by (simp add: mem_get_def)
  have c: "2 \<le> len \<longleftrightarrow> 2 \<le> unat len" "6 \<le> len \<longleftrightarrow> 6 \<le> unat len" by (simp_all add: word_le_nat_alt)
  show ?thesis
  proof (cases "ct_sid (cw_txn w) = 0x10 \<and> 2 \<le> unat len")
    case False
    then show ?thesis unfolding clt_adopt_session_def clt_renewed_def l c by auto
  next
    case True
    show ?thesis
    proof (cases "\<not> cc_fixed_timing (cw_cfg w) \<and> 6 \<le> unat len")
      case False
      then show ?thesis using True unfolding clt_adopt_session_def clt_renewed_def l c by (auto simp: g upd_clt_def)
    next
      case full: True
      then show ?thesis using True unfolding clt_adopt_session_def clt_renewed_def l c
        by (simp add: g upd_clt_def window_units)
    qed
  qed
qed

lemma clt_digest_judges:
  assumes "clt_wf w" "0 < len" "unat len \<le> length rsp"
  shows "map_option snd (clt_digest report w rsp len) = clt_judged report w (take (unat len) rsp)"
proof -
  define x where "x = take (unat len) rsp"
  have l: "length x = unat len" using assms(3) by (simp add: x_def)
  have pos: "0 < unat len" and nz: "len \<noteq> 0" using assms(2) by (auto simp: word_less_nat_alt)
  have c: "len < 1 \<longleftrightarrow> unat len < 1" "len < 3 \<longleftrightarrow> unat len < 3" "len = 3 \<longleftrightarrow> unat len = 3"
    by (simp_all add: word_less_nat_alt word_unat_eq_iff)
  have g: "mem_get i rsp = Some (x ! i)" if "i < unat len" for i using that assms(3) by (simp add: mem_get_def x_def)
  have room: "3 \<le> clt_room w" using assms(1) by (simp add: clt_wf_def clt_cfg_ok_def clt_room_def)
  have keep: "map_option snd (clt_keep_response report v rsp len r) = clt_ends report r (clt_holds x v)"
    if "clt_wf v" "unat len \<le> cc_rsp_buf_size (cw_cfg v)" for v r
    using clt_keep_response_ends[OF that assms(3)] by (simp add: x_def)
  note judge = clt_judged_def clt_judge_def three_bytes l
  have "map_option snd (clt_digest report w rsp len) = clt_judged report w x"
  proof (cases "x ! 0 = 0x7F")
    case neg: True
    have g0: "mem_get 0 rsp = Some 0x7F" using g[of 0] pos neg by simp
    show ?thesis
    proof (cases "unat len < 3")
      case True
      then show ?thesis using pos neg g0 by (simp add: clt_digest_def c(1,2) clt_protocol_error_ends judge)
    next
      case False
      then have a: "clt_answers_sid w rsp = Some (x ! 1 = ct_sid (cw_txn w))" "mem_get 2 rsp = Some (x ! 2)"
        using g[of 1] g[of 2] g0 by (simp_all add: clt_answers_sid_def)
      note run = clt_digest_def c g0 a
      consider "x ! 1 \<noteq> ct_sid (cw_txn w)" | "x ! 1 = ct_sid (cw_txn w)" "unat len = 3" "x ! 2 = 0x78"
        | "x ! 1 = ct_sid (cw_txn w)" "\<not> (unat len = 3 \<and> x ! 2 = 0x78)" by blast
      then show ?thesis
      proof cases
        case 1
        then show ?thesis using False pos neg by (simp add: run judge clt_protocol_error_ends)
      next
        case 2
        have "clt_judge (ct_sid (cw_txn w)) (clt_room w) (clt_spent w) x = (if clt_spent w then Overdue else Extended)"
          using 2 neg by (simp add: clt_judge_def three_bytes l)
        then show ?thesis using 2 by (cases "clt_spent w") (simp_all add: run nz clt_judged_def clt_txn_pend_spent clt_txn_pend_extends)
      next
        case 3
        have "clt_judge (ct_sid (cw_txn w)) (clt_room w) (clt_spent w) x = (if clt_room w < unat len then Unusable else Refused)"
          using 3 neg False by (auto simp: clt_judge_def three_bytes l)
        then show ?thesis using 3 False pos keep[OF assms(1)]
          by (cases "unat len \<le> clt_room w") (auto simp: run clt_judged_def clt_protocol_error_ends clt_room_def)
      qed
    qed
  next
    case False
    have g0: "mem_get 0 rsp = Some (x ! 0)" using g[of 0] pos by simp
    then have a: "clt_answers_sid w rsp = Some (ct_sid (cw_txn w) OR 0x40 = x ! 0)"
      using False by (simp add: clt_answers_sid_def NX_UDS_SID_TO_POS_RSP_def)
    note run = clt_digest_def c(1) g0 a
    show ?thesis
    proof (cases "ct_sid (cw_txn w) OR 0x40 = x ! 0 \<and> unat len \<le> clt_room w")
      case bad: False
      have "clt_judge (ct_sid (cw_txn w)) (clt_room w) (clt_spent w) x = Unusable"
        using bad False by (auto simp: clt_judge_def three_bytes l)
      then show ?thesis using bad False pos by (auto simp: run clt_judged_def clt_protocol_error_ends clt_room_def)
    next
      case True
      have "clt_judge (ct_sid (cw_txn w)) (clt_room w) (clt_spent w) x = Answered"
        using True False by (simp add: clt_judge_def three_bytes l)
      moreover have "clt_adopt_session w rsp len = Some (clt_renewed x w)"
        using clt_adopt_session_renews[OF assms(3)] by (simp add: x_def)
      ultimately show ?thesis using True False pos keep[OF clt_renewed_wf[OF assms(1)]]
        by (simp add: run nz clt_judged_def clt_room_def)
    qed
  qed
  then show ?thesis by (simp add: x_def)
qed

end
