(* ===== verification/Nx_Uds_Client_Runs.thy ===== *)
theory Nx_Uds_Client_Runs
  imports Nx_Uds_Client_Judged
begin

text \<open>
  The entry points of the diagnostic client in the vocabulary of steps, runs of calls, and what every run keeps: the invariant, and that
  requests and reports come in pairs.
\<close>

section \<open>Starting a request\<close>

definition clt_writes :: "bytes \<Rightarrow> 'e clt_world \<Rightarrow> 'e clt_world" where
  "clt_writes x = upd_clt (\<lambda>c. c\<lparr> cl_cfg := (cl_cfg c)\<lparr> cc_req_buf := map_option (\<lambda>b. x @ drop (length x) b) (cc_req_buf (cl_cfg c)) \<rparr> \<rparr>)"

definition clt_armed :: "u8 \<Rightarrow> bool \<Rightarrow> u8 \<Rightarrow> nat \<Rightarrow> u32 \<Rightarrow> 'e clt_world \<Rightarrow> 'e clt_world" where
  "clt_armed sid quiet ta_type n now = upd_clt (\<lambda>c. c\<lparr> cl_resp_len := 0, cl_txn := \<lparr> ct_state = CLT_WAIT_SEND, ct_sid = sid, ct_suppress_pos = quiet,
     ct_ta_type = ta_type, ct_link = cc_link (cl_cfg c), ct_pend_count = 0, ct_req_len = of_nat n, ct_started = now,
     ct_send_deadline = now + cc_send_timeout_us (cl_cfg c), ct_deadline = now + cl_p2_us c \<rparr> \<rparr>)"

definition clt_asks :: "bytes \<Rightarrow> bool \<Rightarrow> u8 \<Rightarrow> 'e clt_world \<Rightarrow> 'e clt_world option" where
  "clt_asks x quiet ta_type w =
     map_option (\<lambda>(t, w1). clt_armed (hd x) quiet ta_type (length x) t (clt_writes x w1)) (clt_now w)"

lemma clt_writes_wf: "clt_wf w \<Longrightarrow> length x \<le> cc_req_buf_size (cw_cfg w) \<Longrightarrow> clt_wf (clt_writes x w)"
  by (auto simp: clt_wf_def clt_writes_def clt_cfg_ok_def clt_txn_ok_def)

lemma clt_armed_wf:
  assumes "clt_wf w" "n \<le> cc_req_buf_size (cw_cfg w)"
  shows "clt_wf (clt_armed sid q ta n t w) \<and> \<not> clt_idle (clt_armed sid q ta n t w)"
proof -
  have "unat (of_nat n :: u32) \<le> n" by (simp add: unsigned_of_nat)
  then show ?thesis using assms by (simp add: clt_wf_def clt_armed_def clt_txn_ok_def clt_idle_def)
qed

lemma clt_asks_wf:
  assumes "clt_wf w" "length x \<le> cc_req_buf_size (cw_cfg w)"
  obtains e t where "clt_asks x q ta w = Some (clt_armed (hd x) q ta (length x) t (clt_writes x (w\<lparr> cw_env := e \<rparr>)))"
    "clt_wf (clt_armed (hd x) q ta (length x) t (clt_writes x (w\<lparr> cw_env := e \<rparr>)))"
    "clt_now w = Some (t, w\<lparr> cw_env := e \<rparr>)"
proof -
  obtain t e where t: "clt_now w = Some (t, w\<lparr> cw_env := e \<rparr>)" by (rule clt_now_run[OF assms(1)])
  have "clt_wf (clt_writes x (w\<lparr> cw_env := e \<rparr>))" using assms by (intro clt_writes_wf) simp_all
  moreover have "length x \<le> cc_req_buf_size (cw_cfg (clt_writes x (w\<lparr> cw_env := e \<rparr>)))" using assms(2) by (simp add: clt_writes_def)
  ultimately show ?thesis using that[of t e] t clt_armed_wf by (fastforce simp: clt_asks_def)
qed

lemma clt_arm_armed:
  "clt_txn_arm (clt_writes x w) sid q ta (of_nat n) = map_option (\<lambda>(t, w1). clt_armed sid q ta n t (clt_writes x w1)) (clt_now w)"
proof -
  have "clt_now (clt_writes x w) = map_option (\<lambda>(t, w1). (t, clt_writes x w1)) (clt_now w)"
    by (cases "cc_get_us (cw_cfg w)") (simp_all add: clt_now_def clt_writes_def case_prod_beta' upd_clt_def Let_def)
  then show ?thesis by (cases "clt_now w") (auto simp: clt_txn_arm_def clt_armed_def)
qed

lemma clt_put_req_writes:
  assumes "clt_wf w" "length x \<le> cc_req_buf_size (cw_cfg w)"
  shows "clt_put_req 0 x w = Some (clt_writes x w)"
  using assms by (auto simp: clt_put_req_def clt_writes_def clt_wf_def clt_cfg_ok_def mem_write_def upd_clt_def)

text \<open>The three stores of a request are one.\<close>

lemma clt_put_req_more:
  assumes "clt_wf w" "length x + length y \<le> cc_req_buf_size (cw_cfg w)"
  shows "clt_put_req (length x) y (clt_writes x w) = Some (clt_writes (x @ y) w)"
  using assms by (auto simp: clt_put_req_def clt_writes_def clt_wf_def clt_cfg_ok_def mem_write_def upd_clt_def add.commute)

theorem nx_uds_client_request_spec:
  assumes "clt_wf w" "\<forall>src. data = Some src \<longrightarrow> len \<le> length src"
  shows "nx_uds_client_request (Some w) sid sub data len ta =
    (if 0 < len \<and> data = None then Some (NX_UDS_CLIENT_ERR_PARAM, Some w)
     else if \<not> clt_idle w then Some (NX_UDS_CLIENT_ERR_BUSY, Some w)
     else if cc_req_buf_size (cw_cfg w) < len + 2 then Some (NX_UDS_CLIENT_ERR_PARAM, Some w)
     else map_option (\<lambda>w'. (NX_UDS_CLIENT_OK, Some w')) (clt_asks (sid # sub # take len (the data)) (NX_UDS_SUPPRESSES_POS_RSP sub) ta w))"
proof (cases "0 < len \<and> data = None \<or> \<not> clt_idle w \<or> cc_req_buf_size (cw_cfg w) < len + 2")
  case True
  then show ?thesis by (auto simp: nx_uds_client_request_def clt_idle_def)
next
  case False
  let ?size = "cc_req_buf_size (cw_cfg w)"
  let ?d = "if len > 0 then take len (the data) else []"
  have room: "2 + len \<le> ?size" "\<not> (len > ?size \<or> ?size - len < 2)" using False by auto
  have ld: "length ?d = len" using False assms(2) by auto
  have w1: "clt_put_req 0 [sid] w = Some (clt_writes [sid] w)" using clt_put_req_writes[OF assms(1), of "[sid]"] room by simp
  have w2: "clt_put_req 1 [sub] (clt_writes [sid] w) = Some (clt_writes [sid, sub] w)"
    using clt_put_req_more[OF assms(1), of "[sid]" "[sub]"] room by simp
  have w3: "(if len > 0 then do { src \<leftarrow> data; x \<leftarrow> mem_read 0 len src; clt_put_req 2 x (clt_writes [sid, sub] w) }
      else Some (clt_writes [sid, sub] w)) = Some (clt_writes (sid # sub # ?d) w)"
    using clt_put_req_more[OF assms(1), of "[sid, sub]" ?d] room ld False assms(2) by (auto simp: mem_read_def numeral_2_eq_2)
  have arm: "clt_txn_arm (clt_writes (sid # sub # ?d) w) sid q ta (of_nat len + 2) = clt_asks (sid # sub # ?d) q ta w" for q
    using clt_arm_armed[of "sid # sub # ?d" w sid q ta "len + 2"] ld by (simp add: clt_asks_def add.commute)
  show ?thesis using False w1 w2 w3 arm room(2)
    by (simp add: nx_uds_client_request_def clt_idle_def) (auto simp: map_option_case split: option.splits)
qed

theorem nx_uds_client_request_raw_spec:
  assumes "clt_wf w" "\<forall>src. req = Some src \<longrightarrow> len \<le> length src"
  shows "nx_uds_client_request_raw (Some w) req len ta =
    (if req = None \<or> len = 0 then Some (NX_UDS_CLIENT_ERR_PARAM, Some w)
     else if \<not> clt_idle w then Some (NX_UDS_CLIENT_ERR_BUSY, Some w)
     else if cc_req_buf_size (cw_cfg w) < len then Some (NX_UDS_CLIENT_ERR_PARAM, Some w)
     else map_option (\<lambda>w'. (NX_UDS_CLIENT_OK, Some w')) (clt_asks (take len (the req)) False ta w))"
proof (cases "req = None \<or> len = 0 \<or> \<not> clt_idle w \<or> cc_req_buf_size (cw_cfg w) < len")
  case True
  then show ?thesis by (auto simp: nx_uds_client_request_raw_def clt_idle_def)
next
  case False
  then obtain src where src: "req = Some src" "len \<le> length src" "0 < len" using assms(2) by auto
  have x: "length (take len src) = len" "hd (take len src) = src ! 0" using src by (simp_all add: hd_conv_nth) (cases src, auto)
  have put: "clt_put_req 0 (take len src) w = Some (clt_writes (take len src) w)"
    using clt_put_req_writes[OF assms(1), of "take len src"] False x by simp
  have arm: "clt_txn_arm (clt_writes (take len src) w) (src ! 0) False ta (of_nat len) = clt_asks (take len src) False ta w"
    unfolding clt_arm_armed clt_asks_def x ..
  show ?thesis using False src put arm
    by (simp add: nx_uds_client_request_raw_def clt_idle_def mem_read_def mem_get_def) (auto simp: map_option_case split: option.splits)
qed

section \<open>Waiting, and being told\<close>

lemma clt_idle_env [simp]: "clt_idle (w\<lparr> cw_env := e \<rparr>) = clt_idle w" "clt_waiting (w\<lparr> cw_env := e \<rparr>) = clt_waiting w"
  by (simp_all add: clt_idle_def clt_waiting_def)

lemma nx_uds_client_indicate_spec:
  assumes "clt_wf w" "\<forall>src. rsp = Some src \<longrightarrow> unat len \<le> length src"
  shows "nx_uds_client_indicate report (Some w) rsp len ta link =
    (if rsp = None \<or> len = 0 \<or> link \<noteq> cc_link (cw_cfg w) then Some (NX_UDS_CLIENT_ERR_PARAM, Some w)
     else if \<not> clt_waiting w then Some (NX_UDS_CLIENT_ERR_STATE, Some w)
     else map_option (\<lambda>w'. (NX_UDS_CLIENT_OK, Some w')) (clt_judged report w (take (unat len) (the rsp))))"
proof (cases "rsp = None \<or> len = 0 \<or> link \<noteq> cc_link (cw_cfg w) \<or> \<not> clt_waiting w")
  case True
  then show ?thesis by (auto simp: nx_uds_client_indicate_def clt_waiting_def)
next
  case False
  then obtain src where src: "rsp = Some src" "unat len \<le> length src" using assms(2) by auto
  have "0 < len" using False by (simp add: word_neq_0_conv)
  note d = clt_digest_judges[OF assms(1) this src(2), of report, symmetric]
  show ?thesis
    using False src by (cases "clt_digest report w src len") (auto simp: nx_uds_client_indicate_def clt_waiting_def d)
qed

lemma nx_uds_client_confirm_spec:
  "nx_uds_client_confirm report (Some w) link r =
    (if link = cc_link (cw_cfg w) \<and> clt_waiting w \<and> r \<noteq> NX_TP_N_OK
     then map_option Some (clt_ends report NX_UDS_CLIENT_RESULT_TIMEOUT (clt_set_resp_len 0 w)) else Some (Some w))"
  by (auto simp: nx_uds_client_confirm_def clt_waiting_def clt_txn_resolve_ends map_option_case split: option.splits)

section \<open>The periodic call\<close>

text \<open>What the send path did with the request, \<open>None\<close> if it is not there; it is only asked while the request waits to be sent.\<close>

definition clt_offered :: "'e clt_world \<Rightarrow> bool \<times> 'e clt_world" where
  "clt_offered w =
     (case (cc_send_fn (cw_cfg w), ct_state (cw_txn w) = CLT_WAIT_SEND) of
        (Some f, True) \<Rightarrow>
          (let (ok, e) = f (cc_send_user (cw_cfg w)) (ct_link (cw_txn w)) (take (unat (ct_req_len (cw_txn w))) (the (cc_req_buf (cw_cfg w))))
                           (ct_ta_type (cw_txn w)) (cw_env w)
           in (ok, w\<lparr> cw_env := e \<rparr>))
      | _ \<Rightarrow> (False, w))"

text \<open>Whether a transaction is over at the time \<open>now\<close>, and how.\<close>

definition clt_due :: "u32 \<Rightarrow> bool \<Rightarrow> nx_uds_client_txn \<Rightarrow> nx_uds_client_result option" where
  "clt_due now taken t =
     (if ct_state t = CLT_CANCELED then Some NX_UDS_CLIENT_RESULT_CANCELED
      else if ct_state t = CLT_WAIT_SEND \<and> \<not> taken \<and> tick_reached now (ct_send_deadline t) then Some NX_UDS_CLIENT_RESULT_TIMEOUT
      else if ct_state t \<in> {CLT_WAIT_RSP, CLT_WAIT_P2STAR} \<and> tick_reached now (ct_deadline t)
      then Some (if ct_suppress_pos t then NX_UDS_CLIENT_RESULT_NO_RESPONSE else NX_UDS_CLIENT_RESULT_TIMEOUT)
      else None)"

definition clt_sent :: "u32 \<Rightarrow> 'e clt_world \<Rightarrow> 'e clt_world" where
  "clt_sent now = upd_clt (\<lambda>c. c\<lparr> cl_txn := (cl_txn c)\<lparr> ct_state := CLT_WAIT_RSP, ct_deadline := now + cl_p2_us c \<rparr> \<rparr>)"

lemma clt_offered_clt [simp]: "cw_clt (snd (clt_offered w)) = cw_clt w"
  by (simp add: clt_offered_def split: option.splits bool.splits prod.splits)

lemma clt_sent_wf: "clt_wf w \<Longrightarrow> clt_wf (clt_sent now w) \<and> \<not> clt_idle (clt_sent now w)"
  by (simp add: clt_wf_def clt_sent_def clt_txn_ok_def clt_idle_def)

lemma clt_now_clt: "clt_now w = Some (t, w1) \<Longrightarrow> cw_clt w1 = cw_clt w"
  by (auto simp: clt_now_def Let_def case_prod_beta' split: bind_splits)

lemma nx_uds_client_process_spec:
  assumes "clt_wf w" "clt_now w = Some (now, w1)" "clt_offered w1 = (taken, w2)"
  shows "nx_uds_client_process report (Some w) = map_option (\<lambda>w'. (NX_UDS_CLIENT_OK, Some w'))
    (case clt_due now taken (cw_txn w) of
       Some r \<Rightarrow> clt_ends report r w2
     | None \<Rightarrow> Some (if taken then clt_sent now w2 else w2))"
proof -
  have same: "cw_clt w1 = cw_clt w" "cw_clt w2 = cw_clt w"
    using clt_now_clt[OF assms(2)] arg_cong[OF assms(3), of "\<lambda>x. cw_clt (snd x)"] by simp_all
  show ?thesis
  proof (cases "ct_state (cw_txn w) = CLT_WAIT_SEND")
    case True
    obtain b where b: "cc_req_buf (cw_cfg w) = Some b" "cc_req_buf_size (cw_cfg w) \<le> length b" using assms(1) by (auto simp: clt_wf_def clt_cfg_ok_def)
    then have x: "mem_read 0 (unat (ct_req_len (cw_txn w))) b = Some (take (unat (ct_req_len (cw_txn w))) b)"
      using assms(1) by (simp add: mem_read_def clt_wf_def clt_txn_ok_def)
    have "clt_process_send report w1 now = (if taken then Some (clt_sent now w2)
        else if tick_reached now (ct_send_deadline (cw_txn w)) then clt_ends report NX_UDS_CLIENT_RESULT_TIMEOUT w2 else Some w2)"
    proof (cases "cc_send_fn (cw_cfg w)")
      case None
      then show ?thesis using assms(3) same(1)
        by (simp add: clt_process_send_def clt_offered_def clt_expired_def clt_txn_resolve_ends)
    next
      case (Some f)
      then show ?thesis using assms(3) same True b(1) x
        by (auto simp: clt_process_send_def clt_offered_def clt_expired_def clt_txn_resolve_ends clt_sent_def case_prod_beta' Let_def)
    qed
    then show ?thesis using assms(2) same(1) True
      by (auto simp: nx_uds_client_process_def clt_due_def map_option_case split: option.splits)
  next
    case False
    then have "taken = False" "w2 = w1" using assms(3) same by (auto simp: clt_offered_def split: option.splits)
    then show ?thesis using assms(1,2) same(1) False
      by (auto simp: nx_uds_client_process_def clt_due_def clt_expired_def clt_txn_resolve_ends clt_wf_def clt_txn_ok_def
          map_option_case split: option.splits)
  qed
qed

section \<open>Runs of calls\<close>

datatype 'e clt_call =
    Request u8 u8 "bytes option" nat u8 | RequestRaw "bytes option" nat u8 | Process | Indicate "bytes option" u32 u8 u8 | Confirm u8 u8
  | Cancel | SetTiming u32 u32 | SetSend "(nat \<Rightarrow> u8 \<Rightarrow> bytes \<Rightarrow> u8 \<Rightarrow> 'e \<Rightarrow> bool \<times> 'e) option" nat

fun clt_exec :: "'e clt_report \<Rightarrow> 'e clt_call \<Rightarrow> 'e clt_world \<Rightarrow> (nx_uds_client_ret \<times> 'e clt_world) option" where
  "clt_exec report (Request sid sub data len ta) w = map_option (\<lambda>(r, wp). (r, the wp)) (nx_uds_client_request (Some w) sid sub data len ta)"
| "clt_exec report (RequestRaw req len ta) w = map_option (\<lambda>(r, wp). (r, the wp)) (nx_uds_client_request_raw (Some w) req len ta)"
| "clt_exec report Process w = map_option (\<lambda>(r, wp). (r, the wp)) (nx_uds_client_process report (Some w))"
| "clt_exec report (Indicate rsp len ta link) w = map_option (\<lambda>(r, wp). (r, the wp)) (nx_uds_client_indicate report (Some w) rsp len ta link)"
| "clt_exec report (Confirm link r) w = map_option (\<lambda>wp. (NX_UDS_CLIENT_OK, the wp)) (nx_uds_client_confirm report (Some w) link r)"
| "clt_exec report Cancel w = (case nx_uds_client_cancel (Some w) of (r, wp) \<Rightarrow> Some (r, the wp))"
| "clt_exec report (SetTiming p2 p2s) w = Some (NX_UDS_CLIENT_OK, w\<lparr> cw_clt := the (nx_uds_client_set_timing (Some (cw_clt w)) p2 p2s) \<rparr>)"
| "clt_exec report (SetSend f user) w = (case nx_uds_client_set_send (Some (cw_clt w)) f user of (r, cp) \<Rightarrow> Some (r, w\<lparr> cw_clt := the cp \<rparr>))"

fun clt_starts :: "'e clt_call \<Rightarrow> bool" where
  "clt_starts (Request sid sub data len ta) = True"
| "clt_starts (RequestRaw req len ta) = True"
| "clt_starts _ = False"

text \<open>A send path that leaves the part \<open>key\<close> of the environment alone, and a client whose clock and send path do.\<close>

definition clt_send_keeps :: "('e \<Rightarrow> 'k) \<Rightarrow> (nat \<Rightarrow> u8 \<Rightarrow> bytes \<Rightarrow> u8 \<Rightarrow> 'e \<Rightarrow> bool \<times> 'e) option \<Rightarrow> bool" where
  "clt_send_keeps key fn \<longleftrightarrow> (case fn of None \<Rightarrow> True | Some f \<Rightarrow> \<forall>u l x a e. key (snd (f u l x a e)) = key e)"

definition clt_quiet :: "('e \<Rightarrow> 'k) \<Rightarrow> 'e clt_world \<Rightarrow> bool" where
  "clt_quiet key w \<longleftrightarrow> clt_send_keeps key (cc_send_fn (cw_cfg w)) \<and>
     (case cc_get_us (cw_cfg w) of None \<Rightarrow> True | Some f \<Rightarrow> \<forall>e. key (snd (f e)) = key e)"

text \<open>The memory behind a pointer is as long as the length that goes with it.\<close>

fun clt_call_ok :: "('e \<Rightarrow> 'k) \<Rightarrow> 'e clt_call \<Rightarrow> bool" where
  "clt_call_ok key (Request sid sub data len ta) = (\<forall>src. data = Some src \<longrightarrow> len \<le> length src)"
| "clt_call_ok key (RequestRaw req len ta) = (\<forall>src. req = Some src \<longrightarrow> len \<le> length src)"
| "clt_call_ok key (Indicate rsp len ta link) = (\<forall>src. rsp = Some src \<longrightarrow> unat len \<le> length src)"
| "clt_call_ok key (SetSend f user) = clt_send_keeps key f"
| "clt_call_ok key _ = True"

text \<open>What the steps leave as it is.\<close>

definition clt_as :: "('e \<Rightarrow> 'k) \<Rightarrow> 'e clt_world \<Rightarrow> 'e clt_world \<Rightarrow> bool" where
  "clt_as key w v \<longleftrightarrow> clt_wf v \<and> clt_quiet key v \<and> key (cw_env v) = key (cw_env w) \<and> cc_result_fn (cw_cfg v) = cc_result_fn (cw_cfg w)"

lemma clt_quiet_steps [simp]:
  "clt_quiet key (clt_set_resp_len n w) = clt_quiet key w" "clt_quiet key (clt_holds x w) = clt_quiet key w" "clt_quiet key (clt_writes x w) = clt_quiet key w"
  "clt_quiet key (clt_armed sid q ta k t w) = clt_quiet key w" "clt_quiet key (clt_renewed x w) = clt_quiet key w"
  "clt_quiet key (clt_extended t w) = clt_quiet key w" "clt_quiet key (clt_sent t w) = clt_quiet key w" "clt_quiet key (clt_cleared w) = clt_quiet key w"
  by (simp_all add: clt_quiet_def)
    (simp_all add: clt_set_resp_len_def clt_holds_def clt_writes_def clt_armed_def clt_extended_def clt_sent_def clt_cleared_def)

lemma clt_result_fn_steps [simp]:
  "cc_result_fn (cw_cfg (clt_set_resp_len n w)) = cc_result_fn (cw_cfg w)" "cc_result_fn (cw_cfg (clt_holds x w)) = cc_result_fn (cw_cfg w)"
  "cc_result_fn (cw_cfg (clt_writes x w)) = cc_result_fn (cw_cfg w)" "cc_result_fn (cw_cfg (clt_armed sid q ta k t w)) = cc_result_fn (cw_cfg w)"
  "cc_result_fn (cw_cfg (clt_extended t w)) = cc_result_fn (cw_cfg w)" "cc_result_fn (cw_cfg (clt_sent t w)) = cc_result_fn (cw_cfg w)"
  "cc_result_fn (cw_cfg (clt_cleared w)) = cc_result_fn (cw_cfg w)"
  by (simp_all add: clt_set_resp_len_def clt_holds_def clt_writes_def clt_armed_def clt_extended_def clt_sent_def clt_cleared_def)

lemma clt_env_steps [simp]:
  "cw_env (clt_set_resp_len n w) = cw_env w" "cw_env (clt_holds x w) = cw_env w" "cw_env (clt_writes x w) = cw_env w"
  "cw_env (clt_armed sid q ta k t w) = cw_env w" "cw_env (clt_extended t w) = cw_env w" "cw_env (clt_sent t w) = cw_env w"
  "cw_env (clt_cleared w) = cw_env w"
  by (simp_all add: clt_set_resp_len_def clt_holds_def clt_writes_def clt_armed_def clt_extended_def clt_sent_def clt_cleared_def)

lemma clt_quiet_env [simp]: "clt_quiet key (w\<lparr> cw_env := e \<rparr>) = clt_quiet key w"
  by (simp add: clt_quiet_def)

lemma clt_now_quiet: "clt_now w = Some (t, w1) \<Longrightarrow> clt_quiet key w \<Longrightarrow> clt_quiet key w1 \<and> key (cw_env w1) = key (cw_env w)"
  by (auto simp: clt_now_def clt_quiet_def Let_def case_prod_beta' split: bind_splits)

lemma clt_offered_quiet: "clt_quiet key w \<Longrightarrow> clt_quiet key (snd (clt_offered w)) \<and> key (cw_env (snd (clt_offered w))) = key (cw_env w)"
  by (auto simp: clt_offered_def clt_quiet_def clt_send_keeps_def case_prod_beta' Let_def split: option.splits bool.splits)

text \<open>Every call goes on with the client as it is, starts a request on an idle client, or ends the transaction of a busy one.\<close>

definition clt_goes_on :: "('e \<Rightarrow> 'k) \<Rightarrow> 'e clt_world \<Rightarrow> 'e clt_world \<Rightarrow> bool" where
  "clt_goes_on key w v \<longleftrightarrow> clt_as key w v \<and> clt_idle v = clt_idle w"

definition clt_begins :: "('e \<Rightarrow> 'k) \<Rightarrow> 'e clt_world \<Rightarrow> 'e clt_world \<Rightarrow> bool" where
  "clt_begins key w v \<longleftrightarrow> clt_as key w v \<and> clt_idle w \<and> \<not> clt_idle v"

definition clt_stops :: "('e \<Rightarrow> 'k) \<Rightarrow> 'e clt_report \<Rightarrow> 'e clt_world \<Rightarrow> 'e clt_world option \<Rightarrow> bool" where
  "clt_stops key report w res \<longleftrightarrow> \<not> clt_idle w \<and> (\<exists>r v. clt_as key w v \<and> res = clt_ends report r v)"

lemma clt_goes_on_self: "clt_wf w \<Longrightarrow> clt_quiet key w \<Longrightarrow> clt_goes_on key w w"
  by (simp add: clt_goes_on_def clt_as_def)

lemma clt_stops_dropped:
  assumes "clt_wf w" "clt_quiet key w" "\<not> clt_idle w"
  shows "clt_stops key report w (clt_ends report r (clt_set_resp_len 0 w))"
proof -
  have "clt_as key w (clt_set_resp_len 0 w)" using assms(2) clt_set_resp_len_wf[OF assms(1)] by (simp add: clt_as_def)
  then show ?thesis unfolding clt_stops_def using assms(3) by blast
qed

lemma clt_judged_cases:
  assumes "clt_wf w" "clt_quiet key w" "clt_waiting w"
  shows "(\<exists>v. clt_judged report w x = Some v \<and> clt_goes_on key w v) \<or> clt_stops key report w (clt_judged report w x)"
proof (cases "clt_judge (ct_sid (cw_txn w)) (clt_room w) (clt_spent w) x")
  case Unusable
  then show ?thesis using clt_stops_dropped[OF assms(1,2)] assms(3) clt_idle_not_waiting by (auto simp: clt_judged_def)
next
  case Overdue
  then show ?thesis using clt_stops_dropped[OF assms(1,2)] assms(3) clt_idle_not_waiting by (auto simp: clt_judged_def)
next
  case Refused
  then have "length x \<le> cc_rsp_buf_size (cw_cfg w)" by (auto simp: clt_judge_def clt_room_def split: if_splits)
  then have "clt_as key w (clt_holds x w)" using assms(2) clt_holds_wf[OF assms(1)] by (simp add: clt_as_def)
  then show ?thesis using Refused assms(3) clt_idle_not_waiting by (auto simp: clt_judged_def clt_stops_def)
next
  case Answered
  then have "length x \<le> cc_rsp_buf_size (cw_cfg (clt_renewed x w))" by (auto simp: clt_judge_def clt_room_def split: if_splits)
  then have "clt_as key w (clt_holds x (clt_renewed x w))"
    using assms(2) clt_holds_wf[OF clt_renewed_wf[OF assms(1)]] by (simp add: clt_as_def)
  then show ?thesis using Answered assms(3) clt_idle_not_waiting by (auto simp: clt_judged_def clt_stops_def)
next
  case Extended
  then have p: "ct_pend_count (cw_txn w) < cc_max_pending (cw_cfg w)" by (auto simp: clt_judge_def clt_spent_def split: if_splits)
  obtain t e where t: "clt_now w = Some (t, w\<lparr> cw_env := e \<rparr>)" by (rule clt_now_run[OF assms(1)])
  have "clt_wf (clt_extended t (w\<lparr> cw_env := e \<rparr>))" using p assms(1) by (intro clt_extended_wf) simp_all
  then have "clt_as key w (clt_extended t (w\<lparr> cw_env := e \<rparr>))" using clt_now_quiet[OF t assms(2)] by (simp add: clt_as_def)
  moreover have "\<not> clt_idle (clt_extended t (w\<lparr> cw_env := e \<rparr>))" by (simp add: clt_idle_def clt_extended_def)
  ultimately show ?thesis using Extended t assms(3) clt_idle_not_waiting by (auto simp: clt_judged_def clt_goes_on_def)
qed

lemma clt_process_cases:
  assumes "clt_wf w" "clt_quiet key w"
  shows "\<exists>res. nx_uds_client_process report (Some w) = map_option (\<lambda>w'. (NX_UDS_CLIENT_OK, Some w')) res \<and>
    ((\<exists>v. res = Some v \<and> clt_goes_on key w v) \<or> clt_stops key report w res)"
proof -
  obtain now e where n: "clt_now w = Some (now, w\<lparr> cw_env := e \<rparr>)" by (rule clt_now_run[OF assms(1)])
  obtain taken w2 where o: "clt_offered (w\<lparr> cw_env := e \<rparr>) = (taken, w2)" by fastforce
  have w2: "cw_clt w2 = cw_clt w" using arg_cong[OF o, of "\<lambda>x. cw_clt (snd x)"] by simp
  have q2: "clt_quiet key w2 \<and> key (cw_env w2) = key (cw_env w)"
    using clt_now_quiet[OF n assms(2)] clt_offered_quiet[of key "w\<lparr> cw_env := e \<rparr>"] by (simp add: o)
  have wf2: "clt_wf w2" using assms(1) w2 by (simp add: clt_wf_def)
  then have as2: "clt_as key w w2" using q2 w2 by (simp add: clt_as_def)
  have sent: "clt_as key w (clt_sent now w2)" "\<not> clt_idle (clt_sent now w2)" using as2 clt_sent_wf[OF wf2] by (simp_all add: clt_as_def)
  have taken: "\<not> clt_idle w" if taken using that o by (auto simp: clt_offered_def clt_idle_def split: option.splits bool.splits)
  have idle: "clt_idle w2 = clt_idle w" using w2 by (simp add: clt_idle_def)
  have stop: "\<not> clt_idle w" if "clt_due now taken (cw_txn w) = Some r" for r using that by (auto simp: clt_due_def clt_idle_def split: if_splits)
  show ?thesis unfolding nx_uds_client_process_spec[OF assms(1) n o]
  proof (intro exI conjI)
    show "(\<exists>v. (case clt_due now taken (cw_txn w) of Some r \<Rightarrow> clt_ends report r w2 | None \<Rightarrow> Some (if taken then clt_sent now w2 else w2)) = Some v
        \<and> clt_goes_on key w v) \<or>
      clt_stops key report w (case clt_due now taken (cw_txn w) of Some r \<Rightarrow> clt_ends report r w2 | None \<Rightarrow> Some (if taken then clt_sent now w2 else w2))"
      using as2 sent taken idle stop by (cases "clt_due now taken (cw_txn w)") (auto simp: clt_goes_on_def clt_stops_def)
  qed (rule refl)
qed

lemma clt_asks_cases:
  assumes "clt_wf w" "clt_quiet key w" "clt_idle w" "length x \<le> cc_req_buf_size (cw_cfg w)"
  shows "\<exists>v. clt_asks x q ta w = Some v \<and> clt_begins key w v"
proof -
  obtain e t where e: "clt_asks x q ta w = Some (clt_armed (hd x) q ta (length x) t (clt_writes x (w\<lparr> cw_env := e \<rparr>)))"
    "clt_wf (clt_armed (hd x) q ta (length x) t (clt_writes x (w\<lparr> cw_env := e \<rparr>)))" "clt_now w = Some (t, w\<lparr> cw_env := e \<rparr>)"
    by (rule clt_asks_wf[OF assms(1,4)])
  have "clt_as key w (clt_armed (hd x) q ta (length x) t (clt_writes x (w\<lparr> cw_env := e \<rparr>)))"
    using e(2) clt_now_quiet[OF e(3) assms(2)] by (simp add: clt_as_def)
  moreover have "\<not> clt_idle (clt_armed (hd x) q ta (length x) t (clt_writes x (w\<lparr> cw_env := e \<rparr>)))" by (simp add: clt_idle_def clt_armed_def)
  ultimately show ?thesis using e(1) assms(3) by (simp add: clt_begins_def)
qed

lemma clt_exec_cases:
  assumes "clt_wf w" "clt_quiet key w" "clt_call_ok key c"
  shows "(\<exists>r v. clt_exec report c w = Some (r, v) \<and>
      (if clt_starts c \<and> r = NX_UDS_CLIENT_OK then clt_begins key w v else clt_goes_on key w v)) \<or>
    (\<exists>q res. clt_exec report c w = map_option (\<lambda>w'. (q, w')) res \<and> \<not> clt_starts c \<and> clt_stops key report w res)"
proof (cases c)
  case (Request sid sub data len ta)
  let ?x = "sid # sub # take len (the data)"
  have spec: "clt_exec report c w = (if 0 < len \<and> data = None then Some (NX_UDS_CLIENT_ERR_PARAM, w) else if \<not> clt_idle w then Some (NX_UDS_CLIENT_ERR_BUSY, w)
      else if cc_req_buf_size (cw_cfg w) < len + 2 then Some (NX_UDS_CLIENT_ERR_PARAM, w)
      else map_option (\<lambda>w'. (NX_UDS_CLIENT_OK, w')) (clt_asks ?x (NX_UDS_SUPPRESSES_POS_RSP sub) ta w))"
    using nx_uds_client_request_spec[OF assms(1)] assms(3) Request by (simp add: option.map_comp comp_def)
  have "length ?x \<le> cc_req_buf_size (cw_cfg w)" if "len + 2 \<le> cc_req_buf_size (cw_cfg w)" using that by simp
  then show ?thesis using Request clt_goes_on_self[OF assms(1,2)] clt_asks_cases[OF assms(1,2), of ?x "NX_UDS_SUPPRESSES_POS_RSP sub" ta]
    unfolding spec by (auto simp: not_less split: if_splits)
next
  case (RequestRaw req len ta)
  have spec: "clt_exec report c w = (if req = None \<or> len = 0 then Some (NX_UDS_CLIENT_ERR_PARAM, w) else if \<not> clt_idle w then Some (NX_UDS_CLIENT_ERR_BUSY, w)
      else if cc_req_buf_size (cw_cfg w) < len then Some (NX_UDS_CLIENT_ERR_PARAM, w)
      else map_option (\<lambda>w'. (NX_UDS_CLIENT_OK, w')) (clt_asks (take len (the req)) False ta w))"
    using nx_uds_client_request_raw_spec[OF assms(1)] assms(3) RequestRaw by (simp add: option.map_comp comp_def)
  show ?thesis using RequestRaw clt_goes_on_self[OF assms(1,2)] clt_asks_cases[OF assms(1,2), of "take len (the req)" False ta]
    unfolding spec by (auto simp: not_less split: if_splits)
next
  case Process
  obtain res where "nx_uds_client_process report (Some w) = map_option (\<lambda>w'. (NX_UDS_CLIENT_OK, Some w')) res"
    "(\<exists>v. res = Some v \<and> clt_goes_on key w v) \<or> clt_stops key report w res" using clt_process_cases[OF assms(1,2)] by blast
  then show ?thesis using Process by (auto simp: option.map_comp comp_def)
next
  case (Indicate rsp len ta link)
  then show ?thesis using assms(3) clt_goes_on_self[OF assms(1,2)] clt_judged_cases[OF assms(1,2), of report "take (unat len) (the rsp)"]
    by (auto simp: nx_uds_client_indicate_spec[OF assms(1)] option.map_comp comp_def)
next
  case (Confirm link r)
  then show ?thesis using clt_goes_on_self[OF assms(1,2)] clt_stops_dropped[OF assms(1,2)] clt_idle_not_waiting
    by (fastforce simp: nx_uds_client_confirm_spec option.map_comp comp_def)
next
  case Cancel
  have "clt_goes_on key w (upd_clt (\<lambda>c. c\<lparr> cl_txn := (cl_txn c)\<lparr> ct_state := CLT_CANCELED \<rparr> \<rparr>) w)" if "\<not> clt_idle w"
    using that assms(1,2) by (simp add: clt_goes_on_def clt_as_def clt_wf_def clt_quiet_def clt_txn_ok_def clt_idle_def)
  then show ?thesis using Cancel clt_goes_on_self[OF assms(1,2)] by (auto simp: nx_uds_client_cancel_def clt_idle_def)
next
  case (SetTiming a b)
  then show ?thesis using assms(1,2)
    by (simp add: nx_uds_client_set_timing_def clt_goes_on_def clt_as_def clt_wf_def clt_quiet_def clt_txn_ok_def clt_idle_def clt_cfg_ok_def)
next
  case (SetSend f u)
  then show ?thesis using assms
    by (auto simp: nx_uds_client_set_send_def clt_goes_on_def clt_as_def clt_wf_def clt_quiet_def clt_txn_ok_def clt_idle_def clt_cfg_ok_def)
qed

lemma clt_exec_wf:
  assumes "clt_report_ok report" "clt_wf w" "clt_call_ok (\<lambda>_. ()) c"
  shows "\<exists>r w'. clt_exec report c w = Some (r, w') \<and> clt_wf w'"
proof -
  have "clt_quiet (\<lambda>_. ()) w" by (simp add: clt_quiet_def clt_send_keeps_def split: option.split)
  from clt_exec_cases[OF assms(2) this assms(3), of report] show ?thesis
  proof (elim disjE exE conjE)
    fix r v assume "clt_exec report c w = Some (r, v)"
      "if clt_starts c \<and> r = NX_UDS_CLIENT_OK then clt_begins (\<lambda>_. ()) w v else clt_goes_on (\<lambda>_. ()) w v"
    then show ?thesis by (auto simp: clt_begins_def clt_goes_on_def clt_as_def split: if_splits)
  next
    fix q res assume run: "clt_exec report c w = map_option (\<lambda>w'. (q, w')) res" "clt_stops (\<lambda>_. ()) report w res"
    then obtain r v where v: "clt_wf v" "res = clt_ends report r v" by (auto simp: clt_stops_def clt_as_def)
    obtain w' where "clt_ends report r v = Some w'" "clt_wf w'" by (rule clt_ends_wf[OF assms(1) v(1)])
    then show ?thesis using run(1) v(2) by simp
  qed
qed

section \<open>Requests and reports come in pairs\<close>

text \<open>
  The report callback keeps two counts in the environment, \<open>books\<close>: how often it was called, and how many requests it started itself. Clock and
  send path leave them alone.
\<close>

definition clt_booked :: "('e \<Rightarrow> nat \<times> nat) \<Rightarrow> 'e clt_world \<Rightarrow> bool" where
  "clt_booked books w \<longleftrightarrow> clt_wf w \<and> cc_result_fn (cw_cfg w) \<noteq> 0 \<and> clt_quiet books w"

abbreviation clt_open :: "'e clt_world \<Rightarrow> nat" where "clt_open w \<equiv> (if clt_idle w then 0 else 1)"

definition clt_report_counts :: "('e \<Rightarrow> nat \<times> nat) \<Rightarrow> 'e clt_report \<Rightarrow> bool" where
  "clt_report_counts books report \<longleftrightarrow>
     (\<forall>f u r w. clt_booked books w \<longrightarrow> clt_idle w \<longrightarrow>
        (\<exists>w'. report f u r w = Some w' \<and> clt_booked books w' \<and>
              books (cw_env w') = (fst (books (cw_env w)) + 1, snd (books (cw_env w)) + clt_open w')))"

fun clt_accepted :: "'e clt_call list \<Rightarrow> nx_uds_client_ret list \<Rightarrow> nat" where
  "clt_accepted (c # cs) (r # rs) = (if clt_starts c \<and> r = NX_UDS_CLIENT_OK then 1 else 0) + clt_accepted cs rs"
| "clt_accepted _ _ = 0"

lemma clt_booked_cleared:
  assumes "clt_booked books x"
  shows "clt_booked books (clt_cleared x)" "clt_idle (clt_cleared x)"
  using assms clt_cleared_wf[of x] by (simp_all add: clt_booked_def)

lemma clt_exec_counts:
  assumes "clt_report_counts books report" "clt_booked books w" "clt_call_ok books c"
  shows "\<exists>r w'. clt_exec report c w = Some (r, w') \<and> clt_booked books w' \<and>
    (if clt_starts c \<and> r = NX_UDS_CLIENT_OK then 1 else 0) + clt_open w + snd (books (cw_env w')) + fst (books (cw_env w)) =
    fst (books (cw_env w')) + snd (books (cw_env w)) + clt_open w'"
proof -
  have w: "clt_wf w" "clt_quiet books w" "cc_result_fn (cw_cfg w) \<noteq> 0" using assms(2) by (simp_all add: clt_booked_def)
  have v: "clt_booked books v \<and> books (cw_env v) = books (cw_env w)" if "clt_as books w v" for v
    using that w(3) by (simp add: clt_as_def clt_booked_def)
  from clt_exec_cases[OF w(1,2) assms(3), of report] show ?thesis
  proof (elim disjE exE conjE)
    fix r v assume run: "clt_exec report c w = Some (r, v)"
      "if clt_starts c \<and> r = NX_UDS_CLIENT_OK then clt_begins books w v else clt_goes_on books w v"
    then have "clt_as books w v" by (cases "clt_starts c \<and> r = NX_UDS_CLIENT_OK") (simp_all add: clt_begins_def clt_goes_on_def)
    note v = v[OF this]
    have "(if clt_starts c \<and> r = NX_UDS_CLIENT_OK then 1 else 0) + clt_open w = clt_open v"
      using run(2) by (cases "clt_starts c \<and> r = NX_UDS_CLIENT_OK") (simp_all add: clt_begins_def clt_goes_on_def)
    then show ?thesis using run(1) v by (intro exI[of _ r] exI[of _ v] conjI) simp_all
  next
    fix q res assume run: "clt_exec report c w = map_option (\<lambda>w'. (q, w')) res" "\<not> clt_starts c" "clt_stops books report w res"
    then obtain r x where x: "clt_as books w x" "res = clt_ends report r x" "\<not> clt_idle w" by (auto simp: clt_stops_def)
    have fn: "cc_result_fn (cw_cfg x) \<noteq> 0" using v[OF x(1)] by (simp add: clt_booked_def)
    have "\<exists>w'. report (cc_result_fn (cw_cfg x)) (cc_result_user (cw_cfg x)) r (clt_cleared x) = Some w' \<and> clt_booked books w' \<and>
        books (cw_env w') = (fst (books (cw_env (clt_cleared x))) + 1, snd (books (cw_env (clt_cleared x))) + clt_open w')"
      using assms(1) clt_booked_cleared v[OF x(1)] unfolding clt_report_counts_def by blast
    then obtain w' where "clt_ends report r x = Some w'" "clt_booked books w'"
      "books (cw_env w') = (fst (books (cw_env w)) + 1, snd (books (cw_env w)) + clt_open w')"
      using fn v[OF x(1)] by (auto simp: clt_ends_def)
    then show ?thesis using run x by (intro exI[of _ q] exI[of _ w']) simp
  qed
qed

end
