(* ===== verification/Nx_Uds_Client_Clock.thy ===== *)
theory Nx_Uds_Client_Clock
  imports Nx_Uds_Client_Runs
begin

text \<open>
  How long a transaction of the diagnostic client can last. The clock of the environment is the low word of a time that does not wrap, and the
  client is polled at least every \<open>d\<close> ticks; in between, responses, confirmations and cancellations may arrive as they like.
\<close>

section \<open>Time and its low word\<close>

lemma tick_reached_nat:
  assumes "n < m + 2 ^ 31" "m < n + 2 ^ 31"
  shows "tick_reached (of_nat n) (of_nat m) \<longleftrightarrow> m \<le> n"
proof -
  have e: "of_nat n - of_nat m = (word_of_int (int n - int m) :: u32)" by simp
  have "- (2 ^ 31) \<le> int n - int m" "int n - int m < 2 ^ 31" using assms by simp_all
  then have "sint (word_of_int (int n - int m) :: u32) = int n - int m"
    by (simp add: signed_of_int signed_take_bit_int_eq_self del: of_int_diff)
  then have "sint (of_nat n - of_nat m :: u32) = int n - int m" by (simp only: e)
  then show ?thesis by (simp add: tick_reached_def tick_diff_def)
qed

lemma unat_inc_less:
  assumes "(x :: u8) < y"
  shows "unat (x + 1) = unat x + 1"
proof -
  have "unat y < 256" by simp
  then have "unat x + 1 < 256" using assms unfolding word_less_nat_alt by linarith
  then have "unat (of_nat (unat x + 1) :: u8) = unat x + 1" by (simp only: unsigned_of_nat) (simp add: take_bit_nat_eq_self)
  then show ?thesis by (simp add: add.commute)
qed

text \<open>The clock reads the time, and neither it nor the send path takes any; the callback keeps its notes and returns.\<close>

definition clt_clocked :: "('e \<Rightarrow> nat) \<Rightarrow> 'e clt_world \<Rightarrow> bool" where
  "clt_clocked time w \<longleftrightarrow>
     (\<exists>f. cc_get_us (cw_cfg w) = Some f \<and> (\<forall>e. fst (f e) = of_nat (time e) \<and> time (snd (f e)) = time e)) \<and>
     (case cc_send_fn (cw_cfg w) of None \<Rightarrow> True | Some f \<Rightarrow> \<forall>u l x a e. time (snd (f u l x a e)) = time e)"

definition clt_report_notes :: "('e \<Rightarrow> nat) \<Rightarrow> 'e clt_report \<Rightarrow> bool" where
  "clt_report_notes time report \<longleftrightarrow>
     (\<forall>f u r w. clt_idle w \<longrightarrow> (\<exists>e. report f u r w = Some (w\<lparr> cw_env := e \<rparr>) \<and> time e = time (cw_env w)))"

definition clt_hears :: "'e clt_call \<Rightarrow> bool" where
  "clt_hears c \<longleftrightarrow> (case c of Indicate rsp len ta link \<Rightarrow> True | Confirm link r \<Rightarrow> True | Cancel \<Rightarrow> True | _ \<Rightarrow> False)"

text \<open>The states from \<open>w0\<close> on, with the time of the last poll.\<close>

inductive clt_pursued :: "'e clt_report \<Rightarrow> ('e \<Rightarrow> nat) \<Rightarrow> nat \<Rightarrow> 'e clt_world \<Rightarrow> nat \<Rightarrow> 'e clt_world \<Rightarrow> bool"
  for report :: "'e clt_report" and time :: "'e \<Rightarrow> nat" and d :: nat and w0 :: "'e clt_world" where
  start: "clt_pursued report time d w0 (time (cw_env w0)) w0"
| pass: "clt_pursued report time d w0 p w \<Longrightarrow> time (cw_env w) \<le> time e \<Longrightarrow> time e \<le> p + d \<Longrightarrow>
    clt_pursued report time d w0 p (w\<lparr> cw_env := e \<rparr>)"
| hear: "clt_pursued report time d w0 p w \<Longrightarrow> clt_hears c \<Longrightarrow> clt_call_ok (\<lambda>_. ()) c \<Longrightarrow> clt_exec report c w = Some (r, w') \<Longrightarrow>
    clt_pursued report time d w0 p w'"
| poll: "clt_pursued report time d w0 p w \<Longrightarrow> clt_exec report Process w = Some (r, w') \<Longrightarrow>
    clt_pursued report time d w0 (time (cw_env w')) w'"

section \<open>The latest end\<close>

text \<open>The windows are ones the wrapping clock can measure.\<close>

definition clt_windows_ok :: "nat \<Rightarrow> 'e clt_world \<Rightarrow> bool" where
  "clt_windows_ok d w \<longleftrightarrow> d < 2 ^ 31 \<and> 0 < cc_send_timeout_us (cw_cfg w) \<and> unat (cc_send_timeout_us (cw_cfg w)) < 2 ^ 31 \<and>
     0 < cl_p2_us (cw_clt w) \<and> unat (cl_p2_us (cw_clt w)) < 2 ^ 31 \<and>
     0 < cl_p2_star_us (cw_clt w) \<and> unat (cl_p2_star_us (cw_clt w)) < 2 ^ 31"

text \<open>When the wait for the response ends at the latest, after \<open>n\<close> extensions of a request accepted at \<open>t\<close>.\<close>

definition clt_latest :: "nat \<Rightarrow> nat \<Rightarrow> 'e clt_world \<Rightarrow> nat \<Rightarrow> nat" where
  "clt_latest d t w n = t + unat (cc_send_timeout_us (cw_cfg w)) + unat (cl_p2_us (cw_clt w)) + d + n * (d + unat (cl_p2_star_us (cw_clt w)))"

lemma clt_latest_mono: "n \<le> m \<Longrightarrow> clt_latest d t w n \<le> clt_latest d t w m"
  by (simp add: clt_latest_def)

text \<open>
  While it is under way, the transaction has a moment \<open>m\<close> after the last poll at which the next poll would end it, not later than the bound.
\<close>

definition clt_moment :: "nat \<Rightarrow> nat \<Rightarrow> nat \<Rightarrow> nat \<Rightarrow> 'e clt_world \<Rightarrow> nat \<Rightarrow> bool" where
  "clt_moment d t p now w m \<longleftrightarrow> p < m \<and> m < now + 2 ^ 31 \<and> m \<le> clt_latest d t w (unat (ct_pend_count (cw_txn w))) \<and>
     (ct_state (cw_txn w) = CLT_WAIT_SEND \<longrightarrow> ct_send_deadline (cw_txn w) = of_nat m \<and> m = t + unat (cc_send_timeout_us (cw_cfg w))) \<and>
     (clt_waiting w \<longrightarrow> ct_deadline (cw_txn w) = of_nat m)"

definition clt_same_windows :: "'e clt_world \<Rightarrow> 'e clt_world \<Rightarrow> bool" where
  "clt_same_windows w0 w \<longleftrightarrow> cc_send_timeout_us (cw_cfg w) = cc_send_timeout_us (cw_cfg w0) \<and> cc_max_pending (cw_cfg w) = cc_max_pending (cw_cfg w0) \<and>
     cl_p2_us (cw_clt w) = cl_p2_us (cw_clt w0) \<and> cl_p2_star_us (cw_clt w) = cl_p2_star_us (cw_clt w0)"

definition clt_pace :: "('e \<Rightarrow> nat) \<Rightarrow> nat \<Rightarrow> 'e clt_world \<Rightarrow> nat \<Rightarrow> 'e clt_world \<Rightarrow> bool" where
  "clt_pace time d w0 p w \<longleftrightarrow> clt_wf w \<and> clt_clocked time w \<and> p \<le> time (cw_env w) \<and> time (cw_env w) \<le> p + d \<and>
     (clt_idle w \<or> clt_same_windows w0 w \<and> (\<exists>m. clt_moment d (time (cw_env w0)) p (time (cw_env w)) w m))"

lemma clt_now_time:
  assumes "clt_clocked time w"
  obtains e where "clt_now w = Some (of_nat (time (cw_env w)), w\<lparr> cw_env := e \<rparr>)" "time e = time (cw_env w)"
proof -
  obtain f where f: "cc_get_us (cw_cfg w) = Some f" "\<And>e. fst (f e) = of_nat (time e) \<and> time (snd (f e)) = time e"
    using assms by (auto simp: clt_clocked_def)
  then show ?thesis using that[of "snd (f (cw_env w))"] by (simp add: clt_now_def Let_def case_prod_beta')
qed

lemma clt_clocked_env [simp]: "clt_clocked time (w\<lparr> cw_env := e \<rparr>) = clt_clocked time w"
  by (simp add: clt_clocked_def)

lemma clt_clocked_steps [simp]:
  "clt_clocked time (clt_set_resp_len n w) = clt_clocked time w" "clt_clocked time (clt_holds x w) = clt_clocked time w"
  "clt_clocked time (clt_renewed x w) = clt_clocked time w" "clt_clocked time (clt_extended t w) = clt_clocked time w"
  "clt_clocked time (clt_sent t w) = clt_clocked time w" "clt_clocked time (clt_cleared w) = clt_clocked time w"
  by (simp_all add: clt_clocked_def)
    (simp_all add: clt_set_resp_len_def clt_holds_def clt_extended_def clt_sent_def clt_cleared_def)

text \<open>When a transaction ends, the client is idle afterwards.\<close>

lemma clt_ends_pace:
  assumes "clt_report_notes time report" "clt_wf v" "clt_clocked time v" "p \<le> time (cw_env v)" "time (cw_env v) \<le> p + d"
    "clt_ends report r v = Some w'"
  shows "clt_pace time d w0 p w' \<and> clt_idle w' \<and> time (cw_env w') = time (cw_env v)"
proof -
  have c: "clt_wf (clt_cleared v)" "clt_idle (clt_cleared v)" using clt_cleared_wf[OF assms(2)] by simp_all
  have kept: "\<exists>e. report f u r (clt_cleared v) = Some ((clt_cleared v)\<lparr> cw_env := e \<rparr>) \<and> time e = time (cw_env (clt_cleared v))" for f u
    using assms(1) c(2) unfolding clt_report_notes_def by blast
  have "\<exists>e. w' = (clt_cleared v)\<lparr> cw_env := e \<rparr> \<and> time e = time (cw_env v)"
  proof (cases "cc_result_fn (cw_cfg v) = 0")
    case True
    then show ?thesis using assms(6) by (intro exI[of _ "cw_env v"]) (cases v, auto simp: clt_ends_def clt_cleared_def upd_clt_def)
  next
    case False
    then show ?thesis using assms(6) kept[of "cc_result_fn (cw_cfg v)" "cc_result_user (cw_cfg v)"] by (auto simp: clt_ends_def)
  qed
  then obtain e where "w' = (clt_cleared v)\<lparr> cw_env := e \<rparr>" "time e = time (cw_env v)" by blast
  then show ?thesis using c assms(3-5) by (simp add: clt_pace_def)
qed

lemma clt_poll_pace:
  assumes "clt_report_notes time report" "clt_windows_ok d w0" "clt_pace time d w0 p w" "clt_exec report Process w = Some (r, w')"
  shows "clt_pace time d w0 (time (cw_env w')) w'"
proof -
  let ?now = "time (cw_env w)" and ?t = "time (cw_env w0)"
  have w: "clt_wf w" "clt_clocked time w" "p \<le> ?now" "?now \<le> p + d" using assms(3) by (simp_all add: clt_pace_def)
  obtain e where e: "clt_now w = Some (of_nat ?now, w\<lparr> cw_env := e \<rparr>)" "time e = ?now" by (rule clt_now_time[OF w(2)])
  obtain taken w2 where o: "clt_offered (w\<lparr> cw_env := e \<rparr>) = (taken, w2)" by fastforce
  have w2: "cw_clt w2 = cw_clt w" using arg_cong[OF o, of "\<lambda>x. cw_clt (snd x)"] by simp
  have t2: "time (cw_env w2) = ?now"
    using o w(2) e(2) by (auto simp: clt_offered_def clt_clocked_def Let_def case_prod_beta' split: option.splits bool.splits)
  have wf2: "clt_wf w2" "clt_clocked time w2" using w(1,2) w2 by (simp_all add: clt_wf_def clt_clocked_def)
  have run: "Some w' = (case clt_due (of_nat ?now) taken (cw_txn w) of Some r \<Rightarrow> clt_ends report r w2 | None \<Rightarrow> Some (if taken then clt_sent (of_nat ?now) w2 else w2))"
    using assms(4) nx_uds_client_process_spec[OF w(1) e(1) o, of report] by (auto simp: map_option_case split: option.splits)
  show ?thesis
  proof (cases "clt_due (of_nat ?now) taken (cw_txn w)")
    case (Some r')
    then have "clt_ends report r' w2 = Some w'" using run by simp
    from clt_ends_pace[OF assms(1) wf2 _ _ this, of ?now d w0] show ?thesis by (simp add: t2)
  next
    case None
    then have w': "w' = (if taken then clt_sent (of_nat ?now) w2 else w2)" using run by simp
    show ?thesis
    proof (cases "clt_idle w")
      case True
      then have "\<not> taken" "clt_idle w2" using o w2 by (auto simp: clt_offered_def clt_idle_def split: option.splits)
      then show ?thesis using w' wf2 by (simp add: clt_pace_def)
    next
      case False
      then obtain m where same: "clt_same_windows w0 w" and m: "clt_moment d ?t p ?now w m" using assms(3) by (auto simp: clt_pace_def)
      have win: "clt_windows_ok d w" using assms(2) same by (simp add: clt_windows_ok_def clt_same_windows_def)
      have near: "?now < m + 2 ^ 31" "m < ?now + 2 ^ 31" using m w(4) win by (auto simp: clt_moment_def clt_windows_ok_def)
      note reached = tick_reached_nat[OF near]
      show ?thesis
      proof (cases taken)
        case True
        then have s: "ct_state (cw_txn w) = CLT_WAIT_SEND" using o by (auto simp: clt_offered_def split: option.splits bool.splits)
        let ?m = "?now + unat (cl_p2_us (cw_clt w))"
        have "?now \<le> ?t + unat (cc_send_timeout_us (cw_cfg w)) + d" using m s w(4) by (simp add: clt_moment_def)
        then have "clt_moment d ?t ?now ?now w' ?m"
          using True w' w2 win by (simp add: clt_moment_def clt_sent_def clt_waiting_def clt_windows_ok_def clt_latest_def unat_gt_0 word_gt_0)
        moreover have "clt_same_windows w0 w'" using same True w' w2 by (simp add: clt_same_windows_def clt_sent_def)
        ultimately show ?thesis using True w' wf2 clt_sent_wf[OF wf2(1)] by (auto simp: clt_pace_def t2)
      next
        case nt: False
        have "ct_state (cw_txn w) \<noteq> CLT_CANCELED" using None by (auto simp: clt_due_def)
        then have "ct_state (cw_txn w) = CLT_WAIT_SEND \<or> clt_waiting w" using w(1) False by (auto simp: clt_wf_def clt_txn_ok_def clt_idle_def clt_waiting_def)
        then have "?now < m" using None nt m reached by (auto simp: clt_due_def clt_moment_def clt_waiting_def not_le split: if_splits)
        then have "clt_moment d ?t ?now ?now w2 m" using m w2 by (simp add: clt_moment_def clt_waiting_def clt_latest_def)
        moreover have "clt_same_windows w0 w2" using same w2 by (simp add: clt_same_windows_def)
        ultimately show ?thesis using nt w' wf2 by (auto simp: clt_pace_def t2)
      qed
    qed
  qed
qed

lemma clt_judged_pace:
  assumes "clt_report_notes time report" "clt_windows_ok d w0" "clt_pace time d w0 p w" "clt_waiting w" "clt_judged report w x = Some w'"
  shows "clt_pace time d w0 p w'"
proof -
  let ?now = "time (cw_env w)" and ?t = "time (cw_env w0)"
  have w: "clt_wf w" "clt_clocked time w" "p \<le> ?now" "?now \<le> p + d" "\<not> clt_idle w"
    using assms(3,4) clt_idle_not_waiting by (auto simp: clt_pace_def)
  note ends = clt_ends_pace[OF assms(1), of _ p d]
  show ?thesis
  proof (cases "clt_judge (ct_sid (cw_txn w)) (clt_room w) (clt_spent w) x")
    case Unusable
    then show ?thesis using assms(5) ends[OF clt_set_resp_len_wf[OF w(1)]] w(2-4) by (simp add: clt_judged_def)
  next
    case Overdue
    then show ?thesis using assms(5) ends[OF clt_set_resp_len_wf[OF w(1)]] w(2-4) by (simp add: clt_judged_def)
  next
    case Refused
    then have "length x \<le> cc_rsp_buf_size (cw_cfg w)" by (auto simp: clt_judge_def clt_room_def split: if_splits)
    from ends[OF clt_holds_wf[OF w(1) this]] show ?thesis using Refused assms(5) w(2-4) by (simp add: clt_judged_def)
  next
    case Answered
    then have "length x \<le> cc_rsp_buf_size (cw_cfg (clt_renewed x w))" by (auto simp: clt_judge_def clt_room_def split: if_splits)
    from ends[OF clt_holds_wf[OF clt_renewed_wf[OF w(1)] this]] show ?thesis using Answered assms(5) w(2-4) by (simp add: clt_judged_def)
  next
    case Extended
    then have n: "ct_pend_count (cw_txn w) < cc_max_pending (cw_cfg w)" by (auto simp: clt_judge_def clt_spent_def split: if_splits)
    obtain e where e: "clt_now w = Some (of_nat ?now, w\<lparr> cw_env := e \<rparr>)" "time e = ?now" by (rule clt_now_time[OF w(2)])
    have w': "w' = clt_extended (of_nat ?now) (w\<lparr> cw_env := e \<rparr>)" using assms(5) Extended e(1) by (simp add: clt_judged_def)
    have wf': "clt_wf w'" unfolding w' using n w(1) by (intro clt_extended_wf) simp_all
    obtain m where same: "clt_same_windows w0 w" and m: "clt_moment d ?t p ?now w m" using assms(3) w(5) by (auto simp: clt_pace_def)
    have win: "clt_windows_ok d w" using assms(2) same by (simp add: clt_windows_ok_def clt_same_windows_def)
    have c: "unat (ct_pend_count (cw_txn w) + 1) = unat (ct_pend_count (cw_txn w)) + 1" by (rule unat_inc_less[OF n])
    let ?m = "?now + unat (cl_p2_star_us (cw_clt w))"
    have "0 < unat (cl_p2_star_us (cw_clt w))" using win by (simp add: clt_windows_ok_def word_gt_0 unat_gt_0)
    then have pos: "p < ?now + unat (cl_p2_star_us (cw_clt w))" using w(3) by linarith
    have "?now < m + d" using m w(4) by (simp add: clt_moment_def)
    then have "clt_moment d ?t p ?now w' ?m" using m win w(3) c pos
      by (simp add: w' clt_moment_def clt_extended_def clt_waiting_def clt_windows_ok_def clt_latest_def word_gt_0 unat_gt_0)
    moreover have "clt_same_windows w0 w'" using same by (simp add: w' clt_same_windows_def clt_extended_def)
    ultimately show ?thesis using wf' w(2-4) e(2) by (auto simp: clt_pace_def w')
  qed
qed

lemma clt_hear_pace:
  assumes "clt_report_notes time report" "clt_windows_ok d w0" "clt_pace time d w0 p w" "clt_hears c" "clt_call_ok (\<lambda>_. ()) c"
    "clt_exec report c w = Some (r, w')"
  shows "clt_pace time d w0 p w'"
proof -
  have w: "clt_wf w" "clt_clocked time w" "p \<le> time (cw_env w)" "time (cw_env w) \<le> p + d" using assms(3) by (simp_all add: clt_pace_def)
  show ?thesis
  proof (cases c)
    case (Indicate rsp len ta link)
    then show ?thesis using assms(3,5,6) clt_judged_pace[OF assms(1-3)]
      by (auto simp: nx_uds_client_indicate_spec[OF w(1)] split: if_splits)
  next
    case (Confirm link r')
    show ?thesis
    proof (cases "link = cc_link (cw_cfg w) \<and> clt_waiting w \<and> r' \<noteq> NX_TP_N_OK")
      case True
      then have "clt_ends report NX_UDS_CLIENT_RESULT_TIMEOUT (clt_set_resp_len 0 w) = Some w'"
        using assms(6) Confirm by (auto simp: nx_uds_client_confirm_spec)
      from clt_ends_pace[OF assms(1) clt_set_resp_len_wf[OF w(1)] _ _ _ this] show ?thesis using w by simp
    next
      case False
      then show ?thesis using assms(3,6) Confirm by (auto simp: nx_uds_client_confirm_spec)
    qed
  next
    case Cancel
    let ?w = "upd_clt (\<lambda>c. c\<lparr> cl_txn := (cl_txn c)\<lparr> ct_state := CLT_CANCELED \<rparr> \<rparr>) w"
    have "clt_pace time d w0 p ?w" if "\<not> clt_idle w"
      using that assms(3) by (auto simp: clt_pace_def clt_wf_def clt_txn_ok_def clt_clocked_def clt_same_windows_def clt_moment_def clt_waiting_def
          clt_latest_def clt_idle_def)
    then show ?thesis using assms(3,6) Cancel by (auto simp: nx_uds_client_cancel_def clt_idle_def split: if_splits)
  qed (use assms(4) in \<open>simp_all add: clt_hears_def\<close>)
qed

lemma clt_pursued_pace:
  assumes "clt_pursued report time d w0 p w" "clt_report_notes time report" "clt_windows_ok d w0" "clt_pace time d w0 (time (cw_env w0)) w0"
  shows "clt_pace time d w0 p w"
  using assms(1)
proof induction
  case start
  show ?case by (rule assms(4))
next
  case (pass p w e)
  have m: "clt_moment d t p (time e) (w\<lparr> cw_env := e \<rparr>) m" if "clt_moment d t p (time (cw_env w)) w m" for t m
    using that pass.hyps(2) by (simp add: clt_moment_def clt_latest_def)
  have same: "clt_same_windows w0 (w\<lparr> cw_env := e \<rparr>) = clt_same_windows w0 w" by (simp add: clt_same_windows_def)
  have "clt_idle w \<or> clt_same_windows w0 w \<and> (\<exists>m. clt_moment d (time (cw_env w0)) p (time e) (w\<lparr> cw_env := e \<rparr>) m)"
    using pass.IH m unfolding clt_pace_def by blast
  then show ?case using pass.IH pass.hyps(2,3) by (simp add: clt_pace_def same)
next
  case (hear p w c r w')
  show ?case by (rule clt_hear_pace[OF assms(2,3) hear.IH hear.hyps(2-4)])
next
  case (poll p w r w')
  show ?case by (rule clt_poll_pace[OF assms(2,3) poll.IH poll.hyps(2)])
qed

text \<open>The state right after a request was accepted.\<close>

lemma clt_accepted_pace:
  assumes "clt_wf w" "clt_clocked time w" "clt_call_ok (\<lambda>_. ()) c" "clt_starts c" "clt_exec report c w = Some (NX_UDS_CLIENT_OK, w0)"
    "clt_windows_ok d w0"
  shows "clt_pace time d w0 (time (cw_env w0)) w0"
proof -
  have "\<exists>x q ta. clt_asks x q ta w = Some w0 \<and> length x \<le> cc_req_buf_size (cw_cfg w)"
  proof (cases c)
    case (Request sid sub data len ta)
    then show ?thesis using assms(3,5)
      by (intro exI[of _ "sid # sub # take len (the data)"] exI[of _ "NX_UDS_SUPPRESSES_POS_RSP sub"] exI[of _ ta])
        (auto simp: nx_uds_client_request_spec[OF assms(1)] not_less split: if_splits)
  next
    case (RequestRaw req len ta)
    then show ?thesis using assms(3,5)
      by (intro exI[of _ "take len (the req)"] exI[of _ False] exI[of _ ta])
        (auto simp: nx_uds_client_request_raw_spec[OF assms(1)] not_less split: if_splits)
  qed (use assms(4) in simp_all)
  then obtain x q ta where x: "clt_asks x q ta w = Some w0" "length x \<le> cc_req_buf_size (cw_cfg w)" by blast
  obtain e where e: "clt_now w = Some (of_nat (time (cw_env w)), w\<lparr> cw_env := e \<rparr>)" "time e = time (cw_env w)"
    by (rule clt_now_time[OF assms(2)])
  have w0: "w0 = clt_armed (hd x) q ta (length x) (of_nat (time e)) (clt_writes x (w\<lparr> cw_env := e \<rparr>))" using x(1) e by (simp add: clt_asks_def)
  have wf: "clt_wf w0" unfolding w0
    using clt_armed_wf[OF clt_writes_wf[of "w\<lparr> cw_env := e \<rparr>" x], of "length x"] assms(1) x(2) by (simp add: clt_writes_def)
  have "clt_clocked time w0" using assms(2) by (simp add: w0 clt_clocked_def clt_armed_def clt_writes_def)
  moreover have "cw_env w0 = e" by (simp add: w0 clt_armed_def clt_writes_def)
  moreover have "clt_moment d (time e) (time e) (time e) w0 (time e + unat (cc_send_timeout_us (cw_cfg w0)))"
    using assms(6) by (simp add: clt_moment_def clt_windows_ok_def clt_latest_def word_gt_0 unat_gt_0)
      (simp add: w0 clt_armed_def clt_writes_def clt_waiting_def)
  ultimately show ?thesis using wf by (auto simp: clt_pace_def clt_same_windows_def)
qed

end
