(* ===== verification/Nx_Uds_Asked.thy ===== *)
theory Nx_Uds_Asked
  imports Nx_Uds_Client_Clock Nx_Uds_Served
begin

text \<open>
  The properties of the diagnostic client, alone and with the server's session service, and a concrete client on which they are evaluated.
\<close>

section \<open>Properties\<close>

lemma clt_init_wf:
  assumes "nx_uds_client_init (Some c0) (Some cfg) = (NX_UDS_CLIENT_OK, Some clt)"
    "\<forall>b. cc_req_buf cfg = Some b \<longrightarrow> cc_req_buf_size cfg \<le> length b" "\<forall>b. cc_rsp_buf cfg = Some b \<longrightarrow> cc_rsp_buf_size cfg \<le> length b"
  shows "clt_wf \<lparr> cw_clt = clt, cw_env = e \<rparr> \<and> clt_idle \<lparr> cw_clt = clt, cw_env = e \<rparr>"
proof -
  have v: "clt_cfg_valid cfg" and c: "clt = \<lparr> cl_cfg = clt_cfg_defaults cfg, cl_txn = clt_txn_zero, cl_resp_len = 0,
      cl_p2_us = cc_p2_us (clt_cfg_defaults cfg), cl_p2_star_us = cc_p2_star_us (clt_cfg_defaults cfg), cl_session = NX_UDS_SESSION_DEFAULT \<rparr>"
    using assms(1) by (auto simp: nx_uds_client_init_def Let_def split: if_splits)
  have "clt_cfg_ok (clt_cfg_defaults cfg)" using v assms(2,3) by (auto simp: clt_cfg_ok_def clt_cfg_valid_def clt_cfg_defaults_def)
  then show ?thesis by (simp add: clt_wf_def c clt_txn_ok_def clt_idle_def) (simp add: clt_txn_zero_def)
qed

lemma clt_run_wf:
  assumes "clt_report_ok report" "clt_wf w" "list_all (clt_call_ok (\<lambda>_. ())) cs"
  shows "\<exists>rs w'. run_ops (clt_exec report) cs w = Some (rs, w') \<and> clt_wf w'"
  using assms(2,3)
proof (induction cs arbitrary: w)
  case (Cons c cs)
  then obtain r w1 where w1: "clt_exec report c w = Some (r, w1)" "clt_wf w1" using clt_exec_wf[OF assms(1), of w c] by auto
  with Cons obtain rs w' where "run_ops (clt_exec report) cs w1 = Some (rs, w')" "clt_wf w'" by fastforce
  then show ?case using w1(1) by simp
qed simp

text \<open>
  C28: a client that \<open>nx_uds_client_init\<close> accepted stays well-formed under every sequence of calls of the module, with responses and
  confirmations of any kind among them, and every call is defined: no access leaves a buffer. The callback that hears how a request ended
  may do what it likes to the client as long as it leaves it in order.
\<close>

theorem nx_uds_client_stays_wellformed:
  assumes "nx_uds_client_init (Some c0) (Some cfg) = (NX_UDS_CLIENT_OK, Some clt)"
    "\<forall>b. cc_req_buf cfg = Some b \<longrightarrow> cc_req_buf_size cfg \<le> length b" "\<forall>b. cc_rsp_buf cfg = Some b \<longrightarrow> cc_rsp_buf_size cfg \<le> length b"
    "clt_report_ok report" "list_all (clt_call_ok (\<lambda>_. ())) cs"
  shows "\<exists>rs w'. run_ops (clt_exec report) cs \<lparr> cw_clt = clt, cw_env = e \<rparr> = Some (rs, w') \<and> clt_wf w'"
  using clt_run_wf[OF assms(4) _ assms(5)] clt_init_wf[OF assms(1-3)] by blast

text \<open>
  C25: every request that was accepted, from outside or by the callback, is reported exactly once: in every run of calls, the accepted
  requests are as many as the reports and the one that is still under way, if the client is busy.
\<close>

theorem nx_uds_client_reports_each_request:
  assumes "clt_report_counts books report" "clt_booked books w" "list_all (clt_call_ok books) cs"
  shows "\<exists>rs w'. run_ops (clt_exec report) cs w = Some (rs, w') \<and> length rs = length cs \<and>
    clt_accepted cs rs + clt_open w + snd (books (cw_env w')) + fst (books (cw_env w)) =
    fst (books (cw_env w')) + snd (books (cw_env w)) + clt_open w'"
  using assms(2,3)
proof (induction cs arbitrary: w)
  case (Cons c cs)
  then obtain r w1 where w1: "clt_exec report c w = Some (r, w1)" "clt_booked books w1"
    "(if clt_starts c \<and> r = NX_UDS_CLIENT_OK then 1 else 0) + clt_open w + snd (books (cw_env w1)) + fst (books (cw_env w)) =
     fst (books (cw_env w1)) + snd (books (cw_env w)) + clt_open w1"
    using clt_exec_counts[OF assms(1), of w c] by auto
  have "list_all (clt_call_ok books) cs" using Cons.prems(2) by simp
  from Cons.IH[OF w1(2) this] obtain rs w' where "run_ops (clt_exec report) cs w1 = Some (rs, w')" "length rs = length cs"
    "clt_accepted cs rs + clt_open w1 + snd (books (cw_env w')) + fst (books (cw_env w1)) =
     fst (books (cw_env w')) + snd (books (cw_env w1)) + clt_open w'"
    by blast
  then show ?case using w1(1,3) by (intro exI[of _ "r # rs"] exI[of _ w']) simp
qed simp

text \<open>
  C24: a response is judged by its bytes alone. A client that waits for the answer to a service takes a negative response of that service as
  its answer, unless it says that the answer is still coming: then the client waits another window, as often as configured, and gives up after that.
  A positive response of that service is the answer, and one to a session request brings session and windows. Anything else, and what does not
  fit the buffer, ends the request as a protocol error. A client that waits for nothing, or a response on another link, is not touched.
\<close>

theorem nx_uds_client_indicate_judges:
  assumes "clt_wf w" "unat len \<le> length src" "len \<noteq> 0"
  shows "nx_uds_client_indicate report (Some w) (Some src) len ta link =
    (if link \<noteq> cc_link (cw_cfg w) then Some (NX_UDS_CLIENT_ERR_PARAM, Some w)
     else if \<not> clt_waiting w then Some (NX_UDS_CLIENT_ERR_STATE, Some w)
     else map_option (\<lambda>w'. (NX_UDS_CLIENT_OK, Some w')) (clt_judged report w (take (unat len) src)))"
  using assms by (simp add: nx_uds_client_indicate_spec)

text \<open>
  C26: an accepted request ends in bounded time. As long as the client is polled at least every \<open>d\<close> ticks it cannot still be busy
  with the request once the time for sending, one window and all the extensions the configuration tolerates have passed, with \<open>d\<close> for each
  of them, whatever responses, confirmations and cancellations arrive in between and even while the clock wraps around.
\<close>

theorem nx_uds_client_ends_in_time:
  assumes "clt_wf w" "clt_clocked time w" "clt_starts c" "clt_call_ok (\<lambda>_. ()) c" "clt_exec report c w = Some (NX_UDS_CLIENT_OK, w0)"
    "clt_windows_ok d w0" "clt_report_notes time report" "clt_pursued report time d w0 p v" "\<not> clt_idle v"
  shows "time (cw_env v) < clt_latest d (time (cw_env w0)) w0 (unat (cc_max_pending (cw_cfg w0))) + d"
proof -
  have "clt_pace time d w0 (time (cw_env w0)) w0" by (rule clt_accepted_pace[OF assms(1,2,4,3,5,6)])
  from clt_pursued_pace[OF assms(8,7,6) this] assms(9) obtain m where v: "clt_wf v" "time (cw_env v) \<le> p + d" "clt_same_windows w0 v"
    "clt_moment d (time (cw_env w0)) p (time (cw_env v)) v m" by (auto simp: clt_pace_def)
  have "unat (ct_pend_count (cw_txn v)) \<le> unat (cc_max_pending (cw_cfg w0))"
    using v(1,3) by (simp add: clt_wf_def clt_txn_ok_def clt_same_windows_def word_le_nat_alt)
  from clt_latest_mono[OF this, of d "time (cw_env w0)" v] have "m \<le> clt_latest d (time (cw_env w0)) v (unat (cc_max_pending (cw_cfg w0)))"
    using v(4) by (simp add: clt_moment_def)
  then show ?thesis using v by (simp add: clt_moment_def clt_latest_def clt_same_windows_def)
qed

section \<open>The session service of the server and the client\<close>

lemma window_of_counts: "unat (clt_window unit (ucast (drop_bit 8 n)) (ucast n)) = unat (n :: u16) * unit" if "unit \<le> 10000"
proof -
  have bytes: "256 * unat (ucast (drop_bit 8 n) :: u8) + unat (ucast n :: u8) = unat n"
  proof -
    have "unat n div 256 < 256" using unsigned_less[of n, where ?'a = nat] by simp
    then have "unat (ucast (drop_bit 8 n) :: u8) = unat n div 256"
      by (simp add: unsigned_ucast_eq take_bit_nat_eq_self unat_div drop_bit_eq_div)
    moreover have "unat (ucast n :: u8) = unat n mod 256" by (simp add: unsigned_ucast_eq take_bit_eq_mod)
    ultimately show ?thesis by simp
  qed
  have "unat n * unit < 2 ^ 32"
  proof -
    have "unat n * unit \<le> 65535 * 10000" using that unsigned_less[of n, where ?'a = nat] by (intro mult_le_mono) simp_all
    then show ?thesis by simp
  qed
  then have "take_bit 32 (unat n * unit) = unat n * unit" by (rule take_bit_nat_eq_self)
  then show ?thesis by (simp only: clt_window_def bytes unsigned_of_nat) simp
qed

text \<open>A window of the server as the client has it after the answer: rounded up to the unit, and no more than the field of the answer holds.\<close>

definition window_heard :: "nat \<Rightarrow> u32 \<Rightarrow> nat" where
  "window_heard unit us = min 65535 ((unat us + unit - 1) div unit) * unit"

lemma window_published:
  assumes "0 < unit" "unit \<le> 10000" "unat us + unit \<le> 2 ^ 32"
  shows "unat (clt_window unit (ucast (drop_bit 8 (svc_window_counts us (of_nat unit)))) (ucast (svc_window_counts us (of_nat unit)))) = window_heard unit us"
proof -
  have u: "unat (of_nat unit :: u32) = unit" using assms(2) by (simp add: unsigned_of_nat take_bit_nat_eq_self)
  then have "(of_nat unit :: u32) \<noteq> 0" using assms(1) by (metis less_irrefl unsigned_0)
  with svc_window_counts_rounds_up[of "of_nat unit" us] show ?thesis using assms(3) by (simp add: window_of_counts assms(2) window_heard_def u)
qed

lemma window_heard_bounds:
  assumes "0 < unit" "0 < us"
  shows "unat us \<le> 65535 * unit \<longrightarrow> unat us \<le> window_heard unit us" "window_heard unit us < unat us + unit"
proof -
  let ?q = "(unat us + unit - 1) div unit"
  have "?q * unit \<le> unat us + unit - 1" by (rule div_times_less_eq_dividend)
  moreover have "0 < unat us" using assms(2) by (simp add: word_less_nat_alt)
  ultimately have q: "?q * unit < unat us + unit" using assms(1) by linarith
  moreover have "min 65535 ?q * unit \<le> ?q * unit" by simp
  ultimately show "window_heard unit us < unat us + unit" unfolding window_heard_def by linarith
  have "unat us \<le> ?q * unit"
  proof -
    have "unat us + unit - 1 = ?q * unit + (unat us + unit - 1) mod unit" by simp
    moreover have "(unat us + unit - 1) mod unit < unit" using assms(1) by simp
    ultimately show ?thesis by linarith
  qed
  then show "unat us \<le> 65535 * unit \<longrightarrow> unat us \<le> window_heard unit us" by (simp add: window_heard_def min_def)
qed

text \<open>
  C27: a client follows the server into the session. When the session service of the server accepts a request, the client that gets its answer
  reports success with exactly these bytes and is in the session the server was asked for. A client of fixed timing keeps its own two windows; any
  other waits from then on the windows of the server rounded up to the unit they are published in, but never more than the 65535 units the field
  holds: at least as long as a server allows itself whose window fits the field, and always less than one unit longer. (Windows so
  long that the rounding wraps in 32 bits are not covered.)
\<close>

theorem client_follows_server_session:
  assumes "nx_uds_svc_session_control user s = Some (NX_UDS_DISPOSITION_DONE, s')" "cx_phase (uw_ctx s) = NX_UDS_PHASE_REQUEST"
    "uc_out_buf (uw_cfg s) = Some out" "out ! 0 = 0x50" "0 < uc_p2_us (uw_cfg s)" "0 < uc_p2_star_us (uw_cfg s)"
    "unat (uc_p2_us (uw_cfg s)) + 1000 \<le> 2 ^ 32" "unat (uc_p2_star_us (uw_cfg s)) + 10000 \<le> 2 ^ 32"
    "clt_wf w" "clt_waiting w" "ct_sid (cw_txn w) = 0x10" "6 \<le> cc_rsp_buf_size (cw_cfg w)"
  shows "\<exists>out' v. uc_out_buf (uw_cfg s') = Some out' \<and>
    nx_uds_client_indicate report (Some w) (Some out') (cx_out_len (uw_ctx s')) ta (cc_link (cw_cfg w)) =
      map_option (\<lambda>w'. (NX_UDS_CLIENT_OK, Some w')) (clt_ends report NX_UDS_CLIENT_RESULT_OK v) \<and>
    (\<exists>b. cc_rsp_buf (cw_cfg v) = Some b \<and> take 6 b = take 6 out') \<and> cl_resp_len (cw_clt v) = cx_out_len (uw_ctx s') \<and>
    cl_session (cw_clt v) = cx_sub (uw_ctx s) \<and>
    (if cc_fixed_timing (cw_cfg w) then cl_p2_us (cw_clt v) = cl_p2_us (cw_clt w) \<and> cl_p2_star_us (cw_clt v) = cl_p2_star_us (cw_clt w)
     else unat (cl_p2_us (cw_clt v)) = window_heard 1000 (uc_p2_us (uw_cfg s)) \<and>
          unat (cl_p2_star_us (cw_clt v)) = window_heard 10000 (uc_p2_star_us (uw_cfg s)) \<and>
          (unat (uc_p2_us (uw_cfg s)) \<le> 65535 * 1000 \<longrightarrow> uc_p2_us (uw_cfg s) \<le> cl_p2_us (cw_clt v)) \<and>
          (unat (uc_p2_star_us (uw_cfg s)) \<le> 65535 * 10000 \<longrightarrow> uc_p2_star_us (uw_cfg s) \<le> cl_p2_star_us (cw_clt v)) \<and>
          unat (cl_p2_us (cw_clt v)) < unat (uc_p2_us (uw_cfg s)) + 1000 \<and>
          unat (cl_p2_star_us (cw_clt v)) < unat (uc_p2_star_us (uw_cfg s)) + 10000)"
proof -
  let ?a = "svc_window_counts (uc_p2_us (uw_cfg s)) 1000" and ?b = "svc_window_counts (uc_p2_star_us (uw_cfg s)) 10000"
  obtain out' where out: "uc_out_buf (uw_cfg s') = Some out'" "6 \<le> length out'" "cx_out_len (uw_ctx s') = 6"
    "take 6 out' = [0x50, cx_sub (uw_ctx s), ucast (drop_bit 8 ?a), ucast ?a, ucast (drop_bit 8 ?b), ucast ?b]"
    using session_answer[OF assms(1-3)] assms(4) by metis
  let ?x = "take 6 out'"
  define v where "v = clt_holds ?x (clt_renewed ?x w)"
  have "clt_judge 0x10 (clt_room w) (clt_spent w) ?x = Answered" using assms(12) by (simp add: out(4) clt_judge_def clt_room_def)
  then have "clt_judged report w ?x = clt_ends report NX_UDS_CLIENT_RESULT_OK v" using assms(11) by (simp add: clt_judged_def v_def)
  then have run: "nx_uds_client_indicate report (Some w) (Some out') 6 ta (cc_link (cw_cfg w)) =
      map_option (\<lambda>w'. (NX_UDS_CLIENT_OK, Some w')) (clt_ends report NX_UDS_CLIENT_RESULT_OK v)"
    using out(2) assms(10) nx_uds_client_indicate_spec[OF assms(9), of "Some out'" 6] by simp
  have clt: "cl_session (cw_clt v) = cx_sub (uw_ctx s)" "cl_resp_len (cw_clt v) = 6"
    "cl_p2_us (cw_clt v) = (if cc_fixed_timing (cw_cfg w) then cl_p2_us (cw_clt w) else clt_window 1000 (ucast (drop_bit 8 ?a)) (ucast ?a))"
    "cl_p2_star_us (cw_clt v) = (if cc_fixed_timing (cw_cfg w) then cl_p2_star_us (cw_clt w) else clt_window 10000 (ucast (drop_bit 8 ?b)) (ucast ?b))"
    using assms(11) by (simp_all add: v_def clt_holds_def clt_renewed_def out(4))
  obtain b where "cc_rsp_buf (cw_cfg w) = Some b" using assms(9) by (auto simp: clt_wf_def clt_cfg_ok_def)
  then have buf: "\<exists>b. cc_rsp_buf (cw_cfg v) = Some b \<and> take 6 b = ?x" using out(2) by (simp add: v_def clt_holds_def)
  show ?thesis
    using out(1,3) run buf clt window_published[of 1000 "uc_p2_us (uw_cfg s)"] window_published[of 10000 "uc_p2_star_us (uw_cfg s)"]
      window_heard_bounds[of 1000 "uc_p2_us (uw_cfg s)"] window_heard_bounds[of 10000 "uc_p2_star_us (uw_cfg s)"] assms(5-8)
    by (intro exI[of _ out'] exI[of _ v]) (simp add: word_le_nat_alt)
qed

section \<open>Witnesses\<close>

text \<open>
  A client whose requests are taken at once and whose callback counts; the environment is the time and that count.
\<close>

definition ask_demo_cfg :: "(nat \<times> nat) nx_uds_client_cfg" where
  "ask_demo_cfg = \<lparr> cc_result_fn = 1, cc_result_user = 0, cc_send_fn = Some (\<lambda>_ _ _ _ e. (True, e)), cc_send_user = 0,
     cc_req_buf = Some (replicate 8 0), cc_req_buf_size = 8, cc_rsp_buf = Some (replicate 8 0), cc_rsp_buf_size = 8, cc_link = 0,
     cc_get_us = Some (\<lambda>e. (of_nat (fst e), e)), cc_p2_us = 50000, cc_p2_star_us = 5000000, cc_send_timeout_us = 1000000,
     cc_max_pending = 2, cc_fixed_timing = False \<rparr>"

definition ask_demo_clt :: "(nat \<times> nat) nx_uds_client" where
  "ask_demo_clt = \<lparr> cl_cfg = ask_demo_cfg, cl_txn = clt_txn_zero, cl_resp_len = 0, cl_p2_us = 50000, cl_p2_star_us = 5000000, cl_session = 1 \<rparr>"

definition ask_demo_report :: "(nat \<times> nat) clt_report" where
  "ask_demo_report f u r w = Some (w\<lparr> cw_env := (fst (cw_env w), snd (cw_env w) + 1) \<rparr>)"

text \<open>One that waits for the answer to the service \<open>sid\<close>.\<close>

definition ask_demo_waiting :: "u8 \<Rightarrow> (nat \<times> nat) clt_world" where
  "ask_demo_waiting sid = \<lparr> cw_clt = ask_demo_clt\<lparr> cl_txn := clt_txn_zero\<lparr> ct_state := CLT_WAIT_RSP, ct_sid := sid, ct_deadline := 50000 \<rparr> \<rparr>,
     cw_env = (0, 0) \<rparr>"

abbreviation ask_demo :: "(nat \<times> nat) clt_world" where "ask_demo \<equiv> \<lparr> cw_clt = ask_demo_clt, cw_env = (0, 0) \<rparr>"

definition ask_demo_calls :: "(nat \<times> nat) clt_call list" where
  "ask_demo_calls = [Request 0x10 3 None 0 0, Process, Indicate (Some [0x50, 3, 0, 50, 1, 0xF4]) 6 0 0, RequestRaw (Some [0x3E, 0]) 2 0]"

lemma ask_demo_init: "nx_uds_client_init (Some ask_demo_clt) (Some ask_demo_cfg) = (NX_UDS_CLIENT_OK, Some ask_demo_clt)"
  by (simp add: nx_uds_client_init_def clt_cfg_valid_def clt_cfg_defaults_def ask_demo_clt_def ask_demo_cfg_def)

lemma ask_demo_wf: "clt_wf ask_demo" "clt_idle ask_demo"
  using clt_init_wf[OF ask_demo_init, of "(0, 0)"] by (simp_all add: ask_demo_cfg_def)

lemma ask_demo_report_ok: "clt_report_ok ask_demo_report"
  by (simp add: clt_report_ok_def ask_demo_report_def)

lemma ask_demo_calls_ok: "list_all (clt_call_ok J) ask_demo_calls"
  by (simp add: ask_demo_calls_def)

theorem nx_uds_client_stays_wellformed_witness:
  "\<exists>rs w'. run_ops (clt_exec ask_demo_report) ask_demo_calls ask_demo = Some (rs, w') \<and> clt_wf w'"
  using nx_uds_client_stays_wellformed[OF ask_demo_init _ _ ask_demo_report_ok ask_demo_calls_ok] by (simp add: ask_demo_cfg_def)

lemma ask_demo_counts: "clt_report_counts (\<lambda>e. (snd e, 0)) ask_demo_report"
  by (simp add: clt_report_counts_def ask_demo_report_def clt_booked_def)

lemma ask_demo_booked: "clt_booked (\<lambda>e. (snd e, 0)) ask_demo"
  using ask_demo_wf by (simp add: clt_booked_def clt_quiet_def clt_send_keeps_def) (simp add: ask_demo_clt_def ask_demo_cfg_def)

theorem nx_uds_client_reports_each_request_witness:
  "\<exists>rs w'. run_ops (clt_exec ask_demo_report) ask_demo_calls ask_demo = Some (rs, w') \<and>
     clt_accepted ask_demo_calls rs = snd (cw_env w') + clt_open w'"
proof -
  obtain rs w' where "run_ops (clt_exec ask_demo_report) ask_demo_calls ask_demo = Some (rs, w')"
    "clt_accepted ask_demo_calls rs = snd (cw_env w') + clt_open w'"
    using nx_uds_client_reports_each_request[OF ask_demo_counts ask_demo_booked ask_demo_calls_ok] ask_demo_wf(2) by auto
  then show ?thesis by blast
qed

lemma ask_demo_waiting_wf: "clt_wf (ask_demo_waiting sid)" "clt_waiting (ask_demo_waiting sid)"
  by (simp_all add: clt_wf_def clt_cfg_ok_def clt_txn_ok_def clt_waiting_def ask_demo_waiting_def)
    (simp_all add: ask_demo_clt_def ask_demo_cfg_def clt_txn_zero_def)

theorem nx_uds_client_indicate_judges_witness:
  "\<exists>w'. nx_uds_client_indicate ask_demo_report (Some (ask_demo_waiting 0x22)) (Some [0x7F, 0x22, 0x31]) 3 0 0 = Some (NX_UDS_CLIENT_OK, Some w') \<and>
     clt_idle w' \<and> cl_resp_len (cw_clt w') = 3"
proof -
  have j: "clt_judge 0x22 8 b [0x7F, 0x22, 0x31] = Refused" for b by (simp add: clt_judge_def)
  have f: "cc_link (cw_cfg (ask_demo_waiting 0x22)) = 0" "clt_room (ask_demo_waiting 0x22) = 8" "ct_sid (cw_txn (ask_demo_waiting 0x22)) = 0x22"
    "cc_result_fn (cw_cfg (ask_demo_waiting 0x22)) = 1"
    by (simp_all add: ask_demo_waiting_def clt_room_def) (simp_all add: ask_demo_clt_def ask_demo_cfg_def)
  show ?thesis
    using nx_uds_client_indicate_judges[where w = "ask_demo_waiting 0x22" and len = 3 and src = "[0x7F, 0x22, 0x31]" and report = ask_demo_report and ta = 0 and link = 0]
    ask_demo_waiting_wf[of "0x22"]
    by (simp add: f j clt_judged_def clt_ends_def ask_demo_report_def clt_idle_def clt_cleared_def) (simp add: clt_holds_def)
qed

lemma ask_demo_asks:
  "clt_exec ask_demo_report (RequestRaw (Some [0x3E, 0]) 2 0) ask_demo =
     Some (NX_UDS_CLIENT_OK, clt_armed 0x3E False 0 2 0 (clt_writes [0x3E, 0] ask_demo))"
proof -
  have "cc_req_buf_size (cw_cfg ask_demo) = 8" "clt_now ask_demo = Some (0, ask_demo)"
    by (simp_all add: clt_now_def ask_demo_clt_def ask_demo_cfg_def)
  then show ?thesis using nx_uds_client_request_raw_spec[OF ask_demo_wf(1), of "Some [0x3E, 0]" 2 0] ask_demo_wf(2)
    by (simp add: clt_asks_def numeral_2_eq_2)
qed

theorem nx_uds_client_ends_in_time_witness:
  "\<exists>w0. clt_exec ask_demo_report (RequestRaw (Some [0x3E, 0]) 2 0) ask_demo = Some (NX_UDS_CLIENT_OK, w0) \<and>
     clt_pursued ask_demo_report fst 10000 w0 0 (w0\<lparr> cw_env := (10000, 0) \<rparr>) \<and> \<not> clt_idle (w0\<lparr> cw_env := (10000, 0) \<rparr>) \<and>
     fst (cw_env (w0\<lparr> cw_env := (10000, 0) \<rparr>)) < 11090000"
proof -
  let ?w = "clt_armed 0x3E False 0 2 0 (clt_writes [0x3E, 0] ask_demo)"
  let ?v = "?w\<lparr> cw_env := (10000, 0) \<rparr>"
  have w: "cw_env ?w = (0, 0)" "cc_send_timeout_us (cw_cfg ?w) = 1000000" "cl_p2_us (cw_clt ?w) = 50000" "cl_p2_star_us (cw_clt ?w) = 5000000"
    "cc_max_pending (cw_cfg ?w) = 2" "\<not> clt_idle ?v"
    by (simp_all add: clt_idle_def clt_armed_def clt_writes_def) (simp_all add: ask_demo_clt_def ask_demo_cfg_def)
  have clock: "clt_clocked fst ask_demo" by (simp add: clt_clocked_def ask_demo_clt_def ask_demo_cfg_def)
  have kept: "clt_report_notes fst ask_demo_report" by (auto simp: clt_report_notes_def ask_demo_report_def)
  have win: "clt_windows_ok 10000 ?w" by (simp add: clt_windows_ok_def w)
  have "clt_pursued ask_demo_report fst 10000 ?w 0 ?w" using clt_pursued.start[of ask_demo_report fst 10000 ?w] by (simp add: w)
  then have p: "clt_pursued ask_demo_report fst 10000 ?w 0 ?v" by (rule clt_pursued.pass) (simp_all add: w)
  show ?thesis
    using nx_uds_client_ends_in_time[OF ask_demo_wf(1) clock _ _ ask_demo_asks win kept p w(6)] ask_demo_asks p w(6)
    by (intro exI[of _ ?w]) (simp add: w clt_latest_def)
qed

theorem client_follows_server_session_witness:
  "\<exists>s' out' w'. nx_uds_svc_session_control 1 \<lparr> uw_srv = diag_server\<lparr> us_cfg := diag_cfg\<lparr> uc_out_buf := Some [0x50, 0, 0, 0, 0, 0, 0, 0] \<rparr>,
       us_txn := diag_txn TXN_RUNNING 0 (diag_ctx 0x10 3 2 1) \<rparr>, uw_env = diag_env \<rparr> = Some (NX_UDS_DISPOSITION_DONE, s') \<and>
     uc_out_buf (uw_cfg s') = Some out' \<and>
     nx_uds_client_indicate ask_demo_report (Some (ask_demo_waiting 0x10)) (Some out') 6 0 0 = Some (NX_UDS_CLIENT_OK, Some w') \<and>
     cl_session (cw_clt w') = 3"
proof -
  let ?out = "[0x50, 0, 0, 0, 0, 0, 0, 0] :: bytes"
  let ?s = "\<lparr> uw_srv = diag_server\<lparr> us_cfg := diag_cfg\<lparr> uc_out_buf := Some ?out \<rparr>, us_txn := diag_txn TXN_RUNNING 0 (diag_ctx 0x10 3 2 1) \<rparr>,
    uw_env = diag_env \<rparr>"
  have f: "cx_phase (uw_ctx ?s) = NX_UDS_PHASE_REQUEST" "cx_sub (uw_ctx ?s) = 3" "cx_out_cap (uw_ctx ?s) = 8" "uc_out_buf (uw_cfg ?s) = Some ?out"
    "uc_p2_us (uw_cfg ?s) = 50000" "uc_p2_star_us (uw_cfg ?s) = 5000000"
    by (simp_all add: diag_txn_def diag_ctx_def uds_txn_zero_def uds_ctx_zero_def) (simp_all add: diag_cfg_def)
  obtain s' where s': "nx_uds_svc_session_control 1 ?s = Some (NX_UDS_DISPOSITION_DONE, s')"
    using f by (simp add: nx_uds_svc_session_control_def session_control_request_def diag_env_def NX_UDS_SESSION_IN_RANGE_def
        nx_uds_server_timing_def put_out_def mem_write_def svc_done_def upd_app_def)
  have g: "cc_link (cw_cfg (ask_demo_waiting 0x10)) = 0" "ct_sid (cw_txn (ask_demo_waiting 0x10)) = 0x10" "6 \<le> cc_rsp_buf_size (cw_cfg (ask_demo_waiting 0x10))"
    "\<not> cc_fixed_timing (cw_cfg (ask_demo_waiting 0x10))"
    by (simp_all add: ask_demo_waiting_def) (simp_all add: ask_demo_clt_def ask_demo_cfg_def)
  have len: "cx_out_len (uw_ctx s') = 6" using session_answer[OF s' f(1,4)] by blast
  obtain out' v where v: "uc_out_buf (uw_cfg s') = Some out'" "cl_session (cw_clt v) = 3"
    "nx_uds_client_indicate ask_demo_report (Some (ask_demo_waiting 0x10)) (Some out') 6 0 0 =
       map_option (\<lambda>w'. (NX_UDS_CLIENT_OK, Some w')) (clt_ends ask_demo_report NX_UDS_CLIENT_RESULT_OK v)"
    using client_follows_server_session[OF s' f(1,4) _ _ _ _ _ ask_demo_waiting_wf g(2,3), of ask_demo_report 0] f(2,5,6) g(1) len by auto
  moreover obtain w' where "clt_ends ask_demo_report NX_UDS_CLIENT_RESULT_OK v = Some w'" "cl_session (cw_clt w') = cl_session (cw_clt v)"
    by (cases "cc_result_fn (cw_cfg v) = 0") (simp_all add: clt_ends_def ask_demo_report_def clt_cleared_def)
  ultimately show ?thesis using s' by auto
qed

end
