(* ===== verification/Spec2Isabelle.thy ===== *)
theory Spec2Isabelle
  imports Nx_Bytes Nx_Can_Bus Nx_Crc Nx_Modbus_Rtu Nx_Queue Nx_Ringbuf Nx_Lock Nx_Mem_Pool
    Nx_Ref_Msg Nx_Event_Flags Nx_Log Nx_Isotp_Contract Nx_Modbus_Exchanged Nx_Sha256 Nx_Timer
    Nx_Uds_Served Nx_Uds_Moved Nx_Uds_Asked
begin

text \<open>
  A verification development for nx-c-util, a C library of utilities for embedded systems.

  The program. \<open>src/src/core\<close> holds the containers and services without protocol knowledge: byte access, intrusive lists, queues of
  fixed-size elements, ring buffers, locks supplied by the caller, event flags, timers, a log, a tiered pool of fixed-size blocks and
  reference-counted messages that live in such a pool and travel through queues. \<open>src/src/algo\<close> holds CRC and SHA-256.
  \<open>src/src/middleware\<close> holds the protocols: ISO-TP (ISO 15765-2) over CAN, which cuts messages into frames and puts them together
  again and keeps its messages in reference-counted blocks; a Modbus RTU slave, a Modbus RTU master and the frame helpers both use; and a
  diagnostic server (UDS, ISO 14229) with its standard services and the client that talks to it. There are no threads in the library: every module has a periodic
  \<open>process\<close> function and entry points that the application calls, and a lock where interrupts share its state.

  How code becomes definitions. Each C function is one definition of the same name; parts of a long one have names of their own, and the
  long one is composed of them in the order of the source. A struct is a record with the fields of the source, an enumeration a datatype,
  a \<open>uintN_t\<close> a word of that width, so that arithmetic wraps as in C; \<open>size_t\<close> is a \<open>nat\<close> below \<open>2 ^ 64\<close> with the wrap-around
  written out where the code can reach it. Memory is lists of bytes read and written through \<open>mem_read\<close>, \<open>mem_get\<close> and \<open>mem_write\<close>
  of Nx_Prelude, which are \<open>None\<close> outside the memory: a \<open>None\<close> result of a definition is undefined behaviour in the code, and a theorem
  that a call gives \<open>Some\<close> includes memory safety. A pointer that may be NULL is an option. Callbacks, clocks, locks and drivers are
  parameters: functions on an environment \<open>'e\<close> that the theorems quantify over.

  Theories, in the order of their imports:

  Nx_Prelude: types, memory, ticks that wrap, arithmetic of words, collections of facts.

  Nx_Bytes (core/nx_bytes.h), Nx_Can_Bus (middleware/nx_can_bus.h), Nx_Crc (algo/nx_crc.c), Nx_Sha256 (algo/nx_sha256.c): round trips
  of the getters and setters, DLC rounding, equality of the CRC with a shift register and of the streamed digest with a definition of
  FIPS 180-4 of its own, for inputs cut in any way.

  Nx_Lock, Nx_Queue, Nx_Ringbuf, Nx_List, Nx_Event_Flags, Nx_Timer, Nx_Log (the core modules of these names): each has its invariant,
  the behaviour of every operation, and a refinement: runs of operations return what a bounded list, a byte stream, a list, a set return.
  The locale \<open>simulation\<close> of Nx_Prelude says that a concrete machine answers every run as an abstract one and is interpreted on event
  flags, queue and ring buffer; \<open>reject_fifo\<close>, \<open>block_pool\<close> and \<open>message_bus\<close> are what clients rely on of the queue, of the pool
  and of the messages ISO-TP keeps, interpreted on the models. The
  timer's pass is a partial function, because it need not return where callbacks restart their timers with no delay; it returns where they do not.

  Nx_Mem_Pool (core/nx_tiered_mem_pool.c) and Nx_Ref_Msg (core/nx_ref_msg.c): the pool never hands out a live block and
  releases exactly live ones; the number of references of a message is the number of holders and queue entries, and a message lives as
  long as there is one. Nx_Msg_Bus and Nx_Tp_Sdu are what ISO-TP uses of them: messages as values and the SDU at their start.

  Nx_Can_Isotp is the model of middleware/nx_can_isotp.c. Nx_Isotp is its invariant, Nx_Isotp_Frames the coding of frames, Nx_Isotp_Rx
  and Nx_Isotp_Tx what receiving and sending keep, Nx_Isotp_Roundtrip that what the sender cuts the receiver puts together, Nx_Demo_Bus a
  concrete bus for the witnesses, and Nx_Isotp_Contract the properties.

  Nx_Modbus_Rtu (middleware/nx_modbus_rtu.c) and Nx_Modbus_Slave (middleware/nx_modbus_rtu_slave.c) are the models of the frame helpers and of
  the slave. Nx_Modbus_Cut says once what cutting a byte stream into frames is: the locale \<open>framing\<close> asks of a judge of the buffer's
  head that later bytes do not change its verdict, and shows that the frames do not depend on how the bytes arrive; the locale
  \<open>slicing\<close> asks of a reception loop that it follows the judge, and shows that it serves exactly those frames. Nx_Fan_Out is the
  delivery of one frame to several queues, once for both dispatch loops; Nx_Vacancy says when the pool has a block for a reply, from its
  tiers alone and so independently of the calls that ask it. Nx_Modbus_Framing interprets the two locales on the slave;
  Nx_Modbus_Dispatch shows that its dispatch routes as the protocol says; Nx_Modbus_Contract describes the half-duplex line apart from the
  code of either end (\<open>line_heard\<close>, \<open>line_free\<close> and the definitions beside them: when an activity is noted and when the driver is given a
  frame) and has the slave's invariant; Nx_Modbus_Served has its properties.

  Nx_Modbus_Master is the model of middleware/nx_modbus_rtu_master.c. Nx_Modbus_Answers interprets \<open>framing\<close> and \<open>slicing\<close> on it
  and shows which subscribers a response goes to; Nx_Modbus_Requests is an abstract syntax of the requests and replies of the protocol
  with their frames; Nx_Modbus_Polling is the invariant of the master and what one polling pass does, Nx_Modbus_Exchanged the
  properties, among them that the slave takes the requests of the master as they were meant and the master the replies of the slave.

  Nx_Uds_Server is the model of middleware/nx_uds_server.c with what it uses of nx_uds.h, Nx_Uds_Services that of nx_uds_svc_session.c and
  nx_uds_svc_sec.c. A handler is a function of an address, the pointer it gets, and the world of server and environment, so that it may
  call back into the server. Nx_Uds_Contract states what a handler owes as the locale \<open>uds_handlers\<close> and the invariant of the server;
  Nx_Uds_Steps shows inside it that every operation keeps the invariant; Nx_Uds_Indicate that a request is judged as an abstract
  verdict over the service table says; Nx_Uds_Timing that no transaction outlives its limit. Nx_Uds_Standard and Nx_Uds_Diag show
  that the services of the library keep the contract whatever the product's own handlers do within it (\<open>sublocale\<close>), Nx_Uds_Lock
  what SecurityAccess leaves, Nx_Uds_Demo a concrete server for the witnesses, Nx_Uds_Session when a session change takes effect,
  Nx_Uds_Served the properties.

  Nx_Uds_Transfer is the model of nx_uds_svc_transfer.c, Nx_Uds_Moves shows that its four services keep the contract. Nx_Uds_Image is
  an abstract receiver of numbered blocks and the proof that TransferData answers as it does, whatever is sent, and that a client that
  sends an image in blocks, repeating the ones it has no answer to, stores exactly that image; Nx_Uds_Open is the reading of a
  RequestDownload, Nx_Uds_Upload the client that reads a region back, Nx_Uds_Moved the properties.

  Nx_Uds_Client is the model of nx_uds_client.c. Nx_Uds_Client_Judged is its invariant and the verdict by which a response is judged,
  with the proof that the code judges so; Nx_Uds_Client_Runs describes every entry point as going on, beginning or ending a transaction;
  Nx_Uds_Client_Clock bounds, by induction over the states that time, polls and arriving messages lead to (\<open>clt_pursued\<close>), how long a
  transaction can last; Nx_Uds_Asked has the properties.

  Bounds and fuel. Loops over an array recurse over the list or over an index that decreases; the loops of the log, of ISO-TP's queues
  and of the ring buffer carry as fuel the number of elements that are there at the start, and the properties show that the result is
  \<open>Some\<close>, so the fuel is enough. The clock is an arbitrary function of the environment unless a property says what it reads.

  Not modelled. Coroutines (core/nx_coro.h) are macros over \<open>switch\<close>. The binding of the UDS server and client
  to ISO-TP is left out. The device drivers are register and bit timing access; the examples under src/examples are programs with
  simulated hardware. The text that \<open>vsnprintf\<close> makes is an argument of the log; compilers' padding of structs is not modelled.
\<close>

end
